(* ===== verification/Prelude.thy ===== *)
theory Prelude
  imports Main
begin

text \<open>
  What every component of the model shares: the values a JavaScript operation can
  throw, the result type of a fallible (or asynchronous) operation, and the generic
  facts about lists and maps that the component proofs lean on.

  An \<open>async\<close> function of the sources is modelled as the function of its resolved value:
  a rejected promise is the left summand of \<open>'a result\<close>, and \<open>await\<close> is
  \<open>bind_result\<close>.
\<close>

section \<open>Errors and results\<close>

datatype js_error =
    Error string \<comment> \<open>\<open>new Error(message)\<close> thrown by the sources\<close>
  | SyntaxError \<comment> \<open>thrown by \<open>JSON.parse\<close>\<close>
  | DomException \<comment> \<open>thrown by a browser API: WebCrypto, \<open>atob\<close>, IndexedDB\<close>
  | TypeError \<comment> \<open>a property read of \<open>undefined\<close> or \<open>null\<close>\<close>

type_synonym 'a result = "js_error + 'a"

abbreviation Throw :: "js_error \<Rightarrow> 'a result" where
  "Throw \<equiv> Inl"

abbreviation Ok :: "'a \<Rightarrow> 'a result" where
  "Ok \<equiv> Inr"

definition bind_result :: "'a result \<Rightarrow> ('a \<Rightarrow> 'b result) \<Rightarrow> 'b result" where
  "bind_result r f = (case r of Inl e \<Rightarrow> Inl e | Inr x \<Rightarrow> f x)"

lemma bind_result_simps [simp]:
  "bind_result (Inl e) f = Inl e"
  "bind_result (Inr x) f = f x"
  by (simp_all add: bind_result_def)

lemma bind_result_Ok_iff:
  "bind_result r f = Inr y \<longleftrightarrow> (\<exists>x. r = Inr x \<and> f x = Inr y)"
  by (cases r) auto

lemma bind_result_cong [fundef_cong]:
  "r = r' \<Longrightarrow> (\<And>x. r' = Inr x \<Longrightarrow> f x = g x) \<Longrightarrow> bind_result r f = bind_result r' g"
  by (cases r') auto

lemma loaded_cases:
  obtains (err) x where "r = Throw x" | (found) k d where "r = Ok (Some k, d)" | (none) d where "r = Ok (None, d)"
proof (cases r)
  case (Inr p)
  then show thesis using found none by (cases p; cases "fst p") auto
qed (use err in simp)

text \<open>\<open>try { return await r } catch { throw e }\<close>: the error is replaced.\<close>

definition rethrow :: "js_error \<Rightarrow> 'a result \<Rightarrow> 'a result" where
  "rethrow e r = (case r of Inl _ \<Rightarrow> Inl e | Inr x \<Rightarrow> Inr x)"

lemma rethrow_simps [simp]:
  "rethrow e (Inl e') = Inl e"
  "rethrow e (Inr x) = Inr x"
  by (simp_all add: rethrow_def)

text \<open>\<open>try { return await r } catch { return v }\<close>: the error becomes a value.\<close>

definition or_else :: "'a \<Rightarrow> 'a result \<Rightarrow> 'a" where
  "or_else v r = (case r of Inl _ \<Rightarrow> v | Inr x \<Rightarrow> x)"

lemma or_else_simps [simp]:
  "or_else v (Inl e) = v"
  "or_else v (Inr x) = x"
  by (simp_all add: or_else_def)

text \<open>\<open>v ?? d\<close> on a nullable value.\<close>

definition nullish :: "'a option \<Rightarrow> 'a \<Rightarrow> 'a" where
  "nullish v d = (case v of None \<Rightarrow> d | Some x \<Rightarrow> x)"

lemma nullish_simps [simp]:
  "nullish None d = d"
  "nullish (Some x) d = x"
  by (simp_all add: nullish_def)

section \<open>Collections of facts\<close>

named_theorems pane_simps \<open>equations that evaluate the pane operations\<close>
named_theorems codec_simps \<open>what a decoder returns on an encoder's output\<close>
named_theorems row_simps \<open>how the list operations change a row's key and id\<close>

section \<open>Coders\<close>

text \<open>
  The interface between a writer and its reader: what is read back from written text is what
  was written. A client gets that different values have different texts.
\<close>

locale coder =
  fixes enc :: "'a \<Rightarrow> 'b" and dec :: "'b \<Rightarrow> 'a option" and ok :: "'a \<Rightarrow> bool"
  assumes dec_enc: "ok x \<Longrightarrow> dec (enc x) = Some x"
begin

lemma enc_inj: "ok x \<Longrightarrow> ok y \<Longrightarrow> enc x = enc y \<Longrightarrow> x = y"
  by (metis option.inject dec_enc)

lemma inj_on_enc: "inj_on enc {x. ok x}"
  by (rule inj_onI) (simp add: enc_inj)

end

section \<open>Lists\<close>

lemma distinct_map_filterI [intro]:
  "distinct (map f xs) \<Longrightarrow> distinct (map f (filter P xs))"
  by (rule distinct_map_filter)

lemma distinct_mapD: "distinct (map f xs) \<Longrightarrow> distinct xs"
  by (simp add: distinct_map)

lemma map_of_rev_eq: "distinct (map fst xs) \<Longrightarrow> map_of (rev xs) = map_of xs"
  by (rule map_of_eqI) (auto simp: rev_map [symmetric] map_of_eq_Some_iff)

lemma find_append:
  "find P (xs @ ys) = (case find P xs of None \<Rightarrow> find P ys | Some x \<Rightarrow> Some x)"
  by (induction xs) auto

end
