(* ===== verification/Pane_Layout.thy ===== *)
theory Pane_Layout
  imports Prelude "HOL-Library.Multiset"
begin

text \<open>
  The split-pane arrangement of the application shell: \<open>components/paneLayout.ts\<close> (the
  drop rules and the duplicate removal), the payload and zone types of
  \<open>components/paneDnd.ts\<close>, and the operations of \<open>components/Layout.tsx\<close> that change the
  arrangement outside a drop. Three columns, each optionally stacked into two halves;
  every app but Home is shown at most once.
\<close>

section \<open>Apps, panes and the arrangement\<close>

datatype app_key =
    Home | Emails | Chat | Scheduler | Drive | Notes | Tasks | Userstories | Tickets
  | Documents | Skills | Aichat | Github | About | Reminders | Requests | Test_access

datatype pane_key = PLeft | PCenter | PRight

datatype pane_half = Top | Bottom

datatype drop_zone = ZLeft | ZRight | ZTop | ZBottom | ZCenter

datatype pane_drag_payload =
    DragApp app_key
  | DragPane pane_key "pane_half option"

record pane_arrangement =
  left :: app_key
  center :: "app_key option"
  right :: "app_key option"
  subSplit :: "pane_key \<Rightarrow> bool"
  subBottomView :: "pane_key \<Rightarrow> app_key"

type_synonym pane_slot = "pane_key \<times> pane_half"

record pane_drop_result =
  next_arr :: pane_arrangement
  focus :: pane_slot
  navigateTo :: "app_key option"
  alreadyOpen :: bool

definition isSingleInstance :: "app_key \<Rightarrow> bool" where
  "isSingleInstance app \<longleftrightarrow> app \<noteq> Home"

definition SLOT_ORDER :: "pane_slot list" where
  "SLOT_ORDER =
     [(PLeft, Top), (PLeft, Bottom), (PCenter, Top), (PCenter, Bottom),
      (PRight, Top), (PRight, Bottom)]"

definition appAt :: "pane_arrangement \<Rightarrow> pane_key \<Rightarrow> pane_half \<Rightarrow> app_key option" where
  "appAt a pane half =
     (if half = Bottom then (if subSplit a pane then Some (subBottomView a pane) else None)
      else (case pane of PLeft \<Rightarrow> Some (left a) | PCenter \<Rightarrow> center a | PRight \<Rightarrow> right a))"

definition visibleSlots :: "pane_arrangement \<Rightarrow> pane_slot list" where
  "visibleSlots a = filter (\<lambda>(pane, half). appAt a pane half \<noteq> None) SLOT_ORDER"

definition findOpenApp :: "pane_arrangement \<Rightarrow> app_key \<Rightarrow> pane_slot option" where
  "findOpenApp a app = find (\<lambda>(pane, half). appAt a pane half = Some app) (visibleSlots a)"

text \<open>Writing a column's own view; a bottom half also turns the column's split on.\<close>

definition set_column :: "pane_arrangement \<Rightarrow> pane_key \<Rightarrow> app_key \<Rightarrow> pane_arrangement" where
  "set_column a pane app =
     (case pane of PLeft \<Rightarrow> a\<lparr>left := app\<rparr>
      | PCenter \<Rightarrow> a\<lparr>center := Some app\<rparr>
      | PRight \<Rightarrow> a\<lparr>right := Some app\<rparr>)"

definition setAppAt ::
  "pane_arrangement \<Rightarrow> pane_key \<Rightarrow> pane_half \<Rightarrow> app_key \<Rightarrow> pane_arrangement" where
  "setAppAt a pane half app =
     (if half = Bottom
      then a\<lparr>subSplit := (subSplit a)(pane := True),
             subBottomView := (subBottomView a)(pane := app)\<rparr>
      else set_column a pane app)"

definition firstFreeColumn :: "pane_arrangement \<Rightarrow> pane_key option" where
  "firstFreeColumn a = (if right a = None then Some PRight else None)"

definition canOpenNewColumn :: "pane_arrangement \<Rightarrow> bool" where
  "canOpenNewColumn a \<longleftrightarrow> firstFreeColumn a \<noteq> None"

definition clearSource ::
  "pane_arrangement \<Rightarrow> pane_key \<Rightarrow> pane_half \<Rightarrow> pane_arrangement" where
  "clearSource a from_pane half =
     (if half = Bottom then a\<lparr>subSplit := (subSplit a)(from_pane := False)\<rparr>
      else if subSplit a from_pane
      then set_column (a\<lparr>subSplit := (subSplit a)(from_pane := False)\<rparr>) from_pane
             (subBottomView a from_pane)
      else (case from_pane of PLeft \<Rightarrow> a
            | PCenter \<Rightarrow> a\<lparr>center := None\<rparr>
            | PRight \<Rightarrow> a\<lparr>right := None\<rparr>))"

definition wouldEmptyLeft :: "pane_arrangement \<Rightarrow> pane_drag_payload \<Rightarrow> bool" where
  "wouldEmptyLeft a p =
     (case p of DragApp _ \<Rightarrow> False
      | DragPane from_pane half \<Rightarrow>
          from_pane = PLeft \<and> nullish half Top = Top \<and> \<not> subSplit a PLeft)"

section \<open>Dropping\<close>

definition effective_zone :: "pane_arrangement \<Rightarrow> pane_key \<Rightarrow> drop_zone \<Rightarrow> drop_zone" where
  "effective_zone current target zone =
     (if (zone = ZTop \<or> zone = ZBottom) \<and> subSplit current target then ZCenter
      else if (zone = ZLeft \<or> zone = ZRight) \<and> \<not> canOpenNewColumn current then ZCenter
      else zone)"

definition source_half :: "pane_drag_payload \<Rightarrow> pane_half" where
  "source_half payload =
     (case payload of DragApp _ \<Rightarrow> Top | DragPane _ half \<Rightarrow> nullish half Top)"

definition moving_app :: "pane_arrangement \<Rightarrow> pane_drag_payload \<Rightarrow> app_key option" where
  "moving_app current payload =
     (case payload of DragApp app \<Rightarrow> Some app
      | DragPane from_pane _ \<Rightarrow> appAt current from_pane (source_half payload))"

definition vacate ::
  "pane_arrangement \<Rightarrow> pane_drag_payload \<Rightarrow> pane_arrangement \<Rightarrow> pane_arrangement" where
  "vacate current payload nxt =
     (case payload of DragApp _ \<Rightarrow> nxt
      | DragPane from_pane _ \<Rightarrow>
          if wouldEmptyLeft current payload then nxt\<lparr>left := Home\<rparr>
          else clearSource nxt from_pane (source_half payload))"

definition finish_drop ::
  "pane_arrangement \<Rightarrow> pane_arrangement \<Rightarrow> pane_key \<Rightarrow> pane_half \<Rightarrow> pane_drop_result" where
  "finish_drop current nxt pane half =
     \<lparr>next_arr = nxt, focus = (pane, half),
      navigateTo = (if left nxt \<noteq> left current then Some (left nxt) else None),
      alreadyOpen = False\<rparr>"

text \<open>The arrangement a centre drop leaves: a replace, or for a pane drag a swap.\<close>

definition drop_center ::
  "pane_arrangement \<Rightarrow> pane_key \<Rightarrow> pane_half \<Rightarrow> pane_drag_payload \<Rightarrow> app_key \<Rightarrow> pane_arrangement"
where
  "drop_center current target targetHalf payload moving =
     (let nxt = setAppAt current target targetHalf moving in
      case payload of DragApp _ \<Rightarrow> nxt
      | DragPane from_pane _ \<Rightarrow>
          (case appAt current target targetHalf of
             Some displaced \<Rightarrow> setAppAt nxt from_pane (source_half payload) displaced
           | None \<Rightarrow> clearSource nxt from_pane (source_half payload)))"

text \<open>The arrangement a top or bottom drop leaves, before the source is vacated.\<close>

definition drop_stack ::
  "pane_arrangement \<Rightarrow> pane_key \<Rightarrow> pane_half \<Rightarrow> app_key \<Rightarrow> pane_arrangement" where
  "drop_stack current target half moving =
     (case appAt current target Top of
        Some existing \<Rightarrow>
          (if half = Top
           then setAppAt (setAppAt current target Bottom existing) target Top moving
           else setAppAt current target Bottom moving)
      | None \<Rightarrow>
          (let nxt = setAppAt current target half moving
           in nxt\<lparr>subSplit := (subSplit nxt)(target := True)\<rparr>))"

definition applyPaneDrop ::
  "pane_arrangement \<Rightarrow> pane_key \<Rightarrow> pane_half \<Rightarrow> drop_zone \<Rightarrow> pane_drag_payload
     \<Rightarrow> pane_drop_result option" where
  "applyPaneDrop current target targetHalf zone payload =
     (let ez = effective_zone current target zone in
      if (case payload of DragApp _ \<Rightarrow> False
          | DragPane from_pane _ \<Rightarrow>
              from_pane = target \<and> source_half payload = targetHalf \<and> ez = ZCenter)
      then None
      else (case moving_app current payload of
        None \<Rightarrow> None
      | Some moving \<Rightarrow>
          (case (case payload of DragApp _ \<Rightarrow>
                   if isSingleInstance moving then findOpenApp current moving else None
                 | DragPane _ _ \<Rightarrow> None) of
             Some open \<Rightarrow>
               Some \<lparr>next_arr = current, focus = open, navigateTo = None, alreadyOpen = True\<rparr>
           | None \<Rightarrow>
               Some (case ez of
                 ZCenter \<Rightarrow>
                   finish_drop current (drop_center current target targetHalf payload moving)
                     target targetHalf
               | ZTop \<Rightarrow>
                   finish_drop current (vacate current payload (drop_stack current target Top moving))
                     target Top
               | ZBottom \<Rightarrow>
                   finish_drop current
                     (vacate current payload (drop_stack current target Bottom moving))
                     target Bottom
               | _ \<Rightarrow>
                   (let free = nullish (firstFreeColumn current) target
                    in finish_drop current
                         (vacate current payload (setAppAt current free Top moving)) free Top)))))"

section \<open>Removing duplicates\<close>

text \<open>
  One pass over the visible slots: the first slot whose single-instance app was already
  seen, together with the slot that showed it first.
\<close>

fun find_dup ::
  "pane_arrangement \<Rightarrow> (app_key \<rightharpoonup> pane_slot) \<Rightarrow> pane_slot list \<Rightarrow> (pane_slot \<times> pane_slot) option"
where
  "find_dup a seen [] = None"
| "find_dup a seen (slot # slots) =
     (case appAt a (fst slot) (snd slot) of
        None \<Rightarrow> find_dup a seen slots
      | Some app \<Rightarrow>
          if \<not> isSingleInstance app then find_dup a seen slots
          else (case seen app of
                  Some k \<Rightarrow> Some (slot, k)
                | None \<Rightarrow> find_dup a (seen(app \<mapsto> slot)) slots))"

fun dedupe_passes ::
  "nat \<Rightarrow> pane_arrangement \<Rightarrow> pane_slot option \<Rightarrow> pane_arrangement \<times> pane_slot option" where
  "dedupe_passes 0 a kept = (a, kept)"
| "dedupe_passes (Suc n) a kept =
     (case find_dup a Map.empty (visibleSlots a) of
        None \<Rightarrow> (a, kept)
      | Some (dup, k) \<Rightarrow> dedupe_passes n (clearSource a (fst dup) (snd dup)) (Some k))"

definition dedupeArrangement :: "pane_arrangement \<Rightarrow> (pane_arrangement \<times> pane_slot) option" where
  "dedupeArrangement current =
     (case dedupe_passes (length SLOT_ORDER) current None of
        (nxt, Some kept) \<Rightarrow> Some (nxt, kept)
      | (_, None) \<Rightarrow> None)"

section \<open>What is on screen\<close>

definition visibleApps :: "pane_arrangement \<Rightarrow> app_key list" where
  "visibleApps a = List.map_filter (\<lambda>(pane, half). appAt a pane half) SLOT_ORDER"

definition apps :: "pane_arrangement \<Rightarrow> app_key multiset" where
  "apps a = mset (visibleApps a)"

text \<open>A closed column is not stacked: its bottom half would be open but not on screen.\<close>

definition arrangement_wf :: "pane_arrangement \<Rightarrow> bool" where
  "arrangement_wf a \<longleftrightarrow> (\<forall>pane. appAt a pane Top = None \<longrightarrow> \<not> subSplit a pane)"

definition no_duplicates :: "pane_arrangement \<Rightarrow> bool" where
  "no_duplicates a \<longleftrightarrow> distinct (filter isSingleInstance (visibleApps a))"

definition opt_mset :: "'a option \<Rightarrow> 'a multiset" where
  "opt_mset v = (case v of None \<Rightarrow> {#} | Some x \<Rightarrow> {#x#})"

lemma opt_mset_simps [simp]:
  "opt_mset None = {#}"
  "opt_mset (Some x) = {#x#}"
  by (simp_all add: opt_mset_def)

lemma appAt_simps [pane_simps]:
  "appAt a PLeft Top = Some (left a)"
  "appAt a PCenter Top = center a"
  "appAt a PRight Top = right a"
  "appAt a pane Bottom = (if subSplit a pane then Some (subBottomView a pane) else None)"
  by (simp_all add: appAt_def)

lemma apps_eq:
  "apps a = opt_mset (appAt a PLeft Top) + opt_mset (appAt a PLeft Bottom)
     + opt_mset (appAt a PCenter Top) + opt_mset (appAt a PCenter Bottom)
     + opt_mset (appAt a PRight Top) + opt_mset (appAt a PRight Bottom)"
  by (simp add: apps_def visibleApps_def SLOT_ORDER_def map_filter_def opt_mset_def
      split: option.splits)

lemma all_slots: "(\<forall>pane half. P pane half) \<longleftrightarrow>
  P PLeft Top \<and> P PLeft Bottom \<and> P PCenter Top \<and> P PCenter Bottom \<and> P PRight Top \<and> P PRight Bottom"
  by (metis pane_half.exhaust pane_key.exhaust)

lemma appAt_setAppAt [pane_simps]:
  "appAt (setAppAt a p h x) p' h' = (if p' = p \<and> h' = h then Some x else appAt a p' h')"
  by (cases h; cases p; cases p'; cases h')
     (simp_all add: appAt_def setAppAt_def set_column_def)

lemma appAt_clearSource:
  "appAt (clearSource a p h) p' h' =
     (if p' \<noteq> p then appAt a p' h'
      else if h' = Bottom then None
      else if h = Bottom then appAt a p Top
      else if subSplit a p then appAt a p Bottom
      else if p = PLeft then Some (left a) else None)"
  by (cases p; cases p'; cases h'; cases h)
     (simp_all add: appAt_def clearSource_def set_column_def)

lemma subSplit_iff_bottom: "subSplit a p \<longleftrightarrow> appAt a p Bottom \<noteq> None"
  by (simp add: appAt_def)

lemma not_split_bottom: "\<not> subSplit a p \<Longrightarrow> appAt a p Bottom = None"
  by (simp add: appAt_def)

lemma apps_setAppAt:
  "apps (setAppAt a p h x) + opt_mset (appAt a p h) = add_mset x (apps a)"
  by (cases p; cases h) (simp_all add: apps_eq appAt_setAppAt)

text \<open>Removing a pane removes its app, except that the routed column cannot be emptied.\<close>

lemma apps_clearSource:
  "\<not> (p = PLeft \<and> h = Top \<and> \<not> subSplit a PLeft) \<Longrightarrow>
   apps (clearSource a p h) + opt_mset (appAt a p h) = apps a"
  by (cases p; cases h; cases "subSplit a p")
     (auto simp: apps_eq appAt_clearSource not_split_bottom)

lemma in_apps_iff: "app \<in># apps a \<longleftrightarrow> (\<exists>p h. appAt a p h = Some app)"
proof -
  have "(\<exists>p h. appAt a p h = Some app) \<longleftrightarrow> \<not> (\<forall>p h. appAt a p h \<noteq> Some app)"
    by blast
  also have "\<dots> \<longleftrightarrow> app \<in># apps a"
    unfolding all_slots by (auto simp: apps_eq opt_mset_def split: option.splits)
  finally show ?thesis by blast
qed

lemma set_SLOT_ORDER: "slot \<in> set SLOT_ORDER"
proof (cases slot)
  case (Pair p h)
  then show ?thesis by (cases p; cases h) (simp_all add: SLOT_ORDER_def)
qed

lemma findOpenApp_None_iff: "findOpenApp a app = None \<longleftrightarrow> app \<notin># apps a"
proof -
  have "findOpenApp a app = None \<longleftrightarrow> (\<forall>slot. appAt a (fst slot) (snd slot) \<noteq> Some app)"
    by (auto simp: findOpenApp_def visibleSlots_def find_None_iff set_SLOT_ORDER split_beta)
      (metis option.distinct(1))
  then show ?thesis by (simp add: in_apps_iff)
qed

lemma findOpenApp_Some: "findOpenApp a app = Some (p, h) \<Longrightarrow> appAt a p h = Some app"
  by (auto simp: findOpenApp_def find_Some_iff)

lemma distinct_iff_count: "distinct xs \<longleftrightarrow> (\<forall>x. count (mset xs) x \<le> 1)"
  by (induction xs) (auto simp: not_in_iff[symmetric] le_Suc_eq count_eq_zero_iff)

lemma no_duplicates_iff:
  "no_duplicates a \<longleftrightarrow> (\<forall>app. isSingleInstance app \<longrightarrow> count (apps a) app \<le> 1)"
  by (auto simp: no_duplicates_def distinct_iff_count apps_def)


section \<open>What a drop does to the apps on screen\<close>

text \<open>Where the dropped app goes first, and what it replaces there.\<close>

lemma drop_stack_apps:
  assumes "appAt a target Top \<noteq> None" "\<not> subSplit a target"
  shows "apps (drop_stack a target h moving) = add_mset moving (apps a)"
proof -
  obtain e where e: "appAt a target Top = Some e" using assms(1) by blast
  have 1: "apps (setAppAt a target Bottom x) = add_mset x (apps a)" for x
    using apps_setAppAt [of a target Bottom x] assms(2) by (simp add: not_split_bottom)
  have 2: "apps (setAppAt (setAppAt a target Bottom e) target Top moving) = add_mset moving (apps a)"
    using apps_setAppAt [of "setAppAt a target Bottom e" target Top moving] e 1
    by (simp add: appAt_setAppAt add_mset_commute)
  show ?thesis using e 1 2 by (cases h) (simp_all add: drop_stack_def)
qed

lemma appAt_drop_stack:
  assumes "appAt a target Top = Some e" "\<not> subSplit a target"
  shows "appAt (drop_stack a target h moving) p h' =
     (if p \<noteq> target then appAt a p h'
      else if h' = h then Some moving else Some e)"
  using assms by (cases h; cases h'; auto simp: drop_stack_def appAt_setAppAt)

text \<open>
  Vacating the source: the pane the app came from gives it up, and Home fills the
  routed column when it would be left empty.
\<close>

lemma vacate_apps:
  assumes "appAt nxt from_pane (nullish half Top) = Some moving"
    and "subSplit a PLeft \<longrightarrow> subSplit nxt PLeft"
  shows "filter_mset isSingleInstance (apps (vacate a (DragPane from_pane half) nxt)
           + {#moving#}) = filter_mset isSingleInstance (apps nxt)"
proof (cases "wouldEmptyLeft a (DragPane from_pane half)")
  case True
  then have f: "from_pane = PLeft" "nullish half Top = Top"
    by (simp_all add: wouldEmptyLeft_def)
  have "apps (nxt\<lparr>left := Home\<rparr>) + {#moving#} = add_mset Home (apps nxt)"
    using apps_setAppAt [of nxt PLeft Top Home] assms(1) f
    by (simp add: setAppAt_def set_column_def)
  then have "filter_mset isSingleInstance (apps (nxt\<lparr>left := Home\<rparr>) + {#moving#})
      = filter_mset isSingleInstance (apps nxt)"
    by (simp add: isSingleInstance_def)
  with True show ?thesis by (simp add: vacate_def)
next
  case False
  with assms(2) have "apps (clearSource nxt from_pane (nullish half Top))
      + opt_mset (appAt nxt from_pane (nullish half Top)) = apps nxt"
    by (intro apps_clearSource) (auto simp: wouldEmptyLeft_def)
  with False assms(1) show ?thesis by (simp add: vacate_def source_half_def)
qed

lemma subSplit_setAppAt:
  "subSplit (setAppAt a p h x) q \<longleftrightarrow> subSplit a q \<or> (q = p \<and> h = Bottom)"
  by (cases h; cases p) (auto simp: setAppAt_def set_column_def)

lemma subSplit_drop_stack: "subSplit a q \<Longrightarrow> subSplit (drop_stack a p h x) q"
  by (auto simp: drop_stack_def subSplit_setAppAt Let_def split: option.splits)

lemma wf_visible_top:
  "arrangement_wf a \<Longrightarrow> appAt a p h \<noteq> None \<Longrightarrow> appAt a p Top \<noteq> None"
  by (cases h) (auto simp: arrangement_wf_def subSplit_iff_bottom)

lemma drop_center_pane_apps:
  assumes "appAt a target th = Some d" "appAt a from_pane (nullish half Top) = Some moving"
    and "\<not> (from_pane = target \<and> nullish half Top = th)"
  shows "apps (drop_center a target th (DragPane from_pane half) moving) = apps a"
proof -
  let ?n = "setAppAt a target th moving"
  have "apps ?n + {#d#} = add_mset moving (apps a)"
    using apps_setAppAt [of a target th moving] assms(1) by simp
  moreover have "appAt ?n from_pane (nullish half Top) = Some moving"
    using assms by (simp add: appAt_setAppAt)
  then have "apps (setAppAt ?n from_pane (nullish half Top) d) + {#moving#} = add_mset d (apps ?n)"
    using apps_setAppAt [of ?n from_pane "nullish half Top" d] by simp
  ultimately show ?thesis
    using assms(1) by (simp add: drop_center_def source_half_def)
qed

lemma source_kept_by_stack:
  assumes "appAt a target Top = Some e" "\<not> subSplit a target"
    and "appAt a p sh = Some moving"
  shows "appAt (drop_stack a target h moving) p sh = Some moving"
proof (cases "p = target")
  case True
  with assms have "sh = Top" "e = moving" by (cases sh; simp add: pane_simps)+
  with True assms show ?thesis by (cases h) (simp_all add: appAt_drop_stack)
next
  case False
  with assms show ?thesis by (simp add: appAt_drop_stack)
qed

lemma new_column_apps:
  assumes "right a = None" "appAt a p sh = Some moving"
  shows "apps (setAppAt a PRight Top moving) = add_mset moving (apps a)"
    and "appAt (setAppAt a PRight Top moving) p sh = Some moving"
  using apps_setAppAt [of a PRight Top moving] assms
  by (simp_all add: pane_simps)

lemma effective_zone_cases:
  obtains "effective_zone a target zone = ZCenter"
  | "effective_zone a target zone = ZTop" "\<not> subSplit a target"
  | "effective_zone a target zone = ZBottom" "\<not> subSplit a target"
  | "effective_zone a target zone \<in> {ZLeft, ZRight}" "right a = None"
proof -
  have "effective_zone a target zone = ZCenter \<or>
    (effective_zone a target zone \<in> {ZTop, ZBottom} \<and> \<not> subSplit a target) \<or>
    (effective_zone a target zone \<in> {ZLeft, ZRight} \<and> right a = None)"
    by (cases zone) (auto simp: effective_zone_def canOpenNewColumn_def firstFreeColumn_def)
  then show thesis using that by blast
qed

text \<open>
  What a drop returns, one rule per outcome: the shape every property of
  \<open>applyPaneDrop\<close> is proved over.
\<close>

lemma applyPaneDrop_cases:
  assumes "applyPaneDrop a target th zone payload = Some r"
  obtains (already_open) app slot where "payload = DragApp app" "isSingleInstance app"
      "findOpenApp a app = Some slot"
      "r = \<lparr>next_arr = a, focus = slot, navigateTo = None, alreadyOpen = True\<rparr>"
  | (placed) moving n p h where "moving_app a payload = Some moving"
      "\<And>app. payload = DragApp app \<Longrightarrow> isSingleInstance app \<Longrightarrow> app \<notin># apps a"
      "r = finish_drop a n p h"
      "(p = target \<and> n = drop_center a target th payload moving
          \<and> (\<forall>f hf. payload = DragPane f hf \<longrightarrow> \<not> (f = target \<and> nullish hf Top = th)))
       \<or> (p = target \<and> \<not> subSplit a target \<and> n = vacate a payload (drop_stack a target h moving))
       \<or> (p = PRight \<and> right a = None \<and> n = vacate a payload (setAppAt a PRight Top moving))"
proof -
  obtain moving where m: "moving_app a payload = Some moving"
    using assms by (auto simp: applyPaneDrop_def Let_def split: if_splits option.splits)
  let ?open = "case payload of DragApp _ \<Rightarrow>
      if isSingleInstance moving then findOpenApp a moving else None | DragPane _ _ \<Rightarrow> None"
  show thesis
  proof (cases ?open)
    case (Some slot)
    then obtain app where "payload = DragApp app" "app = moving" "isSingleInstance app"
      using m by (auto simp: moving_app_def split: pane_drag_payload.splits if_splits)
    with Some assms m show thesis
      by (intro already_open [of app slot]) (auto simp: applyPaneDrop_def Let_def)
  next
    case None
    have fresh: "isSingleInstance app \<Longrightarrow> app \<notin># apps a" if "payload = DragApp app" for app
      using that None m by (simp add: moving_app_def findOpenApp_None_iff)
    show thesis
    proof (cases rule: effective_zone_cases [of a target zone])
      case 1
      with assms m None
      have "r = finish_drop a (drop_center a target th payload moving) target th"
        "\<forall>f hf. payload = DragPane f hf \<longrightarrow> \<not> (f = target \<and> nullish hf Top = th)"
        by (auto simp: applyPaneDrop_def source_half_def split: if_splits)
      then show thesis by (intro placed [OF m fresh]) blast+
    next
      case 2
      with assms m None
      have "r = finish_drop a (vacate a payload (drop_stack a target Top moving)) target Top"
        by (auto simp: applyPaneDrop_def split: if_splits)
      with 2 show thesis by (intro placed [OF m fresh]) blast+
    next
      case 3
      with assms m None
      have "r = finish_drop a (vacate a payload (drop_stack a target Bottom moving)) target Bottom"
        by (auto simp: applyPaneDrop_def split: if_splits)
      with 3 show thesis by (intro placed [OF m fresh]) blast+
    next
      case 4
      with assms m None
      have "r = finish_drop a (vacate a payload (setAppAt a PRight Top moving)) PRight Top"
        by (auto simp: applyPaneDrop_def firstFreeColumn_def split: if_splits)
      with 4 show thesis by (intro placed [OF m fresh]) blast+
    qed
  qed
qed


lemma wf_setAppAt:
  "arrangement_wf a \<Longrightarrow> appAt a p Top \<noteq> None \<or> h = Top \<Longrightarrow> arrangement_wf (setAppAt a p h x)"
  by (auto simp: arrangement_wf_def appAt_setAppAt subSplit_setAppAt)

lemma subSplit_clearSource:
  "subSplit (clearSource a p h) q \<longleftrightarrow> (if q = p then False else subSplit a q)"
  by (simp add: subSplit_iff_bottom appAt_clearSource)

lemma wf_clearSource: "arrangement_wf a \<Longrightarrow> arrangement_wf (clearSource a p h)"
  by (auto simp: arrangement_wf_def appAt_clearSource subSplit_clearSource)

lemma wf_vacate: "arrangement_wf nxt \<Longrightarrow> arrangement_wf (vacate a payload nxt)"
proof -
  assume wf: "arrangement_wf nxt"
  then have "arrangement_wf (nxt\<lparr>left := Home\<rparr>)"
    using wf_setAppAt [of nxt PLeft Top Home] by (simp add: setAppAt_def set_column_def)
  with wf show ?thesis
    by (simp add: vacate_def wf_clearSource split: pane_drag_payload.split)
qed

lemma wf_drop_stack:
  "arrangement_wf a \<Longrightarrow> appAt a target Top \<noteq> None \<Longrightarrow> arrangement_wf (drop_stack a target h x)"
  by (auto simp: drop_stack_def appAt_setAppAt intro!: wf_setAppAt)

lemma wf_drop_center:
  assumes "arrangement_wf a" "appAt a target th \<noteq> None" "moving_app a payload = Some moving"
  shows "arrangement_wf (drop_center a target th payload moving)"
proof -
  have n: "arrangement_wf (setAppAt a target th moving)"
    using assms wf_visible_top by (blast intro: wf_setAppAt)
  show ?thesis
  proof (cases payload)
    case (DragPane f hf)
    with assms have "appAt a f Top \<noteq> None"
      using wf_visible_top [of a f "nullish hf Top"] by (simp add: moving_app_def source_half_def)
    then have "appAt (setAppAt a target th moving) f Top \<noteq> None"
      by (simp add: appAt_setAppAt)
    with n DragPane show ?thesis
      by (auto simp: drop_center_def Let_def intro: wf_setAppAt wf_clearSource split: option.split)
  qed (use n in \<open>simp add: drop_center_def\<close>)
qed

lemma pane_drop_apps:
  assumes "arrangement_wf a" and "appAt a target targetHalf \<noteq> None"
    and "applyPaneDrop a target targetHalf zone (DragPane from_pane half) = Some r"
  shows "filter_mset isSingleInstance (apps (next_arr r)) = filter_mset isSingleInstance (apps a)"
  using assms(3)
proof (cases rule: applyPaneDrop_cases)
  case (placed moving n p h)
  have src: "appAt a from_pane (nullish half Top) = Some moving"
    using placed(1) by (simp add: moving_app_def source_half_def)
  obtain d where d: "appAt a target targetHalf = Some d" using assms(2) by blast
  obtain e where e: "appAt a target Top = Some e"
    using wf_visible_top [OF assms(1,2)] by blast
  have vac: "filter_mset isSingleInstance (apps (vacate a (DragPane from_pane half) n'))
      = filter_mset isSingleInstance (apps a)"
    if "apps n' = add_mset moving (apps a)" "appAt n' from_pane (nullish half Top) = Some moving"
      "subSplit a PLeft \<longrightarrow> subSplit n' PLeft" for n'
    using vacate_apps [OF that(2,3)] that(1) by (auto split: if_splits)
  have "filter_mset isSingleInstance (apps n) = filter_mset isSingleInstance (apps a)"
    using placed(4)
  proof (elim disjE conjE)
    assume "n = drop_center a target targetHalf (DragPane from_pane half) moving"
      "\<forall>f hf. DragPane from_pane half = DragPane f hf \<longrightarrow> \<not> (f = target \<and> nullish hf Top = targetHalf)"
    then show ?thesis using drop_center_pane_apps [OF d src] by simp
  next
    assume "\<not> subSplit a target" "n = vacate a (DragPane from_pane half) (drop_stack a target h moving)"
    then show ?thesis
      using drop_stack_apps e source_kept_by_stack [OF e _ src] subSplit_drop_stack
      by (simp add: vac)
  next
    assume "right a = None" "n = vacate a (DragPane from_pane half) (setAppAt a PRight Top moving)"
    then show ?thesis
      using new_column_apps [OF _ src] by (simp add: vac subSplit_setAppAt)
  qed
  with placed(3) show ?thesis by (simp add: finish_drop_def)
qed simp

section \<open>Properties of a drop\<close>

text \<open>
  C39: Dragging an open pane never loses an app and never shows one twice: whatever the
  zone, target and source, the single-instance apps on screen after the drop are exactly
  those before it, each as often as before (only Home placeholders may come and go).
\<close>

theorem pane_drag_keeps_apps:
  assumes "arrangement_wf a" and "appAt a target targetHalf \<noteq> None"
    and "applyPaneDrop a target targetHalf zone (DragPane from_pane half) = Some r"
  shows "filter_mset isSingleInstance (apps (next_arr r)) = filter_mset isSingleInstance (apps a)"
  using assms by (rule pane_drop_apps)

text \<open>
  Every drop on a pane that is on screen, of a sidebar app or of a pane, keeps the
  arrangement well formed (a closed column is never stacked) and free of duplicates.
\<close>

theorem drop_keeps_invariant:
  assumes "arrangement_wf a" "no_duplicates a" "appAt a target targetHalf \<noteq> None"
    and "applyPaneDrop a target targetHalf zone payload = Some r"
  shows "arrangement_wf (next_arr r) \<and> no_duplicates (next_arr r)"
  using assms(4)
proof (cases rule: applyPaneDrop_cases)
  case (already_open app slot)
  with assms show ?thesis by simp
next
  case (placed moving n p h)
  obtain e where e: "appAt a target Top = Some e"
    using wf_visible_top [OF assms(1,3)] by blast
  have wf: "arrangement_wf n"
    using placed(4) assms(1) wf_drop_center [OF assms(1,3) placed(1)]
      wf_drop_stack [OF assms(1), of target] e wf_setAppAt [OF assms(1), of PRight Top]
    by (elim disjE conjE) (simp_all add: wf_vacate)
  have "no_duplicates n"
  proof (cases payload)
    case (DragPane f hf)
    have "filter_mset isSingleInstance (apps (next_arr r)) = filter_mset isSingleInstance (apps a)"
      using assms(1,3,4) DragPane by (intro pane_drop_apps) auto
    then have "count (apps n) x = count (apps a) x" if "isSingleInstance x" for x
      using placed(3) that by (simp add: finish_drop_def multiset_eq_iff) metis
    with assms(2) show ?thesis by (simp add: no_duplicates_iff)
  next
    case (DragApp app)
    then have "moving = app" using placed(1) by (simp add: moving_app_def)
    moreover have "apps n \<subseteq># add_mset moving (apps a)"
      using placed(4) DragApp apps_setAppAt [of a target targetHalf moving]
        apps_setAppAt [of a PRight Top moving] drop_stack_apps [of a target h moving] e
      by (auto simp: drop_center_def vacate_def pane_simps) (metis mset_subset_eq_add_left)
    then have le: "count (apps n) x \<le> count (apps a) x + (if x = moving then 1 else 0)" for x
      by (auto dest: mset_subset_eq_count [where a = x] split: if_splits)
    ultimately have "isSingleInstance moving \<Longrightarrow> count (apps a) moving = 0"
      using placed(2) [OF DragApp] by (simp add: not_in_iff)
    then have "count (apps n) x \<le> 1" if "isSingleInstance x" for x
      using that le [of x] assms(2) unfolding no_duplicates_iff
      by (cases "x = moving") (auto intro: order_trans)
    then show ?thesis by (simp add: no_duplicates_iff)
  qed
  with wf placed(3) show ?thesis by (simp add: finish_drop_def)
qed

text \<open>Two columns side by side: the one the witnesses drag in.\<close>

definition demo_columns :: pane_arrangement where
  "demo_columns = \<lparr>left = Emails, center = None, right = Some Chat,
     subSplit = (\<lambda>_. False), subBottomView = (\<lambda>_. Home)\<rparr>"

lemma demo_columns_ok:
  "arrangement_wf demo_columns" "no_duplicates demo_columns"
  "appAt demo_columns PLeft Top \<noteq> None"
  by (simp_all add: demo_columns_def arrangement_wf_def no_duplicates_def visibleApps_def
      SLOT_ORDER_def map_filter_def pane_simps isSingleInstance_def)

definition demo_stacked :: pane_drop_result where
  "demo_stacked = the (applyPaneDrop demo_columns PLeft Top ZTop (DragPane PRight None))"

lemma demo_stacked_Some:
  "applyPaneDrop demo_columns PLeft Top ZTop (DragPane PRight None) = Some demo_stacked"
  by (simp add: demo_stacked_def demo_columns_def applyPaneDrop_def effective_zone_def
      moving_app_def source_half_def pane_simps Let_def)

theorem pane_drag_keeps_apps_witness:
  "filter_mset isSingleInstance (apps (next_arr demo_stacked))
     = filter_mset isSingleInstance (apps demo_columns)"
  by (rule pane_drag_keeps_apps [OF demo_columns_ok(1,3) demo_stacked_Some])

theorem drop_keeps_invariant_witness:
  "arrangement_wf (next_arr demo_stacked) \<and> no_duplicates (next_arr demo_stacked)"
  by (rule drop_keeps_invariant [OF demo_columns_ok demo_stacked_Some])

section \<open>Removing duplicates\<close>

text \<open>How an earlier visible slot and a later one can be placed.\<close>

definition slot_before :: "pane_slot \<Rightarrow> pane_slot \<Rightarrow> bool" where
  "slot_before s t \<longleftrightarrow>
     t \<noteq> (PLeft, Top) \<and> s \<noteq> t \<and> \<not> (fst s = fst t \<and> snd s = Bottom)"

lemma visibleSlots_ordered: "sorted_wrt slot_before (visibleSlots a)"
  unfolding visibleSlots_def by (rule sorted_wrt_filter) (simp add: SLOT_ORDER_def slot_before_def)

lemma map_filter_visibleSlots:
  "List.map_filter (\<lambda>s. appAt a (fst s) (snd s)) (visibleSlots a) = visibleApps a"
  by (simp add: visibleApps_def visibleSlots_def map_filter_def split_beta)

lemma find_dup_None:
  "find_dup a seen ss = None \<Longrightarrow>
   (let xs = filter isSingleInstance (List.map_filter (\<lambda>s. appAt a (fst s) (snd s)) ss)
    in distinct xs \<and> (\<forall>app \<in> set xs. seen app = None))"
  by (induction a seen ss rule: find_dup.induct)
     (auto simp: Let_def map_filter_simps split: option.splits if_splits, metis not_Some_eq surj_pair)

lemma find_dup_Some:
  "find_dup a seen ss = Some (dup, k) \<Longrightarrow>
   \<exists>xs ys app. ss = xs @ dup # ys \<and> isSingleInstance app
     \<and> appAt a (fst dup) (snd dup) = Some app
     \<and> (seen app = Some k \<or> (k \<in> set xs \<and> appAt a (fst k) (snd k) = Some app))"
proof (induction a seen ss rule: find_dup.induct)
  case (2 a seen slot slots)
  show ?case
  proof (cases "appAt a (fst slot) (snd slot)")
    case None
    with 2 obtain xs ys app where "slots = xs @ dup # ys" "isSingleInstance app"
      "appAt a (fst dup) (snd dup) = Some app"
      "seen app = Some k \<or> (k \<in> set xs \<and> appAt a (fst k) (snd k) = Some app)"
      by auto
    then show ?thesis
      by (intro exI [of _ "slot # xs"] exI [of _ ys] exI [of _ app]) auto
  next
    case (Some x)
    show ?thesis
    proof (cases "isSingleInstance x \<and> seen x \<noteq> None")
      case True
      with Some 2(4) show ?thesis
        by (intro exI [of _ "[]"] exI [of _ slots] exI [of _ x]) auto
    next
      case False
      define seen' where "seen' = (if isSingleInstance x then seen(x \<mapsto> slot) else seen)"
      have f: "find_dup a seen' slots = Some (dup, k)"
        using Some 2(4) False by (cases "seen x") (auto simp: seen'_def split: if_splits)
      have "\<exists>xs ys app. slots = xs @ dup # ys \<and> isSingleInstance app
          \<and> appAt a (fst dup) (snd dup) = Some app
          \<and> (seen' app = Some k \<or> (k \<in> set xs \<and> appAt a (fst k) (snd k) = Some app))"
      proof (cases "isSingleInstance x")
        case True
        with False have "seen x = None" by blast
        moreover have s': "seen' = seen(x \<mapsto> slot)" using True by (simp add: seen'_def)
        ultimately show ?thesis
          using 2(3) [OF Some] f True unfolding s' by blast
      next
        case False
        with f show ?thesis using 2(2) [OF Some] by (simp add: seen'_def)
      qed
      then obtain xs ys app where "slots = xs @ dup # ys" "isSingleInstance app"
        "appAt a (fst dup) (snd dup) = Some app"
        "seen' app = Some k \<or> (k \<in> set xs \<and> appAt a (fst k) (snd k) = Some app)" by blast
      with Some show ?thesis
        by (intro exI [of _ "slot # xs"] exI [of _ ys] exI [of _ app])
           (auto simp: seen'_def split: if_splits)
    qed
  qed
qed simp

text \<open>
  One pass closes the later copy: the copy that stays is in an earlier slot, and is
  still there afterwards.
\<close>

lemma dedupe_pass:
  assumes "find_dup a Map.empty (visibleSlots a) = Some (dup, k)"
  obtains app where "isSingleInstance app" "apps a = add_mset app (apps (clearSource a (fst dup) (snd dup)))"
    "appAt (clearSource a (fst dup) (snd dup)) (fst k) (snd k) = Some app"
    "left (clearSource a (fst dup) (snd dup)) = left a"
proof -
  obtain xs ys app where ss: "visibleSlots a = xs @ dup # ys" "isSingleInstance app"
    "appAt a (fst dup) (snd dup) = Some app" "k \<in> set xs" "appAt a (fst k) (snd k) = Some app"
    using find_dup_Some [OF assms] by auto
  have before: "slot_before k dup"
    using visibleSlots_ordered [of a] ss(1,4) by (simp add: sorted_wrt_append)
  then have "\<not> (fst dup = PLeft \<and> snd dup = Top \<and> \<not> subSplit a PLeft)"
    by (auto simp: slot_before_def prod_eq_iff)
  from apps_clearSource [OF this] ss(3)
  have "apps a = add_mset app (apps (clearSource a (fst dup) (snd dup)))" by simp
  moreover have "appAt (clearSource a (fst dup) (snd dup)) (fst k) (snd k) = Some app"
    using before ss(5)
    by (cases "snd k"; cases "snd dup") (auto simp: appAt_clearSource slot_before_def prod_eq_iff)
  moreover have "left (clearSource a (fst dup) (snd dup)) = left a"
    using before
    by (cases "fst dup"; cases "snd dup")
       (auto simp: slot_before_def prod_eq_iff clearSource_def set_column_def)
  ultimately show thesis using that ss(2) by blast
qed

lemma dedupe_passes_ok:
  assumes "dedupe_passes n a kept = (b, kept')" "size (apps a) \<le> n"
  shows "no_duplicates b \<and> set_mset (apps b) = set_mset (apps a) \<and> left b = left a
     \<and> (kept' = kept \<and> b = a \<or> (\<exists>k app. kept' = Some k \<and> isSingleInstance app
            \<and> appAt b (fst k) (snd k) = Some app \<and> \<not> no_duplicates a))"
  using assms
proof (induction n arbitrary: a kept)
  case 0
  then show ?case by (simp add: apps_eq pane_simps)
next
  case (Suc n)
  show ?case
  proof (cases "find_dup a Map.empty (visibleSlots a)")
    case None
    then have "no_duplicates a"
      using find_dup_None [OF None] by (simp add: map_filter_visibleSlots no_duplicates_def Let_def)
    with None Suc.prems show ?thesis by auto
  next
    case (Some dk)
    then obtain dup k where dk: "find_dup a Map.empty (visibleSlots a) = Some (dup, k)"
      by (cases dk) auto
    let ?c = "clearSource a (fst dup) (snd dup)"
    obtain app where app: "isSingleInstance app" "apps a = add_mset app (apps ?c)"
      "appAt ?c (fst k) (snd k) = Some app" "left ?c = left a"
      using dk by (rule dedupe_pass)
    have in_c: "app \<in># apps ?c" using app(3) by (auto simp: in_apps_iff)
    have "count (apps a) app \<ge> 2" using app(2) in_c by (simp add: Suc_le_eq)
    then have dup_a: "\<not> no_duplicates a"
      using app(1) by (auto simp: no_duplicates_iff intro!: exI [of _ app])
    have "dedupe_passes n ?c (Some k) = (b, kept')" "size (apps ?c) \<le> n"
      using Suc.prems dk app(2) by simp_all
    from Suc.IH [OF this] show ?thesis
      using app in_c dup_a by (auto simp: insert_absorb)
  qed
qed

lemma size_apps: "size (apps a) \<le> 6"
  by (simp add: apps_eq opt_mset_def split: option.split)

lemma dedupe_passes_column:
  "dedupe_passes n a kept = (b, kept') \<Longrightarrow> arrangement_wf a \<and> center a = None \<Longrightarrow>
   arrangement_wf b \<and> center b = None"
proof (induction n a kept rule: dedupe_passes.induct)
  case (2 n a kept)
  have "center (clearSource a p h) = None" if "center a = None" "\<not> subSplit a PCenter" for p h
    using that by (cases p) (simp_all add: clearSource_def set_column_def)
  moreover have "arrangement_wf a \<Longrightarrow> center a = None \<Longrightarrow> \<not> subSplit a PCenter"
    by (auto simp: arrangement_wf_def pane_simps)
  ultimately show ?case
    using 2 by (auto simp: wf_clearSource split: option.splits)
qed simp

lemma dedupe_None:
  assumes "dedupeArrangement a = None" shows "no_duplicates a"
proof -
  obtain b where "dedupe_passes (length SLOT_ORDER) a None = (b, None)"
    using assms by (auto simp: dedupeArrangement_def split: prod.splits option.splits)
  moreover have "size (apps a) \<le> length SLOT_ORDER"
    using size_apps [of a] by (simp add: SLOT_ORDER_def)
  ultimately show ?thesis by (fastforce dest: dedupe_passes_ok)
qed

lemma dedupe_keeps_slot:
  assumes "dedupeArrangement a = Some (b, k)"
  shows "left b = left a \<and> no_duplicates b
     \<and> (\<exists>app. isSingleInstance app \<and> appAt b (fst k) (snd k) = Some app)"
proof -
  have "dedupe_passes (length SLOT_ORDER) a None = (b, Some k)"
    using assms by (auto simp: dedupeArrangement_def split: prod.splits option.splits)
  moreover have "size (apps a) \<le> length SLOT_ORDER"
    using size_apps [of a] by (simp add: SLOT_ORDER_def)
  ultimately show ?thesis by (fastforce dest: dedupe_passes_ok)
qed

text \<open>
  The six passes of the duplicate removal are enough: it returns exactly when an app
  was shown twice, and then no single-instance app is shown twice any more, the same apps
  are on screen, the routed column is untouched, and the slot it reports still shows the
  app whose copy it closed.
\<close>

theorem dedupe_removes_all_duplicates:
  "case dedupeArrangement a of
     None \<Rightarrow> no_duplicates a
   | Some (b, k) \<Rightarrow> \<not> no_duplicates a \<and> no_duplicates b
       \<and> set_mset (apps b) = set_mset (apps a) \<and> left b = left a
       \<and> (\<exists>app. isSingleInstance app \<and> appAt b (fst k) (snd k) = Some app)"
proof -
  obtain b kept where d: "dedupe_passes (length SLOT_ORDER) a None = (b, kept)"
    by (cases "dedupe_passes (length SLOT_ORDER) a None")
  have "size (apps a) \<le> length SLOT_ORDER"
    using size_apps [of a] by (simp add: SLOT_ORDER_def)
  from dedupe_passes_ok [OF d this] d show ?thesis
    by (auto simp: dedupeArrangement_def split: option.split)
qed

end
