(* ===== verification/Layout_Shell.thy ===== *)
theory Layout_Shell
  imports Pane_Layout
begin

text \<open>
  The part of the application shell (\<open>components/Layout.tsx\<close>) that owns the pane
  arrangement: the split gestures, the drop handler, opening and closing apps, and the
  duplicate removal during render. The routed column's app is the state component
  \<open>left\<close> of the arrangement; \<open>navigate\<close> to an app's path sets it.
\<close>

section \<open>State and operations\<close>

record layout =
  arr :: pane_arrangement
  splitTarget :: pane_key
  focusHalf :: pane_half
  isNarrow :: bool

text \<open>\<open>SPLIT_APPS\<close> lists every app but \<open>test_access\<close>; navigating to an app it does not list
  goes to \<open>/\<close>, the home page.\<close>

definition split_app :: "app_key \<Rightarrow> bool" where
  "split_app app \<longleftrightarrow> app \<noteq> Test_access"

definition navigate_app :: "app_key \<Rightarrow> layout \<Rightarrow> layout" where
  "navigate_app app s = s\<lparr>arr := (arr s)\<lparr>left := (if split_app app then app else Home)\<rparr>\<rparr>"

definition focusPane :: "pane_key \<Rightarrow> pane_half \<Rightarrow> layout \<Rightarrow> layout" where
  "focusPane pane half s = s\<lparr>splitTarget := pane, focusHalf := half\<rparr>"

definition splitHorizontally :: "layout \<Rightarrow> layout" where
  "splitHorizontally s =
     (if right (arr s) \<noteq> None then s
      else focusPane PRight Top (s\<lparr>arr := (arr s)\<lparr>right := Some Home\<rparr>\<rparr>))"

definition toggleVerticalSplit :: "pane_key \<Rightarrow> layout \<Rightarrow> layout" where
  "toggleVerticalSplit pane s =
     (let a = arr s;
          a1 = (if subSplit a pane then a
                else a\<lparr>subBottomView := (subBottomView a)(pane := Home)\<rparr>)
      in focusPane pane Top
           (s\<lparr>arr := a1\<lparr>subSplit := (subSplit a)(pane := \<not> subSplit a pane)\<rparr>\<rparr>))"

definition handlePaneDrop ::
  "pane_key \<Rightarrow> pane_half \<Rightarrow> drop_zone \<Rightarrow> pane_drag_payload \<Rightarrow> layout \<Rightarrow> layout" where
  "handlePaneDrop target targetHalf zone payload s =
     (case applyPaneDrop (arr s) target targetHalf zone payload of
        None \<Rightarrow> s
      | Some r \<Rightarrow>
          if alreadyOpen r then focusPane (fst (focus r)) (snd (focus r)) s
          else
            let n = next_arr r;
                s1 = s\<lparr>arr := (arr s)\<lparr>center := center n, right := right n,
                          subSplit := subSplit n, subBottomView := subBottomView n\<rparr>\<rparr>;
                s2 = (case navigateTo r of
                        Some app \<Rightarrow> if split_app app then navigate_app app s1 else s1
                      | None \<Rightarrow> s1)
            in focusPane (fst (focus r)) (snd (focus r)) s2)"

definition visibleArrangement :: "layout \<Rightarrow> pane_arrangement" where
  "visibleArrangement s =
     (if isNarrow s
      then (arr s)\<lparr>center := None, right := None,
                   subSplit := (subSplit (arr s))(PCenter := False, PRight := False)\<rparr>
      else arr s)"

definition hasSecondPane :: "layout \<Rightarrow> bool" where
  "hasSecondPane s \<longleftrightarrow> center (arr s) \<noteq> None \<or> right (arr s) \<noteq> None"

definition splitOpen :: "layout \<Rightarrow> bool" where
  "splitOpen s \<longleftrightarrow> hasSecondPane s \<or> subSplit (arr s) PLeft"

definition multiPaneVisible :: "layout \<Rightarrow> bool" where
  "multiPaneVisible s \<longleftrightarrow> (if isNarrow s then subSplit (arr s) PLeft else splitOpen s)"

definition routeToFocusedPane :: "layout \<Rightarrow> bool" where
  "routeToFocusedPane s \<longleftrightarrow> splitOpen s \<and> (\<not> isNarrow s \<or> splitTarget s = PLeft)"

text \<open>The render-time adjustment: duplicates are closed before anything paints.\<close>

definition render_dedupe :: "layout \<Rightarrow> layout" where
  "render_dedupe s =
     (if isNarrow s then s
      else (case dedupeArrangement (arr s) of
              None \<Rightarrow> s
            | Some (n, kept) \<Rightarrow>
                s\<lparr>arr := (arr s)\<lparr>center := center n, right := right n,
                    subSplit := subSplit n, subBottomView := subBottomView n\<rparr>,
                  splitTarget := fst kept, focusHalf := snd kept\<rparr>))"

definition focusIfOpen :: "app_key \<Rightarrow> layout \<Rightarrow> layout option" where
  "focusIfOpen app s =
     (if \<not> multiPaneVisible s \<or> \<not> isSingleInstance app then None
      else map_option (\<lambda>(pane, half). focusPane pane half s)
             (findOpenApp (visibleArrangement s) app))"

definition openApp :: "app_key \<Rightarrow> layout \<Rightarrow> layout" where
  "openApp app s =
     (case (if isSingleInstance app then findOpenApp (visibleArrangement s) app else None) of
        Some (pane, half) \<Rightarrow> focusPane pane half s
      | None \<Rightarrow>
          if isNarrow s then navigate_app app s
          else s\<lparr>arr := (arr s)\<lparr>right := Some app\<rparr>, splitTarget := PRight, focusHalf := Top\<rparr>)"

definition closeApp :: "layout \<Rightarrow> layout" where
  "closeApp s = s\<lparr>arr := (arr s)\<lparr>right := None\<rparr>, splitTarget := PLeft, focusHalf := Top\<rparr>"

definition placeInFocusedPane :: "app_key \<Rightarrow> layout \<Rightarrow> layout option" where
  "placeInFocusedPane app s =
     (if \<not> routeToFocusedPane s then None
      else if focusHalf s = Bottom \<and> subSplit (arr s) (splitTarget s)
      then Some (s\<lparr>arr := (arr s)\<lparr>subBottomView :=
                    (subBottomView (arr s))(splitTarget s := app)\<rparr>\<rparr>)
      else if splitTarget s = PCenter then Some (s\<lparr>arr := (arr s)\<lparr>center := Some app\<rparr>\<rparr>)
      else if splitTarget s = PRight then Some (s\<lparr>arr := (arr s)\<lparr>right := Some app\<rparr>\<rparr>)
      else None)"

definition openInFocusedPane :: "app_key \<Rightarrow> layout \<Rightarrow> layout" where
  "openInFocusedPane app s =
     (case focusIfOpen app s of
        Some s' \<Rightarrow> s'
      | None \<Rightarrow> (case placeInFocusedPane app s of Some s' \<Rightarrow> s' | None \<Rightarrow> navigate_app app s))"

definition listed :: "app_key option \<Rightarrow> app_key option" where
  "listed v = (case v of Some k \<Rightarrow> if split_app k then Some k else None | None \<Rightarrow> None)"

definition closeLeftPane :: "layout \<Rightarrow> layout" where
  "closeLeftPane s =
     (let a = arr s;
          fromKey = (if listed (right a) \<noteq> None then PRight else PCenter)
      in case (if listed (right a) \<noteq> None then listed (right a) else listed (center a)) of
           None \<Rightarrow> s
         | Some nextApp \<Rightarrow>
             focusPane PLeft Top
               (s\<lparr>arr := a\<lparr>left := nextApp,
                           subSplit := (subSplit a)(PLeft := subSplit a fromKey, fromKey := False),
                           subBottomView := (subBottomView a)(PLeft := subBottomView a fromKey),
                           right := None,
                           center := (if fromKey = PCenter \<or> center a = Some nextApp then None
                                      else center a)\<rparr>\<rparr>))"

definition closeHalf :: "pane_key \<Rightarrow> pane_half \<Rightarrow> layout \<Rightarrow> layout" where
  "closeHalf key whichHalf s =
     (let bottomKey = subBottomView (arr s) key;
          s1 = (if whichHalf = Bottom then s
                else (case key of
                        PLeft \<Rightarrow> navigate_app bottomKey s
                      | PCenter \<Rightarrow> s\<lparr>arr := (arr s)\<lparr>center := Some bottomKey\<rparr>\<rparr>
                      | PRight \<Rightarrow> s\<lparr>arr := (arr s)\<lparr>right := Some bottomKey\<rparr>\<rparr>))
      in focusPane key Top
           (s1\<lparr>arr := (arr s1)\<lparr>subSplit := (subSplit (arr s1))(key := False)\<rparr>\<rparr>))"

definition closeCenterPane :: "layout \<Rightarrow> layout" where
  "closeCenterPane s =
     s\<lparr>arr := (arr s)\<lparr>center := None, subSplit := (subSplit (arr s))(PCenter := False)\<rparr>\<rparr>"

definition closeRightPane :: "layout \<Rightarrow> layout" where
  "closeRightPane s =
     s\<lparr>arr := (arr s)\<lparr>right := None, subSplit := (subSplit (arr s))(PRight := False)\<rparr>,
       splitTarget := PLeft\<rparr>"

section \<open>The shell as a state machine\<close>

text \<open>
  One rule per gesture, with the condition under which the shell renders the control
  that triggers it: a drop overlay and the close buttons exist only for a pane that is
  on screen. \<open>closeApp\<close>, which only the split-control context exposes, is not among them.
\<close>

inductive layout_step :: "layout \<Rightarrow> layout \<Rightarrow> bool" where
  render: "layout_step s (render_dedupe s)"
| resize: "layout_step s (s\<lparr>isNarrow := b\<rparr>)"
| focus_pane: "appAt (arr s) pane Top \<noteq> None \<Longrightarrow> layout_step s (focusPane pane half s)"
| split_h: "layout_step s (splitHorizontally s)"
| split_v: "layout_step s (toggleVerticalSplit (splitTarget s) s)"
| drop: "appAt (arr s) target half \<noteq> None \<Longrightarrow>
     layout_step s (handlePaneDrop target half zone payload s)"
| navigate: "layout_step s (navigate_app app s)"
| open_app: "layout_step s (openApp app s)"
| open_focused: "layout_step s (openInFocusedPane app s)"
| close_left: "layout_step s (closeLeftPane s)"
| close_half: "subSplit (arr s) pane \<Longrightarrow> layout_step s (closeHalf pane half s)"
| close_right: "layout_step s (closeRightPane s)"

definition initial_layout :: "app_key \<Rightarrow> layout" where
  "initial_layout app =
     \<lparr>arr = \<lparr>left = app, center = None, right = None,
             subSplit = (\<lambda>_. False), subBottomView = (\<lambda>_. Home)\<rparr>,
      splitTarget = PLeft, focusHalf = Top, isNarrow = False\<rparr>"

inductive layout_reachable :: "layout \<Rightarrow> bool" where
  start: "layout_reachable (initial_layout app)"
| step: "layout_reachable s \<Longrightarrow> layout_step s t \<Longrightarrow> layout_reachable t"

text \<open>At most two columns, no closed column stacked, and the focused column open.\<close>

definition two_columns :: "pane_arrangement \<Rightarrow> bool" where
  "two_columns a \<longleftrightarrow> arrangement_wf a \<and> center a = None"

definition layout_inv :: "layout \<Rightarrow> bool" where
  "layout_inv s \<longleftrightarrow> two_columns (arr s) \<and> appAt (arr s) (splitTarget s) Top \<noteq> None"

lemma all_panes: "(\<forall>pane. P pane) \<longleftrightarrow> P PLeft \<and> P PCenter \<and> P PRight"
  by (metis pane_key.exhaust)

lemma appAt_subSplit_Top [simp]: "appAt (a\<lparr>subSplit := f\<rparr>) p Top = appAt a p Top"
  by (cases p) (simp_all add: pane_simps)

lemma two_columns_iff:
  "two_columns a \<longleftrightarrow> center a = None \<and> \<not> subSplit a PCenter \<and> (right a = None \<longrightarrow> \<not> subSplit a PRight)"
  unfolding two_columns_def arrangement_wf_def all_panes by (auto simp: pane_simps)

lemma appAt_left_Home: "appAt (a\<lparr>left := Home\<rparr>) p Top = None \<longleftrightarrow> appAt a p Top = None"
  by (cases p) (simp_all add: pane_simps)

lemma appAt_vacate_Top:
  assumes "appAt n p Top \<noteq> None"
    and "\<And>hf. payload = DragPane p hf \<Longrightarrow> subSplit n p \<or> nullish hf Top = Bottom"
  shows "appAt (vacate a payload n) p Top \<noteq> None"
proof (cases payload)
  case (DragPane f hf)
  have "appAt (clearSource n f (nullish hf Top)) p Top \<noteq> None"
    using assms DragPane by (auto simp: appAt_clearSource subSplit_iff_bottom)
  moreover have "appAt (n\<lparr>left := Home\<rparr>) p Top \<noteq> None"
    using assms(1) by (simp add: appAt_left_Home del: not_None_eq)
  ultimately show ?thesis using DragPane by (simp add: vacate_def source_half_def)
qed (use assms in \<open>simp add: vacate_def\<close>)

lemma appAt_drop_stack_Top:
  "appAt a p Top \<noteq> None \<Longrightarrow> appAt (drop_stack a target h x) p Top \<noteq> None"
  by (cases "appAt a target Top") (auto simp: drop_stack_def appAt_setAppAt Let_def)

lemma center_vacate:
  "center n = None \<Longrightarrow> (\<And>hf. payload \<noteq> DragPane PCenter hf) \<Longrightarrow> center (vacate a payload n) = None"
  by (cases payload) (auto simp: vacate_def clearSource_def set_column_def split: pane_key.splits)

lemma center_setAppAt: "p \<noteq> PCenter \<Longrightarrow> center (setAppAt a p h x) = center a"
  by (auto simp: setAppAt_def set_column_def split: pane_key.split)

lemma center_clearSource: "p \<noteq> PCenter \<Longrightarrow> center (clearSource a p h) = center a"
  by (cases p) (simp_all add: clearSource_def set_column_def)

lemma subSplit_drop_stack_target: "subSplit (drop_stack a target h x) target"
  by (auto simp: drop_stack_def subSplit_setAppAt Let_def split: option.split)

lemma drop_two_columns:
  assumes inv: "two_columns a" and vis: "appAt a target th \<noteq> None"
    and r: "applyPaneDrop a target th zone payload = Some r"
  shows "two_columns (next_arr r) \<and> appAt (next_arr r) (fst (focus r)) Top \<noteq> None"
  using r
proof (cases rule: applyPaneDrop_cases)
  case (already_open app slot)
  then have "appAt a (fst slot) (snd slot) = Some app" by (simp add: findOpenApp_Some)
  with inv have "appAt a (fst slot) Top \<noteq> None"
    unfolding two_columns_def using wf_visible_top [of a "fst slot" "snd slot"] by auto
  with inv already_open show ?thesis by simp
next
  case (placed moving n p h)
  have wf: "arrangement_wf a" and c: "center a = None" using inv by (simp_all add: two_columns_def)
  have top: "appAt a target Top \<noteq> None" using wf_visible_top [OF wf vis] .
  then have tc: "target \<noteq> PCenter" using c by (auto simp: pane_simps)
  have src: "appAt a f (nullish hf Top) = Some moving" "f \<noteq> PCenter" if "payload = DragPane f hf" for f hf
    using placed(1) that inv
    by (auto simp: moving_app_def source_half_def two_columns_iff appAt_def split: if_splits)
  have vac: "arrangement_wf (vacate a payload m) \<and> center (vacate a payload m) = None
      \<and> appAt (vacate a payload m) q Top \<noteq> None"
    if "arrangement_wf m" "center m = None" "appAt m q Top \<noteq> None"
      "\<And>hf. payload = DragPane q hf \<Longrightarrow> subSplit m q \<or> nullish hf Top = Bottom" for m q
    using that src by (intro conjI wf_vacate center_vacate appAt_vacate_Top) auto
  have "arrangement_wf n \<and> center n = None \<and> appAt n p Top \<noteq> None"
    using placed(4)
  proof (elim disjE conjE)
    assume n: "p = target" "n = drop_center a target th payload moving"
    have "appAt (setAppAt a target th moving) target Top \<noteq> None"
      using top by (simp add: appAt_setAppAt)
    then have "center n = None \<and> appAt n target Top \<noteq> None"
      using n c tc src vis
      by (auto simp: drop_center_def Let_def center_setAppAt appAt_setAppAt
          split: pane_drag_payload.splits option.splits)
    with n wf_drop_center [OF wf vis placed(1)] show ?thesis by simp
  next
    assume n: "p = target" "\<not> subSplit a target"
      "n = vacate a payload (drop_stack a target h moving)"
    have "center (drop_stack a target h moving) = None"
      using c tc by (auto simp: drop_stack_def center_setAppAt Let_def split: option.split)
    then show ?thesis
      unfolding n(1,3)
      using wf_drop_stack [OF wf top] appAt_drop_stack_Top [OF top] subSplit_drop_stack_target
      by (intro vac) blast+
  next
    assume n: "p = PRight" "right a = None" "n = vacate a payload (setAppAt a PRight Top moving)"
    have np: "payload \<noteq> DragPane PRight hf" for hf
      using src [of PRight hf] n inv by (cases "nullish hf Top") (auto simp: pane_simps two_columns_iff)
    show ?thesis
      unfolding n(1,3)
      using wf_setAppAt [OF wf, of PRight Top moving] c
      by (intro vac) (simp_all add: center_setAppAt appAt_setAppAt np)
  qed
  with placed(3) show ?thesis by (simp add: finish_drop_def two_columns_def)
qed


section \<open>Every gesture keeps the invariant\<close>

lemma layout_inv_iff:
  "layout_inv s \<longleftrightarrow> center (arr s) = None \<and> \<not> subSplit (arr s) PCenter
     \<and> (right (arr s) = None \<longrightarrow> \<not> subSplit (arr s) PRight)
     \<and> (splitTarget s = PLeft \<or> (splitTarget s = PRight \<and> right (arr s) \<noteq> None))"
  by (cases "splitTarget s") (auto simp: layout_inv_def two_columns_iff pane_simps)

lemma handlePaneDrop_inv:
  assumes "layout_inv s" "appAt (arr s) target half \<noteq> None"
  shows "layout_inv (handlePaneDrop target half zone payload s)"
proof (cases "applyPaneDrop (arr s) target half zone payload")
  case None
  with assms show ?thesis by (simp add: handlePaneDrop_def)
next
  case (Some r)
  have "two_columns (next_arr r) \<and> appAt (next_arr r) (fst (focus r)) Top \<noteq> None"
    using assms Some by (intro drop_two_columns) (auto simp: layout_inv_def)
  moreover have "next_arr r = arr s" if "alreadyOpen r"
    using Some that by (cases rule: applyPaneDrop_cases) (simp_all add: finish_drop_def)
  ultimately show ?thesis
    using Some
    by (cases "fst (focus r)")
       (auto simp: handlePaneDrop_def focusPane_def navigate_app_def Let_def layout_inv_iff
          two_columns_iff pane_simps split: option.split)
qed

lemma dedupe_two_columns: "dedupeArrangement a = Some (b, k) \<Longrightarrow> two_columns a \<Longrightarrow> two_columns b"
  unfolding two_columns_def dedupeArrangement_def
  by (rule dedupe_passes_column) (auto split: prod.splits option.splits)

lemma render_dedupe_inv:
  assumes "layout_inv s" shows "layout_inv (render_dedupe s)"
proof (cases "dedupeArrangement (arr s)")
  case (Some nk)
  then obtain n k where d: "dedupeArrangement (arr s) = Some (n, k)" by (cases nk) auto
  then obtain app where k: "appAt n (fst k) (snd k) = Some app"
    using dedupe_keeps_slot by blast
  have "two_columns n"
    using d assms dedupe_two_columns by (auto simp: layout_inv_def)
  with k have "appAt n (fst k) Top \<noteq> None"
    unfolding two_columns_def using wf_visible_top [of n "fst k" "snd k"] by auto
  with d \<open>two_columns n\<close> assms show ?thesis
    by (cases "fst k") (auto simp: render_dedupe_def layout_inv_iff two_columns_iff pane_simps)
qed (use assms in \<open>simp add: render_dedupe_def\<close>)

text \<open>An app found on screen is in an open column, also when only the left one is shown.\<close>

lemma findOpenApp_column_open:
  assumes "layout_inv s" "findOpenApp (visibleArrangement s) app = Some (p, h)"
  shows "appAt (arr s) p Top \<noteq> None"
proof -
  from assms(2) have "appAt (visibleArrangement s) p h = Some app" by (rule findOpenApp_Some)
  with assms(1) show ?thesis
    by (cases p; cases h)
       (auto simp: visibleArrangement_def layout_inv_iff pane_simps split: if_splits)
qed

lemma focusPane_inv:
  "layout_inv s \<Longrightarrow> appAt (arr s) p Top \<noteq> None \<Longrightarrow> layout_inv (focusPane p h s)"
  by (simp add: layout_inv_def focusPane_def)

lemma openInFocusedPane_inv: "layout_inv s \<Longrightarrow> layout_inv (openInFocusedPane app s)"
proof -
  assume inv: "layout_inv s"
  have "layout_inv t" if "placeInFocusedPane app s = Some t" for t
    using that inv by (auto simp: placeInFocusedPane_def layout_inv_iff split: if_splits)
  moreover have "layout_inv (navigate_app app s)"
    using inv by (simp add: navigate_app_def layout_inv_iff)
  moreover have "layout_inv t" if "focusIfOpen app s = Some t" for t
    using that findOpenApp_column_open [OF inv] inv
    by (auto simp: focusIfOpen_def split: if_splits intro: focusPane_inv)
  ultimately show ?thesis by (simp add: openInFocusedPane_def split: option.split)
qed

lemma openApp_inv: "layout_inv s \<Longrightarrow> layout_inv (openApp app s)"
proof -
  assume inv: "layout_inv s"
  have "layout_inv (navigate_app app s)"
    "layout_inv (s\<lparr>arr := (arr s)\<lparr>right := Some app\<rparr>, splitTarget := PRight, focusHalf := Top\<rparr>)"
    using inv by (simp_all add: navigate_app_def layout_inv_iff)
  then show ?thesis
    using findOpenApp_column_open [OF inv] inv
    by (auto simp: openApp_def split: option.split if_split intro: focusPane_inv)
qed

lemma layout_step_inv: "layout_step s t \<Longrightarrow> layout_inv s \<Longrightarrow> layout_inv t"
proof (induction rule: layout_step.induct)
  case (close_half s pane half)
  then show ?case
    by (cases pane) (auto simp: closeHalf_def navigate_app_def focusPane_def Let_def layout_inv_iff)
qed (simp_all add: render_dedupe_inv handlePaneDrop_inv openInFocusedPane_inv openApp_inv focusPane_inv,
     auto simp: layout_inv_iff focusPane_def splitHorizontally_def toggleVerticalSplit_def
       navigate_app_def Let_def closeLeftPane_def closeRightPane_def listed_def pane_simps
     split: option.splits if_splits)

section \<open>Properties of the shell\<close>

text \<open>
  However the user splits, drops, opens, navigates and closes, the layout stays within
  two columns, a closed column is never stacked, and the focused column is open, so a
  sidebar tap never lands in a pane that is not on screen.
\<close>

theorem reachable_layout_inv:
  assumes "layout_reachable s"
  shows "center (arr s) = None \<and> (\<forall>pane half. appAt (arr s) pane half \<noteq> None
            \<longrightarrow> appAt (arr s) pane Top \<noteq> None)
         \<and> appAt (arr s) (splitTarget s) Top \<noteq> None"
proof -
  have "layout_inv s" using assms
  proof induction
    case (start app)
    show ?case by (simp add: layout_inv_iff initial_layout_def)
  next
    case (step s t)
    then show ?case using layout_step_inv by blast
  qed
  then show ?thesis
    unfolding layout_inv_def two_columns_def using wf_visible_top by blast
qed

theorem reachable_layout_inv_witness:
  "let s = splitHorizontally (initial_layout Emails)
   in center (arr s) = None \<and> (\<forall>pane half. appAt (arr s) pane half \<noteq> None
            \<longrightarrow> appAt (arr s) pane Top \<noteq> None)
         \<and> appAt (arr s) (splitTarget s) Top \<noteq> None"
  unfolding Let_def
  by (rule reachable_layout_inv [OF layout_reachable.step
        [OF layout_reachable.start layout_step.split_h]])

text \<open>Rendering a wide window leaves every single-instance app on screen once.\<close>

lemma render_dedupe_no_duplicates:
  assumes "\<not> isNarrow s" shows "no_duplicates (arr (render_dedupe s))"
proof (cases "dedupeArrangement (arr s)")
  case None
  have "no_duplicates (arr s)" using None by (rule dedupe_None)
  with None assms show ?thesis by (simp add: render_dedupe_def)
next
  case (Some nk)
  then obtain n k where d: "dedupeArrangement (arr s) = Some (n, k)" by (cases nk) auto
  then have "left n = left (arr s)" "no_duplicates n" by (auto dest: dedupe_keeps_slot)
  moreover from this(1) have "arr (render_dedupe s) = n"
    using d assms by (cases n; cases "arr s") (simp add: render_dedupe_def)
  ultimately show ?thesis by simp
qed

text \<open>
  Closing the right column through the split-control context does not unstack it: from
  a layout in which the right column is stacked, the closed column's bottom half still
  counts as open, and asking for the app it held only moves the focus to a pane that is not
  on screen. (The column's own close button does clear the stacking.)
\<close>

theorem closeApp_hides_stacked_app:
  assumes "right (arr s) \<noteq> None" "subSplit (arr s) PRight"
    and "isSingleInstance (subBottomView (arr s) PRight)"
    and "center (arr s) = None" "\<not> subSplit (arr s) PLeft" "\<not> subSplit (arr s) PCenter"
    and "left (arr s) \<noteq> subBottomView (arr s) PRight" "\<not> isNarrow s"
  shows "right (arr (closeApp s)) = None
     \<and> openApp (subBottomView (arr s) PRight) (closeApp s) = focusPane PRight Bottom (closeApp s)"
proof -
  have "findOpenApp (arr (closeApp s)) (subBottomView (arr s) PRight) = Some (PRight, Bottom)"
    using assms by (simp add: findOpenApp_def visibleSlots_def SLOT_ORDER_def closeApp_def pane_simps)
  with assms show ?thesis by (simp add: openApp_def closeApp_def visibleArrangement_def)
qed

definition demo_stacked_right :: layout where
  "demo_stacked_right = \<lparr>arr = \<lparr>left = Emails, center = None, right = Some Notes,
       subSplit = (\<lambda>p. p = PRight), subBottomView = (\<lambda>_. Chat)\<rparr>,
     splitTarget = PRight, focusHalf = Top, isNarrow = False\<rparr>"

theorem closeApp_hides_stacked_app_witness:
  "right (arr (closeApp demo_stacked_right)) = None
     \<and> openApp Chat (closeApp demo_stacked_right) = focusPane PRight Bottom (closeApp demo_stacked_right)"
  using closeApp_hides_stacked_app [of demo_stacked_right]
  by (simp add: demo_stacked_right_def isSingleInstance_def)

end
