(* ===== verification/Access_Control.thy ===== *)
theory Access_Control
  imports Prelude
begin

text \<open>
  Role-based access in the frontend: \<open>auth/permissions.ts\<close> (the permission catalogue, the
  role matrix, who may assign and modify roles, the page gates), \<open>auth/accountHome.ts\<close>,
  \<open>auth/defaultAccess.ts\<close>, and the two encryption policies \<open>chat/chatPolicy.ts\<close> and
  \<open>emails/emailPolicy.ts\<close>. A permission is its string, as a holder's list may contain any
  string; a role is a constructor, \<open>role_name\<close> its string.
\<close>

section \<open>The catalogue and the role matrix\<close>

type_synonym permission = string

definition PERMISSIONS :: "permission list" where
  "PERMISSIONS =
     [''apps:use'', ''apps:manage'', ''profile:manage_self'', ''members:read'', ''members:manage'',
      ''roles:manage'', ''roles:assign_limited'', ''org:settings'', ''org:delete'',
      ''billing:manage'', ''billing:read'', ''usage:read'', ''api_keys:manage'',
      ''webhooks:manage'', ''integrations:manage'', ''logs:read'', ''logs:read_limited'',
      ''audit:read'', ''security:manage'', ''tickets:manage'', ''sso:manage'', ''inbox:manage'',
      ''mcp:manage'', ''ai:manage'', ''org_keys:bootstrap'', ''org_keys:use_master'',
      ''documents:manage'', ''task_statuses:manage'']"

datatype role =
  Owner | Super_admin | Admin | Security | Billing | Developer | Support | Member | Guest

definition ROLES :: "role list" where
  "ROLES = [Owner, Super_admin, Admin, Security, Billing, Developer, Support, Member, Guest]"

fun role_name :: "role \<Rightarrow> string" where
  "role_name Owner = ''owner''"
| "role_name Super_admin = ''super_admin''"
| "role_name Admin = ''admin''"
| "role_name Security = ''security''"
| "role_name Billing = ''billing''"
| "role_name Developer = ''developer''"
| "role_name Support = ''support''"
| "role_name Member = ''member''"
| "role_name Guest = ''guest''"

definition BASELINE :: "permission list" where
  "BASELINE = [''apps:use'', ''profile:manage_self'']"

definition SUPER_ADMIN :: "permission list" where
  "SUPER_ADMIN = filter (\<lambda>perm. perm \<noteq> ''billing:manage'' \<and> perm \<noteq> ''billing:read''
     \<and> perm \<noteq> ''org_keys:bootstrap'' \<and> perm \<noteq> ''ai:manage'') PERMISSIONS"

fun ROLE_PERMISSIONS :: "role \<Rightarrow> permission list" where
  "ROLE_PERMISSIONS Owner = PERMISSIONS"
| "ROLE_PERMISSIONS Super_admin = SUPER_ADMIN"
| "ROLE_PERMISSIONS Admin =
     [''apps:use'', ''apps:manage'', ''profile:manage_self'', ''members:read'', ''members:manage'',
      ''roles:assign_limited'', ''org:settings'', ''usage:read'', ''sso:manage'', ''inbox:manage'',
      ''mcp:manage'', ''org_keys:use_master'', ''task_statuses:manage'']"
| "ROLE_PERMISSIONS Security =
     [''apps:use'', ''profile:manage_self'', ''members:read'', ''logs:read'',
      ''logs:read_limited'', ''audit:read'', ''security:manage'', ''sso:manage'']"
| "ROLE_PERMISSIONS Billing =
     [''apps:use'', ''profile:manage_self'', ''members:read'', ''billing:manage'',
      ''billing:read'', ''usage:read'']"
| "ROLE_PERMISSIONS Developer =
     [''apps:use'', ''profile:manage_self'', ''api_keys:manage'', ''webhooks:manage'',
      ''integrations:manage'', ''logs:read'', ''logs:read_limited'']"
| "ROLE_PERMISSIONS Support =
     [''apps:use'', ''profile:manage_self'', ''members:read'', ''usage:read'',
      ''logs:read_limited'', ''tickets:manage'']"
| "ROLE_PERMISSIONS Member = BASELINE"
| "ROLE_PERMISSIONS Guest = BASELINE"

fun ROLE_LABELS :: "role \<Rightarrow> string" where
  "ROLE_LABELS Owner = ''Owner''"
| "ROLE_LABELS Super_admin = ''Super admin''"
| "ROLE_LABELS Admin = ''Admin''"
| "ROLE_LABELS Security = ''Security''"
| "ROLE_LABELS Billing = ''Billing''"
| "ROLE_LABELS Developer = ''Developer''"
| "ROLE_LABELS Support = ''Support''"
| "ROLE_LABELS Member = ''Member''"
| "ROLE_LABELS Guest = ''Guest''"

definition normalizeRole :: "string option \<Rightarrow> role" where
  "normalizeRole r =
     (case find (\<lambda>x. role_name x = nullish r '''') ROLES of Some x \<Rightarrow> x | None \<Rightarrow> Member)"

definition permissionsForRole :: "string option \<Rightarrow> permission list" where
  "permissionsForRole r = ROLE_PERMISSIONS (normalizeRole r)"

text \<open>One role is below another when the other holds everything it holds.\<close>

instantiation role :: preorder
begin

definition less_eq_role :: "role \<Rightarrow> role \<Rightarrow> bool" where
  "less_eq_role r s \<longleftrightarrow> set (ROLE_PERMISSIONS r) \<subseteq> set (ROLE_PERMISSIONS s)"

definition less_role :: "role \<Rightarrow> role \<Rightarrow> bool" where
  "less_role r s \<longleftrightarrow> r \<le> s \<and> \<not> s \<le> (r :: role)"

instance
  by standard (auto simp: less_eq_role_def less_role_def)

end

section \<open>Users and gates\<close>

record plan =
  tier :: "string option"

record user =
  scope :: "string option"
  account_type :: "string option"
  effective_role :: "string option"
  permissions :: "string list option"
  organization_id :: "int option"
  mode :: "string option"
  can_switch_admin :: bool
  current_plan :: "plan option"

text \<open>Nullish values and missing users are \<open>None\<close>; \<open>user?.f\<close> is \<open>opt_field\<close>.\<close>

definition opt_field :: "user option \<Rightarrow> (user \<Rightarrow> 'a option) \<Rightarrow> 'a option" where
  "opt_field u f = (case u of None \<Rightarrow> None | Some v \<Rightarrow> f v)"

lemma opt_field_simps [simp]:
  "opt_field None f = None"
  "opt_field (Some v) f = f v"
  by (simp_all add: opt_field_def)

definition PRICING_HIDDEN_ROLES :: "role list" where
  "PRICING_HIDDEN_ROLES = [Admin, Security, Developer, Support, Guest, Member]"

definition canViewPricing :: "user option \<Rightarrow> bool" where
  "canViewPricing u \<longleftrightarrow> normalizeRole (opt_field u effective_role) \<notin> set PRICING_HIDDEN_ROLES"

text \<open>
  The fallback table is a plain object: a name it inherits (\<open>constructor\<close> and so on) gives a
  function, which no comparison of the callers can equal; it is \<open>None\<close> here like a missing one.
\<close>

definition scope_of_account_type :: "string \<Rightarrow> string option" where
  "scope_of_account_type t = map_of
     [(''personal'', ''personal''), (''organization'', ''organization''),
      (''organization_admin'', ''organization''), (''platform_admin'', ''platform'')] t"

definition resolveScope :: "user \<Rightarrow> string option" where
  "resolveScope u =
     (case scope u of Some s \<Rightarrow> Some s
      | None \<Rightarrow> scope_of_account_type (nullish (account_type u) ''''))"

definition canViewIntegrations :: "user option \<Rightarrow> bool" where
  "canViewIntegrations u =
     (case u of None \<Rightarrow> False
      | Some v \<Rightarrow>
          if resolveScope v = Some ''personal'' then True
          else if resolveScope v = Some ''organization'' \<or> resolveScope v = Some ''platform''
          then normalizeRole (effective_role v) = Owner
          else False)"

definition hasPermission :: "user option \<Rightarrow> permission \<Rightarrow> bool" where
  "hasPermission holder perm =
     (case opt_field holder permissions of None \<Rightarrow> False | Some ps \<Rightarrow> perm \<in> set ps)"

definition hasAnyPermission :: "user option \<Rightarrow> permission list \<Rightarrow> bool" where
  "hasAnyPermission holder perms = list_ex (hasPermission holder) perms"

definition ROLES_BELOW_ADMIN :: "role list" where
  "ROLES_BELOW_ADMIN = [Security, Billing, Developer, Support, Member, Guest]"

definition actor_has :: "string list option \<Rightarrow> string \<Rightarrow> bool" where
  "actor_has ps p = (case ps of None \<Rightarrow> False | Some xs \<Rightarrow> p \<in> set xs)"

definition assignableRoles :: "string list option \<Rightarrow> role list" where
  "assignableRoles actorPermissions =
     (if actor_has actorPermissions ''roles:manage'' then ROLES
      else if actor_has actorPermissions ''roles:assign_limited'' then ROLES_BELOW_ADMIN
      else [])"

definition canModifyMember :: "string list option \<Rightarrow> string \<Rightarrow> bool" where
  "canModifyMember actorPermissions currentRole =
     (if actor_has actorPermissions ''roles:manage'' then True
      else if actor_has actorPermissions ''roles:assign_limited''
      then normalizeRole (Some currentRole) \<in> set ROLES_BELOW_ADMIN
      else False)"

definition API_KEY_ADMIN_ROLES :: "role list" where
  "API_KEY_ADMIN_ROLES = [Owner, Super_admin, Admin]"

definition canAccessApiKeyAdmin :: "user option \<Rightarrow> bool" where
  "canAccessApiKeyAdmin u =
     (case u of None \<Rightarrow> False
      | Some v \<Rightarrow> if scope v = Some ''personal'' then False
          else normalizeRole (effective_role v) \<in> set API_KEY_ADMIN_ROLES)"

section \<open>Account homes and the optimistic access after login\<close>

datatype account_kind = Personal | Organization | Organization_admin | Platform_admin

definition normalizeAccountType :: "string option \<Rightarrow> account_kind" where
  "normalizeAccountType t =
     (if t = Some ''organization_admin'' then Organization_admin
      else if t = Some ''organization'' then Organization
      else if t = Some ''platform_admin'' then Platform_admin
      else Personal)"

definition ascii_lower :: "char \<Rightarrow> char" where
  "ascii_lower c =
     (if 65 \<le> (of_char c :: nat) \<and> (of_char c :: nat) \<le> 90
         \<or> 192 \<le> (of_char c :: nat) \<and> (of_char c :: nat) \<le> 222 \<and> (of_char c :: nat) \<noteq> 215
      then char_of ((of_char c :: nat) + 32) else c)"

definition slug_char :: "char \<Rightarrow> bool" where
  "slug_char c \<longleftrightarrow> 97 \<le> (of_char c :: nat) \<and> (of_char c :: nat) \<le> 122
     \<or> 48 \<le> (of_char c :: nat) \<and> (of_char c :: nat) \<le> 57"

definition slugify :: "string \<Rightarrow> string" where
  "slugify s = filter slug_char (map ascii_lower s)"

definition getEmailDomain :: "string option \<Rightarrow> string" where
  "getEmailDomain slug =
     (if slug = None \<or> slug = Some '''' then ''wayve.com'' else the slug @ ''.com'')"

definition homePathForAccount :: "string option \<Rightarrow> string" where
  "homePathForAccount t =
     (case normalizeAccountType t of Platform_admin \<Rightarrow> ''/platform/home''
      | Organization_admin \<Rightarrow> ''/organization/home''
      | Organization \<Rightarrow> ''/organization/home''
      | Personal \<Rightarrow> ''/home'')"

definition PLATFORM_ROLE_HOMES :: "string \<Rightarrow> string option" where
  "PLATFORM_ROLE_HOMES = map_of
     [(''billing'', ''/platform/billing''), (''security'', ''/logs/audit''),
      (''developer'', ''/platform/developer''), (''support'', ''/platform/support''),
      (''member'', ''/platform/welcome''), (''guest'', ''/platform/welcome'')]"

definition homePathForUser :: "user option \<Rightarrow> string" where
  "homePathForUser u =
     (if (case u of None \<Rightarrow> False | Some v \<Rightarrow> can_switch_admin v) \<and> opt_field u mode \<noteq> Some ''admin''
      then ''/home''
      else case normalizeAccountType (opt_field u account_type) of
        Platform_admin \<Rightarrow>
          nullish (PLATFORM_ROLE_HOMES (nullish (opt_field u effective_role) '''')) ''/platform/home''
      | Organization_admin \<Rightarrow> ''/organization/home''
      | Organization \<Rightarrow> ''/organization/home''
      | Personal \<Rightarrow>
          if opt_field u organization_id \<noteq> None then ''/organization/home'' else ''/home'')"

record default_access =
  da_effective_role :: string
  da_role_label :: string
  da_scope :: string
  da_permissions :: "permission list"

definition defaultAccessForAccount :: "string option \<Rightarrow> default_access" where
  "defaultAccessForAccount t =
     (case normalizeAccountType t of
        Platform_admin \<Rightarrow> \<lparr>da_effective_role = ''owner'', da_role_label = ''Platform owner'',
          da_scope = ''platform'', da_permissions = permissionsForRole (Some ''owner'')\<rparr>
      | Organization_admin \<Rightarrow> \<lparr>da_effective_role = ''owner'', da_role_label = ''Organization owner'',
          da_scope = ''organization'', da_permissions = permissionsForRole (Some ''owner'')\<rparr>
      | Organization \<Rightarrow> \<lparr>da_effective_role = ''member'', da_role_label = ''Member'',
          da_scope = ''organization'', da_permissions = permissionsForRole (Some ''member'')\<rparr>
      | Personal \<Rightarrow> \<lparr>da_effective_role = ''owner'', da_role_label = ''Personal workspace owner'',
          da_scope = ''personal'', da_permissions = permissionsForRole (Some ''owner'')\<rparr>)"

section \<open>Encryption policies\<close>

definition channelsAlwaysPublic :: "user option \<Rightarrow> bool" where
  "channelsAlwaysPublic u =
     (case u of None \<Rightarrow> False
      | Some v \<Rightarrow> resolveScope v = Some ''organization'' \<or> resolveScope v = Some ''platform'')"

definition usesStandardChatEncryption :: "user option \<Rightarrow> bool" where
  "usesStandardChatEncryption u \<longleftrightarrow>
     channelsAlwaysPublic u
     \<or> (case opt_field u current_plan of None \<Rightarrow> False | Some p \<Rightarrow> tier p = Some ''enterprise'')"

definition emailBasicEncryptionOnly :: "user option \<Rightarrow> bool" where
  "emailBasicEncryptionOnly u =
     (case u of None \<Rightarrow> False
      | Some v \<Rightarrow> resolveScope v = Some ''organization'' \<or> resolveScope v = Some ''platform'')"

section \<open>Facts on roles\<close>

lemma role_name_inj [simp]: "role_name r = role_name s \<longleftrightarrow> r = s"
  by (cases r; cases s) simp_all

lemma normalizeRole_role_name [simp]: "normalizeRole (Some (role_name r)) = r"
  by (cases r) (simp_all add: normalizeRole_def ROLES_def)

lemma ROLES_complete: "r \<in> set ROLES"
  by (cases r) (simp_all add: ROLES_def)

lemma actor_has_role:
  "actor_has (Some (ROLE_PERMISSIONS r)) ''roles:manage'' \<longleftrightarrow> r = Owner \<or> r = Super_admin"
  "actor_has (Some (ROLE_PERMISSIONS r)) ''roles:assign_limited'' \<longleftrightarrow> r = Owner \<or> r = Super_admin \<or> r = Admin"
  by (cases r; simp add: actor_has_def PERMISSIONS_def SUPER_ADMIN_def BASELINE_def)+

lemma actor_has_cases:
  assumes "r \<in> set (assignableRoles ps)" "\<not> actor_has ps ''roles:manage''"
  shows "r \<in> set ROLES_BELOW_ADMIN"
  using assms by (auto simp: assignableRoles_def split: if_splits)

lemma below_admin_cannot_delegate:
  "r \<in> set ROLES_BELOW_ADMIN \<Longrightarrow> \<not> actor_has (Some (ROLE_PERMISSIONS r)) ''roles:manage''"
  "r \<in> set ROLES_BELOW_ADMIN \<Longrightarrow> \<not> actor_has (Some (ROLE_PERMISSIONS r)) ''roles:assign_limited''"
  by (auto simp: ROLES_BELOW_ADMIN_def actor_has_role)

section \<open>Properties of the access rules\<close>

text \<open>
  The role matrix is the hierarchy its comments promise: every role holds the baseline
  and the owner holds everything, nobody else does; a super admin holds the catalogue but
  four permissions (both billing ones, the key bootstrap and the AI provider), so every
  role but the owner and billing is below it, and security does not get the master key.
\<close>

theorem role_hierarchy:
  "Guest \<le> r \<and> r \<le> Owner \<and> (Owner \<le> r \<longleftrightarrow> r = Owner)
   \<and> (r \<le> Super_admin \<longleftrightarrow> r \<noteq> Owner \<and> r \<noteq> Billing)
   \<and> set PERMISSIONS - set (ROLE_PERMISSIONS Super_admin)
        = {''billing:manage'', ''billing:read'', ''ai:manage'', ''org_keys:bootstrap''}
   \<and> (''org_keys:use_master'' \<in> set (ROLE_PERMISSIONS r) \<longleftrightarrow> r \<in> set API_KEY_ADMIN_ROLES)
   \<and> distinct PERMISSIONS"
proof -
  have missing: "filter (\<lambda>p. p \<notin> set (ROLE_PERMISSIONS Super_admin)) PERMISSIONS
      = [''billing:manage'', ''billing:read'', ''ai:manage'', ''org_keys:bootstrap'']" and d: "distinct PERMISSIONS"
    by code_simp+
  have "set PERMISSIONS - set (ROLE_PERMISSIONS Super_admin)
      = set (filter (\<lambda>p. p \<notin> set (ROLE_PERMISSIONS Super_admin)) PERMISSIONS)" by auto
  then have difference: "set PERMISSIONS - set (ROLE_PERMISSIONS Super_admin)
      = {''billing:manage'', ''billing:read'', ''ai:manage'', ''org_keys:bootstrap''}" unfolding missing by auto
  have "''org_keys:use_master'' \<in> set (ROLE_PERMISSIONS r) \<longleftrightarrow> r \<in> set API_KEY_ADMIN_ROLES"
    by (cases r; hypsubst; code_simp)
  moreover have "Guest \<le> r \<and> r \<le> Owner \<and> (Owner \<le> r \<longleftrightarrow> r = Owner)
      \<and> (r \<le> Super_admin \<longleftrightarrow> r \<noteq> Owner \<and> r \<noteq> Billing)"
    by (cases r; hypsubst; code_simp)
  ultimately show ?thesis using difference d by blast
qed

text \<open>
  Changing a member is allowed exactly when the member's current role is one the actor
  could have assigned; a role the matrix does not know counts as the least privileged one.
\<close>

theorem modify_iff_assignable:
  "canModifyMember ps current \<longleftrightarrow> normalizeRole (Some current) \<in> set (assignableRoles ps)"
  by (simp add: canModifyMember_def assignableRoles_def ROLES_complete)

text \<open>
  C19: Limited role assignment cannot be used to climb: whoever may assign roles without
  \<open>roles:manage\<close> only gives out roles that can themselves assign nothing, modify nobody,
  reach no API-key administration and hold no organisation key permission; nor can they
  touch an owner, a super admin or an admin.
\<close>

theorem limited_assignment_cannot_escalate:
  assumes "\<not> actor_has ps ''roles:manage''" and "r \<in> set (assignableRoles ps)"
    and "effective_role u = Some (role_name r)"
  shows "assignableRoles (Some (ROLE_PERMISSIONS r)) = []
    \<and> \<not> canModifyMember (Some (ROLE_PERMISSIONS r)) anyone
    \<and> \<not> canAccessApiKeyAdmin (Some u)
    \<and> ''org_keys:use_master'' \<notin> set (ROLE_PERMISSIONS r)
    \<and> ''org_keys:bootstrap'' \<notin> set (ROLE_PERMISSIONS r)
    \<and> (\<forall>high \<in> {Owner, Super_admin, Admin}. \<not> canModifyMember ps (role_name high))"
proof -
  have low: "r \<in> set ROLES_BELOW_ADMIN" using assms(2,1) by (rule actor_has_cases)
  then have "\<not> canAccessApiKeyAdmin (Some u) \<and> ''org_keys:use_master'' \<notin> set (ROLE_PERMISSIONS r)
    \<and> ''org_keys:bootstrap'' \<notin> set (ROLE_PERMISSIONS r)"
    using assms(3)
    by (auto simp: ROLES_BELOW_ADMIN_def canAccessApiKeyAdmin_def API_KEY_ADMIN_ROLES_def
        BASELINE_def)
  moreover have "\<not> canModifyMember ps (role_name high)" if "high \<in> {Owner, Super_admin, Admin}" for high
    using that assms(1) by (auto simp: canModifyMember_def ROLES_BELOW_ADMIN_def
        normalizeRole_role_name simp del: role_name.simps)
  ultimately show ?thesis
    using below_admin_cannot_delegate [OF low]
    by (simp add: assignableRoles_def canModifyMember_def)
qed

theorem limited_assignment_cannot_escalate_witness:
  "assignableRoles (Some (ROLE_PERMISSIONS Support)) = []
   \<and> \<not> canModifyMember (Some (ROLE_PERMISSIONS Admin)) (role_name Super_admin)"
proof -
  let ?u = "\<lparr>scope = Some ''organization'', account_type = None, effective_role = Some ''support'',
    permissions = None, organization_id = None, mode = None, can_switch_admin = False,
    current_plan = None\<rparr>"
  show ?thesis
    using limited_assignment_cannot_escalate [of "Some (ROLE_PERMISSIONS Admin)" Support ?u]
    by (simp add: actor_has_def assignableRoles_def ROLES_BELOW_ADMIN_def)
qed

text \<open>
  The fallback used before the server's answer arrives is consistent: when a user's
  scope can only be derived from the account type, it is the scope of the optimistic access
  for that type, whose permissions are those of its effective role; chat and mail both fall
  back to standard encryption exactly when that scope is not the personal one.
\<close>

theorem optimistic_access_consistent:
  assumes "scope u = None" and "resolveScope u = Some sc"
  shows "da_scope (defaultAccessForAccount (account_type u)) = sc
    \<and> da_permissions (defaultAccessForAccount (account_type u))
        = permissionsForRole (Some (da_effective_role (defaultAccessForAccount (account_type u))))
    \<and> (channelsAlwaysPublic (Some u) \<longleftrightarrow> sc \<noteq> ''personal'')
    \<and> (emailBasicEncryptionOnly (Some u) \<longleftrightarrow> sc \<noteq> ''personal'')"
  using assms
  by (cases "account_type u")
     (auto simp: resolveScope_def scope_of_account_type_def defaultAccessForAccount_def
        normalizeAccountType_def channelsAlwaysPublic_def emailBasicEncryptionOnly_def
        split: if_splits)

theorem optimistic_access_consistent_witness:
  "da_scope (defaultAccessForAccount (Some ''organization_admin'')) = ''organization''"
  using optimistic_access_consistent [of "\<lparr>scope = None, account_type = Some ''organization_admin'',
      effective_role = None, permissions = None, organization_id = None, mode = None,
      can_switch_admin = False, current_plan = None\<rparr>" "''organization''"]
  by (simp add: resolveScope_def scope_of_account_type_def)

text \<open>
  The page gates pick out the roles their comments name: pricing is for the owner, the
  super admin and billing; company integrations are for personal accounts and owners; API
  key administration is for the three top roles and never for a personal account.
\<close>

theorem page_gates:
  "canViewPricing (Some u) = (normalizeRole (effective_role u) \<in> {Owner, Super_admin, Billing})
   \<and> canViewIntegrations (Some u) =
        (resolveScope u = Some ''personal''
         \<or> (resolveScope u \<in> {Some ''organization'', Some ''platform''}
             \<and> normalizeRole (effective_role u) = Owner))
   \<and> canAccessApiKeyAdmin (Some u) =
        (scope u \<noteq> Some ''personal''
         \<and> \<not> normalizeRole (effective_role u) \<in> set ROLES_BELOW_ADMIN)
   \<and> \<not> canViewPricing None \<and> \<not> canViewIntegrations None \<and> \<not> canAccessApiKeyAdmin None"
  by (cases "normalizeRole (effective_role u)")
     (auto simp: canViewPricing_def PRICING_HIDDEN_ROLES_def canViewIntegrations_def
        canAccessApiKeyAdmin_def API_KEY_ADMIN_ROLES_def ROLES_BELOW_ADMIN_def normalizeRole_def
        ROLES_def)

end
