(* ===== verification/Js_String.thy ===== *)
theory Js_String
  imports Prelude
begin

text \<open>
  The string operations of the JavaScript standard library that the modelled code calls, on
  strings as lists of code units. A unit is a \<open>char\<close>, so the model covers text within
  Latin-1 (code points up to 255), where \<open>toLowerCase\<close> changes one unit into one unit.
\<close>

section \<open>Characters\<close>

definition code :: "char \<Rightarrow> nat" where
  "code c = of_char c"

lemma code_less [simp]: "code c < 256"
  unfolding code_def by (rule nat_of_char_less_256)

lemma code_inj [simp]: "code c = code d \<longleftrightarrow> c = d"
  by (simp add: code_def)

lemma char_of_code [simp]: "char_of (code c) = c"
  by (simp add: code_def)

lemma code_char_of [simp]: "n < 256 \<Longrightarrow> code (char_of n) = n"
  by (simp add: code_def)

lemma char_of_eq_iff: "n < 256 \<Longrightarrow> char_of n = c \<longleftrightarrow> n = code c" "n < 256 \<Longrightarrow> c = char_of n \<longleftrightarrow> n = code c"
  by auto

text \<open>The white space and line terminators that \<open>trim\<close> strips, within Latin-1.\<close>

definition js_space :: "char \<Rightarrow> bool" where
  "js_space c \<longleftrightarrow> (9 \<le> code c \<and> code c \<le> 13) \<or> code c = 32 \<or> code c = 160"

definition lower_char :: "char \<Rightarrow> char" where
  "lower_char c =
     (if 65 \<le> code c \<and> code c \<le> 90 \<or> 192 \<le> code c \<and> code c \<le> 222 \<and> code c \<noteq> 215
      then char_of (code c + 32) else c)"

lemma code_lower_char:
  "code (lower_char c) =
     (if 65 \<le> code c \<and> code c \<le> 90 \<or> 192 \<le> code c \<and> code c \<le> 222 \<and> code c \<noteq> 215
      then code c + 32 else code c)"
  by (auto simp: lower_char_def)

lemma lower_char_idem [simp]: "lower_char (lower_char c) = lower_char c"
  by (subst code_inj [symmetric]) (auto simp: code_lower_char)

section \<open>Strings\<close>

definition toLowerCase :: "string \<Rightarrow> string" where
  "toLowerCase s = map lower_char s"

lemma toLowerCase_idem [simp]: "toLowerCase (toLowerCase s) = toLowerCase s"
  by (simp add: toLowerCase_def)

lemma toLowerCase_Nil [simp]: "toLowerCase s = [] \<longleftrightarrow> s = []"
  by (simp add: toLowerCase_def)

lemma toLowerCase_empty [simp]: "toLowerCase [] = []"
  by simp

definition trim :: "string \<Rightarrow> string" where
  "trim s = rev (dropWhile js_space (rev (dropWhile js_space s)))"

text \<open>A string that \<open>trim\<close> leaves alone.\<close>

definition trimmed :: "string \<Rightarrow> bool" where
  "trimmed s \<longleftrightarrow> s = [] \<or> (\<not> js_space (hd s) \<and> \<not> js_space (last s))"

lemma dropWhile_id: "xs = [] \<or> \<not> P (hd xs) \<Longrightarrow> dropWhile P xs = xs"
  by (cases xs) auto

lemma trim_trimmed: "trimmed s \<Longrightarrow> trim s = s"
  by (auto simp: trimmed_def trim_def dropWhile_id hd_rev)

lemma trim_space_Cons: "js_space c \<Longrightarrow> trim (c # s) = trim s"
  by (simp add: trim_def)

lemma hd_dropWhile_js: "dropWhile P xs \<noteq> [] \<Longrightarrow> \<not> P (hd (dropWhile P xs))"
  by (induction xs) auto

lemma last_dropWhile: "dropWhile P xs \<noteq> [] \<Longrightarrow> last (dropWhile P xs) = last xs"
  by (induction xs) (auto split: if_splits)

lemma trimmed_trim: "trimmed (trim s)"
proof -
  define a where "a = dropWhile js_space s"
  define b where "b = dropWhile js_space (rev a)"
  have t: "trim s = rev b" by (simp add: trim_def a_def b_def)
  show ?thesis
  proof (cases "b = []")
    case False
    then have "\<not> js_space (hd b)" unfolding b_def by (rule hd_dropWhile_js)
    moreover from False have "last b = last (rev a)" and "a \<noteq> []"
      unfolding b_def by (auto simp: last_dropWhile)
    moreover from \<open>a \<noteq> []\<close> have "\<not> js_space (hd a)" unfolding a_def by (rule hd_dropWhile_js)
    ultimately show ?thesis
      using False t by (auto simp: trimmed_def hd_rev last_rev)
  qed (simp add: t trimmed_def)
qed

lemma trim_idem [simp]: "trim (trim s) = trim s"
  by (simp add: trim_trimmed trimmed_trim)

text \<open>\<open>parts.join(sep)\<close>.\<close>

fun join :: "string \<Rightarrow> string list \<Rightarrow> string" where
  "join sep [] = []"
| "join sep [p] = p"
| "join sep (p # q # ps) = p @ sep @ join sep (q # ps)"

text \<open>\<open>s.split(c)\<close> for a separator of one code unit.\<close>

fun split_on :: "char \<Rightarrow> string \<Rightarrow> string list" where
  "split_on c [] = [[]]"
| "split_on c (x # xs) =
     (if x = c then [] # split_on c xs
      else (case split_on c xs of [] \<Rightarrow> [[x]] | p # ps \<Rightarrow> (x # p) # ps))"

lemma split_on_not_Nil [simp]: "split_on c s \<noteq> []"
  by (cases s) (auto split: list.split)

lemma split_on_append:
  "c \<notin> set p \<Longrightarrow> split_on c (p @ c # s) = p # split_on c s"
  by (induction p) auto

lemma split_on_last: "c \<notin> set p \<Longrightarrow> split_on c p = [p]"
  by (induction p) auto

lemma split_on_join:
  "ps \<noteq> [] \<Longrightarrow> \<forall>p \<in> set ps. c \<notin> set p \<Longrightarrow> split_on c (join [c] ps) = ps"
  by (induction "[c]" ps rule: join.induct) (auto simp: split_on_append split_on_last)

section \<open>Keeping the first of each key\<close>

text \<open>
  \<open>xs.filter(x => { if (!ok(x) || seen.has(key(x))) return false; seen.add(key(x)); return true })\<close>:
  the kept elements and the set of keys seen when the filter ends.
\<close>

fun filter_seen :: "('a \<Rightarrow> bool) \<Rightarrow> ('a \<Rightarrow> 'k) \<Rightarrow> 'k set \<Rightarrow> 'a list \<Rightarrow> 'a list \<times> 'k set" where
  "filter_seen ok key seen [] = ([], seen)"
| "filter_seen ok key seen (x # xs) =
     (if \<not> ok x \<or> key x \<in> seen then filter_seen ok key seen xs
      else (case filter_seen ok key (insert (key x) seen) xs of (ys, s) \<Rightarrow> (x # ys, s)))"

lemma filter_seen_step:
  assumes "filter_seen ok key seen (x # xs) = (ys, s)"
  obtains (skip) "\<not> ok x \<or> key x \<in> seen" "filter_seen ok key seen xs = (ys, s)"
  | (keep) zs where "ok x" "key x \<notin> seen" "ys = x # zs"
      "filter_seen ok key (insert (key x) seen) xs = (zs, s)"
  using assms by (auto split: if_splits prod.splits)

lemma filter_seen_sound:
  "filter_seen ok key seen xs = (ys, s) \<Longrightarrow>
   distinct (map key ys) \<and> set ys \<subseteq> {x \<in> set xs. ok x} \<and> key ` set ys \<inter> seen = {}
   \<and> s = seen \<union> key ` set ys"
proof (induction xs arbitrary: seen ys)
  case (Cons x xs)
  from Cons.prems show ?case
  proof (cases rule: filter_seen_step)
    case skip
    from Cons.IH [OF skip(2)] show ?thesis by auto
  next
    case (keep zs)
    from Cons.IH [OF keep(4)] keep(1-3) show ?thesis by auto
  qed
qed simp

lemma filter_seen_distinct: "distinct (map key (fst (filter_seen ok key seen xs)))"
  using filter_seen_sound [of ok key seen xs] by (cases "filter_seen ok key seen xs") simp

lemma filter_seen_complete:
  "filter_seen ok key seen xs = (ys, s) \<Longrightarrow> x \<in> set xs \<Longrightarrow> ok x \<Longrightarrow> key x \<in> s"
proof (induction xs arbitrary: seen ys)
  case (Cons y xs)
  from Cons.prems(1) show ?case
  proof (cases rule: filter_seen_step)
    case skip
    then have "key y \<in> seen \<or> \<not> ok y" by blast
    moreover have "seen \<subseteq> s" using filter_seen_sound [OF skip(2)] by blast
    ultimately show ?thesis using Cons.IH [OF skip(2)] Cons.prems(2,3) by auto
  next
    case (keep zs)
    have "key y \<in> s" using filter_seen_sound [OF keep(4)] by blast
    then show ?thesis using Cons.IH [OF keep(4)] Cons.prems(2,3) by auto
  qed
qed simp

section \<open>Decimal numerals\<close>

definition digit :: "nat \<Rightarrow> char" where
  "digit n = char_of (48 + n)"

definition is_digit :: "char \<Rightarrow> bool" where
  "is_digit c \<longleftrightarrow> 48 \<le> code c \<and> code c \<le> 57"

definition digit_val :: "char \<Rightarrow> nat" where
  "digit_val c = code c - 48"

text \<open>\<open>n.toString()\<close> and \<open>Number(s)\<close> for a string of digits.\<close>

fun nat_str :: "nat \<Rightarrow> string" where
  "nat_str n = (if n < 10 then [digit n] else nat_str (n div 10) @ [digit (n mod 10)])"

declare nat_str.simps [simp del]

definition nat_val :: "string \<Rightarrow> nat" where
  "nat_val s = foldl (\<lambda>n c. 10 * n + digit_val c) 0 s"

text \<open>\<open>s.padStart(2, "0")\<close>.\<close>

definition pad2 :: "string \<Rightarrow> string" where
  "pad2 s = replicate (2 - length s) (CHR ''0'') @ s"

lemma code_digit [simp]: "n < 10 \<Longrightarrow> code (digit n) = 48 + n"
  by (simp add: digit_def)

lemma digit_facts [simp]:
  "n < 10 \<Longrightarrow> is_digit (digit n)" "n < 10 \<Longrightarrow> digit_val (digit n) = n"
  "n < 10 \<Longrightarrow> \<not> js_space (digit n)" "n < 10 \<Longrightarrow> lower_char (digit n) = digit n"
  by (simp_all add: is_digit_def digit_val_def js_space_def lower_char_def)

lemma nat_val_append: "nat_val (s @ [c]) = 10 * nat_val s + digit_val c"
  by (simp add: nat_val_def)

lemma nat_val_nat_str [simp]: "nat_val (nat_str n) = n"
proof (induction n rule: nat_str.induct)
  case (1 n)
  then show ?case
    by (subst nat_str.simps) (auto simp: nat_val_append, simp add: nat_val_def)
qed

lemma nat_str_digits: "c \<in> set (nat_str n) \<Longrightarrow> is_digit c"
proof (induction n rule: nat_str.induct)
  case (1 n)
  then show ?case by (subst (asm) (2) nat_str.simps) (auto split: if_splits)
qed

lemma nat_str_not_Nil [simp]: "nat_str n \<noteq> []"
  by (subst nat_str.simps) simp

lemma pad2_two: "n < 100 \<Longrightarrow> pad2 (nat_str n) = [digit (n div 10), digit (n mod 10)]"
proof -
  have "digit 0 = CHR ''0''" by (subst code_inj [symmetric]) (simp add: code_def digit_def)
  moreover assume "n < 100"
  ultimately show ?thesis
    by (subst nat_str.simps) (auto simp: pad2_def nat_str.simps [of "n div 10"])
qed

end
