(* ===== verification/Email_Conversation.thy ===== *)
theory Email_Conversation
  imports Js_String
begin

text \<open>
  The rows of a mail list (\<open>emails/types.ts\<close>), what a conversation row stands for
  (\<open>emails/conversation.ts\<close>) and which folder a list request reads (\<open>emails/searchScope.ts\<close>).
  Absent and \<open>null\<close> fields are \<open>None\<close>; a timestamp is its \<open>getTime\<close> value in milliseconds;
  \<open>content\<close> stands for the fields no modelled operation reads.
\<close>

section \<open>Rows\<close>

record participant =
  p_sender :: string
  p_unread :: bool

record email =
  eid :: int
  account_id :: "int option"
  sender :: "string option"
  receiver :: "string option"
  cc :: "string option"
  body :: "string option"
  created_at :: int
  sort_at :: "int option"
  is_read :: "bool option"
  is_starred :: "bool option"
  starred_ids :: "int list option"
  snoozed_until :: "int option"
  thread_id :: "int option"
  message_count :: "int option"
  unread_count :: "int option"
  message_ids :: "int list option"
  unread_ids :: "int list option"
  participants :: "participant list option"
  content :: string

text \<open>The key strings \<open>t\<close> followed by the thread and \<open>e\<close> followed by the email id.\<close>

datatype conv_key = ThreadKey int | EmailKey int

definition conversationKey :: "email \<Rightarrow> conv_key" where
  "conversationKey e =
     (case thread_id e of Some t \<Rightarrow> ThreadKey t | None \<Rightarrow> EmailKey (eid e))"

definition conversationMessageIds :: "email \<Rightarrow> int list" where
  "conversationMessageIds e =
     (case message_ids e of Some ids \<Rightarrow> if length ids > 0 then ids else [eid e]
      | None \<Rightarrow> [eid e])"

definition isConversation :: "email \<Rightarrow> bool" where
  "isConversation e \<longleftrightarrow> nullish (message_count e) 1 > 1"

definition isUnread :: "email \<Rightarrow> bool" where
  "isUnread e \<longleftrightarrow> nullish (unread_count e) 0 > 0 \<or> is_read e = Some False"

definition clearUnreadSenders :: "participant list option \<Rightarrow> participant list option" where
  "clearUnreadSenders = map_option (map (\<lambda>p. p\<lparr>p_unread := False\<rparr>))"

definition isStarred :: "email \<Rightarrow> bool" where
  "isStarred e \<longleftrightarrow> is_starred e = Some True
     \<or> (case starred_ids e of None \<Rightarrow> 0 | Some ids \<Rightarrow> length ids) > 0"

section \<open>Who a row names\<close>

text \<open>
  \<open>value.match(/<([^>]+)>/)\<close>: the first opening bracket that is followed by at least one
  other character before a closing bracket.
\<close>

fun angle_match :: "string \<Rightarrow> string option" where
  "angle_match [] = None"
| "angle_match (c # cs) =
     (if c = CHR ''<'' \<and> takeWhile (\<lambda>d. d \<noteq> CHR ''>'') cs \<noteq> [] \<and> CHR ''>'' \<in> set cs
      then Some (takeWhile (\<lambda>d. d \<noteq> CHR ''>'') cs)
      else angle_match cs)"

definition row_addressOf :: "string \<Rightarrow> string" where
  "row_addressOf value = trim (nullish (angle_match value) value)"

type_synonym sender_name = "string \<times> bool"

definition own_set :: "string list \<Rightarrow> string set" where
  "own_set ownAddresses = set (filter (\<lambda>a. a \<noteq> []) (map (\<lambda>a. toLowerCase (trim a)) ownAddresses))"

definition participant_name ::
  "string set \<Rightarrow> (string option \<Rightarrow> string) \<Rightarrow> participant \<Rightarrow> string" where
  "participant_name own displayName p =
     (if toLowerCase (row_addressOf (p_sender p)) \<in> own then ''me''
      else displayName (Some (p_sender p)))"

text \<open>A name already listed keeps its place and gains the unread flag.\<close>

definition add_sender :: "sender_name list \<Rightarrow> sender_name \<Rightarrow> sender_name list" where
  "add_sender all s =
     (if fst s \<in> fst ` set all
      then map (\<lambda>n. if fst n = fst s then (fst n, snd n \<or> snd s) else n) all
      else all @ [s])"

definition all_senders ::
  "string set \<Rightarrow> (string option \<Rightarrow> string) \<Rightarrow> participant list \<Rightarrow> sender_name list" where
  "all_senders own displayName ps =
     foldl (\<lambda>all p. add_sender all (participant_name own displayName p, p_unread p)) [] ps"

record sender_line =
  sl_names :: "sender_name list"
  sl_gap :: bool
  sl_label :: string
  sl_lead :: string

text \<open>\<open>gapText\<close> is the separator of a shortened label, whose ellipsis is not Latin-1.\<close>

definition conversationSenders ::
  "string \<Rightarrow> email \<Rightarrow> string list \<Rightarrow> (string option \<Rightarrow> string) \<Rightarrow> sender_line" where
  "conversationSenders gapText e ownAddresses displayName =
     (let ps = filter (\<lambda>p. p_sender p \<noteq> []) (nullish (participants e) []) in
      if ps = [] then
        (let name = displayName (if nullish (sender e) [] \<noteq> [] then sender e else receiver e)
         in \<lparr>sl_names = [(name, False)], sl_gap = False, sl_label = name, sl_lead = name\<rparr>)
      else
        (let all = all_senders (own_set ownAddresses) displayName ps;
             gap = length all > 3;
             names = (if gap then hd all # drop (length all - 2) all else all);
             label = (if gap then fst (hd names) @ gapText @ join '', '' (map fst (tl names))
                      else join '', '' (map fst names))
         in \<lparr>sl_names = names, sl_gap = gap, sl_label = label,
             sl_lead = (case find (\<lambda>n. fst n \<noteq> ''me'') all of Some n \<Rightarrow> fst n | None \<Rightarrow> ''me'')\<rparr>))"

section \<open>Folders\<close>

datatype folder =
    Inbox | Sent | Important | Starred | Snoozed | Updates | Spam | Drafts | Social | Trash
  | Github_folder | Promotions | Archived | Scheduled | Signal | Noise | All | Forums
  | Label int string

definition SEARCHED_IN_PLACE :: "folder list" where
  "SEARCHED_IN_PLACE = [Spam, Drafts, Trash]"

definition STUB_EMAIL_FOLDERS :: "folder list" where
  "STUB_EMAIL_FOLDERS = [Scheduled]"

definition SEARCH_SCOPES :: "folder list" where
  "SEARCH_SCOPES = [All, Spam, Drafts, Trash]"

definition searchScope :: "folder \<Rightarrow> folder" where
  "searchScope f = (if f \<in> set SEARCHED_IN_PLACE then f else All)"

definition listFolder :: "folder \<Rightarrow> string \<Rightarrow> folder" where
  "listFolder f query = (if trim query \<noteq> [] \<and> f \<notin> set SEARCHED_IN_PLACE then All else f)"

definition isStubView :: "folder \<Rightarrow> string \<Rightarrow> bool" where
  "isStubView f query \<longleftrightarrow> trim query = [] \<and> f \<in> set STUB_EMAIL_FOLDERS"

section \<open>Facts\<close>

lemma conversationKey_same_id:
  "thread_id e = thread_id f \<Longrightarrow> eid e = eid f \<Longrightarrow> conversationKey e = conversationKey f"
  by (simp add: conversationKey_def split: option.split)

lemma add_sender_names:
  "map fst (add_sender all s) = (if fst s \<in> fst ` set all then map fst all else map fst all @ [fst s])"
  by (auto simp: add_sender_def comp_def)

text \<open>The folded list names everyone once and flags a name iff one of its people is unread.\<close>

lemma add_senders_fold:
  fixes name :: "participant \<Rightarrow> string"
  assumes "distinct (map fst acc)" "foldl (\<lambda>all p. add_sender all (name p, p_unread p)) acc ps = r"
  shows "distinct (map fst r) \<and> fst ` set r = fst ` set acc \<union> name ` set ps
    \<and> (\<forall>n. (n, True) \<in> set r \<longleftrightarrow> (n, True) \<in> set acc \<or> (\<exists>p \<in> set ps. name p = n \<and> p_unread p))"
  using assms
proof (induction ps arbitrary: acc)
  case (Cons p ps)
  let ?acc = "add_sender acc (name p, p_unread p)"
  have d: "distinct (map fst ?acc)"
    using Cons.prems(1) by (auto simp: add_sender_names)
  have "fst ` set ?acc = set (map fst ?acc)" by simp
  then have f: "fst ` set ?acc = insert (name p) (fst ` set acc)"
    unfolding add_sender_names by auto
  have u: "(n, True) \<in> set ?acc \<longleftrightarrow> (n, True) \<in> set acc \<or> (name p = n \<and> p_unread p)" for n
    by (force simp: add_sender_def image_iff split: if_splits)
  show ?case
    using Cons.IH [OF d] Cons.prems(2) f u by auto
qed auto

text \<open>
  A row names everyone who wrote in the conversation once, at most three of them, the
  first and the two latest when there are more; a name is bold exactly when one of the
  people behind it has an unread message; only your own addresses are called "me".
\<close>

theorem conversation_senders_named_once:
  fixes e :: email and own :: "string list" and displayName :: "string option \<Rightarrow> string"
    and g :: string
  assumes "ps = filter (\<lambda>p. p_sender p \<noteq> []) (nullish (participants e) [])" "ps \<noteq> []"
  defines "name \<equiv> participant_name (own_set own) displayName"
    and "line \<equiv> conversationSenders g e own displayName"
  shows "distinct (map fst (sl_names line)) \<and> length (sl_names line) \<le> 3
    \<and> fst ` set (sl_names line) \<subseteq> name ` set ps
    \<and> (\<not> sl_gap line \<longrightarrow> fst ` set (sl_names line) = name ` set ps)
    \<and> (\<forall>(n, u) \<in> set (sl_names line). u \<longleftrightarrow> (\<exists>p \<in> set ps. name p = n \<and> p_unread p))"
proof -
  define all where "all = all_senders (own_set own) displayName ps"
  have fold: "distinct (map fst all)" "fst ` set all = name ` set ps"
    and flag: "(n, True) \<in> set all \<longleftrightarrow> (\<exists>p \<in> set ps. name p = n \<and> p_unread p)" for n
    using add_senders_fold [of "[]" name ps]
    by (auto simp: all_def all_senders_def name_def)
  have bold: "u \<longleftrightarrow> (\<exists>p \<in> set ps. name p = n \<and> p_unread p)" if "(n, u) \<in> set all" for n u
  proof (cases u)
    case False
    have "(n, True) \<notin> set all"
      using fold(1) that False by (metis eq_key_imp_eq_value)
    with False show ?thesis by (simp add: flag)
  qed (use that in \<open>simp add: flag\<close>)
  define names where "names = (if length all > 3 then hd all # drop (length all - 2) all else all)"
  have line: "sl_names line = names" "sl_gap line = (length all > 3)"
    using assms(1,2)
    by (simp_all add: line_def conversationSenders_def Let_def all_def names_def)
  have sub: "set names \<subseteq> set all"
    by (cases all) (auto simp: names_def dest: in_set_dropD)
  have "distinct (map fst names)"
  proof (cases "length all > 3")
    case True
    then obtain x xs where all: "all = x # xs" by (cases all) auto
    with True have "drop (length all - 2) all = drop (length xs - 2) xs"
      by (auto simp: drop_Cons' Suc_diff_le numeral_2_eq_2)
    then have "names = x # drop (length xs - 2) xs" using True all by (simp add: names_def)
    moreover have "set (map fst (drop (length xs - 2) xs)) \<subseteq> set (map fst xs)"
      by (auto dest: in_set_dropD)
    ultimately show ?thesis
      using fold(1) all by (auto simp: drop_map [symmetric] dest: in_set_dropD)
  qed (use fold(1) in \<open>simp add: names_def\<close>)
  moreover have "length names \<le> 3" by (auto simp: names_def)
  moreover have "fst ` set names \<subseteq> name ` set ps"
    using sub by (simp flip: fold(2) add: image_mono)
  moreover have "names = all" if "\<not> length all > 3" using that by (simp add: names_def)
  moreover have "\<forall>(n, u) \<in> set names. u \<longleftrightarrow> (\<exists>p \<in> set ps. name p = n \<and> p_unread p)"
    using sub bold by blast
  ultimately show ?thesis unfolding line by (simp add: fold(2))
qed

text \<open>A row with its id and conversation, every other field absent.\<close>

definition plain_row :: "int \<Rightarrow> int option \<Rightarrow> int \<Rightarrow> email" where
  "plain_row i t time = \<lparr>eid = i, account_id = None, sender = None, receiver = None, cc = None,
     body = None, created_at = time, sort_at = None, is_read = None, is_starred = None,
     starred_ids = None, snoozed_until = None, thread_id = t, message_count = None,
     unread_count = None, message_ids = None, unread_ids = None, participants = None,
     content = []\<rparr>"

theorem conversation_senders_named_once_witness:
  "let line = conversationSenders '' .. '' ((plain_row 1 (Some 7) 0)\<lparr>participants :=
      Some [\<lparr>p_sender = ''ann'', p_unread = True\<rparr>, \<lparr>p_sender = ''bob'', p_unread = False\<rparr>]\<rparr>)
      [''bob''] (\<lambda>v. nullish v '''')
   in distinct (map fst (sl_names line)) \<and> length (sl_names line) \<le> 3"
  unfolding Let_def
  using conversation_senders_named_once [OF refl, of
      "(plain_row 1 (Some 7) 0)\<lparr>participants :=
         Some [\<lparr>p_sender = ''ann'', p_unread = True\<rparr>, \<lparr>p_sender = ''bob'', p_unread = False\<rparr>]\<rparr>"
      "'' .. ''" "[''bob'']" "\<lambda>v. nullish v ''''"]
  by simp

end
