(* ===== verification/Email_Inbox.thy ===== *)
theory Email_Inbox
  imports Email_Conversation "HOL-Library.Multiset" "HOL-Library.Sublist"
begin

text \<open>
  The state and operations of the mail list: \<open>emails/useEmailInbox.ts\<close>. An operation that
  waits for the server is split where it waits: a \<open>begin_\<close> function is what runs up to the
  request, with what the closure captures as its result, and a \<open>finish_\<close> or \<open>fail_\<close> function is
  what runs on the answer, applied to the state at that time. A state updater is taken to
  run when it is queued.
\<close>

section \<open>State\<close>

record account =
  acc_id :: int
  acc_unread_count :: "int option"

type_synonym view_key = "int option \<times> folder \<times> string"

record inbox =
  accounts :: "account list"
  emails :: "email list"
  selectedEmail :: "email option"
  conversation :: "(int \<times> email list) option"
  activeAccount :: "int option"
  activeFolder :: folder
  query :: string
  hasMore :: bool
  total :: "int option"
  loadingMore :: bool
  loadedKeyRef :: "view_key option"
  loadedListKey :: "view_key option"
  emailCache :: "int \<rightharpoonup> email"
  conversationFor :: "int option"

record trashed_batch =
  tb_rows :: "email list"
  tb_ids :: "int list"

record page =
  pg_emails :: "email list"
  pg_hasMore :: bool
  pg_total :: "int option"

record list_request =
  lr_folder :: folder
  lr_account :: "int option"
  lr_query :: string
  lr_before :: "(int \<times> int) option"

text \<open>\<open>[...].sort(listOrder(folder))\<close>, which is stable.\<close>

definition sortTime :: "email \<Rightarrow> int" where
  "sortTime e = nullish (sort_at e) (created_at e)"

definition order_key :: "folder \<Rightarrow> email \<Rightarrow> int" where
  "order_key f e = (if f = Snoozed then sortTime e else - sortTime e)"

definition sort_rows :: "folder \<Rightarrow> email list \<Rightarrow> email list" where
  "sort_rows f es = sort_key (order_key f) es"

definition HIDES_SNOOZED :: "folder list" where
  "HIDES_SNOOZED = [Inbox, Signal, Noise, Github_folder]"

section \<open>Loading the list\<close>

record fetch =
  ft_first :: bool
  ft_fresh :: bool
  ft_key :: view_key
  ft_request :: "list_request option"

definition current_key :: "inbox \<Rightarrow> view_key" where
  "current_key s = (activeAccount s, activeFolder s, query s)"

definition begin_fetch :: "inbox \<Rightarrow> inbox \<times> fetch" where
  "begin_fetch s =
     (s\<lparr>loadedKeyRef := Some (current_key s)\<rparr>,
      \<lparr>ft_first = (loadedKeyRef s = None),
       ft_fresh = (loadedKeyRef s \<noteq> Some (current_key s)),
       ft_key = current_key s,
       ft_request =
         (if isStubView (activeFolder s) (query s) then None
          else Some \<lparr>lr_folder = listFolder (activeFolder s) (query s),
                     lr_account = activeAccount s, lr_query = query s, lr_before = None\<rparr>)\<rparr>)"

text \<open>Choosing another account, folder or search; a new account empties the body cache.\<close>

definition switch_view :: "int option \<Rightarrow> folder \<Rightarrow> string \<Rightarrow> inbox \<Rightarrow> inbox" where
  "switch_view account f q s =
     s\<lparr>activeAccount := account, activeFolder := f, query := q,
       emailCache := (if account \<noteq> activeAccount s then Map.empty else emailCache s)\<rparr>"

definition stub_page :: page where
  "stub_page = \<lparr>pg_emails = [], pg_hasMore = False, pg_total = Some 0\<rparr>"

text \<open>The lookups of a refresh: a \<open>Map\<close> built from a list keeps the last entry of a key.\<close>

definition by_key :: "email list \<Rightarrow> conv_key \<rightharpoonup> email" where
  "by_key data = map_of (rev (map (\<lambda>e. (conversationKey e, e)) data))"

definition by_member :: "email list \<Rightarrow> int \<rightharpoonup> email" where
  "by_member data =
     map_of (rev (concat (map (\<lambda>e. map (\<lambda>i. (i, e)) (conversationMessageIds e)) data)))"

definition fresh_row :: "email list \<Rightarrow> email \<Rightarrow> email option" where
  "fresh_row data e =
     (case by_key data (conversationKey e) of Some n \<Rightarrow> Some n | None \<Rightarrow> by_member data (eid e))"

fun merge_loaded :: "email list \<Rightarrow> conv_key set \<Rightarrow> email list \<Rightarrow> email list \<times> conv_key set" where
  "merge_loaded data placed [] = ([], placed)"
| "merge_loaded data placed (e # es) =
     (case fresh_row data e of
        None \<Rightarrow> (case merge_loaded data placed es of (m, p) \<Rightarrow> (e # m, p))
      | Some n \<Rightarrow>
          if eid n \<noteq> eid e \<or> conversationKey n \<in> placed then merge_loaded data placed es
          else (case merge_loaded data (insert (conversationKey n) placed) es of
                  (m, p) \<Rightarrow> (n # m, p)))"

definition merge_rows :: "email list \<Rightarrow> email list \<Rightarrow> email list" where
  "merge_rows data prev =
     (case merge_loaded data {} prev of
        (merged, placed) \<Rightarrow>
          (let newAtTop = filter (\<lambda>e. conversationKey e \<notin> placed) data
           in if length newAtTop > 0 then newAtTop @ merged else merged))"

definition keep_selection :: "bool \<Rightarrow> email list \<Rightarrow> email option \<Rightarrow> email option" where
  "keep_selection isFirstLoad data cur =
     (if isFirstLoad
         \<or> (case cur of None \<Rightarrow> False
            | Some c \<Rightarrow> list_ex (\<lambda>e. eid e = eid c \<or> conversationKey e = conversationKey c) data)
      then cur else None)"

definition finish_fetch :: "fetch \<Rightarrow> page \<Rightarrow> inbox \<Rightarrow> inbox" where
  "finish_fetch ft p s =
     (let data = pg_emails p; s1 = s\<lparr>total := pg_total p\<rparr> in
      if ft_fresh ft
      then s1\<lparr>emails := data, loadedListKey := Some (ft_key ft),
              hasMore := (pg_hasMore p \<or> length data > 0),
              selectedEmail := keep_selection (ft_first ft) data (selectedEmail s)\<rparr>
      else s1\<lparr>emails := merge_rows data (emails s)\<rparr>)"

definition fail_fetch :: "fetch \<Rightarrow> inbox \<Rightarrow> inbox" where
  "fail_fetch ft s = (if ft_first ft then s\<lparr>loadedListKey := Some (ft_key ft)\<rparr> else s)"

definition begin_more :: "inbox \<Rightarrow> (inbox \<times> list_request) option" where
  "begin_more s =
     (if \<not> hasMore s \<or> emails s = [] \<or> loadingMore s then None
      else Some (s\<lparr>loadingMore := True\<rparr>,
        \<lparr>lr_folder = listFolder (activeFolder s) (query s), lr_account = activeAccount s,
         lr_query = query s, lr_before = Some (sortTime (last (emails s)), eid (last (emails s)))\<rparr>))"

definition append_rows :: "email list \<Rightarrow> email list \<Rightarrow> email list" where
  "append_rows data prev =
     prev @ filter (\<lambda>e. conversationKey e \<notin> conversationKey ` set prev \<and> eid e \<notin> eid ` set prev) data"

definition finish_more :: "email list \<Rightarrow> inbox \<Rightarrow> inbox" where
  "finish_more data s =
     s\<lparr>emails := append_rows data (emails s), hasMore := length data > 0, loadingMore := False\<rparr>"

definition fail_more :: "inbox \<Rightarrow> inbox" where
  "fail_more s = s\<lparr>loadingMore := False\<rparr>"

section \<open>Opening\<close>

definition drop_badge :: "int \<Rightarrow> account \<Rightarrow> account" where
  "drop_badge n a = a\<lparr>acc_unread_count := Some (max 0 (nullish (acc_unread_count a) 0 - n))\<rparr>"

definition read_row :: "email \<Rightarrow> email" where
  "read_row e = e\<lparr>is_read := Some True, unread_count := Some 0,
     participants := clearUnreadSenders (participants e)\<rparr>"

datatype request = GetEmail int | GetThread int | MarkRead int

text \<open>What opening a row does before its detail request is answered.\<close>

definition begin_open :: "email \<Rightarrow> inbox \<Rightarrow> inbox \<times> request list" where
  "begin_open e s =
     (let wasUnread = (is_read e = Some False);
          unreadDrop = nullish (unread_count e) (if wasUnread then 1 else 0);
          s1 = s\<lparr>emails := map (\<lambda>item. if eid item = eid e then read_row item else item) (emails s)\<rparr>;
          s2 = (case account_id e of
                  Some a \<Rightarrow>
                    if unreadDrop > 0
                    then s1\<lparr>accounts := map (\<lambda>acc. if acc_id acc = a then drop_badge unreadDrop acc
                                                    else acc) (accounts s1)\<rparr>
                    else s1
                | None \<Rightarrow> s1);
          s3 = s2\<lparr>conversation := None, conversationFor := Some (eid e)\<rparr>;
          early = (if isConversation e then [GetThread (eid e)] else [])
                  @ (if wasUnread then [MarkRead (eid e)] else [])
      in case emailCache s3 (eid e) of
           Some c \<Rightarrow>
             (let cached = c\<lparr>is_read := Some True\<rparr>
              in (s3\<lparr>emailCache := (emailCache s3)(eid e \<mapsto> cached), selectedEmail := Some cached\<rparr>,
                  early))
         | None \<Rightarrow> (s3, early @ [GetEmail (eid e)]))"

text \<open>
  \<open>{...a, ...b}\<close> where a field absent from \<open>b\<close> keeps \<open>a\<close>'s value; a \<open>null\<close> in \<open>b\<close> is not told
  from an absent field.
\<close>

definition over :: "'a option \<Rightarrow> 'a option \<Rightarrow> 'a option" where
  "over b a = (case b of Some x \<Rightarrow> Some x | None \<Rightarrow> a)"

definition spread :: "email \<Rightarrow> email \<Rightarrow> email" where
  "spread a b = \<lparr>eid = eid b, account_id = over (account_id b) (account_id a),
     sender = over (sender b) (sender a), receiver = over (receiver b) (receiver a),
     cc = over (cc b) (cc a), body = over (body b) (body a), created_at = created_at b,
     sort_at = over (sort_at b) (sort_at a), is_read = over (is_read b) (is_read a),
     is_starred = over (is_starred b) (is_starred a),
     starred_ids = over (starred_ids b) (starred_ids a),
     snoozed_until = over (snoozed_until b) (snoozed_until a),
     thread_id = over (thread_id b) (thread_id a),
     message_count = over (message_count b) (message_count a),
     unread_count = over (unread_count b) (unread_count a),
     message_ids = over (message_ids b) (message_ids a),
     unread_ids = over (unread_ids b) (unread_ids a),
     participants = over (participants b) (participants a), content = content b\<rparr>"

definition shown_message :: "email \<Rightarrow> email list \<Rightarrow> email" where
  "shown_message row messages =
     (if messages \<noteq> [] \<and> eid (last messages) \<noteq> eid row then last messages else row)"

definition switch_row :: "email \<Rightarrow> email list \<Rightarrow> email \<Rightarrow> email" where
  "switch_row shown messages item =
     (spread item (shown\<lparr>is_read := Some True\<rparr>))
       \<lparr>message_count := Some (int (length messages)), message_ids := Some (rev (map eid messages)),
        unread_count := Some 0, unread_ids := Some [],
        participants := clearUnreadSenders (participants item)\<rparr>"

text \<open>The answer with a conversation's messages, up to the request for the newest body.\<close>

definition finish_conversation :: "email \<Rightarrow> email list \<Rightarrow> inbox \<Rightarrow> inbox \<times> request list" where
  "finish_conversation row messages s =
     (if conversationFor s \<noteq> Some (eid row) then (s, [])
      else
        (let shown = shown_message row messages;
             reads = map (\<lambda>m. MarkRead (eid m))
                       (filter (\<lambda>m. is_read m = Some False \<and> eid m \<noteq> eid row) messages)
         in if eid shown = eid row
            then (s\<lparr>conversation := Some (eid row, messages)\<rparr>, reads)
            else (s\<lparr>conversationFor := Some (eid shown),
                    emails := map (\<lambda>item. if eid item = eid row then switch_row shown messages item
                                           else item) (emails s),
                    conversation := Some (eid shown, messages),
                    selectedEmail := Some (spread row (shown\<lparr>is_read := Some True\<rparr>))\<rparr>,
                  reads @ (if case emailCache s (eid shown) of Some c \<Rightarrow> body c \<noteq> None | None \<Rightarrow> False
                           then [] else [GetEmail (eid shown)]))))"

section \<open>Delete, restore, noise\<close>

record deletion =
  dl_id :: int
  dl_ids :: "int list"
  dl_gone :: "conv_key option"
  dl_rows :: "email list"

definition covers :: "int \<Rightarrow> email \<Rightarrow> bool" where
  "covers i e \<longleftrightarrow> eid e = i \<or> (case message_ids e of None \<Rightarrow> False | Some ids \<Rightarrow> i \<in> set ids)"

definition is_gone :: "int \<Rightarrow> conv_key option \<Rightarrow> email \<Rightarrow> bool" where
  "is_gone i gone e \<longleftrightarrow> eid e = i \<or> gone = Some (conversationKey e)"

definition begin_delete :: "int \<Rightarrow> inbox \<Rightarrow> deletion" where
  "begin_delete emailId s =
     (let row = find (covers emailId) (emails s);
          gone = map_option conversationKey row
      in \<lparr>dl_id = emailId,
          dl_ids = (case row of Some r \<Rightarrow> conversationMessageIds r | None \<Rightarrow> [emailId]),
          dl_gone = gone,
          dl_rows = filter (is_gone emailId gone) (emails s)\<rparr>)"

definition forget :: "int list \<Rightarrow> (int \<rightharpoonup> email) \<Rightarrow> int \<rightharpoonup> email" where
  "forget ids c = (\<lambda>i. if i \<in> set ids then None else c i)"

definition unselect :: "int set \<Rightarrow> email option \<Rightarrow> email option" where
  "unselect ids cur = (case cur of Some c \<Rightarrow> if eid c \<in> ids then None else cur | None \<Rightarrow> None)"

text \<open>The answer lists the messages that failed to move, each with its error.\<close>

definition finish_delete ::
  "deletion \<Rightarrow> (int \<times> string) list \<Rightarrow> inbox \<Rightarrow> (inbox \<times> trashed_batch) result" where
  "finish_delete d failed s =
     (case failed of
        (_, err) # _ \<Rightarrow> Throw (Error err)
      | [] \<Rightarrow> Ok (s\<lparr>emailCache := forget (dl_ids d) (emailCache s),
                    emails := filter (\<lambda>e. \<not> is_gone (dl_id d) (dl_gone d) e) (emails s),
                    selectedEmail := unselect (set (dl_ids d)) (selectedEmail s),
                    conversation := None\<rparr>,
                  \<lparr>tb_rows = dl_rows d, tb_ids = dl_ids d\<rparr>))"

definition restored_rows :: "int set \<Rightarrow> email list \<Rightarrow> email list" where
  "restored_rows failed rows =
     filter (\<lambda>row. list_all (\<lambda>i. i \<notin> failed) (conversationMessageIds row)) rows"

definition finish_undoTrash ::
  "folder \<Rightarrow> trashed_batch \<Rightarrow> int set \<Rightarrow> inbox \<Rightarrow> inbox \<times> nat" where
  "finish_undoTrash folder batch failed s =
     ((if folder \<noteq> Trash then
         (let missing = filter (\<lambda>row. conversationKey row \<notin> conversationKey ` set (emails s))
                          (restored_rows failed (tb_rows batch))
          in if length missing > 0 then s\<lparr>emails := sort_rows folder (emails s @ missing)\<rparr> else s)
       else s), card failed)"

definition finish_restoreEmail :: "int \<Rightarrow> (int \<times> string) list \<Rightarrow> inbox \<Rightarrow> inbox result" where
  "finish_restoreEmail emailId failed s =
     (case failed of
        (_, err) # _ \<Rightarrow> Throw (Error err)
      | [] \<Rightarrow> Ok (s\<lparr>emailCache := forget [emailId] (emailCache s),
                    emails := filter (\<lambda>e. eid e \<noteq> emailId) (emails s),
                    selectedEmail := unselect {emailId} (selectedEmail s)\<rparr>))"

definition from_sender :: "string \<Rightarrow> email \<Rightarrow> bool" where
  "from_sender sender_email e \<longleftrightarrow> sublist (toLowerCase sender_email) (toLowerCase (nullish (sender e) []))"

definition finish_markSenderNoise :: "string \<Rightarrow> inbox \<Rightarrow> inbox" where
  "finish_markSenderNoise sender_email s =
     s\<lparr>emails := filter (\<lambda>e. \<not> from_sender sender_email e) (emails s),
       selectedEmail := (case selectedEmail s of
                           Some c \<Rightarrow> if from_sender sender_email c then None else Some c
                         | None \<Rightarrow> None)\<rparr>"

section \<open>Read and unread\<close>

definition row_drop :: "email \<Rightarrow> int" where
  "row_drop e = nullish (unread_count e) (if is_read e = Some False then 1 else 0)"

definition account_drop :: "int set \<Rightarrow> email list \<Rightarrow> int \<Rightarrow> int" where
  "account_drop ids es a =
     sum_list (map row_drop (filter (\<lambda>e. eid e \<in> ids \<and> account_id e = Some a \<and> row_drop e > 0) es))"

definition mark_ids :: "int list \<Rightarrow> email list \<Rightarrow> int list" where
  "mark_ids rowIds es =
     (let rows = filter (\<lambda>e. eid e \<in> set rowIds) es
      in fst (filter_seen (\<lambda>_. True) (\<lambda>i. i) {}
           (filter (\<lambda>i. i \<notin> eid ` set rows) rowIds
            @ concat (map (\<lambda>row. if isConversation row
                        then nullish (unread_ids row) (conversationMessageIds row)
                        else [eid row]) rows))))"

definition mark_cache :: "bool \<Rightarrow> int list \<Rightarrow> (int \<rightharpoonup> email) \<Rightarrow> int \<rightharpoonup> email" where
  "mark_cache b ids c =
     (\<lambda>i. if i \<in> set ids then map_option (\<lambda>e. e\<lparr>is_read := Some b\<rparr>) (c i) else c i)"

definition bulkMarkRead :: "int list \<Rightarrow> inbox \<Rightarrow> inbox \<times> request list" where
  "bulkMarkRead rowIds s =
     (if rowIds = [] then (s, [])
      else
        (let ids = mark_ids rowIds (emails s)
         in (s\<lparr>emails := map (\<lambda>e. if eid e \<in> set rowIds then read_row e else e) (emails s),
               accounts := map (\<lambda>acc.
                   let drop = account_drop (set rowIds) (emails s) (acc_id acc)
                   in if drop = 0 then acc else drop_badge drop acc) (accounts s),
               emailCache := mark_cache True ids (emailCache s)\<rparr>,
             map MarkRead ids)))"

definition markRead :: "int \<Rightarrow> inbox \<Rightarrow> inbox \<times> request list" where
  "markRead i s = bulkMarkRead [i] s"

definition unread_row :: "email \<Rightarrow> email" where
  "unread_row e = e\<lparr>is_read := Some False, unread_count := Some (max 1 (nullish (unread_count e) 0)),
     participants := map_option (map (\<lambda>p. if Some (p_sender p) = sender e then p\<lparr>p_unread := True\<rparr>
                                          else p)) (participants e)\<rparr>"

text \<open>The account of the last listed row with the id, when that row was not unread.\<close>

definition bump_account :: "int \<Rightarrow> email list \<Rightarrow> int option" where
  "bump_account i es =
     foldl (\<lambda>a e. if eid e = i \<and> is_read e \<noteq> Some False then account_id e else a) None es"

definition bump_badge :: "account \<Rightarrow> account" where
  "bump_badge a = a\<lparr>acc_unread_count := Some (nullish (acc_unread_count a) 0 + 1)\<rparr>"

definition markUnread :: "int \<Rightarrow> inbox \<Rightarrow> inbox" where
  "markUnread i s =
     (let s1 = s\<lparr>emails := map (\<lambda>e. if eid e = i then unread_row e else e) (emails s)\<rparr>;
          s2 = (case bump_account i (emails s) of
                  Some a \<Rightarrow> s1\<lparr>accounts := map (\<lambda>acc. if acc_id acc = a then bump_badge acc else acc)
                                              (accounts s1)\<rparr>
                | None \<Rightarrow> s1)
      in s2\<lparr>emailCache := mark_cache False [i] (emailCache s2)\<rparr>)"

section \<open>Stars and snoozes\<close>

record star_change =
  st_row :: email
  st_starred :: bool
  st_ids :: "int list"

definition star_patch :: "star_change \<Rightarrow> email \<Rightarrow> email" where
  "star_patch c e =
     (if eid e \<noteq> eid (st_row c) then e
      else if st_starred c then e\<lparr>is_starred := Some False, starred_ids := Some []\<rparr>
      else e\<lparr>is_starred := Some True,
             starred_ids := Some (eid (st_row c) # nullish (starred_ids (st_row c)) [])\<rparr>)"

definition begin_toggleStar :: "int \<Rightarrow> inbox \<Rightarrow> (inbox \<times> star_change) option" where
  "begin_toggleStar rowId s =
     map_option (\<lambda>row.
       let starred = isStarred row;
           c = \<lparr>st_row = row, st_starred = starred,
                st_ids = (if starred then nullish (starred_ids row) [eid row] else [eid row])\<rparr>
       in (s\<lparr>emails := map (star_patch c) (emails s)\<rparr>, c))
     (find (\<lambda>e. eid e = rowId) (emails s))"

definition fail_toggleStar :: "star_change \<Rightarrow> inbox \<Rightarrow> inbox" where
  "fail_toggleStar c s =
     s\<lparr>emails := map (\<lambda>e. if eid e = eid (st_row c)
                          then e\<lparr>is_starred := is_starred (st_row c), starred_ids := starred_ids (st_row c)\<rparr>
                          else e) (emails s)\<rparr>"

record snooze =
  sn_row :: email
  sn_ids :: "int list"
  sn_hides :: bool
  sn_folder :: folder

definition begin_snoozeRow :: "int \<Rightarrow> int \<Rightarrow> inbox \<Rightarrow> (inbox \<times> snooze) option" where
  "begin_snoozeRow rowId until s =
     map_option (\<lambda>row.
       let ids = conversationMessageIds row;
           hides = activeFolder s \<in> set HIDES_SNOOZED
       in (if hides
           then s\<lparr>emails := filter (\<lambda>e. eid e \<noteq> rowId) (emails s),
                  selectedEmail := unselect (set ids) (selectedEmail s)\<rparr>
           else s\<lparr>emails := map (\<lambda>e. if eid e = rowId then e\<lparr>snoozed_until := Some until\<rparr> else e)
                              (emails s)\<rparr>,
           \<lparr>sn_row = row, sn_ids = ids, sn_hides = hides, sn_folder = activeFolder s\<rparr>))
     (find (\<lambda>e. eid e = rowId) (emails s))"

definition fail_snoozeRow :: "snooze \<Rightarrow> inbox \<Rightarrow> inbox" where
  "fail_snoozeRow n s =
     (if sn_hides n
      then s\<lparr>emails := sort_rows (sn_folder n)
                (filter (\<lambda>e. eid e \<noteq> eid (sn_row n)) (emails s) @ [sn_row n])\<rparr>
      else s\<lparr>emails := map (\<lambda>e. if eid e = eid (sn_row n) then sn_row n else e) (emails s)\<rparr>)"

definition snooze_batch :: "snooze \<Rightarrow> trashed_batch" where
  "snooze_batch n = \<lparr>tb_rows = [sn_row n], tb_ids = sn_ids n\<rparr>"

definition finish_undoSnooze ::
  "folder \<Rightarrow> trashed_batch \<Rightarrow> int set \<Rightarrow> inbox \<Rightarrow> inbox \<times> nat" where
  "finish_undoSnooze folder batch failed s =
     (let back = map (\<lambda>row. row\<lparr>snoozed_until := None\<rparr>) (restored_rows failed (tb_rows batch));
          kept = filter (\<lambda>e. eid e \<notin> eid ` set back) (emails s)
      in (s\<lparr>emails := (if folder = Snoozed then kept else sort_rows folder (kept @ back))\<rparr>,
          card failed))"

definition finish_unsnoozeRow :: "folder \<Rightarrow> int \<Rightarrow> inbox \<Rightarrow> inbox" where
  "finish_unsnoozeRow folder rowId s =
     s\<lparr>emails := (if folder = Snoozed then filter (\<lambda>e. eid e \<noteq> rowId) (emails s)
                  else map (\<lambda>e. if eid e = rowId then e\<lparr>snoozed_until := None\<rparr> else e) (emails s))\<rparr>"

section \<open>Bulk delete and restore\<close>

definition bulkDelete :: "int list \<Rightarrow> inbox \<Rightarrow> inbox \<times> trashed_batch" where
  "bulkDelete rowIds s =
     (if rowIds = [] then (s, \<lparr>tb_rows = [], tb_ids = []\<rparr>)
      else
        (let rows = filter (\<lambda>e. eid e \<in> set rowIds) (emails s);
             ids = fst (filter_seen (\<lambda>_. True) (\<lambda>i. i) {}
                      (rowIds @ concat (map conversationMessageIds rows)))
         in (s\<lparr>emails := filter (\<lambda>e. eid e \<notin> set rowIds) (emails s),
               selectedEmail := unselect (set ids) (selectedEmail s),
               emailCache := forget ids (emailCache s)\<rparr>,
             \<lparr>tb_rows = rows, tb_ids = ids\<rparr>)))"

definition begin_bulkRestore :: "int list \<Rightarrow> inbox \<Rightarrow> inbox \<times> email list" where
  "begin_bulkRestore rowIds s =
     (s\<lparr>emails := filter (\<lambda>e. eid e \<notin> set rowIds) (emails s),
        selectedEmail := unselect (set rowIds) (selectedEmail s)\<rparr>,
      filter (\<lambda>e. eid e \<in> set rowIds) (emails s))"

definition finish_bulkRestore ::
  "folder \<Rightarrow> email list \<Rightarrow> int list \<Rightarrow> int set \<Rightarrow> inbox \<Rightarrow> inbox" where
  "finish_bulkRestore folder rows done_ids failed s =
     (let s1 = s\<lparr>emailCache := forget done_ids (emailCache s)\<rparr>
      in if failed \<noteq> {}
         then s1\<lparr>emails := sort_rows folder (emails s1 @ filter (\<lambda>r. eid r \<in> failed) rows)\<rparr>
         else s1)"

end
