(* ===== verification/Inbox_Invariants.thy ===== *)
theory Inbox_Invariants
  imports Email_Inbox
begin

text \<open>
  What the mail list keeps: every conversation has one row, also when a refresh regroups
  messages and when answers arrive in any order, except where one of four operations puts a row
  back without looking whether its conversation is listed, and the theorem says exactly when;
  what an undo puts back; what the unread badges count. An answer for a view left behind
  replaces the list: this is stated as it is.
\<close>

section \<open>Rows by key\<close>

text \<open>A list in which no conversation and no email has two rows.\<close>

definition keys_once :: "email list \<Rightarrow> bool" where
  "keys_once es \<longleftrightarrow> distinct (map conversationKey es)"

definition listed_once :: "email list \<Rightarrow> bool" where
  "listed_once es \<longleftrightarrow> keys_once es \<and> distinct (map eid es)"

text \<open>What the server sends: one row per conversation, each among its own messages.\<close>

definition page_ok :: "email list \<Rightarrow> bool" where
  "page_ok data \<longleftrightarrow> listed_once data \<and> list_all (\<lambda>e. eid e \<in> set (conversationMessageIds e)) data"

text \<open>A loaded row that the fresh page says nothing about.\<close>

definition untouched :: "email list \<Rightarrow> email \<Rightarrow> bool" where
  "untouched data e \<longleftrightarrow> fresh_row data e = None"

lemma map_of_rev_None: "map_of (rev xs) k = None \<longleftrightarrow> k \<notin> fst ` set xs"
  by (simp add: map_of_eq_None_iff)

lemma by_key_None: "by_key data k = None \<longleftrightarrow> k \<notin> conversationKey ` set data"
  by (simp add: by_key_def map_of_rev_None image_image)

lemma by_member_None:
  "by_member data i = None \<longleftrightarrow> (\<forall>e \<in> set data. i \<notin> set (conversationMessageIds e))"
  by (auto simp: by_member_def map_of_rev_None image_iff)

lemma by_key_Some: "by_key data k = Some n \<Longrightarrow> n \<in> set data \<and> conversationKey n = k"
  unfolding by_key_def by (drule map_of_SomeD) auto

lemma by_member_Some: "by_member data i = Some n \<Longrightarrow> n \<in> set data \<and> i \<in> set (conversationMessageIds n)"
  unfolding by_member_def by (drule map_of_SomeD) auto

lemma fresh_row_Some: "fresh_row data e = Some n \<Longrightarrow> n \<in> set data"
  by (auto simp: fresh_row_def split: option.splits dest: by_key_Some by_member_Some)

lemma untouched_iff:
  "untouched data e \<longleftrightarrow> conversationKey e \<notin> conversationKey ` set data
     \<and> (\<forall>n \<in> set data. eid e \<notin> set (conversationMessageIds n))"
  using by_key_None [of data "conversationKey e"] by_member_None [of data "eid e"]
  by (cases "by_key data (conversationKey e)") (auto simp: untouched_def fresh_row_def)

text \<open>The loop of a refresh: what it keeps, and which fresh rows it places.\<close>

lemma merge_loaded_step:
  assumes "merge_loaded data placed (e # es) = (m, p)"
  obtains (old) m' where "untouched data e" "m = e # m'" "merge_loaded data placed es = (m', p)"
  | (drop) "\<not> untouched data e" "merge_loaded data placed es = (m, p)"
  | (place) n m' where "\<not> untouched data e" "fresh_row data e = Some n" "n \<in> set data" "m = n # m'"
      "conversationKey n \<notin> placed" "eid n = eid e"
      "merge_loaded data (insert (conversationKey n) placed) es = (m', p)"
  using assms fresh_row_Some [of data e]
  by (auto simp: untouched_def split: option.splits if_splits prod.splits)

lemma merge_loaded_facts:
  "merge_loaded data placed es = (m, p) \<Longrightarrow>
   filter (untouched data) m = filter (untouched data) es
   \<and> (\<forall>n \<in> set m. untouched data n \<or> (n \<in> set data \<and> conversationKey n \<in> p - placed))
   \<and> distinct (map conversationKey (filter (\<lambda>e. \<not> untouched data e) m))
   \<and> p = placed \<union> conversationKey ` set (filter (\<lambda>e. \<not> untouched data e) m)
   \<and> conversationKey ` set (filter (\<lambda>e. \<not> untouched data e) m) \<inter> placed = {}"
proof (induction es arbitrary: placed m)
  case (Cons e es)
  have data: "\<not> untouched data n" if "n \<in> set data" for n using that by (auto simp: untouched_iff)
  from Cons.prems show ?case
  proof (cases rule: merge_loaded_step)
    case (old m')
    from Cons.IH [OF old(3)] old(1,2) show ?thesis by auto
  next
    case drop
    from Cons.IH [OF drop(2)] drop(1) show ?thesis by auto
  next
    case (place n m')
    from Cons.IH [OF place(7)] place data [OF place(3)] show ?thesis by auto
  qed
qed simp

lemma distinct_map_partition:
  "distinct (map f (filter P xs)) \<Longrightarrow> distinct (map f (filter (\<lambda>x. \<not> P x) xs)) \<Longrightarrow>
   f ` set (filter P xs) \<inter> f ` set (filter (\<lambda>x. \<not> P x) xs) = {} \<Longrightarrow> distinct (map f xs)"
  by (induction xs) (auto split: if_splits)

lemma data_key_unique:
  "page_ok data \<Longrightarrow> x \<in> set data \<Longrightarrow> y \<in> set data \<Longrightarrow> conversationKey x = conversationKey y \<Longrightarrow> x = y"
  by (auto simp: page_ok_def listed_once_def keys_once_def distinct_map dest: inj_onD)

text \<open>The merged list is the untouched old rows, in order, and each fresh row once.\<close>

lemma merge_rows_parts:
  assumes "page_ok data"
  shows "filter (untouched data) (merge_rows data prev) = filter (untouched data) prev"
    and "mset (filter (\<lambda>e. \<not> untouched data e) (merge_rows data prev)) = mset data"
proof -
  obtain m p where m: "merge_loaded data {} prev = (m, p)" by (cases "merge_loaded data {} prev")
  let ?top = "filter (\<lambda>e. conversationKey e \<notin> p) data"
  let ?new = "filter (\<lambda>e. \<not> untouched data e) m"
  have r: "merge_rows data prev = ?top @ m" by (simp add: merge_rows_def m Let_def)
  have f: "filter (untouched data) m = filter (untouched data) prev"
    "\<forall>n \<in> set m. untouched data n \<or> (n \<in> set data \<and> conversationKey n \<in> p - {})"
    "distinct (map conversationKey ?new)" "p = {} \<union> conversationKey ` set ?new"
    using merge_loaded_facts [OF m] by blast+
  have old: "\<not> untouched data n" if "n \<in> set data" for n using that by (auto simp: untouched_iff)
  have "filter (untouched data) ?top = []" using old by (auto intro: filter_False)
  with r f(1) show "filter (untouched data) (merge_rows data prev) = filter (untouched data) prev" by simp
  have top: "filter (\<lambda>e. \<not> untouched data e) ?top = ?top"
    unfolding filter_filter using old by (intro filter_cong) auto
  have new: "set ?new = {n \<in> set data. conversationKey n \<in> p}"
  proof -
    have "x \<in> set ?new" if "x \<in> set data" "conversationKey x \<in> p" for x
    proof -
      from that(2) f(4) obtain n where n: "n \<in> set ?new" "conversationKey n = conversationKey x"
        by auto
      then have "n \<in> set data" using f(2) by auto
      with n that(1) assms have "n = x" by (blast dest: data_key_unique)
      with n show ?thesis by simp
    qed
    then show ?thesis using f(2) by auto
  qed
  have d: "distinct data" using assms by (auto simp: page_ok_def listed_once_def dest: distinct_mapD)
  have "mset (?top @ ?new) = mset data"
  proof (subst set_eq_iff_mset_eq_distinct [symmetric])
    show "distinct (?top @ ?new)" using d f(3) new by (auto dest: distinct_mapD)
    show "set (?top @ ?new) = set data" using new by auto
  qed (rule d)
  with r top show "mset (filter (\<lambda>e. \<not> untouched data e) (merge_rows data prev)) = mset data" by simp
qed

lemma merge_distinct:
  assumes "page_ok data" "distinct (map f data)" "distinct (map f (filter (untouched data) prev))"
    and "\<And>x y. untouched data x \<Longrightarrow> y \<in> set data \<Longrightarrow> f x \<noteq> f y"
  shows "distinct (map f (merge_rows data prev))"
proof (rule distinct_map_partition [of _ "untouched data"])
  note parts = merge_rows_parts [OF assms(1), of prev]
  show "distinct (map f (filter (untouched data) (merge_rows data prev)))" using parts(1) assms(3) by simp
  have s: "set (filter (\<lambda>e. \<not> untouched data e) (merge_rows data prev)) = set data"
    using parts(2) by (metis set_mset_mset)
  have "mset (map f (filter (\<lambda>e. \<not> untouched data e) (merge_rows data prev))) = mset (map f data)"
    using parts(2) by simp
  then show "distinct (map f (filter (\<lambda>x. \<not> untouched data x) (merge_rows data prev)))"
    using assms(2) by (metis mset_eq_imp_distinct_iff)
  show "f ` set (filter (untouched data) (merge_rows data prev))
      \<inter> f ` set (filter (\<lambda>x. \<not> untouched data x) (merge_rows data prev)) = {}"
    unfolding s parts(1) using assms(4) by auto
qed

lemma merge_keys_once: "page_ok data \<Longrightarrow> keys_once prev \<Longrightarrow> keys_once (merge_rows data prev)"
  unfolding keys_once_def
  by (rule merge_distinct) (auto simp: page_ok_def listed_once_def keys_once_def untouched_iff)

lemma merge_ids_once:
  "page_ok data \<Longrightarrow> distinct (map eid prev) \<Longrightarrow> distinct (map eid (merge_rows data prev))"
  by (rule merge_distinct)
     (auto simp: page_ok_def listed_once_def untouched_iff list_all_iff)

text \<open>
  C1: A refresh merges the server's first page into the loaded list without losing or
  doubling anything: every fresh row is listed exactly once, every loaded row the page does
  not supersede stays, in its order, and no conversation and no email has two rows, also
  when an email was meanwhile grouped into a conversation or two conversations merged.
\<close>

theorem refresh_lists_each_once:
  assumes "page_ok data" "listed_once prev"
  shows "listed_once (merge_rows data prev)
    \<and> filter (untouched data) (merge_rows data prev) = filter (untouched data) prev
    \<and> mset (filter (\<lambda>e. \<not> untouched data e) (merge_rows data prev)) = mset data"
  using assms merge_keys_once merge_ids_once merge_rows_parts by (auto simp: listed_once_def)

text \<open>Conversation 9 regroups the loaded emails 5 and 4, and 6 is new in it.\<close>

theorem refresh_lists_each_once_witness:
  "listed_once (merge_rows [(plain_row 6 (Some 9) 60)\<lparr>message_ids := Some [6, 5, 4]\<rparr>]
     [plain_row 5 None 50, plain_row 4 None 40, plain_row 3 None 30])"
  using refresh_lists_each_once
    [of "[(plain_row 6 (Some 9) 60)\<lparr>message_ids := Some [6, 5, 4]\<rparr>]"
      "[plain_row 5 None 50, plain_row 4 None 40, plain_row 3 None 30]"]
  by (simp add: page_ok_def listed_once_def keys_once_def conversationMessageIds_def
      conversationKey_def plain_row_def)

text \<open>
  Loading an older page appends to the list: the rows already loaded stay as a prefix,
  a row of the page is added exactly when neither its conversation nor its email is listed,
  and the list keeps one row per conversation and email.
\<close>

theorem load_more_appends:
  assumes "listed_once data" "listed_once (emails s)"
  shows "listed_once (emails (finish_more data s))
    \<and> (\<exists>new. emails (finish_more data s) = emails s @ new \<and> set new =
          {e \<in> set data. conversationKey e \<notin> conversationKey ` set (emails s) \<and> eid e \<notin> eid ` set (emails s)})
    \<and> loadingMore (finish_more data s) = False
    \<and> (begin_more (finish_more data s) = None \<longleftrightarrow> data = [] \<or> emails (finish_more data s) = [])"
proof -
  define new where "new = filter (\<lambda>e. conversationKey e \<notin> conversationKey ` set (emails s)
    \<and> eid e \<notin> eid ` set (emails s)) data"
  have app: "emails (finish_more data s) = emails s @ new"
    by (simp add: finish_more_def append_rows_def new_def)
  have "conversationKey ` set (emails s) \<inter> conversationKey ` set new = {}"
    unfolding new_def by (auto simp: disjoint_iff image_iff) metis
  moreover have "eid ` set (emails s) \<inter> eid ` set new = {}"
    unfolding new_def by (auto simp: disjoint_iff image_iff) metis
  moreover have "distinct (map conversationKey new)" "distinct (map eid new)"
    using assms(1) by (auto simp: new_def listed_once_def keys_once_def)
  ultimately have "listed_once (emails s @ new)"
    using assms(2) by (simp add: listed_once_def keys_once_def)
  with app show ?thesis by (auto simp: new_def finish_more_def begin_more_def)
qed

text \<open>An inbox view showing the given rows.\<close>

definition demo_inbox :: "folder \<Rightarrow> email list \<Rightarrow> inbox" where
  "demo_inbox f rows = \<lparr>accounts = [\<lparr>acc_id = 1, acc_unread_count = Some 5\<rparr>], emails = rows,
     selectedEmail = None, conversation = None, activeAccount = None, activeFolder = f,
     query = [], hasMore = True, total = None, loadingMore = False, loadedKeyRef = None,
     loadedListKey = None, emailCache = Map.empty, conversationFor = None\<rparr>"

theorem load_more_appends_witness:
  "listed_once (emails (finish_more [plain_row 2 None 20, plain_row 1 None 10]
      (demo_inbox Inbox [plain_row 3 None 30, plain_row 2 None 20])))"
  using load_more_appends [of "[plain_row 2 None 20, plain_row 1 None 10]"
      "demo_inbox Inbox [plain_row 3 None 30, plain_row 2 None 20]"]
  by (simp add: listed_once_def keys_once_def conversationKey_def plain_row_def demo_inbox_def)

section \<open>Every operation, in any order\<close>

lemma key_simps [row_simps]:
  "conversationKey (read_row e) = conversationKey e"
  "conversationKey (unread_row e) = conversationKey e"
  "conversationKey (star_patch c e) = conversationKey e"
  "conversationKey (e\<lparr>snoozed_until := v\<rparr>) = conversationKey e"
  "conversationKey (e\<lparr>is_starred := b, starred_ids := ids\<rparr>) = conversationKey e"
  by (simp_all add: conversationKey_def read_row_def unread_row_def star_patch_def split: option.split)

lemma keys_once_map:
  "(\<And>e. e \<in> set es \<Longrightarrow> conversationKey (g e) = conversationKey e) \<Longrightarrow> keys_once (map g es) = keys_once es"
  by (simp add: keys_once_def comp_def cong: map_cong)

lemma keys_once_filter: "keys_once es \<Longrightarrow> keys_once (filter P es)"
  by (auto simp: keys_once_def)

lemma keys_once_sort [simp]: "keys_once (sort_rows f es) = keys_once es"
proof -
  have "mset (map conversationKey (sort_rows f es)) = mset (map conversationKey es)"
    by (simp add: sort_rows_def)
  then show ?thesis unfolding keys_once_def by (rule mset_eq_imp_distinct_iff)
qed

lemma keys_once_append:
  "keys_once (es @ fs) \<longleftrightarrow> keys_once es \<and> keys_once fs
     \<and> conversationKey ` set es \<inter> conversationKey ` set fs = {}"
  by (simp add: keys_once_def)

text \<open>
  What the user, the server and the answers can do. The list of what was started and has not been
  answered or undone is kept beside the page: deletions under way, batches that can be undone,
  snoozes under way, restores under way.
\<close>

datatype kept_change =
    Deleting deletion
  | Trashed trashed_batch
  | Snoozing snooze
  | Restoring "email list"

type_synonym inbox_world = "inbox \<times> kept_change list"

datatype inbox_event =
    ViewSwitched "int option" folder string
  | FetchBegun
  | FetchDone fetch page
  | FetchFailed fetch
  | MoreBegun
  | MoreDone "email list"
  | MoreFailed
  | RowOpened email
  | ConversationCame email "email list"
  | DeleteBegun int
  | DeleteDone deletion "(int \<times> string) list"
  | TrashUndone folder trashed_batch "int set"
  | Restored int "(int \<times> string) list"
  | SenderIsNoise string
  | MarkedRead "int list"
  | MarkedUnread int
  | StarBegun int
  | StarFailed star_change
  | SnoozeBegun int int
  | SnoozeFailed snooze
  | SnoozeUndone folder snooze "int set"
  | Unsnoozed folder int
  | BulkDeleted "int list"
  | RestoreBegun "int list"
  | RestoreDone folder "email list" "int list" "int set"

fun inbox_next :: "inbox_event \<Rightarrow> inbox_world \<Rightarrow> inbox_world" where
  "inbox_next (ViewSwitched a f q) (s, hs) = (switch_view a f q s, hs)"
| "inbox_next FetchBegun (s, hs) = (fst (begin_fetch s), hs)"
| "inbox_next (FetchDone ft p) (s, hs) = (finish_fetch ft p s, hs)"
| "inbox_next (FetchFailed ft) (s, hs) = (fail_fetch ft s, hs)"
| "inbox_next MoreBegun (s, hs) = (case begin_more s of Some (t, r) \<Rightarrow> (t, hs) | None \<Rightarrow> (s, hs))"
| "inbox_next (MoreDone data) (s, hs) = (finish_more data s, hs)"
| "inbox_next MoreFailed (s, hs) = (fail_more s, hs)"
| "inbox_next (RowOpened e) (s, hs) = (fst (begin_open e s), hs)"
| "inbox_next (ConversationCame row ms) (s, hs) = (fst (finish_conversation row ms s), hs)"
| "inbox_next (DeleteBegun i) (s, hs) = (s, Deleting (begin_delete i s) # hs)"
| "inbox_next (DeleteDone d failed) (s, hs) =
     (case finish_delete d failed s of
        Ok (t, b) \<Rightarrow> (t, Trashed b # remove1 (Deleting d) hs)
      | Throw e \<Rightarrow> (s, remove1 (Deleting d) hs))"
| "inbox_next (TrashUndone f b failed) (s, hs) = (fst (finish_undoTrash f b failed s), hs)"
| "inbox_next (Restored i failed) (s, hs) =
     (case finish_restoreEmail i failed s of Ok t \<Rightarrow> (t, hs) | Throw e \<Rightarrow> (s, hs))"
| "inbox_next (SenderIsNoise who) (s, hs) = (finish_markSenderNoise who s, hs)"
| "inbox_next (MarkedRead ids) (s, hs) = (fst (bulkMarkRead ids s), hs)"
| "inbox_next (MarkedUnread i) (s, hs) = (markUnread i s, hs)"
| "inbox_next (StarBegun i) (s, hs) = (case begin_toggleStar i s of Some (t, c) \<Rightarrow> (t, hs) | None \<Rightarrow> (s, hs))"
| "inbox_next (StarFailed c) (s, hs) = (fail_toggleStar c s, hs)"
| "inbox_next (SnoozeBegun i until) (s, hs) =
     (case begin_snoozeRow i until s of Some (t, n) \<Rightarrow> (t, Snoozing n # hs) | None \<Rightarrow> (s, hs))"
| "inbox_next (SnoozeFailed n) (s, hs) = (fail_snoozeRow n s, hs)"
| "inbox_next (SnoozeUndone f n failed) (s, hs) = (fst (finish_undoSnooze f (snooze_batch n) failed s), hs)"
| "inbox_next (Unsnoozed f i) (s, hs) = (finish_unsnoozeRow f i s, hs)"
| "inbox_next (BulkDeleted ids) (s, hs) = (case bulkDelete ids s of (t, b) \<Rightarrow> (t, Trashed b # hs))"
| "inbox_next (RestoreBegun ids) (s, hs) = (case begin_bulkRestore ids s of (t, rows) \<Rightarrow> (t, Restoring rows # hs))"
| "inbox_next (RestoreDone f rows done_ids failed) (s, hs) = (finish_bulkRestore f rows done_ids failed s, hs)"

text \<open>The server lists one row per conversation; an answer or an undo belongs to something started.\<close>

fun event_ok :: "inbox_event \<Rightarrow> kept_change list \<Rightarrow> bool" where
  "event_ok (FetchDone ft p) hs \<longleftrightarrow> page_ok (pg_emails p)"
| "event_ok (MoreDone data) hs \<longleftrightarrow> page_ok data"
| "event_ok (DeleteDone d failed) hs \<longleftrightarrow> Deleting d \<in> set hs"
| "event_ok (TrashUndone f b failed) hs \<longleftrightarrow> Trashed b \<in> set hs"
| "event_ok (SnoozeFailed n) hs \<longleftrightarrow> Snoozing n \<in> set hs"
| "event_ok (SnoozeUndone f n failed) hs \<longleftrightarrow> Snoozing n \<in> set hs"
| "event_ok (RestoreDone f rows done_ids failed) hs \<longleftrightarrow> Restoring rows \<in> set hs"
| "event_ok e hs \<longleftrightarrow> True"

text \<open>
  Four operations put rows on the list without looking for their conversations: the undo of a
  snooze, a refused snooze, a refused restore, and an answer that shows the newest message of a
  conversation in place of a row. They keep some listed rows, and put these back.
\<close>

fun puts_back :: "inbox_event \<Rightarrow> inbox \<Rightarrow> (email list \<times> email list) option" where
  "puts_back (ConversationCame row ms) s =
     (let shown = shown_message row ms in
      if conversationFor s \<noteq> Some (eid row) \<or> eid shown = eid row then None
      else Some (filter (\<lambda>e. eid e \<noteq> eid row) (emails s),
                 map (switch_row shown ms) (filter (\<lambda>e. eid e = eid row) (emails s))))"
| "puts_back (SnoozeFailed n) s =
     Some (filter (\<lambda>e. eid e \<noteq> eid (sn_row n)) (emails s),
           if sn_hides n then [sn_row n]
           else map (\<lambda>e. sn_row n) (filter (\<lambda>e. eid e = eid (sn_row n)) (emails s)))"
| "puts_back (SnoozeUndone f n failed) s =
     (let back = restored_rows failed [sn_row n] in
      if f = Snoozed then None else Some (filter (\<lambda>e. eid e \<notin> eid ` set back) (emails s), back))"
| "puts_back (RestoreDone f rows done_ids failed) s =
     Some (emails s, filter (\<lambda>r. eid r \<in> failed) rows)"
| "puts_back e s = None"

text \<open>A row put back meets its conversation, on the list or among the rows put back.\<close>

definition clash :: "inbox_event \<Rightarrow> inbox \<Rightarrow> bool" where
  "clash e s \<longleftrightarrow>
     (case puts_back e s of
        None \<Rightarrow> False
      | Some (kept, back) \<Rightarrow>
          \<not> keys_once back \<or> (\<exists>r \<in> set back. \<exists>k \<in> set kept. conversationKey k = conversationKey r))"

text \<open>Runs from an empty list in which no row put back met its conversation so far.\<close>

inductive clean_run :: "inbox_world \<Rightarrow> bool" where
  start: "emails s = [] \<Longrightarrow> clean_run (s, [])"
| step: "clean_run (s, hs) \<Longrightarrow> event_ok e hs \<Longrightarrow> \<not> clash e s \<Longrightarrow> clean_run (inbox_next e (s, hs))"

lemma begin_open_emails:
  "emails (fst (begin_open e s)) = map (\<lambda>i. if eid i = eid e then read_row i else i) (emails s)"
  by (simp add: begin_open_def Let_def split: option.split)

lemma markUnread_emails:
  "emails (markUnread i s) = map (\<lambda>e. if eid e = i then unread_row e else e) (emails s)"
  by (simp add: markUnread_def Let_def split: option.split)

lemma bulkMarkRead_emails:
  "emails (fst (bulkMarkRead ids s)) = map (\<lambda>e. if eid e \<in> set ids then read_row e else e) (emails s)"
  by (auto simp: bulkMarkRead_def Let_def intro: map_idI [symmetric])

lemma undoTrash_keys:
  assumes "keys_once (tb_rows b)" "keys_once (emails s)"
  shows "keys_once (emails (fst (finish_undoTrash f b failed s)))"
proof -
  have "keys_once (restored_rows failed (tb_rows b))"
    using assms(1) by (simp add: restored_rows_def keys_once_filter)
  then show ?thesis
    using assms(2)
    by (auto simp: finish_undoTrash_def Let_def keys_once_append keys_once_filter disjoint_iff image_iff)
      metis
qed

lemma keys_once_mset: "mset (map conversationKey es) = mset (map conversationKey fs) \<Longrightarrow> keys_once es = keys_once fs"
  unfolding keys_once_def by (rule mset_eq_imp_distinct_iff)

lemma mset_replaced:
  "mset (map f (map (\<lambda>e. if P e then g e else e) es))
     = mset (map f (filter (\<lambda>e. \<not> P e) es @ map g (filter P es)))"
  by (induction es) auto

lemma mset_sort_rows [simp]: "mset (sort_rows folder es) = mset es"
  by (simp add: sort_rows_def)

text \<open>After an unchecked operation the list is what it kept and what it put back.\<close>

lemma put_back_list:
  assumes "puts_back e s = Some (kept, back)"
  shows "mset (map conversationKey (emails (fst (inbox_next e (s, hs))))) = mset (map conversationKey (kept @ back))"
    and "\<exists>P. kept = filter P (emails s)"
proof -
  have r: "map conversationKey (map (\<lambda>row. row\<lparr>snoozed_until := None\<rparr>) rows) = map conversationKey rows" for rows
    by (simp add: key_simps)
  show "mset (map conversationKey (emails (fst (inbox_next e (s, hs))))) = mset (map conversationKey (kept @ back))"
  proof (cases e)
    case (ConversationCame row ms)
    then have "emails (fst (inbox_next e (s, hs)))
        = map (\<lambda>e. if eid e = eid row then switch_row (shown_message row ms) ms e else e) (emails s)"
      using assms by (simp add: finish_conversation_def Let_def split: if_splits)
    moreover have "kept @ back = filter (\<lambda>e. \<not> eid e = eid row) (emails s)
        @ map (switch_row (shown_message row ms) ms) (filter (\<lambda>e. eid e = eid row) (emails s))"
      using assms ConversationCame by (simp add: Let_def split: if_splits)
    ultimately show ?thesis by (simp only: mset_replaced)
  next
    case (SnoozeFailed n)
    show ?thesis
    proof (cases "sn_hides n")
      case True
      then show ?thesis using assms SnoozeFailed by (auto simp: fail_snoozeRow_def)
    next
      case False
      then have "emails (fst (inbox_next e (s, hs))) = map (\<lambda>e. if eid e = eid (sn_row n) then sn_row n else e) (emails s)"
        using SnoozeFailed by (simp add: fail_snoozeRow_def)
      moreover have "kept @ back = filter (\<lambda>e. \<not> eid e = eid (sn_row n)) (emails s)
          @ map (\<lambda>e. sn_row n) (filter (\<lambda>e. eid e = eid (sn_row n)) (emails s))"
        using assms SnoozeFailed False by simp
      ultimately show ?thesis by (simp only: mset_replaced)
    qed
  next
    case (SnoozeUndone f n failed)
    have "eid ` set (map (\<lambda>row. row\<lparr>snoozed_until := None\<rparr>) rows) = eid ` set rows" for rows :: "email list"
      by (simp add: image_image)
    then show ?thesis
      using assms SnoozeUndone r [of "restored_rows failed [sn_row n]"]
      by (auto simp: finish_undoSnooze_def snooze_batch_def Let_def image_mset.compositionality comp_def key_simps
          split: if_splits)
  next
    case (RestoreDone f rows done_ids failed)
    then show ?thesis using assms by (auto simp: finish_bulkRestore_def Let_def)
  qed (use assms in simp_all)
  show "\<exists>P. kept = filter P (emails s)"
  proof (cases e)
    case (RestoreDone f rows done_ids failed)
    then have "kept = filter (\<lambda>_. True) (emails s)" using assms by simp
    then show ?thesis by blast
  qed (use assms in \<open>auto simp: Let_def split: if_splits\<close>)
qed

lemma put_back_keys:
  assumes "puts_back e s = Some (kept, back)" "keys_once (emails s)"
  shows "keys_once (emails (fst (inbox_next e (s, hs)))) \<longleftrightarrow> \<not> clash e s"
proof -
  obtain P where P: "kept = filter P (emails s)" using put_back_list(2) [OF assms(1)] by blast
  have "keys_once (emails (fst (inbox_next e (s, hs)))) \<longleftrightarrow> keys_once (kept @ back)"
    by (rule keys_once_mset [OF put_back_list(1) [OF assms(1)]])
  also have "\<dots> \<longleftrightarrow> keys_once back \<and> conversationKey ` set kept \<inter> conversationKey ` set back = {}"
    using keys_once_filter [OF assms(2), of P] by (simp add: keys_once_append P)
  also have "\<dots> \<longleftrightarrow> \<not> clash e s"
    by (auto simp: clash_def assms(1) disjoint_iff image_iff)
  finally show ?thesis .
qed

text \<open>What is held for later was taken from a list without doubles.\<close>

fun held_ok :: "kept_change \<Rightarrow> bool" where
  "held_ok (Deleting d) \<longleftrightarrow> keys_once (dl_rows d)"
| "held_ok (Trashed b) \<longleftrightarrow> keys_once (tb_rows b)"
| "held_ok (Snoozing n) \<longleftrightarrow> True"
| "held_ok (Restoring rows) \<longleftrightarrow> keys_once rows"

lemma op_keys:
  assumes "keys_once (emails s)"
  shows "keys_once (emails (switch_view a f q s))"
    and "keys_once (emails (fst (begin_fetch s)))"
    and "keys_once (emails (fail_fetch ft s))"
    and "begin_more s = Some (t, r) \<Longrightarrow> keys_once (emails t)"
    and "keys_once (emails (fail_more s))"
    and "keys_once (emails (fst (begin_open m s)))"
    and "finish_delete d failed s = Ok (u, b) \<Longrightarrow> keys_once (emails u)"
    and "finish_restoreEmail i gone s = Ok v \<Longrightarrow> keys_once (emails v)"
    and "keys_once (emails (finish_markSenderNoise who s))"
    and "keys_once (emails (fst (bulkMarkRead ids s)))"
    and "keys_once (emails (markUnread i s))"
    and "begin_toggleStar i s = Some (w, c) \<Longrightarrow> keys_once (emails w)"
    and "keys_once (emails (fail_toggleStar c s))"
    and "begin_snoozeRow i until s = Some (x, n) \<Longrightarrow> keys_once (emails x)"
    and "keys_once (emails (finish_unsnoozeRow f i s))"
    and "keys_once (emails (fst (bulkDelete ids s)))"
    and "keys_once (emails (fst (begin_bulkRestore ids s)))"
  subgoal using assms by (simp add: switch_view_def)
  subgoal using assms by (simp add: begin_fetch_def Let_def)
  subgoal using assms by (simp add: fail_fetch_def keys_once_def)
  subgoal using assms by (auto simp: begin_more_def Let_def split: if_splits)
  subgoal using assms by (simp add: fail_more_def)
  subgoal using assms by (simp add: begin_open_emails keys_once_map key_simps)
  subgoal using assms by (auto simp: finish_delete_def keys_once_filter split: list.splits)
  subgoal using assms by (auto simp: finish_restoreEmail_def keys_once_filter split: list.splits)
  subgoal using assms by (simp add: finish_markSenderNoise_def keys_once_filter)
  subgoal using assms by (simp add: bulkMarkRead_emails keys_once_map key_simps)
  subgoal using assms by (simp add: markUnread_emails keys_once_map key_simps)
  subgoal using assms by (auto simp: begin_toggleStar_def Let_def keys_once_map key_simps)
  subgoal using assms by (simp add: fail_toggleStar_def Let_def keys_once_map key_simps)
  subgoal using assms by (auto simp: begin_snoozeRow_def Let_def keys_once_filter keys_once_map key_simps)
  subgoal using assms by (simp add: finish_unsnoozeRow_def keys_once_filter keys_once_map key_simps)
  subgoal using assms by (simp add: bulkDelete_def Let_def keys_once_filter)
  subgoal using assms by (simp add: begin_bulkRestore_def Let_def keys_once_filter)
  done

lemma checked_keys:
  assumes "puts_back e s = None" "keys_once (emails s)" "event_ok e hs" "list_all held_ok hs"
  shows "keys_once (emails (fst (inbox_next e (s, hs))))"
proof (cases e)
  case (FetchDone ft p)
  then show ?thesis
    using assms merge_keys_once by (auto simp: finish_fetch_def Let_def page_ok_def listed_once_def)
next
  case (MoreDone data)
  then have "keys_once (append_rows data (emails s))"
    using assms(2,3)
    by (auto simp: append_rows_def keys_once_append page_ok_def listed_once_def
        disjoint_iff image_iff intro: keys_once_filter) metis
  then show ?thesis using MoreDone by (simp add: finish_more_def)
next
  case (ConversationCame row ms)
  then show ?thesis using assms(1,2) by (auto simp: finish_conversation_def Let_def split: if_splits)
next
  case (TrashUndone f b failed)
  then have "keys_once (tb_rows b)" using assms(3,4) by (auto simp: list_all_iff)
  from undoTrash_keys [OF this assms(2)] show ?thesis by (simp add: TrashUndone)
next
  case (SnoozeUndone f n failed)
  then have "f = Snoozed" using assms(1) by (simp add: Let_def split: if_splits)
  then have "\<exists>P. emails (fst (finish_undoSnooze f (snooze_batch n) failed s)) = filter P (emails s)"
    by (auto simp: finish_undoSnooze_def Let_def)
  with keys_once_filter [OF assms(2)] SnoozeUndone show ?thesis by auto
next
  case MoreBegun
  then show ?thesis using assms(2) op_keys(4) [OF assms(2)] by (simp split: option.split)
next
  case (DeleteDone d failed)
  then show ?thesis using assms(2) op_keys(7) [OF assms(2)] by (auto split: sum.split)
next
  case (Restored i failed)
  then show ?thesis using assms(2) op_keys(8) [OF assms(2)] by (auto split: sum.split)
next
  case (StarBegun i)
  then show ?thesis using assms(2) op_keys(12) [OF assms(2)] by (simp split: option.split)
next
  case (SnoozeBegun i until)
  then show ?thesis using assms(2) op_keys(14) [OF assms(2)] by (simp split: option.split)
next
  case (BulkDeleted ids)
  then show ?thesis using op_keys(16) [OF assms(2), of ids] by (auto split: prod.split)
next
  case (RestoreBegun ids)
  then show ?thesis using op_keys(17) [OF assms(2), of ids] by (auto split: prod.split)
qed (use assms(1,2) op_keys(1-3,5,6,9-11,13,15) [OF assms(2)] in simp_all)

lemma held_kept:
  assumes "keys_once (emails s)" "event_ok e hs" "list_all held_ok hs"
  shows "list_all held_ok (snd (inbox_next e (s, hs)))"
proof (cases e)
  case (DeleteBegun i)
  then show ?thesis using assms(1,3) by (simp add: begin_delete_def Let_def keys_once_filter)
next
  case (DeleteDone d failed)
  then have "keys_once (dl_rows d)" using assms(2,3) by (auto simp: list_all_iff)
  then show ?thesis
    using assms(3) DeleteDone set_remove1_subset [of "Deleting d" hs]
    by (auto simp: finish_delete_def list_all_iff split: list.splits)
next
  case (BulkDeleted ids)
  have "keys_once (tb_rows (snd (bulkDelete ids s)))"
    using assms(1) by (simp add: bulkDelete_def Let_def keys_once_filter) (simp add: keys_once_def)
  then show ?thesis using assms(3) BulkDeleted by (auto split: prod.split)
next
  case (RestoreBegun ids)
  then show ?thesis using assms(1,3) by (simp add: begin_bulkRestore_def keys_once_filter)
qed (use assms(3) in \<open>simp_all split: option.split sum.split prod.split\<close>)

lemma clean_run_ok: "clean_run w \<Longrightarrow> keys_once (emails (fst w)) \<and> list_all held_ok (snd w)"
proof (induction rule: clean_run.induct)
  case (start s)
  then show ?case by (simp add: keys_once_def)
next
  case (step s hs e)
  then have k: "keys_once (emails s)" "list_all held_ok hs" by simp_all
  have "keys_once (emails (fst (inbox_next e (s, hs))))"
    using put_back_keys [OF _ k(1)] checked_keys [OF _ k(1) step.hyps(2) k(2)] step.hyps(3)
    by (cases "puts_back e s") auto
  then show ?case using held_kept [OF k(1) step.hyps(2) k(2)] by simp
qed

text \<open>
  C3: Whatever the user does and in whatever order the answers arrive, a conversation comes to be
  listed twice exactly when one of the four operations that do not look, the undo of a snooze, a
  refused snooze, a refused restore, or the switch of a row to its conversation's newest message,
  puts a row back whose conversation is listed. The server is taken to list each conversation once.
\<close>

theorem doubled_only_by_unchecked_rows:
  assumes "clean_run (s, hs)" "event_ok e hs"
  shows "distinct (map conversationKey (emails s))
    \<and> (distinct (map conversationKey (emails (fst (inbox_next e (s, hs))))) \<longleftrightarrow> \<not> clash e s)"
proof -
  have k: "keys_once (emails s)" "list_all held_ok hs" using clean_run_ok [OF assms(1)] by simp_all
  have "keys_once (emails (fst (inbox_next e (s, hs)))) \<longleftrightarrow> \<not> clash e s"
    using put_back_keys [OF _ k(1)] checked_keys [OF _ k(1) assms(2) k(2)]
    by (cases "puts_back e s") (auto simp: clash_def)
  then show ?thesis using k(1) by (simp add: keys_once_def)
qed

text \<open>
  A row is snoozed in the inbox, a refresh lists its conversation again under a newer message, and
  the snooze is refused.
\<close>

definition snoozed_world :: inbox_world where
  "snoozed_world =
     inbox_next (FetchDone (snd (begin_fetch (demo_inbox Inbox [])))
         \<lparr>pg_emails = [(plain_row 7 (Some 9) 70)], pg_hasMore = False, pg_total = None\<rparr>)
      (inbox_next (SnoozeBegun 3 99)
        (inbox_next (FetchDone (snd (begin_fetch (demo_inbox Inbox [])))
            \<lparr>pg_emails = [plain_row 3 (Some 9) 30], pg_hasMore = False, pg_total = None\<rparr>)
          (demo_inbox Inbox [], [])))"

definition snoozed_third :: snooze where
  "snoozed_third = \<lparr>sn_row = plain_row 3 (Some 9) 30, sn_ids = [3], sn_hides = True, sn_folder = Inbox\<rparr>"

lemma clean_checked:
  assumes "clean_run w" "puts_back e (fst w) = None" "event_ok e (snd w)"
  shows "clean_run (inbox_next e w)"
  using assms clean_run.step [of "fst w" "snd w" e] by (simp add: clash_def)

lemma snoozed_world_clean: "clean_run snoozed_world"
  unfolding snoozed_world_def
  by (intro clean_checked clean_run.start)
    (simp_all add: demo_inbox_def page_ok_def listed_once_def keys_once_def conversationKey_def
      conversationMessageIds_def plain_row_def)

lemma snoozed_world_shows:
  "map eid (emails (fst snoozed_world)) = [7]"
  "map conversationKey (emails (fst snoozed_world)) = [conversationKey (plain_row 3 (Some 9) 30)]"
  "snd snoozed_world = [Snoozing snoozed_third]"
  by (simp_all add: snoozed_world_def finish_fetch_def begin_fetch_def begin_snoozeRow_def demo_inbox_def
      Let_def merge_rows_def HIDES_SNOOZED_def snoozed_third_def conversationKey_def
      conversationMessageIds_def plain_row_def)

theorem doubled_only_by_unchecked_rows_witness:
  "clash (SnoozeFailed snoozed_third) (fst snoozed_world)
   \<and> \<not> distinct (map conversationKey (emails (fst (inbox_next (SnoozeFailed snoozed_third) snoozed_world))))"
proof -
  have c: "clash (SnoozeFailed snoozed_third) (fst snoozed_world)"
    using snoozed_world_shows(1,2)
    by (auto simp: clash_def snoozed_third_def plain_row_def)
  obtain s where s: "snoozed_world = (s, [Snoozing snoozed_third])"
    using snoozed_world_shows(3) by (metis prod.collapse)
  have "clean_run (s, [Snoozing snoozed_third])" using snoozed_world_clean by (simp only: s)
  moreover have "event_ok (SnoozeFailed snoozed_third) [Snoozing snoozed_third]" by simp
  ultimately have "distinct (map conversationKey (emails (fst (inbox_next (SnoozeFailed snoozed_third) snoozed_world))))
      \<longleftrightarrow> \<not> clash (SnoozeFailed snoozed_third) (fst snoozed_world)"
    using doubled_only_by_unchecked_rows unfolding s fst_conv by iprover
  with c show ?thesis by (simp only: not_True_eq_False simp_thms)
qed

section \<open>Undo\<close>

text \<open>The list in its folder's order, no two rows at the same time.\<close>

definition strictly_ordered :: "folder \<Rightarrow> email list \<Rightarrow> bool" where
  "strictly_ordered f es \<longleftrightarrow> sorted_wrt (\<lambda>a b. order_key f a < order_key f b) es"

lemma filter_eq_replicate: "filter (\<lambda>y. k = y) xs = replicate (count (mset xs) k) k"
  by (induction xs) auto

lemma sort_rows_unique:
  assumes "strictly_ordered f es" "mset fs = mset es"
  shows "sort_rows f fs = es"
proof -
  have "sorted_wrt (<) (map (order_key f) es)"
    using assms(1) by (simp add: strictly_ordered_def sorted_wrt_map)
  then have s: "sorted (map (order_key f) es)" "distinct (map (order_key f) es)"
    by (simp_all only: strict_sorted_iff)
  have st: "set fs = set es" using assms(2) by (metis set_mset_mset)
  have "filter (\<lambda>x. order_key f k = order_key f x) es = filter (\<lambda>x. order_key f k = order_key f x) fs"
    if "k \<in> set es" for k
  proof -
    have "inj_on (order_key f) (set es)" using s(2) by (simp add: distinct_map)
    then have eq: "order_key f k = order_key f x \<longleftrightarrow> k = x" if "x \<in> set es" for x
      using \<open>k \<in> set es\<close> that by (auto dest: inj_onD)
    have "filter (\<lambda>x. order_key f k = order_key f x) xs = filter (\<lambda>x. k = x) xs"
      if "set xs = set es" for xs
      using eq that by (intro filter_cong) auto
    with st assms(2) show ?thesis by (simp add: filter_eq_replicate)
  qed
  with assms(2) s(1) show ?thesis
    unfolding sort_rows_def by (intro properties_for_sort_key) simp_all
qed

lemma mset_partition: "mset (filter (\<lambda>x. \<not> P x) xs @ filter P xs) = mset xs"
  by (metis mset_append multiset_partition mset_filter union_commute)

text \<open>Putting back the rows a filter took out of a list without duplicates.\<close>

lemma undo_filter:
  assumes "keys_once es" "strictly_ordered f es" "f \<noteq> Trash" "emails t = filter (\<lambda>e. \<not> P e) es"
  shows "emails (fst (finish_undoTrash f \<lparr>tb_rows = filter P es, tb_ids = ids\<rparr> {} t)) = es"
proof -
  have inj: "inj_on conversationKey (set es)" using assms(1) by (simp add: keys_once_def distinct_map)
  have "conversationKey r \<notin> conversationKey ` set (emails t)" if "r \<in> set (filter P es)" for r
    using that assms(4) inj by (auto dest: inj_onD)
  then have "filter (\<lambda>row. conversationKey row \<notin> conversationKey ` set (emails t)) (filter P es) = filter P es"
    by (intro filter_True) blast
  moreover have "sort_rows f (emails t @ filter P es) = es"
    using assms(2,4) mset_partition [of P es] by (intro sort_rows_unique) simp_all
  moreover have "emails t = es" if "filter P es = []"
    using that assms(4) by (auto simp: filter_empty_conv intro: filter_True)
  ultimately show ?thesis
    using assms(3) by (simp add: finish_undoTrash_def restored_rows_def Let_def list_all_iff)
qed

text \<open>
  Undo puts the list back exactly: deleting a conversation, or several selected rows,
  and undoing it while nothing else happens leaves the same rows in the same order.
\<close>

theorem undo_delete_restores_list:
  assumes "keys_once (emails s)" "strictly_ordered f (emails s)" "f \<noteq> Trash"
  shows "(case finish_delete (begin_delete i s) [] s of
           Inr (t, batch) \<Rightarrow> emails (fst (finish_undoTrash f batch {} t)) = emails s
         | Inl _ \<Rightarrow> False)
    \<and> (case bulkDelete ids s of
         (t, batch) \<Rightarrow> emails (fst (finish_undoTrash f batch {} t)) = emails s)"
proof
  show "case finish_delete (begin_delete i s) [] s of
          Inr (t, batch) \<Rightarrow> emails (fst (finish_undoTrash f batch {} t)) = emails s
        | Inl _ \<Rightarrow> False"
    using assms by (simp add: finish_delete_def begin_delete_def Let_def undo_filter)
  show "case bulkDelete ids s of
          (t, batch) \<Rightarrow> emails (fst (finish_undoTrash f batch {} t)) = emails s"
  proof (cases "ids = []")
    case True
    then show ?thesis by (simp add: bulkDelete_def finish_undoTrash_def restored_rows_def)
  next
    case False
    then show ?thesis
      using undo_filter [OF assms(1,2,3), where P = "\<lambda>e. eid e \<in> set ids"]
      by (simp add: bulkDelete_def Let_def)
  qed
qed

definition demo_rows :: "email list" where
  "demo_rows = [plain_row 3 (Some 9) 30, plain_row 2 None 20, plain_row 1 None 10]"

lemma demo_rows_ok: "keys_once demo_rows" "strictly_ordered Inbox demo_rows"
  by (simp_all add: demo_rows_def keys_once_def strictly_ordered_def conversationKey_def
      order_key_def sortTime_def plain_row_def)

theorem undo_delete_restores_list_witness:
  "case bulkDelete [3, 1] (demo_inbox Inbox demo_rows) of
     (t, batch) \<Rightarrow> emails (fst (finish_undoTrash Inbox batch {} t)) = demo_rows"
  using undo_delete_restores_list [of "demo_inbox Inbox demo_rows" Inbox _ "[3, 1]"] demo_rows_ok
  by (simp add: demo_inbox_def)

lemma filter_map_row:
  "filter (\<lambda>e. eid e \<noteq> i) (map (\<lambda>e. if eid e = i then e\<lparr>snoozed_until := v\<rparr> else e) es)
     = filter (\<lambda>e. eid e \<noteq> i) es"
  by (induction es) auto

text \<open>
  Undoing a snooze puts the row back where it was, in a folder that hides snoozed mail
  and in one that keeps it listed; a snooze the server refuses undoes itself the same way.
\<close>

theorem undo_snooze_restores_list:
  assumes "listed_once (emails s)" "strictly_ordered (activeFolder s) (emails s)"
    and "activeFolder s \<noteq> Snoozed" "begin_snoozeRow i until s = Some (t, n)"
    and "snoozed_until (sn_row n) = None"
  shows "emails (fst (finish_undoSnooze (activeFolder s) (snooze_batch n) {} t)) = emails s
    \<and> emails (fail_snoozeRow n t) = emails s"
proof -
  define hides where "hides = (activeFolder s \<in> set HIDES_SNOOZED)"
  let ?kept = "filter (\<lambda>e. eid e \<noteq> i) (emails s)"
  obtain row where row: "find (\<lambda>e. eid e = i) (emails s) = Some row"
    "n = \<lparr>sn_row = row, sn_ids = conversationMessageIds row, sn_hides = hides, sn_folder = activeFolder s\<rparr>"
    "emails t = (if hides then ?kept
       else map (\<lambda>e. if eid e = i then e\<lparr>snoozed_until := Some until\<rparr> else e) (emails s))"
    using assms(4) by (auto simp: begin_snoozeRow_def Let_def hides_def)
  have in_s: "row \<in> set (emails s)" "eid row = i" using row(1) by (auto simp: find_Some_iff)
  have uniq: "eid e = i \<longleftrightarrow> e = row" if "e \<in> set (emails s)" for e
    using that in_s assms(1) by (auto simp: listed_once_def distinct_map dest: inj_onD)
  have only: "filter (\<lambda>e. eid e = i) (emails s) = [row]"
  proof -
    have "filter (\<lambda>e. eid e = i) (emails s) = filter (\<lambda>e. row = e) (emails s)"
      using uniq by (intro filter_cong) auto
    moreover have "distinct (emails s)" using assms(1) by (auto simp: listed_once_def dest: distinct_mapD)
    ultimately show ?thesis
      using in_s(1) by (simp add: filter_eq_replicate distinct_count_atmost_1)
  qed
  have kept_t: "filter (\<lambda>e. eid e \<noteq> i) (emails t) = ?kept"
    unfolding row(3) by (simp add: filter_map_row)
  have "mset (?kept @ [row]) = mset (emails s)"
    using mset_partition [of "\<lambda>e. eid e = i" "emails s"] only by simp
  with assms(2) have sorted: "sort_rows (activeFolder s) (?kept @ [row]) = emails s"
    by (rule sort_rows_unique)
  have none: "row\<lparr>snoozed_until := None\<rparr> = row" using assms(5) row(2) by simp
  have flip: "map (\<lambda>e. if eid e = i then row else e) (emails t) = emails s" if "\<not> hides"
  proof -
    have "map (\<lambda>e. if eid e = i then row else e) (emails t)
        = map (\<lambda>e. if eid e = i then row else e) (emails s)"
      using that row(3) by (simp add: comp_def cong: map_cong)
    also have "\<dots> = emails s" using uniq by (intro map_idI) auto
    finally show ?thesis .
  qed
  have "emails (fst (finish_undoSnooze (activeFolder s) (snooze_batch n) {} t))
      = sort_rows (activeFolder s) (?kept @ [row])"
    using assms(3) kept_t in_s(2) none unfolding row(2)
    by (simp add: finish_undoSnooze_def snooze_batch_def restored_rows_def list_all_iff)
  moreover have "emails (fail_snoozeRow n t) = emails s"
  proof -
    have n: "sn_row n = row" "sn_hides n = hides" "sn_folder n = activeFolder s"
      using row(2) by simp_all
    show ?thesis unfolding fail_snoozeRow_def n in_s(2) kept_t using sorted flip by simp
  qed
  ultimately show ?thesis using sorted by simp
qed

theorem undo_snooze_restores_list_witness:
  "case begin_snoozeRow 2 99 (demo_inbox Inbox demo_rows) of
     Some (t, n) \<Rightarrow> emails (fst (finish_undoSnooze Inbox (snooze_batch n) {} t)) = demo_rows
   | None \<Rightarrow> False"
proof -
  have "listed_once demo_rows"
    using demo_rows_ok(1) by (simp add: listed_once_def) (simp add: demo_rows_def plain_row_def)
  then show ?thesis
    using undo_snooze_restores_list [of "demo_inbox Inbox demo_rows" 2 99] demo_rows_ok(2)
    by (simp add: demo_inbox_def begin_snoozeRow_def Let_def demo_rows_def plain_row_def)
qed

section \<open>Unread badges\<close>

text \<open>What the listed rows of an account add to its badge, and a badge that equals it.\<close>

definition listed_unread :: "int \<Rightarrow> email list \<Rightarrow> int" where
  "listed_unread a es = sum_list (map (\<lambda>e. if account_id e = Some a then row_drop e else 0) es)"

definition badges_exact :: "inbox \<Rightarrow> bool" where
  "badges_exact s \<longleftrightarrow>
     list_all (\<lambda>acc. nullish (acc_unread_count acc) 0 = listed_unread (acc_id acc) (emails s)) (accounts s)"

definition counts_ok :: "email list \<Rightarrow> bool" where
  "counts_ok es \<longleftrightarrow> list_all (\<lambda>e. 0 \<le> row_drop e) es"

lemma row_fields [row_simps]:
  "account_id (read_row e) = account_id e" "account_id (unread_row e) = account_id e"
  "eid (read_row e) = eid e" "eid (unread_row e) = eid e"
  "row_drop (read_row e) = 0" "isUnread (read_row e) = False"
  "row_drop (unread_row e) = max 1 (nullish (unread_count e) 0)"
  by (simp_all add: read_row_def unread_row_def row_drop_def isUnread_def)

lemma listed_unread_simps [simp]:
  "listed_unread a [] = 0"
  "listed_unread a (e # es) = (if account_id e = Some a then row_drop e else 0) + listed_unread a es"
  by (simp_all add: listed_unread_def)

lemma listed_unread_nonneg: "counts_ok es \<Longrightarrow> 0 \<le> listed_unread a es"
  by (induction es) (auto simp: counts_ok_def)

text \<open>Reading rows takes exactly their share off the account's sum.\<close>

lemma read_rows_unread:
  "counts_ok es \<Longrightarrow>
   listed_unread a (map (\<lambda>e. if eid e \<in> ids then read_row e else e) es) + account_drop ids es a
     = listed_unread a es"
  by (induction es) (auto simp: account_drop_def counts_ok_def row_simps)

lemma read_rows_nonneg:
  "counts_ok es \<Longrightarrow> 0 \<le> listed_unread a (map (\<lambda>e. if eid e \<in> ids then read_row e else e) es)"
  by (rule listed_unread_nonneg) (auto simp: counts_ok_def list_all_iff row_simps)

lemma filter_map_read:
  "filter (\<lambda>e. eid e \<notin> ids) (map (\<lambda>e. if eid e \<in> ids then read_row e else e) es)
     = filter (\<lambda>e. eid e \<notin> ids) es"
  by (induction es) (auto simp: row_simps)

text \<open>
  Marking any rows read keeps every account's badge exact: when a badge counts the
  unread messages of the account's listed rows, it still does afterwards; the rows marked
  are read, every other row is untouched, and the messages posted are each posted once.
\<close>

theorem bulk_read_keeps_badges:
  assumes "counts_ok (emails s)" "badges_exact s"
  shows "badges_exact (fst (bulkMarkRead ids s))
    \<and> (\<forall>e \<in> set (emails (fst (bulkMarkRead ids s))). eid e \<in> set ids \<longrightarrow> \<not> isUnread e)
    \<and> filter (\<lambda>e. eid e \<notin> set ids) (emails (fst (bulkMarkRead ids s)))
        = filter (\<lambda>e. eid e \<notin> set ids) (emails s)
    \<and> distinct (snd (bulkMarkRead ids s))"
proof (intro conjI)
  have "nullish (acc_unread_count acc) 0 = listed_unread (acc_id acc) (emails s)"
    if "acc \<in> set (accounts s)" for acc
    using assms(2) that by (simp add: badges_exact_def list_all_iff)
  then show "badges_exact (fst (bulkMarkRead ids s))"
    using assms(2) read_rows_unread [OF assms(1), of _ "set ids"] read_rows_nonneg [OF assms(1), of _ "set ids"]
    by (auto simp: bulkMarkRead_def badges_exact_def list_all_iff Let_def drop_badge_def)
      (smt (verit, best))+
  show "\<forall>e \<in> set (emails (fst (bulkMarkRead ids s))). eid e \<in> set ids \<longrightarrow> \<not> isUnread e"
    by (auto simp: bulkMarkRead_emails row_simps)
  show "filter (\<lambda>e. eid e \<notin> set ids) (emails (fst (bulkMarkRead ids s)))
        = filter (\<lambda>e. eid e \<notin> set ids) (emails s)"
    by (simp add: bulkMarkRead_emails filter_map_read)
  show "distinct (snd (bulkMarkRead ids s))"
  proof -
    have "distinct (mark_ids ids (emails s))"
      unfolding mark_ids_def Let_def
      using filter_seen_distinct [where key = "\<lambda>i. i"] by simp
    then show ?thesis by (auto simp: bulkMarkRead_def Let_def distinct_map intro: inj_onI)
  qed
qed

definition demo_unread :: email where
  "demo_unread = (plain_row 4 (Some 9) 40)\<lparr>account_id := Some 1, is_read := Some True,
     unread_count := Some 5, message_count := Some 6\<rparr>"

theorem bulk_read_keeps_badges_witness:
  "badges_exact (fst (bulkMarkRead [4] (demo_inbox Inbox [demo_unread])))"
proof -
  have "counts_ok (emails (demo_inbox Inbox [demo_unread]))" "badges_exact (demo_inbox Inbox [demo_unread])"
    by (simp_all add: demo_inbox_def demo_unread_def plain_row_def counts_ok_def badges_exact_def row_drop_def)
  from bulk_read_keeps_badges [OF this] show ?thesis by blast
qed

lemma bump_account_none:
  "i \<notin> eid ` set es \<Longrightarrow>
   foldl (\<lambda>a e. if eid e = i \<and> is_read e \<noteq> Some False then account_id e else a) a es = a"
  by (induction es arbitrary: a) auto

lemma bump_account_unique:
  assumes "distinct (map eid es)" "row \<in> set es"
  shows "bump_account (eid row) es = (if is_read row \<noteq> Some False then account_id row else None)"
proof -
  have "foldl (\<lambda>a e. if eid e = eid row \<and> is_read e \<noteq> Some False then account_id e else a) a es
      = (if is_read row \<noteq> Some False then account_id row else a)" for a
    using assms by (induction es arbitrary: a) (auto simp: bump_account_none)
  then show ?thesis by (simp add: bump_account_def)
qed

lemma unread_rows_sum:
  "distinct (map eid es) \<Longrightarrow> row \<in> set es \<Longrightarrow>
   listed_unread a (map (\<lambda>e. if eid e = eid row then unread_row e else e) es)
     = listed_unread a es
       + (if account_id row = Some a then max 1 (nullish (unread_count row) 0) - row_drop row else 0)"
proof (induction es)
  case (Cons e es)
  have same: "map (\<lambda>e. if eid e = i then unread_row e else e) es = es" if "i \<notin> eid ` set es" for i
    using that by (induction es) auto
  show ?case
  proof (cases "e = row")
    case True
    with Cons.prems(1) show ?thesis by (simp add: same row_simps)
  next
    case False
    with Cons.prems have "row \<in> set es" "eid e \<noteq> eid row" by auto
    with Cons show ?thesis by simp
  qed
qed simp

text \<open>
  Marking one row unread changes its account's badge by one when the row was read, but
  the row's own count only when it was zero. So a badge that was exact stays exact for a
  row that had no unread message, and ends one above the listed rows when a conversation
  whose newest message is read still has older unread ones.
\<close>

theorem mark_unread_badge:
  assumes "distinct (map eid (emails s))" "badges_exact s" "acc \<in> set (accounts s)"
    and "row \<in> set (emails s)" "account_id row = Some (acc_id acc)"
    and "is_read row = Some True" "0 \<le> row_drop row"
  shows "\<exists>acc' \<in> set (accounts (markUnread (eid row) s)). acc_id acc' = acc_id acc
    \<and> acc_unread_count acc' = Some (listed_unread (acc_id acc) (emails (markUnread (eid row) s))
        + (if nullish (unread_count row) 0 = 0 then 0 else 1))"
proof
  have drop: "row_drop row = nullish (unread_count row) 0"
    using assms(6) by (cases "unread_count row") (simp_all add: row_drop_def)
  have exact: "nullish (acc_unread_count acc) 0 = listed_unread (acc_id acc) (emails s)"
    using assms(2,3) by (simp add: badges_exact_def list_all_iff)
  have "bump_account (eid row) (emails s) = Some (acc_id acc)"
    using bump_account_unique [OF assms(1,4)] assms(5,6) by simp
  then show "bump_badge acc \<in> set (accounts (markUnread (eid row) s))"
    using assms(3) by (force simp: markUnread_def Let_def)
  show "acc_id (bump_badge acc) = acc_id acc
    \<and> acc_unread_count (bump_badge acc) = Some (listed_unread (acc_id acc) (emails (markUnread (eid row) s))
        + (if nullish (unread_count row) 0 = 0 then 0 else 1))"
    using exact assms(5,7) drop
    by (simp add: bump_badge_def markUnread_emails unread_rows_sum [OF assms(1,4)] max_def)
qed

text \<open>Five unread messages, the newest read: the badge goes to six, the row stays at five.\<close>

theorem mark_unread_badge_witness:
  "\<exists>acc' \<in> set (accounts (markUnread 4 (demo_inbox Inbox [demo_unread]))). acc_id acc' = 1
    \<and> acc_unread_count acc' = Some (listed_unread 1 (emails (markUnread 4 (demo_inbox Inbox [demo_unread]))) + 1)"
  using mark_unread_badge [of "demo_inbox Inbox [demo_unread]" "\<lparr>acc_id = 1, acc_unread_count = Some 5\<rparr>"
      demo_unread]
  by (simp add: demo_inbox_def demo_unread_def plain_row_def badges_exact_def row_drop_def)

section \<open>Answers that arrive late\<close>

text \<open>
  A list answer is not checked against the view on screen: when the user switches
  folder while the first page of another is still loading, and the answers arrive in the
  other order, the list ends up showing the rows of the folder left behind.
\<close>

theorem late_answer_replaces_list:
  assumes "loadedKeyRef s \<noteq> Some (current_key s)" "current_key s \<noteq> (a, f, q)"
    and "begin_fetch s = (s1, fetchA)" "begin_fetch (switch_view a f q s1) = (s2, fetchB)"
  shows "let s3 = finish_fetch fetchA pageA (finish_fetch fetchB pageB s2)
    in current_key s3 = (a, f, q) \<and> emails s3 = pg_emails pageA
       \<and> loadedListKey s3 = Some (current_key s)"
  using assms
  by (auto simp: begin_fetch_def finish_fetch_def switch_view_def current_key_def Let_def)

theorem late_answer_replaces_list_witness:
  "let s = demo_inbox Inbox []; (s1, fetchA) = begin_fetch s;
       (s2, fetchB) = begin_fetch (switch_view None Spam [] s1);
       s3 = finish_fetch fetchA \<lparr>pg_emails = demo_rows, pg_hasMore = False, pg_total = None\<rparr>
              (finish_fetch fetchB stub_page s2)
   in activeFolder s3 = Spam \<and> emails s3 = demo_rows"
proof -
  let ?s = "demo_inbox Inbox []"
  have "loadedKeyRef ?s \<noteq> Some (current_key ?s)" "current_key ?s \<noteq> (None, Spam, [])"
    by (simp_all add: demo_inbox_def current_key_def)
  from late_answer_replaces_list [OF this, of "fst (begin_fetch ?s)" "snd (begin_fetch ?s)"
      "fst (begin_fetch (switch_view None Spam [] (fst (begin_fetch ?s))))"
      "snd (begin_fetch (switch_view None Spam [] (fst (begin_fetch ?s))))"
      "\<lparr>pg_emails = demo_rows, pg_hasMore = False, pg_total = None\<rparr>" stub_page]
  show ?thesis by (simp add: Let_def split_beta current_key_def)
qed

text \<open>
  Undoing a snooze, and a snooze that the server refuses, put the row back without
  looking for its conversation: when a refresh has meanwhile listed the conversation under
  a newer message, it is listed twice.
\<close>

theorem undo_snooze_duplicates_conversation:
  assumes "newer \<in> set (emails s)" "eid newer \<noteq> eid row"
    and "conversationKey newer = conversationKey row" "folder \<noteq> Snoozed"
    and "n = \<lparr>sn_row = row, sn_ids = conversationMessageIds row, sn_hides = True, sn_folder = folder\<rparr>"
  shows "\<not> distinct (map conversationKey (emails (fst (finish_undoSnooze folder (snooze_batch n) {} s))))
    \<and> \<not> distinct (map conversationKey (emails (fail_snoozeRow n s)))"
proof -
  let ?kept = "filter (\<lambda>e. eid e \<noteq> eid row) (emails s)"
  have "\<not> keys_once (?kept @ [r])" if "conversationKey r = conversationKey row" for r
  proof -
    have "newer \<in> set ?kept" using assms(1,2) by simp
    then have "conversationKey r \<in> conversationKey ` set ?kept" using assms(3) that by (metis imageI)
    then show ?thesis unfolding keys_once_append by auto
  qed
  then have dup: "\<not> keys_once (sort_rows folder (?kept @ [r]))" if "conversationKey r = conversationKey row" for r
    using that by simp
  show ?thesis
    using dup [of row] dup [of "row\<lparr>snoozed_until := None\<rparr>"] assms(4)
    by (simp add: finish_undoSnooze_def fail_snoozeRow_def snooze_batch_def restored_rows_def assms(5)
        list_all_iff key_simps keys_once_def)
qed

theorem undo_snooze_duplicates_conversation_witness:
  "\<not> distinct (map conversationKey (emails (fail_snoozeRow
       \<lparr>sn_row = plain_row 3 (Some 9) 30, sn_ids = [3], sn_hides = True, sn_folder = Inbox\<rparr>
       (demo_inbox Inbox [plain_row 7 (Some 9) 70]))))"
  using undo_snooze_duplicates_conversation [of "plain_row 7 (Some 9) 70"
      "demo_inbox Inbox [plain_row 7 (Some 9) 70]" "plain_row 3 (Some 9) 30" Inbox, OF _ _ _ _ refl]
  by (simp add: demo_inbox_def plain_row_def conversationKey_def conversationMessageIds_def)

end
