(* ===== verification/Reply_Recipients.thy ===== *)
theory Reply_Recipients
  imports Email_Conversation
begin

text \<open>
  Who a reply goes to: \<open>emails/replyRecipients.ts\<close>, with its scanner for address headers.
\<close>

section \<open>Address headers\<close>

definition addressOf :: "string \<Rightarrow> string" where
  "addressOf value =
     (let text = trim value
      in trim (case angle_match text of Some m \<Rightarrow> if m \<noteq> [] then m else text | None \<Rightarrow> text))"

text \<open>The scanner's two flags after one character, and its raw parts.\<close>

definition next_flags :: "bool \<Rightarrow> bool \<Rightarrow> char \<Rightarrow> bool \<times> bool" where
  "next_flags inQuotes inAngle ch =
     (if ch = CHR 0x22 \<and> \<not> inAngle then (\<not> inQuotes, inAngle)
      else if ch = CHR ''<'' \<and> \<not> inQuotes then (inQuotes, True)
      else if ch = CHR ''>'' \<and> \<not> inQuotes then (inQuotes, False)
      else (inQuotes, inAngle))"

fun split_scan :: "bool \<Rightarrow> bool \<Rightarrow> string \<Rightarrow> string \<Rightarrow> string list" where
  "split_scan q a current [] = [current]"
| "split_scan q a current (ch # s) =
     (case next_flags q a ch of (q', a') \<Rightarrow>
        if ch = CHR '','' \<and> \<not> q' \<and> \<not> a' then current # split_scan q' a' [] s
        else split_scan q' a' (current @ [ch]) s)"

definition splitAddressList :: "string \<Rightarrow> string list" where
  "splitAddressList value = filter (\<lambda>p. p \<noteq> []) (map trim (split_scan False False [] value))"

section \<open>Recipients\<close>

definition own_list :: "string list \<Rightarrow> string list" where
  "own_list ownAddresses = filter (\<lambda>a. a \<noteq> []) (map (\<lambda>a. toLowerCase (trim a)) ownAddresses)"

definition header_addresses :: "string option \<Rightarrow> string list" where
  "header_addresses h = map addressOf (splitAddressList (nullish h []))"

definition replyRecipients :: "email \<Rightarrow> string list \<Rightarrow> string list" where
  "replyRecipients e ownAddresses =
     (let own = own_set ownAddresses;
          from = addressOf (nullish (sender e) [])
      in if from \<noteq> [] \<and> toLowerCase from \<notin> own then [from]
         else
           (let recipients = fst (filter_seen (\<lambda>a. a \<noteq> [] \<and> toLowerCase a \<notin> own) toLowerCase {}
                  (header_addresses (receiver e)))
            in if recipients \<noteq> [] then recipients else if from \<noteq> [] then [from] else []))"

definition recipientAddresses :: "email \<Rightarrow> string list" where
  "recipientAddresses e =
     fst (filter_seen (\<lambda>a. CHR ''@'' \<in> set a) toLowerCase {}
       (header_addresses (receiver e) @ header_addresses (cc e)))"

definition hasMultipleRecipients :: "email \<Rightarrow> bool" where
  "hasMultipleRecipients e \<longleftrightarrow> length (recipientAddresses e) > 1"

definition replyAllRecipients :: "email \<Rightarrow> string list \<Rightarrow> string list \<times> string list" where
  "replyAllRecipients e ownAddresses =
     (let own = own_set ownAddresses;
          ok = (\<lambda>a. CHR ''@'' \<in> set a \<and> toLowerCase a \<notin> own) in
      case filter_seen ok toLowerCase {}
             (addressOf (nullish (sender e) []) # header_addresses (receiver e)) of
        (to, seen) \<Rightarrow>
          (case filter_seen ok toLowerCase seen (header_addresses (cc e)) of
             (cc', _) \<Rightarrow>
               if to \<noteq> [] then (to, cc')
               else if cc' \<noteq> [] then (cc', [])
               else (replyRecipients e (own_list ownAddresses), [])))"

section \<open>The scanner\<close>

text \<open>An address whose quotes and brackets close and which holds no bare comma.\<close>

fun closed_part :: "bool \<Rightarrow> bool \<Rightarrow> string \<Rightarrow> bool" where
  "closed_part q a [] \<longleftrightarrow> \<not> q \<and> \<not> a"
| "closed_part q a (ch # s) \<longleftrightarrow>
     (case next_flags q a ch of (q', a') \<Rightarrow>
        \<not> (ch = CHR '','' \<and> \<not> q' \<and> \<not> a') \<and> closed_part q' a' s)"

lemma split_scan_closed:
  "closed_part q a p \<Longrightarrow> split_scan q a current (p @ CHR '','' # s)
     = (current @ p) # split_scan False False [] s"
  by (induction p arbitrary: q a current) (auto simp: next_flags_def)

lemma split_scan_last: "closed_part q a p \<Longrightarrow> split_scan q a current p = [current @ p]"
  by (induction p arbitrary: q a current) (auto split: prod.splits)

lemma split_scan_space:
  "map trim (split_scan False False [] (CHR '' '' # s)) = map trim (split_scan False False [] s)"
proof -
  have "split_scan q a (c @ d) s
      = (c @ hd (split_scan q a d s)) # tl (split_scan q a d s)" for q a c d
    by (induction s arbitrary: q a d) (simp_all split: prod.split)
  from this [of False False "[CHR '' '']" "[]"]
  have "split_scan False False [] (CHR '' '' # s)
      = (CHR '' '' # hd (split_scan False False [] s)) # tl (split_scan False False [] s)"
    by (simp add: next_flags_def)
  moreover have "split_scan q a c s \<noteq> []" for q a c
    by (induction s arbitrary: q a c) (auto split: prod.splits)
  from this [of False False "[]"] have "split_scan False False [] s \<noteq> []" .
  ultimately show ?thesis
    by (cases "split_scan False False [] s") (simp_all add: trim_space_Cons js_space_def code_def)
qed

lemma map_trim_join:
  "parts \<noteq> [] \<Longrightarrow> \<forall>p \<in> set parts. closed_part False False p \<and> trimmed p \<Longrightarrow>
   map trim (split_scan False False [] (join '', '' parts)) = parts"
proof (induction "'', '' :: string" parts rule: join.induct)
  case (3 p q ps)
  have "split_scan False False [] (join '', '' (p # q # ps))
      = p # split_scan False False [] (CHR '' '' # join '', '' (q # ps))"
    using 3(3) split_scan_closed [of False False p "[]"] by simp
  then show ?case
    using 3 by (simp only: list.map split_scan_space) (simp add: trim_trimmed)
qed (simp_all add: split_scan_last trim_trimmed)

text \<open>
  Printing a list of addresses with commas and splitting it again gives the same
  addresses, commas inside quoted names and angle brackets included.
\<close>

theorem address_list_roundtrip:
  assumes "\<forall>p \<in> set parts. closed_part False False p \<and> trimmed p \<and> p \<noteq> []"
  shows "splitAddressList (join '', '' parts) = parts"
proof (cases "parts = []")
  case False
  have "filter (\<lambda>p. p \<noteq> []) parts = parts" using assms by (auto intro: filter_True)
  with map_trim_join [OF False] assms show ?thesis by (simp add: splitAddressList_def)
qed (simp add: splitAddressList_def trim_def)

theorem address_list_roundtrip_witness:
  "splitAddressList (join '', '' [CHR 0x22 # ''Griffin, Peter'' @ CHR 0x22 # '' <p@x.com>'', ''a@y.com''])
     = [CHR 0x22 # ''Griffin, Peter'' @ CHR 0x22 # '' <p@x.com>'', ''a@y.com'']"
  by (rule address_list_roundtrip) (simp add: next_flags_def trimmed_def js_space_def code_def)

section \<open>Recipients of a reply\<close>

lemma own_set_own_list [simp]: "own_set (own_list own) = own_set own"
proof -
  have sp: "js_space (lower_char c) = js_space c" for c
    by (auto simp: js_space_def code_lower_char)
  have "trimmed (toLowerCase s)" if "trimmed s" for s
    using that by (auto simp: trimmed_def toLowerCase_def hd_map last_map sp)
  then have "toLowerCase (trim (toLowerCase (trim a))) = toLowerCase (trim a)" for a
    by (simp add: trim_trimmed trimmed_trim)
  then show ?thesis by (auto simp: own_set_def own_list_def image_iff)
qed

lemma replyRecipients_own_list [simp]:
  "replyRecipients e (own_list own) = replyRecipients e own"
  by (simp add: replyRecipients_def)

text \<open>
  A reply never goes to one of your own addresses while anyone else is on the message:
  either no recipient is yours, or the reply goes to the sender alone because the sender
  and everyone it was addressed to is you. Nobody is addressed twice, and the reply has no
  recipient only when the message names nobody.
\<close>

theorem reply_not_to_self:
  "distinct (map toLowerCase (replyRecipients e own))
   \<and> (set (map toLowerCase (replyRecipients e own)) \<inter> own_set own = {}
      \<or> (replyRecipients e own = [addressOf (nullish (sender e) [])]
          \<and> set (map toLowerCase (addressOf (nullish (sender e) []) # header_addresses (receiver e)))
              \<subseteq> insert [] (own_set own)))
   \<and> (replyRecipients e own = [] \<longleftrightarrow> addressOf (nullish (sender e) []) = []
        \<and> set (map toLowerCase (header_addresses (receiver e))) \<subseteq> insert [] (own_set own))"
proof -
  define origin where "origin = addressOf (nullish (sender e) [])"
  define ok where "ok = (\<lambda>a. a \<noteq> [] \<and> toLowerCase a \<notin> own_set own)"
  obtain R seen where R: "filter_seen ok toLowerCase {} (header_addresses (receiver e)) = (R, seen)"
    by (cases "filter_seen ok toLowerCase {} (header_addresses (receiver e))")
  have r: "replyRecipients e own =
      (if origin \<noteq> [] \<and> toLowerCase origin \<notin> own_set own then [origin]
       else if R \<noteq> [] then R else if origin \<noteq> [] then [origin] else [])"
    using R by (simp add: replyRecipients_def Let_def origin_def ok_def)
  have s: "distinct (map toLowerCase R)" "\<And>a. a \<in> set R \<Longrightarrow> ok a" "seen = toLowerCase ` set R"
    using filter_seen_sound [OF R] by auto
  have none: "set (map toLowerCase (header_addresses (receiver e))) \<subseteq> insert [] (own_set own)"
    if "R = []"
    using filter_seen_complete [OF R] s(3) that by (fastforce simp: ok_def)
  have some: "\<not> set (map toLowerCase (header_addresses (receiver e))) \<subseteq> insert [] (own_set own)"
    if "R \<noteq> []"
  proof -
    from that obtain a where "a \<in> set R" by (cases R) auto
    then have "ok a" "a \<in> set (header_addresses (receiver e))"
      using filter_seen_sound [OF R] by auto
    then show ?thesis by (auto simp: ok_def)
  qed
  have "set (map toLowerCase R) \<inter> own_set own = {}" using s(2) by (auto simp: ok_def)
  with s(1) none some show ?thesis
    unfolding r origin_def [symmetric] by (cases "R = []") auto
qed

text \<open>
  Reply all addresses exactly the people on the message: when anyone but you is on it,
  To and Cc together hold every other address of the sender, To and Cc headers, each once,
  none of them yours, and To is not empty; otherwise it is a plain reply.
\<close>

theorem reply_all_exact:
  "case replyAllRecipients e own of (to, cc') \<Rightarrow>
     let others = filter (\<lambda>a. CHR ''@'' \<in> set a \<and> toLowerCase a \<notin> own_set own)
                    (addressOf (nullish (sender e) []) # header_addresses (receiver e)
                       @ header_addresses (cc e))
     in if others = [] then to = replyRecipients e own \<and> cc' = []
        else to \<noteq> [] \<and> distinct (map toLowerCase (to @ cc'))
             \<and> set (map toLowerCase (to @ cc')) = set (map toLowerCase others)
             \<and> set (to @ cc') \<subseteq> set others"
proof -
  define ok where "ok = (\<lambda>a. CHR ''@'' \<in> set a \<and> toLowerCase a \<notin> own_set own)"
  define T where "T = addressOf (nullish (sender e) []) # header_addresses (receiver e)"
  define C where "C = header_addresses (cc e)"
  obtain to seen where t: "filter_seen ok toLowerCase {} T = (to, seen)"
    by (cases "filter_seen ok toLowerCase {} T")
  obtain c seen' where c: "filter_seen ok toLowerCase seen C = (c, seen')"
    by (cases "filter_seen ok toLowerCase seen C")
  have r: "replyAllRecipients e own = (if to \<noteq> [] then (to, c)
      else if c \<noteq> [] then (c, []) else (replyRecipients e own, []))"
    using t c by (simp add: replyAllRecipients_def Let_def ok_def T_def C_def)
  have st: "distinct (map toLowerCase to)" "set to \<subseteq> {x \<in> set T. ok x}" "seen = toLowerCase ` set to"
    using filter_seen_sound [OF t] by auto
  have sc: "distinct (map toLowerCase c)" "set c \<subseteq> {x \<in> set C. ok x}"
    "toLowerCase ` set c \<inter> seen = {}" "seen' = seen \<union> toLowerCase ` set c"
    using filter_seen_sound [OF c] by auto
  have "toLowerCase x \<in> toLowerCase ` set (to @ c)" if "x \<in> set (T @ C)" "ok x" for x
    using filter_seen_complete [OF t] filter_seen_complete [OF c] that sc(4) st(3) by auto
  then have all: "toLowerCase ` set (filter ok (T @ C)) \<subseteq> toLowerCase ` set (to @ c)" by auto
  have sub: "set (to @ c) \<subseteq> set (filter ok (T @ C))" using st(2) sc(2) by auto
  have "to @ c = [] \<longleftrightarrow> filter ok (T @ C) = []"
  proof
    assume "to @ c = []"
    with all have "toLowerCase ` set (filter ok (T @ C)) = {}" by simp
    then show "filter ok (T @ C) = []" by simp
  qed (use sub in auto)
  moreover have "distinct (map toLowerCase (to @ c))" using st sc by auto
  moreover have "toLowerCase ` set (to @ c) = toLowerCase ` set (filter ok (T @ C))"
    using all sub by blast
  moreover have others: "filter (\<lambda>a. CHR 0x40 \<in> set a \<and> toLowerCase a \<notin> own_set own)
      (addressOf (nullish (sender e) []) # header_addresses (receiver e) @ header_addresses (cc e))
      = filter ok (T @ C)" by (simp add: ok_def T_def C_def)
  ultimately show ?thesis
    using sub unfolding Let_def others r
    by (cases "to = []"; cases "c = []") (simp_all add: image_Un, blast+)
qed

end
