(* ===== verification/Event_Layout.thy ===== *)
theory Event_Layout
  imports Js_String "HOL-Library.Product_Lexorder" "HOL-Library.Multiset"
begin

text \<open>
  The calendar's column layout (\<open>scheduler/eventLayout.ts\<close>): overlapping events of a day are
  put side by side. Times are minutes from midnight.
\<close>

section \<open>The layout\<close>

record event =
  ev_id :: int
  ev_start :: int
  ev_end :: int

type_synonym lane_assignment = "nat \<times> nat"

text \<open>\<open>sort((a, b) => a.start - b.start || b.end - a.end)\<close>.\<close>

definition sort_events :: "event list \<Rightarrow> event list" where
  "sort_events es = sort_key (\<lambda>e. (ev_start e, - ev_end e)) es"

text \<open>The walk that cuts the sorted list into clusters; \<open>None\<close> is the initial \<open>-Infinity\<close>.\<close>

fun cut_clusters :: "event list \<Rightarrow> int option \<Rightarrow> event list \<Rightarrow> event list list" where
  "cut_clusters cluster clusterEnd [] = (if length cluster > 0 then [cluster] else [])"
| "cut_clusters cluster clusterEnd (e # es) =
     (if (case clusterEnd of None \<Rightarrow> True | Some t \<Rightarrow> ev_start e \<ge> t)
      then (if length cluster > 0 then [cluster] else []) @ cut_clusters [e] (Some (ev_end e)) es
      else cut_clusters (cluster @ [e])
             (Some (max (the clusterEnd) (ev_end e))) es)"

text \<open>\<open>findIndex(endTime => endTime <= start)\<close>, with the length for \<open>-1\<close>.\<close>

definition free_lane :: "int \<Rightarrow> int list \<Rightarrow> nat" where
  "free_lane start lanes = length (takeWhile (\<lambda>endTime. \<not> endTime \<le> start) lanes)"

definition occupy :: "int list \<Rightarrow> event \<Rightarrow> int list" where
  "occupy lanes e =
     (let lane = free_lane (ev_start e) lanes
      in if lane = length lanes then lanes @ [ev_end e] else lanes[lane := ev_end e])"

fun place_events :: "int list \<Rightarrow> event list \<Rightarrow> (int \<times> nat) list \<times> int list" where
  "place_events lanes [] = ([], lanes)"
| "place_events lanes (e # es) =
     (case place_events (occupy lanes e) es of
        (ps, final) \<Rightarrow> ((ev_id e, free_lane (ev_start e) lanes) # ps, final))"

definition cluster_entries :: "event list \<Rightarrow> (int \<times> lane_assignment) list" where
  "cluster_entries c =
     (case place_events [] c of (ps, lanes) \<Rightarrow> map (\<lambda>(i, lane). (i, (lane, length lanes))) ps)"

text \<open>A later \<open>result.set\<close> of an id replaces an earlier one.\<close>

definition computeLanes :: "event list \<Rightarrow> int \<rightharpoonup> lane_assignment" where
  "computeLanes events =
     (if length events = 0 then Map.empty
      else map_of (rev (concat (map cluster_entries (cut_clusters [] None (sort_events events))))))"

section \<open>Clusters\<close>

definition overlap :: "event \<Rightarrow> event \<Rightarrow> bool" where
  "overlap a b \<longleftrightarrow> ev_start a < ev_end b \<and> ev_start b < ev_end a"

abbreviation starts_sorted :: "event list \<Rightarrow> bool" where
  "starts_sorted es \<equiv> sorted_wrt (\<lambda>a b. ev_start a \<le> ev_start b) es"

lemma sort_events_sorted: "starts_sorted (sort_events es)"
proof -
  have "sorted (map (\<lambda>e. (ev_start e, - ev_end e)) (sort_events es))"
    by (simp add: sort_events_def)
  then show ?thesis
    unfolding sorted_map by (rule sorted_wrt_mono_rel [rotated]) (auto simp: less_eq_prod_def)
qed

lemma set_sort_events [simp]: "set (sort_events es) = set es"
  by (simp add: sort_events_def)

lemma sort_events_distinct: "distinct (map ev_id (sort_events es)) = distinct (map ev_id es)"
proof -
  have "mset (map ev_id (sort_events es)) = mset (map ev_id es)" by (simp add: sort_events_def)
  then show ?thesis by (rule mset_eq_imp_distinct_iff)
qed

text \<open>Clusters cut the sorted list into pieces that end before the next begins.\<close>

lemma cut_clusters_ok:
  assumes "starts_sorted es" "case cend of None \<Rightarrow> cluster = [] | Some t \<Rightarrow> \<forall>x \<in> set cluster. ev_end x \<le> t"
  shows "concat (cut_clusters cluster cend es) = cluster @ es
    \<and> sorted_wrt (\<lambda>c d. \<forall>a \<in> set c. \<forall>b \<in> set d. ev_end a \<le> ev_start b) (cut_clusters cluster cend es)"
  using assms
proof (induction cluster cend es rule: cut_clusters.induct)
  case (2 cluster cend e es)
  show ?case
  proof (cases "case cend of None \<Rightarrow> True | Some t \<Rightarrow> ev_start e \<ge> t")
    case True
    have IH: "concat (cut_clusters [e] (Some (ev_end e)) es) = e # es
      \<and> sorted_wrt (\<lambda>c d. \<forall>a \<in> set c. \<forall>b \<in> set d. ev_end a \<le> ev_start b)
          (cut_clusters [e] (Some (ev_end e)) es)"
      using 2(1) [OF True] 2(3) by simp
    have "ev_end a \<le> ev_start b"
      if "a \<in> set cluster" "d \<in> set (cut_clusters [e] (Some (ev_end e)) es)" "b \<in> set d" for a b d
    proof -
      have "b \<in> set (concat (cut_clusters [e] (Some (ev_end e)) es))" using that(2,3) by auto
      then have "b \<in> set (e # es)" using IH by simp
      then have "ev_start e \<le> ev_start b" using 2(3) by auto
      moreover have "ev_end a \<le> ev_start e"
        using True 2(4) that(1) by (cases cend) auto
      ultimately show ?thesis by simp
    qed
    with IH True show ?thesis by auto
  next
    case False
    then obtain t where t: "cend = Some t" by (cases cend) auto
    with False 2(2) [OF False] 2(3,4) show ?thesis by (fastforce simp: le_max_iff_disj)
  qed
qed auto

section \<open>Lanes\<close>

lemma occupy_length: "length lanes \<le> length (occupy lanes e)"
  by (simp add: occupy_def Let_def)

lemma free_lane_le: "free_lane t lanes \<le> length lanes"
  by (simp add: free_lane_def length_takeWhile_le)

lemma free_lane_free: "free_lane t lanes < length lanes \<Longrightarrow> lanes ! free_lane t lanes \<le> t"
  unfolding free_lane_def using nth_length_takeWhile by fastforce

lemma free_lane_busy: "free_lane t lanes = length lanes \<Longrightarrow> x \<in> set lanes \<Longrightarrow> t < x"
  unfolding free_lane_def
  by (metis length_takeWhile_le nat_less_le not_less set_takeWhileD takeWhile_eq_take take_all_iff)

lemma occupy_nth:
  "occupy lanes e ! free_lane (ev_start e) lanes = ev_end e"
  "i < length lanes \<Longrightarrow> i \<noteq> free_lane (ev_start e) lanes \<Longrightarrow> occupy lanes e ! i = lanes ! i"
  "free_lane (ev_start e) lanes < length (occupy lanes e)"
  using free_lane_le [of "ev_start e" lanes]
  by (auto simp: occupy_def Let_def nth_append)

lemma place_ids: "place_events lanes es = (ps, final) \<Longrightarrow> map fst ps = map ev_id es"
  by (induction es arbitrary: lanes ps) (auto split: prod.splits)

lemma place_length: "place_events lanes es = (ps, final) \<Longrightarrow> length lanes \<le> length final"
  by (induction es arbitrary: lanes ps)
     (auto split: prod.splits intro: order_trans [OF occupy_length])

lemma place_bound: "place_events lanes es = (ps, final) \<Longrightarrow> p \<in> set ps \<Longrightarrow> snd p < length final"
proof (induction es arbitrary: lanes ps)
  case (Cons e es)
  from Cons.prems(1) obtain qs where q: "place_events (occupy lanes e) es = (qs, final)"
    "ps = (ev_id e, free_lane (ev_start e) lanes) # qs" by (auto split: prod.splits)
  have "free_lane (ev_start e) lanes < length final"
    using occupy_nth(3) place_length [OF q(1)] by (rule less_le_trans)
  with Cons.IH [OF q(1)] q(2) Cons.prems(2) show ?case by auto
qed simp

text \<open>An event never starts before the end of anything already in its lane.\<close>

lemma place_after:
  assumes "place_events lanes es = (ps, final)" "\<forall>e \<in> set es. ev_start e \<le> ev_end e"
    and "j < length es" "snd (ps ! j) < length lanes"
  shows "lanes ! snd (ps ! j) \<le> ev_start (es ! j)"
  using assms
proof (induction es arbitrary: lanes ps j)
  case (Cons e es)
  let ?l = "free_lane (ev_start e) lanes"
  from Cons.prems(1) obtain qs where q: "place_events (occupy lanes e) es = (qs, final)"
    "ps = (ev_id e, ?l) # qs" by (auto split: prod.splits)
  show ?case
  proof (cases j)
    case 0
    with Cons.prems(4) q(2) free_lane_free show ?thesis by simp
  next
    case (Suc k)
    let ?i = "snd (qs ! k)"
    have i: "?i < length lanes" using Cons.prems(4) Suc q(2) by simp
    have "occupy lanes e ! ?i \<le> ev_start (es ! k)"
      using Cons.IH [OF q(1), of k] Cons.prems(2,3) Suc i occupy_length [of lanes e] by simp
    moreover have "lanes ! ?i \<le> occupy lanes e ! ?i"
    proof (cases "?i = ?l")
      case True
      then have "lanes ! ?i \<le> ev_start e" using i free_lane_free by simp
      also have "\<dots> \<le> ev_end e" using Cons.prems(2) by simp
      finally show ?thesis using True occupy_nth(1) by simp
    qed (use i occupy_nth(2) in simp)
    ultimately show ?thesis using Suc q(2) by simp
  qed
qed simp

lemma place_separate:
  assumes "place_events lanes es = (ps, final)" "\<forall>e \<in> set es. ev_start e \<le> ev_end e"
    and "i < j" "j < length es" "snd (ps ! i) = snd (ps ! j)"
  shows "ev_end (es ! i) \<le> ev_start (es ! j)"
  using assms
proof (induction es arbitrary: lanes ps i j)
  case (Cons e es)
  let ?l = "free_lane (ev_start e) lanes"
  from Cons.prems(1) obtain qs where q: "place_events (occupy lanes e) es = (qs, final)"
    "ps = (ev_id e, ?l) # qs" by (auto split: prod.splits)
  obtain k where j: "j = Suc k" using Cons.prems(3) by (cases j) auto
  show ?case
  proof (cases i)
    case 0
    then have "snd (qs ! k) = ?l" using Cons.prems(5) j q(2) by simp
    then have "occupy lanes e ! ?l \<le> ev_start (es ! k)"
      using place_after [OF q(1), of k] Cons.prems(2,4) j occupy_nth(3) by simp
    then show ?thesis using 0 j occupy_nth(1) by simp
  next
    case (Suc i')
    then show ?thesis using Cons.IH [OF q(1), of i' k] Cons.prems(2-5) j q(2) by simp
  qed
qed simp

text \<open>
  A new lane is opened only when every lane is busy: then one event per lane, and the new
  one, are running at its start.
\<close>

lemma place_busy:
  assumes "place_events (map ev_end G) es = (ps, final)" "starts_sorted es"
    and "distinct (G @ es)" "\<forall>g \<in> set G. \<forall>e \<in> set es. ev_start g \<le> ev_start e"
    and "\<forall>e \<in> set es. ev_start e < ev_end e"
  shows "length final = length G
    \<or> (\<exists>t S. distinct S \<and> length S = length final \<and> set S \<subseteq> set (G @ es)
         \<and> (\<forall>x \<in> set S. ev_start x \<le> t \<and> t < ev_end x))"
  using assms
proof (induction es arbitrary: G ps)
  case (Cons e es)
  let ?l = "free_lane (ev_start e) (map ev_end G)"
  from Cons.prems(1) obtain qs where q: "place_events (occupy (map ev_end G) e) es = (qs, final)"
    by (auto split: prod.splits)
  show ?case
  proof (cases "?l = length G")
    case True
    then have "occupy (map ev_end G) e = map ev_end (G @ [e])" by (simp add: occupy_def)
    moreover have "\<forall>g \<in> set (G @ [e]). \<forall>x \<in> set es. ev_start g \<le> ev_start x"
      using Cons.prems(2,4) by auto
    ultimately have "length final = length (G @ [e]) \<or> (\<exists>t S. distinct S \<and> length S = length final
        \<and> set S \<subseteq> set ((G @ [e]) @ es) \<and> (\<forall>x \<in> set S. ev_start x \<le> t \<and> t < ev_end x))"
      using q Cons.prems(2,3,5) by (intro Cons.IH) auto
    moreover have "ev_start x \<le> ev_start e \<and> ev_start e < ev_end x" if "x \<in> set (G @ [e])" for x
      using that Cons.prems(4,5) free_lane_busy [of "ev_start e" "map ev_end G"] True by auto
    moreover have "distinct (G @ [e])" "set (G @ [e]) \<subseteq> set (G @ e # es)" using Cons.prems(3) by auto
    ultimately show ?thesis by (metis append.assoc append_Cons append_Nil)
  next
    case False
    then have l: "?l < length G" using free_lane_le [of "ev_start e" "map ev_end G"] by simp
    then have "occupy (map ev_end G) e = map ev_end (G[?l := e])"
      by (simp add: occupy_def Let_def map_update)
    moreover have sub: "set (G[?l := e]) \<subseteq> insert e (set G)" by (rule set_update_subset_insert)
    moreover have "distinct (G[?l := e] @ es)"
      using Cons.prems(3) sub by (auto intro: distinct_list_update)
    moreover have "\<forall>g \<in> set (G[?l := e]). \<forall>x \<in> set es. ev_start g \<le> ev_start x"
      using Cons.prems(2,4) sub by auto
    ultimately have "length final = length (G[?l := e]) \<or> (\<exists>t S. distinct S \<and> length S = length final
        \<and> set S \<subseteq> set (G[?l := e] @ es) \<and> (\<forall>x \<in> set S. ev_start x \<le> t \<and> t < ev_end x))"
      using q Cons.prems(2,5) by (intro Cons.IH) auto
    moreover have "set (G[?l := e] @ es) \<subseteq> set (G @ e # es)" using sub by auto
    ultimately show ?thesis by (metis length_list_update subset_trans)
  qed
qed auto

section \<open>From the placements to the result\<close>

lemma map_of_rev_distinct:
  "distinct (map fst xs) \<Longrightarrow> map_of (rev xs) k = Some v \<longleftrightarrow> (k, v) \<in> set xs"
  using map_of_eq_Some_iff [of "rev xs" k v] by (simp add: rev_map [symmetric])

lemma cluster_ids: "map fst (cluster_entries c) = map ev_id c"
  using place_ids [of "[]" c] by (auto simp: cluster_entries_def comp_def split: prod.split)
    (metis (no_types, lifting) case_prod_unfold comp_apply fst_conv map_eq_conv)

text \<open>Every event is in one cluster, whose entry is its result.\<close>

lemma computeLanes_entry:
  assumes "distinct (map ev_id events)"
  obtains cs where "cs = cut_clusters [] None (sort_events events)" "concat cs = sort_events events"
    "sorted_wrt (\<lambda>c d. \<forall>a \<in> set c. \<forall>b \<in> set d. ev_end a \<le> ev_start b) cs"
    "\<And>i v. computeLanes events i = Some v \<longleftrightarrow> (\<exists>c \<in> set cs. (i, v) \<in> set (cluster_entries c))"
proof -
  define cs where "cs = cut_clusters [] None (sort_events events)"
  have ok: "concat cs = sort_events events"
    "sorted_wrt (\<lambda>c d. \<forall>a \<in> set c. \<forall>b \<in> set d. ev_end a \<le> ev_start b) cs"
    using cut_clusters_ok [where cend = None and cluster = "[]", OF sort_events_sorted, of events] by (simp_all add: cs_def)
  have "map fst (concat (map cluster_entries cs)) = map ev_id (concat cs)"
    by (simp add: map_concat comp_def cluster_ids)
  then have d: "distinct (map fst (concat (map cluster_entries cs)))"
    using assms ok(1) by (simp add: sort_events_distinct)
  have "computeLanes events i = Some v \<longleftrightarrow> (\<exists>c \<in> set cs. (i, v) \<in> set (cluster_entries c))" for i v
  proof (cases "events = []")
    case True
    then show ?thesis by (simp add: computeLanes_def cs_def sort_events_def)
  next
    case False
    then show ?thesis
      using map_of_rev_distinct [OF d, of i v] by (simp add: computeLanes_def cs_def)
  qed
  with ok that cs_def show thesis by blast
qed

text \<open>The entry of the event at a position of a cluster.\<close>

lemma cluster_entry_nth:
  assumes "place_events [] c = (ps, lanes)" "j < length c"
  shows "(ev_id (c ! j), (snd (ps ! j), length lanes)) \<in> set (cluster_entries c)"
    and "snd (ps ! j) < length lanes"
proof -
  have len: "length ps = length c" using place_ids [OF assms(1)] by (metis length_map)
  have "fst (ps ! j) = ev_id (c ! j)"
    using place_ids [OF assms(1)] assms(2) len by (metis nth_map)
  then have "(ev_id (c ! j), (snd (ps ! j), length lanes)) = (\<lambda>(i, lane). (i, (lane, length lanes))) (ps ! j)"
    by (simp add: split_beta)
  with assms len show "(ev_id (c ! j), (snd (ps ! j), length lanes)) \<in> set (cluster_entries c)"
    by (auto simp: cluster_entries_def)
  show "snd (ps ! j) < length lanes" using place_bound [OF assms(1)] assms(2) len by simp
qed

text \<open>
  Overlapping events of a day never share a column: they are assigned different lanes
  of the same cluster, each lane number below the cluster's column count.
\<close>

theorem overlapping_events_side_by_side:
  assumes "distinct (map ev_id events)" "\<forall>e \<in> set events. ev_start e \<le> ev_end e"
    and "a \<in> set events" "b \<in> set events" "a \<noteq> b" "overlap a b"
  shows "\<exists>la lb n. computeLanes events (ev_id a) = Some (la, n) \<and> computeLanes events (ev_id b) = Some (lb, n)
    \<and> la \<noteq> lb \<and> la < n \<and> lb < n"
proof -
  obtain cs where cs: "concat cs = sort_events events"
    "sorted_wrt (\<lambda>c d. \<forall>a \<in> set c. \<forall>b \<in> set d. ev_end a \<le> ev_start b) cs"
    "\<And>i v. computeLanes events i = Some v \<longleftrightarrow> (\<exists>c \<in> set cs. (i, v) \<in> set (cluster_entries c))"
    using assms(1) by (rule computeLanes_entry) blast
  have set_cs: "(\<Union>c \<in> set cs. set c) = set events"
    using arg_cong [OF cs(1), of set] by simp
  then obtain m n where mn: "m < length cs" "a \<in> set (cs ! m)" "n < length cs" "b \<in> set (cs ! n)"
    using assms(3,4) by (metis UN_E in_set_conv_nth)
  have "\<not> m < n" "\<not> n < m"
    using cs(2) mn assms(6) by (auto simp: sorted_wrt_iff_nth_less overlap_def; fastforce)+
  then have c: "m = n" by simp
  define c where "c = cs ! m"
  have c_in: "c \<in> set cs" "a \<in> set c" "b \<in> set c" using mn \<open>m = n\<close> by (simp_all add: c_def)
  obtain i j where ij: "i < length c" "c ! i = a" "j < length c" "c ! j = b"
    using c_in by (metis in_set_conv_nth)
  obtain ps lanes where p: "place_events [] c = (ps, lanes)" by (cases "place_events [] c")
  have ok: "\<forall>e \<in> set c. ev_start e \<le> ev_end e" using assms(2) set_cs c_in(1) by blast
  have "snd (ps ! i) \<noteq> snd (ps ! j)"
  proof
    assume eq: "snd (ps ! i) = snd (ps ! j)"
    have "i \<noteq> j" using ij assms(5) by blast
    then consider "i < j" | "j < i" by linarith
    then show False
      using place_separate [OF p ok, of i j] place_separate [OF p ok, of j i] eq ij assms(6)
      by cases (auto simp: overlap_def)
  qed
  moreover have "computeLanes events (ev_id a) = Some (snd (ps ! i), length lanes)"
    "computeLanes events (ev_id b) = Some (snd (ps ! j), length lanes)"
    using cs(3) c_in(1) cluster_entry_nth(1) [OF p] ij by blast+
  ultimately show ?thesis using cluster_entry_nth(2) [OF p] ij(1,3) by blast
qed

text \<open>
  The layout uses as few columns as the day allows: every event is placed, and in its
  cluster as many events run at one common moment as the cluster has columns.
\<close>

theorem column_count_is_minimal:
  assumes "distinct (map ev_id events)" "\<forall>e \<in> set events. ev_start e < ev_end e" "a \<in> set events"
  shows "\<exists>lane n t S. computeLanes events (ev_id a) = Some (lane, n) \<and> lane < n
    \<and> S \<subseteq> set events \<and> card S = n \<and> (\<forall>x \<in> S. ev_start x \<le> t \<and> t < ev_end x)"
proof -
  obtain cs where cs: "concat cs = sort_events events"
    "\<And>i v. computeLanes events i = Some v \<longleftrightarrow> (\<exists>c \<in> set cs. (i, v) \<in> set (cluster_entries c))"
    using assms(1) by (rule computeLanes_entry) blast
  have set_cs: "(\<Union>c \<in> set cs. set c) = set events"
    using arg_cong [OF cs(1), of set] by simp
  then obtain c where c: "c \<in> set cs" "a \<in> set c" using assms(3) by blast
  then obtain j where j: "j < length c" "c ! j = a" by (metis in_set_conv_nth)
  obtain xs ys where "cs = xs @ c # ys" using c(1) by (meson split_list)
  then have sub: "sort_events events = concat xs @ c @ concat ys" using cs(1) by simp
  have "starts_sorted c"
    using sort_events_sorted [of events] unfolding sub by (simp add: sorted_wrt_append)
  moreover have dist: "distinct (sort_events events)"
    using assms(1) distinct_mapD [of ev_id "sort_events events"] by (simp add: sort_events_distinct)
  then have "distinct c" unfolding sub by simp
  moreover have "\<forall>e \<in> set c. ev_start e < ev_end e" using assms(2) set_cs c(1) by blast
  moreover obtain ps lanes where p: "place_events [] c = (ps, lanes)" by (cases "place_events [] c")
  ultimately obtain t S where S: "lanes = [] \<or> (distinct S \<and> length S = length lanes \<and> set S \<subseteq> set c
      \<and> (\<forall>x \<in> set S. ev_start x \<le> t \<and> t < ev_end x))"
    using place_busy [of "[]" c ps lanes] by auto
  have e: "computeLanes events (ev_id a) = Some (snd (ps ! j), length lanes)" "snd (ps ! j) < length lanes"
    using cs(2) c(1) cluster_entry_nth [OF p j(1)] j(2) by blast+
  then have "distinct S" "length S = length lanes" "set S \<subseteq> set events"
    "\<forall>x \<in> set S. ev_start x \<le> t \<and> t < ev_end x"
    using S set_cs c(1) by auto
  then show ?thesis using e by (metis distinct_card)
qed

definition demo_day :: "event list" where
  "demo_day = [\<lparr>ev_id = 1, ev_start = 540, ev_end = 600\<rparr>, \<lparr>ev_id = 2, ev_start = 570, ev_end = 630\<rparr>,
     \<lparr>ev_id = 3, ev_start = 600, ev_end = 660\<rparr>]"

theorem overlapping_events_side_by_side_witness:
  "\<exists>la lb n. computeLanes demo_day 1 = Some (la, n) \<and> computeLanes demo_day 2 = Some (lb, n)
    \<and> la \<noteq> lb \<and> la < n \<and> lb < n"
  using overlapping_events_side_by_side [of demo_day "\<lparr>ev_id = 1, ev_start = 540, ev_end = 600\<rparr>"
      "\<lparr>ev_id = 2, ev_start = 570, ev_end = 630\<rparr>"]
  by (simp add: demo_day_def overlap_def)

theorem column_count_is_minimal_witness:
  "\<exists>lane n t S. computeLanes demo_day 1 = Some (lane, n) \<and> lane < n
    \<and> S \<subseteq> set demo_day \<and> card S = n \<and> (\<forall>x \<in> S. ev_start x \<le> t \<and> t < ev_end x)"
  using column_count_is_minimal [of demo_day "\<lparr>ev_id = 1, ev_start = 540, ev_end = 600\<rparr>"]
  by (simp add: demo_day_def)

end
