(* ===== verification/Time_Input.thy ===== *)
theory Time_Input
  imports Js_String
begin

text \<open>
  Times of day in the calendar's pickers: \<open>scheduler/dateUtils.ts\<close>. Minutes are non-negative;
  \<open>Number\<close> is modelled on strings of digits (and blank ones, which it reads as zero).
\<close>

section \<open>Minutes and HH:MM\<close>

definition toTime :: "nat \<Rightarrow> string" where
  "toTime mins = pad2 (nat_str (mins div 60)) @ '':'' @ pad2 (nat_str (mins mod 60))"

text \<open>\<open>const [h, m] = time.split(":").map(Number)\<close>; \<open>None\<close> where the source has \<open>NaN\<close>.\<close>

definition number_of :: "string \<Rightarrow> nat option" where
  "number_of s =
     (let t = trim s in if list_all is_digit t then Some (nat_val t) else None)"

definition toMinutes :: "string \<Rightarrow> nat option" where
  "toMinutes time =
     (case split_on (CHR '':'') time of
        h # m # _ \<Rightarrow>
          (case (number_of h, number_of m) of
             (Some hn, Some mn) \<Rightarrow> Some (hn * 60 + mn)
           | _ \<Rightarrow> None)
      | _ \<Rightarrow> None)"

definition fromTime :: "string \<Rightarrow> nat option" where
  "fromTime time = toMinutes time"

definition addMinutesToTime :: "string \<Rightarrow> nat \<Rightarrow> string option" where
  "addMinutesToTime time minutes =
     map_option (\<lambda>t. toTime (min (t + minutes) (23 * 60 + 59))) (toMinutes time)"

section \<open>Typed times\<close>

text \<open>\<open>text.match(/(am|pm|a|p)$/)\<close>: the group, searched from the left.\<close>

definition meridiem_match :: "string \<Rightarrow> string option" where
  "meridiem_match text =
     (let n = length text in
      if n \<ge> 2 \<and> (drop (n - 2) text = ''am'' \<or> drop (n - 2) text = ''pm'') then Some (drop (n - 2) text)
      else if n \<ge> 1 \<and> (drop (n - 1) text = ''a'' \<or> drop (n - 1) text = ''p'')
      then Some (drop (n - 1) text) else None)"

definition digits_between :: "nat \<Rightarrow> nat \<Rightarrow> string \<Rightarrow> bool" where
  "digits_between lo hi s \<longleftrightarrow> lo \<le> length s \<and> length s \<le> hi \<and> list_all is_digit s"

text \<open>The hours and minutes a text without its meridiem names.\<close>

definition clock_fields :: "string \<Rightarrow> (nat \<times> nat) option" where
  "clock_fields digits =
     (if CHR '':'' \<in> set digits then
        (case split_on (CHR '':'') digits of
           h # m # _ \<Rightarrow>
             if \<not> digits_between 1 2 h \<or> \<not> digits_between 1 2 m then None
             else Some (nat_val h, nat_val m)
         | _ \<Rightarrow> None)
      else if digits_between 1 2 digits then Some (nat_val digits, 0)
      else if digits_between 3 4 digits
      then Some (nat_val (take (length digits - 2) digits), nat_val (drop (length digits - 2) digits))
      else None)"

text \<open>The hour of the day, when the clock reading has one.\<close>

definition clock_hour :: "string option \<Rightarrow> nat \<Rightarrow> nat option" where
  "clock_hour meridiem hours =
     (case meridiem of
        Some m \<Rightarrow>
          if hours < 1 \<or> hours > 12 then None
          else (let h = (hours mod 12) + (if hd m = CHR ''p'' then 12 else 0)
                in if h > 23 then None else Some h)
      | None \<Rightarrow> if hours > 23 then None else Some hours)"

definition parseTimeInput :: "string \<Rightarrow> string option" where
  "parseTimeInput raw =
     (let text = filter (\<lambda>c. c \<noteq> CHR ''.'') (toLowerCase (trim raw)) in
      if text = [] then None
      else
        (let meridiem = meridiem_match text;
             digits = trim (case meridiem of
                              Some m \<Rightarrow> take (length text - length m) text | None \<Rightarrow> text)
         in case clock_fields digits of
              None \<Rightarrow> None
            | Some (hours, minutes) \<Rightarrow>
                if minutes > 59 then None
                else map_option (\<lambda>h. toTime (h * 60 + minutes)) (clock_hour meridiem hours)))"

section \<open>Facts\<close>

text \<open>The four digits and the colon of a time of day.\<close>

lemma toTime_chars:
  "t < 1440 \<Longrightarrow> toTime t = [digit (t div 60 div 10), digit (t div 60 mod 10), CHR '':'',
     digit (t mod 60 div 10), digit (t mod 60 mod 10)]"
  by (simp add: toTime_def pad2_two)

lemma digit_not_colon: "is_digit c \<Longrightarrow> c \<noteq> CHR '':''"
  by (auto simp: is_digit_def code_def)

lemma is_digit_plain: "is_digit c \<Longrightarrow> \<not> js_space c \<and> lower_char c = c \<and> c \<noteq> CHR ''.'' \<and> c \<noteq> CHR '':''
    \<and> c \<noteq> CHR ''a'' \<and> c \<noteq> CHR ''p'' \<and> c \<noteq> CHR ''m''"
  by (auto simp: is_digit_def js_space_def lower_char_def code_def)

lemma split_two_digits:
  assumes "is_digit a" "is_digit b" "is_digit c" "is_digit d"
  shows "split_on (CHR '':'') [a, b, CHR '':'', c, d] = [[a, b], [c, d]]"
  using assms by (auto dest: is_digit_plain)

lemma two_digit_val: "a < 10 \<Longrightarrow> b < 10 \<Longrightarrow> nat_val [digit a, digit b] = 10 * a + b"
  by (simp add: nat_val_def)

lemma toMinutes_toTime: "t < 1440 \<Longrightarrow> toMinutes (toTime t) = Some t"
proof -
  assume t: "t < 1440"
  let ?h = "[digit (t div 60 div 10), digit (t div 60 mod 10)]"
  let ?m = "[digit (t mod 60 div 10), digit (t mod 60 mod 10)]"
  have d: "t div 60 div 10 < 10" "t mod 60 div 10 < 10" using t by linarith+
  have "split_on (CHR '':'') (toTime t) = [?h, ?m]"
    using t d by (simp only: toTime_chars) (rule split_two_digits; simp)
  moreover have "trim ?h = ?h" "trim ?m = ?m" using d by (auto intro!: trim_trimmed simp: trimmed_def)
  moreover have "nat_val ?h = t div 60" "nat_val ?m = t mod 60"
    using d by (simp_all only: two_digit_val mod_less_divisor) simp_all
  ultimately show ?thesis
    using d by (simp add: toMinutes_def number_of_def Let_def)
qed

text \<open>
  Minutes of the day and their HH:MM text are two forms of the same thing: reading a
  printed time gives the minutes back, adding minutes never leaves the day, and typing a
  printed time into a picker gives that time.
\<close>

theorem time_roundtrip:
  assumes "t < 1440"
  shows "toMinutes (toTime t) = Some t
    \<and> (\<exists>u < 1440. addMinutesToTime (toTime t) n = Some (toTime u) \<and> t \<le> u \<and> u \<le> t + n)
    \<and> parseTimeInput (toTime t) = Some (toTime t)"
proof (intro conjI)
  show m: "toMinutes (toTime t) = Some t" using assms by (rule toMinutes_toTime)
  have "addMinutesToTime (toTime t) n = Some (toTime (min (t + n) 1439))"
    by (simp add: addMinutesToTime_def m)
  then show "\<exists>u < 1440. addMinutesToTime (toTime t) n = Some (toTime u) \<and> t \<le> u \<and> u \<le> t + n"
    using assms by (intro exI [of _ "min (t + n) 1439"]) auto
  let ?h = "[digit (t div 60 div 10), digit (t div 60 mod 10)]"
  let ?m = "[digit (t mod 60 div 10), digit (t mod 60 mod 10)]"
  have d: "t div 60 div 10 < 10" "t mod 60 div 10 < 10" using assms by linarith+
  have ds: "is_digit (digit k)" if "k < 10" for k using that by simp
  have colon: "\<not> js_space (CHR '':'')" "lower_char (CHR '':'') = CHR '':''"
    by (simp_all add: js_space_def code_def lower_char_def)
  have printed: "filter (\<lambda>c. c \<noteq> CHR ''.'') (toLowerCase (trim (toTime t))) = toTime t"
    using d colon ds [THEN is_digit_plain] assms
    by (simp add: toTime_chars trim_trimmed trimmed_def toLowerCase_def)
  have "meridiem_match (toTime t) = None"
    using d ds [THEN is_digit_plain] assms by (simp add: toTime_chars meridiem_match_def Let_def)
  moreover have "trim (toTime t) = toTime t"
    using d assms by (intro trim_trimmed) (simp add: toTime_chars trimmed_def)
  moreover have "clock_fields (toTime t) = Some (t div 60, t mod 60)"
  proof -
    have "split_on (CHR '':'') (toTime t) = [?h, ?m]"
      using assms d by (simp only: toTime_chars) (rule split_two_digits; simp)
    moreover have "CHR '':'' \<in> set (toTime t)" using assms by (simp add: toTime_chars)
    moreover have "nat_val ?h = t div 60" "nat_val ?m = t mod 60"
      using d by (simp_all only: two_digit_val mod_less_divisor) simp_all
    ultimately show ?thesis using d by (simp add: clock_fields_def digits_between_def)
  qed
  moreover have "toTime t \<noteq> []" using assms by (simp add: toTime_chars)
  moreover have "clock_hour None (t div 60) = Some (t div 60)" using assms by (auto simp: clock_hour_def)
  moreover have "\<not> t mod 60 > 59" using mod_less_divisor [of 60 t] by simp
  ultimately show "parseTimeInput (toTime t) = Some (toTime t)"
    unfolding parseTimeInput_def Let_def printed by simp
qed

theorem time_roundtrip_witness: "parseTimeInput (toTime 1267) = Some (toTime 1267)"
proof -
  have "(1267::nat) < 1440" by simp
  from time_roundtrip [OF this] show ?thesis by blast
qed

lemma clock_hour_bound: "clock_hour m hours = Some h \<Longrightarrow> h < 24"
  by (auto simp: clock_hour_def Let_def split: option.splits if_splits)

text \<open>
  Whatever is typed, the picker either refuses it or produces a time of day: a text
  HH:MM with an hour below 24 and a minute below 60, which a day's minutes print to.
\<close>

theorem typed_time_is_a_time:
  "case parseTimeInput raw of
     None \<Rightarrow> True
   | Some s \<Rightarrow> \<exists>h m. h < 24 \<and> m < 60 \<and> s = pad2 (nat_str h) @ '':'' @ pad2 (nat_str m)
       \<and> toMinutes s = Some (h * 60 + m) \<and> length s = 5"
proof (cases "parseTimeInput raw")
  case (Some s)
  have "\<exists>mer hours minutes h. clock_hour mer hours = Some h \<and> \<not> minutes > 59
      \<and> s = toTime (h * 60 + minutes)"
    using Some unfolding parseTimeInput_def Let_def
    by (simp split: if_split_asm option.split_asm prod.split_asm) blast+
  then obtain mer hours m h where "clock_hour mer hours = Some h" "\<not> m > 59" "s = toTime (h * 60 + m)"
    by blast
  then have "h < 24 \<and> m < 60 \<and> s = toTime (h * 60 + m)" by (auto dest: clock_hour_bound)
  then have hm: "h < 24" "m < 60" "s = toTime (h * 60 + m)" by blast+
  then have t: "h * 60 + m < 1440" by linarith
  have "(h * 60 + m) div 60 = h" "(h * 60 + m) mod 60 = m" using hm(2) by simp_all
  then have "s = pad2 (nat_str h) @ '':'' @ pad2 (nat_str m)" using hm(3) by (simp add: toTime_def)
  moreover have "length s = 5" using hm(3) t by (simp add: toTime_chars)
  ultimately show ?thesis using Some hm toMinutes_toTime [OF t] by auto
qed simp

end
