(* ===== verification/Json.thy ===== *)
theory Json
  imports Js_String
begin

text \<open>
  \<open>JSON.stringify\<close> and \<open>JSON.parse\<close> of the language's standard library, on values whose text is
  within Latin-1. A number keeps its literal text; the model never computes with fractions.
  The parser carries fuel; twice the length of the text is always enough.
\<close>

section \<open>Values and printing\<close>

datatype json =
    JNull
  | JBool bool
  | JNum string
  | JStr string
  | JArr "json list"
  | JObj "(string \<times> json) list"

definition hex_digit :: "nat \<Rightarrow> char" where
  "hex_digit n = (if n < 10 then digit n else char_of (87 + n))"

definition escape_char :: "char \<Rightarrow> string" where
  "escape_char c =
     (if c = CHR 0x22 then [CHR 0x5C, CHR 0x22]
      else if c = CHR 0x5C then [CHR 0x5C, CHR 0x5C]
      else if code c = 8 then [CHR 0x5C, CHR ''b'']
      else if code c = 9 then [CHR 0x5C, CHR ''t'']
      else if code c = 10 then [CHR 0x5C, CHR ''n'']
      else if code c = 12 then [CHR 0x5C, CHR ''f'']
      else if code c = 13 then [CHR 0x5C, CHR ''r'']
      else if code c < 32
      then [CHR 0x5C, CHR ''u'', CHR ''0'', CHR ''0'', hex_digit (code c div 16), hex_digit (code c mod 16)]
      else [c])"

definition quote :: "string \<Rightarrow> string" where
  "quote s = CHR 0x22 # concat (map escape_char s) @ [CHR 0x22]"

fun stringify :: "json \<Rightarrow> string"
  and stringify_elems :: "json list \<Rightarrow> string"
  and stringify_members :: "(string \<times> json) list \<Rightarrow> string" where
  "stringify JNull = ''null''"
| "stringify (JBool b) = (if b then ''true'' else ''false'')"
| "stringify (JNum t) = t"
| "stringify (JStr s) = quote s"
| "stringify (JArr vs) = CHR ''['' # stringify_elems vs"
| "stringify (JObj ms) = CHR ''{'' # stringify_members ms"
| "stringify_elems [] = '']''"
| "stringify_elems [v] = stringify v @ '']''"
| "stringify_elems (v # w # vs) = stringify v @ CHR '','' # stringify_elems (w # vs)"
| "stringify_members [] = ''}''"
| "stringify_members [(k, v)] = quote k @ CHR '':'' # stringify v @ ''}''"
| "stringify_members ((k, v) # m # ms) =
     quote k @ CHR '':'' # stringify v @ CHR '','' # stringify_members (m # ms)"

section \<open>Parsing\<close>

definition json_ws :: "char \<Rightarrow> bool" where
  "json_ws c \<longleftrightarrow> code c = 32 \<or> code c = 9 \<or> code c = 10 \<or> code c = 13"

definition skip_ws :: "string \<Rightarrow> string" where
  "skip_ws s = dropWhile json_ws s"

definition hex_val :: "char \<Rightarrow> nat option" where
  "hex_val c =
     (if is_digit c then Some (digit_val c)
      else if 97 \<le> code c \<and> code c \<le> 102 then Some (code c - 87)
      else if 65 \<le> code c \<and> code c \<le> 70 then Some (code c - 55) else None)"

definition hex4 :: "char \<Rightarrow> char \<Rightarrow> char \<Rightarrow> char \<Rightarrow> char option" where
  "hex4 a b c d =
     (case (hex_val a, hex_val b, hex_val c, hex_val d) of
        (Some 0, Some 0, Some x, Some y) \<Rightarrow> Some (char_of (16 * x + y))
      | _ \<Rightarrow> None)"

definition simple_escape :: "char \<Rightarrow> char option" where
  "simple_escape e =
     (if e = CHR 0x22 \<or> e = CHR 0x5C \<or> e = CHR ''/'' then Some e
      else if e = CHR ''b'' then Some (char_of (8::nat))
      else if e = CHR ''t'' then Some (char_of (9::nat))
      else if e = CHR ''n'' then Some (char_of (10::nat))
      else if e = CHR ''f'' then Some (char_of (12::nat))
      else if e = CHR ''r'' then Some (char_of (13::nat)) else None)"

text \<open>One character of a string literal, escapes resolved, and the text after it.\<close>

definition next_char :: "string \<Rightarrow> (char \<times> string) option" where
  "next_char s =
     (case s of
        [] \<Rightarrow> None
      | c # t \<Rightarrow>
          if c = CHR 0x5C then
            (case t of
               [] \<Rightarrow> None
             | e # u \<Rightarrow>
                 if e = CHR ''u'' then
                   (case u of
                      p # q # x # y # r \<Rightarrow> map_option (\<lambda>v. (v, r)) (hex4 p q x y)
                    | _ \<Rightarrow> None)
                 else map_option (\<lambda>v. (v, u)) (simple_escape e))
          else if code c < 32 then None
          else Some (c, t))"

lemma next_char_shorter: "next_char s = Some (c, r) \<Longrightarrow> length r < length s"
  by (auto simp: next_char_def split: list.splits if_splits)

function parse_chars :: "string \<Rightarrow> (string \<times> string) option" where
  "parse_chars s =
     (case s of
        [] \<Rightarrow> None
      | c # t \<Rightarrow>
          if c = CHR 0x22 then Some ([], t)
          else (case next_char s of
                  None \<Rightarrow> None
                | Some (d, r) \<Rightarrow> map_option (\<lambda>(cs, u). (d # cs, u)) (parse_chars r)))"
  by pat_completeness auto
termination
  by (relation "measure length") (auto dest: next_char_shorter)

declare parse_chars.simps [simp del]

definition num_char :: "char \<Rightarrow> bool" where
  "num_char c \<longleftrightarrow> is_digit c \<or> c = CHR ''-'' \<or> c = CHR ''+'' \<or> c = CHR ''.'' \<or> c = CHR ''e'' \<or> c = CHR ''E''"

definition some_digits :: "string \<Rightarrow> bool" where
  "some_digits s \<longleftrightarrow> s \<noteq> [] \<and> list_all is_digit s"

definition valid_exp :: "string \<Rightarrow> bool" where
  "valid_exp s =
     (case s of [] \<Rightarrow> True
      | c # t \<Rightarrow> (c = CHR ''e'' \<or> c = CHR ''E'')
          \<and> some_digits (case t of d # u \<Rightarrow> if d = CHR ''+'' \<or> d = CHR ''-'' then u else t | [] \<Rightarrow> []))"

definition valid_frac :: "string \<Rightarrow> bool" where
  "valid_frac s =
     (case s of [] \<Rightarrow> True
      | c # t \<Rightarrow>
          if c = CHR ''.'' then some_digits (takeWhile is_digit t) \<and> valid_exp (dropWhile is_digit t)
          else valid_exp s)"

definition valid_number :: "string \<Rightarrow> bool" where
  "valid_number s =
     (let u = (case s of c # t \<Rightarrow> if c = CHR ''-'' then t else s | [] \<Rightarrow> []);
          ip = takeWhile is_digit u
      in ip \<noteq> [] \<and> (hd ip = CHR ''0'' \<longrightarrow> length ip = 1) \<and> valid_frac (dropWhile is_digit u))"

definition parse_number :: "string \<Rightarrow> (json \<times> string) option" where
  "parse_number s =
     (if valid_number (takeWhile num_char s)
      then Some (JNum (takeWhile num_char s), dropWhile num_char s) else None)"

definition expect :: "string \<Rightarrow> json \<Rightarrow> string \<Rightarrow> (json \<times> string) option" where
  "expect w v s = (if take (length w) s = w then Some (v, drop (length w) s) else None)"

fun parse_value :: "nat \<Rightarrow> string \<Rightarrow> (json \<times> string) option"
  and parse_elems :: "nat \<Rightarrow> string \<Rightarrow> (json list \<times> string) option"
  and parse_members :: "nat \<Rightarrow> string \<Rightarrow> ((string \<times> json) list \<times> string) option" where
  "parse_value 0 s = None"
| "parse_value (Suc n) s =
     (case skip_ws s of
        [] \<Rightarrow> None
      | c # t \<Rightarrow>
          if c = CHR ''n'' then expect ''null'' JNull (c # t)
          else if c = CHR ''t'' then expect ''true'' (JBool True) (c # t)
          else if c = CHR ''f'' then expect ''false'' (JBool False) (c # t)
          else if c = CHR 0x22 then map_option (\<lambda>(x, r). (JStr x, r)) (parse_chars t)
          else if c = CHR ''['' then
            (case skip_ws t of
               [] \<Rightarrow> None
             | d # r \<Rightarrow> if d = CHR '']'' then Some (JArr [], r)
                 else map_option (\<lambda>(vs, r). (JArr vs, r)) (parse_elems n t))
          else if c = CHR ''{'' then
            (case skip_ws t of
               [] \<Rightarrow> None
             | d # r \<Rightarrow> if d = CHR ''}'' then Some (JObj [], r)
                 else map_option (\<lambda>(ms, r). (JObj ms, r)) (parse_members n t))
          else parse_number (c # t))"
| "parse_elems 0 s = None"
| "parse_elems (Suc n) s =
     (case parse_value n s of
        None \<Rightarrow> None
      | Some (v, r) \<Rightarrow>
          (case skip_ws r of
             [] \<Rightarrow> None
           | d # u \<Rightarrow>
               if d = CHR '']'' then Some ([v], u)
               else if d = CHR '','' then map_option (\<lambda>(vs, x). (v # vs, x)) (parse_elems n u)
               else None))"
| "parse_members 0 s = None"
| "parse_members (Suc n) s =
     (case skip_ws s of
        [] \<Rightarrow> None
      | c # t \<Rightarrow>
          if c \<noteq> CHR 0x22 then None
          else (case parse_chars t of
                  None \<Rightarrow> None
                | Some (k, r) \<Rightarrow>
                    (case skip_ws r of
                       [] \<Rightarrow> None
                     | d # u \<Rightarrow>
                         if d \<noteq> CHR '':'' then None
                         else (case parse_value n u of
                                 None \<Rightarrow> None
                               | Some (v, x) \<Rightarrow>
                                   (case skip_ws x of
                                      [] \<Rightarrow> None
                                    | y # z \<Rightarrow>
                                        if y = CHR ''}'' then Some ([(k, v)], z)
                                        else if y = CHR '','' then
                                          map_option (\<lambda>(ms, w). ((k, v) # ms, w)) (parse_members n z)
                                        else None)))))"

definition json_parse :: "string \<Rightarrow> json result" where
  "json_parse s =
     (case parse_value (2 * length s + 2) s of
        Some (v, r) \<Rightarrow> if skip_ws r = [] then Ok v else Throw SyntaxError
      | None \<Rightarrow> Throw SyntaxError)"

text \<open>\<open>o.k\<close> on a parsed object: the last member of a name counts.\<close>

definition field :: "json \<Rightarrow> string \<Rightarrow> json option" where
  "field v k = (case v of JObj ms \<Rightarrow> map_of (rev ms) k | _ \<Rightarrow> None)"

section \<open>Strings\<close>

lemma hex_val_hex_digit: "n < 16 \<Longrightarrow> hex_val (hex_digit n) = Some n"
  by (auto simp: hex_val_def hex_digit_def is_digit_def digit_val_def)

lemma char_of_eq: "code c = k \<Longrightarrow> char_of k = c"
  by auto

lemma next_char_escape: "next_char (escape_char c @ s) = Some (c, s)"
proof -
  have "hex_val (CHR ''0'') = Some 0" by (simp add: hex_val_def is_digit_def digit_val_def code_def)
  moreover have "code c div 16 < 16" "code c mod 16 < 16" using code_less [of c] by linarith+
  ultimately have "hex4 (CHR ''0'') (CHR ''0'') (hex_digit (code c div 16)) (hex_digit (code c mod 16)) = Some c"
    by (simp add: hex4_def hex_val_hex_digit)
  then show ?thesis
    by (auto simp: escape_char_def next_char_def simple_escape_def char_of_eq)
qed

lemma escape_char_not_quote:
  obtains d t where "escape_char c = d # t" "d \<noteq> CHR 0x22"
  by (cases "escape_char c") (auto simp: escape_char_def split: if_splits)

lemma parse_chars_quote: "parse_chars (concat (map escape_char s) @ CHR 0x22 # r) = Some (s, r)"
proof (induction s)
  case Nil
  show ?case by (subst parse_chars.simps) simp
next
  case (Cons c s)
  obtain d t where d: "escape_char c = d # t" "d \<noteq> CHR 0x22" by (rule escape_char_not_quote)
  have "next_char (d # t @ concat (map escape_char s) @ CHR 0x22 # r)
      = Some (c, concat (map escape_char s) @ CHR 0x22 # r)"
    using next_char_escape [of c "concat (map escape_char s) @ CHR 0x22 # r"] d(1) by simp
  with Cons d show ?case by (subst parse_chars.simps) simp
qed

section \<open>Round trip\<close>

text \<open>A value whose numbers are number literals.\<close>

fun json_ok :: "json \<Rightarrow> bool" where
  "json_ok (JNum t) \<longleftrightarrow> valid_number t \<and> list_all num_char t"
| "json_ok (JArr vs) \<longleftrightarrow> (\<forall>v \<in> set vs. json_ok v)"
| "json_ok (JObj ms) \<longleftrightarrow> (\<forall>m \<in> set ms. json_ok (snd m))"
| "json_ok _ \<longleftrightarrow> True"

definition ends_number :: "string \<Rightarrow> bool" where
  "ends_number r \<longleftrightarrow> r = [] \<or> \<not> num_char (hd r)"

lemma skip_ws_nonspace: "s = [] \<or> \<not> json_ws (hd s) \<Longrightarrow> skip_ws s = s"
  by (simp add: skip_ws_def dropWhile_id)

lemma char_classes [simp]:
  "\<not> json_ws (CHR 0x22)" "\<not> json_ws (CHR ''['')" "\<not> json_ws (CHR ''{'')" "\<not> json_ws (CHR '']'')"
  "\<not> json_ws (CHR ''}'')" "\<not> json_ws (CHR '','')" "\<not> json_ws (CHR '':'')" "\<not> json_ws (CHR ''n'')"
  "\<not> json_ws (CHR ''t'')" "\<not> json_ws (CHR ''f'')"
  "\<not> num_char (CHR '','')" "\<not> num_char (CHR '']'')" "\<not> num_char (CHR ''}'')"
  by (simp_all add: json_ws_def num_char_def is_digit_def code_def)

lemma num_char_plain:
  "num_char c \<Longrightarrow> \<not> json_ws c \<and> c \<noteq> CHR 0x22 \<and> c \<noteq> CHR ''['' \<and> c \<noteq> CHR ''{'' \<and> c \<noteq> CHR '']''
     \<and> c \<noteq> CHR ''}'' \<and> c \<noteq> CHR ''n'' \<and> c \<noteq> CHR ''t'' \<and> c \<noteq> CHR ''f''"
  by (auto simp: num_char_def is_digit_def json_ws_def code_def)

lemma valid_number_not_Nil: "valid_number t \<Longrightarrow> t \<noteq> []"
  by (auto simp: valid_number_def)

text \<open>A printed value starts with neither white space nor a closing bracket.\<close>

lemma stringify_head:
  assumes "json_ok v"
  obtains c t where "stringify v = c # t" "\<not> json_ws c" "c \<noteq> CHR '']''" "c \<noteq> CHR ''}''"
proof (cases v)
  case (JNum t)
  then have "t \<noteq> []" "list_all num_char t" using assms valid_number_not_Nil by auto
  then obtain c u where "t = c # u" "num_char c" by (cases t) auto
  with JNum that show thesis using num_char_plain [of c] by simp
next
  case (JBool b)
  with that show thesis by (cases b) auto
qed (use that in \<open>auto simp: quote_def\<close>)

lemma parse_value_number:
  assumes "valid_number t" "list_all num_char t" "ends_number r"
  shows "parse_value (Suc n) (t @ r) = Some (JNum t, r)"
proof -
  obtain c u where t: "t = c # u" using valid_number_not_Nil [OF assms(1)] by (cases t) auto
  have all: "\<forall>x \<in> set t. num_char x" using assms(2) by (simp add: list_all_iff)
  then have c: "num_char c" using t by simp
  have "takeWhile num_char (t @ r) = t" "dropWhile num_char (t @ r) = r"
    using all assms(3) by (auto simp: ends_number_def takeWhile_append2 dropWhile_append2 dropWhile_id)
      (cases r; simp)
  then have "parse_number (t @ r) = Some (JNum t, r)" using assms(1) by (simp add: parse_number_def)
  moreover have "skip_ws (t @ r) = t @ r" using c t num_char_plain by (intro skip_ws_nonspace) auto
  ultimately show ?thesis using c t num_char_plain [OF c] by simp
qed

lemma parse_quoted:
  "skip_ws (quote s @ r) = quote s @ r"
  "parse_chars (tl (quote s) @ r) = Some (s, r)"
  using parse_chars_quote [of s r] by (simp_all add: quote_def skip_ws_nonspace)

lemma stringify_parse:
  "json_ok v \<Longrightarrow> ends_number r \<Longrightarrow> 2 * length (stringify v) \<le> n \<Longrightarrow>
     parse_value n (stringify v @ r) = Some (v, r)"
  "\<forall>v \<in> set vs. json_ok v \<Longrightarrow> vs \<noteq> [] \<Longrightarrow> 2 * length (stringify_elems vs) \<le> n \<Longrightarrow>
     parse_elems n (stringify_elems vs @ r) = Some (vs, r)"
  "\<forall>m \<in> set ms. json_ok (snd m) \<Longrightarrow> ms \<noteq> [] \<Longrightarrow> 2 * length (stringify_members ms) \<le> n \<Longrightarrow>
     parse_members n (stringify_members ms @ r) = Some (ms, r)"
proof (induction v and vs and ms arbitrary: n r and n r and n r
    rule: stringify_stringify_elems_stringify_members.induct)
  case 1
  then obtain m where "n = Suc m" by (cases n) auto
  then show ?case by (simp add: skip_ws_nonspace expect_def)
next
  case (2 b)
  then obtain m where "n = Suc m" by (cases n) (auto split: if_splits)
  then show ?case by (simp add: skip_ws_nonspace expect_def)
next
  case (3 t)
  then have "length t \<noteq> 0" using valid_number_not_Nil by auto
  then obtain m where "n = Suc m" using 3(3) by (cases n) auto
  with 3 show ?case using parse_value_number by simp
next
  case (4 s)
  then obtain m where "n = Suc m" by (cases n) (auto simp: quote_def)
  then show ?case using parse_quoted [of s r] by (simp add: quote_def)
next
  case (5 vs)
  then obtain m where m: "n = Suc m" "2 * length (stringify_elems vs) \<le> m" by (cases n) auto
  show ?case
  proof (cases vs)
    case Nil
    with m show ?thesis by (simp add: skip_ws_nonspace)
  next
    case (Cons v ws)
    then have "json_ok v" using 5(2) by simp
    then obtain c t where "stringify v = c # t" "\<not> json_ws c" "c \<noteq> CHR '']''"
      by (rule stringify_head)
    then obtain u where "stringify_elems vs = c # u" "\<not> json_ws c" "c \<noteq> CHR '']''"
      using Cons by (cases ws) auto
    moreover have "parse_elems m (stringify_elems vs @ r) = Some (vs, r)"
      using 5(1) [of m r] 5(2) m(2) Cons by auto
    ultimately show ?thesis using m(1) by (simp add: skip_ws_nonspace)
  qed
next
  case (6 ms)
  then obtain m where m: "n = Suc m" "2 * length (stringify_members ms) \<le> m" by (cases n) auto
  show ?case
  proof (cases ms)
    case Nil
    with m show ?thesis by (simp add: skip_ws_nonspace)
  next
    case (Cons p ps)
    then obtain u where "stringify_members ms = CHR 0x22 # u"
      by (cases p; cases ps) (auto simp: quote_def)
    moreover have "parse_members m (stringify_members ms @ r) = Some (ms, r)"
      using 6(1) [of m r] 6(2) m(2) Cons by auto
    ultimately show ?thesis using m(1) by (simp add: skip_ws_nonspace)
  qed
next
  case (8 v)
  then obtain m where m: "n = Suc m" "2 * length (stringify v) \<le> m" by (cases n) auto
  then have "parse_value m (stringify v @ CHR '']'' # r) = Some (v, CHR '']'' # r)"
    using 8 by (auto simp: ends_number_def)
  with m show ?case by (simp add: skip_ws_nonspace)
next
  case (9 v w vs)
  then obtain m where m: "n = Suc m" "2 * length (stringify v) \<le> m"
    "2 * length (stringify_elems (w # vs)) \<le> m" by (cases n) auto
  then have "parse_value m (stringify v @ CHR '','' # stringify_elems (w # vs) @ r)
      = Some (v, CHR '','' # stringify_elems (w # vs) @ r)"
    using 9 by (auto simp: ends_number_def)
  moreover have "parse_elems m (stringify_elems (w # vs) @ r) = Some (w # vs, r)"
    using 9 m by auto
  ultimately show ?case using m(1) by (simp add: skip_ws_nonspace)
next
  case (11 k v)
  then obtain m where m: "n = Suc m" "2 * length (stringify v) \<le> m" by (cases n) auto
  then have "parse_value m (stringify v @ CHR ''}'' # r) = Some (v, CHR ''}'' # r)"
    using 11 by (auto simp: ends_number_def)
  with m show ?case
    using parse_chars_quote [of k "CHR '':'' # stringify v @ CHR ''}'' # r"]
    by (simp add: skip_ws_nonspace quote_def)
next
  case (12 k v p ms)
  then obtain m where m: "n = Suc m" "2 * length (stringify v) \<le> m"
    "2 * length (stringify_members (p # ms)) \<le> m" by (cases n) auto
  then have "parse_value m (stringify v @ CHR '','' # stringify_members (p # ms) @ r)
      = Some (v, CHR '','' # stringify_members (p # ms) @ r)"
    using 12 by (auto simp: ends_number_def)
  moreover have "parse_members m (stringify_members (p # ms) @ r) = Some (p # ms, r)"
    using 12 m by auto
  ultimately show ?case
    using m(1) parse_chars_quote [of k "CHR '':'' # stringify v @ CHR '','' # stringify_members (p # ms) @ r"]
    by (simp add: skip_ws_nonspace quote_def)
qed auto

lemma json_roundtrip [codec_simps]: "json_ok v \<Longrightarrow> json_parse (stringify v) = Ok v"
  using stringify_parse(1) [of v "[]" "2 * length (stringify v) + 2"]
  by (simp add: json_parse_def ends_number_def skip_ws_def)

end
