(* ===== verification/Web_Crypto.thy ===== *)
theory Web_Crypto
  imports Json "HOL-Library.Word"
begin

text \<open>
  What the browser provides to the encryption code: \<open>crypto.subtle\<close>, \<open>TextEncoder\<close> and
  \<open>TextDecoder\<close>, \<open>btoa\<close> and \<open>atob\<close>. They are not the program's code, so they are a record of
  functions that every definition takes as an argument; \<open>webcrypto_ok\<close> states the documented
  behaviour the properties rely on, and \<open>demo_crypto\<close> is an instance that has it. A call that
  rejects is \<open>None\<close>. Random draws (keys and initialisation vectors) are arguments of the
  operations that draw them; the padding randomness of RSA-OAEP is fixed by the record.
\<close>

section \<open>Bytes\<close>

type_synonym byte = "8 word"
type_synonym bytes = "byte list"

text \<open>\<open>Array.from(bytes)\<close> in a JSON value, and \<open>new Uint8Array(value)\<close>.\<close>

definition json_of_nat :: "nat \<Rightarrow> json" where
  "json_of_nat n = JNum (nat_str n)"

definition json_of_bytes :: "bytes \<Rightarrow> json" where
  "json_of_bytes bs = JArr (map (\<lambda>b. json_of_nat (unat b)) bs)"

text \<open>An element that is not an integer literal counts as zero here.\<close>

definition to_uint8 :: "json \<Rightarrow> byte" where
  "to_uint8 v =
     (case v of
        JNum t \<Rightarrow>
          (case t of
             [] \<Rightarrow> 0
           | c # u \<Rightarrow>
               if list_all is_digit t then of_nat (nat_val t)
               else if c = CHR ''-'' \<and> u \<noteq> [] \<and> list_all is_digit u then - of_nat (nat_val u)
               else 0)
      | JBool True \<Rightarrow> 1
      | _ \<Rightarrow> 0)"

definition uint8_array :: "json \<Rightarrow> bytes" where
  "uint8_array v = (case v of JArr vs \<Rightarrow> map to_uint8 vs | _ \<Rightarrow> [])"

lemma nat_str_no_leading_zero: "hd (nat_str n) = CHR ''0'' \<Longrightarrow> nat_str n = ''0''"
proof (induction n rule: nat_str.induct)
  case (1 n)
  have z: "digit k = CHR ''0'' \<longleftrightarrow> k = 0" if "k < 10" for k
    using that code_digit [OF that] by (auto simp: code_def simp flip: code_inj)
  show ?case
  proof (cases "n < 10")
    case True
    then have "nat_str n = [digit n]" by (subst nat_str.simps) simp
    then show ?thesis using 1(2) by simp
  next
    case False
    have "nat_str n = nat_str (n div 10) @ [digit (n mod 10)]" using False by (subst nat_str.simps) simp
    with 1 False have "nat_str (n div 10) = ''0''" by simp
    then have "nat_val (nat_str (n div 10)) = 0" by (simp add: nat_val_def digit_val_def code_def)
    with False show ?thesis by simp
  qed
qed

lemma json_ok_nat [simp]: "json_ok (json_of_nat n)"
proof -
  have d: "list_all is_digit (nat_str n)" by (simp add: list_all_iff nat_str_digits)
  then have tw: "takeWhile is_digit (nat_str n) = nat_str n" "dropWhile is_digit (nat_str n) = []"
    by (simp_all add: list_all_iff)
  have "hd (nat_str n) \<noteq> CHR ''-''"
    using d by (cases "nat_str n") (auto simp: is_digit_def code_def)
  moreover have "list_all num_char (nat_str n)" using d by (auto simp: list_all_iff num_char_def)
  ultimately show ?thesis
    using tw nat_str_no_leading_zero [of n]
    by (cases "nat_str n") (auto simp: json_of_nat_def valid_number_def valid_frac_def Let_def)
qed

lemma json_ok_bytes [simp]: "json_ok (json_of_bytes bs)"
  by (simp add: json_of_bytes_def)

lemma to_uint8_nat: "to_uint8 (json_of_nat n) = of_nat n"
proof -
  have "list_all is_digit (nat_str n)" by (simp add: list_all_iff nat_str_digits)
  then have "to_uint8 (json_of_nat n) = of_nat (nat_val (nat_str n))"
    by (cases "nat_str n") (simp_all add: json_of_nat_def to_uint8_def)
  then show ?thesis by simp
qed

lemma uint8_array_bytes [codec_simps, simp]: "uint8_array (json_of_bytes bs) = bs"
  by (induction bs) (simp_all add: uint8_array_def json_of_bytes_def to_uint8_nat)

section \<open>The browser's cryptography\<close>

record ('aes, 'pub, 'priv) webcrypto =
  aes_encrypt :: "'aes \<Rightarrow> bytes \<Rightarrow> bytes \<Rightarrow> bytes"
  aes_decrypt :: "'aes \<Rightarrow> bytes \<Rightarrow> bytes \<Rightarrow> bytes option"
  export_raw :: "'aes \<Rightarrow> bytes"
  import_raw :: "bytes \<Rightarrow> 'aes option"
  rsa_encrypt :: "'pub \<Rightarrow> bytes \<Rightarrow> bytes option"
  rsa_decrypt :: "'priv \<Rightarrow> bytes \<Rightarrow> bytes option"
  import_spki :: "bytes \<Rightarrow> 'pub option"
  export_pkcs8 :: "'priv \<Rightarrow> bytes"
  import_pkcs8 :: "bytes \<Rightarrow> 'priv option"
  digest256 :: "bytes \<Rightarrow> bytes"
  derive_key :: "bytes \<Rightarrow> bytes \<Rightarrow> nat \<Rightarrow> 'aes"
  utf8_encode :: "string \<Rightarrow> bytes"
  utf8_decode :: "bytes \<Rightarrow> string"
  btoa :: "bytes \<Rightarrow> string"
  atob :: "string \<Rightarrow> bytes option"

definition subtle :: "'a option \<Rightarrow> 'a result" where
  "subtle v = (case v of None \<Rightarrow> Throw DomException | Some x \<Rightarrow> Ok x)"

lemma subtle_simps [simp]: "subtle None = Throw DomException" "subtle (Some x) = Ok x"
  by (simp_all add: subtle_def)

text \<open>
  AES-GCM decrypts exactly what its encryption under the same key and vector produced;
  exporting and importing a key gives the key; SHA-256 has 32 bytes; the text and base64
  coders are inverse to one another.
\<close>

definition webcrypto_ok :: "('aes, 'pub, 'priv) webcrypto \<Rightarrow> bool" where
  "webcrypto_ok wc \<longleftrightarrow>
     (\<forall>k iv c m. aes_decrypt wc k iv c = Some m \<longleftrightarrow> c = aes_encrypt wc k iv m)
     \<and> (\<forall>k. import_raw wc (export_raw wc k) = Some k)
     \<and> (\<forall>p. import_pkcs8 wc (export_pkcs8 wc p) = Some p)
     \<and> (\<forall>b. length (digest256 wc b) = 32)
     \<and> (\<forall>s. utf8_decode wc (utf8_encode wc s) = s)
     \<and> (\<forall>b. atob wc (btoa wc b) = Some b)"

lemma webcrypto_okD:
  assumes "webcrypto_ok wc"
  shows "aes_decrypt wc k iv (aes_encrypt wc k iv m) = Some m"
    and "aes_decrypt wc k iv c = Some m \<Longrightarrow> c = aes_encrypt wc k iv m"
    and "import_raw wc (export_raw wc k) = Some k"
    and "import_pkcs8 wc (export_pkcs8 wc p) = Some p"
    and "length (digest256 wc b) = 32"
    and "utf8_decode wc (utf8_encode wc s) = s"
    and "atob wc (btoa wc b) = Some b"
  using assms by (auto simp: webcrypto_ok_def)

text \<open>A private key opens what its public key wrapped; a public key can wrap a message key.\<close>

definition key_pair :: "('aes, 'pub, 'priv) webcrypto \<Rightarrow> 'pub \<Rightarrow> 'priv \<Rightarrow> bool" where
  "key_pair wc pub priv \<longleftrightarrow> (\<forall>m c. rsa_encrypt wc pub m = Some c \<longrightarrow> rsa_decrypt wc priv c = Some m)"

definition can_wrap :: "('aes, 'pub, 'priv) webcrypto \<Rightarrow> 'pub \<Rightarrow> bool" where
  "can_wrap wc pub \<longleftrightarrow>
     (\<forall>k. \<exists>c. rsa_encrypt wc pub (export_raw wc k) = Some c \<and> c \<noteq> [] \<and> length c \<le> 1024)"

lemma wrapD:
  assumes "can_wrap wc pub" "key_pair wc pub priv"
  obtains c where "rsa_encrypt wc pub (export_raw wc k) = Some c" "c \<noteq> []" "length c \<le> 1024"
    "rsa_decrypt wc priv c = Some (export_raw wc k)"
  using assms unfolding can_wrap_def key_pair_def by blast

section \<open>An instance\<close>

text \<open>
  A toy with byte-sized keys: a ciphertext is the key, the vector's length and the message, so
  it opens only under what sealed it; base64 prints each byte as one character.
\<close>

definition demo_crypto :: "(byte, byte, byte) webcrypto" where
  "demo_crypto = \<lparr>
     aes_encrypt = (\<lambda>k iv m. k # of_nat (length iv) # iv @ m),
     aes_decrypt = (\<lambda>k iv c. if take (2 + length iv) c = k # of_nat (length iv) # iv
                            then Some (drop (2 + length iv) c) else None),
     export_raw = (\<lambda>k. [k]), import_raw = (\<lambda>b. case b of [k] \<Rightarrow> Some k | _ \<Rightarrow> None),
     rsa_encrypt = (\<lambda>p m. if length m \<le> 100 then Some (p # m) else None),
     rsa_decrypt = (\<lambda>p c. case c of q # m \<Rightarrow> if q = p then Some m else None | [] \<Rightarrow> None),
     import_spki = (\<lambda>b. case b of [p] \<Rightarrow> Some p | _ \<Rightarrow> None),
     export_pkcs8 = (\<lambda>p. [p]), import_pkcs8 = (\<lambda>b. case b of [p] \<Rightarrow> Some p | _ \<Rightarrow> None),
     digest256 = (\<lambda>b. replicate 32 (sum_list b)),
     derive_key = (\<lambda>b salt n. sum_list b),
     utf8_encode = (\<lambda>s. map (\<lambda>c. of_nat (code c)) s),
     utf8_decode = (\<lambda>b. map (\<lambda>x. char_of (unat x)) b),
     btoa = (\<lambda>b. map (\<lambda>x. char_of (unat x)) b),
     atob = (\<lambda>s. Some (map (\<lambda>c. of_nat (code c)) s))\<rparr>"

lemma unat_byte_code [simp]: "unat (of_nat (code c) :: byte) = code c"
  using code_less [of c] by (simp add: unsigned_of_nat take_bit_nat_eq_self)

lemma code_char_of_unat [simp]: "of_nat (code (char_of (unat b))) = (b :: byte)"
proof -
  have "unat b < 256" using unsigned_less [of b] by simp
  then show ?thesis by simp
qed

lemma demo_crypto_ok: "webcrypto_ok demo_crypto"
proof -
  have "take (2 + length iv) c = k # of_nat (length iv) # iv \<and> drop (2 + length iv) c = m
      \<longleftrightarrow> c = k # of_nat (length iv) # iv @ m" for k :: byte and iv c m
  proof
    assume "take (2 + length iv) c = k # of_nat (length iv) # iv \<and> drop (2 + length iv) c = m"
    then have "(k # of_nat (length iv) # iv) @ m = c" by (metis append_take_drop_id)
    then show "c = k # of_nat (length iv) # iv @ m" by simp
  qed simp
  then show ?thesis
    by (simp add: webcrypto_ok_def demo_crypto_def comp_def) blast
qed

lemma demo_key_pair: "key_pair demo_crypto p p" "can_wrap demo_crypto p"
  by (auto simp: key_pair_def can_wrap_def demo_crypto_def split: if_splits)

end
