(* ===== verification/Key_Store.thy ===== *)
theory Key_Store
  imports Web_Crypto
begin

text \<open>
  The device's key store: \<open>crypto/keyStore.ts\<close>, over one IndexedDB object store (a map from
  slot names to bytes, which may fail to open; a transaction that fails afterwards is rolled back and
  rejected just as well, and is not told apart from that). Keys are kept under the user's id and, as a
  fallback for an id that changes, under the e-mail address.
\<close>

section \<open>Slots\<close>

record key_db =
  db_opens :: bool
  slots :: "string \<rightharpoonup> bytes"

text \<open>\<open>userId ? ... : ...\<close>: neither null nor zero.\<close>

definition given_id :: "nat option \<Rightarrow> bool" where
  "given_id u \<longleftrightarrow> u \<noteq> None \<and> u \<noteq> Some 0"

definition id_slot :: "string \<Rightarrow> nat option \<Rightarrow> string" where
  "id_slot name userId = (if given_id userId then name @ '':'' @ nat_str (the userId) else name)"

definition email_slot :: "string \<Rightarrow> string option \<Rightarrow> string option" where
  "email_slot name e =
     (if e \<noteq> None \<and> e \<noteq> Some [] then Some (name @ '':email:'' @ toLowerCase (the e)) else None)"

definition privateKeyId :: "nat option \<Rightarrow> string" where
  "privateKeyId userId = id_slot ''privateKey'' userId"

definition publicKeyId :: "nat option \<Rightarrow> string" where
  "publicKeyId userId = id_slot ''publicKey'' userId"

definition privateKeyEmailId :: "string option \<Rightarrow> string option" where
  "privateKeyEmailId e = email_slot ''privateKey'' e"

definition publicKeyEmailId :: "string option \<Rightarrow> string option" where
  "publicKeyEmailId e = email_slot ''publicKey'' e"

definition putAll :: "key_db \<Rightarrow> (string \<times> bytes) list \<Rightarrow> key_db" where
  "putAll db entries = db\<lparr>slots := foldl (\<lambda>m (k, v). m(k \<mapsto> v)) (slots db) entries\<rparr>"

definition getOne :: "key_db \<Rightarrow> string \<Rightarrow> bytes option" where
  "getOne db k = slots db k"

definition clearKeys :: "key_db \<Rightarrow> key_db" where
  "clearKeys db = (if db_opens db then db\<lparr>slots := Map.empty\<rparr> else db)"

section \<open>Saving and loading\<close>

definition slot_entries :: "string \<Rightarrow> string option \<Rightarrow> bytes \<Rightarrow> (string \<times> bytes) list" where
  "slot_entries primary emailKey v =
     (primary, v) # (case emailKey of Some k \<Rightarrow> [(k, v)] | None \<Rightarrow> [])"

definition savePrivateKey ::
  "('aes, 'pub, 'priv) webcrypto \<Rightarrow> 'priv \<Rightarrow> nat option \<Rightarrow> string option \<Rightarrow> key_db \<Rightarrow> key_db result"
where
  "savePrivateKey wc key userId e db =
     (if \<not> db_opens db then Throw DomException
      else Ok (putAll db (slot_entries (privateKeyId userId) (privateKeyEmailId e) (export_pkcs8 wc key))))"

definition savePublicKey :: "bytes \<Rightarrow> nat option \<Rightarrow> string option \<Rightarrow> key_db \<Rightarrow> key_db result" where
  "savePublicKey publicKey userId e db =
     (if \<not> db_opens db then Throw DomException
      else Ok (putAll db (slot_entries (publicKeyId userId) (publicKeyEmailId e) publicKey)))"

text \<open>
  The two loaders' common lookup: the id slot, then the alias, whose hit is written back
  under the id. The value found and the store afterwards.
\<close>

definition load_slot :: "string \<Rightarrow> string option \<Rightarrow> key_db \<Rightarrow> bytes option \<times> key_db" where
  "load_slot primary emailKey db =
     (case getOne db primary of
        Some v \<Rightarrow> (Some v, db)
      | None \<Rightarrow>
          (case emailKey of
             None \<Rightarrow> (None, db)
           | Some k \<Rightarrow>
               (case getOne db k of
                  None \<Rightarrow> (None, db)
                | Some v \<Rightarrow> (Some v, putAll db [(primary, v)]))))"

definition loadPrivateKey ::
  "('aes, 'pub, 'priv) webcrypto \<Rightarrow> nat option \<Rightarrow> string option \<Rightarrow> key_db \<Rightarrow> ('priv option \<times> key_db) result"
where
  "loadPrivateKey wc userId e db =
     (if \<not> db_opens db then Throw DomException
      else (case load_slot (privateKeyId userId) (privateKeyEmailId e) db of
              (None, db') \<Rightarrow> Ok (None, db')
            | (Some v, db') \<Rightarrow> bind_result (subtle (import_pkcs8 wc v)) (\<lambda>k. Ok (Some k, db'))))"

definition loadPublicKey :: "nat option \<Rightarrow> string option \<Rightarrow> key_db \<Rightarrow> (bytes option \<times> key_db) result"
where
  "loadPublicKey userId e db =
     (if \<not> db_opens db then Throw DomException
      else Ok (load_slot (publicKeyId userId) (publicKeyEmailId e) db))"

section \<open>The slot interface\<close>

lemma slots_entries:
  "slots (putAll db (slot_entries p e v)) k = (if k = p \<or> e = Some k then Some v else slots db k)"
  by (auto simp: putAll_def slot_entries_def split: option.split)

text \<open>
  What saving and loading rely on: ids and e-mail addresses name different slots, different
  ids different ones, and letter case in an address does not matter. The lemmas hold for
  either kind of key.
\<close>

locale key_slots =
  fixes slot_of_id :: "nat option \<Rightarrow> string" and slot_of_email :: "string option \<Rightarrow> string option"
  assumes id_inj: "given_id u \<Longrightarrow> slot_of_id u = slot_of_id v \<Longrightarrow> u = v"
    and id_not_email: "slot_of_email e \<noteq> Some (slot_of_id u)"
    and no_email: "slot_of_email None = None"
    and email_case: "toLowerCase a = toLowerCase b \<Longrightarrow> a \<noteq> [] \<Longrightarrow>
      slot_of_email (Some a) = slot_of_email (Some b) \<and> slot_of_email (Some a) \<noteq> None"
begin

abbreviation save :: "nat option \<Rightarrow> string option \<Rightarrow> bytes \<Rightarrow> key_db \<Rightarrow> key_db" where
  "save u e v db \<equiv> putAll db (slot_entries (slot_of_id u) (slot_of_email e) v)"

abbreviation load :: "nat option \<Rightarrow> string option \<Rightarrow> key_db \<Rightarrow> bytes option \<times> key_db" where
  "load u e db \<equiv> load_slot (slot_of_id u) (slot_of_email e) db"

lemma load_saved: "slots db (slot_of_id u) = Some v \<Longrightarrow> load u e db = (Some v, db)"
  by (simp add: load_slot_def getOne_def)

lemma load_by_id: "load u None db = (slots db (slot_of_id u), db)"
  by (simp add: load_slot_def getOne_def no_email split: option.split)

text \<open>Saving one user's key does not touch the slot of another id.\<close>

lemma other_user: "given_id u \<Longrightarrow> w \<noteq> u \<Longrightarrow> slots (save u e v db) (slot_of_id w) = slots db (slot_of_id w)"
  using id_inj [of u w] id_not_email by (simp add: slots_entries) metis

text \<open>A changed id finds the key through the address, and keeps it under the new id.\<close>

lemma renamed_user:
  assumes "a \<noteq> []" "toLowerCase a = toLowerCase b" "slots db (slot_of_id w) = None" "given_id u" "w \<noteq> u"
  shows "\<exists>db'. load w (Some b) (save u (Some a) v db) = (Some v, db') \<and> load w None db' = (Some v, db')"
proof -
  obtain k where k: "slot_of_email (Some b) = Some k" "slot_of_email (Some a) = Some k"
    using email_case [OF assms(2,1)] by (metis not_Some_eq)
  have "slots (save u (Some a) v db) (slot_of_id w) = None"
    using other_user [OF assms(4,5)] assms(3) by simp
  moreover have "slots (save u (Some a) v db) k = Some v" using k(2) by (simp add: slots_entries)
  ultimately have "load w (Some b) (save u (Some a) v db)
      = (Some v, putAll (save u (Some a) v db) [(slot_of_id w, v)])"
    using k(1) by (simp add: load_slot_def getOne_def)
  then show ?thesis by (simp add: load_by_id) (simp add: putAll_def)
qed

end

lemma colon_not_digit: "\<not> is_digit (CHR '':'')" "\<not> is_digit (CHR ''e'')"
  by (simp_all add: is_digit_def code_def)

lemma nat_str_inj: "nat_str m = nat_str n \<Longrightarrow> m = n"
  by (metis nat_val_nat_str)

lemma id_slot_inj:
  assumes "given_id u" "id_slot name u = id_slot name v"
  shows "u = v"
proof -
  have "given_id v" using assms by (auto simp: id_slot_def split: if_splits)
  with assms have "nat_str (the u) = nat_str (the v)" by (simp add: id_slot_def)
  then have "the u = the v" by (rule nat_str_inj)
  with assms(1) \<open>given_id v\<close> show ?thesis by (auto simp: given_id_def)
qed

lemma id_slot_not_email: "email_slot name e \<noteq> Some (id_slot name u)"
proof -
  have "nat_str n \<noteq> ''email:'' @ s" for n s
  proof
    assume "nat_str n = ''email:'' @ s"
    then have "CHR ''e'' \<in> set (nat_str n)" by simp
    then show False using nat_str_digits colon_not_digit(2) by blast
  qed
  then have "''email:'' @ s \<noteq> nat_str n" for n s by metis
  then show ?thesis by (auto simp: email_slot_def id_slot_def)
qed

lemma email_slot_case:
  "toLowerCase a = toLowerCase b \<Longrightarrow> a \<noteq> [] \<Longrightarrow>
   email_slot name (Some a) = email_slot name (Some b) \<and> email_slot name (Some a) \<noteq> None"
  by (auto simp: email_slot_def)

interpretation priv: key_slots privateKeyId privateKeyEmailId
  by unfold_locales
     (simp_all add: privateKeyId_def privateKeyEmailId_def id_slot_not_email email_slot_case,
      auto simp: email_slot_def dest: id_slot_inj)

interpretation pub: key_slots publicKeyId publicKeyEmailId
  by unfold_locales
     (simp_all add: publicKeyId_def publicKeyEmailId_def id_slot_not_email email_slot_case,
      auto simp: email_slot_def dest: id_slot_inj)

section \<open>Properties of the key store\<close>

lemma slot_kinds [simp]:
  "privateKeyId u \<noteq> publicKeyId v" "publicKeyId v \<noteq> privateKeyId u"
  "privateKeyEmailId e \<noteq> Some (publicKeyId v)" "publicKeyEmailId e \<noteq> Some (privateKeyId u)"
  by (auto simp: privateKeyId_def publicKeyId_def privateKeyEmailId_def publicKeyEmailId_def
      id_slot_def email_slot_def)

lemma loadPrivateKey_slot:
  assumes "db_opens db" "slots db (privateKeyId u) = Some (export_pkcs8 wc key)" "webcrypto_ok wc"
  shows "loadPrivateKey wc u e db = Ok (Some key, db)"
  using assms by (simp add: loadPrivateKey_def priv.load_saved webcrypto_okD(4))

text \<open>The store after both keys of a user were saved.\<close>

definition key_pair_saved :: "('aes, 'pub, 'priv) webcrypto \<Rightarrow> 'priv \<Rightarrow> bytes \<Rightarrow> nat option
    \<Rightarrow> string option \<Rightarrow> key_db \<Rightarrow> key_db \<Rightarrow> bool" where
  "key_pair_saved wc key pubBytes u e db db2 \<longleftrightarrow>
     bind_result (savePrivateKey wc key u e db) (savePublicKey pubBytes u e) = Ok db2"

lemma key_pair_saved_slots:
  assumes "key_pair_saved wc key pubBytes u e db db2"
  shows "db_opens db" "db_opens db2"
    and "slots db2 (privateKeyId u) = Some (export_pkcs8 wc key)"
    and "slots db2 (publicKeyId u) = Some pubBytes"
    and "given_id u \<Longrightarrow> w \<noteq> u \<Longrightarrow> slots db2 (privateKeyId w) = slots db (privateKeyId w)"
    and "given_id u \<Longrightarrow> w \<noteq> u \<Longrightarrow> slots db2 (publicKeyId w) = slots db (publicKeyId w)"
proof -
  define db1 where "db1 = putAll db (slot_entries (privateKeyId u) (privateKeyEmailId e) (export_pkcs8 wc key))"
  have o: "db_opens db" "db_opens db1" and
    db2: "db2 = putAll db1 (slot_entries (publicKeyId u) (publicKeyEmailId e) pubBytes)"
    using assms
    by (auto simp: key_pair_saved_def savePrivateKey_def savePublicKey_def db1_def split: if_splits)
  then show "db_opens db" "db_opens db2" by (simp_all add: putAll_def)
  show "slots db2 (privateKeyId u) = Some (export_pkcs8 wc key)" "slots db2 (publicKeyId u) = Some pubBytes"
    by (simp_all add: db2 db1_def slots_entries)
  assume g: "given_id u" "w \<noteq> u"
  show "slots db2 (privateKeyId w) = slots db (privateKeyId w)"
    using priv.other_user [OF g] by (simp add: db2 db1_def slots_entries)
  show "slots db2 (publicKeyId w) = slots db (publicKeyId w)"
    using pub.other_user [OF g] by (simp add: db2 db1_def slots_entries)
qed


definition demo_db :: key_db where
  "demo_db = \<lparr>db_opens = True, slots = Map.empty\<rparr>"

lemma demo_saved: "\<exists>db2. key_pair_saved demo_crypto 7 [7] (Some 3) (Some ''Ann@x.com'') demo_db db2"
  by (simp add: key_pair_saved_def savePrivateKey_def savePublicKey_def demo_db_def putAll_def)


text \<open>
  A user whose id changed still finds the private key through the e-mail address, in
  any letter case, and from then on under the new id alone, so no address is needed again.
\<close>

theorem renumbered_user_keeps_key:
  assumes "webcrypto_ok wc" "db_opens db" "savePrivateKey wc key u (Some a) db = Ok db1"
    and "a \<noteq> []" "toLowerCase a = toLowerCase b" "given_id u" "w \<noteq> u"
    and "slots db (privateKeyId w) = None"
  shows "\<exists>db2. loadPrivateKey wc w (Some b) db1 = Ok (Some key, db2)
    \<and> loadPrivateKey wc w None db2 = Ok (Some key, db2)"
proof -
  let ?v = "export_pkcs8 wc key"
  have db1: "db1 = putAll db (slot_entries (privateKeyId u) (privateKeyEmailId (Some a)) ?v)"
    using assms(2,3) by (simp add: savePrivateKey_def)
  then obtain db2 where l: "load_slot (privateKeyId w) (privateKeyEmailId (Some b)) db1 = (Some ?v, db2)"
    "load_slot (privateKeyId w) (privateKeyEmailId None) db2 = (Some ?v, db2)"
    using priv.renamed_user [OF assms(4,5,8,6,7)] by blast
  have "db_opens db1" using assms(2) by (simp add: db1 putAll_def)
  moreover from this have "db_opens db2"
    using l(1) by (auto simp: load_slot_def putAll_def split: option.splits)
  ultimately show ?thesis
    using l webcrypto_okD(4) [OF assms(1)] by (simp add: loadPrivateKey_def)
qed

theorem renumbered_user_keeps_key_witness:
  "\<exists>db1 db2. savePrivateKey demo_crypto 7 (Some 3) (Some ''Ann@x.com'') demo_db = Ok db1
    \<and> loadPrivateKey demo_crypto (Some 8) (Some ''ann@X.com'') db1 = Ok (Some 7, db2)"
proof -
  have opens: "db_opens demo_db" by (simp add: demo_db_def)
  then obtain db1 where s: "savePrivateKey demo_crypto 7 (Some 3) (Some ''Ann@x.com'') demo_db = Ok db1"
    by (simp add: savePrivateKey_def)
  have "toLowerCase ''Ann@x.com'' = toLowerCase ''ann@X.com''"
    by (simp add: toLowerCase_def lower_char_def char_of_eq_iff) (simp add: code_def)
  with s show ?thesis
    using renumbered_user_keeps_key [OF demo_crypto_ok opens s, of "''ann@X.com''" "Some 8"]
    by (auto simp: given_id_def demo_db_def)
qed

end
