(* ===== verification/File_Envelope.thy ===== *)
theory File_Envelope
  imports Key_Store
begin

text \<open>
  The binary envelope of encrypted files: \<open>crypto/fileEnvelope.ts\<close>. A read past the end of a
  \<open>Uint8Array\<close> is \<open>undefined\<close>, which counts as zero in a bit operation and makes a product
  \<open>NaN\<close>; the reader's behaviour on truncated headers is modelled with \<open>None\<close> for \<open>NaN\<close>.
\<close>

unbundle bit_operations_syntax

text \<open>Stands for the dash U+2014 of the messages, which is outside Latin-1.\<close>

definition em_dash :: string where
  "em_dash = ''--''"

section \<open>Integers in the header\<close>

definition MAGIC :: bytes where
  "MAGIC = [0x57, 0x56, 0x31, 0x00]"

definition VERSION :: nat where
  "VERSION = 1"

definition IV_LEN :: nat where
  "IV_LEN = 12"

definition writeU16BE :: "nat \<Rightarrow> bytes" where
  "writeU16BE value =
     (let v = of_nat value :: 32 word
      in [ucast (drop_bit 8 v AND 0xff), ucast (v AND 0xff)])"

definition writeU32BE :: "nat \<Rightarrow> bytes" where
  "writeU32BE value =
     (let v = of_nat value :: 32 word
      in [ucast (drop_bit 24 v AND 0xff), ucast (drop_bit 16 v AND 0xff),
          ucast (drop_bit 8 v AND 0xff), ucast (v AND 0xff)])"

definition byte_at :: "bytes \<Rightarrow> nat \<Rightarrow> int option" where
  "byte_at bs off = (if off < length bs then Some (uint (bs ! off)) else None)"

definition readU16BE :: "bytes \<Rightarrow> nat \<Rightarrow> int" where
  "readU16BE bs off = push_bit 8 (nullish (byte_at bs off) 0) OR nullish (byte_at bs (off + 1)) 0"

definition readU32BE :: "bytes \<Rightarrow> nat \<Rightarrow> int option" where
  "readU32BE bs off =
     map_option (\<lambda>b. b * 0x1000000
         + (push_bit 16 (nullish (byte_at bs (off + 1)) 0) OR push_bit 8 (nullish (byte_at bs (off + 2)) 0)
            OR nullish (byte_at bs (off + 3)) 0))
       (byte_at bs off)"

definition concatBytes :: "bytes list \<Rightarrow> bytes" where
  "concatBytes parts = concat parts"

definition subarray :: "bytes \<Rightarrow> nat \<Rightarrow> nat \<Rightarrow> bytes" where
  "subarray bs a b = take (b - a) (drop a bs)"

section \<open>Sealing and opening\<close>

definition importOwnPublicKey ::
  "('aes, 'pub, 'priv) webcrypto \<Rightarrow> nat \<Rightarrow> key_db \<Rightarrow> 'pub result" where
  "importOwnPublicKey wc userId db =
     bind_result (loadPublicKey (Some userId) None db) (\<lambda>(raw, _).
       case raw of
         None \<Rightarrow> Throw (Error (''No public key on this device '' @ em_dash
                   @ '' generate or restore your encryption key first.''))
       | Some r \<Rightarrow> subtle (import_spki wc r))"

record blob =
  blob_bytes :: bytes
  blob_type :: string

definition octet_stream :: string where
  "octet_stream = ''application/octet-stream''"

definition encryptBlobForSelf ::
  "('aes, 'pub, 'priv) webcrypto \<Rightarrow> key_db \<Rightarrow> 'aes \<Rightarrow> bytes \<Rightarrow> bytes \<Rightarrow> nat \<Rightarrow> string option \<Rightarrow> blob result"
where
  "encryptBlobForSelf wc db aesKey iv plaintext userId mimeType =
     bind_result (importOwnPublicKey wc userId db) (\<lambda>publicKey.
     let ciphertext = aes_encrypt wc aesKey iv plaintext;
         rawAes = export_raw wc aesKey
     in bind_result (subtle (rsa_encrypt wc publicKey rawAes)) (\<lambda>wrappedKey.
        Ok \<lparr>blob_bytes = concatBytes [MAGIC, writeU16BE VERSION, iv, writeU32BE (length wrappedKey),
                                     wrappedKey, ciphertext],
            blob_type = nullish mimeType octet_stream\<rparr>))"

definition looksLikeEnvelope :: "bytes \<Rightarrow> bool" where
  "looksLikeEnvelope bs \<longleftrightarrow>
     length bs \<ge> 6 \<and> bs ! 0 = MAGIC ! 0 \<and> bs ! 1 = MAGIC ! 1 \<and> bs ! 2 = MAGIC ! 2 \<and> bs ! 3 = MAGIC ! 3"

text \<open>The wrapped key and the ciphertext; a \<open>NaN\<close> bound counts as zero in \<open>subarray\<close>.\<close>

definition envelope_parts :: "bytes \<Rightarrow> int option \<Rightarrow> bytes \<times> bytes" where
  "envelope_parts bs wrappedLen =
     (case wrappedLen of
        None \<Rightarrow> ([], bs)
      | Some n \<Rightarrow> (subarray bs 22 (22 + nat n), drop (22 + nat n) bs))"

definition decryptBlobForSelf ::
  "('aes, 'pub, 'priv) webcrypto \<Rightarrow> key_db \<Rightarrow> bytes \<Rightarrow> nat \<Rightarrow> string option \<Rightarrow> blob result" where
  "decryptBlobForSelf wc db bs userId outputMime =
     (if \<not> looksLikeEnvelope bs then Throw (Error ''File is not an encrypted envelope'')
      else if readU16BE bs 4 \<noteq> int VERSION
      then Throw (Error (''Unsupported envelope version: '' @ nat_str (nat (readU16BE bs 4))))
      else
        (let iv = subarray bs 6 18;
             wrappedLen = readU32BE bs 18
         in if (case wrappedLen of None \<Rightarrow> False | Some n \<Rightarrow> n \<le> 0 \<or> n > 1024)
            then Throw (Error ''Malformed envelope: implausible wrapped-key length'')
            else
              (case envelope_parts bs wrappedLen of
                 (wrappedKey, ciphertext) \<Rightarrow>
                   bind_result (loadPrivateKey wc (Some userId) None db) (\<lambda>(privateKey, _).
                   case privateKey of
                     None \<Rightarrow> Throw (Error (''No private key on this device '' @ em_dash
                               @ '' restore from your recovery phrase first.''))
                   | Some priv \<Rightarrow>
                       bind_result (subtle (rsa_decrypt wc priv wrappedKey)) (\<lambda>rawAes.
                       bind_result (subtle (import_raw wc rawAes)) (\<lambda>aesKey.
                       bind_result (subtle (aes_decrypt wc aesKey iv ciphertext)) (\<lambda>plaintext.
                       Ok \<lparr>blob_bytes = plaintext, blob_type = nullish outputMime octet_stream\<rparr>)))))))"

section \<open>Header facts\<close>

lemma unat_header_byte:
  assumes "n < 2 ^ 32"
  shows "unat (ucast (drop_bit k (of_nat n :: 32 word) AND 0xff) :: byte) = n div 2 ^ k mod 256"
proof -
  have m: "w AND (0xff :: 32 word) = take_bit 8 w" for w :: "32 word"
    by (simp add: take_bit_eq_mask mask_eq_exp_minus_1)
  have u: "unat (of_nat n :: 32 word) = n" using assms by (simp add: unsigned_of_nat take_bit_nat_eq_self)
  have "unat (ucast (take_bit 8 (drop_bit k (of_nat n :: 32 word))) :: byte)
      = take_bit 8 (unat (take_bit 8 (drop_bit k (of_nat n :: 32 word))))"
    by (simp add: unsigned_ucast_eq)
  also have "\<dots> = take_bit 8 (drop_bit k n)"
    using assms by (simp add: unsigned_take_bit_eq unsigned_drop_bit_eq u take_bit_nat_eq_self)
  also have "\<dots> = n div 2 ^ k mod 256" by (simp add: take_bit_eq_mod drop_bit_eq_div)
  finally show ?thesis by (simp only: m)
qed

lemma uint_header_byte:
  "n < 2 ^ 32 \<Longrightarrow> uint (ucast (drop_bit k (of_nat n :: 32 word) AND 0xff) :: byte) = int (n div 2 ^ k mod 256)"
  by (metis of_nat_unat unat_header_byte)

lemma or_shift: "0 \<le> b \<Longrightarrow> b < 256 \<Longrightarrow> push_bit 8 a OR b = 256 * a + (b :: int)"
proof -
  assume "0 \<le> b" "b < 256"
  then have "take_bit 8 b = b" by (simp add: take_bit_int_eq_self)
  then show ?thesis using concat_bit_eq [of 8 b a] concat_bit_def [of 8 b a]
    by (simp add: push_bit_eq_mult or.commute)
qed

lemma or_shifts:
  assumes "0 \<le> b" "b < 256" "0 \<le> c" "c < 256"
  shows "push_bit 16 a OR push_bit 8 b OR c = 65536 * a + 256 * b + (c :: int)"
proof -
  have "push_bit 16 a OR push_bit 8 b = push_bit 8 (push_bit 8 a OR b)"
    by (simp add: push_bit_or)
  also have "\<dots> OR c = 256 * (256 * a + b) + c" using assms by (simp add: or_shift)
  finally show ?thesis by (simp add: or.assoc)
qed

lemma uint_byte: "0 \<le> uint (b :: byte)" "uint (b :: byte) < 256"
  using unsigned_less [of b, where 'a = int] by simp_all

lemma length_header [simp]:
  "length (writeU16BE n) = 2" "length (writeU32BE n) = 4" "length MAGIC = 4"
  by (simp_all add: writeU16BE_def writeU32BE_def MAGIC_def Let_def)

text \<open>Reading a written integer, at its offset in a longer buffer.\<close>

lemma read_writeU16:
  assumes "n < 2 ^ 16"
  shows "readU16BE (pre @ writeU16BE n @ post) (length pre) = int n"
proof -
  have n: "n < 2 ^ 32" using assms by simp
  have b: "uint (ucast (drop_bit 8 (of_nat n :: 32 word) AND 0xff) :: byte) = int (n div 256)"
    "uint (ucast ((of_nat n :: 32 word) AND 0xff) :: byte) = int (n mod 256)"
    using uint_header_byte [OF n, of 8] uint_header_byte [OF n, of 0] assms by simp_all
  have "readU16BE (pre @ writeU16BE n @ post) (length pre) = 256 * int (n div 256) + int (n mod 256)"
    using b by (simp add: readU16BE_def byte_at_def writeU16BE_def Let_def nth_append or_shift)
  also have "\<dots> = int (256 * (n div 256) + n mod 256)"
    by (simp only: of_nat_add of_nat_mult of_nat_numeral)
  also have "\<dots> = int n" by (simp only: mult_div_mod_eq)
  finally show ?thesis .
qed

lemma read_writeU32:
  assumes "n < 2 ^ 32"
  shows "readU32BE (pre @ writeU32BE n @ post) (length pre) = Some (int n)"
proof -
  let ?b = "\<lambda>k. int (n div 2 ^ k mod 256)"
  have b: "uint (ucast (drop_bit k (of_nat n :: 32 word) AND 0xff) :: byte) = ?b k" for k
    by (rule uint_header_byte [OF assms])
  have b0: "uint (ucast ((of_nat n :: 32 word) AND 0xff) :: byte) = ?b 0"
    using b [of 0] by simp
  have "readU32BE (pre @ writeU32BE n @ post) (length pre)
      = Some (?b 24 * 0x1000000 + (65536 * ?b 16 + 256 * ?b 8 + ?b 0))"
    using b b0 by (simp add: readU32BE_def byte_at_def writeU32BE_def Let_def nth_append or_shifts)
  also have "?b 24 * 0x1000000 + (65536 * ?b 16 + 256 * ?b 8 + ?b 0) = int n"
  proof -
    define q1 q2 q3 where q: "q1 = n div 256" "q2 = q1 div 256" "q3 = q2 div 256"
    have d: "n div 2 ^ 8 = q1" "n div 2 ^ 16 = q2" "n div 2 ^ 24 = q3"
      by (simp_all add: q div_mult2_eq [symmetric])
    have "q3 < 256" using assms d(3) [symmetric] by simp
    moreover have "n = 256 * q1 + n mod 256" "q1 = 256 * q2 + q1 mod 256" "q2 = 256 * q3 + q2 mod 256"
      by (simp_all only: q mult_div_mod_eq)
    ultimately have "(q3 mod 256) * 0x1000000 + (65536 * (q2 mod 256) + 256 * (q1 mod 256) + n mod 256) = n"
      by simp
    from arg_cong [OF this, of int] show ?thesis
      unfolding d by (simp only: of_nat_add of_nat_mult of_nat_numeral div_by_1 power_0)
  qed
  finally show ?thesis .
qed

interpretation u16: coder writeU16BE "\<lambda>b. Some (nat (readU16BE b 0))" "\<lambda>n. n < 2 ^ 16"
  using read_writeU16 [of _ "[]" "[]"] by unfold_locales simp

interpretation u32: coder writeU32BE "\<lambda>b. map_option nat (readU32BE b 0)" "\<lambda>n. n < 2 ^ 32"
  using read_writeU32 [of _ "[]" "[]"] by unfold_locales simp

section \<open>The envelope\<close>

definition envelope_bytes :: "bytes \<Rightarrow> bytes \<Rightarrow> bytes \<Rightarrow> bytes" where
  "envelope_bytes iv wrappedKey ciphertext =
     concatBytes [MAGIC, writeU16BE VERSION, iv, writeU32BE (length wrappedKey), wrappedKey, ciphertext]"

lemma envelope_fields:
  fixes iv wk ct :: bytes
  assumes "length iv = 12" "length wk < 2 ^ 32"
  defines "e \<equiv> envelope_bytes iv wk ct"
  shows "looksLikeEnvelope e" "readU16BE e 4 = 1" "subarray e 6 18 = iv"
    "readU32BE e 18 = Some (int (length wk))" "subarray e 22 (22 + length wk) = wk"
    "drop (22 + length wk) e = ct" "length e = 22 + length wk + length ct"
proof -
  have e: "e = MAGIC @ writeU16BE 1 @ (iv @ writeU32BE (length wk) @ wk @ ct)"
    by (simp add: e_def envelope_bytes_def concatBytes_def VERSION_def)
  show "length e = 22 + length wk + length ct" using assms(1) by (simp add: e)
  then show "looksLikeEnvelope e" by (simp add: looksLikeEnvelope_def) (simp add: e MAGIC_def)
  show "readU16BE e 4 = 1" using read_writeU16 [of 1 MAGIC] by (simp add: e)
  show "subarray e 6 18 = iv" using assms(1) by (simp add: e subarray_def)
  have "e = (MAGIC @ writeU16BE 1 @ iv) @ writeU32BE (length wk) @ wk @ ct" by (simp add: e)
  then show "readU32BE e 18 = Some (int (length wk))"
    using read_writeU32 [OF assms(2), of "MAGIC @ writeU16BE 1 @ iv" "wk @ ct"] assms(1) by simp
  show "subarray e 22 (22 + length wk) = wk" "drop (22 + length wk) e = ct"
    using assms(1) by (simp_all add: e subarray_def)
qed

text \<open>A user whose stored keys belong together.\<close>

definition device_keys ::
  "('aes, 'pub, 'priv) webcrypto \<Rightarrow> key_db \<Rightarrow> nat \<Rightarrow> 'pub \<Rightarrow> 'priv \<Rightarrow> bool" where
  "device_keys wc db userId pub priv \<longleftrightarrow>
     db_opens db \<and> slots db (privateKeyId (Some userId)) = Some (export_pkcs8 wc priv)
     \<and> (\<exists>spki. slots db (publicKeyId (Some userId)) = Some spki \<and> import_spki wc spki = Some pub)
     \<and> key_pair wc pub priv \<and> can_wrap wc pub"

lemma device_keys_load:
  assumes "webcrypto_ok wc" "device_keys wc db u pub priv"
  shows "importOwnPublicKey wc u db = Ok pub" "loadPrivateKey wc (Some u) None db = Ok (Some priv, db)"
  using assms loadPrivateKey_slot [of db "Some u" wc priv None]
  by (auto simp: device_keys_def importOwnPublicKey_def loadPublicKey_def pub.load_by_id)

lemma device_keys_wrap:
  assumes "device_keys wc db u pub priv"
  obtains c where "rsa_encrypt wc pub (export_raw wc k) = Some c" "c \<noteq> []" "length c \<le> 1024"
    "rsa_decrypt wc priv c = Some (export_raw wc k)"
proof -
  have "can_wrap wc pub" "key_pair wc pub priv" using assms by (simp_all add: device_keys_def)
  then show thesis by (rule wrapD) (rule that)
qed

lemma decrypt_envelope_bytes:
  assumes "length iv = 12" "wk \<noteq> []" "length wk \<le> 1024"
  shows "decryptBlobForSelf wc db (envelope_bytes iv wk ct) u mime =
     bind_result (loadPrivateKey wc (Some u) None db) (\<lambda>(privateKey, _).
       case privateKey of
         None \<Rightarrow> Throw (Error (''No private key on this device '' @ em_dash
                   @ '' restore from your recovery phrase first.''))
       | Some priv \<Rightarrow>
           bind_result (subtle (rsa_decrypt wc priv wk)) (\<lambda>rawAes.
           bind_result (subtle (import_raw wc rawAes)) (\<lambda>aesKey.
           bind_result (subtle (aes_decrypt wc aesKey iv ct)) (\<lambda>plaintext.
           Ok \<lparr>blob_bytes = plaintext, blob_type = nullish mime octet_stream\<rparr>))))"
proof -
  have "length wk < 2 ^ 32" using assms(3) by simp
  note f = envelope_fields [OF assms(1) this, of ct]
  have "length wk > 0" using assms(2) by simp
  then show ?thesis
    using assms(3) f(5,6) by (simp add: decryptBlobForSelf_def f(1-4) VERSION_def envelope_parts_def Let_def)
qed

text \<open>
  C9: A file encrypted for its owner decrypts on a device holding the owner's keys to the
  same bytes, with the type the caller gives; what is stored is a recognisable envelope that
  carries neither the type nor the content in the clear layout but header, wrapped key and
  ciphertext, 22 bytes longer than the last two.
\<close>

theorem file_roundtrip:
  assumes "webcrypto_ok wc" "device_keys wc db u pub priv" "length iv = 12"
  shows "\<exists>b wk. encryptBlobForSelf wc db k iv content u mime = Ok b
    \<and> blob_bytes b = envelope_bytes iv wk (aes_encrypt wc k iv content)
    \<and> looksLikeEnvelope (blob_bytes b)
    \<and> length (blob_bytes b) = 22 + length wk + length (aes_encrypt wc k iv content)
    \<and> decryptBlobForSelf wc db (blob_bytes b) u mime2
        = Ok \<lparr>blob_bytes = content, blob_type = nullish mime2 octet_stream\<rparr>"
proof -
  obtain wk where wk: "rsa_encrypt wc pub (export_raw wc k) = Some wk" "wk \<noteq> []" "length wk \<le> 1024"
    "rsa_decrypt wc priv wk = Some (export_raw wc k)"
    using assms(2) by (rule device_keys_wrap)
  define ct where "ct = aes_encrypt wc k iv content"
  let ?b = "\<lparr>blob_bytes = envelope_bytes iv wk ct, blob_type = nullish mime octet_stream\<rparr>"
  have "encryptBlobForSelf wc db k iv content u mime = Ok ?b"
    using wk(1) device_keys_load(1) [OF assms(1,2)]
    by (simp add: encryptBlobForSelf_def envelope_bytes_def ct_def Let_def)
  moreover have "decryptBlobForSelf wc db (envelope_bytes iv wk ct) u mime2
      = Ok \<lparr>blob_bytes = content, blob_type = nullish mime2 octet_stream\<rparr>"
    using device_keys_load(2) [OF assms(1,2)] wk(4) webcrypto_okD(1,3) [OF assms(1)]
    by (simp add: decrypt_envelope_bytes [OF assms(3) wk(2,3)] ct_def)
  moreover have "length wk < 2 ^ 32" using wk(3) by simp
  ultimately show ?thesis
    using envelope_fields(1,7) [OF assms(3), of wk ct] unfolding ct_def
    by (intro exI [of _ "?b"] exI [of _ wk]) (simp add: ct_def)
qed

text \<open>
  Opening a file never accepts what was not sealed: every success comes from bytes with
  the magic and version, whose key entry the device's private key unwraps to an AES key, and
  whose ciphertext is exactly the AES-GCM encryption of the returned content under it.
\<close>

theorem opened_file_is_authentic:
  assumes "webcrypto_ok wc" "decryptBlobForSelf wc db bs u mime = Ok b"
  shows "looksLikeEnvelope bs \<and> readU16BE bs 4 = 1
    \<and> (\<exists>priv raw k wk ct. map_sum id fst (loadPrivateKey wc (Some u) None db) = Ok (Some priv)
        \<and> rsa_decrypt wc priv wk = Some raw \<and> import_raw wc raw = Some k
        \<and> envelope_parts bs (readU32BE bs 18) = (wk, ct)
        \<and> ct = aes_encrypt wc k (subarray bs 6 18) (blob_bytes b))"
proof -
  obtain wk ct where p: "envelope_parts bs (readU32BE bs 18) = (wk, ct)"
    by (cases "envelope_parts bs (readU32BE bs 18)")
  obtain pk db' priv raw k where s: "looksLikeEnvelope bs" "readU16BE bs 4 = 1"
    "loadPrivateKey wc (Some u) None db = Ok (Some priv, db')"
    "rsa_decrypt wc priv wk = Some raw" "import_raw wc raw = Some k"
    "aes_decrypt wc k (subarray bs 6 18) ct = Some (blob_bytes b)"
    using assms(2) p
    by (auto simp: decryptBlobForSelf_def VERSION_def Let_def subtle_def bind_result_Ok_iff
        split: if_splits option.splits)
  then have "ct = aes_encrypt wc k (subarray bs 6 18) (blob_bytes b)"
    using webcrypto_okD(2) [OF assms(1)] by blast
  with s p show ?thesis by (intro conjI exI) simp_all
qed

definition demo_keys :: key_db where
  "demo_keys = \<lparr>db_opens = True,
     slots = [privateKeyId (Some 3) \<mapsto> [7], publicKeyId (Some 3) \<mapsto> [7]]\<rparr>"

lemma demo_keys_ok: "device_keys demo_crypto demo_keys 3 7 7"
  using demo_key_pair [of 7] by (simp add: device_keys_def demo_keys_def) (simp add: demo_crypto_def)

theorem file_roundtrip_witness:
  "\<exists>b. encryptBlobForSelf demo_crypto demo_keys 9 (replicate 12 1) [1, 2, 3] 3 None = Ok b
    \<and> decryptBlobForSelf demo_crypto demo_keys (blob_bytes b) 3 None
        = Ok \<lparr>blob_bytes = [1, 2, 3], blob_type = octet_stream\<rparr>"
  using file_roundtrip [OF demo_crypto_ok demo_keys_ok, of "replicate 12 1" 9 "[1, 2, 3]" None None]
  by auto

theorem opened_file_is_authentic_witness:
  "\<exists>bs. looksLikeEnvelope bs \<and> readU16BE bs 4 = 1"
proof -
  obtain b where "decryptBlobForSelf demo_crypto demo_keys b 3 None
        = Ok \<lparr>blob_bytes = [1, 2, 3], blob_type = octet_stream\<rparr>"
    using decrypt_envelope_bytes [of "replicate 12 1" "[7, 9]" demo_crypto demo_keys
        "aes_encrypt demo_crypto 9 (replicate 12 1) [1, 2, 3]" 3 None, simplified]
      device_keys_load(2) [OF demo_crypto_ok demo_keys_ok]
    by (simp add: demo_crypto_def)
  from opened_file_is_authentic [OF demo_crypto_ok this] show ?thesis by blast
qed

end
