(* ===== verification/Message_Crypto.thy ===== *)
theory Message_Crypto
  imports File_Envelope
begin

text \<open>
  The message encryption shared by chat, mail and notes (\<open>crypto/crypto.ts\<close>), the JSON envelope
  that its clients wrap around it, and the contract every such client keeps: what is sealed for
  a list of recipients opens for each of them and for nobody else (locale \<open>mailbox\<close>).
\<close>

section \<open>Reading parsed JSON the way JavaScript does\<close>

text \<open>A numeric literal whose value is zero.\<close>

definition num_zero :: "string \<Rightarrow> bool" where
  "num_zero t = list_all (\<lambda>c. is_digit c \<longrightarrow> c = CHR ''0'')
     (takeWhile (\<lambda>c. c \<noteq> CHR ''e'' \<and> c \<noteq> CHR ''E'') t)"

text \<open>\<open>!v\<close>; a missing member (\<open>undefined\<close>) is \<open>None\<close>.\<close>

definition falsy :: "json option \<Rightarrow> bool" where
  "falsy v =
     (case v of
        None \<Rightarrow> True
      | Some JNull \<Rightarrow> True
      | Some (JBool b) \<Rightarrow> \<not> b
      | Some (JStr s) \<Rightarrow> s = []
      | Some (JNum t) \<Rightarrow> num_zero t
      | _ \<Rightarrow> False)"

definition is_array :: "json option \<Rightarrow> bool" where
  "is_array v = (case v of Some (JArr _) \<Rightarrow> True | _ \<Rightarrow> False)"

text \<open>\<open>v[k]\<close>: reading a member of \<open>undefined\<close> or \<open>null\<close> throws; an array or a string has the
  members named by its indices.\<close>

definition js_member :: "json option \<Rightarrow> string \<Rightarrow> json option result" where
  "js_member v k =
     (case v of
        None \<Rightarrow> Throw TypeError
      | Some JNull \<Rightarrow> Throw TypeError
      | Some (JArr vs) \<Rightarrow>
          Ok (if nat_str (nat_val k) = k \<and> nat_val k < length vs then Some (vs ! nat_val k) else None)
      | Some (JStr s) \<Rightarrow>
          Ok (if nat_str (nat_val k) = k \<and> nat_val k < length s then Some (JStr [s ! nat_val k]) else None)
      | Some w \<Rightarrow> Ok (field w k))"

text \<open>\<open>new Uint8Array(v)\<close>: an array's elements, or that many zeros for a number.\<close>

definition new_Uint8Array :: "json option \<Rightarrow> bytes" where
  "new_Uint8Array v =
     (case v of
        Some (JArr vs) \<Rightarrow> map to_uint8 vs
      | Some (JNum t) \<Rightarrow> if list_all is_digit t then replicate (nat_val t) 0 else []
      | _ \<Rightarrow> [])"

definition starts_with :: "string \<Rightarrow> string \<Rightarrow> bool" where
  "starts_with p s = (take (length p) s = p)"

lemma starts_with_append [simp]: "starts_with p (p @ s)"
  by (simp add: starts_with_def)

lemma new_Uint8Array_bytes [simp]: "new_Uint8Array (Some (json_of_bytes bs)) = bs"
  using uint8_array_bytes [of bs] by (simp add: new_Uint8Array_def json_of_bytes_def uint8_array_def)

lemma bytes_are_array [simp]:
  "is_array (Some (json_of_bytes bs))" "\<not> falsy (Some (json_of_bytes bs))" "\<not> falsy (Some (JObj ms))"
  by (simp_all add: is_array_def json_of_bytes_def falsy_def)

section \<open>Encrypting and decrypting a message\<close>

record sealed_text =
  sealed_iv :: string
  sealed_data :: string

definition encrypt ::
  "('aes, 'pub, 'priv) webcrypto \<Rightarrow> bytes \<Rightarrow> string \<Rightarrow> 'aes \<Rightarrow> sealed_text" where
  "encrypt wc iv plain key =
     \<lparr>sealed_iv = btoa wc iv, sealed_data = btoa wc (aes_encrypt wc key iv (utf8_encode wc plain))\<rparr>"

definition decrypt :: "('aes, 'pub, 'priv) webcrypto \<Rightarrow> sealed_text \<Rightarrow> 'aes \<Rightarrow> string result" where
  "decrypt wc e key =
     bind_result (subtle (atob wc (sealed_iv e))) (\<lambda>iv.
     bind_result (subtle (atob wc (sealed_data e))) (\<lambda>d.
     bind_result (subtle (aes_decrypt wc key iv d)) (\<lambda>m.
     Ok (utf8_decode wc m))))"

record encrypted_message =
  em_message :: bytes
  em_key :: bytes
  em_iv :: bytes

definition encryptMessage ::
  "('aes, 'pub, 'priv) webcrypto \<Rightarrow> 'aes \<Rightarrow> bytes \<Rightarrow> string \<Rightarrow> 'pub \<Rightarrow> encrypted_message result" where
  "encryptMessage wc aesKey iv message publicKey =
     (let encryptedMessage = aes_encrypt wc aesKey iv (utf8_encode wc message);
          rawKey = export_raw wc aesKey
      in bind_result (subtle (rsa_encrypt wc publicKey rawKey)) (\<lambda>encryptedKey.
         Ok \<lparr>em_message = encryptedMessage, em_key = encryptedKey, em_iv = iv\<rparr>))"

definition decryptMessage ::
  "('aes, 'pub, 'priv) webcrypto \<Rightarrow> bytes \<Rightarrow> bytes \<Rightarrow> bytes \<Rightarrow> 'priv \<Rightarrow> string result" where
  "decryptMessage wc msg key iv privateKey =
     bind_result (subtle (rsa_decrypt wc privateKey key)) (\<lambda>rawKey.
     bind_result (subtle (import_raw wc rawKey)) (\<lambda>aesKey.
     bind_result (subtle (aes_decrypt wc aesKey iv msg)) (\<lambda>decrypted.
     Ok (utf8_decode wc decrypted))))"

definition SECURE_PREFIX :: string where
  "SECURE_PREFIX = ''WAYVE_SECURE_V1'' @ [CHR 0x0A]"

text \<open>A dropped file's name may be missing or empty.\<close>

definition encryptFile ::
  "('aes, 'pub, 'priv) webcrypto \<Rightarrow> 'aes \<Rightarrow> bytes \<Rightarrow> string option \<Rightarrow> string \<Rightarrow> bytes \<Rightarrow> 'pub \<Rightarrow> string result"
where
  "encryptFile wc aesKey iv name mimeType content publicKey =
     (let encryptedData = aes_encrypt wc aesKey iv content;
          rawAesKey = export_raw wc aesKey
      in bind_result (subtle (rsa_encrypt wc publicKey rawAesKey)) (\<lambda>encryptedAesKey.
         Ok (SECURE_PREFIX @ stringify (JObj
           [(''type'', JStr ''wayve_encrypted_file''),
            (''name'', JStr (if name = None \<or> name = Some [] then ''encrypted_file'' else the name)),
            (''mimeType'', JStr mimeType),
            (''data'', json_of_bytes encryptedData),
            (''key'', json_of_bytes encryptedAesKey),
            (''iv'', json_of_bytes iv)]))))"

lemma decryptMessage_sealed:
  assumes "webcrypto_ok wc" "key_pair wc pub priv" "rsa_encrypt wc pub (export_raw wc k) = Some wk"
  shows "decryptMessage wc (aes_encrypt wc k iv (utf8_encode wc m)) wk iv priv = Ok m"
  using assms webcrypto_okD [OF assms(1)] by (simp add: decryptMessage_def key_pair_def)

lemma decryptMessage_authentic:
  assumes "webcrypto_ok wc" "decryptMessage wc msg key iv priv = Ok m"
  shows "\<exists>raw k b. rsa_decrypt wc priv key = Some raw \<and> import_raw wc raw = Some k
    \<and> msg = aes_encrypt wc k iv b \<and> m = utf8_decode wc b"
proof -
  obtain raw k b where "rsa_decrypt wc priv key = Some raw" "import_raw wc raw = Some k"
    "aes_decrypt wc k iv msg = Some b" "m = utf8_decode wc b"
    using assms(2) by (auto simp: decryptMessage_def bind_result_Ok_iff subtle_def split: option.splits)
  moreover from this(3) have "msg = aes_encrypt wc k iv b" using webcrypto_okD(2) [OF assms(1)] by blast
  ultimately show ?thesis by blast
qed

lemma encryptMessage_decrypts:
  assumes "webcrypto_ok wc" "key_pair wc pub priv" "encryptMessage wc k iv m pub = Ok e"
  shows "decryptMessage wc (em_message e) (em_key e) (em_iv e) priv = Ok m"
  using assms decryptMessage_sealed [OF assms(1,2)]
  by (auto simp: encryptMessage_def Let_def bind_result_Ok_iff subtle_def split: option.splits)

lemma decrypt_encrypt: "webcrypto_ok wc \<Longrightarrow> decrypt wc (encrypt wc iv m k) k = Ok m"
  by (simp add: decrypt_def encrypt_def webcrypto_okD)

section \<open>The recipients' keys\<close>

text \<open>
  The \<open>keys\<close> object of an envelope: an assignment replaces a user's entry, and integer keys are
  enumerated in ascending order.
\<close>

fun put_key :: "nat \<Rightarrow> bytes \<Rightarrow> (nat \<times> bytes) list \<Rightarrow> (nat \<times> bytes) list" where
  "put_key u c [] = [(u, c)]"
| "put_key u c ((v, d) # ks) =
     (if u < v then (u, c) # (v, d) # ks
      else if u = v then (u, c) # ks else (v, d) # put_key u c ks)"

text \<open>The message key wrapped for each recipient in turn; an unusable public key rejects.\<close>

fun wrap_keys :: "('aes, 'pub, 'priv) webcrypto \<Rightarrow> bytes \<Rightarrow> (nat \<times> bytes) list \<Rightarrow> (nat \<times> bytes) list
    \<Rightarrow> (nat \<times> bytes) list result" where
  "wrap_keys wc rawKey [] keys = Ok keys"
| "wrap_keys wc rawKey ((userId, publicKeyBytes) # rs) keys =
     bind_result (subtle (import_spki wc publicKeyBytes)) (\<lambda>publicKey.
     bind_result (subtle (rsa_encrypt wc publicKey rawKey)) (\<lambda>encryptedKey.
     wrap_keys wc rawKey rs (put_key userId encryptedKey keys)))"

definition keys_json :: "(nat \<times> bytes) list \<Rightarrow> json" where
  "keys_json keys = JObj (map (\<lambda>(u, c). (nat_str u, json_of_bytes c)) keys)"

definition envelope_json ::
  "string \<Rightarrow> bytes \<Rightarrow> bytes \<Rightarrow> (nat \<times> bytes) list \<Rightarrow> (string \<times> json) list \<Rightarrow> json" where
  "envelope_json kind data iv keys extra =
     JObj ([(''type'', JStr kind), (''data'', json_of_bytes data), (''iv'', json_of_bytes iv),
            (''keys'', keys_json keys)] @ extra)"

lemma put_key_map_of: "map_of (put_key u c ks) v = (if v = u then Some c else map_of ks v)"
  by (induction u c ks rule: put_key.induct) auto

lemma put_key_dom: "fst ` set (put_key u c ks) = insert u (fst ` set ks)"
  by (induction u c ks rule: put_key.induct) auto

lemma put_key_sorted: "sorted (map fst ks) \<Longrightarrow> distinct (map fst ks) \<Longrightarrow>
    sorted (map fst (put_key u c ks)) \<and> distinct (map fst (put_key u c ks))"
proof (induction u c ks rule: put_key.induct)
  case (2 u c v d ks)
  then show ?case by (auto simp: put_key_dom)
qed simp

lemma wrap_keys_step:
  assumes "wrap_keys wc raw ((v, q) # rs) ks = Ok keys"
  obtains pub c where "import_spki wc q = Some pub" "rsa_encrypt wc pub raw = Some c"
    "wrap_keys wc raw rs (put_key v c ks) = Ok keys"
  using assms by (cases "import_spki wc q"; simp) (auto simp: bind_result_Ok_iff subtle_def split: option.splits)

lemma wrap_keys_distinct:
  "wrap_keys wc raw rs ks = Ok keys \<Longrightarrow> sorted (map fst ks) \<Longrightarrow> distinct (map fst ks) \<Longrightarrow> distinct (map fst keys)"
proof (induction wc raw rs ks rule: wrap_keys.induct)
  case (2 wc raw v q rs ks)
  from 2(2) obtain pub c where "import_spki wc q = Some pub" "rsa_encrypt wc pub raw = Some c"
    "wrap_keys wc raw rs (put_key v c ks) = Ok keys" by (rule wrap_keys_step)
  then show ?case using 2(1) [of pub c] put_key_sorted [OF 2(3,4)] by simp
qed simp

lemma wrap_keys_absent:
  "wrap_keys wc raw rs ks = Ok keys \<Longrightarrow> u \<notin> fst ` set rs \<Longrightarrow> map_of keys u = map_of ks u"
proof (induction wc raw rs ks rule: wrap_keys.induct)
  case (2 wc raw v q rs ks)
  from 2(2) obtain pub c where "import_spki wc q = Some pub" "rsa_encrypt wc pub raw = Some c"
    "wrap_keys wc raw rs (put_key v c ks) = Ok keys" by (rule wrap_keys_step)
  then show ?case using 2(1) [of pub c] 2(3) by (simp add: put_key_map_of)
qed simp

lemma wrap_keys_slot:
  "wrap_keys wc raw rs ks = Ok keys \<Longrightarrow> (u, pk) \<in> set rs \<Longrightarrow> (\<forall>q. (u, q) \<in> set rs \<longrightarrow> q = pk) \<Longrightarrow>
   \<exists>pub c. import_spki wc pk = Some pub \<and> rsa_encrypt wc pub raw = Some c \<and> map_of keys u = Some c"
proof (induction wc raw rs ks rule: wrap_keys.induct)
  case (2 wc raw v q rs ks)
  from 2(2) obtain pub c where c: "import_spki wc q = Some pub" "rsa_encrypt wc pub raw = Some c"
    "wrap_keys wc raw rs (put_key v c ks) = Ok keys" by (rule wrap_keys_step)
  show ?case
  proof (cases "u \<in> fst ` set rs")
    case True
    then obtain q' where "(u, q') \<in> set rs" by auto
    with 2(4) have a: "(u, pk) \<in> set rs" by auto
    from 2(4) have b: "\<forall>q. (u, q) \<in> set rs \<longrightarrow> q = pk" by simp
    have "subtle (import_spki wc q) = Ok pub" "subtle (rsa_encrypt wc pub raw) = Ok c"
      using c(1,2) by simp_all
    then show ?thesis by (rule 2(1) [OF _ _ c(3) a b])
  next
    case False
    then have "u = v" "q = pk" using 2(3) by force+
    with False c show ?thesis by (simp add: wrap_keys_absent put_key_map_of)
  qed
qed simp

lemma nat_str_eq [simp]: "nat_str m = nat_str n \<longleftrightarrow> m = n"
  using nat_str_inj by blast

lemma map_of_keys: "distinct (map fst keys) \<Longrightarrow>
    field (keys_json keys) (nat_str u) = map_option json_of_bytes (map_of keys u)"
proof -
  assume d: "distinct (map fst keys)"
  have "distinct (map fst (map (\<lambda>(u, c). (nat_str u, json_of_bytes c)) keys))"
    using d by (induction keys) (auto simp: image_iff)
  from map_of_rev_eq [OF this] have "field (keys_json keys) (nat_str u)
      = map_of (map (\<lambda>(u, c). (nat_str u, json_of_bytes c)) keys) (nat_str u)"
    by (simp add: field_def keys_json_def)
  also have "\<dots> = map_option json_of_bytes (map_of keys u)" by (induction keys) auto
  finally show ?thesis .
qed

lemma envelope_fields_json:
  assumes "list_all (\<lambda>p. fst p \<notin> {''type'', ''data'', ''iv'', ''keys''}) extra"
  shows "field (envelope_json kind data iv keys extra) ''type'' = Some (JStr kind)"
    and "field (envelope_json kind data iv keys extra) ''data'' = Some (json_of_bytes data)"
    and "field (envelope_json kind data iv keys extra) ''iv'' = Some (json_of_bytes iv)"
    and "field (envelope_json kind data iv keys extra) ''keys'' = Some (keys_json keys)"
proof -
  have "map_of (rev extra) k = None" if "k \<in> {''type'', ''data'', ''iv'', ''keys''}" for k
    using assms that by (auto simp: map_of_eq_None_iff list_all_iff)
  then show "field (envelope_json kind data iv keys extra) ''type'' = Some (JStr kind)"
    and "field (envelope_json kind data iv keys extra) ''data'' = Some (json_of_bytes data)"
    and "field (envelope_json kind data iv keys extra) ''iv'' = Some (json_of_bytes iv)"
    and "field (envelope_json kind data iv keys extra) ''keys'' = Some (keys_json keys)"
    by (simp_all add: field_def envelope_json_def map_add_def)
qed

lemma keys_json_member [simp]: "js_member (Some (keys_json keys)) k = Ok (field (keys_json keys) k)"
  "\<not> falsy (Some (keys_json keys))"
  by (simp_all add: js_member_def keys_json_def falsy_def)

lemma envelope_json_ok: "\<forall>m \<in> set extra. json_ok (snd m) \<Longrightarrow> json_ok (envelope_json kind data iv keys extra)"
  by (auto simp: envelope_json_def keys_json_def)

section \<open>The contract of a channel\<close>

text \<open>
  A channel prints an envelope (ciphertext, vector, keys) as text and opens a text for a user on
  a device. It owes its clients two laws: a user with an entry that decrypts reads the message;
  a user without an entry gets the channel's refusal.
\<close>

definition loads_key :: "('aes, 'pub, 'priv) webcrypto \<Rightarrow> key_db \<Rightarrow> nat \<Rightarrow> 'priv \<Rightarrow> bool" where
  "loads_key wc db u priv \<longleftrightarrow> given_id (Some u) \<and> loadPrivateKey wc (Some u) None db = Ok (Some priv, db)
     \<and> (\<exists>q. loadPrivateKey wc None None db = Ok q)"

locale mailbox =
  fixes sealed :: "bytes \<Rightarrow> bytes \<Rightarrow> (nat \<times> bytes) list \<Rightarrow> string"
    and opens :: "('aes, 'pub, 'priv) webcrypto \<Rightarrow> key_db \<Rightarrow> string \<Rightarrow> nat \<Rightarrow> string result"
    and refusal :: "string result"
  assumes opens_slot: "loads_key wc db u priv \<Longrightarrow> distinct (map fst keys) \<Longrightarrow> map_of keys u = Some wk
      \<Longrightarrow> decryptMessage wc data wk iv priv = Ok m \<Longrightarrow> opens wc db (sealed data iv keys) u = Ok m"
    and opens_absent: "loads_key wc db u priv \<Longrightarrow> distinct (map fst keys) \<Longrightarrow> map_of keys u = None
      \<Longrightarrow> opens wc db (sealed data iv keys) u = refusal"
begin

text \<open>Every recipient whose device holds the private key of the address list's public key reads
  the message.\<close>

lemma recipient_reads:
  assumes "webcrypto_ok wc" "wrap_keys wc (export_raw wc k) rs [] = Ok keys"
    and "(u, pk) \<in> set rs" "\<forall>q. (u, q) \<in> set rs \<longrightarrow> q = pk"
    and "loads_key wc db u priv" "\<forall>pub. import_spki wc pk = Some pub \<longrightarrow> key_pair wc pub priv"
  shows "opens wc db (sealed (aes_encrypt wc k iv (utf8_encode wc m)) iv keys) u = Ok m"
proof -
  obtain pub c where "import_spki wc pk = Some pub" "rsa_encrypt wc pub (export_raw wc k) = Some c"
    and s: "map_of keys u = Some c" using wrap_keys_slot [OF assms(2-4)] by blast
  then have "decryptMessage wc (aes_encrypt wc k iv (utf8_encode wc m)) c iv priv = Ok m"
    using assms(1,6) decryptMessage_sealed by metis
  with s assms(5) wrap_keys_distinct [OF assms(2)] show ?thesis by (auto intro: opens_slot)
qed

lemma outsider_refused:
  assumes "wrap_keys wc raw rs [] = Ok keys" "u \<notin> fst ` set rs" "loads_key wc db u priv"
  shows "opens wc db (sealed data iv keys) u = refusal"
proof (rule opens_absent [OF assms(3)])
  show "distinct (map fst keys)" using assms(1) by (rule wrap_keys_distinct) simp_all
  show "map_of keys u = None" using wrap_keys_absent [OF assms(1,2)] by simp
qed

end

end
