(* ===== verification/Chat_Encryption.thy ===== *)
theory Chat_Encryption
  imports Message_Crypto
begin

text \<open>
  End-to-end encrypted chat: \<open>chat/e2ee.ts\<close>. A message is one JSON envelope behind a prefix, with
  the text under a fresh key, that key wrapped for each recipient, and the descriptors of the
  attachments, whose bodies are encrypted under the same key.
\<close>

section \<open>Envelopes\<close>

definition CHAT_E2E_PREFIX :: string where
  "CHAT_E2E_PREFIX = ''WAYVE_CHAT_E2E_V1'' @ [CHR 0x0A]"

record attachment =
  att_id :: nat
  att_name :: string
  att_mime :: "string option"
  att_size :: nat
  att_iv :: "bytes option"

definition attachment_json :: "attachment \<Rightarrow> json" where
  "attachment_json a =
     JObj ([(''id'', json_of_nat (att_id a)), (''name'', JStr (att_name a)),
            (''mime'', case att_mime a of None \<Rightarrow> JNull | Some m \<Rightarrow> JStr m),
            (''size'', json_of_nat (att_size a))]
           @ (case att_iv a of None \<Rightarrow> [] | Some iv \<Rightarrow> [(''iv'', json_of_bytes iv)]))"

definition parseEnvelope :: "string \<Rightarrow> json option" where
  "parseEnvelope content =
     (if \<not> starts_with CHAT_E2E_PREFIX content then None
      else (case json_parse (drop (length CHAT_E2E_PREFIX) content) of
              Inl _ \<Rightarrow> None
            | Inr parsed \<Rightarrow>
                if field parsed ''type'' \<noteq> Some (JStr ''wayve_chat_e2e'')
                   \<or> \<not> is_array (field parsed ''data'') \<or> \<not> is_array (field parsed ''iv'')
                   \<or> falsy (field parsed ''keys'')
                then None else Some parsed))"

definition isEncryptedChatContent :: "string \<Rightarrow> bool" where
  "isEncryptedChatContent content = (parseEnvelope content \<noteq> None)"

definition buildChatEnvelope ::
  "('aes, 'pub, 'priv) webcrypto \<Rightarrow> bytes \<Rightarrow> string \<Rightarrow> 'aes \<Rightarrow> (nat \<times> bytes) list \<Rightarrow> attachment list option
   \<Rightarrow> string result"
where
  "buildChatEnvelope wc iv plaintext aesKey recipientPublicKeys attachments =
     (if recipientPublicKeys = [] then Throw (Error ''No recipient encryption keys available'')
      else
        let encryptedMessage = aes_encrypt wc aesKey iv (utf8_encode wc plaintext);
            rawKey = export_raw wc aesKey
        in bind_result (wrap_keys wc rawKey recipientPublicKeys []) (\<lambda>keys.
           Ok (CHAT_E2E_PREFIX @ stringify (envelope_json ''wayve_chat_e2e'' encryptedMessage iv keys
             (case attachments of
                Some (a # as) \<Rightarrow> [(''attachments'', JArr (map attachment_json (a # as)))]
              | _ \<Rightarrow> [])))))"

text \<open>\<open>generateChatKey\<close> draws the key; here it is an argument.\<close>

definition encryptChatContent ::
  "('aes, 'pub, 'priv) webcrypto \<Rightarrow> 'aes \<Rightarrow> bytes \<Rightarrow> string \<Rightarrow> (nat \<times> bytes) list \<Rightarrow> string result" where
  "encryptChatContent wc aesKey iv plaintext recipientPublicKeys =
     buildChatEnvelope wc iv plaintext aesKey recipientPublicKeys None"

definition encryptChatFile ::
  "('aes, 'pub, 'priv) webcrypto \<Rightarrow> bytes \<Rightarrow> 'aes \<Rightarrow> bytes \<Rightarrow> bytes \<times> bytes" where
  "encryptChatFile wc iv aesKey file = (aes_encrypt wc aesKey iv file, iv)"

section \<open>Reading\<close>

definition parseChatAttachments :: "string \<Rightarrow> json" where
  "parseChatAttachments content =
     (case parseEnvelope content of
        None \<Rightarrow> JArr []
      | Some e \<Rightarrow> (case field e ''attachments'' of None \<Rightarrow> JArr [] | Some JNull \<Rightarrow> JArr [] | Some v \<Rightarrow> v))"

text \<open>
  The import is returned, not awaited, inside the \<open>try\<close> block: its rejection is the caller's.
\<close>

definition unwrapChatKey ::
  "('aes, 'pub, 'priv) webcrypto \<Rightarrow> key_db \<Rightarrow> string \<Rightarrow> nat \<Rightarrow> 'aes option result" where
  "unwrapChatKey wc db content currentUserId =
     (case parseEnvelope content of
        None \<Rightarrow> Ok None
      | Some envelope \<Rightarrow>
          bind_result (loadPrivateKey wc (Some currentUserId) None db) (\<lambda>(privateKey, _).
          bind_result (js_member (field envelope ''keys'') (nat_str currentUserId)) (\<lambda>encryptedKey.
            case privateKey of
              None \<Rightarrow> Ok None
            | Some priv \<Rightarrow>
                if falsy encryptedKey then Ok None
                else (case rsa_decrypt wc priv (new_Uint8Array encryptedKey) of
                        None \<Rightarrow> Ok None
                      | Some rawKey \<Rightarrow> map_sum id Some (subtle (import_raw wc rawKey))))))"

definition decryptChatFile ::
  "('aes, 'pub, 'priv) webcrypto \<Rightarrow> 'aes \<Rightarrow> bytes \<Rightarrow> bytes \<Rightarrow> bytes result" where
  "decryptChatFile wc aesKey ciphertext iv = subtle (aes_decrypt wc aesKey iv ciphertext)"

definition UNAVAILABLE :: string where
  "UNAVAILABLE = ''[encrypted message unavailable on this device]''"

definition SENT_BEFORE :: string where
  "SENT_BEFORE = ''[sent before you set up encryption]''"

definition decryptChatContent ::
  "('aes, 'pub, 'priv) webcrypto \<Rightarrow> key_db \<Rightarrow> string \<Rightarrow> nat \<Rightarrow> string result" where
  "decryptChatContent wc db content currentUserId =
     (case parseEnvelope content of
        None \<Rightarrow> Ok content
      | Some envelope \<Rightarrow>
          bind_result (loadPrivateKey wc (Some currentUserId) None db) (\<lambda>(privateKey, _).
          bind_result (js_member (field envelope ''keys'') (nat_str currentUserId)) (\<lambda>encryptedKey.
            case privateKey of
              None \<Rightarrow> Ok UNAVAILABLE
            | Some priv \<Rightarrow>
                if falsy encryptedKey then Ok SENT_BEFORE
                else Ok (or_else UNAVAILABLE
                  (decryptMessage wc (new_Uint8Array (field envelope ''data''))
                     (new_Uint8Array encryptedKey) (new_Uint8Array (field envelope ''iv'')) priv)))))"

record chat_message =
  cm_id :: nat
  cm_content :: string
  cm_attachments :: "json option"
  cm_envelope :: "string option"

text \<open>\<open>attachments.length === 0\<close>.\<close>

definition no_elements :: "json \<Rightarrow> bool" where
  "no_elements v =
     (case v of
        JArr vs \<Rightarrow> vs = []
      | JStr s \<Rightarrow> s = []
      | JObj ms \<Rightarrow> (case field v ''length'' of Some (JNum t) \<Rightarrow> num_zero t | _ \<Rightarrow> False)
      | _ \<Rightarrow> False)"

definition decryptChatMessage ::
  "('aes, 'pub, 'priv) webcrypto \<Rightarrow> key_db \<Rightarrow> nat \<Rightarrow> chat_message \<Rightarrow> chat_message result" where
  "decryptChatMessage wc db currentUserId message =
     (let attachments = parseChatAttachments (cm_content message) in
      bind_result (decryptChatContent wc db (cm_content message) currentUserId) (\<lambda>content.
        Ok (if no_elements attachments then message\<lparr>cm_content := content\<rparr>
            else message\<lparr>cm_content := content, cm_attachments := Some attachments,
                         cm_envelope := Some (cm_content message)\<rparr>)))"

text \<open>\<open>Promise.all\<close>: one rejection rejects the whole list.\<close>

fun decryptChatMessages ::
  "('aes, 'pub, 'priv) webcrypto \<Rightarrow> key_db \<Rightarrow> nat \<Rightarrow> chat_message list \<Rightarrow> chat_message list result" where
  "decryptChatMessages wc db u [] = Ok []"
| "decryptChatMessages wc db u (m # ms) =
     bind_result (decryptChatMessage wc db u m) (\<lambda>x.
     bind_result (decryptChatMessages wc db u ms) (\<lambda>xs. Ok (x # xs)))"

section \<open>Lemmas\<close>

definition attachment_members :: "attachment list option \<Rightarrow> (string \<times> json) list" where
  "attachment_members atts =
     (case atts of Some (a # as) \<Rightarrow> [(''attachments'', JArr (map attachment_json (a # as)))] | _ \<Rightarrow> [])"

definition chat_text :: "attachment list option \<Rightarrow> bytes \<Rightarrow> bytes \<Rightarrow> (nat \<times> bytes) list \<Rightarrow> string" where
  "chat_text atts data iv keys =
     CHAT_E2E_PREFIX @ stringify (envelope_json ''wayve_chat_e2e'' data iv keys (attachment_members atts))"

lemma attachment_json_ok: "json_ok (attachment_json a)"
  by (auto simp: attachment_json_def split: option.splits)

lemma attachment_members_ok:
  "\<forall>m \<in> set (attachment_members atts). json_ok (snd m)"
  "list_all (\<lambda>p. fst p \<notin> {''type'', ''data'', ''iv'', ''keys''}) (attachment_members atts)"
  by (auto simp: attachment_members_def attachment_json_ok split: option.splits list.splits)

lemmas chat_fields = envelope_fields_json [OF attachment_members_ok(2)]

lemma parse_chat_text [codec_simps]:
  "parseEnvelope (chat_text atts data iv keys)
     = Some (envelope_json ''wayve_chat_e2e'' data iv keys (attachment_members atts))"
  using envelope_json_ok [OF attachment_members_ok(1)]
  by (simp add: parseEnvelope_def chat_text_def json_roundtrip chat_fields)

lemma buildChatEnvelope_text:
  assumes "buildChatEnvelope wc iv m k rs atts = Ok e"
  obtains keys where "wrap_keys wc (export_raw wc k) rs [] = Ok keys"
    "e = chat_text atts (aes_encrypt wc k iv (utf8_encode wc m)) iv keys"
  using assms
  by (auto simp: buildChatEnvelope_def chat_text_def attachment_members_def Let_def bind_result_Ok_iff
      split: if_splits)

lemma parseEnvelope_keys: "parseEnvelope c = Some e \<Longrightarrow> \<exists>s. js_member (field e ''keys'') k = Ok s"
  by (auto simp: parseEnvelope_def js_member_def falsy_def split: sum.splits if_splits option.splits json.splits)

interpretation chat: mailbox "chat_text atts" decryptChatContent "Ok SENT_BEFORE" for atts
proof
  fix wc :: "('a, 'b, 'c) webcrypto" and db u priv and keys :: "(nat \<times> bytes) list" and wk data iv m
  assume l: "loads_key wc db u priv" and d: "distinct (map fst keys)"
  show "decryptChatContent wc db (chat_text atts data iv keys) u = Ok m"
    if "map_of keys u = Some wk" "decryptMessage wc data wk iv priv = Ok m"
    using l that by (simp add: decryptChatContent_def parse_chat_text chat_fields map_of_keys [OF d] loads_key_def)
  show "decryptChatContent wc db (chat_text atts data iv keys) u = Ok SENT_BEFORE"
    if "map_of keys u = None"
    using l that
    by (simp add: decryptChatContent_def parse_chat_text chat_fields map_of_keys [OF d] loads_key_def falsy_def)
qed

section \<open>Properties of chat encryption\<close>

text \<open>A device that holds the private half of a published key.\<close>

definition holds_key :: "('aes, 'pub, 'priv) webcrypto \<Rightarrow> key_db \<Rightarrow> nat \<Rightarrow> bytes \<Rightarrow> bool" where
  "holds_key wc db u pk \<longleftrightarrow>
     (\<exists>priv. loads_key wc db u priv \<and> (\<forall>pub. import_spki wc pk = Some pub \<longrightarrow> key_pair wc pub priv))"

lemma unwrap_chat_text:
  assumes "loads_key wc db u priv" "distinct (map fst keys)"
  shows "unwrapChatKey wc db (chat_text atts data iv keys) u =
    (case map_of keys u of
       None \<Rightarrow> Ok None
     | Some wk \<Rightarrow> (case rsa_decrypt wc priv wk of
                     None \<Rightarrow> Ok None | Some raw \<Rightarrow> map_sum id Some (subtle (import_raw wc raw))))"
  using assms
  by (auto simp: unwrapChatKey_def parse_chat_text chat_fields map_of_keys loads_key_def falsy_def json_of_bytes_def
      split: option.split)
     (simp_all add: new_Uint8Array_bytes [unfolded json_of_bytes_def])

text \<open>
  C4: Every recipient of a chat message whose device holds the private key of the public key it
  was sealed for reads exactly the text, gets the attachments' descriptors, and unwraps the key
  that opens the attached files.
\<close>

theorem chat_recipients_read:
  assumes "webcrypto_ok wc" "buildChatEnvelope wc iv m k rs atts = Ok e"
    and "distinct (map fst rs)" "(u, pk) \<in> set rs" "holds_key wc db u pk"
  shows "isEncryptedChatContent e \<and> decryptChatContent wc db e u = Ok m
    \<and> parseChatAttachments e = JArr (map attachment_json (nullish atts []))
    \<and> unwrapChatKey wc db e u = Ok (Some k)
    \<and> (\<forall>f iv2. case encryptChatFile wc iv2 k f of (c, v) \<Rightarrow> decryptChatFile wc k c v = Ok f)"
proof -
  obtain keys where w: "wrap_keys wc (export_raw wc k) rs [] = Ok keys"
    and e: "e = chat_text atts (aes_encrypt wc k iv (utf8_encode wc m)) iv keys"
    using assms(2) by (rule buildChatEnvelope_text)
  obtain priv where l: "loads_key wc db u priv" and kp: "\<forall>pub. import_spki wc pk = Some pub \<longrightarrow> key_pair wc pub priv"
    using assms(5) by (auto simp: holds_key_def)
  have one: "\<forall>q. (u, q) \<in> set rs \<longrightarrow> q = pk" using assms(3,4) by (meson eq_key_imp_eq_value)
  have d: "distinct (map fst keys)" using w by (rule wrap_keys_distinct) simp_all
  obtain pub c where c: "import_spki wc pk = Some pub" "rsa_encrypt wc pub (export_raw wc k) = Some c"
    "map_of keys u = Some c" using wrap_keys_slot [OF w assms(4) one] by blast
  then have "rsa_decrypt wc priv c = Some (export_raw wc k)" using kp by (auto simp: key_pair_def)
  then have "unwrapChatKey wc db e u = Ok (Some k)"
    using c(3) by (simp add: e unwrap_chat_text [OF l d] webcrypto_okD(3) [OF assms(1)])
  moreover have "decryptChatContent wc db e u = Ok m"
    unfolding e by (rule chat.recipient_reads [OF assms(1) w assms(4) one l kp])
  moreover have "isEncryptedChatContent e" by (simp add: isEncryptedChatContent_def e parse_chat_text)
  moreover have "parseChatAttachments e = JArr (map attachment_json (nullish atts []))"
    by (auto simp: parseChatAttachments_def e parse_chat_text field_def envelope_json_def attachment_members_def
        split: option.split list.split)
  moreover have "\<forall>f iv2. case encryptChatFile wc iv2 k f of (c, v) \<Rightarrow> decryptChatFile wc k c v = Ok f"
    by (simp add: encryptChatFile_def decryptChatFile_def webcrypto_okD(1) [OF assms(1)])
  ultimately show ?thesis by blast
qed

text \<open>
  Someone the sender had no key for sees the notice that the message was sent before they set
  up encryption, and gets no attachment key; a device without the private key sees that the
  message is unavailable there. Neither is an error, and a plaintext message is shown as it is.
\<close>

theorem chat_outsiders_refused:
  assumes "buildChatEnvelope wc iv m k rs atts = Ok e" "u \<notin> fst ` set rs" "loads_key wc db u priv"
    and "loadPrivateKey wc (Some v) None db2 = Ok (None, db3)"
    and "\<not> starts_with CHAT_E2E_PREFIX plain"
  shows "decryptChatContent wc db e u = Ok SENT_BEFORE \<and> unwrapChatKey wc db e u = Ok None
    \<and> decryptChatContent wc db2 e v = Ok UNAVAILABLE \<and> unwrapChatKey wc db2 e v = Ok None
    \<and> decryptChatContent wc db plain w = Ok plain"
proof -
  obtain keys where w: "wrap_keys wc (export_raw wc k) rs [] = Ok keys"
    and e: "e = chat_text atts (aes_encrypt wc k iv (utf8_encode wc m)) iv keys"
    using assms(1) by (rule buildChatEnvelope_text)
  have d: "distinct (map fst keys)" using w by (rule wrap_keys_distinct) simp_all
  have "map_of keys u = None" using wrap_keys_absent [OF w assms(2)] by simp
  then have "unwrapChatKey wc db e u = Ok None" by (simp add: e unwrap_chat_text [OF assms(3) d])
  moreover have "decryptChatContent wc db e u = Ok SENT_BEFORE"
    unfolding e by (rule chat.outsider_refused [OF w assms(2,3)])
  moreover have "decryptChatContent wc db2 e v = Ok UNAVAILABLE" "unwrapChatKey wc db2 e v = Ok None"
    using assms(4) by (simp_all add: decryptChatContent_def unwrapChatKey_def e parse_chat_text chat_fields)
  moreover have "decryptChatContent wc db plain w = Ok plain"
    using assms(5) by (simp add: decryptChatContent_def parseEnvelope_def)
  ultimately show ?thesis by blast
qed

lemma decryptChatContent_total:
  assumes "loadPrivateKey wc (Some u) None db = Ok q"
  shows "\<exists>t. decryptChatContent wc db c u = Ok t"
  using assms parseEnvelope_keys [of c _ "nat_str u"]
  by (cases q) (fastforce simp: decryptChatContent_def split: option.split)

text \<open>
  C27: Decrypting a conversation never fails on a message's account, whatever bytes the messages
  hold: if the device's key can be looked up at all, every message comes back, in order, with its
  id, and those that are not envelopes are unchanged.
\<close>

theorem chat_list_always_decrypts:
  assumes "loadPrivateKey wc (Some u) None db = Ok q"
  shows "\<exists>out. decryptChatMessages wc db u ms = Ok out \<and> map cm_id out = map cm_id ms
    \<and> (\<forall>i < length ms. \<not> isEncryptedChatContent (cm_content (ms ! i)) \<longrightarrow> out ! i = ms ! i)"
proof (induction ms)
  case (Cons m ms)
  then obtain out where out: "decryptChatMessages wc db u ms = Ok out" "map cm_id out = map cm_id ms"
    "\<forall>i < length ms. \<not> isEncryptedChatContent (cm_content (ms ! i)) \<longrightarrow> out ! i = ms ! i" by blast
  obtain t where t: "decryptChatContent wc db (cm_content m) u = Ok t"
    using decryptChatContent_total [OF assms] by blast
  obtain x where x: "decryptChatMessage wc db u m = Ok x" "cm_id x = cm_id m"
    by (auto simp: decryptChatMessage_def Let_def t)
  have "x = m" if "\<not> isEncryptedChatContent (cm_content m)"
  proof -
    have "parseEnvelope (cm_content m) = None" using that by (simp add: isEncryptedChatContent_def)
    with x(1) show ?thesis
      by (simp add: decryptChatMessage_def parseChatAttachments_def no_elements_def decryptChatContent_def)
  qed
  with out x show ?case
    by (intro exI [of _ "x # out"]) (auto simp: nth_Cons split: nat.split)
qed simp

text \<open>The private key lookup is all that can reject: an unreadable key store rejects the list.\<close>

lemma chat_list_rejects:
  assumes "\<not> db_opens db" "isEncryptedChatContent (cm_content m)"
  shows "decryptChatMessages wc db u (m # ms) = Throw DomException"
proof -
  have "loadPrivateKey wc (Some u) None db = Throw DomException" using assms(1) by (simp add: loadPrivateKey_def)
  then show ?thesis
    using assms(2) by (auto simp: isEncryptedChatContent_def decryptChatMessage_def decryptChatContent_def Let_def)
qed

lemma demo_slots: "slots demo_keys (privateKeyId u) = (if u = Some 3 then Some [7] else None)"
proof -
  have "privateKeyId (Some 3) = privateKeyId u \<Longrightarrow> u = Some 3"
    using priv.id_inj [of "Some 3" u] by (simp add: given_id_def)
  then show ?thesis by (auto simp: demo_keys_def)
qed

lemma demo_load: "loadPrivateKey demo_crypto u None demo_keys = Ok (if u = Some 3 then Some 7 else None, demo_keys)"
proof -
  have "db_opens demo_keys" by (simp add: demo_keys_def)
  then show ?thesis
    by (simp add: loadPrivateKey_def priv.load_by_id demo_slots) (simp add: demo_crypto_def)
qed

lemma demo_holds_key: "loads_key demo_crypto demo_keys 3 7" "holds_key demo_crypto demo_keys 3 [7]"
proof -
  show l: "loads_key demo_crypto demo_keys 3 7" by (simp add: loads_key_def given_id_def demo_load)
  show "holds_key demo_crypto demo_keys 3 [7]"
    unfolding holds_key_def using l demo_key_pair(1) [of 7] by (auto simp: demo_crypto_def)
qed

lemma demo_no_key: "loadPrivateKey demo_crypto (Some 5) None demo_keys = Ok (None, demo_keys)"
  by (simp add: demo_load)

theorem chat_recipients_read_witness:
  "\<exists>e. buildChatEnvelope demo_crypto [1, 2] ''hi'' 9 [(3, [7]), (5, [8])] None = Ok e
    \<and> decryptChatContent demo_crypto demo_keys e 3 = Ok ''hi''"
proof -
  obtain e where e: "buildChatEnvelope demo_crypto [1, 2] ''hi'' 9 [(3, [7]), (5, [8])] None = Ok e"
    by (auto simp: buildChatEnvelope_def demo_crypto_def Let_def)
  show ?thesis
    using e chat_recipients_read [OF demo_crypto_ok e, of 3 "[7]" demo_keys] demo_holds_key(2) by simp
qed

theorem chat_outsiders_refused_witness:
  "\<exists>e. buildChatEnvelope demo_crypto [1, 2] ''hi'' 9 [(5, [8])] None = Ok e
    \<and> decryptChatContent demo_crypto demo_keys e 3 = Ok SENT_BEFORE
    \<and> decryptChatContent demo_crypto demo_keys e 5 = Ok UNAVAILABLE"
proof -
  obtain e where e: "buildChatEnvelope demo_crypto [1, 2] ''hi'' 9 [(5, [8])] None = Ok e"
    by (auto simp: buildChatEnvelope_def demo_crypto_def Let_def)
  have "\<not> starts_with CHAT_E2E_PREFIX ''x''" by (simp add: starts_with_def CHAT_E2E_PREFIX_def)
  with e chat_outsiders_refused [OF e _ demo_holds_key(1) demo_no_key] show ?thesis by simp
qed

theorem chat_list_always_decrypts_witness:
  "\<exists>out. decryptChatMessages demo_crypto demo_keys 5
     [\<lparr>cm_id = 1, cm_content = ''hello'', cm_attachments = None, cm_envelope = None\<rparr>] = Ok out
     \<and> map cm_id out = [1]"
  using chat_list_always_decrypts [OF demo_no_key,
      of "[\<lparr>cm_id = 1, cm_content = ''hello'', cm_attachments = None, cm_envelope = None\<rparr>]"] by auto

text \<open>
  An envelope whose key entry unwraps to something that is no AES key makes \<open>unwrapChatKey\<close>
  reject, although its contract is to answer null: the import's promise is returned from the
  \<open>try\<close> block without being awaited. Reading the text of the same envelope is not an error.
\<close>

theorem unwrap_rejects_on_bad_key:
  "\<exists>c. isEncryptedChatContent c
    \<and> unwrapChatKey demo_crypto demo_keys c 3 = Throw DomException
    \<and> decryptChatContent demo_crypto demo_keys c 3 = Ok UNAVAILABLE"
proof (intro exI conjI)
  let ?c = "chat_text None [1] [2] [(3, [7, 1, 1])]"
  show "isEncryptedChatContent ?c" by (simp add: isEncryptedChatContent_def parse_chat_text)
  show "unwrapChatKey demo_crypto demo_keys ?c 3 = Throw DomException"
    by (simp add: unwrap_chat_text [OF demo_holds_key(1)]) (simp add: demo_crypto_def)
  have "decryptMessage demo_crypto [1] [7, 1, 1] [2] 7 = Throw DomException"
    by (simp add: decryptMessage_def demo_crypto_def)
  then show "decryptChatContent demo_crypto demo_keys ?c 3 = Ok UNAVAILABLE"
    using demo_holds_key(1)
    by (simp add: decryptChatContent_def parse_chat_text chat_fields map_of_keys loads_key_def)
qed

end
