(* ===== verification/Note_Encryption.thy ===== *)
theory Note_Encryption
  imports Chat_Encryption
begin

text \<open>
  Self-encryption of owner-only text such as notes: \<open>crypto/selfEncrypt.ts\<close>, and the decryption
  of a row's encrypted fields.
\<close>

section \<open>Sealing and opening\<close>

definition self_importOwnPublicKey ::
  "('aes, 'pub, 'priv) webcrypto \<Rightarrow> nat \<Rightarrow> key_db \<Rightarrow> 'pub result" where
  "self_importOwnPublicKey wc userId db =
     bind_result (loadPublicKey (Some userId) None db) (\<lambda>(raw, _).
       case raw of
         None \<Rightarrow> Throw (Error (''No public key on this device '' @ em_dash
                   @ '' generate or restore your encryption key first.''))
       | Some r \<Rightarrow> subtle (import_spki wc r))"

definition encryptForSelf ::
  "('aes, 'pub, 'priv) webcrypto \<Rightarrow> key_db \<Rightarrow> 'aes \<Rightarrow> bytes \<Rightarrow> string \<Rightarrow> nat \<Rightarrow> string result" where
  "encryptForSelf wc db aesKey iv plaintext userId =
     (if length plaintext = 0 then Ok []
      else
        bind_result (self_importOwnPublicKey wc userId db) (\<lambda>publicKey.
        let ciphertext = aes_encrypt wc aesKey iv (utf8_encode wc plaintext);
            rawAesKey = export_raw wc aesKey
        in bind_result (subtle (rsa_encrypt wc publicKey rawAesKey)) (\<lambda>wrappedKey.
           Ok (SECURE_PREFIX @ stringify
             (envelope_json ''wayve_self_v1'' ciphertext iv [(userId, wrappedKey)] [])))))"

definition isSelfEncrypted :: "string \<Rightarrow> bool" where
  "isSelfEncrypted value = starts_with SECURE_PREFIX value"

definition encrypted_notice :: "string \<Rightarrow> string" where
  "encrypted_notice why = ''[encrypted '' @ em_dash @ '' '' @ why @ '']''"

definition decryptForSelf ::
  "('aes, 'pub, 'priv) webcrypto \<Rightarrow> key_db \<Rightarrow> string \<Rightarrow> nat \<Rightarrow> string result" where
  "decryptForSelf wc db value userId =
     (if \<not> isSelfEncrypted value then Ok value
      else (case json_parse (drop (length SECURE_PREFIX) value) of
              Inl _ \<Rightarrow> Ok (encrypted_notice ''corrupted envelope'')
            | Inr envelope \<Rightarrow>
                bind_result (js_member (Some envelope) ''type'') (\<lambda>type.
                if type \<noteq> Some (JStr ''wayve_self_v1'')
                then Ok (encrypted_notice ''unknown envelope version'')
                else
                  bind_result (js_member (field envelope ''keys'') (nat_str userId)) (\<lambda>wrappedKey.
                  if falsy wrappedKey then Ok (encrypted_notice ''no key entry for this user'')
                  else
                    bind_result (loadPrivateKey wc (Some userId) None db) (\<lambda>(privateKey, _).
                      case privateKey of
                        None \<Rightarrow> Ok (encrypted_notice ''key not on this device'')
                      | Some priv \<Rightarrow>
                          Ok (or_else (encrypted_notice ''decryption failed'')
                            (decryptMessage wc (new_Uint8Array (field envelope ''data''))
                               (new_Uint8Array wrappedKey) (new_Uint8Array (field envelope ''iv''))
                               priv)))))))"

text \<open>A row is a map from field names to values.\<close>

fun decryptFieldsForSelf ::
  "('aes, 'pub, 'priv) webcrypto \<Rightarrow> key_db \<Rightarrow> (string \<rightharpoonup> json) \<Rightarrow> nat \<Rightarrow> string list \<Rightarrow> (string \<rightharpoonup> json) result"
where
  "decryptFieldsForSelf wc db row userId [] = Ok row"
| "decryptFieldsForSelf wc db row userId (f # fs) =
     (case row f of
        Some (JStr value) \<Rightarrow>
          bind_result (decryptForSelf wc db value userId) (\<lambda>t.
            decryptFieldsForSelf wc db (row(f \<mapsto> JStr t)) userId fs)
      | _ \<Rightarrow> decryptFieldsForSelf wc db row userId fs)"

section \<open>Properties of notes\<close>

definition note_text :: "bytes \<Rightarrow> bytes \<Rightarrow> (nat \<times> bytes) list \<Rightarrow> string" where
  "note_text data iv keys = SECURE_PREFIX @ stringify (envelope_json ''wayve_self_v1'' data iv keys [])"

lemma decrypt_note_text:
  "decryptForSelf wc db (note_text data iv keys) u =
     bind_result (Ok (field (keys_json keys) (nat_str u))) (\<lambda>wrappedKey.
       if falsy wrappedKey then Ok (encrypted_notice ''no key entry for this user'')
       else
         bind_result (loadPrivateKey wc (Some u) None db) (\<lambda>(privateKey, _).
           case privateKey of
             None \<Rightarrow> Ok (encrypted_notice ''key not on this device'')
           | Some priv \<Rightarrow>
               Ok (or_else (encrypted_notice ''decryption failed'')
                 (decryptMessage wc data (new_Uint8Array wrappedKey) iv priv))))"
proof -
  have t: "js_member (Some (envelope_json k d i ks [])) ''type''
      = Ok (field (envelope_json k d i ks []) ''type'')" for k d i ks
    by (simp add: js_member_def envelope_json_def)
  show ?thesis
    by (simp add: decryptForSelf_def isSelfEncrypted_def note_text_def json_roundtrip envelope_json_ok t
        envelope_fields_json cong: if_cong option.case_cong)
qed

interpretation selfnote: mailbox note_text decryptForSelf "Ok (encrypted_notice ''no key entry for this user'')"
proof
  fix wc :: "('a, 'b, 'c) webcrypto" and db u priv and keys :: "(nat \<times> bytes) list" and wk data iv m
  assume l: "loads_key wc db u priv" and d: "distinct (map fst keys)"
  show "decryptForSelf wc db (note_text data iv keys) u = Ok m"
    if "map_of keys u = Some wk" "decryptMessage wc data wk iv priv = Ok m"
    using l that by (simp add: decrypt_note_text map_of_keys [OF d] loads_key_def)
  show "decryptForSelf wc db (note_text data iv keys) u = Ok (encrypted_notice ''no key entry for this user'')"
    if "map_of keys u = None"
    using l that by (simp add: decrypt_note_text map_of_keys [OF d] falsy_def)
qed

lemma encryptForSelf_text:
  assumes "device_keys wc db u pub priv" "webcrypto_ok wc" "m \<noteq> []"
  obtains wk where "rsa_encrypt wc pub (export_raw wc k) = Some wk"
    "rsa_decrypt wc priv wk = Some (export_raw wc k)"
    "encryptForSelf wc db k iv m u = Ok (note_text (aes_encrypt wc k iv (utf8_encode wc m)) iv [(u, wk)])"
proof -
  obtain wk where "rsa_encrypt wc pub (export_raw wc k) = Some wk" "rsa_decrypt wc priv wk = Some (export_raw wc k)"
    using device_keys_wrap [OF assms(1)] by metis
  moreover from this have "encryptForSelf wc db k iv m u
      = Ok (note_text (aes_encrypt wc k iv (utf8_encode wc m)) iv [(u, wk)])"
    using assms(3) device_keys_load(1) [OF assms(2,1)]
    by (simp add: encryptForSelf_def note_text_def self_importOwnPublicKey_def importOwnPublicKey_def)
  ultimately show thesis by (rule that)
qed

lemma encryptForSelf_wrap:
  assumes "device_keys wc db u pub priv" "webcrypto_ok wc" "m \<noteq> []"
  shows "\<exists>wk. encryptForSelf wc db k iv m u = Ok (note_text (aes_encrypt wc k iv (utf8_encode wc m)) iv [(u, wk)])
    \<and> decryptMessage wc (aes_encrypt wc k iv (utf8_encode wc m)) wk iv priv = Ok m"
proof -
  obtain wk where wk: "rsa_encrypt wc pub (export_raw wc k) = Some wk"
    "encryptForSelf wc db k iv m u = Ok (note_text (aes_encrypt wc k iv (utf8_encode wc m)) iv [(u, wk)])"
    using encryptForSelf_text [OF assms] by metis
  have "key_pair wc pub priv" using assms(1) by (simp add: device_keys_def)
  with wk show ?thesis using decryptMessage_sealed [OF assms(2)] by blast
qed

lemma note_roundtrip_one:
  assumes "webcrypto_ok wc" "device_keys wc db u pub priv"
  shows "\<exists>e. encryptForSelf wc db k iv m u = Ok e \<and> decryptForSelf wc db e u = Ok m
    \<and> isSelfEncrypted e = (m \<noteq> [])"
proof (cases "m = []")
  case True
  then show ?thesis
    by (simp add: encryptForSelf_def decryptForSelf_def isSelfEncrypted_def starts_with_def SECURE_PREFIX_def)
next
  case False
  obtain wk where wk: "encryptForSelf wc db k iv m u = Ok (note_text (aes_encrypt wc k iv (utf8_encode wc m)) iv [(u, wk)])"
    "decryptMessage wc (aes_encrypt wc k iv (utf8_encode wc m)) wk iv priv = Ok m"
    using encryptForSelf_wrap [OF assms(2,1) False] by blast
  have "decryptForSelf wc db (note_text (aes_encrypt wc k iv (utf8_encode wc m)) iv [(u, wk)]) u = Ok m"
    using wk(2) device_keys_load(2) [OF assms]
    by (simp add: decrypt_note_text map_of_keys)
  with wk(1) False show ?thesis by (simp add: isSelfEncrypted_def note_text_def)
qed

text \<open>
  Text encrypted for oneself is read back as it was on a device with the keys; the empty text
  stays empty and is not an envelope; another user is told that the envelope has no entry for
  them, and text that was never encrypted is returned unchanged.
\<close>

theorem note_roundtrip:
  assumes "webcrypto_ok wc" "device_keys wc db u pub priv" "v \<noteq> u" "m \<noteq> []" "\<not> isSelfEncrypted plain"
  shows "(\<exists>e. encryptForSelf wc db k iv m u = Ok e \<and> isSelfEncrypted e
      \<and> decryptForSelf wc db e u = Ok m
      \<and> decryptForSelf wc db2 e v = Ok (encrypted_notice ''no key entry for this user''))
    \<and> encryptForSelf wc db k iv [] u = Ok [] \<and> decryptForSelf wc db [] u = Ok []
    \<and> decryptForSelf wc db2 plain v = Ok plain"
proof -
  obtain wk where e: "encryptForSelf wc db k iv m u = Ok (note_text (aes_encrypt wc k iv (utf8_encode wc m)) iv [(u, wk)])"
    using encryptForSelf_wrap [OF assms(2,1,4)] by blast
  have "decryptForSelf wc db2 (note_text (aes_encrypt wc k iv (utf8_encode wc m)) iv [(u, wk)]) v
      = Ok (encrypted_notice ''no key entry for this user'')"
    using assms(3) by (simp add: decrypt_note_text map_of_keys falsy_def)
  with e note_roundtrip_one [OF assms(1,2), of k iv m] note_roundtrip_one [OF assms(1,2), of k iv "[]"] assms(4)
  show ?thesis using assms(5) by (auto simp: decryptForSelf_def encryptForSelf_def)
qed

text \<open>What the callers store: the named string fields of a row, each sealed under its own key.\<close>

definition field_sealed ::
  "('aes, 'pub, 'priv) webcrypto \<Rightarrow> key_db \<Rightarrow> nat \<Rightarrow> (string \<rightharpoonup> json) \<Rightarrow> (string \<rightharpoonup> json) \<Rightarrow> string \<Rightarrow> bool" where
  "field_sealed wc db u row stored f \<longleftrightarrow>
     (case row f of
        Some (JStr s) \<Rightarrow> \<exists>e k iv. encryptForSelf wc db k iv s u = Ok e \<and> stored f = Some (JStr e)
      | v \<Rightarrow> stored f = v)"

lemma decrypt_fields_step:
  assumes "webcrypto_ok wc" "device_keys wc db u pub priv" "field_sealed wc db u row stored f"
  shows "\<exists>s. decryptFieldsForSelf wc db stored u (f # fs) = decryptFieldsForSelf wc db s u fs
    \<and> s f = row f \<and> (\<forall>g. g \<noteq> f \<longrightarrow> s g = stored g)"
proof (cases "\<exists>t. row f = Some (JStr t)")
  case True
  then obtain t where t: "row f = Some (JStr t)" by blast
  then obtain e k iv where e: "encryptForSelf wc db k iv t u = Ok e" "stored f = Some (JStr e)"
    using assms(3) by (auto simp: field_sealed_def)
  then have "decryptForSelf wc db e u = Ok t"
    using note_roundtrip_one [OF assms(1,2), of k iv t] by simp
  then show ?thesis using e t by (intro exI [of _ "stored(f \<mapsto> JStr t)"]) simp
next
  case False
  then have "stored f = row f" using assms(3)
    by (auto simp: field_sealed_def split: option.splits json.splits)
  then show ?thesis using False by (intro exI [of _ stored]) (simp split: option.split json.split)
qed

text \<open>
  A row whose listed fields were encrypted before it was stored comes back as it was: the
  listed string fields are decrypted, values of other types and all other fields are untouched.
\<close>

theorem row_roundtrip:
  assumes "webcrypto_ok wc" "device_keys wc db u pub priv" "distinct fs"
    and "\<forall>f \<in> set fs. field_sealed wc db u row stored f" "\<forall>f. f \<notin> set fs \<longrightarrow> stored f = row f"
  shows "decryptFieldsForSelf wc db stored u fs = Ok row"
  using assms(3-5)
proof (induction fs arbitrary: stored)
  case Nil
  then have "stored = row" by (intro ext) simp
  then show ?case by simp
next
  case (Cons f fs)
  then obtain s where s: "decryptFieldsForSelf wc db stored u (f # fs) = decryptFieldsForSelf wc db s u fs"
    "s f = row f" "\<forall>g. g \<noteq> f \<longrightarrow> s g = stored g"
    using decrypt_fields_step [OF assms(1,2)] by (metis list.set_intros(1))
  have "decryptFieldsForSelf wc db s u fs = Ok row"
  proof (rule Cons.IH)
    show "distinct fs" using Cons.prems(1) by simp
    show "\<forall>g \<in> set fs. field_sealed wc db u row s g"
    proof
      fix g assume "g \<in> set fs"
      then have "s g = stored g" "field_sealed wc db u row stored g" using Cons.prems(1,2) s(3) by auto
      then show "field_sealed wc db u row s g" unfolding field_sealed_def by (simp only:)
    qed
    show "\<forall>g. g \<notin> set fs \<longrightarrow> s g = row g"
    proof (intro allI impI)
      fix g assume "g \<notin> set fs"
      then show "s g = row g" using Cons.prems(3) s(2,3) by (cases "g = f") simp_all
    qed
  qed
  with s(1) show ?case by simp
qed

text \<open>
  The decoder promises a placeholder instead of an error, but an envelope of the right type
  without a \<open>keys\<close> object, and the JSON text \<open>null\<close> behind the prefix, both make it throw.
\<close>

theorem note_without_keys_throws:
  "isSelfEncrypted (SECURE_PREFIX @ stringify (JObj [(''type'', JStr ''wayve_self_v1'')]))
   \<and> decryptForSelf wc db (SECURE_PREFIX @ stringify (JObj [(''type'', JStr ''wayve_self_v1'')])) u = Throw TypeError
   \<and> decryptForSelf wc db (SECURE_PREFIX @ stringify JNull) u = Throw TypeError"
proof -
  have "json_parse (stringify JNull) = Ok JNull" by (rule json_roundtrip) simp
  moreover have "json_parse (stringify (JObj [(''type'', JStr ''wayve_self_v1'')]))
      = Ok (JObj [(''type'', JStr ''wayve_self_v1'')])" by (rule json_roundtrip) simp
  ultimately show ?thesis
    by (simp add: decryptForSelf_def isSelfEncrypted_def js_member_def field_def del: stringify.simps)
qed

theorem note_roundtrip_witness:
  "\<exists>e. encryptForSelf demo_crypto demo_keys 9 [1, 2] ''milk'' 3 = Ok e
    \<and> decryptForSelf demo_crypto demo_keys e 3 = Ok ''milk''"
proof -
  have "\<not> isSelfEncrypted ''x''" by (simp add: isSelfEncrypted_def starts_with_def SECURE_PREFIX_def)
  then show ?thesis
    using note_roundtrip [OF demo_crypto_ok demo_keys_ok, of 5 "''milk''" "''x''" 9 "[1, 2]" demo_keys] by auto
qed

theorem row_roundtrip_witness:
  "\<exists>e. decryptFieldsForSelf demo_crypto demo_keys [''title'' \<mapsto> JStr e, ''id'' \<mapsto> JNum ''4''] 3 [''title'', ''id'']
     = Ok [''title'' \<mapsto> JStr ''milk'', ''id'' \<mapsto> JNum ''4'']"
proof -
  obtain e where e: "encryptForSelf demo_crypto demo_keys 9 [1, 2] ''milk'' 3 = Ok e"
    using note_roundtrip_one [OF demo_crypto_ok demo_keys_ok] by blast
  have "decryptFieldsForSelf demo_crypto demo_keys [''title'' \<mapsto> JStr e, ''id'' \<mapsto> JNum ''4''] 3 [''title'', ''id'']
     = Ok [''title'' \<mapsto> JStr ''milk'', ''id'' \<mapsto> JNum ''4'']"
    by (rule row_roundtrip [OF demo_crypto_ok demo_keys_ok]) (use e in \<open>auto simp: field_sealed_def\<close>)
  then show ?thesis by (rule exI [of _ e])
qed

end
