(* ===== verification/Mail_Encryption.thy ===== *)
theory Mail_Encryption
  imports Chat_Encryption
begin

text \<open>
  Encrypted mail: the envelope a sender builds for Wayve recipients
  (\<open>emails/internalEnvelope.ts\<close>) and the reader of a mail body (\<open>emails/bodyUtils.ts\<close>), which
  recognises an envelope even when a mail system has wrapped it in HTML. The browser's HTML
  parser is the argument \<open>html\<close>: the text content of a body after the listed node edits.
\<close>

section \<open>Plain text of a body\<close>

definition letter :: "char \<Rightarrow> bool" where
  "letter c \<longleftrightarrow> 65 \<le> code c \<and> code c \<le> 90 \<or> 97 \<le> code c \<and> code c \<le> 122"

text \<open>\<open>/[<&][a-zA-Z#/!]/.test(body)\<close>.\<close>

fun isHtmlBody :: "string \<Rightarrow> bool" where
  "isHtmlBody (c # d # s) \<longleftrightarrow>
     (c = CHR ''<'' \<or> c = CHR ''&'') \<and> (letter d \<or> d = CHR ''#'' \<or> d = CHR ''/'' \<or> d = CHR ''!'')
     \<or> isHtmlBody (d # s)"
| "isHtmlBody _ \<longleftrightarrow> False"

definition blank :: "char \<Rightarrow> bool" where
  "blank c \<longleftrightarrow> c = CHR '' '' \<or> code c = 9"

definition newline :: "char \<Rightarrow> bool" where
  "newline c \<longleftrightarrow> code c = 10"

text \<open>\<open>replace(/[ \t]+\n/g, "\n")\<close>, \<open>replace(/\n[ \t]+/g, "\n")\<close>, \<open>replace(/[ \t]{2,}/g, " ")\<close> and
  \<open>replace(/\n{3,}/g, "\n\n")\<close>.\<close>

definition strip_before_newline :: "string \<Rightarrow> string" where
  "strip_before_newline s =
     foldr (\<lambda>c r. if blank c \<and> r \<noteq> [] \<and> newline (hd r) then r else c # r) s []"

fun strip_after_newline :: "bool \<Rightarrow> string \<Rightarrow> string" where
  "strip_after_newline after [] = []"
| "strip_after_newline after (c # s) =
     (if after \<and> blank c then strip_after_newline True s else c # strip_after_newline (newline c) s)"

fun squeeze_blanks :: "string \<Rightarrow> string" where
  "squeeze_blanks (c # d # s) =
     (if blank c \<and> blank d then squeeze_blanks (CHR '' '' # s) else c # squeeze_blanks (d # s))"
| "squeeze_blanks s = s"

fun cap_newlines :: "nat \<Rightarrow> string \<Rightarrow> string" where
  "cap_newlines n [] = []"
| "cap_newlines n (c # s) =
     (if newline c then (if n < 2 then c # cap_newlines (Suc n) s else cap_newlines n s)
      else c # cap_newlines 0 s)"

definition normalizeEmailBody :: "(string \<Rightarrow> string) \<Rightarrow> string \<Rightarrow> string" where
  "normalizeEmailBody html body =
     (if \<not> isHtmlBody body then body
      else
        let t = (if html body = [] then body else html body)
        in trim (cap_newlines 0 (squeeze_blanks (strip_after_newline False (strip_before_newline
             (map (\<lambda>c. if code c = 160 then CHR '' '' else c) t))))))"

section \<open>Building and parsing\<close>

definition buildInternalEnvelope ::
  "('aes, 'pub, 'priv) webcrypto \<Rightarrow> 'aes \<Rightarrow> bytes \<Rightarrow> string \<Rightarrow> (nat \<times> bytes) list \<Rightarrow> string result" where
  "buildInternalEnvelope wc aesKey iv plaintextBody recipients =
     (if length recipients = 0
      then Throw (Error ''buildInternalEnvelope: at least one recipient is required'')
      else
        let ciphertext = aes_encrypt wc aesKey iv (utf8_encode wc plaintextBody);
            rawAes = export_raw wc aesKey
        in bind_result (wrap_keys wc rawAes recipients []) (\<lambda>wrappedKeys.
           Ok (SECURE_PREFIX @ stringify
             (envelope_json ''wayve_encrypted_multi'' ciphertext iv wrappedKeys []))))"

datatype body_envelope =
    Single json json json \<comment> \<open>data, key, iv\<close>
  | Multi json json json \<comment> \<open>data, iv, keys\<close>

definition indexOf :: "char \<Rightarrow> string \<Rightarrow> nat option" where
  "indexOf c s = (if c \<in> set s then Some (length (takeWhile (\<lambda>d. d \<noteq> c) s)) else None)"

definition lastIndexOf :: "char \<Rightarrow> string \<Rightarrow> nat option" where
  "lastIndexOf c s = map_option (\<lambda>i. length s - 1 - i) (indexOf c (rev s))"

definition is_object :: "json option \<Rightarrow> bool" where
  "is_object v = (case v of Some (JArr _) \<Rightarrow> True | Some (JObj _) \<Rightarrow> True | _ \<Rightarrow> False)"

definition parseWayveEncryptedBody :: "(string \<Rightarrow> string) \<Rightarrow> string \<Rightarrow> body_envelope option result" where
  "parseWayveEncryptedBody html body =
     (let trimmed = trim (normalizeEmailBody html body) in
      if \<not> starts_with ''WAYVE_SECURE_V1'' trimmed then Ok None
      else (case indexOf (CHR ''{'') trimmed of
              None \<Rightarrow> Throw (Error ''Encrypted Fluxze email is missing its payload'')
            | Some jsonStart \<Rightarrow>
                (case lastIndexOf (CHR ''}'') trimmed of
                   None \<Rightarrow> Throw (Error ''Encrypted Fluxze email payload is incomplete'')
                 | Some jsonEnd \<Rightarrow>
                     if jsonEnd < jsonStart
                     then Throw (Error ''Encrypted Fluxze email payload is incomplete'')
                     else
                       bind_result (json_parse (drop jsonStart (take (jsonEnd + 1) trimmed))) (\<lambda>parsed.
                       if field parsed ''type'' = Some (JStr ''wayve_encrypted'')
                          \<and> is_array (field parsed ''data'') \<and> is_array (field parsed ''key'')
                          \<and> is_array (field parsed ''iv'')
                       then Ok (Some (Single (the (field parsed ''data'')) (the (field parsed ''key''))
                              (the (field parsed ''iv''))))
                       else if field parsed ''type'' = Some (JStr ''wayve_encrypted_multi'')
                          \<and> is_array (field parsed ''data'') \<and> is_array (field parsed ''iv'')
                          \<and> is_object (field parsed ''keys'')
                       then Ok (Some (Multi (the (field parsed ''data'')) (the (field parsed ''iv''))
                              (the (field parsed ''keys''))))
                       else Throw (Error ''Encrypted Fluxze email payload is invalid'')))))"

section \<open>Reading a body\<close>

text \<open>The message of a thrown \<open>Error\<close>; \<open>None\<close> for any other thrown value.\<close>

definition has_part :: "string \<Rightarrow> string \<Rightarrow> bool" where
  "has_part p s = list_ex (\<lambda>i. starts_with p (drop i s)) [0..<Suc (length s)]"

definition emailBodyErrorMessage :: "string option \<Rightarrow> string" where
  "emailBodyErrorMessage err =
     (let message = nullish err [] in
      if has_part ''private key'' message \<or> has_part ''decrypt'' message
         \<or> has_part ''operation failed'' message
      then ''Unable to decrypt this fully encrypted email on this device. Sign out and back in to refresh your Fluxze encryption key, then ask the sender to resend it.''
      else if message \<noteq> [] then message
      else ''Failed to load email body. Try again.'')"

definition isGmailReconnectError :: "string option \<Rightarrow> bool" where
  "isGmailReconnectError message = has_part ''reconnect'' (toLowerCase (nullish message []))"

fun try_keys :: "('aes, 'pub, 'priv) webcrypto \<Rightarrow> bytes \<Rightarrow> bytes \<Rightarrow> bytes \<Rightarrow> 'priv list \<Rightarrow> js_error option
    \<Rightarrow> string result" where
  "try_keys wc data wrapped iv [] lastError = Throw (nullish lastError (Error ''Unable to decrypt Fluxze email''))"
| "try_keys wc data wrapped iv (privateKey # ks) lastError =
     (case decryptMessage wc data wrapped iv privateKey of
        Inr m \<Rightarrow> Ok m
      | Inl err \<Rightarrow> try_keys wc data wrapped iv ks (Some err))"

definition wrapped_for :: "body_envelope \<Rightarrow> nat option \<Rightarrow> json option result" where
  "wrapped_for encrypted userId =
     (case encrypted of
        Single data key iv \<Rightarrow> Ok (Some key)
      | Multi data iv keys \<Rightarrow>
          if \<not> given_id userId
          then Throw (Error (''Multi-recipient Fluxze email decryption requires a userId '' @ em_dash
                 @ '' no slot to read from `keys`.''))
          else bind_result (js_member (Some keys) (nat_str (the userId))) (\<lambda>slot.
                 if falsy slot
                 then Throw (Error (''No wrapped key for this user in the email envelope '' @ em_dash
                        @ '' the sender did not include you.''))
                 else Ok slot))"

fun sealed_parts :: "body_envelope \<Rightarrow> bytes \<times> bytes" where
  "sealed_parts (Single data key iv) = (new_Uint8Array (Some data), new_Uint8Array (Some iv))"
| "sealed_parts (Multi data iv keys) = (new_Uint8Array (Some data), new_Uint8Array (Some iv))"

text \<open>Two lookups give two key objects, so the legacy key is always tried second.\<close>

definition body_keys :: "('aes, 'pub, 'priv) webcrypto \<Rightarrow> key_db \<Rightarrow> nat option \<Rightarrow> 'priv list result" where
  "body_keys wc db userId =
     bind_result (loadPrivateKey wc userId None db) (\<lambda>(scoped, _).
     bind_result (if given_id userId then loadPrivateKey wc None None db else Ok (None, db)) (\<lambda>(legacy, _).
       Ok ((case scoped of None \<Rightarrow> [] | Some k \<Rightarrow> [k]) @ (case legacy of None \<Rightarrow> [] | Some k \<Rightarrow> [k]))))"

definition decryptWayveBodyIfNeeded ::
  "('aes, 'pub, 'priv) webcrypto \<Rightarrow> (string \<Rightarrow> string) \<Rightarrow> key_db \<Rightarrow> string \<Rightarrow> nat option \<Rightarrow> string result" where
  "decryptWayveBodyIfNeeded wc html db body userId =
     bind_result (parseWayveEncryptedBody html body) (\<lambda>encrypted.
       case encrypted of
         None \<Rightarrow> Ok body
       | Some e \<Rightarrow>
           bind_result (body_keys wc db userId) (\<lambda>privateKeys.
           if privateKeys = [] then Throw (Error ''This device does not have your Fluxze private key'')
           else
             bind_result (wrapped_for e userId) (\<lambda>wrapped.
             case sealed_parts e of (data, iv) \<Rightarrow>
               try_keys wc data (new_Uint8Array wrapped) iv privateKeys None)))"

section \<open>An envelope's text\<close>

text \<open>Characters that the JSON syntax itself never prints.\<close>

fun clean :: "char \<Rightarrow> json \<Rightarrow> bool" where
  "clean c (JNum t) \<longleftrightarrow> c \<notin> set t"
| "clean c (JStr s) \<longleftrightarrow> c \<notin> set s"
| "clean c (JArr vs) \<longleftrightarrow> (\<forall>v \<in> set vs. clean c v)"
| "clean c (JObj ms) \<longleftrightarrow> (\<forall>m \<in> set ms. c \<notin> set (fst m) \<and> clean c (snd m))"
| "clean c _ \<longleftrightarrow> True"

definition markup :: "char \<Rightarrow> bool" where
  "markup c \<longleftrightarrow> c = CHR ''<'' \<or> c = CHR ''&''"

lemma hex_digit_plain: "n < 16 \<Longrightarrow> code (hex_digit n) \<notin> {38, 60}"
  by (auto simp: hex_digit_def)

lemma escape_markup:
  assumes "markup c" "c \<in> set (escape_char d)"
  shows "c = d"
proof -
  have hex: "hex_digit n \<noteq> c" if "n < 16" for n
  proof
    assume "hex_digit n = c"
    then have "code (hex_digit n) \<in> {38, 60}" using assms(1) by (auto simp: markup_def code_def)
    then show False using hex_digit_plain [OF that] by simp
  qed
  have "code d div 16 < 16" "code d mod 16 < 16" using code_less [of d] by linarith+
  then have h: "c \<noteq> hex_digit (code d div 16)" "c \<noteq> hex_digit (code d mod 16)" using hex by metis+
  consider "c = CHR ''<''" | "c = CHR ''&''" using assms(1) by (auto simp: markup_def)
  then show ?thesis using assms(2) h
    by cases (simp_all add: escape_char_def split: if_splits)
qed

lemma quote_markup:
  assumes "markup c" "c \<notin> set s"
  shows "c \<notin> set (quote s)"
proof -
  have "\<forall>d \<in> set s. c \<notin> set (escape_char d)" using assms escape_markup by blast
  moreover have "c \<noteq> CHR 0x22" using assms(1) by (auto simp: markup_def)
  ultimately show ?thesis by (simp add: quote_def)
qed

lemma markup_syntax:
  assumes "markup c"
  shows "c \<noteq> CHR ''n''" "c \<noteq> CHR ''u''" "c \<noteq> CHR ''l''" "c \<noteq> CHR ''t''" "c \<noteq> CHR ''r''"
    "c \<noteq> CHR ''e''" "c \<noteq> CHR ''f''" "c \<noteq> CHR ''a''" "c \<noteq> CHR ''s''" "c \<noteq> CHR ''[''"
    "c \<noteq> CHR '']''" "c \<noteq> CHR ''{''" "c \<noteq> CHR ''}''" "c \<noteq> CHR '':''" "c \<noteq> CHR '',''"
  using assms by (auto simp: markup_def)

lemma stringify_clean:
  "markup c \<Longrightarrow> clean c v \<Longrightarrow> c \<notin> set (stringify v)"
  "markup c \<Longrightarrow> \<forall>v \<in> set vs. clean c v \<Longrightarrow> c \<notin> set (stringify_elems vs)"
  "markup c \<Longrightarrow> \<forall>m \<in> set ms. c \<notin> set (fst m) \<and> clean c (snd m) \<Longrightarrow> c \<notin> set (stringify_members ms)"
  by (induction v and vs and ms rule: stringify_stringify_elems_stringify_members.induct)
     (simp_all add: quote_markup markup_syntax)

lemma clean_nat: "markup c \<Longrightarrow> c \<notin> set (nat_str n)"
  using nat_str_digits [of c n] by (auto simp: markup_def is_digit_def code_def)

lemma clean_bytes: "markup c \<Longrightarrow> clean c (json_of_bytes bs)"
  by (simp add: json_of_bytes_def json_of_nat_def clean_nat)

lemma clean_envelope:
  "markup c \<Longrightarrow> c \<notin> set kind \<Longrightarrow> clean c (envelope_json kind data iv keys [])"
  by (auto simp: envelope_json_def keys_json_def clean_bytes clean_nat) (auto simp: markup_def)

lemma no_markup_not_html: "\<forall>c. markup c \<longrightarrow> c \<notin> set s \<Longrightarrow> \<not> isHtmlBody s"
proof (induction s rule: isHtmlBody.induct)
  case (1 c d s)
  then have "\<not> markup c" by auto
  then show ?case using 1 by (simp add: markup_def)
qed simp_all

lemma stringify_object_ends: "\<exists>t. stringify (JObj ms) = CHR ''{'' # t @ ''}''"
proof -
  have "\<exists>t. stringify_members ms = t @ ''}''"
  proof (induction ms)
    case Nil
    show ?case by (rule exI [of _ "[]"]) simp
  next
    case (Cons m ms)
    then obtain t where "stringify_members ms = t @ ''}''" by blast
    then show ?case by (cases m; cases ms) (simp_all flip: append_assoc append_Cons)
  qed
  then show ?thesis by auto
qed

lemma trim_ends: "\<not> js_space c \<Longrightarrow> \<not> js_space d \<Longrightarrow> trim (c # t @ [d]) = c # t @ [d]"
  by (simp add: trim_trimmed trimmed_def)

lemma braces_of_body:
  assumes "t = SECURE_PREFIX @ CHR ''{'' # u @ ''}''"
  shows "trim t = t" "starts_with ''WAYVE_SECURE_V1'' t" "indexOf (CHR ''{'') t = Some (length SECURE_PREFIX)"
    "lastIndexOf (CHR ''}'') t = Some (length t - 1)"
proof -
  have "\<not> js_space (CHR ''W'')" "\<not> js_space (CHR ''}'')" by (simp_all add: js_space_def code_def)
  then show "trim t = t"
    using trim_ends [of "CHR ''W''" "CHR ''}''" "tl SECURE_PREFIX @ CHR ''{'' # u"]
    by (simp add: assms SECURE_PREFIX_def)
  show "starts_with ''WAYVE_SECURE_V1'' t" by (simp add: starts_with_def assms SECURE_PREFIX_def)
  have "CHR ''{'' \<notin> set SECURE_PREFIX" by (simp add: SECURE_PREFIX_def)
  then have "takeWhile (\<lambda>d. d \<noteq> CHR ''{'') t = SECURE_PREFIX"
    unfolding assms by (subst takeWhile_append2) auto
  then show "indexOf (CHR ''{'') t = Some (length SECURE_PREFIX)"
    by (simp add: indexOf_def) (simp add: assms)
  show "lastIndexOf (CHR ''}'') t = Some (length t - 1)"
    by (simp add: lastIndexOf_def indexOf_def assms)
qed

definition mail_text :: "json \<Rightarrow> string" where
  "mail_text v = SECURE_PREFIX @ stringify v"

lemma parse_mail_text:
  assumes "json_ok (JObj ms)" "\<forall>c. markup c \<longrightarrow> clean c (JObj ms)"
  shows "parseWayveEncryptedBody html (mail_text (JObj ms)) =
    (let parsed = JObj ms in
     if field parsed ''type'' = Some (JStr ''wayve_encrypted'')
        \<and> is_array (field parsed ''data'') \<and> is_array (field parsed ''key'') \<and> is_array (field parsed ''iv'')
     then Ok (Some (Single (the (field parsed ''data'')) (the (field parsed ''key'')) (the (field parsed ''iv''))))
     else if field parsed ''type'' = Some (JStr ''wayve_encrypted_multi'')
        \<and> is_array (field parsed ''data'') \<and> is_array (field parsed ''iv'') \<and> is_object (field parsed ''keys'')
     then Ok (Some (Multi (the (field parsed ''data'')) (the (field parsed ''iv'')) (the (field parsed ''keys''))))
     else Throw (Error ''Encrypted Fluxze email payload is invalid''))"
proof -
  let ?t = "mail_text (JObj ms)"
  obtain u where "stringify (JObj ms) = CHR ''{'' # u @ ''}''" using stringify_object_ends by blast
  then have t: "?t = SECURE_PREFIX @ CHR ''{'' # u @ ''}''" by (simp add: mail_text_def)
  have "\<not> isHtmlBody ?t"
  proof (rule no_markup_not_html, intro allI impI)
    fix c assume c: "markup c"
    then have "c \<notin> set SECURE_PREFIX" by (auto simp: SECURE_PREFIX_def markup_def)
    moreover have "c \<notin> set (stringify (JObj ms))" using stringify_clean(1) [OF c] assms(2) c by blast
    ultimately show "c \<notin> set ?t" by (simp add: mail_text_def del: stringify.simps)
  qed
  then have n: "normalizeEmailBody html ?t = ?t" by (simp add: normalizeEmailBody_def)
  have "drop (length SECURE_PREFIX) ?t = stringify (JObj ms)" by (simp add: mail_text_def)
  moreover have "take (length ?t - 1 + 1) ?t = ?t" "\<not> length ?t - 1 < length SECURE_PREFIX"
    by (simp_all add: t)
  ultimately show ?thesis
    unfolding parseWayveEncryptedBody_def n Let_def braces_of_body(1) [OF t] braces_of_body(3,4) [OF t]
    using braces_of_body(2) [OF t] json_roundtrip [OF assms(1)]
    by (simp only: option.case if_False if_True bind_result_simps not_True_eq_False)
qed

section \<open>Properties of mail encryption\<close>

definition multi_text :: "bytes \<Rightarrow> bytes \<Rightarrow> (nat \<times> bytes) list \<Rightarrow> string" where
  "multi_text data iv keys = mail_text (envelope_json ''wayve_encrypted_multi'' data iv keys [])"

lemma parse_multi_text [codec_simps]:
  "parseWayveEncryptedBody html (multi_text data iv keys)
     = Ok (Some (Multi (json_of_bytes data) (json_of_bytes iv) (keys_json keys)))"
proof -
  let ?e = "envelope_json ''wayve_encrypted_multi'' data iv keys []"
  obtain ms where ms: "?e = JObj ms" by (simp add: envelope_json_def)
  have "json_ok ?e" by (rule envelope_json_ok) simp
  moreover have "\<forall>c. markup c \<longrightarrow> clean c ?e" by (auto intro: clean_envelope simp: markup_def)
  ultimately have "parseWayveEncryptedBody html (mail_text ?e) = (let parsed = ?e in
     if field parsed ''type'' = Some (JStr ''wayve_encrypted'')
        \<and> is_array (field parsed ''data'') \<and> is_array (field parsed ''key'') \<and> is_array (field parsed ''iv'')
     then Ok (Some (Single (the (field parsed ''data'')) (the (field parsed ''key'')) (the (field parsed ''iv''))))
     else if field parsed ''type'' = Some (JStr ''wayve_encrypted_multi'')
        \<and> is_array (field parsed ''data'') \<and> is_array (field parsed ''iv'') \<and> is_object (field parsed ''keys'')
     then Ok (Some (Multi (the (field parsed ''data'')) (the (field parsed ''iv'')) (the (field parsed ''keys''))))
     else Throw (Error ''Encrypted Fluxze email payload is invalid''))"
    unfolding ms by (rule parse_mail_text)
  moreover have "is_object (Some (keys_json keys))" by (simp add: is_object_def keys_json_def)
  ultimately show ?thesis by (simp add: multi_text_def envelope_fields_json)
qed

text \<open>The envelope the server builds for mail that arrives unencrypted: one wrapped key.\<close>

definition single_json :: "bytes \<Rightarrow> bytes \<Rightarrow> bytes \<Rightarrow> (string \<times> json) list" where
  "single_json data key iv =
     [(''type'', JStr ''wayve_encrypted''), (''data'', json_of_bytes data), (''key'', json_of_bytes key),
      (''iv'', json_of_bytes iv)]"

lemma parse_single_text [codec_simps]:
  "parseWayveEncryptedBody html (mail_text (JObj (single_json data key iv)))
     = Ok (Some (Single (json_of_bytes data) (json_of_bytes key) (json_of_bytes iv)))"
proof -
  have "json_ok (JObj (single_json data key iv))" by (auto simp: single_json_def)
  moreover have "\<forall>c. markup c \<longrightarrow> clean c (JObj (single_json data key iv))"
    by (auto simp: single_json_def clean_bytes) (auto simp: markup_def)
  ultimately show ?thesis by (simp add: parse_mail_text) (simp add: field_def single_json_def)
qed

lemma body_keys_loads:
  assumes "loads_key wc db u priv"
  shows "\<exists>ks. body_keys wc db (Some u) = Ok (priv # ks)"
  using assms by (auto simp: loads_key_def body_keys_def)

interpretation mail: mailbox multi_text "\<lambda>wc db body u. decryptWayveBodyIfNeeded wc html db body (Some u)"
    "Throw (Error (''No wrapped key for this user in the email envelope '' @ em_dash
       @ '' the sender did not include you.''))" for html
proof
  fix wc :: "('a, 'b, 'c) webcrypto" and db u priv and keys :: "(nat \<times> bytes) list" and wk data iv m
  assume l: "loads_key wc db u priv" and d: "distinct (map fst keys)"
  obtain ks where ks: "body_keys wc db (Some u) = Ok (priv # ks)" using body_keys_loads [OF l] by (rule exE)
  have g: "given_id (Some u)" using l by (simp add: loads_key_def)
  show "decryptWayveBodyIfNeeded wc html db (multi_text data iv keys) (Some u) = Ok m"
    if "map_of keys u = Some wk" "decryptMessage wc data wk iv priv = Ok m"
    using that g
    by (simp add: decryptWayveBodyIfNeeded_def parse_multi_text ks wrapped_for_def map_of_keys [OF d])
  show "decryptWayveBodyIfNeeded wc html db (multi_text data iv keys) (Some u)
      = Throw (Error (''No wrapped key for this user in the email envelope '' @ em_dash
          @ '' the sender did not include you.''))"
    if "map_of keys u = None"
    using that g
    by (simp add: decryptWayveBodyIfNeeded_def parse_multi_text ks wrapped_for_def map_of_keys [OF d] falsy_def)
qed

text \<open>
  C13: A mail sealed for a list of recipients reads back as the exact body for every recipient on
  whose device the key of the address list is, whatever the browser's HTML parser would do,
  since an envelope never looks like HTML; a reader without an entry is told so; a body that is
  not an envelope is shown unchanged; and an empty recipient list is refused.
\<close>

theorem mail_recipients_read:
  assumes "webcrypto_ok wc" "buildInternalEnvelope wc k iv m rs = Ok e"
    and "distinct (map fst rs)" "(u, pk) \<in> set rs" "holds_key wc db u pk"
    and "v \<notin> fst ` set rs" "loads_key wc db2 v priv"
    and "\<not> starts_with ''WAYVE_SECURE_V1'' (trim (normalizeEmailBody html plain))"
  shows "decryptWayveBodyIfNeeded wc html db e (Some u) = Ok m
    \<and> decryptWayveBodyIfNeeded wc html db2 e (Some v)
        = Throw (Error (''No wrapped key for this user in the email envelope '' @ em_dash
            @ '' the sender did not include you.''))
    \<and> decryptWayveBodyIfNeeded wc html db plain w = Ok plain
    \<and> buildInternalEnvelope wc k iv m []
        = Throw (Error ''buildInternalEnvelope: at least one recipient is required'')"
proof -
  obtain keys where w: "wrap_keys wc (export_raw wc k) rs [] = Ok keys"
    and e: "e = multi_text (aes_encrypt wc k iv (utf8_encode wc m)) iv keys"
    using assms(2)
    by (auto simp: buildInternalEnvelope_def multi_text_def mail_text_def Let_def bind_result_Ok_iff split: if_splits)
  obtain p where l: "loads_key wc db u p" and kp: "\<forall>pub. import_spki wc pk = Some pub \<longrightarrow> key_pair wc pub p"
    using assms(5) by (auto simp: holds_key_def)
  have one: "\<forall>q. (u, q) \<in> set rs \<longrightarrow> q = pk" using assms(3,4) by (meson eq_key_imp_eq_value)
  have "decryptWayveBodyIfNeeded wc html db e (Some u) = Ok m"
    unfolding e by (rule mail.recipient_reads [OF assms(1) w assms(4) one l kp])
  moreover note mail.outsider_refused [OF w assms(6,7), of html, folded e]
  moreover have "decryptWayveBodyIfNeeded wc html db plain w = Ok plain"
    using assms(8) by (simp add: decryptWayveBodyIfNeeded_def parseWayveEncryptedBody_def)
  ultimately show ?thesis by (simp add: e buildInternalEnvelope_def)
qed

text \<open>
  A body sealed under one key (mail that arrived before keys were scoped to users) opens with
  the device's unscoped key when the user's own key does not fit, and with neither the error is
  the last attempt's; with no key at all the reader is told that the device has none.
\<close>

theorem legacy_key_still_opens:
  assumes "loadPrivateKey wc (Some u) None db = Ok (Some p, db)" "loadPrivateKey wc None None db = Ok (Some q, db)"
    and "given_id (Some u)" "decryptMessage wc data wk iv p = Throw err"
    and "loadPrivateKey wc (Some v) None db2 = Ok (None, db2)" "loadPrivateKey wc None None db2 = Ok (None, db2)"
  shows "decryptWayveBodyIfNeeded wc html db (mail_text (JObj (single_json data wk iv))) (Some u)
      = decryptMessage wc data wk iv q
    \<and> decryptWayveBodyIfNeeded wc html db2 (mail_text (JObj (single_json data wk iv))) (Some v)
      = Throw (Error ''This device does not have your Fluxze private key'')"
proof -
  have "body_keys wc db (Some u) = Ok [p, q]" using assms(1-3) by (simp add: body_keys_def)
  moreover have "body_keys wc db2 (Some v) = Ok []" using assms(5,6) by (simp add: body_keys_def)
  ultimately show ?thesis
    using assms(4)
    by (simp add: decryptWayveBodyIfNeeded_def parse_single_text wrapped_for_def split: sum.split)
qed

theorem mail_recipients_read_witness:
  "\<exists>e. buildInternalEnvelope demo_crypto 9 [1, 2] ''hi'' [(3, [7]), (5, [8])] = Ok e
    \<and> decryptWayveBodyIfNeeded demo_crypto id demo_keys e (Some 3) = Ok ''hi''"
proof -
  obtain e where e: "buildInternalEnvelope demo_crypto 9 [1, 2] ''hi'' [(3, [7]), (5, [8])] = Ok e"
    by (auto simp: buildInternalEnvelope_def demo_crypto_def Let_def)
  define db2 where "db2 = \<lparr>db_opens = True, slots = [privateKeyId (Some 4) \<mapsto> [7]]\<rparr>"
  have ne: "privateKeyId (Some 4) \<noteq> privateKeyId None"
    using priv.id_inj [of "Some 4" None] by (auto simp: given_id_def)
  have "loadPrivateKey demo_crypto (Some 4) None db2 = Ok (Some 7, db2)"
    by (rule loadPrivateKey_slot [OF _ _ demo_crypto_ok]) (simp_all add: db2_def demo_crypto_def)
  moreover have "loadPrivateKey demo_crypto None None db2 = Ok (None, db2)"
    using ne by (simp add: loadPrivateKey_def priv.load_by_id) (simp add: db2_def)
  ultimately have "loads_key demo_crypto db2 4 7" by (simp add: loads_key_def given_id_def)
  moreover have "\<not> starts_with ''WAYVE_SECURE_V1'' (trim (normalizeEmailBody id ''x''))"
    by (simp add: normalizeEmailBody_def trim_def js_space_def code_def starts_with_def)
  ultimately show ?thesis
    using e mail_recipients_read [OF demo_crypto_ok e, of 3 "[7]" demo_keys 4 db2 7 id "''x''"] demo_holds_key(2)
    by simp
qed

theorem legacy_key_still_opens_witness:
  "\<exists>db. decryptWayveBodyIfNeeded demo_crypto id db
      (mail_text (JObj (single_json [9, 2, 1, 2, 104] [8, 9] [1, 2]))) (Some 3) = Ok ''h''"
proof -
  define db where "db = \<lparr>db_opens = True,
    slots = [privateKeyId (Some 3) \<mapsto> export_pkcs8 demo_crypto 7, privateKeyId None \<mapsto> export_pkcs8 demo_crypto 8]\<rparr>"
  have ne: "privateKeyId (Some 3) \<noteq> privateKeyId None"
    using priv.id_inj [of "Some 3" None] by (auto simp: given_id_def)
  then have l: "loadPrivateKey demo_crypto (Some 3) None db = Ok (Some 7, db)"
    "loadPrivateKey demo_crypto None None db = Ok (Some 8, db)"
    by (auto simp: db_def intro!: loadPrivateKey_slot [OF _ _ demo_crypto_ok])
  have "decryptMessage demo_crypto [9, 2, 1, 2, 104] [8, 9] [1, 2] 7 = Throw DomException"
    "decryptMessage demo_crypto [9, 2, 1, 2, 104] [8, 9] [1, 2] 8 = Ok ''h''"
    by (simp_all add: decryptMessage_def demo_crypto_def char_of_eq_iff code_def)
  moreover have "loadPrivateKey demo_crypto u None demo_db = Ok (None, demo_db)" for u
    by (simp add: loadPrivateKey_def priv.load_by_id demo_db_def)
  ultimately show ?thesis
    using legacy_key_still_opens [OF l, of "[9, 2, 1, 2, 104]" "[8, 9]" "[1, 2]" DomException 5 demo_db id]
    by (auto simp: given_id_def)
qed

end
