(* ===== verification/Bit_Strings.thy ===== *)
theory Bit_Strings
  imports Js_String "HOL-Library.Word"
begin

text \<open>
  Numbers as strings of binary digits, the way the recovery-phrase code handles them:
  \<open>n.toString(2).padStart(w, "0")\<close> and \<open>parseInt(s, 2)\<close>, and slicing a long string of bits into
  fields of one width.
\<close>

section \<open>Binary numerals\<close>

fun bin_str :: "nat \<Rightarrow> string" where
  "bin_str n = (if n < 2 then [digit n] else bin_str (n div 2) @ [digit (n mod 2)])"

declare bin_str.simps [simp del]

definition padStart :: "nat \<Rightarrow> string \<Rightarrow> string" where
  "padStart w s = replicate (w - length s) (CHR ''0'') @ s"

text \<open>\<open>parseInt(s, 2)\<close> for a non-empty string of binary digits.\<close>

definition bin_val :: "string \<Rightarrow> nat" where
  "bin_val s = foldl (\<lambda>n c. 2 * n + digit_val c) 0 s"

definition is_bits :: "string \<Rightarrow> bool" where
  "is_bits s = list_all (\<lambda>c. c = CHR ''0'' \<or> c = CHR ''1'') s"

lemma digit_chars: "digit 0 = CHR ''0''" "digit 1 = CHR ''1''" "digit (Suc 0) = CHR ''1''"
  by (simp_all add: digit_def char_of_eq_iff code_def)

lemma bit_vals [simp]: "digit_val (CHR ''0'') = 0" "digit_val (CHR ''1'') = 1"
  by (simp_all add: digit_val_def code_def)

lemma is_bits_simps [simp]:
  "is_bits []" "is_bits (c # s) \<longleftrightarrow> (c = CHR ''0'' \<or> c = CHR ''1'') \<and> is_bits s"
  "is_bits (s @ t) \<longleftrightarrow> is_bits s \<and> is_bits t" "is_bits (replicate n (CHR ''0''))"
  by (auto simp: is_bits_def list_all_iff)

lemma is_bits_take_drop: "is_bits s \<Longrightarrow> is_bits (take n s)" "is_bits s \<Longrightarrow> is_bits (drop n s)"
  by (auto simp: is_bits_def list_all_iff dest: in_set_takeD in_set_dropD)

lemma is_bits_concat: "(\<And>s. s \<in> set ss \<Longrightarrow> is_bits s) \<Longrightarrow> is_bits (concat ss)"
  by (induction ss) simp_all

lemma bin_val_append [simp]: "bin_val (s @ [c]) = 2 * bin_val s + digit_val c"
  by (simp add: bin_val_def)

lemma bin_val_Nil [simp]: "bin_val [] = 0"
  by (simp add: bin_val_def)

lemma bin_val_zeros: "bin_val (replicate n (CHR ''0'') @ s) = bin_val s"
proof -
  have "foldl (\<lambda>n c. 2 * n + digit_val c) 0 (replicate n (CHR ''0'')) = 0" by (induction n) simp_all
  then show ?thesis by (simp add: bin_val_def)
qed

lemma bin_str_bits: "is_bits (bin_str n)"
proof (induction n rule: bin_str.induct)
  case (1 n)
  have "digit (n mod 2) = CHR ''0'' \<or> digit (n mod 2) = CHR ''1''"
    by (cases "n mod 2 = 0") (simp_all add: digit_chars mod_2_eq_odd)
  then show ?case using 1 by (subst bin_str.simps) (auto simp: digit_chars less_2_cases_iff)
qed

lemma bin_val_bin_str [simp]: "bin_val (bin_str n) = n"
proof (induction n rule: bin_str.induct)
  case (1 n)
  then show ?case by (subst bin_str.simps) (auto simp: bin_val_def less_2_cases_iff)
qed

lemma length_bin_str: "n < 2 ^ w \<Longrightarrow> 0 < w \<Longrightarrow> length (bin_str n) \<le> w"
proof (induction n arbitrary: w rule: bin_str.induct)
  case (1 n)
  show ?case
  proof (cases "n < 2")
    case True
    then show ?thesis using 1(3) by (subst bin_str.simps) simp
  next
    case False
    obtain v where w: "w = Suc v" using 1(3) by (cases w) auto
    have "v \<noteq> 0" using False 1(2) w by (intro notI) simp
    with w have v: "w = Suc v" "0 < v" by simp_all
    then have "length (bin_str (n div 2)) \<le> v" using 1(1) [OF False, of v] 1(2) by auto
    then show ?thesis using False v by (subst bin_str.simps) simp
  qed
qed

lemma bin_val_less: "is_bits s \<Longrightarrow> bin_val s < 2 ^ length s"
  by (induction s rule: rev_induct) auto

lemma bin_val_inj: "is_bits s \<Longrightarrow> is_bits t \<Longrightarrow> length s = length t \<Longrightarrow> bin_val s = bin_val t \<Longrightarrow> s = t"
proof (induction s arbitrary: t rule: rev_induct)
  case (snoc c s)
  then obtain u d where t: "t = u @ [d]" by (cases t rule: rev_cases) auto
  have b: "digit_val c \<le> 1" "digit_val d \<le> 1" using snoc.prems(1,2) t by auto
  have "2 * bin_val s + digit_val c = 2 * bin_val u + digit_val d" using snoc.prems(4) t by simp
  with b have e: "bin_val s = bin_val u" "digit_val c = digit_val d" by presburger+
  have "s = u" using snoc.prems t e(1) by (intro snoc.IH) simp_all
  moreover have "c = d" using snoc.prems(1,2) t e(2) by auto
  ultimately show ?case using t by simp
qed simp

section \<open>Fields of a fixed width\<close>

definition bits_of :: "nat \<Rightarrow> nat \<Rightarrow> string" where
  "bits_of w n = padStart w (bin_str n)"

lemma bits_of_facts [simp]:
  assumes "n < 2 ^ w" "0 < w"
  shows "length (bits_of w n) = w" "bin_val (bits_of w n) = n"
  using length_bin_str [OF assms] by (simp_all add: bits_of_def padStart_def bin_val_zeros)

lemma bits_of_bits [simp]: "is_bits (bits_of w n)"
  by (simp add: bits_of_def padStart_def bin_str_bits)

lemma bits_of_bin_val: "is_bits s \<Longrightarrow> s \<noteq> [] \<Longrightarrow> bits_of (length s) (bin_val s) = s"
  using bin_val_less [of s] by (intro bin_val_inj) simp_all

interpretation binary: coder "bits_of w" "\<lambda>s. Some (bin_val s)" "\<lambda>n. n < 2 ^ w \<and> 0 < w" for w
  by unfold_locales simp

text \<open>The \<open>i\<close>-th field of a string: \<open>bits.slice(i * w, (i + 1) * w)\<close>.\<close>

definition slice_field :: "nat \<Rightarrow> string \<Rightarrow> nat \<Rightarrow> string" where
  "slice_field w s i = take w (drop (i * w) s)"

lemma slice_concat:
  "\<forall>x \<in> set xs. length x = w \<Longrightarrow> i < length xs \<Longrightarrow> slice_field w (concat xs @ r) i = xs ! i"
proof (induction xs arbitrary: i)
  case (Cons x xs)
  then show ?case by (cases i) (simp_all add: slice_field_def)
qed simp

lemma concat_slices: "length s = w * m \<Longrightarrow> concat (map (slice_field w s) [0..<m]) = s"
proof (induction m arbitrary: s)
  case (Suc m)
  have "map (slice_field w s) [0..<Suc m] = take w s # map (slice_field w (drop w s)) [0..<m]"
    by (simp add: upt_conv_Cons slice_field_def map_Suc_upt [symmetric] comp_def add.commute del: upt_Suc)
  moreover have "concat (map (slice_field w (drop w s)) [0..<m]) = drop w s" using Suc by simp
  ultimately show ?case by simp
qed simp

lemma slice_field_bits: "is_bits s \<Longrightarrow> is_bits (slice_field w s i)"
  by (simp add: slice_field_def is_bits_take_drop)

lemma slice_field_length: "length s = w * m \<Longrightarrow> i < m \<Longrightarrow> length (slice_field w s i) = w"
proof -
  assume "length s = w * m" "i < m"
  then have "(i + 1) * w \<le> length s" by (metis Suc_eq_plus1 Suc_leI mult.commute mult_le_mono2)
  then show ?thesis by (simp add: slice_field_def)
qed

end
