(* ===== verification/Wordlist.thy ===== *)
theory Wordlist
  imports Js_String
begin

text \<open>
  The 2048 words of the recovery phrase, \<open>crypto/wordlist.ts\<close>, in blocks of 147 so that each
  block is evaluated on its own. The list is strictly ascending, hence without duplicates, and
  every word is made of lower-case letters: a word and its index determine each other.
\<close>

section \<open>The list\<close>

definition BIP39_1 :: "string list" where
  "BIP39_1 = [''abandon'', ''ability'', ''able'', ''about'', ''above'', ''absent'', ''absorb'',
     ''abstract'', ''absurd'', ''abuse'', ''access'', ''accident'', ''account'', ''accuse'',
     ''achieve'', ''acid'', ''acoustic'', ''acquire'', ''across'', ''act'', ''action'', ''actor'',
     ''actress'', ''actual'', ''adapt'', ''add'', ''addict'', ''address'', ''adjust'', ''admit'',
     ''adult'', ''advance'', ''advice'', ''aerobic'', ''affair'', ''afford'', ''afraid'',
     ''again'', ''age'', ''agent'', ''agree'', ''ahead'', ''aim'', ''air'', ''airport'', ''aisle'',
     ''alarm'', ''album'', ''alcohol'', ''alert'', ''alien'', ''all'', ''alley'', ''allow'',
     ''almost'', ''alone'', ''alpha'', ''already'', ''also'', ''alter'', ''always'', ''amateur'',
     ''amazing'', ''among'', ''amount'', ''amused'', ''analyst'', ''anchor'', ''ancient'',
     ''anger'', ''angle'', ''angry'', ''animal'', ''ankle'', ''announce'', ''annual'', ''another'',
     ''answer'', ''antenna'', ''antique'', ''anxiety'', ''any'', ''apart'', ''apology'',
     ''appear'', ''apple'', ''approve'', ''april'', ''arch'', ''arctic'', ''area'', ''arena'',
     ''argue'', ''arm'', ''armed'', ''armor'', ''army'', ''around'', ''arrange'', ''arrest'',
     ''arrive'', ''arrow'', ''art'', ''artefact'', ''artist'', ''artwork'', ''ask'', ''aspect'',
     ''assault'', ''asset'', ''assist'', ''assume'', ''asthma'', ''athlete'', ''atom'', ''attack'',
     ''attend'', ''attitude'', ''attract'', ''auction'', ''audit'', ''august'', ''aunt'',
     ''author'', ''auto'', ''autumn'', ''average'', ''avocado'', ''avoid'', ''awake'', ''aware'',
     ''away'', ''awesome'', ''awful'', ''awkward'', ''axis'', ''baby'', ''bachelor'', ''bacon'',
     ''badge'', ''bag'', ''balance'', ''balcony'', ''ball'', ''bamboo'', ''banana'', ''banner'']"

definition BIP39_2 :: "string list" where
  "BIP39_2 = [''bar'', ''barely'', ''bargain'', ''barrel'', ''base'', ''basic'', ''basket'',
     ''battle'', ''beach'', ''bean'', ''beauty'', ''because'', ''become'', ''beef'', ''before'',
     ''begin'', ''behave'', ''behind'', ''believe'', ''below'', ''belt'', ''bench'', ''benefit'',
     ''best'', ''betray'', ''better'', ''between'', ''beyond'', ''bicycle'', ''bid'', ''bike'',
     ''bind'', ''biology'', ''bird'', ''birth'', ''bitter'', ''black'', ''blade'', ''blame'',
     ''blanket'', ''blast'', ''bleak'', ''bless'', ''blind'', ''blood'', ''blossom'', ''blouse'',
     ''blue'', ''blur'', ''blush'', ''board'', ''boat'', ''body'', ''boil'', ''bomb'', ''bone'',
     ''bonus'', ''book'', ''boost'', ''border'', ''boring'', ''borrow'', ''boss'', ''bottom'',
     ''bounce'', ''box'', ''boy'', ''bracket'', ''brain'', ''brand'', ''brass'', ''brave'',
     ''bread'', ''breeze'', ''brick'', ''bridge'', ''brief'', ''bright'', ''bring'', ''brisk'',
     ''broccoli'', ''broken'', ''bronze'', ''broom'', ''brother'', ''brown'', ''brush'',
     ''bubble'', ''buddy'', ''budget'', ''buffalo'', ''build'', ''bulb'', ''bulk'', ''bullet'',
     ''bundle'', ''bunker'', ''burden'', ''burger'', ''burst'', ''bus'', ''business'', ''busy'',
     ''butter'', ''buyer'', ''buzz'', ''cabbage'', ''cabin'', ''cable'', ''cactus'', ''cage'',
     ''cake'', ''call'', ''calm'', ''camera'', ''camp'', ''can'', ''canal'', ''cancel'', ''candy'',
     ''cannon'', ''canoe'', ''canvas'', ''canyon'', ''capable'', ''capital'', ''captain'', ''car'',
     ''carbon'', ''card'', ''cargo'', ''carpet'', ''carry'', ''cart'', ''case'', ''cash'',
     ''casino'', ''castle'', ''casual'', ''cat'', ''catalog'', ''catch'', ''category'', ''cattle'',
     ''caught'', ''cause'', ''caution'']"

definition BIP39_3 :: "string list" where
  "BIP39_3 = [''cave'', ''ceiling'', ''celery'', ''cement'', ''census'', ''century'', ''cereal'',
     ''certain'', ''chair'', ''chalk'', ''champion'', ''change'', ''chaos'', ''chapter'',
     ''charge'', ''chase'', ''chat'', ''cheap'', ''check'', ''cheese'', ''chef'', ''cherry'',
     ''chest'', ''chicken'', ''chief'', ''child'', ''chimney'', ''choice'', ''choose'',
     ''chronic'', ''chuckle'', ''chunk'', ''churn'', ''cigar'', ''cinnamon'', ''circle'',
     ''citizen'', ''city'', ''civil'', ''claim'', ''clap'', ''clarify'', ''claw'', ''clay'',
     ''clean'', ''clerk'', ''clever'', ''click'', ''client'', ''cliff'', ''climb'', ''clinic'',
     ''clip'', ''clock'', ''clog'', ''close'', ''cloth'', ''cloud'', ''clown'', ''club'',
     ''clump'', ''cluster'', ''clutch'', ''coach'', ''coast'', ''coconut'', ''code'', ''coffee'',
     ''coil'', ''coin'', ''collect'', ''color'', ''column'', ''combine'', ''come'', ''comfort'',
     ''comic'', ''common'', ''company'', ''concert'', ''conduct'', ''confirm'', ''congress'',
     ''connect'', ''consider'', ''control'', ''convince'', ''cook'', ''cool'', ''copper'',
     ''copy'', ''coral'', ''core'', ''corn'', ''correct'', ''cost'', ''cotton'', ''couch'',
     ''country'', ''couple'', ''course'', ''cousin'', ''cover'', ''coyote'', ''crack'', ''cradle'',
     ''craft'', ''cram'', ''crane'', ''crash'', ''crater'', ''crawl'', ''crazy'', ''cream'',
     ''credit'', ''creek'', ''crew'', ''cricket'', ''crime'', ''crisp'', ''critic'', ''crop'',
     ''cross'', ''crouch'', ''crowd'', ''crucial'', ''cruel'', ''cruise'', ''crumble'', ''crunch'',
     ''crush'', ''cry'', ''crystal'', ''cube'', ''culture'', ''cup'', ''cupboard'', ''curious'',
     ''current'', ''curtain'', ''curve'', ''cushion'', ''custom'', ''cute'', ''cycle'', ''dad'',
     ''damage'']"

definition BIP39_4 :: "string list" where
  "BIP39_4 = [''damp'', ''dance'', ''danger'', ''daring'', ''dash'', ''daughter'', ''dawn'',
     ''day'', ''deal'', ''debate'', ''debris'', ''decade'', ''december'', ''decide'', ''decline'',
     ''decorate'', ''decrease'', ''deer'', ''defense'', ''define'', ''defy'', ''degree'',
     ''delay'', ''deliver'', ''demand'', ''demise'', ''denial'', ''dentist'', ''deny'', ''depart'',
     ''depend'', ''deposit'', ''depth'', ''deputy'', ''derive'', ''describe'', ''desert'',
     ''design'', ''desk'', ''despair'', ''destroy'', ''detail'', ''detect'', ''develop'',
     ''device'', ''devote'', ''diagram'', ''dial'', ''diamond'', ''diary'', ''dice'', ''diesel'',
     ''diet'', ''differ'', ''digital'', ''dignity'', ''dilemma'', ''dinner'', ''dinosaur'',
     ''direct'', ''dirt'', ''disagree'', ''discover'', ''disease'', ''dish'', ''dismiss'',
     ''disorder'', ''display'', ''distance'', ''divert'', ''divide'', ''divorce'', ''dizzy'',
     ''doctor'', ''document'', ''dog'', ''doll'', ''dolphin'', ''domain'', ''donate'', ''donkey'',
     ''donor'', ''door'', ''dose'', ''double'', ''dove'', ''draft'', ''dragon'', ''drama'',
     ''drastic'', ''draw'', ''dream'', ''dress'', ''drift'', ''drill'', ''drink'', ''drip'',
     ''drive'', ''drop'', ''drum'', ''dry'', ''duck'', ''dumb'', ''dune'', ''during'', ''dust'',
     ''dutch'', ''duty'', ''dwarf'', ''dynamic'', ''eager'', ''eagle'', ''early'', ''earn'',
     ''earth'', ''easily'', ''east'', ''easy'', ''echo'', ''ecology'', ''economy'', ''edge'',
     ''edit'', ''educate'', ''effort'', ''egg'', ''eight'', ''either'', ''elbow'', ''elder'',
     ''electric'', ''elegant'', ''element'', ''elephant'', ''elevator'', ''elite'', ''else'',
     ''embark'', ''embody'', ''embrace'', ''emerge'', ''emotion'', ''employ'', ''empower'',
     ''empty'', ''enable'', ''enact'']"

definition BIP39_5 :: "string list" where
  "BIP39_5 = [''end'', ''endless'', ''endorse'', ''enemy'', ''energy'', ''enforce'', ''engage'',
     ''engine'', ''enhance'', ''enjoy'', ''enlist'', ''enough'', ''enrich'', ''enroll'',
     ''ensure'', ''enter'', ''entire'', ''entry'', ''envelope'', ''episode'', ''equal'', ''equip'',
     ''era'', ''erase'', ''erode'', ''erosion'', ''error'', ''erupt'', ''escape'', ''essay'',
     ''essence'', ''estate'', ''eternal'', ''ethics'', ''evidence'', ''evil'', ''evoke'',
     ''evolve'', ''exact'', ''example'', ''excess'', ''exchange'', ''excite'', ''exclude'',
     ''excuse'', ''execute'', ''exercise'', ''exhaust'', ''exhibit'', ''exile'', ''exist'',
     ''exit'', ''exotic'', ''expand'', ''expect'', ''expire'', ''explain'', ''expose'',
     ''express'', ''extend'', ''extra'', ''eye'', ''eyebrow'', ''fabric'', ''face'', ''faculty'',
     ''fade'', ''faint'', ''faith'', ''fall'', ''false'', ''fame'', ''family'', ''famous'',
     ''fan'', ''fancy'', ''fantasy'', ''farm'', ''fashion'', ''fat'', ''fatal'', ''father'',
     ''fatigue'', ''fault'', ''favorite'', ''feature'', ''february'', ''federal'', ''fee'',
     ''feed'', ''feel'', ''female'', ''fence'', ''festival'', ''fetch'', ''fever'', ''few'',
     ''fiber'', ''fiction'', ''field'', ''figure'', ''file'', ''film'', ''filter'', ''final'',
     ''find'', ''fine'', ''finger'', ''finish'', ''fire'', ''firm'', ''first'', ''fiscal'',
     ''fish'', ''fit'', ''fitness'', ''fix'', ''flag'', ''flame'', ''flash'', ''flat'', ''flavor'',
     ''flee'', ''flight'', ''flip'', ''float'', ''flock'', ''floor'', ''flower'', ''fluid'',
     ''flush'', ''fly'', ''foam'', ''focus'', ''fog'', ''foil'', ''fold'', ''follow'', ''food'',
     ''foot'', ''force'', ''forest'', ''forget'', ''fork'', ''fortune'', ''forum'', ''forward'']"

definition BIP39_6 :: "string list" where
  "BIP39_6 = [''fossil'', ''foster'', ''found'', ''fox'', ''fragile'', ''frame'', ''frequent'',
     ''fresh'', ''friend'', ''fringe'', ''frog'', ''front'', ''frost'', ''frown'', ''frozen'',
     ''fruit'', ''fuel'', ''fun'', ''funny'', ''furnace'', ''fury'', ''future'', ''gadget'',
     ''gain'', ''galaxy'', ''gallery'', ''game'', ''gap'', ''garage'', ''garbage'', ''garden'',
     ''garlic'', ''garment'', ''gas'', ''gasp'', ''gate'', ''gather'', ''gauge'', ''gaze'',
     ''general'', ''genius'', ''genre'', ''gentle'', ''genuine'', ''gesture'', ''ghost'',
     ''giant'', ''gift'', ''giggle'', ''ginger'', ''giraffe'', ''girl'', ''give'', ''glad'',
     ''glance'', ''glare'', ''glass'', ''glide'', ''glimpse'', ''globe'', ''gloom'', ''glory'',
     ''glove'', ''glow'', ''glue'', ''goat'', ''goddess'', ''gold'', ''good'', ''goose'',
     ''gorilla'', ''gospel'', ''gossip'', ''govern'', ''gown'', ''grab'', ''grace'', ''grain'',
     ''grant'', ''grape'', ''grass'', ''gravity'', ''great'', ''green'', ''grid'', ''grief'',
     ''grit'', ''grocery'', ''group'', ''grow'', ''grunt'', ''guard'', ''guess'', ''guide'',
     ''guilt'', ''guitar'', ''gun'', ''gym'', ''habit'', ''hair'', ''half'', ''hammer'',
     ''hamster'', ''hand'', ''happy'', ''harbor'', ''hard'', ''harsh'', ''harvest'', ''hat'',
     ''have'', ''hawk'', ''hazard'', ''head'', ''health'', ''heart'', ''heavy'', ''hedgehog'',
     ''height'', ''hello'', ''helmet'', ''help'', ''hen'', ''hero'', ''hidden'', ''high'',
     ''hill'', ''hint'', ''hip'', ''hire'', ''history'', ''hobby'', ''hockey'', ''hold'', ''hole'',
     ''holiday'', ''hollow'', ''home'', ''honey'', ''hood'', ''hope'', ''horn'', ''horror'',
     ''horse'', ''hospital'', ''host'', ''hotel'']"

definition BIP39_7 :: "string list" where
  "BIP39_7 = [''hour'', ''hover'', ''hub'', ''huge'', ''human'', ''humble'', ''humor'',
     ''hundred'', ''hungry'', ''hunt'', ''hurdle'', ''hurry'', ''hurt'', ''husband'', ''hybrid'',
     ''ice'', ''icon'', ''idea'', ''identify'', ''idle'', ''ignore'', ''ill'', ''illegal'',
     ''illness'', ''image'', ''imitate'', ''immense'', ''immune'', ''impact'', ''impose'',
     ''improve'', ''impulse'', ''inch'', ''include'', ''income'', ''increase'', ''index'',
     ''indicate'', ''indoor'', ''industry'', ''infant'', ''inflict'', ''inform'', ''inhale'',
     ''inherit'', ''initial'', ''inject'', ''injury'', ''inmate'', ''inner'', ''innocent'',
     ''input'', ''inquiry'', ''insane'', ''insect'', ''inside'', ''inspire'', ''install'',
     ''intact'', ''interest'', ''into'', ''invest'', ''invite'', ''involve'', ''iron'', ''island'',
     ''isolate'', ''issue'', ''item'', ''ivory'', ''jacket'', ''jaguar'', ''jar'', ''jazz'',
     ''jealous'', ''jeans'', ''jelly'', ''jewel'', ''job'', ''join'', ''joke'', ''journey'',
     ''joy'', ''judge'', ''juice'', ''jump'', ''jungle'', ''junior'', ''junk'', ''just'',
     ''kangaroo'', ''keen'', ''keep'', ''ketchup'', ''key'', ''kick'', ''kid'', ''kidney'',
     ''kind'', ''kingdom'', ''kiss'', ''kit'', ''kitchen'', ''kite'', ''kitten'', ''kiwi'',
     ''knee'', ''knife'', ''knock'', ''know'', ''lab'', ''label'', ''labor'', ''ladder'', ''lady'',
     ''lake'', ''lamp'', ''language'', ''laptop'', ''large'', ''later'', ''latin'', ''laugh'',
     ''laundry'', ''lava'', ''law'', ''lawn'', ''lawsuit'', ''layer'', ''lazy'', ''leader'',
     ''leaf'', ''learn'', ''leave'', ''lecture'', ''left'', ''leg'', ''legal'', ''legend'',
     ''leisure'', ''lemon'', ''lend'', ''length'', ''lens'', ''leopard'', ''lesson'', ''letter'']"

definition BIP39_8 :: "string list" where
  "BIP39_8 = [''level'', ''liar'', ''liberty'', ''library'', ''license'', ''life'', ''lift'',
     ''light'', ''like'', ''limb'', ''limit'', ''link'', ''lion'', ''liquid'', ''list'',
     ''little'', ''live'', ''lizard'', ''load'', ''loan'', ''lobster'', ''local'', ''lock'',
     ''logic'', ''lonely'', ''long'', ''loop'', ''lottery'', ''loud'', ''lounge'', ''love'',
     ''loyal'', ''lucky'', ''luggage'', ''lumber'', ''lunar'', ''lunch'', ''luxury'', ''lyrics'',
     ''machine'', ''mad'', ''magic'', ''magnet'', ''maid'', ''mail'', ''main'', ''major'',
     ''make'', ''mammal'', ''man'', ''manage'', ''mandate'', ''mango'', ''mansion'', ''manual'',
     ''maple'', ''marble'', ''march'', ''margin'', ''marine'', ''market'', ''marriage'', ''mask'',
     ''mass'', ''master'', ''match'', ''material'', ''math'', ''matrix'', ''matter'', ''maximum'',
     ''maze'', ''meadow'', ''mean'', ''measure'', ''meat'', ''mechanic'', ''medal'', ''media'',
     ''melody'', ''melt'', ''member'', ''memory'', ''mention'', ''menu'', ''mercy'', ''merge'',
     ''merit'', ''merry'', ''mesh'', ''message'', ''metal'', ''method'', ''middle'', ''midnight'',
     ''milk'', ''million'', ''mimic'', ''mind'', ''minimum'', ''minor'', ''minute'', ''miracle'',
     ''mirror'', ''misery'', ''miss'', ''mistake'', ''mix'', ''mixed'', ''mixture'', ''mobile'',
     ''model'', ''modify'', ''mom'', ''moment'', ''monitor'', ''monkey'', ''monster'', ''month'',
     ''moon'', ''moral'', ''more'', ''morning'', ''mosquito'', ''mother'', ''motion'', ''motor'',
     ''mountain'', ''mouse'', ''move'', ''movie'', ''much'', ''muffin'', ''mule'', ''multiply'',
     ''muscle'', ''museum'', ''mushroom'', ''music'', ''must'', ''mutual'', ''myself'',
     ''mystery'', ''myth'', ''naive'', ''name'', ''napkin'']"

definition BIP39_9 :: "string list" where
  "BIP39_9 = [''narrow'', ''nasty'', ''nation'', ''nature'', ''near'', ''neck'', ''need'',
     ''negative'', ''neglect'', ''neither'', ''nephew'', ''nerve'', ''nest'', ''net'', ''network'',
     ''neutral'', ''never'', ''news'', ''next'', ''nice'', ''night'', ''noble'', ''noise'',
     ''nominee'', ''noodle'', ''normal'', ''north'', ''nose'', ''notable'', ''note'', ''nothing'',
     ''notice'', ''novel'', ''now'', ''nuclear'', ''number'', ''nurse'', ''nut'', ''oak'',
     ''obey'', ''object'', ''oblige'', ''obscure'', ''observe'', ''obtain'', ''obvious'',
     ''occur'', ''ocean'', ''october'', ''odor'', ''off'', ''offer'', ''office'', ''often'',
     ''oil'', ''okay'', ''old'', ''olive'', ''olympic'', ''omit'', ''once'', ''one'', ''onion'',
     ''online'', ''only'', ''open'', ''opera'', ''opinion'', ''oppose'', ''option'', ''orange'',
     ''orbit'', ''orchard'', ''order'', ''ordinary'', ''organ'', ''orient'', ''original'',
     ''orphan'', ''ostrich'', ''other'', ''outdoor'', ''outer'', ''output'', ''outside'', ''oval'',
     ''oven'', ''over'', ''own'', ''owner'', ''oxygen'', ''oyster'', ''ozone'', ''pact'',
     ''paddle'', ''page'', ''pair'', ''palace'', ''palm'', ''panda'', ''panel'', ''panic'',
     ''panther'', ''paper'', ''parade'', ''parent'', ''park'', ''parrot'', ''party'', ''pass'',
     ''patch'', ''path'', ''patient'', ''patrol'', ''pattern'', ''pause'', ''pave'', ''payment'',
     ''peace'', ''peanut'', ''pear'', ''peasant'', ''pelican'', ''pen'', ''penalty'', ''pencil'',
     ''people'', ''pepper'', ''perfect'', ''permit'', ''person'', ''pet'', ''phone'', ''photo'',
     ''phrase'', ''physical'', ''piano'', ''picnic'', ''picture'', ''piece'', ''pig'', ''pigeon'',
     ''pill'', ''pilot'', ''pink'', ''pioneer'', ''pipe'']"

definition BIP39_10 :: "string list" where
  "BIP39_10 = [''pistol'', ''pitch'', ''pizza'', ''place'', ''planet'', ''plastic'', ''plate'',
     ''play'', ''please'', ''pledge'', ''pluck'', ''plug'', ''plunge'', ''poem'', ''poet'',
     ''point'', ''polar'', ''pole'', ''police'', ''pond'', ''pony'', ''pool'', ''popular'',
     ''portion'', ''position'', ''possible'', ''post'', ''potato'', ''pottery'', ''poverty'',
     ''powder'', ''power'', ''practice'', ''praise'', ''predict'', ''prefer'', ''prepare'',
     ''present'', ''pretty'', ''prevent'', ''price'', ''pride'', ''primary'', ''print'',
     ''priority'', ''prison'', ''private'', ''prize'', ''problem'', ''process'', ''produce'',
     ''profit'', ''program'', ''project'', ''promote'', ''proof'', ''property'', ''prosper'',
     ''protect'', ''proud'', ''provide'', ''public'', ''pudding'', ''pull'', ''pulp'', ''pulse'',
     ''pumpkin'', ''punch'', ''pupil'', ''puppy'', ''purchase'', ''purity'', ''purpose'',
     ''purse'', ''push'', ''put'', ''puzzle'', ''pyramid'', ''quality'', ''quantum'', ''quarter'',
     ''question'', ''quick'', ''quit'', ''quiz'', ''quote'', ''rabbit'', ''raccoon'', ''race'',
     ''rack'', ''radar'', ''radio'', ''rail'', ''rain'', ''raise'', ''rally'', ''ramp'', ''ranch'',
     ''random'', ''range'', ''rapid'', ''rare'', ''rate'', ''rather'', ''raven'', ''raw'',
     ''razor'', ''ready'', ''real'', ''reason'', ''rebel'', ''rebuild'', ''recall'', ''receive'',
     ''recipe'', ''record'', ''recycle'', ''reduce'', ''reflect'', ''reform'', ''refuse'',
     ''region'', ''regret'', ''regular'', ''reject'', ''relax'', ''release'', ''relief'', ''rely'',
     ''remain'', ''remember'', ''remind'', ''remove'', ''render'', ''renew'', ''rent'', ''reopen'',
     ''repair'', ''repeat'', ''replace'', ''report'', ''require'', ''rescue'', ''resemble'',
     ''resist'', ''resource'', ''response'']"

definition BIP39_11 :: "string list" where
  "BIP39_11 = [''result'', ''retire'', ''retreat'', ''return'', ''reunion'', ''reveal'',
     ''review'', ''reward'', ''rhythm'', ''rib'', ''ribbon'', ''rice'', ''rich'', ''ride'',
     ''ridge'', ''rifle'', ''right'', ''rigid'', ''ring'', ''riot'', ''ripple'', ''risk'',
     ''ritual'', ''rival'', ''river'', ''road'', ''roast'', ''robot'', ''robust'', ''rocket'',
     ''romance'', ''roof'', ''rookie'', ''room'', ''rose'', ''rotate'', ''rough'', ''round'',
     ''route'', ''royal'', ''rubber'', ''rude'', ''rug'', ''rule'', ''run'', ''runway'', ''rural'',
     ''sad'', ''saddle'', ''sadness'', ''safe'', ''sail'', ''salad'', ''salmon'', ''salon'',
     ''salt'', ''salute'', ''same'', ''sample'', ''sand'', ''satisfy'', ''satoshi'', ''sauce'',
     ''sausage'', ''save'', ''say'', ''scale'', ''scan'', ''scare'', ''scatter'', ''scene'',
     ''scheme'', ''school'', ''science'', ''scissors'', ''scorpion'', ''scout'', ''scrap'',
     ''screen'', ''script'', ''scrub'', ''sea'', ''search'', ''season'', ''seat'', ''second'',
     ''secret'', ''section'', ''security'', ''seed'', ''seek'', ''segment'', ''select'', ''sell'',
     ''seminar'', ''senior'', ''sense'', ''sentence'', ''series'', ''service'', ''session'',
     ''settle'', ''setup'', ''seven'', ''shadow'', ''shaft'', ''shallow'', ''share'', ''shed'',
     ''shell'', ''sheriff'', ''shield'', ''shift'', ''shine'', ''ship'', ''shiver'', ''shock'',
     ''shoe'', ''shoot'', ''shop'', ''short'', ''shoulder'', ''shove'', ''shrimp'', ''shrug'',
     ''shuffle'', ''shy'', ''sibling'', ''sick'', ''side'', ''siege'', ''sight'', ''sign'',
     ''silent'', ''silk'', ''silly'', ''silver'', ''similar'', ''simple'', ''since'', ''sing'',
     ''siren'', ''sister'', ''situate'', ''six'', ''size'', ''skate'']"

definition BIP39_12 :: "string list" where
  "BIP39_12 = [''sketch'', ''ski'', ''skill'', ''skin'', ''skirt'', ''skull'', ''slab'', ''slam'',
     ''sleep'', ''slender'', ''slice'', ''slide'', ''slight'', ''slim'', ''slogan'', ''slot'',
     ''slow'', ''slush'', ''small'', ''smart'', ''smile'', ''smoke'', ''smooth'', ''snack'',
     ''snake'', ''snap'', ''sniff'', ''snow'', ''soap'', ''soccer'', ''social'', ''sock'',
     ''soda'', ''soft'', ''solar'', ''soldier'', ''solid'', ''solution'', ''solve'', ''someone'',
     ''song'', ''soon'', ''sorry'', ''sort'', ''soul'', ''sound'', ''soup'', ''source'', ''south'',
     ''space'', ''spare'', ''spatial'', ''spawn'', ''speak'', ''special'', ''speed'', ''spell'',
     ''spend'', ''sphere'', ''spice'', ''spider'', ''spike'', ''spin'', ''spirit'', ''split'',
     ''spoil'', ''sponsor'', ''spoon'', ''sport'', ''spot'', ''spray'', ''spread'', ''spring'',
     ''spy'', ''square'', ''squeeze'', ''squirrel'', ''stable'', ''stadium'', ''staff'', ''stage'',
     ''stairs'', ''stamp'', ''stand'', ''start'', ''state'', ''stay'', ''steak'', ''steel'',
     ''stem'', ''step'', ''stereo'', ''stick'', ''still'', ''sting'', ''stock'', ''stomach'',
     ''stone'', ''stool'', ''story'', ''stove'', ''strategy'', ''street'', ''strike'', ''strong'',
     ''struggle'', ''student'', ''stuff'', ''stumble'', ''style'', ''subject'', ''submit'',
     ''subway'', ''success'', ''such'', ''sudden'', ''suffer'', ''sugar'', ''suggest'', ''suit'',
     ''summer'', ''sun'', ''sunny'', ''sunset'', ''super'', ''supply'', ''supreme'', ''sure'',
     ''surface'', ''surge'', ''surprise'', ''surround'', ''survey'', ''suspect'', ''sustain'',
     ''swallow'', ''swamp'', ''swap'', ''swarm'', ''swear'', ''sweet'', ''swift'', ''swim'',
     ''swing'', ''switch'', ''sword'', ''symbol'']"

definition BIP39_13 :: "string list" where
  "BIP39_13 = [''symptom'', ''syrup'', ''system'', ''table'', ''tackle'', ''tag'', ''tail'',
     ''talent'', ''talk'', ''tank'', ''tape'', ''target'', ''task'', ''taste'', ''tattoo'',
     ''taxi'', ''teach'', ''team'', ''tell'', ''ten'', ''tenant'', ''tennis'', ''tent'', ''term'',
     ''test'', ''text'', ''thank'', ''that'', ''theme'', ''then'', ''theory'', ''there'', ''they'',
     ''thing'', ''this'', ''thought'', ''three'', ''thrive'', ''throw'', ''thumb'', ''thunder'',
     ''ticket'', ''tide'', ''tiger'', ''tilt'', ''timber'', ''time'', ''tiny'', ''tip'', ''tired'',
     ''tissue'', ''title'', ''toast'', ''tobacco'', ''today'', ''toddler'', ''toe'', ''together'',
     ''toilet'', ''token'', ''tomato'', ''tomorrow'', ''tone'', ''tongue'', ''tonight'', ''tool'',
     ''tooth'', ''top'', ''topic'', ''topple'', ''torch'', ''tornado'', ''tortoise'', ''toss'',
     ''total'', ''tourist'', ''toward'', ''tower'', ''town'', ''toy'', ''track'', ''trade'',
     ''traffic'', ''tragic'', ''train'', ''transfer'', ''trap'', ''trash'', ''travel'', ''tray'',
     ''treat'', ''tree'', ''trend'', ''trial'', ''tribe'', ''trick'', ''trigger'', ''trim'',
     ''trip'', ''trophy'', ''trouble'', ''truck'', ''true'', ''truly'', ''trumpet'', ''trust'',
     ''truth'', ''try'', ''tube'', ''tuition'', ''tumble'', ''tuna'', ''tunnel'', ''turkey'',
     ''turn'', ''turtle'', ''twelve'', ''twenty'', ''twice'', ''twin'', ''twist'', ''two'',
     ''type'', ''typical'', ''ugly'', ''umbrella'', ''unable'', ''unaware'', ''uncle'',
     ''uncover'', ''under'', ''undo'', ''unfair'', ''unfold'', ''unhappy'', ''uniform'',
     ''unique'', ''unit'', ''universe'', ''unknown'', ''unlock'', ''until'', ''unusual'',
     ''unveil'', ''update'', ''upgrade'', ''uphold'']"

definition BIP39_14 :: "string list" where
  "BIP39_14 = [''upon'', ''upper'', ''upset'', ''urban'', ''urge'', ''usage'', ''use'', ''used'',
     ''useful'', ''useless'', ''usual'', ''utility'', ''vacant'', ''vacuum'', ''vague'', ''valid'',
     ''valley'', ''valve'', ''van'', ''vanish'', ''vapor'', ''various'', ''vast'', ''vault'',
     ''vehicle'', ''velvet'', ''vendor'', ''venture'', ''venue'', ''verb'', ''verify'',
     ''version'', ''very'', ''vessel'', ''veteran'', ''viable'', ''vibrant'', ''vicious'',
     ''victory'', ''video'', ''view'', ''village'', ''vintage'', ''violin'', ''virtual'',
     ''virus'', ''visa'', ''visit'', ''visual'', ''vital'', ''vivid'', ''vocal'', ''voice'',
     ''void'', ''volcano'', ''volume'', ''vote'', ''voyage'', ''wage'', ''wagon'', ''wait'',
     ''walk'', ''wall'', ''walnut'', ''want'', ''warfare'', ''warm'', ''warrior'', ''wash'',
     ''wasp'', ''waste'', ''water'', ''wave'', ''way'', ''wealth'', ''weapon'', ''wear'',
     ''weasel'', ''weather'', ''web'', ''wedding'', ''weekend'', ''weird'', ''welcome'', ''west'',
     ''wet'', ''whale'', ''what'', ''wheat'', ''wheel'', ''when'', ''where'', ''whip'',
     ''whisper'', ''wide'', ''width'', ''wife'', ''wild'', ''will'', ''win'', ''window'', ''wine'',
     ''wing'', ''wink'', ''winner'', ''winter'', ''wire'', ''wisdom'', ''wise'', ''wish'',
     ''witness'', ''wolf'', ''woman'', ''wonder'', ''wood'', ''wool'', ''word'', ''work'',
     ''world'', ''worry'', ''worth'', ''wrap'', ''wreck'', ''wrestle'', ''wrist'', ''write'',
     ''wrong'', ''yard'', ''year'', ''yellow'', ''you'', ''young'', ''youth'', ''zebra'', ''zero'',
     ''zone'', ''zoo'']"

definition BIP39_ENGLISH :: "string list" where
  "BIP39_ENGLISH = concat [BIP39_1, BIP39_2, BIP39_3, BIP39_4, BIP39_5, BIP39_6, BIP39_7, BIP39_8, BIP39_9, BIP39_10, BIP39_11, BIP39_12, BIP39_13, BIP39_14]"

section \<open>Order\<close>

fun word_less :: "string \<Rightarrow> string \<Rightarrow> bool" where
  "word_less (c # cs) (d # ds) \<longleftrightarrow> code c < code d \<or> c = d \<and> word_less cs ds"
| "word_less [] (d # ds) \<longleftrightarrow> True"
| "word_less cs [] \<longleftrightarrow> False"

definition lower_word :: "string \<Rightarrow> bool" where
  "lower_word w = list_all (\<lambda>c. 97 \<le> code c \<and> code c \<le> 122) w"

text \<open>The words of a block ascend, starting above a given word.\<close>

fun words_after :: "string \<Rightarrow> string list \<Rightarrow> bool" where
  "words_after w [] \<longleftrightarrow> True"
| "words_after w (v # vs) \<longleftrightarrow> word_less w v \<and> lower_word v \<and> words_after v vs"

lemma word_less_trans: "word_less u v \<Longrightarrow> word_less v w \<Longrightarrow> word_less u w"
proof (induction u v arbitrary: w rule: word_less.induct)
  case (1 c cs d ds)
  then show ?case by (cases w) auto
next
  case (2 d ds)
  then show ?case by (cases w) auto
qed simp

lemma word_less_irrefl: "\<not> word_less w w"
  by (induction w) simp_all

lemma words_after_append:
  "words_after w (xs @ ys) \<longleftrightarrow> words_after w xs \<and> words_after (last (w # xs)) ys"
  by (induction w xs rule: words_after.induct) auto

lemma words_after_less: "words_after w xs \<Longrightarrow> v \<in> set xs \<Longrightarrow> word_less w v"
  by (induction w xs rule: words_after.induct) (auto intro: word_less_trans)

lemma words_after_distinct: "words_after w xs \<Longrightarrow> distinct xs"
  by (induction w xs rule: words_after.induct) (auto dest: words_after_less simp: word_less_irrefl)

lemma words_after_lower: "words_after w xs \<Longrightarrow> v \<in> set xs \<Longrightarrow> lower_word v \<and> v \<noteq> []"
  by (induction w xs rule: words_after.induct) auto

section \<open>Evaluation of the blocks\<close>

lemma BIP39_1_after: "words_after [] BIP39_1"
  unfolding BIP39_1_def by (simp add: code_def lower_word_def)

lemma BIP39_1_ends: "BIP39_1 \<noteq> [] \<and> last BIP39_1 = ''banner'' \<and> length BIP39_1 = 147"
  by code_simp

lemma BIP39_2_after: "words_after ''banner'' BIP39_2"
  unfolding BIP39_2_def by (simp add: code_def lower_word_def)

lemma BIP39_2_ends: "BIP39_2 \<noteq> [] \<and> last BIP39_2 = ''caution'' \<and> length BIP39_2 = 147"
  by code_simp

lemma BIP39_3_after: "words_after ''caution'' BIP39_3"
  unfolding BIP39_3_def by (simp add: code_def lower_word_def)

lemma BIP39_3_ends: "BIP39_3 \<noteq> [] \<and> last BIP39_3 = ''damage'' \<and> length BIP39_3 = 147"
  by code_simp

lemma BIP39_4_after: "words_after ''damage'' BIP39_4"
  unfolding BIP39_4_def by (simp add: code_def lower_word_def)

lemma BIP39_4_ends: "BIP39_4 \<noteq> [] \<and> last BIP39_4 = ''enact'' \<and> length BIP39_4 = 147"
  by code_simp

lemma BIP39_5_after: "words_after ''enact'' BIP39_5"
  unfolding BIP39_5_def by (simp add: code_def lower_word_def)

lemma BIP39_5_ends: "BIP39_5 \<noteq> [] \<and> last BIP39_5 = ''forward'' \<and> length BIP39_5 = 147"
  by code_simp

lemma BIP39_6_after: "words_after ''forward'' BIP39_6"
  unfolding BIP39_6_def by (simp add: code_def lower_word_def)

lemma BIP39_6_ends: "BIP39_6 \<noteq> [] \<and> last BIP39_6 = ''hotel'' \<and> length BIP39_6 = 147"
  by code_simp

lemma BIP39_7_after: "words_after ''hotel'' BIP39_7"
  unfolding BIP39_7_def by (simp add: code_def lower_word_def)

lemma BIP39_7_ends: "BIP39_7 \<noteq> [] \<and> last BIP39_7 = ''letter'' \<and> length BIP39_7 = 147"
  by code_simp

lemma BIP39_8_after: "words_after ''letter'' BIP39_8"
  unfolding BIP39_8_def by (simp add: code_def lower_word_def)

lemma BIP39_8_ends: "BIP39_8 \<noteq> [] \<and> last BIP39_8 = ''napkin'' \<and> length BIP39_8 = 147"
  by code_simp

lemma BIP39_9_after: "words_after ''napkin'' BIP39_9"
  unfolding BIP39_9_def by (simp add: code_def lower_word_def)

lemma BIP39_9_ends: "BIP39_9 \<noteq> [] \<and> last BIP39_9 = ''pipe'' \<and> length BIP39_9 = 147"
  by code_simp

lemma BIP39_10_after: "words_after ''pipe'' BIP39_10"
  unfolding BIP39_10_def by (simp add: code_def lower_word_def)

lemma BIP39_10_ends: "BIP39_10 \<noteq> [] \<and> last BIP39_10 = ''response'' \<and> length BIP39_10 = 147"
  by code_simp

lemma BIP39_11_after: "words_after ''response'' BIP39_11"
  unfolding BIP39_11_def by (simp add: code_def lower_word_def)

lemma BIP39_11_ends: "BIP39_11 \<noteq> [] \<and> last BIP39_11 = ''skate'' \<and> length BIP39_11 = 147"
  by code_simp

lemma BIP39_12_after: "words_after ''skate'' BIP39_12"
  unfolding BIP39_12_def by (simp add: code_def lower_word_def)

lemma BIP39_12_ends: "BIP39_12 \<noteq> [] \<and> last BIP39_12 = ''symbol'' \<and> length BIP39_12 = 147"
  by code_simp

lemma BIP39_13_after: "words_after ''symbol'' BIP39_13"
  unfolding BIP39_13_def by (simp add: code_def lower_word_def)

lemma BIP39_13_ends: "BIP39_13 \<noteq> [] \<and> last BIP39_13 = ''uphold'' \<and> length BIP39_13 = 147"
  by code_simp

lemma BIP39_14_after: "words_after ''uphold'' BIP39_14"
  unfolding BIP39_14_def by (simp add: code_def lower_word_def)

lemma BIP39_14_ends: "BIP39_14 \<noteq> [] \<and> last BIP39_14 = ''zoo'' \<and> length BIP39_14 = 137"
  by code_simp

lemmas blocks_ok =
  BIP39_1_after BIP39_2_after BIP39_3_after BIP39_4_after BIP39_5_after BIP39_6_after BIP39_7_after
  BIP39_8_after BIP39_9_after BIP39_10_after BIP39_11_after BIP39_12_after BIP39_13_after BIP39_14_after
  BIP39_1_ends BIP39_2_ends BIP39_3_ends BIP39_4_ends BIP39_5_ends BIP39_6_ends BIP39_7_ends
  BIP39_8_ends BIP39_9_ends BIP39_10_ends BIP39_11_ends BIP39_12_ends BIP39_13_ends BIP39_14_ends

lemma words_after_list: "words_after [] BIP39_ENGLISH"
  using blocks_ok by (simp add: BIP39_ENGLISH_def words_after_append)

lemma length_words [simp]: "length BIP39_ENGLISH = 2048"
  using blocks_ok by (simp add: BIP39_ENGLISH_def)

lemma distinct_words [simp]: "distinct BIP39_ENGLISH"
  using words_after_list by (rule words_after_distinct)

lemma listed_word:
  assumes "w \<in> set BIP39_ENGLISH"
  shows "lower_word w" "w \<noteq> []"
  using words_after_lower [OF words_after_list assms] by simp_all

end
