(* ===== verification/Mnemonic.thy ===== *)
theory Mnemonic
  imports Bit_Strings Wordlist Web_Crypto
begin

text \<open>
  The 24-word recovery phrase: \<open>crypto/mnemonic.ts\<close>. 32 bytes of entropy and the first byte of
  their SHA-256 digest are 264 bits, printed as 24 words of eleven bits each; the decoder checks
  the number of words, each word and the checksum.
\<close>

section \<open>Bits and bytes\<close>

definition bytesToBits :: "bytes \<Rightarrow> string" where
  "bytesToBits bs = concat (map (\<lambda>b. padStart 8 (bin_str (unat b))) bs)"

definition bitsToBytes :: "string \<Rightarrow> bytes result" where
  "bitsToBytes bits =
     (if length bits mod 8 \<noteq> 0
      then Throw (Error ''bitsToBytes: bit-string length must be a multiple of 8'')
      else Ok (map (\<lambda>i. of_nat (bin_val (slice_field 8 bits i))) [0..<length bits div 8]))"

definition checksumBits :: "('aes, 'pub, 'priv) webcrypto \<Rightarrow> bytes \<Rightarrow> string" where
  "checksumBits wc entropy = take 8 (bytesToBits (digest256 wc entropy))"

section \<open>Printing a phrase\<close>

definition entropyToMnemonic :: "('aes, 'pub, 'priv) webcrypto \<Rightarrow> bytes \<Rightarrow> string result" where
  "entropyToMnemonic wc entropy =
     (if length entropy \<noteq> 32 then Throw (Error ''Entropy must be 32 bytes'')
      else
        let bits = bytesToBits entropy @ checksumBits wc entropy
        in Ok (join '' '' (map (\<lambda>i. BIP39_ENGLISH ! bin_val (slice_field 11 bits i)) [0..<24])))"

text \<open>The entropy drawn is the argument.\<close>

definition generateMnemonic :: "('aes, 'pub, 'priv) webcrypto \<Rightarrow> bytes \<Rightarrow> string result" where
  "generateMnemonic wc entropy = entropyToMnemonic wc entropy"

section \<open>Reading a phrase\<close>

text \<open>\<open>s.split(/\s+/)\<close>.\<close>

function split_spaces :: "string \<Rightarrow> string list" where
  "split_spaces s =
     (case dropWhile (\<lambda>c. \<not> js_space c) s of
        [] \<Rightarrow> [s]
      | c # r \<Rightarrow> takeWhile (\<lambda>c. \<not> js_space c) s # split_spaces (dropWhile js_space r))"
  by pat_completeness auto
termination
proof (relation "measure length")
  fix s :: string and c r
  assume "dropWhile (\<lambda>c. \<not> js_space c) s = c # r"
  then have "length (c # r) \<le> length s" using length_dropWhile_le [of "\<lambda>c. \<not> js_space c" s] by metis
  moreover have "length (dropWhile js_space r) \<le> length r" by (rule length_dropWhile_le)
  ultimately show "(dropWhile js_space r, s) \<in> measure length" by simp
qed simp

declare split_spaces.simps [simp del]

definition WORD_INDEX :: "string \<rightharpoonup> nat" where
  "WORD_INDEX = map_of (rev (zip BIP39_ENGLISH [0..<length BIP39_ENGLISH]))"

fun words_to_bits :: "string list \<Rightarrow> string result" where
  "words_to_bits [] = Ok []"
| "words_to_bits (word # ws) =
     (case WORD_INDEX word of
        None \<Rightarrow> Throw (Error (''Unknown word: '' @ [CHR 0x22] @ word @ [CHR 0x22]))
      | Some idx \<Rightarrow> map_sum id (\<lambda>bits. padStart 11 (bin_str idx) @ bits) (words_to_bits ws))"

definition mnemonicToEntropy :: "('aes, 'pub, 'priv) webcrypto \<Rightarrow> string \<Rightarrow> bytes result" where
  "mnemonicToEntropy wc mnemonic =
     (let words = split_spaces (toLowerCase (trim mnemonic)) in
      if length words \<noteq> 24
      then Throw (Error (''Expected 24 words, got '' @ nat_str (length words)))
      else
        bind_result (words_to_bits words) (\<lambda>bits.
        bind_result (bitsToBytes (take 256 bits)) (\<lambda>entropy.
        if checksumBits wc entropy \<noteq> drop 256 bits
        then Throw (Error ''Invalid recovery phrase (checksum mismatch)'')
        else Ok entropy)))"

text \<open>\<open>replace(/\s+/g, " ")\<close>.\<close>

fun collapse_spaces :: "bool \<Rightarrow> string \<Rightarrow> string" where
  "collapse_spaces in_run [] = []"
| "collapse_spaces in_run (c # s) =
     (if js_space c then (if in_run then collapse_spaces True s else CHR '' '' # collapse_spaces True s)
      else c # collapse_spaces False s)"

definition normalizeMnemonicInput :: "string \<Rightarrow> string" where
  "normalizeMnemonicInput input = toLowerCase (collapse_spaces False (trim input))"

definition checkMnemonic :: "('aes, 'pub, 'priv) webcrypto \<Rightarrow> string \<Rightarrow> string option" where
  "checkMnemonic wc input =
     (case mnemonicToEntropy wc input of
        Inr _ \<Rightarrow> None
      | Inl (Error m) \<Rightarrow> Some m
      | Inl _ \<Rightarrow> Some ''Invalid mnemonic'')"

section \<open>Bits of bytes\<close>

lemma byte_bits: "padStart 8 (bin_str (unat b)) = bits_of 8 (unat (b :: byte))"
  by (simp add: bits_of_def)

lemma unat_byte_less: "unat (b :: byte) < 2 ^ 8"
  using unsigned_less [of b] by simp

lemma bytesToBits_facts [simp]:
  "length (bytesToBits bs) = 8 * length bs" "is_bits (bytesToBits bs)"
proof -
  show "length (bytesToBits bs) = 8 * length bs"
    using unat_byte_less by (induction bs) (simp_all add: bytesToBits_def byte_bits)
  show "is_bits (bytesToBits bs)"
    unfolding bytesToBits_def by (rule is_bits_concat) (auto simp: byte_bits)
qed

lemma bytes_of_bits [codec_simps]: "bitsToBytes (bytesToBits bs) = Ok bs"
proof -
  let ?f = "\<lambda>b :: byte. bits_of 8 (unat b)"
  have l: "\<forall>x \<in> set (map ?f bs). length x = 8" using unat_byte_less by simp
  have "slice_field 8 (bytesToBits bs) i = ?f (bs ! i)" if "i < length bs" for i
    using slice_concat [OF l, of i "[]"] that by (simp add: bytesToBits_def byte_bits)
  then have "map (\<lambda>i. of_nat (bin_val (slice_field 8 (bytesToBits bs) i))) [0..<length bs] = bs"
    using unat_byte_less by (intro nth_equalityI) simp_all
  then show ?thesis by (simp add: bitsToBytes_def)
qed

lemma bits_of_bytes:
  assumes "is_bits s" "length s = 8 * m"
  obtains bs where "bitsToBytes s = Ok bs" "bytesToBits bs = s" "length bs = m"
proof -
  let ?bs = "map (\<lambda>i. of_nat (bin_val (slice_field 8 s i)) :: byte) [0..<m]"
  have "padStart 8 (bin_str (unat (of_nat (bin_val (slice_field 8 s i)) :: byte))) = slice_field 8 s i"
    if "i < m" for i
  proof -
    have l: "length (slice_field 8 s i) = 8" using slice_field_length [OF assms(2) that] .
    then have "bin_val (slice_field 8 s i) < 256"
      using bin_val_less [OF slice_field_bits [OF assms(1)], of 8 i] by simp
    then show ?thesis
      using bits_of_bin_val [OF slice_field_bits [OF assms(1)], of 8 i] l
      by (simp add: bits_of_def unsigned_of_nat take_bit_nat_eq_self) fastforce
  qed
  then have "bytesToBits ?bs = concat (map (slice_field 8 s) [0..<m])"
    by (simp add: bytesToBits_def comp_def) (metis (mono_tags, lifting) atLeastLessThan_iff map_eq_conv set_upt)
  then have "bytesToBits ?bs = s" using concat_slices [OF assms(2)] by simp
  moreover have "bitsToBytes s = Ok ?bs" using assms(2) by (simp add: bitsToBytes_def)
  ultimately show thesis using that [of ?bs] by simp
qed

lemma checksum_facts [simp]:
  assumes "webcrypto_ok wc"
  shows "length (checksumBits wc e) = 8" "is_bits (checksumBits wc e)"
  using webcrypto_okD(5) [OF assms, of e] by (simp_all add: checksumBits_def is_bits_take_drop)

section \<open>Words and indices\<close>

lemma WORD_INDEX_iff: "WORD_INDEX w = Some i \<longleftrightarrow> i < 2048 \<and> BIP39_ENGLISH ! i = w"
proof -
  have "distinct (map fst (zip BIP39_ENGLISH [0..<2048]))" by simp
  from map_of_rev_eq [OF this] have "WORD_INDEX = map_of (zip BIP39_ENGLISH [0..<2048])"
    by (simp add: WORD_INDEX_def)
  moreover have "map_of (zip BIP39_ENGLISH [0..<2048]) w = Some i \<longleftrightarrow> (w, i) \<in> set (zip BIP39_ENGLISH [0..<2048])"
    by (rule map_of_eq_Some_iff) simp
  ultimately show ?thesis by (auto simp: set_zip)
qed

text \<open>The list of words is a coder for the numbers below 2048.\<close>

interpretation words: coder "\<lambda>i. BIP39_ENGLISH ! i" WORD_INDEX "\<lambda>i. i < 2048"
  by unfold_locales (simp add: WORD_INDEX_iff)

definition word_at :: "string \<Rightarrow> nat \<Rightarrow> string" where
  "word_at bits i = BIP39_ENGLISH ! bin_val (slice_field 11 bits i)"

lemma slice_first: "length x = w \<Longrightarrow> slice_field w (x @ s) 0 = x" "length x = w \<Longrightarrow> slice_field w (x @ s) (Suc i) = slice_field w s i"
  by (simp_all add: slice_field_def)

lemma map_Suc_from_0: "map f [0..<Suc n] = f 0 # map (\<lambda>i. f (Suc i)) [0..<n]"
  by (simp add: upt_conv_Cons map_Suc_upt [symmetric] comp_def del: upt_Suc)

lemma words_to_bits_sound:
  "words_to_bits ws = Ok bits \<Longrightarrow>
   is_bits bits \<and> length bits = 11 * length ws \<and> ws = map (word_at bits) [0..<length ws]"
proof (induction ws arbitrary: bits)
  case (Cons w ws)
  then obtain idx bs where i: "WORD_INDEX w = Some idx" "words_to_bits ws = Ok bs"
    "bits = bits_of 11 idx @ bs"
    by (cases "words_to_bits ws") (auto simp: bits_of_def split: option.splits)
  have "idx < 2 ^ 11" "BIP39_ENGLISH ! idx = w" using i(1) by (simp_all add: WORD_INDEX_iff)
  moreover from this have "map (word_at bits) [0..<Suc (length ws)] = w # map (word_at bs) [0..<length ws]"
    using i(3) by (simp add: map_Suc_from_0 word_at_def slice_first del: upt_Suc)
  ultimately show ?case using Cons.IH [OF i(2)] i(3) by (simp del: upt_Suc)
qed simp

lemma words_to_bits_complete:
  "is_bits bits \<Longrightarrow> length bits = 11 * n \<Longrightarrow> words_to_bits (map (word_at bits) [0..<n]) = Ok bits"
proof (induction n arbitrary: bits)
  case (Suc n)
  define x s where x: "x = take 11 bits" and s: "s = drop 11 bits"
  have b: "bits = x @ s" "length x = 11" "length s = 11 * n" using Suc.prems(2) by (simp_all add: x s)
  have bx: "is_bits x" "is_bits s" using Suc.prems(1) b(1) by simp_all
  have "x \<noteq> []" using b(2) by auto
  have "bin_val x < 2048" using bin_val_less [OF bx(1)] b(2) by simp
  then have "WORD_INDEX (word_at bits 0) = Some (bin_val x)"
    by (simp add: word_at_def b slice_first words.dec_enc)
  moreover have "padStart 11 (bin_str (bin_val x)) = x"
    using bits_of_bin_val [OF bx(1) \<open>x \<noteq> []\<close>] b(2) by (simp add: bits_of_def)
  moreover have "word_at bits (Suc i) = word_at s i" for i by (simp add: word_at_def b slice_first)
  ultimately show ?case
    using Suc.IH [OF bx(2) b(3)] by (simp add: map_Suc_from_0 b(1) del: upt_Suc)
qed simp

section \<open>Phrases as text\<close>

lemma js_space_lower [simp]: "js_space (lower_char c) = js_space c"
  by (auto simp: js_space_def code_lower_char)

lemma collapse_lower: "toLowerCase (collapse_spaces b s) = collapse_spaces b (toLowerCase s)"
proof -
  have "lower_char (CHR '' '') = CHR '' ''" by (simp add: lower_char_def code_def)
  then show ?thesis
    by (induction b s rule: collapse_spaces.induct) (simp_all add: toLowerCase_def)
qed

lemma collapse_word: "\<forall>c \<in> set w. \<not> js_space c \<Longrightarrow> collapse_spaces False (w @ s) = w @ collapse_spaces False s"
  by (induction w) simp_all

lemma collapse_run: "collapse_spaces True s = collapse_spaces False (dropWhile js_space s)"
  by (induction s) simp_all

lemma collapse_join: "collapse_spaces False s = join '' '' (split_spaces s)"
proof (induction s rule: split_spaces.induct)
  case (1 s)
  define w r where w: "w = takeWhile (\<lambda>c. \<not> js_space c) s" and r: "r = dropWhile (\<lambda>c. \<not> js_space c) s"
  have s: "s = w @ r" "\<forall>c \<in> set w. \<not> js_space c"
    by (auto simp: w r dest: set_takeWhileD)
  show ?case
  proof (cases r)
    case Nil
    then have "split_spaces s = [s]" by (subst split_spaces.simps) (simp flip: r)
    then show ?thesis using s Nil collapse_word [of w "[]"] by simp
  next
    case (Cons c t)
    then have c: "js_space c" using hd_dropWhile_js [of "\<lambda>c. \<not> js_space c" s] r by simp
    have sp: "split_spaces s = w # split_spaces (dropWhile js_space t)"
      by (subst split_spaces.simps) (simp add: Cons flip: r w)
    have ne: "split_spaces u \<noteq> []" for u by (subst split_spaces.simps) (simp split: list.split)
    have "collapse_spaces False s = w @ CHR '' '' # collapse_spaces False (dropWhile js_space t)"
      using s c Cons by (simp add: collapse_word collapse_run)
    also have "\<dots> = w @ '' '' @ join '' '' (split_spaces (dropWhile js_space t))"
      using 1 [of c t] Cons by (simp flip: r)
    also have "\<dots> = join '' '' (split_spaces s)"
      unfolding sp using ne by (cases "split_spaces (dropWhile js_space t)") simp_all
    finally show ?thesis .
  qed
qed

lemma normalize_join: "normalizeMnemonicInput s = join '' '' (split_spaces (toLowerCase (trim s)))"
  unfolding normalizeMnemonicInput_def collapse_lower by (rule collapse_join)

definition word_ok :: "string \<Rightarrow> bool" where
  "word_ok w \<longleftrightarrow> w \<noteq> [] \<and> (\<forall>c \<in> set w. \<not> js_space c \<and> lower_char c = c)"

lemma split_spaces_join: "ws \<noteq> [] \<Longrightarrow> \<forall>w \<in> set ws. word_ok w \<Longrightarrow> split_spaces (join '' '' ws) = ws"
proof (induction "'' ''" ws rule: join.induct)
  case (2 p)
  then have "dropWhile (\<lambda>c. \<not> js_space c) p = []" by (simp add: word_ok_def dropWhile_eq_Nil_conv)
  then have "split_spaces p = [p]" by (simp only: split_spaces.simps [of p] list.case)
  then show ?case by simp
next
  case (3 p q ps)
  have sp: "js_space (CHR '' '')" by (simp add: js_space_def code_def)
  define t where "t = join '' '' (q # ps)"
  have ne: "t \<noteq> []" "\<not> js_space (hd t)" using 3(3) unfolding t_def by (cases ps; auto simp: word_ok_def hd_append)+
  have "\<forall>c \<in> set p. \<not> js_space c" using 3(3) by (simp add: word_ok_def)
  then have "dropWhile (\<lambda>c. \<not> js_space c) (p @ CHR '' '' # t) = CHR '' '' # t"
    "takeWhile (\<lambda>c. \<not> js_space c) (p @ CHR '' '' # t) = p"
    using sp by (simp_all add: dropWhile_append2 takeWhile_append2)
  moreover have "dropWhile js_space t = t" using ne by (cases t) simp_all
  ultimately have "split_spaces (p @ CHR '' '' # t) = p # split_spaces t"
    by (subst split_spaces.simps) simp
  then show ?case using 3 by (simp add: t_def)
qed simp

lemma split_spaces_parts:
  "trimmed t \<Longrightarrow> t \<noteq> [] \<Longrightarrow> w \<in> set (split_spaces t) \<Longrightarrow> w \<noteq> [] \<and> (\<forall>c \<in> set w. c \<in> set t \<and> \<not> js_space c)"
proof (induction t arbitrary: w rule: split_spaces.induct)
  case (1 t)
  define v r where v: "v = takeWhile (\<lambda>c. \<not> js_space c) t" and r: "r = dropWhile (\<lambda>c. \<not> js_space c) t"
  have t: "t = v @ r" "\<forall>c \<in> set v. \<not> js_space c" by (auto simp: v r dest: set_takeWhileD)
  have ends: "\<not> js_space (hd t)" "\<not> js_space (last t)" using 1(2,3) by (auto simp: trimmed_def)
  then have "v \<noteq> []" using 1(3) by (cases t) (simp_all add: v)
  show ?case
  proof (cases r)
    case Nil
    then have "split_spaces t = [t]" by (subst split_spaces.simps) (simp flip: r)
    then show ?thesis using 1(3,4) t Nil by simp
  next
    case (Cons c u)
    define x where "x = dropWhile js_space u"
    have d: "dropWhile (\<lambda>c. \<not> js_space c) t = c # u" using Cons r by simp
    have c: "js_space c" using hd_dropWhile_js [of "\<lambda>c. \<not> js_space c" t] unfolding d by simp
    have sp: "split_spaces t = v # split_spaces x"
      by (subst split_spaces.simps) (simp add: Cons x_def flip: r v)
    have "u \<noteq> []" using ends(2) c t(1) Cons by auto
    then have lu: "last u = last t" using t(1) Cons by simp
    have "last u \<in> set u" using \<open>u \<noteq> []\<close> by (rule last_in_set)
    moreover have "\<not> js_space (last u)" using ends(2) lu by simp
    ultimately have xu: "x \<noteq> []" unfolding x_def by (auto simp: dropWhile_eq_Nil_conv)
    have tx: "trimmed x"
      using xu hd_dropWhile_js [of js_space u] last_dropWhile [of js_space u] lu ends(2)
      by (simp add: trimmed_def x_def)
    have rest: "w \<noteq> [] \<and> (\<forall>c \<in> set w. c \<in> set x \<and> \<not> js_space c)" if "w \<in> set (split_spaces x)"
      by (rule 1(1) [OF d, folded x_def, OF tx xu that])
    have "set v \<subseteq> set t" "set u \<subseteq> set t" unfolding t(1) Cons by auto
    moreover have "set x \<subseteq> set u" by (auto simp: x_def dest: set_dropWhileD)
    moreover have "w = v \<or> w \<in> set (split_spaces x)" using 1(4) unfolding sp by simp
    ultimately show ?thesis using rest t(2) \<open>v \<noteq> []\<close> by blast
  qed
qed

lemma typed_words_ok:
  assumes "trim s \<noteq> []" "w \<in> set (split_spaces (toLowerCase (trim s)))"
  shows "word_ok w"
proof -
  have "trimmed (toLowerCase (trim s))"
    using trimmed_trim [of s] assms(1) by (simp add: trimmed_def toLowerCase_def hd_map last_map)
  then have "w \<noteq> []" "\<forall>c \<in> set w. c \<in> set (toLowerCase (trim s)) \<and> \<not> js_space c"
    using split_spaces_parts [OF _ _ assms(2)] assms(1) by simp_all
  moreover have "\<forall>c \<in> set (toLowerCase (trim s)). lower_char c = c" by (auto simp: toLowerCase_def)
  ultimately show ?thesis by (simp add: word_ok_def)
qed

lemma listed_word_ok: "i < 2048 \<Longrightarrow> word_ok (BIP39_ENGLISH ! i)"
  using listed_word [of "BIP39_ENGLISH ! i"]
  by (auto simp: word_ok_def lower_word_def list_all_iff js_space_def lower_char_def)

lemma trim_join_words:
  assumes "ws \<noteq> []" "\<forall>w \<in> set ws. word_ok w"
  shows "toLowerCase (trim (join '' '' ws)) = join '' '' ws"
proof -
  have "hd (join '' '' ws) = hd (hd ws) \<and> last (join '' '' ws) = last (last ws) \<and> join '' '' ws \<noteq> []"
    using assms by (induction "'' ''" ws rule: join.induct) (auto simp: word_ok_def hd_append)
  moreover have "word_ok (hd ws)" "word_ok (last ws)" using assms by simp_all
  ultimately have "trimmed (join '' '' ws)" by (auto simp: trimmed_def word_ok_def)
  moreover have "toLowerCase (join '' '' ws) = join '' '' ws"
  proof -
    have sp: "lower_char (CHR '' '') = CHR '' ''" by (simp add: lower_char_def code_def)
    have w: "map lower_char w = w" if "word_ok w" for w using that by (simp add: word_ok_def map_idI)
    show ?thesis using assms(2) unfolding toLowerCase_def
      by (induction "'' ''" ws rule: join.induct) (simp_all add: sp w)
  qed
  ultimately show ?thesis by (simp add: trim_trimmed)
qed

section \<open>Properties of the phrase\<close>

lemma phrase_words:
  fixes wc :: "('aes, 'pub, 'priv) webcrypto"
  assumes "webcrypto_ok wc" "length e = 32"
  defines "bits \<equiv> bytesToBits e @ checksumBits wc e"
  shows "entropyToMnemonic wc e = Ok (join '' '' (map (word_at bits) [0..<24]))"
    and "is_bits bits" "length bits = 11 * 24"
    and "w \<in> set (map (word_at bits) [0..<24]) \<Longrightarrow> word_ok w \<and> w \<in> set BIP39_ENGLISH"
proof -
  show "entropyToMnemonic wc e = Ok (join '' '' (map (word_at bits) [0..<24]))"
    using assms(2) by (simp add: entropyToMnemonic_def bits_def word_at_def [abs_def])
  show b: "is_bits bits" "length bits = 11 * 24" using assms by (simp_all add: bits_def)
  assume "w \<in> set (map (word_at bits) [0..<24])"
  then obtain i where i: "i < 24" "w = word_at bits i" by auto
  have "bin_val (slice_field 11 bits i) < 2048"
    using bin_val_less [OF slice_field_bits [OF b(1)], of 11 i] slice_field_length [OF b(2) i(1)] by simp
  then show "word_ok w \<and> w \<in> set BIP39_ENGLISH" using i(2) listed_word_ok by (simp add: word_at_def)
qed

lemma read_phrase:
  assumes "webcrypto_ok wc" "length e = 32"
    and "split_spaces (toLowerCase (trim s))
      = map (word_at (bytesToBits e @ checksumBits wc e)) [0..<24]"
  shows "mnemonicToEntropy wc s = Ok e"
proof -
  have "words_to_bits (map (word_at (bytesToBits e @ checksumBits wc e)) [0..<24])
      = Ok (bytesToBits e @ checksumBits wc e)"
    using phrase_words(2,3) [OF assms(1,2)] by (rule words_to_bits_complete)
  moreover have "take 256 (bytesToBits e @ checksumBits wc e) = bytesToBits e"
    "drop 256 (bytesToBits e @ checksumBits wc e) = checksumBits wc e" using assms(2) by simp_all
  ultimately show ?thesis
    unfolding mnemonicToEntropy_def Let_def assms(3) by (simp add: bytes_of_bits)
qed

lemma generated_phrase_reads:
  assumes "webcrypto_ok wc" "length e = 32"
  obtains ws where "generateMnemonic wc e = Ok (join '' '' ws)" "mnemonicToEntropy wc (join '' '' ws) = Ok e"
proof -
  define ws where "ws = map (word_at (bytesToBits e @ checksumBits wc e)) [0..<24]"
  have ok: "ws \<noteq> []" "\<forall>w \<in> set ws. word_ok w" using phrase_words(4) [OF assms] by (auto simp: ws_def)
  have "split_spaces (toLowerCase (trim (join '' '' ws))) = ws"
    using trim_join_words [OF ok] split_spaces_join [OF ok] by simp
  then have "mnemonicToEntropy wc (join '' '' ws) = Ok e" using read_phrase [OF assms] by (simp add: ws_def)
  moreover have "generateMnemonic wc e = Ok (join '' '' ws)"
    using phrase_words(1) [OF assms] by (simp add: generateMnemonic_def ws_def)
  ultimately show thesis by (intro that)
qed

lemma some_phrase_reads:
  assumes "webcrypto_ok wc" "length e = 32"
  obtains s where "mnemonicToEntropy wc s = Ok e"
  using generated_phrase_reads [OF assms] by metis

text \<open>What is typed and normalises to the phrase decodes to its entropy.\<close>

lemma typed_phrase_reads:
  assumes "webcrypto_ok wc" "length e = 32"
    and "generateMnemonic wc e = Ok (normalizeMnemonicInput s)"
  shows "mnemonicToEntropy wc s = Ok e"
proof -
  define ws where "ws = map (word_at (bytesToBits e @ checksumBits wc e)) [0..<24]"
  have ok: "ws \<noteq> []" "\<forall>w \<in> set ws. word_ok w" using phrase_words(4) [OF assms(1,2)] by (auto simp: ws_def)
  have n: "normalizeMnemonicInput s = join '' '' ws"
    using assms(3) phrase_words(1) [OF assms(1,2)] by (simp add: generateMnemonic_def ws_def)
  have "join '' '' ws \<noteq> []" using ok(1,2) by (cases ws; cases "tl ws") (auto simp: word_ok_def)
  then have "trim s \<noteq> []" using n by (auto simp: normalizeMnemonicInput_def)
  then have w: "\<forall>w \<in> set (split_spaces (toLowerCase (trim s))). word_ok w" using typed_words_ok by blast
  have ne: "split_spaces (toLowerCase (trim s)) \<noteq> []" by (subst split_spaces.simps) (simp split: list.split)
  have "split_spaces (normalizeMnemonicInput s) = split_spaces (toLowerCase (trim s))"
    unfolding normalize_join by (rule split_spaces_join [OF ne w])
  then have "split_spaces (toLowerCase (trim s)) = ws" using n split_spaces_join [OF ok(1,2)] by simp
  then show ?thesis using read_phrase [OF assms(1,2)] by (simp add: ws_def)
qed

text \<open>
  C17: The recovery phrase of 32 bytes of entropy is 24 words of the list, is accepted, and is
  decoded to the same bytes however it is typed: any input that normalises to the phrase, so in
  any letter case and with any spacing, decodes to the entropy.
\<close>

theorem phrase_roundtrip:
  assumes "webcrypto_ok wc" "length e = 32"
  shows "\<exists>ws. generateMnemonic wc e = Ok (join '' '' ws) \<and> length ws = 24 \<and> set ws \<subseteq> set BIP39_ENGLISH
    \<and> checkMnemonic wc (join '' '' ws) = None
    \<and> (\<forall>s. normalizeMnemonicInput s = join '' '' ws \<longrightarrow> mnemonicToEntropy wc s = Ok e)"
proof -
  define ws where "ws = map (word_at (bytesToBits e @ checksumBits wc e)) [0..<24]"
  note p = phrase_words [OF assms]
  have ok: "ws \<noteq> []" "\<forall>w \<in> set ws. word_ok w" "set ws \<subseteq> set BIP39_ENGLISH" "length ws = 24"
    using p(4) by (auto simp: ws_def)
  have g: "generateMnemonic wc e = Ok (join '' '' ws)" using p(1) by (simp add: generateMnemonic_def ws_def)
  have "split_spaces (toLowerCase (trim (join '' '' ws))) = ws"
    using trim_join_words [OF ok(1,2)] split_spaces_join [OF ok(1,2)] by simp
  then have "checkMnemonic wc (join '' '' ws) = None"
    using read_phrase [OF assms] by (simp add: checkMnemonic_def ws_def)
  with g ok(3,4) typed_phrase_reads [OF assms] show ?thesis by auto
qed

lemma accepted_normal:
  assumes "webcrypto_ok wc" "mnemonicToEntropy wc s = Ok e"
  shows "length e = 32 \<and> generateMnemonic wc e = Ok (normalizeMnemonicInput s)"
proof -
  define ws where "ws = split_spaces (toLowerCase (trim s))"
  obtain bits where b: "length ws = 24" "words_to_bits ws = Ok bits" "bitsToBytes (take 256 bits) = Ok e"
    "checksumBits wc e = drop 256 bits"
    using assms(2)
    by (auto simp: mnemonicToEntropy_def ws_def [symmetric] Let_def bind_result_Ok_iff split: if_splits)
  have w: "is_bits bits" "length bits = 264" "ws = map (word_at bits) [0..<24]"
    using words_to_bits_sound [OF b(2)] b(1) by simp_all
  have "is_bits (take 256 bits)" "length (take 256 bits) = 8 * 32" using w by (simp_all add: is_bits_take_drop)
  then obtain e' where "bitsToBytes (take 256 bits) = Ok e'" "bytesToBits e' = take 256 bits" "length e' = 32"
    by (rule bits_of_bytes)
  then have e: "bytesToBits e = take 256 bits" "length e = 32" using b(3) by simp_all
  then have "bytesToBits e @ checksumBits wc e = bits" using b(4) by simp
  then have "generateMnemonic wc e = Ok (join '' '' ws)"
    using phrase_words(1) [OF assms(1) e(2)] w(3) by (simp add: generateMnemonic_def)
  then show ?thesis using e(2) normalize_join [of s] by (simp add: ws_def)
qed

text \<open>
  C22: Nothing but a phrase of the generator is accepted: input that decodes to some bytes is, once
  normalised, exactly the phrase generated from those 32 bytes, checksum included. So two inputs
  that decode to the same entropy are the same phrase.
\<close>

theorem accepted_phrase_is_generated:
  assumes "webcrypto_ok wc" "mnemonicToEntropy wc s = Ok e"
  shows "length e = 32 \<and> generateMnemonic wc e = Ok (normalizeMnemonicInput s)
    \<and> (mnemonicToEntropy wc t = Ok e \<longrightarrow> normalizeMnemonicInput t = normalizeMnemonicInput s)"
  using accepted_normal [OF assms] accepted_normal [OF assms(1), of t e] by auto

text \<open>
  Each reason to refuse a phrase has its own message: the number of words, the first word that
  is not listed, or the checksum.
\<close>

theorem refused_phrase_messages:
  assumes "mnemonicToEntropy wc s = Throw err"
  shows "\<exists>ws. ws = split_spaces (toLowerCase (trim s)) \<and>
    (if length ws \<noteq> 24 then err = Error (''Expected 24 words, got '' @ nat_str (length ws))
     else case find (\<lambda>w. w \<notin> set BIP39_ENGLISH) ws of
            Some w \<Rightarrow> err = Error (''Unknown word: '' @ [CHR 0x22] @ w @ [CHR 0x22])
          | None \<Rightarrow> err = Error ''Invalid recovery phrase (checksum mismatch)'')
    \<and> checkMnemonic wc s = (case err of Error m \<Rightarrow> Some m | _ \<Rightarrow> None)"
proof -
  have none: "WORD_INDEX w = None \<longleftrightarrow> w \<notin> set BIP39_ENGLISH" for w
    using WORD_INDEX_iff [of w] by (cases "WORD_INDEX w") (auto simp: in_set_conv_nth)
  have all: "words_to_bits ws = (case find (\<lambda>w. w \<notin> set BIP39_ENGLISH) ws of
      Some w \<Rightarrow> Throw (Error (''Unknown word: '' @ [CHR 0x22] @ w @ [CHR 0x22]))
    | None \<Rightarrow> Ok (concat (map (\<lambda>w. padStart 11 (bin_str (the (WORD_INDEX w)))) ws)))" for ws
    by (induction ws) (auto simp: none [symmetric] split: option.split)
  have bits: "\<exists>w. find (\<lambda>w. w \<notin> set BIP39_ENGLISH) ws = Some w
      \<and> x = Error (''Unknown word: '' @ [CHR 0x22] @ w @ [CHR 0x22])" if "words_to_bits ws = Throw x" for ws x
    using that unfolding all [of ws] by (simp split: option.splits)
  have found: "find (\<lambda>w. w \<notin> set BIP39_ENGLISH) ws = None" if "words_to_bits ws = Ok b" for ws b
    using that unfolding all [of ws] by (simp split: option.splits)
  define ws where "ws = split_spaces (toLowerCase (trim s))"
  consider (count) "length ws \<noteq> 24" | (unknown) x where "length ws = 24" "words_to_bits ws = Throw x"
    | (known) b where "length ws = 24" "words_to_bits ws = Ok b"
    by (cases "words_to_bits ws") auto
  then show ?thesis
  proof cases
    case count
    then show ?thesis using assms
      by (auto simp: mnemonicToEntropy_def ws_def [symmetric] checkMnemonic_def Let_def)
  next
    case unknown
    then obtain w where "find (\<lambda>w. w \<notin> set BIP39_ENGLISH) ws = Some w"
      "x = Error (''Unknown word: '' @ [CHR 0x22] @ w @ [CHR 0x22])" using bits by blast
    with unknown show ?thesis using assms
      by (auto simp: mnemonicToEntropy_def ws_def [symmetric] checkMnemonic_def)
  next
    case (known b)
    have "length b = 11 * 24" using words_to_bits_sound [OF known(2)] known(1) by simp
    then obtain e where "bitsToBytes (take 256 b) = Ok e" by (simp add: bitsToBytes_def)
    with known found [OF known(2)] show ?thesis using assms
      by (auto simp: mnemonicToEntropy_def ws_def [symmetric] checkMnemonic_def split: if_splits)
  qed
qed

theorem phrase_roundtrip_witness:
  "\<exists>ws. generateMnemonic demo_crypto (replicate 32 5) = Ok (join '' '' ws) \<and> length ws = 24
    \<and> checkMnemonic demo_crypto (join '' '' ws) = None"
  using phrase_roundtrip [OF demo_crypto_ok, of "replicate 32 5"] by auto

theorem accepted_phrase_is_generated_witness:
  "\<exists>s. mnemonicToEntropy demo_crypto s = Ok (replicate 32 5)
    \<and> generateMnemonic demo_crypto (replicate 32 5) = Ok (normalizeMnemonicInput s)"
proof -
  obtain s where "mnemonicToEntropy demo_crypto s = Ok (replicate 32 5)"
    by (rule some_phrase_reads [OF demo_crypto_ok, of "replicate 32 5"]) simp_all
  then show ?thesis using accepted_phrase_is_generated [OF demo_crypto_ok] by blast
qed

theorem refused_phrase_messages_witness:
  "checkMnemonic demo_crypto [] = Some (''Expected 24 words, got '' @ nat_str 1)"
proof -
  have "split_spaces [] = [[]]" by (subst split_spaces.simps) simp
  then have "mnemonicToEntropy demo_crypto [] = Throw (Error (''Expected 24 words, got '' @ nat_str 1))"
    by (simp add: mnemonicToEntropy_def trim_def)
  from refused_phrase_messages [OF this]
  have "checkMnemonic demo_crypto [] = (case Error (''Expected 24 words, got '' @ nat_str 1) of Error m \<Rightarrow> Some m | _ \<Rightarrow> None)"
    by blast
  then show ?thesis by (simp only: js_error.case)
qed

end
