(* ===== verification/Recovery.thy ===== *)
theory Recovery
  imports Mnemonic Message_Crypto
begin

text \<open>
  Recovery of the device keys from the phrase: \<open>crypto/recovery.ts\<close>. The private key is sealed
  under a key derived from the phrase's entropy; unwrapping on another device stores both keys
  where a login would have put them.
\<close>

section \<open>Boxes locked by a secret\<close>

text \<open>
  The contract of everything sealed under a secret: it opens with that secret. A box can be
  locked anew under another secret.
\<close>

locale keyed_box =
  fixes lock :: "'k \<Rightarrow> 'n \<Rightarrow> 'm \<Rightarrow> 'e" and unlock :: "'k \<Rightarrow> 'e \<Rightarrow> 'm result" and usable :: "'m \<Rightarrow> bool"
  assumes unlock_lock: "usable m \<Longrightarrow> unlock k (lock k n m) = Ok m"
begin

definition relock :: "'k \<Rightarrow> 'k \<Rightarrow> 'n \<Rightarrow> 'e \<Rightarrow> 'e result" where
  "relock k k' n e = bind_result (unlock k e) (\<lambda>m. Ok (lock k' n m))"

lemma relock_opens:
  "usable m \<Longrightarrow> \<exists>e'. relock k k' n' (lock k n m) = Ok e' \<and> unlock k' e' = Ok m"
  by (simp add: relock_def unlock_lock)

lemma same_box: "usable m \<Longrightarrow> usable m' \<Longrightarrow> lock k n m = lock k n' m' \<Longrightarrow> m = m'"
  by (metis unlock_lock sum.inject(2))

end

section \<open>The envelope\<close>

definition PBKDF2_ITERATIONS :: nat where
  "PBKDF2_ITERATIONS = 600000"

definition PBKDF2_SALT :: "('aes, 'pub, 'priv) webcrypto \<Rightarrow> bytes" where
  "PBKDF2_SALT wc = utf8_encode wc ''wayve-recovery-v1''"

definition deriveWrappingKey :: "('aes, 'pub, 'priv) webcrypto \<Rightarrow> bytes \<Rightarrow> 'aes" where
  "deriveWrappingKey wc mnemonicEntropy = derive_key wc mnemonicEntropy (PBKDF2_SALT wc) PBKDF2_ITERATIONS"

record wrapped_key =
  wk_v :: nat
  wk_iv :: string
  wk_pub :: string
  wk_ct :: string

definition wrapKeysForRecovery ::
  "('aes, 'pub, 'priv) webcrypto \<Rightarrow> bytes \<Rightarrow> 'priv \<Rightarrow> bytes \<Rightarrow> bytes \<Rightarrow> wrapped_key" where
  "wrapKeysForRecovery wc iv privateKey publicKeyBytes mnemonicEntropy =
     (let exportedPrivate = export_pkcs8 wc privateKey;
          wrappingKey = deriveWrappingKey wc mnemonicEntropy;
          ciphertext = aes_encrypt wc wrappingKey iv exportedPrivate
      in \<lparr>wk_v = 1, wk_iv = btoa wc iv, wk_pub = btoa wc publicKeyBytes, wk_ct = btoa wc ciphertext\<rparr>)"

definition wrapCredentialForRecovery ::
  "('aes, 'pub, 'priv) webcrypto \<Rightarrow> bytes \<Rightarrow> bytes \<Rightarrow> bytes \<Rightarrow> bytes \<Rightarrow> wrapped_key" where
  "wrapCredentialForRecovery wc credentialPlaintext iv publicKeyBytes mnemonicEntropy =
     (let wrappingKey = deriveWrappingKey wc mnemonicEntropy;
          ciphertext = aes_encrypt wc wrappingKey iv credentialPlaintext
      in \<lparr>wk_v = 1, wk_iv = btoa wc iv, wk_pub = btoa wc publicKeyBytes, wk_ct = btoa wc ciphertext\<rparr>)"

definition WRONG_WORDS :: string where
  "WRONG_WORDS = ''Could not decrypt recovery payload '' @ em_dash @ '' please double-check your 24 words.''"

definition unwrapKeysFromRecovery ::
  "('aes, 'pub, 'priv) webcrypto \<Rightarrow> key_db \<Rightarrow> wrapped_key \<Rightarrow> bytes \<Rightarrow> nat \<Rightarrow> string option
   \<Rightarrow> (('priv \<times> bytes) \<times> key_db) result" where
  "unwrapKeysFromRecovery wc db envelope mnemonicEntropy userId email =
     (if wk_v envelope \<noteq> 1
      then Throw (Error (''Unsupported wrapped-key version: '' @ nat_str (wk_v envelope)))
      else
        let wrappingKey = deriveWrappingKey wc mnemonicEntropy in
        bind_result (subtle (atob wc (wk_iv envelope))) (\<lambda>iv.
        bind_result (subtle (atob wc (wk_ct envelope))) (\<lambda>ct.
        bind_result (rethrow (Error WRONG_WORDS) (subtle (aes_decrypt wc wrappingKey iv ct))) (\<lambda>pkcs8.
        bind_result (subtle (import_pkcs8 wc pkcs8)) (\<lambda>privateKey.
        bind_result (subtle (atob wc (wk_pub envelope))) (\<lambda>publicKeyBytes.
        bind_result (savePrivateKey wc privateKey (Some userId) email db) (\<lambda>db1.
        bind_result (savePublicKey publicKeyBytes (Some userId) email db1) (\<lambda>db2.
        Ok ((privateKey, publicKeyBytes), db2)))))))))"

text \<open>The part of the envelope that the entropy locks: the bytes of the private key.\<close>

definition recovery_payload :: "('aes, 'pub, 'priv) webcrypto \<Rightarrow> bytes \<Rightarrow> wrapped_key \<Rightarrow> bytes result" where
  "recovery_payload wc mnemonicEntropy envelope =
     bind_result (subtle (atob wc (wk_iv envelope))) (\<lambda>iv.
     bind_result (subtle (atob wc (wk_ct envelope))) (\<lambda>ct.
     rethrow (Error WRONG_WORDS) (subtle (aes_decrypt wc (deriveWrappingKey wc mnemonicEntropy) iv ct))))"

interpretation recovery_box: keyed_box
  "\<lambda>e (iv, pub) m. wrapCredentialForRecovery wc m iv pub e" "recovery_payload wc" "\<lambda>m. webcrypto_ok wc" for wc
  by unfold_locales
     (auto simp: wrapCredentialForRecovery_def recovery_payload_def Let_def webcrypto_okD)

lemma wrapKeys_credential:
  "wrapKeysForRecovery wc iv k pub e = wrapCredentialForRecovery wc (export_pkcs8 wc k) iv pub e"
  by (simp add: wrapKeysForRecovery_def wrapCredentialForRecovery_def Let_def)

lemma unwrap_payload:
  assumes "webcrypto_ok wc"
  shows "unwrapKeysFromRecovery wc db (wrapCredentialForRecovery wc m iv pub e) e u email =
     bind_result (subtle (import_pkcs8 wc m)) (\<lambda>k.
     bind_result (savePrivateKey wc k (Some u) email db) (\<lambda>db1.
     bind_result (savePublicKey pub (Some u) email db1) (\<lambda>db2. Ok ((k, pub), db2))))"
  using assms by (simp add: unwrapKeysFromRecovery_def wrapCredentialForRecovery_def Let_def webcrypto_okD)

text \<open>
  A credential-only envelope holds random bytes, not a key: with the right words it opens, and the
  import then fails with the browser's error, not with the message about the words.
\<close>

lemma credential_is_no_key:
  assumes "webcrypto_ok wc" "import_pkcs8 wc m = None"
  shows "unwrapKeysFromRecovery wc db (wrapCredentialForRecovery wc m iv pub e) e u email = Throw DomException"
  using assms by (simp add: unwrap_payload)

section \<open>Properties of recovery\<close>

lemma recovery_saves:
  assumes "webcrypto_ok wc" "db_opens db"
  shows "\<exists>db2. unwrapKeysFromRecovery wc db (wrapKeysForRecovery wc iv k pub e) e u email = Ok ((k, pub), db2)
    \<and> key_pair_saved wc k pub (Some u) email db db2"
proof -
  obtain db1 where db1: "savePrivateKey wc k (Some u) email db = Ok db1" "db_opens db1"
    using assms(2) by (auto simp: savePrivateKey_def putAll_def)
  then obtain db2 where "savePublicKey pub (Some u) email db1 = Ok db2" by (auto simp: savePublicKey_def)
  with db1 show ?thesis
    using assms(1) unwrap_payload [OF assms(1), of db "export_pkcs8 wc k" iv pub e u email]
    by (simp add: wrapKeys_credential webcrypto_okD key_pair_saved_def)
qed

text \<open>
  C2: A user who types the 24 words of a recovery phrase on a device, in any case and spacing,
  gets back exactly the key pair that was wrapped under it, and the device then holds the keys:
  files and messages sealed for the old device's keys open on the new one.
\<close>

theorem phrase_restores_device:
  assumes "webcrypto_ok wc" "db_opens db" "length e = 32" "u \<noteq> 0"
    and "generateMnemonic wc e = Ok (normalizeMnemonicInput typed)"
    and "import_spki wc pubBytes = Some pub" "key_pair wc pub k" "can_wrap wc pub"
  shows "\<exists>db2. bind_result (mnemonicToEntropy wc typed)
      (\<lambda>entropy. unwrapKeysFromRecovery wc db (wrapKeysForRecovery wc iv k pubBytes e) entropy u email)
        = Ok ((k, pubBytes), db2)
    \<and> loadPrivateKey wc (Some u) email db2 = Ok (Some k, db2)
    \<and> loadPublicKey (Some u) email db2 = Ok (Some pubBytes, db2)
    \<and> device_keys wc db2 u pub k"
proof -
  obtain db2 where d: "unwrapKeysFromRecovery wc db (wrapKeysForRecovery wc iv k pubBytes e) e u email = Ok ((k, pubBytes), db2)"
    "key_pair_saved wc k pubBytes (Some u) email db db2" using recovery_saves [OF assms(1,2)] by blast
  note s = key_pair_saved_slots [OF d(2)]
  have "mnemonicToEntropy wc typed = Ok e" using assms(1,3,5) by (rule typed_phrase_reads)
  moreover have "loadPrivateKey wc (Some u) email db2 = Ok (Some k, db2)"
    using s(2,3) assms(1) by (rule loadPrivateKey_slot)
  moreover have "loadPublicKey (Some u) email db2 = Ok (Some pubBytes, db2)"
    using s(2,4) by (simp add: loadPublicKey_def pub.load_saved)
  moreover have "device_keys wc db2 u pub k" using s(2-4) assms(6-8) by (simp add: device_keys_def)
  ultimately show ?thesis using d(1) by simp
qed

text \<open>
  Recovery never installs a key that was not sealed under the entropy used: when it succeeds,
  the envelope is version 1 and its ciphertext is the AES-GCM encryption, under the key derived
  from that entropy, of bytes that import as the private key; another version is refused, and a
  ciphertext that does not authenticate gives the message that asks to check the words.
\<close>

theorem recovery_is_authentic:
  assumes "webcrypto_ok wc"
  shows "(unwrapKeysFromRecovery wc db env e u email = Ok ((k, pubBytes), db2) \<longrightarrow>
      wk_v env = 1 \<and> key_pair_saved wc k pubBytes (Some u) email db db2
      \<and> (\<exists>iv m. atob wc (wk_iv env) = Some iv \<and> import_pkcs8 wc m = Some k
          \<and> atob wc (wk_ct env) = Some (aes_encrypt wc (deriveWrappingKey wc e) iv m)))
    \<and> (wk_v env \<noteq> 1 \<longrightarrow> unwrapKeysFromRecovery wc db env e u email
        = Throw (Error (''Unsupported wrapped-key version: '' @ nat_str (wk_v env))))
    \<and> (wk_v env = 1 \<and> atob wc (wk_iv env) = Some iv' \<and> atob wc (wk_ct env) = Some ct
        \<and> (\<forall>m. ct \<noteq> aes_encrypt wc (deriveWrappingKey wc e) iv' m)
        \<longrightarrow> unwrapKeysFromRecovery wc db env e u email = Throw (Error WRONG_WORDS))"
proof (intro conjI impI)
  assume "unwrapKeysFromRecovery wc db env e u email = Ok ((k, pubBytes), db2)"
  then obtain iv ct m db1 where s: "wk_v env = 1" "atob wc (wk_iv env) = Some iv" "atob wc (wk_ct env) = Some ct"
    "aes_decrypt wc (deriveWrappingKey wc e) iv ct = Some m" "import_pkcs8 wc m = Some k"
    "savePrivateKey wc k (Some u) email db = Ok db1" "savePublicKey pubBytes (Some u) email db1 = Ok db2"
    by (auto simp: unwrapKeysFromRecovery_def Let_def bind_result_Ok_iff subtle_def rethrow_def
        split: if_splits option.splits sum.splits)
  then have "ct = aes_encrypt wc (deriveWrappingKey wc e) iv m" using webcrypto_okD(2) [OF assms] by blast
  with s show "wk_v env = 1" "key_pair_saved wc k pubBytes (Some u) email db db2"
    "\<exists>iv m. atob wc (wk_iv env) = Some iv \<and> import_pkcs8 wc m = Some k
          \<and> atob wc (wk_ct env) = Some (aes_encrypt wc (deriveWrappingKey wc e) iv m)"
    by (auto simp: key_pair_saved_def)
next
  assume "wk_v env \<noteq> 1"
  then show "unwrapKeysFromRecovery wc db env e u email
        = Throw (Error (''Unsupported wrapped-key version: '' @ nat_str (wk_v env)))"
    by (simp add: unwrapKeysFromRecovery_def)
next
  assume a: "wk_v env = 1 \<and> atob wc (wk_iv env) = Some iv' \<and> atob wc (wk_ct env) = Some ct
        \<and> (\<forall>m. ct \<noteq> aes_encrypt wc (deriveWrappingKey wc e) iv' m)"
  then have "aes_decrypt wc (deriveWrappingKey wc e) iv' ct = None"
    using webcrypto_okD(2) [OF assms] by (metis not_None_eq)
  then show "unwrapKeysFromRecovery wc db env e u email = Throw (Error WRONG_WORDS)"
    using a by (simp add: unwrapKeysFromRecovery_def Let_def)
qed

lemma demo_typed:
  obtains typed where "generateMnemonic demo_crypto (replicate 32 5) = Ok (normalizeMnemonicInput typed)"
proof -
  obtain typed where "mnemonicToEntropy demo_crypto typed = Ok (replicate 32 5)"
    by (rule some_phrase_reads [OF demo_crypto_ok, of "replicate 32 5"]) simp_all
  from accepted_normal [OF demo_crypto_ok this] show thesis by (intro that) simp
qed

theorem phrase_restores_device_witness:
  "\<exists>typed db2. bind_result (mnemonicToEntropy demo_crypto typed)
      (\<lambda>e. unwrapKeysFromRecovery demo_crypto demo_db (wrapKeysForRecovery demo_crypto [1, 2] 7 [7] (replicate 32 5)) e 3 None)
        = Ok ((7, [7]), db2)
    \<and> device_keys demo_crypto db2 3 7 7"
proof -
  obtain typed where t: "generateMnemonic demo_crypto (replicate 32 5) = Ok (normalizeMnemonicInput typed)"
    by (rule demo_typed)
  have d: "db_opens demo_db" "length (replicate 32 (5 :: byte)) = 32" "import_spki demo_crypto [7] = Some 7"
    by (simp_all add: demo_db_def) (simp add: demo_crypto_def)
  show ?thesis
    using phrase_restores_device [OF demo_crypto_ok d(1,2) _ t d(3) demo_key_pair(1,2), of 3 "[1, 2]" None] by auto
qed

theorem recovery_is_authentic_witness:
  "unwrapKeysFromRecovery demo_crypto demo_db \<lparr>wk_v = 2, wk_iv = [], wk_pub = [], wk_ct = []\<rparr> [] 3 None
    = Throw (Error (''Unsupported wrapped-key version: '' @ nat_str 2))"
proof -
  let ?env = "\<lparr>wk_v = 2, wk_iv = [], wk_pub = [], wk_ct = []\<rparr>"
  have "wk_v ?env \<noteq> 1 \<longrightarrow> unwrapKeysFromRecovery demo_crypto demo_db ?env [] 3 None
      = Throw (Error (''Unsupported wrapped-key version: '' @ nat_str (wk_v ?env)))"
    using recovery_is_authentic [OF demo_crypto_ok, of demo_db ?env "[]" 3 None] by blast
  then show ?thesis by simp
qed

end
