(* ===== verification/Org_Keys.thy ===== *)
theory Org_Keys
  imports Recovery Mail_Encryption
begin

text \<open>
  The organisation's master key: its envelopes (\<open>orgKeys/envelopeCodec.ts\<close>), its cache
  (\<open>orgKeyStore.ts\<close>), its creation (\<open>orgKeypair.ts\<close>) and recovery (\<open>orgRecovery.ts\<close>), the login
  wrap of a member's key (\<open>memberLogin.ts\<close>) and its reset by a key holder
  (\<open>ownerImpersonate.ts\<close>). What the server answers and what is posted to it are arguments and
  results; keys, salts and vectors that are drawn are arguments.
\<close>

section \<open>Envelopes\<close>

record rsa_wrap =
  rw_iv :: string
  rw_ct :: string

record pbkdf2_wrap =
  pw_iv :: string
  pw_ct :: string
  pw_salt :: string
  pw_iterations :: nat

definition decodeBase64 :: "('aes, 'pub, 'priv) webcrypto \<Rightarrow> string \<Rightarrow> bytes result" where
  "decodeBase64 wc s = subtle (atob wc s)"

definition unwrapPkcs8WithRsaKey ::
  "('aes, 'pub, 'priv) webcrypto \<Rightarrow> string \<Rightarrow> string \<Rightarrow> 'priv \<Rightarrow> bytes result" where
  "unwrapPkcs8WithRsaKey wc iv ct recipientPrivate =
     bind_result (decodeBase64 wc iv) (\<lambda>ivBytes.
     bind_result (decodeBase64 wc ct) (\<lambda>innerJsonBytes.
     bind_result (json_parse (utf8_decode wc innerJsonBytes)) (\<lambda>inner.
     bind_result (js_member (Some inner) ''wrapped_aes'') (\<lambda>wrapped_aes.
     bind_result (js_member (Some inner) ''body'') (\<lambda>body.
     bind_result (subtle (rsa_decrypt wc recipientPrivate (new_Uint8Array wrapped_aes))) (\<lambda>aesRaw.
     bind_result (subtle (import_raw wc aesRaw)) (\<lambda>aesKey.
     subtle (aes_decrypt wc aesKey ivBytes (new_Uint8Array body)))))))))"

definition unwrapPkcs8WithPbkdf2 ::
  "('aes, 'pub, 'priv) webcrypto \<Rightarrow> string \<Rightarrow> string \<Rightarrow> bytes \<Rightarrow> string \<Rightarrow> nat \<Rightarrow> bytes result" where
  "unwrapPkcs8WithPbkdf2 wc iv ct inputMaterial saltB64 iterations =
     bind_result (decodeBase64 wc iv) (\<lambda>ivBytes.
     bind_result (decodeBase64 wc ct) (\<lambda>ctBytes.
     bind_result (decodeBase64 wc saltB64) (\<lambda>salt.
     subtle (aes_decrypt wc (derive_key wc inputMaterial salt iterations) ivBytes ctBytes))))"

definition wrapPkcs8ToRsaPubkey ::
  "('aes, 'pub, 'priv) webcrypto \<Rightarrow> 'aes \<Rightarrow> bytes \<Rightarrow> bytes \<Rightarrow> bytes \<Rightarrow> rsa_wrap result" where
  "wrapPkcs8ToRsaPubkey wc aesKey iv pkcs8 recipientSpkiBytes =
     bind_result (subtle (import_spki wc recipientSpkiBytes)) (\<lambda>recipientPub.
     bind_result (subtle (rsa_encrypt wc recipientPub (export_raw wc aesKey))) (\<lambda>wrappedAes.
     Ok \<lparr>rw_iv = btoa wc iv,
         rw_ct = btoa wc (utf8_encode wc (stringify (JObj
           [(''wrapped_aes'', json_of_bytes wrappedAes),
            (''body'', json_of_bytes (aes_encrypt wc aesKey iv pkcs8))])))\<rparr>))"

text \<open>The body that \<open>wrapPkcs8ForLogin\<close>, \<open>rewrapPkcs8UnderPassword\<close> and the bootstrap share.\<close>

definition pbkdf2_seal ::
  "('aes, 'pub, 'priv) webcrypto \<Rightarrow> bytes \<Rightarrow> bytes \<Rightarrow> bytes \<Rightarrow> bytes \<Rightarrow> pbkdf2_wrap" where
  "pbkdf2_seal wc material salt iv pkcs8 =
     \<lparr>pw_iv = btoa wc iv,
      pw_ct = btoa wc (aes_encrypt wc (derive_key wc material salt PBKDF2_ITERATIONS) iv pkcs8),
      pw_salt = btoa wc salt, pw_iterations = PBKDF2_ITERATIONS\<rparr>"

definition open_wrap :: "('aes, 'pub, 'priv) webcrypto \<Rightarrow> bytes \<Rightarrow> pbkdf2_wrap \<Rightarrow> bytes result" where
  "open_wrap wc material w =
     unwrapPkcs8WithPbkdf2 wc (pw_iv w) (pw_ct w) material (pw_salt w) (pw_iterations w)"

interpretation login_box: keyed_box
  "\<lambda>material (salt, iv) m. pbkdf2_seal wc material salt iv m" "open_wrap wc" "\<lambda>m. webcrypto_ok wc" for wc
  by unfold_locales
     (auto simp: pbkdf2_seal_def open_wrap_def unwrapPkcs8WithPbkdf2_def decodeBase64_def webcrypto_okD)

lemma open_seal: "webcrypto_ok wc \<Longrightarrow> open_wrap wc k (pbkdf2_seal wc k salt iv m) = Ok m"
  using login_box.unlock_lock [where wc = wc and k = k and n = "(salt, iv)" and m = m] by simp

lemma unwrap_wrapped_rsa:
  assumes "webcrypto_ok wc" "wrapPkcs8ToRsaPubkey wc k iv m spki = Ok w"
    and "import_spki wc spki = Some pub" "key_pair wc pub priv"
  shows "unwrapPkcs8WithRsaKey wc (rw_iv w) (rw_ct w) priv = Ok m"
proof -
  obtain c where c: "rsa_encrypt wc pub (export_raw wc k) = Some c"
    and w: "w = \<lparr>rw_iv = btoa wc iv, rw_ct = btoa wc (utf8_encode wc (stringify (JObj
        [(''wrapped_aes'', json_of_bytes c), (''body'', json_of_bytes (aes_encrypt wc k iv m))])))\<rparr>"
    using assms(2,3) by (auto simp: wrapPkcs8ToRsaPubkey_def bind_result_Ok_iff subtle_def split: option.splits)
  have "rsa_decrypt wc priv c = Some (export_raw wc k)" using c assms(4) by (auto simp: key_pair_def)
  moreover have "json_ok (JObj [(''wrapped_aes'', json_of_bytes c), (''body'', json_of_bytes (aes_encrypt wc k iv m))])"
    by simp
  ultimately show ?thesis
    by (simp add: unwrapPkcs8WithRsaKey_def decodeBase64_def w webcrypto_okD [OF assms(1)] json_roundtrip
        js_member_def field_def del: stringify.simps)
qed

section \<open>The cache of the organisation's key\<close>

definition orgPrivateKeyId :: "nat \<Rightarrow> nat \<Rightarrow> string" where
  "orgPrivateKeyId orgId userId = ''orgPrivate:'' @ nat_str orgId @ '':'' @ nat_str userId"

definition saveOrgPrivateKey ::
  "('aes, 'pub, 'priv) webcrypto \<Rightarrow> nat \<Rightarrow> nat \<Rightarrow> 'priv \<Rightarrow> key_db \<Rightarrow> key_db result" where
  "saveOrgPrivateKey wc orgId userId privateKey db =
     (if \<not> db_opens db then Throw DomException
      else Ok (db\<lparr>slots := (slots db)(orgPrivateKeyId orgId userId \<mapsto> export_pkcs8 wc privateKey)\<rparr>))"

definition loadOrgPrivateKey ::
  "('aes, 'pub, 'priv) webcrypto \<Rightarrow> nat \<Rightarrow> nat \<Rightarrow> key_db \<Rightarrow> 'priv option result" where
  "loadOrgPrivateKey wc orgId userId db =
     (if \<not> db_opens db then Throw DomException
      else (case slots db (orgPrivateKeyId orgId userId) of
              None \<Rightarrow> Ok None
            | Some direct \<Rightarrow> map_sum id Some (subtle (import_pkcs8 wc direct))))"

definition clearOrgPrivateKey :: "nat \<Rightarrow> nat \<Rightarrow> key_db \<Rightarrow> key_db result" where
  "clearOrgPrivateKey orgId userId db =
     (if \<not> db_opens db then Throw DomException
      else Ok (db\<lparr>slots := (slots db)(orgPrivateKeyId orgId userId := None)\<rparr>))"

lemma split_colon: "CHR '':'' \<notin> set a \<Longrightarrow> CHR '':'' \<notin> set b \<Longrightarrow> a @ CHR '':'' # x = b @ CHR '':'' # y \<longleftrightarrow> a = b \<and> x = y"
proof (induction a arbitrary: b)
  case Nil
  then show ?case by (cases b) auto
next
  case (Cons c a)
  then show ?case by (cases b) auto
qed

lemma nat_str_colon: "CHR '':'' \<notin> set (nat_str n)"
  using nat_str_digits colon_not_digit(1) by blast

lemma orgPrivateKeyId_inj [simp]: "orgPrivateKeyId o1 u1 = orgPrivateKeyId o2 u2 \<longleftrightarrow> o1 = o2 \<and> u1 = u2"
  by (simp add: orgPrivateKeyId_def split_colon [OF nat_str_colon nat_str_colon])

section \<open>Member login\<close>

definition wrapPkcs8ForLogin ::
  "('aes, 'pub, 'priv) webcrypto \<Rightarrow> bytes \<Rightarrow> bytes \<Rightarrow> bytes \<Rightarrow> string \<Rightarrow> pbkdf2_wrap" where
  "wrapPkcs8ForLogin wc salt iv pkcs8 password = pbkdf2_seal wc (utf8_encode wc password) salt iv pkcs8"

definition buildLoginWrapForPassword ::
  "('aes, 'pub, 'priv) webcrypto \<Rightarrow> key_db \<Rightarrow> bytes \<Rightarrow> bytes \<Rightarrow> nat option \<Rightarrow> string option \<Rightarrow> string
   \<Rightarrow> (pbkdf2_wrap option \<times> key_db) result" where
  "buildLoginWrapForPassword wc db salt iv userId email newPassword =
     bind_result (loadPrivateKey wc userId email db) (\<lambda>(key, db').
       case key of
         None \<Rightarrow> Ok (None, db')
       | Some k \<Rightarrow> Ok (Some (wrapPkcs8ForLogin wc salt iv (export_pkcs8 wc k) newPassword), db'))"

text \<open>\<open>jwk_public\<close> stands for the browser's export of the public half through a JWK.\<close>

definition derivePublicKeyFromPrivate ::
  "('aes, 'pub, 'priv) webcrypto \<Rightarrow> ('priv \<Rightarrow> bytes option) \<Rightarrow> bytes \<Rightarrow> bytes result" where
  "derivePublicKeyFromPrivate wc jwk_public pkcs8 =
     bind_result (subtle (import_pkcs8 wc pkcs8)) (\<lambda>priv. subtle (jwk_public priv))"

definition WRONG_PASSWORD :: string where
  "WRONG_PASSWORD = ''Could not unwrap your private key '' @ em_dash @ '' password may be wrong or account corrupted.''"

definition unwrapAndCacheMemberKeys ::
  "('aes, 'pub, 'priv) webcrypto \<Rightarrow> ('priv \<Rightarrow> bytes option) \<Rightarrow> key_db \<Rightarrow> nat \<Rightarrow> string \<Rightarrow> string \<Rightarrow> pbkdf2_wrap
   \<Rightarrow> (('priv \<times> bytes) \<times> key_db) result" where
  "unwrapAndCacheMemberKeys wc jwk_public db userId email password loginWrap =
     bind_result (rethrow (Error WRONG_PASSWORD) (open_wrap wc (utf8_encode wc password) loginWrap)) (\<lambda>pkcs8.
     bind_result (subtle (import_pkcs8 wc pkcs8)) (\<lambda>privateKey.
     bind_result (derivePublicKeyFromPrivate wc jwk_public pkcs8) (\<lambda>publicKeyBytes.
     bind_result (savePrivateKey wc privateKey (Some userId) (Some email) db) (\<lambda>db1.
     bind_result (savePublicKey publicKeyBytes (Some userId) (Some email) db1) (\<lambda>db2.
     Ok ((privateKey, publicKeyBytes), db2))))))"

definition rewrapOwnLoginEnvelope ::
  "('aes, 'pub, 'priv) webcrypto \<Rightarrow> bytes \<Rightarrow> bytes \<Rightarrow> string \<Rightarrow> string \<Rightarrow> pbkdf2_wrap \<Rightarrow> pbkdf2_wrap result" where
  "rewrapOwnLoginEnvelope wc salt iv oldPassword newPassword oldWrap =
     bind_result (rethrow (Error ''Current password is incorrect.'')
       (open_wrap wc (utf8_encode wc oldPassword) oldWrap)) (\<lambda>pkcs8.
     Ok (pbkdf2_seal wc (utf8_encode wc newPassword) salt iv pkcs8))"

section \<open>A key holder acts for a member\<close>

text \<open>\<open>String(v)\<close> in a message.\<close>

fun js_String :: "json \<Rightarrow> string" where
  "js_String (JStr s) = s"
| "js_String (JArr vs) = join '','' (map (\<lambda>v. if v = JNull then [] else js_String v) vs)"
| "js_String (JObj ms) = ''[object Object]''"
| "js_String v = stringify v"

definition unwrapWayveSecureV1Envelope ::
  "('aes, 'pub, 'priv) webcrypto \<Rightarrow> string \<Rightarrow> 'priv \<Rightarrow> bytes result" where
  "unwrapWayveSecureV1Envelope wc envelope recipientPrivate =
     (let prefix = takeWhile (\<lambda>c. c \<noteq> CHR 0x0A) envelope in
      if CHR 0x0A \<notin> set envelope then Throw (Error ''Malformed member escrow envelope (missing newline).'')
      else if prefix \<noteq> ''WAYVE_SECURE_V1'' then Throw (Error (''Unsupported escrow envelope: '' @ prefix))
      else
        bind_result (json_parse (drop (length prefix + 1) envelope)) (\<lambda>body.
        bind_result (js_member (Some body) ''type'') (\<lambda>type.
        if type \<noteq> Some (JStr ''wayve_encrypted'')
        then Throw (Error (''Unsupported envelope type: ''
               @ (case type of None \<Rightarrow> ''undefined'' | Some t \<Rightarrow> js_String t)))
        else
          bind_result (subtle (rsa_decrypt wc recipientPrivate (new_Uint8Array (field body ''key'')))) (\<lambda>aesRaw.
          bind_result (subtle (import_raw wc aesRaw)) (\<lambda>aesKey.
          subtle (aes_decrypt wc aesKey (new_Uint8Array (field body ''iv''))
            (new_Uint8Array (field body ''data''))))))))"

definition NOT_LOADED :: string where
  "NOT_LOADED = ''Org master key not loaded on this device. Enter your recovery mnemonic at /organization/recovery-key.''"

definition impersonateMember ::
  "('aes, 'pub, 'priv) webcrypto \<Rightarrow> key_db \<Rightarrow> string result \<Rightarrow> nat \<Rightarrow> nat \<Rightarrow> nat \<Rightarrow> (nat \<times> 'priv) result" where
  "impersonateMember wc orgdb escrow orgId callerUserId memberUserId =
     bind_result (loadOrgPrivateKey wc orgId callerUserId orgdb) (\<lambda>orgPrivate.
       case orgPrivate of
         None \<Rightarrow> Throw (Error NOT_LOADED)
       | Some p \<Rightarrow>
           bind_result escrow (\<lambda>envelope.
           bind_result (unwrapWayveSecureV1Envelope wc envelope p) (\<lambda>pkcs8.
           bind_result (subtle (import_pkcs8 wc pkcs8)) (\<lambda>memberPrivateKey.
           Ok (memberUserId, memberPrivateKey)))))"

definition rewrapPkcs8UnderPassword ::
  "('aes, 'pub, 'priv) webcrypto \<Rightarrow> bytes \<Rightarrow> bytes \<Rightarrow> bytes \<Rightarrow> string \<Rightarrow> pbkdf2_wrap" where
  "rewrapPkcs8UnderPassword wc salt iv pkcs8 password = pbkdf2_seal wc (utf8_encode wc password) salt iv pkcs8"

definition rewrapMemberForPasswordReset ::
  "('aes, 'pub, 'priv) webcrypto \<Rightarrow> key_db \<Rightarrow> string result \<Rightarrow> bytes \<Rightarrow> bytes \<Rightarrow> nat \<Rightarrow> nat \<Rightarrow> string
   \<Rightarrow> pbkdf2_wrap result" where
  "rewrapMemberForPasswordReset wc orgdb escrow salt iv orgId callerUserId newPassword =
     bind_result (loadOrgPrivateKey wc orgId callerUserId orgdb) (\<lambda>orgPrivate.
       case orgPrivate of
         None \<Rightarrow> Throw (Error NOT_LOADED)
       | Some p \<Rightarrow>
           bind_result escrow (\<lambda>envelope.
           bind_result (unwrapWayveSecureV1Envelope wc envelope p) (\<lambda>pkcs8.
           Ok (rewrapPkcs8UnderPassword wc salt iv pkcs8 newPassword))))"

section \<open>Waiting for the founder's key\<close>

text \<open>
  The key store at each moment since the start, in milliseconds; a timer takes the interval, and
  at least one millisecond.
\<close>

function poll_public_key ::
  "(nat \<Rightarrow> key_db) \<Rightarrow> nat \<Rightarrow> string \<Rightarrow> nat \<Rightarrow> nat \<Rightarrow> nat \<Rightarrow> bytes option result" where
  "poll_public_key db userId email timeoutMs intervalMs t =
     (case loadPublicKey (Some userId) (Some email) (db t) of
        Inl e \<Rightarrow> Throw e
      | Inr (Some key, _) \<Rightarrow> Ok (Some key)
      | Inr (None, _) \<Rightarrow>
          if t < timeoutMs then poll_public_key db userId email timeoutMs intervalMs (t + max 1 intervalMs)
          else Ok None)"
  by pat_completeness auto
termination
  by (relation "measure (\<lambda>(db, u, e, timeoutMs, i, t). timeoutMs - t)") auto

declare poll_public_key.simps [simp del]

definition waitForPublicKey ::
  "(nat \<Rightarrow> key_db) \<Rightarrow> nat \<Rightarrow> string \<Rightarrow> nat \<Rightarrow> nat \<Rightarrow> bytes option result" where
  "waitForPublicKey db userId email timeoutMs intervalMs =
     poll_public_key db userId email timeoutMs intervalMs 0"

section \<open>Creating and recovering the organisation's key\<close>

record bootstrap_request =
  br_public_key :: string
  br_wrapped_mnemonic :: pbkdf2_wrap
  br_wrapped_user :: rsa_wrap

text \<open>The result, and the request posted; \<open>post\<close> is the server's answer to it.\<close>

definition bootstrapOrgMasterKey ::
  "('aes, 'pub, 'priv) webcrypto \<Rightarrow> (nat \<Rightarrow> key_db) \<Rightarrow> (bootstrap_request \<Rightarrow> unit result)
   \<Rightarrow> 'priv \<Rightarrow> bytes \<Rightarrow> bytes \<Rightarrow> bytes \<Rightarrow> bytes \<Rightarrow> 'aes \<Rightarrow> bytes \<Rightarrow> nat \<Rightarrow> string
   \<Rightarrow> ((string \<times> bytes) \<times> bootstrap_request) result" where
  "bootstrapOrgMasterKey wc db post orgPrivate orgPublicSpki drawn salt iv aesKey iv2 founderUserId founderEmail =
     (let orgPrivatePkcs8 = export_pkcs8 wc orgPrivate in
      bind_result (generateMnemonic wc drawn) (\<lambda>mnemonic.
      bind_result (mnemonicToEntropy wc mnemonic) (\<lambda>entropy.
      let wrapped_mnemonic = pbkdf2_seal wc entropy salt iv orgPrivatePkcs8 in
      bind_result (waitForPublicKey db founderUserId founderEmail 20000 250) (\<lambda>founderPub.
        case founderPub of
          None \<Rightarrow> Throw (Error (''Founder personal public key not found on this device '' @ em_dash
                    @ '' sign in fully first.''))
        | Some pk \<Rightarrow>
            bind_result (wrapPkcs8ToRsaPubkey wc aesKey iv2 orgPrivatePkcs8 pk) (\<lambda>wrapped_user.
            let body = \<lparr>br_public_key = stringify (json_of_bytes orgPublicSpki),
                        br_wrapped_mnemonic = wrapped_mnemonic, br_wrapped_user = wrapped_user\<rparr> in
            bind_result (post body) (\<lambda>_.
            Ok ((mnemonic, orgPublicSpki), body)))))))"

text \<open>The best-effort request that publishes the caller's own wrap; every failure is swallowed.\<close>

definition publish_user_wrap ::
  "('aes, 'pub, 'priv) webcrypto \<Rightarrow> rsa_wrap option result \<Rightarrow> 'aes \<Rightarrow> bytes \<Rightarrow> nat \<Rightarrow> string \<Rightarrow> bytes \<Rightarrow> key_db
   \<Rightarrow> rsa_wrap option" where
  "publish_user_wrap wc current aesKey iv callerUserId callerEmail pkcs8 devdb =
     (case current of
        Inr None \<Rightarrow>
          (case loadPublicKey (Some callerUserId) (Some callerEmail) devdb of
             Inr (Some founderPub, _) \<Rightarrow>
               (case wrapPkcs8ToRsaPubkey wc aesKey iv pkcs8 founderPub of Inr w \<Rightarrow> Some w | Inl _ \<Rightarrow> None)
           | _ \<Rightarrow> None)
      | _ \<Rightarrow> None)"

definition WRONG_ORG_WORDS :: string where
  "WRONG_ORG_WORDS = ''Could not unwrap the org recovery key '' @ em_dash @ '' please double-check your 24 words.''"

text \<open>The key and its bytes, the organisation store afterwards and the wrap posted, if any.\<close>

definition unwrapOrgKeyWithMnemonic ::
  "('aes, 'pub, 'priv) webcrypto \<Rightarrow> key_db \<Rightarrow> key_db \<Rightarrow> rsa_wrap option result \<Rightarrow> 'aes \<Rightarrow> bytes
   \<Rightarrow> nat \<Rightarrow> nat \<Rightarrow> string \<Rightarrow> string \<Rightarrow> pbkdf2_wrap \<Rightarrow> (('priv \<times> bytes) \<times> key_db \<times> rsa_wrap option) result" where
  "unwrapOrgKeyWithMnemonic wc orgdb devdb current aesKey iv orgId callerUserId callerEmail mnemonic wrap =
     bind_result (mnemonicToEntropy wc mnemonic) (\<lambda>entropy.
     bind_result (rethrow (Error WRONG_ORG_WORDS) (open_wrap wc entropy wrap)) (\<lambda>pkcs8.
     bind_result (subtle (import_pkcs8 wc pkcs8)) (\<lambda>privateKey.
     bind_result (saveOrgPrivateKey wc orgId callerUserId privateKey orgdb) (\<lambda>orgdb'.
     Ok ((privateKey, pkcs8), orgdb',
         publish_user_wrap wc current aesKey iv callerUserId callerEmail pkcs8 devdb)))))"

definition unwrapOrgKeyWithUserPubkey ::
  "('aes, 'pub, 'priv) webcrypto \<Rightarrow> key_db \<Rightarrow> key_db \<Rightarrow> rsa_wrap option result \<Rightarrow> nat \<Rightarrow> nat \<Rightarrow> string
   \<Rightarrow> (('priv \<times> bytes) option \<times> key_db) result" where
  "unwrapOrgKeyWithUserPubkey wc orgdb devdb current orgId callerUserId callerEmail =
     bind_result (loadPrivateKey wc (Some callerUserId) (Some callerEmail) devdb) (\<lambda>(callerPriv, _).
       case callerPriv of
         None \<Rightarrow> Ok (None, orgdb)
       | Some priv \<Rightarrow>
           bind_result current (\<lambda>wrapped_user.
             case wrapped_user of
               None \<Rightarrow> Ok (None, orgdb)
             | Some w \<Rightarrow>
                 (case unwrapPkcs8WithRsaKey wc (rw_iv w) (rw_ct w) priv of
                    Inl _ \<Rightarrow> Ok (None, orgdb)
                  | Inr pkcs8 \<Rightarrow>
                      bind_result (subtle (import_pkcs8 wc pkcs8)) (\<lambda>privateKey.
                      bind_result (saveOrgPrivateKey wc orgId callerUserId privateKey orgdb) (\<lambda>orgdb'.
                      Ok (Some (privateKey, pkcs8), orgdb'))))))"

section \<open>Properties of the organisation's keys\<close>

lemma poll_finds:
  assumes "\<forall>s \<ge> t0. db_opens (db s) \<and> slots (db s) (publicKeyId (Some u)) = Some pk"
    and "\<forall>s < t0. loadPublicKey (Some u) (Some e) (db s) = Ok (None, db s)" "t0 \<le> timeoutMs"
  shows "poll_public_key db u e timeoutMs i t = Ok (Some pk)"
proof (induction t rule: measure_induct_rule [of "\<lambda>t. timeoutMs - t"])
  case (less t)
  show ?case
  proof (cases "t < t0")
    case True
    then have "poll_public_key db u e timeoutMs i (t + max 1 i) = Ok (Some pk)"
      using assms(3) by (intro less) auto
    then show ?thesis using True assms(2,3) by (subst poll_public_key.simps) simp
  next
    case False
    then show ?thesis using assms(1)
      by (subst poll_public_key.simps) (simp add: loadPublicKey_def pub.load_saved)
  qed
qed

lemma poll_gives_up:
  assumes "\<forall>s. loadPublicKey (Some u) (Some e) (db s) = Ok (None, db s)"
  shows "poll_public_key db u e timeoutMs i t = Ok None"
proof (induction t rule: measure_induct_rule [of "\<lambda>t. timeoutMs - t"])
  case (less t)
  then show ?case using assms by (subst poll_public_key.simps) auto
qed

text \<open>
  C34: Waiting for the founder's key always ends. If the login that runs beside it stores the key at
  any moment up to the time limit, the wait returns that key, whatever the interval; if the key
  never appears, it returns nothing.
\<close>

theorem wait_for_key_ends:
  shows "((\<forall>s \<ge> t0. db_opens (db s) \<and> slots (db s) (publicKeyId (Some u)) = Some pk)
      \<and> (\<forall>s < t0. loadPublicKey (Some u) (Some e) (db s) = Ok (None, db s)) \<and> t0 \<le> timeoutMs
      \<longrightarrow> waitForPublicKey db u e timeoutMs intervalMs = Ok (Some pk))
    \<and> ((\<forall>s. loadPublicKey (Some u) (Some e) (db s) = Ok (None, db s))
      \<longrightarrow> waitForPublicKey db u e timeoutMs intervalMs = Ok None)"
  using poll_finds [of t0 db u pk e timeoutMs intervalMs 0] poll_gives_up [of u e db timeoutMs intervalMs 0]
  by (simp add: waitForPublicKey_def)

lemma saved_org_key:
  assumes "webcrypto_ok wc" "db_opens db"
  shows "\<exists>db2. saveOrgPrivateKey wc o1 u k db = Ok db2 \<and> loadOrgPrivateKey wc o1 u db2 = Ok (Some k)
    \<and> (\<forall>o' u'. (o', u') \<noteq> (o1, u) \<longrightarrow> loadOrgPrivateKey wc o' u' db2 = loadOrgPrivateKey wc o' u' db)"
  using assms by (auto simp: saveOrgPrivateKey_def loadOrgPrivateKey_def webcrypto_okD)

lemma bootstrap_parts:
  assumes "webcrypto_ok wc" "length drawn = 32"
    and "bootstrapOrgMasterKey wc db post op spki drawn salt iv k iv2 fu fe = Ok ((mnemonic, sp), req)"
  obtains pk t q where "generateMnemonic wc drawn = Ok mnemonic" "sp = spki"
    "br_wrapped_mnemonic req = pbkdf2_seal wc drawn salt iv (export_pkcs8 wc op)"
    "wrapPkcs8ToRsaPubkey wc k iv2 (export_pkcs8 wc op) pk = Ok (br_wrapped_user req)"
    "waitForPublicKey db fu fe 20000 250 = Ok (Some pk)"
proof -
  obtain entropy pk where s: "generateMnemonic wc drawn = Ok mnemonic" "mnemonicToEntropy wc mnemonic = Ok entropy"
    "sp = spki" "br_wrapped_mnemonic req = pbkdf2_seal wc entropy salt iv (export_pkcs8 wc op)"
    "wrapPkcs8ToRsaPubkey wc k iv2 (export_pkcs8 wc op) pk = Ok (br_wrapped_user req)"
    "waitForPublicKey db fu fe 20000 250 = Ok (Some pk)"
    using assms(3) by (auto simp: bootstrapOrgMasterKey_def Let_def bind_result_Ok_iff split: option.splits)
  obtain ws where ws: "generateMnemonic wc drawn = Ok (join '' '' ws)" "mnemonicToEntropy wc (join '' '' ws) = Ok drawn"
    by (rule generated_phrase_reads [OF assms(1,2)])
  with s have "entropy = drawn" by simp
  with s that show thesis by blast
qed

lemma poll_loaded:
  "poll_public_key db u e timeoutMs i t = Ok (Some pk) \<Longrightarrow>
   \<exists>s d. loadPublicKey (Some u) (Some e) (db s) = Ok (Some pk, d)"
proof (induction t rule: measure_induct_rule [of "\<lambda>t. timeoutMs - t"])
  case (less t)
  show ?case
  proof (cases "loadPublicKey (Some u) (Some e) (db t)" rule: loaded_cases)
    case err
    with less.prems show ?thesis by (subst (asm) poll_public_key.simps) simp
  next
    case (found k d)
    with less.prems have "k = pk" by (subst (asm) poll_public_key.simps) simp
    with found show ?thesis by blast
  next
    case (none d)
    with less.prems have r: "t < timeoutMs" "poll_public_key db u e timeoutMs i (t + max 1 i) = Ok (Some pk)"
      by (subst (asm) poll_public_key.simps, simp split: if_splits)+
    show ?thesis by (rule less.IH [OF _ r(2)]) (use r(1) in auto)
  qed
qed

text \<open>
  C11: The key of an organisation is never lost to its founder: from the request that the bootstrap
  posts, the phrase it returned (however it is typed) unwraps the same private key on any device
  and stores it there for this organisation and user only, and the founder's own device key
  unwraps it without the phrase.
\<close>

theorem org_key_recoverable:
  assumes "webcrypto_ok wc" "length drawn = 32"
    and "bootstrapOrgMasterKey wc db post op spki drawn salt iv k iv2 fu fe = Ok ((normalizeMnemonicInput typed, sp), req)"
    and "db_opens orgdb" "loadPrivateKey wc (Some fu) (Some fe) devdb = Ok (Some fp, d)"
    and "\<forall>s pk pub q. loadPublicKey (Some fu) (Some fe) (db s) = Ok (Some pk, q) \<longrightarrow> import_spki wc pk = Some pub
      \<longrightarrow> key_pair wc pub fp"
  shows "(\<exists>orgdb2 w. unwrapOrgKeyWithMnemonic wc orgdb devdb current k2 iv3 orgId cu ce typed (br_wrapped_mnemonic req)
        = Ok ((op, export_pkcs8 wc op), orgdb2, w)
      \<and> loadOrgPrivateKey wc orgId cu orgdb2 = Ok (Some op)
      \<and> (\<forall>o' u'. (o', u') \<noteq> (orgId, cu) \<longrightarrow> loadOrgPrivateKey wc o' u' orgdb2 = loadOrgPrivateKey wc o' u' orgdb))
    \<and> (\<exists>orgdb2. unwrapOrgKeyWithUserPubkey wc orgdb devdb (Ok (Some (br_wrapped_user req))) orgId fu fe
        = Ok (Some (op, export_pkcs8 wc op), orgdb2)
      \<and> loadOrgPrivateKey wc orgId fu orgdb2 = Ok (Some op))"
proof -
  obtain pk where b: "generateMnemonic wc drawn = Ok (normalizeMnemonicInput typed)"
    "br_wrapped_mnemonic req = pbkdf2_seal wc drawn salt iv (export_pkcs8 wc op)"
    "wrapPkcs8ToRsaPubkey wc k iv2 (export_pkcs8 wc op) pk = Ok (br_wrapped_user req)"
    "waitForPublicKey db fu fe 20000 250 = Ok (Some pk)"
    using bootstrap_parts [OF assms(1-3)] by metis
  have e: "mnemonicToEntropy wc typed = Ok drawn" using assms(1,2) b(1) by (rule typed_phrase_reads)
  obtain pub where pub: "import_spki wc pk = Some pub"
    using b(3) by (auto simp: wrapPkcs8ToRsaPubkey_def bind_result_Ok_iff subtle_def split: option.splits)
  obtain s q where "loadPublicKey (Some fu) (Some fe) (db s) = Ok (Some pk, q)"
    using poll_loaded b(4) unfolding waitForPublicKey_def by blast
  then have "key_pair wc pub fp" using assms(6) pub by blast
  then have u: "unwrapPkcs8WithRsaKey wc (rw_iv (br_wrapped_user req)) (rw_ct (br_wrapped_user req)) fp
      = Ok (export_pkcs8 wc op)"
    using unwrap_wrapped_rsa [OF assms(1) b(3) pub] by blast
  obtain d1 where d1: "saveOrgPrivateKey wc orgId cu op orgdb = Ok d1" "loadOrgPrivateKey wc orgId cu d1 = Ok (Some op)"
    "\<forall>o' u'. (o', u') \<noteq> (orgId, cu) \<longrightarrow> loadOrgPrivateKey wc o' u' d1 = loadOrgPrivateKey wc o' u' orgdb"
    using saved_org_key [OF assms(1,4)] by blast
  obtain d2 where d2: "saveOrgPrivateKey wc orgId fu op orgdb = Ok d2" "loadOrgPrivateKey wc orgId fu d2 = Ok (Some op)"
    using saved_org_key [OF assms(1,4)] by blast
  have "unwrapOrgKeyWithMnemonic wc orgdb devdb current k2 iv3 orgId cu ce typed (br_wrapped_mnemonic req)
      = Ok ((op, export_pkcs8 wc op), d1, publish_user_wrap wc current k2 iv3 cu ce (export_pkcs8 wc op) devdb)"
    by (simp add: unwrapOrgKeyWithMnemonic_def e b(2) open_seal [OF assms(1)] webcrypto_okD(4) [OF assms(1)] d1(1))
  moreover have "unwrapOrgKeyWithUserPubkey wc orgdb devdb (Ok (Some (br_wrapped_user req))) orgId fu fe
      = Ok (Some (op, export_pkcs8 wc op), d2)"
    by (simp add: unwrapOrgKeyWithUserPubkey_def assms(5) u webcrypto_okD(4) [OF assms(1)] d2(1))
  ultimately show ?thesis using d1(2,3) d2(2) by blast
qed

text \<open>
  A member whose key is wrapped under a password signs in with it and has the key on the
  device; after a password change the new wrap opens with the new password to the same key; a
  password that does not open the wrap changes nothing and is reported as such, on both paths.
\<close>

theorem password_change_keeps_key:
  assumes "webcrypto_ok wc" "open_wrap wc (utf8_encode wc old) wrap = Ok (export_pkcs8 wc k)"
    and "jwk_public k = Some pk" "db_opens db" "open_wrap wc (utf8_encode wc wrong) wrap = Throw x"
  shows "\<exists>w db2. rewrapOwnLoginEnvelope wc salt iv old new wrap = Ok w
    \<and> unwrapAndCacheMemberKeys wc jwk_public db u em new w = Ok ((k, pk), db2)
    \<and> loadPrivateKey wc (Some u) (Some em) db2 = Ok (Some k, db2)
    \<and> (\<exists>w2. buildLoginWrapForPassword wc db2 salt iv (Some u) (Some em) new2 = Ok (Some w2, db2)
        \<and> open_wrap wc (utf8_encode wc new2) w2 = Ok (export_pkcs8 wc k))
    \<and> rewrapOwnLoginEnvelope wc salt iv wrong new wrap = Throw (Error ''Current password is incorrect.'')
    \<and> unwrapAndCacheMemberKeys wc jwk_public db u em wrong wrap = Throw (Error WRONG_PASSWORD)"
proof -
  let ?w = "pbkdf2_seal wc (utf8_encode wc new) salt iv (export_pkcs8 wc k)"
  obtain db1 where db1: "savePrivateKey wc k (Some u) (Some em) db = Ok db1" "db_opens db1"
    using assms(4) by (auto simp: savePrivateKey_def putAll_def)
  then obtain db2 where db2: "savePublicKey pk (Some u) (Some em) db1 = Ok db2" by (auto simp: savePublicKey_def)
  have saved: "key_pair_saved wc k pk (Some u) (Some em) db db2" using db1 db2 by (simp add: key_pair_saved_def)
  have l: "loadPrivateKey wc (Some u) (Some em) db2 = Ok (Some k, db2)"
    by (rule loadPrivateKey_slot [OF key_pair_saved_slots(2,3) [OF saved] assms(1)])
  have "unwrapAndCacheMemberKeys wc jwk_public db u em new ?w = Ok ((k, pk), db2)"
    by (simp add: unwrapAndCacheMemberKeys_def open_seal [OF assms(1)] webcrypto_okD(4) [OF assms(1)]
        derivePublicKeyFromPrivate_def assms(3) db1 db2)
  moreover have "rewrapOwnLoginEnvelope wc salt iv old new wrap = Ok ?w"
    by (simp add: rewrapOwnLoginEnvelope_def assms(2))
  moreover have "buildLoginWrapForPassword wc db2 salt iv (Some u) (Some em) new2
      = Ok (Some (pbkdf2_seal wc (utf8_encode wc new2) salt iv (export_pkcs8 wc k)), db2)"
    by (simp add: buildLoginWrapForPassword_def l wrapPkcs8ForLogin_def)
  moreover have "open_wrap wc (utf8_encode wc new2) (pbkdf2_seal wc (utf8_encode wc new2) salt iv (export_pkcs8 wc k))
      = Ok (export_pkcs8 wc k)" by (rule open_seal [OF assms(1)])
  moreover have "rewrapOwnLoginEnvelope wc salt iv wrong new wrap = Throw (Error ''Current password is incorrect.'')"
    "unwrapAndCacheMemberKeys wc jwk_public db u em wrong wrap = Throw (Error WRONG_PASSWORD)"
    by (simp_all add: rewrapOwnLoginEnvelope_def unwrapAndCacheMemberKeys_def assms(5))
  ultimately show ?thesis using l by blast
qed

definition escrow_text :: "bytes \<Rightarrow> bytes \<Rightarrow> bytes \<Rightarrow> string" where
  "escrow_text data key iv = mail_text (JObj (single_json data key iv))"

lemma open_escrow:
  "unwrapWayveSecureV1Envelope wc (escrow_text data key iv) p =
     bind_result (subtle (rsa_decrypt wc p key)) (\<lambda>raw.
     bind_result (subtle (import_raw wc raw)) (\<lambda>k. subtle (aes_decrypt wc k iv data)))"
proof -
  let ?v = "JObj (single_json data key iv)"
  have pre: "takeWhile (\<lambda>c. c \<noteq> CHR 0x0A) (escrow_text data key iv) = ''WAYVE_SECURE_V1''"
    "CHR 0x0A \<in> set (escrow_text data key iv)"
    "drop (length ''WAYVE_SECURE_V1'' + 1) (escrow_text data key iv) = stringify ?v"
    by (simp_all add: escrow_text_def mail_text_def SECURE_PREFIX_def)
  have "json_parse (stringify ?v) = Ok ?v" by (rule json_roundtrip) (auto simp: single_json_def)
  moreover have "js_member (Some ?v) ''type'' = Ok (Some (JStr ''wayve_encrypted''))"
    "field ?v ''key'' = Some (json_of_bytes key)" "field ?v ''iv'' = Some (json_of_bytes iv)"
    "field ?v ''data'' = Some (json_of_bytes data)"
    by (simp_all add: js_member_def field_def single_json_def)
  ultimately show ?thesis
    unfolding unwrapWayveSecureV1Envelope_def Let_def pre by (simp add: pre(2))
qed

text \<open>
  A key holder whose device has the organisation's key recovers a member's private key from the
  member's escrow, and a password reset produces a login wrap that the new password opens to that
  very key; a device without the organisation's key does neither and says what to do.
\<close>

theorem holder_reset_keeps_member_key:
  assumes "webcrypto_ok wc" "loadOrgPrivateKey wc orgId caller orgdb = Ok (Some p)"
    and "key_pair wc orgPub p" "rsa_encrypt wc orgPub (export_raw wc k) = Some wk"
    and "loadOrgPrivateKey wc orgId caller2 orgdb = Ok None"
    and "escrow = Ok (escrow_text (aes_encrypt wc k iv (export_pkcs8 wc mk)) wk iv)"
  shows "impersonateMember wc orgdb escrow orgId caller member = Ok (member, mk)
    \<and> (\<exists>w. rewrapMemberForPasswordReset wc orgdb escrow salt iv2 orgId caller new = Ok w
        \<and> open_wrap wc (utf8_encode wc new) w = Ok (export_pkcs8 wc mk))
    \<and> impersonateMember wc orgdb escrow orgId caller2 member = Throw (Error NOT_LOADED)
    \<and> rewrapMemberForPasswordReset wc orgdb escrow salt iv2 orgId caller2 new = Throw (Error NOT_LOADED)"
proof -
  have "rsa_decrypt wc p wk = Some (export_raw wc k)" using assms(3,4) by (auto simp: key_pair_def)
  then have "unwrapWayveSecureV1Envelope wc (escrow_text (aes_encrypt wc k iv (export_pkcs8 wc mk)) wk iv) p
      = Ok (export_pkcs8 wc mk)"
    by (simp add: open_escrow webcrypto_okD [OF assms(1)])
  then show ?thesis
    by (simp add: impersonateMember_def rewrapMemberForPasswordReset_def assms(2,5,6)
        webcrypto_okD(4) [OF assms(1)] rewrapPkcs8UnderPassword_def open_seal [OF assms(1)])
qed

section \<open>Witnesses\<close>

theorem wait_for_key_ends_witness:
  "waitForPublicKey (\<lambda>s. if s < 400 then demo_db else demo_keys) 3 ''a'' 20000 250 = Ok (Some [7])"
proof -
  have k: "slots demo_keys (publicKeyId (Some 3)) = Some [7]" "db_opens demo_keys" by (simp_all add: demo_keys_def)
  have n: "loadPublicKey (Some 3) (Some ''a'') demo_db = Ok (None, demo_db)"
    by (simp add: loadPublicKey_def load_slot_def getOne_def demo_db_def split: option.split)
  show ?thesis
    using wait_for_key_ends [of 400 "\<lambda>s. if s < 400 then demo_db else demo_keys" 3 "[7]" "''a''" 20000 250] k n
    by simp
qed

theorem org_key_recoverable_witness:
  "\<exists>typed req orgdb2 w. bootstrapOrgMasterKey demo_crypto (\<lambda>s. demo_keys) (\<lambda>_. Ok ()) 11 [11] (replicate 32 5)
      [1] [2] 9 [3] 3 ''a'' = Ok ((normalizeMnemonicInput typed, [11]), req)
    \<and> unwrapOrgKeyWithMnemonic demo_crypto demo_db demo_keys (Ok None) 9 [4] 1 3 ''a'' typed (br_wrapped_mnemonic req)
      = Ok ((11, export_pkcs8 demo_crypto 11), orgdb2, w)"
proof -
  let ?db = "\<lambda>s :: nat. demo_keys"
  obtain typed where t: "generateMnemonic demo_crypto (replicate 32 5) = Ok (normalizeMnemonicInput typed)"
    by (rule demo_typed)
  have m: "mnemonicToEntropy demo_crypto (normalizeMnemonicInput typed) = Ok (replicate 32 5)"
    using generated_phrase_reads [OF demo_crypto_ok, of "replicate 32 5"] t by (metis length_replicate sum.inject(2))
  have load: "loadPublicKey (Some 3) (Some ''a'') demo_keys = Ok (Some [7], demo_keys)"
    by (simp add: loadPublicKey_def pub.load_saved demo_keys_def)
  have w: "waitForPublicKey ?db 3 ''a'' 20000 250 = Ok (Some [7])"
    by (simp add: waitForPublicKey_def load poll_public_key.simps)
  obtain req where b: "bootstrapOrgMasterKey demo_crypto ?db (\<lambda>_. Ok ()) 11 [11] (replicate 32 5) [1] [2] 9 [3] 3 ''a''
      = Ok ((normalizeMnemonicInput typed, [11]), req)"
    by (auto simp: bootstrapOrgMasterKey_def Let_def t m w wrapPkcs8ToRsaPubkey_def)
       (simp add: demo_crypto_def)
  have lp: "loadPrivateKey demo_crypto (Some 3) (Some ''a'') demo_keys = Ok (Some 7, demo_keys)"
    by (rule loadPrivateKey_slot [OF _ _ demo_crypto_ok]) (simp_all add: demo_keys_def demo_crypto_def)
  have kp: "\<forall>s pk pub q. loadPublicKey (Some 3) (Some ''a'') (?db s) = Ok (Some pk, q) \<longrightarrow> import_spki demo_crypto pk = Some pub
      \<longrightarrow> key_pair demo_crypto pub 7"
    using demo_key_pair(1) [of 7] by (simp add: load) (simp add: demo_crypto_def)
  have o: "db_opens demo_db" by (simp add: demo_db_def)
  show ?thesis
    using org_key_recoverable [OF demo_crypto_ok _ b o lp kp, of "Ok None" 9 "[4]" 1 3 "''a''"] b by auto
qed

theorem password_change_keeps_key_witness:
  "\<exists>w db2. rewrapOwnLoginEnvelope demo_crypto [1] [2] ''old'' ''newpw''
      (pbkdf2_seal demo_crypto (utf8_encode demo_crypto ''old'') [5] [6] (export_pkcs8 demo_crypto 7)) = Ok w
    \<and> unwrapAndCacheMemberKeys demo_crypto (\<lambda>p. Some [p]) demo_db 3 ''a'' ''newpw'' w = Ok ((7, [7]), db2)"
proof -
  let ?wrap = "pbkdf2_seal demo_crypto (utf8_encode demo_crypto ''old'') [5] [6] (export_pkcs8 demo_crypto 7)"
  have "open_wrap demo_crypto (utf8_encode demo_crypto ''bad'') ?wrap = Throw DomException"
    by (simp add: open_wrap_def unwrapPkcs8WithPbkdf2_def pbkdf2_seal_def decodeBase64_def demo_crypto_def code_def)
  moreover have "db_opens demo_db" by (simp add: demo_db_def)
  moreover have "open_wrap demo_crypto (utf8_encode demo_crypto ''old'') ?wrap = Ok (export_pkcs8 demo_crypto 7)"
    by (rule open_seal [OF demo_crypto_ok])
  ultimately show ?thesis
    using password_change_keeps_key [OF demo_crypto_ok, where wrap = ?wrap and jwk_public = "\<lambda>p. Some [p]" and k = 7
        and pk = "[7]" and db = demo_db and old = "''old''" and wrong = "''bad''" and salt = "[1]" and iv = "[2]"
        and new = "''newpw''" and u = 3 and em = "''a''"] by blast
qed

theorem holder_reset_keeps_member_key_witness:
  "\<exists>orgdb escrow. impersonateMember demo_crypto orgdb escrow 1 3 8 = Ok (8, 7)"
proof -
  obtain orgdb where s: "saveOrgPrivateKey demo_crypto 1 3 11 demo_db = Ok orgdb"
    by (simp add: saveOrgPrivateKey_def demo_db_def)
  have l: "loadOrgPrivateKey demo_crypto 1 3 orgdb = Ok (Some 11)" "loadOrgPrivateKey demo_crypto 1 4 orgdb = Ok None"
    using s by (auto simp: saveOrgPrivateKey_def loadOrgPrivateKey_def demo_db_def webcrypto_okD [OF demo_crypto_ok])
  have "rsa_encrypt demo_crypto 11 (export_raw demo_crypto 9) = Some [11, 9]" by (simp add: demo_crypto_def)
  from holder_reset_keeps_member_key [OF demo_crypto_ok l(1) demo_key_pair(1) this l(2) refl] show ?thesis by blast
qed

end
