(* ===== verification/Secure_Send.thy ===== *)
theory Secure_Send
  imports Recovery
begin

text \<open>
  Secure send: \<open>emails/secureSend.ts\<close>. A body is sealed under a random key, which is wrapped under a
  key derived from a passphrase the recipient gets by other means.
\<close>

definition PBKDF2_SALT_BYTES :: nat where "PBKDF2_SALT_BYTES = 16"
definition AES_KEY_BYTES :: nat where "AES_KEY_BYTES = 32"
definition AES_IV_BYTES :: nat where "AES_IV_BYTES = 12"

definition bytesToBase64 :: "('aes, 'pub, 'priv) webcrypto \<Rightarrow> bytes \<Rightarrow> string" where
  "bytesToBase64 wc bs = btoa wc bs"

definition base64ToBytes :: "('aes, 'pub, 'priv) webcrypto \<Rightarrow> string \<Rightarrow> bytes result" where
  "base64ToBytes wc s = subtle (atob wc s)"

definition derivePassphraseKey :: "('aes, 'pub, 'priv) webcrypto \<Rightarrow> string \<Rightarrow> bytes \<Rightarrow> nat \<Rightarrow> 'aes" where
  "derivePassphraseKey wc passphrase salt iterations =
     derive_key wc (utf8_encode wc passphrase) salt iterations"

record secure_bundle =
  sb_ciphertext :: string
  sb_iv :: string
  sb_wrapped_key :: string
  sb_salt :: string
  sb_iterations :: nat

text \<open>The bytes drawn are arguments; the wrap uses the all-zero vector.\<close>

definition sealSecureMessage ::
  "('aes, 'pub, 'priv) webcrypto \<Rightarrow> bytes \<Rightarrow> bytes \<Rightarrow> bytes \<Rightarrow> string \<Rightarrow> string \<Rightarrow> secure_bundle result" where
  "sealSecureMessage wc salt dek bodyIv plaintextBody passphrase =
     (if length passphrase < 6 then Throw (Error ''Passphrase must be at least 6 characters'')
      else
        let kek = derivePassphraseKey wc passphrase salt 600000;
            wrapIv = replicate AES_IV_BYTES 0;
            wrappedDek = aes_encrypt wc kek wrapIv dek
        in bind_result (subtle (import_raw wc dek)) (\<lambda>dekCryptoKey.
           let ciphertext = aes_encrypt wc dekCryptoKey bodyIv (utf8_encode wc plaintextBody)
           in Ok \<lparr>sb_ciphertext = bytesToBase64 wc ciphertext, sb_iv = bytesToBase64 wc bodyIv,
                  sb_wrapped_key = bytesToBase64 wc wrappedDek, sb_salt = bytesToBase64 wc salt,
                  sb_iterations = 600000\<rparr>))"

definition CANNOT_UNLOCK :: string where
  "CANNOT_UNLOCK = ''Couldn't unlock this message. Double-check the passphrase the sender shared with you.''"

definition BODY_CORRUPTED :: string where
  "BODY_CORRUPTED = ''Message body failed to decrypt '' @ em_dash @ '' the ciphertext may be corrupted.''"

definition openSecureMessage ::
  "('aes, 'pub, 'priv) webcrypto \<Rightarrow> secure_bundle \<Rightarrow> string \<Rightarrow> string result" where
  "openSecureMessage wc envelope passphrase =
     bind_result (base64ToBytes wc (sb_salt envelope)) (\<lambda>salt.
     bind_result (base64ToBytes wc (sb_wrapped_key envelope)) (\<lambda>wrappedKeyBytes.
     bind_result (base64ToBytes wc (sb_iv envelope)) (\<lambda>bodyIv.
     bind_result (base64ToBytes wc (sb_ciphertext envelope)) (\<lambda>ciphertext.
     let kek = derivePassphraseKey wc passphrase salt (sb_iterations envelope) in
     bind_result (rethrow (Error CANNOT_UNLOCK)
       (subtle (aes_decrypt wc kek (replicate AES_IV_BYTES 0) wrappedKeyBytes))) (\<lambda>dekBytes.
     bind_result (subtle (import_raw wc dekBytes)) (\<lambda>dekCryptoKey.
     rethrow (Error BODY_CORRUPTED)
       (map_sum id (utf8_decode wc) (subtle (aes_decrypt wc dekCryptoKey bodyIv ciphertext)))))))))"

text \<open>What a sealed bundle holds, for any passphrase.\<close>

lemma sealed_bundle:
  assumes "sealSecureMessage wc salt dek iv m pass = Ok b"
  obtains k where "import_raw wc dek = Some k"
    "b = \<lparr>sb_ciphertext = btoa wc (aes_encrypt wc k iv (utf8_encode wc m)), sb_iv = btoa wc iv,
        sb_wrapped_key = btoa wc (aes_encrypt wc (derivePassphraseKey wc pass salt 600000) (replicate 12 0) dek),
        sb_salt = btoa wc salt, sb_iterations = 600000\<rparr>"
  using assms
  by (auto simp: sealSecureMessage_def Let_def bytesToBase64_def AES_IV_BYTES_def subtle_def bind_result_Ok_iff
      split: if_splits option.splits)

lemma opened_bundle:
  assumes "webcrypto_ok wc"
    and "b = \<lparr>sb_ciphertext = btoa wc ct, sb_iv = btoa wc iv, sb_wrapped_key = btoa wc wk, sb_salt = btoa wc salt,
      sb_iterations = n\<rparr>"
  shows "openSecureMessage wc b pass =
    bind_result (rethrow (Error CANNOT_UNLOCK)
      (subtle (aes_decrypt wc (derivePassphraseKey wc pass salt n) (replicate 12 0) wk))) (\<lambda>dek.
    bind_result (subtle (import_raw wc dek)) (\<lambda>k.
    rethrow (Error BODY_CORRUPTED) (map_sum id (utf8_decode wc) (subtle (aes_decrypt wc k iv ct)))))"
  using assms(2) webcrypto_okD(7) [OF assms(1)]
  by (simp add: openSecureMessage_def base64ToBytes_def AES_IV_BYTES_def Let_def)

text \<open>
  A message sealed under a passphrase opens to its exact text under it; under a passphrase whose
  derived key does not authenticate the wrapped key the reader gets the message about the
  passphrase, and with a changed body the one about the body; a passphrase under six characters
  is refused before anything is sealed.
\<close>

theorem secure_message_roundtrip:
  assumes "webcrypto_ok wc" "sealSecureMessage wc salt dek iv m pass = Ok b"
    and "\<forall>x. aes_encrypt wc (derivePassphraseKey wc pass salt 600000) (replicate 12 0) dek
           \<noteq> aes_encrypt wc (derivePassphraseKey wc wrong salt 600000) (replicate 12 0) x"
    and "\<forall>k x. import_raw wc dek = Some k \<longrightarrow> forged \<noteq> aes_encrypt wc k iv x" "length brief < 6"
  shows "openSecureMessage wc b pass = Ok m
    \<and> openSecureMessage wc b wrong = Throw (Error CANNOT_UNLOCK)
    \<and> openSecureMessage wc (b\<lparr>sb_ciphertext := btoa wc forged\<rparr>) pass = Throw (Error BODY_CORRUPTED)
    \<and> sealSecureMessage wc salt dek iv m brief = Throw (Error ''Passphrase must be at least 6 characters'')"
proof -
  obtain k where k: "import_raw wc dek = Some k"
    and b: "b = \<lparr>sb_ciphertext = btoa wc (aes_encrypt wc k iv (utf8_encode wc m)), sb_iv = btoa wc iv,
        sb_wrapped_key = btoa wc (aes_encrypt wc (derivePassphraseKey wc pass salt 600000) (replicate 12 0) dek),
        sb_salt = btoa wc salt, sb_iterations = 600000\<rparr>"
    using assms(2) by (rule sealed_bundle)
  have none: "aes_decrypt wc key v c = None" if "\<forall>x. c \<noteq> aes_encrypt wc key v x" for key v c
    using that webcrypto_okD(2) [OF assms(1)] by (metis not_None_eq)
  have "openSecureMessage wc b pass = Ok m"
    using opened_bundle [OF assms(1) b, of pass] k by (simp add: webcrypto_okD [OF assms(1)])
  moreover have "openSecureMessage wc b wrong = Throw (Error CANNOT_UNLOCK)"
    using opened_bundle [OF assms(1) b, of wrong] none [OF assms(3)] by simp
  moreover have "openSecureMessage wc (b\<lparr>sb_ciphertext := btoa wc forged\<rparr>) pass = Throw (Error BODY_CORRUPTED)"
  proof -
    have "aes_decrypt wc k iv forged = None" using assms(4) k by (intro none) blast
    moreover have b': "b\<lparr>sb_ciphertext := btoa wc forged\<rparr> = \<lparr>sb_ciphertext = btoa wc forged, sb_iv = btoa wc iv,
        sb_wrapped_key = btoa wc (aes_encrypt wc (derivePassphraseKey wc pass salt 600000) (replicate 12 0) dek),
        sb_salt = btoa wc salt, sb_iterations = 600000\<rparr>" by (simp add: b)
    ultimately show ?thesis
      using opened_bundle [OF assms(1) b', of pass] k by (simp add: webcrypto_okD [OF assms(1)])
  qed
  ultimately show ?thesis using assms(5) by (simp add: sealSecureMessage_def)
qed

theorem secure_message_roundtrip_witness:
  "\<exists>b. sealSecureMessage demo_crypto [1] [9] [2] ''hi'' ''secret'' = Ok b
    \<and> openSecureMessage demo_crypto b ''secret'' = Ok ''hi''
    \<and> openSecureMessage demo_crypto b ''wrong!'' = Throw (Error CANNOT_UNLOCK)"
proof -
  obtain b where b: "sealSecureMessage demo_crypto [1] [9] [2] ''hi'' ''secret'' = Ok b"
    by (simp add: sealSecureMessage_def demo_crypto_def Let_def)
  have "\<forall>x. aes_encrypt demo_crypto (derivePassphraseKey demo_crypto ''secret'' [1] 600000) (replicate 12 0) [9]
      \<noteq> aes_encrypt demo_crypto (derivePassphraseKey demo_crypto ''wrong!'' [1] 600000) (replicate 12 0) x"
    by (simp add: derivePassphraseKey_def demo_crypto_def code_def)
  moreover have "\<forall>k x. import_raw demo_crypto [9] = Some k \<longrightarrow> [] \<noteq> aes_encrypt demo_crypto k [2] x"
    by (simp add: demo_crypto_def)
  ultimately show ?thesis
    using b secure_message_roundtrip [OF demo_crypto_ok b, of "''wrong!''" "[]" "[]"] by simp
qed

end
