(* ===== verification/Diff_Patch.thy ===== *)
theory Diff_Patch
  imports Js_String
begin

text \<open>
  The parser of a commit's patch and the whitespace filter of the diff viewer:
  \<open>github/commitDiff.tsx\<close>. A patch becomes a list of items (hunk headers, context lines and
  change blocks); the viewer numbers the lines of both sides from them. Line numbers are
  integers, exact below the 53 bits of a JavaScript number.
\<close>

section \<open>Items of a patch\<close>

record diff_line =
  line_no :: int
  line_text :: string
  line_position :: "int option"

datatype patch_item =
    Hunk (hunk_text: string) (oldStart: int) (newStart: int)
  | Gap (gap_id: nat) (hidden: "int option") (hasAbove: bool) (hasBelow: bool)
  | Ctx (ctx_old: diff_line) (ctx_new: diff_line)
  | Change (dels: "diff_line list") (adds: "diff_line list")

section \<open>Parsing\<close>

text \<open>
  \<open>/@@ -(\d+)(?:,\d+)? \+(\d+)(?:,\d+)? @@/.exec(line)\<close>: the first place of the line where
  the pattern matches. A run of digits is followed by a comma or a space, so the greedy match
  never has to give a digit back.
\<close>

definition eat :: "string \<Rightarrow> string \<Rightarrow> string option" where
  "eat p s = (if take (length p) s = p then Some (drop (length p) s) else None)"

definition digits :: "string \<Rightarrow> (string \<times> string) option" where
  "digits s = (case takeWhile is_digit s of [] \<Rightarrow> None | d \<Rightarrow> Some (d, dropWhile is_digit s))"

definition skip_count :: "string \<Rightarrow> string" where
  "skip_count s = (case Option.bind (eat '','' s) digits of None \<Rightarrow> s | Some (_, r) \<Rightarrow> r)"

definition header_at :: "string \<Rightarrow> (string \<times> string) option" where
  "header_at s =
     Option.bind (eat ''@@ -'' s) (\<lambda>s1.
     Option.bind (digits s1) (\<lambda>(o1, s2).
     Option.bind (eat '' +'' (skip_count s2)) (\<lambda>s3.
     Option.bind (digits s3) (\<lambda>(n1, s4).
     Option.bind (eat '' @@'' (skip_count s4)) (\<lambda>_. Some (o1, n1))))))"

fun exec_header :: "string \<Rightarrow> (string \<times> string) option" where
  "exec_header [] = header_at []"
| "exec_header (c # s) = (case header_at (c # s) of None \<Rightarrow> exec_header s | Some m \<Rightarrow> Some m)"

record parse_state =
  items :: "patch_item list"
  oldLn :: int
  newLn :: int
  pending_dels :: "diff_line list"
  pending_adds :: "diff_line list"
  position :: int

definition flush :: "parse_state \<Rightarrow> parse_state" where
  "flush s =
     s \<lparr>items :=
         (if pending_dels s \<noteq> [] \<or> pending_adds s \<noteq> []
          then items s @ [Change (pending_dels s) (pending_adds s)] else items s),
        pending_dels := [], pending_adds := []\<rparr>"

definition starts :: "string \<Rightarrow> string \<Rightarrow> bool" where
  "starts p s \<longleftrightarrow> take (length p) s = p"

text \<open>The body of the loop of \<open>parsePatch\<close>; a backslash starts an annotation.\<close>

definition hunk_line :: "string \<Rightarrow> parse_state \<Rightarrow> parse_state" where
  "hunk_line line s0 =
     (let s = flush s0;
          s = (case exec_header line of
                 Some (a, b) \<Rightarrow> s \<lparr>oldLn := int (nat_val a), newLn := int (nat_val b)\<rparr>
               | None \<Rightarrow> s)
      in s \<lparr>items := items s @ [Hunk line (oldLn s) (newLn s)]\<rparr>)"

definition add_line :: "string \<Rightarrow> parse_state \<Rightarrow> parse_state" where
  "add_line line s =
     s \<lparr>pending_adds := pending_adds s @
          [\<lparr>line_no = newLn s, line_text = drop 1 line, line_position = Some (position s)\<rparr>],
        newLn := newLn s + 1\<rparr>"

definition del_line :: "string \<Rightarrow> parse_state \<Rightarrow> parse_state" where
  "del_line line s =
     s \<lparr>pending_dels := pending_dels s @
          [\<lparr>line_no = oldLn s, line_text = drop 1 line, line_position = Some (position s)\<rparr>],
        oldLn := oldLn s + 1\<rparr>"

definition ctx_line :: "string \<Rightarrow> parse_state \<Rightarrow> parse_state" where
  "ctx_line line s0 =
     (let s = flush s0;
          t = (if starts '' '' line then drop 1 line else line)
      in s \<lparr>items := items s @
              [Ctx \<lparr>line_no = oldLn s, line_text = t, line_position = Some (position s)\<rparr>
                   \<lparr>line_no = newLn s, line_text = t, line_position = Some (position s)\<rparr>],
            oldLn := oldLn s + 1, newLn := newLn s + 1\<rparr>)"

definition parse_line :: "string \<Rightarrow> parse_state \<Rightarrow> parse_state" where
  "parse_line line s0 =
     (let s = s0 \<lparr>position := position s0 + 1\<rparr>
      in if starts ''@@'' line then hunk_line line s
         else if starts [CHR 0x5C] line then s
         else if starts ''+'' line then add_line line s
         else if starts ''-'' line then del_line line s
         else ctx_line line s)"

definition parse_init :: parse_state where
  "parse_init =
     \<lparr>items = [], oldLn = 0, newLn = 0, pending_dels = [], pending_adds = [], position = - 1\<rparr>"

definition parsePatch :: "string \<Rightarrow> patch_item list" where
  "parsePatch patch =
     items (flush (fold parse_line (split_on (CHR 0x0A) patch) parse_init))"

section \<open>Hiding whitespace\<close>

text \<open>\<open>text.replace(/\s+/g, "")\<close>: every white space unit goes.\<close>

definition squash :: "string \<Rightarrow> string" where
  "squash t = filter (\<lambda>c. \<not> js_space c) t"

definition change_block :: "diff_line list \<Rightarrow> diff_line list \<Rightarrow> patch_item list" where
  "change_block ds as = (if ds \<noteq> [] \<or> as \<noteq> [] then [Change ds as] else [])"

definition same_but_space :: "diff_line \<Rightarrow> diff_line \<Rightarrow> bool" where
  "same_but_space d a \<longleftrightarrow> squash (line_text d) = squash (line_text a)"

text \<open>The index loop over one block, with the lines gathered since the last pair.\<close>

fun pair_up :: "diff_line list \<Rightarrow> diff_line list \<Rightarrow> diff_line list \<Rightarrow> diff_line list
    \<Rightarrow> patch_item list" where
  "pair_up curDels curAdds (d # ds) (a # as) =
     (if same_but_space d a
      then change_block curDels curAdds @ Ctx d a # pair_up [] [] ds as
      else pair_up (curDels @ [d]) (curAdds @ [a]) ds as)"
| "pair_up curDels curAdds (d # ds) [] = pair_up (curDels @ [d]) curAdds ds []"
| "pair_up curDels curAdds [] (a # as) = pair_up curDels (curAdds @ [a]) [] as"
| "pair_up curDels curAdds [] [] = change_block curDels curAdds"

fun ignore_item :: "patch_item \<Rightarrow> patch_item list" where
  "ignore_item (Change ds as) = pair_up [] [] ds as"
| "ignore_item i = [i]"

definition ignoreWhitespace :: "patch_item list \<Rightarrow> patch_item list" where
  "ignoreWhitespace is = concat (map ignore_item is)"

section \<open>The two sides\<close>

text \<open>
  The lines an item list shows of the old and of the new file, and the walk over it: starting
  at old line \<open>ol\<close> and new line \<open>n\<close>, every line carries the next number of its side, a gap
  stands for as many lines of both, and a header moves to its numbers where \<open>jump\<close> allows it.
  The result is the first line of each side after the items.
\<close>

fun item_old :: "patch_item \<Rightarrow> diff_line list" where
  "item_old (Ctx d a) = [d]"
| "item_old (Change ds as) = ds"
| "item_old _ = []"

fun item_new :: "patch_item \<Rightarrow> diff_line list" where
  "item_new (Ctx d a) = [a]"
| "item_new (Change ds as) = as"
| "item_new _ = []"

definition old_side :: "patch_item list \<Rightarrow> diff_line list" where
  "old_side is = concat (map item_old is)"

definition new_side :: "patch_item list \<Rightarrow> diff_line list" where
  "new_side is = concat (map item_new is)"

lemma side_simps [simp]:
  "old_side [] = []" "new_side [] = []"
  "old_side (i # is) = item_old i @ old_side is" "new_side (i # is) = item_new i @ new_side is"
  "old_side (is @ js) = old_side is @ old_side js" "new_side (is @ js) = new_side is @ new_side js"
  by (simp_all add: old_side_def new_side_def)

fun consec :: "int \<Rightarrow> diff_line list \<Rightarrow> bool" where
  "consec k [] \<longleftrightarrow> True"
| "consec k (d # ds) \<longleftrightarrow> line_no d = k \<and> consec (k + 1) ds"

lemma consec_append [simp]:
  "consec k (ds @ es) \<longleftrightarrow> consec k ds \<and> consec (k + int (length ds)) es"
  by (induction ds arbitrary: k) (auto simp: algebra_simps)

type_synonym jump = "int \<times> int \<Rightarrow> int \<times> int \<Rightarrow> bool"

fun walk :: "jump \<Rightarrow> int \<times> int \<Rightarrow> patch_item list \<Rightarrow> (int \<times> int) option" where
  "walk J p [] = Some p"
| "walk J p (Hunk t a b # is) = (if J p (a, b) then walk J (a, b) is else None)"
| "walk J p (Gap i None u l # is) = walk J p is"
| "walk J p (Gap i (Some h) u l # is) = (if 0 < h then walk J (fst p + h, snd p + h) is else None)"
| "walk J p (Ctx d a # is) =
     (if line_no d = fst p \<and> line_no a = snd p then walk J (fst p + 1, snd p + 1) is else None)"
| "walk J p (Change ds as # is) =
     (if consec (fst p) ds \<and> consec (snd p) as
      then walk J (fst p + int (length ds), snd p + int (length as)) is else None)"

lemma walk_append:
  "walk J p (is @ js) = Option.bind (walk J p is) (\<lambda>q. walk J q js)"
  by (induction J p "is" rule: walk.induct) auto

text \<open>A header may move anywhere; move over unchanged lines only; not move at all.\<close>

definition anywhere :: jump where
  "anywhere p q \<longleftrightarrow> True"

definition forward :: jump where
  "forward p q \<longleftrightarrow> fst q - fst p = snd q - snd p \<and> snd p \<le> snd q"

definition in_place :: jump where
  "in_place p q \<longleftrightarrow> q = p"

lemma flush_simps [simp]:
  "oldLn (flush s) = oldLn s" "newLn (flush s) = newLn s" "position (flush s) = position s"
  "pending_dels (flush s) = []" "pending_adds (flush s) = []"
  "items (flush s) = items s @ change_block (pending_dels s) (pending_adds s)"
  by (simp_all add: flush_def change_block_def)

lemma change_block_side [simp]:
  "old_side (change_block ds as) = ds" "new_side (change_block ds as) = as"
  by (simp_all add: change_block_def)

lemma walk_change_block [simp]:
  "walk J p (change_block ds as) =
     (if consec (fst p) ds \<and> consec (snd p) as
      then Some (fst p + int (length ds), snd p + int (length as)) else None)"
  by (simp add: change_block_def)

section \<open>Numbers of a parsed patch\<close>

text \<open>What the parser keeps while it reads.\<close>

definition parse_inv :: "parse_state \<Rightarrow> bool" where
  "parse_inv s \<longleftrightarrow>
     (\<exists>a b. walk anywhere (0, 0) (items s) = Some (a, b)
        \<and> consec a (pending_dels s) \<and> oldLn s = a + int (length (pending_dels s))
        \<and> consec b (pending_adds s) \<and> newLn s = b + int (length (pending_adds s)))"

lemma parse_line_inv: "parse_inv s \<Longrightarrow> parse_inv (parse_line l s)"
  by (cases "exec_header l")
    (auto simp: parse_inv_def parse_line_def hunk_line_def add_line_def del_line_def ctx_line_def
      Let_def anywhere_def walk_append)

lemma parse_fold_inv: "parse_inv s \<Longrightarrow> parse_inv (fold parse_line ls s)"
  by (induction ls arbitrary: s) (simp_all add: parse_line_inv)

lemma parse_init_inv: "parse_inv parse_init"
  by (simp add: parse_inv_def parse_init_def)

lemma parsePatch_walk: "\<exists>q. walk anywhere (0, 0) (parsePatch patch) = Some q"
  using parse_fold_inv [OF parse_init_inv, of "split_on (CHR 0x0A) patch"]
  by (auto simp: parsePatch_def parse_inv_def walk_append)

text \<open>The parser makes no gaps.\<close>

fun is_gap :: "patch_item \<Rightarrow> bool" where
  "is_gap (Gap i h u l) \<longleftrightarrow> True"
| "is_gap _ \<longleftrightarrow> False"

lemma parse_line_no_gap:
  "list_all (Not \<circ> is_gap) (items s) \<Longrightarrow> list_all (Not \<circ> is_gap) (items (parse_line l s))"
  by (cases "exec_header l")
    (auto simp: parse_line_def hunk_line_def add_line_def del_line_def ctx_line_def Let_def
      change_block_def)

lemma parse_fold_no_gap:
  "list_all (Not \<circ> is_gap) (items s) \<Longrightarrow> list_all (Not \<circ> is_gap) (items (fold parse_line ls s))"
  by (induction ls arbitrary: s) (simp_all add: parse_line_no_gap)

lemma parsePatch_no_gap: "list_all (Not \<circ> is_gap) (parsePatch patch)"
  using parse_fold_no_gap [of parse_init]
  by (auto simp: parsePatch_def change_block_def parse_init_def)

section \<open>Hiding whitespace\<close>

lemma pair_up_sides:
  "old_side (pair_up cd ca ds as) = cd @ ds" "new_side (pair_up cd ca ds as) = ca @ as"
  by (induction cd ca ds as rule: pair_up.induct) auto

lemma ignoreWhitespace_simps [simp]:
  "ignoreWhitespace [] = []"
  "ignoreWhitespace (i # is) = ignore_item i @ ignoreWhitespace is"
  "ignoreWhitespace (is @ js) = ignoreWhitespace is @ ignoreWhitespace js"
  by (simp_all add: ignoreWhitespace_def)

lemma ignore_item_sides:
  "old_side (ignore_item i) = item_old i" "new_side (ignore_item i) = item_new i"
  by (cases i; simp add: pair_up_sides)+

lemma ignore_sides:
  "old_side (ignoreWhitespace is) = old_side is" "new_side (ignoreWhitespace is) = new_side is"
  by (induction "is") (simp_all add: ignore_item_sides)

lemma walk_pair_up:
  "consec (fst p) (cd @ ds) \<Longrightarrow> consec (snd p) (ca @ as) \<Longrightarrow>
   length cd = length ca \<or> ds = [] \<or> as = [] \<Longrightarrow>
   walk J p (pair_up cd ca ds as)
     = Some (fst p + int (length (cd @ ds)), snd p + int (length (ca @ as)))"
proof (induction cd ca ds as arbitrary: p rule: pair_up.induct)
  case (1 cd ca d ds a as)
  show ?case
  proof (cases "same_but_space d a")
    case True
    let ?q = "(fst p + int (length cd) + 1, snd p + int (length ca) + 1)"
    from "1.prems" True "1.IH"(1) [of ?q] show ?thesis
      by (simp add: walk_append algebra_simps)
  next
    case False
    with "1.prems" "1.IH"(2) [of p] show ?thesis by (simp add: algebra_simps)
  qed
qed auto

lemma walk_ignore_item:
  "walk J p [i] = Some q \<Longrightarrow> walk J p (ignore_item i) = Some q"
  by (cases i) (auto simp: walk_pair_up split: if_splits)

lemma walk_Cons: "walk J p (i # is) = Option.bind (walk J p [i]) (\<lambda>q. walk J q is)"
  using walk_append [of J p "[i]" "is"] by simp

lemma walk_ignoreWhitespace:
  "walk J p is = Some q \<Longrightarrow> walk J p (ignoreWhitespace is) = Some q"
proof (induction "is" arbitrary: p)
  case (Cons i "is")
  then obtain r where "walk J p [i] = Some r" "walk J r is = Some q"
    by (auto simp: walk_Cons [of J p i "is"] bind_eq_Some_conv)
  with Cons.IH walk_ignore_item show ?case by (simp add: walk_append)
qed simp

text \<open>A block in which no pair differs in white space only.\<close>

fun settled :: "diff_line list \<Rightarrow> diff_line list \<Rightarrow> bool" where
  "settled (d # ds) (a # as) \<longleftrightarrow> \<not> same_but_space d a \<and> settled ds as"
| "settled _ _ \<longleftrightarrow> True"

lemma settled_append:
  "settled cd ca \<Longrightarrow> \<not> same_but_space d a \<Longrightarrow> length cd = length ca \<Longrightarrow>
   settled (cd @ [d]) (ca @ [a])"
  by (induction cd ca rule: settled.induct) auto

lemma settled_one_more:
  "settled cd ca \<Longrightarrow> length ca \<le> length cd \<Longrightarrow> settled (cd @ [d]) ca"
  "settled cd ca \<Longrightarrow> length cd \<le> length ca \<Longrightarrow> settled cd (ca @ [a])"
  by (induction cd ca rule: settled.induct) (auto simp: neq_Nil_conv)

fun quiet :: "patch_item \<Rightarrow> bool" where
  "quiet (Change ds as) \<longleftrightarrow> settled ds as \<and> (ds \<noteq> [] \<or> as \<noteq> [])"
| "quiet _ \<longleftrightarrow> True"

lemma quiet_block: "settled ds as \<Longrightarrow> list_all quiet (change_block ds as)"
  by (simp add: change_block_def)

lemma pair_up_quiet:
  "settled cd ca \<Longrightarrow>
   length cd = length ca \<or> (ds = [] \<and> length cd \<le> length ca) \<or> (as = [] \<and> length ca \<le> length cd)
   \<Longrightarrow> list_all quiet (pair_up cd ca ds as)"
proof (induction cd ca ds as rule: pair_up.induct)
  case (1 cd ca d ds a as)
  then show ?case by (auto simp: quiet_block settled_append)
qed (auto simp: quiet_block settled_one_more)

lemma pair_up_settled: "settled ds as \<Longrightarrow> pair_up cd ca ds as = change_block (cd @ ds) (ca @ as)"
  by (induction cd ca ds as rule: pair_up.induct) auto

lemma ignore_quiet: "list_all quiet is \<Longrightarrow> ignoreWhitespace is = is"
proof (induction "is")
  case (Cons i "is")
  then show ?case by (cases i) (auto simp: pair_up_settled change_block_def)
qed simp

lemma quiet_ignore: "list_all quiet (ignoreWhitespace is)"
proof (induction "is")
  case (Cons i "is")
  then show ?case by (cases i) (simp_all add: pair_up_quiet)
qed simp

section \<open>A patch as text\<close>

text \<open>
  The unified format GitHub sends: a header with the first line of each side and, unless it is
  1, the number of lines; then the body.
\<close>

datatype body_line = Same string | Removed string | Added string | Annotation string

record hunk =
  h_old :: nat
  h_old_count :: "nat option"
  h_new :: nat
  h_new_count :: "nat option"
  h_heading :: string
  h_body :: "body_line list"

fun body_text :: "body_line \<Rightarrow> string" where
  "body_text (Same t) = '' '' @ t"
| "body_text (Removed t) = ''-'' @ t"
| "body_text (Added t) = ''+'' @ t"
| "body_text (Annotation t) = CHR 0x5C # t"

definition count_text :: "nat option \<Rightarrow> string" where
  "count_text c = (case c of None \<Rightarrow> [] | Some k \<Rightarrow> '','' @ nat_str k)"

definition header_text :: "hunk \<Rightarrow> string" where
  "header_text h =
     ''@@ -'' @ nat_str (h_old h) @ count_text (h_old_count h) @ '' +'' @ nat_str (h_new h)
     @ count_text (h_new_count h) @ '' @@'' @ h_heading h"

definition hunk_lines :: "hunk \<Rightarrow> string list" where
  "hunk_lines h = header_text h # map body_text (h_body h)"

definition patch_text :: "hunk list \<Rightarrow> string" where
  "patch_text hs = join [CHR 0x0A] (concat (map hunk_lines hs))"

fun old_of :: "body_line \<Rightarrow> string list" where
  "old_of (Same t) = [t]" | "old_of (Removed t) = [t]" | "old_of _ = []"

fun new_of :: "body_line \<Rightarrow> string list" where
  "new_of (Same t) = [t]" | "new_of (Added t) = [t]" | "new_of _ = []"

fun number_from :: "int \<Rightarrow> string list \<Rightarrow> (int \<times> string) list" where
  "number_from k [] = []"
| "number_from k (t # ts) = (k, t) # number_from (k + 1) ts"

lemma number_from_append:
  "number_from k (ts @ us) = number_from k ts @ number_from (k + int (length ts)) us"
  by (induction ts arbitrary: k) (simp_all add: algebra_simps)

definition hunk_old :: "hunk \<Rightarrow> (int \<times> string) list" where
  "hunk_old h = number_from (int (h_old h)) (concat (map old_of (h_body h)))"

definition hunk_new :: "hunk \<Rightarrow> (int \<times> string) list" where
  "hunk_new h = number_from (int (h_new h)) (concat (map new_of (h_body h)))"

text \<open>A line as it is read in the gutter and beside it.\<close>

definition shown :: "diff_line \<Rightarrow> int \<times> string" where
  "shown d = (line_no d, line_text d)"

lemma eat_append [simp]: "eat p (p @ s) = Some s"
  by (simp add: eat_def)

lemma digits_nat_str:
  assumes "r = [] \<or> \<not> is_digit (hd r)"
  shows "digits (nat_str n @ r) = Some (nat_str n, r)"
proof -
  have "takeWhile is_digit (nat_str n @ r) = nat_str n"
    and "dropWhile is_digit (nat_str n @ r) = r"
    using assms nat_str_digits by (cases r; simp add: takeWhile_append dropWhile_append)+
  note 1 = this
  show ?thesis unfolding digits_def 1 by (cases "nat_str n") simp_all
qed

lemma not_digit_space: "\<not> is_digit CHR '' ''" "\<not> is_digit CHR '',''"
  by (simp_all add: is_digit_def code_def)

lemma skip_count_text:
  assumes "s = CHR '' '' # t"
  shows "skip_count (count_text c @ s) = s"
proof (cases c)
  case None
  with assms show ?thesis by (simp add: count_text_def skip_count_def eat_def)
next
  case (Some k)
  have "eat '','' ('','' @ nat_str k @ s) = Some (nat_str k @ s)" by (rule eat_append)
  with Some assms digits_nat_str [of s k] show ?thesis
    by (simp add: count_text_def skip_count_def not_digit_space)
qed

lemma digits_count:
  assumes "s = CHR '' '' # t"
  shows "digits (nat_str n @ count_text c @ s) = Some (nat_str n, count_text c @ s)"
  using assms by (intro digits_nat_str) (auto simp: count_text_def not_digit_space split: option.split)

lemma header_at_text:
  "header_at (header_text h) = Some (nat_str (h_old h), nat_str (h_new h))"
proof -
  define r where "r = '' @@'' @ h_heading h"
  define q where "q = '' +'' @ nat_str (h_new h) @ count_text (h_new_count h) @ r"
  have r: "r = CHR '' '' # drop 1 r" and q: "q = CHR '' '' # drop 1 q" by (simp_all add: r_def q_def)
  have "header_text h = ''@@ -'' @ nat_str (h_old h) @ count_text (h_old_count h) @ q"
    by (simp add: header_text_def q_def r_def)
  moreover have "eat '' +'' q = Some (nat_str (h_new h) @ count_text (h_new_count h) @ r)"
    unfolding q_def by (rule eat_append)
  moreover have "eat '' @@'' r = Some (h_heading h)" unfolding r_def by (rule eat_append)
  moreover have "eat ''@@ -'' (''@@ -'' @ x) = Some x" for x by (rule eat_append)
  ultimately show ?thesis
    by (simp only: header_at_def bind.bind_lunit digits_count [OF q] digits_count [OF r]
        skip_count_text [OF q] skip_count_text [OF r] prod.case)
qed

lemma exec_header_text:
  "exec_header (header_text h) = Some (nat_str (h_old h), nat_str (h_new h))"
proof -
  obtain c s where "header_text h = c # s" by (cases "header_text h") (simp_all add: header_text_def)
  with header_at_text [of h] show ?thesis by simp
qed

text \<open>What the parser has read of each side, the lines of the open block included.\<close>

definition seen_old :: "parse_state \<Rightarrow> (int \<times> string) list" where
  "seen_old s = map shown (old_side (items s) @ pending_dels s)"

definition seen_new :: "parse_state \<Rightarrow> (int \<times> string) list" where
  "seen_new s = map shown (new_side (items s) @ pending_adds s)"

lemma seen_flush [simp]: "seen_old (flush s) = seen_old s" "seen_new (flush s) = seen_new s"
  by (simp_all add: seen_old_def seen_new_def)

lemma seen_header:
  "seen_old (parse_line (header_text h) s) = seen_old s
   \<and> seen_new (parse_line (header_text h) s) = seen_new s
   \<and> oldLn (parse_line (header_text h) s) = int (h_old h)
   \<and> newLn (parse_line (header_text h) s) = int (h_new h)"
proof -
  have "starts ''@@'' (header_text h)" by (simp add: starts_def header_text_def)
  then show ?thesis
    by (simp add: parse_line_def hunk_line_def exec_header_text seen_old_def seen_new_def)
qed

lemma seen_body:
  "seen_old (parse_line (body_text b) s) = seen_old s @ number_from (oldLn s) (old_of b)
   \<and> seen_new (parse_line (body_text b) s) = seen_new s @ number_from (newLn s) (new_of b)
   \<and> oldLn (parse_line (body_text b) s) = oldLn s + int (length (old_of b))
   \<and> newLn (parse_line (body_text b) s) = newLn s + int (length (new_of b))"
  by (cases b)
    (simp_all add: parse_line_def starts_def del_line_def add_line_def ctx_line_def Let_def
      seen_old_def seen_new_def shown_def)

lemma seen_bodies:
  "seen_old (fold parse_line (map body_text bs) s)
     = seen_old s @ number_from (oldLn s) (concat (map old_of bs))
   \<and> seen_new (fold parse_line (map body_text bs) s)
     = seen_new s @ number_from (newLn s) (concat (map new_of bs))"
proof (induction bs arbitrary: s)
  case (Cons b bs)
  from Cons [of "parse_line (body_text b) s"] seen_body [of b s] show ?case
    by (simp add: number_from_append)
qed simp

lemma seen_hunks:
  "seen_old (fold parse_line (concat (map hunk_lines hs)) s) = seen_old s @ concat (map hunk_old hs)
   \<and> seen_new (fold parse_line (concat (map hunk_lines hs)) s) = seen_new s @ concat (map hunk_new hs)"
proof (induction hs arbitrary: s)
  case (Cons h hs)
  let ?s = "fold parse_line (map body_text (h_body h)) (parse_line (header_text h) s)"
  from Cons [of ?s] seen_bodies [of "h_body h" "parse_line (header_text h) s"] seen_header [of h s]
  show ?case by (simp add: hunk_lines_def hunk_old_def hunk_new_def)
qed simp

text \<open>A hunk whose texts are single lines.\<close>

definition one_line :: "string \<Rightarrow> bool" where
  "one_line t \<longleftrightarrow> CHR 0x0A \<notin> set t"

definition hunk_ok :: "hunk \<Rightarrow> bool" where
  "hunk_ok h \<longleftrightarrow> list_all one_line (hunk_lines h)"

lemma parse_patch_text:
  assumes "hs \<noteq> []" and "list_all hunk_ok hs"
  shows "map shown (old_side (parsePatch (patch_text hs))) = concat (map hunk_old hs)"
    and "map shown (new_side (parsePatch (patch_text hs))) = concat (map hunk_new hs)"
proof -
  have "split_on (CHR 0x0A) (patch_text hs) = concat (map hunk_lines hs)"
    unfolding patch_text_def using assms
    by (intro split_on_join) (auto simp: hunk_ok_def one_line_def list_all_iff hunk_lines_def neq_Nil_conv)
  moreover have "seen_old parse_init = []" "seen_new parse_init = []"
    by (simp_all add: seen_old_def seen_new_def parse_init_def)
  ultimately show "map shown (old_side (parsePatch (patch_text hs))) = concat (map hunk_old hs)"
    and "map shown (new_side (parsePatch (patch_text hs))) = concat (map hunk_new hs)"
    using seen_hunks [of hs parse_init] by (simp_all add: parsePatch_def seen_old_def seen_new_def)
qed

section \<open>Positions\<close>

text \<open>
  The position of a shown line is the index of its line in the patch, and no two lines of the
  patch share one; only the two sides of a context line do.
\<close>

definition content :: "string \<Rightarrow> string" where
  "content l = (if starts ''+'' l \<or> starts ''-'' l \<or> starts '' '' l then drop 1 l else l)"

definition points :: "string list \<Rightarrow> diff_line \<Rightarrow> bool" where
  "points ls d \<longleftrightarrow>
     (\<exists>p < length ls. line_position d = Some (int p) \<and> line_text d = content (ls ! p))"

fun item_marks :: "patch_item \<Rightarrow> int option list" where
  "item_marks (Ctx d a) = remdups [line_position d, line_position a]"
| "item_marks (Change ds as) = map line_position (ds @ as)"
| "item_marks _ = []"

definition marks :: "patch_item list \<Rightarrow> int option list" where
  "marks is = concat (map item_marks is)"

lemma marks_simps [simp]:
  "marks [] = []" "marks (i # is) = item_marks i @ marks is" "marks (is @ js) = marks is @ marks js"
  "marks (change_block ds as) = map line_position (ds @ as)"
  by (simp_all add: marks_def change_block_def)

definition below :: "nat \<Rightarrow> int option \<Rightarrow> bool" where
  "below n m \<longleftrightarrow> (\<exists>p < n. m = Some (int p))"

lemma below_simps [simp]:
  "below n m \<Longrightarrow> below (Suc n) m" "below (Suc n) (Some (int n))" "\<not> below n (Some (int n))"
  by (auto simp: below_def intro: less_SucI)

definition read_ok :: "string list \<Rightarrow> parse_state \<Rightarrow> bool" where
  "read_ok ls s \<longleftrightarrow>
     position s = int (length ls) - 1
     \<and> (\<forall>d \<in> set (old_side (items (flush s)) @ new_side (items (flush s))). points ls d)
     \<and> distinct (marks (items (flush s)))
     \<and> (\<forall>m \<in> set (marks (items (flush s))). below (length ls) m)"

lemma points_snoc: "points ls d \<Longrightarrow> points (ls @ [l]) d"
  by (auto simp: points_def nth_append)

lemma points_last:
  "line_position d = Some (int (length ls)) \<Longrightarrow> line_text d = content l \<Longrightarrow> points (ls @ [l]) d"
  by (auto simp: points_def)

lemma fresh_mark: "\<forall>m \<in> set ms. below n m \<Longrightarrow> Some (int n) \<notin> set ms"
  by auto

lemma read_ok_header: "read_ok ls s \<Longrightarrow> read_ok (ls @ [l]) (hunk_line l (s \<lparr>position := position s + 1\<rparr>))"
  by (cases "exec_header l")
    (auto simp: read_ok_def hunk_line_def Let_def points_snoc change_block_def [of "[]" "[]"])

lemma read_ok_skip: "read_ok ls s \<Longrightarrow> read_ok (ls @ [l]) (s \<lparr>position := position s + 1\<rparr>)"
  by (auto simp: read_ok_def points_snoc)

lemma read_ok_add:
  "read_ok ls s \<Longrightarrow> content l = drop 1 l \<Longrightarrow>
   read_ok (ls @ [l]) (add_line l (s \<lparr>position := position s + 1\<rparr>))"
  using fresh_mark [of "marks (items (flush s))" "length ls"]
  by (auto simp: read_ok_def add_line_def points_snoc intro!: points_last)

lemma read_ok_del:
  "read_ok ls s \<Longrightarrow> content l = drop 1 l \<Longrightarrow>
   read_ok (ls @ [l]) (del_line l (s \<lparr>position := position s + 1\<rparr>))"
  using fresh_mark [of "marks (items (flush s))" "length ls"]
  by (auto simp: read_ok_def del_line_def points_snoc intro!: points_last)

lemma read_ok_ctx:
  "read_ok ls s \<Longrightarrow> \<not> starts ''+'' l \<Longrightarrow> \<not> starts ''-'' l \<Longrightarrow>
   read_ok (ls @ [l]) (ctx_line l (s \<lparr>position := position s + 1\<rparr>))"
  using fresh_mark [of "marks (items (flush s))" "length ls"]
  by (auto simp: read_ok_def ctx_line_def Let_def content_def points_snoc
      change_block_def [of "[]" "[]"] intro!: points_last)

lemma read_ok_line: "read_ok ls s \<Longrightarrow> read_ok (ls @ [l]) (parse_line l s)"
  by (simp add: parse_line_def Let_def read_ok_header read_ok_skip read_ok_add read_ok_del
      read_ok_ctx content_def)

lemma read_ok_fold: "read_ok ls (fold parse_line ls parse_init)"
proof (induction ls rule: rev_induct)
  case Nil
  show ?case by (simp add: read_ok_def parse_init_def change_block_def)
next
  case (snoc l ls)
  then show ?case by (simp add: read_ok_line)
qed

lemma parsed_points:
  "d \<in> set (old_side (parsePatch patch)) \<union> set (new_side (parsePatch patch)) \<Longrightarrow>
   points (split_on (CHR 0x0A) patch) d"
  using read_ok_fold [of "split_on (CHR 0x0A) patch"]
  by (auto simp: read_ok_def parsePatch_def change_block_def [of "[]" "[]"])

lemma parsed_marks: "distinct (marks (parsePatch patch))"
  using read_ok_fold [of "split_on (CHR 0x0A) patch"]
  by (simp add: read_ok_def parsePatch_def)

section \<open>Properties\<close>

text \<open>
  C28: The text of a patch parses to the two sides it was written from: the lines its hunks keep,
  remove and add, each with the number the hunk's header gives it.
\<close>

theorem patch_text_roundtrip:
  assumes "hs \<noteq> []" and "list_all hunk_ok hs"
  shows "map shown (old_side (parsePatch (patch_text hs))) = concat (map hunk_old hs) \<and>
    map shown (new_side (parsePatch (patch_text hs))) = concat (map hunk_new hs)"
  using parse_patch_text [OF assms] by blast

definition sample_hunk :: hunk where
  "sample_hunk =
     \<lparr>h_old = 7, h_old_count = Some 2, h_new = 9, h_new_count = None, h_heading = '' main'',
      h_body = [Same ''a'', Removed ''-b'', Annotation '' No newline'']\<rparr>"

theorem patch_text_roundtrip_witness:
  "map shown (old_side (parsePatch (patch_text [sample_hunk]))) = [(7, ''a''), (8, ''-b'')]"
proof -
  have "list_all hunk_ok [sample_hunk]" by code_simp
  moreover have "concat (map hunk_old [sample_hunk]) = [(7, ''a''), (8, ''-b'')]" by code_simp
  ultimately show ?thesis using patch_text_roundtrip [of "[sample_hunk]"] by simp
qed

text \<open>
  Every line the viewer can comment on points back into the patch: its position is the index of
  a line of the patch whose content is its text, and no position is used for two lines.
\<close>

theorem positions_point_into_patch:
  "(\<forall>d. d \<in> set (old_side (parsePatch patch)) \<union> set (new_side (parsePatch patch)) \<longrightarrow>
      points (split_on (CHR 0x0A) patch) d) \<and>
   distinct (marks (parsePatch patch))"
  using parsed_points parsed_marks by blast

theorem positions_point_into_patch_witness:
  "points (split_on (CHR 0x0A) (patch_text [sample_hunk]))
     \<lparr>line_no = 8, line_text = ''-b'', line_position = Some 2\<rparr>"
proof -
  have "\<lparr>line_no = 8, line_text = ''-b'', line_position = Some 2\<rparr>
      \<in> set (old_side (parsePatch (patch_text [sample_hunk])))"
    by code_simp
  with positions_point_into_patch [of "patch_text [sample_hunk]"] show ?thesis by blast
qed

text \<open>
  Hiding whitespace neither loses nor renumbers a line: both sides keep the same lines, the
  numbering that held before holds after, and hiding twice is hiding once.
\<close>

theorem hidden_whitespace_keeps_lines:
  "old_side (ignoreWhitespace is) = old_side is \<and> new_side (ignoreWhitespace is) = new_side is \<and>
   (walk J p is = Some q \<longrightarrow> walk J p (ignoreWhitespace is) = Some q) \<and>
   ignoreWhitespace (ignoreWhitespace is) = ignoreWhitespace is"
  by (simp add: ignore_sides walk_ignoreWhitespace ignore_quiet quiet_ignore)

theorem hidden_whitespace_keeps_lines_witness:
  "walk anywhere (0, 0) (ignoreWhitespace (parsePatch (patch_text [sample_hunk]))) = Some (9, 10)"
proof -
  have "walk anywhere (0, 0) (parsePatch (patch_text [sample_hunk])) = Some (9, 10)" by code_simp
  with hidden_whitespace_keeps_lines [of "parsePatch (patch_text [sample_hunk])" anywhere "(0, 0)" "(9, 10)"]
  show ?thesis by blast
qed

end
