(* ===== verification/Diff_Gaps.thy ===== *)
theory Diff_Gaps
  imports Diff_Patch "HOL-Library.Extended_Nat"
begin

text \<open>
  Revealing the unchanged lines a patch leaves out: \<open>withGaps\<close> and the gap rows of
  \<open>github/commitDiff.tsx\<close>. The number of lines to reveal may be \<open>Infinity\<close>, so it is an \<open>enat\<close>.
\<close>

section \<open>Gaps\<close>

record reveal =
  reveal_top :: enat
  reveal_bottom :: enat

type_synonym reveals = "nat \<Rightarrow> reveal option"

definition no_reveal :: reveal where
  "no_reveal = \<lparr>reveal_top = 0, reveal_bottom = 0\<rparr>"

text \<open>\<open>Math.min(e, t)\<close>.\<close>

definition at_most :: "enat \<Rightarrow> int \<Rightarrow> int" where
  "at_most e t = (case e of enat k \<Rightarrow> min (int k) t | \<infinity> \<Rightarrow> t)"

definition PATCH_CONTEXT :: nat where
  "PATCH_CONTEXT = 3"

fun is_ctx :: "patch_item \<Rightarrow> bool" where
  "is_ctx (Ctx d a) \<longleftrightarrow> True"
| "is_ctx _ \<longleftrightarrow> False"

definition endsBeforeEof :: "patch_item list \<Rightarrow> bool" where
  "endsBeforeEof is \<longleftrightarrow> PATCH_CONTEXT \<le> length (takeWhile is_ctx (rev is))"

record gap_state =
  nextNew :: int
  oldOffset :: int
  nextGapId :: nat

text \<open>\<open>lines?.[no - 1] ?? ""\<close>.\<close>

definition line_at :: "string list option \<Rightarrow> int \<Rightarrow> string" where
  "line_at ls no = (case ls of None \<Rightarrow> ''''
     | Some l \<Rightarrow> if 1 \<le> no \<and> no \<le> int (length l) then l ! nat (no - 1) else '''')"

definition revealed_line :: "string list option \<Rightarrow> int \<Rightarrow> int \<Rightarrow> patch_item" where
  "revealed_line ls off no =
     Ctx \<lparr>line_no = no + off, line_text = line_at ls no, line_position = None\<rparr>
         \<lparr>line_no = no, line_text = line_at ls no, line_position = None\<rparr>"

definition pushLines :: "string list option \<Rightarrow> int \<Rightarrow> int \<Rightarrow> int \<Rightarrow> patch_item list" where
  "pushLines ls off k count = map (revealed_line ls off) [k..k + count - 1]"

definition gap_top :: "reveals \<Rightarrow> nat \<Rightarrow> int \<Rightarrow> int" where
  "gap_top rv i tot = at_most (reveal_top (nullish (rv i) no_reveal)) tot"

definition gap_bottom :: "reveals \<Rightarrow> nat \<Rightarrow> int \<Rightarrow> int" where
  "gap_bottom rv i tot =
     at_most (reveal_bottom (nullish (rv i) no_reveal)) (tot - gap_top rv i tot)"

definition gap_row :: "nat \<Rightarrow> int \<Rightarrow> bool \<Rightarrow> bool \<Rightarrow> patch_item list" where
  "gap_row i h up down = (if 0 < h then [Gap i (Some h) up down] else [])"

text \<open>The body of the loop of \<open>withGaps\<close>: what it pushes and its next state.\<close>

definition hunk_gap :: "string list option \<Rightarrow> reveals \<Rightarrow> string \<Rightarrow> int \<Rightarrow> int \<Rightarrow> gap_state
    \<Rightarrow> patch_item list" where
  "hunk_gap ls rv t a b g =
     (let i = nextGapId g; tot = b - nextNew g; off = a - b;
          top = gap_top rv i tot; bottom = gap_bottom rv i tot
      in if tot \<le> 0 then [Hunk t a b]
         else pushLines ls off (nextNew g) top @ gap_row i (tot - top - bottom) (0 < i) True
              @ pushLines ls off (b - bottom) bottom)"

fun gap_item :: "string list option \<Rightarrow> reveals \<Rightarrow> patch_item \<Rightarrow> gap_state
    \<Rightarrow> patch_item list \<times> gap_state" where
  "gap_item ls rv (Hunk t a b) g =
     (hunk_gap ls rv t a b g,
      g \<lparr>nextNew := b, oldOffset := a - b, nextGapId := nextGapId g + 1\<rparr>)"
| "gap_item ls rv (Gap i h u l) g = ([Gap i h u l], g)"
| "gap_item ls rv (Ctx d a) g = ([Ctx d a], g \<lparr>nextNew := line_no a + 1\<rparr>)"
| "gap_item ls rv (Change ds as) g =
     ([Change ds as],
      g \<lparr>nextNew := nextNew g + int (length as),
         oldOffset := oldOffset g + (int (length ds) - int (length as))\<rparr>)"

fun gap_loop :: "string list option \<Rightarrow> reveals \<Rightarrow> patch_item list \<Rightarrow> gap_state
    \<Rightarrow> patch_item list \<times> gap_state" where
  "gap_loop ls rv [] g = ([], g)"
| "gap_loop ls rv (i # is) g =
     (case gap_item ls rv i g of (out, g1) \<Rightarrow>
        (case gap_loop ls rv is g1 of (out', g2) \<Rightarrow> (out @ out', g2)))"

definition gap_end :: "string list option \<Rightarrow> reveals \<Rightarrow> patch_item list \<Rightarrow> gap_state
    \<Rightarrow> patch_item list" where
  "gap_end ls rv is g =
     (case ls of
        None \<Rightarrow> if endsBeforeEof is then [Gap (nextGapId g) None True False] else []
      | Some l \<Rightarrow>
          (let tot = int (length l) - nextNew g + 1;
               top = gap_top rv (nextGapId g) (max tot 0)
           in pushLines ls (oldOffset g) (nextNew g) top
              @ gap_row (nextGapId g) (tot - top) True False))"

definition gap_init :: gap_state where
  "gap_init = \<lparr>nextNew = 1, oldOffset = 0, nextGapId = 0\<rparr>"

definition withGaps :: "patch_item list \<Rightarrow> string list option \<Rightarrow> reveals \<Rightarrow> patch_item list" where
  "withGaps is ls rv = (case gap_loop ls rv is gap_init of (out, g) \<Rightarrow> out @ gap_end ls rv is g)"

section \<open>The rows of a gap and the click on one\<close>

definition GAP_STEP :: nat where
  "GAP_STEP = 20"

datatype gap_edge = TopEdge | BottomEdge

definition stepWouldFinish :: "int option \<Rightarrow> bool" where
  "stepWouldFinish h = (case h of None \<Rightarrow> False | Some k \<Rightarrow> k \<le> int GAP_STEP)"

text \<open>The buttons of \<open>GapRow\<close>: the edge each reveals from and how many lines.\<close>

fun gap_buttons :: "patch_item \<Rightarrow> (gap_edge \<times> enat) list" where
  "gap_buttons (Gap i h up down) =
     (if stepWouldFinish h then []
      else (if down then [(BottomEdge, enat GAP_STEP)] else [])
           @ (if up then [(TopEdge, enat GAP_STEP)] else []))
     @ [(if down then BottomEdge else TopEdge, \<infinity>)]"
| "gap_buttons _ = []"

record patch_view =
  view_lines :: "string list option"
  view_reveals :: reveals
  loadingLines :: bool
  linesError :: string

definition view_init :: patch_view where
  "view_init =
     \<lparr>view_lines = None, view_reveals = (\<lambda>_. None), loadingLines = False, linesError = ''''\<rparr>"

definition bump :: "gap_edge \<Rightarrow> enat \<Rightarrow> reveal \<Rightarrow> reveal" where
  "bump e c r = (case e of TopEdge \<Rightarrow> r \<lparr>reveal_top := reveal_top r + c\<rparr>
                         | BottomEdge \<Rightarrow> r \<lparr>reveal_bottom := reveal_bottom r + c\<rparr>)"

definition reveal_more :: "reveals \<Rightarrow> nat \<Rightarrow> gap_edge \<Rightarrow> enat \<Rightarrow> reveals" where
  "reveal_more rv i e c = rv(i \<mapsto> bump e c (nullish (rv i) no_reveal))"

definition add_reveal :: "nat \<Rightarrow> gap_edge \<Rightarrow> enat \<Rightarrow> patch_view \<Rightarrow> patch_view" where
  "add_reveal i e c v = v \<lparr>view_reveals := reveal_more (view_reveals v) i e c\<rparr>"

definition lines_message :: "js_error \<Rightarrow> string" where
  "lines_message err = (case err of Error m \<Rightarrow> m | _ \<Rightarrow> ''Could not load this file'')"

text \<open>
  \<open>revealGap\<close> with the answer of \<open>loadLines\<close>, which is read only while no lines are held. The
  browser's own errors are \<open>Error\<close> instances whose message the model does not know; the page's
  fallback text stands for it.
\<close>

definition revealGap :: "string list result option \<Rightarrow> nat \<Rightarrow> gap_edge \<Rightarrow> enat \<Rightarrow> patch_view
    \<Rightarrow> patch_view" where
  "revealGap load i e c v =
     (case load of None \<Rightarrow> v
      | Some answer \<Rightarrow>
          (case view_lines v of
             Some _ \<Rightarrow> add_reveal i e c v
           | None \<Rightarrow>
               (case answer of
                  Throw err \<Rightarrow> v \<lparr>linesError := lines_message err, loadingLines := False\<rparr>
                | Ok ls \<Rightarrow>
                    add_reveal i e c
                      (v \<lparr>view_lines := Some ls, linesError := '''', loadingLines := False\<rparr>))))"

text \<open>What \<open>CommitPatch\<close> shows of the parsed patch; without \<open>loadLines\<close> there are no gaps.\<close>

definition expanded :: "string list result option \<Rightarrow> patch_item list \<Rightarrow> patch_view \<Rightarrow> patch_item list" where
  "expanded load is v =
     (case load of None \<Rightarrow> is | Some _ \<Rightarrow> withGaps is (view_lines v) (view_reveals v))"

text \<open>A click on a button of a gap row on show.\<close>

inductive click_step :: "string list result option \<Rightarrow> patch_item list \<Rightarrow> patch_view \<Rightarrow> patch_view \<Rightarrow> bool"
  for load "is" where
  click: "gap \<in> set (expanded load is v) \<Longrightarrow> (e, c) \<in> set (gap_buttons gap) \<Longrightarrow>
    click_step load is v (revealGap load (gap_id gap) e c v)"

inductive_cases click_stepE: "click_step load is v w"

section \<open>Numbering\<close>

lemma at_most_bounds: "0 \<le> t \<Longrightarrow> 0 \<le> at_most e t \<and> at_most e t \<le> t"
  by (simp add: at_most_def split: enat.split)

lemma gap_bounds:
  assumes "0 \<le> t"
  shows "0 \<le> gap_top rv i t" "gap_top rv i t \<le> t" "0 \<le> gap_bottom rv i t"
    "gap_bottom rv i t \<le> t - gap_top rv i t"
  using at_most_bounds [OF assms] at_most_bounds [of "t - gap_top rv i t"]
  by (simp_all add: gap_top_def gap_bottom_def)

lemma pushLines_0 [simp]: "pushLines ls off k 0 = []"
  by (simp add: pushLines_def)

lemma pushLines_Suc:
  "pushLines ls off k (1 + int m) = revealed_line ls off k # pushLines ls off (k + 1) (int m)"
  by (simp add: pushLines_def upto_rec1)

lemma walk_pushLines_nat:
  "walk J (k + off, k) (pushLines ls off k (int m)) = Some (k + off + int m, k + int m)"
proof (induction m arbitrary: k)
  case (Suc m)
  from Suc [of "k + 1"] show ?case by (simp add: pushLines_Suc revealed_line_def algebra_simps)
qed simp

lemma walk_pushLines:
  "0 \<le> c \<Longrightarrow> walk J (k + off, k) (pushLines ls off k c) = Some (k + off + c, k + c)"
  using walk_pushLines_nat [of J k off ls "nat c"] by simp

lemma walk_gap_row [simp]:
  "0 \<le> h \<Longrightarrow> walk J p (gap_row i h u l) = Some (fst p + h, snd p + h)"
  by (simp add: gap_row_def)

lemma walk_gap_block:
  assumes "0 \<le> T" "0 \<le> B" "T + B \<le> t" "b = n + t"
  shows "walk J (n + off, n)
           (pushLines ls off n T @ gap_row i (t - T - B) u l @ pushLines ls off (b - B) B)
         = Some (b + off, b)"
proof -
  let ?h = "t - T - B"
  have "walk J (n + off, n) (pushLines ls off n T) = Some (n + off + T, n + T)"
    using assms(1) by (rule walk_pushLines)
  moreover have "walk J (n + off + T, n + T) (gap_row i ?h u l) = Some (b - B + off, b - B)"
    using assms by simp
  moreover have "walk J (b - B + off, b - B) (pushLines ls off (b - B) B) = Some (b + off, b)"
    using walk_pushLines [OF assms(2), of J "b - B" off ls] by simp
  ultimately show ?thesis by (simp only: walk_append bind.bind_lunit)
qed

lemma walk_hunk_gap:
  assumes "forward (a0, nextNew g) (a, b)" and "oldOffset g = a0 - nextNew g"
  shows "walk in_place (a0, nextNew g) (hunk_gap ls rv t a b g) = Some (a, b)"
proof -
  let ?t = "b - nextNew g"
  have off: "a0 = nextNew g + (a - b)" and le: "0 \<le> ?t" using assms(1) by (auto simp: forward_def)
  note gb = gap_bounds [OF le, of rv "nextGapId g"]
  show ?thesis
  proof (cases "?t \<le> 0")
    case True
    with le off show ?thesis by (simp add: hunk_gap_def Let_def in_place_def)
  next
    case False
    from gb have "gap_top rv (nextGapId g) ?t + gap_bottom rv (nextGapId g) ?t \<le> ?t" by simp
    from walk_gap_block [OF gb(1,3) this, of b] False show ?thesis
      by (simp add: hunk_gap_def Let_def off)
  qed
qed

text \<open>One pass over the items keeps the numbering, with nothing left out.\<close>

lemma gap_loop_walk:
  assumes "walk forward (o1, nextNew g) is = Some (o2, n2)" and "oldOffset g = o1 - nextNew g"
    and "list_all (Not \<circ> is_gap) is" and "gap_loop ls rv is g = (out, g')"
  shows "walk in_place (o1, nextNew g) out = Some (o2, n2) \<and> nextNew g' = n2 \<and> oldOffset g' = o2 - n2"
  using assms
proof (induction "is" arbitrary: o1 g out)
  case (Cons i "is")
  obtain out1 g1 out2 where st: "gap_item ls rv i g = (out1, g1)" "gap_loop ls rv is g1 = (out2, g')"
    "out = out1 @ out2"
    using Cons.prems(4) by (auto split: prod.splits)
  have "\<exists>q. walk in_place (o1, nextNew g) out1 = Some (q, nextNew g1)
      \<and> walk forward (q, nextNew g1) is = Some (o2, n2) \<and> oldOffset g1 = q - nextNew g1"
    using Cons.prems(1-3) st(1) walk_hunk_gap [of o1 g _ _ ls rv]
    by (cases i) (auto split: if_splits)
  then obtain q where "walk in_place (o1, nextNew g) out1 = Some (q, nextNew g1)"
    and "walk forward (q, nextNew g1) is = Some (o2, n2)" and "oldOffset g1 = q - nextNew g1"
    by blast
  with Cons.IH [of q g1 out2] st(2,3) Cons.prems(3) show ?case by (auto simp: walk_append)
qed simp

lemma walk_gap_end:
  assumes "oldOffset g = o1 - nextNew g" and "nextNew g \<le> int (length l) + 1"
  shows "walk in_place (o1, nextNew g) (gap_end (Some l) rv is g)
       = Some (o1 + (int (length l) + 1 - nextNew g), int (length l) + 1)"
proof -
  let ?t = "int (length l) - nextNew g + 1"
  have le: "0 \<le> ?t" using assms(2) by simp
  note gb = gap_bounds [OF le, of rv "nextGapId g"]
  let ?T = "gap_top rv (nextGapId g) ?t"
  have "walk in_place (nextNew g + oldOffset g, nextNew g)
          (pushLines (Some l) (oldOffset g) (nextNew g) ?T)
        = Some (nextNew g + oldOffset g + ?T, nextNew g + ?T)"
    using gb by (intro walk_pushLines) simp
  with gb le assms(1) show ?thesis
    by (simp add: gap_end_def Let_def walk_append algebra_simps max_absorb1)
qed

section \<open>The file a patch belongs to\<close>

text \<open>
  A patch fits a file when its headers skip unchanged lines only, it ends within the file and
  its new side is the file's text.
\<close>

definition patch_fits :: "string list \<Rightarrow> patch_item list \<Rightarrow> bool" where
  "patch_fits l is \<longleftrightarrow>
     (case walk forward (1, 1) is of None \<Rightarrow> False | Some (_, n) \<Rightarrow> n \<le> int (length l) + 1)
     \<and> list_all (\<lambda>a. line_text a = line_at (Some l) (line_no a)) (new_side is)
     \<and> list_all (Not \<circ> is_gap) is"

text \<open>
  Git prints three unchanged lines after the last change of a hunk unless the file ends before: a
  patch that stops before the end of the file ends with three.
\<close>

definition git_context :: "string list \<Rightarrow> patch_item list \<Rightarrow> bool" where
  "git_context l is \<longleftrightarrow>
     (case walk forward (1, 1) is of
        None \<Rightarrow> False
      | Some (_, n) \<Rightarrow> n \<le> int (length l) \<longrightarrow> 3 \<le> length (takeWhile is_ctx (rev is)))"

lemma withGaps_walk:
  assumes "patch_fits l is"
  obtains q where "walk in_place (1, 1) (withGaps is (Some l) rv) = Some (q, int (length l) + 1)"
proof -
  from assms obtain o2 n2 where w: "walk forward (1, 1) is = Some (o2, n2)"
    and n2: "n2 \<le> int (length l) + 1" and ng: "list_all (Not \<circ> is_gap) is"
    by (auto simp: patch_fits_def split: option.splits)
  obtain out g where lp: "gap_loop (Some l) rv is gap_init = (out, g)" by fastforce
  have "walk forward (1, nextNew gap_init) is = Some (o2, n2)"
    and "oldOffset gap_init = 1 - nextNew gap_init"
    using w by (simp_all add: gap_init_def)
  from gap_loop_walk [OF this ng lp]
  have "walk in_place (1, 1) out = Some (o2, n2)" "nextNew g = n2" "oldOffset g = o2 - nextNew g"
    by (auto simp: gap_init_def)
  moreover from this n2 have "walk in_place (o2, n2) (gap_end (Some l) rv is g)
      = Some (o2 + (int (length l) + 1 - nextNew g), int (length l) + 1)"
    using walk_gap_end [of g o2 l rv "is"] by simp
  ultimately show thesis using that by (simp add: withGaps_def lp walk_append)
qed

text \<open>Every line added for a gap has the file's text.\<close>

lemma pushLines_new_text: "a \<in> set (new_side (pushLines ls off k c)) \<Longrightarrow> line_text a = line_at ls (line_no a)"
  by (auto simp: pushLines_def new_side_def revealed_line_def)

lemma gap_row_new [simp]: "new_side (gap_row i h u l) = []" "old_side (gap_row i h u l) = []"
  by (simp_all add: gap_row_def)

lemma gap_item_new:
  "a \<in> set (new_side (fst (gap_item ls rv i g))) \<Longrightarrow>
   a \<in> set (item_new i) \<or> line_text a = line_at ls (line_no a)"
  by (cases i) (auto simp: hunk_gap_def Let_def dest: pushLines_new_text split: if_splits)

lemma gap_loop_new:
  "a \<in> set (new_side (fst (gap_loop ls rv is g))) \<Longrightarrow>
   a \<in> set (new_side is) \<or> line_text a = line_at ls (line_no a)"
proof (induction "is" arbitrary: g)
  case (Cons i "is")
  obtain o1 g1 o2 g2 where "gap_item ls rv i g = (o1, g1)" "gap_loop ls rv is g1 = (o2, g2)"
    by fastforce
  with Cons.prems Cons.IH [of g1] gap_item_new [of a ls rv i g] show ?case by auto
qed simp

lemma withGaps_new:
  assumes "patch_fits l is" and "a \<in> set (new_side (withGaps is (Some l) rv))"
  shows "line_text a = line_at (Some l) (line_no a)"
proof -
  obtain out g where lp: "gap_loop (Some l) rv is gap_init = (out, g)" by fastforce
  from assms(2) have "a \<in> set (new_side out) \<or> a \<in> set (new_side (gap_end (Some l) rv is g))"
    by (simp add: withGaps_def lp)
  then show ?thesis
    using gap_loop_new [of a "Some l" rv "is" gap_init] assms(1)
    by (auto simp: lp patch_fits_def list_all_iff gap_end_def Let_def dest: pushLines_new_text)
qed

text \<open>Without gaps, the numbers of the new side are consecutive and all there.\<close>

lemma walk_new_consec:
  "walk in_place p is = Some q \<Longrightarrow> list_all (Not \<circ> is_gap) is \<Longrightarrow>
   consec (snd p) (new_side is) \<and> snd q = snd p + int (length (new_side is))"
  by (induction in_place p "is" rule: walk.induct)
    (auto simp: in_place_def split: if_splits)

lemma consec_nth: "consec k ds \<Longrightarrow> i < length ds \<Longrightarrow> line_no (ds ! i) = k + int i"
proof (induction ds arbitrary: k i)
  case (Cons d ds)
  then show ?case by (cases i) auto
qed simp

definition numbered_lines :: "string list \<Rightarrow> (int \<times> string) list" where
  "numbered_lines l = zip [1..int (length l)] l"

lemma shown_lines:
  assumes c: "consec 1 ds" and n: "length ds = length l"
    and t: "\<forall>d \<in> set ds. line_text d = line_at (Some l) (line_no d)"
  shows "map shown ds = numbered_lines l"
proof (rule nth_equalityI)
  fix i assume "i < length (map shown ds)"
  then have i: "i < length ds" by simp
  from consec_nth [OF c this] have no: "line_no (ds ! i) = 1 + int i" .
  with i t n have "line_text (ds ! i) = l ! i"
    by (auto simp: line_at_def nat_add_distrib dest: bspec [OF _ nth_mem])
  with no i n show "map shown ds ! i = numbered_lines l ! i"
    by (simp add: shown_def numbered_lines_def)
qed (simp add: n numbered_lines_def)

lemma no_gap_shows_file:
  assumes "patch_fits l is" and "list_all (Not \<circ> is_gap) (withGaps is (Some l) rv)"
  shows "map shown (new_side (withGaps is (Some l) rv)) = numbered_lines l"
proof -
  obtain q where w: "walk in_place (1, 1) (withGaps is (Some l) rv) = Some (q, int (length l) + 1)"
    using withGaps_walk [OF assms(1)] by blast
  from walk_new_consec [OF this assms(2)]
  show ?thesis by (intro shown_lines) (auto intro: withGaps_new [OF assms(1)])
qed

section \<open>Clicking the gaps away\<close>

text \<open>How many lines a diff still hides.\<close>

fun item_hidden :: "patch_item \<Rightarrow> int" where
  "item_hidden (Gap i (Some h) u l) = h"
| "item_hidden _ = 0"

definition hidden_lines :: "patch_item list \<Rightarrow> int" where
  "hidden_lines is = sum_list (map item_hidden is)"

lemma hidden_lines_simps [simp]:
  "hidden_lines [] = 0" "hidden_lines (i # is) = item_hidden i + hidden_lines is"
  "hidden_lines (is @ js) = hidden_lines is + hidden_lines js"
  by (simp_all add: hidden_lines_def)

lemma hidden_pushLines [simp]: "hidden_lines (pushLines ls off k c) = 0"
  by (simp add: hidden_lines_def pushLines_def comp_def revealed_line_def)

lemma hidden_gap_row [simp]: "0 \<le> h \<Longrightarrow> hidden_lines (gap_row i h u l) = h"
  by (simp add: gap_row_def)

text \<open>Revealing more never hides a line, and more at an edge of a gap on show hides fewer.\<close>

definition le_reveals :: "reveals \<Rightarrow> reveals \<Rightarrow> bool" where
  "le_reveals rv rv' \<longleftrightarrow>
     (\<forall>i. reveal_top (nullish (rv i) no_reveal) \<le> reveal_top (nullish (rv' i) no_reveal)
        \<and> reveal_bottom (nullish (rv i) no_reveal) \<le> reveal_bottom (nullish (rv' i) no_reveal))"

definition gap_left :: "reveals \<Rightarrow> nat \<Rightarrow> int \<Rightarrow> int" where
  "gap_left rv i t = t - gap_top rv i t - gap_bottom rv i t"

lemma gap_left_nonneg: "0 \<le> t \<Longrightarrow> 0 \<le> gap_left rv i t"
  using gap_bounds [of t rv i] by (simp add: gap_left_def)

lemma at_most_le [simp]: "at_most e t \<le> t"
  by (simp add: at_most_def split: enat.split)

lemma at_most_mono: "e \<le> e' \<Longrightarrow> at_most e t \<le> at_most e' t"
  by (cases e; cases e') (auto simp: at_most_def)

lemma gap_top_mono: "le_reveals rv rv' \<Longrightarrow> gap_top rv i t \<le> gap_top rv' i t"
  by (auto simp: gap_top_def le_reveals_def intro: at_most_mono)

lemma at_most_split: "at_most f (t - at_most e t) + at_most e t = at_most (e + f) t" if "0 \<le> t"
  using that by (cases e; cases f) (auto simp: at_most_def)

lemma gap_left_alt:
  "0 \<le> t \<Longrightarrow> gap_left rv i t =
     t - at_most (reveal_top (nullish (rv i) no_reveal) + reveal_bottom (nullish (rv i) no_reveal)) t"
  using at_most_split [of t "reveal_bottom (nullish (rv i) no_reveal)" "reveal_top (nullish (rv i) no_reveal)"]
  by (simp add: gap_left_def gap_top_def gap_bottom_def)

lemma gap_left_mono: "le_reveals rv rv' \<Longrightarrow> 0 \<le> t \<Longrightarrow> gap_left rv' i t \<le> gap_left rv i t"
  by (simp add: gap_left_alt, rule at_most_mono, rule add_mono) (simp_all add: le_reveals_def)

lemma at_most_strict:
  "0 < c \<Longrightarrow> at_most e t < t \<Longrightarrow> 0 \<le> t \<Longrightarrow> at_most e t < at_most (e + c) t"
  by (cases e; cases c) (auto simp: at_most_def zero_enat_def)

lemma gap_left_strict:
  assumes "0 < c" and "0 \<le> t" and "0 < gap_left rv i t"
  shows "gap_left (reveal_more rv i e c) i t < gap_left rv i t"
proof -
  let ?r = "nullish (rv i) no_reveal"
  have "reveal_top (bump e c ?r) + reveal_bottom (bump e c ?r)
      = reveal_top ?r + reveal_bottom ?r + c"
    by (cases e) (simp_all add: bump_def ac_simps)
  with at_most_strict [OF assms(1) _ assms(2), of "reveal_top ?r + reveal_bottom ?r"] assms(3)
  show ?thesis by (simp add: gap_left_alt [OF assms(2)] reveal_more_def)
qed

lemma gap_top_strict:
  assumes "0 < c" and "0 \<le> t" and "gap_top rv i t < t"
  shows "gap_top rv i t < gap_top (reveal_more rv i TopEdge c) i t"
  using at_most_strict [OF assms(1) _ assms(2)] assms(3) by (simp add: gap_top_def bump_def reveal_more_def)

lemma le_reveals_bump: "le_reveals rv (reveal_more rv i e c)"
  by (cases e) (auto simp: le_reveals_def bump_def reveal_more_def)

lemma hidden_hunk_gap:
  "hidden_lines (hunk_gap ls rv t a b g) =
     (if b \<le> nextNew g then 0 else gap_left rv (nextGapId g) (b - nextNew g))"
  using gap_left_nonneg [of "b - nextNew g" rv "nextGapId g"]
  by (simp add: hunk_gap_def Let_def gap_left_def)

lemma hidden_gap_end:
  "hidden_lines (gap_end (Some l) rv is g) =
     (let t = int (length l) - nextNew g + 1
      in if t \<le> 0 then 0 else t - gap_top rv (nextGapId g) t)"
proof -
  let ?t = "int (length l) - nextNew g + 1"
  show ?thesis
  proof (cases "?t \<le> 0")
    case True
    have "gap_top rv (nextGapId g) 0 = 0" using gap_bounds(1,2) [of 0 rv "nextGapId g"] by simp
    with True show ?thesis by (simp add: gap_end_def Let_def gap_row_def max_def)
  next
    case False
    then show ?thesis
      using gap_bounds(2) [of ?t rv "nextGapId g"] by (simp add: gap_end_def Let_def max_def)
  qed
qed

text \<open>The state of the loop does not depend on what is revealed.\<close>

lemma gap_item_state: "snd (gap_item ls rv i g) = snd (gap_item ls rv' i g)"
  by (cases i) simp_all

lemma gap_loop_Cons:
  "gap_loop ls rv (i # is) g =
     (fst (gap_item ls rv i g) @ fst (gap_loop ls rv is (snd (gap_item ls rv i g))),
      snd (gap_loop ls rv is (snd (gap_item ls rv i g))))"
  by (simp split: prod.split)

lemma gap_loop_state: "snd (gap_loop ls rv is g) = snd (gap_loop ls rv' is g)"
proof (induction "is" arbitrary: g)
  case (Cons i "is")
  then show ?case by (simp add: gap_loop_Cons gap_item_state [of ls rv i g rv'] del: gap_loop.simps)
qed simp

lemma hidden_gap_item_mono:
  "le_reveals rv rv' \<Longrightarrow>
   hidden_lines (fst (gap_item ls rv' i g)) \<le> hidden_lines (fst (gap_item ls rv i g))"
  by (cases i) (simp_all add: hidden_hunk_gap gap_left_mono)

lemma hidden_gap_loop_mono:
  assumes "le_reveals rv rv'"
  shows "hidden_lines (fst (gap_loop ls rv' is g)) \<le> hidden_lines (fst (gap_loop ls rv is g))"
proof (induction "is" arbitrary: g)
  case (Cons i "is")
  from add_mono [OF hidden_gap_item_mono [OF assms, of ls i g] Cons [of "snd (gap_item ls rv i g)"]]
  show ?case by (simp add: gap_loop_Cons gap_item_state [of ls rv' i g rv] del: gap_loop.simps)
qed simp

lemma hidden_gap_end_mono:
  "le_reveals rv rv' \<Longrightarrow>
   hidden_lines (gap_end (Some l) rv' is g) \<le> hidden_lines (gap_end (Some l) rv is g)"
  by (simp add: hidden_gap_end Let_def gap_top_mono)

lemma set_gap_row: "x \<in> set (gap_row i h u l) \<longleftrightarrow> 0 < h \<and> x = Gap i (Some h) u l"
  by (auto simp: gap_row_def)

lemma no_gap_pushLines [simp]: "Gap i h u l \<notin> set (pushLines ls off k c)"
  by (auto simp: pushLines_def revealed_line_def)

lemma gap_item_strict:
  assumes "Gap i h u l \<in> set (fst (gap_item ls rv it g))" and "\<not> is_gap it" and "0 < c"
  shows "hidden_lines (fst (gap_item ls (reveal_more rv i e c) it g))
       < hidden_lines (fst (gap_item ls rv it g))"
proof (cases it)
  case (Hunk t a b)
  let ?t = "b - nextNew g"
  from assms(1) Hunk have "\<not> b \<le> nextNew g" and "i = nextGapId g" and "0 < gap_left rv i ?t"
    by (auto simp: hunk_gap_def Let_def set_gap_row gap_left_def split: if_splits)
  with gap_left_strict [OF assms(3), of ?t rv i e] Hunk show ?thesis by (simp add: hidden_hunk_gap)
qed (use assms in auto)

lemma gap_loop_strict:
  assumes "Gap i h u l \<in> set (fst (gap_loop ls rv is g))" and "list_all (Not \<circ> is_gap) is" and "0 < c"
  shows "hidden_lines (fst (gap_loop ls (reveal_more rv i e c) is g))
       < hidden_lines (fst (gap_loop ls rv is g))"
  using assms(1,2)
proof (induction "is" arbitrary: g)
  case (Cons it "is")
  let ?rv = "reveal_more rv i e c"
  let ?g = "snd (gap_item ls rv it g)"
  note mono = hidden_gap_item_mono [OF le_reveals_bump, of ls rv i e c it g]
    hidden_gap_loop_mono [OF le_reveals_bump, of ls rv i e c "is" ?g]
  from Cons.prems(1) have "Gap i h u l \<in> set (fst (gap_item ls rv it g))
      \<or> Gap i h u l \<in> set (fst (gap_loop ls rv is ?g))"
    by (simp add: gap_loop_Cons del: gap_loop.simps)
  then have "hidden_lines (fst (gap_item ls ?rv it g)) < hidden_lines (fst (gap_item ls rv it g))
      \<or> hidden_lines (fst (gap_loop ls ?rv is ?g)) < hidden_lines (fst (gap_loop ls rv is ?g))"
    using gap_item_strict [OF _ _ assms(3)] Cons.IH Cons.prems(2) by auto
  with mono show ?case
    by (auto simp: gap_loop_Cons gap_item_state [of ls ?rv it g rv] simp del: gap_loop.simps)
qed simp

lemma gap_end_strict:
  assumes "Gap i h u d \<in> set (gap_end (Some l) rv is g)" and "0 < c"
  shows "hidden_lines (gap_end (Some l) (reveal_more rv i TopEdge c) is g)
       < hidden_lines (gap_end (Some l) rv is g)"
proof -
  let ?t = "int (length l) - nextNew g + 1"
  have i: "i = nextGapId g" and lt: "gap_top rv i (max ?t 0) < ?t"
    using assms(1) by (auto simp: gap_end_def Let_def set_gap_row)
  have pos: "0 < ?t" using lt gap_bounds(1) [of "max ?t 0" rv i] by simp
  with lt have "gap_top rv i ?t < ?t" by (simp add: max_def)
  from gap_top_strict [OF assms(2) _ this] pos show ?thesis
    by (simp add: hidden_gap_end Let_def i)
qed

lemma gap_rows_below:
  "Gap i h u d \<in> set (fst (gap_loop ls rv is g)) \<Longrightarrow> list_all (Not \<circ> is_gap) is \<Longrightarrow> d"
proof (induction "is" arbitrary: g)
  case (Cons it "is")
  have "Gap i h u d \<in> set (fst (gap_item ls rv it g)) \<Longrightarrow> d"
    using Cons.prems(2) by (cases it) (auto simp: hunk_gap_def Let_def set_gap_row split: if_splits)
  with Cons show ?case by (auto simp: gap_loop_Cons simp del: gap_loop.simps)
qed simp

lemma withGaps_split:
  "withGaps is ls rv =
     fst (gap_loop ls rv is gap_init) @ gap_end ls rv is (snd (gap_loop ls rv is gap_init))"
  by (simp add: withGaps_def split: prod.split)

lemma gap_button_facts:
  assumes "(e, c) \<in> set (gap_buttons (Gap i h u d))"
  shows "0 < c" and "\<not> d \<Longrightarrow> e = TopEdge"
  using assms by (auto simp: GAP_STEP_def zero_enat_def split: if_splits)

lemma click_hides_fewer:
  assumes gap: "Gap i h u d \<in> set (withGaps is (Some l) rv)" and ng: "list_all (Not \<circ> is_gap) is"
    and btn: "(e, c) \<in> set (gap_buttons (Gap i h u d))"
  shows "hidden_lines (withGaps is (Some l) (reveal_more rv i e c)) < hidden_lines (withGaps is (Some l) rv)"
proof -
  note c = gap_button_facts [OF btn]
  let ?rv = "reveal_more rv i e c" and ?g = "snd (gap_loop (Some l) rv is gap_init)"
  have g: "snd (gap_loop (Some l) ?rv is gap_init) = ?g" by (rule gap_loop_state)
  note mono = hidden_gap_loop_mono [OF le_reveals_bump, of "Some l" rv i e c "is" gap_init]
    hidden_gap_end_mono [OF le_reveals_bump, of l rv i e c "is" ?g]
  from gap have "Gap i h u d \<in> set (fst (gap_loop (Some l) rv is gap_init))
      \<or> Gap i h u d \<in> set (gap_end (Some l) rv is ?g)"
    by (simp add: withGaps_split)
  then show ?thesis
  proof
    assume "Gap i h u d \<in> set (fst (gap_loop (Some l) rv is gap_init))"
    from gap_loop_strict [OF this ng c(1), of e] mono show ?thesis by (simp add: withGaps_split g)
  next
    assume e: "Gap i h u d \<in> set (gap_end (Some l) rv is ?g)"
    then have "\<not> d" by (auto simp: gap_end_def Let_def set_gap_row)
    with c(2) have "e = TopEdge" by simp
    with gap_end_strict [OF e c(1)] mono g show ?thesis by (simp add: withGaps_split)
  qed
qed

lemma is_gap_buttons: "(e, c) \<in> set (gap_buttons gap) \<Longrightarrow> \<exists>i h u d. gap = Gap i h u d"
  by (cases gap) auto

lemma click_loaded:
  assumes "click_step (Some ans) is v w" and "view_lines v = Some l" and "list_all (Not \<circ> is_gap) is"
  shows "view_lines w = Some l \<and>
    hidden_lines (expanded (Some ans) is w) < hidden_lines (expanded (Some ans) is v)"
  using assms(1)
proof (cases rule: click_step.cases)
  case (click gap e c)
  obtain i h u d where gap: "gap = Gap i h u d" using is_gap_buttons [OF click(3)] by blast
  with click click_hides_fewer [of i h u d "is" l "view_reveals v" e c] assms(2,3) show ?thesis
    by (simp add: expanded_def revealGap_def add_reveal_def)
qed

lemma clicks_loaded:
  assumes "(click_step (Some ans) is ^^ k) v w" and "view_lines v = Some l"
    and "list_all (Not \<circ> is_gap) is"
  shows "view_lines w = Some l \<and>
    hidden_lines (expanded (Some ans) is w) + int k \<le> hidden_lines (expanded (Some ans) is v)"
  using assms(1)
proof (induction k arbitrary: w)
  case (Suc k)
  then obtain x where "(click_step (Some ans) is ^^ k) v x" and st: "click_step (Some ans) is x w"
    by auto
  with Suc.IH click_loaded [OF st _ assms(3)] show ?case by fastforce
qed (simp add: assms(2))

lemma walk_hidden:
  "walk in_place p is = Some q \<Longrightarrow> 0 \<le> hidden_lines is \<and> hidden_lines is \<le> snd q - snd p"
  by (induction in_place p "is" rule: walk.induct)
    (fastforce simp: in_place_def split: if_splits)+

lemma hidden_bounds:
  assumes "patch_fits l is"
  shows "0 \<le> hidden_lines (withGaps is (Some l) rv)"
    "hidden_lines (withGaps is (Some l) rv) \<le> int (length l)"
  using withGaps_walk [OF assms, of rv] walk_hidden [of "(1, 1)" "withGaps is (Some l) rv"]
  by (metis snd_conv, smt (verit) snd_conv)

lemma stuck_no_gap:
  assumes "\<nexists>w. click_step load is v w"
  shows "list_all (Not \<circ> is_gap) (expanded load is v)"
proof -
  have "\<not> is_gap gap" if "gap \<in> set (expanded load is v)" for gap
  proof
    assume "is_gap gap"
    then obtain e c where "(e, c) \<in> set (gap_buttons gap)" by (cases gap) auto
    with that assms show False by (blast intro: click)
  qed
  then show ?thesis by (simp add: list_all_iff)
qed

text \<open>Before the file is loaded nothing is revealed, and the rows on show are the same without it.\<close>

lemma gap_top_none: "0 \<le> t \<Longrightarrow> gap_top (\<lambda>_. None) i t = 0"
  by (simp add: gap_top_def no_reveal_def at_most_def zero_enat_def)

lemma gap_bottom_none: "0 \<le> t \<Longrightarrow> gap_bottom (\<lambda>_. None) i t = 0"
  by (simp add: gap_bottom_def gap_top_none no_reveal_def at_most_def zero_enat_def)

lemma gap_item_unloaded: "gap_item None (\<lambda>_. None) i g = gap_item (Some l) (\<lambda>_. None) i g"
  by (cases i) (simp_all add: hunk_gap_def Let_def gap_top_none gap_bottom_none)

lemma gap_loop_unloaded: "gap_loop None (\<lambda>_. None) is g = gap_loop (Some l) (\<lambda>_. None) is g"
  by (induction "is" arbitrary: g) (simp_all add: gap_item_unloaded [of _ _ l])

lemma unloaded_whole:
  assumes "patch_fits l is" and "git_context l is" and "list_all (Not \<circ> is_gap) (withGaps is None (\<lambda>_. None))"
  shows "withGaps is None (\<lambda>_. None) = withGaps is (Some l) (\<lambda>_. None)"
proof -
  from assms(1) obtain o2 n2 where w: "walk forward (1, 1) is = Some (o2, n2)"
    and n2: "n2 \<le> int (length l) + 1" and ng: "list_all (Not \<circ> is_gap) is"
    by (auto simp: patch_fits_def split: option.splits)
  obtain out g where lp: "gap_loop (Some l) (\<lambda>_. None) is gap_init = (out, g)" by fastforce
  have "walk forward (1, nextNew gap_init) is = Some (o2, n2)" "oldOffset gap_init = 1 - nextNew gap_init"
    using w by (simp_all add: gap_init_def)
  from gap_loop_walk [OF this ng lp] have n: "nextNew g = n2" by simp
  have "\<not> endsBeforeEof is"
    using assms(3) by (auto simp: withGaps_def gap_loop_unloaded [of _ _ l] lp gap_end_def split: if_splits)
  then have "\<not> 3 \<le> length (takeWhile is_ctx (rev is))" by (simp add: endsBeforeEof_def PATCH_CONTEXT_def)
  then have "n2 = int (length l) + 1" using assms(2) n2 by (auto simp: git_context_def w)
  then have "gap_end (Some l) (\<lambda>_. None) is g = []" using n by (simp add: gap_end_def gap_top_none gap_row_def)
  moreover have "gap_end None (\<lambda>_. None) is g = []" using \<open>\<not> endsBeforeEof is\<close> by (simp add: gap_end_def)
  ultimately show ?thesis by (simp add: withGaps_def gap_loop_unloaded [of _ _ l] lp)
qed

text \<open>A view of this file: its lines are loaded, or nothing is revealed yet.\<close>

definition view_of_file :: "string list \<Rightarrow> patch_view \<Rightarrow> bool" where
  "view_of_file l v \<longleftrightarrow> view_lines v = Some l \<or> view_lines v = None \<and> view_reveals v = (\<lambda>_. None)"

lemma first_click:
  assumes "click_step (Some (Ok l)) is v w" and "view_of_file l v"
  shows "view_lines w = Some l"
  using assms by (auto elim!: click_stepE simp: revealGap_def add_reveal_def view_of_file_def)

lemma reveal_ends:
  assumes fits: "patch_fits l is" and run: "(click_step (Some (Ok l)) is ^^ k) v0 v" and v0: "view_of_file l v0"
  shows "k \<le> length l + 1 \<and> view_of_file l v"
proof (cases k)
  case 0
  then show ?thesis using run v0 by simp
next
  case (Suc m)
  have ng: "list_all (Not \<circ> is_gap) is" using fits by (simp add: patch_fits_def)
  obtain x where x: "click_step (Some (Ok l)) is v0 x" and xs: "(click_step (Some (Ok l)) is ^^ m) x v"
    using relpowp_Suc_D2 [OF run [unfolded Suc]] by blast
  have xl: "view_lines x = Some l" by (rule first_click [OF x v0])
  from clicks_loaded [OF xs this ng] have "view_lines v = Some l"
    and "hidden_lines (withGaps is (Some l) (view_reveals v)) + int m
         \<le> hidden_lines (withGaps is (Some l) (view_reveals x))"
    by (auto simp: expanded_def xl)
  with Suc hidden_bounds [OF fits, of "view_reveals x"] hidden_bounds [OF fits, of "view_reveals v"]
  show ?thesis by (simp add: view_of_file_def)
qed

lemma stuck_shows_file:
  assumes "patch_fits l is" and "git_context l is" and "view_of_file l v"
    and "\<nexists>w. click_step (Some (Ok l)) is v w"
  shows "map shown (new_side (expanded (Some (Ok l)) is v)) = numbered_lines l"
proof -
  have n: "list_all (Not \<circ> is_gap) (withGaps is (view_lines v) (view_reveals v))"
    using stuck_no_gap [OF assms(4)] by (simp add: expanded_def)
  have "withGaps is (view_lines v) (view_reveals v) = withGaps is (Some l) (view_reveals v)"
    using assms(3) n unloaded_whole [OF assms(1,2)] by (auto simp: view_of_file_def)
  with n no_gap_shows_file [OF assms(1), of "view_reveals v"] show ?thesis by (simp add: expanded_def)
qed

section \<open>Properties\<close>

text \<open>
  Whatever has been revealed of a patch whose file is loaded, both gutters count from line 1 to
  the end of the file with nothing skipped or repeated: each line follows the last one, and each
  gap stands for exactly the lines it hides.
\<close>

theorem expanded_numbering:
  assumes "patch_fits l (parsePatch patch)"
  shows "\<exists>q. walk in_place (1, 1) (withGaps (parsePatch patch) (Some l) rv)
           = Some (q, int (length l) + 1)"
  using withGaps_walk [OF assms, of rv] by blast

text \<open>
  C18: Clicking gap rows ends and shows the file: from a diff just drawn, or with anything of the file
  revealed, a run of clicks on the buttons on show is no longer than the file and one more, and
  when no button is left, be it at the start, the new side of the diff is the whole file, line by
  line. The patch fits the file and has git's three lines of context.
\<close>

theorem clicking_reveals_file:
  assumes "patch_fits l (parsePatch patch)" and "git_context l (parsePatch patch)"
    and "view_lines v0 = Some l \<or> view_lines v0 = None \<and> view_reveals v0 = (\<lambda>_. None)"
    and "(click_step (Some (Ok l)) (parsePatch patch) ^^ k) v0 v"
  shows "k \<le> length l + 1 \<and>
    ((\<nexists>w. click_step (Some (Ok l)) (parsePatch patch) v w) \<longrightarrow>
       map shown (new_side (expanded (Some (Ok l)) (parsePatch patch) v)) = numbered_lines l)"
  using reveal_ends [OF assms(1,4)] stuck_shows_file [OF assms(1,2), of v] assms(3)
  by (simp add: view_of_file_def)

section \<open>A patch and its file\<close>

definition sample_patch :: string where
  "sample_patch = join [CHR 0x0A] [''@@ -3,5 +3,5 @@ f'', '' three'', ''-old'', ''+four'', '' five'', '' six'', '' seven'']"

definition sample_file :: "string list" where
  "sample_file = [''one'', ''two'', ''three'', ''four'', ''five'', ''six'', ''seven'', ''eight'']"

lemma sample_fits: "patch_fits sample_file (parsePatch sample_patch)" "git_context sample_file (parsePatch sample_patch)"
  by code_simp+

theorem expanded_numbering_witness:
  "\<exists>q. walk in_place (1, 1) (withGaps (parsePatch sample_patch) (Some sample_file) (\<lambda>_. None))
     = Some (q, int (length sample_file) + 1)"
  by (rule expanded_numbering [OF sample_fits(1)])

text \<open>The two clicks that reveal all of it.\<close>

definition sample_click :: "nat \<Rightarrow> gap_edge \<Rightarrow> patch_view \<Rightarrow> patch_view" where
  "sample_click i e v = revealGap (Some (Ok sample_file)) i e \<infinity> v"

abbreviation sample_step :: "patch_view \<Rightarrow> patch_view \<Rightarrow> bool" where
  "sample_step \<equiv> click_step (Some (Ok sample_file)) (parsePatch sample_patch)"

lemma sample_items:
  "parsePatch sample_patch =
    [Hunk ''@@ -3,5 +3,5 @@ f'' 3 3,
     Ctx \<lparr>line_no = 3, line_text = ''three'', line_position = Some 1\<rparr>
         \<lparr>line_no = 3, line_text = ''three'', line_position = Some 1\<rparr>,
     Change [\<lparr>line_no = 4, line_text = ''old'', line_position = Some 2\<rparr>]
            [\<lparr>line_no = 4, line_text = ''four'', line_position = Some 3\<rparr>],
     Ctx \<lparr>line_no = 5, line_text = ''five'', line_position = Some 4\<rparr>
         \<lparr>line_no = 5, line_text = ''five'', line_position = Some 4\<rparr>,
     Ctx \<lparr>line_no = 6, line_text = ''six'', line_position = Some 5\<rparr>
         \<lparr>line_no = 6, line_text = ''six'', line_position = Some 5\<rparr>,
     Ctx \<lparr>line_no = 7, line_text = ''seven'', line_position = Some 6\<rparr>
         \<lparr>line_no = 7, line_text = ''seven'', line_position = Some 6\<rparr>]"
  by code_simp

lemmas sample_eval = expanded_def withGaps_def gap_init_def hunk_gap_def gap_end_def gap_row_def
  gap_top_def gap_bottom_def no_reveal_def at_most_def zero_enat_def endsBeforeEof_def
  PATCH_CONTEXT_def Let_def sample_items sample_click_def revealGap_def add_reveal_def
  reveal_more_def bump_def view_init_def sample_file_def

lemma sample_first: "sample_step view_init (sample_click 0 BottomEdge view_init)"
proof -
  have "Gap 0 (Some 2) False True
      \<in> set (expanded (Some (Ok sample_file)) (parsePatch sample_patch) view_init)"
    by (simp add: sample_eval)
  from click [OF this, of BottomEdge \<infinity>] show ?thesis by (simp add: sample_click_def)
qed

lemma sample_second:
  "sample_step (sample_click 0 BottomEdge view_init)
     (sample_click 1 TopEdge (sample_click 0 BottomEdge view_init))"
proof -
  have "Gap 1 (Some 1) True False
      \<in> set (expanded (Some (Ok sample_file)) (parsePatch sample_patch) (sample_click 0 BottomEdge view_init))"
    by (simp add: sample_eval)
  from click [OF this, of TopEdge \<infinity>] show ?thesis by (simp add: sample_click_def)
qed

lemma sample_done:
  "list_all (Not \<circ> is_gap) (expanded (Some (Ok sample_file)) (parsePatch sample_patch)
     (sample_click 1 TopEdge (sample_click 0 BottomEdge view_init)))"
  by (simp add: sample_eval pushLines_def revealed_line_def upto.simps)

lemma no_gap_stuck:
  "list_all (Not \<circ> is_gap) (expanded load is v) \<Longrightarrow> \<nexists>w. click_step load is v w"
  by (auto elim!: click_stepE dest!: is_gap_buttons simp: list_all_iff)

theorem clicking_reveals_file_witness:
  "map shown (new_side (expanded (Some (Ok sample_file)) (parsePatch sample_patch)
     (sample_click 1 TopEdge (sample_click 0 BottomEdge view_init)))) = numbered_lines sample_file"
proof -
  have "(sample_step ^^ 2) view_init (sample_click 1 TopEdge (sample_click 0 BottomEdge view_init))"
    using sample_first sample_second by (auto simp: numeral_2_eq_2 relcompp_apply)
  from clicking_reveals_file [OF sample_fits _ this] no_gap_stuck [OF sample_done] show ?thesis
    by (simp add: view_init_def)
qed

end
