(* ===== verification/Diff_Rows.thy ===== *)
theory Diff_Rows
  imports Diff_Gaps "HOL-Library.Multiset"
begin

text \<open>
  The two layouts of a diff, split and unified, and the comments on its lines:
  \<open>toSplitRows\<close>, \<open>toUnifiedRows\<close> and \<open>rowComments\<close> of \<open>github/commitDiff.tsx\<close>.
\<close>

section \<open>Anchors\<close>

datatype diff_side = LEFT | RIGHT

record line_anchor =
  anchor_side :: diff_side
  anchor_line :: int
  anchor_position :: int

record issue_comment =
  comment_id :: int
  comment_position :: "int option"
  comment_line :: "int option"
  comment_side :: "diff_side option"

definition anchorOf :: "diff_side \<Rightarrow> int option \<Rightarrow> int option \<Rightarrow> line_anchor option" where
  "anchorOf side no pos =
     (case (no, pos) of
        (Some l, Some p) \<Rightarrow> Some \<lparr>anchor_side = side, anchor_line = l, anchor_position = p\<rparr>
      | _ \<Rightarrow> None)"

definition anchorsOf :: "line_anchor option list \<Rightarrow> line_anchor list" where
  "anchorsOf as = List.map_filter id as"

definition sameLine :: "line_anchor \<Rightarrow> line_anchor \<Rightarrow> bool" where
  "sameLine a b \<longleftrightarrow> anchor_side a = anchor_side b \<and> anchor_line a = anchor_line b"

definition isCommentOn :: "issue_comment \<Rightarrow> line_anchor \<Rightarrow> bool" where
  "isCommentOn c a \<longleftrightarrow>
     (case comment_side c of
        Some s \<Rightarrow> s = anchor_side a \<and> comment_line c = Some (anchor_line a)
      | None \<Rightarrow> comment_position c = Some (anchor_position a))"

section \<open>Split layout\<close>

datatype line_kind = Add | Del | Context | Empty

record split_cell =
  cell_no :: "int option"
  cell_text :: string
  cell_kind :: line_kind
  cell_position :: "int option"

datatype split_row = SplitHead patch_item | Pair split_cell split_cell

definition EMPTY_CELL :: split_cell where
  "EMPTY_CELL = \<lparr>cell_no = None, cell_text = [], cell_kind = Empty, cell_position = None\<rparr>"

definition cell :: "line_kind \<Rightarrow> diff_line \<Rightarrow> split_cell" where
  "cell k d = \<lparr>cell_no = Some (line_no d), cell_text = line_text d, cell_kind = k,
     cell_position = line_position d\<rparr>"

text \<open>The index loop over a change block, up to the longer of the two lists.\<close>

fun pair_rows :: "diff_line list \<Rightarrow> diff_line list \<Rightarrow> split_row list" where
  "pair_rows (d # ds) (a # as) = Pair (cell Del d) (cell Add a) # pair_rows ds as"
| "pair_rows (d # ds) [] = Pair (cell Del d) EMPTY_CELL # pair_rows ds []"
| "pair_rows [] (a # as) = Pair EMPTY_CELL (cell Add a) # pair_rows [] as"
| "pair_rows [] [] = []"

fun split_rows_of :: "patch_item \<Rightarrow> split_row list" where
  "split_rows_of (Hunk t a b) = [SplitHead (Hunk t a b)]"
| "split_rows_of (Gap i h u d) = [SplitHead (Gap i h u d)]"
| "split_rows_of (Ctx d a) = [Pair (cell Context d) (cell Context a)]"
| "split_rows_of (Change ds as) = pair_rows ds as"

definition toSplitRows :: "patch_item list \<Rightarrow> split_row list" where
  "toSplitRows is = concat (map split_rows_of is)"

section \<open>Unified layout\<close>

datatype unified_row =
    UnifiedHead patch_item
  | Line (oldNo: "int option") (newNo: "int option") (row_text: string) (row_kind: line_kind)
      (row_anchors: "line_anchor list")

definition del_row :: "diff_line \<Rightarrow> unified_row" where
  "del_row d = Line (Some (line_no d)) None (line_text d) Del
     (anchorsOf [anchorOf LEFT (Some (line_no d)) (line_position d)])"

definition add_row :: "diff_line \<Rightarrow> unified_row" where
  "add_row a = Line None (Some (line_no a)) (line_text a) Add
     (anchorsOf [anchorOf RIGHT (Some (line_no a)) (line_position a)])"

fun unified_rows_of :: "patch_item \<Rightarrow> unified_row list" where
  "unified_rows_of (Hunk t a b) = [UnifiedHead (Hunk t a b)]"
| "unified_rows_of (Gap i h u d) = [UnifiedHead (Gap i h u d)]"
| "unified_rows_of (Ctx d a) =
     [Line (Some (line_no d)) (Some (line_no a)) (line_text a) Context
        (anchorsOf [anchorOf LEFT (Some (line_no d)) (line_position d),
                    anchorOf RIGHT (Some (line_no a)) (line_position a)])]"
| "unified_rows_of (Change ds as) = map del_row ds @ map add_row as"

definition toUnifiedRows :: "patch_item list \<Rightarrow> unified_row list" where
  "toUnifiedRows is = concat (map unified_rows_of is)"

section \<open>Comments\<close>

text \<open>The anchors a row hands to \<open>rowComments\<close> in each layout.\<close>

fun split_anchors :: "split_row \<Rightarrow> line_anchor list" where
  "split_anchors (SplitHead i) = []"
| "split_anchors (Pair l r) =
     anchorsOf [anchorOf LEFT (cell_no l) (cell_position l),
                anchorOf RIGHT (cell_no r) (cell_position r)]"

fun unified_anchors :: "unified_row \<Rightarrow> line_anchor list" where
  "unified_anchors (UnifiedHead i) = []"
| "unified_anchors (Line n m t k as) = as"

text \<open>The thread of a row, and whether the composer is open on it.\<close>

definition on_row :: "issue_comment \<Rightarrow> line_anchor list \<Rightarrow> bool" where
  "on_row c as \<longleftrightarrow> list_ex (isCommentOn c) as"

definition row_thread :: "issue_comment list \<Rightarrow> line_anchor list \<Rightarrow> issue_comment list" where
  "row_thread comments as = filter (\<lambda>c. on_row c as) comments"

definition composing :: "line_anchor option \<Rightarrow> line_anchor list \<Rightarrow> bool" where
  "composing open_on as = (case open_on of None \<Rightarrow> False | Some b \<Rightarrow> list_ex (\<lambda>a. sameLine a b) as)"

section \<open>Both layouts show the same lines\<close>

text \<open>The lines of either side as they are drawn: how they are marked, their number and their text.\<close>

type_synonym drawn_line = "line_kind \<times> int \<times> string"

fun cell_lines :: "split_cell \<Rightarrow> drawn_line list" where
  "cell_lines c = (case cell_no c of None \<Rightarrow> [] | Some n \<Rightarrow> [(cell_kind c, n, cell_text c)])"

fun split_left :: "split_row \<Rightarrow> drawn_line list" where
  "split_left (SplitHead i) = []"
| "split_left (Pair l r) = cell_lines l"

fun split_right :: "split_row \<Rightarrow> drawn_line list" where
  "split_right (SplitHead i) = []"
| "split_right (Pair l r) = cell_lines r"

fun split_heads :: "split_row \<Rightarrow> patch_item list" where
  "split_heads (SplitHead i) = [i]"
| "split_heads (Pair l r) = []"

fun unified_left :: "unified_row \<Rightarrow> drawn_line list" where
  "unified_left (UnifiedHead i) = []"
| "unified_left (Line n m t k as) = (case n of None \<Rightarrow> [] | Some l \<Rightarrow> [(k, l, t)])"

fun unified_right :: "unified_row \<Rightarrow> drawn_line list" where
  "unified_right (UnifiedHead i) = []"
| "unified_right (Line n m t k as) = (case m of None \<Rightarrow> [] | Some l \<Rightarrow> [(k, l, t)])"

fun unified_heads :: "unified_row \<Rightarrow> patch_item list" where
  "unified_heads (UnifiedHead i) = [i]"
| "unified_heads (Line n m t k as) = []"

text \<open>What the items say should be drawn.\<close>

definition drawn :: "line_kind \<Rightarrow> diff_line \<Rightarrow> drawn_line" where
  "drawn k d = (k, line_no d, line_text d)"

fun item_left :: "patch_item \<Rightarrow> drawn_line list" where
  "item_left (Ctx d a) = [drawn Context d]"
| "item_left (Change ds as) = map (drawn Del) ds"
| "item_left _ = []"

fun item_right :: "patch_item \<Rightarrow> drawn_line list" where
  "item_right (Ctx d a) = [drawn Context a]"
| "item_right (Change ds as) = map (drawn Add) as"
| "item_right _ = []"

fun item_heads :: "patch_item \<Rightarrow> patch_item list" where
  "item_heads (Hunk t a b) = [Hunk t a b]"
| "item_heads (Gap i h u d) = [Gap i h u d]"
| "item_heads _ = []"

text \<open>A context line whose sides differ in whitespace has the new side's text in the unified layout.\<close>

fun new_text :: "patch_item \<Rightarrow> patch_item" where
  "new_text (Ctx d a) = Ctx (d \<lparr>line_text := line_text a\<rparr>) a"
| "new_text i = i"

text \<open>The rows the split layout needs: a removed and an added line share one.\<close>

fun item_height :: "patch_item \<Rightarrow> nat" where
  "item_height (Change ds as) = max (length ds) (length as)"
| "item_height _ = 1"

lemma toSplitRows_simps [simp]:
  "toSplitRows [] = []" "toSplitRows (i # is) = split_rows_of i @ toSplitRows is"
  by (simp_all add: toSplitRows_def)

lemma toUnifiedRows_simps [simp]:
  "toUnifiedRows [] = []" "toUnifiedRows (i # is) = unified_rows_of i @ toUnifiedRows is"
  by (simp_all add: toUnifiedRows_def)

lemma pair_rows_sides:
  "concat (map split_left (pair_rows ds as)) = map (drawn Del) ds"
  "concat (map split_right (pair_rows ds as)) = map (drawn Add) as"
  "concat (map split_heads (pair_rows ds as)) = []"
  "length (pair_rows ds as) = max (length ds) (length as)"
  by (induction ds as rule: pair_rows.induct) (simp_all add: cell_def EMPTY_CELL_def drawn_def)

lemma split_rows_sides:
  "concat (map split_left (split_rows_of i)) = item_left i"
  "concat (map split_right (split_rows_of i)) = item_right i"
  "concat (map split_heads (split_rows_of i)) = item_heads i"
  "length (split_rows_of i) = item_height i"
  by (cases i; simp add: pair_rows_sides cell_def drawn_def)+

lemma change_rows_sides:
  "concat (map unified_left (map del_row ds)) = map (drawn Del) ds"
  "concat (map unified_right (map del_row ds)) = []"
  "concat (map unified_heads (map del_row ds)) = []"
  "concat (map unified_left (map add_row ds)) = []"
  "concat (map unified_right (map add_row ds)) = map (drawn Add) ds"
  "concat (map unified_heads (map add_row ds)) = []"
  by (induction ds) (simp_all add: del_row_def add_row_def drawn_def)

lemma unified_rows_sides:
  "concat (map unified_left (unified_rows_of i)) = item_left (new_text i)"
  "concat (map unified_right (unified_rows_of i)) = item_right i"
  "concat (map unified_heads (unified_rows_of i)) = item_heads i"
  by (cases i; simp add: change_rows_sides [simplified] drawn_def)+

lemma rows_of_items:
  "concat (map f (toSplitRows is)) = concat (map (\<lambda>i. concat (map f (split_rows_of i))) is)"
  "concat (map g (toUnifiedRows is)) = concat (map (\<lambda>i. concat (map g (unified_rows_of i))) is)"
  by (induction "is") simp_all

lemma length_toSplitRows: "length (toSplitRows is) = sum_list (map item_height is)"
  by (induction "is") (simp_all add: split_rows_sides)

text \<open>The anchors of a row list, whatever the layout, are those of the items.\<close>

definition line_anchors :: "diff_side \<Rightarrow> diff_line \<Rightarrow> line_anchor list" where
  "line_anchors side d = anchorsOf [anchorOf side (Some (line_no d)) (line_position d)]"

fun item_anchors :: "patch_item \<Rightarrow> line_anchor list" where
  "item_anchors (Ctx d a) = line_anchors LEFT d @ line_anchors RIGHT a"
| "item_anchors (Change ds as) = concat (map (line_anchors LEFT) ds @ map (line_anchors RIGHT) as)"
| "item_anchors _ = []"

definition all_anchors :: "patch_item list \<Rightarrow> line_anchor list" where
  "all_anchors is = concat (map item_anchors is)"

lemma anchorsOf_simps [simp]:
  "anchorsOf [] = []" "anchorsOf (None # as) = anchorsOf as" "anchorsOf (Some a # as) = a # anchorsOf as"
  by (simp_all add: anchorsOf_def List.map_filter_simps)

lemma anchorsOf_Cons: "as \<noteq> [] \<Longrightarrow> anchorsOf (a # as) = anchorsOf [a] @ anchorsOf as"
  by (cases a) simp_all

lemma anchorOf_None [simp]: "anchorOf s None p = None"
  by (simp add: anchorOf_def)

lemma unified_anchors_of: "concat (map unified_anchors (unified_rows_of i)) = item_anchors i"
proof (cases i)
  case (Change ds as)
  have "unified_anchors (del_row x) = line_anchors LEFT x"
    and "unified_anchors (add_row x) = line_anchors RIGHT x" for x
    by (simp_all add: del_row_def add_row_def line_anchors_def)
  with Change show ?thesis by (simp add: comp_def)
qed (simp_all add: line_anchors_def anchorsOf_Cons [of "[_]"])

lemma all_unified_anchors: "concat (map unified_anchors (toUnifiedRows is)) = all_anchors is"
  by (induction "is") (simp_all add: all_anchors_def unified_anchors_of)

lemma pair_rows_anchors:
  "mset (concat (map split_anchors (pair_rows ds as)))
     = mset (concat (map (line_anchors LEFT) ds @ map (line_anchors RIGHT) as))"
  by (induction ds as rule: pair_rows.induct)
    (simp_all add: cell_def EMPTY_CELL_def line_anchors_def anchorsOf_Cons [of "[_]"])

lemma split_anchors_of: "mset (concat (map split_anchors (split_rows_of i))) = mset (item_anchors i)"
  by (cases i) (simp_all add: pair_rows_anchors cell_def line_anchors_def anchorsOf_Cons [of "[_]"]
      del: mset_concat)

lemma all_split_anchors: "mset (concat (map split_anchors (toSplitRows is))) = mset (all_anchors is)"
proof (induction "is")
  case (Cons i "is")
  with split_anchors_of [of i] show ?case by (simp add: all_anchors_def)
qed (simp add: all_anchors_def)

section \<open>The items on show\<close>

text \<open>What \<open>CommitPatch\<close> draws: the parsed patch, its gaps, and with whitespace hidden if asked.\<close>

definition diff_items :: "string list result option \<Rightarrow> string \<Rightarrow> bool \<Rightarrow> patch_view \<Rightarrow> patch_item list" where
  "diff_items load patch hideWhitespace v =
     (let e = expanded load (parsePatch patch) v
      in if hideWhitespace then ignoreWhitespace e else e)"

lemma walk_weaken:
  "walk J p is = Some q \<Longrightarrow> (\<And>a b. J a b \<Longrightarrow> J' a b) \<Longrightarrow> walk J' p is = Some q"
  by (induction J p "is" rule: walk.induct) (auto split: if_splits)

lemma in_place_forward: "walk in_place p is = Some q \<Longrightarrow> walk forward p is = Some q"
  by (erule walk_weaken) (simp add: in_place_def forward_def)

lemma walk_gap_end_any:
  assumes "oldOffset g = o1 - nextNew g"
  shows "\<exists>q. walk in_place (o1, nextNew g) (gap_end ls rv is g) = Some q"
proof (cases ls)
  case (Some l)
  show ?thesis
  proof (cases "nextNew g \<le> int (length l) + 1")
    case True
    from walk_gap_end [OF assms this, of rv "is"] Some show ?thesis by blast
  next
    case False
    have "gap_top rv (nextGapId g) 0 = 0" using gap_bounds(1,2) [of 0 rv "nextGapId g"] by simp
    with False Some show ?thesis by (simp add: gap_end_def Let_def gap_row_def)
  qed
qed (simp add: gap_end_def)

lemma withGaps_walk_some:
  assumes "walk forward (1, 1) is = Some q" and ng: "list_all (Not \<circ> is_gap) is"
  shows "\<exists>q. walk in_place (1, 1) (withGaps is ls rv) = Some q"
proof -
  obtain o2 n2 where q: "q = (o2, n2)" by fastforce
  obtain out g where lp: "gap_loop ls rv is gap_init = (out, g)" by fastforce
  have "walk forward (1, nextNew gap_init) is = Some (o2, n2)"
    and "oldOffset gap_init = 1 - nextNew gap_init"
    using assms(1) q by (simp_all add: gap_init_def)
  from gap_loop_walk [OF this ng lp]
  have w: "walk in_place (1, 1) out = Some (o2, nextNew g)" and "oldOffset g = o2 - nextNew g"
    by (auto simp: gap_init_def)
  from walk_gap_end_any [OF this(2), of ls rv "is"] w show ?thesis
    by (auto simp: withGaps_def lp walk_append)
qed

lemma diff_items_walk:
  assumes "walk forward (1, 1) (parsePatch patch) = Some q"
  shows "\<exists>q. walk forward (1, 1) (diff_items load patch hide v) = Some q"
proof -
  have "\<exists>q. walk forward (1, 1) (expanded load (parsePatch patch) v) = Some q"
    using assms withGaps_walk_some [OF assms parsePatch_no_gap, of "view_lines v" "view_reveals v"]
    by (auto simp: expanded_def intro: in_place_forward split: option.split)
  then show ?thesis by (auto simp: diff_items_def Let_def intro: walk_ignoreWhitespace)
qed

section \<open>Side and line name one row\<close>

definition anchor_key :: "line_anchor \<Rightarrow> diff_side \<times> int" where
  "anchor_key a = (anchor_side a, anchor_line a)"

lemma line_anchors_mem:
  "a \<in> set (line_anchors s d) \<Longrightarrow> anchor_side a = s \<and> anchor_line a = line_no d"
  by (auto simp: line_anchors_def anchorOf_def split: option.splits)

lemma line_anchors_distinct: "distinct (map anchor_key (line_anchors s d))"
  by (simp add: line_anchors_def anchorOf_def split: option.split)

lemma consec_range: "consec k ds \<Longrightarrow> d \<in> set ds \<Longrightarrow> k \<le> line_no d \<and> line_no d < k + int (length ds)"
  by (induction ds arbitrary: k) fastforce+

lemma consec_anchors:
  "consec k ds \<Longrightarrow> distinct (map anchor_key (concat (map (line_anchors s) ds)))"
proof (induction ds arbitrary: k)
  case (Cons d ds)
  have "anchor_key a \<noteq> anchor_key b"
    if "a \<in> set (line_anchors s d)" "e \<in> set ds" "b \<in> set (line_anchors s e)" for a b e
    using line_anchors_mem [OF that(1)] line_anchors_mem [OF that(3)] Cons.prems
      consec_range [of "k + 1" ds e] that(2)
    by (simp add: anchor_key_def)
  then have "anchor_key ` set (line_anchors s d)
      \<inter> anchor_key ` set (concat (map (line_anchors s) ds)) = {}"
    unfolding set_concat set_map by blast
  moreover have "distinct (map anchor_key (concat (map (line_anchors s) ds)))"
    using Cons.IH [of "k + 1"] Cons.prems by simp
  ultimately show ?case
    using line_anchors_distinct [of s d] by (simp only: list.map concat.simps map_append distinct_append set_map)
qed simp

definition in_box :: "int \<times> int \<Rightarrow> int \<times> int \<Rightarrow> line_anchor \<Rightarrow> bool" where
  "in_box p q a \<longleftrightarrow>
     (case anchor_side a of LEFT \<Rightarrow> fst p \<le> anchor_line a \<and> anchor_line a < fst q
                          | RIGHT \<Rightarrow> snd p \<le> anchor_line a \<and> anchor_line a < snd q)"

lemma in_box_weaken:
  "in_box p r a \<Longrightarrow> fst r \<le> fst q \<Longrightarrow> snd r \<le> snd q \<Longrightarrow> in_box p q a"
  "in_box r q a \<Longrightarrow> fst p \<le> fst r \<Longrightarrow> snd p \<le> snd r \<Longrightarrow> in_box p q a"
  by (auto simp: in_box_def split: diff_side.splits)

lemma in_box_disjoint: "in_box p r a \<Longrightarrow> in_box r q b \<Longrightarrow> anchor_key a \<noteq> anchor_key b"
  by (auto simp: in_box_def anchor_key_def split: diff_side.splits)

lemma line_anchors_key: "a \<in> set (line_anchors s d) \<Longrightarrow> anchor_key a = (s, line_no d)"
  by (auto simp: anchor_key_def dest: line_anchors_mem)

lemma line_anchors_box:
  "a \<in> set (line_anchors LEFT d) \<Longrightarrow> in_box p q a \<longleftrightarrow> fst p \<le> line_no d \<and> line_no d < fst q"
  "a \<in> set (line_anchors RIGHT d) \<Longrightarrow> in_box p q a \<longleftrightarrow> snd p \<le> line_no d \<and> line_no d < snd q"
  by (auto simp: in_box_def dest!: line_anchors_mem)

lemma sides_distinct:
  assumes "distinct (map anchor_key (concat (map (line_anchors LEFT) ds)))"
    and "distinct (map anchor_key (concat (map (line_anchors RIGHT) as)))"
  shows "distinct (map anchor_key (concat (map (line_anchors LEFT) ds @ map (line_anchors RIGHT) as)))"
proof -
  have "anchor_key a \<noteq> anchor_key b"
    if "a \<in> set (concat (map (line_anchors LEFT) ds))" "b \<in> set (concat (map (line_anchors RIGHT) as))" for a b
    using that by (auto dest!: line_anchors_key)
  then have "anchor_key ` set (concat (map (line_anchors LEFT) ds))
      \<inter> anchor_key ` set (concat (map (line_anchors RIGHT) as)) = {}"
    by blast
  with assms show ?thesis unfolding map_append concat_append distinct_append set_map by blast
qed

lemma item_box:
  assumes "walk forward p [i] = Some q"
  shows "fst p \<le> fst q \<and> snd p \<le> snd q \<and> distinct (map anchor_key (item_anchors i))
    \<and> (\<forall>a \<in> set (item_anchors i). in_box p q a)"
proof (cases i)
  case (Ctx d a)
  with assms sides_distinct [of "[d]" "[a]"] line_anchors_distinct [of LEFT d] line_anchors_distinct [of RIGHT a]
  show ?thesis by (auto simp: line_anchors_box split: if_splits)
next
  case (Change ds as)
  with assms have c: "consec (fst p) ds" "consec (snd p) as"
    and q: "fst q = fst p + int (length ds)" "snd q = snd p + int (length as)"
    by (auto split: if_splits)
  from sides_distinct [OF consec_anchors [OF c(1)] consec_anchors [OF c(2)]]
  have "distinct (map anchor_key (item_anchors i))" by (simp only: Change item_anchors.simps)
  moreover have "in_box p q a" if "a \<in> set (item_anchors i)" for a
    using that consec_range [OF c(1)] consec_range [OF c(2)] by (auto simp: Change line_anchors_box q)
  ultimately show ?thesis by (simp add: q)
next
  case (Gap j h u d)
  with assms show ?thesis by (cases h) (auto split: if_splits)
qed (use assms in \<open>auto simp: forward_def split: if_splits\<close>)

lemma walk_box:
  "walk forward p is = Some q \<Longrightarrow>
   fst p \<le> fst q \<and> snd p \<le> snd q \<and> distinct (map anchor_key (all_anchors is))
   \<and> (\<forall>a \<in> set (all_anchors is). in_box p q a)"
proof (induction "is" arbitrary: p)
  case (Cons i "is")
  then obtain r where r: "walk forward p [i] = Some r" "walk forward r is = Some q"
    by (auto simp: walk_Cons [of forward p i "is"] bind_eq_Some_conv)
  note head = item_box [OF r(1)] and tail = Cons.IH [OF r(2)]
  have "anchor_key a \<noteq> anchor_key b" if "a \<in> set (item_anchors i)" "b \<in> set (all_anchors is)" for a b
    using in_box_disjoint head tail that by blast
  then have "anchor_key ` set (item_anchors i) \<inter> anchor_key ` set (all_anchors is) = {}" by blast
  with head tail have "distinct (map anchor_key (item_anchors i @ all_anchors is))"
    unfolding map_append distinct_append set_map by blast
  moreover have "in_box p q a" if "a \<in> set (item_anchors i @ all_anchors is)" for a
  proof (cases "a \<in> set (item_anchors i)")
    case True
    with head have "in_box p r a" by blast
    from in_box_weaken(1) [OF this] tail show ?thesis by blast
  next
    case False
    with that have "a \<in> set (all_anchors is)" by simp
    with tail have "in_box r q a" by blast
    from in_box_weaken(2) [OF this] head show ?thesis by blast
  qed
  moreover have "fst p \<le> fst q" "snd p \<le> snd q" using head tail by simp_all
  ultimately show ?case
    by (simp only: all_anchors_def list.map concat.simps) blast
qed (simp add: all_anchors_def)

section \<open>A position names one row\<close>

definition posns :: "diff_line list \<Rightarrow> int list" where
  "posns ds = List.map_filter line_position ds"

fun item_posns :: "patch_item \<Rightarrow> int list" where
  "item_posns (Ctx d a) = remdups (posns [d, a])"
| "item_posns (Change ds as) = posns (ds @ as)"
| "item_posns _ = []"

definition all_posns :: "patch_item list \<Rightarrow> int list" where
  "all_posns is = concat (map item_posns is)"

lemma posns_simps [simp]:
  "posns [] = []" "posns (ds @ as) = posns ds @ posns as"
  "posns (d # ds) = (case line_position d of None \<Rightarrow> posns ds | Some p \<Rightarrow> p # posns ds)"
  by (simp_all add: posns_def List.map_filter_def split: option.split)

lemma all_posns_simps [simp]:
  "all_posns [] = []" "all_posns (i # is) = item_posns i @ all_posns is"
  "all_posns (is @ js) = all_posns is @ all_posns js"
  "all_posns (change_block ds as) = posns (ds @ as)"
  by (simp_all add: all_posns_def change_block_def)

lemma posns_marks: "posns ds = List.map_filter id (map line_position ds)"
  by (simp add: posns_def List.map_filter_def comp_def filter_map)

lemma item_posns_marks: "item_posns i = List.map_filter id (item_marks i)"
  by (cases i)
    (auto simp: posns_marks List.map_filter_def comp_def filter_map split: option.split)

lemma all_posns_marks: "all_posns is = List.map_filter id (marks is)"
  by (induction "is") (simp_all add: item_posns_marks List.map_filter_def)

lemma distinct_map_filter_id: "distinct xs \<Longrightarrow> distinct (List.map_filter id xs)"
  by (auto simp: List.map_filter_def distinct_map inj_on_def)

lemma parsed_posns: "distinct (all_posns (parsePatch patch))"
  by (simp add: all_posns_marks distinct_map_filter_id parsed_marks)

text \<open>Revealed lines have no position.\<close>

lemma all_posns_pushLines [simp]: "all_posns (pushLines ls off k c) = []"
  by (simp add: all_posns_def pushLines_def comp_def revealed_line_def)

lemma all_posns_gap_row [simp]: "all_posns (gap_row i h u d) = []"
  by (simp add: gap_row_def)

lemma gap_item_posns: "all_posns (fst (gap_item ls rv i g)) = item_posns i"
  by (cases i) (simp_all add: hunk_gap_def Let_def)

lemma gap_loop_posns: "all_posns (fst (gap_loop ls rv is g)) = all_posns is"
  by (induction "is" arbitrary: g) (simp_all add: gap_loop_Cons gap_item_posns del: gap_loop.simps(2))

lemma withGaps_posns: "all_posns (withGaps is ls rv) = all_posns is"
  by (simp add: withGaps_split gap_loop_posns gap_end_def Let_def split: option.split)

lemma pair_up_posns:
  "distinct (posns (ds @ as)) \<Longrightarrow>
   mset (all_posns (pair_up cd ca ds as)) = mset (posns (cd @ ds @ ca @ as))"
  by (induction cd ca ds as rule: pair_up.induct) (auto split: option.split)

lemma ignore_posns:
  "distinct (all_posns is) \<Longrightarrow> mset (all_posns (ignoreWhitespace is)) = mset (all_posns is)"
proof (induction "is")
  case (Cons i "is")
  have "mset (all_posns (ignore_item i)) = mset (item_posns i)"
  proof (cases i)
    case (Change ds as)
    with Cons.prems have "distinct (posns (ds @ as))" by auto
    from pair_up_posns [OF this, of "[]" "[]"] Change show ?thesis by simp
  qed simp_all
  with Cons show ?case by simp
qed simp

lemma diff_items_posns: "distinct (all_posns (diff_items load patch hide v))"
proof -
  have d: "distinct (all_posns (expanded load (parsePatch patch) v))"
    by (simp add: expanded_def withGaps_posns parsed_posns split: option.split)
  with mset_eq_imp_distinct_iff [OF ignore_posns [OF d]] show ?thesis
    by (simp add: diff_items_def Let_def)
qed

section \<open>A comment is on one row\<close>

lemma one_owner:
  assumes "distinct (concat (map g rows))" and "\<And>r. r \<in> set rows \<Longrightarrow> P r \<Longrightarrow> x \<in> set (g r)"
  shows "length (filter P rows) \<le> 1"
  using assms
proof (induction rows)
  case (Cons r rows)
  show ?case
  proof (cases "P r")
    case True
    then have "x \<in> set (g r)" using Cons.prems(2) by simp
    with Cons.prems have "\<not> P s" if "s \<in> set rows" for s using that by auto
    then show ?thesis by (simp add: True filter_empty_conv)
  next
    case False
    with Cons show ?thesis by simp
  qed
qed simp

definition row_keys :: "line_anchor list \<Rightarrow> (diff_side \<times> int) list" where
  "row_keys as = map anchor_key as"

definition row_posns :: "line_anchor list \<Rightarrow> int list" where
  "row_posns as = remdups (map anchor_position as)"

lemma on_row_key:
  "on_row c as \<Longrightarrow> comment_side c = Some s \<Longrightarrow> (s, the (comment_line c)) \<in> set (row_keys as)"
  by (auto simp: on_row_def list_ex_iff isCommentOn_def row_keys_def anchor_key_def image_iff)

lemma on_row_posn:
  "on_row c as \<Longrightarrow> comment_side c = None \<Longrightarrow> the (comment_position c) \<in> set (row_posns as)"
  by (auto simp: on_row_def list_ex_iff isCommentOn_def row_posns_def)

text \<open>With either way of naming a line, a list of rows shows the comment once at most.\<close>

lemma comment_once:
  assumes "distinct (concat (map (row_keys \<circ> anchors) rows))"
    and "distinct (concat (map (row_posns \<circ> anchors) rows))"
  shows "length (filter (\<lambda>r. on_row c (anchors r)) rows) \<le> 1"
proof (cases "comment_side c")
  case None
  from one_owner [OF assms(2), of "\<lambda>r. on_row c (anchors r)" "the (comment_position c)"] on_row_posn [OF _ None]
  show ?thesis by simp
next
  case (Some s)
  from one_owner [OF assms(1), of "\<lambda>r. on_row c (anchors r)" "(s, the (comment_line c))"] on_row_key [OF _ Some]
  show ?thesis by simp
qed

lemma concat_row_keys:
  "concat (map (row_keys \<circ> anchors) rows) = map anchor_key (concat (map anchors rows))"
  by (induction rows) (simp_all add: row_keys_def)

lemma row_posns_line: "row_posns (line_anchors s d) = posns [d]"
  by (simp add: row_posns_def line_anchors_def anchorOf_def split: option.split)

lemma unified_row_posns:
  "concat (map (row_posns \<circ> unified_anchors) (unified_rows_of i)) = item_posns i"
proof (cases i)
  case (Change ds as)
  have "row_posns (unified_anchors (del_row d)) = posns [d]"
    and "row_posns (unified_anchors (add_row d)) = posns [d]" for d
    by (simp_all only: del_row_def add_row_def unified_anchors.simps row_posns_line flip: line_anchors_def)
  moreover have "concat (map (\<lambda>d. posns [d]) ds) = posns ds" for ds
    by (induction ds) (simp_all split: option.split)
  ultimately show ?thesis by (simp add: Change comp_def del: posns_simps(3))
next
  case (Ctx d a)
  then show ?thesis by (simp add: row_posns_def anchorOf_def split: option.split)
qed (simp_all add: row_posns_def)

lemma all_unified_posns:
  "concat (map (row_posns \<circ> unified_anchors) (toUnifiedRows is)) = all_posns is"
  by (induction "is") (simp_all add: unified_row_posns [unfolded comp_def] comp_def)

lemma pair_row_posns:
  "distinct (posns (ds @ as)) \<Longrightarrow>
   mset (concat (map (row_posns \<circ> split_anchors) (pair_rows ds as))) = mset (posns (ds @ as))"
  by (induction ds as rule: pair_rows.induct)
    (auto simp: row_posns_def cell_def EMPTY_CELL_def anchorOf_def split: option.splits)

lemma split_row_posns:
  "distinct (item_posns i) \<Longrightarrow>
   mset (concat (map (row_posns \<circ> split_anchors) (split_rows_of i))) = mset (item_posns i)"
proof (cases i)
  case (Change ds as)
  moreover assume "distinct (item_posns i)"
  ultimately show ?thesis using pair_row_posns [of ds as] by simp
next
  case (Ctx d a)
  then show ?thesis by (simp add: row_posns_def cell_def anchorOf_def split: option.split)
qed (simp_all add: row_posns_def)

lemma all_split_posns:
  "distinct (all_posns is) \<Longrightarrow>
   mset (concat (map (row_posns \<circ> split_anchors) (toSplitRows is))) = mset (all_posns is)"
proof (induction "is")
  case (Cons i "is")
  then have "distinct (item_posns i)" and "distinct (all_posns is)" by auto
  from split_row_posns [OF this(1)] Cons.IH [OF this(2)] show ?case by (simp add: comp_def)
qed simp

lemma split_comment_once:
  assumes "distinct (map anchor_key (all_anchors is))" and "distinct (all_posns is)"
  shows "length (filter (\<lambda>r. on_row c (split_anchors r)) (toSplitRows is)) \<le> 1"
proof (rule comment_once)
  have "mset (map anchor_key (concat (map split_anchors (toSplitRows is))))
      = mset (map anchor_key (all_anchors is))"
    using all_split_anchors [of "is"] by (simp only: mset_map)
  from mset_eq_imp_distinct_iff [OF this] assms(1)
  show "distinct (concat (map (row_keys \<circ> split_anchors) (toSplitRows is)))"
    by (simp only: concat_row_keys)
  from mset_eq_imp_distinct_iff [OF all_split_posns [OF assms(2)]] assms(2)
  show "distinct (concat (map (row_posns \<circ> split_anchors) (toSplitRows is)))" by simp
qed

lemma unified_comment_once:
  assumes "distinct (map anchor_key (all_anchors is))" and "distinct (all_posns is)"
  shows "length (filter (\<lambda>r. on_row c (unified_anchors r)) (toUnifiedRows is)) \<le> 1"
  by (rule comment_once) (simp_all only: concat_row_keys all_unified_anchors all_unified_posns assms)

lemma on_row_concat: "(\<exists>r \<in> set rows. on_row c (anchors r)) \<longleftrightarrow> on_row c (concat (map anchors rows))"
  by (auto simp: on_row_def list_ex_iff)

lemma on_row_mset: "mset as = mset bs \<Longrightarrow> on_row c as \<longleftrightarrow> on_row c bs"
  by (auto simp: on_row_def list_ex_iff dest: mset_eq_setD)

lemma shown_in_both:
  "(\<exists>r \<in> set (toSplitRows is). on_row c (split_anchors r))
   \<longleftrightarrow> (\<exists>r \<in> set (toUnifiedRows is). on_row c (unified_anchors r))"
  unfolding on_row_concat using on_row_mset [OF all_split_anchors [of "is"], of c]
  by (simp only: all_unified_anchors)

section \<open>Properties\<close>

text \<open>
  C23: Both layouts show the diff. The left column of the split layout and the old side of the unified
  one have every removed line, marked as removed, and every context line, with number and text;
  the right column and the new side have every added line, marked as added, and every context
  line. Where the two sides of a context line differ in whitespace, the unified layout shows the
  new text. The headings are the same, the places to comment on are the same, and the split
  layout puts a removed and an added line on one row.
\<close>

theorem layouts_agree:
  "concat (map split_left (toSplitRows is)) = concat (map item_left is) \<and>
   concat (map unified_left (toUnifiedRows is)) = concat (map (item_left \<circ> new_text) is) \<and>
   concat (map split_right (toSplitRows is)) = concat (map item_right is) \<and>
   concat (map unified_right (toUnifiedRows is)) = concat (map item_right is) \<and>
   concat (map split_heads (toSplitRows is)) = concat (map item_heads is) \<and>
   concat (map unified_heads (toUnifiedRows is)) = concat (map item_heads is) \<and>
   length (toSplitRows is) = sum_list (map item_height is) \<and>
   mset (concat (map split_anchors (toSplitRows is)))
     = mset (concat (map unified_anchors (toUnifiedRows is)))"
proof (intro conjI)
  show "mset (concat (map split_anchors (toSplitRows is))) = mset (concat (map unified_anchors (toUnifiedRows is)))"
    by (simp only: all_split_anchors all_unified_anchors)
qed (simp_all only: rows_of_items split_rows_sides unified_rows_sides length_toSplitRows comp_def)

text \<open>
  However a patch is expanded and whether whitespace is hidden or not, a comment appears on one
  row at most of each layout, and in the one layout exactly when in the other.
\<close>

theorem comment_on_one_row:
  assumes "walk forward (1, 1) (parsePatch patch) = Some q"
  shows "length (filter (\<lambda>r. on_row c (split_anchors r)) (toSplitRows (diff_items load patch hide v))) \<le> 1 \<and>
    length (filter (\<lambda>r. on_row c (unified_anchors r)) (toUnifiedRows (diff_items load patch hide v))) \<le> 1 \<and>
    ((\<exists>r \<in> set (toSplitRows (diff_items load patch hide v)). on_row c (split_anchors r)) \<longleftrightarrow>
     (\<exists>r \<in> set (toUnifiedRows (diff_items load patch hide v)). on_row c (unified_anchors r)))"
proof -
  obtain r where "walk forward (1, 1) (diff_items load patch hide v) = Some r"
    using diff_items_walk [OF assms] by blast
  then have k: "distinct (map anchor_key (all_anchors (diff_items load patch hide v)))"
    using walk_box by blast
  from split_comment_once [OF k diff_items_posns] unified_comment_once [OF k diff_items_posns]
    shown_in_both
  show ?thesis by blast
qed

definition sample_comment :: issue_comment where
  "sample_comment = \<lparr>comment_id = 1, comment_position = Some 3, comment_line = None, comment_side = None\<rparr>"

theorem comment_on_one_row_witness:
  "length (filter (\<lambda>r. on_row sample_comment (split_anchors r))
     (toSplitRows (diff_items None sample_patch True view_init))) \<le> 1"
proof -
  have "walk forward (1, 1) (parsePatch sample_patch) = Some (8, 8)" by code_simp
  from comment_on_one_row [OF this] show ?thesis by blast
qed

end
