(* ===== verification/Diff_Tokens.thy ===== *)
theory Diff_Tokens
  imports Diff_Rows
begin

text \<open>
  The colours of the code in a diff: \<open>github/syntaxHighlight.ts\<close>, and \<open>tokenizeDiff\<close> and
  \<open>CodeTokens\<close> of \<open>github/commitDiff.tsx\<close>. The highlighter (\<open>lowlight\<close>) is the argument
  \<open>highlight\<close>; what the code relies on is that the text of the tree it returns is the code.
\<close>

section \<open>Tokens of consecutive lines\<close>

record code_token =
  token_text :: string
  className :: "string option"

text \<open>A node of the tree: text, an element with its class names and children, or another node.\<close>

datatype hast_node =
    TextNode string
  | ElementNode "string list option" "hast_node list"
  | OtherNode

definition MAX_HIGHLIGHT_CHARS :: nat where
  "MAX_HIGHLIGHT_CHARS = 200000"

definition text_token :: "string option \<Rightarrow> string \<Rightarrow> code_token list" where
  "text_token c t = (if t = [] then [] else [\<lparr>token_text = t, className = c\<rparr>])"

text \<open>The lines so far, the last one apart; \<open>out\<close> is never empty.\<close>

definition add_text :: "string option \<Rightarrow> string \<Rightarrow> code_token list list \<Rightarrow> code_token list list" where
  "add_text c v out =
     (case split_on (CHR 0x0A) v of
        [] \<Rightarrow> out
      | first # rest \<Rightarrow> butlast out @ [last out @ text_token c first] @ map (text_token c) rest)"

fun walk_node :: "string option \<Rightarrow> hast_node \<Rightarrow> code_token list list \<Rightarrow> code_token list list" where
  "walk_node c (TextNode v) out = add_text c v out"
| "walk_node c (ElementNode own children) out =
     fold (walk_node (case own of Some ns \<Rightarrow> Some (join '' '' ns) | None \<Rightarrow> c)) children out"
| "walk_node c OtherNode out = out"

definition tokenizeLines ::
  "(string \<Rightarrow> string \<Rightarrow> hast_node list) \<Rightarrow> string list \<Rightarrow> string option \<Rightarrow> code_token list list option" where
  "tokenizeLines highlight lines language =
     (case language of
        None \<Rightarrow> None
      | Some lang \<Rightarrow>
          if lang = [] then None
          else (let code = join [CHR 0x0A] lines
                in if MAX_HIGHLIGHT_CHARS < length code then None
                   else Some (fold (walk_node None) (highlight lang code) [[]])))"

section \<open>Colouring a diff\<close>

type_synonym side_tokens = "int \<Rightarrow> code_token list option"

record token_state =
  old_tokens :: side_tokens
  new_tokens :: side_tokens
  old_run :: "diff_line list"
  new_run :: "diff_line list"

fun set_tokens :: "diff_line list \<Rightarrow> code_token list list \<Rightarrow> side_tokens \<Rightarrow> side_tokens" where
  "set_tokens (d # ds) (ts # tss) m = set_tokens ds tss (m(line_no d \<mapsto> ts))"
| "set_tokens _ _ m = m"

definition flush_side ::
  "(string list \<Rightarrow> code_token list list option) \<Rightarrow> diff_line list \<Rightarrow> side_tokens \<Rightarrow> side_tokens" where
  "flush_side tokenize run m =
     (case tokenize (map line_text run) of None \<Rightarrow> m | Some tss \<Rightarrow> set_tokens run tss m)"

definition flush_runs ::
  "(string list \<Rightarrow> code_token list list option) \<Rightarrow> token_state \<Rightarrow> token_state" where
  "flush_runs tokenize s =
     \<lparr>old_tokens = flush_side tokenize (old_run s) (old_tokens s),
      new_tokens = flush_side tokenize (new_run s) (new_tokens s), old_run = [], new_run = []\<rparr>"

fun token_item ::
  "(string list \<Rightarrow> code_token list list option) \<Rightarrow> patch_item \<Rightarrow> token_state \<Rightarrow> token_state" where
  "token_item tokenize (Ctx d a) s = s \<lparr>old_run := old_run s @ [d], new_run := new_run s @ [a]\<rparr>"
| "token_item tokenize (Change ds as) s = s \<lparr>old_run := old_run s @ ds, new_run := new_run s @ as\<rparr>"
| "token_item tokenize i s = flush_runs tokenize s"

definition no_tokens :: token_state where
  "no_tokens = \<lparr>old_tokens = (\<lambda>_. None), new_tokens = (\<lambda>_. None), old_run = [], new_run = []\<rparr>"

definition tokenizeDiff ::
  "(string \<Rightarrow> string \<Rightarrow> hast_node list) \<Rightarrow> patch_item list \<Rightarrow> string option \<Rightarrow> side_tokens \<times> side_tokens" where
  "tokenizeDiff highlight is language =
     (if language = None \<or> language = Some [] then (\<lambda>_. None, \<lambda>_. None)
      else (let tokenize = (\<lambda>ls. tokenizeLines highlight ls language);
                s = flush_runs tokenize (fold (token_item tokenize) is no_tokens)
            in (old_tokens s, new_tokens s)))"

section \<open>Marking a search text\<close>

datatype code_node = Piece "string option" string | Mark "code_node list"

text \<open>A token without a class, or with an empty one, is plain text.\<close>

definition plain_class :: "string option \<Rightarrow> string option" where
  "plain_class c = (if c = Some [] then None else c)"

text \<open>The parts of a line between two offsets, one per token that reaches into it.\<close>

fun slice_parts :: "nat \<Rightarrow> nat \<Rightarrow> nat \<Rightarrow> code_token list \<Rightarrow> code_node list" where
  "slice_parts start stop off [] = []"
| "slice_parts start stop off (t # ts) =
     (let len = length (token_text t); k = max start off; to = min stop (off + len)
      in (if k < to then [Piece (plain_class (className t)) (take (to - k) (drop (k - off) (token_text t)))] else [])
         @ slice_parts start stop (off + len) ts)"

definition slice_code :: "code_token list \<Rightarrow> nat \<Rightarrow> nat \<Rightarrow> code_node list" where
  "slice_code parts start stop = slice_parts start stop 0 parts"

text \<open>\<open>lower.indexOf(needle, at)\<close>.\<close>

fun index_at :: "string \<Rightarrow> nat \<Rightarrow> string \<Rightarrow> nat option" where
  "index_at needle k [] = (if needle = [] then Some k else None)"
| "index_at needle k (c # s) =
     (if starts needle (c # s) then Some k else index_at needle (k + 1) s)"

definition index_from :: "string \<Rightarrow> string \<Rightarrow> nat \<Rightarrow> nat option" where
  "index_from lower needle k = index_at needle k (drop k lower)"

lemma index_at_bounds: "index_at needle k s = Some j \<Longrightarrow> k \<le> j \<and> j + length needle \<le> k + length s"
proof (induction needle k s rule: index_at.induct)
  case (2 needle k c s)
  then show ?case
  proof (cases "starts needle (c # s)")
    case True
    then have "take (length needle) (c # s) = needle" by (simp only: starts_def)
    then have "length (take (length needle) (c # s)) = length needle" by (rule arg_cong)
    with 2(2) True show ?thesis by (simp add: min_def split: if_splits)
  next
    case False
    with 2(2) have "index_at needle (k + 1) s = Some j" by simp
    from 2(1) [OF False this] show ?thesis by simp
  qed
qed (auto split: if_splits)

lemma index_from_bounds:
  "index_from lower needle k = Some j \<Longrightarrow> needle \<noteq> [] \<Longrightarrow>
   k \<le> j \<and> j + length needle \<le> length lower"
  using index_at_bounds [of needle k "drop k lower" j]
  by (cases "k \<le> length lower") (auto simp: index_from_def)

text \<open>
  The loop over the matches. It is only entered with a non-empty query, and a match advances by
  the length of the query, so it ends.
\<close>

function mark_matches :: "code_token list \<Rightarrow> string \<Rightarrow> string \<Rightarrow> nat \<Rightarrow> nat \<Rightarrow> code_node list" where
  "mark_matches parts lower needle stop k =
     (case (if needle = [] then None else index_from lower needle k) of
        None \<Rightarrow> slice_code parts k stop
      | Some j \<Rightarrow>
          slice_code parts k j @ Mark (slice_code parts j (j + length needle))
          # mark_matches parts lower needle stop (j + length needle))"
  by pat_completeness auto

termination
proof (relation "measure (\<lambda>(parts, lower, needle, stop, k). length lower + 1 - k)")
  fix parts lower needle stop k j
  assume "(if needle = [] then None else index_from lower needle k) = Some j"
  then have n: "needle \<noteq> []" and "index_from lower needle k = Some j"
    by (auto split: if_splits)
  from index_from_bounds [OF this(2,1)] n
  show "((parts, lower, needle, stop, j + length needle), (parts, lower, needle, stop, k))
      \<in> measure (\<lambda>(parts, lower, needle, stop, k). length lower + 1 - k)"
    by (cases needle) auto
qed simp

declare mark_matches.simps [simp del]

definition CodeTokens :: "string \<Rightarrow> code_token list option \<Rightarrow> string \<Rightarrow> code_node list" where
  "CodeTokens txt tokens query =
     (let parts = nullish tokens [\<lparr>token_text = txt, className = None\<rparr>]
      in if query = [] then slice_code parts 0 (length txt)
         else mark_matches parts (toLowerCase txt) (toLowerCase query) (length txt) 0)"

section \<open>The lines keep their text\<close>

definition line_of :: "code_token list \<Rightarrow> string" where
  "line_of ts = concat (map token_text ts)"

lemma line_of_simps [simp]:
  "line_of [] = []" "line_of (t # ts) = token_text t @ line_of ts"
  "line_of (ts @ us) = line_of ts @ line_of us" "line_of (text_token c v) = v"
  by (simp_all add: line_of_def text_token_def)

fun node_code :: "hast_node \<Rightarrow> string" where
  "node_code (TextNode v) = v"
| "node_code (ElementNode own children) = concat (map node_code children)"
| "node_code OtherNode = []"

definition newline_free :: "string \<Rightarrow> bool" where
  "newline_free s \<longleftrightarrow> CHR 0x0A \<notin> set s"

lemma join_append:
  "xs \<noteq> [] \<Longrightarrow> ys \<noteq> [] \<Longrightarrow> join sep (xs @ ys) = join sep xs @ sep @ join sep ys"
  by (induction sep xs rule: join.induct) (auto simp: neq_Nil_conv)

lemma join_last: "join sep (xs @ [a @ b]) = join sep (xs @ [a]) @ b"
  by (cases "xs = []") (simp_all add: join_append)

lemma join_split: "join [c] (split_on c s) = s"
proof (induction s)
  case (Cons x s)
  obtain p ps where "split_on c s = p # ps" by (cases "split_on c s") simp_all
  with Cons show ?case by (cases ps) auto
qed simp

lemma split_pieces: "p \<in> set (split_on c s) \<Longrightarrow> c \<notin> set p"
  by (induction s arbitrary: p) (auto split: if_splits list.splits)

definition lines_ok :: "code_token list list \<Rightarrow> bool" where
  "lines_ok out \<longleftrightarrow> out \<noteq> [] \<and> (\<forall>l \<in> set out. newline_free (line_of l))"

abbreviation code_of :: "code_token list list \<Rightarrow> string" where
  "code_of out \<equiv> join [CHR 0x0A] (map line_of out)"

lemma add_text_code:
  assumes "lines_ok out"
  shows "lines_ok (add_text c v out) \<and> code_of (add_text c v out) = code_of out @ v"
proof -
  obtain first rest where sp: "split_on (CHR 0x0A) v = first # rest"
    by (cases "split_on (CHR 0x0A) v") simp_all
  obtain xs x where out: "out = xs @ [x]" using assms by (cases out rule: rev_cases) (auto simp: lines_ok_def)
  have t: "map line_of (map (text_token c) rest) = rest" by (simp add: comp_def)
  have nl: "newline_free p" if "p \<in> set (first # rest)" for p
    using split_pieces [of p "CHR 0x0A" v] that by (simp add: sp newline_free_def)
  have ok: "lines_ok (add_text c v out)"
    using assms nl by (auto simp: lines_ok_def add_text_def sp out newline_free_def)
  have "code_of (add_text c v out) = join [CHR 0x0A] ((map line_of xs @ [line_of x @ first]) @ rest)"
    by (simp add: add_text_def sp out comp_def)
  also have "\<dots> = code_of out @ join [CHR 0x0A] (first # rest)"
  proof (cases "rest = []")
    case False
    then obtain r rs where "rest = r # rs" by (cases rest) simp_all
    then show ?thesis by (simp add: out join_append join_last del: append_assoc)
  qed (simp add: out join_last)
  finally show ?thesis using ok join_split [of "CHR 0x0A" v] sp by simp
qed

lemma walk_node_code:
  "lines_ok out \<Longrightarrow> lines_ok (walk_node c n out) \<and> code_of (walk_node c n out) = code_of out @ node_code n"
proof (induction c n out rule: walk_node.induct)
  case (1 c v out)
  then show ?case using add_text_code by simp
next
  case (2 c own children out)
  let ?f = "walk_node (case own of Some ns \<Rightarrow> Some (join '' '' ns) | None \<Rightarrow> c)"
  have "lines_ok (fold ?f ns out') \<and>
      code_of (fold ?f ns out') = code_of out' @ concat (map node_code ns)"
    if "set ns \<subseteq> set children" "lines_ok out'" for ns out'
    using that by (induction ns arbitrary: out') (use "2.IH" in auto)
  with "2.prems" show ?case by simp
qed simp

lemma fold_walk_code:
  "lines_ok out \<Longrightarrow> lines_ok (fold (walk_node c) ns out)
   \<and> code_of (fold (walk_node c) ns out) = code_of out @ concat (map node_code ns)"
  by (induction ns arbitrary: out) (simp_all add: walk_node_code)

text \<open>What the code relies on of the highlighter.\<close>

definition keeps_code :: "(string \<Rightarrow> string \<Rightarrow> hast_node list) \<Rightarrow> bool" where
  "keeps_code highlight \<longleftrightarrow> (\<forall>lang code. concat (map node_code (highlight lang code)) = code)"

lemma tokenized_text:
  assumes "keeps_code highlight" and "lines \<noteq> []" and "\<forall>l \<in> set lines. newline_free l"
    and "tokenizeLines highlight lines language = Some out"
  shows "map line_of out = lines"
proof -
  obtain lang where out: "out = fold (walk_node None) (highlight lang (join [CHR 0x0A] lines)) [[]]"
    using assms(4) by (auto simp: tokenizeLines_def Let_def split: option.splits if_splits)
  have "lines_ok [[]]" by (simp add: lines_ok_def newline_free_def)
  from fold_walk_code [OF this, of None "highlight lang (join [CHR 0x0A] lines)"]
  have ok: "lines_ok out" and "code_of out = join [CHR 0x0A] lines"
    using assms(1) by (simp_all add: out keeps_code_def)
  moreover have "split_on (CHR 0x0A) (code_of out) = map line_of out"
    using ok by (intro split_on_join) (auto simp: lines_ok_def newline_free_def)
  moreover have "split_on (CHR 0x0A) (join [CHR 0x0A] lines) = lines"
    by (rule split_on_join [OF assms(2)]) (use assms(3) in \<open>simp add: newline_free_def\<close>)
  ultimately show ?thesis by metis
qed

section \<open>Every line of a diff is coloured as itself\<close>

text \<open>The tokens held for one side are those of the lines given for it.\<close>

definition tokens_fit :: "diff_line list \<Rightarrow> side_tokens \<Rightarrow> bool" where
  "tokens_fit ds m \<longleftrightarrow> (\<forall>d \<in> set ds. \<forall>ts. m (line_no d) = Some ts \<longrightarrow> line_of ts = line_text d)"

definition tokenizer_ok :: "(string list \<Rightarrow> code_token list list option) \<Rightarrow> bool" where
  "tokenizer_ok tokenize \<longleftrightarrow>
     (\<forall>ls out. ls \<noteq> [] \<and> list_all newline_free ls \<and> tokenize ls = Some out \<longrightarrow> map line_of out = ls)"

lemma tokenizeLines_ok:
  "keeps_code highlight \<Longrightarrow> tokenizer_ok (\<lambda>ls. tokenizeLines highlight ls language)"
  unfolding tokenizer_ok_def list_all_iff using tokenized_text by blast

lemma set_tokens_other: "k \<notin> line_no ` set ds \<Longrightarrow> set_tokens ds tss m k = m k"
  by (induction ds tss m rule: set_tokens.induct) auto

lemma set_tokens_fit:
  "distinct (map line_no ds) \<Longrightarrow> map line_of tss = map line_text ds \<Longrightarrow> tokens_fit ds (set_tokens ds tss m)"
proof (induction ds tss m rule: set_tokens.induct)
  case (1 d ds ts tss m)
  then have "set_tokens ds tss (m(line_no d \<mapsto> ts)) (line_no d) = Some ts"
    by (simp add: set_tokens_other)
  with 1 show ?case by (auto simp: tokens_fit_def simp del: fun_upd_apply)
qed (auto simp: tokens_fit_def)

lemma tokens_fit_append: "tokens_fit (ds @ as) m \<longleftrightarrow> tokens_fit ds m \<and> tokens_fit as m"
  by (auto simp: tokens_fit_def)

lemma flush_side_fit:
  assumes ok: "tokenizer_ok tokenize" and d: "distinct (map line_no (done @ run))"
    and nl: "list_all newline_free (map line_text run)" and m: "tokens_fit done m"
    and fresh: "\<forall>l \<in> set run. m (line_no l) = None"
  shows "tokens_fit (done @ run) (flush_side tokenize run m)
    \<and> (\<forall>k. k \<notin> line_no ` set run \<longrightarrow> flush_side tokenize run m k = m k)"
proof (cases "tokenize (map line_text run)")
  case None
  with m fresh show ?thesis by (auto simp: flush_side_def tokens_fit_def)
next
  case (Some tss)
  have e: "flush_side tokenize run m = set_tokens run tss m" by (simp add: flush_side_def Some)
  have "tokens_fit run (set_tokens run tss m)"
  proof (cases "run = []")
    case False
    with ok nl Some have "map line_of tss = map line_text run" by (auto simp: tokenizer_ok_def)
    with d show ?thesis by (intro set_tokens_fit) auto
  qed (simp add: tokens_fit_def)
  moreover have "set_tokens run tss m (line_no l) = m (line_no l)" if "l \<in> set done" for l
    using d that by (intro set_tokens_other) auto
  then have "tokens_fit done (set_tokens run tss m)" using m by (simp add: tokens_fit_def)
  ultimately show ?thesis by (simp add: e tokens_fit_append set_tokens_other)
qed

definition side_inv :: "diff_line list \<Rightarrow> diff_line list \<Rightarrow> side_tokens \<Rightarrow> bool" where
  "side_inv all_lines run m \<longleftrightarrow>
     (\<exists>past. all_lines = past @ run \<and> tokens_fit past m
        \<and> (\<forall>k. k \<notin> line_no ` set past \<longrightarrow> m k = None))"

lemma side_push: "side_inv ls run m \<Longrightarrow> side_inv (ls @ ds) (run @ ds) m"
  by (auto simp: side_inv_def)

lemma side_flush:
  assumes "tokenizer_ok tokenize" and "side_inv ls run m" and "distinct (map line_no ls)"
    and "list_all newline_free (map line_text ls)"
  shows "side_inv ls [] (flush_side tokenize run m)"
proof -
  obtain past where p: "ls = past @ run" "tokens_fit past m" "\<forall>k. k \<notin> line_no ` set past \<longrightarrow> m k = None"
    using assms(2) by (auto simp: side_inv_def)
  have "line_no l \<notin> line_no ` set past" if "l \<in> set run" for l
    using assms(3) that by (auto simp: p(1))
  with p(3) have "\<forall>l \<in> set run. m (line_no l) = None" by blast
  from flush_side_fit [OF assms(1) assms(3) [unfolded p(1)] _ p(2) this] assms(4) p(1,3)
  show ?thesis by (auto simp: side_inv_def image_Un)
qed

lemma tokens_fold:
  assumes ok: "tokenizer_ok tokenize"
    and "side_inv os (old_run s) (old_tokens s)" "side_inv ns (new_run s) (new_tokens s)"
    and "distinct (map line_no (os @ old_side is))" "distinct (map line_no (ns @ new_side is))"
    and "list_all newline_free (map line_text (os @ old_side is))"
      "list_all newline_free (map line_text (ns @ new_side is))"
  shows "side_inv (os @ old_side is) (old_run (fold (token_item tokenize) is s))
           (old_tokens (fold (token_item tokenize) is s))
       \<and> side_inv (ns @ new_side is) (new_run (fold (token_item tokenize) is s))
           (new_tokens (fold (token_item tokenize) is s))"
  using assms(2-)
proof (induction "is" arbitrary: os ns s)
  case (Cons i "is")
  let ?s = "token_item tokenize i s"
  have "side_inv (os @ item_old i) (old_run ?s) (old_tokens ?s)"
    and "side_inv (ns @ item_new i) (new_run ?s) (new_tokens ?s)"
    using Cons.prems
    by (cases i; simp add: side_push flush_runs_def side_flush [OF ok])+
  with Cons.IH [of "os @ item_old i" ?s "ns @ item_new i"] Cons.prems(3-) show ?case by simp
qed simp

lemma tokenizeDiff_fit:
  assumes "keeps_code highlight" and "distinct (map line_no (old_side is))" "distinct (map line_no (new_side is))"
    and "list_all newline_free (map line_text (old_side is))" "list_all newline_free (map line_text (new_side is))"
  shows "tokens_fit (old_side is) (fst (tokenizeDiff highlight is language))
       \<and> tokens_fit (new_side is) (snd (tokenizeDiff highlight is language))"
proof -
  define tokenize where "tokenize = (\<lambda>ls. tokenizeLines highlight ls language)"
  define s where "s = fold (token_item tokenize) is no_tokens"
  have ok: "tokenizer_ok tokenize" unfolding tokenize_def by (rule tokenizeLines_ok [OF assms(1)])
  have "side_inv [] (old_run no_tokens) (old_tokens no_tokens)"
    and "side_inv [] (new_run no_tokens) (new_tokens no_tokens)"
    by (simp_all add: side_inv_def no_tokens_def tokens_fit_def)
  from tokens_fold [OF ok this, of "is"] assms(2-)
  have "side_inv (old_side is) (old_run s) (old_tokens s)" "side_inv (new_side is) (new_run s) (new_tokens s)"
    by (simp_all add: s_def)
  from side_flush [OF ok this(1) assms(2,4)] side_flush [OF ok this(2) assms(3,5)]
  have "tokens_fit (old_side is) (old_tokens (flush_runs tokenize s))"
    and "tokens_fit (new_side is) (new_tokens (flush_runs tokenize s))"
    by (auto simp: side_inv_def flush_runs_def)
  then show ?thesis
    by (auto simp: tokenizeDiff_def Let_def s_def tokenize_def tokens_fit_def)
qed

section \<open>The numbers and texts of a diff\<close>

lemma consec_distinct: "consec k ds \<Longrightarrow> distinct (map line_no ds)"
proof (induction ds arbitrary: k)
  case (Cons d ds)
  with consec_range [of "k + 1" ds] show ?case by fastforce
qed simp

lemma walk_item_range:
  assumes "walk forward p [i] = Some q"
  shows "fst p \<le> fst q \<and> snd p \<le> snd q
    \<and> distinct (map line_no (item_old i)) \<and> distinct (map line_no (item_new i))
    \<and> (\<forall>d \<in> set (item_old i). fst p \<le> line_no d \<and> line_no d < fst q)
    \<and> (\<forall>d \<in> set (item_new i). snd p \<le> line_no d \<and> line_no d < snd q)"
proof (cases i)
  case (Change ds as)
  with assms have c: "consec (fst p) ds" "consec (snd p) as"
    and q: "fst q = fst p + int (length ds)" "snd q = snd p + int (length as)"
    by (auto split: if_splits)
  with Change consec_distinct consec_range [OF c(1)] consec_range [OF c(2)] show ?thesis by auto
next
  case (Gap j h u d)
  with assms show ?thesis by (cases h) (auto split: if_splits)
qed (use assms in \<open>auto simp: forward_def split: if_splits\<close>)

lemma walk_distinct:
  "walk forward p is = Some q \<Longrightarrow>
   fst p \<le> fst q \<and> snd p \<le> snd q
   \<and> distinct (map line_no (old_side is)) \<and> distinct (map line_no (new_side is))
   \<and> (\<forall>d \<in> set (old_side is). fst p \<le> line_no d \<and> line_no d < fst q)
   \<and> (\<forall>d \<in> set (new_side is). snd p \<le> line_no d \<and> line_no d < snd q)"
proof (induction "is" arbitrary: p)
  case (Cons i "is")
  then obtain r where r: "walk forward p [i] = Some r" "walk forward r is = Some q"
    by (auto simp: walk_Cons [of forward p i "is"] bind_eq_Some_conv)
  from walk_item_range [OF r(1)] Cons.IH [OF r(2)] show ?case by fastforce
qed simp

lemma parsed_newline_free:
  "d \<in> set (old_side (parsePatch patch)) \<union> set (new_side (parsePatch patch)) \<Longrightarrow> newline_free (line_text d)"
proof -
  assume "d \<in> set (old_side (parsePatch patch)) \<union> set (new_side (parsePatch patch))"
  from parsed_points [OF this] obtain l where "l \<in> set (split_on (CHR 0x0A) patch)"
    and "line_text d = content l"
    unfolding points_def using nth_mem by blast
  with split_pieces [of l "CHR 0x0A" patch] show ?thesis
    by (auto simp: newline_free_def content_def dest: in_set_dropD split: if_splits)
qed

lemma line_at_newline_free:
  "(\<And>l. ls = Some l \<Longrightarrow> list_all newline_free l) \<Longrightarrow> newline_free (line_at ls k)"
  by (auto simp: line_at_def list_all_iff newline_free_def split: option.split)

lemma pushLines_texts:
  "d \<in> set (old_side (pushLines ls off k c)) \<union> set (new_side (pushLines ls off k c)) \<Longrightarrow>
   \<exists>n. line_text d = line_at ls n"
  by (auto simp: pushLines_def old_side_def new_side_def revealed_line_def)

lemma gap_item_texts:
  "d \<in> set (old_side (fst (gap_item ls rv i g))) \<union> set (new_side (fst (gap_item ls rv i g))) \<Longrightarrow>
   d \<in> set (item_old i) \<union> set (item_new i) \<or> (\<exists>n. line_text d = line_at ls n)"
  using pushLines_texts [of d ls]
  by (cases i) (auto simp: hunk_gap_def Let_def split: if_splits)

lemma gap_loop_texts:
  "d \<in> set (old_side (fst (gap_loop ls rv is g))) \<union> set (new_side (fst (gap_loop ls rv is g))) \<Longrightarrow>
   d \<in> set (old_side is) \<union> set (new_side is) \<or> (\<exists>n. line_text d = line_at ls n)"
proof (induction "is" arbitrary: g)
  case (Cons i "is")
  from Cons.prems Cons.IH [of "snd (gap_item ls rv i g)"] gap_item_texts [of d ls rv i g]
  show ?case by (auto simp: gap_loop_Cons simp del: gap_loop.simps)
qed simp

lemma withGaps_texts:
  "d \<in> set (old_side (withGaps is ls rv)) \<union> set (new_side (withGaps is ls rv)) \<Longrightarrow>
   d \<in> set (old_side is) \<union> set (new_side is) \<or> (\<exists>n. line_text d = line_at ls n)"
  using gap_loop_texts [of d ls rv "is" gap_init] pushLines_texts [of d ls]
  by (auto simp: withGaps_split gap_end_def Let_def split: option.splits if_splits)

lemma diff_items_newline_free:
  assumes "\<And>l. view_lines v = Some l \<Longrightarrow> list_all newline_free l"
    and "d \<in> set (old_side (diff_items load patch hide v)) \<union> set (new_side (diff_items load patch hide v))"
  shows "newline_free (line_text d)"
proof -
  have "d \<in> set (old_side (expanded load (parsePatch patch) v)) \<union> set (new_side (expanded load (parsePatch patch) v))"
    using assms(2) by (auto simp: diff_items_def Let_def ignore_sides split: if_splits)
  then have "d \<in> set (old_side (parsePatch patch)) \<union> set (new_side (parsePatch patch))
      \<or> (\<exists>n. line_text d = line_at (view_lines v) n)"
    using withGaps_texts [of d "parsePatch patch" "view_lines v" "view_reveals v"]
    by (auto simp: expanded_def split: option.splits)
  then show ?thesis
    using parsed_newline_free [of d patch] line_at_newline_free [OF assms(1)] by metis
qed

section \<open>Marks keep the text\<close>

fun node_str :: "code_node \<Rightarrow> string" where
  "node_str (Piece c v) = v"
| "node_str (Mark ns) = concat (map node_str ns)"

definition nodes_str :: "code_node list \<Rightarrow> string" where
  "nodes_str ns = concat (map node_str ns)"

lemma nodes_str_simps [simp]:
  "nodes_str [] = []" "nodes_str (n # ns) = node_str n @ nodes_str ns"
  "nodes_str (ns @ ms) = nodes_str ns @ nodes_str ms"
  by (simp_all add: nodes_str_def)

lemma slice_parts_str:
  "nodes_str (slice_parts start stop off ts)
     = take (stop - off - (start - off)) (drop (start - off) (line_of ts))"
proof (induction start stop off ts rule: slice_parts.induct)
  case (2 start stop off t ts)
  let ?len = "length (token_text t)"
  have "nodes_str (if max start off < min stop (off + ?len)
      then [Piece (plain_class (className t))
        (take (min stop (off + ?len) - max start off) (drop (max start off - off) (token_text t)))] else [])
    = take (stop - off - (start - off)) (drop (start - off) (token_text t))"
    by (auto simp: min_def max_def)
  moreover have "stop - (off + ?len + (start - (off + ?len)))
      = stop - (off + (start - off) + (?len - (start - off)))"
    by arith
  ultimately show ?case using 2 by (simp add: Let_def)
qed simp

lemma slice_code_str: "nodes_str (slice_code parts start stop) = take (stop - start) (drop start (line_of parts))"
  by (simp add: slice_code_def slice_parts_str)

lemma index_at_match: "index_at needle k s = Some j \<Longrightarrow> take (length needle) (drop (j - k) s) = needle"
proof (induction needle k s rule: index_at.induct)
  case (2 needle k c s)
  show ?case
  proof (cases "starts needle (c # s)")
    case True
    with 2(2) show ?thesis by (simp add: starts_def)
  next
    case False
    with 2(2) have j: "index_at needle (k + 1) s = Some j" by simp
    define m where "m = j - Suc k"
    have "j = Suc k + m" using index_at_bounds [OF j] by (simp add: m_def)
    with 2(1) [OF False j] show ?thesis by simp
  qed
qed (auto split: if_splits)

lemma index_from_match:
  assumes "index_from lower needle k = Some j" and "needle \<noteq> []"
  shows "take (length needle) (drop j lower) = needle"
  using index_at_match [of needle k "drop k lower" j] index_from_bounds [OF assms] assms(1)
  by (simp add: index_from_def)

text \<open>The marks of a node list, by their text.\<close>

fun marked :: "code_node \<Rightarrow> string list" where
  "marked (Piece c v) = []"
| "marked (Mark ns) = [nodes_str ns]"

lemma marked_slice: "n \<in> set (slice_parts start stop off ts) \<Longrightarrow> marked n = []"
  by (induction start stop off ts rule: slice_parts.induct) (auto simp: Let_def split: if_splits)

lemma mark_matches_str:
  assumes "line_of parts = txt" and "lower = toLowerCase txt" and "k \<le> length txt"
  shows "nodes_str (mark_matches parts lower needle (length txt) k) = drop k txt
    \<and> (\<forall>n \<in> set (mark_matches parts lower needle (length txt) k).
         \<forall>m \<in> set (marked n). toLowerCase m = needle)"
  using assms
proof (induction parts lower needle "length txt" k rule: mark_matches.induct)
  case (1 parts lower needle k)
  show ?case
  proof (cases "if needle = [] then None else index_from lower needle k")
    case None
    with "1.prems" marked_slice show ?thesis
      by (subst mark_matches.simps, subst (2) mark_matches.simps)
        (auto simp: slice_code_def slice_parts_str)
  next
    case (Some j)
    then have n: "needle \<noteq> []" and j: "index_from lower needle k = Some j" by (auto split: if_splits)
    note b = index_from_bounds [OF j n]
    have len: "length lower = length txt" using "1.prems"(2) by (simp add: toLowerCase_def)
    let ?l = "length needle"
    let ?rest = "mark_matches parts lower needle (length txt) (j + ?l)"
    have m: "mark_matches parts lower needle (length txt) k
        = slice_code parts k j @ Mark (slice_code parts j (j + ?l)) # ?rest"
      by (subst mark_matches.simps) (simp add: n j)
    have rest: "nodes_str ?rest = drop (j + ?l) txt"
      "\<forall>n \<in> set ?rest. \<forall>m \<in> set (marked n). toLowerCase m = needle"
      using "1.hyps" [OF Some "1.prems"(1,2)] b len by auto
    have mark: "toLowerCase (nodes_str (slice_code parts j (j + ?l))) = needle"
      using index_from_match [OF j n] "1.prems"(1,2)
      by (simp add: slice_code_str toLowerCase_def take_map drop_map)
    have "take (j - k) (drop k txt) @ take ?l (drop j txt) @ drop (j + ?l) txt = drop k txt"
    proof -
      have "take ?l (drop j txt) @ drop (j + ?l) txt = drop j txt"
        using append_take_drop_id [of ?l "drop j txt"] by (simp add: add.commute)
      moreover have "take (j - k) (drop k txt) @ drop j txt = drop k txt"
        using append_take_drop_id [of "j - k" "drop k txt"] b by simp
      ultimately show ?thesis by simp
    qed
    then have "nodes_str (mark_matches parts lower needle (length txt) k) = drop k txt"
      by (simp add: m rest(1) slice_code_str "1.prems"(1) flip: nodes_str_def)
    moreover have "\<forall>n \<in> set (mark_matches parts lower needle (length txt) k).
         \<forall>m \<in> set (marked n). toLowerCase m = needle"
      using rest(2) mark marked_slice by (auto simp: m slice_code_def)
    ultimately show ?thesis by blast
  qed
qed

lemma CodeTokens_str:
  assumes "\<And>ts. tokens = Some ts \<Longrightarrow> line_of ts = txt"
  shows "nodes_str (CodeTokens txt tokens query) = txt
    \<and> (\<forall>n \<in> set (CodeTokens txt tokens query). \<forall>m \<in> set (marked n). toLowerCase m = toLowerCase query)"
proof -
  define parts where "parts = nullish tokens [\<lparr>token_text = txt, className = None\<rparr>]"
  have parts: "line_of parts = txt" using assms by (cases tokens) (simp_all add: parts_def)
  show ?thesis
  proof (cases "query = []")
    case True
    then have "CodeTokens txt tokens query = slice_code parts 0 (length txt)"
      by (simp add: CodeTokens_def Let_def parts_def)
    with parts marked_slice show ?thesis by (auto simp: slice_code_def slice_parts_str)
  next
    case False
    then have e: "CodeTokens txt tokens query
        = mark_matches parts (toLowerCase txt) (toLowerCase query) (length txt) 0"
      by (simp add: CodeTokens_def Let_def parts_def)
    show ?thesis
      unfolding e by (rule mark_matches_str [OF parts refl le0, of "toLowerCase query", unfolded drop_0])
  qed
qed

section \<open>Properties\<close>

text \<open>
  Colouring keeps the code: a run of lines that has a grammar comes back as one token list per
  line whose texts, put together, are the line.
\<close>

theorem tokenized_lines_keep_text:
  assumes "keeps_code highlight" and "lines \<noteq> []" and "list_all newline_free lines"
    and "tokenizeLines highlight lines language = Some out"
  shows "map line_of out = lines"
  using tokenized_text [OF assms(1,2) _ assms(4)] assms(3) by (simp add: list_all_iff)

definition keyword_highlighter :: "string \<Rightarrow> string \<Rightarrow> hast_node list" where
  "keyword_highlighter lang src =
     [ElementNode (Some [''hljs'', ''kw'']) [TextNode (take 2 src)], TextNode (drop 2 src)]"

lemma keyword_highlighter_ok: "keeps_code keyword_highlighter"
  by (simp add: keeps_code_def keyword_highlighter_def)

theorem tokenized_lines_keep_text_witness:
  "map line_of [[\<lparr>token_text = ''if'', className = Some ''hljs kw''\<rparr>], [\<lparr>token_text = ''x'', className = None\<rparr>]]
     = [''if'', ''x'']"
proof (rule tokenized_lines_keep_text [OF keyword_highlighter_ok])
  show "tokenizeLines keyword_highlighter [''if'', ''x''] (Some ''bash'')
      = Some [[\<lparr>token_text = ''if'', className = Some ''hljs kw''\<rparr>], [\<lparr>token_text = ''x'', className = None\<rparr>]]"
    by (simp add: tokenizeLines_def MAX_HIGHLIGHT_CHARS_def keyword_highlighter_def add_text_def
        text_token_def)
  show "list_all newline_free [''if'', ''x'']" by code_simp
qed simp

text \<open>
  What the viewer draws of a line is the line: its colours come from its own tokens and the
  search marks cut it without losing a character, on both sides of the diff, and every mark is an
  occurrence of the searched text, upper and lower case aside.
\<close>

theorem drawn_line_is_the_line:
  assumes "keeps_code highlight" and "walk forward (1, 1) (parsePatch patch) = Some q"
    and "\<And>l. view_lines v = Some l \<Longrightarrow> list_all newline_free l"
    and "is = diff_items load patch hide v" and "tokens = tokenizeDiff highlight is language"
  shows "(\<forall>d \<in> set (old_side is). nodes_str (CodeTokens (line_text d) (fst tokens (line_no d)) query) = line_text d) \<and>
    (\<forall>d \<in> set (new_side is). nodes_str (CodeTokens (line_text d) (snd tokens (line_no d)) query) = line_text d
       \<and> (\<forall>n \<in> set (CodeTokens (line_text d) (snd tokens (line_no d)) query).
            \<forall>m \<in> set (marked n). toLowerCase m = toLowerCase query))"
proof -
  obtain r where "walk forward (1, 1) is = Some r" using diff_items_walk [OF assms(2)] assms(4) by metis
  from walk_distinct [OF this]
  have d: "distinct (map line_no (old_side is))" "distinct (map line_no (new_side is))" by blast+
  have "newline_free (line_text e)" if "e \<in> set (old_side is) \<union> set (new_side is)" for e
    using diff_items_newline_free [OF assms(3)] that assms(4) by metis
  then have "list_all newline_free (map line_text (old_side is))"
    and "list_all newline_free (map line_text (new_side is))"
    by (simp_all add: list_all_iff)
  from tokenizeDiff_fit [OF assms(1) d this, of language]
  have "\<And>ts. e \<in> set (old_side is) \<Longrightarrow> fst tokens (line_no e) = Some ts \<Longrightarrow> line_of ts = line_text e"
    and "\<And>ts. e \<in> set (new_side is) \<Longrightarrow> snd tokens (line_no e) = Some ts \<Longrightarrow> line_of ts = line_text e" for e
    by (simp_all add: assms(5) tokens_fit_def)
  note drawn = CodeTokens_str [OF this(1)] CodeTokens_str [OF this(2)]
  show ?thesis
  proof (intro conjI ballI)
    fix e n m assume "e \<in> set (new_side is)"
      and n: "n \<in> set (CodeTokens (line_text e) (snd tokens (line_no e)) query)" and m: "m \<in> set (marked n)"
    from drawn(2) [OF this(1)] n m show "toLowerCase m = toLowerCase query" by blast
  qed (use drawn in blast)+
qed

theorem drawn_line_is_the_line_witness:
  "\<forall>d \<in> set (old_side (diff_items None sample_patch False view_init)).
     nodes_str (CodeTokens (line_text d)
       (fst (tokenizeDiff keyword_highlighter (diff_items None sample_patch False view_init) (Some ''bash''))
          (line_no d)) ''L'') = line_text d"
proof -
  have "walk forward (1, 1) (parsePatch sample_patch) = Some (8, 8)" by code_simp
  from drawn_line_is_the_line [OF keyword_highlighter_ok this _ refl refl, of view_init None False
      "Some ''bash''" "''L''"]
  show ?thesis by (simp add: view_init_def)
qed

end
