(* ===== verification/Diff_State.thy ===== *)
theory Diff_State
  imports Web_Crypto Diff_Gaps
begin

text \<open>
  The data behind the commit list: \<open>github/commitDiffData.ts\<close>. The hook's state holds sets and
  records keyed by commit; a JavaScript \<open>Set\<close> is the list of its elements in insertion order.
  A request has two steps, its start and its answer; between them any other step may happen. The
  answer of the GitHub proxy is an argument.
\<close>

section \<open>Answers of the proxy\<close>

record http_response =
  response_ok :: bool
  response_status :: nat
  response_body :: string

definition no_access :: string where
  "no_access = ''You don't have access to this repository.''"

definition unexpected :: string where
  "unexpected = ''GitHub returned an unexpected response.''"

text \<open>\<open>null\<close>, numbers, strings and booleans are refused; \<open>typeof\<close> an array is \<open>"object"\<close>.\<close>

fun object_or_array :: "json \<Rightarrow> bool" where
  "object_or_array (JArr vs) \<longleftrightarrow> True"
| "object_or_array (JObj fs) \<longleftrightarrow> True"
| "object_or_array _ \<longleftrightarrow> False"

definition githubJson :: "http_response result \<Rightarrow> json result" where
  "githubJson answer =
     bind_result answer (\<lambda>r.
       if \<not> response_ok r then
         (if response_status r = 403 then Throw (Error no_access)
          else Throw (Error (''GitHub request failed ('' @ nat_str (response_status r) @ '')'')))
       else bind_result (json_parse (response_body r)) (\<lambda>data.
         if object_or_array data then Ok data else Throw (Error unexpected)))"

definition canExpandFile :: "string \<Rightarrow> bool" where
  "canExpandFile status \<longleftrightarrow> status \<noteq> ''added'' \<and> status \<noteq> ''removed''"

definition drop_spaces :: "string \<Rightarrow> string" where
  "drop_spaces s = filter (\<lambda>c. \<not> js_space c) s"

definition drop_last_empty :: "string list \<Rightarrow> string list" where
  "drop_last_empty ls = (if ls \<noteq> [] \<and> last ls = [] then butlast ls else ls)"

definition decodeFileLines ::
  "('aes, 'pub, 'priv) webcrypto \<Rightarrow> string option \<Rightarrow> string option \<Rightarrow> string list result" where
  "decodeFileLines wc body encoding =
     (case body of
        None \<Rightarrow> Throw (Error ''This file is too large to expand.'')
      | Some c \<Rightarrow>
          if encoding \<noteq> Some ''base64'' then Throw (Error ''This file is too large to expand.'')
          else bind_result (subtle (atob wc (drop_spaces c))) (\<lambda>bs.
            Ok (drop_last_empty (split_on (CHR 0x0A) (utf8_decode wc bs)))))"

section \<open>The hook's state\<close>

definition set_add :: "'a \<Rightarrow> 'a list \<Rightarrow> 'a list" where
  "set_add x xs = (if x \<in> set xs then xs else xs @ [x])"

definition set_delete :: "'a \<Rightarrow> 'a list \<Rightarrow> 'a list" where
  "set_delete x xs = filter (\<lambda>y. y \<noteq> x) xs"

lemma set_add_set [simp]: "set (set_add x xs) = insert x (set xs)"
  by (auto simp: set_add_def)

lemma set_delete_set [simp]: "set (set_delete x xs) = set xs - {x}"
  by (auto simp: set_delete_def)

record 'd commit_diffs =
  expandedShas :: "string list"
  detailBySha :: "string \<Rightarrow> 'd option"
  loadingShas :: "string list"
  errorBySha :: "string \<Rightarrow> string option"
  fullDiffBySha :: "string \<Rightarrow> string option"
  loadingFullDiffShas :: "string list"
  errorFullDiffBySha :: "string \<Rightarrow> string option"
  collapsedFiles :: "string list"
  pending_shas :: "string list" \<comment> \<open>the requests of \<open>loadCommitDetail\<close> in flight\<close>

definition useCommitDiffs :: "string list \<Rightarrow> string list \<Rightarrow> 'd commit_diffs" where
  "useCommitDiffs initialExpanded initialCollapsed =
     \<lparr>expandedShas = remdups initialExpanded, detailBySha = (\<lambda>_. None), loadingShas = [],
      errorBySha = (\<lambda>_. None), fullDiffBySha = (\<lambda>_. None), loadingFullDiffShas = [],
      errorFullDiffBySha = (\<lambda>_. None), collapsedFiles = remdups initialCollapsed,
      pending_shas = []\<rparr>"

definition toggleFile :: "string \<Rightarrow> 'd commit_diffs \<Rightarrow> 'd commit_diffs" where
  "toggleFile key s =
     s \<lparr>collapsedFiles :=
          (if key \<in> set (collapsedFiles s) then set_delete key (collapsedFiles s)
           else set_add key (collapsedFiles s))\<rparr>"

definition collapseFiles :: "string list \<Rightarrow> 'd commit_diffs \<Rightarrow> 'd commit_diffs" where
  "collapseFiles keys s = s \<lparr>collapsedFiles := fold set_add keys (collapsedFiles s)\<rparr>"

text \<open>\<open>loadCommitDetail\<close> up to its request, and its answer.\<close>

definition begin_detail :: "string \<Rightarrow> bool \<Rightarrow> 'd commit_diffs \<Rightarrow> 'd commit_diffs" where
  "begin_detail sha force s =
     (if \<not> force \<and> detailBySha s sha \<noteq> None then s
      else s \<lparr>loadingShas := set_add sha (loadingShas s), errorBySha := (errorBySha s)(sha := None),
              pending_shas := pending_shas s @ [sha]\<rparr>)"

definition error_text :: "string \<Rightarrow> js_error \<Rightarrow> string" where
  "error_text fallback err = (case err of Error m \<Rightarrow> m | _ \<Rightarrow> fallback)"

definition finish_detail :: "string \<Rightarrow> 'd result \<Rightarrow> 'd commit_diffs \<Rightarrow> 'd commit_diffs" where
  "finish_detail sha answer s =
     (let t = (case answer of
                 Ok data \<Rightarrow> s \<lparr>detailBySha := (detailBySha s)(sha \<mapsto> data)\<rparr>
               | Throw err \<Rightarrow>
                   s \<lparr>errorBySha := (errorBySha s)(sha \<mapsto> error_text ''Could not load commit diff'' err)\<rparr>)
      in t \<lparr>loadingShas := set_delete sha (loadingShas t), pending_shas := remove1 sha (pending_shas t)\<rparr>)"

text \<open>
  \<open>toggle\<close>: the load starts if the state updater has already run when \<open>opened\<close> is read, which
  React does not promise (\<open>eager\<close>); otherwise the effect below starts it.
\<close>

definition toggle :: "bool \<Rightarrow> string \<Rightarrow> 'd commit_diffs \<Rightarrow> 'd commit_diffs" where
  "toggle eager sha s =
     (if sha \<in> set (expandedShas s) then s \<lparr>expandedShas := set_delete sha (expandedShas s)\<rparr>
      else (let t = s \<lparr>expandedShas := set_add sha (expandedShas s)\<rparr>
            in if eager then begin_detail sha False t else t))"

definition reload :: "string \<Rightarrow> 'd commit_diffs \<Rightarrow> 'd commit_diffs" where
  "reload sha s = begin_detail sha True s"

definition truthy_text :: "string option \<Rightarrow> bool" where
  "truthy_text e \<longleftrightarrow> e \<noteq> None \<and> e \<noteq> Some []"

definition lost :: "'d commit_diffs \<Rightarrow> string \<Rightarrow> bool" where
  "lost s sha \<longleftrightarrow>
     detailBySha s sha = None \<and> \<not> truthy_text (errorBySha s sha) \<and> sha \<notin> set (loadingShas s)"

text \<open>The self-heal effect reads the state of its render and starts a load for each lost commit.\<close>

definition self_heal :: "'d commit_diffs \<Rightarrow> 'd commit_diffs" where
  "self_heal s = fold (\<lambda>sha. begin_detail sha False) (filter (lost s) (expandedShas s)) s"

text \<open>\<open>loadFullDiff\<close>; \<open>ellipsis\<close> stands for the text's U+2026, which is outside Latin-1.\<close>

definition FULL_DIFF_CAP :: nat where
  "FULL_DIFF_CAP = 2000000"

definition ellipsis :: string where
  "ellipsis = ''...''"

definition truncation_note :: string where
  "truncation_note =
     [CHR 0x0A, CHR 0x0A] @ ellipsis @ ''diff truncated; open on GitHub for the full patch''"

definition capped_diff :: "string \<Rightarrow> string" where
  "capped_diff t = (if FULL_DIFF_CAP < length t then take FULL_DIFF_CAP t @ truncation_note else t)"

definition fetch_full :: "http_response result \<Rightarrow> string result" where
  "fetch_full answer =
     bind_result answer (\<lambda>r.
       if \<not> response_ok r
       then Throw (Error (''GitHub diff failed ('' @ nat_str (response_status r) @ '')''))
       else Ok (capped_diff (response_body r)))"

definition begin_full :: "string \<Rightarrow> 'd commit_diffs \<Rightarrow> 'd commit_diffs" where
  "begin_full sha s =
     (if truthy_text (fullDiffBySha s sha) then s
      else s \<lparr>loadingFullDiffShas := set_add sha (loadingFullDiffShas s),
              errorFullDiffBySha := (errorFullDiffBySha s)(sha := None)\<rparr>)"

definition finish_full :: "string \<Rightarrow> http_response result \<Rightarrow> 'd commit_diffs \<Rightarrow> 'd commit_diffs" where
  "finish_full sha answer s =
     (let t = (case fetch_full answer of
                 Ok txt \<Rightarrow> s \<lparr>fullDiffBySha := (fullDiffBySha s)(sha \<mapsto> txt)\<rparr>
               | Throw err \<Rightarrow>
                   s \<lparr>errorFullDiffBySha :=
                        (errorFullDiffBySha s)(sha \<mapsto> error_text ''Could not load full diff'' err)\<rparr>)
      in t \<lparr>loadingFullDiffShas := set_delete sha (loadingFullDiffShas t)\<rparr>)"

section \<open>The lines of a file\<close>

text \<open>
  The cache of \<open>loadFileLines\<close> maps a key to the promise of its request; promises are numbered
  in the order the requests start.
\<close>

record file_cache =
  fileLines :: "string \<Rightarrow> nat option"
  next_request :: nat

definition file_key :: "string \<Rightarrow> string \<Rightarrow> string \<Rightarrow> string" where
  "file_key base ref path = base @ ''@'' @ ref @ ''::'' @ path"

definition loadFileLines :: "string \<Rightarrow> string \<Rightarrow> string \<Rightarrow> file_cache \<Rightarrow> nat \<times> file_cache" where
  "loadFileLines base ref path c =
     (let key = file_key base ref path in
      case fileLines c key of
        Some r \<Rightarrow> (r, c)
      | None \<Rightarrow>
          (next_request c,
           \<lparr>fileLines = (fileLines c)(key \<mapsto> next_request c), next_request = next_request c + 1\<rparr>))"

text \<open>\<open>request.catch(() => fileLines.delete(key))\<close>.\<close>

definition lines_failed :: "string \<Rightarrow> file_cache \<Rightarrow> file_cache" where
  "lines_failed key c = c \<lparr>fileLines := (fileLines c)(key := None)\<rparr>"

section \<open>What a commit's panel shows\<close>

datatype panel = Loading | Failed string | Refreshable | Loaded

text \<open>The branches of \<open>CommitDiffBody\<close>.\<close>

definition panel_of :: "'d commit_diffs \<Rightarrow> string \<Rightarrow> panel" where
  "panel_of s sha =
     (if sha \<in> set (loadingShas s) then Loading
      else if truthy_text (errorBySha s sha) then Failed (the (errorBySha s sha))
      else if detailBySha s sha = None then Refreshable else Loaded)"

text \<open>
  The steps of the hook: a click on a commit, on the refresh button that only a refreshable panel
  has, the effect after a render, and the answer to a request.
\<close>

inductive hook_step :: "'d commit_diffs \<Rightarrow> 'd commit_diffs \<Rightarrow> bool" where
  click: "hook_step s (toggle eager sha s)"
| refresh: "panel_of s sha = Refreshable \<Longrightarrow> hook_step s (reload sha s)"
| effect: "hook_step s (self_heal s)"
| answer: "sha \<in> set (pending_shas s) \<Longrightarrow> hook_step s (finish_detail sha r s)"

inductive_cases hook_stepE: "hook_step s t"

lemma lost_panel: "lost s sha \<longleftrightarrow> panel_of s sha = Refreshable"
  by (simp add: lost_def panel_of_def)

text \<open>Loading implies a request in flight.\<close>

definition spinner_inv :: "'d commit_diffs \<Rightarrow> bool" where
  "spinner_inv s \<longleftrightarrow> set (loadingShas s) \<subseteq> set (pending_shas s)"

lemma begin_detail_spinner: "spinner_inv s \<Longrightarrow> spinner_inv (begin_detail sha force s)"
  by (auto simp: spinner_inv_def begin_detail_def)

lemma fold_begin_spinner: "spinner_inv s \<Longrightarrow> spinner_inv (fold (\<lambda>x. begin_detail x False) xs s)"
  by (induction xs arbitrary: s) (simp_all add: begin_detail_spinner)

lemma hook_step_spinner: "hook_step s t \<Longrightarrow> spinner_inv s \<Longrightarrow> spinner_inv t"
proof (induction rule: hook_step.induct)
  case (click s eager sha)
  then have "spinner_inv (s \<lparr>expandedShas := xs\<rparr>)" for xs by (simp add: spinner_inv_def)
  then show ?case by (auto simp: toggle_def Let_def begin_detail_spinner)
next
  case (answer sha s r)
  have "set (loadingShas s) - {sha} \<subseteq> set (remove1 sha (pending_shas s))"
  proof (rule subsetI)
    fix x assume "x \<in> set (loadingShas s) - {sha}"
    with answer show "x \<in> set (remove1 sha (pending_shas s))" by (auto simp: spinner_inv_def)
  qed
  then show ?case by (cases r) (simp_all add: finish_detail_def spinner_inv_def)
qed (simp_all add: reload_def begin_detail_spinner self_heal_def fold_begin_spinner)

lemma begin_detail_not_lost:
  "\<not> lost s x \<Longrightarrow> \<not> lost (begin_detail y False s) x"
  "\<not> lost (begin_detail x False s) x"
  by (auto simp: lost_def begin_detail_def)

lemma fold_begin_not_lost: "\<not> lost s x \<or> x \<in> set xs \<Longrightarrow> \<not> lost (fold (\<lambda>y. begin_detail y False) xs s) x"
  by (induction xs arbitrary: s) (auto simp: begin_detail_not_lost)

lemma fold_begin_expanded: "expandedShas (fold (\<lambda>y. begin_detail y False) xs s) = expandedShas s"
  by (induction xs arbitrary: s) (simp_all add: begin_detail_def)

text \<open>No commit is requested twice at a time.\<close>

definition single_inv :: "'d commit_diffs \<Rightarrow> bool" where
  "single_inv s \<longleftrightarrow> set (loadingShas s) = set (pending_shas s) \<and> distinct (pending_shas s)
     \<and> (\<forall>sha \<in> set (pending_shas s). detailBySha s sha = None \<and> errorBySha s sha = None)
     \<and> (\<forall>sha. detailBySha s sha \<noteq> None \<longrightarrow> errorBySha s sha = None)"

definition one_at_a_time :: "'d commit_diffs \<Rightarrow> 'd commit_diffs \<Rightarrow> bool" where
  "one_at_a_time s t \<longleftrightarrow> hook_step s t \<and> distinct (pending_shas t)"

text \<open>
  The panels on their own: a request turns panels without a diff to loading, an answer settles a
  loading one.
\<close>

definition failed_panel :: "string \<Rightarrow> panel" where
  "failed_panel m = (if m = [] then Refreshable else Failed m)"

inductive panel_step :: "(string \<Rightarrow> panel) \<Rightarrow> (string \<Rightarrow> panel) \<Rightarrow> bool" where
  idle: "panel_step p p"
| request: "\<forall>x \<in> X. p x \<noteq> Loaded \<Longrightarrow> panel_step p (\<lambda>x. if x \<in> X then Loading else p x)"
| load: "p x = Loading \<Longrightarrow> panel_step p (p(x := Loaded))"
| fail: "p x = Loading \<Longrightarrow> panel_step p (p(x := failed_panel m))"

lemma begin_detail_panel:
  "panel_of (begin_detail sha force s) x =
     (if x = sha \<and> (force \<or> detailBySha s sha = None) then Loading else panel_of s x)"
  by (auto simp: panel_of_def begin_detail_def)

lemma begin_detail_fields [simp]:
  "detailBySha (begin_detail sha force s) = detailBySha s"
  by (simp add: begin_detail_def)

lemma fold_begin_panel:
  "panel_of (fold (\<lambda>y. begin_detail y False) xs s) x =
     (if x \<in> set xs \<and> detailBySha s x = None then Loading else panel_of s x)"
  by (induction xs arbitrary: s) (auto simp: begin_detail_panel)

lemma panel_requests:
  assumes "panel_of t = (\<lambda>x. if x \<in> X then Loading else panel_of s x)" and "\<forall>x \<in> X. panel_of s x \<noteq> Loaded"
  shows "panel_step (panel_of s) (panel_of t)"
  unfolding assms(1) using assms(2) by (rule request)

lemma begin_detail_step:
  assumes "force \<longrightarrow> detailBySha s sha = None"
  shows "panel_step (panel_of s) (panel_of (begin_detail sha force s))"
proof (rule panel_requests)
  let ?X = "{x. x = sha \<and> detailBySha s x = None}"
  show "panel_of (begin_detail sha force s) = (\<lambda>x. if x \<in> ?X then Loading else panel_of s x)"
    using assms by (auto simp: begin_detail_panel fun_eq_iff)
qed (auto simp: panel_of_def)

lemma self_heal_step: "panel_step (panel_of s) (panel_of (self_heal s))"
proof (rule panel_requests)
  let ?X = "{x \<in> set (expandedShas s). lost s x}"
  show "panel_of (self_heal s) = (\<lambda>x. if x \<in> ?X then Loading else panel_of s x)"
    by (auto simp: self_heal_def fold_begin_panel lost_def fun_eq_iff)
qed (auto simp: lost_panel)

lemma panel_expanded [simp]: "panel_of (s \<lparr>expandedShas := xs\<rparr>) = panel_of s"
  by (simp add: panel_of_def fun_eq_iff)

lemma toggle_step: "panel_step (panel_of s) (panel_of (toggle eager sha s))"
  using begin_detail_step [of False "s \<lparr>expandedShas := set_add sha (expandedShas s)\<rparr>" sha]
  by (simp add: toggle_def Let_def idle)

lemma finish_detail_step:
  assumes "single_inv s" and "sha \<in> set (pending_shas s)"
  shows "panel_step (panel_of s) (panel_of (finish_detail sha r s))"
proof -
  have l: "panel_of s sha = Loading" and e: "errorBySha s sha = None"
    using assms by (auto simp: single_inv_def panel_of_def)
  show ?thesis
  proof (cases r)
    case (Inl err)
    have "panel_of (finish_detail sha r s)
        = (panel_of s)(sha := failed_panel (error_text ''Could not load commit diff'' err))"
      using assms by (auto simp: Inl finish_detail_def panel_of_def single_inv_def failed_panel_def
          truthy_text_def fun_eq_iff)
    with fail [of "panel_of s" sha, OF l] show ?thesis by simp
  next
    case (Inr d)
    have "panel_of (finish_detail sha r s) = (panel_of s)(sha := Loaded)"
      using e by (auto simp: Inr finish_detail_def panel_of_def truthy_text_def fun_eq_iff)
    with load [of "panel_of s" sha, OF l] show ?thesis by simp
  qed
qed

lemma refines_step: "hook_step s t \<Longrightarrow> single_inv s \<Longrightarrow> panel_step (panel_of s) (panel_of t)"
proof (induction rule: hook_step.induct)
  case (click s eager sha)
  show ?case by (rule toggle_step)
next
  case (refresh s sha)
  then have "detailBySha s sha = None" by (auto simp: panel_of_def split: if_splits)
  then show ?case unfolding reload_def by (intro begin_detail_step) simp
next
  case (effect s)
  show ?case by (rule self_heal_step)
next
  case (answer sha s r)
  then show ?case by (intro finish_detail_step)
qed

lemma begin_detail_single:
  assumes "single_inv s" and "force \<longrightarrow> detailBySha s sha = None"
    and "distinct (pending_shas (begin_detail sha force s))"
  shows "single_inv (begin_detail sha force s)"
proof (cases "detailBySha s sha = None")
  case False
  with assms show ?thesis by (simp add: begin_detail_def)
next
  case True
  with assms show ?thesis by (auto simp: begin_detail_def single_inv_def)
qed

lemma pending_fold: "\<exists>ys. pending_shas (fold (\<lambda>y. begin_detail y False) xs s) = pending_shas s @ ys"
proof (induction xs arbitrary: s)
  case (Cons x xs)
  from Cons [of "begin_detail x False s"] show ?case by (auto simp: begin_detail_def)
qed simp

lemma fold_begin_single:
  "single_inv s \<Longrightarrow> distinct (pending_shas (fold (\<lambda>y. begin_detail y False) xs s)) \<Longrightarrow>
   single_inv (fold (\<lambda>y. begin_detail y False) xs s)"
proof (induction xs arbitrary: s)
  case (Cons x xs)
  obtain ys where "pending_shas (fold (\<lambda>y. begin_detail y False) xs (begin_detail x False s))
      = pending_shas (begin_detail x False s) @ ys"
    using pending_fold by blast
  with Cons.prems(2) have "distinct (pending_shas (begin_detail x False s))" by simp
  from begin_detail_single [OF Cons.prems(1) _ this] have "single_inv (begin_detail x False s)" by simp
  from Cons.IH [OF this] Cons.prems(2) show ?case by simp
qed simp

lemma single_expanded [simp]: "single_inv (s \<lparr>expandedShas := xs\<rparr>) = single_inv s"
  by (simp add: single_inv_def)

lemma finish_detail_single:
  assumes "single_inv s" and "sha \<in> set (pending_shas s)"
  shows "single_inv (finish_detail sha r s)"
  using assms by (cases r) (auto simp: single_inv_def finish_detail_def Let_def)

lemma single_step: "hook_step s t \<Longrightarrow> distinct (pending_shas t) \<Longrightarrow> single_inv s \<Longrightarrow> single_inv t"
proof (induction rule: hook_step.induct)
  case (click s eager sha)
  then show ?case by (auto simp: toggle_def Let_def intro!: begin_detail_single)
next
  case (refresh s sha)
  then have "detailBySha s sha = None" by (auto simp: panel_of_def split: if_splits)
  with refresh show ?case unfolding reload_def by (intro begin_detail_single) simp_all
next
  case (effect s)
  then show ?case unfolding self_heal_def by (intro fold_begin_single)
next
  case (answer sha s r)
  then show ?case by (intro finish_detail_single)
qed

lemma init_single: "single_inv (useCommitDiffs xs ys)"
  by (simp add: single_inv_def useCommitDiffs_def)

lemma reach_single:
  "one_at_a_time\<^sup>*\<^sup>* s t \<Longrightarrow> single_inv s \<Longrightarrow> single_inv t"
  by (induction rule: rtranclp_induct) (auto simp: one_at_a_time_def intro: single_step)

lemma reach_spinner: "hook_step\<^sup>*\<^sup>* s t \<Longrightarrow> spinner_inv s \<Longrightarrow> spinner_inv t"
  by (induction rule: rtranclp_induct) (auto intro: hook_step_spinner)

text \<open>A commit that shows loading has neither a diff nor an error, however often it was requested.\<close>

definition loading_inv :: "'d commit_diffs \<Rightarrow> bool" where
  "loading_inv s \<longleftrightarrow> (\<forall>sha \<in> set (loadingShas s). detailBySha s sha = None \<and> errorBySha s sha = None)"

lemma begin_detail_loading:
  "loading_inv s \<Longrightarrow> force \<longrightarrow> detailBySha s sha = None \<Longrightarrow> loading_inv (begin_detail sha force s)"
  by (auto simp: loading_inv_def begin_detail_def)

lemma fold_begin_loading: "loading_inv s \<Longrightarrow> loading_inv (fold (\<lambda>y. begin_detail y False) xs s)"
  by (induction xs arbitrary: s) (simp_all add: begin_detail_loading)

lemma loading_expanded [simp]: "loading_inv (s \<lparr>expandedShas := xs\<rparr>) = loading_inv s"
  by (simp add: loading_inv_def)

lemma loading_step: "hook_step s t \<Longrightarrow> loading_inv s \<Longrightarrow> loading_inv t"
proof (induction rule: hook_step.induct)
  case (refresh s sha)
  then have "detailBySha s sha = None" by (auto simp: panel_of_def split: if_splits)
  with refresh show ?case by (simp add: reload_def begin_detail_loading)
next
  case (answer sha s r)
  then show ?case by (cases r) (auto simp: loading_inv_def finish_detail_def)
qed (simp_all add: toggle_def Let_def begin_detail_loading self_heal_def fold_begin_loading)

lemma reach_loading: "hook_step\<^sup>*\<^sup>* s t \<Longrightarrow> loading_inv s \<Longrightarrow> loading_inv t"
  by (induction rule: rtranclp_induct) (auto intro: loading_step)

lemma finish_detail_other: "x \<noteq> sha \<Longrightarrow> panel_of (finish_detail sha r s) x = panel_of s x"
  by (cases r) (simp_all add: finish_detail_def panel_of_def)

lemma finish_detail_loading:
  assumes "loading_inv s" and "panel_of s sha = Loading"
  shows "panel_step (panel_of s) (panel_of (finish_detail sha r s))"
proof -
  have n: "detailBySha s sha = None" "errorBySha s sha = None"
    using assms by (auto simp: loading_inv_def panel_of_def split: if_splits)
  have u: "panel_of (finish_detail sha r s) = (panel_of s)(sha := panel_of (finish_detail sha r s) sha)"
    by (simp add: fun_eq_iff finish_detail_other)
  show ?thesis
  proof (cases r)
    case (Inl err)
    have "panel_of (finish_detail sha r s) sha = failed_panel (error_text ''Could not load commit diff'' err)"
      using n by (simp add: Inl finish_detail_def panel_of_def failed_panel_def truthy_text_def)
    then show ?thesis using u fail [of "panel_of s" sha, OF assms(2)] by metis
  next
    case (Inr d)
    have "panel_of (finish_detail sha r s) sha = Loaded"
      using n by (simp add: Inr finish_detail_def panel_of_def truthy_text_def)
    then show ?thesis using u load [of "panel_of s" sha, OF assms(2)] by metis
  qed
qed

lemma any_step:
  "hook_step s t \<Longrightarrow> loading_inv s \<Longrightarrow> panel_step (panel_of s) (panel_of t)
     \<or> (\<exists>sha r. t = finish_detail sha r s \<and> sha \<in> set (pending_shas s) \<and> panel_of s sha \<noteq> Loading
          \<and> (\<forall>x. x \<noteq> sha \<longrightarrow> panel_of t x = panel_of s x))"
proof (induction rule: hook_step.induct)
  case (click s eager sha)
  then show ?case using toggle_step by blast
next
  case (refresh s sha)
  then have "detailBySha s sha = None" by (auto simp: panel_of_def split: if_splits)
  then show ?case unfolding reload_def using begin_detail_step by blast
next
  case (effect s)
  then show ?case using self_heal_step by blast
next
  case (answer sha s r)
  then show ?case using finish_detail_loading finish_detail_other by blast
qed

text \<open>A commit with a diff, an error and no request keeps all three.\<close>

definition stuck :: "string \<Rightarrow> string \<Rightarrow> 'd commit_diffs \<Rightarrow> bool" where
  "stuck sha m s \<longleftrightarrow> detailBySha s sha \<noteq> None \<and> errorBySha s sha = Some m \<and> m \<noteq> []
     \<and> sha \<notin> set (loadingShas s) \<and> sha \<notin> set (pending_shas s)"

lemma stuck_panel: "stuck sha m s \<Longrightarrow> panel_of s sha = Failed m"
  by (simp add: stuck_def panel_of_def truthy_text_def)

lemma begin_detail_stuck:
  "stuck sha m s \<Longrightarrow> x \<noteq> sha \<or> \<not> force \<Longrightarrow> stuck sha m (begin_detail x force s)"
  by (auto simp: stuck_def begin_detail_def)

lemma fold_begin_stuck: "stuck sha m s \<Longrightarrow> stuck sha m (fold (\<lambda>y. begin_detail y False) xs s)"
  by (induction xs arbitrary: s) (simp_all add: begin_detail_stuck)

lemma stuck_expanded [simp]: "stuck sha m (s \<lparr>expandedShas := xs\<rparr>) = stuck sha m s"
  by (simp add: stuck_def)

lemma stuck_step: "hook_step s t \<Longrightarrow> stuck sha m s \<Longrightarrow> stuck sha m t"
proof (induction rule: hook_step.induct)
  case (refresh s x)
  then have "x \<noteq> sha" using stuck_panel [of sha m s] by auto
  with refresh show ?case by (simp add: reload_def begin_detail_stuck)
next
  case (answer x s r)
  then have "x \<noteq> sha" by (auto simp: stuck_def)
  with answer show ?case
    by (cases r) (auto simp: finish_detail_def stuck_def dest: notin_set_remove1)
qed (auto simp: toggle_def Let_def begin_detail_stuck self_heal_def fold_begin_stuck)

section \<open>Properties\<close>

text \<open>
  C14: Seen from its panels, the hook is a machine of independent panels: a step is idle, turns
  panels that show no diff to loading, or settles one loading panel to its diff or its error. The
  one exception is the answer of a request whose panel another request for the same commit has
  settled already, and it changes that panel only; where no commit is requested twice at a time,
  there is none.
\<close>

theorem panels_follow_machine:
  assumes "hook_step\<^sup>*\<^sup>* (useCommitDiffs xs ys) s" and "hook_step s t"
  shows "(panel_step (panel_of s) (panel_of t)
      \<or> (\<exists>sha r. t = finish_detail sha r s \<and> sha \<in> set (pending_shas s) \<and> panel_of s sha \<noteq> Loading
          \<and> (\<forall>x. x \<noteq> sha \<longrightarrow> panel_of t x = panel_of s x)))
    \<and> (one_at_a_time\<^sup>*\<^sup>* (useCommitDiffs xs ys) s \<longrightarrow> panel_step (panel_of s) (panel_of t))"
proof (intro conjI impI)
  have "loading_inv (useCommitDiffs xs ys)" by (simp add: loading_inv_def useCommitDiffs_def)
  then have "loading_inv s" by (rule reach_loading [OF assms(1)])
  with assms(2) show "panel_step (panel_of s) (panel_of t)
      \<or> (\<exists>sha r. t = finish_detail sha r s \<and> sha \<in> set (pending_shas s) \<and> panel_of s sha \<noteq> Loading
          \<and> (\<forall>x. x \<noteq> sha \<longrightarrow> panel_of t x = panel_of s x))"
    by (rule any_step)
  assume "one_at_a_time\<^sup>*\<^sup>* (useCommitDiffs xs ys) s"
  from refines_step [OF assms(2) reach_single [OF this init_single]]
  show "panel_step (panel_of s) (panel_of t)" .
qed

text \<open>Opened, closed and opened again: the first answer brings the diff, the second an error.\<close>

definition opened_twice :: "json commit_diffs" where
  "opened_twice = toggle True ''c1'' (toggle True ''c1'' (toggle True ''c1'' (useCommitDiffs [] [])))"

lemma opened_twice_reached: "hook_step\<^sup>*\<^sup>* (useCommitDiffs [] []) (finish_detail ''c1'' (Ok JNull) opened_twice)"
proof -
  have "hook_step\<^sup>*\<^sup>* (useCommitDiffs [] []) opened_twice"
    unfolding opened_twice_def by (meson click rtranclp.rtrancl_into_rtrancl rtranclp.rtrancl_refl)
  moreover have "''c1'' \<in> set (pending_shas opened_twice)"
    by (simp add: opened_twice_def toggle_def begin_detail_def useCommitDiffs_def Let_def set_add_def set_delete_def)
  ultimately show ?thesis by (meson answer rtranclp.rtrancl_into_rtrancl)
qed

theorem panels_follow_machine_witness:
  "panel_of (finish_detail ''c1'' (Throw (Error ''offline'')) (finish_detail ''c1'' (Ok JNull) opened_twice)) ''c2''
     = panel_of (finish_detail ''c1'' (Ok JNull) opened_twice) ''c2''
   \<and> panel_of (finish_detail ''c1'' (Ok JNull) opened_twice) ''c1'' = Loaded
   \<and> panel_of (finish_detail ''c1'' (Throw (Error ''offline'')) (finish_detail ''c1'' (Ok JNull) opened_twice)) ''c1''
     = Failed ''offline''"
proof -
  let ?s = "finish_detail ''c1'' (Ok JNull) opened_twice"
  let ?t = "finish_detail ''c1'' (Throw (Error ''offline'')) ?s"
  note d = opened_twice_def toggle_def begin_detail_def useCommitDiffs_def Let_def set_add_def set_delete_def
    finish_detail_def panel_of_def truthy_text_def error_text_def
  have p: "panel_of ?s ''c1'' = Loaded" "panel_of ?t ''c1'' = Failed ''offline''" by (simp_all add: d)
  then have "\<not> panel_step (panel_of ?s) (panel_of ?t)"
    by (auto simp: fun_eq_iff elim!: panel_step.cases split: if_splits)
  moreover have "hook_step ?s ?t"
    by (rule answer) (simp add: d)
  moreover have "pending_shas ?s = [''c1'']" by (simp add: d)
  ultimately show ?thesis using panels_follow_machine [OF opened_twice_reached, of ?t] p by auto
qed

text \<open>
  No panel waits for nothing: in every reachable state a panel that shows loading has a request
  in flight, and after the effect no open commit is left without a diff, an error or a request.
\<close>

theorem no_panel_is_abandoned:
  assumes "hook_step\<^sup>*\<^sup>* (useCommitDiffs xs ys) s"
  shows "(\<forall>sha. panel_of s sha = Loading \<longrightarrow> sha \<in> set (pending_shas s)) \<and>
    (\<forall>sha \<in> set (expandedShas (self_heal s)). panel_of (self_heal s) sha \<noteq> Refreshable)"
proof -
  have "spinner_inv (useCommitDiffs xs ys :: 'a commit_diffs)"
    by (simp add: spinner_inv_def useCommitDiffs_def)
  from reach_spinner [OF assms this] have "spinner_inv s" .
  then have "\<forall>sha. panel_of s sha = Loading \<longrightarrow> sha \<in> set (pending_shas s)"
    by (auto simp: spinner_inv_def panel_of_def split: if_splits)
  moreover have "\<not> lost (self_heal s) sha" if "sha \<in> set (expandedShas (self_heal s))" for sha
  proof -
    have "sha \<in> set (expandedShas s)" using that by (simp add: self_heal_def fold_begin_expanded)
    then have "\<not> lost s sha \<or> sha \<in> set (filter (lost s) (expandedShas s))" by simp
    then show ?thesis unfolding self_heal_def by (rule fold_begin_not_lost)
  qed
  ultimately show ?thesis by (simp add: lost_panel)
qed

theorem no_panel_is_abandoned_witness:
  "panel_of (self_heal (useCommitDiffs [''c1''] [] :: json commit_diffs)) ''c1'' \<noteq> Refreshable"
proof -
  have "''c1'' \<in> set (expandedShas (self_heal (useCommitDiffs [''c1''] [] :: json commit_diffs)))"
    by (simp add: self_heal_def fold_begin_expanded useCommitDiffs_def)
  with no_panel_is_abandoned [of "[''c1'']" "[]" "useCommitDiffs [''c1''] [] :: json commit_diffs"]
  show ?thesis by blast
qed

text \<open>
  A commit opened, closed and opened again before its first request is answered is requested
  twice; if the first request fails and the second succeeds, the panel shows the error although
  the diff is there, and no later click, effect or answer changes that.
\<close>

theorem failed_request_hides_diff:
  assumes "s = finish_detail sha (Ok d) (finish_detail sha (Throw (Error m))
      (toggle True sha (toggle True sha (toggle True sha (useCommitDiffs [] [])))))"
    and "m \<noteq> []" and "hook_step\<^sup>*\<^sup>* s t"
  shows "panel_of t sha = Failed m \<and> detailBySha t sha \<noteq> None"
proof -
  have "stuck sha m s"
    using assms(2)
    by (simp add: assms(1) stuck_def finish_detail_def toggle_def begin_detail_def Let_def
        useCommitDiffs_def set_add_def set_delete_def error_text_def)
  with assms(3) have "stuck sha m t"
    by (induction rule: rtranclp_induct) (auto intro: stuck_step)
  then show ?thesis using stuck_panel [of sha m t] by (simp add: stuck_def)
qed

theorem failed_request_hides_diff_witness:
  "panel_of (toggle True ''c1'' (finish_detail ''c1'' (Ok JNull) (finish_detail ''c1'' (Throw (Error ''offline''))
     (toggle True ''c1'' (toggle True ''c1'' (toggle True ''c1'' (useCommitDiffs [] []))))))) ''c1''
   = Failed ''offline''"
proof -
  define s :: "json commit_diffs" where
    "s = finish_detail ''c1'' (Ok JNull) (finish_detail ''c1'' (Throw (Error ''offline''))
      (toggle True ''c1'' (toggle True ''c1'' (toggle True ''c1'' (useCommitDiffs [] [])))))"
  have "hook_step\<^sup>*\<^sup>* s (toggle True ''c1'' s)" by (rule r_into_rtranclp) (rule click)
  from failed_request_hides_diff [OF s_def _ this] show ?thesis by (simp add: s_def)
qed

text \<open>
  A file's lines come back from the proxy's base64 answer, however the answer is wrapped, with
  or without a line end after the last line.
\<close>

theorem file_lines_roundtrip:
  assumes "webcrypto_ok wc" and "\<forall>l \<in> set ls. CHR 0x0A \<notin> set l" and "ls \<noteq> []"
    and "drop_spaces body = btoa wc (utf8_encode wc txt)"
    and "txt = join [CHR 0x0A] (ls @ [[]]) \<or> txt = join [CHR 0x0A] ls \<and> last ls \<noteq> []"
  shows "decodeFileLines wc (Some body) (Some ''base64'') = Ok ls"
proof -
  have "split_on (CHR 0x0A) txt = ls @ [[]] \<or> split_on (CHR 0x0A) txt = ls \<and> last ls \<noteq> []"
    using assms(2,3,5) split_on_join [of "ls @ [[]]" "CHR 0x0A"] split_on_join [of ls "CHR 0x0A"] by auto
  then have "drop_last_empty (split_on (CHR 0x0A) txt) = ls"
    by (auto simp: drop_last_empty_def)
  then show ?thesis using assms(1,4) by (simp add: decodeFileLines_def webcrypto_okD)
qed

theorem file_lines_roundtrip_witness:
  "decodeFileLines demo_crypto (Some (btoa demo_crypto (utf8_encode demo_crypto ''ab''))) (Some ''base64'')
     = Ok [''ab'']"
proof (rule file_lines_roundtrip [OF demo_crypto_ok])
  show "drop_spaces (btoa demo_crypto (utf8_encode demo_crypto ''ab'')) = btoa demo_crypto (utf8_encode demo_crypto ''ab'')"
    by code_simp
  show "\<forall>l \<in> set [''ab'']. CHR 0x0A \<notin> set l" by simp
qed simp_all

text \<open>
  Gaps of the same file share one request until it fails, and a full diff is never held beyond its
  cap and the note that says so.
\<close>

theorem file_request_is_shared:
  "fst (loadFileLines base ref path (snd (loadFileLines base ref path c))) = fst (loadFileLines base ref path c) \<and>
   fileLines (lines_failed (file_key base ref path) (snd (loadFileLines base ref path c))) (file_key base ref path) = None \<and>
   length (capped_diff txt) \<le> FULL_DIFF_CAP + length truncation_note"
  by (simp add: loadFileLines_def lines_failed_def capped_diff_def Let_def split: option.split)

end
