(* ===== verification/Syntax_Language.thy ===== *)
theory Syntax_Language
  imports Js_String
begin

text \<open>
  Which grammar colours a file: \<open>languageFor\<close> of \<open>github/syntaxHighlight.ts\<close>. The tables
  are plain JavaScript objects, so a key that is not in the table can still be a member every
  object inherits; of those, two are spelled in lower case.
\<close>

section \<open>The tables\<close>

text \<open>The grammars registered with the highlighter.\<close>

definition GRAMMARS :: "string list" where
  "GRAMMARS =
    [''bash'', ''c'', ''cpp'', ''css'', ''dockerfile'', ''go'', ''ini'', ''java'',
     ''javascript'', ''json'', ''makefile'', ''markdown'', ''python'', ''rust'', ''scss'',
     ''sql'', ''typescript'', ''xml'', ''yaml'']"

definition LANGUAGE_BY_EXTENSION :: "(string \<times> string) list" where
  "LANGUAGE_BY_EXTENSION =
    [(''bash'', ''bash''), (''c'', ''c''), (''cc'', ''cpp''), (''cjs'', ''javascript''),
     (''cpp'', ''cpp''), (''css'', ''css''), (''cts'', ''typescript''), (''go'', ''go''),
     (''h'', ''c''), (''hpp'', ''cpp''), (''html'', ''xml''), (''ini'', ''ini''),
     (''java'', ''java''), (''js'', ''javascript''), (''json'', ''json''),
     (''jsx'', ''javascript''), (''md'', ''markdown''), (''mjs'', ''javascript''),
     (''mts'', ''typescript''), (''py'', ''python''), (''rs'', ''rust''), (''scss'', ''scss''),
     (''sh'', ''bash''), (''sql'', ''sql''), (''svg'', ''xml''), (''toml'', ''ini''),
     (''ts'', ''typescript''), (''tsx'', ''typescript''), (''xml'', ''xml''),
     (''yaml'', ''yaml''), (''yml'', ''yaml''), (''zsh'', ''bash'')]"

definition LANGUAGE_BY_NAME :: "(string \<times> string) list" where
  "LANGUAGE_BY_NAME =
    [(''dockerfile'', ''dockerfile''), (''makefile'', ''makefile'')]"

text \<open>The value of \<open>table[key]\<close>: an entry, or the member inherited from \<open>Object.prototype\<close>.\<close>

datatype language = Grammar string | Inherited

definition inherited_keys :: "string list" where
  "inherited_keys = [''constructor'', ''__proto__'']"

definition object_get :: "(string \<times> string) list \<Rightarrow> string \<Rightarrow> language option" where
  "object_get tbl k =
     (case map_of tbl k of
        Some v \<Rightarrow> Some (Grammar v)
      | None \<Rightarrow> if k \<in> set inherited_keys then Some Inherited else None)"

definition base_name :: "string \<Rightarrow> string" where
  "base_name path = toLowerCase (last (split_on (CHR ''/'') path))"

definition extension :: "string \<Rightarrow> string" where
  "extension name = last (split_on (CHR ''.'') name)"

definition languageFor :: "string \<Rightarrow> language option" where
  "languageFor path =
     (let name = base_name path in
      case object_get LANGUAGE_BY_NAME name of
        Some l \<Rightarrow> Some l
      | None \<Rightarrow>
          (case object_get LANGUAGE_BY_EXTENSION (extension name) of
             Some l \<Rightarrow> Some l
           | None \<Rightarrow>
               if take 11 name = ''dockerfile.'' then Some (Grammar ''dockerfile'') else None))"

section \<open>What it finds\<close>

lemma table_grammars:
  "list_all (\<lambda>e. snd e \<in> set GRAMMARS) (LANGUAGE_BY_NAME @ LANGUAGE_BY_EXTENSION)"
  by code_simp

lemma dockerfile_grammar: "''dockerfile'' \<in> set GRAMMARS"
  by code_simp

lemma object_get_Grammar:
  "object_get tbl k = Some (Grammar g) \<Longrightarrow> (k, g) \<in> set tbl"
  by (auto simp: object_get_def dest: map_of_SomeD split: option.splits if_splits)

lemma object_get_keys:
  "object_get tbl k =
     (if k \<in> fst ` set tbl then Some (Grammar (the (map_of tbl k)))
      else if k \<in> set inherited_keys then Some Inherited else None)"
proof (cases "map_of tbl k")
  case (Some v)
  then have "k \<in> fst ` set tbl" by (force dest: map_of_SomeD)
  with Some show ?thesis by (simp add: object_get_def)
next
  case None
  then have "k \<notin> fst ` set tbl" by (simp add: map_of_eq_None_iff)
  with None show ?thesis by (simp add: object_get_def)
qed

lemma inherited_not_listed:
  "set inherited_keys \<inter> fst ` set LANGUAGE_BY_NAME = {}"
  "set inherited_keys \<inter> fst ` set LANGUAGE_BY_EXTENSION = {}"
  by code_simp+

text \<open>
  C35: A grammar that is found is one the highlighter has, and anything else found is no grammar: that
  happens exactly when the name or the extension of the file is a member every object inherits.
\<close>

theorem found_grammar_is_registered:
  "(\<forall>g. languageFor path = Some (Grammar g) \<longrightarrow> g \<in> set GRAMMARS) \<and>
   (languageFor path = Some Inherited \<longleftrightarrow>
      base_name path \<in> set inherited_keys \<or>
      base_name path \<notin> fst ` set LANGUAGE_BY_NAME \<and> extension (base_name path) \<in> set inherited_keys)"
proof (rule conjI)
  have "snd e \<in> set GRAMMARS" if "e \<in> set LANGUAGE_BY_NAME \<or> e \<in> set LANGUAGE_BY_EXTENSION" for e
    using table_grammars that by (auto simp: list_all_iff)
  then show "\<forall>g. languageFor path = Some (Grammar g) \<longrightarrow> g \<in> set GRAMMARS"
    using dockerfile_grammar
    by (fastforce simp: languageFor_def Let_def dest: object_get_Grammar split: option.splits if_splits)
  let ?n = "base_name path"
  show "languageFor path = Some Inherited \<longleftrightarrow>
      ?n \<in> set inherited_keys \<or>
      ?n \<notin> fst ` set LANGUAGE_BY_NAME \<and> extension ?n \<in> set inherited_keys"
    using inherited_not_listed
    by (auto simp: languageFor_def Let_def object_get_keys)
qed

theorem found_grammar_is_registered_witness:
  "languageFor ''src/constructor'' = Some Inherited"
proof -
  have "base_name ''src/constructor'' \<in> set inherited_keys" by code_simp
  with found_grammar_is_registered [of "''src/constructor''"] show ?thesis by blast
qed

end
