(* ===== verification/Login_Guard.thy ===== *)
theory Login_Guard
  imports Web_Crypto
begin

text \<open>
  Signing in without showing the server the password: \<open>auth/authKey.ts\<close> and the credential
  part of \<open>api/Auth.ts\<close>. The server is not trusted: its answers are arguments, and in the step
  relation at the end they are arbitrary. PBKDF2 is the argument \<open>kdf\<close>; local storage may be
  unavailable, which \<open>works\<close> says.
\<close>

section \<open>The derived credential\<close>

type_synonym kdf = "bytes \<Rightarrow> bytes \<Rightarrow> nat \<Rightarrow> bytes"

definition AUTH_KDF_ITERATIONS :: nat where
  "AUTH_KDF_ITERATIONS = 600000"

definition AUTH_KDF_CONTEXT :: string where
  "AUTH_KDF_CONTEXT = ''wayve-auth-v1:''"

definition AUTH_SALT_BYTES :: nat where
  "AUTH_SALT_BYTES = 16"

record credential =
  cred_salt :: string
  cred_key :: string

record prelogin_result =
  pre_scheme :: int
  pre_salt :: "string option"

definition deriveAuthKey ::
  "('aes, 'pub, 'priv) webcrypto \<Rightarrow> kdf \<Rightarrow> string \<Rightarrow> string \<Rightarrow> nat \<Rightarrow> string result" where
  "deriveAuthKey wc kdf password saltB64 iterations =
     bind_result (subtle (atob wc saltB64)) (\<lambda>salt.
     Ok (btoa wc (kdf (utf8_encode wc (AUTH_KDF_CONTEXT @ password)) salt iterations)))"

text \<open>\<open>newCredential\<close>; the random salt is the argument \<open>salt\<close>.\<close>

definition newCredential ::
  "('aes, 'pub, 'priv) webcrypto \<Rightarrow> kdf \<Rightarrow> bytes \<Rightarrow> string \<Rightarrow> credential result" where
  "newCredential wc kdf salt password =
     bind_result (deriveAuthKey wc kdf password (btoa wc salt) AUTH_KDF_ITERATIONS) (\<lambda>k.
     Ok \<lparr>cred_salt = btoa wc salt, cred_key = k\<rparr>)"

definition prelogin :: "prelogin_result result \<Rightarrow> prelogin_result result" where
  "prelogin answer =
     bind_result answer (\<lambda>d.
       if pre_scheme d \<noteq> 1 \<and> pre_scheme d \<noteq> 2 then Throw (Error ''Unexpected prelogin response'')
       else Ok d)"

section \<open>The downgrade guard\<close>

type_synonym storage = "string \<Rightarrow> string option"

definition v2Marker :: "string \<Rightarrow> string" where
  "v2Marker identifier = ''wayve.auth.v2:'' @ toLowerCase (trim identifier)"

definition rememberAuthKeyScheme :: "bool \<Rightarrow> string \<Rightarrow> storage \<Rightarrow> storage" where
  "rememberAuthKeyScheme works identifier st =
     (if works then st(v2Marker identifier \<mapsto> ''1'') else st)"

definition expectsAuthKeyScheme :: "bool \<Rightarrow> string \<Rightarrow> storage \<Rightarrow> bool" where
  "expectsAuthKeyScheme works identifier st \<longleftrightarrow> works \<and> st (v2Marker identifier) = Some ''1''"

definition downgrade_error :: js_error where
  "downgrade_error = Error (''The server asked for your password in a less secure form than before, ''
     @ ''so it wasn't sent. Please contact your administrator.'')"

datatype password_proof = AuthKey string | RawPassword string

definition currentPasswordProof ::
  "('aes, 'pub, 'priv) webcrypto \<Rightarrow> kdf \<Rightarrow> bool \<Rightarrow> storage \<Rightarrow> prelogin_result result
   \<Rightarrow> string \<Rightarrow> string \<Rightarrow> password_proof result" where
  "currentPasswordProof wc kdf works st answer identifier password =
     bind_result (prelogin answer) (\<lambda>pre.
       case (if pre_scheme pre = 2 \<and> pre_salt pre \<noteq> Some [] then pre_salt pre else None) of
         Some salt \<Rightarrow> bind_result (deriveAuthKey wc kdf password salt AUTH_KDF_ITERATIONS) (\<lambda>k. Ok (AuthKey k))
       | None \<Rightarrow> if expectsAuthKeyScheme works identifier st then Throw downgrade_error
                 else Ok (RawPassword password))"

section \<open>The requests\<close>

definition credential_json :: "credential \<Rightarrow> json" where
  "credential_json c = JObj [(''auth_salt'', JStr (cred_salt c)), (''auth_key'', JStr (cred_key c))]"

record request =
  request_path :: string
  request_body :: json

definition register_request ::
  "('aes, 'pub, 'priv) webcrypto \<Rightarrow> kdf \<Rightarrow> bytes \<Rightarrow> string \<Rightarrow> string \<Rightarrow> string \<Rightarrow> request result" where
  "register_request wc kdf salt email password recoveryMode =
     bind_result (newCredential wc kdf salt password) (\<lambda>c.
     Ok \<lparr>request_path = ''/api/register'',
         request_body = JObj [(''email'', JStr email), (''credential'', credential_json c),
           (''recovery_mode'', JStr recoveryMode)]\<rparr>)"

definition resetPassword_request ::
  "('aes, 'pub, 'priv) webcrypto \<Rightarrow> kdf \<Rightarrow> bytes \<Rightarrow> string \<Rightarrow> string \<Rightarrow> request result" where
  "resetPassword_request wc kdf salt token newPassword =
     bind_result (newCredential wc kdf salt newPassword) (\<lambda>c.
     Ok \<lparr>request_path = ''/api/reset-password'',
         request_body = JObj [(''token'', JStr token), (''new_credential'', credential_json c)]\<rparr>)"

definition recoverWithMnemonic_request ::
  "('aes, 'pub, 'priv) webcrypto \<Rightarrow> kdf \<Rightarrow> bytes \<Rightarrow> string \<Rightarrow> bytes \<Rightarrow> string \<Rightarrow> request result" where
  "recoverWithMnemonic_request wc kdf salt email entropy newPassword =
     bind_result (newCredential wc kdf salt newPassword) (\<lambda>c.
     Ok \<lparr>request_path = ''/api/auth/recover-with-mnemonic'',
         request_body = JObj [(''email'', JStr email), (''mnemonic_entropy'', JStr (btoa wc entropy)),
           (''new_credential'', credential_json c)]\<rparr>)"

definition login_request ::
  "('aes, 'pub, 'priv) webcrypto \<Rightarrow> kdf \<Rightarrow> bool \<Rightarrow> storage \<Rightarrow> prelogin_result result \<Rightarrow> bytes
   \<Rightarrow> string \<Rightarrow> string \<Rightarrow> request result" where
  "login_request wc kdf works st answer salt email password =
     bind_result (currentPasswordProof wc kdf works st answer email password) (\<lambda>p.
       case p of
         AuthKey k \<Rightarrow>
           Ok \<lparr>request_path = ''/api/login'',
               request_body = JObj [(''email'', JStr email), (''auth_key'', JStr k)]\<rparr>
       | RawPassword pw \<Rightarrow>
           bind_result (newCredential wc kdf salt password) (\<lambda>c.
           Ok \<lparr>request_path = ''/api/login'',
               request_body = JObj [(''email'', JStr email), (''password'', JStr pw),
                 (''upgrade'', credential_json c)]\<rparr>))"

definition finish_login :: "bool \<Rightarrow> string \<Rightarrow> bool result \<Rightarrow> storage \<Rightarrow> storage" where
  "finish_login works email token st =
     (case token of Ok True \<Rightarrow> rememberAuthKeyScheme works email st | _ \<Rightarrow> st)"

text \<open>\<open>changePassword\<close>; a user who signed in by other means has no current password.\<close>

definition changePassword_request ::
  "('aes, 'pub, 'priv) webcrypto \<Rightarrow> kdf \<Rightarrow> bool \<Rightarrow> storage \<Rightarrow> prelogin_result result \<Rightarrow> bytes
   \<Rightarrow> string \<Rightarrow> string option \<Rightarrow> string \<Rightarrow> json option \<Rightarrow> request result" where
  "changePassword_request wc kdf works st answer salt identifier currentPassword newPassword newLoginWrap =
     bind_result (newCredential wc kdf salt newPassword) (\<lambda>c.
     bind_result
       (case currentPassword of
          None \<Rightarrow> Ok []
        | Some pw \<Rightarrow>
            bind_result (currentPasswordProof wc kdf works st answer identifier pw) (\<lambda>p.
              Ok [case p of AuthKey k \<Rightarrow> (''current_auth_key'', JStr k)
                          | RawPassword q \<Rightarrow> (''current_password'', JStr q)]))
       (\<lambda>current.
         Ok \<lparr>request_path = ''/api/profile/password'',
             request_body = JObj ([(''new_credential'', credential_json c)] @ current
               @ (case newLoginWrap of None \<Rightarrow> [] | Some w \<Rightarrow> [(''new_login_wrap'', w)]))\<rparr>))"

section \<open>Any server, any order\<close>

text \<open>
  A request is logged with the identifier it is sent for. Sign-ins and password changes may
  overlap; each step is the moment a prelogin or login answer, whatever it says, is handled.
\<close>

record browser =
  store :: storage
  sent :: "(string \<times> request) list"

inductive auth_step ::
  "('aes, 'pub, 'priv) webcrypto \<Rightarrow> kdf \<Rightarrow> bool \<Rightarrow> browser \<Rightarrow> browser \<Rightarrow> bool"
  for wc kdf works where
  sign_in: "login_request wc kdf works (store b) answer salt email password = Ok r \<Longrightarrow>
    auth_step wc kdf works b (b \<lparr>sent := sent b @ [(email, r)]\<rparr>)"
| change: "changePassword_request wc kdf works (store b) answer salt identifier current new_password wrap = Ok r \<Longrightarrow>
    auth_step wc kdf works b (b \<lparr>sent := sent b @ [(identifier, r)]\<rparr>)"
| signed_in: "auth_step wc kdf works b (b \<lparr>store := finish_login works email token (store b)\<rparr>)"

text \<open>The requests that carry a password as it was typed.\<close>

definition raw_password :: "request \<Rightarrow> bool" where
  "raw_password r \<longleftrightarrow>
     field (request_body r) ''password'' \<noteq> None \<or> field (request_body r) ''current_password'' \<noteq> None"

definition armed :: "string \<Rightarrow> storage \<Rightarrow> bool" where
  "armed identifier st \<longleftrightarrow> st (v2Marker identifier) = Some ''1''"

lemma proof_guarded:
  assumes "armed identifier st"
    and "currentPasswordProof wc kdf True st answer identifier password = Ok p"
  shows "\<exists>k. p = AuthKey k"
  using assms
  by (auto simp: currentPasswordProof_def bind_result_Ok_iff expectsAuthKeyScheme_def armed_def
      split: option.splits if_splits)

lemma login_guarded:
  assumes "armed email st" and "login_request wc kdf True st answer salt email password = Ok r"
  shows "\<not> raw_password r"
proof -
  obtain p where p: "currentPasswordProof wc kdf True st answer email password = Ok p"
    using assms(2) by (auto simp: login_request_def bind_result_Ok_iff)
  with proof_guarded [OF assms(1)] obtain k where "p = AuthKey k" by blast
  with p assms(2) show ?thesis by (auto simp: login_request_def raw_password_def field_def)
qed

lemma change_guarded:
  assumes "armed identifier st"
    and "changePassword_request wc kdf True st answer salt identifier current new_password wrap = Ok r"
  shows "\<not> raw_password r"
proof (cases current)
  case None
  with assms(2) show ?thesis
    by (auto simp: changePassword_request_def bind_result_Ok_iff raw_password_def field_def split: option.splits)
next
  case (Some pw)
  with assms(2) obtain p where "currentPasswordProof wc kdf True st answer identifier pw = Ok p"
    by (auto simp: changePassword_request_def bind_result_Ok_iff)
  with proof_guarded [OF assms(1)] obtain k where
    "currentPasswordProof wc kdf True st answer identifier pw = Ok (AuthKey k)" by blast
  with assms(2) Some show ?thesis
    by (auto simp: changePassword_request_def bind_result_Ok_iff raw_password_def field_def split: option.splits)
qed

lemma finish_login_armed: "armed i st \<Longrightarrow> armed i (finish_login works email token st)"
  by (auto simp: armed_def finish_login_def rememberAuthKeyScheme_def split: sum.split bool.split)

lemma armed_marker: "v2Marker j = v2Marker i \<Longrightarrow> armed i st \<Longrightarrow> armed j st"
  by (simp add: armed_def)

definition silent :: "string \<Rightarrow> (string \<times> request) list \<Rightarrow> bool" where
  "silent i rs \<longleftrightarrow> (\<forall>(j, r) \<in> set rs. v2Marker j = v2Marker i \<longrightarrow> \<not> raw_password r)"

lemma auth_step_silent:
  assumes "auth_step wc kdf True b c" and "armed i (store b)"
  shows "armed i (store c) \<and> (\<exists>rs. sent c = sent b @ rs \<and> silent i rs)"
  using assms
proof (induction rule: auth_step.induct)
  case (sign_in b answer salt email password r)
  then have "silent i [(email, r)]" by (auto simp: silent_def dest: armed_marker login_guarded)
  with sign_in show ?case by auto
next
  case (change b answer salt ident current new_password wrap r)
  then have "silent i [(ident, r)]" by (auto simp: silent_def dest: armed_marker change_guarded)
  with change show ?case by auto
next
  case (signed_in b email token)
  then show ?case by (simp add: finish_login_armed silent_def)
qed

lemma auth_run_silent:
  "(auth_step wc kdf True)\<^sup>*\<^sup>* b c \<Longrightarrow> armed i (store b) \<Longrightarrow>
   armed i (store c) \<and> (\<exists>rs. sent c = sent b @ rs \<and> silent i rs)"
proof (induction rule: rtranclp_induct)
  case (step c d)
  from step.IH [OF step.prems] obtain rs where c: "armed i (store c)" "sent c = sent b @ rs" "silent i rs"
    by blast
  from auth_step_silent [OF step.hyps(2) c(1)] obtain ss where "armed i (store d)"
    "sent d = sent c @ ss" "silent i ss" by blast
  with c have "sent d = sent b @ (rs @ ss) \<and> silent i (rs @ ss)" by (auto simp: silent_def)
  with \<open>armed i (store d)\<close> show ?case by blast
qed (simp add: silent_def)

section \<open>Properties\<close>

text \<open>
  C7: Once a sign-in has succeeded on this browser, no server can talk it into sending a password for
  that account: whatever the answers to any number of later sign-ins and password changes, every
  request for the account, under any spelling of its identifier, leaves the password out.
\<close>

theorem password_never_sent_again:
  assumes "(auth_step wc kdf True)\<^sup>*\<^sup>* (b \<lparr>store := finish_login True email (Ok True) (store b)\<rparr>) c"
    and "toLowerCase (trim other) = toLowerCase (trim email)"
  shows "\<exists>rs. sent c = sent b @ rs \<and> (\<forall>r. (other, r) \<in> set rs \<longrightarrow> \<not> raw_password r)"
proof -
  have "armed email (finish_login True email (Ok True) (store b))"
    by (simp add: armed_def finish_login_def rememberAuthKeyScheme_def)
  with auth_run_silent [OF assms(1), of email] obtain rs where "sent c = sent b @ rs" "silent email rs"
    by auto
  moreover have "v2Marker other = v2Marker email" using assms(2) by (simp add: v2Marker_def)
  ultimately show ?thesis by (auto simp: silent_def)
qed

definition demo_kdf :: kdf where
  "demo_kdf p s n = p @ s"

definition demo_browser :: browser where
  "demo_browser = \<lparr>store = (\<lambda>_. None), sent = []\<rparr>"

definition armed_storage :: storage where
  "armed_storage = finish_login True ''Ann@x.org '' (Ok True) (store demo_browser)"

theorem password_never_sent_again_witness:
  "\<exists>r. login_request demo_crypto demo_kdf True armed_storage (Ok \<lparr>pre_scheme = 2, pre_salt = Some ''salt''\<rparr>)
         [] ''ann@x.org'' ''pw'' = Ok r \<and> \<not> raw_password r"
proof -
  let ?b = "demo_browser \<lparr>store := finish_login True ''Ann@x.org '' (Ok True) (store demo_browser)\<rparr>"
  obtain r where r: "login_request demo_crypto demo_kdf True (store ?b)
      (Ok \<lparr>pre_scheme = 2, pre_salt = Some ''salt''\<rparr>) [] ''ann@x.org'' ''pw'' = Ok r"
    by (simp add: login_request_def currentPasswordProof_def prelogin_def deriveAuthKey_def demo_crypto_def)
  have "toLowerCase (trim ''ann@x.org'') = toLowerCase (trim ''Ann@x.org '')" by code_simp
  moreover have "(auth_step demo_crypto demo_kdf True)\<^sup>*\<^sup>* ?b (?b \<lparr>sent := sent ?b @ [(''ann@x.org'', r)]\<rparr>)"
    by (rule r_into_rtranclp, rule sign_in [OF r])
  ultimately have "\<exists>rs. sent (?b \<lparr>sent := sent ?b @ [(''ann@x.org'', r)]\<rparr>) = sent demo_browser @ rs
      \<and> (\<forall>q. (''ann@x.org'', q) \<in> set rs \<longrightarrow> \<not> raw_password q)"
    by (rule password_never_sent_again [rotated])
  then have "\<not> raw_password r" by (auto simp: demo_browser_def)
  with r show ?thesis by (auto simp: armed_storage_def)
qed

text \<open>
  Registering, resetting, recovering and a guarded sign-in see the password through the key
  derivation only: two passwords it cannot tell apart make the same requests.
\<close>

theorem password_only_through_kdf:
  assumes "\<And>s n. kdf (utf8_encode wc (AUTH_KDF_CONTEXT @ p)) s n = kdf (utf8_encode wc (AUTH_KDF_CONTEXT @ q)) s n"
  shows "register_request wc kdf salt email p mode = register_request wc kdf salt email q mode \<and>
    resetPassword_request wc kdf salt token p = resetPassword_request wc kdf salt token q \<and>
    recoverWithMnemonic_request wc kdf salt email entropy p = recoverWithMnemonic_request wc kdf salt email entropy q \<and>
    (armed email st \<longrightarrow>
       login_request wc kdf True st answer salt email p = login_request wc kdf True st answer salt email q)"
proof -
  have d: "deriveAuthKey wc kdf p = deriveAuthKey wc kdf q"
    by (simp add: deriveAuthKey_def assms fun_eq_iff)
  have n: "newCredential wc kdf salt p = newCredential wc kdf salt q"
    by (simp add: newCredential_def d)
  have "currentPasswordProof wc kdf True st answer email p = currentPasswordProof wc kdf True st answer email q"
    if "armed email st"
  proof -
    have "expectsAuthKeyScheme True email st" using that by (simp add: armed_def expectsAuthKeyScheme_def)
    then show ?thesis unfolding currentPasswordProof_def d if_True by (simp only: if_True simp_thms)
  qed
  then show ?thesis
    unfolding register_request_def resetPassword_request_def recoverWithMnemonic_request_def
      login_request_def n
    by simp
qed

theorem password_only_through_kdf_witness:
  "register_request demo_crypto (\<lambda>p s n. s) [] ''ann@x.org'' ''one'' ''full''
     = register_request demo_crypto (\<lambda>p s n. s) [] ''ann@x.org'' ''two'' ''full''"
  by (rule password_only_through_kdf [THEN conjunct1]) simp

end
