(* ===== verification/Api_Client.thy ===== *)
theory Api_Client
  imports Message_Crypto
begin

text \<open>
  The request layer: \<open>api/client.ts\<close> with the session token of \<open>auth/token.ts\<close>, and the
  promise cache of \<open>api/cache.ts\<close>. A request is split at its \<open>await\<close>s: asking the cache,
  the arrival of the response, and what each caller does with it. The network is the argument;
  time is a number of milliseconds.
\<close>

section \<open>The session token\<close>

record client =
  inMemoryToken :: "string option"
  sessionExpiredNotified :: bool
  expired_events :: nat \<comment> \<open>\<open>rwayve:session-expired\<close> events dispatched\<close>

definition setAuthToken :: "string \<Rightarrow> client \<Rightarrow> client" where
  "setAuthToken token c = c \<lparr>inMemoryToken := Some token, sessionExpiredNotified := False\<rparr>"

definition clearAuthToken :: "client \<Rightarrow> client" where
  "clearAuthToken c = c \<lparr>inMemoryToken := None\<rparr>"

definition noteSessionExpiredOnce :: "client \<Rightarrow> bool \<times> client" where
  "noteSessionExpiredOnce c =
     (if sessionExpiredNotified c then (False, c) else (True, c \<lparr>sessionExpiredNotified := True\<rparr>))"

section \<open>Responses\<close>

record api_options =
  opt_auth :: bool
  preserve401 :: bool
  preserve404 :: bool
  preserve410 :: bool
  preserve403 :: bool
  preserve503 :: bool
  cacheTtlMs :: nat

record response =
  status :: nat
  statusText :: string
  body_text :: string

definition ok_response :: "response \<Rightarrow> bool" where
  "ok_response r \<longleftrightarrow> 200 \<le> status r \<and> status r < 300"

text \<open>\<open>String(v)\<close> of a parsed value, as \<open>new Error(v)\<close> makes it.\<close>

fun js_text :: "json \<Rightarrow> string" where
  "js_text JNull = ''null''"
| "js_text (JBool b) = (if b then ''true'' else ''false'')"
| "js_text (JNum t) = t"
| "js_text (JStr s) = s"
| "js_text (JArr vs) = join '','' (map (\<lambda>v. if v = JNull then [] else js_text v) vs)"
| "js_text (JObj ms) = ''[object Object]''"

text \<open>\<open>data?.error || data?.message || message\<close>.\<close>

definition body_message :: "json \<Rightarrow> string \<Rightarrow> string" where
  "body_message data message =
     (if \<not> falsy (field data ''error'') then js_text (the (field data ''error''))
      else if \<not> falsy (field data ''message'') then js_text (the (field data ''message''))
      else message)"

definition unauthorized_message :: "response \<Rightarrow> string" where
  "unauthorized_message r =
     (case json_parse (body_text r) of
        Ok data \<Rightarrow> body_message data ''Unauthorized''
      | Throw _ \<Rightarrow> ''Unauthorized'')"

definition failure_message :: "response \<Rightarrow> string" where
  "failure_message r =
     (let message = ''Request failed ('' @ nat_str (status r) @ '' ''
            @ (if statusText r = [] then ''HTTP error'' else statusText r) @ '')''
      in case json_parse (body_text r) of
           Ok data \<Rightarrow> body_message data message
         | Throw _ \<Rightarrow>
             (let t = trim (body_text r) in if t = [] then message else message @ '': '' @ t))"

definition preserved :: "api_options \<Rightarrow> response \<Rightarrow> bool" where
  "preserved opts r \<longleftrightarrow>
     status r = 404 \<and> preserve404 opts \<or> status r = 410 \<and> preserve410 opts
     \<or> status r = 403 \<and> preserve403 opts \<or> status r = 503 \<and> preserve503 opts"

definition network_message :: "js_error \<Rightarrow> string" where
  "network_message err =
     (case err of
        TypeError \<Rightarrow> ''Backend did not return a response. Check that the backend is running ''
          @ ''and not panicking for this request.''
      | _ \<Rightarrow> ''Network request failed'')"

text \<open>\<open>run\<close> from the moment \<open>fetch\<close> settles: the outcome and the session after it.\<close>

definition settle_run :: "api_options \<Rightarrow> response result \<Rightarrow> client \<Rightarrow> response result \<times> client" where
  "settle_run opts answer c =
     (case answer of
        Throw err \<Rightarrow> (Throw (Error (network_message err)), c)
      | Ok r \<Rightarrow>
          if status r = 401 then
            (if preserve401 opts then (Throw (Error (unauthorized_message r)), c)
             else (case noteSessionExpiredOnce (clearAuthToken c) of
                     (first, d) \<Rightarrow>
                       (Throw (Error (unauthorized_message r)),
                        if first then d \<lparr>expired_events := expired_events d + 1\<rparr> else d)))
          else if preserved opts r then (Ok r, c)
          else if \<not> ok_response r then (Throw (Error (failure_message r)), c)
          else (Ok r, c))"

fun includes_text :: "string \<Rightarrow> string \<Rightarrow> bool" where
  "includes_text [] p \<longleftrightarrow> p = []"
| "includes_text (c # s) p \<longleftrightarrow> starts_with p (c # s) \<or> includes_text s p"

definition shouldReportFailure :: "string \<Rightarrow> nat option \<Rightarrow> bool" where
  "shouldReportFailure path st \<longleftrightarrow>
     \<not> includes_text path ''/api/error-logs'' \<and> \<not> includes_text path ''/api/logout'' \<and> st \<noteq> Some 401"

text \<open>Whether a settled request is reported to the error log.\<close>

definition reported :: "string \<Rightarrow> api_options \<Rightarrow> response result \<Rightarrow> bool" where
  "reported path opts answer \<longleftrightarrow>
     (case answer of
        Throw err \<Rightarrow> shouldReportFailure path None
      | Ok r \<Rightarrow> status r \<noteq> 401 \<and> \<not> preserved opts r \<and> \<not> ok_response r
          \<and> shouldReportFailure path (Some (status r)) \<and> (500 \<le> status r \<or> status r = 0))"

section \<open>Sharing and caching GETs\<close>

definition bit_char :: "bool \<Rightarrow> char" where
  "bit_char b = (if b then CHR ''1'' else CHR ''0'')"

definition cacheKey :: "string \<Rightarrow> string \<Rightarrow> api_options \<Rightarrow> string" where
  "cacheKey verb url opts =
     verb @ '' '' @ url @ ''|''
     @ [bit_char (preserve401 opts), bit_char (preserve404 opts), bit_char (preserve410 opts)]"

record get_state =
  getCache :: "string \<Rightarrow> (response \<times> nat) option"
  inflightGets :: "string \<Rightarrow> nat option"
  next_run :: nat

datatype asked = Hit response | Shared nat | Started nat

definition begin_get :: "string \<Rightarrow> api_options \<Rightarrow> nat \<Rightarrow> get_state \<Rightarrow> asked \<times> get_state" where
  "begin_get key opts now g =
     (case (if 0 < cacheTtlMs opts then getCache g key else None) of
        Some (r, expires) \<Rightarrow>
          if now < expires then (Hit r, g)
          else (case inflightGets g key of
                  Some i \<Rightarrow> (Shared i, g)
                | None \<Rightarrow> (Started (next_run g),
                    g \<lparr>inflightGets := (inflightGets g)(key \<mapsto> next_run g), next_run := next_run g + 1\<rparr>))
      | None \<Rightarrow>
          (case inflightGets g key of
             Some i \<Rightarrow> (Shared i, g)
           | None \<Rightarrow> (Started (next_run g),
               g \<lparr>inflightGets := (inflightGets g)(key \<mapsto> next_run g), next_run := next_run g + 1\<rparr>)))"

text \<open>\<open>run().finally(...)\<close>, then what each waiting caller does.\<close>

definition finish_get :: "string \<Rightarrow> get_state \<Rightarrow> get_state" where
  "finish_get key g = g \<lparr>inflightGets := (inflightGets g)(key := None)\<rparr>"

definition after_get :: "string \<Rightarrow> api_options \<Rightarrow> nat \<Rightarrow> response result \<Rightarrow> get_state \<Rightarrow> get_state" where
  "after_get key opts now outcome g =
     (case outcome of
        Ok r \<Rightarrow> if 0 < cacheTtlMs opts \<and> ok_response r
                then g \<lparr>getCache := (getCache g)(key \<mapsto> (r, now + cacheTtlMs opts))\<rparr> else g
      | Throw _ \<Rightarrow> g)"

definition invalidateGetCache :: "get_state \<Rightarrow> get_state" where
  "invalidateGetCache g = g \<lparr>getCache := (\<lambda>_. None)\<rparr>"

section \<open>The promise cache\<close>

record entry =
  entry_at :: nat
  entry_value :: nat \<comment> \<open>the number of the promise\<close>

record load_store =
  entries :: "string \<Rightarrow> entry option"
  next_promise :: nat

definition cachedLoad :: "string \<Rightarrow> nat \<Rightarrow> nat \<Rightarrow> load_store \<Rightarrow> nat \<times> load_store" where
  "cachedLoad key ttlMs now s =
     (case entries s key of
        Some hit \<Rightarrow>
          if now < entry_at hit + ttlMs then (entry_value hit, s)
          else (next_promise s,
                \<lparr>entries = (entries s)(key \<mapsto> \<lparr>entry_at = now, entry_value = next_promise s\<rparr>),
                 next_promise = next_promise s + 1\<rparr>)
      | None \<Rightarrow>
          (next_promise s,
           \<lparr>entries = (entries s)(key \<mapsto> \<lparr>entry_at = now, entry_value = next_promise s\<rparr>),
            next_promise = next_promise s + 1\<rparr>))"

definition load_failed :: "string \<Rightarrow> nat \<Rightarrow> load_store \<Rightarrow> load_store" where
  "load_failed key p s =
     (case entries s key of
        Some e \<Rightarrow> if entry_value e = p then s \<lparr>entries := (entries s)(key := None)\<rparr> else s
      | None \<Rightarrow> s)"

definition invalidateCache :: "string \<Rightarrow> load_store \<Rightarrow> load_store" where
  "invalidateCache key s = s \<lparr>entries := (entries s)(key := None)\<rparr>"

section \<open>Session expiry\<close>

text \<open>Sign-ins and settled requests in any order.\<close>

inductive session_step :: "client \<times> nat \<Rightarrow> client \<times> nat \<Rightarrow> bool" where
  sign_in: "session_step (c, n) (setAuthToken t c, n + 1)"
| sign_out: "session_step (c, n) (clearAuthToken c, n)"
| settled: "session_step (c, n) (snd (settle_run opts answer c), n)"

definition session_init :: client where
  "session_init = \<lparr>inMemoryToken = None, sessionExpiredNotified = False, expired_events = 0\<rparr>"

definition expiry_inv :: "client \<times> nat \<Rightarrow> bool" where
  "expiry_inv s \<longleftrightarrow>
     expired_events (fst s) + (if sessionExpiredNotified (fst s) then 0 else 1) \<le> snd s + 1"

lemma settle_run_expiry:
  "expiry_inv (c, n) \<Longrightarrow> expiry_inv (snd (settle_run opts answer c), n)"
  by (auto simp: settle_run_def expiry_inv_def noteSessionExpiredOnce_def clearAuthToken_def
      split: sum.split if_splits)

lemma session_step_expiry: "session_step s t \<Longrightarrow> expiry_inv s \<Longrightarrow> expiry_inv t"
proof (induction rule: session_step.induct)
  case (settled c n opts answer)
  then show ?case by (rule settle_run_expiry)
qed (auto simp: expiry_inv_def setAuthToken_def clearAuthToken_def split: if_splits)

lemma session_run_expiry: "session_step\<^sup>*\<^sup>* s t \<Longrightarrow> expiry_inv s \<Longrightarrow> expiry_inv t"
  by (induction rule: rtranclp_induct) (auto intro: session_step_expiry)

section \<open>Keys\<close>

lemma bit_char_inj [simp]: "bit_char a = bit_char b \<longleftrightarrow> a = b"
  by (simp add: bit_char_def)

lemma get_key_inj:
  "cacheKey ''GET'' url opts = cacheKey ''GET'' url' opts' \<longleftrightarrow>
     url = url' \<and> preserve401 opts = preserve401 opts' \<and> preserve404 opts = preserve404 opts'
     \<and> preserve410 opts = preserve410 opts'"
  by (auto simp: cacheKey_def)

section \<open>Properties\<close>

text \<open>
  An expired session is announced once: whatever requests fail with 401 and in whatever order
  they settle, there are no more announcements than sign-ins and one for the time before them.
\<close>

theorem expiry_announced_once:
  assumes "session_step\<^sup>*\<^sup>* (session_init, 0) (c, n)"
  shows "expired_events c \<le> n + 1"
proof -
  have "expiry_inv (session_init, 0)" by (simp add: expiry_inv_def session_init_def)
  from session_run_expiry [OF assms this] show ?thesis by (simp add: expiry_inv_def split: if_splits)
qed

definition plain_get :: "nat \<Rightarrow> api_options" where
  "plain_get ttl = \<lparr>opt_auth = True, preserve401 = False, preserve404 = False, preserve410 = False,
     preserve403 = False, preserve503 = False, cacheTtlMs = ttl\<rparr>"

definition answer_401 :: response where
  "answer_401 = \<lparr>status = 401, statusText = [], body_text = []\<rparr>"

theorem expiry_announced_once_witness:
  "expired_events (snd (settle_run (plain_get 0) (Ok answer_401)
     (snd (settle_run (plain_get 0) (Ok answer_401) session_init)))) \<le> 1"
proof -
  have "session_step\<^sup>*\<^sup>* (session_init, 0) (snd (settle_run (plain_get 0) (Ok answer_401)
     (snd (settle_run (plain_get 0) (Ok answer_401) session_init))), 0)"
    by (rule rtranclp.rtrancl_into_rtrancl [OF r_into_rtranclp]; rule settled)
  from expiry_announced_once [OF this] show ?thesis by simp
qed

text \<open>
  A 401 is not tied to the session its request was sent in: one that arrives after a new sign-in
  drops the new session's token and announces its expiry.
\<close>

theorem late_401_ends_new_session:
  assumes "status r = 401" and "\<not> preserve401 opts"
  shows "inMemoryToken (snd (settle_run opts (Ok r) (setAuthToken token c))) = None \<and>
    expired_events (snd (settle_run opts (Ok r) (setAuthToken token c))) = expired_events c + 1"
  using assms by (simp add: settle_run_def noteSessionExpiredOnce_def clearAuthToken_def setAuthToken_def)

theorem late_401_ends_new_session_witness:
  "inMemoryToken (snd (settle_run (plain_get 0) (Ok answer_401) (setAuthToken ''new'' session_init))) = None"
  using late_401_ends_new_session [of answer_401 "plain_get 0" "''new''" session_init]
  by (simp add: answer_401_def plain_get_def)

text \<open>
  A mutation clears the cache when it starts, but a GET already in flight is neither dropped nor
  marked: it is shared with callers that ask after the mutation, and its answer, of before the
  mutation, is cached and served for the whole time to live.
\<close>

theorem stale_after_mutation:
  assumes "getCache g key = None" and "inflightGets g key = None"
    and "0 < cacheTtlMs opts" and "ok_response before" and "later < now + cacheTtlMs opts"
    and "g1 = snd (begin_get key opts t0 g)" and "g2 = invalidateGetCache g1"
    and "g3 = after_get key opts now (Ok before) (finish_get key g2)"
  shows "fst (begin_get key opts t1 g2) = Shared (next_run g) \<and> fst (begin_get key opts later g3) = Hit before"
  using assms by (simp add: begin_get_def invalidateGetCache_def finish_get_def after_get_def)

definition empty_gets :: get_state where
  "empty_gets = \<lparr>getCache = (\<lambda>_. None), inflightGets = (\<lambda>_. None), next_run = 0\<rparr>"

theorem stale_after_mutation_witness:
  "fst (begin_get ''k'' (plain_get 1000) 900
     (after_get ''k'' (plain_get 1000) 500 (Ok \<lparr>status = 200, statusText = ''OK'', body_text = ''old''\<rparr>)
       (finish_get ''k'' (invalidateGetCache (snd (begin_get ''k'' (plain_get 1000) 0 empty_gets))))))
   = Hit \<lparr>status = 200, statusText = ''OK'', body_text = ''old''\<rparr>"
proof -
  let ?r = "\<lparr>status = 200, statusText = ''OK'', body_text = ''old''\<rparr>"
  have "getCache empty_gets ''k'' = None" "inflightGets empty_gets ''k'' = None"
    "0 < cacheTtlMs (plain_get 1000)" "ok_response ?r" "900 < 500 + cacheTtlMs (plain_get 1000)"
    by (simp_all add: empty_gets_def plain_get_def ok_response_def)
  from stale_after_mutation [OF this refl refl refl] show ?thesis by blast
qed

text \<open>
  Two GETs share a request or a cached answer only if they ask for the same URL and treat 401,
  404 and 410 alike; 403 and 503 are not part of the key.
\<close>

theorem cache_key_separates:
  "cacheKey ''GET'' url opts = cacheKey ''GET'' url' opts' \<longleftrightarrow>
     url = url' \<and> preserve401 opts = preserve401 opts' \<and> preserve404 opts = preserve404 opts'
     \<and> preserve410 opts = preserve410 opts'"
  by (rule get_key_inj)

text \<open>
  The promise cache runs one load per key and time to live: asking again in time gives the same
  promise, a failed load is forgotten, and the failure of a load that has been replaced does not
  touch its successor.
\<close>

theorem cached_load_shared:
  assumes "cachedLoad key ttl now s = (p, s1)" and "later < now + ttl"
    and "entries s key = None" and "q \<noteq> p"
  shows "cachedLoad key ttl later s1 = (p, s1) \<and> entries (load_failed key p s1) key = None \<and>
    load_failed key q s1 = s1"
  using assms by (auto simp: cachedLoad_def load_failed_def)

theorem cached_load_shared_witness:
  "fst (cachedLoad ''k'' 10 5 (snd (cachedLoad ''k'' 10 0 \<lparr>entries = (\<lambda>_. None), next_promise = 7\<rparr>))) = 7"
proof -
  have "cachedLoad ''k'' 10 0 \<lparr>entries = (\<lambda>_. None), next_promise = 7\<rparr>
      = (7, snd (cachedLoad ''k'' 10 0 \<lparr>entries = (\<lambda>_. None), next_promise = 7\<rparr>))"
    by (simp add: cachedLoad_def)
  from cached_load_shared [OF this, of 5 0] show ?thesis by simp
qed

end
