(* ===== verification/Auth_Session.thy ===== *)
theory Auth_Session
  imports Org_Keys Access_Control
begin

text \<open>
  The session: \<open>auth/AuthContext.tsx\<close> and \<open>auth/bootToken.ts\<close>. The pairs of the URL's fragment, as
  \<open>URLSearchParams\<close> reads them, the clock, random draws and the server's answers are arguments.
  What the session leaves in the window (the home snapshots, the open mail, chat, note and
  repository, the theme, the font) is a list of names.
\<close>

section \<open>Tokens\<close>

definition from_url_char :: "char \<Rightarrow> char" where
  "from_url_char c = (if c = CHR ''-'' then CHR ''+'' else if c = CHR ''_'' then CHR ''/'' else c)"

definition decodeBase64Url :: "('aes, 'pub, 'priv) webcrypto \<Rightarrow> string \<Rightarrow> string result" where
  "decodeBase64Url wc v =
     (let normalized = map from_url_char v;
          padding = (4 - length normalized mod 4) mod 4
      in bind_result (subtle (atob wc (normalized @ replicate padding (CHR ''='')))) (\<lambda>bytes.
         Ok (utf8_decode wc bytes)))"

text \<open>An expiry that is not an integer literal is not modelled: it counts as none.\<close>

definition json_int :: "json \<Rightarrow> int option" where
  "json_int v =
     (case v of
        JNum (c # u) \<Rightarrow>
          if list_all is_digit (c # u) then Some (int (nat_val (c # u)))
          else if c = CHR ''-'' \<and> u \<noteq> [] \<and> list_all is_digit u then Some (- int (nat_val u))
          else None
      | _ \<Rightarrow> None)"

text \<open>\<open>parseJwt\<close> as the parsed value; \<open>null.exp\<close> throws, which is caught.\<close>

definition parseJwt :: "('aes, 'pub, 'priv) webcrypto \<Rightarrow> int \<Rightarrow> string \<Rightarrow> json option" where
  "parseJwt wc now token =
     (case split_on (CHR ''.'') token of
        h # p # rest \<Rightarrow>
          (case bind_result (decodeBase64Url wc p) json_parse of
             Throw e \<Rightarrow> None
           | Ok v \<Rightarrow>
               if v = JNull then None
               else (case Option.bind (field v ''exp'') json_int of
                       Some e \<Rightarrow> if e * 1000 < now then None else Some v
                     | None \<Rightarrow> Some v))
      | _ \<Rightarrow> None)"

record boot =
  boot_token :: "string option"
  isFreshSignup :: bool
  fragment_cleaned :: bool
  sidebar_expanded :: bool

definition has_param :: "(string \<times> string) list \<Rightarrow> string \<Rightarrow> bool" where
  "has_param ps k \<longleftrightarrow> map_of ps k \<noteq> None"

definition resolveBootToken :: "(string \<times> string) list \<Rightarrow> string option \<Rightarrow> boot" where
  "resolveBootToken ps stored =
     (let isSignup = has_param ps ''signup'';
          isOAuthLanding = (isSignup \<or> has_param ps ''connected'' \<or> has_param ps ''sso'');
          fresh = ((isSignup \<or> has_param ps ''sso'') \<and> map_of ps ''new'' = Some ''true'')
      in if isOAuthLanding
         then \<lparr>boot_token = (case map_of ps ''token'' of
                 Some t \<Rightarrow> Some t | None \<Rightarrow> stored),
               isFreshSignup = fresh, fragment_cleaned = True,
               sidebar_expanded = (isSignup \<or> has_param ps ''sso'')\<rparr>
         else \<lparr>boot_token = stored, isFreshSignup = False, fragment_cleaned = False, sidebar_expanded = False\<rparr>)"

section \<open>The account shown\<close>

text \<open>The answer of \<open>/api/me\<close>; a missing or null field is \<open>None\<close>.\<close>

record me =
  d_id :: nat
  d_email :: string
  d_username :: "string option"
  d_account_type :: "string option"
  d_effective_role :: "string option"
  d_role_label :: "string option"
  d_scope :: "string option"
  d_permissions :: "string list option"
  d_is_primary_owner :: "bool option"
  d_mode :: "string option"
  d_can_switch_admin :: "bool option"
  d_organization_id :: "nat option"
  d_organization_slug :: "string option"
  d_organization_name :: "string option"
  d_current_plan :: "string option" \<comment> \<open>the code of the plan\<close>
  d_theme_json :: "string option"
  d_chat_encrypt_files :: "bool option"
  d_meeting_alert_minutes :: "nat option"

text \<open>\<open>UserType\<close>; a field that is absent, or null, is \<open>None\<close>.\<close>

record user_account =
  a_id :: nat
  a_email :: string
  a_username :: "string option"
  a_account_type :: account_kind
  a_effective_role :: "string option"
  a_role_label :: "string option"
  a_scope :: "string option"
  a_permissions :: "string list"
  a_is_primary_owner :: "bool option"
  a_mode :: "string option"
  a_can_switch_admin :: "bool option"
  a_organization_id :: "nat option"
  a_organization_slug :: "string option"
  a_organization_name :: "string option"
  a_current_plan :: "string option"
  a_recovery_mode :: "string option"
  a_theme_json :: "string option"
  a_chat_encrypt_files :: "bool option"
  a_meeting_alert_minutes :: "nat option"

definition boot_account :: "me \<Rightarrow> user_account" where
  "boot_account d =
     \<lparr>a_id = d_id d, a_email = d_email d, a_username = d_username d,
      a_account_type = normalizeAccountType (d_account_type d), a_effective_role = d_effective_role d,
      a_role_label = d_role_label d, a_scope = d_scope d, a_permissions = nullish (d_permissions d) [],
      a_is_primary_owner = Some (nullish (d_is_primary_owner d) False),
      a_mode = Some (if d_mode d = Some ''admin'' then ''admin'' else ''normal''),
      a_can_switch_admin = Some (nullish (d_can_switch_admin d) False),
      a_organization_id = d_organization_id d, a_organization_slug = d_organization_slug d,
      a_organization_name = d_organization_name d, a_current_plan = d_current_plan d,
      a_recovery_mode = Some ''full'', a_theme_json = d_theme_json d,
      a_chat_encrypt_files = Some (nullish (d_chat_encrypt_files d) True),
      a_meeting_alert_minutes = Some (nullish (d_meeting_alert_minutes d) 10)\<rparr>"

definition refresh_account :: "me \<Rightarrow> user_account" where
  "refresh_account d =
     \<lparr>a_id = d_id d, a_email = d_email d, a_username = d_username d,
      a_account_type = normalizeAccountType (d_account_type d), a_effective_role = d_effective_role d,
      a_role_label = d_role_label d, a_scope = d_scope d, a_permissions = nullish (d_permissions d) [],
      a_is_primary_owner = Some (nullish (d_is_primary_owner d) False),
      a_mode = Some (if d_mode d = Some ''admin'' then ''admin'' else ''normal''),
      a_can_switch_admin = Some (nullish (d_can_switch_admin d) False),
      a_organization_id = d_organization_id d, a_organization_slug = d_organization_slug d,
      a_organization_name = d_organization_name d, a_current_plan = d_current_plan d,
      a_recovery_mode = Some ''full'', a_theme_json = d_theme_json d,
      a_chat_encrypt_files = Some (nullish (d_chat_encrypt_files d) True),
      a_meeting_alert_minutes = Some (nullish (d_meeting_alert_minutes d) 10)\<rparr>"

definition login_account :: "me \<Rightarrow> user_account" where
  "login_account d =
     \<lparr>a_id = d_id d, a_email = d_email d, a_username = d_username d,
      a_account_type = normalizeAccountType (d_account_type d), a_effective_role = d_effective_role d,
      a_role_label = d_role_label d, a_scope = d_scope d, a_permissions = nullish (d_permissions d) [],
      a_is_primary_owner = Some (nullish (d_is_primary_owner d) False),
      a_mode = Some (if d_mode d = Some ''admin'' then ''admin'' else ''normal''),
      a_can_switch_admin = Some (nullish (d_can_switch_admin d) False),
      a_organization_id = d_organization_id d, a_organization_slug = d_organization_slug d,
      a_organization_name = d_organization_name d, a_current_plan = d_current_plan d,
      a_recovery_mode = Some ''full'', a_theme_json = d_theme_json d,
      a_chat_encrypt_files = None, a_meeting_alert_minutes = None\<rparr>"

text \<open>The claims of a token that the session reads.\<close>

record claims =
  sub :: nat
  c_email :: string
  c_account_type :: "string option"
  c_organization_id :: "nat option"

definition claims_account :: "claims \<Rightarrow> string option \<Rightarrow> user_account" where
  "claims_account c kind =
     (let access = defaultAccessForAccount kind in
      \<lparr>a_id = sub c, a_email = c_email c, a_username = None, a_account_type = normalizeAccountType kind,
       a_effective_role = Some (da_effective_role access), a_role_label = Some (da_role_label access),
       a_scope = Some (da_scope access), a_permissions = da_permissions access,
       a_is_primary_owner = None, a_mode = None, a_can_switch_admin = None,
       a_organization_id = c_organization_id c, a_organization_slug = None, a_organization_name = None,
       a_current_plan = None, a_recovery_mode = None, a_theme_json = None,
       a_chat_encrypt_files = None, a_meeting_alert_minutes = None\<rparr>)"

text \<open>The comparison that keeps the account of the last render.\<close>

definition same_account :: "user_account \<Rightarrow> user_account \<Rightarrow> bool" where
  "same_account p n \<longleftrightarrow>
     a_id p = a_id n \<and> a_email p = a_email n \<and> a_account_type p = a_account_type n
     \<and> a_effective_role p = a_effective_role n \<and> a_role_label p = a_role_label n \<and> a_scope p = a_scope n
     \<and> join '','' (a_permissions p) = join '','' (a_permissions n)
     \<and> a_organization_id p = a_organization_id n \<and> a_organization_slug p = a_organization_slug n
     \<and> a_organization_name p = a_organization_name n \<and> a_username p = a_username n
     \<and> a_recovery_mode p = a_recovery_mode n \<and> a_theme_json p = a_theme_json n
     \<and> a_meeting_alert_minutes p = a_meeting_alert_minutes n \<and> a_current_plan p = a_current_plan n"

definition patch_account :: "user_account option \<Rightarrow> user_account \<Rightarrow> user_account option" where
  "patch_account prev next =
     (case prev of Some p \<Rightarrow> if same_account p next then prev else Some next | None \<Rightarrow> Some next)"

section \<open>Setting up the keys\<close>

text \<open>
  What the pending confirmation will wrap: the phrase with the pair it was made for, and whether
  the server's old copy is dropped afterwards.
\<close>

record 'priv wrap_job =
  phrase :: string
  job_private :: 'priv
  job_public :: bytes
  drops_basic_key :: bool

text \<open>A running setup: the device's store, what went to the server, and what the user is asked.\<close>

record 'priv key_setup =
  device :: key_db
  published_key :: "bytes option"
  login_wrap :: "pbkdf2_wrap option"
  asks_phrase :: bool
  setup_job :: "'priv wrap_job option"

text \<open>The draws and the answers a setup may use.\<close>

record 'priv draws =
  new_private :: 'priv
  new_public :: bytes
  entropy :: bytes
  salt :: bytes
  iv :: bytes

record setup_answers =
  wrapped_status :: nat
  wrapped_body :: "wrapped_key result"
  basic_status :: nat
  basic_body :: "string result" \<comment> \<open>the field \<open>pkcs8\<close>\<close>
  publish_answer :: "unit result"
  login_wrap_answer :: "unit result"

definition fetchWrappedKey :: "setup_answers \<Rightarrow> wrapped_key option result" where
  "fetchWrappedKey r = (if wrapped_status r = 404 then Ok None else map_sum id Some (wrapped_body r))"

definition fetchBasicKey :: "('aes, 'pub, 'priv) webcrypto \<Rightarrow> setup_answers \<Rightarrow> bytes option result" where
  "fetchBasicKey wc r =
     (if basic_status r = 404 then Ok None
      else bind_result (basic_body r) (\<lambda>pkcs8. map_sum id Some (subtle (atob wc pkcs8))))"

text \<open>The body of the \<open>try\<close>: each step says whether the next one runs; what was done stays.\<close>

type_synonym 'priv progress = "'priv key_setup \<times> bool"

definition then_do :: "'priv progress \<Rightarrow> ('priv key_setup \<Rightarrow> 'priv progress) \<Rightarrow> 'priv progress" where
  "then_do p f = (if snd p then f (fst p) else p)"

definition save_private ::
  "('aes, 'pub, 'priv) webcrypto \<Rightarrow> 'priv \<Rightarrow> nat \<Rightarrow> string \<Rightarrow> 'priv key_setup \<Rightarrow> 'priv progress" where
  "save_private wc k u email w =
     (case savePrivateKey wc k (Some u) (Some email) (device w) of
        Throw e \<Rightarrow> (w, False) | Ok db \<Rightarrow> (w \<lparr>device := db\<rparr>, True))"

definition save_public :: "bytes \<Rightarrow> nat \<Rightarrow> string \<Rightarrow> 'priv key_setup \<Rightarrow> 'priv progress" where
  "save_public k u email w =
     (case savePublicKey k (Some u) (Some email) (device w) of
        Throw e \<Rightarrow> (w, False) | Ok db \<Rightarrow> (w \<lparr>device := db\<rparr>, True))"

definition publishPublicKey :: "setup_answers \<Rightarrow> bytes \<Rightarrow> 'priv key_setup \<Rightarrow> 'priv progress" where
  "publishPublicKey r k w =
     (case publish_answer r of Throw e \<Rightarrow> (w, False) | Ok _ \<Rightarrow> (w \<lparr>published_key := Some k\<rparr>, True))"

definition uploadPasswordLoginWrap ::
  "('aes, 'pub, 'priv) webcrypto \<Rightarrow> 'priv draws \<Rightarrow> 'priv \<Rightarrow> string \<Rightarrow> pbkdf2_wrap" where
  "uploadPasswordLoginWrap wc g privateKey password =
     pbkdf2_seal wc (utf8_encode wc password) (salt g) (iv g) (export_pkcs8 wc privateKey)"

text \<open>The upload happens for a non-empty password, and its failure is only logged.\<close>

definition wrap_login ::
  "('aes, 'pub, 'priv) webcrypto \<Rightarrow> 'priv draws \<Rightarrow> setup_answers \<Rightarrow> string option \<Rightarrow> 'priv key_setup \<Rightarrow> 'priv progress" where
  "wrap_login wc g r password w =
     (case password of
        Some (c # p) \<Rightarrow>
          (case login_wrap_answer r of
             Ok _ \<Rightarrow> (w \<lparr>login_wrap := Some (uploadPasswordLoginWrap wc g (new_private g) (c # p))\<rparr>, True)
           | Throw e \<Rightarrow> (w, True))
      | _ \<Rightarrow> (w, True))"

definition show_phrase ::
  "('aes, 'pub, 'priv) webcrypto \<Rightarrow> 'priv draws \<Rightarrow> 'priv \<Rightarrow> bytes \<Rightarrow> bool \<Rightarrow> 'priv key_setup \<Rightarrow> 'priv progress" where
  "show_phrase wc g k pub legacy w =
     (case generateMnemonic wc (entropy g) of
        Throw e \<Rightarrow> (w, False)
      | Ok m \<Rightarrow> (w \<lparr>setup_job := Some \<lparr>phrase = m, job_private = k, job_public = pub,
                                    drops_basic_key = legacy\<rparr>\<rparr>, True))"

definition generate_keys ::
  "('aes, 'pub, 'priv) webcrypto \<Rightarrow> 'priv draws \<Rightarrow> setup_answers \<Rightarrow> nat \<Rightarrow> string \<Rightarrow> string option
   \<Rightarrow> 'priv key_setup \<Rightarrow> 'priv progress" where
  "generate_keys wc g r u email password w =
     then_do (then_do (then_do (then_do (save_private wc (new_private g) u email w)
       (save_public (new_public g) u email))
       (publishPublicKey r (new_public g)))
       (wrap_login wc g r password))
       (show_phrase wc g (new_private g) (new_public g) False)"

text \<open>\<open>importPkcs8AndDerivePublicSpki\<close> and what follows it.\<close>

definition migrate_keys ::
  "('aes, 'pub, 'priv) webcrypto \<Rightarrow> ('priv \<Rightarrow> bytes option) \<Rightarrow> 'priv draws \<Rightarrow> setup_answers \<Rightarrow> nat \<Rightarrow> string
   \<Rightarrow> bytes \<Rightarrow> 'priv key_setup \<Rightarrow> 'priv progress" where
  "migrate_keys wc jwk_public g r u email pkcs8 w =
     (case bind_result (subtle (import_pkcs8 wc pkcs8)) (\<lambda>k.
             bind_result (subtle (jwk_public k)) (\<lambda>pub. Ok (k, pub))) of
        Throw e \<Rightarrow> (w, False)
      | Ok (k, pub) \<Rightarrow>
          then_do (then_do (then_do (save_private wc k u email w)
            (save_public pub u email))
            (publishPublicKey r pub))
            (show_phrase wc g k pub True))"

definition setup_missing ::
  "('aes, 'pub, 'priv) webcrypto \<Rightarrow> ('priv \<Rightarrow> bytes option) \<Rightarrow> 'priv draws \<Rightarrow> setup_answers \<Rightarrow> nat \<Rightarrow> string
   \<Rightarrow> string option \<Rightarrow> 'priv key_setup \<Rightarrow> 'priv progress" where
  "setup_missing wc jwk_public g r u email password w =
     (case fetchWrappedKey r of
        Throw e \<Rightarrow> (w, False)
      | Ok (Some envelope) \<Rightarrow> (w \<lparr>asks_phrase := True\<rparr>, True)
      | Ok None \<Rightarrow>
          (case or_else None (fetchBasicKey wc r) of
             Some pkcs8 \<Rightarrow> migrate_keys wc jwk_public g r u email pkcs8 w
           | None \<Rightarrow> generate_keys wc g r u email password w))"

definition setupEncryption ::
  "('aes, 'pub, 'priv) webcrypto \<Rightarrow> ('priv \<Rightarrow> bytes option) \<Rightarrow> 'priv draws \<Rightarrow> setup_answers \<Rightarrow> bool \<Rightarrow> nat \<Rightarrow> string
   \<Rightarrow> string option \<Rightarrow> 'priv key_setup \<Rightarrow> 'priv key_setup" where
  "setupEncryption wc jwk_public g r fresh u email password w =
     fst (if fresh then generate_keys wc g r u email password w
          else (case loadPrivateKey wc (Some u) (Some email) (device w) of
            Throw e \<Rightarrow> (w, False)
          | Ok (k, db1) \<Rightarrow>
              (case loadPublicKey (Some u) (Some email) db1 of
                 Throw e \<Rightarrow> (w \<lparr>device := db1\<rparr>, False)
               | Ok (p, db2) \<Rightarrow>
                   (case (k, p) of
                      (Some k', Some p') \<Rightarrow> publishPublicKey r p' (w \<lparr>device := db2\<rparr>)
                    | _ \<Rightarrow> setup_missing wc jwk_public g r u email password (w \<lparr>device := db2\<rparr>)))))"

text \<open>The closure the confirmation runs: the envelope it uploads.\<close>

definition run_wrap_job ::
  "('aes, 'pub, 'priv) webcrypto \<Rightarrow> bytes \<Rightarrow> 'priv wrap_job \<Rightarrow> wrapped_key result" where
  "run_wrap_job wc vec j =
     bind_result (mnemonicToEntropy wc (phrase j)) (\<lambda>e.
     Ok (wrapKeysForRecovery wc vec (job_private j) (job_public j) e))"

section \<open>The session\<close>

record 'priv auth =
  authVersion :: nat
  auth_token :: "string option"
  current :: "user_account option"
  initializing :: bool
  pending_job :: "'priv wrap_job option"
  wrapBusy :: bool
  wrapError :: "string option"
  needsRecovery :: bool
  store :: key_db
  remembered :: "string list"
  sidebar :: "string option"
  idle_notice :: bool
  leaving_to :: "string option"

definition SNAPSHOTS :: "string list" where
  "SNAPSHOTS = [''home'', ''email'', ''chat'', ''note'', ''repo'', ''theme'']"

definition forget_session :: "string list \<Rightarrow> 'priv auth \<Rightarrow> 'priv auth" where
  "forget_session names s = s \<lparr>remembered := filter (\<lambda>n. n \<notin> set names) (remembered s)\<rparr>"

text \<open>The first render, then the answer of \<open>/api/me\<close>.\<close>

definition first_account :: "claims option \<Rightarrow> user_account option" where
  "first_account c = map_option (\<lambda>x. claims_account x (c_account_type x)) c"

definition boot_unauthorized :: "'priv auth \<Rightarrow> 'priv auth" where
  "boot_unauthorized s =
     (if authVersion s > 0 then s else s \<lparr>auth_token := None, current := None\<rparr>) \<lparr>initializing := False\<rparr>"

definition boot_failed :: "'priv auth \<Rightarrow> 'priv auth" where
  "boot_failed s = s \<lparr>initializing := False\<rparr>"

definition boot_answer :: "me \<Rightarrow> 'priv auth \<Rightarrow> 'priv auth" where
  "boot_answer d s = s \<lparr>current := patch_account (current s) (boot_account d), initializing := False\<rparr>"

text \<open>Signing in: the claims are those of \<open>parseJwt\<close>; without them no profile is asked for.\<close>

definition begin_login :: "string \<Rightarrow> claims option \<Rightarrow> string option \<Rightarrow> 'priv auth \<Rightarrow> 'priv auth" where
  "begin_login token decoded accountType s =
     (let s1 = s \<lparr>authVersion := authVersion s + 1, auth_token := Some token, sidebar := Some ''0'',
                  initializing := False\<rparr>
      in case decoded of
           None \<Rightarrow> s1
         | Some c \<Rightarrow>
             s1 \<lparr>current := Some (claims_account c
               (case accountType of Some k \<Rightarrow> Some k | None \<Rightarrow> c_account_type c))\<rparr>)"

definition finish_login_profile :: "me result \<Rightarrow> 'priv auth \<Rightarrow> 'priv auth" where
  "finish_login_profile answer s =
     (case answer of Ok d \<Rightarrow> s \<lparr>current := Some (login_account d)\<rparr> | Throw e \<Rightarrow> s)"

text \<open>A setup works on the device's store and leaves its questions in the session.\<close>

definition start_setup :: "'priv auth \<Rightarrow> 'priv key_setup" where
  "start_setup s =
     \<lparr>device = store s, published_key = None, login_wrap = None, asks_phrase = False, setup_job = None\<rparr>"

definition end_setup :: "'priv key_setup \<Rightarrow> 'priv auth \<Rightarrow> 'priv auth" where
  "end_setup w s =
     s \<lparr>store := device w, needsRecovery := needsRecovery s \<or> asks_phrase w,
        pending_job := (case setup_job w of Some j \<Rightarrow> Some j | None \<Rightarrow> pending_job s)\<rparr>"

text \<open>
  \<open>handleRecoveryConfirmed\<close>: the upload goes to the account of the token then in use. \<open>Error m\<close>
  stands for any error object with the message \<open>m\<close>.
\<close>

definition begin_confirm :: "'priv auth \<Rightarrow> 'priv auth" where
  "begin_confirm s = (if pending_job s = None then s else s \<lparr>wrapBusy := True, wrapError := None\<rparr>)"

definition confirm_upload ::
  "('aes, 'pub, 'priv) webcrypto \<Rightarrow> bytes \<Rightarrow> 'priv auth \<Rightarrow> (string option \<times> wrapped_key result) option" where
  "confirm_upload wc vec s = map_option (\<lambda>j. (auth_token s, run_wrap_job wc vec j)) (pending_job s)"

definition finish_confirm :: "unit result \<Rightarrow> 'priv auth \<Rightarrow> 'priv auth" where
  "finish_confirm answer s =
     (case answer of
        Ok _ \<Rightarrow> s \<lparr>pending_job := None, wrapBusy := False\<rparr>
      | Throw e \<Rightarrow>
          s \<lparr>wrapError := Some (case e of Error m \<Rightarrow> ''Couldn't save recovery copy: '' @ m
              | _ \<Rightarrow> ''Couldn't save recovery copy. Try again.''), wrapBusy := False\<rparr>)"

definition session_expired :: "'priv auth \<Rightarrow> 'priv auth" where
  "session_expired s =
     (forget_session SNAPSHOTS s)
       \<lparr>authVersion := authVersion s + 1, auth_token := None, current := None, needsRecovery := False\<rparr>"

text \<open>The account stays until the page is left, which happens once the request ended or two seconds passed.\<close>

definition logout :: "bool \<Rightarrow> 'priv auth \<Rightarrow> 'priv auth" where
  "logout idle s =
     (forget_session (SNAPSHOTS @ [''font'']) s)
       \<lparr>authVersion := authVersion s + 1, auth_token := None, store := clearKeys (store s),
        needsRecovery := False, idle_notice := idle_notice s \<or> idle\<rparr>"

definition leave_page :: "bool \<Rightarrow> bool \<Rightarrow> 'priv auth \<Rightarrow> 'priv auth" where
  "leave_page idle desktop s = s \<lparr>leaving_to := Some (if idle \<or> desktop then ''/login'' else ''/'')\<rparr>"

definition finish_refresh :: "me option \<Rightarrow> 'priv auth \<Rightarrow> 'priv auth" where
  "finish_refresh answer s =
     (case answer of Some d \<Rightarrow> s \<lparr>current := Some (refresh_account d)\<rparr> | None \<Rightarrow> s)"

text \<open>\<open>switchMode\<close>: a refusal throws; a token in the answer replaces the one in memory.\<close>

definition finish_switch :: "nat \<Rightarrow> string option \<Rightarrow> 'priv auth \<Rightarrow> 'priv auth result" where
  "finish_switch http token s =
     (if \<not> (200 \<le> http \<and> http \<le> 299) then Throw (Error (''Failed to switch mode ('' @ nat_str http @ '')''))
      else Ok (case token of Some (c # t) \<Rightarrow> s \<lparr>auth_token := Some (c # t)\<rparr> | _ \<Rightarrow> s))"


section \<open>What a setup does\<close>

lemma then_do_simps [simp]: "then_do (w, True) f = f w" "then_do (w, False) f = (w, False)"
  by (simp_all add: then_do_def)

lemma save_pair:
  assumes "db_opens (device w)"
  obtains db where "then_do (save_private wc k u email w) (save_public p u email) = (w \<lparr>device := db\<rparr>, True)"
    and "key_pair_saved wc k p (Some u) (Some email) (device w) db"
proof -
  obtain db1 where d1: "savePrivateKey wc k (Some u) (Some email) (device w) = Ok db1" "db_opens db1"
    using assms by (auto simp: savePrivateKey_def putAll_def)
  then obtain db where d2: "savePublicKey p (Some u) (Some email) db1 = Ok db" by (auto simp: savePublicKey_def)
  from d1 d2 show thesis
    by (intro that [of db]) (simp_all add: save_private_def save_public_def key_pair_saved_def)
qed

lemma wrap_login_fields:
  "snd (wrap_login wc g r password w)"
  "device (fst (wrap_login wc g r password w)) = device w"
  "published_key (fst (wrap_login wc g r password w)) = published_key w"
  "setup_job (fst (wrap_login wc g r password w)) = setup_job w"
  by (simp_all add: wrap_login_def split: option.split list.split sum.split)

lemma after_wrap_login: "then_do (wrap_login wc g r password w) f = f (fst (wrap_login wc g r password w))"
  by (simp add: then_do_def wrap_login_fields)

lemma show_phrase_ok:
  assumes "webcrypto_ok wc" and "length (entropy g) = 32"
  obtains m where "show_phrase wc g k p legacy w =
      (w \<lparr>setup_job := Some \<lparr>phrase = m, job_private = k, job_public = p, drops_basic_key = legacy\<rparr>\<rparr>, True)"
    and "generateMnemonic wc (entropy g) = Ok m" and "mnemonicToEntropy wc m = Ok (entropy g)"
proof -
  obtain m where m: "mnemonicToEntropy wc m = Ok (entropy g)" "generateMnemonic wc (entropy g) = Ok m"
    using generated_phrase_reads [OF assms] by blast
  then show thesis by (intro that [where m = m]) (simp_all add: show_phrase_def)
qed

lemma generated_keys:
  assumes "webcrypto_ok wc" and "db_opens (device w)" and "length (entropy g) = 32" and "publish_answer r = Ok ()"
  obtains db v m where
    "generate_keys wc g r u email password w =
      (v \<lparr>setup_job := Some \<lparr>phrase = m, job_private = new_private g, job_public = new_public g,
        drops_basic_key = False\<rparr>\<rparr>, True)"
    and "v = fst (wrap_login wc g r password (w \<lparr>device := db, published_key := Some (new_public g)\<rparr>))"
    and "key_pair_saved wc (new_private g) (new_public g) (Some u) (Some email) (device w) db"
    and "generateMnemonic wc (entropy g) = Ok m" and "mnemonicToEntropy wc m = Ok (entropy g)"
proof -
  obtain db where db: "then_do (save_private wc (new_private g) u email w) (save_public (new_public g) u email)
      = (w \<lparr>device := db\<rparr>, True)"
    and saved: "key_pair_saved wc (new_private g) (new_public g) (Some u) (Some email) (device w) db"
    by (rule save_pair [OF assms(2)])
  define v where "v = fst (wrap_login wc g r password (w \<lparr>device := db, published_key := Some (new_public g)\<rparr>))"
  obtain m where m: "show_phrase wc g (new_private g) (new_public g) False v =
      (v \<lparr>setup_job := Some \<lparr>phrase = m, job_private = new_private g, job_public = new_public g,
        drops_basic_key = False\<rparr>\<rparr>, True)"
    "generateMnemonic wc (entropy g) = Ok m" "mnemonicToEntropy wc m = Ok (entropy g)"
    by (rule show_phrase_ok [OF assms(1,3)])
  have "generate_keys wc g r u email password w = show_phrase wc g (new_private g) (new_public g) False v"
    by (simp add: generate_keys_def db publishPublicKey_def assms(4) after_wrap_login v_def)
  with m saved v_def show thesis by (intro that [where v = v and m = m and db = db]) simp_all
qed

section \<open>Properties\<close>

text \<open>
  C5: A registration leaves its key pair on the device and its public key at the server, and the phrase
  it shows, once confirmed, is worth the keys: whoever types it on another device gets the pair back.
\<close>

theorem signup_phrase_recovers:
  assumes "webcrypto_ok wc" and "db_opens (device w)" and "db_opens db" and "length (entropy g) = 32"
    and "publish_answer r = Ok ()" and "generateMnemonic wc (entropy g) = Ok (normalizeMnemonicInput typed)"
  shows "\<exists>j env db2. let v = setupEncryption wc jwk_public g r True u email password w in
    published_key v = Some (new_public g) \<and> setup_job v = Some j \<and>
    key_pair_saved wc (new_private g) (new_public g) (Some u) (Some email) (device w) (device v) \<and>
    run_wrap_job wc vec j = Ok env \<and>
    bind_result (mnemonicToEntropy wc typed) (\<lambda>e. unwrapKeysFromRecovery wc db env e u (Some email))
      = Ok ((new_private g, new_public g), db2) \<and>
    key_pair_saved wc (new_private g) (new_public g) (Some u) (Some email) db db2"
proof -
  obtain db1 v m where v:
    "generate_keys wc g r u email password w =
      (v \<lparr>setup_job := Some \<lparr>phrase = m, job_private = new_private g, job_public = new_public g,
        drops_basic_key = False\<rparr>\<rparr>, True)"
    "v = fst (wrap_login wc g r password (w \<lparr>device := db1, published_key := Some (new_public g)\<rparr>))"
    "key_pair_saved wc (new_private g) (new_public g) (Some u) (Some email) (device w) db1"
    "generateMnemonic wc (entropy g) = Ok m" "mnemonicToEntropy wc m = Ok (entropy g)"
    by (rule generated_keys [OF assms(1,2,4,5)])
  obtain db2 where "unwrapKeysFromRecovery wc db
      (wrapKeysForRecovery wc vec (new_private g) (new_public g) (entropy g)) (entropy g) u (Some email)
      = Ok ((new_private g, new_public g), db2)"
    "key_pair_saved wc (new_private g) (new_public g) (Some u) (Some email) db db2"
    using recovery_saves [OF assms(1,3)] by blast
  moreover have "mnemonicToEntropy wc typed = Ok (entropy g)"
    by (rule typed_phrase_reads [OF assms(1,4,6)])
  ultimately show ?thesis
    using v by (simp add: setupEncryption_def wrap_login_fields run_wrap_job_def)
qed

text \<open>
  The password uploaded with the registration unlocks the keys: a login elsewhere that is given
  the wrap and the same password stores the same pair there.
\<close>

theorem login_wrap_unlocks:
  assumes "webcrypto_ok wc" and "db_opens (device w)" and "db_opens db" and "length (entropy g) = 32"
    and "publish_answer r = Ok ()" and "login_wrap_answer r = Ok ()" and "password \<noteq> []"
    and "jwk_public (new_private g) = Some (new_public g)"
  shows "\<exists>l db2. login_wrap (setupEncryption wc jwk_public g r True u email (Some password) w) = Some l \<and>
    unwrapAndCacheMemberKeys wc jwk_public db u email password l = Ok ((new_private g, new_public g), db2) \<and>
    key_pair_saved wc (new_private g) (new_public g) (Some u) (Some email) db db2"
proof -
  obtain db1 v m where v:
    "generate_keys wc g r u email (Some password) w =
      (v \<lparr>setup_job := Some \<lparr>phrase = m, job_private = new_private g, job_public = new_public g,
        drops_basic_key = False\<rparr>\<rparr>, True)"
    "v = fst (wrap_login wc g r (Some password) (w \<lparr>device := db1, published_key := Some (new_public g)\<rparr>))"
    by (rule generated_keys [OF assms(1,2,4,5)])
  have "login_wrap v = Some (uploadPasswordLoginWrap wc g (new_private g) password)"
    using assms(6,7) by (cases password) (simp_all add: v(2) wrap_login_def)
  then have l: "login_wrap (setupEncryption wc jwk_public g r True u email (Some password) w)
      = Some (uploadPasswordLoginWrap wc g (new_private g) password)"
    by (simp add: setupEncryption_def v(1))
  obtain db2 where "key_pair_saved wc (new_private g) (new_public g) (Some u) (Some email) db db2"
    using assms(3) by (auto simp: key_pair_saved_def savePrivateKey_def savePublicKey_def putAll_def)
  then show ?thesis using l
    by (auto simp: key_pair_saved_def bind_result_Ok_iff unwrapAndCacheMemberKeys_def uploadPasswordLoginWrap_def
        open_seal [OF assms(1)] webcrypto_okD [OF assms(1)] derivePublicKeyFromPrivate_def assms(8))
qed


definition demo_draws :: "byte draws" where
  "demo_draws = \<lparr>new_private = 7, new_public = [7], entropy = replicate 32 5, salt = [1], iv = [2]\<rparr>"

definition demo_answers :: setup_answers where
  "demo_answers =
     \<lparr>wrapped_status = 404, wrapped_body = Throw SyntaxError, basic_status = 404, basic_body = Throw SyntaxError,
      publish_answer = Ok (), login_wrap_answer = Ok ()\<rparr>"

definition new_device :: "byte key_setup" where
  "new_device = \<lparr>device = demo_db, published_key = None, login_wrap = None, asks_phrase = False, setup_job = None\<rparr>"

lemma demo_opens: "db_opens demo_db" "db_opens (device new_device)" "length (entropy demo_draws) = 32"
  by (simp_all add: demo_db_def new_device_def demo_draws_def)

theorem signup_phrase_recovers_witness:
  "\<exists>typed j env db2.
    setup_job (setupEncryption demo_crypto (\<lambda>k. Some [k]) demo_draws demo_answers True 3 ''a@x'' None new_device) = Some j \<and>
    run_wrap_job demo_crypto [9] j = Ok env \<and>
    bind_result (mnemonicToEntropy demo_crypto typed) (\<lambda>e. unwrapKeysFromRecovery demo_crypto demo_db env e 3 (Some ''a@x''))
      = Ok ((7, [7]), db2)"
proof -
  obtain typed where t: "generateMnemonic demo_crypto (entropy demo_draws) = Ok (normalizeMnemonicInput typed)"
    using demo_typed by (auto simp: demo_draws_def)
  have "publish_answer demo_answers = Ok ()" by (simp add: demo_answers_def)
  from signup_phrase_recovers [OF demo_crypto_ok demo_opens(2,1,3) this t, where u = 3 and email = "''a@x''"
      and vec = "[9]" and jwk_public = "\<lambda>k. Some [k]" and password = None]
  show ?thesis by (simp add: Let_def demo_draws_def) blast
qed

theorem login_wrap_unlocks_witness:
  "\<exists>l db2. login_wrap (setupEncryption demo_crypto (\<lambda>k. Some [k]) demo_draws demo_answers True 3 ''a@x'' (Some ''pw'')
      new_device) = Some l \<and>
    unwrapAndCacheMemberKeys demo_crypto (\<lambda>k. Some [k]) demo_db 3 ''a@x'' ''pw'' l = Ok ((7, [7]), db2)"
proof -
  have "publish_answer demo_answers = Ok ()" "login_wrap_answer demo_answers = Ok ()" "''pw'' \<noteq> []"
    "(\<lambda>k. Some [k]) (new_private demo_draws) = Some (new_public demo_draws)"
    by (simp_all add: demo_answers_def demo_draws_def)
  from login_wrap_unlocks [where jwk_public = "\<lambda>k. Some [k]", OF demo_crypto_ok demo_opens(2,1,3) this,
      where u = 3 and email = "''a@x''"]
  show ?thesis by (auto simp: demo_draws_def)
qed

lemma load_slot_keeps: "slots db \<subseteq>\<^sub>m slots (snd (load_slot p e db))"
  by (auto simp: load_slot_def getOne_def putAll_def map_le_def split: option.splits)

lemma loadPrivateKey_keeps: "loadPrivateKey wc u e db = Ok (k, db1) \<Longrightarrow> slots db \<subseteq>\<^sub>m slots db1 \<and> db_opens db1"
  using load_slot_keeps [of db "privateKeyId u" "privateKeyEmailId e"]
  by (auto simp: loadPrivateKey_def load_slot_def getOne_def putAll_def bind_result_Ok_iff
      split: if_splits option.splits prod.splits)

lemma loadPublicKey_keeps: "loadPublicKey u e db = Ok (p, db1) \<Longrightarrow> slots db \<subseteq>\<^sub>m slots db1 \<and> db_opens db1"
  using load_slot_keeps [of db "publicKeyId u" "publicKeyEmailId e"]
  by (auto simp: loadPublicKey_def load_slot_def getOne_def putAll_def split: if_splits option.splits)

text \<open>
  C16: As long as the device has both keys, or the server has an envelope or does not say whether it
  has one, the set-up of a returning user replaces no key: nothing stored on the device is
  overwritten, no phrase is made and no password wrap sent, and the only public key published is
  the device's own. When the server says that there is no envelope and a key is missing here, the
  set-up takes over the key of the old scheme or makes new ones; the theorem after the next shows
  how that replaces a key.
\<close>

theorem keys_never_replaced:
  assumes "(\<exists>k p db1 db2. loadPrivateKey wc (Some u) (Some email) (device w) = Ok (Some k, db1) \<and>
        loadPublicKey (Some u) (Some email) db1 = Ok (Some p, db2)) \<or> fetchWrappedKey r \<noteq> Ok None"
  shows "let v = setupEncryption wc jwk_public g r False u email password w in
    slots (device w) \<subseteq>\<^sub>m slots (device v) \<and> setup_job v = setup_job w \<and> login_wrap v = login_wrap w \<and>
    (published_key v = published_key w \<or>
     (\<exists>p db. published_key v = Some p \<and> loadPublicKey (Some u) (Some email) db = Ok (Some p, device v)))"
proof (cases rule: loaded_cases [of "loadPrivateKey wc (Some u) (Some email) (device w)"])
  case (err e)
  then show ?thesis by (simp add: setupEncryption_def)
next
  case (found k db1)
  then have s1: "slots (device w) \<subseteq>\<^sub>m slots db1" "db_opens db1" using loadPrivateKey_keeps by blast+
  show ?thesis
  proof (cases rule: loaded_cases [of "loadPublicKey (Some u) (Some email) db1"])
    case (err e)
    then show ?thesis using s1(2) by (simp add: loadPublicKey_def)
  next
    case (found p db2)
    then have "slots (device w) \<subseteq>\<^sub>m slots db2" using s1(1) loadPublicKey_keeps map_le_trans by blast
    then show ?thesis using \<open>loadPrivateKey wc _ _ _ = _\<close> found
      by (auto simp: setupEncryption_def publishPublicKey_def split: sum.split)
  next
    case (none db2)
    then have "slots (device w) \<subseteq>\<^sub>m slots db2" using s1(1) loadPublicKey_keeps map_le_trans by blast
    moreover have "fetchWrappedKey r \<noteq> Ok None" using assms found none by auto
    ultimately show ?thesis using found none
      by (auto simp: setupEncryption_def setup_missing_def split: sum.split option.split)
  qed
next
  case (none db1)
  then have s1: "slots (device w) \<subseteq>\<^sub>m slots db1" "db_opens db1" using loadPrivateKey_keeps by blast+
  obtain p db2 where p: "loadPublicKey (Some u) (Some email) db1 = Ok (p, db2)"
    using s1(2) by (cases "load_slot (publicKeyId (Some u)) (publicKeyEmailId (Some email)) db1")
      (simp add: loadPublicKey_def)
  then have "slots (device w) \<subseteq>\<^sub>m slots db2" using s1(1) loadPublicKey_keeps map_le_trans by blast
  moreover have "fetchWrappedKey r \<noteq> Ok None" using assms none by auto
  ultimately show ?thesis using none p
    by (auto simp: setupEncryption_def setup_missing_def split: sum.split option.split)
qed


theorem keys_never_replaced_witness:
  "let v = setupEncryption demo_crypto (\<lambda>k. Some [k]) demo_draws (demo_answers \<lparr>wrapped_status := 500\<rparr>) False 3
      ''a@x'' None new_device in
    slots (device new_device) \<subseteq>\<^sub>m slots (device v) \<and> setup_job v = setup_job new_device \<and>
    login_wrap v = login_wrap new_device \<and>
    (published_key v = published_key new_device \<or>
     (\<exists>p db. published_key v = Some p \<and> loadPublicKey (Some 3) (Some ''a@x'') db = Ok (Some p, device v)))"
  by (rule keys_never_replaced) (simp add: fetchWrappedKey_def demo_answers_def)

text \<open>
  A user of the old scheme whose key the server still holds, and whose request for it fails once,
  is given new keys as at a registration: the new public key replaces the one data was sealed for.
\<close>

theorem failed_fetch_replaces_legacy_key:
  assumes "loadPrivateKey wc (Some u) (Some email) (device w) = Ok (None, device w)"
    and "loadPublicKey (Some u) (Some email) (device w) = Ok (None, device w)"
    and "fetchWrappedKey r = Ok None" and "basic_status r \<noteq> 404" and "basic_body r = Throw e"
  shows "setupEncryption wc jwk_public g r False u email password w =
    setupEncryption wc jwk_public g r True u email password w"
  using assms by (simp add: setupEncryption_def setup_missing_def fetchBasicKey_def)

theorem failed_fetch_replaces_legacy_key_witness:
  "setupEncryption demo_crypto (\<lambda>k. Some [k]) demo_draws (demo_answers \<lparr>basic_status := 500\<rparr>) False 3 ''a@x'' None new_device
   = setupEncryption demo_crypto (\<lambda>k. Some [k]) demo_draws (demo_answers \<lparr>basic_status := 500\<rparr>) True 3 ''a@x'' None new_device"
  by (rule failed_fetch_replaces_legacy_key)
    (simp_all add: new_device_def demo_db_def loadPrivateKey_def loadPublicKey_def load_slot_def getOne_def
      fetchWrappedKey_def demo_answers_def split: option.split)

text \<open>
  A registration whose public key cannot be published stops before the phrase; the next visit finds
  the keys on the device, publishes them and never shows a phrase, so no recovery copy is made.
\<close>

theorem interrupted_signup_has_no_phrase:
  assumes "webcrypto_ok wc" and "db_opens (device w)" and "publish_answer r = Throw e"
  shows "let v = setupEncryption wc jwk_public g r True u email password w;
      v' = setupEncryption wc jwk_public g' r' False u email password' v in
    setup_job v = setup_job w \<and> setup_job v' = setup_job w \<and>
    (publish_answer r' = Ok () \<longrightarrow> published_key v' = Some (new_public g))"
proof -
  obtain db where db: "then_do (save_private wc (new_private g) u email w) (save_public (new_public g) u email)
      = (w \<lparr>device := db\<rparr>, True)"
    and saved: "key_pair_saved wc (new_private g) (new_public g) (Some u) (Some email) (device w) db"
    by (rule save_pair [OF assms(2)])
  have v: "setupEncryption wc jwk_public g r True u email password w = w \<lparr>device := db\<rparr>"
    by (simp add: setupEncryption_def generate_keys_def db publishPublicKey_def assms(3))
  have "loadPrivateKey wc (Some u) (Some email) db = Ok (Some (new_private g), db)"
    using key_pair_saved_slots(2,3) [OF saved] assms(1) by (rule loadPrivateKey_slot)
  moreover have "loadPublicKey (Some u) (Some email) db = Ok (Some (new_public g), db)"
    using key_pair_saved_slots(2,4) [OF saved] by (simp add: loadPublicKey_def pub.load_saved)
  ultimately show ?thesis
    by (cases "publish_answer r'") (simp_all add: v Let_def setupEncryption_def [of _ _ _ _ False] publishPublicKey_def)
qed

theorem interrupted_signup_has_no_phrase_witness:
  "let v = setupEncryption demo_crypto (\<lambda>k. Some [k]) demo_draws (demo_answers \<lparr>publish_answer := Throw (Error [])\<rparr>)
      True 3 ''a@x'' None new_device;
      v' = setupEncryption demo_crypto (\<lambda>k. Some [k]) demo_draws demo_answers False 3 ''a@x'' None v in
    setup_job v = setup_job new_device \<and> setup_job v' = setup_job new_device \<and>
    (publish_answer demo_answers = Ok () \<longrightarrow> published_key v' = Some (new_public demo_draws))"
  by (rule interrupted_signup_has_no_phrase [OF demo_crypto_ok demo_opens(2)]) simp

text \<open>
  A phrase shown to a new user stays on screen when the session expires. If another user signs in
  and confirms it, the envelope that goes to their account holds the first user's key.
\<close>

theorem phrase_survives_session:
  assumes "pending_job s = Some j" and "run_wrap_job wc vec j = Ok env"
  shows "let s' = begin_login token decoded kind (session_expired s) in
    pending_job s' = Some j \<and> confirm_upload wc vec s' = Some (Some token, Ok env)"
  using assms
  by (simp add: begin_login_def session_expired_def forget_session_def confirm_upload_def Let_def split: option.split)

definition demo_session :: "byte auth" where
  "demo_session =
     \<lparr>authVersion = 1, auth_token = Some ''ann'', current = None, initializing = False, pending_job = None,
      wrapBusy = False, wrapError = None, needsRecovery = False, store = demo_db, remembered = [''chat'', ''font''],
      sidebar = None, idle_notice = False, leaving_to = None\<rparr>"

theorem phrase_survives_session_witness:
  "\<exists>env. let s' = begin_login ''bob'' None None (session_expired (demo_session \<lparr>pending_job :=
      setup_job (setupEncryption demo_crypto (\<lambda>k. Some [k]) demo_draws demo_answers True 3 ''a@x'' None new_device)\<rparr>)) in
    confirm_upload demo_crypto [9] s' = Some (Some ''bob'', Ok env)"
proof -
  have p: "publish_answer demo_answers = Ok ()" by (simp add: demo_answers_def)
  obtain db v k where "generate_keys demo_crypto demo_draws demo_answers 3 ''a@x'' None new_device =
      (v \<lparr>setup_job := Some \<lparr>phrase = k, job_private = new_private demo_draws, job_public = new_public demo_draws,
        drops_basic_key = False\<rparr>\<rparr>, True)" "mnemonicToEntropy demo_crypto k = Ok (entropy demo_draws)"
    by (rule generated_keys [OF demo_crypto_ok demo_opens(2,3) p])
  then have "pending_job (demo_session \<lparr>pending_job :=
      setup_job (setupEncryption demo_crypto (\<lambda>k. Some [k]) demo_draws demo_answers True 3 ''a@x'' None new_device)\<rparr>)
    = Some \<lparr>phrase = k, job_private = new_private demo_draws, job_public = new_public demo_draws,
        drops_basic_key = False\<rparr>"
    "run_wrap_job demo_crypto [9] \<lparr>phrase = k, job_private = new_private demo_draws,
      job_public = new_public demo_draws, drops_basic_key = False\<rparr> =
      Ok (wrapKeysForRecovery demo_crypto [9] (new_private demo_draws) (new_public demo_draws) (entropy demo_draws))"
    by (simp_all add: setupEncryption_def run_wrap_job_def)
  from phrase_survives_session [OF this] show ?thesis by (auto simp: Let_def)
qed

text \<open>
  A profile asked for at one login and answered after that session ended, when another user has
  signed in, replaces the account shown.
\<close>

theorem late_profile_replaces_account:
  "let s' = begin_login token2 decoded2 kind2 (session_expired (begin_login token1 decoded kind1 s)) in
    current (finish_login_profile (Ok d) s') = Some (login_account d) \<and>
    auth_token (finish_login_profile (Ok d) s') = Some token2"
  by (simp add: finish_login_profile_def begin_login_def Let_def split: option.split)

text \<open>
  Signing out leaves nothing of the user: no key on the device, no snapshot and no token. An expired
  session keeps the keys, and of the snapshots only the font.
\<close>

theorem leaving_forgets:
  assumes "db_opens (store s)" and "set (remembered s) \<subseteq> set SNAPSHOTS \<union> {''font''}"
  shows "(\<forall>n. slots (store (logout idle s)) n = None) \<and> remembered (logout idle s) = [] \<and>
    auth_token (logout idle s) = None \<and> \<not> needsRecovery (logout idle s) \<and>
    store (session_expired s) = store s \<and> set (remembered (session_expired s)) \<subseteq> {''font''} \<and>
    auth_token (session_expired s) = None \<and> current (session_expired s) = None"
proof -
  have "filter (\<lambda>n. n \<notin> set (SNAPSHOTS @ [''font''])) (remembered s) = []"
    using assms(2) by (auto simp: filter_empty_conv)
  moreover have "set (filter (\<lambda>n. n \<notin> set SNAPSHOTS) (remembered s)) \<subseteq> {''font''}" using assms(2) by auto
  ultimately show ?thesis
    using assms(1) by (simp add: logout_def session_expired_def forget_session_def clearKeys_def)
qed

theorem leaving_forgets_witness:
  "remembered (logout True demo_session) = [] \<and> set (remembered (session_expired demo_session)) \<subseteq> {''font''}"
  using leaving_forgets [of demo_session True] by (simp add: demo_session_def demo_db_def SNAPSHOTS_def)

text \<open>
  The profile fetched after a login loses the two preferences; the one fetched at boot or for a
  refresh keeps them.
\<close>

theorem login_drops_preferences:
  "login_account d = (refresh_account d) \<lparr>a_chat_encrypt_files := None, a_meeting_alert_minutes := None\<rparr> \<and>
   boot_account d = refresh_account d \<and>
   a_meeting_alert_minutes (refresh_account d) = Some (nullish (d_meeting_alert_minutes d) 10)"
  by (simp add: login_account_def refresh_account_def boot_account_def)

text \<open>The account guessed from a token is always replaced by the server's answer.\<close>

theorem guessed_account_replaced:
  "current (boot_answer d (s \<lparr>current := first_account c\<rparr>)) = Some (boot_account d)"
  by (cases c)
    (simp_all add: boot_answer_def first_account_def patch_account_def same_account_def claims_account_def
      boot_account_def Let_def)


text \<open>The middle part of a token: base64 without padding, in the alphabet of URLs.\<close>

definition to_url_char :: "char \<Rightarrow> char" where
  "to_url_char c = (if c = CHR ''+'' then CHR ''-'' else if c = CHR ''/'' then CHR ''_'' else c)"

definition base64_url :: "string \<Rightarrow> string" where
  "base64_url s = map to_url_char (takeWhile (\<lambda>c. c \<noteq> CHR ''='') s)"

lemma url_chars: "c \<noteq> CHR ''-'' \<Longrightarrow> c \<noteq> CHR ''_'' \<Longrightarrow> from_url_char (to_url_char c) = c"
  by (simp add: from_url_char_def to_url_char_def)

lemma to_url_char_dot: "to_url_char c = CHR ''.'' \<Longrightarrow> c = CHR ''.''"
  by (simp add: to_url_char_def split: if_splits)

definition base64_text :: "string \<Rightarrow> bool" where
  "base64_text s \<longleftrightarrow>
     (\<exists>t k. s = t @ replicate k (CHR ''='') \<and> k < 4 \<and> length s mod 4 = 0 \<and>
        (\<forall>c \<in> set t. c \<notin> {CHR ''='', CHR ''-'', CHR ''_'', CHR ''.''}))"

lemma padding_back:
  assumes "k < 4" and "(n + k) mod 4 = 0"
  shows "(4 - n mod 4) mod 4 = (k :: nat)"
proof -
  define m where "m = n mod 4"
  have "m < 4" by (simp add: m_def)
  have "(m + k) mod 4 = 0" using assms(2) by (simp add: m_def mod_add_left_eq)
  then obtain q where q: "m + k = 4 * q" by (metis add_0 div_mult_mod_eq add.commute mult.commute)
  then have "q = 0 \<or> q = 1" using \<open>m < 4\<close> assms(1) by linarith
  then have "m = 0 \<and> k = 0 \<or> 4 - m = k" using q by auto
  with assms(1) show ?thesis by (auto simp: m_def [symmetric])
qed

lemma decode_base64_url:
  assumes "webcrypto_ok wc" and "base64_text (btoa wc (utf8_encode wc x))"
  shows "decodeBase64Url wc (base64_url (btoa wc (utf8_encode wc x))) = Ok x"
proof -
  obtain t k where t: "btoa wc (utf8_encode wc x) = t @ replicate k (CHR ''='')" "k < 4"
    "(length t + k) mod 4 = 0" "\<forall>c \<in> set t. c \<notin> {CHR ''='', CHR ''-'', CHR ''_'', CHR ''.''}"
    using assms(2) by (auto simp: base64_text_def)
  have "\<forall>c \<in> set t. c \<noteq> CHR ''=''" using t(4) by blast
  then have tw: "takeWhile (\<lambda>c. c \<noteq> CHR ''='') (t @ replicate k (CHR ''='')) = t"
    by (simp add: takeWhile_append2)
  have "map from_url_char (map to_url_char t) = t"
    unfolding map_map comp_def
  proof (rule map_idI)
    fix c
    assume "c \<in> set t"
    then have "c \<noteq> CHR ''-''" "c \<noteq> CHR ''_''" using t(4) by blast+
    then show "from_url_char (to_url_char c) = c" by (rule url_chars)
  qed
  then have url: "map from_url_char (base64_url (btoa wc (utf8_encode wc x))) = t"
    by (simp only: base64_url_def t(1) tw)
  define y where "y = base64_url (btoa wc (utf8_encode wc x))"
  have "(4 - length t mod 4) mod 4 = k" using t(2,3) by (rule padding_back)
  then have "decodeBase64Url wc y =
      bind_result (subtle (atob wc (btoa wc (utf8_encode wc x)))) (\<lambda>bytes. Ok (utf8_decode wc bytes))"
    by (simp only: decodeBase64Url_def url [folded y_def] Let_def t(1))
  then show ?thesis by (simp add: webcrypto_okD [OF assms(1)] y_def)
qed

lemma base64_url_dots:
  assumes "base64_text s"
  shows "CHR ''.'' \<notin> set (base64_url s)"
proof -
  obtain t k where t: "s = t @ replicate k (CHR ''='')" "\<forall>c \<in> set t. c \<noteq> CHR ''.''"
    using assms by (auto simp: base64_text_def)
  have "c \<noteq> CHR ''.''" if "c \<in> set (takeWhile (\<lambda>c. c \<noteq> CHR ''='') s)" for c
    using set_takeWhileD [OF that] t by auto
  then show ?thesis by (auto simp: base64_url_def dest!: to_url_char_dot [OF sym])
qed

text \<open>
  A token is read back: any object that was encoded into its middle part, unless it has expired.
\<close>

theorem token_roundtrip:
  assumes "webcrypto_ok wc" and "json_ok v" and "v \<noteq> JNull" and "CHR ''.'' \<notin> set h"
    and "base64_text (btoa wc (utf8_encode wc (stringify v)))"
  shows "parseJwt wc now (h @ CHR ''.'' # base64_url (btoa wc (utf8_encode wc (stringify v))) @ CHR ''.'' # sig) =
    (case Option.bind (field v ''exp'') json_int of
       Some e \<Rightarrow> if e * 1000 < now then None else Some v
     | None \<Rightarrow> Some v)"
  using assms
  by (simp add: parseJwt_def split_on_append base64_url_dots decode_base64_url json_roundtrip)

definition demo_claims :: json where
  "demo_claims = JObj [(''exp'', JNum ''5''), (''sub'', JNum ''3344'')]"

lemma demo_claims_text:
  "json_ok demo_claims" "btoa demo_crypto (utf8_encode demo_crypto (stringify demo_claims)) = stringify demo_claims"
  "length (stringify demo_claims) mod 4 = 0"
  "\<forall>c \<in> set (stringify demo_claims). c \<notin> {CHR ''='', CHR ''-'', CHR ''_'', CHR ''.''}"
  subgoal by code_simp
  subgoal by code_simp
  subgoal by code_simp
  subgoal by code_simp
  done

theorem token_roundtrip_witness:
  "parseJwt demo_crypto 4999 (''h.'' @ base64_url (btoa demo_crypto (utf8_encode demo_crypto (stringify demo_claims)))
     @ ''.s'') = Some demo_claims"
proof -
  have "base64_text (btoa demo_crypto (utf8_encode demo_crypto (stringify demo_claims)))"
    unfolding base64_text_def demo_claims_text(2)
    using demo_claims_text(3,4) by (intro exI [of _ "stringify demo_claims"] exI [of _ 0]) simp
  from token_roundtrip [OF demo_crypto_ok demo_claims_text(1) _ _ this, of "''h''" 4999 "''s''"]
  show ?thesis by (simp add: demo_claims_def field_def json_int_def is_digit_def nat_val_def digit_val_def code_def)
qed

end
