(* ===== verification/Idle_Logout.thy ===== *)
theory Idle_Logout
  imports Prelude
begin

text \<open>
  Signing out after half an hour without activity: \<open>auth/useIdleLogout.ts\<close>, in every open tab of
  the browser. Times are in milliseconds, of the one clock of the machine. The tabs share the
  stored time of the last activity, whose changes reach the other tabs as events; the storage may
  refuse to be written or read, at any time. Every tab looks every fifteen seconds.
\<close>

definition IDLE_LIMIT_MS :: int where
  "IDLE_LIMIT_MS = 30 * 60 * 1000"

definition WRITE_THROTTLE_MS :: int where
  "WRITE_THROTTLE_MS = 5000"

definition CHECK_INTERVAL_MS :: int where
  "CHECK_INTERVAL_MS = 15000"

text \<open>\<open>used\<close> is when the tab was opened or last used, which the code does not keep.\<close>

record tab =
  last_seen :: int
  last_write :: int
  firedOnce :: bool
  next_check :: int \<comment> \<open>when the interval is due\<close>
  used :: int

record idle_browser =
  clock :: int
  stored :: "int option"
  tabs :: "nat \<Rightarrow> tab option"
  events :: "(nat \<times> int) list" \<comment> \<open>changes on their way to a tab\<close>
  acted :: int \<comment> \<open>when a tab was last opened or used; not in the code\<close>

text \<open>\<open>ok\<close> says whether the storage takes the value; if it throws, the error is dropped.\<close>

definition persist :: "bool \<Rightarrow> nat \<Rightarrow> nat list \<Rightarrow> int \<Rightarrow> idle_browser \<Rightarrow> idle_browser" where
  "persist ok i others t b =
     (if ok
      then b \<lparr>stored := Some t, events := events b @ map (\<lambda>j. (j, t)) (filter (\<lambda>j. j \<noteq> i) others)\<rparr>
      else b)"

definition put_tab :: "nat \<Rightarrow> tab \<Rightarrow> idle_browser \<Rightarrow> idle_browser" where
  "put_tab i t b = b \<lparr>tabs := (tabs b)(i \<mapsto> t)\<rparr>"

text \<open>Signing in, or opening a tab: the effect starts.\<close>

definition start_watch :: "bool \<Rightarrow> nat \<Rightarrow> nat list \<Rightarrow> idle_browser \<Rightarrow> idle_browser" where
  "start_watch ok i others b =
     persist ok i others (clock b)
       (put_tab i \<lparr>last_seen = clock b, last_write = 0, firedOnce = False,
                   next_check = clock b + CHECK_INTERVAL_MS, used = clock b\<rparr> (b \<lparr>acted := clock b\<rparr>))"

definition stop_watch :: "nat \<Rightarrow> idle_browser \<Rightarrow> idle_browser" where
  "stop_watch i b = b \<lparr>tabs := (tabs b)(i := None)\<rparr>"

definition markActive :: "bool \<Rightarrow> nat \<Rightarrow> nat list \<Rightarrow> idle_browser \<Rightarrow> idle_browser" where
  "markActive ok i others b =
     (case tabs b i of
        None \<Rightarrow> b
      | Some t \<Rightarrow>
          let b' = b \<lparr>acted := clock b\<rparr>;
              t' = t \<lparr>last_seen := clock b, used := clock b\<rparr>
          in if clock b - last_write t > WRITE_THROTTLE_MS
             then persist ok i others (clock b) (put_tab i (t' \<lparr>last_write := clock b\<rparr>) b')
             else put_tab i t' b')"

definition onStorage :: "nat \<Rightarrow> int \<Rightarrow> idle_browser \<Rightarrow> idle_browser" where
  "onStorage i v b =
     (case tabs b i of
        None \<Rightarrow> b
      | Some t \<Rightarrow> if v > last_seen t then put_tab i (t \<lparr>last_seen := v\<rparr>) b else b)"

text \<open>
  \<open>Number(null)\<close> is zero; if the storage cannot be read, the tab's own time stands. The second
  component says whether the user is signed out.
\<close>

definition check :: "bool \<Rightarrow> nat \<Rightarrow> idle_browser \<Rightarrow> idle_browser \<times> bool" where
  "check ok i b =
     (case tabs b i of
        None \<Rightarrow> (b, False)
      | Some t0 \<Rightarrow>
          let t = t0 \<lparr>next_check := clock b + CHECK_INTERVAL_MS\<rparr>;
              s = nullish (stored b) 0;
              t1 = (if ok \<and> s > last_seen t then t \<lparr>last_seen := s\<rparr> else t)
          in if \<not> firedOnce t1 \<and> clock b - last_seen t1 \<ge> IDLE_LIMIT_MS
             then (put_tab i (t1 \<lparr>firedOnce := True\<rparr>) b, True)
             else (put_tab i t1 b, False))"

text \<open>
  What can happen in a browser; \<open>others\<close> are the tabs a change is announced to. In a run with
  \<open>works\<close> the storage never refuses; in one with \<open>punctual\<close> no interval is late.
\<close>

inductive idle_step :: "bool \<Rightarrow> bool \<Rightarrow> idle_browser \<Rightarrow> idle_browser \<Rightarrow> bool" for works punctual where
  time_passes: "now \<ge> clock b \<Longrightarrow> punctual \<longrightarrow> (\<forall>i t. tabs b i = Some t \<longrightarrow> now \<le> next_check t) \<Longrightarrow>
    idle_step works punctual b (b \<lparr>clock := now\<rparr>)"
| tab_starts: "works \<longrightarrow> ok \<Longrightarrow> idle_step works punctual b (start_watch ok i others b)"
| tab_stops: "idle_step works punctual b (stop_watch i b)"
| user_acts: "works \<longrightarrow> ok \<Longrightarrow> idle_step works punctual b (markActive ok i others b)"
| event_arrives: "(i, v) \<in> set (events b) \<Longrightarrow>
    idle_step works punctual b (onStorage i v (b \<lparr>events := remove1 (i, v) (events b)\<rparr>))"
| tab_checks: "tabs b i = Some t \<Longrightarrow> next_check t \<le> clock b \<Longrightarrow> works \<longrightarrow> ok \<Longrightarrow>
    idle_step works punctual b (fst (check ok i b))"

inductive_cases idle_stepE: "idle_step works punctual b b'"

text \<open>A time an earlier session left in the storage may be there.\<close>

definition idle_init :: "int \<Rightarrow> int option \<Rightarrow> idle_browser" where
  "idle_init now left = \<lparr>clock = now, stored = left, tabs = (\<lambda>_. None), events = [], acted = nullish left 0\<rparr>"

section \<open>What the tabs know\<close>

definition tab_ok :: "bool \<Rightarrow> bool \<Rightarrow> idle_browser \<Rightarrow> tab \<Rightarrow> bool" where
  "tab_ok works punctual b t \<longleftrightarrow>
     used t \<le> last_seen t \<and> last_seen t \<le> acted b
     \<and> (works \<longrightarrow> last_write t \<le> nullish (stored b) 0)
     \<and> (punctual \<longrightarrow> clock b \<le> next_check t)
     \<and> (\<not> firedOnce t \<longrightarrow> next_check t < acted b + IDLE_LIMIT_MS + CHECK_INTERVAL_MS)"

definition browser_ok :: "bool \<Rightarrow> bool \<Rightarrow> idle_browser \<Rightarrow> bool" where
  "browser_ok works punctual b \<longleftrightarrow>
     0 \<le> nullish (stored b) 0 \<and> nullish (stored b) 0 \<le> acted b \<and> acted b \<le> clock b
     \<and> (works \<longrightarrow> acted b \<le> nullish (stored b) 0 + WRITE_THROTTLE_MS)
     \<and> (\<forall>i t. tabs b i = Some t \<longrightarrow> tab_ok works punctual b t)
     \<and> (\<forall>e \<in> set (events b). snd e \<le> acted b)"

lemmas idle_consts = IDLE_LIMIT_MS_def WRITE_THROTTLE_MS_def CHECK_INTERVAL_MS_def

lemma tab_ok_later:
  assumes "tab_ok works punctual b t" "acted b \<le> acted b'" "nullish (stored b) 0 \<le> nullish (stored b') 0"
    "clock b' = clock b"
  shows "tab_ok works punctual b' t"
  using assms by (auto simp: tab_ok_def)

lemma announced_ok:
  assumes "browser_ok works punctual b" and "last_seen t = clock b" and "used t = clock b"
    and "last_write t \<le> clock b" and "works \<longrightarrow> ok"
    and "works \<longrightarrow> last_write t = 0 \<or> ok" and "punctual \<longrightarrow> clock b \<le> next_check t"
    and "\<not> firedOnce t \<longrightarrow> next_check t < clock b + IDLE_LIMIT_MS + CHECK_INTERVAL_MS"
  shows "browser_ok works punctual (persist ok i others (clock b) (put_tab i t (b \<lparr>acted := clock b\<rparr>)))"
    (is "browser_ok works punctual ?b")
proof -
  have t: "tab_ok works punctual ?b t"
    using assms by (auto simp: tab_ok_def persist_def put_tab_def)
  have later: "tab_ok works punctual ?b u" if "tab_ok works punctual b u" for u
    by (rule tab_ok_later [OF that]) (use assms(1) in \<open>auto simp: browser_ok_def persist_def put_tab_def\<close>)
  have "tab_ok works punctual ?b u" if "tabs ?b j = Some u" for j u
    using that t later assms(1) by (cases "j = i") (auto simp: browser_ok_def persist_def put_tab_def split: if_splits)
  moreover have "0 \<le> nullish (stored ?b) 0" "nullish (stored ?b) 0 \<le> acted ?b" "acted ?b \<le> clock ?b"
      "works \<longrightarrow> acted ?b \<le> nullish (stored ?b) 0 + WRITE_THROTTLE_MS" "\<forall>e \<in> set (events ?b). snd e \<le> acted ?b"
    using assms(1,5) by (auto simp: browser_ok_def persist_def put_tab_def WRITE_THROTTLE_MS_def)
  ultimately show ?thesis unfolding browser_ok_def by blast
qed

lemma put_tab_ok:
  assumes "browser_ok works punctual b" and "tab_ok works punctual b t"
  shows "browser_ok works punctual (put_tab i t b)"
  using assms by (auto simp: browser_ok_def tab_ok_def put_tab_def)

lemma start_ok:
  "browser_ok works punctual b \<Longrightarrow> works \<longrightarrow> ok \<Longrightarrow> browser_ok works punctual (start_watch ok i others b)"
  unfolding start_watch_def by (rule announced_ok) (auto simp: browser_ok_def idle_consts)

lemma idle_init_ok: "0 \<le> nullish left 0 \<Longrightarrow> nullish left 0 \<le> now \<Longrightarrow> browser_ok works punctual (idle_init now left)"
  by (simp add: idle_init_def browser_ok_def WRITE_THROTTLE_MS_def)

lemma act_ok:
  assumes "browser_ok works punctual b" and "works \<longrightarrow> ok"
  shows "browser_ok works punctual (markActive ok i others b)"
proof (cases "tabs b i")
  case (Some t)
  then have t: "tab_ok works punctual b t" and le: "acted b \<le> clock b" using assms(1) by (auto simp: browser_ok_def)
  let ?t = "t \<lparr>last_seen := clock b, used := clock b\<rparr>"
  show ?thesis
  proof (cases "clock b - last_write t > WRITE_THROTTLE_MS")
    case True
    have "browser_ok works punctual
        (persist ok i others (clock b) (put_tab i (?t \<lparr>last_write := clock b\<rparr>) (b \<lparr>acted := clock b\<rparr>)))"
      by (rule announced_ok [OF assms(1)]) (use t le assms(2) in \<open>auto simp: tab_ok_def\<close>)
    then show ?thesis using True Some by (simp add: markActive_def Let_def)
  next
    case False
    let ?b = "b \<lparr>acted := clock b\<rparr>"
    have later: "tab_ok works punctual ?b u" if "tab_ok works punctual b u" for u
      by (rule tab_ok_later [OF that]) (use le in simp_all)
    have "browser_ok works punctual ?b"
      using assms(1) t False later by (auto simp: browser_ok_def tab_ok_def) (force)+
    moreover have "tab_ok works punctual ?b ?t" using t le by (auto simp: tab_ok_def)
    ultimately show ?thesis using False Some by (simp add: markActive_def Let_def put_tab_ok)
  qed
qed (use assms in \<open>simp add: markActive_def\<close>)

lemma stop_ok: "browser_ok works punctual b \<Longrightarrow> browser_ok works punctual (stop_watch i b)"
  by (auto simp: browser_ok_def tab_ok_def stop_watch_def)

lemma storage_ok: "browser_ok works punctual b \<Longrightarrow> v \<le> acted b \<Longrightarrow> browser_ok works punctual (onStorage i v b)"
proof (cases "tabs b i")
  case (Some t)
  moreover assume b: "browser_ok works punctual b" and v: "v \<le> acted b"
  ultimately have t: "tab_ok works punctual b t" by (auto simp: browser_ok_def)
  show ?thesis
  proof (cases "last_seen t < v")
    case True
    then have "tab_ok works punctual b (t \<lparr>last_seen := v\<rparr>)" using t v by (simp add: tab_ok_def)
    with True Some b show ?thesis by (simp add: onStorage_def put_tab_ok)
  qed (use Some b in \<open>simp add: onStorage_def\<close>)
qed (simp add: onStorage_def)

lemma check_ok:
  assumes "browser_ok works punctual b"
  shows "browser_ok works punctual (fst (check ok i b))"
proof (cases "tabs b i")
  case (Some t)
  then have "tab_ok works punctual b t" "nullish (stored b) 0 \<le> acted b" "acted b \<le> clock b"
    using assms by (auto simp: browser_ok_def)
  then show ?thesis
    using Some assms by (auto simp: check_def Let_def tab_ok_def idle_consts intro!: put_tab_ok)
qed (use assms in \<open>simp add: check_def\<close>)

lemma queue_ok: "browser_ok works punctual b \<Longrightarrow> browser_ok works punctual (b \<lparr>events := remove1 e (events b)\<rparr>)"
  by (auto simp: browser_ok_def tab_ok_def dest: notin_set_remove1)

lemma idle_step_ok: "idle_step works punctual b b' \<Longrightarrow> browser_ok works punctual b \<Longrightarrow> browser_ok works punctual b'"
proof (induction rule: idle_step.induct)
  case (event_arrives i v b)
  then have "v \<le> acted b" by (auto simp: browser_ok_def)
  with event_arrives show ?case by (intro storage_ok queue_ok) simp_all
next
  case (time_passes now b)
  then show ?case by (auto simp: browser_ok_def tab_ok_def)
qed (simp_all add: start_ok stop_ok act_ok check_ok)

lemma idle_run_ok: "(idle_step works punctual)\<^sup>*\<^sup>* b b' \<Longrightarrow> browser_ok works punctual b \<Longrightarrow> browser_ok works punctual b'"
  by (induction rule: rtranclp_induct) (auto intro: idle_step_ok)

section \<open>Properties\<close>

text \<open>
  C32: A tab that signs the user out was itself not used for half an hour, whatever the storage does;
  as long as the storage works, no tab was, up to the five seconds in which a use need not be
  announced. Once no tab was used for half an hour, every tab that looks signs the user out,
  unless it did before; with intervals on time, that is less than fifteen seconds later.
\<close>

theorem signed_out_iff_idle:
  assumes "(idle_step works punctual)\<^sup>*\<^sup>* (idle_init now left) b" and "0 \<le> nullish left 0" and "nullish left 0 \<le> now"
    and "tabs b i = Some t" and "works \<longrightarrow> ok"
  shows "(snd (check ok i b) \<longrightarrow> used t + IDLE_LIMIT_MS \<le> clock b
      \<and> (works \<longrightarrow> acted b + IDLE_LIMIT_MS - WRITE_THROTTLE_MS \<le> clock b)) \<and>
    (acted b + IDLE_LIMIT_MS \<le> clock b \<and> \<not> firedOnce t \<longrightarrow> snd (check ok i b)) \<and>
    (punctual \<and> \<not> firedOnce t \<longrightarrow> clock b < acted b + IDLE_LIMIT_MS + CHECK_INTERVAL_MS) \<and>
    (firedOnce t \<longrightarrow> \<not> snd (check ok i b))"
proof -
  have "browser_ok works punctual b" using idle_run_ok [OF assms(1) idle_init_ok [OF assms(2,3)]] .
  then have "tab_ok works punctual b t" "nullish (stored b) 0 \<le> acted b"
    "works \<longrightarrow> acted b \<le> nullish (stored b) 0 + WRITE_THROTTLE_MS"
    using assms(4) by (auto simp: browser_ok_def)
  then show ?thesis using assms(4,5) by (auto simp: check_def Let_def tab_ok_def)
qed

text \<open>
  A browser that refuses to store, and two tabs: the first is used when the second was left alone
  for half an hour, and the second signs the user out.
\<close>

definition two_tabs :: idle_browser where
  "two_tabs = markActive False 0 [0, 1]
     ((start_watch False 1 [0, 1] (start_watch False 0 [0, 1] (idle_init 7 None))) \<lparr>clock := 1800007\<rparr>)"

lemma two_tabs_reached: "(idle_step False False)\<^sup>*\<^sup>* (idle_init 7 None) two_tabs"
proof -
  let ?b = "start_watch False 1 [0, 1] (start_watch False 0 [0, 1] (idle_init 7 None))"
  have "clock ?b \<le> 1800007" by (simp add: start_watch_def persist_def put_tab_def idle_init_def)
  then have "idle_step False False ?b (?b \<lparr>clock := 1800007\<rparr>)" by (rule time_passes) simp
  moreover have "idle_step False False (?b \<lparr>clock := 1800007\<rparr>) two_tabs" unfolding two_tabs_def by (rule user_acts) simp
  moreover have "idle_step False False (idle_init 7 None) (start_watch False 0 [0, 1] (idle_init 7 None))"
    by (rule tab_starts) simp
  moreover have "idle_step False False (start_watch False 0 [0, 1] (idle_init 7 None)) ?b" by (rule tab_starts) simp
  ultimately show ?thesis by (meson r_into_rtranclp rtranclp.rtrancl_into_rtrancl)
qed

theorem signed_out_iff_idle_witness:
  "snd (check False 1 two_tabs) \<and> acted two_tabs = clock two_tabs
   \<and> (\<exists>t. tabs two_tabs 1 = Some t \<and> used t + IDLE_LIMIT_MS \<le> clock two_tabs)"
proof -
  note d = two_tabs_def markActive_def start_watch_def persist_def put_tab_def idle_init_def Let_def
  obtain t where t: "tabs two_tabs 1 = Some t" by (simp add: d)
  have "snd (check False 1 two_tabs)" "acted two_tabs = clock two_tabs"
    by (simp_all add: check_def d IDLE_LIMIT_MS_def WRITE_THROTTLE_MS_def)
  then show ?thesis using signed_out_iff_idle [OF two_tabs_reached _ _ t, of False] t by simp
qed

end
