(* ===== verification/Call_Session.thy ===== *)
theory Call_Session
  imports Prelude
begin

text \<open>
  The calling hook, \<open>call/useCallSession.ts\<close>. A handler runs with the state of the last render.
  Where it waits, for the permission prompt, the relay configuration or a session description,
  it is cut in two, and what waits is kept in \<open>flows\<close>. Connections and streams are numbered.
  The browser's answers (a stream or a refusal, a description or a failure) are arguments. In the
  messages \<open>>\<close> stands for U+203A, which is outside Latin-1.
\<close>

section \<open>State\<close>

datatype media = Audio | Video

datatype call_state =
    Idle
  | Outgoing int string media
  | Incoming int string media
  | Active int string media bool bool int \<comment> \<open>muted, video off, started at\<close>

datatype 'c signal =
    Invite media string
  | Accept
  | Reject
  | Cancel
  | End
  | Offer string
  | Answer string
  | Candidate 'c

datatype flow =
    Starting nat int string media
  | AcceptIce int string media
  | AcceptMedia nat int string media
  | AnswerIce int string media
  | AnswerMedia nat int string media
  | AnswerOffer nat int string media
  | RemoteOffer nat int
  | MakeAnswer nat int
  | RemoteAnswer nat

record 'c session =
  callState :: call_state
  mediaError :: "string option"
  starting :: bool
  session_gen :: nat
  ws_open :: bool
  ring_timer :: "int option" \<comment> \<open>whom the timeout cancels\<close>
  pc :: "nat option"
  open_pc :: "nat \<Rightarrow> bool"
  has_remote :: "nat \<Rightarrow> bool"
  buffered :: "'c list"
  added :: "(nat \<times> 'c) list"
  local_stream :: "nat option"
  live :: "nat \<Rightarrow> bool"
  audio_on :: "nat \<Rightarrow> bool"
  video_on :: "nat \<Rightarrow> bool"
  next_id :: nat
  flows :: "flow list"
  sent :: "(int \<times> 'c signal) list"

definition call_init :: "'c session" where
  "call_init =
     \<lparr>callState = Idle, mediaError = None, starting = False, session_gen = 0, ws_open = False,
      ring_timer = None, pc = None, open_pc = (\<lambda>_. False), has_remote = (\<lambda>_. False), buffered = [],
      added = [], local_stream = None, live = (\<lambda>_. False), audio_on = (\<lambda>_. True),
      video_on = (\<lambda>_. True), next_id = 0, flows = [], sent = []\<rparr>"

definition describeMediaError :: "string \<Rightarrow> media \<Rightarrow> string" where
  "describeMediaError name m =
     (let devices = (if m = Video then ''camera and microphone'' else ''microphone'')
      in if name = ''NotAllowedError'' \<or> name = ''SecurityError'' then
           ''Access to your '' @ devices @ '' is blocked. Allow it in your browser's site settings ''
           @ ''(on a Mac, also System Settings > Privacy & Security), then try again.''
         else if name = ''NotFoundError'' \<or> name = ''OverconstrainedError'' then
           ''No '' @ devices @ '' found. Connect one and try again.''
         else if name = ''NotReadableError'' \<or> name = ''AbortError'' then
           ''Your '' @ devices @ '' is in use by another app. Close it and try again.''
         else if name = ''NotSupportedError'' then
           ''Calls need a secure (https) connection to use your '' @ devices @ ''.''
         else ''Couldn't open your '' @ devices @ ''. Try again.'')"

section \<open>Operations\<close>

definition sendSignal :: "int \<Rightarrow> 'c signal \<Rightarrow> 'c session \<Rightarrow> 'c session" where
  "sendSignal peer sig s = (if ws_open s then s \<lparr>sent := sent s @ [(peer, sig)]\<rparr> else s)"

definition unset :: "nat option \<Rightarrow> (nat \<Rightarrow> bool) \<Rightarrow> nat \<Rightarrow> bool" where
  "unset i f = (case i of None \<Rightarrow> f | Some k \<Rightarrow> f(k := False))"

definition teardownPeer :: "'c session \<Rightarrow> 'c session" where
  "teardownPeer s =
     s \<lparr>ring_timer := None, open_pc := unset (pc s) (open_pc s), pc := None, buffered := [],
        live := unset (local_stream s) (live s), local_stream := None\<rparr>"

definition hang_up :: "'c session \<Rightarrow> 'c session" where
  "hang_up s = (teardownPeer s) \<lparr>callState := Idle\<rparr>"

definition wait_for :: "flow \<Rightarrow> 'c session \<Rightarrow> 'c session" where
  "wait_for f s = s \<lparr>flows := f # flows s\<rparr>"

definition resume :: "flow \<Rightarrow> 'c session \<Rightarrow> 'c session" where
  "resume f s = s \<lparr>flows := remove1 f (flows s)\<rparr>"

text \<open>A stream from the browser; its tracks run and are enabled.\<close>

definition open_stream :: "'c session \<Rightarrow> 'c session" where
  "open_stream s =
     s \<lparr>live := (live s)(next_id s := True), audio_on := (audio_on s)(next_id s := True),
        video_on := (video_on s)(next_id s := True), local_stream := Some (next_id s),
        next_id := next_id s + 1\<rparr>"

text \<open>\<open>buildPeerConnection\<close> once the relay configuration is known.\<close>

definition build_pc :: "'c session \<Rightarrow> 'c session" where
  "build_pc s =
     s \<lparr>open_pc := (open_pc s)(next_id s := True), has_remote := (has_remote s)(next_id s := False),
        pc := Some (next_id s), next_id := next_id s + 1\<rparr>"

definition not_connected :: string where
  "not_connected = ''Not connected to the call service. Try again in a moment.''"

definition startCall :: "int \<Rightarrow> string \<Rightarrow> media \<Rightarrow> 'c session \<Rightarrow> 'c session" where
  "startCall peer email m s =
     (if callState s \<noteq> Idle \<or> starting s then s
      else if \<not> ws_open s then s \<lparr>mediaError := Some not_connected\<rparr>
      else wait_for (Starting (session_gen s) peer email m) (s \<lparr>starting := True, mediaError := None\<rparr>))"

text \<open>The prompt is answered: \<open>None\<close> grants a stream, \<open>Some\<close> is the error's name.\<close>

definition finish_start :: "nat \<Rightarrow> int \<Rightarrow> string \<Rightarrow> media \<Rightarrow> string \<Rightarrow> string option \<Rightarrow> 'c session \<Rightarrow> 'c session" where
  "finish_start g peer email m myEmail refused s0 =
     (let s = (resume (Starting g peer email m) s0) \<lparr>starting := False\<rparr>
      in case refused of
           Some name \<Rightarrow> s \<lparr>mediaError := Some (describeMediaError name m)\<rparr>
         | None \<Rightarrow>
             if g \<noteq> session_gen s then s
             else (sendSignal peer (Invite m myEmail)
                     ((open_stream s) \<lparr>callState := Outgoing peer email m\<rparr>))
                  \<lparr>ring_timer := Some peer\<rparr>)"

definition ring_timeout :: "int \<Rightarrow> 'c session \<Rightarrow> 'c session" where
  "ring_timeout peer s = hang_up (sendSignal peer Cancel s)"

definition acceptCall :: "'c session \<Rightarrow> 'c session" where
  "acceptCall s = (case callState s of Incoming p e m \<Rightarrow> wait_for (AcceptIce p e m) s | _ \<Rightarrow> s)"

definition accept_failed :: "int \<Rightarrow> 'c session \<Rightarrow> 'c session" where
  "accept_failed peer s = hang_up (sendSignal peer Reject s)"

text \<open>\<open>attachLocalMedia\<close>: the tracks go to the connection, unless it was closed meanwhile.\<close>

definition accept_attached :: "nat \<Rightarrow> int \<Rightarrow> string \<Rightarrow> media \<Rightarrow> int \<Rightarrow> 'c session \<Rightarrow> 'c session" where
  "accept_attached q peer email m now s =
     (if open_pc s q then
        (sendSignal peer Accept s) \<lparr>callState := Active peer email m False False now\<rparr>
      else accept_failed peer (s \<lparr>mediaError := Some (describeMediaError ''InvalidStateError'' m)\<rparr>))"

definition accept_ice :: "int \<Rightarrow> string \<Rightarrow> media \<Rightarrow> int \<Rightarrow> 'c session \<Rightarrow> 'c session" where
  "accept_ice peer email m now s0 =
     (let s = build_pc (resume (AcceptIce peer email m) s0)
      in if local_stream s = None then wait_for (AcceptMedia (the (pc s)) peer email m) s
         else accept_attached (the (pc s)) peer email m now s)"

definition accept_media :: "nat \<Rightarrow> int \<Rightarrow> string \<Rightarrow> media \<Rightarrow> int \<Rightarrow> string option \<Rightarrow> 'c session \<Rightarrow> 'c session" where
  "accept_media q peer email m now refused s0 =
     (let s = resume (AcceptMedia q peer email m) s0
      in case refused of
           Some name \<Rightarrow> accept_failed peer (s \<lparr>mediaError := Some (describeMediaError name m)\<rparr>)
         | None \<Rightarrow> accept_attached q peer email m now (open_stream s))"

definition rejectCall :: "'c session \<Rightarrow> 'c session" where
  "rejectCall s =
     (case callState s of Incoming p e m \<Rightarrow> (sendSignal p Reject s) \<lparr>callState := Idle\<rparr> | _ \<Rightarrow> s)"

definition endCall :: "'c session \<Rightarrow> 'c session" where
  "endCall s =
     (case callState s of
        Idle \<Rightarrow> s
      | Outgoing p e m \<Rightarrow> hang_up (sendSignal p Cancel s)
      | Incoming p e m \<Rightarrow> hang_up (sendSignal p End s)
      | Active p e m mu vo t \<Rightarrow> hang_up (sendSignal p End s))"

definition toggleMute :: "'c session \<Rightarrow> 'c session" where
  "toggleMute s =
     (case (callState s, local_stream s) of
        (Active p e m mu vo t, Some k) \<Rightarrow>
          s \<lparr>audio_on := (audio_on s)(k := mu), callState := Active p e m (\<not> mu) vo t\<rparr>
      | _ \<Rightarrow> s)"

definition toggleVideo :: "'c session \<Rightarrow> 'c session" where
  "toggleVideo s =
     (case (callState s, local_stream s) of
        (Active p e Video mu vo t, Some k) \<Rightarrow>
          s \<lparr>video_on := (video_on s)(k := vo), callState := Active p e Video mu (\<not> vo) t\<rparr>
      | _ \<Rightarrow> s)"

definition connection_lost :: "'c session \<Rightarrow> 'c session" where
  "connection_lost s = hang_up s"

text \<open>Logging out or switching users ends the socket session.\<close>

definition end_session :: "'c session \<Rightarrow> 'c session" where
  "end_session s = (hang_up (s \<lparr>session_gen := session_gen s + 1, ws_open := False\<rparr>))"

section \<open>Signals\<close>

definition peer_of :: "call_state \<Rightarrow> int option" where
  "peer_of c = (case c of Idle \<Rightarrow> None | Outgoing p e m \<Rightarrow> Some p | Incoming p e m \<Rightarrow> Some p
                | Active p e m mu vo t \<Rightarrow> Some p)"

definition on_invite :: "int \<Rightarrow> string \<Rightarrow> media \<Rightarrow> 'c session \<Rightarrow> 'c session" where
  "on_invite peer email m s =
     (if callState s \<noteq> Idle \<or> starting s then sendSignal peer Reject s
      else s \<lparr>callState := Incoming peer email m\<rparr>)"

definition on_accept :: "int \<Rightarrow> 'c session \<Rightarrow> 'c session" where
  "on_accept peer s =
     (case callState s of
        Outgoing p e m \<Rightarrow>
          if p = peer then wait_for (AnswerIce peer e m) (s \<lparr>ring_timer := None\<rparr>) else s
      | _ \<Rightarrow> s)"

definition answer_failed :: "int \<Rightarrow> 'c session \<Rightarrow> 'c session" where
  "answer_failed peer s = hang_up (sendSignal peer End s)"

definition answer_attached :: "nat \<Rightarrow> int \<Rightarrow> string \<Rightarrow> media \<Rightarrow> 'c session \<Rightarrow> 'c session" where
  "answer_attached q peer email m s =
     (if open_pc s q then wait_for (AnswerOffer q peer email m) s else answer_failed peer s)"

definition answer_ice :: "int \<Rightarrow> string \<Rightarrow> media \<Rightarrow> 'c session \<Rightarrow> 'c session" where
  "answer_ice peer email m s0 =
     (let s = build_pc (resume (AnswerIce peer email m) s0)
      in if local_stream s = None then wait_for (AnswerMedia (the (pc s)) peer email m) s
         else answer_attached (the (pc s)) peer email m s)"

definition answer_media :: "nat \<Rightarrow> int \<Rightarrow> string \<Rightarrow> media \<Rightarrow> string option \<Rightarrow> 'c session \<Rightarrow> 'c session" where
  "answer_media q peer email m refused s0 =
     (let s = resume (AnswerMedia q peer email m) s0
      in if refused \<noteq> None then answer_failed peer s
         else answer_attached q peer email m (open_stream s))"

text \<open>The offer is made and set, or fails; on a closed connection it always fails.\<close>

definition answer_offer :: "nat \<Rightarrow> int \<Rightarrow> string \<Rightarrow> media \<Rightarrow> int \<Rightarrow> string option \<Rightarrow> 'c session \<Rightarrow> 'c session" where
  "answer_offer q peer email m now sdp s0 =
     (let s = resume (AnswerOffer q peer email m) s0
      in case sdp of
           Some d \<Rightarrow>
             if open_pc s q then
               (sendSignal peer (Offer d) s) \<lparr>callState := Active peer email m False False now\<rparr>
             else answer_failed peer s
         | None \<Rightarrow> answer_failed peer s)"

definition on_end :: "int \<Rightarrow> 'c session \<Rightarrow> 'c session" where
  "on_end peer s = (if peer_of (callState s) = Some peer then hang_up s else s)"

definition on_offer :: "int \<Rightarrow> string \<Rightarrow> 'c session \<Rightarrow> 'c session" where
  "on_offer peer sdp s =
     (case pc s of Some q \<Rightarrow> if sdp = [] then s else wait_for (RemoteOffer q peer) s | None \<Rightarrow> s)"

definition on_answer :: "string \<Rightarrow> 'c session \<Rightarrow> 'c session" where
  "on_answer sdp s =
     (case pc s of Some q \<Rightarrow> if sdp = [] then s else wait_for (RemoteAnswer q) s | None \<Rightarrow> s)"

text \<open>\<open>setRemoteDescription\<close> resolved for connection \<open>q\<close>, then \<open>flushPendingCandidates\<close>.\<close>

definition flush_candidates :: "nat \<Rightarrow> 'c session \<Rightarrow> 'c session" where
  "flush_candidates q s = s \<lparr>buffered := [], added := added s @ map (Pair q) (buffered s)\<rparr>"

definition apply_remote :: "nat \<Rightarrow> 'c session \<Rightarrow> 'c session" where
  "apply_remote q s = flush_candidates q (s \<lparr>has_remote := (has_remote s)(q := True)\<rparr>)"

definition remote_offer_set :: "nat \<Rightarrow> int \<Rightarrow> bool \<Rightarrow> 'c session \<Rightarrow> 'c session" where
  "remote_offer_set q peer ok s0 =
     (let s = resume (RemoteOffer q peer) s0
      in if ok \<and> open_pc s q then wait_for (MakeAnswer q peer) (apply_remote q s) else s)"

definition answer_made :: "nat \<Rightarrow> int \<Rightarrow> string option \<Rightarrow> 'c session \<Rightarrow> 'c session" where
  "answer_made q peer sdp s0 =
     (let s = resume (MakeAnswer q peer) s0
      in case sdp of Some d \<Rightarrow> if open_pc s q then sendSignal peer (Answer d) s else s | None \<Rightarrow> s)"

definition remote_answer_set :: "nat \<Rightarrow> bool \<Rightarrow> 'c session \<Rightarrow> 'c session" where
  "remote_answer_set q ok s0 =
     (let s = resume (RemoteAnswer q) s0
      in if ok \<and> open_pc s q then apply_remote q s else s)"

definition on_candidate :: "'c \<Rightarrow> 'c session \<Rightarrow> 'c session" where
  "on_candidate c s =
     (case pc s of
        None \<Rightarrow> s
      | Some q \<Rightarrow> if has_remote s q then s \<lparr>added := added s @ [(q, c)]\<rparr>
                  else s \<lparr>buffered := buffered s @ [c]\<rparr>)"


section \<open>Runs\<close>

text \<open>
  What the user, the peer, the browser and the socket can do in any order. With \<open>calm\<close>, nothing
  ends, repeats or replaces a call while it is being answered.
\<close>

fun is_answer :: "flow \<Rightarrow> bool" where
  "is_answer (AcceptIce p e m) \<longleftrightarrow> True"
| "is_answer (AcceptMedia q p e m) \<longleftrightarrow> True"
| "is_answer (AnswerIce p e m) \<longleftrightarrow> True"
| "is_answer (AnswerMedia q p e m) \<longleftrightarrow> True"
| "is_answer (AnswerOffer q p e m) \<longleftrightarrow> True"
| "is_answer _ \<longleftrightarrow> False"

fun is_start :: "flow \<Rightarrow> bool" where
  "is_start (Starting g p e m) \<longleftrightarrow> True"
| "is_start _ \<longleftrightarrow> False"

definition answers :: "'c session \<Rightarrow> flow list" where
  "answers s = filter is_answer (flows s)"

inductive call_step :: "bool \<Rightarrow> 'c session \<Rightarrow> 'c session \<Rightarrow> bool" for calm where
  dials: "call_step calm s (startCall p e m s)"
| prompted: "Starting g p e m \<in> set (flows s) \<Longrightarrow> call_step calm s (finish_start g p e m myEmail r s)"
| rings_out: "ring_timer s = Some p \<Longrightarrow> call_step calm s (ring_timeout p s)"
| accepts: "calm \<longrightarrow> answers s = [] \<Longrightarrow> call_step calm s (acceptCall s)"
| accept_built: "AcceptIce p e m \<in> set (flows s) \<Longrightarrow> call_step calm s (accept_ice p e m t s)"
| accept_granted: "AcceptMedia q p e m \<in> set (flows s) \<Longrightarrow> call_step calm s (accept_media q p e m t r s)"
| rejects: "calm \<longrightarrow> answers s = [] \<Longrightarrow> call_step calm s (rejectCall s)"
| ends: "calm \<longrightarrow> answers s = [] \<Longrightarrow> call_step calm s (endCall s)"
| mutes: "call_step calm s (toggleMute s)"
| hides: "call_step calm s (toggleVideo s)"
| loses: "pc s \<noteq> None \<Longrightarrow> calm \<longrightarrow> answers s = [] \<Longrightarrow> call_step calm s (connection_lost s)"
| logs_out: "calm \<longrightarrow> answers s = [] \<Longrightarrow> call_step calm s (end_session s)"
| ws_opens: "call_step calm s (s \<lparr>ws_open := True\<rparr>)"
| ws_drops: "call_step calm s (s \<lparr>ws_open := False\<rparr>)"
| dismisses: "call_step calm s (s \<lparr>mediaError := None\<rparr>)"
| invited: "call_step calm s (on_invite p e m s)"
| accepted: "calm \<longrightarrow> answers s = [] \<Longrightarrow> call_step calm s (on_accept p s)"
| answer_built: "AnswerIce p e m \<in> set (flows s) \<Longrightarrow> call_step calm s (answer_ice p e m s)"
| answer_granted: "AnswerMedia q p e m \<in> set (flows s) \<Longrightarrow> call_step calm s (answer_media q p e m r s)"
| offered: "AnswerOffer q p e m \<in> set (flows s) \<Longrightarrow> call_step calm s (answer_offer q p e m t sdp s)"
| ended: "calm \<longrightarrow> answers s = [] \<Longrightarrow> call_step calm s (on_end p s)"
| gets_offer: "call_step calm s (on_offer p sdp s)"
| gets_answer: "call_step calm s (on_answer sdp s)"
| offer_set: "RemoteOffer q p \<in> set (flows s) \<Longrightarrow> call_step calm s (remote_offer_set q p good s)"
| answer_ready: "MakeAnswer q p \<in> set (flows s) \<Longrightarrow> call_step calm s (answer_made q p sdp' s)"
| answer_set: "RemoteAnswer q \<in> set (flows s) \<Longrightarrow> call_step calm s (remote_answer_set q good s)"
| candidate: "call_step calm s (on_candidate c s)"

section \<open>What calm runs keep\<close>

definition one_start :: "'c session \<Rightarrow> bool" where
  "one_start s \<longleftrightarrow> (starting s \<longrightarrow> length (filter is_start (flows s)) = 1 \<and> callState s = Idle)
     \<and> (\<not> starting s \<longrightarrow> filter is_start (flows s) = [])"

definition devices_ok :: "'c session \<Rightarrow> bool" where
  "devices_ok s \<longleftrightarrow>
     (\<forall>k. live s k \<longleftrightarrow> local_stream s = Some k) \<and> (\<forall>q. open_pc s q \<longleftrightarrow> pc s = Some q)
     \<and> (buffered s \<noteq> [] \<longrightarrow> (\<exists>q. pc s = Some q \<and> \<not> has_remote s q))"

definition silent :: "'c session \<Rightarrow> bool" where
  "silent s \<longleftrightarrow> local_stream s = None \<and> pc s = None \<and> ring_timer s = None \<and> answers s = []"

definition dialling :: "int \<Rightarrow> string \<Rightarrow> media \<Rightarrow> 'c session \<Rightarrow> bool" where
  "dialling p e m s \<longleftrightarrow>
     (\<exists>k. local_stream s = Some k \<and> audio_on s k \<and> video_on s k)
     \<and> (answers s = [] \<and> ring_timer s = Some p \<and> pc s = None
        \<or> ring_timer s = None \<and> answers s = [AnswerIce p e m] \<and> pc s = None
        \<or> ring_timer s = None \<and> (\<exists>q. answers s = [AnswerOffer q p e m] \<and> pc s = Some q))"

definition rung :: "int \<Rightarrow> string \<Rightarrow> media \<Rightarrow> 'c session \<Rightarrow> bool" where
  "rung p e m s \<longleftrightarrow>
     local_stream s = None \<and> ring_timer s = None
     \<and> (answers s \<in> {[], [AcceptIce p e m]} \<and> pc s = None
        \<or> (\<exists>q. answers s = [AcceptMedia q p e m] \<and> pc s = Some q))"

definition talking :: "bool \<Rightarrow> bool \<Rightarrow> 'c session \<Rightarrow> bool" where
  "talking mu vo s \<longleftrightarrow>
     ring_timer s = None \<and> answers s = [] \<and> pc s \<noteq> None
     \<and> (\<exists>k. local_stream s = Some k \<and> (audio_on s k \<longleftrightarrow> \<not> mu) \<and> (video_on s k \<longleftrightarrow> \<not> vo))"

definition phase_ok :: "'c session \<Rightarrow> bool" where
  "phase_ok s \<longleftrightarrow>
     (case callState s of
        Idle \<Rightarrow> silent s
      | Outgoing p e m \<Rightarrow> dialling p e m s
      | Incoming p e m \<Rightarrow> rung p e m s
      | Active p e m mu vo t \<Rightarrow> talking mu vo s)"

definition phone_ok :: "'c session \<Rightarrow> bool" where
  "phone_ok s \<longleftrightarrow> one_start s \<and> devices_ok s \<and> phase_ok s"

text \<open>The machine a call is meant to be.\<close>

inductive phone_step :: "call_state \<Rightarrow> call_state \<Rightarrow> bool" where
  "phone_step Idle (Outgoing p e m)"
| "phone_step Idle (Incoming p e m)"
| "phone_step (Outgoing p e m) (Active p e m False False t)"
| "phone_step (Incoming p e m) (Active p e m False False t)"
| "phone_step (Active p e m mu vo t) (Active p e m (\<not> mu) vo t)"
| "phone_step (Active p e Video mu vo t) (Active p e Video mu (\<not> vo) t)"
| "c \<noteq> Idle \<Longrightarrow> phone_step c Idle"


lemma filter_resume [simp]:
  "filter P (remove1 f fs) = (if P f then remove1 f (filter P fs) else filter P fs)"
  by (simp add: filter_remove1 remove1_idem)

lemma answer_flow: "f \<in> set (flows s) \<Longrightarrow> is_answer f \<Longrightarrow> f \<in> set (answers s)"
  by (simp add: answers_def)

lemmas phone_defs = phone_ok_def one_start_def devices_ok_def phase_ok_def silent_def dialling_def
  rung_def talking_def answers_def

lemmas call_defs = sendSignal_def unset_def teardownPeer_def hang_up_def wait_for_def resume_def
  open_stream_def build_pc_def

lemma hang_up_ok: "phone_ok s \<Longrightarrow> answers s = [] \<Longrightarrow> \<not> starting s \<or> callState s = Idle \<Longrightarrow> phone_ok (hang_up s)"
  by (auto simp: phone_defs call_defs split: option.splits)

lemma only_member: "x \<in> set xs \<Longrightarrow> length xs = Suc 0 \<Longrightarrow> xs = [x]"
  by (cases xs) auto

lemma starting_flow:
  assumes "phone_ok s" and "Starting g p e m \<in> set (flows s)"
  shows "filter is_start (flows s) = [Starting g p e m] \<and> callState s = Idle \<and> starting s"
proof -
  have m: "Starting g p e m \<in> set (filter is_start (flows s))" using assms(2) by simp
  then have "filter is_start (flows s) \<noteq> []" by (metis empty_iff empty_set)
  with assms(1) have "length (filter is_start (flows s)) = Suc 0" "callState s = Idle" "starting s"
    by (auto simp: phone_ok_def one_start_def)
  with only_member [OF m] show ?thesis by simp
qed

lemma finish_start_ok:
  assumes "phone_ok s" and "Starting g p e m \<in> set (flows s)"
  shows "phone_ok (finish_start g p e m myEmail r s)"
  using starting_flow [OF assms] assms(1)
  by (auto simp: phone_defs call_defs finish_start_def Let_def split: option.splits)

lemma startCall_ok: "phone_ok s \<Longrightarrow> phone_ok (startCall p e m s)"
  by (auto simp: phone_defs call_defs startCall_def split: call_state.splits)

lemma sendSignal_ok: "phone_ok s \<Longrightarrow> phone_ok (sendSignal p x s)"
  by (simp add: phone_defs sendSignal_def split: call_state.splits)

lemma sendSignal_simps [simp]:
  "callState (sendSignal p x s) = callState s" "starting (sendSignal p x s) = starting s"
  "answers (sendSignal p x s) = answers s" "flows (sendSignal p x s) = flows s"
  "local_stream (sendSignal p x s) = local_stream s" "pc (sendSignal p x s) = pc s"
  by (simp_all add: sendSignal_def answers_def)

lemma ring_timer_answers: "phone_ok s \<Longrightarrow> ring_timer s \<noteq> None \<Longrightarrow> answers s = [] \<and> \<not> starting s"
  by (auto simp: phone_defs split: call_state.splits)

lemma acceptCall_ok: "phone_ok s \<Longrightarrow> answers s = [] \<Longrightarrow> phone_ok (acceptCall s)"
  by (auto simp: phone_defs call_defs acceptCall_def split: call_state.splits)

lemma accept_ice_state:
  assumes "phone_ok s" and "AcceptIce p e m \<in> set (flows s)"
  shows "callState s = Incoming p e m \<and> answers s = [AcceptIce p e m] \<and> local_stream s = None \<and> pc s = None"
  using assms(1) answer_flow [OF assms(2)]
  by (auto simp: phone_ok_def phase_ok_def silent_def dialling_def rung_def talking_def split: call_state.splits)

lemma accept_ice_ok:
  assumes "phone_ok s" and "AcceptIce p e m \<in> set (flows s)"
  shows "phone_ok (accept_ice p e m t s)"
  using accept_ice_state [OF assms] assms(1)
  by (auto simp: phone_defs call_defs accept_ice_def Let_def)

lemma accept_media_state:
  assumes "phone_ok s" and "AcceptMedia q p e m \<in> set (flows s)"
  shows "callState s = Incoming p e m \<and> answers s = [AcceptMedia q p e m] \<and> local_stream s = None \<and> pc s = Some q"
  using assms(1) answer_flow [OF assms(2)]
  by (auto simp: phone_ok_def phase_ok_def silent_def dialling_def rung_def talking_def split: call_state.splits)

lemma accept_media_ok:
  assumes "phone_ok s" and "AcceptMedia q p e m \<in> set (flows s)"
  shows "phone_ok (accept_media q p e m t r s)"
  using accept_media_state [OF assms] assms(1)
  by (cases r) (auto simp: phone_defs call_defs accept_media_def accept_attached_def accept_failed_def Let_def)

lemma answer_ice_state:
  assumes "phone_ok s" and "AnswerIce p e m \<in> set (flows s)"
  shows "callState s = Outgoing p e m \<and> answers s = [AnswerIce p e m] \<and> local_stream s \<noteq> None \<and> pc s = None"
  using assms(1) answer_flow [OF assms(2)]
  by (auto simp: phone_ok_def phase_ok_def silent_def dialling_def rung_def talking_def split: call_state.splits)

lemma answer_ice_ok:
  assumes "phone_ok s" and "AnswerIce p e m \<in> set (flows s)"
  shows "phone_ok (answer_ice p e m s)"
  using answer_ice_state [OF assms] assms(1)
  by (auto simp: phone_defs call_defs answer_ice_def answer_attached_def Let_def)

lemma no_answer_media:
  assumes "phone_ok s" shows "AnswerMedia q p e m \<notin> set (flows s)"
  using assms answer_flow [of "AnswerMedia q p e m" s]
  by (auto simp: phone_ok_def phase_ok_def silent_def dialling_def rung_def talking_def split: call_state.splits)

lemma answer_offer_state:
  assumes "phone_ok s" and "AnswerOffer q p e m \<in> set (flows s)"
  shows "callState s = Outgoing p e m \<and> answers s = [AnswerOffer q p e m] \<and> local_stream s \<noteq> None \<and> pc s = Some q"
  using assms(1) answer_flow [OF assms(2)]
  by (auto simp: phone_ok_def phase_ok_def silent_def dialling_def rung_def talking_def split: call_state.splits)

lemma answer_offer_ok:
  assumes "phone_ok s" and "AnswerOffer q p e m \<in> set (flows s)"
  shows "phone_ok (answer_offer q p e m t sdp s)"
  using answer_offer_state [OF assms] assms(1)
  by (cases sdp) (auto simp: phone_defs call_defs answer_offer_def answer_failed_def Let_def split: if_splits)

lemma not_starting: "phone_ok s \<Longrightarrow> callState s \<noteq> Idle \<Longrightarrow> \<not> starting s"
  by (auto simp: phone_ok_def one_start_def)

lemma hang_up_calm: "phone_ok s \<Longrightarrow> answers s = [] \<Longrightarrow> phone_ok (hang_up s)"
  by (rule hang_up_ok) (auto dest: not_starting)

lemma rejectCall_ok: "phone_ok s \<Longrightarrow> answers s = [] \<Longrightarrow> phone_ok (rejectCall s)"
  by (auto simp: phone_defs call_defs rejectCall_def split: call_state.splits)

lemma endCall_ok: "phone_ok s \<Longrightarrow> answers s = [] \<Longrightarrow> phone_ok (endCall s)"
  unfolding endCall_def by (auto intro!: hang_up_calm sendSignal_ok split: call_state.split)

lemma end_session_ok: "phone_ok s \<Longrightarrow> answers s = [] \<Longrightarrow> phone_ok (end_session s)"
  unfolding end_session_def
  by (rule hang_up_calm) (simp_all add: phone_defs split: call_state.splits)

lemma on_end_ok: "phone_ok s \<Longrightarrow> answers s = [] \<Longrightarrow> phone_ok (on_end p s)"
  by (simp add: on_end_def hang_up_calm)

lemma toggleMute_ok: "phone_ok s \<Longrightarrow> phone_ok (toggleMute s)"
  by (auto simp: phone_defs toggleMute_def split: call_state.splits option.splits)

lemma toggleVideo_ok: "phone_ok s \<Longrightarrow> phone_ok (toggleVideo s)"
  by (auto simp: phone_defs toggleVideo_def split: call_state.splits option.splits media.splits)

lemma on_invite_ok: "phone_ok s \<Longrightarrow> phone_ok (on_invite p e m s)"
proof (cases "callState s = Idle \<and> \<not> starting s")
  case True
  moreover assume "phone_ok s"
  ultimately show ?thesis by (auto simp: on_invite_def phone_defs)
qed (simp add: on_invite_def sendSignal_ok)

lemma on_accept_ok: "phone_ok s \<Longrightarrow> answers s = [] \<Longrightarrow> phone_ok (on_accept p s)"
  by (auto simp: phone_defs call_defs on_accept_def split: call_state.splits)

lemma wait_description: "phone_ok s \<Longrightarrow> \<not> is_answer f \<Longrightarrow> \<not> is_start f \<Longrightarrow> phone_ok (wait_for f s)"
  by (auto simp: phone_defs wait_for_def split: call_state.splits)

lemma resume_description: "phone_ok s \<Longrightarrow> \<not> is_answer f \<Longrightarrow> \<not> is_start f \<Longrightarrow> phone_ok (resume f s)"
  by (auto simp: phone_defs resume_def split: call_state.splits)

lemma apply_remote_ok: "phone_ok s \<Longrightarrow> phone_ok (apply_remote q s)"
  by (simp add: phone_defs apply_remote_def flush_candidates_def split: call_state.splits)

lemma remote_offer_set_ok: "phone_ok s \<Longrightarrow> phone_ok (remote_offer_set q p good s)"
  by (simp add: remote_offer_set_def Let_def wait_description resume_description apply_remote_ok)

lemma answer_made_ok: "phone_ok s \<Longrightarrow> phone_ok (answer_made q p sdp s)"
  by (simp add: answer_made_def Let_def resume_description sendSignal_ok split: option.split)

lemma remote_answer_set_ok: "phone_ok s \<Longrightarrow> phone_ok (remote_answer_set q good s)"
  by (simp add: remote_answer_set_def Let_def resume_description apply_remote_ok)

lemma on_candidate_ok: "phone_ok s \<Longrightarrow> phone_ok (on_candidate c s)"
  by (auto simp: phone_defs on_candidate_def split: call_state.splits option.splits)

lemma flag_ok:
  "phone_ok s \<Longrightarrow> phone_ok (s \<lparr>ws_open := w\<rparr>)" "phone_ok s \<Longrightarrow> phone_ok (s \<lparr>mediaError := x\<rparr>)"
  by (simp_all add: phone_defs split: call_state.splits)

lemma call_step_ok: "call_step True s t \<Longrightarrow> phone_ok s \<Longrightarrow> phone_ok t"
proof (induction rule: call_step.induct)
  case (rings_out s p)
  then show ?case
    using ring_timer_answers [of s] by (simp add: ring_timeout_def hang_up_calm sendSignal_ok)
next
  case (answer_granted q p e m s r)
  with no_answer_media show ?case by blast
next
  case (gets_offer s p sdp)
  then show ?case by (simp add: on_offer_def wait_description split: option.split)
next
  case (gets_answer s sdp)
  then show ?case by (simp add: on_answer_def wait_description split: option.split)
qed (simp_all add: startCall_ok finish_start_ok acceptCall_ok accept_ice_ok accept_media_ok rejectCall_ok
    endCall_ok toggleMute_ok toggleVideo_ok connection_lost_def hang_up_calm end_session_ok flag_ok
    on_invite_ok on_accept_ok answer_ice_ok answer_offer_ok on_end_ok remote_offer_set_ok
    answer_made_ok remote_answer_set_ok on_candidate_ok)

lemma calm_run_ok: "(call_step True)\<^sup>*\<^sup>* s t \<Longrightarrow> phone_ok s \<Longrightarrow> phone_ok t"
  by (induction rule: rtranclp_induct) (auto intro: call_step_ok)

lemma session_init_ok: "phone_ok call_init"
  by (simp add: phone_defs call_init_def)


lemma state_fields [simp]:
  "callState (hang_up s) = Idle" "callState (wait_for f s) = callState s"
  "callState (resume f s) = callState s" "callState (apply_remote q s) = callState s"
  "callState (on_candidate c s) = callState s" "callState (on_offer p sdp s) = callState s"
  "callState (on_answer sdp s) = callState s" "callState (open_stream s) = callState s"
  "callState (build_pc s) = callState s" "callState (remote_offer_set q p good s) = callState s"
  "callState (answer_made q p d s) = callState s" "callState (remote_answer_set q good s) = callState s"
  by (simp_all add: hang_up_def wait_for_def resume_def apply_remote_def flush_candidates_def
      on_candidate_def on_offer_def on_answer_def open_stream_def build_pc_def remote_offer_set_def
      answer_made_def remote_answer_set_def Let_def split: option.split)

lemma to_idle: "x = Idle \<or> phone_step x Idle"
  using phone_step.intros(7) by blast

lemma from_any [simp]: "phone_step x Idle \<longleftrightarrow> x \<noteq> Idle"
  by (auto intro: phone_step.intros elim: phone_step.cases)

lemma attached_phone:
  assumes "callState s = Incoming p e m"
  shows "phone_step (callState s) (callState (accept_attached q p e m t s))"
  using assms by (simp add: accept_attached_def accept_failed_def phone_step.intros)

lemma call_step_phone:
  "call_step True s t \<Longrightarrow> phone_ok s \<Longrightarrow> callState t = callState s \<or> phone_step (callState s) (callState t)"
proof (induction rule: call_step.induct)
  case (dials s p e m)
  then show ?case by (simp add: startCall_def)
next
  case (prompted g p e m s myEmail r)
  then show ?case
    using starting_flow [OF prompted(2,1)]
    by (auto simp: finish_start_def Let_def phone_step.intros split: option.split)
next
  case (accepts s)
  then show ?case by (simp add: acceptCall_def split: call_state.split)
next
  case (accept_built p e m s t)
  then show ?case
    using accept_ice_state [OF accept_built(2,1)]
    by (auto simp: accept_ice_def Let_def accept_attached_def accept_failed_def phone_step.intros)
next
  case (accept_granted q p e m s t r)
  then show ?case
    using accept_media_state [OF accept_granted(2,1)]
    by (auto simp: accept_media_def Let_def accept_attached_def accept_failed_def phone_step.intros
        split: option.split)
next
  case (rejects s)
  then show ?case by (auto simp: rejectCall_def phone_step.intros split: call_state.split)
next
  case (ends s)
  then show ?case by (auto simp: endCall_def phone_step.intros split: call_state.split)
next
  case (mutes s)
  then show ?case
    by (auto simp: toggleMute_def phone_step.intros split: call_state.split option.split)
next
  case (hides s)
  then show ?case
    by (auto simp: toggleVideo_def phone_step.intros split: call_state.split option.split media.split)
next
  case (invited s p e m)
  then show ?case by (auto simp: on_invite_def phone_step.intros)
next
  case (accepted s p)
  then show ?case by (auto simp: on_accept_def split: call_state.split)
next
  case (answer_built p e m s)
  then show ?case
    using to_idle [of "callState s"]
    by (auto simp: answer_ice_def answer_attached_def answer_failed_def Let_def)
next
  case (answer_granted q p e m s r)
  with no_answer_media show ?case by blast
next
  case (offered q p e m s t sdp)
  then show ?case
    using answer_offer_state [OF offered(2,1)]
    by (auto simp: answer_offer_def Let_def answer_failed_def phone_step.intros split: option.split)
next
  case (ended s p)
  then show ?case using to_idle [of "callState s"] by (auto simp: on_end_def)
qed (auto simp: ring_timeout_def connection_lost_def end_session_def)

text \<open>What a waiting start or answer makes of the call when it gets its stream or description.\<close>

fun continues :: "flow \<Rightarrow> call_state \<Rightarrow> bool" where
  "continues (Starting g p e m) c \<longleftrightarrow> c = Outgoing p e m"
| "continues (AcceptIce p e m) c \<longleftrightarrow> (\<exists>t. c = Active p e m False False t)"
| "continues (AcceptMedia q p e m) c \<longleftrightarrow> (\<exists>t. c = Active p e m False False t)"
| "continues (AnswerOffer q p e m) c \<longleftrightarrow> (\<exists>t. c = Active p e m False False t)"
| "continues _ c \<longleftrightarrow> False"

lemma call_step_any:
  "call_step calm s t \<Longrightarrow> callState t = callState s \<or> phone_step (callState s) (callState t)
     \<or> (\<exists>f \<in> set (flows s). continues f (callState t))"
proof (induction rule: call_step.induct)
  case (dials s p e m)
  then show ?case by (simp add: startCall_def)
next
  case (prompted g p e m s myEmail r)
  then show ?case
    by (auto simp: finish_start_def Let_def split: option.split intro!: bexI [of _ "Starting g p e m"])
next
  case (accepts s)
  then show ?case by (simp add: acceptCall_def split: call_state.split)
next
  case (accept_built p e m s t)
  then have "\<exists>f \<in> set (flows s). \<forall>t. continues f (Active p e m False False t)"
    by (intro bexI [of _ "AcceptIce p e m"]) simp_all
  then show ?case
    using to_idle [of "callState s"]
    by (auto simp: accept_ice_def Let_def accept_attached_def accept_failed_def)
next
  case (accept_granted q p e m s t r)
  then have "\<exists>f \<in> set (flows s). \<forall>t. continues f (Active p e m False False t)"
    by (intro bexI [of _ "AcceptMedia q p e m"]) simp_all
  then show ?case
    using to_idle [of "callState s"]
    by (auto simp: accept_media_def Let_def accept_attached_def accept_failed_def split: option.split)
next
  case (rejects s)
  then show ?case by (auto simp: rejectCall_def phone_step.intros split: call_state.split)
next
  case (ends s)
  then show ?case by (auto simp: endCall_def phone_step.intros split: call_state.split)
next
  case (mutes s)
  then show ?case
    by (auto simp: toggleMute_def phone_step.intros split: call_state.split option.split)
next
  case (hides s)
  then show ?case
    by (auto simp: toggleVideo_def phone_step.intros split: call_state.split option.split media.split)
next
  case (invited s p e m)
  then show ?case by (auto simp: on_invite_def phone_step.intros)
next
  case (accepted s p)
  then show ?case by (auto simp: on_accept_def split: call_state.split)
next
  case (answer_built p e m s)
  then show ?case
    using to_idle [of "callState s"]
    by (auto simp: answer_ice_def answer_attached_def answer_failed_def Let_def)
next
  case (answer_granted q p e m s r)
  then show ?case
    using to_idle [of "callState s"]
    by (auto simp: answer_media_def answer_attached_def answer_failed_def Let_def)
next
  case (offered q p e m s t sdp)
  then have "\<exists>f \<in> set (flows s). \<forall>t. continues f (Active p e m False False t)"
    by (intro bexI [of _ "AnswerOffer q p e m"]) simp_all
  then show ?case
    using to_idle [of "callState s"]
    by (auto simp: answer_offer_def Let_def answer_failed_def split: option.split)
next
  case (ended s p)
  then show ?case using to_idle [of "callState s"] by (auto simp: on_end_def)
qed (auto simp: ring_timeout_def connection_lost_def end_session_def)

section \<open>Properties\<close>

text \<open>
  C6: While nothing ends or repeats a call that is being answered, the hook follows the machine of a
  call: every step leaves the state, dials, is rung, connects with the peer that was dialled or
  that rang, flips one switch of the running call, or returns to idle, and the microphone stream,
  the connection, the ring timer and the waiting handlers are those of the state reached. Without
  that condition a step outside the machine is the late end of a start or an answer still waiting.
\<close>

theorem calls_follow_phone:
  assumes "(call_step calm)\<^sup>*\<^sup>* call_init s" and "call_step calm s t"
  shows "(calm \<longrightarrow> (callState t = callState s \<or> phone_step (callState s) (callState t)) \<and> phase_ok t)
    \<and> (callState t = callState s \<or> phone_step (callState s) (callState t)
       \<or> (\<exists>f \<in> set (flows s). continues f (callState t)))"
proof (intro conjI impI)
  assume calm
  then have c: "call_step calm = call_step True" by simp
  have s: "phone_ok s" using calm_run_ok [OF assms(1) [unfolded c] session_init_ok] .
  show "callState t = callState s \<or> phone_step (callState s) (callState t)"
    by (rule call_step_phone [OF assms(2) [unfolded c] s])
  show "phase_ok t" using call_step_ok [OF assms(2) [unfolded c] s] by (simp add: phone_ok_def)
qed (rule call_step_any [OF assms(2)])

definition ready_session :: "int session" where
  "ready_session = call_init \<lparr>ws_open := True\<rparr>"

definition rung_session :: "int session" where
  "rung_session = on_invite 7 ''ann'' Audio ready_session"

lemma ready_reached: "(call_step True)\<^sup>*\<^sup>* call_init ready_session"
  unfolding ready_session_def by (rule r_into_rtranclp, rule ws_opens)

lemma rung_reached: "(call_step True)\<^sup>*\<^sup>* call_init rung_session"
  using ready_reached unfolding rung_session_def by (rule rtranclp.rtrancl_into_rtrancl) (rule invited)

theorem calls_follow_phone_witness:
  "phone_step Idle (callState rung_session) \<and> phase_ok rung_session"
proof -
  have "call_step True ready_session rung_session" unfolding rung_session_def by (rule invited)
  from calls_follow_phone [OF ready_reached this] show ?thesis
    by (simp add: rung_session_def ready_session_def call_init_def on_invite_def)
qed

text \<open>
  C25: The microphone is on in a call only: an idle or ringing phone holds no stream, a calling or
  connected one exactly one. An unanswered call cancels itself, and muting, or switching the
  camera off, is what the tracks do.
\<close>

theorem microphone_only_in_calls:
  assumes "(call_step True)\<^sup>*\<^sup>* call_init s"
  shows "case callState s of
      Idle \<Rightarrow> (\<forall>k. \<not> live s k) \<and> (\<forall>q. \<not> open_pc s q) \<and> ring_timer s = None
    | Incoming p e m \<Rightarrow> \<forall>k. \<not> live s k
    | Outgoing p e m \<Rightarrow> (\<exists>!k. live s k) \<and> (answers s = [] \<longrightarrow> ring_timer s = Some p)
    | Active p e m mu vo t \<Rightarrow> (\<exists>!q. open_pc s q) \<and> (\<exists>!k. live s k) \<and>
        (\<forall>k. live s k \<longrightarrow> (audio_on s k \<longleftrightarrow> \<not> mu) \<and> (video_on s k \<longleftrightarrow> \<not> vo))"
proof -
  have "phone_ok s" by (rule calm_run_ok [OF assms session_init_ok])
  then show ?thesis
    by (cases "callState s")
      (auto simp: phone_ok_def devices_ok_def phase_ok_def silent_def dialling_def rung_def talking_def)
qed

theorem microphone_only_in_calls_witness: "\<not> live rung_session 0"
  using microphone_only_in_calls [OF rung_reached]
  by (simp add: rung_session_def ready_session_def call_init_def on_invite_def)

text \<open>
  An answer is not withdrawn: if the caller cancels, the user hangs up, or the session is logged
  out while an accepted call waits for the relay configuration, the call connects all the same,
  with the microphone on and no timer that would end it.
\<close>

theorem interrupted_answer_connects:
  assumes "callState s = Incoming p e m" and "AcceptIce p e m \<in> set (flows s)"
    and "local_stream s = None"
    and "i \<in> {on_end p, endCall, end_session}"
  shows "\<exists>q. let u = accept_ice p e m t (i s) in
      callState (i s) = Idle \<and> AcceptMedia q p e m \<in> set (flows u) \<and>
      callState (accept_media q p e m t None u) = Active p e m False False t \<and>
      local_stream (accept_media q p e m t None u) \<noteq> None \<and>
      live (accept_media q p e m t None u) (the (local_stream (accept_media q p e m t None u))) \<and>
      ring_timer (accept_media q p e m t None u) = None"
proof -
  have h: "callState (i s) = Idle" "local_stream (i s) = None" "ring_timer (i s) = None"
    "flows (i s) = flows s"
    using assms by (auto simp: on_end_def peer_of_def endCall_def end_session_def call_defs)
  then show ?thesis
    by (intro exI [of _ "next_id (i s)"])
      (simp add: accept_ice_def accept_media_def accept_attached_def call_defs Let_def)
qed

theorem interrupted_answer_connects_witness:
  "callState (endCall (acceptCall rung_session)) = Idle"
  using interrupted_answer_connects [of "acceptCall rung_session" 7 "''ann''" Audio endCall 0]
  by (simp add: rung_session_def ready_session_def call_init_def on_invite_def acceptCall_def
      wait_for_def Let_def)

text \<open>
  A session description is taken from anyone: the offer of a user who is not the peer is applied to
  the connection of the running call and answered to that user, and the call goes on.
\<close>

theorem stranger_offer_is_answered:
  assumes "callState s = Active p e m mu vo t" and "pc s = Some q" and "open_pc s q" and "ws_open s"
    and "other \<noteq> p" and "sdp \<noteq> []"
  shows "\<exists>u. call_step True s (on_offer other sdp s) \<and> call_step True (on_offer other sdp s) u \<and>
    has_remote u q \<and> callState u = callState s \<and>
    (other, Answer d) \<in> set (sent (answer_made q other (Some d) u))"
proof (intro exI conjI)
  let ?o = "on_offer other sdp s"
  let ?u = "remote_offer_set q other True ?o"
  show "call_step True s ?o" by (rule gets_offer)
  show "call_step True ?o ?u"
    by (rule offer_set) (use assms in \<open>simp add: on_offer_def wait_for_def\<close>)
  show "has_remote ?u q" "callState ?u = callState s"
      "(other, Answer d) \<in> set (sent (answer_made q other (Some d) ?u))"
    using assms
    by (simp_all add: on_offer_def remote_offer_set_def answer_made_def apply_remote_def
        flush_candidates_def call_defs Let_def)
qed

definition talking_session :: "int session" where
  "talking_session = accept_media 0 7 ''ann'' Audio 5 None
     (accept_ice 7 ''ann'' Audio 5 (acceptCall rung_session))"

theorem stranger_offer_is_answered_witness:
  "\<exists>u. call_step True talking_session (on_offer 8 ''v'' talking_session) \<and>
     call_step True (on_offer 8 ''v'' talking_session) u \<and> has_remote u 0 \<and>
     callState u = callState talking_session \<and>
     (8, Answer ''d'') \<in> set (sent (answer_made 0 8 (Some ''d'') u))"
  by (rule stranger_offer_is_answered [where p = 7 and e = "''ann''" and m = Audio and mu = False
        and vo = False and t = 5])
    (simp_all add: talking_session_def rung_session_def ready_session_def call_init_def on_invite_def
      acceptCall_def accept_ice_def accept_media_def accept_attached_def call_defs Let_def)

lemma candidates_before:
  "pc s = Some q \<Longrightarrow> \<not> has_remote s q \<Longrightarrow>
   fold on_candidate cs s = s \<lparr>buffered := buffered s @ cs\<rparr>"
  by (induction cs arbitrary: s) (simp_all add: on_candidate_def)

lemma candidates_after:
  "pc s = Some q \<Longrightarrow> has_remote s q \<Longrightarrow>
   fold on_candidate cs s = s \<lparr>added := added s @ map (Pair q) cs\<rparr>"
  by (induction cs arbitrary: s) (simp_all add: on_candidate_def)

text \<open>
  No network candidate is lost or reordered: those that arrive before the remote description wait,
  are added when it is set, and the later ones follow.
\<close>

theorem candidates_added_in_order:
  assumes "pc s = Some q" and "\<not> has_remote s q" and "buffered s = []" and "open_pc s q"
  shows "let u = fold on_candidate ds (remote_answer_set q True (fold on_candidate cs s)) in
    added u = added s @ map (Pair q) (cs @ ds) \<and> buffered u = []"
  using assms
  by (simp add: candidates_before candidates_after remote_answer_set_def apply_remote_def
      flush_candidates_def resume_def Let_def)

theorem candidates_added_in_order_witness:
  "added (fold on_candidate [3] (remote_answer_set 0 True (fold on_candidate [1, 2] talking_session)))
   = [(0, 1), (0, 2), (0, 3)]"
  using candidates_added_in_order [of talking_session 0 "[3]" "[1, 2]"]
  by (simp add: talking_session_def rung_session_def ready_session_def call_init_def on_invite_def
      acceptCall_def accept_ice_def accept_media_def accept_attached_def call_defs Let_def)

end
