(* ===== verification/Chat_Socket.thy ===== *)
theory Chat_Socket
  imports Js_String Complex_Main
begin

text \<open>
  The chat connection: \<open>chat/hooks/useChatSocket.ts\<close>. First the life of the socket, with
  reconnects after a randomised delay; then what each frame that arrives makes the chat do. The
  random number is a rational argument in \<open>[0, 1)\<close>.
\<close>

section \<open>The delay before a reconnect\<close>

definition js_round :: "rat \<Rightarrow> int" where
  "js_round x = \<lfloor>x + 1 / 2\<rfloor>"

definition backoff_base :: "nat \<Rightarrow> rat" where
  "backoff_base attempts = min (1000 * 2 ^ (attempts - 1)) 15000"

definition backoff_delay :: "nat \<Rightarrow> rat \<Rightarrow> int" where
  "backoff_delay attempts random =
     (let base = backoff_base attempts;
          jitter = base * (1 / 5) * (random * 2 - 1)
      in max 500 (js_round (base + jitter)))"

lemma backoff_base_bounds: "1000 \<le> backoff_base n" "backoff_base n \<le> 15000"
proof -
  have "(1::rat) \<le> 2 ^ (n - 1)" by simp
  then have "(1000::rat) \<le> 1000 * 2 ^ (n - 1)" by linarith
  then show "1000 \<le> backoff_base n" "backoff_base n \<le> 15000" by (simp_all add: backoff_base_def)
qed

lemma backoff_delay_bounds:
  assumes "0 \<le> random" and "random < 1"
  shows "800 \<le> backoff_delay n random" "backoff_delay n random \<le> 18000"
proof -
  let ?b = "backoff_base n"
  let ?x = "?b + ?b * (1 / 5) * (random * 2 - 1)"
  have b: "1000 \<le> ?b" "?b \<le> 15000" by (rule backoff_base_bounds)+
  have "?b * (- 1) \<le> ?b * (random * 2 - 1)" and "?b * (random * 2 - 1) \<le> ?b * 1"
    by (rule mult_left_mono; use assms b in simp)+
  with b have "800 \<le> ?x" and "?x \<le> 18000" by linarith+
  then have "800 \<le> js_round ?x" and "js_round ?x \<le> 18000"
    unfolding js_round_def le_floor_iff floor_le_iff by simp_all
  then show "800 \<le> backoff_delay n random" "backoff_delay n random \<le> 18000"
    by (simp_all add: backoff_delay_def Let_def)
qed

section \<open>The life of the socket\<close>

datatype ready = CONNECTING | OPEN | CLOSING | CLOSED

text \<open>One run of the connect effect; the sockets it made are numbered, \<open>wsRef\<close> is the last.\<close>

record socket_run =
  cancelled :: bool
  attempts :: nat
  reconnectTimer :: "int option"
  ws_state :: "nat \<Rightarrow> ready"
  wsRef :: "nat option"
  next_socket :: nat
  readyState :: ready
  reconnecting :: bool
  opened :: nat \<comment> \<open>calls of \<open>onOpen\<close>\<close>

definition connect :: "socket_run \<Rightarrow> socket_run" where
  "connect r =
     (if cancelled r then r
      else r \<lparr>ws_state := (ws_state r)(next_socket r := CONNECTING), wsRef := Some (next_socket r),
              next_socket := next_socket r + 1\<rparr>)"

definition effect_start :: socket_run where
  "effect_start = connect
     \<lparr>cancelled = False, attempts = 0, reconnectTimer = None, ws_state = (\<lambda>_. CLOSED),
      wsRef = None, next_socket = 0, readyState = CLOSED, reconnecting = False, opened = 0\<rparr>"

text \<open>The handlers of socket \<open>i\<close>; the browser has set its state before they run.\<close>

definition onopen :: "nat \<Rightarrow> socket_run \<Rightarrow> socket_run" where
  "onopen i r =
     (if cancelled r then r
      else r \<lparr>attempts := 0, readyState := ws_state r i, reconnecting := False, opened := opened r + 1\<rparr>)"

definition onclose :: "rat \<Rightarrow> nat \<Rightarrow> socket_run \<Rightarrow> socket_run" where
  "onclose random i r =
     (if cancelled r then r
      else r \<lparr>readyState := ws_state r i, reconnecting := True, attempts := attempts r + 1,
              reconnectTimer := Some (backoff_delay (attempts r + 1) random)\<rparr>)"

definition onerror :: "nat \<Rightarrow> socket_run \<Rightarrow> socket_run" where
  "onerror i r = (if cancelled r then r else r \<lparr>readyState := ws_state r i\<rparr>)"

definition close_socket :: "nat option \<Rightarrow> socket_run \<Rightarrow> socket_run" where
  "close_socket w r =
     (case w of None \<Rightarrow> r
      | Some i \<Rightarrow> if ws_state r i = CLOSED then r else r \<lparr>ws_state := (ws_state r)(i := CLOSING)\<rparr>)"

definition cleanup :: "socket_run \<Rightarrow> socket_run" where
  "cleanup r = close_socket (wsRef r)
     (r \<lparr>cancelled := True, reconnectTimer := None, readyState := CLOSED, reconnecting := False\<rparr>)"

definition set_ws :: "nat \<Rightarrow> ready \<Rightarrow> socket_run \<Rightarrow> socket_run" where
  "set_ws i s r = r \<lparr>ws_state := (ws_state r)(i := s)\<rparr>"

text \<open>
  What can happen: the browser opens a connecting socket; starts the closing handshake, which no
  handler sees; closes a socket, and when it failed runs the error handler in the same task,
  before the close handler; the timer fires; the user changes or leaves.
\<close>

inductive socket_step :: "socket_run \<Rightarrow> socket_run \<Rightarrow> bool" where
  opens: "ws_state r i = CONNECTING \<Longrightarrow> socket_step r (onopen i (set_ws i OPEN r))"
| shuts: "ws_state r i \<noteq> CLOSED \<Longrightarrow> socket_step r (set_ws i CLOSING r)"
| fails: "ws_state r i \<noteq> CLOSED \<Longrightarrow> 0 \<le> random \<Longrightarrow> random < 1 \<Longrightarrow>
    socket_step r (onclose random i (onerror i (set_ws i CLOSED r)))"
| closes: "ws_state r i \<noteq> CLOSED \<Longrightarrow> 0 \<le> random \<Longrightarrow> random < 1 \<Longrightarrow>
    socket_step r (onclose random i (set_ws i CLOSED r))"
| fires: "reconnectTimer r = Some d \<Longrightarrow> socket_step r (connect (r \<lparr>reconnectTimer := None\<rparr>))"
| leaves: "socket_step r (cleanup r)"

inductive_cases socket_stepE: "socket_step r s"

definition isConnected :: "socket_run \<Rightarrow> bool" where
  "isConnected r \<longleftrightarrow> readyState r = OPEN"

definition live :: "socket_run \<Rightarrow> nat \<Rightarrow> bool" where
  "live r i \<longleftrightarrow> ws_state r i \<noteq> CLOSED"

definition socket_inv :: "socket_run \<Rightarrow> bool" where
  "socket_inv r \<longleftrightarrow>
     (\<forall>i. i \<ge> next_socket r \<longrightarrow> \<not> live r i) \<and> (\<forall>i. live r i \<longrightarrow> wsRef r = Some i)
     \<and> (if cancelled r then reconnectTimer r = None \<and> readyState r = CLOSED \<and> \<not> reconnecting r
        else (case reconnectTimer r of
                Some d \<Rightarrow> 800 \<le> d \<and> d \<le> 18000 \<and> (\<forall>i. \<not> live r i) \<and> reconnecting r \<and> readyState r = CLOSED
              | None \<Rightarrow> (\<exists>i. live r i \<and> (ws_state r i = OPEN \<longrightarrow> readyState r = OPEN)
                     \<and> (ws_state r i = CONNECTING \<longrightarrow> readyState r \<noteq> OPEN))))"

lemma live_unique: "socket_inv r \<Longrightarrow> live r i \<Longrightarrow> j \<noteq> i \<Longrightarrow> ws_state r j = CLOSED"
  unfolding socket_inv_def live_def by (metis option.inject)

lemma socket_step_inv: "socket_step r s \<Longrightarrow> socket_inv r \<Longrightarrow> socket_inv s"
proof (induction rule: socket_step.induct)
  case (opens r i)
  then have "ws_state r j = CLOSED" if "j \<noteq> i" for j
    using live_unique [of r i j] that by (simp add: live_def)
  with opens show ?case
    by (auto simp: socket_inv_def onopen_def set_ws_def live_def split: option.splits if_splits)
next
  case (shuts r i)
  then have "ws_state r j = CLOSED" if "j \<noteq> i" for j
    using live_unique [of r i j] that by (simp add: live_def)
  with shuts show ?case
    by (auto simp: socket_inv_def set_ws_def live_def split: option.splits if_splits)
next
  case (fails r i random)
  note d = backoff_delay_bounds [OF fails(2,3)]
  have "ws_state r j = CLOSED" if "j \<noteq> i" for j
    using live_unique [of r i j] fails(1,4) that by (simp add: live_def)
  with fails d show ?case
    by (auto simp: socket_inv_def onerror_def onclose_def set_ws_def live_def split: option.splits if_splits)
next
  case (closes r i random)
  note d = backoff_delay_bounds [OF closes(2,3)]
  have "ws_state r j = CLOSED" if "j \<noteq> i" for j
    using live_unique [of r i j] closes(1,4) that by (simp add: live_def)
  with closes d show ?case
    by (auto simp: socket_inv_def onclose_def set_ws_def live_def split: option.splits if_splits)
next
  case (fires r d)
  then show ?case
    by (auto simp: socket_inv_def connect_def live_def split: option.splits if_splits)
next
  case (leaves r)
  then have l: "live r i \<longrightarrow> wsRef r = Some i" "i \<ge> next_socket r \<longrightarrow> \<not> live r i" for i
    by (simp_all add: socket_inv_def)
  have "live (cleanup r) i \<longleftrightarrow> live r i" for i
    by (simp add: cleanup_def close_socket_def live_def split: option.split)
  moreover have "wsRef (cleanup r) = wsRef r" "next_socket (cleanup r) = next_socket r"
    by (simp_all add: cleanup_def close_socket_def split: option.split)
  moreover have "cancelled (cleanup r)" "reconnectTimer (cleanup r) = None"
    "readyState (cleanup r) = CLOSED" "\<not> reconnecting (cleanup r)"
    by (simp_all add: cleanup_def close_socket_def split: option.split)
  ultimately show ?case using l by (simp add: socket_inv_def)
qed

lemma socket_run_inv: "socket_step\<^sup>*\<^sup>* r s \<Longrightarrow> socket_inv r \<Longrightarrow> socket_inv s"
  by (induction rule: rtranclp_induct) (auto intro: socket_step_inv)

lemma effect_start_inv: "socket_inv effect_start"
  by (simp add: socket_inv_def effect_start_def connect_def live_def)

lemma cancelled_step:
  "socket_step r s \<Longrightarrow> cancelled r \<Longrightarrow> socket_inv r \<Longrightarrow>
   cancelled s \<and> next_socket s = next_socket r \<and> opened s = opened r"
  by (induction rule: socket_step.induct)
    (auto simp: onopen_def onclose_def onerror_def connect_def cleanup_def close_socket_def set_ws_def
      split: option.split)

lemma cancelled_run:
  "socket_step\<^sup>*\<^sup>* r s \<Longrightarrow> cancelled r \<Longrightarrow> socket_inv r \<Longrightarrow>
   cancelled s \<and> next_socket s = next_socket r \<and> opened s = opened r"
proof (induction rule: rtranclp_induct)
  case (step s t)
  then have "cancelled s" "socket_inv s" using socket_run_inv [OF step.hyps(1)] by simp_all
  from cancelled_step [OF step.hyps(2) this] step show ?case by simp
qed simp

section \<open>Frames\<close>

datatype conversation = Channel int | Dm int

record chat_frame =
  f_type :: "string option"
  f_sender :: "int option"
  f_receiver :: "int option"
  f_channel :: "int option"
  f_client_id :: "string option"
  f_message_id :: "int option"
  f_status :: "string option"
  f_user_id :: "int option"
  f_online :: bool
  f_last_seen :: "string option"
  f_is_channel :: bool
  f_reactions :: "string list"
  f_message :: "string option"
  f_parent :: "int option"
  f_content :: string
  f_created_at :: string

datatype chat_effect =
    Presence int bool "string option" string
  | Inbound chat_frame
  | StatusUpdate int string
  | SendFailed string string
  | Reaction int bool "string list"
  | ReadReceipt int "int option" \<comment> \<open>reader, and the other side\<close>
  | Message chat_frame

definition truthy_id :: "int option \<Rightarrow> bool" where
  "truthy_id v \<longleftrightarrow> v \<noteq> None \<and> v \<noteq> Some 0"

definition truthy_string :: "string option \<Rightarrow> bool" where
  "truthy_string v \<longleftrightarrow> v \<noteq> None \<and> v \<noteq> Some []"

definition messageBelongsToSelectedConversation :: "chat_frame \<Rightarrow> conversation option \<Rightarrow> bool" where
  "messageBelongsToSelectedConversation m c \<longleftrightarrow>
     (case c of
        Some (Channel k) \<Rightarrow> f_channel m = Some k
      | Some (Dm u) \<Rightarrow> \<not> truthy_id (f_channel m) \<and> (f_sender m = Some u \<or> f_receiver m = Some u)
      | None \<Rightarrow> False)"

definition sendReadReceipt :: "bool \<Rightarrow> int \<Rightarrow> int option \<Rightarrow> chat_effect list" where
  "sendReadReceipt ws_open reader other = (if ws_open then [ReadReceipt reader other] else [])"

text \<open>
  A message of the open conversation; \<open>viewing\<close> is \<open>isActivelyViewing()\<close>. The receipt for a frame
  without a sender carries no receiver.
\<close>

definition show_message :: "int \<Rightarrow> conversation option \<Rightarrow> bool \<Rightarrow> bool \<Rightarrow> chat_frame \<Rightarrow> chat_effect list" where
  "show_message userId selected viewing ws_open m =
     (if messageBelongsToSelectedConversation m selected then
        (if \<not> truthy_id (f_channel m) \<and> f_sender m \<noteq> Some userId \<and> viewing
         then sendReadReceipt ws_open userId (f_sender m) else [])
        @ [Message m]
      else [])"

definition onmessage :: "int \<Rightarrow> conversation option \<Rightarrow> bool \<Rightarrow> bool \<Rightarrow> chat_frame \<Rightarrow> chat_effect list" where
  "onmessage userId selected viewing ws_open m =
     (if (case f_type m of Some t \<Rightarrow> take 6 t = ''email:'' | None \<Rightarrow> False) then []
      else if f_type m = Some ''presence'' then
        (case f_user_id m of
           Some u \<Rightarrow> [Presence u (f_online m) (f_last_seen m) (nullish (f_status m) ''active'')]
         | None \<Rightarrow> [])
      else if f_type m = Some ''conversation_read'' then [Inbound m]
      else if f_type m = Some ''status_update'' then
        (case f_message_id m of
           Some i \<Rightarrow> if truthy_string (f_status m) then [StatusUpdate i (the (f_status m))] else []
         | None \<Rightarrow> [])
      else if f_type m = Some ''send_failed'' then
        (if truthy_string (f_client_id m)
         then [SendFailed (the (f_client_id m)) (nullish (f_message m) ''Message could not be sent.'')]
         else [])
      else if f_type m = Some ''reaction_updated'' then
        (case f_message_id m of
           Some i \<Rightarrow> [Reaction i (f_is_channel m) (f_reactions m)]
         | None \<Rightarrow> [])
      else if f_sender m = Some userId \<and> \<not> truthy_string (f_client_id m) then []
      else (if f_sender m \<noteq> Some userId then [Inbound m] else [])
           @ show_message userId selected viewing ws_open m)"

text \<open>\<open>flushRead\<close>, on focus or when the tab becomes visible.\<close>

definition flushRead :: "int \<Rightarrow> conversation option \<Rightarrow> bool \<Rightarrow> bool \<Rightarrow> chat_effect list" where
  "flushRead userId selected viewing ws_open =
     (if \<not> viewing then []
      else (case selected of Some (Dm u) \<Rightarrow> sendReadReceipt ws_open userId (Some u) | _ \<Rightarrow> []))"

lemma receipt_from_message:
  "ReadReceipt a b \<in> set (onmessage userId selected viewing ws_open m) \<Longrightarrow>
   ReadReceipt a b \<in> set (show_message userId selected viewing ws_open m)"
  unfolding onmessage_def by (simp split: if_split_asm option.split_asm)

lemma show_message_quiet:
  assumes "\<not> (messageBelongsToSelectedConversation m selected \<and> \<not> truthy_id (f_channel m) \<and>
    f_sender m \<noteq> Some userId \<and> viewing)"
  shows "show_message userId selected viewing ws_open m \<in> {[], [Message m]}"
  using assms unfolding show_message_def by auto

lemma receipt_shown:
  assumes "ReadReceipt a b \<in> set (show_message userId selected viewing ws_open m)"
  shows "a = userId \<and> f_sender m = b \<and> b \<noteq> Some userId \<and> \<not> truthy_id (f_channel m) \<and> viewing \<and> ws_open
    \<and> (selected = Some (Channel 0) \<or>
      (\<exists>u. selected = Some (Dm u) \<and> (f_sender m = Some u \<or> f_receiver m = Some u)))"
proof -
  have b: "messageBelongsToSelectedConversation m selected" "\<not> truthy_id (f_channel m)"
    "f_sender m \<noteq> Some userId" "viewing"
    using assms show_message_quiet [of m selected userId viewing ws_open] by fastforce+
  with assms have "ReadReceipt a b \<in> set (sendReadReceipt ws_open userId (f_sender m))"
    by (simp add: show_message_def)
  then have "a = userId" "f_sender m = b" "ws_open"
    by (cases ws_open; simp add: sendReadReceipt_def)+
  moreover have "selected = Some (Channel 0) \<or>
    (\<exists>u. selected = Some (Dm u) \<and> (f_sender m = Some u \<or> f_receiver m = Some u))"
  proof (cases selected)
    case (Some c)
    show ?thesis
    proof (cases c)
      case (Channel k)
      with b Some have "f_channel m = Some k" by (simp add: messageBelongsToSelectedConversation_def)
      with b(2) Some Channel show ?thesis
        by (simp add: truthy_id_def)
    qed (use b Some in \<open>simp add: messageBelongsToSelectedConversation_def\<close>)
  qed (use b in \<open>simp add: messageBelongsToSelectedConversation_def\<close>)
  ultimately show ?thesis using b by simp
qed

lemma show_message_not_inbound: "Inbound f \<notin> set (show_message userId selected viewing ws_open m)"
  by (cases ws_open) (simp_all add: show_message_def sendReadReceipt_def)

text \<open>The close of the last socket schedules the next one.\<close>

lemma close_reconnects:
  assumes "socket_inv r" and "\<not> cancelled r" and "live r j" and "0 \<le> random" and "random < 1"
  shows "\<exists>d. reconnectTimer (onclose random j (set_ws j CLOSED r)) = Some d \<and> 800 \<le> d \<and> d \<le> 18000"
proof -
  let ?s = "onclose random j (set_ws j CLOSED r)"
  have "socket_inv ?s"
    using socket_step_inv [OF closes assms(1)] assms(3-5) by (simp add: live_def)
  moreover have "\<not> live ?s k" for k
    using live_unique [OF assms(1,3), of k] by (auto simp: live_def onclose_def set_ws_def)
  moreover have "\<not> cancelled ?s" using assms(2) by (simp add: onclose_def set_ws_def)
  ultimately show ?thesis by (auto simp: socket_inv_def split: option.splits)
qed

section \<open>Properties\<close>

text \<open>
  C20: The connection is never given up: until the user leaves, a reconnect is scheduled within 18
  seconds or exactly one socket is not yet closed (it connects, is open, or is closing), never
  both and never two sockets; when that socket closes, however it does, the reconnect is
  scheduled; the chat says connected while the socket is open and not before; after leaving
  nothing is opened any more.
\<close>

theorem socket_never_abandoned:
  assumes "socket_step\<^sup>*\<^sup>* effect_start r"
  shows "(\<not> cancelled r \<longrightarrow>
      (case reconnectTimer r of
         Some d \<Rightarrow> 800 \<le> d \<and> d \<le> 18000 \<and> (\<forall>i. \<not> live r i) \<and> reconnecting r \<and> \<not> isConnected r
       | None \<Rightarrow> (\<exists>!i. live r i) \<and> (\<forall>i. ws_state r i = OPEN \<longrightarrow> isConnected r) \<and>
           (\<forall>i. ws_state r i = CONNECTING \<longrightarrow> \<not> isConnected r) \<and>
           (\<forall>i random. live r i \<longrightarrow> 0 \<le> random \<longrightarrow> random < 1 \<longrightarrow>
              (\<exists>d. reconnectTimer (onclose random i (set_ws i CLOSED r)) = Some d \<and> 800 \<le> d \<and> d \<le> 18000)))) \<and>
    (cancelled r \<longrightarrow> reconnectTimer r = None \<and> \<not> isConnected r \<and> \<not> reconnecting r \<and>
       (\<forall>s. socket_step\<^sup>*\<^sup>* r s \<longrightarrow> next_socket s = next_socket r \<and> opened s = opened r))"
proof (rule conjI)
  from socket_run_inv [OF assms effect_start_inv] have i: "socket_inv r" .
  show "cancelled r \<longrightarrow> reconnectTimer r = None \<and> \<not> isConnected r \<and> \<not> reconnecting r \<and>
       (\<forall>s. socket_step\<^sup>*\<^sup>* r s \<longrightarrow> next_socket s = next_socket r \<and> opened s = opened r)"
  proof (rule impI)
    assume c: "cancelled r"
    with i have "reconnectTimer r = None \<and> \<not> isConnected r \<and> \<not> reconnecting r"
      by (simp add: socket_inv_def isConnected_def)
    with cancelled_run [OF _ c i] show "reconnectTimer r = None \<and> \<not> isConnected r \<and> \<not> reconnecting r \<and>
       (\<forall>s. socket_step\<^sup>*\<^sup>* r s \<longrightarrow> next_socket s = next_socket r \<and> opened s = opened r)"
      by blast
  qed
  have one: "a = b" if "live r a" "live r b" for a b
    using live_unique [OF i that(1), of b] that(2) by (auto simp: live_def)
  show "\<not> cancelled r \<longrightarrow>
      (case reconnectTimer r of
         Some d \<Rightarrow> 800 \<le> d \<and> d \<le> 18000 \<and> (\<forall>i. \<not> live r i) \<and> reconnecting r \<and> \<not> isConnected r
       | None \<Rightarrow> (\<exists>!i. live r i) \<and> (\<forall>i. ws_state r i = OPEN \<longrightarrow> isConnected r) \<and>
           (\<forall>i. ws_state r i = CONNECTING \<longrightarrow> \<not> isConnected r) \<and>
           (\<forall>i random. live r i \<longrightarrow> 0 \<le> random \<longrightarrow> random < 1 \<longrightarrow>
              (\<exists>d. reconnectTimer (onclose random i (set_ws i CLOSED r)) = Some d \<and> 800 \<le> d \<and> d \<le> 18000)))"
  proof (rule impI)
    assume nc: "\<not> cancelled r"
    show "case reconnectTimer r of
         Some d \<Rightarrow> 800 \<le> d \<and> d \<le> 18000 \<and> (\<forall>i. \<not> live r i) \<and> reconnecting r \<and> \<not> isConnected r
       | None \<Rightarrow> (\<exists>!i. live r i) \<and> (\<forall>i. ws_state r i = OPEN \<longrightarrow> isConnected r) \<and>
           (\<forall>i. ws_state r i = CONNECTING \<longrightarrow> \<not> isConnected r) \<and>
           (\<forall>i random. live r i \<longrightarrow> 0 \<le> random \<longrightarrow> random < 1 \<longrightarrow>
              (\<exists>d. reconnectTimer (onclose random i (set_ws i CLOSED r)) = Some d \<and> 800 \<le> d \<and> d \<le> 18000))"
    proof (cases "reconnectTimer r")
      case None
      with i nc obtain k where k: "live r k" "ws_state r k = OPEN \<longrightarrow> readyState r = OPEN"
          "ws_state r k = CONNECTING \<longrightarrow> readyState r \<noteq> OPEN"
        by (auto simp: socket_inv_def)
      have "a = k" if "ws_state r a = OPEN \<or> ws_state r a = CONNECTING" for a
        using one [OF _ k(1), of a] that by (auto simp: live_def)
      with k(2,3) have "(\<forall>i. ws_state r i = OPEN \<longrightarrow> isConnected r)"
          "(\<forall>i. ws_state r i = CONNECTING \<longrightarrow> \<not> isConnected r)"
        unfolding isConnected_def by metis+
      moreover have "\<exists>!i. live r i" using k(1) one by blast
      moreover have "\<exists>d. reconnectTimer (onclose random j (set_ws j CLOSED r)) = Some d \<and> 800 \<le> d \<and> d \<le> 18000"
        if "live r j" "0 \<le> random" "random < 1" for j random
        by (rule close_reconnects [OF i nc that])
      ultimately show ?thesis using None by simp
    next
      case (Some d)
      with i nc show ?thesis by (simp add: socket_inv_def isConnected_def)
    qed
  qed
qed

theorem socket_never_abandoned_witness:
  "reconnecting (onclose (1 / 2) 0 (set_ws 0 CLOSED effect_start))"
proof -
  let ?r = "onclose (1 / 2) 0 (set_ws 0 CLOSED effect_start)"
  have "socket_step effect_start ?r"
    by (rule socket_step.closes) (simp_all add: effect_start_def connect_def)
  then have "socket_step\<^sup>*\<^sup>* effect_start ?r" by (rule r_into_rtranclp)
  from socket_never_abandoned [OF this] show ?thesis
    by (simp add: onclose_def set_ws_def effect_start_def connect_def)
qed

text \<open>
  A read receipt means the message was seen: one is sent only for a direct message of someone
  else, in the conversation that is open, while the user looks at it and the socket is open, and
  it goes to the sender; if the open partner is not the user, that is the partner.
\<close>

theorem receipt_only_when_seen:
  assumes "ReadReceipt reader other \<in> set (onmessage userId selected viewing ws_open m)"
    and "f_receiver m = Some userId" and "selected \<noteq> Some (Channel 0)"
  shows "reader = userId \<and> other \<noteq> Some userId \<and> f_sender m = other \<and> \<not> truthy_id (f_channel m) \<and>
    viewing \<and> ws_open \<and> (\<exists>u. selected = Some (Dm u) \<and> (other = Some u \<or> u = userId))"
  using receipt_shown [OF receipt_from_message [OF assms(1)]] assms(2,3) by auto

definition dm_frame :: chat_frame where
  "dm_frame = \<lparr>f_type = None, f_sender = Some 2, f_receiver = Some 1, f_channel = None,
     f_client_id = Some ''c'', f_message_id = None, f_status = None, f_user_id = None,
     f_online = False, f_last_seen = None, f_is_channel = False, f_reactions = [], f_message = None,
     f_parent = None, f_content = ''hi'', f_created_at = ''2026''\<rparr>"

theorem receipt_only_when_seen_witness:
  "\<exists>u. Some (Dm 2) = Some (Dm u) \<and> (Some 2 = Some u \<or> u = (1::int))"
proof -
  have "ReadReceipt 1 (Some 2) \<in> set (onmessage 1 (Some (Dm 2)) True True dm_frame)" by code_simp
  from receipt_only_when_seen [OF this] show ?thesis by (simp add: dm_frame_def)
qed

text \<open>
  What counts as unread: a frame is announced as inbound exactly when it says a conversation was
  read elsewhere, or is a chat message of somebody else; the user's own messages never are.
\<close>

theorem own_messages_not_inbound:
  "(\<exists>f. Inbound f \<in> set (onmessage userId selected viewing ws_open m)) \<longleftrightarrow>
     f_type m = Some ''conversation_read'' \<or>
     f_sender m \<noteq> Some userId \<and>
     (\<forall>t. f_type m = Some t \<longrightarrow> take 6 t \<noteq> ''email:'' \<and>
        t \<notin> {''presence'', ''status_update'', ''send_failed'', ''reaction_updated''})"
proof (cases "f_type m")
  case None
  then show ?thesis by (auto simp: onmessage_def show_message_not_inbound)
next
  case (Some t)
  then show ?thesis
    by (cases "f_user_id m"; cases "f_message_id m")
      (simp_all add: onmessage_def show_message_not_inbound)
qed

end
