(* ===== verification/Chat_Messages.thy ===== *)
theory Chat_Messages
  imports Chat_Socket
begin

text \<open>
  The open chat window: the message list, the thread panel and the composer of \<open>chat/Chat.tsx\<close>.
  What a handler waits for (a decryption, an upload, a fetch) is an argument of the definition of
  what follows; where the open conversation can change meanwhile, the part before is a definition
  of its own, and in the runs every wait ends at any later moment. The names of files stand for the
  files. Attachment descriptors are not modelled.
\<close>

section \<open>State\<close>

record chat_msg =
  m_id :: "int option"
  m_sender :: "int option"
  m_receiver :: "int option"
  m_channel :: "int option"
  m_content :: string
  m_status :: string
  m_created :: string
  m_parent :: "int option"
  m_replies :: "int option"
  m_client :: "string option"
  m_reactions :: "string list"
  m_files :: "string list"

record chat_view =
  messages :: "chat_msg list"
  threadReplies :: "chat_msg list"
  activeThread :: "chat_msg option"
  selected :: "conversation option"
  input_text :: string
  pendingFiles :: "string list"
  composeError :: string
  localClientIds :: "string list"
  pendingSends :: "string \<Rightarrow> (string \<times> string list) option"
  wire :: "chat_msg list" \<comment> \<open>what was sent\<close>

definition chat_init :: chat_view where
  "chat_init = \<lparr>messages = [], threadReplies = [], activeThread = None, selected = None,
     input_text = [], pendingFiles = [], composeError = [], localClientIds = [],
     pendingSends = (\<lambda>_. None), wire = []\<rparr>"

text \<open>\<open>setSelectedConversation\<close> with the reset that the next render makes.\<close>

definition select_conversation :: "conversation option \<Rightarrow> chat_view \<Rightarrow> chat_view" where
  "select_conversation c v =
     v \<lparr>selected := c, activeThread := None, threadReplies := [], composeError := [], pendingFiles := []\<rparr>"

section \<open>What arrives\<close>

definition status_rank :: "string \<Rightarrow> nat" where
  "status_rank st = (if st = ''delivered'' then 1 else if st = ''read'' then 2 else 0)"

definition mergeStatus :: "string \<Rightarrow> string \<Rightarrow> string" where
  "mergeStatus incoming current = (if status_rank incoming > status_rank current then incoming else current)"

definition reconcile :: "chat_msg \<Rightarrow> chat_msg \<Rightarrow> chat_msg" where
  "reconcile d m =
     (if m_client m = m_client d
      then m \<lparr>m_id := m_id d, m_created := m_created d, m_status := mergeStatus (m_status d) (m_status m)\<rparr>
      else m)"

definition add_reply :: "int option \<Rightarrow> chat_msg \<Rightarrow> chat_msg" where
  "add_reply parent m =
     (if m_id m = parent then m \<lparr>m_replies := Some (nullish (m_replies m) 0 + 1)\<rparr> else m)"

definition own_echo :: "int \<Rightarrow> chat_msg \<Rightarrow> chat_view \<Rightarrow> bool" where
  "own_echo userId d v \<longleftrightarrow>
     m_sender d = Some userId \<and> truthy_string (m_client d) \<and> the (m_client d) \<in> set (localClientIds v)"

definition echo_message :: "chat_msg \<Rightarrow> chat_view \<Rightarrow> chat_view" where
  "echo_message d v0 =
     (let v = v0 \<lparr>pendingSends := (pendingSends v0)(the (m_client d) := None)\<rparr>
      in if m_parent d \<noteq> None then v \<lparr>threadReplies := map (reconcile d) (threadReplies v)\<rparr>
         else v \<lparr>messages := map (reconcile d) (messages v)\<rparr>)"

definition append_new :: "chat_msg \<Rightarrow> chat_msg list \<Rightarrow> chat_msg list" where
  "append_new d ms = (if m_id d \<in> m_id ` set ms then ms else ms @ [d])"

text \<open>\<open>d\<close> is the decrypted message and \<open>open_thread\<close> the thread open when the frame arrived.\<close>

definition appendRealtimeMessage :: "int \<Rightarrow> chat_msg option \<Rightarrow> chat_msg \<Rightarrow> chat_view \<Rightarrow> chat_view" where
  "appendRealtimeMessage userId open_thread d v =
     (if own_echo userId d v then echo_message d v
      else if m_parent d \<noteq> None then
        v \<lparr>threadReplies :=
             (if map_option m_id open_thread = Some (m_parent d) then append_new d (threadReplies v)
              else threadReplies v),
           messages := map (add_reply (m_parent d)) (messages v)\<rparr>
      else v \<lparr>messages := append_new d (messages v)\<rparr>)"

definition handleStatusUpdate :: "int \<Rightarrow> string \<Rightarrow> chat_view \<Rightarrow> chat_view" where
  "handleStatusUpdate i st v =
     v \<lparr>messages := map (\<lambda>m. if m_id m = Some i then m \<lparr>m_status := mergeStatus st (m_status m)\<rparr> else m)
          (messages v)\<rparr>"

definition set_reactions :: "int \<Rightarrow> string list \<Rightarrow> chat_msg \<Rightarrow> chat_msg" where
  "set_reactions i rs m = (if m_id m = Some i then m \<lparr>m_reactions := rs\<rparr> else m)"

definition handleReactionUpdate :: "int \<Rightarrow> string list \<Rightarrow> chat_view \<Rightarrow> chat_view" where
  "handleReactionUpdate i rs v =
     v \<lparr>messages := map (set_reactions i rs) (messages v),
        threadReplies := map (set_reactions i rs) (threadReplies v)\<rparr>"

definition handleSendFailed :: "string \<Rightarrow> string \<Rightarrow> chat_view \<Rightarrow> chat_view" where
  "handleSendFailed cid reason v =
     (let w = v \<lparr>pendingSends := (pendingSends v)(cid := None),
                 messages := filter (\<lambda>m. m_client m \<noteq> Some cid) (messages v), composeError := reason\<rparr>
      in case pendingSends v cid of
           None \<Rightarrow> w
         | Some (t, fs) \<Rightarrow>
             w \<lparr>input_text := (if trim (input_text v) \<noteq> [] then input_text v else t),
                pendingFiles := (if fs \<noteq> [] \<and> pendingFiles v = [] then fs else pendingFiles v)\<rparr>)"

text \<open>The effects of a frame; \<open>dec\<close> decrypts its content.\<close>

definition frame_message :: "string \<Rightarrow> chat_frame \<Rightarrow> chat_msg" where
  "frame_message plain f =
     \<lparr>m_id = f_message_id f, m_sender = f_sender f, m_receiver = f_receiver f, m_channel = f_channel f,
      m_content = plain, m_status = nullish (f_status f) [], m_created = f_created_at f,
      m_parent = f_parent f, m_replies = None, m_client = f_client_id f, m_reactions = f_reactions f,
      m_files = []\<rparr>"

definition apply_effect :: "int \<Rightarrow> (chat_frame \<Rightarrow> string) \<Rightarrow> chat_effect \<Rightarrow> chat_view \<Rightarrow> chat_view" where
  "apply_effect userId dec e v =
     (case e of
        Message f \<Rightarrow> appendRealtimeMessage userId (activeThread v) (frame_message (dec f) f) v
      | StatusUpdate i st \<Rightarrow> handleStatusUpdate i st v
      | SendFailed c reason \<Rightarrow> handleSendFailed c reason v
      | Reaction i b rs \<Rightarrow> handleReactionUpdate i rs v
      | _ \<Rightarrow> v)"

definition receive_frame ::
  "int \<Rightarrow> (chat_frame \<Rightarrow> string) \<Rightarrow> bool \<Rightarrow> bool \<Rightarrow> chat_frame \<Rightarrow> chat_view \<Rightarrow> chat_view" where
  "receive_frame userId dec viewing ws_ready f v =
     fold (apply_effect userId dec) (onmessage userId (selected v) viewing ws_ready f) v"

section \<open>Fetches\<close>

definition resync_since :: "chat_view \<Rightarrow> int option" where
  "resync_since v =
     (let lastId = fold (\<lambda>m mx. case m_id m of Some i \<Rightarrow> max i mx | None \<Rightarrow> mx) (messages v) 0
      in if lastId > 0 then Some lastId else None)"

text \<open>The second half of \<open>resyncSelectedConversation\<close>, with the decrypted answer.\<close>

definition finish_resync :: "chat_msg list \<Rightarrow> chat_view \<Rightarrow> chat_view" where
  "finish_resync missed v =
     v \<lparr>messages := messages v
          @ filter (\<lambda>m. m_id m = None \<or> m_id m \<notin> m_id ` set (messages v)) missed\<rparr>"

definition finish_load :: "conversation \<Rightarrow> chat_msg list \<Rightarrow> chat_view \<Rightarrow> chat_view" where
  "finish_load c ms v = select_conversation (Some c) (v \<lparr>messages := ms\<rparr>)"

definition loadUserMessages :: "int \<Rightarrow> chat_msg list result \<Rightarrow> chat_view \<Rightarrow> chat_view" where
  "loadUserMessages other answer v = (case answer of Ok ms \<Rightarrow> finish_load (Dm other) ms v | Throw e \<Rightarrow> v)"

definition loadChannelMessages :: "int \<Rightarrow> bool \<Rightarrow> chat_msg list result \<Rightarrow> chat_view \<Rightarrow> chat_view" where
  "loadChannelMessages k is_member answer v =
     (if \<not> is_member then finish_load (Channel k) [] v
      else (case answer of Ok ms \<Rightarrow> finish_load (Channel k) ms v | Throw e \<Rightarrow> v))"

text \<open>\<open>refreshChannels\<close> once the channels are known, and \<open>joinChannel\<close>, which ends with it.\<close>

definition refreshChannels :: "int \<Rightarrow> int list \<Rightarrow> chat_view \<Rightarrow> chat_view" where
  "refreshChannels k channels v =
     (if k \<noteq> 0 \<and> k \<in> set channels then select_conversation (Some (Channel k)) v else v)"

definition joinChannel :: "int \<Rightarrow> int list result \<Rightarrow> chat_view \<Rightarrow> chat_view" where
  "joinChannel k answer v = (case answer of Ok channels \<Rightarrow> refreshChannels k channels v | Throw e \<Rightarrow> v)"

definition openThread :: "chat_msg \<Rightarrow> chat_msg list result \<Rightarrow> chat_view \<Rightarrow> chat_view" where
  "openThread parent answer v =
     (if m_id parent = None then v
      else (case answer of
              Ok rs \<Rightarrow> v \<lparr>activeThread := Some parent, threadReplies := rs\<rparr>
            | Throw e \<Rightarrow> v))"

definition closeThread :: "chat_view \<Rightarrow> chat_view" where
  "closeThread v = v \<lparr>activeThread := None, threadReplies := []\<rparr>"

section \<open>Sending\<close>

definition begin_send :: "bool \<Rightarrow> chat_view \<Rightarrow> (conversation \<times> string \<times> string list) option" where
  "begin_send ws_ready v =
     (case selected v of
        None \<Rightarrow> None
      | Some c \<Rightarrow>
          if trim (input_text v) = [] \<and> pendingFiles v = [] \<or> \<not> ws_ready then None
          else Some (c, trim (input_text v), pendingFiles v))"

definition wire_message :: "int \<Rightarrow> string \<Rightarrow> string \<Rightarrow> conversation \<Rightarrow> string \<Rightarrow> chat_msg" where
  "wire_message userId now cid c encrypted =
     \<lparr>m_id = None, m_sender = Some userId,
      m_receiver = (case c of Dm u \<Rightarrow> Some u | Channel k \<Rightarrow> None),
      m_channel = (case c of Dm u \<Rightarrow> None | Channel k \<Rightarrow> Some k),
      m_content = encrypted, m_status = ''sent'', m_created = now, m_parent = None, m_replies = None,
      m_client = Some cid, m_reactions = [], m_files = []\<rparr>"

text \<open>\<open>encrypted\<close> is the outcome of the encryption and the uploads.\<close>

definition finish_send ::
  "int \<Rightarrow> string \<Rightarrow> string \<Rightarrow> conversation \<times> string \<times> string list \<Rightarrow> string result \<Rightarrow> chat_view \<Rightarrow> chat_view" where
  "finish_send userId now cid captured encrypted v =
     (case captured of (c, plaintext, files) \<Rightarrow>
       (case encrypted of
          Throw e \<Rightarrow> v \<lparr>composeError := (case e of Error t \<Rightarrow> t | _ \<Rightarrow> ''Failed to send message'')\<rparr>
        | Ok text \<Rightarrow>
            let w = wire_message userId now cid c text
            in v \<lparr>localClientIds := cid # localClientIds v,
                  pendingSends := (pendingSends v)(cid \<mapsto> (plaintext, files)),
                  wire := wire v @ [w],
                  messages := messages v @ [w \<lparr>m_content := plaintext, m_files := files\<rparr>],
                  input_text := [], pendingFiles := [], composeError := []\<rparr>))"

definition begin_thread_reply :: "bool \<Rightarrow> string \<Rightarrow> chat_view \<Rightarrow> (int \<times> int \<times> string) option" where
  "begin_thread_reply ws_ready typed v =
     (case (activeThread v, selected v) of
        (Some parent, Some (Channel k)) \<Rightarrow>
          (case m_id parent of
             Some i \<Rightarrow> if ws_ready \<and> trim typed \<noteq> [] then Some (k, i, trim typed) else None
           | None \<Rightarrow> None)
      | _ \<Rightarrow> None)"

definition finish_thread_reply ::
  "int \<Rightarrow> string \<Rightarrow> string \<Rightarrow> int \<times> int \<times> string \<Rightarrow> string result \<Rightarrow> chat_view \<Rightarrow> chat_view" where
  "finish_thread_reply userId now cid captured encrypted v =
     (case captured of (k, parent, plaintext) \<Rightarrow>
       (case encrypted of
          Throw e \<Rightarrow> v
        | Ok text \<Rightarrow>
            let w = (wire_message userId now cid (Channel k) text) \<lparr>m_parent := Some parent\<rparr>
            in v \<lparr>localClientIds := cid # localClientIds v, wire := wire v @ [w],
                  threadReplies := threadReplies v @ [w \<lparr>m_content := plaintext\<rparr>],
                  messages := map (add_reply (Some parent)) (messages v)\<rparr>))"

section \<open>What a list keeps\<close>

definition msg_belongs :: "chat_msg \<Rightarrow> conversation \<Rightarrow> bool" where
  "msg_belongs m c \<longleftrightarrow>
     (case c of
        Channel k \<Rightarrow> m_channel m = Some k
      | Dm u \<Rightarrow> \<not> truthy_id (m_channel m) \<and> (m_sender m = Some u \<or> m_receiver m = Some u))"

lemma frame_belongs:
  "msg_belongs (frame_message plain f) c \<longleftrightarrow> messageBelongsToSelectedConversation f (Some c)"
  by (simp add: msg_belongs_def frame_message_def messageBelongsToSelectedConversation_def
      split: conversation.split)

definition known_ids :: "chat_msg list \<Rightarrow> int option list" where
  "known_ids ms = filter (\<lambda>i. i \<noteq> None) (map m_id ms)"

definition bubbles :: "string \<Rightarrow> chat_msg list \<Rightarrow> chat_msg list" where
  "bubbles cid ms = filter (\<lambda>m. m_client m = Some cid) ms"

text \<open>The list shows messages of the open conversation, and no id twice.\<close>

definition shows_open :: "chat_view \<Rightarrow> bool" where
  "shows_open v \<longleftrightarrow> (\<forall>c. selected v = Some c \<longrightarrow> (\<forall>m \<in> set (messages v). msg_belongs m c))"

definition shows_once :: "chat_view \<Rightarrow> bool" where
  "shows_once v \<longleftrightarrow> distinct (known_ids (messages v))"

definition single_bubbles :: "chat_view \<Rightarrow> bool" where
  "single_bubbles v \<longleftrightarrow> (\<forall>cid \<in> set (localClientIds v). length (bubbles cid (messages v)) \<le> 1)"

definition list_ok :: "chat_view \<Rightarrow> bool" where
  "list_ok v \<longleftrightarrow> shows_open v \<and> shows_once v \<and> single_bubbles v"

lemmas list_defs = list_ok_def shows_open_def shows_once_def single_bubbles_def

section \<open>Runs\<close>

text \<open>
  Handlers overlap: what waits for a decryption, a fetch or an encryption is kept beside the page
  and ends whenever its answer comes, whatever conversation is open by then.
\<close>

datatype chat_held =
    Decrypting chat_msg "chat_msg option"
  | Resyncing conversation
  | Encrypting "conversation \<times> string \<times> string list"
  | Replying "int \<times> int \<times> string"

type_synonym chat_world = "chat_view \<times> chat_held list"

datatype chat_event =
    FrameCame bool bool chat_frame
  | FrameDecrypted chat_msg "chat_msg option"
  | ResyncAsked
  | ResyncCame conversation "chat_msg list"
  | DmCame int "chat_msg list result"
  | ChannelCame int bool "chat_msg list result"
  | WentBack
  | TextTyped string
  | FilesPicked "string list"
  | SendPressed bool
  | SendEncrypted "conversation \<times> string \<times> string list" string string "string result"
  | ThreadCame chat_msg "chat_msg list result"
  | ThreadClosed
  | ReplyPressed bool string
  | ReplyEncrypted "int \<times> int \<times> string" string string "string result"
  | GroupJoined int "int list result"

text \<open>A message is decrypted first, with the thread open at its arrival; the other effects are immediate.\<close>

fun to_decrypt :: "(chat_frame \<Rightarrow> string) \<Rightarrow> chat_view \<Rightarrow> chat_effect \<Rightarrow> chat_held list" where
  "to_decrypt dec v (Message f) = [Decrypting (frame_message (dec f) f) (activeThread v)]"
| "to_decrypt dec v _ = []"

fun chat_next :: "int \<Rightarrow> (chat_frame \<Rightarrow> string) \<Rightarrow> chat_event \<Rightarrow> chat_world \<Rightarrow> chat_world" where
  "chat_next userId dec (FrameCame viewing ws_ready f) (v, hs) =
     (let es = onmessage userId (selected v) viewing ws_ready f
      in (fold (apply_effect userId dec) (filter (\<lambda>e. to_decrypt dec v e = []) es) v,
          concat (map (to_decrypt dec v) es) @ hs))"
| "chat_next userId dec (FrameDecrypted d th) (v, hs) =
     (appendRealtimeMessage userId th d v, remove1 (Decrypting d th) hs)"
| "chat_next userId dec ResyncAsked (v, hs) = (v, (case selected v of Some c \<Rightarrow> [Resyncing c] | None \<Rightarrow> []) @ hs)"
| "chat_next userId dec (ResyncCame c ms) (v, hs) = (finish_resync ms v, remove1 (Resyncing c) hs)"
| "chat_next userId dec (DmCame u r) (v, hs) = (loadUserMessages u r v, hs)"
| "chat_next userId dec (ChannelCame k mem r) (v, hs) = (loadChannelMessages k mem r v, hs)"
| "chat_next userId dec WentBack (v, hs) = (select_conversation None v, hs)"
| "chat_next userId dec (TextTyped t) (v, hs) = (v \<lparr>input_text := t\<rparr>, hs)"
| "chat_next userId dec (FilesPicked fs) (v, hs) = (v \<lparr>pendingFiles := fs\<rparr>, hs)"
| "chat_next userId dec (SendPressed ws_ready) (v, hs) =
     (v, (case begin_send ws_ready v of Some x \<Rightarrow> [Encrypting x] | None \<Rightarrow> []) @ hs)"
| "chat_next userId dec (SendEncrypted x now cid r) (v, hs) =
     (finish_send userId now cid x r v, remove1 (Encrypting x) hs)"
| "chat_next userId dec (ThreadCame p a) (v, hs) = (openThread p a v, hs)"
| "chat_next userId dec ThreadClosed (v, hs) = (closeThread v, hs)"
| "chat_next userId dec (ReplyPressed ws_ready t) (v, hs) =
     (v, (case begin_thread_reply ws_ready t v of Some y \<Rightarrow> [Replying y] | None \<Rightarrow> []) @ hs)"
| "chat_next userId dec (ReplyEncrypted y now cid r) (v, hs) =
     (finish_thread_reply userId now cid y r v, remove1 (Replying y) hs)"
| "chat_next userId dec (GroupJoined k r) (v, hs) = (joinChannel k r v, hs)"

text \<open>
  The server answers with messages of the conversation asked for, each once and without the ids
  clients draw; client ids are drawn fresh, and nobody else uses those of this client.
\<close>

definition fetched :: "conversation \<Rightarrow> chat_msg list \<Rightarrow> bool" where
  "fetched c ms \<longleftrightarrow>
     (\<forall>m \<in> set ms. msg_belongs m c \<and> m_client m = None \<and> m_id m \<noteq> None) \<and> distinct (map m_id ms)"

definition fresh_client :: "string \<Rightarrow> chat_view \<Rightarrow> bool" where
  "fresh_client cid v \<longleftrightarrow> cid \<notin> set (localClientIds v) \<and> bubbles cid (messages v) = []"

fun chat_event_ok :: "int \<Rightarrow> chat_event \<Rightarrow> chat_world \<Rightarrow> bool" where
  "chat_event_ok userId (FrameDecrypted d th) (v, hs) \<longleftrightarrow> Decrypting d th \<in> set hs
     \<and> (m_sender d \<noteq> Some userId \<longrightarrow> (\<forall>cid \<in> set (localClientIds v). m_client d \<noteq> Some cid))"
| "chat_event_ok userId (ResyncCame c ms) (v, hs) \<longleftrightarrow> Resyncing c \<in> set hs \<and> fetched c ms"
| "chat_event_ok userId (DmCame u (Inr ms)) (v, hs) \<longleftrightarrow> fetched (Dm u) ms"
| "chat_event_ok userId (ChannelCame k mem (Inr ms)) (v, hs) \<longleftrightarrow> fetched (Channel k) ms"
| "chat_event_ok userId (SendEncrypted x now cid r) (v, hs) \<longleftrightarrow> Encrypting x \<in> set hs \<and> fresh_client cid v"
| "chat_event_ok userId (ReplyEncrypted y now cid r) (v, hs) \<longleftrightarrow> Replying y \<in> set hs \<and> fresh_client cid v"
| "chat_event_ok userId e w \<longleftrightarrow> True"

text \<open>The messages a step puts under the conversation that is open then, without asking whether they are its.\<close>

fun puts_under :: "int \<Rightarrow> chat_event \<Rightarrow> chat_view \<Rightarrow> chat_msg list" where
  "puts_under userId (FrameDecrypted d th) v =
     (if own_echo userId d v \<or> m_parent d \<noteq> None \<or> m_id d \<in> m_id ` set (messages v) then [] else [d])"
| "puts_under userId (ResyncCame c ms) v =
     filter (\<lambda>m. m_id m = None \<or> m_id m \<notin> m_id ` set (messages v)) ms"
| "puts_under userId (SendEncrypted (c, p, fs) now cid (Inr t)) v =
     [(wire_message userId now cid c t)\<lparr>m_content := p, m_files := fs\<rparr>]"
| "puts_under userId (GroupJoined k (Inr channels)) v =
     (if k \<noteq> 0 \<and> k \<in> set channels then messages v else [])"
| "puts_under userId e v = []"

definition foreign :: "int \<Rightarrow> (chat_frame \<Rightarrow> string) \<Rightarrow> chat_event \<Rightarrow> chat_view \<Rightarrow> bool" where
  "foreign userId dec e v \<longleftrightarrow>
     (case selected (fst (chat_next userId dec e (v, []))) of
        None \<Rightarrow> False
      | Some c \<Rightarrow> \<exists>m \<in> set (puts_under userId e v). \<not> msg_belongs m c)"

text \<open>An echo gives its bubble an id that another listed message has: a resync brought it before.\<close>

definition doubles :: "int \<Rightarrow> chat_event \<Rightarrow> chat_view \<Rightarrow> bool" where
  "doubles userId e v \<longleftrightarrow>
     (case e of
        FrameDecrypted d th \<Rightarrow>
          own_echo userId d v \<and> m_parent d = None \<and> m_id d \<noteq> None
          \<and> (\<exists>b \<in> set (messages v). m_client b = m_client d)
          \<and> (\<exists>m \<in> set (messages v). m_client m \<noteq> m_client d \<and> m_id m = m_id d)
      | _ \<Rightarrow> False)"

inductive clean_chat :: "int \<Rightarrow> (chat_frame \<Rightarrow> string) \<Rightarrow> chat_world \<Rightarrow> bool" for userId dec where
  clean_start: "clean_chat userId dec (chat_init, [])"
| clean_step: "clean_chat userId dec (v, hs) \<Longrightarrow> chat_event_ok userId e (v, hs) \<Longrightarrow> \<not> foreign userId dec e v
    \<Longrightarrow> \<not> doubles userId e v \<Longrightarrow> clean_chat userId dec (chat_next userId dec e (v, hs))"

lemma map_ids: "(\<And>m. m_id (f m) = m_id m) \<Longrightarrow> known_ids (map f ms) = known_ids ms"
  by (simp add: known_ids_def comp_def)

lemma map_bubbles:
  "(\<And>m. m_client (f m) = m_client m) \<Longrightarrow> length (bubbles cid (map f ms)) = length (bubbles cid ms)"
  by (simp add: bubbles_def filter_map comp_def)

lemma reconcile_fields [simp]:
  "m_client (reconcile d m) = m_client m" "m_content (reconcile d m) = m_content m"
  "msg_belongs (reconcile d m) c = msg_belongs m c"
  by (simp_all add: reconcile_def msg_belongs_def split: conversation.split)

lemma patch_fields [simp]:
  "m_id (add_reply p m) = m_id m" "m_client (add_reply p m) = m_client m"
  "msg_belongs (add_reply p m) c = msg_belongs m c"
  "m_id (set_reactions i rs m) = m_id m" "m_client (set_reactions i rs m) = m_client m"
  "msg_belongs (set_reactions i rs m) c = msg_belongs m c"
  by (simp_all add: add_reply_def set_reactions_def msg_belongs_def split: conversation.split)

lemma list_ok_map:
  assumes "list_ok v" and "\<And>m. m_id (f m) = m_id m" and "\<And>m. m_client (f m) = m_client m"
    and "\<And>m c. msg_belongs (f m) c = msg_belongs m c"
    and "messages w = map f (messages v)" and "selected w = selected v"
    and "localClientIds w = localClientIds v"
  shows "list_ok w"
  using assms by (simp add: list_defs map_ids map_bubbles)

lemma list_ok_same:
  "list_ok v \<Longrightarrow> messages w = messages v \<Longrightarrow> selected w = selected v \<Longrightarrow>
   localClientIds w = localClientIds v \<Longrightarrow> list_ok w"
  by (simp add: list_defs)

lemma known_ids_append [simp]: "known_ids (ms @ ns) = known_ids ms @ known_ids ns"
  by (simp add: known_ids_def)

lemma bubbles_append [simp]: "bubbles cid (ms @ ns) = bubbles cid ms @ bubbles cid ns"
  by (simp add: bubbles_def)

lemma set_known_ids: "set (known_ids ms) = m_id ` set ms - {None}"
  by (auto simp: known_ids_def)

lemma list_Cons [simp]:
  "known_ids [] = []" "bubbles cid [] = []"
  "known_ids (m # ms) = (if m_id m = None then known_ids ms else m_id m # known_ids ms)"
  "bubbles cid (m # ms) = (if m_client m = Some cid then m # bubbles cid ms else bubbles cid ms)"
  by (simp_all add: known_ids_def bubbles_def)

lemma no_bubbles: "bubbles cid ms = [] \<Longrightarrow> m \<in> set ms \<Longrightarrow> m_client m \<noteq> Some cid"
  by (auto simp: bubbles_def filter_empty_conv)

lemma reconcile_none:
  assumes "m_client d = Some cid" and "bubbles cid ms = []"
  shows "map (reconcile d) ms = ms"
  using no_bubbles [OF assms(2)] assms(1) by (intro map_idI) (auto simp: reconcile_def)

lemma known_ids_reconciled:
  assumes "m_client d = Some cid"
  shows "x \<in> set (known_ids (map (reconcile d) ms)) \<longleftrightarrow>
    x \<noteq> None \<and> ((\<exists>m \<in> set ms. m_client m \<noteq> Some cid \<and> m_id m = x) \<or> x = m_id d \<and> bubbles cid ms \<noteq> [])"
  using assms by (induction ms) (auto simp: reconcile_def)

lemma reconcile_ids:
  "distinct (known_ids ms) \<Longrightarrow> m_client d = Some cid \<Longrightarrow> length (bubbles cid ms) \<le> 1 \<Longrightarrow>
   distinct (known_ids (map (reconcile d) ms)) \<longleftrightarrow>
     \<not> (m_id d \<noteq> None \<and> bubbles cid ms \<noteq> [] \<and> (\<exists>m \<in> set ms. m_client m \<noteq> Some cid \<and> m_id m = m_id d))"
proof (induction ms)
  case (Cons m ms)
  show ?case
  proof (cases "m_client m = Some cid")
    case True
    with Cons.prems have b: "bubbles cid ms = []" by simp
    then have same: "map (reconcile d) ms = ms" using Cons.prems(2) by (rule reconcile_none [rotated])
    have "m_id (reconcile d m) = m_id d" using True Cons.prems(2) by (simp add: reconcile_def)
    moreover have "distinct (known_ids ms)" using Cons.prems(1) by (simp split: if_splits)
    moreover have "m_id d \<in> set (known_ids ms) \<longleftrightarrow>
        m_id d \<noteq> None \<and> (\<exists>n \<in> set ms. m_client n \<noteq> Some cid \<and> m_id n = m_id d)"
      using no_bubbles [OF b] by (auto simp: set_known_ids image_iff) metis
    ultimately show ?thesis using True same by auto
  next
    case False
    then have r: "reconcile d m = m" using Cons.prems(2) by (simp add: reconcile_def)
    have d: "distinct (known_ids ms)" "m_id m \<noteq> None \<Longrightarrow> m_id m \<notin> set (known_ids ms)"
      using Cons.prems(1) by (simp_all split: if_splits)
    have "m_id m \<in> set (known_ids (map (reconcile d) ms)) \<longleftrightarrow> m_id m \<noteq> None \<and> m_id m = m_id d \<and> bubbles cid ms \<noteq> []"
      using d(2) unfolding known_ids_reconciled [OF Cons.prems(2)] by (auto simp: set_known_ids image_iff) metis+
    with Cons.IH [OF d(1) Cons.prems(2)] Cons.prems(3) False r show ?thesis by auto
  qed
qed simp

text \<open>A decrypted message is the echo of a bubble, a reply in a thread, or joins the list.\<close>

lemma decrypted_message:
  assumes "list_ok v"
    and "m_sender d \<noteq> Some userId \<Longrightarrow> \<forall>cid \<in> set (localClientIds v). m_client d \<noteq> Some cid"
    and "m_sender d = Some userId \<Longrightarrow> truthy_string (m_client d)"
    and "w = appendRealtimeMessage userId th d v"
  shows "(shows_open w \<longleftrightarrow> \<not> foreign userId dec (FrameDecrypted d th) v)
    \<and> (shows_once w \<longleftrightarrow> \<not> doubles userId (FrameDecrypted d th) v) \<and> single_bubbles w"
proof (cases "own_echo userId d v")
  case True
  then obtain cid where cid: "m_client d = Some cid" "cid \<in> set (localClientIds v)"
    by (auto simp: own_echo_def truthy_string_def)
  then have b: "length (bubbles cid (messages v)) \<le> 1" using assms(1) by (simp add: list_defs)
  have some: "bubbles cid (messages v) \<noteq> [] \<longleftrightarrow> (\<exists>m \<in> set (messages v). m_client m = Some cid)"
    by (auto simp: bubbles_def filter_empty_conv)
  have no: "\<not> foreign userId dec (FrameDecrypted d th) v"
    using True by (simp add: foreign_def split: option.split)
  show ?thesis
  proof (cases "m_parent d")
    case None
    then have w: "messages w = map (reconcile d) (messages v)" "selected w = selected v"
        "localClientIds w = localClientIds v"
      using True assms(4) by (simp_all add: appendRealtimeMessage_def echo_message_def)
    have "shows_once w \<longleftrightarrow> \<not> doubles userId (FrameDecrypted d th) v"
      using reconcile_ids [OF _ cid(1) b] assms(1) True None some
      by (auto simp: list_defs doubles_def w cid(1))
    then show ?thesis using assms(1) no by (simp add: list_defs w map_bubbles)
  next
    case (Some p)
    then have "messages w = messages v" "selected w = selected v" "localClientIds w = localClientIds v"
      using True assms(4) by (simp_all add: appendRealtimeMessage_def echo_message_def)
    then show ?thesis using assms(1) no Some by (simp add: list_defs doubles_def)
  qed
next
  case False
  have c: "\<forall>cid \<in> set (localClientIds v). m_client d \<noteq> Some cid"
  proof (cases "m_sender d = Some userId")
    case True
    then show ?thesis using False assms(3) by (auto simp: own_echo_def)
  qed (use assms(2) in simp)
  have no: "\<not> doubles userId (FrameDecrypted d th) v" using False by (simp add: doubles_def)
  show ?thesis
  proof (cases "m_parent d")
    case None
    then have w: "messages w = append_new d (messages v)" "selected w = selected v"
        "localClientIds w = localClientIds v"
      using False assms(4) by (simp_all add: appendRealtimeMessage_def)
    have "foreign userId dec (FrameDecrypted d th) v \<longleftrightarrow>
        m_id d \<notin> m_id ` set (messages v) \<and> (\<exists>c. selected v = Some c \<and> \<not> msg_belongs d c)"
      using False None w(2) assms(4) by (simp add: foreign_def split: option.split)
    moreover have "shows_once w"
      using assms(1) by (auto simp: list_defs w append_new_def set_known_ids)
    moreover have "single_bubbles w"
      using assms(1) c by (auto simp: list_defs w append_new_def)
    ultimately show ?thesis
      using assms(1) no by (auto simp: list_defs w append_new_def)
  next
    case (Some p)
    have "list_ok w"
      by (rule list_ok_map [OF assms(1), of "add_reply (m_parent d)"])
        (use False Some assms(4) in \<open>simp_all add: appendRealtimeMessage_def\<close>)
    moreover have "\<not> foreign userId dec (FrameDecrypted d th) v"
      using Some by (simp add: foreign_def split: option.split)
    ultimately show ?thesis using no by (simp add: list_ok_def)
  qed
qed

text \<open>Of the effects of a frame, at most one changes the window.\<close>

fun changes_view :: "chat_effect \<Rightarrow> bool" where
  "changes_view (Message f) \<longleftrightarrow> True"
| "changes_view (StatusUpdate i st) \<longleftrightarrow> True"
| "changes_view (SendFailed c reason) \<longleftrightarrow> True"
| "changes_view (Reaction i b rs) \<longleftrightarrow> True"
| "changes_view _ \<longleftrightarrow> False"

lemma idle_effect: "\<not> changes_view e \<Longrightarrow> apply_effect userId dec e v = v"
  by (cases e) (simp_all add: apply_effect_def)

lemma fold_changes: "fold (apply_effect userId dec) es v = fold (apply_effect userId dec) (filter changes_view es) v"
  by (induction es arbitrary: v) (simp_all add: idle_effect)

definition shown_ids :: "int \<Rightarrow> conversation option \<Rightarrow> chat_frame \<Rightarrow> bool" where
  "shown_ids userId c f \<longleftrightarrow> messageBelongsToSelectedConversation f c
     \<and> (f_sender f = Some userId \<longrightarrow> truthy_string (f_client_id f))"

lemma filter_receipt [simp]: "filter changes_view (sendReadReceipt w a b) = []"
  by (simp add: sendReadReceipt_def)

lemma filter_shown:
  "filter changes_view (show_message userId c viewing w f) =
   (if messageBelongsToSelectedConversation f c then [Message f] else [])"
  by (simp add: show_message_def)

lemma one_change:
  "(case filter changes_view (onmessage userId c viewing w f) of
      [] \<Rightarrow> True
    | [Message g] \<Rightarrow> g = f \<and> shown_ids userId c f
    | [SendFailed x y] \<Rightarrow> f_type f = Some ''send_failed''
    | [e] \<Rightarrow> True
    | _ \<Rightarrow> False)"
  unfolding onmessage_def
  by (simp add: filter_shown shown_ids_def split: option.split)

lemma receive_frame_cases:
  obtains "receive_frame userId dec viewing w f v = v"
  | "shown_ids userId (selected v) f"
    "receive_frame userId dec viewing w f v
     = appendRealtimeMessage userId (activeThread v) (frame_message (dec f) f) v"
  | i st where "receive_frame userId dec viewing w f v = handleStatusUpdate i st v"
  | c reason where "f_type f = Some ''send_failed''"
    "receive_frame userId dec viewing w f v = handleSendFailed c reason v"
  | i rs where "receive_frame userId dec viewing w f v = handleReactionUpdate i rs v"
proof -
  let ?es = "filter changes_view (onmessage userId (selected v) viewing w f)"
  have r: "receive_frame userId dec viewing w f v = fold (apply_effect userId dec) ?es v"
    by (simp add: receive_frame_def fold_changes [of userId dec "onmessage userId (selected v) viewing w f"])
  have o: "(case ?es of [] \<Rightarrow> True | [Message g] \<Rightarrow> g = f \<and> shown_ids userId (selected v) f
      | [SendFailed x y] \<Rightarrow> f_type f = Some ''send_failed'' | [e] \<Rightarrow> True | _ \<Rightarrow> False)"
    by (rule one_change)
  show ?thesis
  proof (cases ?es)
    case Nil
    with r that(1) show ?thesis by simp
  next
    case (Cons e es)
    with o have [simp]: "es = []" by (cases es) (simp_all split: chat_effect.splits)
    show ?thesis
      by (cases e) (use r o Cons that in \<open>simp_all add: apply_effect_def\<close>)
  qed
qed


lemma selected_kept:
  "selected (handleStatusUpdate i st v) = selected v" "selected (handleReactionUpdate i rs v) = selected v"
  by (simp_all add: handleStatusUpdate_def handleReactionUpdate_def)

lemma handleStatusUpdate_ok: "list_ok v \<Longrightarrow> list_ok (handleStatusUpdate i st v)"
  by (rule list_ok_map [where f = "\<lambda>m. if m_id m = Some i then m \<lparr>m_status := mergeStatus st (m_status m)\<rparr> else m"])
    (simp_all add: handleStatusUpdate_def msg_belongs_def split: conversation.split)

lemma handleReactionUpdate_ok: "list_ok v \<Longrightarrow> list_ok (handleReactionUpdate i rs v)"
  by (rule list_ok_map [where f = "set_reactions i rs"]) (simp_all add: handleReactionUpdate_def)

lemma failed_fields [simp]:
  "messages (handleSendFailed c reason v) = filter (\<lambda>m. m_client m \<noteq> Some c) (messages v)"
  "selected (handleSendFailed c reason v) = selected v"
  "localClientIds (handleSendFailed c reason v) = localClientIds v"
  by (simp_all add: handleSendFailed_def Let_def split: option.split prod.split)

lemma known_ids_filter: "distinct (known_ids ms) \<Longrightarrow> distinct (known_ids (filter P ms))"
  by (induction ms) (auto simp: set_known_ids, metis image_eqI)

lemma bubbles_filter: "length (bubbles cid (filter P ms)) \<le> length (bubbles cid ms)"
  by (induction ms) auto

lemma handleSendFailed_ok: "list_ok v \<Longrightarrow> list_ok (handleSendFailed c reason v)"
  unfolding list_defs failed_fields
  by (intro conjI ballI known_ids_filter)
    (auto intro: order_trans [OF bubbles_filter])

text \<open>The arrival of a frame: what it changes at once, and what it leaves to decrypt.\<close>

lemma frame_came:
  assumes "list_ok v" and "chat_next userId dec (FrameCame viewing ws f) (v, []) = (w, ds)"
  shows "list_ok w \<and> selected w = selected v
    \<and> (\<forall>d th. Decrypting d th \<in> set ds \<longrightarrow> m_sender d = Some userId \<longrightarrow> truthy_string (m_client d))"
proof -
  let ?es = "onmessage userId (selected v) viewing ws f"
  let ?cs = "filter changes_view ?es"
  have o: "(case ?cs of [] \<Rightarrow> True | [Message g] \<Rightarrow> g = f \<and> shown_ids userId (selected v) f
      | [SendFailed x y] \<Rightarrow> f_type f = Some ''send_failed'' | [e] \<Rightarrow> True | _ \<Rightarrow> False)"
    by (rule one_change)
  have swap: "filter changes_view (filter (\<lambda>e. to_decrypt dec v e = []) ?es)
      = filter (\<lambda>e. to_decrypt dec v e = []) ?cs"
    by (simp add: conj_commute)
  have w: "w = fold (apply_effect userId dec) (filter (\<lambda>e. to_decrypt dec v e = []) ?cs) v"
    using assms(2) fold_changes [of userId dec "filter (\<lambda>e. to_decrypt dec v e = []) ?es" v]
    by (simp add: Let_def swap del: filter_filter)
  have "set ds = (\<Union>e \<in> set ?es. set (to_decrypt dec v e))" using assms(2) by (auto simp: Let_def)
  also have "\<dots> = (\<Union>e \<in> set ?cs. set (to_decrypt dec v e))"
  proof -
    have "to_decrypt dec v e = []" if "\<not> changes_view e" for e using that by (cases e) simp_all
    then have "changes_view e" if "x \<in> set (to_decrypt dec v e)" for e x using that by (cases "changes_view e") auto
    then show ?thesis by auto
  qed
  finally have ds: "set ds = (\<Union>e \<in> set ?cs. set (to_decrypt dec v e))" .
  show ?thesis
  proof (cases ?cs)
    case Nil
    then show ?thesis using assms(1) w ds by simp
  next
    case (Cons e es)
    with o have [simp]: "es = []" by (cases es) (simp_all split: chat_effect.splits)
    show ?thesis
    proof (cases e)
      case (Message g)
      then have "g = f" "shown_ids userId (selected v) f" using o Cons by simp_all
      then show ?thesis
        using assms(1) w ds Cons Message by (auto simp: shown_ids_def frame_message_def)
    qed (use assms(1) w ds Cons in \<open>simp_all add: apply_effect_def handleStatusUpdate_ok
      handleReactionUpdate_ok handleSendFailed_ok selected_kept\<close>)
  qed
qed

lemma fetched_list:
  assumes "fetched c ms"
  shows "known_ids ms = map m_id ms" "bubbles cid ms = []" "\<forall>m \<in> set ms. msg_belongs m c"
  using assms by (auto simp: fetched_def known_ids_def bubbles_def filter_empty_conv intro!: filter_True)

lemma fetched_filter: "fetched c ms \<Longrightarrow> fetched c (filter P ms)"
  by (auto simp: fetched_def distinct_map_filter)

lemma resync_came:
  assumes "list_ok v" and "fetched c0 ms" and "w = finish_resync ms v"
  shows "(shows_open w \<longleftrightarrow> \<not> foreign userId dec (ResyncCame c0 ms) v) \<and> shows_once w \<and> single_bubbles w"
proof -
  let ?new = "filter (\<lambda>m. m_id m = None \<or> m_id m \<notin> m_id ` set (messages v)) ms"
  have n: "known_ids ?new = map m_id ?new" "distinct (map m_id ?new)" "bubbles cid ?new = []" for cid
    using fetched_list [OF fetched_filter [OF assms(2)]] fetched_filter [OF assms(2)]
    by (simp_all add: fetched_def)
  have w: "messages w = messages v @ ?new" "selected w = selected v" "localClientIds w = localClientIds v"
    using assms(3) by (simp_all add: finish_resync_def)
  have "set (known_ids (messages v)) \<inter> set (known_ids ?new) = {}"
    by (auto simp: set_known_ids) (metis image_eqI)
  with n(1,2) assms(1) have "shows_once w"
    by (simp only: known_ids_append distinct_append list_defs w)
  moreover have "single_bubbles w" using assms(1) n(3) by (simp add: list_defs w)
  moreover have "foreign userId dec (ResyncCame c0 ms) v
      \<longleftrightarrow> (\<exists>c. selected v = Some c \<and> (\<exists>m \<in> set ?new. \<not> msg_belongs m c))"
    using w(2) assms(3) by (simp add: foreign_def split: option.split)
  moreover have "shows_open w \<longleftrightarrow> \<not> (\<exists>c. selected v = Some c \<and> (\<exists>m \<in> set ?new. \<not> msg_belongs m c))"
    using assms(1) unfolding list_defs w set_append by blast
  ultimately show ?thesis by blast
qed

lemma finish_load_ok: "fetched c ms \<Longrightarrow> list_ok (finish_load c ms v)"
  using fetched_list [of c ms] by (simp add: list_defs finish_load_def select_conversation_def fetched_def)

lemma no_load_ok: "list_ok (finish_load c [] v)"
  by (rule finish_load_ok) (simp add: fetched_def)

lemma send_encrypted:
  assumes "list_ok v" and "fresh_client cid v" and "w = finish_send userId now cid x r v"
  shows "(shows_open w \<longleftrightarrow> \<not> foreign userId dec (SendEncrypted x now cid r) v) \<and> shows_once w \<and> single_bubbles w"
proof -
  obtain c p fs where x: "x = (c, p, fs)" by (cases x)
  show ?thesis
  proof (cases r)
    case (Inl e)
    have "list_ok w" by (rule list_ok_same [OF assms(1)]) (simp_all add: assms(3) finish_send_def Inl x)
    moreover have "\<not> foreign userId dec (SendEncrypted x now cid r) v"
      by (simp add: foreign_def Inl x split: option.split)
    ultimately show ?thesis by (simp add: list_ok_def)
  next
    case (Inr t)
    let ?m = "(wire_message userId now cid c t)\<lparr>m_content := p, m_files := fs\<rparr>"
    have m: "m_id ?m = None" "m_client ?m = Some cid" by (simp_all add: wire_message_def)
    have w: "messages w = messages v @ [?m]" "selected w = selected v" "localClientIds w = cid # localClientIds v"
      using assms(3) by (simp_all add: finish_send_def Inr x Let_def)
    have "foreign userId dec (SendEncrypted x now cid r) v
        \<longleftrightarrow> (\<exists>c'. selected v = Some c' \<and> \<not> msg_belongs ?m c')"
      using w(2) assms(3) by (simp add: foreign_def Inr x split: option.split)
    moreover have "shows_once w" using assms(1) m by (simp add: list_defs w)
    moreover have "single_bubbles w"
      using assms(1,2) m by (auto simp: list_defs w fresh_client_def)
    ultimately show ?thesis using assms(1) by (auto simp: list_defs w)
  qed
qed

lemma group_joined:
  assumes "list_ok v" and "w = joinChannel k r v"
  shows "(shows_open w \<longleftrightarrow> \<not> foreign userId dec (GroupJoined k r) v) \<and> shows_once w \<and> single_bubbles w"
proof (cases "\<exists>channels. r = Ok channels \<and> k \<noteq> 0 \<and> k \<in> set channels")
  case True
  then have w: "w = select_conversation (Some (Channel k)) v"
    using assms(2) by (auto simp: joinChannel_def refreshChannels_def)
  have "foreign userId dec (GroupJoined k r) v \<longleftrightarrow> (\<exists>m \<in> set (messages v). \<not> msg_belongs m (Channel k))"
    using True by (auto simp: foreign_def joinChannel_def refreshChannels_def select_conversation_def)
  then show ?thesis using assms(1) by (simp add: list_defs w select_conversation_def)
next
  case False
  then have "w = v" using assms(2) by (auto simp: joinChannel_def refreshChannels_def split: sum.split)
  moreover have "\<not> foreign userId dec (GroupJoined k r) v"
    using False by (cases r) (auto simp: foreign_def split: option.split)
  ultimately show ?thesis using assms(1) by (simp add: list_ok_def)
qed

lemma finish_thread_reply_ok:
  assumes "list_ok v" and "fresh_client cid v"
  shows "list_ok (finish_thread_reply userId now cid y r v)"
  using assms
  by (cases r; cases y)
    (simp_all add: list_defs finish_thread_reply_def Let_def map_ids map_bubbles fresh_client_def)

definition decrypting_ok :: "int \<Rightarrow> chat_held list \<Rightarrow> bool" where
  "decrypting_ok userId hs \<longleftrightarrow>
     (\<forall>d th. Decrypting d th \<in> set hs \<longrightarrow> m_sender d = Some userId \<longrightarrow> truthy_string (m_client d))"

lemma remove1_subset: "x \<in> set (remove1 y xs) \<Longrightarrow> x \<in> set xs"
  by (meson notin_set_remove1)

lemma held_kept_ok:
  assumes "list_ok v" "decrypting_ok userId hs"
  shows "decrypting_ok userId (snd (chat_next userId dec e (v, hs)))"
proof (cases e)
  case (FrameCame viewing ws f)
  then show ?thesis
    using frame_came [OF assms(1) surjective_pairing, of userId dec viewing ws f] assms(2)
    unfolding decrypting_ok_def by (simp add: Let_def image_iff del: set_concat) blast
qed (use assms(2) in \<open>auto simp: decrypting_ok_def dest: remove1_subset split: option.split\<close>)

lemma quiet_step:
  assumes "list_ok (fst (chat_next userId dec e (v, hs)))" "puts_under userId e v = []" "\<forall>d th. e \<noteq> FrameDecrypted d th"
  shows "(shows_open (fst (chat_next userId dec e (v, hs))) \<longleftrightarrow> \<not> foreign userId dec e v)
    \<and> (shows_once (fst (chat_next userId dec e (v, hs))) \<longleftrightarrow> \<not> doubles userId e v)
    \<and> single_bubbles (fst (chat_next userId dec e (v, hs)))"
  using assms by (simp add: list_ok_def foreign_def doubles_def split: option.split chat_event.split)

lemma chat_next_ok:
  assumes "list_ok v" "decrypting_ok userId hs" "chat_event_ok userId e (v, hs)"
  shows "(shows_open (fst (chat_next userId dec e (v, hs))) \<longleftrightarrow> \<not> foreign userId dec e v)
    \<and> (shows_once (fst (chat_next userId dec e (v, hs))) \<longleftrightarrow> \<not> doubles userId e v)
    \<and> single_bubbles (fst (chat_next userId dec e (v, hs)))"
proof (cases e)
  case (FrameCame viewing ws f)
  show ?thesis
    by (rule quiet_step)
      (use frame_came [OF assms(1), of userId dec viewing ws f] FrameCame in \<open>simp_all add: Let_def\<close>)
next
  case (FrameDecrypted d th)
  then show ?thesis
    using decrypted_message [OF assms(1) _ _ refl, of d userId th dec] assms(2,3)
    by (auto simp: decrypting_ok_def)
next
  case (ResyncCame c ms)
  then show ?thesis
    using resync_came [OF assms(1) _ refl, of c ms userId dec] assms(3) by (simp add: doubles_def)
next
  case (SendEncrypted x now cid r)
  then show ?thesis
    using send_encrypted [OF assms(1) _ refl, of cid userId now x r dec] assms(3) by (simp add: doubles_def)
next
  case (GroupJoined k r)
  then show ?thesis using group_joined [OF assms(1) refl, of k r userId dec] by (simp add: doubles_def)
next
  case (DmCame u r)
  show ?thesis
    by (rule quiet_step)
      (use assms(1,3) DmCame in \<open>cases r; simp add: loadUserMessages_def finish_load_ok\<close>)+
next
  case (ChannelCame k mem r)
  show ?thesis
    by (rule quiet_step)
      (use assms(1,3) ChannelCame in \<open>cases r; simp add: loadChannelMessages_def finish_load_ok no_load_ok\<close>)+
next
  case (ReplyEncrypted y now cid r)
  show ?thesis
    by (rule quiet_step) (use assms(1,3) ReplyEncrypted in \<open>simp_all add: finish_thread_reply_ok\<close>)
next
  case (ThreadCame p a)
  show ?thesis
    by (rule quiet_step)
      (use assms(1) ThreadCame in \<open>auto simp: openThread_def split: sum.split intro: list_ok_same\<close>)
qed (rule quiet_step; use assms(1) in \<open>simp add: list_defs select_conversation_def closeThread_def\<close>)+

lemma clean_chat_ok: "clean_chat userId dec w \<Longrightarrow> list_ok (fst w) \<and> decrypting_ok userId (snd w)"
proof (induction rule: clean_chat.induct)
  case clean_start
  then show ?case by (simp add: list_defs chat_init_def decrypting_ok_def)
next
  case (clean_step v hs e)
  then have "list_ok v" "decrypting_ok userId hs" by simp_all
  with chat_next_ok [OF this clean_step.hyps(2), of dec] held_kept_ok [OF this] clean_step.hyps(3,4)
  show ?case by (simp add: list_ok_def)
qed

section \<open>Properties\<close>

text \<open>
  C10: The handlers of the page overlap as they like. A window that shows the open conversation only,
  each message once, keeps doing so at every step except two kinds: a step that puts a message of
  another conversation under the one open by then (a frame decrypted, a resync answered or a send
  encrypted after the conversation changed, a group joined over another list), and an echo whose
  id a resync listed before; and these steps do break it. The server is taken to answer with
  messages of the conversation asked for, and client ids are nobody else's.
\<close>

theorem open_window_consistent:
  assumes "clean_chat userId dec (v, hs)" and "chat_event_ok userId e (v, hs)"
    and "w = fst (chat_next userId dec e (v, hs))"
  shows "(\<forall>c m. selected v = Some c \<longrightarrow> m \<in> set (messages v) \<longrightarrow> msg_belongs m c)
    \<and> distinct (known_ids (messages v))
    \<and> ((\<forall>c m. selected w = Some c \<longrightarrow> m \<in> set (messages w) \<longrightarrow> msg_belongs m c) \<longleftrightarrow> \<not> foreign userId dec e v)
    \<and> (distinct (known_ids (messages w)) \<longleftrightarrow> \<not> doubles userId e v)"
proof -
  have v: "list_ok v" "decrypting_ok userId hs" using clean_chat_ok [OF assms(1)] by simp_all
  then show ?thesis
    using chat_next_ok [OF v assms(2), of dec] assms(3)
    by (auto simp: list_ok_def shows_open_def shows_once_def)
qed

definition demo_frame :: chat_frame where
  "demo_frame = dm_frame \<lparr>f_message_id := Some 5, f_client_id := None\<rparr>"

definition demo_view :: chat_view where
  "demo_view = receive_frame 1 f_content True True demo_frame (loadUserMessages 2 (Ok []) chat_init)"

lemma demo_view_messages:
  "messages demo_view = [frame_message ''hi'' demo_frame] \<and> selected demo_view = Some (Dm 2)"
  by code_simp

text \<open>A resync is asked with user 2 on the screen, and user 4 is opened before the answer.\<close>

lemma resync_waits:
  "clean_chat 1 f_content (loadUserMessages 4 (Ok []) (loadUserMessages 2 (Ok []) chat_init), [Resyncing (Dm 2)])"
proof -
  have f: "fetched c []" for c by (simp add: fetched_def)
  have "clean_chat 1 f_content (chat_next 1 f_content (DmCame 4 (Ok [])) (chat_next 1 f_content ResyncAsked
      (chat_next 1 f_content (DmCame 2 (Ok [])) (chat_init, []))))"
    by (simp only: chat_next.simps, intro clean_step [where e = "DmCame 4 (Ok [])", unfolded chat_next.simps]
        clean_step [where e = ResyncAsked, unfolded chat_next.simps]
        clean_step [where e = "DmCame 2 (Ok [])", unfolded chat_next.simps] clean_start)
      (simp_all add: f foreign_def doubles_def split: option.split)
  then show ?thesis by (simp add: loadUserMessages_def finish_load_def select_conversation_def)
qed

theorem open_window_consistent_witness:
  "\<not> (\<forall>c m. selected (finish_resync [frame_message ''hi'' demo_frame] (loadUserMessages 4 (Ok [])
        (loadUserMessages 2 (Ok []) chat_init))) = Some c \<longrightarrow>
      m \<in> set (messages (finish_resync [frame_message ''hi'' demo_frame] (loadUserMessages 4 (Ok [])
        (loadUserMessages 2 (Ok []) chat_init)))) \<longrightarrow> msg_belongs m c)"
proof -
  let ?m = "frame_message ''hi'' demo_frame"
  let ?v = "loadUserMessages 4 (Ok []) (loadUserMessages 2 (Ok []) chat_init)"
  have "fetched (Dm 2) [?m]"
    by (simp add: fetched_def msg_belongs_def frame_message_def demo_frame_def dm_frame_def truthy_id_def)
  moreover have "foreign 1 f_content (ResyncCame (Dm 2) [?m]) ?v"
    by (simp add: foreign_def loadUserMessages_def finish_load_def select_conversation_def finish_resync_def
        msg_belongs_def frame_message_def demo_frame_def dm_frame_def truthy_id_def)
  ultimately show ?thesis
    using open_window_consistent [OF resync_waits _ refl, of "ResyncCame (Dm 2) [?m]"] by simp
qed

definition keeps :: "chat_msg \<Rightarrow> chat_msg \<Rightarrow> bool" where
  "keeps m n \<longleftrightarrow> m_content n = m_content m \<and> m_sender n = m_sender m \<and> m_client n = m_client m
     \<and> status_rank (m_status m) \<le> status_rank (m_status n)"

definition grows :: "chat_msg list \<Rightarrow> chat_msg list \<Rightarrow> bool" where
  "grows ms ns \<longleftrightarrow> list_all2 keeps ms (take (length ms) ns)"

lemma mergeStatus_rank: "status_rank cur \<le> status_rank (mergeStatus new cur)"
  by (simp add: mergeStatus_def)

lemma grows_map: "(\<And>m. keeps m (f m)) \<Longrightarrow> grows ms (map f ms)"
  by (simp add: grows_def list_all2_map2 list_all2_same)

lemma grows_append: "grows ms (ms @ ns)"
  by (simp add: grows_def list_all2_same keeps_def)

lemma grows_refl [simp]: "grows ms ms"
  using grows_append [of ms "[]"] by simp

lemma keeps_patches:
  "keeps m (reconcile d m)" "keeps m (add_reply p m)" "keeps m (set_reactions i rs m)"
  "keeps m (if m_id m = Some i then m \<lparr>m_status := mergeStatus st (m_status m)\<rparr> else m)"
  by (simp_all add: keeps_def reconcile_def add_reply_def set_reactions_def mergeStatus_rank)

lemma grows_realtime: "grows (messages v) (messages (appendRealtimeMessage userId th d v))"
  by (simp add: appendRealtimeMessage_def echo_message_def Let_def append_new_def grows_map keeps_patches
      grows_append)

text \<open>
  Nothing shown is lost and no tick goes back: unless a frame says that a send was refused, every
  message stays at its place with its text, sender and at least its delivery status, also when
  missed messages are fetched.
\<close>

theorem ticks_only_upgrade:
  assumes "f_type f \<noteq> Some ''send_failed''"
  shows "grows (messages v) (messages (receive_frame userId dec viewing w f v)) \<and>
    grows (messages v) (messages (finish_resync ms v))"
proof
  show "grows (messages v) (messages (receive_frame userId dec viewing w f v))"
    by (cases rule: receive_frame_cases [of userId dec viewing w f v])
      (use assms in \<open>simp_all add: grows_realtime handleStatusUpdate_def handleReactionUpdate_def
        grows_map keeps_patches\<close>)
  show "grows (messages v) (messages (finish_resync ms v))"
    by (simp add: finish_resync_def grows_append)
qed

theorem ticks_only_upgrade_witness:
  "grows (messages demo_view) (messages (receive_frame 1 f_content True True demo_frame demo_view))"
  using ticks_only_upgrade [of demo_frame demo_view 1 f_content True True "[]"]
  by (simp add: demo_frame_def dm_frame_def)

text \<open>The messages of others that arrive while a send is unanswered.\<close>

definition from_others :: "int \<Rightarrow> string \<Rightarrow> chat_msg list \<Rightarrow> bool" where
  "from_others userId cid ds \<longleftrightarrow>
     (\<forall>d \<in> set ds. m_sender d \<noteq> Some userId \<and> m_parent d = None \<and> m_id d \<noteq> None \<and> m_client d \<noteq> Some cid)"

definition arrive_all :: "int \<Rightarrow> chat_msg list \<Rightarrow> chat_view \<Rightarrow> chat_view" where
  "arrive_all userId ds v = fold (\<lambda>d v. appendRealtimeMessage userId (activeThread v) d v) ds v"

lemma arrive_all_Cons:
  "arrive_all userId (d # ds) v = arrive_all userId ds (appendRealtimeMessage userId (activeThread v) d v)"
  by (simp add: arrive_all_def)

lemma other_message:
  assumes "m_sender d \<noteq> Some userId" and "m_parent d = None"
  shows "appendRealtimeMessage userId th d v = v \<lparr>messages := append_new d (messages v)\<rparr>"
  using assms by (simp add: appendRealtimeMessage_def own_echo_def)

lemma arrive_others:
  "from_others userId cid ds \<Longrightarrow>
   arrive_all userId ds v = v \<lparr>messages := fold append_new ds (messages v)\<rparr>"
proof (induction ds arbitrary: v)
  case (Cons d ds)
  then have "from_others userId cid ds" "m_sender d \<noteq> Some userId" "m_parent d = None"
    by (simp_all add: from_others_def)
  with Cons.IH show ?case by (simp add: arrive_all_Cons other_message)
qed (simp add: arrive_all_def)

lemma append_beside:
  assumes "m_client b = Some cid" and "m_id b = None" and "m_id d \<noteq> None" and "m_client d \<noteq> Some cid"
    and "\<forall>m \<in> set ms \<union> set ns. m_client m \<noteq> Some cid"
  shows "\<exists>ns'. append_new d (ms @ b # ns) = ms @ b # ns' \<and> append_new d (ms @ ns) = ms @ ns'
    \<and> (\<forall>m \<in> set ns'. m_client m \<noteq> Some cid)"
  using assms by (auto simp: append_new_def)

lemma fold_beside:
  "from_others userId cid ds \<Longrightarrow> m_client b = Some cid \<Longrightarrow> m_id b = None \<Longrightarrow>
   \<forall>m \<in> set ms \<union> set ns. m_client m \<noteq> Some cid \<Longrightarrow>
   \<exists>ns'. fold append_new ds (ms @ b # ns) = ms @ b # ns' \<and> fold append_new ds (ms @ ns) = ms @ ns'
    \<and> (\<forall>m \<in> set ns'. m_client m \<noteq> Some cid)"
proof (induction ds arbitrary: ns)
  case (Cons d ds)
  then obtain ns1 where ns1: "append_new d (ms @ b # ns) = ms @ b # ns1"
      "append_new d (ms @ ns) = ms @ ns1" "\<forall>m \<in> set ns1. m_client m \<noteq> Some cid"
    using append_beside [of b cid d ms ns] by (auto simp: from_others_def)
  have "from_others userId cid ds" using Cons.prems(1) by (simp add: from_others_def)
  from Cons.IH [OF this Cons.prems(2,3), of ns1] ns1 Cons.prems(4) show ?case by auto
qed auto

definition bubble :: "int \<Rightarrow> string \<Rightarrow> string \<Rightarrow> conversation \<Rightarrow> string \<Rightarrow> string list \<Rightarrow> chat_msg" where
  "bubble userId now cid c t fs =
     (wire_message userId now cid c [])\<lparr>m_content := t, m_files := fs\<rparr>"

lemma bubble_fields [simp]:
  "m_id (bubble userId now cid c t fs) = None" "m_client (bubble userId now cid c t fs) = Some cid"
  by (simp_all add: bubble_def wire_message_def)

lemma finish_send_messages:
  "messages (finish_send userId now cid (c, t, fs) (Ok e) v) = messages v @ [bubble userId now cid c t fs]"
  by (simp add: finish_send_def Let_def bubble_def wire_message_def)

lemma fresh_not_in: "fresh_client cid v \<Longrightarrow> m \<in> set (messages v) \<Longrightarrow> m_client m \<noteq> Some cid"
  by (auto simp: fresh_client_def dest: no_bubbles)

lemma sent_then_others:
  assumes "fresh_client cid v" and "from_others userId cid ds"
  obtains ns where
    "messages (arrive_all userId ds (finish_send userId now cid (c, t, fs) (Ok e) v))
     = messages v @ bubble userId now cid c t fs # ns"
    "messages (arrive_all userId ds v) = messages v @ ns"
    "\<forall>m \<in> set (messages v @ ns). m_client m \<noteq> Some cid"
proof -
  let ?b = "bubble userId now cid c t fs"
  have "\<forall>m \<in> set (messages v) \<union> set []. m_client m \<noteq> Some cid" using fresh_not_in [OF assms(1)] by simp
  from fold_beside [OF assms(2) _ _ this, of ?b]
  obtain ns where "fold append_new ds (messages v @ [?b]) = messages v @ ?b # ns"
      "fold append_new ds (messages v) = messages v @ ns" "\<forall>m \<in> set ns. m_client m \<noteq> Some cid"
    by auto
  with that show thesis using fresh_not_in [OF assms(1)]
    by (simp add: arrive_others [OF assms(2)] finish_send_messages ball_Un)
qed


text \<open>
  A refused send goes back where it came from: whatever others wrote meanwhile, the bubble is gone,
  the list is the one without the send, and the text and files are in the composer again.
\<close>

theorem refused_send_returns:
  assumes "begin_send w v = Some (c, t, fs)" and "fresh_client cid v" and "from_others userId cid ds"
  shows "let u = handleSendFailed cid reason
      (arrive_all userId ds (finish_send userId now cid (c, t, fs) (Ok e) v)) in
    messages u = messages (arrive_all userId ds v) \<and>
    input_text u = t \<and> pendingFiles u = fs \<and> composeError u = reason"
proof -
  obtain ns where ns:
    "messages (arrive_all userId ds (finish_send userId now cid (c, t, fs) (Ok e) v))
     = messages v @ bubble userId now cid c t fs # ns"
    "messages (arrive_all userId ds v) = messages v @ ns"
    "\<forall>m \<in> set (messages v @ ns). m_client m \<noteq> Some cid"
    by (rule sent_then_others [OF assms(2,3)])
  have "filter (\<lambda>m. m_client m \<noteq> Some cid) (messages v @ bubble userId now cid c t fs # ns) = messages v @ ns"
    using ns(3) by (auto intro!: filter_True)
  moreover have "trim [] = []" by code_simp
  ultimately show ?thesis using ns(1,2)
    by (simp add: handleSendFailed_def Let_def arrive_others [OF assms(3)] finish_send_def split: option.split)
qed

theorem refused_send_returns_witness:
  "let u = handleSendFailed ''k'' ''No''
      (arrive_all 1 [] (finish_send 1 ''now'' ''k'' (Dm 2, ''ho'', []) (Ok ''x'') (demo_view \<lparr>input_text := '' ho''\<rparr>))) in
    messages u = messages (arrive_all 1 [] (demo_view \<lparr>input_text := '' ho''\<rparr>)) \<and>
    input_text u = ''ho'' \<and> pendingFiles u = [] \<and> composeError u = ''No''"
proof (rule refused_send_returns [where w = True])
  show "begin_send True (demo_view \<lparr>input_text := '' ho''\<rparr>) = Some (Dm 2, ''ho'', [])" by code_simp
  show "fresh_client ''k'' (demo_view \<lparr>input_text := '' ho''\<rparr>)" by code_simp
  show "from_others 1 ''k'' []" by (simp add: from_others_def)
qed

text \<open>
  The echo of a send completes its bubble: the list gets no further message, and the bubble keeps
  the text that was typed, at its place, with the id the server gave.
\<close>

theorem own_echo_completes_bubble:
  assumes "fresh_client cid v" and "from_others userId cid ds"
    and "m_sender d = Some userId" and "m_client d = Some cid" and "cid \<noteq> []" and "m_parent d = None"
  shows "\<exists>ns b. messages (arrive_all userId ds v) = messages v @ ns \<and>
    messages (appendRealtimeMessage userId th d
      (arrive_all userId ds (finish_send userId now cid (c, t, fs) (Ok e) v))) = messages v @ b # ns \<and>
    m_id b = m_id d \<and> m_content b = t \<and> m_files b = fs"
proof -
  obtain ns where ns:
    "messages (arrive_all userId ds (finish_send userId now cid (c, t, fs) (Ok e) v))
     = messages v @ bubble userId now cid c t fs # ns"
    "messages (arrive_all userId ds v) = messages v @ ns"
    "\<forall>m \<in> set (messages v @ ns). m_client m \<noteq> Some cid"
    by (rule sent_then_others [OF assms(1,2)])
  let ?u = "arrive_all userId ds (finish_send userId now cid (c, t, fs) (Ok e) v)"
  have "own_echo userId d ?u"
    using assms(3-5)
    by (simp add: own_echo_def arrive_others [OF assms(2)] finish_send_def Let_def truthy_string_def)
  then have "messages (appendRealtimeMessage userId th d ?u) = map (reconcile d) (messages ?u)"
    using assms(6) by (simp add: appendRealtimeMessage_def echo_message_def)
  moreover have "reconcile d m = m" if "m \<in> set (messages v @ ns)" for m
    using ns(3) assms(4) that by (auto simp: reconcile_def)
  ultimately have "messages (appendRealtimeMessage userId th d ?u)
      = messages v @ reconcile d (bubble userId now cid c t fs) # ns"
    by (simp add: ns(1) map_idI)
  moreover have "m_id (reconcile d (bubble userId now cid c t fs)) = m_id d"
    "m_content (reconcile d (bubble userId now cid c t fs)) = t"
    "m_files (reconcile d (bubble userId now cid c t fs)) = fs"
    using assms(4) by (simp_all add: reconcile_def bubble_def wire_message_def)
  ultimately show ?thesis using ns(2) by blast
qed

definition echo_of :: "string \<Rightarrow> int \<Rightarrow> chat_msg" where
  "echo_of cid i = (wire_message 1 ''now'' cid (Dm 2) ''x'')\<lparr>m_id := Some i\<rparr>"

theorem own_echo_completes_bubble_witness:
  "\<exists>ns b. messages (arrive_all 1 [] chat_init) = messages chat_init @ ns \<and>
    messages (appendRealtimeMessage 1 None (echo_of ''k'' 9)
      (arrive_all 1 [] (finish_send 1 ''now'' ''k'' (Dm 2, ''ho'', []) (Ok ''x'') chat_init)))
      = messages chat_init @ b # ns \<and>
    m_id b = m_id (echo_of ''k'' 9) \<and> m_content b = ''ho'' \<and> m_files b = []"
  by (rule own_echo_completes_bubble)
    (simp_all add: fresh_client_def chat_init_def from_others_def echo_of_def wire_message_def)

text \<open>
  Joining a group from the side list while another conversation is open selects the group without
  loading it: the messages of the other conversation stay on screen under the group's name.
\<close>

theorem join_shows_other_conversation:
  assumes "k \<noteq> 0" and "k \<in> set channels" and "m \<in> set (messages v)" and "m_channel m = None"
  shows "let w = joinChannel k (Ok channels) v in
    selected w = Some (Channel k) \<and> m \<in> set (messages w) \<and> \<not> msg_belongs m (Channel k)"
  using assms by (simp add: joinChannel_def refreshChannels_def select_conversation_def msg_belongs_def)

theorem join_shows_other_conversation_witness:
  "let w = joinChannel 3 (Ok [3]) demo_view in
    selected w = Some (Channel 3) \<and> frame_message ''hi'' demo_frame \<in> set (messages w) \<and>
    \<not> msg_belongs (frame_message ''hi'' demo_frame) (Channel 3)"
  by (rule join_shows_other_conversation)
    (simp_all add: demo_view_messages frame_message_def demo_frame_def dm_frame_def)

text \<open>
  The answer of a resync belongs to the conversation that was open when it was asked: if another
  one is opened before it arrives, its messages are added to that one's list.
\<close>

theorem late_resync_in_other_conversation:
  assumes "fetched c missed" and "fetched (Dm u) ms" and "m \<in> set missed" and "\<not> msg_belongs m (Dm u)"
    and "m_id m \<notin> m_id ` set ms"
  shows "let w = finish_resync missed (loadUserMessages u (Ok ms) v) in
    selected w = Some (Dm u) \<and> m \<in> set (messages w) \<and> \<not> msg_belongs m (Dm u)"
  using assms by (simp add: finish_resync_def loadUserMessages_def finish_load_def select_conversation_def)

theorem late_resync_in_other_conversation_witness:
  "let w = finish_resync [frame_message ''hi'' demo_frame] (loadUserMessages 4 (Ok []) demo_view) in
    selected w = Some (Dm 4) \<and> frame_message ''hi'' demo_frame \<in> set (messages w) \<and>
    \<not> msg_belongs (frame_message ''hi'' demo_frame) (Dm 4)"
  by (rule late_resync_in_other_conversation [where c = "Dm 2"])
    (simp_all add: fetched_def msg_belongs_def frame_message_def demo_frame_def dm_frame_def truthy_id_def)

text \<open>
  A message whose echo was lost with the connection is listed twice: the resync after the reconnect
  brings it as a new message, and its bubble stays, without an id, as merely sent.
\<close>

theorem resync_doubles_own_message:
  assumes "fresh_client cid v" and "m_sender d = Some userId" and "m_content d = t"
    and "m_id d = Some i" and "Some i \<notin> m_id ` set (messages v)"
  shows "\<exists>b. messages (finish_resync [d] (finish_send userId now cid (c, t, fs) (Ok e) v)) = messages v @ [b, d] \<and>
    m_content b = m_content d \<and> m_sender b = m_sender d \<and> m_id b = None \<and> m_status b = ''sent''"
proof -
  let ?u = "finish_send userId now cid (c, t, fs) (Ok e) v"
  let ?b = "bubble userId now cid c t fs"
  have "m_id d \<notin> m_id ` set (messages ?u)" using assms(4,5) by (simp add: finish_send_messages)
  then have "messages (finish_resync [d] ?u) = messages v @ [?b, d]"
    by (simp add: finish_resync_def finish_send_messages)
  moreover have "m_content ?b = t" "m_sender ?b = Some userId" "m_status ?b = ''sent''"
    by (simp_all add: bubble_def wire_message_def)
  ultimately show ?thesis using assms(2,3) by (intro exI [of _ ?b]) simp
qed

theorem resync_doubles_own_message_witness:
  "\<exists>b. messages (finish_resync [(echo_of ''k'' 9)\<lparr>m_content := ''ho''\<rparr>]
      (finish_send 1 ''now'' ''k'' (Dm 2, ''ho'', []) (Ok ''x'') chat_init))
     = messages chat_init @ [b, (echo_of ''k'' 9)\<lparr>m_content := ''ho''\<rparr>] \<and>
    m_content b = m_content ((echo_of ''k'' 9)\<lparr>m_content := ''ho''\<rparr>) \<and>
    m_sender b = m_sender ((echo_of ''k'' 9)\<lparr>m_content := ''ho''\<rparr>) \<and> m_id b = None \<and> m_status b = ''sent''"
  by (rule resync_doubles_own_message [where i = 9])
    (simp_all add: fresh_client_def chat_init_def echo_of_def wire_message_def)

text \<open>
  Opening another conversation drops the staged files but not the typed text, which is then sent
  to the conversation opened last.
\<close>

theorem typed_text_follows_user:
  "begin_send w (loadUserMessages u (Ok ms) (v \<lparr>input_text := t, pendingFiles := fs\<rparr>)) =
     (if trim t = [] \<or> \<not> w then None else Some (Dm u, trim t, []))"
  by (simp add: begin_send_def loadUserMessages_def finish_load_def select_conversation_def)

end
