(* ===== verification/Open_Places.thy ===== *)
theory Open_Places
  imports Web_Crypto
begin

text \<open>
  What a page remembers while another is shown: \<open>chat/openChatSession.ts\<close>,
  \<open>emails/openEmailSession.ts\<close>, \<open>notes/openNoteSession.ts\<close> and \<open>github/openRepoSession.ts\<close>, over the
  tab's session storage. A number is its text as \<open>JSON.stringify\<close> prints it. The keys of an object
  keep their order; keys that are integers, which the language moves to the front, occur only
  among the drafts of pull requests, where nothing depends on the order.
\<close>

section \<open>Session storage\<close>

record session_store =
  usable :: bool
  items :: "string \<rightharpoonup> string"

definition set_item :: "string \<Rightarrow> string \<Rightarrow> session_store \<Rightarrow> session_store" where
  "set_item k v st = (if usable st then st \<lparr>items := (items st)(k \<mapsto> v)\<rparr> else st)"

definition remove_item :: "string \<Rightarrow> session_store \<Rightarrow> session_store" where
  "remove_item k st = (if usable st then st \<lparr>items := (items st)(k := None)\<rparr> else st)"

text \<open>The stored text as a value; an empty or unreadable one counts as nothing.\<close>

definition get_json :: "string \<Rightarrow> session_store \<Rightarrow> json option" where
  "get_json k st =
     (if usable st then
        (case items st k of
           None \<Rightarrow> None
         | Some raw \<Rightarrow> if raw = [] then None else (case json_parse raw of Ok v \<Rightarrow> Some v | Throw e \<Rightarrow> None))
      else None)"

definition put_json :: "string \<Rightarrow> json \<Rightarrow> session_store \<Rightarrow> session_store" where
  "put_json k v st = set_item k (stringify v) st"

definition as_string :: "json option \<Rightarrow> string option" where
  "as_string v = (case v of Some (JStr s) \<Rightarrow> Some s | _ \<Rightarrow> None)"

definition as_number :: "json option \<Rightarrow> string option" where
  "as_number v = (case v of Some (JNum t) \<Rightarrow> Some t | _ \<Rightarrow> None)"

definition is_true :: "json option \<Rightarrow> bool" where
  "is_true v \<longleftrightarrow> v = Some (JBool True)"

definition opt_json :: "('a \<Rightarrow> json) \<Rightarrow> 'a option \<Rightarrow> json" where
  "opt_json f v = (case v of None \<Rightarrow> JNull | Some x \<Rightarrow> f x)"

definition owned :: "nat \<Rightarrow> json \<Rightarrow> bool" where
  "owned u v \<longleftrightarrow> field v ''userId'' = Some (json_of_nat u)"

definition number_text :: "string \<Rightarrow> bool" where
  "number_text t \<longleftrightarrow> valid_number t \<and> list_all num_char t"

section \<open>The conversation\<close>

record open_chat =
  oc_user :: nat
  oc_key :: string
  oc_email :: "string option"
  oc_thread :: "string option"
  oc_settings :: bool
  oc_scroll :: string

definition CHAT_KEY :: string where
  "CHAT_KEY = ''rwayve.chat.open''"

definition chat_json :: "open_chat \<Rightarrow> json" where
  "chat_json p = JObj
     [(''userId'', json_of_nat (oc_user p)), (''key'', JStr (oc_key p)), (''email'', opt_json JStr (oc_email p)),
      (''threadParentId'', opt_json JNum (oc_thread p)), (''settingsOpen'', JBool (oc_settings p)),
      (''scrollTop'', JNum (oc_scroll p))]"

definition chat_of_json :: "nat \<Rightarrow> json \<Rightarrow> open_chat option" where
  "chat_of_json u v =
     (if \<not> owned u v then None
      else (case as_string (field v ''key'') of
              None \<Rightarrow> None
            | Some k \<Rightarrow> Some \<lparr>oc_user = u, oc_key = k, oc_email = as_string (field v ''email''),
                oc_thread = as_number (field v ''threadParentId''), oc_settings = is_true (field v ''settingsOpen''),
                oc_scroll = nullish (as_number (field v ''scrollTop'')) ''0''\<rparr>))"

definition readOpenChat :: "nat option \<Rightarrow> session_store \<Rightarrow> open_chat option" where
  "readOpenChat u st =
     (case u of None \<Rightarrow> None | Some i \<Rightarrow> Option.bind (get_json CHAT_KEY st) (chat_of_json i))"

definition rememberOpenChat :: "open_chat \<Rightarrow> session_store \<Rightarrow> session_store" where
  "rememberOpenChat p st = put_json CHAT_KEY (chat_json p) st"

text \<open>The draft stays in the module's memory.\<close>

record chat_draft =
  dr_user :: nat
  dr_key :: string
  dr_text :: string
  dr_files :: "string list"

definition readChatDraft :: "nat option \<Rightarrow> string \<Rightarrow> chat_draft option \<Rightarrow> chat_draft option" where
  "readChatDraft u k draft =
     (case draft of None \<Rightarrow> None
      | Some d \<Rightarrow> if Some (dr_user d) = u \<and> dr_key d = k then Some d else None)"

definition rememberChatDraft :: "chat_draft \<Rightarrow> chat_draft option \<Rightarrow> chat_draft option" where
  "rememberChatDraft d draft = Some d"

definition forgetOpenChat :: "session_store \<times> chat_draft option \<Rightarrow> session_store \<times> chat_draft option" where
  "forgetOpenChat s = (remove_item CHAT_KEY (fst s), None)"

section \<open>The mail\<close>

record open_mail =
  om_user :: nat
  om_email :: string
  om_account :: "string option"
  om_folder :: string

definition EMAIL_KEY :: string where
  "EMAIL_KEY = ''rwayve.emails.open''"

definition mail_json :: "open_mail \<Rightarrow> json" where
  "mail_json p = JObj
     [(''userId'', json_of_nat (om_user p)), (''emailId'', JNum (om_email p)),
      (''account'', opt_json JNum (om_account p)), (''folder'', JStr (om_folder p))]"

definition mail_of_json :: "nat \<Rightarrow> json \<Rightarrow> open_mail option" where
  "mail_of_json u v =
     (if \<not> owned u v then None
      else (case (as_number (field v ''emailId''), as_string (field v ''folder'')) of
              (Some i, Some f) \<Rightarrow>
                Some \<lparr>om_user = u, om_email = i, om_account = as_number (field v ''account''), om_folder = f\<rparr>
            | _ \<Rightarrow> None))"

definition readOpenEmail :: "nat option \<Rightarrow> session_store \<Rightarrow> open_mail option" where
  "readOpenEmail u st =
     (case u of None \<Rightarrow> None | Some i \<Rightarrow> Option.bind (get_json EMAIL_KEY st) (mail_of_json i))"

definition rememberOpenEmail :: "open_mail \<Rightarrow> session_store \<Rightarrow> session_store" where
  "rememberOpenEmail p st = put_json EMAIL_KEY (mail_json p) st"

definition forgetOpenEmail :: "session_store \<Rightarrow> session_store" where
  "forgetOpenEmail st = remove_item EMAIL_KEY st"

section \<open>The note\<close>

record open_note =
  on_user :: nat
  on_note :: "string option" \<comment> \<open>\<open>None\<close> is a new note\<close>
  on_title :: string
  on_content :: string
  on_edited :: bool

definition NOTE_KEY :: string where
  "NOTE_KEY = ''rwayve.notes.open''"

definition note_json :: "open_note \<Rightarrow> json" where
  "note_json p = JObj
     [(''userId'', json_of_nat (on_user p)),
      (''noteId'', case on_note p of None \<Rightarrow> JStr ''new'' | Some i \<Rightarrow> JNum i),
      (''title'', JStr (on_title p)), (''content'', JStr (on_content p)), (''edited'', JBool (on_edited p))]"

definition note_of_json :: "nat \<Rightarrow> json \<Rightarrow> open_note option" where
  "note_of_json u v =
     (let i = field v ''noteId'' in
      if \<not> owned u v \<or> (i \<noteq> Some (JStr ''new'') \<and> as_number i = None) then None
      else (case (as_string (field v ''title''), as_string (field v ''content'')) of
              (Some t, Some c) \<Rightarrow>
                Some \<lparr>on_user = u, on_note = as_number i, on_title = t, on_content = c,
                      on_edited = is_true (field v ''edited'')\<rparr>
            | _ \<Rightarrow> None))"

definition readOpenNote :: "nat option \<Rightarrow> session_store \<Rightarrow> open_note option" where
  "readOpenNote u st =
     (case u of None \<Rightarrow> None | Some i \<Rightarrow> Option.bind (get_json NOTE_KEY st) (note_of_json i))"

definition rememberOpenNote :: "open_note \<Rightarrow> session_store \<Rightarrow> session_store" where
  "rememberOpenNote p st = put_json NOTE_KEY (note_json p) st"

definition forgetOpenNote :: "session_store \<Rightarrow> session_store" where
  "forgetOpenNote st = remove_item NOTE_KEY st"

section \<open>The contract of a remembered place\<close>

lemma json_parse_Nil: "json_parse [] = Throw SyntaxError"
  by code_simp

lemma get_put_json:
  assumes "usable st" and "json_ok v"
  shows "get_json k (put_json k v st) = Some v"
proof -
  have "stringify v \<noteq> []" using json_roundtrip [OF assms(2)] json_parse_Nil by auto
  then show ?thesis using assms by (simp add: get_json_def put_json_def set_item_def json_roundtrip)
qed

locale place =
  fixes store_as :: "'a \<Rightarrow> json" and read_as :: "nat \<Rightarrow> json \<Rightarrow> 'a option" and owner :: "'a \<Rightarrow> nat"
    and well :: "'a \<Rightarrow> bool"
  assumes printable: "well x \<Longrightarrow> json_ok (store_as x)"
    and restores: "well x \<Longrightarrow> read_as (owner x) (store_as x) = Some x"
    and only_owned: "\<not> owned u v \<Longrightarrow> read_as u v = None"
    and names_owner: "owned u (store_as x) \<longleftrightarrow> u = owner x"
begin

lemma stored_value: "usable st \<Longrightarrow> well x \<Longrightarrow> get_json k (put_json k (store_as x) st) = Some (store_as x)"
  by (simp add: get_put_json printable)

lemma comes_back:
  assumes "usable st" and "well x"
  shows "Option.bind (get_json k (put_json k (store_as x) st)) (read_as u) = (if u = owner x then Some x else None)"
  using assms by (simp add: stored_value restores only_owned names_owner)

lemma forgotten: "usable st \<Longrightarrow> Option.bind (get_json k (remove_item k st)) (read_as u) = None"
  by (simp add: get_json_def remove_item_def)

end

lemma json_of_nat_inj [simp]: "json_of_nat m = json_of_nat n \<longleftrightarrow> m = n"
  by (metis json_of_nat_def json.inject(2) nat_val_nat_str)

lemma json_members [simp]:
  "as_string (Some (JStr s)) = Some s" "as_string (Some JNull) = None" "as_string None = None"
  "as_string (Some (JNum t)) = None" "as_string (Some (opt_json JStr e)) = e"
  "as_number (Some (JNum t)) = Some t" "as_number (Some JNull) = None" "as_number None = None"
  "as_number (Some (JStr s)) = None" "as_number (Some (opt_json JNum i)) = i"
  "is_true (Some (JBool b)) = b" "json_ok (opt_json JStr e)"
  "json_ok (opt_json JNum i) \<longleftrightarrow> (\<forall>t. i = Some t \<longrightarrow> number_text t)"
  by (simp_all add: as_string_def as_number_def is_true_def opt_json_def number_text_def split: option.split)

interpretation chat_place: place chat_json chat_of_json oc_user
  "\<lambda>p. number_text (oc_scroll p) \<and> (\<forall>t. oc_thread p = Some t \<longrightarrow> number_text t)"
  by unfold_locales (auto simp: chat_json_def chat_of_json_def owned_def field_def number_text_def)

interpretation mail_place: place mail_json mail_of_json om_user
  "\<lambda>p. number_text (om_email p) \<and> (\<forall>t. om_account p = Some t \<longrightarrow> number_text t)"
  by unfold_locales (auto simp: mail_json_def mail_of_json_def owned_def field_def number_text_def)

interpretation note_place: place note_json note_of_json on_user
  "\<lambda>p. \<forall>t. on_note p = Some t \<longrightarrow> number_text t"
  by unfold_locales
    (auto simp: note_json_def note_of_json_def owned_def field_def number_text_def Let_def split: option.split)


section \<open>The repository page\<close>

lemma parse_number_ok: "parse_number s = Some (v, r) \<Longrightarrow> json_ok v"
  by (auto simp: parse_number_def list_all_iff dest: set_takeWhileD split: if_splits)

lemma expect_value: "expect w v s = Some (v', r) \<Longrightarrow> v' = v"
  by (auto simp: expect_def split: if_splits)

lemma parsed_ok:
  "parse_value n s = Some (v, r) \<Longrightarrow> json_ok v"
  "parse_elems n s = Some (vs, r) \<Longrightarrow> \<forall>v \<in> set vs. json_ok v"
  "parse_members n s = Some (ms, r) \<Longrightarrow> \<forall>m \<in> set ms. json_ok (snd m)"
proof (induction n s and n s and n s arbitrary: v r and vs r and ms r
    rule: parse_value_parse_elems_parse_members.induct)
  case (2 n s)
  then show ?case
    by (auto dest: parse_number_ok expect_value split: list.splits if_splits)
next
  case (4 n s)
  then show ?case by (auto split: option.splits list.splits if_splits)
next
  case (6 n s)
  then show ?case by (auto split: option.splits list.splits if_splits) force
qed simp_all

lemma get_json_ok: "get_json k st = Some v \<Longrightarrow> json_ok v"
  by (auto simp: get_json_def json_parse_def dest: parsed_ok(1) simp del: parse_value.simps
      split: if_splits option.splits sum.splits)


definition REPO_KEY :: string where
  "REPO_KEY = ''rwayve.github.open''"

definition MAX_RESTORED_FOLDERS :: nat where
  "MAX_RESTORED_FOLDERS = 30"

definition MAX_RESTORED_COMMITS :: nat where
  "MAX_RESTORED_COMMITS = 10"

definition MAX_RESTORED_FILES :: nat where
  "MAX_RESTORED_FILES = 200"

definition MAX_SCROLL_PLACES :: nat where
  "MAX_SCROLL_PLACES = 50"

type_synonym members = "(string \<times> json) list"

record repo_view =
  branch :: "string option"
  pull :: "string option"
  v_file :: "string option"
  folders :: "string list"
  commits :: "string list"
  commitsPage :: string
  pullsPage :: string
  collapsedFiles :: "string list"
  openPullFiles :: "string list"
  commitDrafts :: "(string \<times> string) list"
  pullDrafts :: "(string \<times> string) list"

datatype draft_side = LEFT | RIGHT

record comment_draft =
  body :: string
  anchor :: "(draft_side \<times> string \<times> string) option" \<comment> \<open>side, line and position\<close>

text \<open>The session; what its objects hold is checked when it is read, not before.\<close>

record repo_session =
  rs_user :: nat
  rs_repo :: json \<comment> \<open>a number, a string or null\<close>
  rs_views :: members
  rs_drafts :: members
  rs_scrolls :: members

text \<open>\<open>slice(-n)\<close>, and an object's own member and its update.\<close>

definition last_n :: "nat \<Rightarrow> 'a list \<Rightarrow> 'a list" where
  "last_n n xs = drop (length xs - n) xs"

definition own :: "(string \<times> 'v) list \<Rightarrow> string \<Rightarrow> 'v option" where
  "own ms k = map_of (rev ms) k"

definition obj_put :: "string \<Rightarrow> 'v \<Rightarrow> (string \<times> 'v) list \<Rightarrow> (string \<times> 'v) list" where
  "obj_put k v ms =
     (if k \<in> fst ` set ms then map (\<lambda>m. if fst m = k then (k, v) else m) ms else ms @ [(k, v)])"

definition obj_del :: "string \<Rightarrow> (string \<times> 'v) list \<Rightarrow> (string \<times> 'v) list" where
  "obj_del k ms = filter (\<lambda>m. fst m \<noteq> k) ms"

definition strings :: "json option \<Rightarrow> nat \<Rightarrow> string list" where
  "strings v n =
     (case v of
        Some (JArr vs) \<Rightarrow> last_n n (List.map_filter (\<lambda>x. as_string (Some x)) vs)
      | _ \<Rightarrow> [])"

text \<open>A whole number of at least one, as it is printed: digits, the first of them not a zero.\<close>

definition page_of :: "json option \<Rightarrow> string" where
  "page_of v =
     (case as_number v of
        Some (c # t) \<Rightarrow> if list_all is_digit (c # t) \<and> c \<noteq> CHR ''0'' then c # t else ''1''
      | _ \<Rightarrow> ''1'')"

definition object_members :: "json option \<Rightarrow> members" where
  "object_members v = (case v of Some (JObj ms) \<Rightarrow> ms | _ \<Rightarrow> [])"

definition draftTexts :: "json option \<Rightarrow> (string \<times> string) list" where
  "draftTexts v =
     List.map_filter (\<lambda>(k, x). case x of JStr s \<Rightarrow> if s = [] then None else Some (k, s) | _ \<Rightarrow> None)
       (object_members v)"

definition readSession :: "nat \<Rightarrow> session_store \<Rightarrow> repo_session option" where
  "readSession u st =
     (case get_json REPO_KEY st of
        None \<Rightarrow> None
      | Some v \<Rightarrow>
          if \<not> owned u v then None
          else Some \<lparr>rs_user = u,
            rs_repo = (case field v ''repo'' of
                Some (JNum t) \<Rightarrow> JNum t | Some (JStr s) \<Rightarrow> JStr s | _ \<Rightarrow> JNull),
            rs_views = object_members (field v ''views''),
            rs_drafts = object_members (field v ''drafts''),
            rs_scrolls = object_members (field v ''scrolls'')\<rparr>)"

definition emptySession :: "nat \<Rightarrow> repo_session" where
  "emptySession u = \<lparr>rs_user = u, rs_repo = JNull, rs_views = [], rs_drafts = [], rs_scrolls = []\<rparr>"

definition session_json :: "repo_session \<Rightarrow> json" where
  "session_json s = JObj
     [(''userId'', json_of_nat (rs_user s)), (''repo'', rs_repo s), (''views'', JObj (rs_views s)),
      (''drafts'', JObj (rs_drafts s)), (''scrolls'', JObj (rs_scrolls s))]"

definition writeSession :: "repo_session \<Rightarrow> session_store \<Rightarrow> session_store" where
  "writeSession s st = put_json REPO_KEY (session_json s) st"

definition session_or_empty :: "nat \<Rightarrow> session_store \<Rightarrow> repo_session" where
  "session_or_empty u st = nullish (readSession u st) (emptySession u)"

text \<open>A member that is \<open>null\<close> counts as none here, as it does for the callers.\<close>

definition readOpenRepo :: "nat option \<Rightarrow> session_store \<Rightarrow> json option" where
  "readOpenRepo u st =
     (case u of None \<Rightarrow> None
      | Some i \<Rightarrow> Option.bind (readSession i st) (\<lambda>s. if rs_repo s = JNull then None else Some (rs_repo s)))"

definition rememberOpenRepo :: "nat option \<Rightarrow> json \<Rightarrow> session_store \<Rightarrow> session_store" where
  "rememberOpenRepo u repo st =
     (case u of None \<Rightarrow> st
      | Some i \<Rightarrow> writeSession ((session_or_empty i st) \<lparr>rs_repo := repo\<rparr>) st)"

definition isRecord :: "json \<Rightarrow> bool" where
  "isRecord v \<longleftrightarrow> (case v of JObj ms \<Rightarrow> True | _ \<Rightarrow> False)"

definition view_of_json :: "json \<Rightarrow> repo_view option" where
  "view_of_json v =
     (if \<not> isRecord v then None
      else Some \<lparr>branch = as_string (field v ''branch''), pull = as_number (field v ''pull''),
        v_file = as_string (field v ''file''),
        folders = strings (field v ''folders'') MAX_RESTORED_FOLDERS,
        commits = strings (field v ''commits'') MAX_RESTORED_COMMITS,
        commitsPage = page_of (field v ''commitsPage''), pullsPage = page_of (field v ''pullsPage''),
        collapsedFiles = strings (field v ''collapsedFiles'') MAX_RESTORED_FILES,
        openPullFiles = strings (field v ''openPullFiles'') MAX_RESTORED_FILES,
        commitDrafts = draftTexts (field v ''commitDrafts''),
        pullDrafts = draftTexts (field v ''pullDrafts'')\<rparr>)"

definition readRepoView :: "nat option \<Rightarrow> string \<Rightarrow> session_store \<Rightarrow> repo_view option" where
  "readRepoView u name st =
     (case u of None \<Rightarrow> None
      | Some i \<Rightarrow> Option.bind (readSession i st) (\<lambda>s. Option.bind (own (rs_views s) name) view_of_json))"

definition texts_json :: "(string \<times> string) list \<Rightarrow> json" where
  "texts_json ms = JObj (map (\<lambda>(k, s). (k, JStr s)) ms)"

definition view_json :: "repo_view \<Rightarrow> json" where
  "view_json w = JObj
     [(''branch'', opt_json JStr (branch w)), (''pull'', opt_json JNum (pull w)),
      (''file'', opt_json JStr (v_file w)), (''folders'', JArr (map JStr (folders w))),
      (''commits'', JArr (map JStr (commits w))), (''commitsPage'', JNum (commitsPage w)),
      (''pullsPage'', JNum (pullsPage w)), (''collapsedFiles'', JArr (map JStr (collapsedFiles w))),
      (''openPullFiles'', JArr (map JStr (openPullFiles w))), (''commitDrafts'', texts_json (commitDrafts w)),
      (''pullDrafts'', texts_json (pullDrafts w))]"

definition rememberRepoView :: "nat option \<Rightarrow> string \<Rightarrow> repo_view \<Rightarrow> session_store \<Rightarrow> session_store" where
  "rememberRepoView u name w st =
     (case u of None \<Rightarrow> st
      | Some i \<Rightarrow>
          let s = session_or_empty i st
          in writeSession (s \<lparr>rs_views := obj_put name (view_json w) (rs_views s)\<rparr>) st)"

definition side_json :: "draft_side \<Rightarrow> json" where
  "side_json d = JStr (case d of LEFT \<Rightarrow> ''LEFT'' | RIGHT \<Rightarrow> ''RIGHT'')"

definition draft_json :: "comment_draft \<Rightarrow> json" where
  "draft_json d = JObj
     ((''body'', JStr (body d)) #
      (case anchor d of None \<Rightarrow> []
       | Some (s, l, p) \<Rightarrow>
           [(''anchor'', JObj [(''side'', side_json s), (''line'', JNum l), (''position'', JNum p)])]))"

definition anchor_of_json :: "json option \<Rightarrow> (draft_side \<times> string \<times> string) option" where
  "anchor_of_json a =
     (case a of
        Some v \<Rightarrow>
          (case (as_string (field v ''side''), as_number (field v ''line''), as_number (field v ''position'')) of
             (Some s, Some l, Some p) \<Rightarrow>
               if s = ''LEFT'' then Some (LEFT, l, p)
               else if s = ''RIGHT'' then Some (RIGHT, l, p) else None
           | _ \<Rightarrow> None)
      | None \<Rightarrow> None)"

definition draft_of_json :: "json \<Rightarrow> comment_draft option" where
  "draft_of_json v =
     (case as_string (field v ''body'') of
        None \<Rightarrow> None
      | Some b \<Rightarrow> Some \<lparr>body = b, anchor = anchor_of_json (field v ''anchor'')\<rparr>)"

definition readDraft :: "nat option \<Rightarrow> string \<Rightarrow> session_store \<Rightarrow> comment_draft option" where
  "readDraft u key st =
     (case u of None \<Rightarrow> None
      | Some i \<Rightarrow> Option.bind (readSession i st) (\<lambda>s. Option.bind (own (rs_drafts s) key) draft_of_json))"

text \<open>\<open>draftStore\<close>: saving, or with \<open>None\<close> clearing.\<close>

definition update_draft :: "nat option \<Rightarrow> string \<Rightarrow> comment_draft option \<Rightarrow> session_store \<Rightarrow> session_store" where
  "update_draft u key d st =
     (case u of None \<Rightarrow> st
      | Some i \<Rightarrow>
          let s = session_or_empty i st
          in writeSession (s \<lparr>rs_drafts := (case d of Some x \<Rightarrow> obj_put key (draft_json x) (rs_drafts s)
                                          | None \<Rightarrow> obj_del key (rs_drafts s))\<rparr>) st)"

definition readRepoScrolls :: "nat option \<Rightarrow> string \<Rightarrow> session_store \<Rightarrow> (string \<times> string) list" where
  "readRepoScrolls u name st =
     (case u of None \<Rightarrow> []
      | Some i \<Rightarrow>
          (case Option.bind (readSession i st) (\<lambda>s. own (rs_scrolls s) name) of
             None \<Rightarrow> []
           | Some v \<Rightarrow>
               List.map_filter (\<lambda>(k, x). case x of JNum t \<Rightarrow> Some (k, t) | _ \<Rightarrow> None) (object_members (Some v))))"

definition rememberRepoScrolls :: "nat option \<Rightarrow> string \<Rightarrow> (string \<times> string) list \<Rightarrow> session_store \<Rightarrow> session_store" where
  "rememberRepoScrolls u name offsets st =
     (case u of None \<Rightarrow> st
      | Some i \<Rightarrow>
          let s = session_or_empty i st;
              kept = JObj (map (\<lambda>(k, t). (k, JNum t)) (last_n MAX_SCROLL_PLACES offsets))
          in writeSession (s \<lparr>rs_scrolls := obj_put name kept (rs_scrolls s)\<rparr>) st)"

definition forgetOpenRepo :: "session_store \<Rightarrow> session_store" where
  "forgetOpenRepo st = remove_item REPO_KEY st"


section \<open>Reading back\<close>

definition members_ok :: "members \<Rightarrow> bool" where
  "members_ok ms \<longleftrightarrow> (\<forall>m \<in> set ms. json_ok (snd m))"

definition session_ok :: "repo_session \<Rightarrow> bool" where
  "session_ok s \<longleftrightarrow>
     (case rs_repo s of JNum t \<Rightarrow> number_text t | JStr r \<Rightarrow> True | JNull \<Rightarrow> True | _ \<Rightarrow> False)
     \<and> members_ok (rs_views s) \<and> members_ok (rs_drafts s) \<and> members_ok (rs_scrolls s)"

lemma field_ok:
  assumes "json_ok v" and "field v k = Some x"
  shows "json_ok x"
proof -
  obtain ms where "v = JObj ms" "(k, x) \<in> set ms"
    using assms(2) by (auto simp: field_def dest!: map_of_SomeD split: json.splits)
  with assms(1) have "json_ok (snd (k, x))" by (metis json_ok.simps(3))
  then show ?thesis by simp
qed

lemma object_members_ok: "json_ok v \<Longrightarrow> members_ok (object_members (field v k))"
proof (cases "field v k")
  case (Some x)
  assume "json_ok v"
  from field_ok [OF this Some] show ?thesis by (cases x) (simp_all add: object_members_def members_ok_def Some)
qed (simp add: object_members_def members_ok_def)

lemma readSession_ok:
  assumes "readSession u st = Some s"
  shows "session_ok s \<and> rs_user s = u"
proof -
  obtain v where v: "get_json REPO_KEY st = Some v" "owned u v"
    using assms by (auto simp: readSession_def split: option.splits if_splits)
  have "json_ok v" by (rule get_json_ok [OF v(1)])
  then have ok: "members_ok (rs_views s)" "members_ok (rs_drafts s)" "members_ok (rs_scrolls s)" "rs_user s = u"
    using assms v by (auto simp: readSession_def object_members_ok)
  have "case rs_repo s of JNum t \<Rightarrow> number_text t | JStr r \<Rightarrow> True | JNull \<Rightarrow> True | _ \<Rightarrow> False"
  proof (cases "field v ''repo''")
    case (Some x)
    from field_ok [OF \<open>json_ok v\<close> Some] show ?thesis
      using assms v Some by (cases x) (auto simp: readSession_def number_text_def)
  qed (use assms v in \<open>auto simp: readSession_def\<close>)
  with ok show ?thesis by (simp add: session_ok_def)
qed

lemma session_or_empty_ok: "session_ok (session_or_empty u st) \<and> rs_user (session_or_empty u st) = u"
  using readSession_ok [of u st]
  by (cases "readSession u st")
    (auto simp: session_or_empty_def emptySession_def session_ok_def members_ok_def)

lemma session_json_ok: "session_ok s \<Longrightarrow> json_ok (session_json s)"
  by (auto simp: session_json_def session_ok_def members_ok_def number_text_def split: json.splits)

lemma read_written:
  assumes "usable st" and "session_ok s"
  shows "readSession u (writeSession s st) = (if u = rs_user s then Some s else None)"
proof -
  have "get_json REPO_KEY (writeSession s st) = Some (session_json s)"
    unfolding writeSession_def by (rule get_put_json [OF assms(1) session_json_ok [OF assms(2)]])
  moreover have "owned u (session_json s) \<longleftrightarrow> u = rs_user s" by (auto simp: owned_def field_def session_json_def)
  moreover have "(case rs_repo s of JNum t \<Rightarrow> JNum t | JStr r \<Rightarrow> JStr r | _ \<Rightarrow> JNull) = rs_repo s"
    using assms(2) by (simp add: session_ok_def split: json.splits)
  ultimately show ?thesis
    by (simp add: readSession_def) (simp add: session_json_def field_def object_members_def)
qed

lemma map_of_replace:
  "map_of (map (\<lambda>m. if fst m = k then (k, v) else m) xs) k' =
    (if k' = k then map_option (\<lambda>_. v) (map_of xs k) else map_of xs k')"
  by (induction xs) auto

lemma own_put: "own (obj_put k v ms) k' = (if k' = k then Some v else own ms k')"
proof (cases "map_of (rev ms) k")
  case None
  then have "k \<notin> fst ` set ms" by (simp add: map_of_eq_None_iff)
  then show ?thesis by (simp add: own_def obj_put_def)
next
  case (Some x)
  then have "k \<in> fst ` set ms" by (metis map_of_eq_None_iff option.distinct(1) set_rev)
  then show ?thesis using map_of_replace [of k v "rev ms" k'] Some by (simp add: own_def obj_put_def rev_map)
qed

lemma own_Nil [simp]: "own [] k = None"
  by (simp add: own_def)

lemma own_del: "own (obj_del k ms) k' = (if k' = k then None else own ms k')"
proof -
  have "map_of (filter (\<lambda>m. fst m \<noteq> k) xs) k' = (if k' = k then None else map_of xs k')" for xs :: "(string \<times> 'a) list"
    by (induction xs) auto
  then show ?thesis by (simp add: own_def obj_del_def rev_filter)
qed

lemma put_ok: "members_ok ms \<Longrightarrow> json_ok v \<Longrightarrow> members_ok (obj_put k v ms)"
  by (auto simp: members_ok_def obj_put_def)

lemma del_ok: "members_ok ms \<Longrightarrow> members_ok (obj_del k ms)"
  by (auto simp: members_ok_def obj_del_def)

lemma strings_of_texts: "strings (Some (JArr (map JStr xs))) n = last_n n xs"
proof -
  have "List.map_filter (\<lambda>x. as_string (Some x)) (map JStr xs) = xs"
    by (induction xs) (simp_all add: List.map_filter_simps)
  then show ?thesis by (simp add: strings_def)
qed

lemma draftTexts_of_texts: "draftTexts (Some (texts_json ms)) = filter (\<lambda>m. snd m \<noteq> []) ms"
  unfolding draftTexts_def object_members_def texts_json_def
  by (induction ms) (auto simp: List.map_filter_simps split: list.split)

definition page_text :: "string \<Rightarrow> bool" where
  "page_text t \<longleftrightarrow> number_text t \<and> page_of (Some (JNum t)) = t"

definition view_ok :: "repo_view \<Rightarrow> bool" where
  "view_ok w \<longleftrightarrow>
     (\<forall>t. pull w = Some t \<longrightarrow> number_text t) \<and> page_text (commitsPage w) \<and> page_text (pullsPage w)"

definition kept_view :: "repo_view \<Rightarrow> repo_view" where
  "kept_view w =
     w \<lparr>folders := last_n 30 (folders w), commits := last_n 10 (commits w),
        collapsedFiles := last_n 200 (collapsedFiles w), openPullFiles := last_n 200 (openPullFiles w),
        commitDrafts := filter (\<lambda>m. snd m \<noteq> []) (commitDrafts w),
        pullDrafts := filter (\<lambda>m. snd m \<noteq> []) (pullDrafts w)\<rparr>"

lemma view_json_ok: "view_ok w \<Longrightarrow> json_ok (view_json w)"
  by (auto simp: view_json_def view_ok_def page_text_def number_text_def texts_json_def)

lemma view_read: "view_ok w \<Longrightarrow> view_of_json (view_json w) = Some (kept_view w)"
  unfolding view_of_json_def
  by (simp add: view_json_def field_def isRecord_def strings_of_texts draftTexts_of_texts kept_view_def
      MAX_RESTORED_FOLDERS_def MAX_RESTORED_COMMITS_def MAX_RESTORED_FILES_def view_ok_def page_text_def)


lemma draft_read: "draft_of_json (draft_json d) = Some d"
proof (cases "anchor d")
  case None
  then show ?thesis by (simp add: draft_of_json_def draft_json_def field_def anchor_of_json_def)
next
  case (Some a)
  obtain s l p where a: "a = (s, l, p)" by (cases a)
  show ?thesis using Some
    by (cases s) (simp_all add: a draft_of_json_def draft_json_def field_def anchor_of_json_def side_json_def)
qed

definition draft_ok :: "comment_draft \<Rightarrow> bool" where
  "draft_ok d \<longleftrightarrow> (\<forall>s l p. anchor d = Some (s, l, p) \<longrightarrow> number_text l \<and> number_text p)"

lemma draft_json_ok: "draft_ok d \<Longrightarrow> json_ok (draft_json d)"
  by (cases "anchor d") (auto simp: draft_json_def draft_ok_def number_text_def side_json_def)

lemma remembered_views:
  assumes "usable st" and "view_ok w"
  shows "readSession i (rememberRepoView (Some u) name w st) =
    (if i = u then Some ((session_or_empty u st) \<lparr>rs_views := obj_put name (view_json w) (rs_views (session_or_empty u st))\<rparr>)
     else None)"
proof -
  let ?s = "session_or_empty u st"
  have "session_ok (?s \<lparr>rs_views := obj_put name (view_json w) (rs_views ?s)\<rparr>)"
    using session_or_empty_ok [of u st] put_ok view_json_ok [OF assms(2)] by (simp add: session_ok_def)
  from read_written [OF assms(1) this, of i] show ?thesis
    using session_or_empty_ok [of u st] by (simp add: rememberRepoView_def Let_def)
qed

lemma remembered_draft:
  assumes "usable st" and "\<forall>x. d = Some x \<longrightarrow> draft_ok x"
  shows "readSession i (update_draft (Some u) key d st) =
    (if i = u then Some ((session_or_empty u st) \<lparr>rs_drafts :=
        (case d of Some x \<Rightarrow> obj_put key (draft_json x) (rs_drafts (session_or_empty u st))
         | None \<Rightarrow> obj_del key (rs_drafts (session_or_empty u st)))\<rparr>)
     else None)"
proof -
  let ?s = "session_or_empty u st"
  let ?ds = "case d of Some x \<Rightarrow> obj_put key (draft_json x) (rs_drafts ?s) | None \<Rightarrow> obj_del key (rs_drafts ?s)"
  have "session_ok (?s \<lparr>rs_drafts := ?ds\<rparr>)"
    using session_or_empty_ok [of u st] put_ok del_ok draft_json_ok assms(2)
    by (cases d) (simp_all add: session_ok_def)
  from read_written [OF assms(1) this, of i] show ?thesis
    using session_or_empty_ok [of u st] by (simp add: update_draft_def Let_def)
qed

lemma number_members_ok: "\<forall>m \<in> set ms. number_text (snd m) \<Longrightarrow> json_ok (JObj (map (\<lambda>(k, t). (k, JNum t)) ms))"
  by (auto simp: number_text_def)

lemma remembered_scrolls:
  assumes "usable st" and "\<forall>m \<in> set ms. number_text (snd m)"
  shows "readSession i (rememberRepoScrolls (Some u) name ms st) =
    (if i = u then Some ((session_or_empty u st) \<lparr>rs_scrolls :=
        obj_put name (JObj (map (\<lambda>(k, t). (k, JNum t)) (last_n MAX_SCROLL_PLACES ms))) (rs_scrolls (session_or_empty u st))\<rparr>)
     else None)"
proof -
  let ?s = "session_or_empty u st"
  have "\<forall>m \<in> set (last_n MAX_SCROLL_PLACES ms). number_text (snd m)"
    using assms(2) by (auto simp: last_n_def dest: in_set_dropD)
  from number_members_ok [OF this]
  have "session_ok (?s \<lparr>rs_scrolls :=
      obj_put name (JObj (map (\<lambda>(k, t). (k, JNum t)) (last_n MAX_SCROLL_PLACES ms))) (rs_scrolls ?s)\<rparr>)"
    using session_or_empty_ok [of u st] put_ok by (simp add: session_ok_def del: json_ok.simps)
  from read_written [OF assms(1) this, of i] show ?thesis
    using session_or_empty_ok [of u st] by (simp add: rememberRepoScrolls_def Let_def)
qed

section \<open>Properties\<close>

text \<open>
  Coming back to a conversation, a mail or a note shows what was left, and only to the user who
  left it.
\<close>

theorem places_come_back:
  assumes "usable st" and "number_text (oc_scroll p)" and "\<forall>t. oc_thread p = Some t \<longrightarrow> number_text t"
    and "number_text (om_email q)" and "\<forall>t. om_account q = Some t \<longrightarrow> number_text t"
    and "\<forall>t. on_note r = Some t \<longrightarrow> number_text t"
  shows "readOpenChat (Some i) (rememberOpenChat p st) = (if i = oc_user p then Some p else None) \<and>
    readOpenEmail (Some i) (rememberOpenEmail q st) = (if i = om_user q then Some q else None) \<and>
    readOpenNote (Some i) (rememberOpenNote r st) = (if i = on_user r then Some r else None)"
  using assms chat_place.comes_back [OF assms(1)] mail_place.comes_back [OF assms(1)]
    note_place.comes_back [OF assms(1)]
  by (simp add: readOpenChat_def rememberOpenChat_def readOpenEmail_def rememberOpenEmail_def
      readOpenNote_def rememberOpenNote_def)

text \<open>
  C40: Coming back to a repository shows the view left there, up to the most recent folders, commits and
  files and the drafts that hold text; what was kept for other repositories is untouched.
\<close>

theorem repo_view_comes_back:
  assumes "usable st" and "view_ok w"
  shows "readRepoView (Some u) name' (rememberRepoView (Some u) name w st) =
      (if name' = name then Some (kept_view w) else readRepoView (Some u) name' st) \<and>
    readDraft (Some u) key (rememberRepoView (Some u) name w st) = readDraft (Some u) key st \<and>
    (i \<noteq> u \<longrightarrow> readRepoView (Some i) name' (rememberRepoView (Some u) name w st) = None)"
  by (cases "readSession u st")
    (simp_all add: readRepoView_def readDraft_def remembered_views [OF assms] own_put view_read [OF assms(2)]
      session_or_empty_def emptySession_def)

text \<open>
  A half-written comment comes back with its line, clearing it removes it, and neither touches the
  others or the views.
\<close>

theorem drafts_come_back:
  assumes "usable st" and "\<forall>x. d = Some x \<longrightarrow> draft_ok x"
  shows "readDraft (Some u) key' (update_draft (Some u) key d st) =
      (if key' = key then d else readDraft (Some u) key' st) \<and>
    readRepoView (Some u) name (update_draft (Some u) key d st) = readRepoView (Some u) name st \<and>
    (i \<noteq> u \<longrightarrow> readDraft (Some i) key' (update_draft (Some u) key d st) = None)"
  using remembered_draft [OF assms, where i = u] remembered_draft [OF assms, where i = i]
  by (cases "readSession u st"; cases d)
    (simp_all add: readRepoView_def readDraft_def own_put own_del draft_read session_or_empty_def emptySession_def)

text \<open>At most the last fifty scroll offsets of a repository are kept, in their order.\<close>

theorem scrolls_bounded:
  assumes "usable st" and "\<forall>m \<in> set ms. number_text (snd m)"
  shows "readRepoScrolls (Some u) name (rememberRepoScrolls (Some u) name ms st) = last_n 50 ms \<and>
    length (readRepoScrolls (Some u) name (rememberRepoScrolls (Some u) name ms st)) \<le> 50"
proof -
  have "List.map_filter (\<lambda>(k, x). case x of JNum t \<Rightarrow> Some (k, t) | _ \<Rightarrow> None) (map (\<lambda>(k, t). (k, JNum t)) xs) = xs"
    for xs by (induction xs) (auto simp: List.map_filter_simps)
  then have "readRepoScrolls (Some u) name (rememberRepoScrolls (Some u) name ms st) = last_n 50 ms"
    by (simp add: readRepoScrolls_def remembered_scrolls [OF assms] own_put object_members_def MAX_SCROLL_PLACES_def)
  then show ?thesis by (simp add: last_n_def)
qed

text \<open>After the places are forgotten, as on signing out, nobody finds one.\<close>

theorem forgotten_places:
  assumes "usable st"
  shows "readOpenChat u (fst (forgetOpenChat (st, draft))) = None \<and>
    readChatDraft u k (snd (forgetOpenChat (st, draft))) = None \<and>
    readOpenEmail u (forgetOpenEmail st) = None \<and> readOpenNote u (forgetOpenNote st) = None \<and>
    readOpenRepo u (forgetOpenRepo st) = None \<and> readRepoView u k (forgetOpenRepo st) = None \<and>
    readDraft u k (forgetOpenRepo st) = None \<and> readRepoScrolls u k (forgetOpenRepo st) = []"
proof -
  have "readSession i (forgetOpenRepo st) = None" for i
    using assms by (simp add: readSession_def forgetOpenRepo_def get_json_def remove_item_def)
  then show ?thesis
    using chat_place.forgotten [OF assms] mail_place.forgotten [OF assms] note_place.forgotten [OF assms]
    by (simp add: readOpenChat_def readOpenEmail_def readOpenNote_def readOpenRepo_def readRepoView_def
        readDraft_def readRepoScrolls_def forgetOpenChat_def forgetOpenEmail_def forgetOpenNote_def
        readChatDraft_def split: option.split)
qed


definition empty_tab :: session_store where
  "empty_tab = \<lparr>usable = True, items = Map.empty\<rparr>"

definition demo_repo_view :: repo_view where
  "demo_repo_view =
     \<lparr>branch = Some ''main'', pull = None, v_file = None, folders = [''src''], commits = [], commitsPage = ''1'',
      pullsPage = ''2'', collapsedFiles = [], openPullFiles = [], commitDrafts = [(''a1'', []), (''b2'', ''hm'')],
      pullDrafts = []\<rparr>"

lemma demo_numbers: "number_text ''4''" "number_text ''0''" "page_text ''1''" "page_text ''2''"
  by code_simp+

lemma demo_place_ok: "usable empty_tab" "view_ok demo_repo_view" "number_text ''4''" "number_text ''0''"
  by (simp_all add: empty_tab_def view_ok_def demo_repo_view_def demo_numbers)

theorem places_come_back_witness:
  "readOpenChat (Some 3) (rememberOpenChat \<lparr>oc_user = 3, oc_key = ''dm:2'', oc_email = None, oc_thread = Some ''4'',
      oc_settings = True, oc_scroll = ''0''\<rparr> empty_tab) =
    Some \<lparr>oc_user = 3, oc_key = ''dm:2'', oc_email = None, oc_thread = Some ''4'', oc_settings = True, oc_scroll = ''0''\<rparr>"
  using places_come_back [OF demo_place_ok(1), of "\<lparr>oc_user = 3, oc_key = ''dm:2'', oc_email = None,
      oc_thread = Some ''4'', oc_settings = True, oc_scroll = ''0''\<rparr>"
      "\<lparr>om_user = 3, om_email = ''4'', om_account = None, om_folder = ''inbox''\<rparr>"
      "\<lparr>on_user = 3, on_note = None, on_title = [], on_content = [], on_edited = False\<rparr>" 3]
  by (simp add: demo_place_ok)

theorem repo_view_comes_back_witness:
  "readRepoView (Some 3) ''a/b'' (rememberRepoView (Some 3) ''a/b'' demo_repo_view empty_tab) = Some (kept_view demo_repo_view)"
  using repo_view_comes_back [OF demo_place_ok(1,2), where name = "''a/b''" and name' = "''a/b''" and u = 3] by simp

theorem drafts_come_back_witness:
  "readDraft (Some 3) ''k'' (update_draft (Some 3) ''k'' (Some \<lparr>body = ''hm'', anchor = Some (LEFT, ''4'', ''4'')\<rparr>) empty_tab)
    = Some \<lparr>body = ''hm'', anchor = Some (LEFT, ''4'', ''4'')\<rparr>"
  using drafts_come_back [OF demo_place_ok(1), of "Some \<lparr>body = ''hm'', anchor = Some (LEFT, ''4'', ''4'')\<rparr>"
      3 "''k''" "''k''"]
  by (simp add: draft_ok_def demo_place_ok)

theorem scrolls_bounded_witness:
  "readRepoScrolls (Some 3) ''a/b'' (rememberRepoScrolls (Some 3) ''a/b'' [(''x'', ''4'')] empty_tab) = last_n 50 [(''x'', ''4'')]"
  using scrolls_bounded [OF demo_place_ok(1), of "[(''x'', ''4'')]" 3 "''a/b''"] by (simp add: demo_place_ok)

theorem forgotten_places_witness:
  "readRepoView (Some 3) ''a/b'' (forgetOpenRepo (rememberRepoView (Some 3) ''a/b'' demo_repo_view empty_tab)) = None"
proof -
  have "usable (rememberRepoView (Some 3) ''a/b'' demo_repo_view empty_tab)"
    by (simp add: rememberRepoView_def writeSession_def put_json_def set_item_def empty_tab_def Let_def)
  from forgotten_places [OF this] show ?thesis by blast
qed

end
