(* ===== verification/Task_Board.thy ===== *)
theory Task_Board
  imports Web_Crypto "HOL-Library.Product_Lexorder" "HOL-Library.List_Lexorder" "HOL-Library.Multiset"
begin

text \<open>
  The board of tasks, tickets and stories: \<open>tasks/Tasks.tsx\<close> with the status helpers of
  \<open>api/taskStatuses.ts\<close>. A creation time is its number of milliseconds; unreadable dates are not
  modelled. Requests are cut at their answer, which is an argument: \<open>Error m\<close> stands for any error
  object with the message \<open>m\<close>, the other errors for thrown values that are none. The names of files
  stand for the files.
\<close>

section \<open>Data\<close>

record task =
  t_id :: nat
  t_number :: "nat option"
  t_name :: string
  t_description :: string
  t_priority :: int
  t_status :: string
  t_assigned_by :: "string option"
  t_assignee :: "string option"
  t_assignee_id :: "nat option"
  t_project_id :: "nat option"
  t_badge_kind :: "string option"
  t_created :: int

record status_row =
  s_slug :: string
  s_name :: string
  s_category :: string

text \<open>What is written: a field that is not sent, the type of a task, is \<open>None\<close>.\<close>

record payload =
  p_name :: string
  p_description :: string
  p_priority :: int
  p_status :: string
  p_assigned_by :: string
  p_assignee :: string
  p_assignee_id :: "nat option"
  p_project_id :: "nat option"
  p_badge_kind :: "string option option"

definition TERMINAL_CATEGORIES :: "string list" where
  "TERMINAL_CATEGORIES = [''completed'', ''canceled'']"

definition isTerminalCategory :: "string \<Rightarrow> bool" where
  "isTerminalCategory c \<longleftrightarrow> c \<in> set TERMINAL_CATEGORIES"

definition normalizePriority :: "int \<Rightarrow> int" where
  "normalizePriority n = (if n \<in> {1, 2, 3, 4, 5} then n else 3)"

definition normalizeStatus :: "string \<Rightarrow> status_row list \<Rightarrow> string" where
  "normalizeStatus slug known =
     (case known of
        [] \<Rightarrow> slug
      | r # rs \<Rightarrow> if slug \<in> s_slug ` set known then slug else s_slug r)"

definition normal_task :: "status_row list \<Rightarrow> task \<Rightarrow> task" where
  "normal_task rows t =
     t \<lparr>t_priority := normalizePriority (t_priority t), t_status := normalizeStatus (t_status t) rows\<rparr>"

definition task_key :: "task \<Rightarrow> int \<times> int" where
  "task_key t = (t_priority t, t_created t)"

definition sortTasks :: "task list \<Rightarrow> task list" where
  "sortTasks ts = sort_key task_key ts"

definition UNKNOWN_STATUS :: "string \<Rightarrow> status_row" where
  "UNKNOWN_STATUS slug =
     \<lparr>s_slug = slug, s_name = (if slug = [] then ''Unknown'' else slug), s_category = ''backlog''\<rparr>"

text \<open>The map of the rows by slug, in which a later row wins.\<close>

definition lookupStatus :: "status_row list \<Rightarrow> string \<Rightarrow> status_row" where
  "lookupStatus rows slug =
     nullish (map_of (rev (map (\<lambda>r. (s_slug r, r)) rows)) slug) (UNKNOWN_STATUS slug)"

section \<open>The compose form\<close>

record compose =
  c_name :: string
  c_description :: string
  c_priority :: nat
  c_status :: string
  c_assignedBy :: string
  c_assignee :: string
  c_assigneeId :: "nat option"
  c_projectId :: "nat option"
  c_badgeKind :: string
  c_files :: "string list"

definition json_id :: "nat option \<Rightarrow> json" where
  "json_id v = (case v of None \<Rightarrow> JNull | Some n \<Rightarrow> json_of_nat n)"

definition fingerprint_json :: "compose \<Rightarrow> json" where
  "fingerprint_json f = JObj
     [(''name'', JStr (trim (c_name f))), (''description'', JStr (trim (c_description f))),
      (''priority'', json_of_nat (c_priority f)), (''status'', JStr (c_status f)),
      (''assignedBy'', JStr (c_assignedBy f)), (''assignee'', JStr (c_assignee f)),
      (''assigneeId'', json_id (c_assigneeId f)), (''projectId'', json_id (c_projectId f)),
      (''badgeKind'', JStr (c_badgeKind f)), (''pendingAttachments'', json_of_nat (length (c_files f)))]"

definition composeFingerprint :: "compose \<Rightarrow> string" where
  "composeFingerprint f = stringify (fingerprint_json f)"

record board =
  tasks :: "task list"
  loading :: bool
  loadError :: string
  statusRows :: "status_row list"
  form :: compose
  editingId :: "nat option"
  creating :: bool
  createAnother :: bool
  submitting :: bool
  form_error :: string
  pristineForm :: "string option"
  alerts :: "string list"

definition board_init :: board where
  "board_init =
     \<lparr>tasks = [], loading = True, loadError = [], statusRows = [],
      form = \<lparr>c_name = [], c_description = [], c_priority = 3, c_status = [], c_assignedBy = [],
        c_assignee = [], c_assigneeId = None, c_projectId = None, c_badgeKind = [], c_files = []\<rparr>,
      editingId = None, creating = False, createAnother = False, submitting = False, form_error = [],
      pristineForm = None, alerts = []\<rparr>"

record board_config =
  show_type :: bool
  attachments_on :: bool
  singular :: string
  lowerSingular :: string
  lowerPlural :: string
  is_personal :: bool
  my_email :: string

definition composeStatus :: "board \<Rightarrow> string" where
  "composeStatus b =
     (if c_status (form b) \<noteq> [] then c_status (form b)
      else (case statusRows b of [] \<Rightarrow> [] | r # rs \<Rightarrow> s_slug r))"

definition formDirty :: "board \<Rightarrow> bool" where
  "formDirty b \<longleftrightarrow> pristineForm b = None \<or> Some (composeFingerprint (form b)) \<noteq> pristineForm b"

definition empty_form :: "board_config \<Rightarrow> compose" where
  "empty_form cfg =
     \<lparr>c_name = [], c_description = [], c_priority = 3, c_status = ''to_do'',
      c_assignedBy = (if is_personal cfg then [] else my_email cfg), c_assignee = [],
      c_assigneeId = None, c_projectId = None, c_badgeKind = [], c_files = []\<rparr>"

definition resetForm :: "board_config \<Rightarrow> board \<Rightarrow> board" where
  "resetForm cfg b = b \<lparr>form := empty_form cfg, editingId := None, form_error := [], pristineForm := None\<rparr>"

definition closeForm :: "board_config \<Rightarrow> board \<Rightarrow> board" where
  "closeForm cfg b = (resetForm cfg b) \<lparr>createAnother := False, creating := False\<rparr>"

definition openCreate :: "board_config \<Rightarrow> board \<Rightarrow> board" where
  "openCreate cfg b = (resetForm cfg b) \<lparr>creating := True\<rparr>"

definition loaded_form :: "status_row list \<Rightarrow> task \<Rightarrow> compose" where
  "loaded_form rows t =
     \<lparr>c_name = t_name t, c_description = t_description t,
      c_priority = nat (normalizePriority (t_priority t)), c_status = normalizeStatus (t_status t) rows,
      c_assignedBy = nullish (t_assigned_by t) [], c_assignee = nullish (t_assignee t) [],
      c_assigneeId = t_assignee_id t, c_projectId = t_project_id t,
      c_badgeKind = nullish (t_badge_kind t) [], c_files = []\<rparr>"

definition beginEdit :: "task \<Rightarrow> board \<Rightarrow> board" where
  "beginEdit t b =
     b \<lparr>pristineForm := Some (composeFingerprint (loaded_form (statusRows b) t)),
        editingId := Some (t_id t), form := loaded_form (statusRows b) t, form_error := [],
        createAnother := False, creating := True\<rparr>"

section \<open>Loading and saving\<close>

definition error_or :: "string \<Rightarrow> js_error \<Rightarrow> string" where
  "error_or fallback e = (case e of Error m \<Rightarrow> m | _ \<Rightarrow> fallback)"

text \<open>
  \<open>loadTasks\<close> was made in the first render and keeps the rows of that render: none.
\<close>

definition begin_loadTasks :: "board \<Rightarrow> board" where
  "begin_loadTasks b = b \<lparr>loadError := [], loading := True\<rparr>"

definition finish_loadTasks :: "board_config \<Rightarrow> task list result \<Rightarrow> board \<Rightarrow> board" where
  "finish_loadTasks cfg answer b =
     (case answer of
        Ok ts \<Rightarrow> b \<lparr>tasks := sortTasks (map (normal_task []) ts), loading := False\<rparr>
      | Throw e \<Rightarrow> b \<lparr>loadError := error_or (''Failed to load '' @ lowerPlural cfg) e, loading := False\<rparr>)"

definition replace_task :: "status_row list \<Rightarrow> task \<Rightarrow> task list \<Rightarrow> task list" where
  "replace_task rows u ts = sortTasks (map (\<lambda>t. if t_id t = t_id u then normal_task rows u else t) ts)"

definition form_payload :: "board_config \<Rightarrow> board \<Rightarrow> payload" where
  "form_payload cfg b =
     (let f = form b in
      \<lparr>p_name = trim (c_name f), p_description = trim (c_description f), p_priority = int (c_priority f),
       p_status = composeStatus b, p_assigned_by = trim (c_assignedBy f), p_assignee = trim (c_assignee f),
       p_assignee_id = c_assigneeId f, p_project_id = c_projectId f,
       p_badge_kind = (if show_type cfg then Some (if c_badgeKind f = [] then None else Some (c_badgeKind f))
                       else None)\<rparr>)"

datatype save_request = Refused | Create payload | Update nat payload

definition begin_save :: "board_config \<Rightarrow> board \<Rightarrow> save_request \<times> board" where
  "begin_save cfg b =
     (if trim (c_name (form b)) = []
      then (Refused, b \<lparr>form_error := singular cfg @ '' name is required''\<rparr>)
      else ((case editingId b of Some i \<Rightarrow> Update i (form_payload cfg b) | None \<Rightarrow> Create (form_payload cfg b)),
            b \<lparr>submitting := True, form_error := []\<rparr>))"

text \<open>
  The answer of the request, then that of the upload, which is made when files are staged. A handler
  keeps what the render showed in which it started, the board \<open>sent\<close>; the form may be closed and
  another task opened before the answer comes.
\<close>

definition add_saved :: "board \<Rightarrow> task \<Rightarrow> board \<Rightarrow> board" where
  "add_saved sent u b =
     (case editingId sent of
        Some i \<Rightarrow> b \<lparr>tasks := replace_task (statusRows sent) u (tasks b)\<rparr>
      | None \<Rightarrow> b \<lparr>tasks := sortTasks (tasks b @ [normal_task (statusRows sent) u])\<rparr>)"

definition saved_form :: "board_config \<Rightarrow> board \<Rightarrow> board \<Rightarrow> board" where
  "saved_form cfg sent b =
     (if createAnother sent \<and> editingId sent = None
      then b \<lparr>form := (form b) \<lparr>c_name := [], c_description := [], c_files := []\<rparr>, form_error := []\<rparr>
      else closeForm cfg b)"

definition finish_save :: "board_config \<Rightarrow> board \<Rightarrow> task result \<Rightarrow> unit result \<Rightarrow> board \<Rightarrow> board" where
  "finish_save cfg sent answer upload b0 =
     (case answer of
        Throw e \<Rightarrow> b0 \<lparr>form_error := error_or (''Failed to save '' @ lowerSingular cfg) e, submitting := False\<rparr>
      | Ok u \<Rightarrow>
          let b = add_saved sent u b0 in
          (case (if attachments_on cfg \<and> c_files (form sent) \<noteq> [] then upload else Ok ()) of
             Throw e \<Rightarrow>
               b \<lparr>form_error := (case e of Error m \<Rightarrow> ''Task saved, but attachment upload failed: '' @ m
                                 | _ \<Rightarrow> ''Task saved, but attachment upload failed''),
                  submitting := False\<rparr>
           | Ok _ \<Rightarrow> (saved_form cfg sent b) \<lparr>submitting := False\<rparr>))"

section \<open>Inline edits\<close>

datatype task_patch = SetStatus string | SetType "string option"

fun patch_task :: "task_patch \<Rightarrow> task \<Rightarrow> task" where
  "patch_task (SetStatus s) t = t \<lparr>t_status := s\<rparr>"
| "patch_task (SetType k) t = t \<lparr>t_badge_kind := k\<rparr>"

definition savePayloadFrom :: "board_config \<Rightarrow> task \<Rightarrow> task_patch \<Rightarrow> payload" where
  "savePayloadFrom cfg t p =
     (let base = \<lparr>p_name = t_name t, p_description = t_description t, p_priority = t_priority t,
         p_status = t_status t, p_assigned_by = nullish (t_assigned_by t) [],
         p_assignee = nullish (t_assignee t) [], p_assignee_id = t_assignee_id t,
         p_project_id = t_project_id t,
         p_badge_kind = (if show_type cfg then Some (t_badge_kind t) else None)\<rparr>
      in case p of
           SetStatus s \<Rightarrow> base \<lparr>p_status := s\<rparr>
         | SetType k \<Rightarrow> base \<lparr>p_badge_kind := Some k\<rparr>)"

text \<open>\<open>patchTask\<close>: what it puts back after a failure is the list of the render it started in.\<close>

definition begin_patch :: "task \<Rightarrow> task_patch \<Rightarrow> board \<Rightarrow> board" where
  "begin_patch t p b =
     b \<lparr>tasks := sortTasks (map (\<lambda>x. if t_id x = t_id t then patch_task p x else x) (tasks b))\<rparr>"

definition finish_patch :: "board \<Rightarrow> string \<Rightarrow> task result \<Rightarrow> board \<Rightarrow> board" where
  "finish_patch sent failure answer b =
     (case answer of
        Ok u \<Rightarrow> b \<lparr>tasks := replace_task (statusRows sent) u (tasks b)\<rparr>
      | Throw e \<Rightarrow> b \<lparr>tasks := tasks sent, alerts := alerts b @ [error_or failure e]\<rparr>)"

definition changeStatus :: "task \<Rightarrow> string \<Rightarrow> task_patch option" where
  "changeStatus t s = (if t_status t = s then None else Some (SetStatus s))"

definition changeType :: "task \<Rightarrow> string \<Rightarrow> task_patch option" where
  "changeType t k =
     (if nullish (t_badge_kind t) [] = k then None else Some (SetType (if k = [] then None else Some k)))"

definition finish_deleteTask :: "board_config \<Rightarrow> board \<Rightarrow> task \<Rightarrow> unit result \<Rightarrow> board \<Rightarrow> board" where
  "finish_deleteTask cfg sent t answer b =
     (case answer of
        Throw e \<Rightarrow> b \<lparr>alerts := alerts b @ [error_or (''Failed to delete '' @ lowerSingular cfg) e]\<rparr>
      | Ok _ \<Rightarrow>
          let c = b \<lparr>tasks := filter (\<lambda>x. t_id x \<noteq> t_id t) (tasks b)\<rparr>
          in if editingId sent = Some (t_id t) then (resetForm cfg c) \<lparr>creating := False\<rparr> else c)"


section \<open>What the board shows\<close>

datatype date_mode = AnyDate | After | Before | Between
datatype sort_column = ByCreated | ByAssignee | ByPriority | ByStatus

record board_filters =
  query :: string \<comment> \<open>the normalised search text\<close>
  statusFilter :: "string list"
  priorityFilter :: "int option" \<comment> \<open>\<open>None\<close> is "all"\<close>
  dateMode :: date_mode
  day_from :: "int option" \<comment> \<open>the start of the first day, if one is chosen\<close>
  day_to :: "int option" \<comment> \<open>the end of the last day\<close>
  sortKey :: "sort_column option"
  ascending :: bool

definition toggleStatusFilter :: "string \<Rightarrow> board_filters \<Rightarrow> board_filters" where
  "toggleStatusFilter slug f =
     f \<lparr>statusFilter := (if slug \<in> set (statusFilter f) then filter (\<lambda>s. s \<noteq> slug) (statusFilter f)
                         else statusFilter f @ [slug])\<rparr>"

definition clearFilters :: "board_filters \<Rightarrow> board_filters" where
  "clearFilters f =
     f \<lparr>statusFilter := [], priorityFilter := None, dateMode := AnyDate, day_from := None, day_to := None\<rparr>"

definition activeFilterCount :: "board_filters \<Rightarrow> nat" where
  "activeFilterCount f =
     (if statusFilter f = [] then 0 else 1) + (if priorityFilter f = None then 0 else 1)
     + (if dateMode f = AnyDate then 0 else 1)"

definition toggleSort :: "sort_column \<Rightarrow> board_filters \<Rightarrow> board_filters" where
  "toggleSort k f =
     (if sortKey f \<noteq> Some k then f \<lparr>sortKey := Some k, ascending := True\<rparr>
      else f \<lparr>ascending := \<not> ascending f\<rparr>)"

fun infix_of :: "string \<Rightarrow> string \<Rightarrow> bool" where
  "infix_of q [] \<longleftrightarrow> q = []"
| "infix_of q (c # s) \<longleftrightarrow> take (length q) (c # s) = q \<or> infix_of q s"

definition matches_query :: "string \<Rightarrow> task \<Rightarrow> bool" where
  "matches_query q t \<longleftrightarrow>
     q = [] \<or> infix_of q (toLowerCase (join '' '' [t_name t, t_description t]))"

definition inDateRange :: "board_filters \<Rightarrow> task \<Rightarrow> bool" where
  "inDateRange f t \<longleftrightarrow>
     dateMode f = AnyDate
     \<or> \<not> ((dateMode f = After \<or> dateMode f = Between) \<and> (case day_from f of Some d \<Rightarrow> t_created t < d | None \<Rightarrow> False))
       \<and> \<not> ((dateMode f = Before \<or> dateMode f = Between) \<and> (case day_to f of Some d \<Rightarrow> t_created t > d | None \<Rightarrow> False))"

definition visible_task :: "board_filters \<Rightarrow> task \<Rightarrow> bool" where
  "visible_task f t \<longleftrightarrow>
     matches_query (query f) t
     \<and> (statusFilter f = [] \<or> t_status t \<in> set (statusFilter f))
     \<and> (case priorityFilter f of None \<Rightarrow> True | Some p \<Rightarrow> t_priority t = p)
     \<and> inDateRange f t"

definition filteredTasks :: "board_filters \<Rightarrow> board \<Rightarrow> task list" where
  "filteredTasks f b = filter (visible_task f) (tasks b)"

definition finished :: "status_row list \<Rightarrow> task \<Rightarrow> bool" where
  "finished rows t \<longleftrightarrow> isTerminalCategory (s_category (lookupStatus rows (t_status t)))"

definition active_tasks :: "status_row list \<Rightarrow> task list \<Rightarrow> task list" where
  "active_tasks rows ts = filter (\<lambda>t. \<not> finished rows t) ts"

definition completed_tasks :: "status_row list \<Rightarrow> task list \<Rightarrow> task list" where
  "completed_tasks rows ts = filter (finished rows) ts"

text \<open>
  Both lists are memoised on the filtered list alone. A list is paired with its identity, a number;
  a memo keeps the identity and the rows it was computed with, and is reused for the same list.
\<close>

type_synonym split_memo = "(nat \<times> status_row list) option"

definition memo_rows :: "nat \<Rightarrow> status_row list \<Rightarrow> split_memo \<Rightarrow> status_row list" where
  "memo_rows i rows memo = (case memo of Some (j, kept) \<Rightarrow> if i = j then kept else rows | None \<Rightarrow> rows)"

definition activeTasks :: "nat \<times> task list \<Rightarrow> status_row list \<Rightarrow> split_memo \<Rightarrow> task list" where
  "activeTasks ts rows memo = active_tasks (memo_rows (fst ts) rows memo) (snd ts)"

definition completedTasks :: "nat \<times> task list \<Rightarrow> status_row list \<Rightarrow> split_memo \<Rightarrow> task list" where
  "completedTasks ts rows memo = completed_tasks (memo_rows (fst ts) rows memo) (snd ts)"

definition board_column :: "task list \<Rightarrow> status_row \<Rightarrow> task list" where
  "board_column ts col = filter (\<lambda>t. t_status t = s_slug col) ts"

record member =
  u_id :: nat
  u_email :: string
  u_name :: string

definition assigneeInfo :: "member list \<Rightarrow> task \<Rightarrow> (string \<times> nat option) option" where
  "assigneeInfo users t =
     (let email = trim (nullish (t_assignee t) []) in
      if email = [] then None
      else (case find (\<lambda>u. toLowerCase (u_email u) = toLowerCase email) users of
              Some u \<Rightarrow> Some (if u_name u = [] then email else u_name u, Some (u_id u))
            | None \<Rightarrow> Some (email, t_assignee_id t)))"

text \<open>The key of a row: a number, or the code units of a text.\<close>

definition keyOf :: "status_row list \<Rightarrow> member list \<Rightarrow> sort_column \<Rightarrow> task \<Rightarrow> int \<times> nat list" where
  "keyOf rows users k t =
     (case k of
        ByCreated \<Rightarrow> (t_created t, [])
      | ByPriority \<Rightarrow> (t_priority t, [])
      | ByAssignee \<Rightarrow>
          (0, map code (toLowerCase (case assigneeInfo users t of Some (n, i) \<Rightarrow> n | None \<Rightarrow> [])))
      | ByStatus \<Rightarrow> (0, map code (toLowerCase (s_name (lookupStatus rows (t_status t))))))"

text \<open>A stable sort; downwards, equal rows keep their order as well.\<close>

definition sortForTable :: "status_row list \<Rightarrow> member list \<Rightarrow> board_filters \<Rightarrow> task list \<Rightarrow> task list" where
  "sortForTable rows users f ts =
     (case sortKey f of
        None \<Rightarrow> ts
      | Some k \<Rightarrow>
          if ascending f then sort_key (keyOf rows users k) ts
          else rev (sort_key (keyOf rows users k) (rev ts)))"

definition letter_or_digit :: "char \<Rightarrow> bool" where
  "letter_or_digit c \<longleftrightarrow>
     is_digit c \<or> 65 \<le> code c \<and> code c \<le> 90 \<or> 97 \<le> code c \<and> code c \<le> 122"

definition taskKey :: "(nat \<times> string) list \<Rightarrow> task \<Rightarrow> string option" where
  "taskKey projects t =
     (case t_number t of
        None \<Rightarrow> None
      | Some n \<Rightarrow>
          (let name = (case find (\<lambda>p. Some (fst p) = t_project_id t) projects of Some p \<Rightarrow> snd p | None \<Rightarrow> []);
               prefix = toLowerCase (take 3 (filter letter_or_digit name))
           in Some (if prefix \<noteq> [] then prefix @ nat_str n else CHR ''#'' # nat_str n)))"

definition statusSummary :: "status_row list \<Rightarrow> task list \<Rightarrow> (string \<times> nat) list" where
  "statusSummary rows ts =
     map (\<lambda>r. (s_slug r, length (filter (\<lambda>t. t_status t = s_slug r) ts))) rows"

section \<open>What the board keeps\<close>

lemma sortTasks_simps [simp]:
  "mset (sortTasks ts) = mset ts" "set (sortTasks ts) = set ts"
  "sorted (map task_key (sortTasks ts))" "length (sortTasks ts) = length ts"
  by (simp_all add: sortTasks_def)

lemma distinct_sortTasks [simp]: "distinct (map t_id (sortTasks ts)) \<longleftrightarrow> distinct (map t_id ts)"
proof -
  have "mset (map t_id (sortTasks ts)) = mset (map t_id ts)" by simp
  then show ?thesis by (rule mset_eq_imp_distinct_iff)
qed

lemma normal_task_fields [simp]: "t_id (normal_task rows t) = t_id t"
  by (simp add: normal_task_def)

lemma patch_task_id [simp]: "t_id (patch_task p t) = t_id t"
  by (cases p) simp_all

lemma replace_ids: "map t_id (map (\<lambda>t. if t_id t = t_id u then normal_task rows u else t) ts) = map t_id ts"
  by simp

text \<open>
  The board with the renders in which the handlers under way started. In a calm run the server
  lists each task once, and a created task is not in the list already when its answer comes.
\<close>

inductive board_step :: "bool \<Rightarrow> board_config \<Rightarrow> board \<times> board list \<Rightarrow> board \<times> board list \<Rightarrow> bool"
  for calm cfg where
  reloads: "board_step calm cfg (b, rs) (begin_loadTasks b, rs)"
| loaded: "calm \<longrightarrow> distinct (map t_id ts) \<Longrightarrow> board_step calm cfg (b, rs) (finish_loadTasks cfg (Ok ts) b, rs)"
| not_loaded: "board_step calm cfg (b, rs) (finish_loadTasks cfg (Throw e) b, rs)"
| statuses: "board_step calm cfg (b, rs) (b \<lparr>statusRows := rows\<rparr>, rs)"
| creates: "board_step calm cfg (b, rs) (openCreate cfg b, rs)"
| edits: "board_step calm cfg (b, rs) (beginEdit t b, rs)"
| types: "board_step calm cfg (b, rs) (b \<lparr>form := f\<rparr>, rs)"
| more: "board_step calm cfg (b, rs) (b \<lparr>createAnother := c\<rparr>, rs)"
| closes: "board_step calm cfg (b, rs) (closeForm cfg b, rs)"
| refuses: "fst (begin_save cfg b) = Refused \<Longrightarrow> board_step calm cfg (b, rs) (snd (begin_save cfg b), rs)"
| submits: "fst (begin_save cfg b) \<noteq> Refused \<Longrightarrow> board_step calm cfg (b, rs) (snd (begin_save cfg b), b # rs)"
| saved: "r \<in> set rs \<Longrightarrow> calm \<longrightarrow> editingId r = None \<longrightarrow> t_id u \<notin> t_id ` set (tasks b) \<Longrightarrow>
    board_step calm cfg (b, rs) (finish_save cfg r (Ok u) upload b, remove1 r rs)"
| not_saved: "r \<in> set rs \<Longrightarrow> board_step calm cfg (b, rs) (finish_save cfg r (Throw e) upload b, remove1 r rs)"
| patches: "board_step calm cfg (b, rs) (begin_patch t p b, b # rs)"
| patched: "r \<in> set rs \<Longrightarrow> board_step calm cfg (b, rs) (finish_patch r msg (Ok u) b, remove1 r rs)"
| not_patched: "r \<in> set rs \<Longrightarrow> board_step calm cfg (b, rs) (finish_patch r msg (Throw e) b, remove1 r rs)"
| deletes: "board_step calm cfg (b, rs) (b, b # rs)"
| deleted: "r \<in> set rs \<Longrightarrow> board_step calm cfg (b, rs) (finish_deleteTask cfg r t a b, remove1 r rs)"

lemma same_tasks [simp]:
  "tasks (begin_loadTasks b) = tasks b" "tasks (resetForm cfg b) = tasks b" "tasks (closeForm cfg b) = tasks b"
  "tasks (openCreate cfg b) = tasks b" "tasks (beginEdit t b) = tasks b"
  "tasks (snd (begin_save cfg b)) = tasks b" "tasks (saved_form cfg sent b) = tasks b"
  by (simp_all add: begin_loadTasks_def resetForm_def closeForm_def openCreate_def beginEdit_def begin_save_def
      saved_form_def)

lemma finish_save_tasks [simp]:
  "tasks (finish_save cfg sent (Ok u) upload b) = tasks (add_saved sent u b)"
  "tasks (finish_save cfg sent (Throw e) upload b) = tasks b"
  by (simp_all add: finish_save_def Let_def split: sum.split)

lemma replace_task_ids [simp]: "distinct (map t_id (replace_task rows u ts)) \<longleftrightarrow> distinct (map t_id ts)"
  by (simp add: replace_task_def replace_ids del: map_map)

lemma add_saved_ids:
  "distinct (map t_id (tasks (add_saved sent u b))) \<longleftrightarrow>
   distinct (map t_id (tasks b)) \<and> (editingId sent = None \<longrightarrow> t_id u \<notin> t_id ` set (tasks b))"
  by (auto simp: add_saved_def split: option.split)

lemma add_saved_sorted: "sorted (map task_key (tasks (add_saved sent u b)))"
  by (simp add: add_saved_def replace_task_def split: option.split)

lemma begin_patch_ids [simp]: "map t_id (map (\<lambda>x. if t_id x = t_id t then patch_task p x else x) ts) = map t_id ts"
  by simp

lemma begin_patch_distinct [simp]:
  "distinct (map t_id (tasks (begin_patch t p b))) \<longleftrightarrow> distinct (map t_id (tasks b))"
  by (simp add: begin_patch_def del: map_map)

lemma begin_patch_sorted [simp]: "sorted (map task_key (tasks (begin_patch t p b)))"
  by (simp add: begin_patch_def)

definition board_ok :: "bool \<Rightarrow> board \<Rightarrow> bool" where
  "board_ok calm b \<longleftrightarrow> sorted (map task_key (tasks b)) \<and> (calm \<longrightarrow> distinct (map t_id (tasks b)))"

lemma board_ok_tasks: "tasks b' = tasks b \<Longrightarrow> board_ok calm b' = board_ok calm b"
  by (simp add: board_ok_def)

lemma delete_ok: "board_ok calm b \<Longrightarrow> board_ok calm (finish_deleteTask cfg r t a b)"
  by (auto simp: finish_deleteTask_def Let_def board_ok_def sorted_filter distinct_map_filter split: sum.split)

lemma patched_ok: "board_ok calm b \<Longrightarrow> board_ok calm (finish_patch r msg (Ok u) b)"
  by (simp add: board_ok_def finish_patch_def replace_task_def replace_ids del: map_map)

lemma board_step_ok:
  "board_step calm cfg x y \<Longrightarrow> board_ok calm (fst x) \<and> (\<forall>r \<in> set (snd x). board_ok calm r) \<Longrightarrow>
   board_ok calm (fst y) \<and> (\<forall>r \<in> set (snd y). board_ok calm r)"
proof (induction rule: board_step.induct)
  case (loaded ts b rs)
  then show ?case by (simp add: finish_loadTasks_def board_ok_def comp_def)
next
  case (saved r rs u b upload)
  then show ?case
    by (auto simp: board_ok_def [of _ "finish_save _ _ _ _ _"] add_saved_ids add_saved_sorted board_ok_def [of _ b]
        dest: notin_set_remove1)
next
  case (patched r rs b msg u)
  then show ?case
    by (auto simp: patched_ok dest: notin_set_remove1)
next
  case (not_patched r rs b msg e)
  then show ?case by (auto simp: board_ok_def finish_patch_def dest: notin_set_remove1)
next
  case (deleted r rs b t a)
  then show ?case by (auto simp: delete_ok dest: notin_set_remove1)
qed (auto simp: board_ok_def finish_loadTasks_def dest: notin_set_remove1)

lemma board_run_ok:
  "(board_step calm cfg)\<^sup>*\<^sup>* x y \<Longrightarrow> board_ok calm (fst x) \<and> (\<forall>r \<in> set (snd x). board_ok calm r) \<Longrightarrow>
   board_ok calm (fst y) \<and> (\<forall>r \<in> set (snd y). board_ok calm r)"
proof (induction rule: rtranclp_induct)
  case (step y z)
  show ?case by (rule board_step_ok [OF step(2) step(3) [OF step(4)]])
qed

section \<open>Fingerprints\<close>

definition same_edit :: "compose \<Rightarrow> compose \<Rightarrow> bool" where
  "same_edit f g \<longleftrightarrow>
     trim (c_name f) = trim (c_name g) \<and> trim (c_description f) = trim (c_description g)
     \<and> c_priority f = c_priority g \<and> c_status f = c_status g
     \<and> c_assignedBy f = c_assignedBy g \<and> c_assignee f = c_assignee g
     \<and> c_assigneeId f = c_assigneeId g \<and> c_projectId f = c_projectId g
     \<and> c_badgeKind f = c_badgeKind g \<and> length (c_files f) = length (c_files g)"

lemma nat_str_inject [simp]: "nat_str m = nat_str n \<longleftrightarrow> m = n"
  by (metis nat_val_nat_str)

lemma json_of_nat_inject: "json_of_nat m = json_of_nat n \<longleftrightarrow> m = n"
  by (simp add: json_of_nat_def)

lemma json_id_inject: "json_id v = json_id w \<longleftrightarrow> v = w"
  by (cases v; cases w) (simp_all add: json_id_def json_of_nat_def)

lemma json_ok_id: "json_ok (json_id v)"
  by (cases v) (simp_all add: json_id_def)

lemma fingerprint_ok: "json_ok (fingerprint_json f)"
  by (simp add: fingerprint_json_def json_ok_id)

lemma fingerprint_json_eq: "fingerprint_json f = fingerprint_json g \<longleftrightarrow> same_edit f g"
  by (simp add: fingerprint_json_def same_edit_def json_of_nat_inject json_id_inject)

lemma composeFingerprint_eq: "composeFingerprint f = composeFingerprint g \<longleftrightarrow> same_edit f g"
proof -
  have "stringify (fingerprint_json f) = stringify (fingerprint_json g) \<longleftrightarrow>
      fingerprint_json f = fingerprint_json g"
    by (metis fingerprint_ok json_roundtrip sum.inject(2))
  then show ?thesis by (simp add: composeFingerprint_def fingerprint_json_eq)
qed

section \<open>Properties\<close>

text \<open>
  C33: Whatever is loaded, created, edited, moved or deleted, in whatever order the requests end, the
  list is sorted by priority and age. It holds no task twice as long as the server lists none twice
  and no created task is in the list before the answer that adds it; and that answer, applied to a
  list without doubles, lists the task twice exactly when the list holds it already: creating
  appends without looking.
\<close>

theorem board_stays_sorted:
  assumes "(board_step calm cfg)\<^sup>*\<^sup>* (board_init, []) (b, rs)"
  shows "sorted (map task_key (tasks b)) \<and> (calm \<longrightarrow> distinct (map t_id (tasks b))) \<and>
    (distinct (map t_id (tasks b)) \<and> editingId r = None \<longrightarrow>
      (distinct (map t_id (tasks (finish_save cfg r (Ok u) upload b))) \<longleftrightarrow> t_id u \<notin> t_id ` set (tasks b)))"
  using board_run_ok [OF assms] by (simp add: board_ok_def board_init_def add_saved_ids)

definition demo_task :: "nat \<Rightarrow> int \<Rightarrow> task" where
  "demo_task i p =
     \<lparr>t_id = i, t_number = Some i, t_name = ''Ship'', t_description = [], t_priority = p,
      t_status = ''to_do'', t_assigned_by = None, t_assignee = Some ''a@x'', t_assignee_id = Some 4,
      t_project_id = None, t_badge_kind = None, t_created = 0\<rparr>"

definition demo_config :: board_config where
  "demo_config =
     \<lparr>show_type = False, attachments_on = True, singular = ''Task'', lowerSingular = ''task'',
      lowerPlural = ''tasks'', is_personal = False, my_email = ''me@x''\<rparr>"

lemma sort_two [simp]: "sort_key f [a, b] = (if f a \<le> f b then [a, b] else [b, a])"
  by (simp add: sort_key_def)

text \<open>
  A task is created while the list is loaded: the list comes first and has the new task already, and
  the answer lists it again.
\<close>

definition naming :: board where
  "naming = (openCreate demo_config (begin_loadTasks board_init))
     \<lparr>form := (empty_form demo_config) \<lparr>c_name := ''Ship''\<rparr>\<rparr>"

definition listed_first :: board where
  "listed_first = finish_loadTasks demo_config (Ok [demo_task 1 4, demo_task 2 1]) (snd (begin_save demo_config naming))"

lemma listed_first_reached: "(board_step True demo_config)\<^sup>*\<^sup>* (board_init, []) (listed_first, [naming])"
proof -
  let ?step = "board_step True demo_config"
  have "?step (board_init, []) (begin_loadTasks board_init, [])" by (rule reloads)
  moreover have "?step (begin_loadTasks board_init, []) (openCreate demo_config (begin_loadTasks board_init), [])"
    by (rule creates)
  moreover have "?step (openCreate demo_config (begin_loadTasks board_init), []) (naming, [])"
    unfolding naming_def by (rule types)
  moreover have "?step (naming, []) (snd (begin_save demo_config naming), [naming])"
    by (rule submits) (simp add: naming_def begin_save_def trim_def js_space_def code_def openCreate_def resetForm_def
        begin_loadTasks_def board_init_def)
  moreover have "?step (snd (begin_save demo_config naming), [naming]) (listed_first, [naming])"
    unfolding listed_first_def by (rule loaded) (simp add: demo_task_def)
  ultimately show ?thesis by (meson r_into_rtranclp rtranclp.rtrancl_into_rtrancl)
qed

theorem board_stays_sorted_witness:
  "map t_id (tasks listed_first) = [2, 1] \<and> distinct (map t_id (tasks listed_first)) \<and>
   \<not> distinct (map t_id (tasks (finish_save demo_config naming (Ok (demo_task 2 1)) (Ok ()) listed_first)))"
proof -
  have ids: "map t_id (tasks listed_first) = [2, 1]"
    by (simp add: listed_first_def finish_loadTasks_def sortTasks_def task_key_def normal_task_def
        normalizePriority_def normalizeStatus_def demo_task_def)
  have "editingId naming = None" by (simp add: naming_def openCreate_def resetForm_def)
  moreover have "t_id (demo_task 2 1) \<in> t_id ` set (tasks listed_first)"
    using ids by (metis demo_task_def list.set_intros(1) list.set_map task.select_convs(1))
  ultimately show ?thesis
    using board_stays_sorted [OF listed_first_reached, of naming "demo_task 2 1" "Ok ()"] ids by simp
qed

text \<open>
  While a task is edited, saving is possible exactly when something that would be written differs
  from what was loaded, blanks around the name and the description apart, or files are staged.
\<close>

theorem save_enabled_iff_changed:
  "formDirty ((beginEdit t b) \<lparr>form := f\<rparr>) \<longleftrightarrow> \<not> same_edit f (loaded_form (statusRows b) t)"
  by (simp add: formDirty_def beginEdit_def composeFingerprint_eq)

text \<open>
  An inline change writes the whole task back: every field but the changed one is the one the task
  has, so nothing else is lost.
\<close>

definition stored :: "payload \<Rightarrow> task \<Rightarrow> task" where
  "stored p t =
     t \<lparr>t_name := p_name p, t_description := p_description p, t_priority := p_priority p,
        t_status := p_status p,
        t_assigned_by := (if p_assigned_by p = [] then None else Some (p_assigned_by p)),
        t_assignee := (if p_assignee p = [] then None else Some (p_assignee p)),
        t_assignee_id := p_assignee_id p, t_project_id := p_project_id p,
        t_badge_kind := nullish (p_badge_kind p) (t_badge_kind t)\<rparr>"

theorem inline_edit_changes_one_field:
  assumes "t_assigned_by t \<noteq> Some []" and "t_assignee t \<noteq> Some []"
  shows "stored (savePayloadFrom cfg t p) t = patch_task p t"
proof -
  have "(if nullish v [] = [] then None else Some (nullish v [])) = v" if "v \<noteq> Some []" for v :: "string option"
    using that by (cases v) auto
  note same = this [OF assms(1)] this [OF assms(2)]
  show ?thesis
    by (cases p) (simp_all add: stored_def savePayloadFrom_def same del: split_paired_All cong: if_cong)
qed

theorem inline_edit_changes_one_field_witness:
  "stored (savePayloadFrom demo_config (demo_task 1 4) (SetStatus ''done'')) (demo_task 1 4) =
   patch_task (SetStatus ''done'') (demo_task 1 4)"
  by (rule inline_edit_changes_one_field) (simp_all add: demo_task_def)

lemma rev_sorted_map: "sorted (map f xs) \<Longrightarrow> sorted (rev (map f (rev xs)))"
  by (simp add: rev_map)

text \<open>
  A column sort lists the same tasks, in the order of the column or in the reverse order, and keeps
  the order the list had among equal rows, downwards as well.
\<close>

theorem sortForTable_sorts_stably:
  assumes "sortKey f = Some k"
  shows "mset (sortForTable rows users f ts) = mset ts \<and>
    (if ascending f then sorted (map (keyOf rows users k) (sortForTable rows users f ts))
     else sorted (rev (map (keyOf rows users k) (sortForTable rows users f ts)))) \<and>
    filter (\<lambda>t. keyOf rows users k t = v) (sortForTable rows users f ts) =
      filter (\<lambda>t. keyOf rows users k t = v) ts"
proof -
  have stable: "filter (\<lambda>t. keyOf rows users k t = v) (sort_key (keyOf rows users k) xs) =
      filter (\<lambda>t. keyOf rows users k t = v) xs" for xs
    by (rule sort_key_stable)
  show ?thesis
    using assms by (simp add: sortForTable_def rev_map stable rev_filter [symmetric])
qed

theorem sortForTable_sorts_stably_witness:
  "map t_id (filter (\<lambda>t. keyOf [] [] ByPriority t = (2, []))
      (sortForTable [] [] \<lparr>query = [], statusFilter = [], priorityFilter = None, dateMode = AnyDate,
         day_from = None, day_to = None, sortKey = Some ByPriority, ascending = False\<rparr>
        [demo_task 1 2, demo_task 2 1, demo_task 3 2])) = [1, 3]"
  by (subst sortForTable_sorts_stably [THEN conjunct2, THEN conjunct2])
    (simp_all add: keyOf_def demo_task_def)

text \<open>With no filter counted on the button and no search text, nothing is hidden.\<close>

theorem uncounted_filters_hide_nothing:
  assumes "activeFilterCount f = 0" and "query f = []"
  shows "filteredTasks f b = tasks b"
  using assms
  by (simp add: activeFilterCount_def filteredTasks_def visible_task_def matches_query_def inDateRange_def
      filter_True split: if_splits)

theorem uncounted_filters_hide_nothing_witness:
  "filteredTasks (clearFilters \<lparr>query = [], statusFilter = [''x''], priorityFilter = Some 2, dateMode = After,
       day_from = Some 5, day_to = None, sortKey = None, ascending = True\<rparr>)
     (board_init \<lparr>tasks := [demo_task 1 4]\<rparr>) = [demo_task 1 4]"
  by (subst uncounted_filters_hide_nothing)
    (simp_all add: clearFilters_def activeFilterCount_def)

text \<open>
  An inline change that fails puts back the list as it was when it began: a change made and
  confirmed meanwhile disappears from the board, though the server has it.
\<close>

theorem failed_patch_undoes_other:
  assumes "distinct (map t_id (tasks b))" and "u \<in> set (tasks b)" and "t_id v = t_id u" and "v \<noteq> u"
  shows "let b1 = begin_patch t p b;
      b2 = finish_patch b1 msg (Ok v) (begin_patch u q b1);
      b3 = finish_patch b msg (Throw e) b2 in
    tasks b3 = tasks b \<and> v \<notin> set (tasks b3) \<and> u \<in> set (tasks b3)"
proof -
  have "v \<notin> set (tasks b)"
    using assms by (metis distinct_map inj_onD)
  with assms(2) show ?thesis by (simp add: Let_def finish_patch_def)
qed

definition two_tasks :: board where
  "two_tasks = board_init \<lparr>tasks := [demo_task 1 2, demo_task 2 3]\<rparr>"

theorem failed_patch_undoes_other_witness:
  "let b1 = begin_patch (demo_task 1 2) (SetStatus ''done'') two_tasks;
      b2 = finish_patch b1 [] (Ok ((demo_task 2 3)\<lparr>t_status := ''review''\<rparr>))
        (begin_patch (demo_task 2 3) (SetStatus ''review'') b1);
      b3 = finish_patch two_tasks [] (Throw (Error [])) b2 in
    tasks b3 = tasks two_tasks \<and> (demo_task 2 3)\<lparr>t_status := ''review''\<rparr> \<notin> set (tasks b3) \<and>
    demo_task 2 3 \<in> set (tasks b3)"
  by (rule failed_patch_undoes_other) (simp_all add: two_tasks_def demo_task_def)

text \<open>
  When a new task is saved but its files are not, the form stays open for another try; but it still
  creates, so the try makes a second task.
\<close>

theorem retry_creates_second_task:
  assumes "editingId b = None" and "attachments_on cfg" and "c_files (form b) \<noteq> []"
    and "trim (c_name (form b)) \<noteq> []"
  shows "let b1 = finish_save cfg b (Ok u) (Throw e) (snd (begin_save cfg b)) in
    normal_task (statusRows b) u \<in> set (tasks b1) \<and> fst (begin_save cfg b1) = Create (form_payload cfg b)"
  using assms
  by (simp add: begin_save_def finish_save_def add_saved_def form_payload_def composeStatus_def Let_def
      split: list.split)

definition file_form :: board where
  "file_form = (openCreate demo_config board_init)
     \<lparr>form := (empty_form demo_config) \<lparr>c_name := ''Ship'', c_files := [''a.png'']\<rparr>\<rparr>"

theorem retry_creates_second_task_witness:
  "let b1 = finish_save demo_config file_form (Ok (demo_task 1 3)) (Throw (Error [])) (snd (begin_save demo_config file_form)) in
    normal_task (statusRows file_form) (demo_task 1 3) \<in> set (tasks b1) \<and>
    fst (begin_save demo_config b1) = Create (form_payload demo_config file_form)"
  by (rule retry_creates_second_task)
    (simp_all add: file_form_def demo_config_def openCreate_def resetForm_def trim_def js_space_def code_def)

text \<open>
  The list is loaded with the rows of the first render, none, so a status the organisation does not
  have is kept as it is, and the task is in no column of the board.
\<close>

theorem loaded_status_unchecked:
  assumes "t \<in> set ts" and "t_status t \<notin> s_slug ` set (statusRows b)"
  shows "\<exists>x \<in> set (tasks (finish_loadTasks cfg (Ok ts) b)). t_id x = t_id t \<and>
    (\<forall>r \<in> set (statusRows b). x \<notin> set (board_column (tasks (finish_loadTasks cfg (Ok ts) b)) r))"
proof -
  have "t_status (normal_task [] t) = t_status t" by (simp add: normal_task_def normalizeStatus_def)
  then show ?thesis
    using assms by (intro bexI [of _ "normal_task [] t"]) (auto simp: finish_loadTasks_def board_column_def)
qed

theorem loaded_status_unchecked_witness:
  "\<exists>x \<in> set (tasks (finish_loadTasks demo_config (Ok [demo_task 1 3]) (board_init \<lparr>statusRows := [UNKNOWN_STATUS ''open'']\<rparr>))).
    t_id x = t_id (demo_task 1 3) \<and>
    (\<forall>r \<in> set (statusRows (board_init \<lparr>statusRows := [UNKNOWN_STATUS ''open'']\<rparr>)).
      x \<notin> set (board_column (tasks (finish_loadTasks demo_config (Ok [demo_task 1 3])
        (board_init \<lparr>statusRows := [UNKNOWN_STATUS ''open'']\<rparr>))) r))"
  by (rule loaded_status_unchecked) (simp_all add: demo_task_def UNKNOWN_STATUS_def)

text \<open>
  When the statuses arrive after the tasks, the split is not made again: finished tasks stay among
  the active ones until the list changes.
\<close>

theorem stale_split:
  assumes "t \<in> set (snd ts)" and "finished rows t"
  shows "t \<in> set (activeTasks ts rows (Some (fst ts, []))) \<and> t \<notin> set (active_tasks rows (snd ts))"
  using assms
  by (simp add: activeTasks_def active_tasks_def memo_rows_def finished_def lookupStatus_def UNKNOWN_STATUS_def
      isTerminalCategory_def TERMINAL_CATEGORIES_def)

theorem stale_split_witness:
  "demo_task 1 3 \<in> set (activeTasks (0, [demo_task 1 3])
      [\<lparr>s_slug = ''to_do'', s_name = ''Done'', s_category = ''completed''\<rparr>] (Some (fst (0, [demo_task 1 3]), []))) \<and>
   demo_task 1 3 \<notin> set (active_tasks [\<lparr>s_slug = ''to_do'', s_name = ''Done'', s_category = ''completed''\<rparr>]
      (snd (0::nat, [demo_task 1 3])))"
  by (rule stale_split)
    (simp_all add: finished_def lookupStatus_def demo_task_def isTerminalCategory_def TERMINAL_CATEGORIES_def)

text \<open>A new task starts on \<open>to_do\<close>, whatever statuses the organisation has.\<close>

theorem new_task_ignores_statuses:
  "p_status (form_payload cfg (openCreate cfg b)) = ''to_do''"
  by (simp add: form_payload_def openCreate_def resetForm_def empty_form_def composeStatus_def Let_def)

end
