(* ===== verification/Compose_Mail.thy ===== *)
theory Compose_Mail
  imports Mail_Encryption Secure_Send "HOL-Library.Multiset"
begin

text \<open>
  Composing a mail: \<open>emails/SendEmail.tsx\<close>. A mail leaves over one of three channels, the standard
  mailbox, the encrypted envelope between accounts, or a link to a sealed message; the requests
  made are a list in their order. What the server answers to each, the drawn keys and vectors and
  the text an error carries are arguments. The handler sees the form as it was when the button
  was pressed, and what it sets at the end is set on the form as it then is.
\<close>

section \<open>Recipients\<close>

definition recipient_sep :: "char \<Rightarrow> bool" where
  "recipient_sep c \<longleftrightarrow> c = CHR '','' \<or> c = CHR '';'' \<or> js_space c"

text \<open>\<open>raw.split(/[,;\s]+/)\<close>: the pieces between the runs of separators.\<close>

function split_runs :: "string \<Rightarrow> string list" where
  "split_runs s =
     (let rest = dropWhile (\<lambda>c. \<not> recipient_sep c) s;
          piece = takeWhile (\<lambda>c. \<not> recipient_sep c) s
      in if rest = [] then [piece] else piece # split_runs (dropWhile recipient_sep rest))"
  by pat_completeness auto

lemma dropWhile_len: "length (dropWhile P s) \<le> length s"
  by (induction s) auto

termination split_runs
proof (relation "measure length")
  fix rest piece s
  assume r: "rest = dropWhile (\<lambda>c. \<not> recipient_sep c) s" "rest \<noteq> []"
  then obtain c t where ct: "rest = c # t" by (cases rest) (simp, blast)
  have "recipient_sep c" using hd_dropWhile_js [of "\<lambda>c. \<not> recipient_sep c" s] r ct by (metis list.sel(1) list.distinct(1))
  then have "length (dropWhile recipient_sep rest) \<le> length t" using ct dropWhile_len by simp
  also have "length t < length rest" using ct by simp
  also have "length rest \<le> length s" using r dropWhile_len by simp
  finally show "(dropWhile recipient_sep rest, s) \<in> measure length" by simp
qed simp

declare split_runs.simps [simp del]

definition parseRecipients :: "string \<Rightarrow> string list" where
  "parseRecipients raw = filter (\<lambda>s. length s > 0) (map trim (split_runs raw))"

text \<open>The two loops of \<open>currentRecipientToken\<close>; the caret is at most the length.\<close>

fun token_start :: "string \<Rightarrow> nat \<Rightarrow> nat" where
  "token_start v 0 = 0"
| "token_start v (Suc i) = (if \<not> recipient_sep (v ! i) then token_start v i else Suc i)"

function token_end :: "string \<Rightarrow> nat \<Rightarrow> nat" where
  "token_end v i = (if i < length v \<and> \<not> recipient_sep (v ! i) then token_end v (i + 1) else i)"
  by pat_completeness auto

termination token_end
  by (relation "measure (\<lambda>(v, i). length v - i)") auto

declare token_end.simps [simp del]

definition js_slice :: "nat \<Rightarrow> nat \<Rightarrow> string \<Rightarrow> string" where
  "js_slice i j s = take (j - i) (drop i s)"

definition currentRecipientToken :: "string \<Rightarrow> nat \<Rightarrow> string \<times> nat \<times> nat" where
  "currentRecipientToken v caret =
     (let i = token_start v caret; j = token_end v caret in (js_slice i j v, i, j))"

section \<open>The form\<close>

datatype encryption_mode = Standard | E2e | Pgp

text \<open>A picked file, with what reading it as a data URL will give.\<close>

record compose_file =
  file_name :: string
  file_size :: nat
  file_type :: string
  file_url :: "string result"

record mail_attachment =
  att_filename :: string
  att_mime :: string
  att_content :: string

definition MAX_ATTACHMENTS_BYTES :: nat where
  "MAX_ATTACHMENTS_BYTES = 25 * 1024 * 1024"

definition fileToBase64 :: "compose_file \<Rightarrow> string result" where
  "fileToBase64 f =
     bind_result (file_url f) (\<lambda>url. Ok (case indexOf (CHR '','') url of
        Some comma \<Rightarrow> drop (comma + 1) url | None \<Rightarrow> url))"

fun filesToAttachments :: "compose_file list \<Rightarrow> mail_attachment list result" where
  "filesToAttachments [] = Ok []"
| "filesToAttachments (f # fs) =
     bind_result (fileToBase64 f) (\<lambda>content.
     bind_result (filesToAttachments fs) (\<lambda>rest.
     Ok (\<lparr>att_filename = file_name f,
          att_mime = (if file_type f = [] then ''application/octet-stream'' else file_type f),
          att_content = content\<rparr> # rest)))"

record contact =
  contact_address :: string
  contact_name :: "string option"

record mail_form =
  fromAccountId :: nat
  to_field :: string
  mail_subject :: string
  mail_text_field :: string
  secureSend :: bool
  passphrase :: string
  fluxzeOnly :: bool
  encryptionMode :: encryption_mode
  attachments :: "compose_file list"
  send_status :: string
  statusSticky :: bool
  sending :: bool
  sent_calls :: nat
  closing :: bool
  contactQuery :: "string option"
  contactRange :: "nat \<times> nat"
  contactSuggestions :: "contact list"
  contactIndex :: nat
  contactReqId :: nat
  contactTimer :: "(nat \<times> string) option"
  contactAsked :: "(nat \<times> string) list"

definition compose_init :: "nat \<Rightarrow> mail_form" where
  "compose_init accountId =
     \<lparr>fromAccountId = accountId, to_field = [], mail_subject = [], mail_text_field = [],
      secureSend = False, passphrase = [], fluxzeOnly = False, encryptionMode = Standard,
      attachments = [], send_status = [], statusSticky = False, sending = False, sent_calls = 0,
      closing = False, contactQuery = None, contactRange = (0, 0), contactSuggestions = [],
      contactIndex = 0, contactReqId = 0, contactTimer = None, contactAsked = []\<rparr>"

text \<open>The warning and tick signs of the messages are outside Latin-1.\<close>

definition warning_sign :: string where "warning_sign = ''(!)''"
definition tick_sign :: string where "tick_sign = ''(ok)''"

definition total_size :: "compose_file list \<Rightarrow> nat" where
  "total_size fs = sum_list (map file_size fs)"

definition onPickFiles :: "compose_file list \<Rightarrow> mail_form \<Rightarrow> mail_form" where
  "onPickFiles picked c =
     (if picked = [] then c
      else if total_size (attachments c @ picked) > MAX_ATTACHMENTS_BYTES
      then c \<lparr>send_status := ''Attachments exceed the 25 MB limit '' @ warning_sign\<rparr>
      else c \<lparr>attachments := attachments c @ picked\<rparr>)"

definition removeAttachment :: "nat \<Rightarrow> mail_form \<Rightarrow> mail_form" where
  "removeAttachment i c = c \<lparr>attachments := take i (attachments c) @ drop (i + 1) (attachments c)\<rparr>"

definition blockSend :: "string \<Rightarrow> mail_form \<Rightarrow> mail_form" where
  "blockSend m c = c \<lparr>statusSticky := True, send_status := m\<rparr>"

definition clearBlockingStatus :: "mail_form \<Rightarrow> mail_form" where
  "clearBlockingStatus c =
     c \<lparr>send_status := (if statusSticky c then [] else send_status c), statusSticky := False\<rparr>"

text \<open>The timer of three seconds.\<close>

definition status_expires :: "mail_form \<Rightarrow> mail_form" where
  "status_expires c = (if send_status c = [] \<or> statusSticky c then c else c \<lparr>send_status := []\<rparr>)"

definition toggle_e2e :: "mail_form \<Rightarrow> mail_form" where
  "toggle_e2e c = c \<lparr>encryptionMode := (if encryptionMode c = E2e then Standard else E2e)\<rparr>"

definition set_fluxze_only :: "bool \<Rightarrow> mail_form \<Rightarrow> mail_form" where
  "set_fluxze_only b c = clearBlockingStatus (c \<lparr>fluxzeOnly := b\<rparr>)"

definition set_secure_send :: "bool \<Rightarrow> mail_form \<Rightarrow> mail_form" where
  "set_secure_send b c = c \<lparr>secureSend := b, fluxzeOnly := (if b then False else fluxzeOnly c)\<rparr>"

section \<open>Suggested contacts\<close>

text \<open>
  A changed query clears the timer of the one before it; a query of at least two characters
  starts its own, under the next number.
\<close>

definition set_query :: "string option \<Rightarrow> mail_form \<Rightarrow> mail_form" where
  "set_query q c =
     (if q = contactQuery c then c
      else case q of
        Some t \<Rightarrow>
          if length (trim t) < 2 then c \<lparr>contactQuery := q, contactTimer := None\<rparr>
          else c \<lparr>contactQuery := q, contactReqId := contactReqId c + 1,
                  contactTimer := Some (contactReqId c + 1, t)\<rparr>
      | None \<Rightarrow> c \<lparr>contactQuery := None, contactTimer := None\<rparr>)"

definition search_fires :: "mail_form \<Rightarrow> mail_form" where
  "search_fires c =
     (case contactTimer c of
        None \<Rightarrow> c
      | Some r \<Rightarrow> c \<lparr>contactTimer := None, contactAsked := contactAsked c @ [r]\<rparr>)"

definition search_answers :: "nat \<Rightarrow> contact list result \<Rightarrow> mail_form \<Rightarrow> mail_form" where
  "search_answers mine r c =
     (if mine \<noteq> contactReqId c then c
      else case r of
        Ok rows \<Rightarrow> c \<lparr>contactSuggestions := take 6 rows, contactIndex := 0\<rparr>
      | Throw e \<Rightarrow> c \<lparr>contactSuggestions := []\<rparr>)"

definition contactOpen :: "mail_form \<Rightarrow> bool" where
  "contactOpen c \<longleftrightarrow>
     (case contactQuery c of None \<Rightarrow> False | Some q \<Rightarrow> length (trim q) \<ge> 2) \<and> contactSuggestions c \<noteq> []"

definition contactHighlighted :: "mail_form \<Rightarrow> nat" where
  "contactHighlighted c = min (contactIndex c) (length (contactSuggestions c) - 1)"

definition syncContactToken :: "nat option \<Rightarrow> mail_form \<Rightarrow> mail_form" where
  "syncContactToken selectionStart c =
     (case currentRecipientToken (to_field c) (nullish selectionStart (length (to_field c))) of
        (token, i, j) \<Rightarrow>
          if length token \<ge> 2 then (set_query (Some token) c) \<lparr>contactRange := (i, j)\<rparr>
          else set_query None c)"

definition edit_to :: "string \<Rightarrow> nat option \<Rightarrow> mail_form \<Rightarrow> mail_form" where
  "edit_to v selectionStart c =
     clearBlockingStatus (syncContactToken selectionStart (c \<lparr>to_field := v\<rparr>))"

definition applyContact :: "string \<Rightarrow> mail_form \<Rightarrow> mail_form" where
  "applyContact address c =
     (let before = take (fst (contactRange c)) (to_field c);
          after = drop (snd (contactRange c)) (to_field c)
      in (set_query None (c \<lparr>to_field := before @ (address @ '', '') @ after\<rparr>))
           \<lparr>contactSuggestions := []\<rparr>)"

datatype menu_key = ArrowDown | ArrowUp | Enter | Tab | Escape

definition contact_key :: "menu_key \<Rightarrow> mail_form \<Rightarrow> mail_form" where
  "contact_key k c =
     (if \<not> contactOpen c then c
      else let n = length (contactSuggestions c) in
      case k of
        ArrowDown \<Rightarrow> c \<lparr>contactIndex := (contactIndex c + 1) mod n\<rparr>
      | ArrowUp \<Rightarrow> c \<lparr>contactIndex := (contactIndex c + n - 1) mod n\<rparr>
      | Escape \<Rightarrow> set_query None c
      | _ \<Rightarrow> applyContact (contact_address (contactSuggestions c ! contactHighlighted c)) c)"

section \<open>Sending\<close>

record wayve_recipient =
  wr_id :: nat
  public_key :: "bytes option"

record sender =
  sender_id :: nat
  sender_email :: string
  plan_tier :: "string option"

datatype outgoing =
    StandardMail nat string string string "mail_attachment list option"
  | NativeMail "nat list" string string
  | SecureLink string string secure_bundle

text \<open>What a send draws, and what it is answered, by the position of the request.\<close>

record 'aes send_draws =
  message_key :: 'aes
  message_iv :: bytes
  link_salt :: bytes
  link_key :: bytes
  link_iv :: bytes

record send_answers =
  lookup_answer :: "nat \<Rightarrow> wayve_recipient option result"
  native_answer :: "nat result"
  standard_answer :: "nat \<Rightarrow> unit result"
  link_answer :: "nat \<Rightarrow> unit result"

text \<open>
  How a send ends: a refusal, an exception, or the counts and errors of the channels. A rejection is
  an error with a message, as all of the request layer and the browser are, so the texts the code
  keeps for other rejections do not occur.
\<close>

datatype send_end =
    Blocked string
  | Failed js_error
  | LinksSent nat "string list"
  | MailsSent nat nat "string list"

text \<open>The refusals before anything is asked of the server, with whether they stay on screen.\<close>

definition send_refused :: "mail_form \<Rightarrow> (bool \<times> string) option" where
  "send_refused c =
     (if parseRecipients (to_field c) = [] \<or> mail_subject c = [] \<or> mail_text_field c = []
      then Some (False, ''Please fill all fields '' @ warning_sign)
      else if secureSend c \<and> length (passphrase c) < 6
      then Some (False, ''Passphrase must be at least 6 characters '' @ warning_sign)
      else if secureSend c \<and> length (attachments c) > 0
      then Some (False, ''Secure send can't include attachments '' @ em_dash
                   @ '' remove them or turn off Secure send '' @ warning_sign)
      else if fluxzeOnly c \<and> length (attachments c) > 0
      then Some (True, ''Fluxze-only can't include attachments '' @ em_dash
                   @ '' remove them or turn off Fluxze-only '' @ warning_sign)
      else None)"

definition begin_mail :: "mail_form \<Rightarrow> mail_form \<times> bool" where
  "begin_mail c =
     (case send_refused c of
        Some (True, m) \<Rightarrow> (blockSend m c, False)
      | Some (False, m) \<Rightarrow> (c \<lparr>send_status := m\<rparr>, False)
      | None \<Rightarrow> (c \<lparr>sending := True, send_status := [], statusSticky := False\<rparr>, True))"

definition answer_errors :: "(js_error \<Rightarrow> string) \<Rightarrow> (nat \<Rightarrow> unit result) \<Rightarrow> string list \<Rightarrow> string list" where
  "answer_errors says answer rs =
     concat (map (\<lambda>(i, r). case answer i of Throw e \<Rightarrow> [r @ '': '' @ says e] | Ok u \<Rightarrow> [])
       (enumerate 0 rs))"

definition send_links ::
  "('aes, 'pub, 'priv) webcrypto \<Rightarrow> (js_error \<Rightarrow> string) \<Rightarrow> 'aes send_draws \<Rightarrow> send_answers \<Rightarrow> mail_form
   \<Rightarrow> outgoing list \<times> send_end" where
  "send_links wc says g a c =
     (case sealSecureMessage wc (link_salt g) (link_key g) (link_iv g) (mail_text_field c) (passphrase c) of
        Throw e \<Rightarrow> ([], Failed e)
      | Ok bundle \<Rightarrow>
          let recipients = parseRecipients (to_field c);
              secureErrors = answer_errors says (link_answer a) recipients
          in (map (\<lambda>r. SecureLink r (mail_subject c) bundle) recipients,
              LinksSent (length recipients - length secureErrors) secureErrors))"

record lookup =
  lk_email :: string
  lk_user :: "wayve_recipient option"
  lk_failed :: bool

text \<open>\<open>getUserByEmail\<close> asks only for an address that is not blank.\<close>

definition getUserByEmail :: "send_answers \<Rightarrow> nat \<Rightarrow> string \<Rightarrow> wayve_recipient option result" where
  "getUserByEmail a i email = (if trim email = [] then Ok None else lookup_answer a i)"

definition lookups :: "send_answers \<Rightarrow> bool \<Rightarrow> string list \<Rightarrow> lookup list" where
  "lookups a needsLookup recipients =
     (if \<not> needsLookup then map (\<lambda>e. \<lparr>lk_email = e, lk_user = None, lk_failed = False\<rparr>) recipients
      else map (\<lambda>(i, e). case getUserByEmail a i e of
             Ok u \<Rightarrow> \<lparr>lk_email = e, lk_user = u, lk_failed = False\<rparr>
           | Throw err \<Rightarrow> \<lparr>lk_email = e, lk_user = None, lk_failed = True\<rparr>) (enumerate 0 recipients))"

text \<open>A user with a key that is not empty takes the native channel; all others are external.\<close>

definition native_user :: "lookup \<Rightarrow> (nat \<times> bytes) option" where
  "native_user l =
     (case lk_user l of
        None \<Rightarrow> None
      | Some u \<Rightarrow>
          (case public_key u of
             Some (b # bs) \<Rightarrow> Some (wr_id u, b # bs)
           | _ \<Rightarrow> None))"

definition wayve_lookups :: "lookup list \<Rightarrow> (string \<times> nat \<times> bytes) list" where
  "wayve_lookups ls = List.map_filter (\<lambda>l. map_option (\<lambda>u. (lk_email l, u)) (native_user l)) ls"

definition external_emails :: "lookup list \<Rightarrow> string list" where
  "external_emails ls = map lk_email (filter (\<lambda>l. native_user l = None) ls)"

definition fluxze_refusal :: "lookup list \<Rightarrow> string" where
  "fluxze_refusal ls =
     (let unresolved = map lk_email (filter lk_failed ls);
          notOnFluxze = filter (\<lambda>e. e \<notin> set unresolved) (external_emails ls);
          reasons = (if notOnFluxze \<noteq> [] then [''not Fluxze accounts: '' @ join '', '' notOnFluxze] else [])
            @ (if unresolved \<noteq> [] then [''couldn't be verified: '' @ join '', '' unresolved] else [])
      in ''Nothing sent '' @ em_dash @ '' Fluxze-only is on and '' @ join ''; '' reasons
         @ ''. Remove them, or turn off Fluxze-only to send a regular email '' @ warning_sign)"

definition no_account_refusal :: string where
  "no_account_refusal = ''Nothing sent '' @ em_dash
     @ '' couldn't resolve your Fluxze account. Reload and try again '' @ warning_sign"

text \<open>The envelope, sealed for the recipients and for the sender's own key on this device.\<close>

definition own_key :: "key_db \<Rightarrow> sender \<Rightarrow> (nat \<times> bytes) list \<times> key_db" where
  "own_key db s =
     (case or_else (None, db) (loadPublicKey (Some (sender_id s)) (Some (sender_email s)) db) of
        (Some k, db1) \<Rightarrow> ([(sender_id s, k)], db1)
      | (None, db1) \<Rightarrow> ([], db1))"

definition native_envelope ::
  "('aes, 'pub, 'priv) webcrypto \<Rightarrow> 'aes send_draws \<Rightarrow> key_db \<Rightarrow> sender \<Rightarrow> (string \<times> nat \<times> bytes) list
   \<Rightarrow> string \<Rightarrow> string result \<times> key_db" where
  "native_envelope wc g db s wayve body =
     (if plan_tier s = Some ''enterprise'' then (Ok body, db)
      else
        case own_key db s of (own, db1) \<Rightarrow>
          (buildInternalEnvelope wc (message_key g) (message_iv g) body (map snd wayve @ own), db1))"

definition send_native ::
  "('aes, 'pub, 'priv) webcrypto \<Rightarrow> (js_error \<Rightarrow> string) \<Rightarrow> 'aes send_draws \<Rightarrow> send_answers \<Rightarrow> key_db \<Rightarrow> sender
   \<Rightarrow> (string \<times> nat \<times> bytes) list \<Rightarrow> mail_form \<Rightarrow> outgoing list \<times> nat \<times> string list \<times> key_db" where
  "send_native wc says g a db s wayve c =
     (case native_envelope wc g db s wayve (mail_text_field c) of
        (Throw e, db1) \<Rightarrow> ([], 0, [''Wayve recipients: '' @ says e], db1)
      | (Ok envelope, db1) \<Rightarrow>
          ([NativeMail (map (fst \<circ> snd) wayve) envelope (mail_subject c)],
           or_else 0 (native_answer a),
           (case native_answer a of Throw e \<Rightarrow> [''Wayve recipients: '' @ says e] | Ok n \<Rightarrow> []), db1))"

definition send_standard ::
  "(js_error \<Rightarrow> string) \<Rightarrow> send_answers \<Rightarrow> mail_attachment list option \<Rightarrow> string list \<Rightarrow> mail_form
   \<Rightarrow> outgoing list \<times> nat \<times> string list" where
  "send_standard says a files external c =
     (let errors = answer_errors says (standard_answer a) external
      in (map (\<lambda>r. StandardMail (fromAccountId c) r (mail_subject c) (mail_text_field c) files) external,
          length external - length errors, errors))"

definition needs_lookup :: "mail_form \<Rightarrow> bool" where
  "needs_lookup c \<longleftrightarrow> (encryptionMode c = E2e \<or> fluxzeOnly c) \<and> \<not> length (attachments c) > 0"

definition send_mails ::
  "('aes, 'pub, 'priv) webcrypto \<Rightarrow> (js_error \<Rightarrow> string) \<Rightarrow> 'aes send_draws \<Rightarrow> send_answers \<Rightarrow> key_db
   \<Rightarrow> sender option \<Rightarrow> mail_form \<Rightarrow> outgoing list \<times> send_end \<times> key_db" where
  "send_mails wc says g a db user c =
     (case (if length (attachments c) > 0 then map_sum id Some (filesToAttachments (attachments c)) else Ok None) of
        Throw e \<Rightarrow> ([], Failed e, db)
      | Ok files \<Rightarrow>
          let ls = lookups a (needs_lookup c) (parseRecipients (to_field c));
              wayve = wayve_lookups ls; external = external_emails ls
          in if fluxzeOnly c \<and> external \<noteq> [] then ([], Blocked (fluxze_refusal ls), db)
             else (case user of
               None \<Rightarrow>
                 if wayve \<noteq> [] \<and> fluxzeOnly c
                 then ([], Blocked no_account_refusal, db)
                 else (case send_standard says a files (external @ map fst wayve) c of
                         (out, n, errors) \<Rightarrow> (out, MailsSent 0 n errors, db))
             | Some s \<Rightarrow>
                 (case (if wayve \<noteq> [] then send_native wc says g a db s wayve c else ([], 0, [], db)) of
                    (out1, n1, errors1, db1) \<Rightarrow>
                      (case send_standard says a files external c of
                         (out2, n2, errors2) \<Rightarrow> (out1 @ out2, MailsSent n1 n2 (errors1 @ errors2), db1)))))"

definition deliver ::
  "('aes, 'pub, 'priv) webcrypto \<Rightarrow> (js_error \<Rightarrow> string) \<Rightarrow> 'aes send_draws \<Rightarrow> send_answers \<Rightarrow> key_db
   \<Rightarrow> sender option \<Rightarrow> mail_form \<Rightarrow> outgoing list \<times> send_end \<times> key_db" where
  "deliver wc says g a db user c =
     (if secureSend c then (case send_links wc says g a c of (out, e) \<Rightarrow> (out, e, db))
      else send_mails wc says g a db user c)"

definition plural :: "nat \<Rightarrow> string \<Rightarrow> string" where
  "plural n word = word @ (if n = 1 then [] else ''s'')"

definition links_report :: "nat \<Rightarrow> string" where
  "links_report n = ''Secure link sent to '' @ nat_str n @ '' '' @ plural n ''recipient'' @ '' '' @ em_dash
     @ '' share the passphrase out-of-band '' @ tick_sign"

definition mails_report :: "nat \<Rightarrow> nat \<Rightarrow> string option" where
  "mails_report i e =
     (if i > 0 \<and> e > 0
      then Some (''Sent E2E to '' @ nat_str i @ '' Fluxze '' @ plural i ''user'' @ '' + standard mail to ''
             @ nat_str e @ '' external '' @ plural e ''recipient'' @ '' '' @ tick_sign)
      else if i > 0
      then Some (''Sent end-to-end to '' @ nat_str i @ '' Fluxze '' @ plural i ''user'' @ '' via Fluxze '' @ tick_sign)
      else if e > 0
      then Some (''Email sent successfully to '' @ nat_str e @ '' '' @ plural e ''recipient'' @ '' '' @ tick_sign)
      else None)"

text \<open>
  The end of the handler; \<open>c0\<close> is the form of the click, whose status text the report of errors
  starts with.
\<close>

definition error_report :: "mail_form \<Rightarrow> string list \<Rightarrow> string" where
  "error_report c0 errors = send_status c0 @ '' '' @ warning_sign @ '' '' @ join ''; '' errors"

definition all_sent :: "mail_form \<Rightarrow> mail_form" where
  "all_sent c = c \<lparr>sent_calls := sent_calls c + 1, closing := True\<rparr>"

definition finish_mail :: "(js_error \<Rightarrow> string) \<Rightarrow> mail_form \<Rightarrow> send_end \<Rightarrow> mail_form \<Rightarrow> mail_form" where
  "finish_mail says c0 e c =
     (case e of
        Blocked m \<Rightarrow> blockSend m c
      | Failed err \<Rightarrow> c \<lparr>send_status := says err\<rparr>
      | LinksSent n errors \<Rightarrow>
          let c1 = (if n > 0 then c \<lparr>send_status := links_report n\<rparr> else c)
          in if errors \<noteq> [] then c1 \<lparr>send_status := error_report c0 errors\<rparr>
             else all_sent (c1 \<lparr>to_field := [], mail_subject := [], mail_text_field := [],
                               passphrase := [], secureSend := False\<rparr>)
      | MailsSent i x errors \<Rightarrow>
          let c1 = (case mails_report i x of Some m \<Rightarrow> c \<lparr>send_status := m\<rparr> | None \<Rightarrow> c)
          in if errors \<noteq> [] then c1 \<lparr>send_status := error_report c0 errors\<rparr>
             else all_sent (c1 \<lparr>to_field := [], mail_subject := [], mail_text_field := [],
                               attachments := []\<rparr>)) \<lparr>sending := False\<rparr>"

section \<open>The recipients of a text\<close>

lemma split_runs_free [simp]:
  "\<forall>x \<in> set p. \<not> recipient_sep x \<Longrightarrow> split_runs p = [p]"
  by (subst split_runs.simps) (simp add: dropWhile_eq_Nil_conv takeWhile_eq_all_conv Let_def)

lemma split_runs_sep:
  "\<forall>x \<in> set p. \<not> recipient_sep x \<Longrightarrow> recipient_sep c
   \<Longrightarrow> split_runs (p @ c # s) = p # split_runs (dropWhile recipient_sep s)"
  by (subst split_runs.simps) (simp add: takeWhile_append2 dropWhile_append2 Let_def)

lemma js_space_sep: "js_space c \<Longrightarrow> recipient_sep c"
  by (simp add: recipient_sep_def)

lemma trim_free: "\<forall>x \<in> set p. \<not> recipient_sep x \<Longrightarrow> trim p = p"
  by (rule trim_trimmed) (auto simp: trimmed_def dest: js_space_sep)

lemma parseRecipients_drop [simp]: "parseRecipients (dropWhile recipient_sep s) = parseRecipients s"
proof (cases s)
  case (Cons c t)
  then show ?thesis
    using split_runs_sep [of "[]" c t] by (cases "recipient_sep c") (simp_all add: parseRecipients_def trim_def)
qed simp

lemma parseRecipients_word:
  assumes "\<forall>x \<in> set p. \<not> recipient_sep x"
  shows "parseRecipients p = (if p = [] then [] else [p])"
  using assms by (simp add: parseRecipients_def trim_free)

lemma parseRecipients_step:
  assumes "\<forall>x \<in> set p. \<not> recipient_sep x" "recipient_sep c"
  shows "parseRecipients (p @ c # s) = parseRecipients p @ parseRecipients s"
proof -
  have "parseRecipients (p @ c # s) = parseRecipients p @ parseRecipients (dropWhile recipient_sep s)"
    using assms by (simp add: parseRecipients_def split_runs_sep)
  then show ?thesis by simp
qed

lemma word_or_sep:
  obtains (word) "\<forall>x \<in> set p. \<not> recipient_sep x"
  | (more) q d r where "p = q @ d # r" "\<forall>x \<in> set q. \<not> recipient_sep x" "recipient_sep d"
  using split_list_first_prop [of p recipient_sep] by blast

lemma parseRecipients_append:
  "recipient_sep c \<Longrightarrow> parseRecipients (p @ c # s) = parseRecipients p @ parseRecipients s"
proof (induction p rule: length_induct)
  case (1 p)
  show ?case
  proof (cases p rule: word_or_sep)
    case word
    then show ?thesis using 1(2) by (rule parseRecipients_step)
  next
    case (more q d r)
    then show ?thesis
      using 1 parseRecipients_step [OF more(2,3), of r] parseRecipients_step [OF more(2,3), of "r @ c # s"] by simp
  qed
qed

lemma parseRecipients_Nil [simp]: "parseRecipients [] = []"
  by (simp add: parseRecipients_word)

lemma seps [simp]: "recipient_sep (CHR '','')" "recipient_sep (CHR '' '')"
  by (simp_all add: recipient_sep_def js_space_def code_def)

lemma token_start_spec:
  "token_start v n \<le> n \<and> (\<forall>j. token_start v n \<le> j \<and> j < n \<longrightarrow> \<not> recipient_sep (v ! j))
   \<and> (token_start v n = 0 \<or> recipient_sep (v ! (token_start v n - 1)))"
  by (induction v n rule: token_start.induct) (auto simp: less_Suc_eq)

lemma token_end_spec:
  "n \<le> length v \<Longrightarrow> n \<le> token_end v n \<and> token_end v n \<le> length v
   \<and> (\<forall>j. n \<le> j \<and> j < token_end v n \<longrightarrow> \<not> recipient_sep (v ! j))
   \<and> (token_end v n = length v \<or> recipient_sep (v ! token_end v n))"
proof (induction v n rule: token_end.induct)
  case (1 v i)
  show ?case
  proof (cases "i < length v \<and> \<not> recipient_sep (v ! i)")
    case True
    then have "token_end v i = token_end v (i + 1)" by (subst token_end.simps) simp
    moreover have "i + 1 \<le> length v" using True by simp
    note 1(1) [OF True this]
    moreover have "i \<le> j \<Longrightarrow> j = i \<or> i + 1 \<le> j" for j by linarith
    ultimately show ?thesis using True by (metis Suc_eq_plus1 Suc_leD)
  next
    case False
    then have "token_end v i = i" by (subst token_end.simps) auto
    then show ?thesis using False 1(2) by auto
  qed
qed

text \<open>What is left of a token and what is right of it are parsed on their own.\<close>

lemma parse_before:
  assumes "i = 0 \<or> recipient_sep (v ! (i - 1))" "i \<le> length v"
  shows "parseRecipients (take i v @ s) = parseRecipients (take i v) @ parseRecipients s"
proof (cases i)
  case (Suc k)
  then have "take i v = take k v @ [v ! k]" "recipient_sep (v ! k)"
    using assms by (simp_all add: take_Suc_conv_app_nth)
  then show ?thesis using parseRecipients_append [of "v ! k" "take k v"] by simp
qed simp

lemma parse_after:
  assumes "j = length v \<or> recipient_sep (v ! j)" "j \<le> length v"
  shows "parseRecipients (p @ drop j v) = parseRecipients p @ parseRecipients (drop j v)"
proof (cases "j = length v")
  case False
  then have "drop j v = v ! j # drop (Suc j) v" using assms by (simp add: Cons_nth_drop_Suc)
  then show ?thesis
    using assms False parseRecipients_append [of "v ! j" p] parseRecipients_append [of "v ! j" "[]"] by simp
qed simp

lemma parse_inserted:
  assumes "\<forall>x \<in> set a. \<not> recipient_sep x" "a \<noteq> []"
  shows "parseRecipients ((a @ '', '') @ s) = a # parseRecipients s"
  using assms parseRecipients_append [of "CHR '',''" a "CHR '' '' # s"] parseRecipients_append [of "CHR '' ''" "[]" s]
  by (simp add: parseRecipients_word)

section \<open>Runs of the form\<close>

text \<open>Caret positions lie in the text; a send ends with any outcome, for the form \<open>c0\<close> of its click.\<close>

inductive compose_step :: "(js_error \<Rightarrow> string) \<Rightarrow> mail_form \<Rightarrow> mail_form \<Rightarrow> bool" for says where
  typed_to: "nullish caret (length v) \<le> length v \<Longrightarrow> compose_step says c (edit_to v caret c)"
| caret_moved: "nullish caret (length (to_field c)) \<le> length (to_field c)
    \<Longrightarrow> compose_step says c (syncContactToken caret c)"
| blurred: "compose_step says c (set_query None c)"
| key_pressed: "compose_step says c (contact_key k c)"
| hovered: "compose_step says c (c \<lparr>contactIndex := i\<rparr>)"
| clicked: "contactOpen c \<Longrightarrow> x \<in> set (contactSuggestions c) \<Longrightarrow> compose_step says c (applyContact (contact_address x) c)"
| search_asked: "compose_step says c (search_fires c)"
| search_answered: "(n, q) \<in> set (contactAsked c) \<Longrightarrow> compose_step says c (search_answers n r c)"
| from_picked: "compose_step says c (c \<lparr>fromAccountId := a\<rparr>)"
| typed_subject: "compose_step says c (c \<lparr>mail_subject := s\<rparr>)"
| typed_text: "compose_step says c (c \<lparr>mail_text_field := s\<rparr>)"
| typed_passphrase: "compose_step says c (c \<lparr>passphrase := s\<rparr>)"
| e2e_toggled: "compose_step says c (toggle_e2e c)"
| fluxze_set: "compose_step says c (set_fluxze_only b c)"
| secure_set: "compose_step says c (set_secure_send b c)"
| files_picked: "compose_step says c (onPickFiles fs c)"
| file_removed: "compose_step says c (removeAttachment i c)"
| status_expired: "compose_step says c (status_expires c)"
| send_pressed: "\<not> sending c \<Longrightarrow> compose_step says c (fst (begin_mail c))"
| send_finished: "sending c \<Longrightarrow> compose_step says c (finish_mail says c0 e c)"

inductive compose_run :: "(js_error \<Rightarrow> string) \<Rightarrow> nat \<Rightarrow> mail_form \<Rightarrow> bool" for says account where
  opened: "compose_run says account (compose_init account)"
| stepped: "compose_run says account c \<Longrightarrow> compose_step says c d \<Longrightarrow> compose_run says account d"

text \<open>The token in the range of the active query, and the numbers of the searches.\<close>

definition token_at :: "string \<Rightarrow> nat \<times> nat \<Rightarrow> string \<Rightarrow> bool" where
  "token_at v r q \<longleftrightarrow>
     fst r \<le> snd r \<and> snd r \<le> length v \<and> q = js_slice (fst r) (snd r) v \<and> (\<forall>x \<in> set q. \<not> recipient_sep x)
     \<and> (fst r = 0 \<or> recipient_sep (v ! (fst r - 1))) \<and> (snd r = length v \<or> recipient_sep (v ! snd r))"

definition query_ok :: "mail_form \<Rightarrow> bool" where
  "query_ok c \<longleftrightarrow>
     (\<forall>q. contactQuery c = Some q \<longrightarrow>
        length q \<ge> 2 \<and> (to_field c = [] \<or> token_at (to_field c) (contactRange c) q))"

definition compose_ok :: "mail_form \<Rightarrow> bool" where
  "compose_ok c \<longleftrightarrow> query_ok c \<and> total_size (attachments c) \<le> MAX_ATTACHMENTS_BYTES"

lemma slice_free:
  assumes "\<forall>k. i \<le> k \<and> k < j \<longrightarrow> \<not> recipient_sep (v ! k)" "j \<le> length v"
  shows "\<forall>x \<in> set (js_slice i j v). \<not> recipient_sep x"
proof
  fix x
  assume "x \<in> set (js_slice i j v)"
  then obtain k where "k < j - i" "k < length v - i" "x = drop i v ! k"
    by (auto simp: js_slice_def in_set_conv_nth)
  then show "\<not> recipient_sep x" using assms by (simp add: nth_drop)
qed

lemma current_token_at:
  assumes "n \<le> length v" "currentRecipientToken v n = (q, i, j)"
  shows "token_at v (i, j) q"
proof -
  have ij: "i = token_start v n" "j = token_end v n" "q = js_slice i j v"
    using assms(2) by (auto simp: currentRecipientToken_def Let_def)
  have "\<not> recipient_sep (v ! k)" if "i \<le> k" "k < j" for k
    using that ij token_start_spec [of v n] token_end_spec [OF assms(1)] by (cases "k < n") auto
  then have "\<forall>x \<in> set q. \<not> recipient_sep x"
    using slice_free [of i j v] ij token_end_spec [OF assms(1)] by simp
  then show ?thesis
    using ij token_start_spec [of v n] token_end_spec [OF assms(1)] by (simp add: token_at_def)
qed

lemma set_query_fields [simp]:
  "contactQuery (set_query q c) = q" "to_field (set_query q c) = to_field c"
  "attachments (set_query q c) = attachments c" "contactSuggestions (set_query q c) = contactSuggestions c"
  by (auto simp: set_query_def split: option.split)

lemma query_ok_none: "contactQuery c = None \<Longrightarrow> query_ok c"
  by (simp add: query_ok_def)

lemma query_ok_same:
  "query_ok c \<Longrightarrow> contactQuery d = contactQuery c \<Longrightarrow> contactRange d = contactRange c
   \<Longrightarrow> to_field d = to_field c \<or> to_field d = [] \<Longrightarrow> query_ok d"
  by (auto simp: query_ok_def)

lemma sync_ok:
  assumes "nullish caret (length (to_field c)) \<le> length (to_field c)"
  shows "query_ok (syncContactToken caret c) \<and> attachments (syncContactToken caret c) = attachments c
    \<and> to_field (syncContactToken caret c) = to_field c"
proof -
  obtain q i j where t: "currentRecipientToken (to_field c) (nullish caret (length (to_field c))) = (q, i, j)"
    by (cases "currentRecipientToken (to_field c) (nullish caret (length (to_field c)))") auto
  show ?thesis using current_token_at [OF assms t] by (auto simp: syncContactToken_def t query_ok_def)
qed

lemma applyContact_fields [simp]:
  "contactQuery (applyContact a c) = None" "attachments (applyContact a c) = attachments c"
  by (simp_all add: applyContact_def Let_def)

lemma total_removed: "total_size (take i fs @ drop (i + 1) fs) \<le> total_size fs"
proof -
  have "total_size fs = total_size (take i fs) + total_size (drop i fs)"
    unfolding total_size_def by (metis append_take_drop_id map_append sum_list_append)
  moreover have "total_size (drop (i + 1) fs) \<le> total_size (drop i fs)"
    by (cases "drop i fs") (simp_all add: total_size_def drop_Suc flip: tl_drop)
  ultimately show ?thesis by (simp add: total_size_def)
qed

lemma compose_step_ok: "compose_step says c d \<Longrightarrow> compose_ok c \<Longrightarrow> compose_ok d"
proof (induction rule: compose_step.induct)
  case (typed_to caret v c)
  then show ?case
    using sync_ok [of caret "c \<lparr>to_field := v\<rparr>"]
    by (auto simp: edit_to_def clearBlockingStatus_def compose_ok_def intro: query_ok_same)
next
  case (caret_moved caret c)
  then show ?case using sync_ok [of caret c] by (simp add: compose_ok_def)
next
  case (key_pressed c k)
  then show ?case
    by (cases k) (auto simp: contact_key_def compose_ok_def Let_def query_ok_none intro: query_ok_same)
next
  case (search_asked c)
  then show ?case by (auto simp: search_fires_def compose_ok_def intro: query_ok_same split: option.split)
next
  case (search_answered n q c r)
  then show ?case by (auto simp: search_answers_def compose_ok_def intro: query_ok_same split: sum.split)
next
  case (fluxze_set c b)
  then show ?case
    by (auto simp: set_fluxze_only_def clearBlockingStatus_def compose_ok_def intro: query_ok_same)
next
  case (files_picked c fs)
  then show ?case by (auto simp: onPickFiles_def compose_ok_def intro: query_ok_same)
next
  case (file_removed c i)
  then show ?case
    using total_removed [of i "attachments c"]
    by (auto simp: removeAttachment_def compose_ok_def intro: query_ok_same)
next
  case (send_pressed c)
  then show ?case
    by (auto simp: begin_mail_def blockSend_def compose_ok_def intro: query_ok_same split: option.split bool.split)
next
  case (send_finished c c0 e)
  then show ?case
    by (cases e) (auto simp: finish_mail_def blockSend_def all_sent_def total_size_def compose_ok_def Let_def
        intro: query_ok_same split: option.split)
qed (auto simp: compose_ok_def query_ok_none toggle_e2e_def set_secure_send_def status_expires_def
    intro: query_ok_same)

lemma compose_run_ok: "compose_run says account c \<Longrightarrow> compose_ok c"
  by (induction rule: compose_run.induct)
    (auto simp: compose_init_def compose_ok_def query_ok_def total_size_def dest: compose_step_ok)

section \<open>Who gets a mail, and how\<close>

lemma lookups_emails [simp]: "map lk_email (lookups a b rs) = rs"
proof -
  have "lk_email (case p of (i, e) \<Rightarrow> case getUserByEmail a i e of
             Ok u \<Rightarrow> \<lparr>lk_email = e, lk_user = u, lk_failed = False\<rparr>
           | Throw err \<Rightarrow> \<lparr>lk_email = e, lk_user = None, lk_failed = True\<rparr>) = snd p" for p
    by (cases p) (simp split: sum.split)
  then have "map lk_email (lookups a True rs) = map snd (enumerate 0 rs)"
    by (simp add: lookups_def comp_def)
  then show ?thesis by (cases b) (simp_all add: lookups_def comp_def)
qed

lemma wayve_simps:
  "wayve_lookups [] = []" "external_emails [] = []"
  "wayve_lookups (l # ls) = (case native_user l of Some u \<Rightarrow> [(lk_email l, u)] | None \<Rightarrow> []) @ wayve_lookups ls"
  "external_emails (l # ls) = (if native_user l = None then [lk_email l] else []) @ external_emails ls"
  by (auto simp: wayve_lookups_def external_emails_def List.map_filter_def split: option.split)

lemma channels_partition:
  "mset (map lk_email ls) = mset (map fst (wayve_lookups ls)) + mset (external_emails ls)"
  by (induction ls) (auto simp: wayve_simps split: option.split)

lemma all_native: "external_emails ls = [] \<Longrightarrow> map fst (wayve_lookups ls) = map lk_email ls"
  by (induction ls) (auto simp: wayve_simps split: option.splits if_splits)

lemma standard_lookups:
  "wayve_lookups (lookups a False rs) = [] \<and> external_emails (lookups a False rs) = rs"
  by (induction rs) (simp_all add: lookups_def wayve_simps native_user_def)

lemma answer_errors_none: "answer_errors says answer rs = [] \<longleftrightarrow> (\<forall>i < length rs. \<exists>u. answer i = Ok u)"
proof -
  have "answer_errors says answer rs = [] \<longleftrightarrow> (\<forall>(i, r) \<in> set (enumerate 0 rs). \<exists>u. answer i = Ok u)"
    by (auto simp: answer_errors_def split: sum.splits)
  also have "\<dots> \<longleftrightarrow> (\<forall>i < length rs. \<exists>u. answer i = Ok u)"
    by (auto simp: in_set_enumerate_eq)
  finally show ?thesis .
qed

lemma begin_mail_started:
  "snd (begin_mail c) \<longleftrightarrow> send_refused c = None"
  by (auto simp: begin_mail_def split: option.split bool.split)

lemma refused_none:
  "send_refused c = None \<longleftrightarrow> parseRecipients (to_field c) \<noteq> [] \<and> mail_subject c \<noteq> [] \<and> mail_text_field c \<noteq> []
     \<and> (secureSend c \<longrightarrow> length (passphrase c) \<ge> 6 \<and> attachments c = []) \<and> (fluxzeOnly c \<longrightarrow> attachments c = [])"
  by (auto simp: send_refused_def)

lemma send_native_shape:
  assumes "send_native wc says g a db s wayve c = (out, n, errors, db1)"
  shows "out = [] \<and> errors \<noteq> [] \<or> (\<exists>env. out = [NativeMail (map (fst \<circ> snd) wayve) env (mail_subject c)]
    \<and> fst (native_envelope wc g db s wayve (mail_text_field c)) = Ok env \<and> (errors = [] \<longrightarrow> native_answer a = Ok n))"
  using assms by (auto simp: send_native_def split: prod.splits sum.splits)

lemma send_mails_shape:
  assumes "send_mails wc says g a db (Some s) c = (out, MailsSent i x errors, db1)"
    and "ls = lookups a (needs_lookup c) (parseRecipients (to_field c))"
  obtains files out1 errors1 where
    "(if length (attachments c) > 0 then map_sum id Some (filesToAttachments (attachments c)) else Ok None) = Ok files"
    "\<not> (fluxzeOnly c \<and> external_emails ls \<noteq> [])"
    "(if wayve_lookups ls \<noteq> [] then send_native wc says g a db s (wayve_lookups ls) c else ([], 0, [], db))
       = (out1, i, errors1, db1)"
    "out = out1 @ map (\<lambda>r. StandardMail (fromAccountId c) r (mail_subject c) (mail_text_field c) files)
       (external_emails ls)"
    "x = length (external_emails ls) - length (answer_errors says (standard_answer a) (external_emails ls))"
    "errors = errors1 @ answer_errors says (standard_answer a) (external_emails ls)"
proof -
  let ?files = "if length (attachments c) > 0 then map_sum id Some (filesToAttachments (attachments c)) else Ok None"
  let ?native = "if wayve_lookups ls \<noteq> [] then send_native wc says g a db s (wayve_lookups ls) c else ([], 0, [], db)"
  obtain files where f: "?files = Ok files"
    using assms(1) unfolding send_mails_def by (cases ?files) simp_all
  obtain out1 n1 errors1 db2 where n: "?native = (out1, n1, errors1, db2)" by (cases ?native) auto
  have "\<not> (fluxzeOnly c \<and> external_emails ls \<noteq> [])"
  proof
    assume "fluxzeOnly c \<and> external_emails ls \<noteq> []"
    then show False using assms(1) unfolding send_mails_def f by (simp add: Let_def assms(2) [symmetric])
  qed
  note go = that [OF f this]
  from \<open>\<not> (fluxzeOnly c \<and> external_emails ls \<noteq> [])\<close>
  have neg: "(fluxzeOnly c \<and> external_emails ls \<noteq> []) = False" by simp
  have "send_mails wc says g a db (Some s) c
      = (case send_standard says a files (external_emails ls) c of
           (out2, n2, errors2) \<Rightarrow> (out1 @ out2, MailsSent n1 n2 (errors1 @ errors2), db2))"
    unfolding send_mails_def f
    by (simp only: Let_def assms(2) [symmetric] sum.case neg if_False option.case n prod.case)
  then show thesis using go assms(1) n by (simp add: send_standard_def Let_def)
qed

lemma answer_errors_length: "length (answer_errors says answer rs) \<le> length rs"
proof -
  have "length (concat (map (\<lambda>(i, r). case answer i of Throw e \<Rightarrow> [r @ '': '' @ says e] | Ok u \<Rightarrow> []) xs))
      \<le> length xs" for xs :: "(nat \<times> string) list"
    by (induction xs) (auto split: sum.split)
  from this [of "enumerate 0 rs"] show ?thesis by (simp add: answer_errors_def)
qed

text \<open>Where the one native request of a send comes from.\<close>

lemma sent_natively:
  assumes "send_mails wc says g a db (Some s) c = (out, e, db1)" "NativeMail ids env subject \<in> set out"
  shows "ids = map (fst \<circ> snd) (wayve_lookups (lookups a (needs_lookup c) (parseRecipients (to_field c))))
    \<and> fst (native_envelope wc g db s (wayve_lookups (lookups a (needs_lookup c) (parseRecipients (to_field c))))
            (mail_text_field c)) = Ok env"
proof -
  have "\<exists>i x errors. e = MailsSent i x errors"
    using assms by (auto simp: send_mails_def Let_def send_standard_def split: sum.splits if_splits prod.splits)
  then obtain i x errors where e: "e = MailsSent i x errors" by blast
  obtain files out1 errors1 where
    n: "(if wayve_lookups (lookups a (needs_lookup c) (parseRecipients (to_field c))) \<noteq> []
      then send_native wc says g a db s (wayve_lookups (lookups a (needs_lookup c) (parseRecipients (to_field c)))) c
      else ([], 0, [], db)) = (out1, i, errors1, db1)"
    and out: "out = out1 @ map (\<lambda>r. StandardMail (fromAccountId c) r (mail_subject c) (mail_text_field c) files)
       (external_emails (lookups a (needs_lookup c) (parseRecipients (to_field c))))"
    using assms(1) [unfolded e] refl by (rule send_mails_shape)
  then have "NativeMail ids env subject \<in> set out1" using assms(2) by auto
  then show ?thesis using n by (auto split: if_splits dest: send_native_shape)
qed

text \<open>
  Every recipient of a mail gets it over exactly one channel: the native one when the server
  knows a key for the address, a standard mail otherwise, and in standard mode always the
  latter. When no error is reported, every request was accepted.
\<close>

theorem each_recipient_one_channel:
  assumes "\<not> secureSend c" "deliver wc says g a db (Some s) c = (out, MailsSent i x errors, db1)"
    and "ls = lookups a (needs_lookup c) (parseRecipients (to_field c))"
  shows "mset (parseRecipients (to_field c)) = mset (map fst (wayve_lookups ls)) + mset (external_emails ls)
    \<and> (encryptionMode c \<noteq> E2e \<and> \<not> fluxzeOnly c \<longrightarrow> external_emails ls = parseRecipients (to_field c))
    \<and> (\<exists>native files. out = native @ map (\<lambda>r. StandardMail (fromAccountId c) r (mail_subject c)
           (mail_text_field c) files) (external_emails ls)
         \<and> (wayve_lookups ls = [] \<longrightarrow> native = [])
         \<and> (errors = [] \<and> wayve_lookups ls \<noteq> [] \<longrightarrow>
              (\<exists>env. native = [NativeMail (map (fst \<circ> snd) (wayve_lookups ls)) env (mail_subject c)])))
    \<and> (errors = [] \<longrightarrow> x = length (external_emails ls) \<and> (wayve_lookups ls \<noteq> [] \<longrightarrow> native_answer a = Ok i)
         \<and> (\<forall>k < length (external_emails ls). \<exists>u. standard_answer a k = Ok u))"
proof -
  have d: "send_mails wc says g a db (Some s) c = (out, MailsSent i x errors, db1)"
    using assms(1,2) by (simp add: deliver_def)
  obtain files out1 errors1 where shape:
    "(if wayve_lookups ls \<noteq> [] then send_native wc says g a db s (wayve_lookups ls) c else ([], 0, [], db))
       = (out1, i, errors1, db1)"
    "out = out1 @ map (\<lambda>r. StandardMail (fromAccountId c) r (mail_subject c) (mail_text_field c) files)
       (external_emails ls)"
    "x = length (external_emails ls) - length (answer_errors says (standard_answer a) (external_emails ls))"
    "errors = errors1 @ answer_errors says (standard_answer a) (external_emails ls)"
    using d assms(3) by (rule send_mails_shape)
  have none: "wayve_lookups ls = [] \<Longrightarrow> out1 = []" using shape(1) by simp
  have native: "out1 = [] \<and> errors1 \<noteq> [] \<or> (\<exists>env. out1 = [NativeMail (map (fst \<circ> snd) (wayve_lookups ls)) env
      (mail_subject c)] \<and> (errors1 = [] \<longrightarrow> native_answer a = Ok i))" if "wayve_lookups ls \<noteq> []"
    using send_native_shape [of wc says g a db s "wayve_lookups ls" c out1 i errors1 db1] shape(1) that by auto
  have "mset (parseRecipients (to_field c)) = mset (map fst (wayve_lookups ls)) + mset (external_emails ls)"
    using channels_partition [of ls] assms(3) by simp
  moreover have "encryptionMode c \<noteq> E2e \<and> \<not> fluxzeOnly c \<longrightarrow> external_emails ls = parseRecipients (to_field c)"
    using standard_lookups by (simp add: assms(3) needs_lookup_def)
  moreover have "\<exists>native files. out = native @ map (\<lambda>r. StandardMail (fromAccountId c) r (mail_subject c)
         (mail_text_field c) files) (external_emails ls)
       \<and> (wayve_lookups ls = [] \<longrightarrow> native = [])
       \<and> (errors = [] \<and> wayve_lookups ls \<noteq> [] \<longrightarrow>
            (\<exists>env. native = [NativeMail (map (fst \<circ> snd) (wayve_lookups ls)) env (mail_subject c)]))"
    by (rule exI [of _ out1], rule exI [of _ files]) (use shape(2,4) none native in auto)
  moreover have "errors = [] \<longrightarrow> x = length (external_emails ls)
       \<and> (wayve_lookups ls \<noteq> [] \<longrightarrow> native_answer a = Ok i)
       \<and> (\<forall>k < length (external_emails ls). \<exists>u. standard_answer a k = Ok u)"
    using shape(3,4) native answer_errors_none [of says "standard_answer a" "external_emails ls"] by auto
  ultimately show ?thesis by blast
qed

text \<open>With Fluxze-only alone: the gate, and the one native request.\<close>

lemma only_native:
  assumes "snd (begin_mail c)" "fluxzeOnly c" "\<not> secureSend c" "deliver wc says g a db user c = (out, e, db1)"
    and "ls = lookups a True (parseRecipients (to_field c))"
  shows "(external_emails ls \<noteq> [] \<longrightarrow> out = [] \<and> e = Blocked (fluxze_refusal ls))
    \<and> (out = [] \<or> (\<exists>s env. user = Some s \<and> map fst (wayve_lookups ls) = parseRecipients (to_field c)
          \<and> out = [NativeMail (map (fst \<circ> snd) (wayve_lookups ls)) env (mail_subject c)]))"
proof -
  have no_files: "attachments c = []" "needs_lookup c"
    using assms(1,2) by (simp_all add: begin_mail_started refused_none needs_lookup_def)
  have d: "send_mails wc says g a db user c = (out, e, db1)" using assms(3,4) by (simp add: deliver_def)
  show ?thesis
  proof (cases "external_emails ls = []")
    case False
    then show ?thesis using d no_files assms(2) by (simp add: send_mails_def Let_def assms(5))
  next
    case True
    then have all: "map fst (wayve_lookups ls) = parseRecipients (to_field c)"
      using all_native [of ls] assms(5) by simp
    then have some: "wayve_lookups ls \<noteq> []"
      using assms(1) by (auto simp: begin_mail_started refused_none)
    show ?thesis
    proof (cases user)
      case None
      then show ?thesis using d no_files True some assms(2) by (simp add: send_mails_def Let_def assms(5))
    next
      case (Some s)
      obtain out1 n1 errors1 db2 where n: "send_native wc says g a db s (wayve_lookups ls) c = (out1, n1, errors1, db2)"
        by (cases "send_native wc says g a db s (wayve_lookups ls) c") auto
      then have "out = out1"
        using d no_files True some Some assms(2)
        by (simp add: send_mails_def send_standard_def Let_def assms(5) [symmetric])
      then show ?thesis using send_native_shape [OF n] Some all True by auto
    qed
  qed
qed

text \<open>
  C8: Fluxze-only, with Secure send off: nothing is sent unless every recipient has an account with a
  key, and then the one request carries the envelope. Secure send and Fluxze-only are meant to
  exclude each other, but the switch that is greyed out can still be turned by the keyboard; with
  both on, every recipient gets the sealed link, account or not. In no case a plain mail goes to a
  mailbox elsewhere.
\<close>

theorem fluxze_only_stays_inside:
  assumes "snd (begin_mail c)" "fluxzeOnly c" "deliver wc says g a db user c = (out, e, db1)"
    and "ls = lookups a True (parseRecipients (to_field c))"
  shows "(\<not> secureSend c \<longrightarrow>
       (external_emails ls \<noteq> [] \<longrightarrow> out = [] \<and> e = Blocked (fluxze_refusal ls))
       \<and> (out = [] \<or> (\<exists>s env. user = Some s \<and> map fst (wayve_lookups ls) = parseRecipients (to_field c)
            \<and> out = [NativeMail (map (fst \<circ> snd) (wayve_lookups ls)) env (mail_subject c)])))
    \<and> (secureSend c \<longrightarrow> (\<exists>err. e = Failed err \<and> out = [])
        \<or> (\<exists>b. sealSecureMessage wc (link_salt g) (link_key g) (link_iv g) (mail_text_field c) (passphrase c) = Ok b
             \<and> out = map (\<lambda>r. SecureLink r (mail_subject c) b) (parseRecipients (to_field c))))
    \<and> (\<forall>o' \<in> set out. \<forall>i r t m fs. o' \<noteq> StandardMail i r t m fs)"
proof -
  have inside: ?thesis if "\<not> secureSend c"
    using only_native [OF assms(1,2) that assms(3,4)] that by auto
  have links: ?thesis if "secureSend c"
    using assms(3) that by (auto simp: deliver_def send_links_def Let_def split: sum.splits)
  show ?thesis using inside links by blast
qed

text \<open>
  C26: The envelope of a native send opens to the text for every account and key it was sealed for,
  the sender's own copy included, as long as one account has one key among them; for a sender
  whose plan asks for mail the server can read, what is posted is the text.
\<close>

theorem encrypted_mail_reaches_readers:
  assumes "webcrypto_ok wc" "deliver wc says g a db (Some s) c = (out, e, db1)" "\<not> secureSend c"
    and "NativeMail ids env subject \<in> set out" "ls = lookups a (needs_lookup c) (parseRecipients (to_field c))"
    and "keys = map snd (wayve_lookups ls) @ fst (own_key db s)"
    and "(u, pk) \<in> set keys" "\<forall>q. (u, q) \<in> set keys \<longrightarrow> q = pk" "holds_key wc device u pk"
  shows "ids = map (fst \<circ> snd) (wayve_lookups ls)
    \<and> (plan_tier s \<noteq> Some ''enterprise'' \<longrightarrow>
         decryptWayveBodyIfNeeded wc html device env (Some u) = Ok (mail_text_field c))
    \<and> (plan_tier s = Some ''enterprise'' \<longrightarrow> env = mail_text_field c)"
proof -
  have d: "send_mails wc says g a db (Some s) c = (out, e, db1)" using assms(2,3) by (simp add: deliver_def)
  have env: "ids = map (fst \<circ> snd) (wayve_lookups ls)
      \<and> fst (native_envelope wc g db s (wayve_lookups ls) (mail_text_field c)) = Ok env"
    using sent_natively [OF d assms(4)] by (simp add: assms(5) [symmetric])
  moreover have "decryptWayveBodyIfNeeded wc html device env (Some u) = Ok (mail_text_field c)"
    if "plan_tier s \<noteq> Some ''enterprise''"
  proof -
    have "buildInternalEnvelope wc (message_key g) (message_iv g) (mail_text_field c) keys = Ok env"
      using env that by (simp add: native_envelope_def assms(6) split: prod.splits)
    then obtain ks where w: "wrap_keys wc (export_raw wc (message_key g)) keys [] = Ok ks"
      and e: "env = multi_text (aes_encrypt wc (message_key g) (message_iv g) (utf8_encode wc (mail_text_field c)))
        (message_iv g) ks"
      by (auto simp: buildInternalEnvelope_def multi_text_def mail_text_def Let_def bind_result_Ok_iff split: if_splits)
    obtain p where "loads_key wc device u p" "\<forall>pub. import_spki wc pk = Some pub \<longrightarrow> key_pair wc pub p"
      using assms(9) by (auto simp: holds_key_def)
    then show ?thesis unfolding e by (rule mail.recipient_reads [OF assms(1) w assms(7,8)])
  qed
  moreover have "env = mail_text_field c" if "plan_tier s = Some ''enterprise''"
    using env that by (simp add: native_envelope_def)
  ultimately show ?thesis by blast
qed

text \<open>
  Secure send gives every recipient the same sealed message, which opens to the text under the
  passphrase, no file and no device key involved, and accounts for each of them.
\<close>

theorem secure_links_open:
  assumes "webcrypto_ok wc" "snd (begin_mail c)" "secureSend c"
    and "deliver wc says g a db user c = (out, LinksSent n errors, db1)"
  shows "\<exists>b. out = map (\<lambda>r. SecureLink r (mail_subject c) b) (parseRecipients (to_field c))
    \<and> openSecureMessage wc b (passphrase c) = Ok (mail_text_field c)
    \<and> attachments c = [] \<and> db1 = db \<and> n + length errors = length (parseRecipients (to_field c))"
proof -
  define sealed where "sealed = sealSecureMessage wc (link_salt g) (link_key g) (link_iv g) (mail_text_field c) (passphrase c)"
  define fails where "fails = answer_errors says (link_answer a) (parseRecipients (to_field c))"
  have "deliver wc says g a db user c = (case sealed of Throw err \<Rightarrow> ([], Failed err, db)
      | Ok b \<Rightarrow> (map (\<lambda>r. SecureLink r (mail_subject c) b) (parseRecipients (to_field c)),
                LinksSent (length (parseRecipients (to_field c)) - length fails) fails, db))"
    using assms(3) by (simp add: deliver_def send_links_def sealed_def fails_def Let_def split: sum.split)
  then obtain b where b: "sealed = Ok b"
    and out: "out = map (\<lambda>r. SecureLink r (mail_subject c) b) (parseRecipients (to_field c))"
    and n: "n = length (parseRecipients (to_field c)) - length errors" and "db1 = db" and errors: "errors = fails"
    using assms(4) by (cases sealed) auto
  obtain k where k: "import_raw wc (link_key g) = Some k"
    and b': "b = \<lparr>sb_ciphertext = btoa wc (aes_encrypt wc k (link_iv g) (utf8_encode wc (mail_text_field c))),
        sb_iv = btoa wc (link_iv g), sb_wrapped_key = btoa wc (aes_encrypt wc
          (derivePassphraseKey wc (passphrase c) (link_salt g) 600000) (replicate 12 0) (link_key g)),
        sb_salt = btoa wc (link_salt g), sb_iterations = 600000\<rparr>"
    using b unfolding sealed_def by (rule sealed_bundle)
  have "openSecureMessage wc b (passphrase c) = Ok (mail_text_field c)"
    using opened_bundle [OF assms(1) b', of "passphrase c"] k by (simp add: webcrypto_okD [OF assms(1)])
  moreover have "length errors \<le> length (parseRecipients (to_field c))"
    unfolding errors fails_def by (rule answer_errors_length)
  ultimately show ?thesis
    using out n \<open>db1 = db\<close> assms(2,3) by (auto simp: begin_mail_started refused_none)
qed

text \<open>A send in standard mode posts one mail to every recipient.\<close>

lemma standard_posts:
  assumes "\<not> secureSend c" "\<not> needs_lookup c" "snd (begin_mail c)"
  shows "fst (deliver wc says g a db user c) =
      (case (if length (attachments c) > 0 then map_sum id Some (filesToAttachments (attachments c)) else Ok None) of
         Throw err \<Rightarrow> []
       | Ok files \<Rightarrow> map (\<lambda>r. StandardMail (fromAccountId c) r (mail_subject c) (mail_text_field c) files)
           (parseRecipients (to_field c)))"
proof -
  have "\<not> fluxzeOnly c" using assms(2,3) by (auto simp: needs_lookup_def begin_mail_started refused_none)
  moreover have "wayve_lookups (lookups a (needs_lookup c) rs) = []" "external_emails (lookups a (needs_lookup c) rs) = rs"
    for rs using assms(2) standard_lookups by simp_all
  ultimately show ?thesis
    using assms(1) by (simp add: deliver_def send_mails_def send_standard_def Let_def split: sum.split option.split)
qed

text \<open>What a send posts depends neither on the answers to it nor on the status.\<close>

lemma posts_without_answers:
  assumes "lookup_answer a2 = lookup_answer a"
  shows "fst (deliver wc says g a2 db user c) = fst (deliver wc says g a db user c)"
proof -
  have l: "lookups a2 b rs = lookups a b rs" for b rs
    by (simp only: lookups_def getUserByEmail_def assms)
  have n: "fst (send_native wc says g a2 db s w c) = fst (send_native wc says g a db s w c)" for s w
    by (simp add: send_native_def split: prod.split sum.split)
  have st: "fst (send_standard says a2 files rs c) = fst (send_standard says a files rs c)" for files rs
    by (simp add: send_standard_def Let_def)
  have out: "fst (case p of (out1, n1, errors1, db1) \<Rightarrow>
        (case q of (out2, n2, errors2) \<Rightarrow> (out1 @ out2, MailsSent n1 n2 (errors1 @ errors2), db1))) = fst p @ fst q"
    for p :: "outgoing list \<times> nat \<times> string list \<times> key_db" and q :: "outgoing list \<times> nat \<times> string list"
    by (simp split: prod.split)
  have out': "fst (case q of (out, n, errors) \<Rightarrow> (out, MailsSent 0 n errors, db)) = fst q"
    for q :: "outgoing list \<times> nat \<times> string list"
    by (simp split: prod.split)
  have m: "fst (send_mails wc says g a2 db user c) = fst (send_mails wc says g a db user c)"
    unfolding send_mails_def Let_def l
    by (cases user) (simp_all add: out out' n st if_distrib [of fst] split: sum.split, blast+)
  show ?thesis
    using m by (simp add: deliver_def send_links_def Let_def split: sum.split prod.split)
qed

lemma deliver_cong:
  assumes "secureSend d = secureSend c" "passphrase d = passphrase c" "fluxzeOnly d = fluxzeOnly c"
    "encryptionMode d = encryptionMode c" "attachments d = attachments c" "to_field d = to_field c"
    "mail_subject d = mail_subject c" "mail_text_field d = mail_text_field c" "fromAccountId d = fromAccountId c"
  shows "deliver wc says g a db user d = deliver wc says g a db user c"
proof -
  have "send_standard says a files rs d = send_standard says a files rs c" for files rs
    using assms by (simp add: send_standard_def)
  moreover have "send_native wc says g a db u w d = send_native wc says g a db u w c" for u w
    by (simp only: send_native_def assms)
  moreover have "needs_lookup d = needs_lookup c" using assms by (simp add: needs_lookup_def)
  ultimately show ?thesis by (simp only: deliver_def send_links_def send_mails_def assms)
qed

text \<open>
  C21: When some requests of a send fail, whatever the channel, the status ends as the text of before
  the click and the errors, without the count of what went out; the form stays, and pressing the
  button again is the same send once more: with the same accounts found and the same draws the very
  same requests, in standard mode whatever is drawn, to those who got the mail as well.
\<close>

theorem failed_part_sends_all_again:
  assumes "deliver wc says g a db user c = (out, e, db1)"
    and "e = MailsSent i x errors \<or> e = LinksSent n errors" "errors \<noteq> []" "snd (begin_mail c)"
    and "d = finish_mail says c e (fst (begin_mail c))"
  shows "send_status d = send_status c @ '' '' @ warning_sign @ '' '' @ join ''; '' errors
    \<and> snd (begin_mail d) \<and> sent_calls d = sent_calls c
    \<and> deliver wc says g2 a2 db2 user2 d = deliver wc says g2 a2 db2 user2 c
    \<and> (lookup_answer a2 = lookup_answer a \<longrightarrow> fst (deliver wc says g a2 db user d) = out)
    \<and> (\<not> secureSend c \<and> \<not> needs_lookup c \<longrightarrow> fst (deliver wc says g2 a2 db2 user2 d) = out)"
proof -
  have d: "d = (fst (begin_mail c)) \<lparr>send_status := error_report c errors, sending := False\<rparr>"
    using assms(2,3,5) by (cases "mails_report i x") (auto simp: finish_mail_def Let_def)
  have "send_refused c = None" using assms(4) by (simp add: begin_mail_started)
  then have c1: "fst (begin_mail c) = c \<lparr>sending := True, send_status := [], statusSticky := False\<rparr>"
    by (simp add: begin_mail_def)
  have again: "snd (begin_mail d)"
    using assms(4) by (simp add: begin_mail_started d c1 send_refused_def split: if_splits)
  have same: "deliver wc says g' a' db' user' d = deliver wc says g' a' db' user' c" for g' a' db' user'
    by (rule deliver_cong) (simp_all add: d c1)
  have lookups: "fst (deliver wc says g a2 db user d) = out" if "lookup_answer a2 = lookup_answer a"
    using posts_without_answers [OF that, of wc says g db user c] assms(1) by (simp add: same)
  have standard: "fst (deliver wc says g2 a2 db2 user2 d) = out" if "\<not> secureSend c \<and> \<not> needs_lookup c"
    using standard_posts [of c wc says g2 a2 db2 user2] standard_posts [of c wc says g a db user] that assms(1,4)
    by (simp add: same)
  show ?thesis
    using again same lookups standard by (simp add: d c1 error_report_def)
qed

text \<open>
  Picking a suggested contact replaces exactly the address at the caret, in every reachable
  state of the form: the addresses before and after it stay. The picked files never exceed the
  limit.
\<close>

theorem picked_contact_is_recipient:
  assumes "compose_run says account c" "contactOpen c" "\<forall>x \<in> set a. \<not> recipient_sep x" "a \<noteq> []"
    and "before = take (fst (contactRange c)) (to_field c)" "after = drop (snd (contactRange c)) (to_field c)"
  shows "parseRecipients (to_field (applyContact a c)) = parseRecipients before @ a # parseRecipients after
    \<and> (\<exists>q. contactQuery c = Some q \<and> (to_field c \<noteq> [] \<longrightarrow>
          parseRecipients (to_field c) = parseRecipients before @ q # parseRecipients after))
    \<and> total_size (attachments c) \<le> MAX_ATTACHMENTS_BYTES"
proof -
  have ok: "compose_ok c" using assms(1) by (rule compose_run_ok)
  obtain q where q: "contactQuery c = Some q" using assms(2) by (cases "contactQuery c") (simp_all add: contactOpen_def)
  then have len: "length q \<ge> 2" and at: "to_field c = [] \<or> token_at (to_field c) (contactRange c) q"
    using ok by (simp_all add: compose_ok_def query_ok_def)
  have new: "to_field (applyContact a c) = before @ (a @ '', '') @ after"
    by (simp add: applyContact_def Let_def assms(5,6))
  show ?thesis
  proof (cases "to_field c = []")
    case True
    then show ?thesis
      using new q ok assms(3,4) parse_inserted [of a "[]"] by (simp add: assms(5,6) compose_ok_def)
  next
    case False
    define i j where ij: "i = fst (contactRange c)" "j = snd (contactRange c)"
    have t: "i \<le> j" "j \<le> length (to_field c)" "q = js_slice i j (to_field c)" "\<forall>x \<in> set q. \<not> recipient_sep x"
      "i = 0 \<or> recipient_sep (to_field c ! (i - 1))" "j = length (to_field c) \<or> recipient_sep (to_field c ! j)"
      using at False by (simp_all add: token_at_def ij)
    have "to_field c = before @ q @ after"
      using t(1,3) by (simp add: assms(5,6) ij [symmetric] js_slice_def)
        (metis append_assoc append_take_drop_id drop_drop le_add_diff_inverse2)
    moreover have "parseRecipients (before @ s) = parseRecipients before @ parseRecipients s" for s
      using parse_before [OF t(5)] t(1,2) by (simp add: assms(5) ij)
    moreover have "parseRecipients (s @ after) = parseRecipients s @ parseRecipients after" for s
      using parse_after [OF t(6,2)] by (simp add: assms(6) ij)
    moreover have "parseRecipients q = [q]" using t(4) len by (auto simp: parseRecipients_word)
    ultimately show ?thesis
      using new q ok parse_inserted [OF assms(3,4)] by (simp add: compose_ok_def)
  qed
qed

section \<open>Examples\<close>

definition demo_form :: mail_form where
  "demo_form = (compose_init 1) \<lparr>to_field := ''a@b, c@d'', mail_subject := ''s'', mail_text_field := ''hi''\<rparr>"

definition demo_mail_draws :: "byte send_draws" where
  "demo_mail_draws = \<lparr>message_key = 9, message_iv = [1, 2], link_salt = [4], link_key = [5], link_iv = [6]\<rparr>"

definition demo_send :: send_answers where
  "demo_send = \<lparr>lookup_answer = (\<lambda>i. Ok (if i = 0 then Some \<lparr>wr_id = 3, public_key = Some [7]\<rparr> else None)),
     native_answer = Ok 1, standard_answer = (\<lambda>i. if i = 0 then Ok () else Throw (Error ''down'')),
     link_answer = (\<lambda>i. Ok ())\<rparr>"

definition demo_sender :: sender where
  "demo_sender = \<lparr>sender_id = 3, sender_email = ''x'', plan_tier = None\<rparr>"

definition no_text :: "js_error \<Rightarrow> string" where
  "no_text e = ''failed''"

text \<open>Both channels: the account gets an envelope, the other address a standard mail.\<close>

definition demo_e2e :: mail_form where
  "demo_e2e = demo_form \<lparr>encryptionMode := E2e\<rparr>"

lemma demo_lookups:
  "wayve_lookups (lookups demo_send True (parseRecipients ''a@b, c@d'')) = [(''a@b'', 3, [7])]"
  "external_emails (lookups demo_send True (parseRecipients ''a@b, c@d'')) = [''c@d'']"
  by code_simp+

lemma demo_parse: "parseRecipients ''a@b, c@d'' = [''a@b'', ''c@d'']"
  by code_simp

lemma demo_fields [simp]:
  "to_field demo_form = ''a@b, c@d''" "mail_subject demo_form = ''s''" "mail_text_field demo_form = ''hi''"
  "attachments demo_form = []" "secureSend demo_form = False" "fluxzeOnly demo_form = False"
  "encryptionMode demo_form = Standard" "send_status demo_form = []" "fromAccountId demo_form = 1"
  by (simp_all add: demo_form_def compose_init_def)

lemma demo_own: "\<exists>db1. own_key demo_keys demo_sender = ([(3, [7])], db1)"
  by (simp add: own_key_def demo_sender_def loadPublicKey_def demo_keys_def load_slot_def getOne_def)

lemma demo_envelope:
  "\<exists>env db1. native_envelope demo_crypto demo_mail_draws demo_keys demo_sender [(''a@b'', 3, [7])] ''hi'' = (Ok env, db1)"
proof -
  obtain db1 where "own_key demo_keys demo_sender = ([(3, [7])], db1)" using demo_own by blast
  moreover have "\<exists>env. buildInternalEnvelope demo_crypto 9 [1, 2] ''hi'' [(3, [7]), (3, [7])] = Ok env"
    by (auto simp: buildInternalEnvelope_def demo_crypto_def Let_def)
  ultimately show ?thesis by (auto simp: native_envelope_def demo_sender_def demo_mail_draws_def)
qed

lemma demo_delivery:
  "\<exists>env db1. deliver demo_crypto no_text demo_mail_draws demo_send demo_keys (Some demo_sender) demo_e2e
     = ([NativeMail [3] env ''s'', StandardMail 1 ''c@d'' ''s'' ''hi'' None], MailsSent 1 1 [], db1)"
proof -
  obtain env db1 where "native_envelope demo_crypto demo_mail_draws demo_keys demo_sender [(''a@b'', 3, [7])] ''hi'' = (Ok env, db1)"
    using demo_envelope by blast
  then show ?thesis
    by (simp add: deliver_def demo_e2e_def send_mails_def needs_lookup_def demo_lookups send_native_def
        send_standard_def answer_errors_def Let_def)
      (simp add: demo_send_def)
qed

theorem each_recipient_one_channel_witness:
  "\<exists>out db1. deliver demo_crypto no_text demo_mail_draws demo_send demo_keys (Some demo_sender) demo_e2e
       = (out, MailsSent 1 1 [], db1)
     \<and> mset (parseRecipients ''a@b, c@d'') = mset [''a@b''] + mset [''c@d'']"
proof -
  obtain env db1 where "deliver demo_crypto no_text demo_mail_draws demo_send demo_keys (Some demo_sender) demo_e2e
     = ([NativeMail [3] env ''s'', StandardMail 1 ''c@d'' ''s'' ''hi'' None], MailsSent 1 1 [], db1)"
    using demo_delivery by blast
  moreover have "needs_lookup demo_e2e" "\<not> secureSend demo_e2e" "to_field demo_e2e = ''a@b, c@d''"
    by (simp_all add: needs_lookup_def demo_e2e_def)
  ultimately show ?thesis
    using each_recipient_one_channel [OF _ _ refl, of demo_e2e demo_crypto no_text demo_mail_draws demo_send demo_keys demo_sender]
    by (simp add: demo_lookups)
qed

theorem encrypted_mail_reaches_readers_witness:
  "\<exists>env db1. deliver demo_crypto no_text demo_mail_draws demo_send demo_keys (Some demo_sender) demo_e2e
       = ([NativeMail [3] env ''s'', StandardMail 1 ''c@d'' ''s'' ''hi'' None], MailsSent 1 1 [], db1)
     \<and> decryptWayveBodyIfNeeded demo_crypto id demo_keys env (Some 3) = Ok ''hi''"
proof -
  obtain env db1 where d: "deliver demo_crypto no_text demo_mail_draws demo_send demo_keys (Some demo_sender) demo_e2e
     = ([NativeMail [3] env ''s'', StandardMail 1 ''c@d'' ''s'' ''hi'' None], MailsSent 1 1 [], db1)"
    using demo_delivery by blast
  have f: "needs_lookup demo_e2e" "\<not> secureSend demo_e2e" "to_field demo_e2e = ''a@b, c@d''"
    "mail_text_field demo_e2e = ''hi''" "plan_tier demo_sender = None"
    by (simp_all add: needs_lookup_def demo_e2e_def demo_sender_def)
  obtain db2 where own: "own_key demo_keys demo_sender = ([(3, [7])], db2)" using demo_own by blast
  let ?keys = "map snd (wayve_lookups (lookups demo_send (needs_lookup demo_e2e)
      (parseRecipients (to_field demo_e2e)))) @ fst (own_key demo_keys demo_sender)"
  have keys: "?keys = [(3, [7]), (3, [7])]" by (simp add: f own demo_lookups)
  have "(3, [7]) \<in> set ?keys" "\<forall>q. (3, q) \<in> set ?keys \<longrightarrow> q = [7]" unfolding keys by simp_all
  from encrypted_mail_reaches_readers [OF demo_crypto_ok d f(2) _ refl refl this demo_holds_key(2), of "[3]" env "''s''" id]
  have "decryptWayveBodyIfNeeded demo_crypto id demo_keys env (Some 3) = Ok ''hi''" using f by simp
  with d show ?thesis by blast
qed

theorem fluxze_only_stays_inside_witness:
  "\<exists>db1. deliver demo_crypto no_text demo_mail_draws demo_send demo_keys (Some demo_sender) (demo_form \<lparr>fluxzeOnly := True\<rparr>)
     = ([], Blocked (fluxze_refusal (lookups demo_send True (parseRecipients ''a@b, c@d''))), db1)"
proof -
  let ?f = "demo_form \<lparr>fluxzeOnly := True\<rparr>"
  obtain out e db1 where d: "deliver demo_crypto no_text demo_mail_draws demo_send demo_keys (Some demo_sender) ?f = (out, e, db1)"
    by (cases "deliver demo_crypto no_text demo_mail_draws demo_send demo_keys (Some demo_sender) ?f") auto
  have "snd (begin_mail ?f)" by (simp add: begin_mail_started refused_none demo_parse)
  then show ?thesis
    using fluxze_only_stays_inside [OF _ _ d refl] d by (simp add: demo_lookups)
qed

theorem secure_links_open_witness:
  "\<exists>b out. deliver demo_crypto no_text demo_mail_draws demo_send demo_keys None
        (demo_form \<lparr>secureSend := True, passphrase := ''secret''\<rparr>) = (out, LinksSent 2 [], demo_keys)
     \<and> length out = 2 \<and> openSecureMessage demo_crypto b ''secret'' = Ok ''hi''"
proof -
  let ?f = "demo_form \<lparr>secureSend := True, passphrase := ''secret''\<rparr>"
  have "snd (begin_mail ?f)" by (simp add: begin_mail_started refused_none demo_parse)
  moreover obtain out where d: "deliver demo_crypto no_text demo_mail_draws demo_send demo_keys None ?f = (out, LinksSent 2 [], demo_keys)"
  proof -
    have "sealSecureMessage demo_crypto [4] [5] [6] ''hi'' ''secret'' \<noteq> Throw e" for e
      by (simp add: sealSecureMessage_def Let_def demo_crypto_def subtle_def)
    then obtain b where "sealSecureMessage demo_crypto [4] [5] [6] ''hi'' ''secret'' = Ok b"
      by (cases "sealSecureMessage demo_crypto [4] [5] [6] ''hi'' ''secret''") auto
    then show thesis
      using that by (simp add: deliver_def send_links_def demo_parse answer_errors_def demo_send_def demo_mail_draws_def Let_def)
  qed
  ultimately show ?thesis
    using secure_links_open [OF demo_crypto_ok _ _ d] by (auto simp: demo_parse)
qed

theorem failed_part_sends_all_again_witness:
  "\<exists>out db1. deliver demo_crypto no_text demo_mail_draws demo_send demo_keys None demo_form
        = (out, MailsSent 0 1 [''c@d: failed''], db1)
     \<and> length out = 2
     \<and> fst (deliver demo_crypto no_text demo_mail_draws demo_send demo_keys None
         (finish_mail no_text demo_form (MailsSent 0 1 [''c@d: failed'']) (fst (begin_mail demo_form)))) = out"
proof -
  obtain out db1 where d: "deliver demo_crypto no_text demo_mail_draws demo_send demo_keys None demo_form
      = (out, MailsSent 0 1 [''c@d: failed''], db1)" and "length out = 2"
    using standard_lookups [of demo_send "[''a@b'', ''c@d'']"]
    by (simp add: deliver_def send_mails_def needs_lookup_def demo_parse send_standard_def answer_errors_def Let_def)
      (simp add: demo_send_def no_text_def)
  moreover have "snd (begin_mail demo_form)" by (simp add: begin_mail_started refused_none demo_parse)
  ultimately show ?thesis
    using failed_part_sends_all_again [OF d disjI1 [OF refl] _ _ refl, of demo_mail_draws demo_send demo_keys None] d
    by simp
qed

text \<open>Two letters are typed after an address, a contact is found and picked.\<close>

definition demo_found :: mail_form where
  "demo_found = search_answers 1 (Ok [\<lparr>contact_address = ''bob@x'', contact_name = None\<rparr>])
     (search_fires (edit_to ''a@b, bo'' None (compose_init 1)))"

lemma demo_found_run: "compose_run says 1 demo_found"
proof -
  have "compose_run says 1 (search_fires (edit_to ''a@b, bo'' None (compose_init 1)))"
    by (rule stepped [OF stepped [OF opened typed_to] search_asked]) simp
  moreover have "(1, ''bo'') \<in> set (contactAsked (search_fires (edit_to ''a@b, bo'' None (compose_init 1))))"
    by code_simp
  ultimately show ?thesis unfolding demo_found_def by (blast intro: stepped search_answered)
qed

theorem picked_contact_is_recipient_witness:
  "parseRecipients (to_field (applyContact ''bob@x'' demo_found)) = [''a@b'', ''bob@x'']"
proof -
  have "contactOpen demo_found" "contactRange demo_found = (5, 7)" "to_field demo_found = ''a@b, bo''"
    "\<forall>x \<in> set ''bob@x''. \<not> recipient_sep x" "parseRecipients ''a@b, '' = [''a@b'']" by code_simp+
  then show ?thesis
    using picked_contact_is_recipient [OF demo_found_run, of "''bob@x''" "''a@b, ''" "[]"] by simp
qed

end
