(* ===== verification/Notes_Page.thy ===== *)
theory Notes_Page
  imports Open_Places Note_Encryption Mail_Encryption
begin

text \<open>
  The notes page: \<open>notes/Notes.tsx\<close> over \<open>api/notes.ts\<close>. Ids are numbers as they are printed. The
  code before and after an \<open>await\<close> are separate definitions; what the server answers, and the
  device whose key reads the rows of the time when notes were encrypted, are arguments. The
  effect that remembers the open note for a return runs after a change of what it depends on.
\<close>

section \<open>The page\<close>

record note_row =
  n_id :: string
  n_title :: "string option"
  n_content :: "string option"
  n_updated :: "string option"

datatype selected = NoNote | NewNote | OldNote string

datatype note_request =
    CreateNote string string
  | UpdateNote string string string
  | DeleteNote string

record notes_page =
  np_notes :: "note_row list"
  np_selected :: selected
  np_title :: string
  np_content :: string
  np_focus :: bool
  np_unchecked :: "open_note option"
  np_saving :: bool
  np_status :: "string option"
  np_grid :: bool
  np_store :: session_store
  np_requests :: "note_request list"

definition selected_of :: "string option \<Rightarrow> selected" where
  "selected_of i = (case i of None \<Rightarrow> NewNote | Some t \<Rightarrow> OldNote t)"

definition note_of :: "selected \<Rightarrow> string option" where
  "note_of s = (case s of OldNote t \<Rightarrow> Some t | _ \<Rightarrow> None)"

text \<open>The form differs from the note it opened.\<close>

definition editing_note :: "notes_page \<Rightarrow> note_row option" where
  "editing_note p = (case np_selected p of OldNote t \<Rightarrow> find (\<lambda>n. n_id n = t) (np_notes p) | _ \<Rightarrow> None)"

definition dirty :: "notes_page \<Rightarrow> bool" where
  "dirty p =
     (case editing_note p of
        None \<Rightarrow> True
      | Some n \<Rightarrow> np_title p \<noteq> nullish (n_title n) [] \<or> np_content p \<noteq> nullish (n_content n) [])"

definition remember_note :: "nat option \<Rightarrow> notes_page \<Rightarrow> notes_page" where
  "remember_note u p =
     p \<lparr>np_store :=
        (if np_selected p = NoNote \<or> \<not> given_id u then forgetOpenNote (np_store p)
         else rememberOpenNote
           \<lparr>on_user = the u, on_note = note_of (np_selected p), on_title = np_title p, on_content = np_content p,
            on_edited = (case np_unchecked p of Some r \<Rightarrow> on_edited r | None \<Rightarrow> dirty p)\<rparr> (np_store p))\<rparr>"

text \<open>The effect after a render: it runs when the form, the selection or \<open>dirty\<close> changed.\<close>

definition effect_deps :: "notes_page \<Rightarrow> selected \<times> string \<times> string \<times> bool" where
  "effect_deps p = (np_selected p, np_title p, np_content p, dirty p)"

definition rendered :: "nat option \<Rightarrow> notes_page \<Rightarrow> notes_page \<Rightarrow> notes_page" where
  "rendered u p q = (if effect_deps q = effect_deps p then q else remember_note u q)"

definition open_page :: "nat option \<Rightarrow> bool \<Rightarrow> session_store \<Rightarrow> notes_page" where
  "open_page u grid st =
     (let restored = readOpenNote u st in
      remember_note u
        \<lparr>np_notes = [], np_selected = (case restored of None \<Rightarrow> NoNote | Some r \<Rightarrow> selected_of (on_note r)),
         np_title = (case restored of None \<Rightarrow> [] | Some r \<Rightarrow> on_title r),
         np_content = (case restored of None \<Rightarrow> [] | Some r \<Rightarrow> on_content r),
         np_focus = (restored = None),
         np_unchecked = (case restored of Some r \<Rightarrow> if on_note r \<noteq> None then Some r else None | None \<Rightarrow> None),
         np_saving = False, np_status = None, np_grid = grid, np_store = st, np_requests = []\<rparr>)"

section \<open>Operations\<close>

text \<open>The rows of the answer, the old encrypted ones read with the device's key.\<close>

definition read_field ::
  "('aes, 'pub, 'priv) webcrypto \<Rightarrow> key_db \<Rightarrow> nat \<Rightarrow> string option \<Rightarrow> string option result" where
  "read_field wc db u v =
     (case v of Some (c # s) \<Rightarrow> map_sum id Some (decryptForSelf wc db (c # s) u) | _ \<Rightarrow> Ok v)"

fun readable_notes ::
  "('aes, 'pub, 'priv) webcrypto \<Rightarrow> key_db \<Rightarrow> nat \<Rightarrow> note_row list \<Rightarrow> note_row list result" where
  "readable_notes wc db u [] = Ok []"
| "readable_notes wc db u (n # ns) =
     bind_result (read_field wc db u (n_title n)) (\<lambda>t.
     bind_result (read_field wc db u (n_content n)) (\<lambda>c.
     bind_result (readable_notes wc db u ns) (\<lambda>rest. Ok (n \<lparr>n_title := t, n_content := c\<rparr> # rest))))"

definition finish_notes :: "note_row list result \<Rightarrow> notes_page \<Rightarrow> notes_page" where
  "finish_notes r p =
     (case r of
        Throw e \<Rightarrow> p
      | Ok ns \<Rightarrow>
          (let p1 = p \<lparr>np_notes := ns, np_unchecked := None\<rparr> in
           case np_unchecked p of
             None \<Rightarrow> p1
           | Some x \<Rightarrow>
               (let saved = find (\<lambda>n. Some (n_id n) = on_note x) ns;
                    here = (np_selected p = selected_of (on_note x)) in
                if on_edited x
                then (if saved = None \<and> here then p1 \<lparr>np_selected := NewNote\<rparr> else p1)
                else p1 \<lparr>np_selected := (if here \<and> saved = None then NoNote else np_selected p),
                  np_title := (if np_title p = on_title x
                     then (case saved of Some n \<Rightarrow> nullish (n_title n) [] | None \<Rightarrow> []) else np_title p),
                  np_content := (if np_content p = on_content x
                     then (case saved of Some n \<Rightarrow> nullish (n_content n) [] | None \<Rightarrow> []) else np_content p)\<rparr>)))"

definition openNew :: "notes_page \<Rightarrow> notes_page" where
  "openNew p = p \<lparr>np_focus := True, np_selected := NewNote, np_title := [], np_content := []\<rparr>"

definition openNote :: "note_row \<Rightarrow> notes_page \<Rightarrow> notes_page" where
  "openNote n p =
     p \<lparr>np_focus := True, np_selected := OldNote (n_id n), np_title := nullish (n_title n) [],
        np_content := nullish (n_content n) []\<rparr>"

definition closeEditor :: "notes_page \<Rightarrow> notes_page" where
  "closeEditor p = p \<lparr>np_selected := NoNote, np_title := [], np_content := []\<rparr>"

text \<open>The tick of the messages is outside Latin-1.\<close>

definition check_sign :: string where "check_sign = ''(v)''"

definition is_new :: "selected \<Rightarrow> bool" where
  "is_new s \<longleftrightarrow> s = NewNote \<or> s = NoNote"

definition begin_note_save :: "nat option \<Rightarrow> notes_page \<Rightarrow> notes_page" where
  "begin_note_save u p =
     (if trim (np_title p) = [] \<and> trim (np_content p) = [] then p \<lparr>np_status := Some ''Note is empty''\<rparr>
      else if \<not> given_id u then p \<lparr>np_status := Some ''Sign-in required''\<rparr>
      else p \<lparr>np_saving := True, np_requests := np_requests p @
        [case np_selected p of
           OldNote t \<Rightarrow> UpdateNote t (np_title p) (np_content p)
         | _ \<Rightarrow> CreateNote (np_title p) (np_content p)]\<rparr>)"

text \<open>\<open>was\<close> is the selection of the click; an accepted save fetches the list before it closes.\<close>

definition save_answered :: "selected \<Rightarrow> string result \<Rightarrow> notes_page \<Rightarrow> notes_page" where
  "save_answered was r p =
     (case r of
        Ok i \<Rightarrow> p \<lparr>np_selected := OldNote i,
          np_status := Some ((if is_new was then ''Created '' else ''Saved '') @ check_sign)\<rparr>
      | Throw e \<Rightarrow> p \<lparr>np_status := Some ''Save failed'', np_saving := False\<rparr>)"

definition finish_note_save :: "note_row list result \<Rightarrow> notes_page \<Rightarrow> notes_page" where
  "finish_note_save r p = (closeEditor (finish_notes r p)) \<lparr>np_saving := False\<rparr>"

definition begin_remove :: "bool \<Rightarrow> notes_page \<Rightarrow> notes_page" where
  "begin_remove confirmed p =
     (case np_selected p of
        OldNote t \<Rightarrow> if \<not> confirmed then p else p \<lparr>np_requests := np_requests p @ [DeleteNote t]\<rparr>
      | _ \<Rightarrow> closeEditor p)"

definition remove_answered :: "unit result \<Rightarrow> notes_page \<Rightarrow> notes_page" where
  "remove_answered r p =
     (case r of
        Ok _ \<Rightarrow> (closeEditor p) \<lparr>np_status := Some ''Deleted''\<rparr>
      | Throw e \<Rightarrow> p \<lparr>np_status := Some ''Delete failed''\<rparr>)"

definition note_matches :: "string \<Rightarrow> note_row \<Rightarrow> bool" where
  "note_matches q n =
     has_part q (toLowerCase (join '' '' [nullish (n_title n) [], nullish (n_content n) [], nullish (n_updated n) []]))"

definition visibleNotes :: "string \<Rightarrow> notes_page \<Rightarrow> note_row list" where
  "visibleNotes q p = (if q = [] then np_notes p else filter (note_matches q) (np_notes p))"

text \<open>What the user and the answers do; the buttons work as the page enables them.\<close>

inductive page_change :: "nat option \<Rightarrow> notes_page \<Rightarrow> notes_page \<Rightarrow> bool" for u where
  typed_title: "np_selected p \<noteq> NoNote \<Longrightarrow> page_change u p (p \<lparr>np_title := t\<rparr>)"
| typed_content: "np_selected p \<noteq> NoNote \<Longrightarrow> page_change u p (p \<lparr>np_content := t\<rparr>)"
| new_note: "np_selected p = NoNote \<Longrightarrow> page_change u p (openNew p)"
| note_opened: "np_selected p = NoNote \<Longrightarrow> n \<in> set (np_notes p) \<Longrightarrow> page_change u p (openNote n p)"
| cancelled: "\<not> np_saving p \<Longrightarrow> page_change u p (closeEditor p)"
| save_pressed: "np_selected p \<noteq> NoNote \<Longrightarrow> \<not> np_saving p \<Longrightarrow> dirty p \<Longrightarrow> page_change u p (begin_note_save u p)"
| saved: "number_text i \<Longrightarrow> page_change u p (save_answered s (Ok i) p)"
| save_refused: "page_change u p (save_answered s (Throw e) p)"
| save_done: "\<forall>ns. r = Ok ns \<longrightarrow> (\<forall>n \<in> set ns. number_text (n_id n)) \<Longrightarrow> page_change u p (finish_note_save r p)"
| fetched: "\<forall>ns. r = Ok ns \<longrightarrow> (\<forall>n \<in> set ns. number_text (n_id n)) \<Longrightarrow> page_change u p (finish_notes r p)"
| remove_pressed: "\<not> np_saving p \<Longrightarrow> page_change u p (begin_remove b p)"
| removed: "page_change u p (remove_answered a p)"
| status_over: "page_change u p (p \<lparr>np_status := None\<rparr>)"
| view_set: "page_change u p (p \<lparr>np_grid := g\<rparr>)"

inductive page_run :: "nat option \<Rightarrow> notes_page \<Rightarrow> bool" for u where
  page_opened: "usable st \<Longrightarrow> page_run u (open_page u g st)"
| page_changed: "page_run u p \<Longrightarrow> page_change u p q \<Longrightarrow> page_run u (rendered u p q)"

section \<open>Leaving and coming back\<close>

lemma restored_number:
  assumes "readOpenNote u st = Some r" "on_note r = Some t"
  shows "number_text t"
proof -
  obtain i v where v: "get_json NOTE_KEY st = Some v" "note_of_json i v = Some r"
    using assms(1) by (auto simp: readOpenNote_def bind_eq_Some_conv split: option.splits)
  then have "on_note r = as_number (field v ''noteId'')"
    by (auto simp: note_of_json_def Let_def split: if_splits option.splits)
  then have "field v ''noteId'' = Some (JNum t)"
    using assms(2) by (auto simp: as_number_def split: option.splits json.splits)
  from field_ok [OF get_json_ok [OF v(1)] this] show ?thesis by (simp add: number_text_def)
qed

lemma selected_note [simp]: "s \<noteq> NoNote \<Longrightarrow> selected_of (note_of s) = s"
  by (cases s) (simp_all add: selected_of_def note_of_def)

lemma remembered_fields [simp]:
  "np_selected (remember_note u p) = np_selected p" "np_title (remember_note u p) = np_title p"
  "np_content (remember_note u p) = np_content p" "np_notes (remember_note u p) = np_notes p"
  "np_unchecked (remember_note u p) = np_unchecked p" "np_focus (remember_note u p) = np_focus p"
  "np_requests (remember_note u p) = np_requests p"
  by (simp_all add: remember_note_def)

lemma usable_store [simp]: "usable (rememberOpenNote x st) = usable st" "usable (forgetOpenNote st) = usable st"
  by (simp_all add: rememberOpenNote_def forgetOpenNote_def put_json_def set_item_def remove_item_def)

lemma remembered_store:
  assumes "usable (np_store p)" "\<forall>t. np_selected p = OldNote t \<longrightarrow> number_text t"
  shows "readOpenNote u (np_store (remember_note u p)) =
    (if np_selected p = NoNote \<or> \<not> given_id u then None
     else Some \<lparr>on_user = the u, on_note = note_of (np_selected p), on_title = np_title p, on_content = np_content p,
        on_edited = (case np_unchecked p of Some r \<Rightarrow> on_edited r | None \<Rightarrow> dirty p)\<rparr>)"
proof (cases u)
  case (Some i)
  have "\<forall>t. note_of (np_selected p) = Some t \<longrightarrow> number_text t"
    using assms(2) by (simp add: note_of_def split: selected.split)
  then show ?thesis
    using Some note_place.comes_back [OF assms(1)] note_place.forgotten [OF assms(1)]
    by (simp add: remember_note_def readOpenNote_def rememberOpenNote_def forgetOpenNote_def)
qed (simp add: readOpenNote_def given_id_def)

definition remembered_shown :: "nat option \<Rightarrow> notes_page \<Rightarrow> bool" where
  "remembered_shown u p \<longleftrightarrow>
     (\<exists>e. readOpenNote u (np_store p) =
       (if np_selected p = NoNote \<or> \<not> given_id u then None
        else Some \<lparr>on_user = the u, on_note = note_of (np_selected p), on_title = np_title p,
                  on_content = np_content p, on_edited = e\<rparr>))"

definition ids_printed :: "notes_page \<Rightarrow> bool" where
  "ids_printed p \<longleftrightarrow>
     (\<forall>t. np_selected p = OldNote t \<longrightarrow> number_text t) \<and> (\<forall>n \<in> set (np_notes p). number_text (n_id n))"

definition notes_ok :: "nat option \<Rightarrow> notes_page \<Rightarrow> bool" where
  "notes_ok u p \<longleftrightarrow> usable (np_store p) \<and> ids_printed p \<and> remembered_shown u p"

lemma closed_fields [simp]:
  "np_selected (closeEditor p) = NoNote" "np_title (closeEditor p) = []" "np_content (closeEditor p) = []"
  "np_store (closeEditor p) = np_store p" "np_notes (closeEditor p) = np_notes p"
  "np_requests (closeEditor p) = np_requests p"
  by (simp_all add: closeEditor_def)

lemma finish_notes_keeps:
  "np_store (finish_notes r p) = np_store p" "np_requests (finish_notes r p) = np_requests p"
  "np_selected (finish_notes r p) \<in> {np_selected p, NewNote, NoNote}"
  "np_notes (finish_notes r p) = (case r of Ok ns \<Rightarrow> ns | Throw e \<Rightarrow> np_notes p)"
  by (cases r; cases "np_unchecked p"; simp add: finish_notes_def Let_def)+

lemma page_change_keeps:
  "page_change u p q \<Longrightarrow> ids_printed p \<Longrightarrow> np_store q = np_store p \<and> ids_printed q"
proof (induction rule: page_change.induct)
  case (save_done r p)
  then show ?case
    using finish_notes_keeps [of r p] by (cases r) (simp_all add: finish_note_save_def ids_printed_def)
next
  case (fetched r p)
  then show ?case
    using finish_notes_keeps [of r p] by (cases r) (auto simp: ids_printed_def)
next
  case (remove_pressed p b)
  then show ?case by (simp add: begin_remove_def ids_printed_def split: selected.split)
next
  case (removed a p)
  then show ?case by (simp add: remove_answered_def ids_printed_def split: sum.split)
qed (simp_all add: openNew_def openNote_def begin_note_save_def save_answered_def ids_printed_def)

lemma rendered_ok:
  assumes "notes_ok u p" "np_store q = np_store p" "ids_printed q"
  shows "notes_ok u (rendered u p q)"
proof (cases "effect_deps q = effect_deps p")
  case True
  then show ?thesis
    using assms by (auto simp: rendered_def effect_deps_def notes_ok_def remembered_shown_def)
next
  case False
  have "usable (np_store q)" "\<forall>t. np_selected q = OldNote t \<longrightarrow> number_text t"
    using assms by (simp_all add: notes_ok_def ids_printed_def)
  from remembered_store [OF this, of u] this(1) show ?thesis
    using False assms(3) by (simp add: rendered_def notes_ok_def ids_printed_def remembered_shown_def)
      (simp add: remember_note_def)
qed

lemma opened_fields:
  "np_selected (open_page u g st) = (case readOpenNote u st of None \<Rightarrow> NoNote | Some r \<Rightarrow> selected_of (on_note r))"
  "np_title (open_page u g st) = (case readOpenNote u st of None \<Rightarrow> [] | Some r \<Rightarrow> on_title r)"
  "np_content (open_page u g st) = (case readOpenNote u st of None \<Rightarrow> [] | Some r \<Rightarrow> on_content r)"
  "np_notes (open_page u g st) = []"
  "np_unchecked (open_page u g st) =
     (case readOpenNote u st of Some r \<Rightarrow> if on_note r \<noteq> None then Some r else None | None \<Rightarrow> None)"
  "np_focus (open_page u g st) = (readOpenNote u st = None)"
  by (simp_all add: open_page_def Let_def)

lemma opened_ok: "usable st \<Longrightarrow> notes_ok u (open_page u g st)"
proof -
  assume st: "usable st"
  define p where "p = \<lparr>np_notes = [],
         np_selected = (case readOpenNote u st of None \<Rightarrow> NoNote | Some r \<Rightarrow> selected_of (on_note r)),
         np_title = (case readOpenNote u st of None \<Rightarrow> [] | Some r \<Rightarrow> on_title r),
         np_content = (case readOpenNote u st of None \<Rightarrow> [] | Some r \<Rightarrow> on_content r),
         np_focus = (readOpenNote u st = None),
         np_unchecked = (case readOpenNote u st of Some r \<Rightarrow> if on_note r \<noteq> None then Some r else None | None \<Rightarrow> None),
         np_saving = False, np_status = None, np_grid = g, np_store = st, np_requests = []\<rparr>"
  have o: "open_page u g st = remember_note u p" by (simp add: open_page_def p_def Let_def)
  have "\<forall>t. np_selected p = OldNote t \<longrightarrow> number_text t"
    using restored_number by (auto simp: p_def selected_of_def split: option.splits)
  then show ?thesis
    using st remembered_store [of p u] unfolding o notes_ok_def ids_printed_def remembered_shown_def
    by (simp add: p_def) (simp add: remember_note_def)
qed

lemma page_run_ok: "page_run u p \<Longrightarrow> notes_ok u p"
proof (induction rule: page_run.induct)
  case (page_changed p q)
  then have "np_store q = np_store p \<and> ids_printed q"
    using page_change_keeps [OF page_changed(2)] by (simp add: notes_ok_def)
  then show ?case using rendered_ok [OF page_changed(3)] by simp
qed (rule opened_ok)

text \<open>
  C37: Leaving the notes page and coming back shows the same note with the same text, in every
  state the page can reach, whatever answers are still on their way; a closed editor stays
  closed.
\<close>

theorem editor_comes_back:
  assumes "page_run u p" "given_id u" "q = open_page u g (np_store p)"
  shows "np_selected q = np_selected p
    \<and> (np_selected p \<noteq> NoNote \<longrightarrow> np_title q = np_title p \<and> np_content q = np_content p \<and> \<not> np_focus q)"
  using page_run_ok [OF assms(1)] assms(2,3)
  by (auto simp: notes_ok_def remembered_shown_def opened_fields)

text \<open>
  A note that was left with edits keeps them when the list arrives, and becomes a new note when
  it was deleted meanwhile; one left without edits shows the saved copy, or closes when there is
  none. A failed request changes nothing.
\<close>

theorem return_checks_saved_copy:
  assumes "readOpenNote u st = Some r" "on_note r = Some t" "p = open_page u g st"
    and "saved = find (\<lambda>n. n_id n = t) ns" "q = finish_notes (Ok ns) p"
  shows "(on_edited r \<longrightarrow> np_title q = on_title r \<and> np_content q = on_content r
           \<and> np_selected q = (if saved = None then NewNote else OldNote t) \<and> (saved = None \<longrightarrow> dirty q))
    \<and> (\<not> on_edited r \<longrightarrow> (case saved of
           None \<Rightarrow> np_selected q = NoNote \<and> np_title q = [] \<and> np_content q = []
         | Some n \<Rightarrow> np_selected q = OldNote t \<and> np_title q = nullish (n_title n) []
             \<and> np_content q = nullish (n_content n) [] \<and> \<not> dirty q))
    \<and> finish_notes (Throw e) p = p"
proof -
  have p: "np_selected p = OldNote t" "np_title p = on_title r" "np_content p = on_content r" "np_unchecked p = Some r"
    using assms(1-3) by (simp_all add: opened_fields selected_of_def)
  have q: "q = (let p1 = p \<lparr>np_notes := ns, np_unchecked := None\<rparr> in
      if on_edited r then (if saved = None then p1 \<lparr>np_selected := NewNote\<rparr> else p1)
      else p1 \<lparr>np_selected := (if saved = None then NoNote else OldNote t),
             np_title := (case saved of Some n \<Rightarrow> nullish (n_title n) [] | None \<Rightarrow> []),
             np_content := (case saved of Some n \<Rightarrow> nullish (n_content n) [] | None \<Rightarrow> [])\<rparr>)"
    by (simp add: assms(4,5) finish_notes_def p assms(2) selected_of_def Let_def)
  show ?thesis
  proof (cases saved)
    case None
    then show ?thesis
      by (simp add: q p dirty_def editing_note_def Let_def) (simp add: finish_notes_def)
  next
    case (Some n)
    then show ?thesis
      using assms(4) by (simp add: q p dirty_def editing_note_def Let_def) (simp add: finish_notes_def)
  qed
qed

text \<open>
  Text typed into a restored note before the list has arrived is not marked as an edit: on the
  next return the saved copy replaces it.
\<close>

theorem early_typing_is_lost:
  assumes "usable st" "given_id u" "readOpenNote u st = Some r" "on_note r = Some t" "\<not> on_edited r"
    and "find (\<lambda>n. n_id n = t) ns = Some n" "n_title n = Some (on_title r)" "typed \<noteq> on_content r"
    and "typed \<noteq> nullish (n_content n) []"
    and "p = rendered u (open_page u g st) ((open_page u g st) \<lparr>np_content := typed\<rparr>)"
    and "q = rendered u p (finish_notes (Ok ns) p)"
  shows "np_content q = typed \<and> dirty q
    \<and> np_content (finish_notes (Ok ns) (open_page u g (np_store q))) = nullish (n_content n) []"
proof -
  let ?o = "open_page u g st"
  have o: "np_selected ?o = OldNote t" "np_title ?o = on_title r" "np_content ?o = on_content r"
    "np_unchecked ?o = Some r" "np_notes ?o = []"
    using assms(3,4) by (simp_all add: opened_fields selected_of_def)
  let ?p = "?o \<lparr>np_content := typed\<rparr>"
  have "effect_deps ?p \<noteq> effect_deps ?o" using assms(8) by (simp add: effect_deps_def o)
  then have p: "p = remember_note u ?p" by (simp add: assms(10) rendered_def)
  have "usable (np_store ?p)" "\<forall>s. np_selected ?p = OldNote s \<longrightarrow> number_text s"
    using opened_ok [OF assms(1), of u g] by (simp_all add: notes_ok_def ids_printed_def)
  then have kept: "readOpenNote u (np_store p)
      = Some \<lparr>on_user = the u, on_note = Some t, on_title = on_title r, on_content = typed, on_edited = False\<rparr>"
    using remembered_store [of ?p u] assms(2,5) by (simp add: p o note_of_def)
  have f: "finish_notes (Ok ns) p = p \<lparr>np_notes := ns, np_unchecked := None\<rparr>"
    using assms(4-9) by (simp add: finish_notes_def p o selected_of_def Let_def)
  then have "effect_deps (finish_notes (Ok ns) p) = effect_deps p"
    using assms(6,9) by (simp add: effect_deps_def dirty_def editing_note_def p o)
  then have q: "q = p \<lparr>np_notes := ns, np_unchecked := None\<rparr>" by (simp add: assms(11) rendered_def f)
  have "np_content (finish_notes (Ok ns) (open_page u g (np_store q))) = nullish (n_content n) []"
    using kept assms(6) by (simp add: finish_notes_def opened_fields q selected_of_def Let_def)
  then show ?thesis
    using assms(6,9) by (simp add: q) (simp add: p o dirty_def editing_note_def)
qed

text \<open>
  What is typed while a save is on its way reaches neither the server nor the place that is
  remembered: the save posts the text of the click, and its end closes the editor.
\<close>

theorem typing_during_save_is_lost:
  assumes "given_id u" "trim (np_title p) \<noteq> [] \<or> trim (np_content p) \<noteq> []" "np_selected p \<noteq> NoNote"
    and "usable (np_store p)" "number_text i" "p1 = begin_note_save u p" "p2 = rendered u p1 (p1 \<lparr>np_content := typed\<rparr>)"
    and "p3 = rendered u p2 (save_answered (np_selected p) (Ok i) p2)" "p4 = rendered u p3 (finish_note_save r p3)"
  shows "np_requests p4 = np_requests p @ [case np_selected p of
           OldNote t \<Rightarrow> UpdateNote t (np_title p) (np_content p) | _ \<Rightarrow> CreateNote (np_title p) (np_content p)]
    \<and> np_selected p4 = NoNote \<and> np_content p4 = [] \<and> readOpenNote u (np_store p4) = None"
proof -
  have req: "np_requests (rendered u x y) = np_requests y" "np_selected (rendered u x y) = np_selected y"
    "np_content (rendered u x y) = np_content y" for x y
    by (simp_all add: rendered_def)
  have use: "usable (np_store (rendered u x y))" if "usable (np_store y)" for x y
    using that by (simp add: rendered_def remember_note_def)
  have p1: "np_requests p1 = np_requests p @ [case np_selected p of
      OldNote t \<Rightarrow> UpdateNote t (np_title p) (np_content p) | _ \<Rightarrow> CreateNote (np_title p) (np_content p)]"
    "usable (np_store p1)"
    using assms(1,2,4) by (simp_all add: assms(6) begin_note_save_def)
  have p2: "np_requests p2 = np_requests p1" "usable (np_store p2)"
    using p1 by (simp_all add: assms(7) req use)
  have p3: "np_requests p3 = np_requests p1" "np_selected p3 = OldNote i" "usable (np_store p3)"
    using p2 by (simp_all add: assms(8) req use save_answered_def)
  let ?f = "finish_note_save r p3"
  have f: "np_requests ?f = np_requests p1" "np_selected ?f = NoNote" "np_content ?f = []" "usable (np_store ?f)"
    using p3 finish_notes_keeps [of r p3] by (simp_all add: finish_note_save_def)
  then have "effect_deps ?f \<noteq> effect_deps p3" using p3 by (simp add: effect_deps_def)
  then have "p4 = remember_note u ?f" by (simp add: assms(9) rendered_def)
  then have "readOpenNote u (np_store p4) = None" using remembered_store [of ?f u] f by simp
  then show ?thesis using f p1(1) by (simp add: assms(9) req)
qed

text \<open>
  An old encrypted note on a device without its key is shown as a notice. Changing only its
  title and saving posts the notice in place of the note.
\<close>

theorem notice_overwrites_note:
  assumes "loadPrivateKey wc (Some u) None db = Ok (None, db1)" "u \<noteq> 0"
    and "distinct (map fst keys)" "u \<in> fst ` set keys" "\<not> isSelfEncrypted t" "trim t2 \<noteq> []" "t2 \<noteq> t"
    and "row = \<lparr>n_id = i, n_title = Some t, n_content = Some (note_text data iv keys), n_updated = None\<rparr>"
  shows "\<exists>shown. readable_notes wc db u [row] = Ok [shown] \<and>
    (let p = (openNote shown (finish_notes (Ok [shown]) p0)) \<lparr>np_title := t2\<rparr> in
     dirty p \<and> np_requests (begin_note_save (Some u) p)
       = np_requests p0 @ [UpdateNote i t2 (encrypted_notice ''key not on this device'')])"
proof -
  obtain wk where wk: "map_of keys u = Some wk" using assms(4) by (metis map_of_eq_None_iff option.exhaust)
  have "decryptForSelf wc db (note_text data iv keys) u = Ok (encrypted_notice ''key not on this device'')"
    using assms(1) wk by (simp add: decrypt_note_text map_of_keys [OF assms(3)])
  moreover have "note_text data iv keys \<noteq> []" by (simp add: note_text_def SECURE_PREFIX_def)
  ultimately have "read_field wc db u (Some (note_text data iv keys)) = Ok (Some (encrypted_notice ''key not on this device''))"
    by (cases "note_text data iv keys") (simp_all add: read_field_def)
  moreover have "read_field wc db u (Some t) = Ok (Some t)"
    using assms(5) by (cases t) (simp_all add: read_field_def decryptForSelf_def)
  ultimately have "readable_notes wc db u [row]
      = Ok [row \<lparr>n_content := Some (encrypted_notice ''key not on this device'')\<rparr>]" by (simp add: assms(8))
  moreover have "given_id (Some u)" using assms(2) by (simp add: given_id_def)
  ultimately show ?thesis
    using assms(6,7) finish_notes_keeps [of "Ok [row \<lparr>n_content := Some (encrypted_notice ''key not on this device'')\<rparr>]" p0]
    by (simp add: openNote_def dirty_def editing_note_def begin_note_save_def Let_def assms(8))
qed

section \<open>Examples\<close>

definition demo_left :: open_note where
  "demo_left = \<lparr>on_user = 3, on_note = Some ''4'', on_title = ''t'', on_content = ''old'', on_edited = False\<rparr>"

definition demo_copy :: note_row where
  "demo_copy = \<lparr>n_id = ''4'', n_title = Some ''t'', n_content = Some ''new'', n_updated = None\<rparr>"

definition demo_tab :: session_store where
  "demo_tab = rememberOpenNote demo_left empty_tab"

lemma demo_tab_left: "usable demo_tab" "readOpenNote (Some 3) demo_tab = Some demo_left"
  using note_place.comes_back [OF demo_place_ok(1), of demo_left NOTE_KEY 3]
  by (simp_all add: demo_tab_def readOpenNote_def) (simp_all add: demo_left_def demo_place_ok rememberOpenNote_def empty_tab_def)

lemma demo_given: "given_id (Some 3)"
  by (simp add: given_id_def)

theorem editor_comes_back_witness:
  "np_content (open_page (Some 3) False (np_store (open_page (Some 3) False demo_tab))) = ''old''"
proof -
  let ?p = "open_page (Some 3) False demo_tab"
  have "np_selected ?p = OldNote ''4''" "np_content ?p = ''old''"
    by (simp_all add: opened_fields demo_tab_left(2)) (simp_all add: demo_left_def selected_of_def)
  then show ?thesis
    using editor_comes_back [OF page_opened [OF demo_tab_left(1)] demo_given refl, of False False] by simp
qed

theorem return_checks_saved_copy_witness:
  "np_content (finish_notes (Ok [demo_copy]) (open_page (Some 3) False demo_tab)) = ''new''"
  using return_checks_saved_copy [OF demo_tab_left(2) _ refl refl refl, of "''4''" "[demo_copy]"]
  by (simp add: demo_left_def demo_copy_def)

theorem early_typing_is_lost_witness:
  "\<exists>q :: notes_page. np_content q = ''mine''
    \<and> np_content (finish_notes (Ok [demo_copy]) (open_page (Some 3) False (np_store q))) = ''new''"
proof -
  define p where "p = rendered (Some 3) (open_page (Some 3) False demo_tab)
    ((open_page (Some 3) False demo_tab) \<lparr>np_content := ''mine''\<rparr>)"
  define q where "q = rendered (Some 3) p (finish_notes (Ok [demo_copy]) p)"
  show ?thesis
    using early_typing_is_lost [OF demo_tab_left(1) demo_given demo_tab_left(2) _ _ _ _ _ _ p_def q_def,
        of "''4''" demo_copy]
    by - (rule exI [of _ q], simp add: demo_left_def demo_copy_def)
qed

theorem typing_during_save_is_lost_witness:
  "\<exists>p4 :: notes_page. np_requests p4 = [CreateNote ''t'' ''x''] \<and> np_content p4 = []"
proof -
  let ?p = "\<lparr>np_notes = [], np_selected = NewNote, np_title = ''t'', np_content = ''x'', np_focus = True,
      np_unchecked = None, np_saving = False, np_status = None, np_grid = False, np_store = empty_tab, np_requests = []\<rparr>"
  define p1 where "p1 = begin_note_save (Some 3) ?p"
  define p2 where "p2 = rendered (Some 3) p1 (p1 \<lparr>np_content := ''y''\<rparr>)"
  define p3 where "p3 = rendered (Some 3) p2 (save_answered (np_selected ?p) (Ok ''4'') p2)"
  define p4 where "p4 = rendered (Some 3) p3 (finish_note_save (Throw TypeError) p3)"
  have "trim ''t'' \<noteq> []" by code_simp
  then show ?thesis
    using typing_during_save_is_lost [OF demo_given _ _ _ demo_place_ok(3) p1_def p2_def p3_def p4_def]
    by - (rule exI [of _ p4], simp add: demo_place_ok)
qed

theorem notice_overwrites_note_witness:
  "\<exists>shown. readable_notes demo_crypto \<lparr>db_opens = True, slots = Map.empty\<rparr> 3
     [\<lparr>n_id = ''4'', n_title = Some ''t'', n_content = Some (note_text [1] [2] [(3, [5])]), n_updated = None\<rparr>] = Ok [shown]
   \<and> (let p = (openNote shown (finish_notes (Ok [shown]) (open_page None False empty_tab))) \<lparr>np_title := ''u''\<rparr> in
        dirty p \<and> np_requests (begin_note_save (Some 3) p) = np_requests (open_page None False empty_tab)
          @ [UpdateNote ''4'' ''u'' (encrypted_notice ''key not on this device'')])"
proof (rule notice_overwrites_note)
  show "loadPrivateKey demo_crypto (Some 3) None \<lparr>db_opens = True, slots = Map.empty\<rparr>
      = Ok (None, \<lparr>db_opens = True, slots = Map.empty\<rparr>)"
    by (simp add: loadPrivateKey_def priv.load_by_id)
  show "\<not> isSelfEncrypted ''t''" "trim ''u'' \<noteq> []" by code_simp+
qed simp_all

end
