(* ===== verification/Reminder_Popups.thy ===== *)
theory Reminder_Popups
  imports Open_Places
begin

text \<open>
  The alerts of reminders and meetings: \<open>components/ReminderPopups.tsx\<close>. Times are milliseconds of
  the machine's clock. Reading a date and printing a time of day are the browser's; whether a
  toast appears and what the settings say are arguments. Events are run one after another, and a
  reload of the page starts again from what the tab's storage holds.
\<close>

section \<open>Constants and storage\<close>

definition LEAD_MS :: int where "LEAD_MS = 60000"
definition GRACE_MS :: int where "GRACE_MS = 2 * 60000"
definition TICK_MS :: int where "TICK_MS = 20000"
definition DEFAULT_MEETING_LEAD_MIN :: int where "DEFAULT_MEETING_LEAD_MIN = 10"
definition SNOOZE_OPTIONS :: "int list" where "SNOOZE_OPTIONS = [5, 10, 30]"

definition DISMISS_KEY :: string where "DISMISS_KEY = ''rwayve.reminderPopups.dismissed''"
definition SNOOZE_KEY :: string where "SNOOZE_KEY = ''rwayve.reminderPopups.snoozed''"
definition NOTIFIED_KEY :: string where "NOTIFIED_KEY = ''rwayve.reminderPopups.notified''"
definition CHIMED_KEY :: string where "CHIMED_KEY = ''rwayve.reminderPopups.chimed''"

lemmas storage_keys = DISMISS_KEY_def SNOOZE_KEY_def NOTIFIED_KEY_def CHIMED_KEY_def

text \<open>\<open>String(v)\<close> on a parsed value.\<close>

fun value_text :: "json \<Rightarrow> string" where
  "value_text JNull = ''null''"
| "value_text (JBool b) = (if b then ''true'' else ''false'')"
| "value_text (JNum t) = t"
| "value_text (JStr s) = s"
| "value_text (JArr vs) = join '','' (map (\<lambda>v. if v = JNull then [] else value_text v) vs)"
| "value_text (JObj ms) = ''[object Object]''"

definition add_key :: "string \<Rightarrow> string list \<Rightarrow> string list" where
  "add_key k ks = (if k \<in> set ks then ks else ks @ [k])"

definition loadSet :: "string \<Rightarrow> session_store \<Rightarrow> string list" where
  "loadSet name st =
     (case get_json name st of Some (JArr vs) \<Rightarrow> fold add_key (map value_text vs) [] | _ \<Rightarrow> [])"

definition saveSet :: "string \<Rightarrow> string list \<Rightarrow> session_store \<Rightarrow> session_store" where
  "saveSet name ks st = put_json name (JArr (map JStr ks)) st"

text \<open>The times kept are whole numbers; another literal is not modelled and counts as none.\<close>

definition as_time :: "json \<Rightarrow> int option" where
  "as_time v = (case v of JNum t \<Rightarrow> if list_all is_digit t then Some (int (nat_val t)) else None | _ \<Rightarrow> None)"

definition put_time :: "string \<times> json \<Rightarrow> (string \<times> int) list \<Rightarrow> (string \<times> int) list" where
  "put_time kv out = (case as_time (snd kv) of Some t \<Rightarrow> obj_put (fst kv) t out | None \<Rightarrow> out)"

definition loadSnoozed :: "session_store \<Rightarrow> (string \<times> int) list" where
  "loadSnoozed st =
     (case get_json SNOOZE_KEY st of
        Some (JObj ms) \<Rightarrow> fold put_time ms []
      | Some (JArr vs) \<Rightarrow> fold put_time (map (\<lambda>(i, v). (nat_str i, v)) (enumerate 0 vs)) []
      | _ \<Rightarrow> [])"

definition saveSnoozed :: "(string \<times> int) list \<Rightarrow> session_store \<Rightarrow> session_store" where
  "saveSnoozed m st = put_json SNOOZE_KEY (JObj (map (\<lambda>(k, t). (k, json_of_nat (nat t))) m)) st"

section \<open>Alerts\<close>

record reminder =
  rem_id :: nat
  rem_title :: string
  rem_notes :: "string option"
  remind_at :: string

record meeting =
  mt_id :: nat
  mt_title :: string
  mt_date :: string
  mt_start :: string
  mt_end :: string
  mt_join :: "string option"

text \<open>\<open>new Date(s).getTime()\<close>, with \<open>None\<close> for not a number, and \<open>fmtTime\<close>.\<close>

record time_format =
  date_ms :: "string \<Rightarrow> int option"
  fmt_time :: "int \<Rightarrow> string"

datatype alert_kind = ReminderAlert | MeetingAlert

record alert_item =
  al_key :: string
  al_kind :: alert_kind
  al_title :: string
  al_subtitle :: "string option"
  al_ts :: int
  al_lead :: int
  al_join :: "string option"

definition wallClockMs :: "time_format \<Rightarrow> string \<Rightarrow> string \<Rightarrow> int option" where
  "wallClockMs f date time =
     (if date = [] \<or> time = [] then None
      else let t = (if length time = 5 then time @ '':00'' else time) in date_ms f (date @ ''T'' @ t))"

definition meetingStartMs :: "time_format \<Rightarrow> meeting \<Rightarrow> int option" where
  "meetingStartMs f m = wallClockMs f (mt_date m) (mt_start m)"

text \<open>The dash between the times is outside Latin-1.\<close>

definition en_dash :: string where "en_dash = ''-''"

definition meetingSubtitle :: "time_format \<Rightarrow> meeting \<Rightarrow> int \<Rightarrow> string" where
  "meetingSubtitle f m startMs =
     (case wallClockMs f (mt_date m) (mt_end m) of
        None \<Rightarrow> fmt_time f startMs
      | Some endMs \<Rightarrow> fmt_time f startMs @ '' '' @ en_dash @ '' '' @ fmt_time f endMs)"

definition reminder_key :: "nat \<Rightarrow> string" where "reminder_key i = ''reminder:'' @ nat_str i"
definition meeting_key :: "nat \<Rightarrow> string" where "meeting_key i = ''meeting:'' @ nat_str i"

definition reminder_item :: "time_format \<Rightarrow> reminder \<Rightarrow> alert_item option" where
  "reminder_item f r = map_option (\<lambda>t.
     \<lparr>al_key = reminder_key (rem_id r), al_kind = ReminderAlert, al_title = rem_title r,
      al_subtitle = rem_notes r, al_ts = t, al_lead = LEAD_MS, al_join = None\<rparr>) (date_ms f (remind_at r))"

definition meeting_item :: "time_format \<Rightarrow> int \<Rightarrow> meeting \<Rightarrow> alert_item option" where
  "meeting_item f lead_min m = map_option (\<lambda>t.
     \<lparr>al_key = meeting_key (mt_id m), al_kind = MeetingAlert, al_title = mt_title m,
      al_subtitle = Some (meetingSubtitle f m t), al_ts = t, al_lead = lead_min * 60000,
      al_join = (if mt_join m = Some [] then None else mt_join m)\<rparr>) (meetingStartMs f m)"

record popups =
  pp_user :: "nat option"
  pp_lead_min :: int
  pp_reminders :: "reminder list"
  pp_meetings :: "meeting list"
  pp_now :: int
  pp_dismissed :: "string list"
  pp_notified :: "string list"
  pp_chimed :: "string list"
  pp_snoozed :: "(string \<times> int) list"
  pp_menu :: "string option"
  pp_store :: session_store
  pp_toasts :: "(string \<times> string \<times> string) list"
  pp_chimes :: nat

definition meeting_lead :: "int option \<Rightarrow> int" where
  "meeting_lead minutes = nullish minutes DEFAULT_MEETING_LEAD_MIN"

definition open_popups :: "nat option \<Rightarrow> int option \<Rightarrow> int \<Rightarrow> session_store \<Rightarrow> popups" where
  "open_popups u minutes t st =
     \<lparr>pp_user = u, pp_lead_min = meeting_lead minutes, pp_reminders = [], pp_meetings = [], pp_now = t,
      pp_dismissed = loadSet DISMISS_KEY st, pp_notified = loadSet NOTIFIED_KEY st,
      pp_chimed = loadSet CHIMED_KEY st, pp_snoozed = loadSnoozed st, pp_menu = None, pp_store = st,
      pp_toasts = [], pp_chimes = 0\<rparr>"

definition wantMeetings :: "popups \<Rightarrow> bool" where
  "wantMeetings p \<longleftrightarrow> pp_lead_min p > 0"

definition items_of :: "time_format \<Rightarrow> popups \<Rightarrow> alert_item list" where
  "items_of f p = List.map_filter (reminder_item f) (pp_reminders p)
     @ (if wantMeetings p then List.map_filter (meeting_item f (pp_lead_min p)) (pp_meetings p) else [])"

definition is_due :: "popups \<Rightarrow> alert_item \<Rightarrow> bool" where
  "is_due p i =
     (let delta = al_ts i - pp_now p in
      if delta > al_lead i \<or> delta < - GRACE_MS then False
      else if al_key i \<in> set (pp_dismissed p) then False
      else (case map_of (pp_snoozed p) (al_key i) of
              None \<Rightarrow> True
            | Some until \<Rightarrow> \<not> (until \<noteq> 0 \<and> pp_now p < until)))"

definition due :: "time_format \<Rightarrow> popups \<Rightarrow> alert_item list" where
  "due f p = (if pp_user p = None then [] else sort_key al_ts (filter (is_due p) (items_of f p)))"

section \<open>Events\<close>

text \<open>\<open>Math.round((ts - t) / 60_000)\<close>\<close>

definition minutes_left :: "int \<Rightarrow> int \<Rightarrow> int" where
  "minutes_left ts t = (ts - t + 30000) div 60000"

definition when_text :: "int \<Rightarrow> string" where
  "when_text mins = (if mins \<le> 0 then ''now''
     else ''in '' @ nat_str (nat mins) @ '' min'' @ (if mins = 1 then [] else ''s''))"

definition toast :: "int \<Rightarrow> alert_item \<Rightarrow> string \<times> string \<times> string" where
  "toast t i =
     ((if al_kind i = MeetingAlert then ''Meeting '' else ''Reminder '') @ when_text (minutes_left (al_ts i) t),
      (case al_subtitle i of
         Some (c # s) \<Rightarrow> al_title i @ '' '' @ [CHR 0xB7] @ '' '' @ (c # s) | _ \<Rightarrow> al_title i),
      al_key i)"

definition chime :: "time_format \<Rightarrow> bool \<Rightarrow> popups \<Rightarrow> popups" where
  "chime f sound p =
     (let unchimed = filter (\<lambda>i. al_key i \<notin> set (pp_chimed p)) (due f p);
          ks = fold add_key (map al_key unchimed) (pp_chimed p)
      in if unchimed = [] then p
         else p \<lparr>pp_chimes := pp_chimes p + (if sound then 1 else 0), pp_chimed := ks,
                 pp_store := saveSet CHIMED_KEY ks (pp_store p)\<rparr>)"

definition raise_toasts :: "time_format \<Rightarrow> bool \<Rightarrow> (string \<Rightarrow> bool) \<Rightarrow> int \<Rightarrow> popups \<Rightarrow> popups" where
  "raise_toasts f enabled raised t p =
     (let fresh = filter (\<lambda>i. al_key i \<notin> set (pp_notified p)) (due f p);
          shown = filter (\<lambda>i. raised (al_key i)) fresh;
          ks = fold add_key (map al_key shown) (pp_notified p)
      in if \<not> enabled \<or> fresh = [] then p
         else p \<lparr>pp_toasts := pp_toasts p @ map (toast t) shown, pp_notified := ks,
                 pp_store := saveSet NOTIFIED_KEY ks (pp_store p)\<rparr>)"

definition dismiss :: "string \<Rightarrow> popups \<Rightarrow> popups" where
  "dismiss k p =
     (let next' = add_key k (pp_dismissed p)
      in p \<lparr>pp_dismissed := next', pp_store := saveSet DISMISS_KEY next' (pp_store p)\<rparr>)"

definition snooze_alert :: "string \<Rightarrow> int \<Rightarrow> int \<Rightarrow> popups \<Rightarrow> popups" where
  "snooze_alert k minutes t p =
     (let m = obj_put k (t + minutes * 60000) (pp_snoozed p);
          n = filter (\<lambda>x. x \<noteq> k) (pp_notified p);
          c = filter (\<lambda>x. x \<noteq> k) (pp_chimed p)
      in p \<lparr>pp_snoozed := m, pp_notified := n, pp_chimed := c, pp_menu := None,
            pp_store := saveSet CHIMED_KEY c (saveSet NOTIFIED_KEY n (saveSnoozed m (pp_store p)))\<rparr>)"

definition finish_reload :: "reminder list result \<Rightarrow> meeting list option result \<Rightarrow> popups \<Rightarrow> popups" where
  "finish_reload r m p =
     p \<lparr>pp_reminders := or_else (pp_reminders p) r,
        pp_meetings := (case m of Throw e \<Rightarrow> pp_meetings p | Ok v \<Rightarrow> nullish v [])\<rparr>"

definition restart :: "int \<Rightarrow> popups \<Rightarrow> popups" where
  "restart t p = p \<lparr>pp_reminders := [], pp_meetings := [], pp_now := t,
     pp_dismissed := loadSet DISMISS_KEY (pp_store p), pp_notified := loadSet NOTIFIED_KEY (pp_store p),
     pp_chimed := loadSet CHIMED_KEY (pp_store p), pp_snoozed := loadSnoozed (pp_store p), pp_menu := None\<rparr>"

text \<open>\<open>Loaded\<close> carries a meeting answer that is \<open>None\<close> when it is not a list.\<close>

datatype popup_event =
    Loaded "reminder list result" "meeting list option result"
  | Ticked int
  | Alerted bool bool "string \<Rightarrow> bool" int
  | Dismissed string
  | Snoozed string int int
  | MenuToggled string
  | Reloaded int

fun popup_step :: "time_format \<Rightarrow> popup_event \<Rightarrow> popups \<Rightarrow> popups" where
  "popup_step f (Loaded r m) p = finish_reload r m p"
| "popup_step f (Ticked t) p = p \<lparr>pp_now := t\<rparr>"
| "popup_step f (Alerted sound enabled raised t) p = raise_toasts f enabled raised t (chime f sound p)"
| "popup_step f (Dismissed k) p = dismiss k p"
| "popup_step f (Snoozed k m t) p = snooze_alert k m t p"
| "popup_step f (MenuToggled k) p = p \<lparr>pp_menu := (if pp_menu p = Some k then None else Some k)\<rparr>"
| "popup_step f (Reloaded t) p = restart t p"

definition popup_run :: "time_format \<Rightarrow> popup_event list \<Rightarrow> popups \<Rightarrow> popups" where
  "popup_run f es p = fold (popup_step f) es p"

section \<open>What is kept of the sets\<close>

lemma fold_add_distinct: "distinct ks \<Longrightarrow> distinct (fold add_key xs ks)"
  by (induction xs arbitrary: ks) (auto simp: add_key_def)

lemma fold_add_set [simp]: "set (fold add_key xs ks) = set ks \<union> set xs"
  by (induction xs arbitrary: ks) (auto simp: add_key_def)

lemma fold_add_new: "distinct (ks @ xs) \<Longrightarrow> fold add_key xs ks = ks @ xs"
  by (induction xs arbitrary: ks) (auto simp: add_key_def)

lemma keys_differ [simp]:
  "DISMISS_KEY \<noteq> SNOOZE_KEY" "DISMISS_KEY \<noteq> NOTIFIED_KEY" "DISMISS_KEY \<noteq> CHIMED_KEY"
  "SNOOZE_KEY \<noteq> DISMISS_KEY" "SNOOZE_KEY \<noteq> NOTIFIED_KEY" "SNOOZE_KEY \<noteq> CHIMED_KEY"
  "NOTIFIED_KEY \<noteq> DISMISS_KEY" "NOTIFIED_KEY \<noteq> SNOOZE_KEY" "NOTIFIED_KEY \<noteq> CHIMED_KEY"
  "CHIMED_KEY \<noteq> DISMISS_KEY" "CHIMED_KEY \<noteq> SNOOZE_KEY" "CHIMED_KEY \<noteq> NOTIFIED_KEY"
  by (simp_all add: storage_keys)

lemma get_put_other: "k \<noteq> k' \<Longrightarrow> get_json k (put_json k' v st) = get_json k st"
  by (simp add: get_json_def put_json_def set_item_def)

lemma usable_put [simp]: "usable (put_json k v st) = usable st"
  by (simp add: put_json_def set_item_def)

lemma saved_usable [simp]: "usable (saveSet k ks st) = usable st" "usable (saveSnoozed m st) = usable st"
  by (simp_all add: saveSet_def saveSnoozed_def)

lemma load_saved_set:
  assumes "usable st"
  shows "loadSet k (saveSet k' ks st) = (if k = k' then fold add_key ks [] else loadSet k st)"
    and "k \<noteq> SNOOZE_KEY \<Longrightarrow> loadSet k (saveSnoozed m st) = loadSet k st"
proof -
  have "map value_text (map JStr ks) = ks" by (simp add: comp_def)
  then show "loadSet k (saveSet k' ks st) = (if k = k' then fold add_key ks [] else loadSet k st)"
    using assms by (simp add: loadSet_def saveSet_def get_put_json get_put_other)
  show "k \<noteq> SNOOZE_KEY \<Longrightarrow> loadSet k (saveSnoozed m st) = loadSet k st"
    by (simp add: loadSet_def saveSnoozed_def get_put_other)
qed

lemma load_distinct: "distinct (loadSet k st)"
  by (auto simp: loadSet_def fold_add_distinct split: option.split json.split)

lemma map_of_obj_put: "distinct (map fst ms) \<Longrightarrow> map_of (obj_put k v ms) k' = (if k' = k then Some v else map_of ms k')"
proof (cases "k \<in> fst ` set ms")
  case False
  then have "map_of ms k = None" by (simp add: map_of_eq_None_iff)
  with False show ?thesis by (simp add: obj_put_def map_add_def split: option.split)
qed (auto simp: obj_put_def map_of_replace)

lemma obj_put_distinct: "distinct (map fst ms) \<Longrightarrow> distinct (map fst (obj_put k v ms))"
proof -
  have "map fst (map (\<lambda>m. if fst m = k then (k, v) else m) ms) = map fst ms" by (induction ms) auto
  then show "distinct (map fst ms) \<Longrightarrow> ?thesis" by (auto simp: obj_put_def simp del: map_map)
qed

lemma snoozed_distinct: "distinct (map fst (loadSnoozed st))"
proof -
  have "distinct (map fst out) \<Longrightarrow> distinct (map fst (fold put_time ms out))" for ms out
    by (induction ms arbitrary: out) (auto simp: put_time_def obj_put_distinct split: option.split)
  then show ?thesis by (auto simp: loadSnoozed_def split: option.split json.split)
qed

text \<open>The sets in memory are those of the storage, and no list holds an id twice.\<close>

definition popups_ok :: "popups \<Rightarrow> bool" where
  "popups_ok p \<longleftrightarrow>
     usable (pp_store p) \<and> distinct (pp_dismissed p) \<and> distinct (pp_notified p)
     \<and> loadSet DISMISS_KEY (pp_store p) = pp_dismissed p \<and> loadSet NOTIFIED_KEY (pp_store p) = pp_notified p
     \<and> distinct (map rem_id (pp_reminders p)) \<and> distinct (map mt_id (pp_meetings p))
     \<and> distinct (map fst (pp_snoozed p))"

definition answer_distinct :: "popup_event \<Rightarrow> bool" where
  "answer_distinct e =
     (case e of
        Loaded r m \<Rightarrow> (\<forall>rs. r = Ok rs \<longrightarrow> distinct (map rem_id rs)) \<and> (\<forall>ms. m = Ok (Some ms) \<longrightarrow> distinct (map mt_id ms))
      | _ \<Rightarrow> True)"

lemma fold_add_Nil: "distinct ks \<Longrightarrow> fold add_key ks [] = ks"
  using fold_add_new [of "[]" ks] by simp

lemma chime_fields [simp]:
  "pp_reminders (chime f s p) = pp_reminders p" "pp_meetings (chime f s p) = pp_meetings p"
  "pp_dismissed (chime f s p) = pp_dismissed p" "pp_notified (chime f s p) = pp_notified p"
  "pp_snoozed (chime f s p) = pp_snoozed p" "pp_now (chime f s p) = pp_now p" "pp_user (chime f s p) = pp_user p"
  "pp_lead_min (chime f s p) = pp_lead_min p" "pp_toasts (chime f s p) = pp_toasts p"
  "usable (pp_store (chime f s p)) = usable (pp_store p)"
  by (simp_all add: chime_def Let_def)

lemma chime_due [simp]: "due f (chime g s p) = due f p"
proof -
  have "is_due (chime g s p) i = is_due p i" for i by (auto simp: is_due_def Let_def split: option.split)
  then have "is_due (chime g s p) = is_due p" by (rule ext)
  then show ?thesis by (simp add: due_def items_of_def wantMeetings_def)
qed

lemma chime_ok: "popups_ok p \<Longrightarrow> popups_ok (chime f s p)"
  by (auto simp: popups_ok_def chime_def Let_def load_saved_set)

lemma toasts_ok: "popups_ok p \<Longrightarrow> popups_ok (raise_toasts f e r t p)"
  by (auto simp: popups_ok_def raise_toasts_def Let_def load_saved_set fold_add_distinct fold_add_Nil)

lemma popup_step_ok:
  assumes "popups_ok p" "answer_distinct e"
  shows "popups_ok (popup_step f e p)"
proof (cases e)
  case (Loaded r m)
  then show ?thesis
    using assms by (cases r; cases m) (auto simp: popups_ok_def finish_reload_def answer_distinct_def nullish_def
        split: option.split)
next
  case (Snoozed k m t)
  then show ?thesis
    using assms(1) by (simp add: popups_ok_def snooze_alert_def Let_def load_saved_set fold_add_Nil obj_put_distinct)
next
  case (Dismissed k)
  have "distinct (add_key k (pp_dismissed p))" using assms(1) by (simp add: popups_ok_def add_key_def)
  with Dismissed assms(1) show ?thesis
    by (simp add: popups_ok_def dismiss_def Let_def load_saved_set fold_add_Nil)
qed (use assms in \<open>simp_all add: chime_ok toasts_ok, simp_all add: popups_ok_def restart_def load_distinct snoozed_distinct\<close>)

lemma popup_run_ok: "popups_ok p \<Longrightarrow> list_all answer_distinct es \<Longrightarrow> popups_ok (popup_run f es p)"
  by (induction es arbitrary: p) (auto simp: popup_run_def popup_step_ok)

lemma open_popups_ok: "usable st \<Longrightarrow> popups_ok (open_popups u m t st)"
  by (simp add: popups_ok_def open_popups_def load_distinct snoozed_distinct)

text \<open>No two items that are due share a key: the kinds of ids are kept apart.\<close>

lemma key_inj [simp]:
  "reminder_key i = reminder_key j \<longleftrightarrow> i = j" "meeting_key i = meeting_key j \<longleftrightarrow> i = j"
  "reminder_key i \<noteq> meeting_key j" "meeting_key j \<noteq> reminder_key i"
  by (simp_all add: reminder_key_def meeting_key_def) (metis nat_val_nat_str)+

lemma reminder_item_key: "reminder_item f r = Some i \<Longrightarrow> al_key i = reminder_key (rem_id r) \<and> al_lead i = LEAD_MS"
  by (auto simp: reminder_item_def)

lemma meeting_item_key: "meeting_item f l m = Some i \<Longrightarrow> al_key i = meeting_key (mt_id m)"
  by (auto simp: meeting_item_def)

lemma reminder_keys:
  "distinct (map rem_id rs) \<Longrightarrow> distinct (map al_key (List.map_filter (reminder_item f) rs))
   \<and> al_key ` set (List.map_filter (reminder_item f) rs) \<subseteq> (reminder_key \<circ> rem_id) ` set rs"
proof (induction rs)
  case (Cons r rs)
  then show ?case
    by (cases "reminder_item f r") (auto simp: List.map_filter_simps reminder_item_key)
qed (simp add: List.map_filter_simps)

lemma meeting_keys:
  "distinct (map mt_id ms) \<Longrightarrow> distinct (map al_key (List.map_filter (meeting_item f l) ms))
   \<and> al_key ` set (List.map_filter (meeting_item f l) ms) \<subseteq> (meeting_key \<circ> mt_id) ` set ms"
proof (induction ms)
  case (Cons m ms)
  then show ?case
    by (cases "meeting_item f l m") (auto simp: List.map_filter_simps meeting_item_key)
qed (simp add: List.map_filter_simps)

lemma items_distinct: "popups_ok p \<Longrightarrow> distinct (map al_key (items_of f p))"
proof -
  assume p: "popups_ok p"
  let ?r = "List.map_filter (reminder_item f) (pp_reminders p)"
  let ?m = "List.map_filter (meeting_item f (pp_lead_min p)) (pp_meetings p)"
  have r: "distinct (map al_key ?r)" "al_key ` set ?r \<subseteq> (reminder_key \<circ> rem_id) ` set (pp_reminders p)"
    using p reminder_keys [of "pp_reminders p" f] by (simp_all add: popups_ok_def)
  have m: "distinct (map al_key ?m)" "al_key ` set ?m \<subseteq> (meeting_key \<circ> mt_id) ` set (pp_meetings p)"
    using p meeting_keys [of "pp_meetings p" f "pp_lead_min p"] by (simp_all add: popups_ok_def)
  have "(reminder_key \<circ> rem_id) ` set (pp_reminders p) \<inter> (meeting_key \<circ> mt_id) ` set (pp_meetings p) = {}"
    by auto
  then have "al_key ` set ?r \<inter> al_key ` set ?m = {}" using r(2) m(2) by blast
  then show ?thesis using r(1) m(1) by (simp add: items_of_def)
qed

lemma due_distinct: "popups_ok p \<Longrightarrow> distinct (map al_key (due f p))"
proof -
  assume "popups_ok p"
  then have "distinct (map al_key (filter (is_due p) (items_of f p)))" by (simp add: items_distinct distinct_map_filter)
  then have "inj_on al_key (set (filter (is_due p) (items_of f p)))" "distinct (filter (is_due p) (items_of f p))"
    by (simp_all only: distinct_map)
  then show ?thesis by (simp add: due_def distinct_map)
qed


section \<open>How alerts behave\<close>

definition is_snooze :: "string \<Rightarrow> popup_event \<Rightarrow> bool" where
  "is_snooze k e = (case e of Snoozed k' m t \<Rightarrow> k' = k | _ \<Rightarrow> False)"

definition toast_count :: "string \<Rightarrow> popups \<Rightarrow> nat" where
  "toast_count k p = count_list (map (snd \<circ> snd) (pp_toasts p)) k"

lemma count_distinct: "distinct xs \<Longrightarrow> count_list xs k = (if k \<in> set xs then 1 else 0)"
  by (induction xs) auto

text \<open>The toasts of an item, and the one it may still raise.\<close>

definition toast_credit :: "string \<Rightarrow> popups \<Rightarrow> nat" where
  "toast_credit k p = toast_count k p + (if k \<in> set (pp_notified p) then 0 else 1)"

lemma toasts_counted:
  assumes "popups_ok p"
  shows "toast_credit k (raise_toasts f e r t p) = toast_credit k p"
proof -
  let ?shown = "filter (\<lambda>i. r (al_key i)) (filter (\<lambda>i. al_key i \<notin> set (pp_notified p)) (due f p))"
  have "distinct (map al_key ?shown)" using due_distinct [OF assms] by (simp add: distinct_map_filter)
  moreover have "map (snd \<circ> snd) (map (toast t) ?shown) = map al_key ?shown" by (simp add: toast_def)
  moreover have "k \<in> set (map al_key ?shown) \<Longrightarrow> k \<notin> set (pp_notified p)" by auto
  ultimately show ?thesis
    by (auto simp: raise_toasts_def Let_def toast_credit_def toast_count_def count_distinct simp flip: map_map)
qed

lemma popup_step_toasts:
  assumes "popups_ok p"
  shows "toast_credit k (popup_step f e p) \<le> toast_credit k p + (if is_snooze k e then 1 else 0)"
proof (cases e)
  case (Alerted s b r t)
  then show ?thesis
    using toasts_counted [OF chime_ok [OF assms], where k = k] by (simp add: toast_credit_def toast_count_def)
next
  case (Reloaded t)
  then show ?thesis using assms by (simp add: restart_def popups_ok_def toast_credit_def toast_count_def)
qed (auto simp: toast_credit_def toast_count_def finish_reload_def dismiss_def snooze_alert_def is_snooze_def Let_def)

lemma popup_run_toasts:
  "popups_ok p \<Longrightarrow> list_all answer_distinct es \<Longrightarrow>
   toast_credit k (popup_run f es p) \<le> toast_credit k p + length (filter (is_snooze k) es)"
proof (induction es arbitrary: p)
  case (Cons e es)
  then have "toast_credit k (popup_run f es (popup_step f e p))
      \<le> toast_credit k (popup_step f e p) + length (filter (is_snooze k) es)"
    by (simp add: popup_step_ok)
  also note popup_step_toasts [OF Cons.prems(1), of k f e]
  finally show ?case by (cases "is_snooze k e") (simp_all add: popup_run_def)
qed (simp add: popup_run_def)

text \<open>
  C38: Whatever happens, reloads of the page included, an item raises at most one toast more than it
  was snoozed.
\<close>

theorem one_toast_per_snooze:
  assumes "usable st" "list_all answer_distinct es" "q = popup_run f es (open_popups u m t st)"
  shows "toast_count k q \<le> 1 + length (filter (is_snooze k) es)"
  using popup_run_toasts [OF open_popups_ok [OF assms(1)] assms(2), of k f u m t]
  by (simp add: assms(3) toast_credit_def) (simp add: toast_count_def open_popups_def split: if_splits)

text \<open>
  A snoozed alert shows again from the end of the snooze to two minutes after its time. A
  reminder shows for three minutes in all and the shortest snooze is five, so a snoozed reminder
  never shows again.
\<close>

theorem snooze_returns_within_grace:
  assumes "usable st" "list_all answer_distinct es" "p = popup_run f es (open_popups u l t0 st)"
    and "i \<in> set (items_of f p)" "al_key i \<notin> set (pp_dismissed p)" "pp_user p \<noteq> None" "t + m * 60000 > 0"
    and "q = (snooze_alert (al_key i) m t p) \<lparr>pp_now := now\<rparr>"
  shows "(i \<in> set (due f q) \<longleftrightarrow>
      t + m * 60000 \<le> now \<and> al_ts i - al_lead i \<le> now \<and> now \<le> al_ts i + GRACE_MS)
    \<and> (al_lead i = LEAD_MS \<and> is_due p i \<and> pp_now p \<le> t \<and> m \<in> set SNOOZE_OPTIONS \<longrightarrow> i \<notin> set (due f q))"
proof -
  have ok: "popups_ok p" unfolding assms(3) by (rule popup_run_ok [OF open_popups_ok [OF assms(1)] assms(2)])
  have q: "pp_user q = pp_user p" "pp_dismissed q = pp_dismissed p" "pp_now q = now"
    "map_of (pp_snoozed q) (al_key i) = Some (t + m * 60000)" "items_of f q = items_of f p"
    using ok by (simp_all add: assms(8) snooze_alert_def Let_def map_of_obj_put popups_ok_def items_of_def wantMeetings_def)
  have "i \<in> set (due f q) \<longleftrightarrow> is_due q i" using assms(4,6) q by (auto simp: due_def)
  also have "\<dots> \<longleftrightarrow> t + m * 60000 \<le> now \<and> al_ts i - al_lead i \<le> now \<and> now \<le> al_ts i + GRACE_MS"
    using assms(5,7) q by (auto simp: is_due_def Let_def)
  finally have *: "i \<in> set (due f q) \<longleftrightarrow>
      t + m * 60000 \<le> now \<and> al_ts i - al_lead i \<le> now \<and> now \<le> al_ts i + GRACE_MS" .
  have "now > al_ts i + GRACE_MS"
    if "al_lead i = LEAD_MS" "is_due p i" "pp_now p \<le> t" "m \<in> set SNOOZE_OPTIONS" "t + m * 60000 \<le> now"
    using that by (auto simp: is_due_def LEAD_MS_def GRACE_MS_def SNOOZE_OPTIONS_def Let_def split: if_splits)
  then show ?thesis using * by force
qed

text \<open>
  The clock is looked at every twenty seconds, so every alert that is neither dismissed nor
  snoozed is due at one of these looks, from its lead time to two minutes after.
\<close>

theorem alert_is_shown:
  assumes "i \<in> set (items_of f p)" "pp_user p \<noteq> None" "al_key i \<notin> set (pp_dismissed p)"
    and "map_of (pp_snoozed p) (al_key i) = None" "al_lead i \<ge> 0"
    and "tick 0 \<le> al_ts i" "\<forall>n. tick (Suc n) \<le> tick n + TICK_MS" "tick N \<ge> al_ts i - al_lead i"
  shows "\<exists>n \<le> N. i \<in> set (due f (p \<lparr>pp_now := tick n\<rparr>))"
proof -
  define n where "n = (LEAST n. tick n \<ge> al_ts i - al_lead i)"
  have n: "tick n \<ge> al_ts i - al_lead i" "n \<le> N"
    unfolding n_def by (rule LeastI [where k = N], rule assms(8)) (rule Least_le, rule assms(8))
  have "tick n \<le> al_ts i + GRACE_MS"
  proof (cases n)
    case 0
    then show ?thesis using assms(6) by (simp add: GRACE_MS_def)
  next
    case (Suc k)
    then have "\<not> tick k \<ge> al_ts i - al_lead i" unfolding n_def by (metis lessI not_less_Least)
    then show ?thesis
      using spec [OF assms(7), of k] assms(5) Suc by (simp add: GRACE_MS_def TICK_MS_def)
  qed
  then have "is_due (p \<lparr>pp_now := tick n\<rparr>) i" using n assms(3,4) by (simp add: is_due_def)
  moreover have "items_of f (p \<lparr>pp_now := tick n\<rparr>) = items_of f p" by (simp add: items_of_def wantMeetings_def)
  ultimately have "i \<in> set (due f (p \<lparr>pp_now := tick n\<rparr>))" using assms(1,2) by (simp add: due_def)
  with n(2) show ?thesis by blast
qed

lemma dismissed_stays_step:
  "popups_ok p \<Longrightarrow> k \<in> set (pp_dismissed p) \<Longrightarrow> k \<in> set (pp_dismissed (popup_step f e p))"
  by (cases e) (auto simp: finish_reload_def dismiss_def snooze_alert_def restart_def raise_toasts_def add_key_def
      popups_ok_def Let_def)

text \<open>
  A dismissed alert is not shown again in this tab, not after a reload of the page and, since it
  is remembered by the number of the reminder alone, not after the reminder was moved either.
\<close>

theorem dismissed_stays_away:
  assumes "usable st" "list_all answer_distinct (es @ Dismissed k # es2)"
    and "q = popup_run f (es @ Dismissed k # es2) (open_popups u m t st)"
  shows "k \<notin> al_key ` set (due f q)"
proof -
  let ?p = "popup_run f es (open_popups u m t st)"
  have ok: "popups_ok ?p" using assms(2) by (intro popup_run_ok open_popups_ok assms(1)) simp
  have "popups_ok (dismiss k ?p)" using popup_step_ok [OF ok, of "Dismissed k" f] by (simp add: answer_distinct_def)
  moreover have "k \<in> set (pp_dismissed (dismiss k ?p))" by (simp add: dismiss_def add_key_def Let_def)
  moreover have "popups_ok r \<Longrightarrow> k \<in> set (pp_dismissed r) \<Longrightarrow> list_all answer_distinct es2
      \<Longrightarrow> k \<in> set (pp_dismissed (popup_run f es2 r))" for r
    by (induction es2 arbitrary: r) (auto simp: popup_run_def dismissed_stays_step popup_step_ok)
  ultimately have "k \<in> set (pp_dismissed q)" using assms(2) by (simp add: assms(3) popup_run_def)
  then show ?thesis by (auto simp: due_def is_due_def Let_def)
qed

section \<open>Examples\<close>

definition demo_time :: time_format where
  "demo_time = \<lparr>date_ms = (\<lambda>s. Some 1000000), fmt_time = (\<lambda>t. ''12:00'')\<rparr>"

definition demo_reminder :: reminder where
  "demo_reminder = \<lparr>rem_id = 7, rem_title = ''tea'', rem_notes = None, remind_at = ''x''\<rparr>"

definition demo_loaded :: popup_event where
  "demo_loaded = Loaded (Ok [demo_reminder]) (Ok None)"

definition demo_shown :: popups where
  "demo_shown = popup_run demo_time [demo_loaded] (open_popups (Some 3) None 990000 empty_tab)"

lemma demo_distinct: "answer_distinct demo_loaded" "\<And>s b r t. answer_distinct (Alerted s b r t)"
  by (simp_all add: answer_distinct_def demo_loaded_def)

lemma demo_shown_fields:
  "pp_user demo_shown = Some 3" "pp_dismissed demo_shown = []" "pp_snoozed demo_shown = []" "pp_now demo_shown = 990000"
  "pp_reminders demo_shown = [demo_reminder]" "pp_meetings demo_shown = []"
  by (simp_all add: demo_shown_def popup_run_def demo_loaded_def finish_reload_def open_popups_def loadSet_def
      loadSnoozed_def get_json_def empty_tab_def)

lemma demo_items: "items_of demo_time demo_shown = [\<lparr>al_key = reminder_key 7, al_kind = ReminderAlert,
    al_title = ''tea'', al_subtitle = None, al_ts = 1000000, al_lead = 60000, al_join = None\<rparr>]"
  by (simp add: items_of_def demo_shown_fields List.map_filter_simps reminder_item_def demo_time_def demo_reminder_def
      LEAD_MS_def)

theorem one_toast_per_snooze_witness:
  "toast_count ''reminder:7'' (popup_run demo_time
     [demo_loaded, Alerted True True (\<lambda>k. True) 990000, Reloaded 990000, demo_loaded, Alerted True True (\<lambda>k. True) 990000]
     (open_popups (Some 3) None 990000 empty_tab)) \<le> 1"
  using one_toast_per_snooze [OF demo_place_ok(1), of "[demo_loaded, Alerted True True (\<lambda>k. True) 990000, Reloaded 990000,
      demo_loaded, Alerted True True (\<lambda>k. True) 990000]" _ demo_time "Some 3" None 990000 "''reminder:7''"]
  by (simp add: demo_distinct answer_distinct_def [of "Reloaded _"]) (simp add: is_snooze_def demo_loaded_def)

theorem snooze_returns_within_grace_witness:
  "\<forall>now. due demo_time ((snooze_alert (reminder_key 7) 5 990000 demo_shown) \<lparr>pp_now := now\<rparr>) = []"
proof
  fix now
  let ?i = "\<lparr>al_key = reminder_key 7, al_kind = ReminderAlert, al_title = ''tea'', al_subtitle = None,
      al_ts = 1000000, al_lead = 60000, al_join = None\<rparr>"
  let ?q = "(snooze_alert (reminder_key 7) 5 990000 demo_shown) \<lparr>pp_now := now\<rparr>"
  have d: "is_due demo_shown ?i" by (simp add: is_due_def demo_shown_fields GRACE_MS_def)
  have "?i \<notin> set (due demo_time ?q)"
    using snooze_returns_within_grace [OF demo_place_ok(1) _ demo_shown_def, of ?i 990000 5 ?q now] d
    by (simp add: demo_distinct demo_items demo_shown_fields LEAD_MS_def SNOOZE_OPTIONS_def GRACE_MS_def)
  moreover have "items_of demo_time ?q = items_of demo_time demo_shown"
    by (simp add: items_of_def snooze_alert_def wantMeetings_def Let_def)
  then have "set (due demo_time ?q) \<subseteq> {?i}" by (auto simp: due_def demo_items)
  ultimately show "due demo_time ?q = []" by (metis set_empty subset_singletonD insert_iff)
qed

theorem alert_is_shown_witness:
  "\<exists>n \<le> 50. \<lparr>al_key = reminder_key 7, al_kind = ReminderAlert, al_title = ''tea'', al_subtitle = None,
      al_ts = 1000000, al_lead = 60000, al_join = None\<rparr> \<in> set (due demo_time (demo_shown \<lparr>pp_now := 20000 * int n\<rparr>))"
  by (rule alert_is_shown) (simp_all add: demo_items demo_shown_fields TICK_MS_def)

theorem dismissed_stays_away_witness:
  "''reminder:7'' \<notin> al_key ` set (due demo_time (popup_run demo_time
     ([] @ Dismissed ''reminder:7'' # [Reloaded 990000, demo_loaded]) (open_popups (Some 3) None 990000 empty_tab)))"
  by (rule dismissed_stays_away [OF demo_place_ok(1) _ refl])
    (simp add: demo_distinct answer_distinct_def [of "Reloaded _"] answer_distinct_def [of "Dismissed _"])

end
