(* ===== verification/Recipient_Chips.thy ===== *)
theory Recipient_Chips
  imports Js_String
begin

text \<open>
  The recipient field of the composers (\<open>emails/RecipientChips.tsx\<close>): addresses as chips, and a box
  whose text becomes chips when the user moves on.
\<close>

section \<open>The field\<close>

record chip_field =
  chips :: "string list"
  chip_text :: string

definition separator :: "char \<Rightarrow> bool" where
  "separator c \<longleftrightarrow> c = CHR '','' \<or> c = CHR '';''"

fun split_chips :: "string \<Rightarrow> string list" where
  "split_chips [] = [[]]"
| "split_chips (x # xs) =
     (if separator x then [] # split_chips xs
      else (case split_chips xs of [] \<Rightarrow> [[x]] | p # ps \<Rightarrow> (x # p) # ps))"

definition tokenize :: "string \<Rightarrow> string list" where
  "tokenize raw = filter (\<lambda>s. s \<noteq> []) (map trim (split_chips raw))"

definition commit_chips :: "string \<Rightarrow> chip_field \<Rightarrow> chip_field" where
  "commit_chips raw f =
     (let additions = tokenize raw in
      if additions = [] then f
      else f \<lparr>chips := chips f @ fst (filter_seen (\<lambda>_. True) toLowerCase (toLowerCase ` set (chips f)) additions),
              chip_text := []\<rparr>)"

datatype chip_key = KeyEnter | KeyTab | KeyComma | KeyBackspace

definition chip_keydown :: "chip_key \<Rightarrow> chip_field \<Rightarrow> chip_field" where
  "chip_keydown k f =
     (case k of
        KeyBackspace \<Rightarrow>
          if chip_text f = [] \<and> length (chips f) > 0
          then f \<lparr>chip_text := last (chips f), chips := butlast (chips f)\<rparr> else f
      | _ \<Rightarrow> if trim (chip_text f) = [] then f else commit_chips (chip_text f) f)"

definition chip_input :: "string \<Rightarrow> chip_field \<Rightarrow> chip_field" where
  "chip_input v f = (if list_ex separator v then commit_chips v f else f \<lparr>chip_text := v\<rparr>)"

definition chip_blur :: "chip_field \<Rightarrow> chip_field" where
  "chip_blur f = commit_chips (chip_text f) f"

definition chip_remove :: "string \<Rightarrow> chip_field \<Rightarrow> chip_field" where
  "chip_remove addr f = f \<lparr>chips := filter (\<lambda>a. a \<noteq> addr) (chips f)\<rparr>"

inductive chip_step :: "chip_field \<Rightarrow> chip_field \<Rightarrow> bool" where
  key: "chip_step f (chip_keydown k f)"
| input: "chip_step f (chip_input v f)"
| blur: "chip_step f (chip_blur f)"
| remove: "chip_step f (chip_remove a f)"

section \<open>What the chips are\<close>

text \<open>Addresses without white space around them, none empty and none listed twice.\<close>

definition addresses_ok :: "string list \<Rightarrow> bool" where
  "addresses_ok as \<longleftrightarrow> (\<forall>a \<in> set as. a \<noteq> [] \<and> trimmed a) \<and> distinct (map toLowerCase as)"

lemma addresses_ok_simps [simp]: "addresses_ok []"
  by (simp add: addresses_ok_def)

lemma addresses_ok_filter: "addresses_ok as \<Longrightarrow> addresses_ok (filter P as)"
  by (auto simp: addresses_ok_def distinct_map_filter)

lemma addresses_ok_butlast: "addresses_ok as \<Longrightarrow> addresses_ok (butlast as)"
  by (auto simp: addresses_ok_def map_butlast distinct_butlast dest: in_set_butlastD)

lemma tokenize_ok: "a \<in> set (tokenize raw) \<Longrightarrow> a \<noteq> [] \<and> trimmed a"
  by (auto simp: tokenize_def trimmed_trim)

lemma seen_ok:
  assumes "filter_seen ok toLowerCase seen xs = (ys, s)" "\<And>a. a \<in> set xs \<Longrightarrow> ok a \<Longrightarrow> a \<noteq> [] \<and> trimmed a"
  shows "addresses_ok ys"
  using filter_seen_sound [OF assms(1)] assms(2) by (auto simp: addresses_ok_def)

lemma commit_ok:
  assumes "addresses_ok (chips f)"
  shows "addresses_ok (chips (commit_chips raw f))"
proof -
  obtain ys s where y: "filter_seen (\<lambda>_. True) toLowerCase (toLowerCase ` set (chips f)) (tokenize raw) = (ys, s)"
    by fastforce
  note sound = filter_seen_sound [OF y]
  have "addresses_ok ys" by (rule seen_ok [OF y]) (simp add: tokenize_ok)
  with sound assms show ?thesis
    by (auto simp: commit_chips_def Let_def y addresses_ok_def)
qed

lemma chip_step_ok: "chip_step f g \<Longrightarrow> addresses_ok (chips f) \<Longrightarrow> addresses_ok (chips g)"
  by (induction rule: chip_step.induct)
    (auto simp: chip_keydown_def chip_input_def chip_blur_def chip_remove_def commit_ok addresses_ok_filter
      addresses_ok_butlast split: chip_key.split)

end
