(* ===== verification/Reply_Composer.thy ===== *)
theory Reply_Composer
  imports Reply_Recipients Recipient_Chips Compose_Mail
begin

text \<open>
  The reading pane's composers: replying, replying to all, forwarding, and the workflow state of
  a shared inbox (\<open>emails/EmailDetail.tsx\<close>). The pane stays mounted while the split view goes from
  one message to another, so answers can arrive when another message is shown. The printed date
  and the browser's HTML parser are arguments.
\<close>

section \<open>The message and the pane\<close>

record mail_file =
  mf_id :: nat
  mf_size :: "nat option"

text \<open>\<open>cc_known\<close> is false for a list row, which has no \<open>cc\<close> member.\<close>

record shown_mail = email +
  subject :: "string option"
  cc_known :: bool
  is_shared :: bool
  inbox_status :: "string option"
  inbox_assignee :: "nat option"
  mail_files :: "mail_file list option"

record inbox_state =
  is_email :: int
  is_status :: string
  is_assignee :: "nat option"

record mail_post =
  post_account :: int
  post_to :: string
  post_cc :: "string list option"
  post_bcc :: "string list option"
  post_subject :: string
  post_body :: string
  post_files :: "mail_attachment list option"
  post_reply_to :: "int option"
  post_forwarded :: "nat list option"

record mail_env =
  date_text :: "shown_mail \<Rightarrow> string"
  html_text :: "string \<Rightarrow> string result"

record pane =
  shown :: "shown_mail option"
  own_addresses :: "string list"
  replyOpen :: bool
  replyAll :: bool
  ccPending :: "int option"
  replyToList :: "string list"
  replyCc :: "string list"
  replyBcc :: "string list"
  ccOpen :: bool
  bccOpen :: bool
  replySubject :: string
  replyBody :: string
  replySending :: bool
  replyError :: "string option"
  replyFiles :: "compose_file list"
  forwardOpen :: bool
  forwardTo :: string
  forwardBody :: string
  forwardSending :: bool
  forwardError :: "string option"
  forwardFiles :: "compose_file list"
  forwardDropped :: "nat list"
  inboxState :: "inbox_state option"
  stateSaving :: bool
  stateError :: "string option"
  deleting :: bool
  deleteError :: "string option"
  posts :: "mail_post list"

definition fresh_pane :: "string list \<Rightarrow> pane" where
  "fresh_pane own =
     \<lparr>shown = None, own_addresses = own, replyOpen = False, replyAll = False, ccPending = None, replyToList = [],
      replyCc = [], replyBcc = [], ccOpen = False, bccOpen = False, replySubject = [], replyBody = [],
      replySending = False, replyError = None, replyFiles = [], forwardOpen = False, forwardTo = [],
      forwardBody = [], forwardSending = False, forwardError = None, forwardFiles = [], forwardDropped = [],
      inboxState = None, stateSaving = False, stateError = None, deleting = False, deleteError = None, posts = []\<rparr>"

section \<open>Texts\<close>

definition displaySubject :: "shown_mail \<Rightarrow> string" where
  "displaySubject m = (let s = trim (nullish (subject m) []) in if s = [] then ''(No Subject)'' else s)"

definition replySubjectFor :: "shown_mail \<Rightarrow> string" where
  "replySubjectFor m =
     (let s = displaySubject m in if starts_with ''re:'' (toLowerCase s) then s else ''Re: '' @ s)"

definition forwardSubject :: "shown_mail \<Rightarrow> string" where
  "forwardSubject m =
     (let s = displaySubject m in if starts_with ''fwd:'' (toLowerCase s) then s else ''Fwd: '' @ s)"

definition mergeCc :: "string list \<Rightarrow> string list \<Rightarrow> string list" where
  "mergeCc prev add = prev @ filter (\<lambda>a. toLowerCase a \<notin> toLowerCase ` set prev) add"

text \<open>\<open>/<[a-z][\s\S]*>/i\<close>\<close>

fun has_tag :: "string \<Rightarrow> bool" where
  "has_tag (c # d # s) \<longleftrightarrow> c = CHR ''<'' \<and> letter d \<and> CHR ''>'' \<in> set s \<or> has_tag (d # s)"
| "has_tag _ \<longleftrightarrow> False"

text \<open>Where the parser throws, \<open>/<[^>]*>/g\<close> becomes a space and runs of space become one.\<close>

function strip_tags :: "string \<Rightarrow> string" where
  "strip_tags [] = []"
| "strip_tags (c # s) =
     (if c = CHR ''<'' \<and> CHR ''>'' \<in> set s then CHR '' '' # strip_tags (tl (dropWhile (\<lambda>x. x \<noteq> CHR ''>'') s))
      else c # strip_tags s)"
  by pat_completeness auto

termination strip_tags
proof (relation "measure length")
  fix s :: string
  have "length (tl (dropWhile (\<lambda>x. x \<noteq> CHR ''>'') s)) \<le> length s"
    using dropWhile_len [of "\<lambda>x. x \<noteq> CHR ''>''" s] by simp
  then show "(tl (dropWhile (\<lambda>x. x \<noteq> CHR ''>'') s), c # s) \<in> measure length" for c by simp
qed auto

fun squeeze_spaces :: "bool \<Rightarrow> string \<Rightarrow> string" where
  "squeeze_spaces b [] = []"
| "squeeze_spaces b (c # s) =
     (if js_space c then (if b then squeeze_spaces True s else CHR '' '' # squeeze_spaces True s)
      else c # squeeze_spaces False s)"

definition bodyToPlainText :: "mail_env \<Rightarrow> string \<Rightarrow> string" where
  "bodyToPlainText env value =
     (let text = trim value in
      if text = [] then []
      else if \<not> has_tag text then text
      else (case html_text env text of
              Ok t \<Rightarrow> trim (if t = [] then text else t)
            | Throw e \<Rightarrow> trim (squeeze_spaces False (strip_tags text))))"

definition or_text :: "string \<Rightarrow> string \<Rightarrow> string" where
  "or_text s d = (if s = [] then d else s)"

definition buildForwardBody :: "mail_env \<Rightarrow> shown_mail \<Rightarrow> string" where
  "buildForwardBody env m =
     join [CHR 0x0A]
       ([[], [], ''---------- Forwarded message ---------'',
         ''From: '' @ or_text (nullish (sender m) []) ''Unknown sender'']
        @ (if nullish (receiver m) [] = [] then [] else [''To: '' @ nullish (receiver m) []])
        @ [''Date: '' @ or_text (date_text env m) ''Unknown date'', ''Subject: '' @ displaySubject m, [],
           bodyToPlainText env (nullish (body m) [])])"

section \<open>Opening the composers\<close>

definition plain_mail :: "shown_mail \<Rightarrow> email" where
  "plain_mail m = email.truncate m"

definition reply_list :: "pane \<Rightarrow> string list" where
  "reply_list p = (case shown p of None \<Rightarrow> [] | Some m \<Rightarrow> replyRecipients (plain_mail m) (own_addresses p))"

definition can_reply_all :: "pane \<Rightarrow> bool" where
  "can_reply_all p = (case shown p of None \<Rightarrow> False | Some m \<Rightarrow> hasMultipleRecipients (plain_mail m))"

text \<open>The effect of another message: everything of the composers but their picked files.\<close>

definition reset_composer :: "pane \<Rightarrow> pane" where
  "reset_composer p = p
     \<lparr>replyOpen := False, replyAll := False, ccPending := None, replyToList := [], replyCc := [], replyBcc := [],
      ccOpen := False, bccOpen := False, replySubject := [], replyBody := [], replyError := None,
      forwardOpen := False, forwardTo := [], forwardBody := [], forwardError := None, forwardDropped := []\<rparr>"

definition shared_state :: "shown_mail \<Rightarrow> inbox_state option" where
  "shared_state m =
     (if is_shared m \<and> eid m \<noteq> 0
      then Some \<lparr>is_email = eid m, is_status = nullish (inbox_status m) ''open'', is_assignee = inbox_assignee m\<rparr>
      else None)"

definition state_deps :: "shown_mail option \<Rightarrow> (int \<times> bool \<times> string option \<times> nat option) option" where
  "state_deps s = map_option (\<lambda>m. (eid m, is_shared m, inbox_status m, inbox_assignee m)) s"

definition sync_state :: "pane \<Rightarrow> pane" where
  "sync_state p =
     (case Option.bind (shown p) shared_state of
        Some st \<Rightarrow> p \<lparr>inboxState := Some st, stateError := None\<rparr>
      | None \<Rightarrow> p \<lparr>inboxState := None\<rparr>)"

text \<open>The Cc of a reply to all that was opened before the message had one.\<close>

definition late_cc :: "pane \<Rightarrow> string list" where
  "late_cc p =
     (case shown p of
        None \<Rightarrow> []
      | Some m \<Rightarrow>
          (let joined = (if cc_known m then join [CHR 0x0A] (snd (replyAllRecipients (plain_mail m) (own_addresses p))) else [])
           in if joined = [] then [] else split_on (CHR 0x0A) joined))"

definition cc_arrives :: "pane \<Rightarrow> pane" where
  "cc_arrives p =
     (case (ccPending p, shown p) of
        (Some i, Some m) \<Rightarrow>
          if \<not> cc_known m then p
          else if i \<noteq> eid m \<or> \<not> replyOpen p \<or> \<not> replyAll p then p \<lparr>ccPending := None\<rparr>
          else if late_cc p = [] then p \<lparr>ccPending := None\<rparr>
          else p \<lparr>ccPending := None, replyCc := mergeCc (replyCc p) (late_cc p), ccOpen := True\<rparr>
      | _ \<Rightarrow> p)"

definition show_mail :: "shown_mail option \<Rightarrow> pane \<Rightarrow> pane" where
  "show_mail m p =
     (let p1 = p \<lparr>shown := m\<rparr>;
          p2 = (if map_option eid m = map_option eid (shown p) then p1 else reset_composer p1);
          p3 = (if state_deps m = state_deps (shown p) then p2 else sync_state p2)
      in cc_arrives p3)"

definition showReply :: "bool \<Rightarrow> pane \<Rightarrow> pane" where
  "showReply next' p =
     (case shown p of
        None \<Rightarrow> p
      | Some m \<Rightarrow>
          (let p1 = p \<lparr>replyOpen := next'\<rparr>;
               p2 = (if \<not> next' then p1
                     else
                       (if replyAll p
                        then (let seeded = map toLowerCase (snd (replyAllRecipients (plain_mail m) (own_addresses p)))
                              in p1 \<lparr>replyToList := reply_list p,
                                     replyCc := filter (\<lambda>a. toLowerCase a \<notin> set seeded) (replyCc p),
                                     replyAll := False, ccPending := None\<rparr>)
                        else p1 \<lparr>replyToList := (if replyToList p = [] then reply_list p else replyToList p)\<rparr>)
                         \<lparr>replySubject := or_text (replySubject p) (replySubjectFor m)\<rparr>)
           in p2 \<lparr>replyError := None, forwardOpen := False, forwardError := None\<rparr>))"

definition showReplyAll :: "bool \<Rightarrow> pane \<Rightarrow> pane" where
  "showReplyAll next' p =
     (case shown p of
        None \<Rightarrow> p
      | Some m \<Rightarrow>
          if \<not> can_reply_all p then p
          else
            (let p1 = p \<lparr>replyOpen := next'\<rparr>;
                 p2 = (if \<not> next' then p1
                       else (case replyAllRecipients (plain_mail m) (own_addresses p) of
                         (to, cc') \<Rightarrow>
                           p1 \<lparr>replyToList := (if \<not> replyAll p \<or> replyToList p = [] then to else replyToList p),
                               replyCc := mergeCc (replyCc p) cc',
                               ccOpen := (if cc' \<noteq> [] then True else ccOpen p),
                               ccPending := (if \<not> cc_known m then Some (eid m) else None),
                               replyAll := True,
                               replySubject := or_text (replySubject p) (replySubjectFor m)\<rparr>))
             in cc_arrives (p2 \<lparr>replyError := None, forwardOpen := False, forwardError := None\<rparr>)))"

definition showForward :: "mail_env \<Rightarrow> bool \<Rightarrow> pane \<Rightarrow> pane" where
  "showForward env next' p =
     (case shown p of
        None \<Rightarrow> p
      | Some m \<Rightarrow>
          p \<lparr>replyOpen := False, replyError := None, forwardOpen := next', forwardError := None,
             forwardBody := (if next' \<and> trim (forwardBody p) = [] then buildForwardBody env m else forwardBody p)\<rparr>)"

definition cancelReply :: "pane \<Rightarrow> pane" where
  "cancelReply p = p \<lparr>replyOpen := False, replyError := None, replyCc := []\<rparr>"

definition cancelForward :: "pane \<Rightarrow> pane" where
  "cancelForward p = p \<lparr>forwardOpen := False, forwardError := None\<rparr>"

text \<open>An address picked with an @mention.\<close>

definition onPick :: "string \<Rightarrow> pane \<Rightarrow> pane" where
  "onPick address p =
     (let a = trim address; r = (case reply_list p of [] \<Rightarrow> [] | x # xs \<Rightarrow> x)
      in if a = [] \<or> toLowerCase a = toLowerCase r then p
         else p \<lparr>replyCc := (if toLowerCase a \<in> toLowerCase ` set (replyCc p) then replyCc p else replyCc p @ [a])\<rparr>)"

section \<open>Sending\<close>

text \<open>\<open>renderAttachField\<close>: the picked files of either composer, under the limit.\<close>

definition over_limit :: "compose_file list \<Rightarrow> bool" where
  "over_limit fs \<longleftrightarrow> total_size fs > MAX_ATTACHMENTS_BYTES"

definition pick_reply_files :: "compose_file list \<Rightarrow> pane \<Rightarrow> pane" where
  "pick_reply_files fs p =
     (if fs = [] then p
      else if over_limit (replyFiles p @ fs) then p \<lparr>replyError := Some ''Attachments exceed the 25 MB limit''\<rparr>
      else p \<lparr>replyFiles := replyFiles p @ fs\<rparr>)"

definition pick_forward_files :: "compose_file list \<Rightarrow> pane \<Rightarrow> pane" where
  "pick_forward_files fs p =
     (if fs = [] then p
      else if over_limit (forwardFiles p @ fs) then p \<lparr>forwardError := Some ''Attachments exceed the 25 MB limit''\<rparr>
      else p \<lparr>forwardFiles := forwardFiles p @ fs\<rparr>)"

definition remove_nth :: "nat \<Rightarrow> 'a list \<Rightarrow> 'a list" where
  "remove_nth i xs = take i xs @ drop (i + 1) xs"

definition opt_list :: "'a list \<Rightarrow> 'a list option" where
  "opt_list xs = (if length xs > 0 then Some xs else None)"

definition read_files :: "compose_file list \<Rightarrow> mail_attachment list option result" where
  "read_files fs = (if length fs > 0 then map_sum id Some (filesToAttachments fs) else Ok None)"

text \<open>An account of zero counts as none.\<close>

definition reply_refused :: "shown_mail \<Rightarrow> pane \<Rightarrow> string option" where
  "reply_refused m p =
     (if nullish (account_id m) 0 = 0 then Some ''Missing sender account for this email.''
      else if join '', '' (replyToList p) = [] then Some ''Enter a recipient for the reply.''
      else if trim (replyBody p) = [] then Some ''Enter a reply before sending.''
      else None)"

definition reply_post :: "shown_mail \<Rightarrow> mail_attachment list option \<Rightarrow> pane \<Rightarrow> mail_post" where
  "reply_post m files p =
     \<lparr>post_account = nullish (account_id m) 0, post_to = join '', '' (replyToList p),
      post_cc = opt_list (replyCc p), post_bcc = opt_list (replyBcc p),
      post_subject = or_text (trim (replySubject p)) (replySubjectFor m), post_body = trim (replyBody p),
      post_files = files, post_reply_to = Some (eid m), post_forwarded = None\<rparr>"

text \<open>The files are read before the request is made; a failure to read them ends the handler.\<close>

definition reply_failed :: "js_error \<Rightarrow> (js_error \<Rightarrow> string) \<Rightarrow> pane \<Rightarrow> pane" where
  "reply_failed e says p = p \<lparr>replyError := Some (says e), replySending := False\<rparr>"

definition begin_reply :: "(js_error \<Rightarrow> string) \<Rightarrow> pane \<Rightarrow> pane" where
  "begin_reply says p =
     (case shown p of
        None \<Rightarrow> p
      | Some m \<Rightarrow>
          (case reply_refused m p of
             Some e \<Rightarrow> p \<lparr>replyError := Some e\<rparr>
           | None \<Rightarrow>
               (let p1 = p \<lparr>replySending := True, replyError := None\<rparr> in
                case read_files (replyFiles p) of
                  Throw e \<Rightarrow> reply_failed e says p1
                | Ok files \<Rightarrow> p1 \<lparr>posts := posts p @ [reply_post m files p]\<rparr>)))"

definition reply_answered :: "(js_error \<Rightarrow> string) \<Rightarrow> unit result \<Rightarrow> pane \<Rightarrow> pane" where
  "reply_answered says r p =
     (case r of
        Throw e \<Rightarrow> reply_failed e says p
      | Ok u \<Rightarrow> p \<lparr>replyToList := [], replySubject := [], replyBody := [], replyFiles := [], replyCc := [],
                  replyBcc := [], ccOpen := False, bccOpen := False, replyOpen := False, replyAll := False,
                  ccPending := None, replySending := False\<rparr>)"

definition forward_originals :: "shown_mail \<Rightarrow> pane \<Rightarrow> mail_file list" where
  "forward_originals m p = filter (\<lambda>f. mf_id f \<notin> set (forwardDropped p)) (nullish (mail_files m) [])"

definition drop_original :: "nat \<Rightarrow> pane \<Rightarrow> pane" where
  "drop_original i p = p \<lparr>forwardDropped := forwardDropped p @ [i]\<rparr>"

definition forward_bytes :: "shown_mail \<Rightarrow> pane \<Rightarrow> nat" where
  "forward_bytes m p =
     total_size (forwardFiles p) + sum_list (map (\<lambda>f. nullish (mf_size f) 0) (forward_originals m p))"

definition forward_refused :: "shown_mail \<Rightarrow> pane \<Rightarrow> string option" where
  "forward_refused m p =
     (if nullish (account_id m) 0 = 0 then Some ''Missing sender account for this email.''
      else if trim (forwardTo p) = [] then Some ''Enter a recipient for the forwarded email.''
      else if trim (forwardBody p) = [] then Some ''Forward message is empty.''
      else if forward_bytes m p > MAX_ATTACHMENTS_BYTES then Some ''Attachments exceed the 25 MB limit''
      else None)"

definition forward_post :: "shown_mail \<Rightarrow> mail_attachment list option \<Rightarrow> pane \<Rightarrow> mail_post" where
  "forward_post m files p =
     \<lparr>post_account = nullish (account_id m) 0, post_to = trim (forwardTo p), post_cc = None, post_bcc = None,
      post_subject = forwardSubject m, post_body = trim (forwardBody p), post_files = files, post_reply_to = None,
      post_forwarded = opt_list (map mf_id (forward_originals m p))\<rparr>"

definition forward_failed :: "js_error \<Rightarrow> (js_error \<Rightarrow> string) \<Rightarrow> pane \<Rightarrow> pane" where
  "forward_failed e says p = p \<lparr>forwardError := Some (says e), forwardSending := False\<rparr>"

definition begin_forward :: "(js_error \<Rightarrow> string) \<Rightarrow> pane \<Rightarrow> pane" where
  "begin_forward says p =
     (case shown p of
        None \<Rightarrow> p
      | Some m \<Rightarrow>
          (case forward_refused m p of
             Some e \<Rightarrow> p \<lparr>forwardError := Some e\<rparr>
           | None \<Rightarrow>
               (let p1 = p \<lparr>forwardSending := True, forwardError := None\<rparr> in
                case read_files (forwardFiles p) of
                  Throw e \<Rightarrow> forward_failed e says p1
                | Ok files \<Rightarrow> p1 \<lparr>posts := posts p @ [forward_post m files p]\<rparr>)))"

definition forward_answered :: "(js_error \<Rightarrow> string) \<Rightarrow> unit result \<Rightarrow> pane \<Rightarrow> pane" where
  "forward_answered says r p =
     (case r of
        Throw e \<Rightarrow> forward_failed e says p
      | Ok u \<Rightarrow> p \<lparr>forwardTo := [], forwardBody := [], forwardFiles := [], forwardDropped := [],
                  forwardOpen := False, forwardSending := False\<rparr>)"

text \<open>The workflow state of a shared inbox, and deleting.\<close>

definition begin_patch_state :: "pane \<Rightarrow> pane" where
  "begin_patch_state p = (if shown p = None then p else p \<lparr>stateSaving := True, stateError := None\<rparr>)"

definition patch_state_answered :: "(js_error \<Rightarrow> string) \<Rightarrow> inbox_state result \<Rightarrow> pane \<Rightarrow> pane" where
  "patch_state_answered says r p =
     (case r of
        Ok next' \<Rightarrow> p \<lparr>inboxState := Some next', stateSaving := False\<rparr>
      | Throw e \<Rightarrow> p \<lparr>stateError := Some (says e), stateSaving := False\<rparr>)"

definition begin_pane_delete :: "pane \<Rightarrow> pane \<times> int option" where
  "begin_pane_delete p =
     (case shown p of
        None \<Rightarrow> (p, None)
      | Some m \<Rightarrow> if deleting p then (p, None) else (p \<lparr>deleting := True, deleteError := None\<rparr>, Some (eid m)))"

definition pane_delete_answered :: "(js_error \<Rightarrow> string) \<Rightarrow> unit result \<Rightarrow> pane \<Rightarrow> pane" where
  "pane_delete_answered says r p =
     (case r of Ok u \<Rightarrow> p \<lparr>deleting := False\<rparr> | Throw e \<Rightarrow> p \<lparr>deleteError := Some (says e), deleting := False\<rparr>)"

section \<open>Runs of the pane\<close>

text \<open>The recipient fields change as Recipient_Chips says, whatever stands in their boxes.\<close>

inductive pane_step :: "mail_env \<Rightarrow> (js_error \<Rightarrow> string) \<Rightarrow> pane \<Rightarrow> pane \<Rightarrow> bool" for env says where
  mail_shown: "pane_step env says p (show_mail m p)"
| reply_shown: "pane_step env says p (showReply b p)"
| reply_all_shown: "pane_step env says p (showReplyAll b p)"
| forward_shown: "pane_step env says p (showForward env b p)"
| reply_cancelled: "pane_step env says p (cancelReply p)"
| forward_cancelled: "pane_step env says p (cancelForward p)"
| mentioned: "pane_step env says p (onPick a p)"
| to_edited: "chip_step \<lparr>chips = replyToList p, chip_text = typed\<rparr> f \<Longrightarrow> pane_step env says p (p \<lparr>replyToList := chips f\<rparr>)"
| cc_edited: "chip_step \<lparr>chips = replyCc p, chip_text = typed\<rparr> f \<Longrightarrow> pane_step env says p (p \<lparr>replyCc := chips f\<rparr>)"
| bcc_edited: "chip_step \<lparr>chips = replyBcc p, chip_text = typed\<rparr> f \<Longrightarrow> pane_step env says p (p \<lparr>replyBcc := chips f\<rparr>)"
| cc_toggled: "pane_step env says p (p \<lparr>ccOpen := \<not> ccOpen p\<rparr>)"
| bcc_toggled: "pane_step env says p (p \<lparr>bccOpen := \<not> bccOpen p\<rparr>)"
| subject_edited: "pane_step env says p (p \<lparr>replySubject := s\<rparr>)"
| reply_edited: "pane_step env says p (p \<lparr>replyBody := s\<rparr>)"
| forward_to_edited: "pane_step env says p (p \<lparr>forwardTo := s\<rparr>)"
| forward_edited: "pane_step env says p (p \<lparr>forwardBody := s\<rparr>)"
| reply_files_picked: "pane_step env says p (pick_reply_files fs p)"
| forward_files_picked: "pane_step env says p (pick_forward_files fs p)"
| reply_file_removed: "pane_step env says p (p \<lparr>replyFiles := remove_nth i (replyFiles p)\<rparr>)"
| forward_file_removed: "pane_step env says p (p \<lparr>forwardFiles := remove_nth i (forwardFiles p)\<rparr>)"
| original_dropped: "pane_step env says p (drop_original i p)"
| reply_sent: "\<not> replySending p \<Longrightarrow> pane_step env says p (begin_reply says p)"
| reply_done: "pane_step env says p (reply_answered says r p)"
| forward_sent: "\<not> forwardSending p \<Longrightarrow> pane_step env says p (begin_forward says p)"
| forward_done: "pane_step env says p (forward_answered says r p)"
| state_patched: "\<not> stateSaving p \<Longrightarrow> pane_step env says p (begin_patch_state p)"
| state_answered: "pane_step env says p (patch_state_answered says rs p)"
| delete_pressed: "pane_step env says p (fst (begin_pane_delete p))"
| delete_answered: "pane_step env says p (pane_delete_answered says r p)"

inductive pane_run :: "mail_env \<Rightarrow> (js_error \<Rightarrow> string) \<Rightarrow> string list \<Rightarrow> pane \<Rightarrow> bool" for env says own where
  pane_fresh: "pane_run env says own (fresh_pane own)"
| pane_more: "pane_run env says own p \<Longrightarrow> pane_step env says p q \<Longrightarrow> pane_run env says own q"

text \<open>
  The files of either composer stay under the limit. What is posted has an account, a subject and
  a text; a reply goes to a list of addresses, none empty, none with white space around it and
  none listed twice, and so does its Bcc; a forward goes to the text typed, which is not blank. A
  reply to all that is open on a loaded message has nobody left to add.
\<close>

definition addressed :: "mail_post \<Rightarrow> bool" where
  "addressed m \<longleftrightarrow>
     (if post_reply_to m = None then post_to m \<noteq> [] \<and> trimmed (post_to m)
      else \<exists>rs. rs \<noteq> [] \<and> addresses_ok rs \<and> post_to m = join '', '' rs)"

definition post_ok :: "mail_post \<Rightarrow> bool" where
  "post_ok m \<longleftrightarrow> post_account m \<noteq> 0 \<and> addressed m \<and> post_body m \<noteq> [] \<and> post_subject m \<noteq> []
     \<and> (case post_cc m of Some cs \<Rightarrow> cs \<noteq> [] | None \<Rightarrow> True)
     \<and> (case post_bcc m of Some bs \<Rightarrow> bs \<noteq> [] \<and> addresses_ok bs | None \<Rightarrow> True)"

definition pane_ok :: "pane \<Rightarrow> bool" where
  "pane_ok p \<longleftrightarrow>
     \<not> over_limit (replyFiles p) \<and> \<not> over_limit (forwardFiles p) \<and> list_all post_ok (posts p)
     \<and> addresses_ok (replyToList p) \<and> addresses_ok (replyBcc p)
     \<and> (\<forall>m. shown p = Some m \<and> cc_known m \<longrightarrow> ccPending p = None)"

lemma or_text_ne [simp]: "d \<noteq> [] \<Longrightarrow> or_text s d \<noteq> []"
  by (simp add: or_text_def)

lemma subject_ne [simp]: "displaySubject m \<noteq> []" "replySubjectFor m \<noteq> []" "forwardSubject m \<noteq> []"
proof -
  show d: "displaySubject m \<noteq> []" by (simp add: displaySubject_def Let_def)
  then show "replySubjectFor m \<noteq> []" "forwardSubject m \<noteq> []"
    by (simp_all add: replySubjectFor_def forwardSubject_def Let_def)
qed

lemma opt_list_ok [simp]: "(case opt_list xs of None \<Rightarrow> True | Some cs \<Rightarrow> cs \<noteq> [])"
  by (simp add: opt_list_def)

text \<open>The addresses a reply opens with.\<close>

lemma addressOf_trimmed: "trimmed (addressOf v)"
  unfolding addressOf_def Let_def by (rule trimmed_trim)

lemma header_trimmed: "a \<in> set (header_addresses h) \<Longrightarrow> trimmed a"
  by (auto simp: header_addresses_def addressOf_trimmed)

lemma replyRecipients_ok: "addresses_ok (replyRecipients e own)"
proof -
  obtain ys s where y: "filter_seen (\<lambda>a. a \<noteq> [] \<and> toLowerCase a \<notin> own_set own) toLowerCase {}
      (header_addresses (receiver e)) = (ys, s)" by fastforce
  have "addresses_ok ys" by (rule seen_ok [OF y]) (auto dest: header_trimmed)
  then show ?thesis
    by (simp add: replyRecipients_def y Let_def addresses_ok_def addressOf_trimmed)
qed

lemma replyAllRecipients_ok: "addresses_ok (fst (replyAllRecipients e own))"
proof -
  let ?ok = "\<lambda>a. CHR ''@'' \<in> set a \<and> toLowerCase a \<notin> own_set own"
  obtain ys s where y: "filter_seen ?ok toLowerCase {}
      (addressOf (nullish (sender e) []) # header_addresses (receiver e)) = (ys, s)" by fastforce
  obtain zs s' where z: "filter_seen ?ok toLowerCase s (header_addresses (cc e)) = (zs, s')" by fastforce
  have "addresses_ok ys" by (rule seen_ok [OF y]) (auto dest: header_trimmed simp: addressOf_trimmed)
  moreover have "addresses_ok zs" by (rule seen_ok [OF z]) (auto dest: header_trimmed)
  ultimately show ?thesis
    using replyRecipients_ok [of e "own_list own"]
    by (simp add: replyAllRecipients_def y z Let_def del: filter_seen.simps)
qed

lemma reply_list_ok: "addresses_ok (reply_list p)"
  by (simp add: reply_list_def replyRecipients_ok split: option.split)

lemma reply_post_ok:
  "reply_refused m p = None \<Longrightarrow> addresses_ok (replyToList p) \<Longrightarrow> addresses_ok (replyBcc p)
     \<Longrightarrow> post_ok (reply_post m files p)"
  by (cases "replyToList p = []")
    (auto simp: reply_refused_def post_ok_def addressed_def reply_post_def opt_list_def split: if_splits)

lemma forward_post_ok: "forward_refused m p = None \<Longrightarrow> post_ok (forward_post m files p)"
  by (simp add: forward_refused_def post_ok_def addressed_def forward_post_def trimmed_trim split: if_splits)

lemma cc_arrives_fields [simp]:
  "replyFiles (cc_arrives p) = replyFiles p" "forwardFiles (cc_arrives p) = forwardFiles p"
  "posts (cc_arrives p) = posts p" "shown (cc_arrives p) = shown p" "replyToList (cc_arrives p) = replyToList p"
  "replyBcc (cc_arrives p) = replyBcc p"
  "replyOpen (cc_arrives p) = replyOpen p" "replyAll (cc_arrives p) = replyAll p"
  "replyBody (cc_arrives p) = replyBody p"
  by (simp_all add: cc_arrives_def split: option.split)

lemma cc_arrives_pending: "shown p = Some m \<Longrightarrow> cc_known m \<Longrightarrow> ccPending (cc_arrives p) = None"
  by (simp add: cc_arrives_def split: option.split)

lemma sync_state_fields [simp]:
  "replyFiles (sync_state p) = replyFiles p" "forwardFiles (sync_state p) = forwardFiles p"
  "posts (sync_state p) = posts p" "shown (sync_state p) = shown p" "replyToList (sync_state p) = replyToList p"
  "replyBcc (sync_state p) = replyBcc p"
  by (simp_all add: sync_state_def split: option.split)

lemma reset_fields [simp]:
  "replyFiles (reset_composer p) = replyFiles p" "forwardFiles (reset_composer p) = forwardFiles p"
  "posts (reset_composer p) = posts p" "shown (reset_composer p) = shown p"
  by (simp_all add: reset_composer_def)

lemma show_mail_fields [simp]:
  "replyFiles (show_mail m p) = replyFiles p" "forwardFiles (show_mail m p) = forwardFiles p"
  "posts (show_mail m p) = posts p" "shown (show_mail m p) = m"
  by (simp_all add: show_mail_def Let_def)

lemma show_mail_lists:
  "addresses_ok (replyToList p) \<Longrightarrow> addresses_ok (replyToList (show_mail m p))"
  "addresses_ok (replyBcc p) \<Longrightarrow> addresses_ok (replyBcc (show_mail m p))"
  by (simp_all add: show_mail_def Let_def reset_composer_def)

lemma show_mail_pending: "cc_known m \<Longrightarrow> ccPending (show_mail (Some m) p) = None"
  unfolding show_mail_def Let_def by (rule cc_arrives_pending) auto

lemma remove_nth_limit: "\<not> over_limit fs \<Longrightarrow> \<not> over_limit (remove_nth i fs)"
  using total_removed [of i fs] by (simp add: over_limit_def remove_nth_def)

lemma pane_step_ok: "pane_step env says p q \<Longrightarrow> pane_ok p \<Longrightarrow> pane_ok q"
proof (induction rule: pane_step.induct)
  case (mail_shown p m)
  then show ?case by (auto simp: pane_ok_def show_mail_pending show_mail_lists)
next
  case (reply_shown p b)
  then show ?case by (auto simp: showReply_def pane_ok_def Let_def reply_list_ok split: option.split)
next
  case (reply_all_shown p b)
  have "addresses_ok to'" if "replyAllRecipients e own = (to', cc')" for e own to' cc'
    using replyAllRecipients_ok [of e own] that by simp
  with reply_all_shown show ?case
    by (cases "shown p") (auto simp: showReplyAll_def pane_ok_def cc_arrives_pending Let_def split: prod.splits)
next
  case (to_edited p typed f)
  then show ?case using chip_step_ok [OF to_edited(1)] by (simp add: pane_ok_def)
next
  case (bcc_edited p typed f)
  then show ?case using chip_step_ok [OF bcc_edited(1)] by (simp add: pane_ok_def)
next
  case (forward_shown p b)
  then show ?case by (auto simp: showForward_def pane_ok_def split: option.split)
next
  case (reply_sent p)
  then show ?case
    by (auto simp: begin_reply_def reply_failed_def pane_ok_def reply_post_ok Let_def split: option.split sum.split)
next
  case (forward_sent p)
  then show ?case
    by (auto simp: begin_forward_def forward_failed_def pane_ok_def forward_post_ok Let_def split: option.split sum.split)
next
  case (reply_done p r)
  then show ?case by (cases r) (auto simp: reply_answered_def reply_failed_def pane_ok_def over_limit_def total_size_def)
next
  case (forward_done p r)
  then show ?case by (cases r) (auto simp: forward_answered_def forward_failed_def pane_ok_def over_limit_def total_size_def)
next
  case (delete_pressed p)
  then show ?case by (auto simp: begin_pane_delete_def pane_ok_def split: option.split)
qed (auto simp: pane_ok_def cancelReply_def cancelForward_def onPick_def pick_reply_files_def pick_forward_files_def
    remove_nth_limit drop_original_def begin_patch_state_def patch_state_answered_def pane_delete_answered_def Let_def
    split: sum.split)

lemma pane_run_ok: "pane_run env says own p \<Longrightarrow> pane_ok p"
proof (induction rule: pane_run.induct)
  case pane_fresh
  then show ?case by (simp add: fresh_pane_def pane_ok_def over_limit_def total_size_def)
qed (rule pane_step_ok)

section \<open>Properties\<close>

text \<open>
  C24: Whatever the order of clicks, edits and answers, a post has an account, a subject and a text. A
  reply goes to a list of addresses that is not empty, none of them empty, padded or listed twice
  but for case, and its Bcc is such a list or left out; a forward goes to the text of its To box,
  trimmed and not empty. Neither the picked files nor a forward with its originals exceed the limit.
\<close>

theorem posts_are_addressed:
  assumes "pane_run env says own p"
  shows "list_all post_ok (posts p) \<and> total_size (replyFiles p) \<le> MAX_ATTACHMENTS_BYTES
    \<and> total_size (forwardFiles p) \<le> MAX_ATTACHMENTS_BYTES
    \<and> (\<forall>m. shown p = Some m \<and> posts (begin_forward says p) \<noteq> posts p \<longrightarrow> forward_bytes m p \<le> MAX_ATTACHMENTS_BYTES)"
  using pane_run_ok [OF assms]
  by (auto simp: pane_ok_def over_limit_def begin_forward_def forward_refused_def forward_failed_def Let_def
      split: option.splits if_splits sum.splits)

lemma no_cc: "cc e = None \<Longrightarrow> snd (replyAllRecipients e own) = []"
  by (auto simp: replyAllRecipients_def header_addresses_def splitAddressList_def trim_def Let_def split: prod.splits)

lemma plain_fields [simp]: "cc (plain_mail m) = cc m" "eid (plain_mail m) = eid m"
  by (simp_all add: plain_mail_def email.truncate_def)

lemma opened_reply_all:
  assumes "shown p = Some m" "\<not> cc_known m" "cc m = None" "can_reply_all p"
  shows "replyOpen (showReplyAll True p)" "replyAll (showReplyAll True p)" "ccPending (showReplyAll True p) = Some (eid m)"
    "replyCc (showReplyAll True p) = replyCc p" "shown (showReplyAll True p) = Some m"
    "own_addresses (showReplyAll True p) = own_addresses p" "posts (showReplyAll True p) = posts p"
  using assms no_cc [of "plain_mail m" "own_addresses p"]
  by (cases "replyAllRecipients (plain_mail m) (own_addresses p)";
      simp add: showReplyAll_def cc_arrives_def mergeCc_def Let_def)+

text \<open>
  Reply all opened on a list row, which has no Cc, gets the Cc of the message when it arrives;
  sent before that, the reply goes out without them.
\<close>

theorem late_cc_is_added:
  assumes "shown p = Some m" "\<not> cc_known m" "cc m = None" "can_reply_all p" "eid full = eid m" "cc_known full"
    and "ccs = snd (replyAllRecipients (plain_mail full) (own_addresses p))"
    and "\<forall>a \<in> set ccs. CHR 0x0A \<notin> set a \<and> a \<noteq> []" "q = showReplyAll True p" "r = show_mail (Some full) q"
  shows "replyOpen r \<and> replyToList r = replyToList q \<and> replyCc r = mergeCc (replyCc p) ccs
    \<and> (\<forall>a \<in> set ccs. toLowerCase a \<in> toLowerCase ` set (replyCc r))
    \<and> (replyCc p = [] \<and> posts (begin_reply says (q \<lparr>replyBody := t\<rparr>)) \<noteq> posts p \<longrightarrow>
         post_cc (last (posts (begin_reply says (q \<lparr>replyBody := t\<rparr>)))) = None)"
proof -
  note o = opened_reply_all [OF assms(1-4), folded assms(9)]
  define q1 where "q1 = (if state_deps (Some full) = state_deps (shown q) then q \<lparr>shown := Some full\<rparr>
      else sync_state (q \<lparr>shown := Some full\<rparr>))"
  have q1: "shown q1 = Some full" "replyOpen q1" "replyAll q1" "ccPending q1 = Some (eid m)" "replyCc q1 = replyCc p"
    "own_addresses q1 = own_addresses p" "replyToList q1 = replyToList q"
    using o by (simp_all add: q1_def sync_state_def split: option.split)
  have r: "r = cc_arrives q1" using o(5) assms(5) by (simp add: assms(10) show_mail_def q1_def Let_def)
  have late: "late_cc q1 = ccs"
  proof (cases "ccs = []")
    case True
    then show ?thesis using assms(7) by (simp add: late_cc_def q1)
  next
    case False
    then have "join [CHR 0x0A] ccs \<noteq> []" using assms(8) by (cases ccs rule: remdups_adj.cases) auto
    then show ?thesis
      using split_on_join [OF False, of "CHR 0x0A"] assms(6,8) by (simp add: late_cc_def q1 assms(7) Let_def)
  qed
  have cc: "replyCc r = mergeCc (replyCc p) ccs"
    using q1 assms(5,6) late by (simp add: r cc_arrives_def mergeCc_def)
  moreover have "\<forall>a \<in> set ccs. toLowerCase a \<in> toLowerCase ` set (replyCc r)"
    unfolding cc by (auto simp: mergeCc_def)
  moreover have "post_cc (last (posts (begin_reply says (q \<lparr>replyBody := t\<rparr>)))) = None"
    if "replyCc p = []" "posts (begin_reply says (q \<lparr>replyBody := t\<rparr>)) \<noteq> posts p"
    using that o by (auto simp: begin_reply_def reply_failed_def reply_post_def opt_list_def Let_def
        split: option.splits sum.splits)
  ultimately show ?thesis using q1 by (simp add: r)
qed

text \<open>
  Files picked for a reply stay when the split view shows another message: they are posted with
  the reply to that one.
\<close>

theorem files_follow_other_mail:
  assumes "shown p = Some m1" "eid m1 \<noteq> eid m2" "replyFiles p = []" "fs \<noteq> []" "\<not> over_limit fs"
    and "q = (showReply True (show_mail (Some m2) (pick_reply_files fs p))) \<lparr>replyBody := t\<rparr>"
    and "reply_refused m2 q = None" "read_files fs = Ok files"
  shows "posts (begin_reply says q) = posts p @ [reply_post m2 files q]
    \<and> post_files (last (posts (begin_reply says q))) = files \<and> post_reply_to (last (posts (begin_reply says q))) = Some (eid m2)"
proof -
  have fields: "shown (showReply b x) = shown x" "replyFiles (showReply b x) = replyFiles x" "posts (showReply b x) = posts x"
    for b x by (simp_all add: showReply_def Let_def split: option.split)
  have q: "shown q = Some m2" "replyFiles q = fs" "posts q = posts p"
    using assms(3-5) by (simp_all add: assms(6) fields pick_reply_files_def)
  then show ?thesis using assms(7,8) by (simp add: begin_reply_def reply_post_def Let_def)
qed

text \<open>
  An answer that comes when another message is shown acts on that one: a sent reply clears the
  draft begun there, and a changed workflow state is shown as the state of the other message.
\<close>

theorem late_answer_hits_other_mail:
  assumes "shown p = Some m1" "eid m1 \<noteq> eid m2" "is_email st = eid m1"
    and "q = (showReply True (show_mail (Some m2) p)) \<lparr>replyBody := t, replyFiles := fs\<rparr>"
  shows "replyOpen q \<and> replyBody (reply_answered says (Ok ()) q) = [] \<and> replyFiles (reply_answered says (Ok ()) q) = []
    \<and> \<not> replyOpen (reply_answered says (Ok ()) q)
    \<and> posts (reply_answered says (Ok ()) q) = posts p
    \<and> (\<exists>s. inboxState (patch_state_answered says (Ok st) q) = Some s \<and> shown q = Some m2 \<and> is_email s \<noteq> eid m2)"
proof -
  have fields: "shown (showReply b x) = shown x" "posts (showReply b x) = posts x" "shown x \<noteq> None \<Longrightarrow> replyOpen (showReply b x) = b"
    for b x by (auto simp: showReply_def Let_def split: option.splits)
  have "shown q = Some m2" "replyOpen q" "posts q = posts p" by (simp_all add: assms(4) fields)
  then show ?thesis using assms(2,3) by (simp add: reply_answered_def patch_state_answered_def)
qed

text \<open>
  Closing the composer and opening it again keeps recipients, subject and text; going from Reply
  all back to Reply takes out exactly what Reply all added.
\<close>

theorem reopened_reply_keeps_draft:
  assumes "shown p = Some m" "\<not> replyAll p" "replyToList p \<noteq> []" "replySubject p \<noteq> []"
    and "q = showReply True (cancelReply p)" "cc_known m" "can_reply_all p"
    and "\<forall>a \<in> set (replyCc p). toLowerCase a \<notin> toLowerCase ` set (snd (replyAllRecipients (plain_mail m) (own_addresses p)))"
    and "r = showReply True (showReplyAll True p)"
  shows "replyToList q = replyToList p \<and> replySubject q = replySubject p \<and> replyBody q = replyBody p
      \<and> replyFiles q = replyFiles p \<and> replyCc q = []
    \<and> replyToList r = reply_list p \<and> replyCc r = replyCc p \<and> replyBody r = replyBody p \<and> \<not> replyAll r"
proof -
  obtain to' cc' where a: "replyAllRecipients (plain_mail m) (own_addresses p) = (to', cc')" by fastforce
  define x where "x = showReplyAll True p"
  have x: "shown x = Some m" "replyAll x" "replyCc x = mergeCc (replyCc p) cc'" "replyBody x = replyBody p"
    "own_addresses x = own_addresses p"
    using assms(1,6,7) a by (simp_all add: x_def showReplyAll_def cc_arrives_def Let_def)
  have "filter (\<lambda>b. toLowerCase b \<notin> toLowerCase ` set cc') (mergeCc (replyCc p) cc') = replyCc p"
  proof -
    have "filter (\<lambda>b. toLowerCase b \<notin> toLowerCase ` set cc') (replyCc p) = replyCc p"
      using assms(8) a by (intro filter_True) simp
    moreover have "filter (\<lambda>b. toLowerCase b \<notin> toLowerCase ` set cc') (filter P cc') = []" for P
      by (auto simp: filter_empty_conv)
    ultimately show ?thesis by (simp add: mergeCc_def)
  qed
  then have "replyCc r = replyCc p \<and> replyToList r = reply_list p \<and> replyBody r = replyBody p \<and> \<not> replyAll r"
    unfolding assms(9) x_def [symmetric] using x a assms(1)
    by (simp add: showReply_def reply_list_def Let_def)
  moreover have "replyToList q = replyToList p \<and> replySubject q = replySubject p \<and> replyBody q = replyBody p
      \<and> replyFiles q = replyFiles p \<and> replyCc q = []"
    using assms(1-4) by (simp add: assms(5) showReply_def cancelReply_def or_text_def Let_def)
  ultimately show ?thesis by blast
qed

section \<open>Examples\<close>

definition demo_message :: "int \<Rightarrow> string option \<Rightarrow> bool \<Rightarrow> shown_mail" where
  "demo_message i copies known =
     \<lparr>eid = i, account_id = Some 1, sender = Some ''a@x'', receiver = Some ''me@x, b@x'', cc = copies,
      body = Some ''hi'', created_at = 0, sort_at = None, is_read = None, is_starred = None, starred_ids = None,
      snoozed_until = None, thread_id = None, message_count = None, unread_count = None, message_ids = None,
      unread_ids = None, participants = None, content = [], subject = Some ''s'', cc_known = known, is_shared = False,
      inbox_status = None, inbox_assignee = None, mail_files = None\<rparr>"

definition demo_pane :: pane where
  "demo_pane = (fresh_pane [''me@x'']) \<lparr>shown := Some (demo_message 1 None False)\<rparr>"

definition demo_file :: compose_file where
  "demo_file = \<lparr>file_name = ''f'', file_size = 5, file_type = [], file_url = Ok ''data:,QQ==''\<rparr>"

lemma demo_message_fields:
  "eid (demo_message i c k) = i" "cc (demo_message i c k) = c" "cc_known (demo_message i c k) = k"
  "account_id (demo_message i c k) = Some 1"
  by (simp_all add: demo_message_def)

lemma demo_pane_fields:
  "shown demo_pane = Some (demo_message 1 None False)" "own_addresses demo_pane = [''me@x'']" "replyCc demo_pane = []"
  "replyFiles demo_pane = []" "posts demo_pane = []"
  by (simp_all add: demo_pane_def fresh_pane_def)

lemma demo_can_reply_all: "can_reply_all demo_pane"
  by code_simp

text \<open>A message is opened, replied to and the reply sent.\<close>

definition demo_replied :: pane where
  "demo_replied = begin_reply no_text ((showReply True (show_mail (Some (demo_message 1 None False))
     (fresh_pane [''me@x'']))) \<lparr>replyBody := ''ok''\<rparr>)"

lemma demo_replied_run: "pane_run \<lparr>date_text = (\<lambda>m. []), html_text = Ok\<rparr> no_text [''me@x''] demo_replied"
proof -
  let ?p = "(showReply True (show_mail (Some (demo_message 1 None False)) (fresh_pane [''me@x'']))) \<lparr>replyBody := ''ok''\<rparr>"
  have "\<not> replySending ?p" by code_simp
  then show ?thesis
    unfolding demo_replied_def
    by (intro pane_more [OF _ reply_sent] pane_more [OF _ reply_edited] pane_more [OF _ reply_shown]
        pane_more [OF _ mail_shown] pane_fresh)
qed

theorem posts_are_addressed_witness:
  "map post_to (posts demo_replied) = [''a@x''] \<and> list_all post_ok (posts demo_replied)"
proof -
  have "map post_to (posts demo_replied) = [''a@x'']" by code_simp
  then show ?thesis using posts_are_addressed [OF demo_replied_run] by blast
qed

theorem late_cc_is_added_witness:
  "replyCc (show_mail (Some (demo_message 1 (Some ''c@x'') True)) (showReplyAll True demo_pane)) = [''c@x'']"
proof -
  have c: "snd (replyAllRecipients (plain_mail (demo_message 1 (Some ''c@x'') True)) (own_addresses demo_pane)) = [''c@x'']"
    by code_simp
  have "\<not> cc_known (demo_message 1 None False)" "cc (demo_message 1 None False) = None"
    "eid (demo_message 1 (Some ''c@x'') True) = eid (demo_message 1 None False)"
    "cc_known (demo_message 1 (Some ''c@x'') True)" by (simp_all add: demo_message_fields)
  from late_cc_is_added [OF demo_pane_fields(1) this(1,2) demo_can_reply_all this(3,4) refl _ refl refl]
  have "replyCc (show_mail (Some (demo_message 1 (Some ''c@x'') True)) (showReplyAll True demo_pane))
      = mergeCc (replyCc demo_pane) [''c@x'']" unfolding c by fastforce
  then show ?thesis by (simp add: demo_pane_fields mergeCc_def)
qed

lemma shown_other:
  assumes "map_option eid m \<noteq> map_option eid (shown p)"
  shows "replyToList (show_mail m p) = []" "replyAll (show_mail m p) = False"
    "own_addresses (show_mail m p) = own_addresses p"
proof -
  have f: "own_addresses (cc_arrives x) = own_addresses x" "own_addresses (sync_state x) = own_addresses x"
    "replyToList (sync_state x) = replyToList x" "replyAll (sync_state x) = replyAll x"
    "own_addresses (reset_composer x) = own_addresses x" "replyToList (reset_composer x) = []"
    "\<not> replyAll (reset_composer x)" for x
    by (simp_all add: cc_arrives_def sync_state_def reset_composer_def split: option.split)
  show "replyToList (show_mail m p) = []" "replyAll (show_mail m p) = False"
    "own_addresses (show_mail m p) = own_addresses p"
    using assms by (simp_all add: show_mail_def f Let_def)
qed

lemma picked_fields:
  "shown (pick_reply_files fs p) = shown p" "own_addresses (pick_reply_files fs p) = own_addresses p"
  by (simp_all add: pick_reply_files_def)

theorem files_follow_other_mail_witness:
  "\<exists>q. map post_files (posts (begin_reply no_text q)) = [Some [\<lparr>att_filename = ''f'',
      att_mime = ''application/octet-stream'', att_content = ''QQ==''\<rparr>]]
    \<and> map post_reply_to (posts (begin_reply no_text q)) = [Some 2]"
proof -
  define q where "q = (showReply True (show_mail (Some (demo_message 2 None True)) (pick_reply_files [demo_file] demo_pane)))
    \<lparr>replyBody := ''ok''\<rparr>"
  have r: "replyRecipients (plain_mail (demo_message 2 None True)) [''me@x''] = [''a@x'']" and t: "trim ''ok'' = ''ok''"
    by code_simp+
  define x where "x = show_mail (Some (demo_message 2 None True)) (pick_reply_files [demo_file] demo_pane)"
  have d: "map_option eid (Some (demo_message 2 None True)) \<noteq> map_option eid (shown (pick_reply_files [demo_file] demo_pane))"
    by (simp add: picked_fields demo_pane_fields demo_message_fields)
  have x: "shown x = Some (demo_message 2 None True)" "own_addresses x = [''me@x'']" "replyToList x = []" "\<not> replyAll x"
    using shown_other [OF d] by (simp_all add: x_def picked_fields demo_pane_fields)
  have "replyToList q = [''a@x'']" "replyBody q = ''ok''"
    using x by (simp_all add: q_def x_def [symmetric] showReply_def reply_list_def r Let_def)
  then have refused: "reply_refused (demo_message 2 None True) q = None"
    by (simp add: reply_refused_def demo_message_fields t)
  have files: "read_files [demo_file] = Ok (Some [\<lparr>att_filename = ''f'',
      att_mime = ''application/octet-stream'', att_content = ''QQ==''\<rparr>])" by code_simp
  have small: "\<not> over_limit [demo_file]" by (simp add: over_limit_def total_size_def demo_file_def MAX_ATTACHMENTS_BYTES_def)
  have ids: "eid (demo_message 1 None False) \<noteq> eid (demo_message 2 None True)" by (simp add: demo_message_fields)
  have e: "posts (begin_reply no_text q) = posts demo_pane @ [reply_post (demo_message 2 None True) (Some [\<lparr>att_filename = ''f'',
      att_mime = ''application/octet-stream'', att_content = ''QQ==''\<rparr>]) q]"
    by (rule files_follow_other_mail [OF demo_pane_fields(1) ids demo_pane_fields(4) _ small q_def refused files,
          THEN conjunct1]) simp
  show ?thesis by (rule exI [of _ q]) (simp add: e demo_pane_fields reply_post_def demo_message_fields)
qed

theorem late_answer_hits_other_mail_witness:
  "\<exists>q. replyBody q = ''draft'' \<and> replyBody (reply_answered no_text (Ok ()) q) = []"
proof -
  define q where "q = (showReply True (show_mail (Some (demo_message 2 None True)) demo_pane))
    \<lparr>replyBody := ''draft'', replyFiles := []\<rparr>"
  have b: "replyBody q = ''draft''" by (simp add: q_def)
  have ids: "eid (demo_message 1 None False) \<noteq> eid (demo_message 2 None True)"
    and st: "is_email \<lparr>is_email = 1, is_status = ''open'', is_assignee = None\<rparr> = eid (demo_message 1 None False)"
    by (simp_all add: demo_message_fields)
  have "replyBody (reply_answered no_text (Ok ()) q) = []"
    by (rule late_answer_hits_other_mail [OF demo_pane_fields(1) ids st q_def, THEN conjunct2, THEN conjunct1])
  with b show ?thesis by blast
qed

theorem reopened_reply_keeps_draft_witness:
  "\<exists>p. replyBody (showReply True (cancelReply p)) = ''draft'' \<and> replyToList (showReply True (cancelReply p)) = [''z@x'']"
proof -
  define p where "p = (fresh_pane [''me@x'']) \<lparr>shown := Some (demo_message 1 (Some ''c@x'') True), replyToList := [''z@x''],
    replySubject := ''s'', replyBody := ''draft''\<rparr>"
  have c: "can_reply_all p" unfolding p_def by code_simp
  have f: "shown p = Some (demo_message 1 (Some ''c@x'') True)" "\<not> replyAll p" "replyToList p = [''z@x'']"
    "replySubject p = ''s''" "replyBody p = ''draft''" "replyCc p = []"
    by (simp_all add: p_def fresh_pane_def)
  have "replyToList (showReply True (cancelReply p)) = replyToList p \<and> replyBody (showReply True (cancelReply p)) = replyBody p"
    using reopened_reply_keeps_draft [OF f(1,2) _ _ refl _ c _ refl] by (simp add: f demo_message_fields)
  then show ?thesis unfolding f by blast
qed

end
