(* ===== verification/Mail_Reader.thy ===== *)
theory Mail_Reader
  imports Email_Inbox Mail_Encryption
begin

text \<open>
  Reading a mail: the part of \<open>emails/useEmailInbox.ts\<close> that opens a message, loads and decrypts
  its body, follows its conversation and lists attachments, and the earlier messages of
  \<open>emails/ConversationView.tsx\<close>. An asynchronous function is cut where it waits for a request whose
  answer it checks against what is wanted by then; \<open>pending\<close> lists what waits. Decrypting with the
  keys of this device is an argument, \<open>decryptWayveBodyIfNeeded\<close> in use.
\<close>

section \<open>Messages with their bodies\<close>

record read_mail = email +
  attachment_ids :: "nat list option"
  attachments_checked :: "bool option"
  body_loading :: "bool option"
  body_error :: "string option"

definition list_part :: "read_mail \<Rightarrow> email" where
  "list_part m = email.truncate m"

text \<open>\<open>{...a, ...b}\<close>\<close>

definition spread_mail :: "read_mail \<Rightarrow> read_mail \<Rightarrow> read_mail" where
  "spread_mail a b = email.extend (spread (list_part a) (list_part b))
     (read_mail.fields (over (attachment_ids b) (attachment_ids a)) (over (attachments_checked b) (attachments_checked a))
       (over (body_loading b) (body_loading a)) (over (body_error b) (body_error a)))"

section \<open>The state of the hook's reading part\<close>

datatype read_view = EmailView | FilesView

datatype pending =
    AwaitMail read_mail \<comment> \<open>the message of an opened row\<close>
  | AwaitSealed read_mail read_mail \<comment> \<open>decryption of a body that came with the message\<close>
  | AwaitBody read_mail read_mail \<comment> \<open>a body asked for separately\<close>
  | AwaitThread read_mail \<comment> \<open>the messages of a row's conversation\<close>
  | AwaitNewest read_mail read_mail \<comment> \<open>the newest of them, shown for the row\<close>
  | AwaitEarlier read_mail \<comment> \<open>an earlier message expanded in the pane\<close>

record reader =
  rd_view :: read_view
  rd_mail :: "read_mail option"
  rd_thread :: "(int \<times> read_mail list) option"
  rd_cache :: "int \<rightharpoonup> read_mail"
  rd_for :: "int option"
  rd_files :: "nat list"
  rd_files_loading :: bool
  rd_files_error :: "string option"

definition fresh_reader :: reader where
  "fresh_reader = \<lparr>rd_view = EmailView, rd_mail = None, rd_thread = None, rd_cache = Map.empty, rd_for = None,
     rd_files = [], rd_files_loading = False, rd_files_error = None\<rparr>"

text \<open>The answers a waiting function can get.\<close>

record read_answers =
  ra_mail :: "read_mail result"
  ra_thread :: "read_mail list result"
  ra_body :: "string result"
  ra_live :: "string result"
  ra_files :: "nat list result"
  ra_check :: "unit result"
  ra_files_again :: "nat list result"

section \<open>Bodies\<close>

definition has_text :: "string option \<Rightarrow> bool" where
  "has_text v \<longleftrightarrow> v \<noteq> None \<and> v \<noteq> Some []"

definition loadBody :: "(string \<Rightarrow> string result) \<Rightarrow> read_answers \<Rightarrow> string result" where
  "loadBody dec a =
     bind_result (ra_body a) (\<lambda>b.
       case dec b of
         Ok t \<Rightarrow> Ok t
       | Throw e \<Rightarrow> bind_result (ra_live a) dec)"

definition opened_body :: "(string \<Rightarrow> string result) \<Rightarrow> read_answers \<Rightarrow> read_mail \<Rightarrow> string result" where
  "opened_body dec a d = (if has_text (body d) then dec (nullish (body d) []) else loadBody dec a)"

text \<open>A body that came before its attachments were looked for makes the server look.\<close>

definition opened_files :: "read_answers \<Rightarrow> read_mail \<Rightarrow> nat list result" where
  "opened_files a d =
     bind_result (ra_files a) (\<lambda>fs.
       if has_text (body d) \<and> attachments_checked d \<noteq> Some True
       then bind_result (ra_check a) (\<lambda>u. ra_files_again a) else Ok fs)"

definition with_body :: "(string \<Rightarrow> string result) \<Rightarrow> read_answers \<Rightarrow> read_mail \<Rightarrow> read_mail \<Rightarrow> read_mail result" where
  "with_body dec a d base =
     bind_result (opened_body dec a d) (\<lambda>t.
     bind_result (opened_files a d) (\<lambda>fs. Ok (base \<lparr>body := Some t, attachment_ids := Some fs\<rparr>)))"

section \<open>One message\<close>

text \<open>\<open>fetchMessage\<close>: the cached copy, or the message with its body, which is then cached.\<close>

definition cached_message :: "read_mail \<Rightarrow> reader \<Rightarrow> read_mail option" where
  "cached_message e r = (case rd_cache r (eid e) of Some c \<Rightarrow> (if body c \<noteq> None then Some c else None) | None \<Rightarrow> None)"

definition fetched_message :: "(string \<Rightarrow> string result) \<Rightarrow> read_answers \<Rightarrow> read_mail \<Rightarrow> read_mail result" where
  "fetched_message dec a e = bind_result (ra_mail a) (\<lambda>d. with_body dec a d (spread_mail e d))"

definition fetchMessage ::
  "(string \<Rightarrow> string result) \<Rightarrow> read_answers \<Rightarrow> read_mail \<Rightarrow> reader \<Rightarrow> read_mail result \<times> reader" where
  "fetchMessage dec a e r =
     (case fetched_message dec a e of
        Throw x \<Rightarrow> (Throw x, r)
      | Ok full \<Rightarrow> (Ok full, r \<lparr>rd_cache := (rd_cache r)(eid e \<mapsto> full)\<rparr>))"

definition mail_error :: "(js_error \<Rightarrow> string option) \<Rightarrow> js_error \<Rightarrow> read_mail \<Rightarrow> read_mail" where
  "mail_error says e m = m \<lparr>body := Some [], body_error := Some (emailBodyErrorMessage (says e))\<rparr>"

section \<open>Opening\<close>

definition opened_row :: "read_mail \<Rightarrow> read_mail" where
  "opened_row e = e \<lparr>is_read := Some True, unread_count := Some 0\<rparr>"

definition begin_read :: "read_mail \<Rightarrow> reader \<Rightarrow> reader \<times> pending list" where
  "begin_read e r =
     (let r1 = r \<lparr>rd_view := EmailView, rd_thread := None, rd_for := Some (eid e)\<rparr>;
          early = (if isConversation (list_part e) then [AwaitThread e] else [])
      in case rd_cache r1 (eid e) of
           Some c \<Rightarrow>
             (let cached = c \<lparr>is_read := Some True\<rparr>
              in (r1 \<lparr>rd_cache := (rd_cache r1)(eid e \<mapsto> cached), rd_mail := Some cached\<rparr>, early))
         | None \<Rightarrow> (r1, early @ [AwaitMail e]))"

definition still_shown :: "read_mail \<Rightarrow> reader \<Rightarrow> bool" where
  "still_shown e r \<longleftrightarrow> rd_for r = Some (eid e)"

definition open_failed :: "(js_error \<Rightarrow> string option) \<Rightarrow> js_error \<Rightarrow> read_mail \<Rightarrow> reader \<Rightarrow> reader" where
  "open_failed says x e r = (if still_shown e r then r \<lparr>rd_mail := Some (mail_error says x (opened_row e))\<rparr> else r)"

text \<open>\<open>emailWithListFields\<close>\<close>

definition with_list_fields :: "read_mail \<Rightarrow> read_mail \<Rightarrow> read_mail" where
  "with_list_fields e d = (spread_mail (opened_row e) d) \<lparr>is_read := Some True\<rparr>"

definition mail_answered ::
  "(js_error \<Rightarrow> string option) \<Rightarrow> read_answers \<Rightarrow> read_mail \<Rightarrow> reader \<Rightarrow> reader \<times> pending list" where
  "mail_answered says a e r =
     (case ra_mail a of
        Throw x \<Rightarrow> (open_failed says x e r, [])
      | Ok d \<Rightarrow>
          if \<not> still_shown e r then (r, [])
          else if has_text (body d) then (r, [AwaitSealed e d])
          else (r \<lparr>rd_mail := Some ((with_list_fields e d) \<lparr>body_loading := Some True\<rparr>)\<rparr>, [AwaitBody e d]))"

definition sealed_answered ::
  "(js_error \<Rightarrow> string option) \<Rightarrow> (string \<Rightarrow> string result) \<Rightarrow> read_answers \<Rightarrow> read_mail \<Rightarrow> read_mail \<Rightarrow> reader \<Rightarrow> reader" where
  "sealed_answered says dec a e d r =
     (case with_body dec a d (with_list_fields e d) of
        Throw x \<Rightarrow> open_failed says x e r
      | Ok full \<Rightarrow>
          (let r1 = r \<lparr>rd_cache := (rd_cache r)(eid e \<mapsto> full)\<rparr>
           in if still_shown e r then r1 \<lparr>rd_mail := Some full\<rparr> else r1))"

definition merged_body :: "(string \<Rightarrow> string result) \<Rightarrow> read_answers \<Rightarrow> read_mail \<Rightarrow> read_mail \<Rightarrow> read_mail result" where
  "merged_body dec a e d =
     bind_result (loadBody dec a) (\<lambda>t.
     bind_result (ra_files a) (\<lambda>fs.
       Ok ((with_list_fields e d) \<lparr>body := Some t, attachment_ids := Some fs, body_loading := Some False\<rparr>)))"

definition body_answered ::
  "(js_error \<Rightarrow> string option) \<Rightarrow> (string \<Rightarrow> string result) \<Rightarrow> read_answers \<Rightarrow> read_mail \<Rightarrow> read_mail \<Rightarrow> reader \<Rightarrow> reader" where
  "body_answered says dec a e d r =
     (case merged_body dec a e d of
        Throw x \<Rightarrow> open_failed says x e r
      | Ok merged \<Rightarrow>
          r \<lparr>rd_cache := (rd_cache r)(eid e \<mapsto> merged),
             rd_mail := (if map_option eid (rd_mail r) = Some (eid e) then Some merged else rd_mail r)\<rparr>)"

section \<open>The conversation\<close>

definition newest_of :: "read_mail \<Rightarrow> read_mail list \<Rightarrow> read_mail" where
  "newest_of row ms = (if ms \<noteq> [] \<and> eid (last ms) \<noteq> eid row then last ms else row)"

definition read_newest :: "read_mail \<Rightarrow> read_mail" where
  "read_newest m = m \<lparr>is_read := Some True\<rparr>"

definition newest_answered ::
  "(js_error \<Rightarrow> string option) \<Rightarrow> read_mail result \<Rightarrow> read_mail \<Rightarrow> read_mail \<Rightarrow> reader \<Rightarrow> reader" where
  "newest_answered says full row shown r =
     (if \<not> still_shown shown r then r
      else r \<lparr>rd_mail := Some (case full of
          Ok m \<Rightarrow> (spread_mail row m) \<lparr>is_read := Some True\<rparr>
        | Throw x \<Rightarrow> mail_error says x (spread_mail row (read_newest shown)))\<rparr>)"

definition thread_answered ::
  "(js_error \<Rightarrow> string option) \<Rightarrow> read_answers \<Rightarrow> read_mail \<Rightarrow> reader \<Rightarrow> reader \<times> pending list" where
  "thread_answered says a row r =
     (case ra_thread a of
        Throw x \<Rightarrow> (r, [])
      | Ok ms \<Rightarrow>
          if \<not> still_shown row r then (r, [])
          else
            (let shown = newest_of row ms in
             if eid shown = eid row then (r \<lparr>rd_thread := Some (eid row, ms)\<rparr>, [])
             else
               (let r1 = r \<lparr>rd_for := Some (eid shown), rd_thread := Some (eid shown, ms),
                      rd_mail := Some ((spread_mail row (read_newest shown)) \<lparr>body_loading := Some True\<rparr>)\<rparr>
                in case cached_message shown r1 of
                     Some c \<Rightarrow> (newest_answered says (Ok c) row shown r1, [])
                   | None \<Rightarrow> (r1, [AwaitNewest row shown]))))"

text \<open>A waiting function goes on.\<close>

fun resume_read ::
  "(js_error \<Rightarrow> string option) \<Rightarrow> (string \<Rightarrow> string result) \<Rightarrow> read_answers \<Rightarrow> pending \<Rightarrow> reader \<Rightarrow> reader \<times> pending list" where
  "resume_read says dec a (AwaitMail e) r = mail_answered says a e r"
| "resume_read says dec a (AwaitSealed e d) r = (sealed_answered says dec a e d r, [])"
| "resume_read says dec a (AwaitBody e d) r = (body_answered says dec a e d r, [])"
| "resume_read says dec a (AwaitThread row) r = thread_answered says a row r"
| "resume_read says dec a (AwaitNewest row shown) r =
     (case fetchMessage dec a shown r of (full, r1) \<Rightarrow> (newest_answered says full row shown r1, []))"
| "resume_read says dec a (AwaitEarlier e) r = (snd (fetchMessage dec a e r), [])"

section \<open>Leaving, and the list of files\<close>

text \<open>The page closes the pane with the setter alone.\<close>

definition close_reader :: "reader \<Rightarrow> reader" where
  "close_reader r = r \<lparr>rd_view := EmailView, rd_mail := None\<rparr>"

definition switch_account :: "reader \<Rightarrow> reader" where
  "switch_account r = r \<lparr>rd_cache := Map.empty\<rparr>"

definition begin_openFiles :: "reader \<Rightarrow> reader \<times> bool" where
  "begin_openFiles r =
     (if rd_view r = FilesView then (r \<lparr>rd_view := EmailView\<rparr>, False)
      else (r \<lparr>rd_view := FilesView, rd_files_loading := True, rd_files_error := None\<rparr>, True))"

definition files_answered :: "(js_error \<Rightarrow> string) \<Rightarrow> nat list result \<Rightarrow> reader \<Rightarrow> reader" where
  "files_answered says r s =
     (case r of
        Ok fs \<Rightarrow> s \<lparr>rd_files := fs, rd_files_loading := False\<rparr>
      | Throw e \<Rightarrow> s \<lparr>rd_files_error := Some (says e), rd_files_loading := False\<rparr>)"

definition inboxStillScanning :: "nat \<Rightarrow> read_mail list \<Rightarrow> reader \<Rightarrow> bool" where
  "inboxStillScanning n rows r \<longleftrightarrow>
     rd_view r = FilesView \<and> n > 0 \<and> (rows = [] \<or> (\<exists>e \<in> set rows. attachments_checked e = Some False))"

definition scan_answered :: "bool \<Rightarrow> nat list result \<Rightarrow> reader \<Rightarrow> reader" where
  "scan_answered cancelled r s = (case r of Ok fs \<Rightarrow> (if cancelled then s else s \<lparr>rd_files := fs\<rparr>) | Throw e \<Rightarrow> s)"

section \<open>Runs\<close>

datatype read_event =
    Opened read_mail
  | Expanded read_mail
  | Resumed nat read_answers
  | ReaderClosed
  | AccountSwitched
  | FilesOpened
  | FilesCame "nat list result"

fun read_step ::
  "(js_error \<Rightarrow> string option) \<Rightarrow> (string \<Rightarrow> string result) \<Rightarrow> read_event \<Rightarrow> reader \<times> pending list \<Rightarrow> reader \<times> pending list" where
  "read_step says dec (Opened e) (r, w) = (case begin_read e r of (r1, w1) \<Rightarrow> (r1, w @ w1))"
| "read_step says dec (Expanded e) (r, w) = (if cached_message e r = None then (r, w @ [AwaitEarlier e]) else (r, w))"
| "read_step says dec (Resumed i a) (r, w) =
     (if i < length w
      then (case resume_read says dec a (w ! i) r of (r1, w1) \<Rightarrow> (r1, take i w @ drop (i + 1) w @ w1))
      else (r, w))"
| "read_step says dec ReaderClosed (r, w) = (close_reader r, w)"
| "read_step says dec AccountSwitched (r, w) = (switch_account r, w)"
| "read_step says dec FilesOpened (r, w) = (fst (begin_openFiles r), w)"
| "read_step says dec (FilesCame fs) (r, w) = (files_answered (\<lambda>e. nullish (says e) []) fs r, w)"

definition read_run ::
  "(js_error \<Rightarrow> string option) \<Rightarrow> (string \<Rightarrow> string result) \<Rightarrow> read_event list \<Rightarrow> reader \<times> pending list" where
  "read_run says dec es = fold (read_step says dec) es (fresh_reader, [])"

section \<open>What is shown and kept\<close>

lemma spread_mail_sel [simp]:
  "eid (spread_mail a b) = eid b" "body (spread_mail a b) = over (body b) (body a)"
  "is_read (spread_mail a b) = over (is_read b) (is_read a)"
  "attachment_ids (spread_mail a b) = over (attachment_ids b) (attachment_ids a)"
  "attachments_checked (spread_mail a b) = over (attachments_checked b) (attachments_checked a)"
  "body_loading (spread_mail a b) = over (body_loading b) (body_loading a)"
  "body_error (spread_mail a b) = over (body_error b) (body_error a)"
  by (simp_all add: spread_mail_def spread_def list_part_def email.defs read_mail.defs)

lemma over_simps [simp]: "over (Some x) v = Some x" "over None v = v"
  by (simp_all add: over_def)

lemma opened_row_sel [simp]:
  "eid (opened_row e) = eid e" "body_loading (opened_row e) = body_loading e" "body_error (opened_row e) = body_error e"
  "body (opened_row e) = body e" "attachment_ids (opened_row e) = attachment_ids e"
  "attachments_checked (opened_row e) = attachments_checked e"
  by (simp_all add: opened_row_def)

lemma with_list_fields_sel [simp]:
  "eid (with_list_fields e d) = eid d" "body (with_list_fields e d) = over (body d) (body e)"
  "body_loading (with_list_fields e d) = over (body_loading d) (body_loading e)"
  "body_error (with_list_fields e d) = over (body_error d) (body_error e)"
  by (simp_all add: with_list_fields_def)

text \<open>Rows and answers carry neither of the flags the hook adds.\<close>

definition plain :: "read_mail \<Rightarrow> bool" where
  "plain m \<longleftrightarrow> body_loading m = None \<and> body_error m = None"

text \<open>Whatever a stored body opens to is the message's text.\<close>

definition opens_to :: "(string \<Rightarrow> string result) \<Rightarrow> string \<Rightarrow> string \<Rightarrow> bool" where
  "opens_to dec t b \<longleftrightarrow> (case dec b of Ok x \<Rightarrow> x = t | Throw e \<Rightarrow> True)"

definition good_mail :: "(string \<Rightarrow> string result) \<Rightarrow> (int \<Rightarrow> string) \<Rightarrow> int \<Rightarrow> read_mail \<Rightarrow> bool" where
  "good_mail dec clear i d \<longleftrightarrow> eid d = i \<and> plain d \<and> (has_text (body d) \<longrightarrow> opens_to dec (clear i) (nullish (body d) []))"

definition good_bodies :: "(string \<Rightarrow> string result) \<Rightarrow> string \<Rightarrow> read_answers \<Rightarrow> bool" where
  "good_bodies dec t a \<longleftrightarrow> (case ra_body a of Ok b \<Rightarrow> opens_to dec t b | Throw e \<Rightarrow> True)
     \<and> (case ra_live a of Ok b \<Rightarrow> opens_to dec t b | Throw e \<Rightarrow> True)"

text \<open>The server answers with the message asked for.\<close>

fun honest :: "(string \<Rightarrow> string result) \<Rightarrow> (int \<Rightarrow> string) \<Rightarrow> read_answers \<Rightarrow> pending \<Rightarrow> bool" where
  "honest dec clear a (AwaitMail e) = (case ra_mail a of Ok d \<Rightarrow> good_mail dec clear (eid e) d | Throw x \<Rightarrow> True)"
| "honest dec clear a (AwaitSealed e d) = True"
| "honest dec clear a (AwaitBody e d) = good_bodies dec (clear (eid e)) a"
| "honest dec clear a (AwaitThread row) = (case ra_thread a of Ok ms \<Rightarrow> list_all plain ms | Throw x \<Rightarrow> True)"
| "honest dec clear a (AwaitNewest row shown) =
     ((case ra_mail a of Ok d \<Rightarrow> good_mail dec clear (eid shown) d | Throw x \<Rightarrow> True) \<and> good_bodies dec (clear (eid shown)) a)"
| "honest dec clear a (AwaitEarlier e) =
     ((case ra_mail a of Ok d \<Rightarrow> good_mail dec clear (eid e) d | Throw x \<Rightarrow> True) \<and> good_bodies dec (clear (eid e)) a)"

fun honest_event ::
  "(string \<Rightarrow> string result) \<Rightarrow> (int \<Rightarrow> string) \<Rightarrow> read_event \<Rightarrow> pending list \<Rightarrow> bool" where
  "honest_event dec clear (Opened e) w = plain e"
| "honest_event dec clear (Expanded e) w = plain e"
| "honest_event dec clear (Resumed i a) w = (i < length w \<longrightarrow> honest dec clear a (w ! i))"
| "honest_event dec clear _ w = True"

inductive read_reach ::
  "(js_error \<Rightarrow> string option) \<Rightarrow> (string \<Rightarrow> string result) \<Rightarrow> (int \<Rightarrow> string) \<Rightarrow> reader \<Rightarrow> pending list \<Rightarrow> bool"
  for says dec clear where
  read_fresh: "read_reach says dec clear fresh_reader []"
| read_more: "read_reach says dec clear r w \<Longrightarrow> honest_event dec clear e w \<Longrightarrow> read_step says dec e (r, w) = (r1, w1)
    \<Longrightarrow> read_reach says dec clear r1 w1"

text \<open>Loading, failed, or the text.\<close>

definition shown_ok :: "(int \<Rightarrow> string) \<Rightarrow> read_mail \<Rightarrow> bool" where
  "shown_ok clear m \<longleftrightarrow> body_loading m = Some True \<or> body_error m \<noteq> None \<or> body m = Some (clear (eid m))"

definition full_mail :: "(int \<Rightarrow> string) \<Rightarrow> int \<Rightarrow> read_mail \<Rightarrow> bool" where
  "full_mail clear i m \<longleftrightarrow> eid m = i \<and> body m = Some (clear i) \<and> body_error m = None \<and> body_loading m \<noteq> Some True
     \<and> attachment_ids m \<noteq> None"

definition cache_full :: "(int \<Rightarrow> string) \<Rightarrow> (int \<rightharpoonup> read_mail) \<Rightarrow> bool" where
  "cache_full clear c \<longleftrightarrow> (\<forall>i m. c i = Some m \<longrightarrow> full_mail clear i m)"

fun pending_ok :: "(string \<Rightarrow> string result) \<Rightarrow> (int \<Rightarrow> string) \<Rightarrow> pending \<Rightarrow> bool" where
  "pending_ok dec clear (AwaitMail e) = plain e"
| "pending_ok dec clear (AwaitSealed e d) = (plain e \<and> has_text (body d) \<and> good_mail dec clear (eid e) d)"
| "pending_ok dec clear (AwaitBody e d) = (plain e \<and> good_mail dec clear (eid e) d)"
| "pending_ok dec clear (AwaitThread row) = plain row"
| "pending_ok dec clear (AwaitNewest row shown) = (plain row \<and> plain shown)"
| "pending_ok dec clear (AwaitEarlier e) = plain e"

definition reader_ok :: "(int \<Rightarrow> string) \<Rightarrow> reader \<Rightarrow> bool" where
  "reader_ok clear r \<longleftrightarrow> pred_option (shown_ok clear) (rd_mail r) \<and> cache_full clear (rd_cache r)"

lemma full_shown: "full_mail clear i m \<Longrightarrow> shown_ok clear m"
  by (simp add: full_mail_def shown_ok_def)

lemma cache_upd: "cache_full clear c \<Longrightarrow> full_mail clear i m \<Longrightarrow> cache_full clear (c(i \<mapsto> m))"
  by (simp add: cache_full_def)

lemma cache_get: "cache_full clear c \<Longrightarrow> c i = Some m \<Longrightarrow> full_mail clear i m"
  by (simp add: cache_full_def)

lemma cached_full: "cache_full clear (rd_cache r) \<Longrightarrow> cached_message e r = Some c \<Longrightarrow> full_mail clear (eid e) c"
  by (auto simp: cached_message_def intro: cache_get split: option.splits if_splits)

lemma loadBody_text: "good_bodies dec t a \<Longrightarrow> loadBody dec a = Ok x \<Longrightarrow> x = t"
  by (auto simp: good_bodies_def loadBody_def bind_result_Ok_iff opens_to_def split: sum.splits)

lemma opened_body_text:
  "opened_body dec a d = Ok x \<Longrightarrow> good_mail dec clear i d \<Longrightarrow> (\<not> has_text (body d) \<Longrightarrow> good_bodies dec (clear i) a)
    \<Longrightarrow> x = clear i"
  by (auto simp: opened_body_def good_mail_def opens_to_def dest: loadBody_text split: if_splits sum.splits)

lemma with_body_full:
  assumes "with_body dec a d base = Ok m" "good_mail dec clear i d" "\<not> has_text (body d) \<Longrightarrow> good_bodies dec (clear i) a"
    and "eid base = i" "plain base"
  shows "full_mail clear i m"
  using assms by (auto simp: with_body_def bind_result_Ok_iff full_mail_def plain_def dest: opened_body_text)

lemma plain_spread: "plain a \<Longrightarrow> plain b \<Longrightarrow> plain (spread_mail a b)" "plain a \<Longrightarrow> plain b \<Longrightarrow> plain (with_list_fields a b)"
  by (simp_all add: plain_def)

lemma good_plain: "good_mail dec clear i d \<Longrightarrow> plain d \<and> eid d = i"
  by (simp add: good_mail_def)

lemma fetched_full:
  assumes "fetched_message dec a e = Ok m" "plain e" "good_bodies dec (clear (eid e)) a"
    and "case ra_mail a of Ok d \<Rightarrow> good_mail dec clear (eid e) d | Throw x \<Rightarrow> True"
  shows "full_mail clear (eid e) m"
proof -
  obtain d where d: "ra_mail a = Ok d" "with_body dec a d (spread_mail e d) = Ok m"
    using assms(1) by (auto simp: fetched_message_def bind_result_Ok_iff)
  then have g: "good_mail dec clear (eid e) d" using assms(4) by simp
  from good_plain [OF g] show ?thesis
    by (intro with_body_full [OF d(2) g assms(3)]) (simp_all add: plain_spread assms(2))
qed

lemma error_shown: "shown_ok clear (mail_error says x m)"
  by (simp add: shown_ok_def mail_error_def)

lemma newest_shown:
  "full_mail clear (eid shown) m \<Longrightarrow> plain row \<Longrightarrow> shown_ok clear ((spread_mail row m) \<lparr>is_read := Some True\<rparr>)"
  by (simp add: shown_ok_def full_mail_def)

lemma open_failed_ok: "reader_ok clear r \<Longrightarrow> reader_ok clear (open_failed says x e r)"
  by (simp add: open_failed_def reader_ok_def error_shown)

lemma newest_answered_ok:
  "reader_ok clear r \<Longrightarrow> plain row \<Longrightarrow> (\<And>m. full = Ok m \<Longrightarrow> full_mail clear (eid shown) m)
    \<Longrightarrow> reader_ok clear (newest_answered says full row shown r)"
  by (cases full) (simp_all add: newest_answered_def reader_ok_def error_shown newest_shown)

lemma fetchMessage_ok:
  assumes "reader_ok clear r" "plain e" "good_bodies dec (clear (eid e)) a"
    and "case ra_mail a of Ok d \<Rightarrow> good_mail dec clear (eid e) d | Throw x \<Rightarrow> True" "fetchMessage dec a e r = (full, r1)"
  shows "reader_ok clear r1 \<and> (\<forall>m. full = Ok m \<longrightarrow> full_mail clear (eid e) m)"
  using assms fetched_full [OF _ assms(2,3,4)]
  by (auto simp: fetchMessage_def reader_ok_def cache_upd split: sum.splits)

lemma begin_read_ok:
  assumes "reader_ok clear r" "plain e" "begin_read e r = (r1, w1)"
  shows "reader_ok clear r1 \<and> list_all (pending_ok dec clear) w1"
proof (cases "rd_cache r (eid e)")
  case None
  then show ?thesis using assms by (auto simp: begin_read_def reader_ok_def Let_def)
next
  case (Some c)
  then have "full_mail clear (eid e) (c \<lparr>is_read := Some True\<rparr>)"
    using assms(1) cache_get [of clear "rd_cache r" "eid e" c] by (simp add: reader_ok_def full_mail_def)
  then show ?thesis using assms Some by (auto simp: begin_read_def reader_ok_def cache_upd full_shown Let_def)
qed

lemma newest_plain: "plain row \<Longrightarrow> list_all plain ms \<Longrightarrow> plain (newest_of row ms)"
  by (simp add: newest_of_def list_all_iff)

lemma thread_answered_ok:
  assumes "reader_ok clear r" "plain row" "case ra_thread a of Ok ms \<Rightarrow> list_all plain ms | Throw x \<Rightarrow> True"
    and "thread_answered says a row r = (r1, w1)"
  shows "reader_ok clear r1 \<and> list_all (pending_ok dec clear) w1"
proof (cases "ra_thread a")
  case (Inr ms)
  define shown where "shown = newest_of row ms"
  have p: "plain shown" using assms(2,3) Inr by (simp add: shown_def newest_plain)
  show ?thesis
  proof (cases "still_shown row r \<and> eid shown \<noteq> eid row")
    case True
    define x where "x = r \<lparr>rd_for := Some (eid shown), rd_thread := Some (eid shown, ms),
                      rd_mail := Some ((spread_mail row (read_newest shown)) \<lparr>body_loading := Some True\<rparr>)\<rparr>"
    have x: "reader_ok clear x" using assms(1) by (simp add: x_def reader_ok_def shown_ok_def)
    have ans: "thread_answered says a row r = (case cached_message shown x of
        Some c \<Rightarrow> (newest_answered says (Ok c) row shown x, []) | None \<Rightarrow> (x, [AwaitNewest row shown]))"
      using True by (simp add: thread_answered_def Inr shown_def [symmetric] x_def [symmetric] Let_def)
    show ?thesis
    proof (cases "cached_message shown x")
      case None
      then show ?thesis using assms(2,4) p x ans by auto
    next
      case (Some c)
      then have "full_mail clear (eid shown) c" using x unfolding reader_ok_def by (intro cached_full) auto
      then have "reader_ok clear (newest_answered says (Ok c) row shown x)"
        by (intro newest_answered_ok [OF x assms(2)]) simp
      then show ?thesis using assms(4) ans Some by auto
    qed
  next
    case False
    then show ?thesis using assms by (auto simp: thread_answered_def Inr shown_def reader_ok_def Let_def split: if_splits)
  qed
qed (use assms in \<open>auto simp: thread_answered_def\<close>)

lemma sealed_answered_ok:
  assumes "reader_ok clear r" "pending_ok dec clear (AwaitSealed e d)"
  shows "reader_ok clear (sealed_answered says dec a e d r)"
proof (cases "with_body dec a d (with_list_fields e d)")
  case (Inl x)
  then show ?thesis using assms by (simp add: sealed_answered_def open_failed_ok)
next
  case (Inr m)
  then have "full_mail clear (eid e) m"
    using assms(2) good_plain [of dec clear "eid e" d]
    by (intro with_body_full [OF Inr]) (simp_all add: plain_spread)
  then show ?thesis using assms(1) by (simp add: sealed_answered_def Inr reader_ok_def cache_upd full_shown Let_def)
qed

lemma body_answered_ok:
  assumes "reader_ok clear r" "pending_ok dec clear (AwaitBody e d)" "good_bodies dec (clear (eid e)) a"
  shows "reader_ok clear (body_answered says dec a e d r)"
proof (cases "merged_body dec a e d")
  case (Inl x)
  then show ?thesis using assms by (simp add: body_answered_def open_failed_ok)
next
  case (Inr m)
  then have "full_mail clear (eid e) m"
    using assms(2,3) good_plain [of dec clear "eid e" d] loadBody_text [of dec "clear (eid e)" a]
    by (auto simp: merged_body_def bind_result_Ok_iff full_mail_def plain_def)
  then show ?thesis using assms(1) by (simp add: body_answered_def Inr reader_ok_def cache_upd full_shown)
qed

lemma mail_answered_ok:
  assumes "reader_ok clear r" "plain e" "case ra_mail a of Ok d \<Rightarrow> good_mail dec clear (eid e) d | Throw x \<Rightarrow> True"
    and "mail_answered says a e r = (r1, w1)"
  shows "reader_ok clear r1 \<and> list_all (pending_ok dec clear) w1"
  using assms
  by (auto simp: mail_answered_def open_failed_ok shown_ok_def split: sum.splits if_splits)
     (simp_all add: reader_ok_def shown_ok_def)

lemma resume_ok:
  assumes "reader_ok clear r" "pending_ok dec clear p" "honest dec clear a p" "resume_read says dec a p r = (r1, w1)"
  shows "reader_ok clear r1 \<and> list_all (pending_ok dec clear) w1"
proof (cases p)
  case (AwaitMail e)
  then show ?thesis using assms mail_answered_ok by simp
next
  case (AwaitSealed e d)
  then show ?thesis using assms sealed_answered_ok [of clear r dec e d says a] by auto
next
  case (AwaitBody e d)
  then show ?thesis using assms body_answered_ok [of clear r dec e d a says] by auto
next
  case (AwaitThread row)
  then show ?thesis using assms thread_answered_ok by simp
next
  case (AwaitNewest row shown)
  obtain full r2 where f: "fetchMessage dec a shown r = (full, r2)" by fastforce
  have "reader_ok clear r2 \<and> (\<forall>m. full = Ok m \<longrightarrow> full_mail clear (eid shown) m)"
    using assms(1-3) AwaitNewest by (intro fetchMessage_ok [OF _ _ _ _ f]) auto
  then have "reader_ok clear (newest_answered says full row shown r2)"
    using assms(2) AwaitNewest by (intro newest_answered_ok) auto
  then show ?thesis using assms(4) AwaitNewest f by auto
next
  case (AwaitEarlier e)
  obtain full r2 where f: "fetchMessage dec a e r = (full, r2)" by fastforce
  have "reader_ok clear r2" using assms(1-3) AwaitEarlier by (intro fetchMessage_ok [OF _ _ _ _ f, THEN conjunct1]) auto
  then show ?thesis using assms(4) AwaitEarlier f by auto
qed

lemma read_step_ok:
  assumes "reader_ok clear r" "list_all (pending_ok dec clear) w" "honest_event dec clear e w"
    and "read_step says dec e (r, w) = (r1, w1)"
  shows "reader_ok clear r1 \<and> list_all (pending_ok dec clear) w1"
proof (cases e)
  case (Opened m)
  then show ?thesis using assms begin_read_ok [of clear r m _ _ dec] by (auto split: prod.splits)
next
  case (Resumed i a)
  show ?thesis
  proof (cases "i < length w")
    case True
    obtain r2 w2 where res: "resume_read says dec a (w ! i) r = (r2, w2)" by fastforce
    have "reader_ok clear r2 \<and> list_all (pending_ok dec clear) w2"
      using assms(1-3) Resumed True by (intro resume_ok [OF _ _ _ res]) (auto simp: list_all_length)
    moreover have "list_all (pending_ok dec clear) (take i w @ drop (i + 1) w)"
      using assms(2) by (auto simp: list_all_iff dest: in_set_takeD in_set_dropD)
    ultimately show ?thesis using assms(4) Resumed True res by auto
  qed (use assms Resumed in auto)
next
  case (FilesCame fs)
  then show ?thesis using assms by (auto simp: files_answered_def reader_ok_def split: sum.splits)
qed (use assms in \<open>auto simp: reader_ok_def close_reader_def switch_account_def begin_openFiles_def cache_full_def
      split: if_splits\<close>)

lemma read_reach_ok: "read_reach says dec clear r w \<Longrightarrow> reader_ok clear r \<and> list_all (pending_ok dec clear) w"
proof (induction rule: read_reach.induct)
  case read_fresh
  then show ?case by (simp add: fresh_reader_def reader_ok_def cache_full_def)
next
  case (read_more r w e r1 w1)
  then show ?case using read_step_ok by blast
qed

section \<open>The earlier messages of a conversation\<close>

datatype message_state = MessageLoading | MessageReady read_mail | MessageFailed string

record thread_view =
  tv_start :: "int list"
  tv_open :: "int \<Rightarrow> bool"
  tv_loaded :: "int \<rightharpoonup> message_state"

text \<open>Unread messages start open and loading.\<close>

definition open_thread :: "read_mail list \<Rightarrow> thread_view" where
  "open_thread ms =
     (let start = map eid (filter (\<lambda>m. is_read m = Some False) ms)
      in \<lparr>tv_start = start, tv_open = (\<lambda>i. i \<in> set start),
          tv_loaded = (\<lambda>i. if i \<in> set start then Some MessageLoading else None)\<rparr>)"

text \<open>What the effect asks for: it runs again whenever the page renders, as \<open>loadMessage\<close> is a new function then.\<close>

definition start_requests :: "read_mail list \<Rightarrow> thread_view \<Rightarrow> read_mail list" where
  "start_requests ms v = filter (\<lambda>m. eid m \<in> set (tv_start v)) ms"

definition message_answered ::
  "(js_error \<Rightarrow> string option) \<Rightarrow> read_mail \<Rightarrow> read_mail result \<Rightarrow> thread_view \<Rightarrow> thread_view" where
  "message_answered says m r v = v \<lparr>tv_loaded := (tv_loaded v)(eid m \<mapsto>
     (case r of Ok e \<Rightarrow> MessageReady e | Throw x \<Rightarrow> MessageFailed (emailBodyErrorMessage (says x))))\<rparr>"

definition start_answered ::
  "(js_error \<Rightarrow> string option) \<Rightarrow> bool \<Rightarrow> read_mail \<Rightarrow> read_mail result \<Rightarrow> thread_view \<Rightarrow> thread_view" where
  "start_answered says cancelled m r v = (if cancelled then v else message_answered says m r v)"

definition held :: "thread_view \<Rightarrow> int \<Rightarrow> bool" where
  "held v i \<longleftrightarrow> (case tv_loaded v i of Some MessageLoading \<Rightarrow> True | Some (MessageReady e) \<Rightarrow> True | _ \<Rightarrow> False)"

definition toggle_message :: "read_mail \<Rightarrow> thread_view \<Rightarrow> thread_view \<times> bool" where
  "toggle_message m v =
     (let willOpen = \<not> tv_open v (eid m); v1 = v \<lparr>tv_open := (tv_open v)(eid m := willOpen)\<rparr>
      in if \<not> willOpen \<or> held v (eid m) then (v1, False)
         else (v1 \<lparr>tv_loaded := (tv_loaded v)(eid m \<mapsto> MessageLoading)\<rparr>, True))"

datatype thread_event = Toggled read_mail | Came read_mail "read_mail result"

text \<open>Requests made and requests failed, by message; a request has one answer.\<close>

fun thread_step ::
  "(js_error \<Rightarrow> string option) \<Rightarrow> thread_event \<Rightarrow> thread_view \<times> (int \<Rightarrow> nat) \<times> (int \<Rightarrow> nat)
     \<Rightarrow> thread_view \<times> (int \<Rightarrow> nat) \<times> (int \<Rightarrow> nat)" where
  "thread_step says (Toggled m) (v, asked, failed) =
     (case toggle_message m v of (v1, asks) \<Rightarrow> (v1, (if asks then asked(eid m := asked (eid m) + 1) else asked), failed))"
| "thread_step says (Came m r) (v, asked, failed) =
     (if tv_loaded v (eid m) = Some MessageLoading
      then (message_answered says m r v, asked,
            (case r of Ok e \<Rightarrow> failed | Throw x \<Rightarrow> failed(eid m := failed (eid m) + 1)))
      else (v, asked, failed))"

definition thread_run where
  "thread_run says es ms = fold (thread_step says) es (open_thread ms, (\<lambda>i. 0), (\<lambda>i. 0))"

lemma held_upd [simp]:
  "held (v \<lparr>tv_open := h\<rparr>) j = held v j"
  "held (v \<lparr>tv_loaded := (tv_loaded v)(i \<mapsto> s)\<rparr>) j = (if j = i then (\<forall>x. s \<noteq> MessageFailed x) else held v j)"
  "held (v \<lparr>tv_open := h, tv_loaded := (tv_loaded v)(i \<mapsto> s)\<rparr>) j
     = (if j = i then (\<forall>x. s \<noteq> MessageFailed x) else held v j)"
  by (auto simp: held_def split: message_state.split)

definition counted :: "thread_view \<Rightarrow> (int \<Rightarrow> nat) \<Rightarrow> (int \<Rightarrow> nat) \<Rightarrow> int \<Rightarrow> bool" where
  "counted v asked failed i \<longleftrightarrow>
     asked i + (if i \<in> set (tv_start v) then 1 else 0) = failed i + (if held v i then 1 else 0)"

lemma thread_step_count:
  assumes "\<forall>i. counted v asked failed i" "thread_step says e (v, asked, failed) = (v1, asked1, failed1)"
  shows "tv_start v1 = tv_start v \<and> (\<forall>i. counted v1 asked1 failed1 i)"
proof (cases e)
  case (Toggled m)
  note old = assms(1) [rule_format, unfolded counted_def]
  show ?thesis
  proof (cases "tv_open v (eid m) \<or> held v (eid m)")
    case True
    then have "toggle_message m v = (v \<lparr>tv_open := (tv_open v)(eid m := \<not> tv_open v (eid m))\<rparr>, False)"
      by (auto simp: toggle_message_def Let_def)
    then have eq: "v1 = v \<lparr>tv_open := (tv_open v)(eid m := \<not> tv_open v (eid m))\<rparr>" "asked1 = asked" "failed1 = failed"
      using assms(2) Toggled by simp_all
    have "counted v1 asked1 failed1 i" for i using old [of i] by (simp add: eq counted_def)
    then show ?thesis by (simp add: eq)
  next
    case False
    then have "toggle_message m v = (v \<lparr>tv_open := (tv_open v)(eid m := True),
        tv_loaded := (tv_loaded v)(eid m \<mapsto> MessageLoading)\<rparr>, True)"
      by (simp add: toggle_message_def Let_def)
    then have eq: "v1 = v \<lparr>tv_open := (tv_open v)(eid m := True), tv_loaded := (tv_loaded v)(eid m \<mapsto> MessageLoading)\<rparr>"
      "asked1 = asked(eid m := asked (eid m) + 1)" "failed1 = failed" using assms(2) Toggled by simp_all
    have "counted v1 asked1 failed1 i" for i
      using old [of i] False by (cases "i = eid m") (simp_all add: eq counted_def)
    then show ?thesis by (simp add: eq)
  qed
next
  case (Came m r)
  note old = assms(1) [rule_format, unfolded counted_def]
  show ?thesis
  proof (cases "tv_loaded v (eid m) = Some MessageLoading")
    case True
    then have h: "held v (eid m)" by (simp add: held_def)
    have eq: "v1 = message_answered says m r v" "asked1 = asked"
      "failed1 = (case r of Ok e \<Rightarrow> failed | Throw x \<Rightarrow> failed(eid m := failed (eid m) + 1))"
      using assms(2) Came True by simp_all
    have "counted v1 asked1 failed1 i" for i
      using old [of i] h by (cases "i = eid m"; cases r) (simp_all add: eq counted_def message_answered_def)
    then show ?thesis by (simp add: eq message_answered_def)
  qed (use assms Came in auto)
qed

lemma thread_fold_count:
  assumes "\<forall>i. counted v asked failed i" "fold (thread_step says) es (v, asked, failed) = (v1, asked1, failed1)"
  shows "tv_start v1 = tv_start v \<and> (\<forall>i. counted v1 asked1 failed1 i)"
  using assms
proof (induction es arbitrary: v asked failed)
  case (Cons e es)
  obtain v2 a2 f2 where s: "thread_step says e (v, asked, failed) = (v2, a2, f2)" by (metis prod_cases3)
  from thread_step_count [OF Cons.prems(1) s] Cons.IH [of v2 a2 f2] Cons.prems(2) s show ?case by simp
qed simp

section \<open>Properties\<close>

text \<open>
  C15: Whatever is clicked and however answers are ordered, the pane shows a message that is loading,
  one whose failure is said, or the text its stored body opens to; what is kept for reopening has
  text and attachments.
\<close>

theorem shown_text_is_the_mail:
  assumes "read_reach says dec clear r w"
  shows "(\<forall>m. rd_mail r = Some m \<longrightarrow> body_loading m = Some True \<or> body_error m \<noteq> None \<or> body m = Some (clear (eid m)))
    \<and> (\<forall>i m. rd_cache r i = Some m \<longrightarrow> eid m = i \<and> body m = Some (clear i) \<and> attachment_ids m \<noteq> None)"
  using read_reach_ok [OF assms] by (auto simp: reader_ok_def shown_ok_def cache_full_def full_mail_def)

lemma with_body_eid: "with_body dec a d base = Ok m \<Longrightarrow> eid m = eid base"
  by (auto simp: with_body_def bind_result_Ok_iff)

lemma merged_eid: "merged_body dec a e d = Ok m \<Longrightarrow> eid m = eid d"
  by (auto simp: merged_body_def bind_result_Ok_iff)

lemma fetched_eid: "fetched_message dec a e = Ok m \<Longrightarrow> case ra_mail a of Ok d \<Rightarrow> eid d = i | Throw x \<Rightarrow> True \<Longrightarrow> eid m = i"
  by (auto simp: fetched_message_def bind_result_Ok_iff dest: with_body_eid split: sum.splits)

definition takes_place :: "reader \<Rightarrow> reader \<Rightarrow> bool" where
  "takes_place r r1 \<longleftrightarrow> rd_mail r1 = rd_mail r
     \<or> (\<exists>m. rd_mail r1 = Some m \<and> (rd_for r1 = Some (eid m) \<or> map_option eid (rd_mail r) = Some (eid m)))"

lemma open_failed_place: "takes_place r (open_failed says x e r)"
  by (simp add: takes_place_def open_failed_def still_shown_def mail_error_def)

lemma newest_place:
  "takes_place r x \<Longrightarrow> (\<And>m. full = Ok m \<Longrightarrow> eid m = eid shown) \<Longrightarrow> takes_place r (newest_answered says full row shown x)"
proof (cases "still_shown shown x")
  case True
  assume "\<And>m. full = Ok m \<Longrightarrow> eid m = eid shown"
  then have "\<exists>m. rd_mail (newest_answered says full row shown x) = Some m \<and> eid m = eid shown"
    using True by (cases full) (simp_all add: newest_answered_def mail_error_def read_newest_def)
  moreover have "rd_for (newest_answered says full row shown x) = Some (eid shown)"
    using True by (simp add: newest_answered_def still_shown_def)
  ultimately show ?thesis by (auto simp: takes_place_def)
qed (simp add: newest_answered_def)

lemma thread_answered_place:
  assumes "cache_full clear (rd_cache r)" "thread_answered says a row r = (r1, w1)"
  shows "takes_place r r1"
proof (cases "ra_thread a")
  case (Inr ms)
  define shown where "shown = newest_of row ms"
  define x where "x = r \<lparr>rd_for := Some (eid shown), rd_thread := Some (eid shown, ms),
                      rd_mail := Some ((spread_mail row (read_newest shown)) \<lparr>body_loading := Some True\<rparr>)\<rparr>"
  have x: "takes_place r x" by (simp add: takes_place_def x_def read_newest_def)
  have ans: "thread_answered says a row r = (if \<not> still_shown row r then (r, [])
      else if eid shown = eid row then (r \<lparr>rd_thread := Some (eid row, ms)\<rparr>, [])
      else (case cached_message shown x of
        Some c \<Rightarrow> (newest_answered says (Ok c) row shown x, []) | None \<Rightarrow> (x, [AwaitNewest row shown])))"
    by (simp add: thread_answered_def Inr shown_def [symmetric] x_def [symmetric] Let_def)
  have same: "takes_place r r" "takes_place r (r \<lparr>rd_thread := t\<rparr>)" for t by (simp_all add: takes_place_def)
  show ?thesis
  proof (cases "\<not> still_shown row r \<or> eid shown = eid row")
    case True
    then show ?thesis using assms(2) ans same by (auto split: if_splits)
  next
    case False
    show ?thesis
    proof (cases "cached_message shown x")
      case None
      then show ?thesis using assms(2) ans False x by simp
    next
      case (Some c)
      have "rd_cache x = rd_cache r" by (simp add: x_def)
      then have "full_mail clear (eid shown) c" using assms(1) by (intro cached_full [OF _ Some]) simp
      then have "takes_place r (newest_answered says (Ok c) row shown x)"
        by (intro newest_place x) (simp add: full_mail_def)
      then show ?thesis using assms(2) ans False Some by simp
    qed
  qed
qed (use assms in \<open>auto simp: thread_answered_def takes_place_def\<close>)

lemma fetch_place: "fetchMessage dec a e r = (full, r1) \<Longrightarrow> takes_place r r1"
  by (auto simp: fetchMessage_def takes_place_def split: sum.splits)

lemma mail_answered_place:
  assumes "case ra_mail a of Ok d \<Rightarrow> good_mail dec clear (eid e) d | Throw x \<Rightarrow> True" "mail_answered says a e r = (r1, w1)"
  shows "takes_place r r1"
proof (cases "ra_mail a")
  case (Inl x)
  then show ?thesis using assms(2) open_failed_place [of r says x e] by (simp add: mail_answered_def)
next
  case (Inr d)
  then have "eid d = eid e" using assms(1) good_plain by auto
  then show ?thesis using assms(2) Inr by (auto simp: mail_answered_def takes_place_def still_shown_def split: if_splits)
qed

lemma sealed_answered_place:
  assumes "good_mail dec clear (eid e) d"
  shows "takes_place r (sealed_answered says dec a e d r)"
proof (cases "with_body dec a d (with_list_fields e d)")
  case (Inl x)
  then show ?thesis using open_failed_place [of r says x e] by (simp add: sealed_answered_def)
next
  case (Inr m)
  then have "eid m = eid e" using assms good_plain with_body_eid by fastforce
  then show ?thesis using Inr by (simp add: sealed_answered_def takes_place_def still_shown_def Let_def)
qed

lemma body_answered_place:
  assumes "good_mail dec clear (eid e) d"
  shows "takes_place r (body_answered says dec a e d r)"
proof (cases "merged_body dec a e d")
  case (Inl x)
  then show ?thesis using open_failed_place [of r says x e] by (simp add: body_answered_def)
next
  case (Inr m)
  then have "eid m = eid e" using assms good_plain merged_eid by fastforce
  then show ?thesis using Inr by (simp add: body_answered_def takes_place_def)
qed

text \<open>
  An answer never takes the pane from the message wanted by then: what it shows is that message
  or the one already on the screen. A late answer for another message changes nothing shown.
\<close>

theorem answers_keep_the_place:
  assumes "read_reach says dec clear r w" "i < length w" "honest dec clear a (w ! i)" "resume_read says dec a (w ! i) r = (r1, w1)"
  shows "rd_mail r1 = rd_mail r
    \<or> (\<exists>m. rd_mail r1 = Some m \<and> (rd_for r1 = Some (eid m) \<or> map_option eid (rd_mail r) = Some (eid m)))"
proof -
  have ok: "cache_full clear (rd_cache r)" "pending_ok dec clear (w ! i)"
    using read_reach_ok [OF assms(1)] assms(2) by (auto simp: reader_ok_def list_all_length)
  have "takes_place r r1"
  proof (cases "w ! i")
    case (AwaitMail e)
    then show ?thesis using assms(3,4) mail_answered_place by simp
  next
    case (AwaitSealed e d)
    then show ?thesis using assms(4) ok(2) sealed_answered_place by auto
  next
    case (AwaitBody e d)
    then show ?thesis using assms(4) ok(2) body_answered_place by auto
  next
    case (AwaitThread row)
    then show ?thesis using assms(4) ok(1) thread_answered_place by simp
  next
    case (AwaitNewest row shown)
    obtain full r2 where f: "fetchMessage dec a shown r = (full, r2)" by fastforce
    have "eid m = eid shown" if "full = Ok m" for m
      using f that fetched_eid [of dec a shown m "eid shown"] assms(3) AwaitNewest
      by (auto simp: fetchMessage_def good_mail_def split: sum.splits)
    then have "takes_place r (newest_answered says full row shown r2)"
      by (intro newest_place) (rule fetch_place [OF f])
    then show ?thesis using assms(4) AwaitNewest f by simp
  next
    case (AwaitEarlier e)
    obtain full r2 where f: "fetchMessage dec a e r = (full, r2)" by fastforce
    then show ?thesis using assms(4) AwaitEarlier fetch_place [OF f] by simp
  qed
  then show ?thesis by (simp add: takes_place_def)
qed

text \<open>
  Closing the pane does not forget which message was wanted: one clicked before, and answered
  after, opens again.
\<close>

theorem closed_reader_reopens:
  assumes "rd_cache r (eid e) = None" "ra_mail a = Ok d" "\<not> has_text (body d)" "r1 = close_reader (fst (begin_read e r))"
  shows "rd_mail r1 = None \<and> map_option eid (rd_mail (fst (mail_answered says a e r1))) = Some (eid d)"
  using assms
  by (simp add: begin_read_def close_reader_def mail_answered_def still_shown_def Let_def)

text \<open>
  A message loaded once is shown at once when it is opened again, with no request but that for its
  conversation; another account starts from nothing.
\<close>

theorem reopened_mail_is_shown_at_once:
  assumes "read_reach says dec clear r w" "rd_cache r (eid e) = Some c" "begin_read e r = (r1, w1)"
  shows "(\<exists>m. rd_mail r1 = Some m \<and> eid m = eid e \<and> body m = Some (clear (eid e)) \<and> attachment_ids m = attachment_ids c)
    \<and> w1 = (if isConversation (list_part e) then [AwaitThread e] else [])
    \<and> rd_cache (switch_account r) (eid e) = None"
  using read_reach_ok [OF assms(1)] cache_get [of clear "rd_cache r" "eid e" c] assms(2,3)
  by (auto simp: begin_read_def reader_ok_def full_mail_def switch_account_def Let_def)

text \<open>C31: Expanding a message in its conversation and opening it keep the same text and attachments.\<close>

theorem expanding_is_opening:
  assumes "fetchMessage dec a e r = (Ok full, r1)" "ra_mail a = Ok d" "still_shown e q"
  shows "\<exists>p q1 q2 m. mail_answered says a e q = (q1, [p]) \<and> resume_read says dec a p q1 = (q2, []) \<and> rd_cache q2 (eid e) = Some m
    \<and> eid m = eid full \<and> body m = body full \<and> attachment_ids m = attachment_ids full
    \<and> attachments_checked m = attachments_checked full"
proof -
  have "fetched_message dec a e = Ok full" using assms(1) by (auto simp: fetchMessage_def split: sum.splits)
  then obtain t fs where b: "opened_body dec a d = Ok t" "opened_files a d = Ok fs"
    and full: "full = (spread_mail e d) \<lparr>body := Some t, attachment_ids := Some fs\<rparr>"
    using assms(2) by (auto simp: fetched_message_def with_body_def bind_result_Ok_iff)
  show ?thesis
  proof (cases "has_text (body d)")
    case True
    then have ask: "mail_answered says a e q = (q, [AwaitSealed e d])"
      using assms(2,3) by (simp add: mail_answered_def)
    have "with_body dec a d (with_list_fields e d)
        = Ok ((with_list_fields e d) \<lparr>body := Some t, attachment_ids := Some fs\<rparr>)"
      using b by (simp add: with_body_def)
    then show ?thesis using ask assms(3)
      by (simp add: sealed_answered_def full with_list_fields_def Let_def)
  next
    case False
    then have ask: "mail_answered says a e q
        = (q \<lparr>rd_mail := Some ((with_list_fields e d) \<lparr>body_loading := Some True\<rparr>)\<rparr>, [AwaitBody e d])"
      using assms(2,3) by (simp add: mail_answered_def)
    have "merged_body dec a e d
        = Ok ((with_list_fields e d) \<lparr>body := Some t, attachment_ids := Some fs, body_loading := Some False\<rparr>)"
      using b False by (auto simp: merged_body_def opened_body_def opened_files_def bind_result_Ok_iff)
    then show ?thesis using ask by (simp add: body_answered_def full with_list_fields_def)
  qed
qed

text \<open>
  A collapsed earlier message is asked for when it is opened, once: again only after a failure.
\<close>

theorem earlier_message_asked_once:
  assumes "thread_run says es ms = (v, asked, failed)"
  shows "asked i + (if \<exists>m \<in> set ms. eid m = i \<and> is_read m = Some False then 1 else 0)
    = failed i + (if held v i then 1 else 0)"
proof -
  have "\<forall>i. counted (open_thread ms) (\<lambda>i. 0) (\<lambda>i. 0) i" by (simp add: counted_def open_thread_def held_def Let_def)
  from thread_fold_count [OF this assms [unfolded thread_run_def]]
  have "counted v asked failed i" "tv_start v = tv_start (open_thread ms)" by simp_all
  moreover have "i \<in> set (tv_start (open_thread ms)) \<longleftrightarrow> (\<exists>m \<in> set ms. eid m = i \<and> is_read m = Some False)"
    by (auto simp: open_thread_def Let_def)
  ultimately show ?thesis by (simp add: counted_def)
qed

section \<open>The list's view of reading\<close>

text \<open>
  Email_Inbox models the same hook for the list: its selected row, conversation and cache are the
  list parts of what is read here.
\<close>

definition agrees :: "reader \<Rightarrow> inbox \<Rightarrow> bool" where
  "agrees r s \<longleftrightarrow> conversationFor s = rd_for r
     \<and> conversation s = map_option (\<lambda>(i, ms). (i, map list_part ms)) (rd_thread r)
     \<and> selectedEmail s = map_option list_part (rd_mail r)
     \<and> emailCache s = (\<lambda>i. map_option list_part (rd_cache r i))"

lemma list_part_sel [simp]:
  "eid (list_part m) = eid m" "is_read (list_part m) = is_read m" "body (list_part m) = body m"
  "account_id (list_part m) = account_id m" "unread_count (list_part m) = unread_count m"
  by (simp_all add: list_part_def email.defs)

lemma list_part_upd [simp]:
  "list_part (m \<lparr>is_read := v\<rparr>) = (list_part m) \<lparr>is_read := v\<rparr>"
  "list_part (m \<lparr>body_loading := l\<rparr>) = list_part m"
  by (simp_all add: list_part_def email.defs)

lemma list_part_spread [simp]: "list_part (spread_mail a b) = spread (list_part a) (list_part b)"
  by (simp add: spread_mail_def list_part_def email.defs spread_def)

fun asks :: "pending \<Rightarrow> request" where
  "asks (AwaitThread e) = GetThread (eid e)"
| "asks (AwaitNewest row e) = GetEmail (eid e)"
| "asks (AwaitMail e) = GetEmail (eid e)"
| "asks (AwaitEarlier e) = GetEmail (eid e)"
| "asks (AwaitSealed e d) = GetEmail (eid e)"
| "asks (AwaitBody e d) = GetEmail (eid e)"

lemma newest_list_part:
  "list_part (newest_of row ms) = shown_message (list_part row) (map list_part ms)"
  by (auto simp: newest_of_def shown_message_def last_map)

lemma begin_open_sel:
  "conversationFor (fst (begin_open e s)) = Some (eid e)"
  "conversation (fst (begin_open e s)) = None"
  "selectedEmail (fst (begin_open e s))
     = (case emailCache s (eid e) of Some c \<Rightarrow> Some (c \<lparr>is_read := Some True\<rparr>) | None \<Rightarrow> selectedEmail s)"
  "emailCache (fst (begin_open e s))
     = (case emailCache s (eid e) of Some c \<Rightarrow> (emailCache s)(eid e \<mapsto> c \<lparr>is_read := Some True\<rparr>) | None \<Rightarrow> emailCache s)"
  "snd (begin_open e s) = (if isConversation e then [GetThread (eid e)] else [])
     @ (if is_read e = Some False then [MarkRead (eid e)] else [])
     @ (case emailCache s (eid e) of Some c \<Rightarrow> [] | None \<Rightarrow> [GetEmail (eid e)])"
  unfolding begin_open_def Let_def
  by (cases "account_id e"; cases "emailCache s (eid e)"; simp)+

text \<open>
  Opening a row and the answer with its conversation do to the reading pane what the list's model
  says, with the same requests for messages.
\<close>

theorem reading_refines_the_list:
  assumes "agrees r s"
  shows "agrees (fst (begin_read e r)) (fst (begin_open (list_part e) s))
    \<and> set (map asks (snd (begin_read e r))) \<union> {MarkRead (eid e)} = set (snd (begin_open (list_part e) s)) \<union> {MarkRead (eid e)}
    \<and> (ra_thread a = Ok ms \<and> cached_message (newest_of row ms) r = None \<longrightarrow>
        agrees (fst (thread_answered says a row r)) (fst (finish_conversation (list_part row) (map list_part ms) s)))"
proof -
  have c: "emailCache s (eid e) = map_option list_part (rd_cache r (eid e))" using assms by (simp add: agrees_def)
  have c': "emailCache s (eid (list_part e)) = map_option list_part (rd_cache r (eid e))" using c by simp
  note open_sel = begin_open_sel [of "list_part e" s, unfolded c']
  have a1: "agrees (fst (begin_read e r)) (fst (begin_open (list_part e) s))"
    using assms by (cases "rd_cache r (eid e)") (auto simp: begin_read_def agrees_def open_sel fun_eq_iff Let_def)
  have a2: "set (map asks (snd (begin_read e r))) \<union> {MarkRead (eid e)} = set (snd (begin_open (list_part e) s)) \<union> {MarkRead (eid e)}"
    by (cases "rd_cache r (eid e)") (auto simp: begin_read_def open_sel Let_def)
  have 2: "agrees (fst (thread_answered says a row r)) (fst (finish_conversation (list_part row) (map list_part ms) s))"
    if t: "ra_thread a = Ok ms" "cached_message (newest_of row ms) r = None"
  proof (cases "still_shown row r")
    case False
    then show ?thesis using assms t by (simp add: thread_answered_def finish_conversation_def agrees_def still_shown_def)
  next
    case True
    define x where "x = r \<lparr>rd_for := Some (eid (newest_of row ms)), rd_thread := Some (eid (newest_of row ms), ms),
                      rd_mail := Some ((spread_mail row (read_newest (newest_of row ms))) \<lparr>body_loading := Some True\<rparr>)\<rparr>"
    have "cached_message (newest_of row ms) x = None" using t(2) by (simp add: cached_message_def x_def)
    then have "fst (thread_answered says a row r)
        = (if eid (newest_of row ms) = eid row then r \<lparr>rd_thread := Some (eid row, ms)\<rparr> else x)"
      using t True by (simp add: thread_answered_def x_def [symmetric] Let_def)
    then show ?thesis using assms True
      by (simp add: finish_conversation_def agrees_def still_shown_def newest_list_part [symmetric] x_def read_newest_def Let_def)
  qed
  show ?thesis using a1 a2 2 by blast
qed

section \<open>Examples\<close>

definition demo_read :: "int \<Rightarrow> string option \<Rightarrow> read_mail" where
  "demo_read i b =
     \<lparr>eid = i, account_id = None, sender = None, receiver = None, cc = None, body = b, created_at = 0, sort_at = None,
      is_read = Some False, is_starred = None, starred_ids = None, snoozed_until = None, thread_id = None,
      message_count = None, unread_count = None, message_ids = None, unread_ids = None, participants = None, content = [],
      attachment_ids = None, attachments_checked = Some True, body_loading = None, body_error = None\<rparr>"

definition demo_read_answers :: read_answers where
  "demo_read_answers = \<lparr>ra_mail = Ok (demo_read 7 (Some ''hi'')), ra_thread = Throw TypeError, ra_body = Throw TypeError,
     ra_live = Throw TypeError, ra_files = Ok [3], ra_check = Throw TypeError, ra_files_again = Throw TypeError\<rparr>"

definition demo_full :: read_mail where
  "demo_full = (with_list_fields (demo_read 7 None) (demo_read 7 (Some ''hi''))) \<lparr>body := Some ''hi'', attachment_ids := Some [3]\<rparr>"

abbreviation no_reason :: "js_error \<Rightarrow> string option" where
  "no_reason \<equiv> \<lambda>e. None"

lemma demo_read_sel [simp]:
  "eid (demo_read i b) = i" "body (demo_read i b) = b" "attachments_checked (demo_read i b) = Some True"
  "plain (demo_read i b)" "isConversation (list_part (demo_read i b)) = False" "attachment_ids (demo_read i b) = None"
  by (simp_all add: demo_read_def plain_def list_part_def email.defs isConversation_def)

text \<open>A message opened, answered and decrypted.\<close>

lemma demo_reading:
  defines "q1 \<equiv> fst (begin_read (demo_read 7 None) fresh_reader)"
  defines "q2 \<equiv> q1 \<lparr>rd_cache := (rd_cache q1)(7 \<mapsto> demo_full), rd_mail := Some demo_full\<rparr>"
  shows "read_reach no_reason Ok (\<lambda>i. ''hi'') q1 [AwaitMail (demo_read 7 None)]"
    "read_reach no_reason Ok (\<lambda>i. ''hi'') q2 []"
proof -
  have b: "begin_read (demo_read 7 None) fresh_reader = (q1, [AwaitMail (demo_read 7 None)])"
    by (simp add: q1_def begin_read_def fresh_reader_def Let_def)
  have "read_step no_reason Ok (Opened (demo_read 7 None)) (fresh_reader, []) = (q1, [AwaitMail (demo_read 7 None)])"
    by (simp add: b)
  from read_more [OF read_fresh _ this] show q1: "read_reach no_reason Ok (\<lambda>i. ''hi'') q1 [AwaitMail (demo_read 7 None)]"
    by simp
  have shown: "still_shown (demo_read 7 None) q1" by (simp add: q1_def still_shown_def begin_read_def Let_def fresh_reader_def)
  have "read_step no_reason Ok (Resumed 0 demo_read_answers) (q1, [AwaitMail (demo_read 7 None)])
      = (q1, [AwaitSealed (demo_read 7 None) (demo_read 7 (Some ''hi''))])"
    using shown by (simp add: mail_answered_def demo_read_answers_def has_text_def)
  from read_more [OF q1 _ this]
  have r: "read_reach no_reason Ok (\<lambda>i. ''hi'') q1 [AwaitSealed (demo_read 7 None) (demo_read 7 (Some ''hi''))]"
    by (simp add: demo_read_answers_def good_mail_def opens_to_def)
  have "with_body Ok demo_read_answers (demo_read 7 (Some ''hi'')) (with_list_fields (demo_read 7 None) (demo_read 7 (Some ''hi'')))
      = Ok demo_full"
    by (simp add: with_body_def opened_body_def opened_files_def demo_read_answers_def has_text_def demo_full_def)
  then have "read_step no_reason Ok (Resumed 0 demo_read_answers) (q1, [AwaitSealed (demo_read 7 None) (demo_read 7 (Some ''hi''))])
      = (q2, [])"
    using shown by (simp add: sealed_answered_def q2_def Let_def)
  from read_more [OF r _ this] show "read_reach no_reason Ok (\<lambda>i. ''hi'') q2 []" by simp
qed

theorem shown_text_is_the_mail_witness:
  "\<exists>r m. read_reach no_reason Ok (\<lambda>i. ''hi'') r [] \<and> rd_mail r = Some m \<and> eid m = 7 \<and> body m = Some ''hi''"
proof -
  define q1 where "q1 = fst (begin_read (demo_read 7 None) fresh_reader)"
  define q2 where "q2 = q1 \<lparr>rd_cache := (rd_cache q1)(7 \<mapsto> demo_full), rd_mail := Some demo_full\<rparr>"
  have "body demo_full = Some ''hi''"
    using shown_text_is_the_mail [OF demo_reading(2) [folded q1_def, folded q2_def]] by (simp add: q2_def demo_full_def)
  moreover have "rd_mail q2 = Some demo_full" "eid demo_full = 7" by (simp_all add: q2_def demo_full_def)
  ultimately show ?thesis using demo_reading(2) [folded q1_def, folded q2_def] by blast
qed

theorem answers_keep_the_place_witness:
  "\<exists>r1 w1. resume_read no_reason Ok demo_read_answers (AwaitMail (demo_read 7 None)) (fst (begin_read (demo_read 7 None) fresh_reader)) = (r1, w1)
     \<and> (rd_mail r1 = None \<or> (\<exists>m. rd_mail r1 = Some m \<and> rd_for r1 = Some (eid m)))"
proof -
  let ?q = "fst (begin_read (demo_read 7 None) fresh_reader)"
  obtain r1 w1 where r: "resume_read no_reason Ok demo_read_answers (AwaitMail (demo_read 7 None)) ?q = (r1, w1)" by fastforce
  have n: "rd_mail ?q = None" by (simp add: begin_read_def fresh_reader_def Let_def)
  have "honest Ok (\<lambda>i. ''hi'') demo_read_answers (AwaitMail (demo_read 7 None))"
    by (simp add: demo_read_answers_def good_mail_def opens_to_def)
  then have "rd_mail r1 = None \<or> (\<exists>m. rd_mail r1 = Some m \<and> rd_for r1 = Some (eid m))"
    using answers_keep_the_place [OF demo_reading(1), of 0 demo_read_answers r1 w1] r n by simp
  with r show ?thesis by blast
qed

theorem closed_reader_reopens_witness:
  "rd_mail (fst (mail_answered no_reason (demo_read_answers \<lparr>ra_mail := Ok (demo_read 7 None)\<rparr>) (demo_read 7 None)
     (close_reader (fst (begin_read (demo_read 7 None) fresh_reader))))) \<noteq> None"
  using closed_reader_reopens [of fresh_reader "demo_read 7 None" "demo_read_answers \<lparr>ra_mail := Ok (demo_read 7 None)\<rparr>"
      "demo_read 7 None", OF _ _ _ refl, where says = no_reason]
  by (auto simp: fresh_reader_def has_text_def)

theorem reopened_mail_is_shown_at_once_witness:
  "\<exists>r :: reader. \<exists>m. rd_cache r 7 = Some demo_full \<and> rd_mail (fst (begin_read (demo_read 7 None) r)) = Some m \<and> body m = Some ''hi''"
proof -
  define q1 where "q1 = fst (begin_read (demo_read 7 None) fresh_reader)"
  define q2 where "q2 = q1 \<lparr>rd_cache := (rd_cache q1)(7 \<mapsto> demo_full), rd_mail := Some demo_full\<rparr>"
  have c: "rd_cache q2 (eid (demo_read 7 None)) = Some demo_full" by (simp add: q2_def)
  obtain r1 w1 where b: "begin_read (demo_read 7 None) q2 = (r1, w1)" by fastforce
  from reopened_mail_is_shown_at_once [OF demo_reading(2) [folded q1_def, folded q2_def] c b]
  obtain m where "rd_mail r1 = Some m" "body m = Some ''hi''" by auto
  then show ?thesis using b c by (metis demo_read_sel(1) fst_conv)
qed

theorem expanding_is_opening_witness:
  "\<exists>full r1. fetchMessage Ok demo_read_answers (demo_read 7 None) fresh_reader = (Ok full, r1)
     \<and> (\<exists>p q1 q2 m. resume_read no_reason Ok demo_read_answers p q1 = (q2, []) \<and> rd_cache q2 7 = Some m \<and> body m = body full)"
proof -
  define full where "full = (spread_mail (demo_read 7 None) (demo_read 7 (Some ''hi''))) \<lparr>body := Some ''hi'', attachment_ids := Some [3]\<rparr>"
  have f: "fetchMessage Ok demo_read_answers (demo_read 7 None) fresh_reader
      = (Ok full, fresh_reader \<lparr>rd_cache := [7 \<mapsto> full]\<rparr>)"
    by (simp add: fetchMessage_def fetched_message_def with_body_def opened_body_def opened_files_def demo_read_answers_def
        has_text_def full_def fresh_reader_def)
  have "ra_mail demo_read_answers = Ok (demo_read 7 (Some ''hi''))" by (simp add: demo_read_answers_def)
  from expanding_is_opening [OF f this, of "fst (begin_read (demo_read 7 None) fresh_reader)" no_reason]
  show ?thesis using f by (auto simp: still_shown_def begin_read_def fresh_reader_def Let_def)
qed

theorem earlier_message_asked_once_witness:
  "\<exists>v asked failed. thread_run no_reason [Toggled (demo_read 7 None)] [demo_read 7 None] = (v, asked, failed)
     \<and> asked 7 + 1 = failed 7 + (if held v 7 then 1 else 0)"
proof -
  obtain v asked failed where r: "thread_run no_reason [Toggled (demo_read 7 None)] [demo_read 7 None] = (v, asked, failed)"
    by (metis prod_cases3)
  have "is_read (demo_read 7 None) = Some False" by (simp add: demo_read_def)
  then show ?thesis using earlier_message_asked_once [OF r, of 7] r by auto
qed

theorem reading_refines_the_list_witness:
  "\<exists>s :: inbox. agrees (fst (begin_read (demo_read 7 None) fresh_reader)) (fst (begin_open (list_part (demo_read 7 None)) s))"
proof -
  obtain s :: inbox where "conversationFor s = None" "conversation s = None" "selectedEmail s = None" "emailCache s = Map.empty"
    by (metis inbox.select_convs(3,4,13,14))
  then have "agrees fresh_reader s" by (simp add: agrees_def fresh_reader_def)
  from reading_refines_the_list [OF this] show ?thesis by blast
qed

end
