(* ===== verification/Mail_Page.thy ===== *)
theory Mail_Page
  imports Open_Places Email_Inbox
begin

text \<open>
  The mail page around the list and the reading pane (\<open>emails/Emails.tsx\<close>): which panes are on
  the screen and how wide, the open mail in the address bar and in the tab's session, the notice
  with Undo, the poll. The hook \<open>useEmailInbox\<close> changes the selection as it likes: opening a row
  is a request, and any selection may follow. Effects run after each render in the order of the
  source, each seeing the render's values.
\<close>

section \<open>Ids in the address bar\<close>

text \<open>\<open>String(id)\<close>, and \<open>Number(raw)\<close> where a fraction, an exponent or a hexadecimal counts as no number.\<close>

definition id_text :: "int \<Rightarrow> string" where
  "id_text i = (if i < 0 then CHR ''-'' # nat_str (nat (- i)) else nat_str (nat i))"

definition digits_val :: "string \<Rightarrow> int option" where
  "digits_val s = (if s \<noteq> [] \<and> list_all is_digit s then Some (int (nat_val s)) else None)"

definition to_number :: "string \<Rightarrow> int option" where
  "to_number raw =
     (case trim raw of
        [] \<Rightarrow> Some 0
      | c # s \<Rightarrow> if c = CHR ''-'' then map_option uminus (digits_val s)
                else if c = CHR ''+'' then digits_val s else digits_val (c # s))"

section \<open>Panes and widths\<close>

record panes =
  pn_files :: bool \<comment> \<open>\<open>viewMode === "files"\<close>\<close>
  pn_split :: bool \<comment> \<open>the stored layout\<close>
  pn_in_pane :: bool \<comment> \<open>the page stands in an app-level split pane\<close>
  pn_narrow :: bool
  pn_mail :: bool \<comment> \<open>a mail is selected\<close>
  pn_file :: bool \<comment> \<open>a file is selected\<close>
  pn_reopening :: bool

definition split_layout :: "panes \<Rightarrow> bool" where
  "split_layout p \<longleftrightarrow> \<not> pn_in_pane p \<and> pn_split p"

definition waitingToReopen :: "panes \<Rightarrow> bool" where
  "waitingToReopen p \<longleftrightarrow> pn_reopening p \<and> \<not> pn_mail p"

definition showList :: "panes \<Rightarrow> bool" where
  "showList p \<longleftrightarrow>
     (if pn_files p
      then if \<not> split_layout p then \<not> pn_file p else \<not> pn_narrow p \<or> \<not> pn_file p
      else (\<not> split_layout p \<and> \<not> pn_mail p \<and> \<not> waitingToReopen p)
        \<or> (split_layout p \<and> (\<not> pn_narrow p \<or> (\<not> pn_mail p \<and> \<not> waitingToReopen p))))"

definition showDetail :: "panes \<Rightarrow> bool" where
  "showDetail p \<longleftrightarrow>
     (pn_files p \<and> (if \<not> split_layout p then pn_file p else \<not> pn_narrow p \<or> pn_file p))
     \<or> (\<not> split_layout p \<and> pn_mail p) \<or> (split_layout p \<and> (\<not> pn_narrow p \<or> pn_mail p))"

definition showEmailListResizer :: "panes \<Rightarrow> bool" where
  "showEmailListResizer p \<longleftrightarrow> \<not> pn_files p \<and> showList p \<and> showDetail p \<and> \<not> pn_narrow p"

definition sideBySide :: "panes \<Rightarrow> bool" where
  "sideBySide p \<longleftrightarrow> \<not> pn_files p \<and> split_layout p \<and> \<not> pn_narrow p"

definition clamp :: "int \<Rightarrow> int \<Rightarrow> int \<Rightarrow> int" where
  "clamp lo hi x = min hi (max lo x)"

definition stored_width :: "int \<Rightarrow> int \<Rightarrow> int \<Rightarrow> string option \<Rightarrow> int" where
  "stored_width lo hi default' raw =
     (case raw of
        None \<Rightarrow> default'
      | Some s \<Rightarrow> if s = [] then default' else (case to_number s of None \<Rightarrow> default' | Some n \<Rightarrow> clamp lo hi n))"

record widths =
  w_sidebar :: int
  w_list :: int

definition initial_widths :: "string option \<Rightarrow> string option \<Rightarrow> widths" where
  "initial_widths side list' = \<lparr>w_sidebar = stored_width 180 360 220 side, w_list = stored_width 220 620 360 list'\<rparr>"

definition drag_sidebar :: "int \<Rightarrow> widths \<Rightarrow> widths" where
  "drag_sidebar x w = w \<lparr>w_sidebar := clamp 180 360 x\<rparr>"

definition list_room :: "int \<Rightarrow> widths \<Rightarrow> int" where
  "list_room page w = page - w_sidebar w - 8 - 320"

definition drag_list :: "int \<Rightarrow> int \<Rightarrow> widths \<Rightarrow> widths" where
  "drag_list page x w = w \<lparr>w_list := min (clamp 220 620 (list_room page w)) (max 220 (x - w_sidebar w - 8))\<rparr>"

section \<open>The address bar and the session\<close>

datatype mail_ask = OpenRow email | FetchMail int

text \<open>\<open>mp_url\<close> is the page's \<open>?open=\<close>, \<open>mp_back\<close> what the earlier history entries hold.\<close>

record mail_page =
  mp_user :: "nat option"
  mp_owns :: bool
  mp_url :: "string option"
  mp_back :: "string option list"
  mp_restored :: "int option"
  mp_reopening :: "int option"
  mp_sel :: "int option"
  mp_account :: "int option"
  mp_folder :: string
  mp_list :: "string option"
  mp_rows :: "email list"
  mp_split :: bool
  mp_side :: bool
  mp_applied :: "int option"
  mp_prev_param :: "string option"
  mp_prev_sel :: "int option"
  mp_kept :: "(int option \<times> nat option \<times> int option \<times> string) option"
  mp_auto :: "string option"
  mp_closing :: bool
  mp_asked :: "mail_ask list"
  mp_store :: session_store

text \<open>The mail left open, unless the address names another or a mailbox was just connected.\<close>

definition restored_id :: "int option \<Rightarrow> string option \<Rightarrow> bool \<Rightarrow> int option" where
  "restored_id saved param connecting =
     (case saved of
        None \<Rightarrow> None
      | Some i \<Rightarrow> if param \<noteq> None \<and> param \<noteq> Some (id_text i) then None else if connecting then None else Some i)"

definition reopening_id :: "int option \<Rightarrow> string option \<Rightarrow> int option" where
  "reopening_id restored param =
     (case restored of Some i \<Rightarrow> Some i
      | None \<Rightarrow> (case param of None \<Rightarrow> None | Some s \<Rightarrow> if s = [] then None else to_number s))"

definition replace_url :: "string option \<Rightarrow> mail_page \<Rightarrow> mail_page" where
  "replace_url u p = p \<lparr>mp_url := u\<rparr>"

definition push_url :: "string option \<Rightarrow> mail_page \<Rightarrow> mail_page" where
  "push_url u p = p \<lparr>mp_url := u, mp_back := mp_url p # mp_back p\<rparr>"

definition forget_mail :: "mail_page \<Rightarrow> mail_page" where
  "forget_mail p = p \<lparr>mp_store := forgetOpenEmail (mp_store p)\<rparr>"

definition restore_url :: "mail_page \<Rightarrow> mail_page" where
  "restore_url p =
     (case mp_restored p of
        Some i \<Rightarrow> if mp_owns p \<and> mp_url p = None then replace_url (Some (id_text i)) p else p
      | None \<Rightarrow> p)"

definition row_of :: "int \<Rightarrow> email list \<Rightarrow> email option" where
  "row_of i rows =
     (case find (\<lambda>e. eid e = i) rows of
        Some e \<Rightarrow> Some e
      | None \<Rightarrow> find (\<lambda>e. case message_ids e of Some ids \<Rightarrow> i \<in> set ids | None \<Rightarrow> False) rows)"

definition ask_mail :: "int \<Rightarrow> mail_page \<Rightarrow> mail_page" where
  "ask_mail i p =
     p \<lparr>mp_applied := Some i,
        mp_split := (if mp_split p \<and> mp_restored p \<noteq> Some i then False else mp_split p),
        mp_asked := mp_asked p @ [case row_of i (mp_rows p) of Some e \<Rightarrow> OpenRow e | None \<Rightarrow> FetchMail i]\<rparr>"

text \<open>
  The effect that applies the address: \<open>u\<close> is the parameter at the render. A run first cancels
  the closing its predecessor put off.
\<close>

definition apply_url :: "string option \<Rightarrow> mail_page \<Rightarrow> mail_page" where
  "apply_url u p =
     (let p1 = p \<lparr>mp_prev_param := u, mp_closing := False\<rparr>;
          raw = (case u of Some s \<Rightarrow> s | None \<Rightarrow> (case mp_reopening p of None \<Rightarrow> [] | Some i \<Rightarrow> id_text i))
      in if raw = []
         then p1 \<lparr>mp_applied := None, mp_closing := (mp_prev_param p \<noteq> None \<and> mp_sel p \<noteq> None)\<rparr>
         else (case to_number raw of
                 None \<Rightarrow> replace_url None p1
               | Some i \<Rightarrow>
                   if mp_sel p = Some i then p1 \<lparr>mp_applied := Some i\<rparr>
                   else if mp_list p = None \<or> mp_applied p = Some i then p1
                   else ask_mail i p1))"

text \<open>The effect that mirrors the open mail.\<close>

definition mirror_url :: "string option \<Rightarrow> mail_page \<Rightarrow> mail_page" where
  "mirror_url u p =
     (let p1 = p \<lparr>mp_prev_sel := mp_sel p\<rparr> in
      if mp_sel p = mp_prev_sel p then p
      else (case mp_sel p of
              Some i \<Rightarrow> if mp_owns p \<and> u \<noteq> Some (id_text i) then push_url (Some (id_text i)) p1 else p1
            | None \<Rightarrow> if u \<noteq> None then replace_url None (forget_mail p1) else forget_mail p1))"

definition keep_deps :: "mail_page \<Rightarrow> int option \<times> nat option \<times> int option \<times> string" where
  "keep_deps p = (mp_sel p, mp_user p, mp_account p, mp_folder p)"

definition keep_mail :: "mail_page \<Rightarrow> mail_page" where
  "keep_mail p =
     (let p1 = p \<lparr>mp_kept := Some (keep_deps p)\<rparr> in
      if mp_kept p = Some (keep_deps p) then p
      else (case (mp_sel p, mp_user p) of
              (Some i, Some u) \<Rightarrow>
                p1 \<lparr>mp_store := rememberOpenEmail
                     \<lparr>om_user = u, om_email = id_text i, om_account = map_option id_text (mp_account p),
                      om_folder = mp_folder p\<rparr> (mp_store p)\<rparr>
            | _ \<Rightarrow> p1))"

text \<open>The side-by-side view opens the first mail of a freshly loaded list.\<close>

definition auto_open :: "string option \<Rightarrow> mail_page \<Rightarrow> mail_page" where
  "auto_open u p =
     (if \<not> mp_side p \<or> mp_list p = None \<or> mp_auto p = mp_list p then p
      else (let p1 = p \<lparr>mp_auto := mp_list p\<rparr> in
            case mp_rows p of
              e # es \<Rightarrow> if mp_sel p = None \<and> u = None \<and> mp_reopening p = None
                        then p1 \<lparr>mp_asked := mp_asked p @ [OpenRow e]\<rparr> else p1
            | [] \<Rightarrow> p1))"

definition render :: "mail_page \<Rightarrow> mail_page" where
  "render p = (let u = (if mp_owns p then mp_url p else None)
               in auto_open u (keep_mail (mirror_url u (apply_url u p))))"

datatype page_event =
    Selected "int option" \<comment> \<open>the hook changed the selection\<close>
  | ListLoaded string "email list"
  | WentBack
  | Followed string \<comment> \<open>a link to \<open>?open=\<close>\<close>
  | CloseTimer
  | Settled \<comment> \<open>the opening of a mail on its way back ended\<close>
  | Fetched int "email result"
  | LayoutChosen bool bool
  | ViewChosen "int option" string
  | Rerendered

definition fetched_mail :: "int \<Rightarrow> email result \<Rightarrow> mail_page \<Rightarrow> mail_page" where
  "fetched_mail i r p =
     (case r of
        Ok e \<Rightarrow> if mp_applied p = Some i then p \<lparr>mp_asked := mp_asked p @ [OpenRow e]\<rparr> else p \<lparr>mp_reopening := None\<rparr>
      | Throw x \<Rightarrow>
          (let p1 = (forget_mail p) \<lparr>mp_reopening := None\<rparr> in if mp_owns p then replace_url None p1 else p1))"

fun page_update :: "page_event \<Rightarrow> mail_page \<Rightarrow> mail_page" where
  "page_update (Selected s) p = p \<lparr>mp_sel := s\<rparr>"
| "page_update (ListLoaded k rows) p = p \<lparr>mp_list := Some k, mp_rows := rows\<rparr>"
| "page_update WentBack p = (case mp_back p of [] \<Rightarrow> p | u # us \<Rightarrow> if mp_owns p then p \<lparr>mp_url := u, mp_back := us\<rparr> else p)"
| "page_update (Followed s) p = (if mp_owns p then push_url (Some s) p else p)"
| "page_update CloseTimer p = (if mp_closing p then p \<lparr>mp_sel := None, mp_closing := False\<rparr> else p)"
| "page_update Settled p = p \<lparr>mp_reopening := None\<rparr>"
| "page_update (Fetched i r) p = fetched_mail i r p"
| "page_update (LayoutChosen split side) p = p \<lparr>mp_split := split, mp_side := side\<rparr>"
| "page_update (ViewChosen a f) p = p \<lparr>mp_account := a, mp_folder := f\<rparr>"
| "page_update Rerendered p = p"

definition page_step :: "page_event \<Rightarrow> mail_page \<Rightarrow> mail_page" where
  "page_step e p = render (page_update e p)"

definition open_mail_page :: "nat option \<Rightarrow> bool \<Rightarrow> string option \<Rightarrow> string option list \<Rightarrow> int option \<Rightarrow> bool \<Rightarrow> bool \<Rightarrow>
    session_store \<Rightarrow> mail_page" where
  "open_mail_page user owns param back' saved connecting split st =
     (let u = (if owns then param else None); restored = restored_id saved u connecting
      in \<lparr>mp_user = user, mp_owns = owns, mp_url = param, mp_back = back', mp_restored = restored,
          mp_reopening = reopening_id restored u, mp_sel = None, mp_account = None, mp_folder = ''inbox'', mp_list = None,
          mp_rows = [], mp_split = split, mp_side = False, mp_applied = None, mp_prev_param = None, mp_prev_sel = None,
          mp_kept = None, mp_auto = None, mp_closing = False, mp_asked = [], mp_store = st\<rparr>)"

text \<open>The first render, whose first effect restores the address.\<close>

definition mount_mail_page where
  "mount_mail_page user owns param back' saved connecting split st =
     (let p = open_mail_page user owns param back' saved connecting split st;
          u = (if owns then param else None); q = restore_url p
      in auto_open u (keep_mail (mirror_url u (apply_url u q))))"

section \<open>The notice\<close>

record mail_notice =
  nt_text :: string
  nt_view :: "int option \<times> string"
  nt_undo :: "trashed_batch option"
  nt_failure :: string
  nt_since :: int

definition offerUndo :: "int \<Rightarrow> int option \<times> string \<Rightarrow> trashed_batch \<Rightarrow> mail_notice option \<Rightarrow> mail_notice option" where
  "offerUndo t view b n =
     (if tb_ids b = [] then n
      else Some \<lparr>nt_text = (if length (tb_rows b) > 1 then nat_str (length (tb_rows b)) @ '' conversations moved to Trash.''
                            else ''Moved to Trash.''),
                 nt_view = view, nt_undo = Some b, nt_failure = ''Try again from Trash.'', nt_since = t\<rparr>)"

definition snooze_notice ::
  "string \<Rightarrow> int \<Rightarrow> int option \<times> string \<Rightarrow> trashed_batch \<Rightarrow> mail_notice option \<Rightarrow> mail_notice option" where
  "snooze_notice until' t view b n =
     (if tb_ids b = [] then n
      else Some \<lparr>nt_text = ''Snoozed until '' @ until' @ ''.'', nt_view = view, nt_undo = Some b,
                 nt_failure = ''Unsnooze it from Snoozed.'', nt_since = t\<rparr>)"

definition deleteWithUndo ::
  "int \<Rightarrow> int option \<times> string \<Rightarrow> trashed_batch result \<Rightarrow> mail_notice option \<Rightarrow> mail_notice option result" where
  "deleteWithUndo t view r n =
     (if snd view = ''trash'' then Throw (Error ''This email is already in Trash.'')
      else bind_result r (\<lambda>b. Ok (offerUndo t view b n)))"

definition restored_notice :: "int \<Rightarrow> int option \<times> string \<Rightarrow> nat \<Rightarrow> nat \<Rightarrow> string option \<Rightarrow> mail_notice option" where
  "restored_notice t view restored failed err =
     (let back' = (if restored = 1 then ''1 email'' else nat_str restored @ '' emails'')
      in Some \<lparr>nt_text = (if failed > 0
            then trim (''Restored '' @ back' @ ''; couldn't restore '' @ nat_str failed @ ''. '' @ nullish err [])
            else ''Restored '' @ back' @ '' to the inbox.''),
          nt_view = view, nt_undo = None, nt_failure = [], nt_since = t\<rparr>)"

text \<open>Eight seconds, unless another replaces it.\<close>

definition notice_expires :: "int \<Rightarrow> mail_notice option \<Rightarrow> mail_notice option" where
  "notice_expires t n = (case n of None \<Rightarrow> None | Some x \<Rightarrow> if t \<ge> nt_since x + 8000 then None else Some x)"

definition notice_shown :: "int option \<times> string \<Rightarrow> mail_notice option \<Rightarrow> mail_notice option" where
  "notice_shown view n = (case n of None \<Rightarrow> None | Some x \<Rightarrow> if nt_view x = view then Some x else None)"

definition begin_undo :: "mail_notice option \<Rightarrow> mail_notice option \<times> (trashed_batch \<times> mail_notice) option" where
  "begin_undo n =
     (case n of
        None \<Rightarrow> (None, None)
      | Some x \<Rightarrow> (case nt_undo x of None \<Rightarrow> (n, None) | Some b \<Rightarrow> (None, Some (b, x))))"

definition finish_undo :: "int \<Rightarrow> int option \<times> string \<Rightarrow> mail_notice \<Rightarrow> nat \<Rightarrow> mail_notice option \<Rightarrow> mail_notice option" where
  "finish_undo t view x failed n =
     (if failed > 0
      then Some \<lparr>nt_text = trim (''Couldn't undo '' @ nat_str failed @ '' email'' @ (if failed = 1 then [] else ''s'') @ ''. ''
                  @ nt_failure x),
                 nt_view = view, nt_undo = None, nt_failure = [], nt_since = t\<rparr>
      else n)"

section \<open>Accounts and the poll\<close>

record shown_account =
  sa_id :: int
  sa_name :: "string option"

definition displayedAccounts :: "(int \<rightharpoonup> string) \<Rightarrow> shown_account list \<Rightarrow> shown_account list" where
  "displayedAccounts names as =
     map (\<lambda>a. a \<lparr>sa_name := (case names (sa_id a) of Some n \<Rightarrow> Some n | None \<Rightarrow> sa_name a)\<rparr>) as"

definition renameAccount :: "int \<Rightarrow> string option \<Rightarrow> (int \<rightharpoonup> string) \<Rightarrow> int \<rightharpoonup> string" where
  "renameAccount i name names = (case name of Some n \<Rightarrow> if n = [] then names(i := None) else names(i \<mapsto> n) | None \<Rightarrow> names(i := None))"

definition visible_account :: "bool \<Rightarrow> shown_account list \<Rightarrow> int option \<Rightarrow> int option" where
  "visible_account loaded as active =
     (case active of
        None \<Rightarrow> None
      | Some a \<Rightarrow> if loaded \<and> a \<notin> sa_id ` set as then None else Some a)"

definition composeAccountId :: "int option \<Rightarrow> shown_account list \<Rightarrow> int option" where
  "composeAccountId active as = (case active of Some a \<Rightarrow> Some a | None \<Rightarrow> (case as of [] \<Rightarrow> None | a # _ \<Rightarrow> Some (sa_id a)))"

definition selectedRow :: "email option \<Rightarrow> email list \<Rightarrow> email option" where
  "selectedRow sel rows =
     (case sel of
        None \<Rightarrow> None
      | Some m \<Rightarrow> find (\<lambda>e. eid e = eid m \<or> conversationKey e = conversationKey m) rows)"

record mail_poll =
  po_timer :: bool
  po_ticks :: nat
  po_wakes :: nat

definition start_poll :: "mail_poll \<Rightarrow> mail_poll" where
  "start_poll p = p \<lparr>po_timer := True\<rparr>"

definition stop_poll :: "mail_poll \<Rightarrow> mail_poll" where
  "stop_poll p = p \<lparr>po_timer := False\<rparr>"

definition mount_poll :: "bool \<Rightarrow> mail_poll" where
  "mount_poll hidden =
     (let p = \<lparr>po_timer = False, po_ticks = 0, po_wakes = 0\<rparr>
      in if hidden then p else start_poll (p \<lparr>po_wakes := 1\<rparr>))"

definition visibility_changed :: "bool \<Rightarrow> mail_poll \<Rightarrow> mail_poll" where
  "visibility_changed hidden p =
     (if hidden then stop_poll p
      else start_poll (p \<lparr>po_wakes := po_wakes p + 1, po_ticks := po_ticks p + 1\<rparr>))"

section \<open>Texts of ids\<close>

lemma digits_val_nat_str: "digits_val (nat_str n) = Some (int n)"
  using nat_str_digits by (auto simp: digits_val_def list_all_iff)

lemma digit_not_space: "is_digit c \<Longrightarrow> \<not> js_space c"
  by (auto simp: is_digit_def js_space_def code_def)

lemma trim_no_space: "\<forall>c \<in> set s. \<not> js_space c \<Longrightarrow> trim s = s"
proof -
  assume a: "\<forall>c \<in> set s. \<not> js_space c"
  have d: "dropWhile js_space t = t" if "\<forall>c \<in> set t. \<not> js_space c" for t using that by (cases t) auto
  have "dropWhile js_space s = s" "dropWhile js_space (rev s) = rev s" using a by (auto intro: d)
  then show "trim s = s" by (simp add: trim_def)
qed

lemma sign_facts: "\<not> js_space (CHR ''-'')" "\<not> is_digit (CHR ''-'')" "\<not> is_digit (CHR ''+'')"
  by (simp_all add: js_space_def is_digit_def code_def)

lemma id_text_no_space: "\<forall>c \<in> set (id_text i). \<not> js_space c"
  using nat_str_digits digit_not_space sign_facts(1) by (auto simp: id_text_def split: if_splits)

lemma id_text_ne [simp]: "id_text i \<noteq> []"
  by (simp add: id_text_def)

lemma to_number_id_text [simp]: "to_number (id_text i) = Some i"
proof (cases "i < 0")
  case True
  then show ?thesis
    using trim_no_space [OF id_text_no_space, of i] digits_val_nat_str [of "nat (- i)"]
    by (simp add: to_number_def id_text_def)
next
  case False
  obtain c s where c: "nat_str (nat i) = c # s" by (cases "nat_str (nat i)") auto
  then have "is_digit c" using nat_str_digits [of c "nat i"] by simp
  then have "c \<noteq> CHR ''-''" "c \<noteq> CHR ''+''" using sign_facts by auto
  then show ?thesis
    using False trim_no_space [OF id_text_no_space, of i] digits_val_nat_str [of "nat i"] c
    by (simp add: to_number_def id_text_def)
qed

lemma id_text_inj [simp]: "id_text i = id_text j \<longleftrightarrow> i = j"
  by (metis option.inject to_number_id_text)

section \<open>What a render changes\<close>

lemma apply_url_sel [simp]:
  "mp_sel (apply_url u p) = mp_sel p" "mp_owns (apply_url u p) = mp_owns p" "mp_back (apply_url u p) = mp_back p"
  "mp_prev_sel (apply_url u p) = mp_prev_sel p" "mp_store (apply_url u p) = mp_store p"
  "mp_reopening (apply_url u p) = mp_reopening p" "mp_user (apply_url u p) = mp_user p"
  "mp_account (apply_url u p) = mp_account p" "mp_folder (apply_url u p) = mp_folder p" "mp_kept (apply_url u p) = mp_kept p"
  "mp_list (apply_url u p) = mp_list p" "mp_rows (apply_url u p) = mp_rows p" "mp_auto (apply_url u p) = mp_auto p"
  "mp_side (apply_url u p) = mp_side p" "mp_prev_param (apply_url u p) = u" "mp_restored (apply_url u p) = mp_restored p"
  by (simp_all add: apply_url_def ask_mail_def replace_url_def Let_def split: option.split)

lemma mirror_url_sel [simp]:
  "mp_sel (mirror_url u p) = mp_sel p" "mp_owns (mirror_url u p) = mp_owns p" "mp_applied (mirror_url u p) = mp_applied p"
  "mp_prev_sel (mirror_url u p) = mp_sel p" "mp_closing (mirror_url u p) = mp_closing p"
  "mp_reopening (mirror_url u p) = mp_reopening p" "mp_user (mirror_url u p) = mp_user p"
  "mp_account (mirror_url u p) = mp_account p" "mp_folder (mirror_url u p) = mp_folder p" "mp_kept (mirror_url u p) = mp_kept p"
  "mp_list (mirror_url u p) = mp_list p" "mp_rows (mirror_url u p) = mp_rows p" "mp_auto (mirror_url u p) = mp_auto p"
  "mp_side (mirror_url u p) = mp_side p" "mp_split (mirror_url u p) = mp_split p" "mp_asked (mirror_url u p) = mp_asked p"
  "mp_prev_param (mirror_url u p) = mp_prev_param p" "mp_restored (mirror_url u p) = mp_restored p"
  by (simp_all add: mirror_url_def push_url_def replace_url_def forget_mail_def Let_def split: option.split)

lemma keep_mail_sel [simp]:
  "mp_sel (keep_mail p) = mp_sel p" "mp_owns (keep_mail p) = mp_owns p" "mp_applied (keep_mail p) = mp_applied p"
  "mp_prev_sel (keep_mail p) = mp_prev_sel p" "mp_closing (keep_mail p) = mp_closing p"
  "mp_reopening (keep_mail p) = mp_reopening p" "mp_user (keep_mail p) = mp_user p" "mp_url (keep_mail p) = mp_url p"
  "mp_back (keep_mail p) = mp_back p" "mp_account (keep_mail p) = mp_account p" "mp_folder (keep_mail p) = mp_folder p"
  "mp_list (keep_mail p) = mp_list p" "mp_rows (keep_mail p) = mp_rows p" "mp_auto (keep_mail p) = mp_auto p"
  "mp_side (keep_mail p) = mp_side p" "mp_split (keep_mail p) = mp_split p" "mp_asked (keep_mail p) = mp_asked p"
  "mp_prev_param (keep_mail p) = mp_prev_param p" "mp_restored (keep_mail p) = mp_restored p"
  "mp_kept (keep_mail p) = Some (keep_deps p)"
  by (simp_all add: keep_mail_def Let_def split: option.split)

lemma auto_open_sel [simp]:
  "mp_sel (auto_open u p) = mp_sel p" "mp_owns (auto_open u p) = mp_owns p" "mp_applied (auto_open u p) = mp_applied p"
  "mp_prev_sel (auto_open u p) = mp_prev_sel p" "mp_closing (auto_open u p) = mp_closing p"
  "mp_reopening (auto_open u p) = mp_reopening p" "mp_user (auto_open u p) = mp_user p" "mp_url (auto_open u p) = mp_url p"
  "mp_back (auto_open u p) = mp_back p" "mp_account (auto_open u p) = mp_account p" "mp_folder (auto_open u p) = mp_folder p"
  "mp_list (auto_open u p) = mp_list p" "mp_rows (auto_open u p) = mp_rows p" "mp_store (auto_open u p) = mp_store p"
  "mp_side (auto_open u p) = mp_side p" "mp_split (auto_open u p) = mp_split p" "mp_kept (auto_open u p) = mp_kept p"
  "mp_prev_param (auto_open u p) = mp_prev_param p" "mp_restored (auto_open u p) = mp_restored p"
  by (simp_all add: auto_open_def Let_def split: list.split)

lemma auto_open_asked [simp]: "u \<noteq> None \<or> mp_sel p \<noteq> None \<Longrightarrow> mp_asked (auto_open u p) = mp_asked p"
  by (auto simp: auto_open_def Let_def split: list.split)

definition param :: "mail_page \<Rightarrow> string option" where
  "param p = (if mp_owns p then mp_url p else None)"

lemma render_eq: "render p = auto_open (param p) (keep_mail (mirror_url (param p) (apply_url (param p) p)))"
  by (simp add: render_def param_def Let_def)

lemma render_sel [simp]:
  "mp_sel (render p) = mp_sel p" "mp_owns (render p) = mp_owns p" "mp_prev_sel (render p) = mp_sel p"
  "mp_reopening (render p) = mp_reopening p" "mp_list (render p) = mp_list p" "mp_rows (render p) = mp_rows p"
  "mp_side (render p) = mp_side p" "mp_prev_param (render p) = param p" "mp_restored (render p) = mp_restored p"
  "mp_user (render p) = mp_user p" "mp_account (render p) = mp_account p" "mp_folder (render p) = mp_folder p"
  by (simp_all add: render_eq)

text \<open>Address, history, session and requests after a render.\<close>

lemma mirror_same: "mp_sel p = mp_prev_sel p \<Longrightarrow> mirror_url u p = p"
  by (simp add: mirror_url_def)

lemma apply_url_url [simp]:
  "mp_url (apply_url u p) = (if u \<noteq> None \<and> u \<noteq> Some [] \<and> to_number (the u) = None then None else mp_url p)"
  by (auto simp: apply_url_def ask_mail_def replace_url_def Let_def split: option.split)

lemma mirror_open:
  assumes "mp_sel p = Some i" "mp_prev_sel p \<noteq> Some i"
  shows "mp_url (mirror_url u p) = (if mp_owns p \<and> u \<noteq> Some (id_text i) then Some (id_text i) else mp_url p)"
    "mp_back (mirror_url u p) = (if mp_owns p \<and> u \<noteq> Some (id_text i) then mp_url p # mp_back p else mp_back p)"
    "mp_store (mirror_url u p) = mp_store p"
  using assms by (simp_all add: mirror_url_def push_url_def Let_def)

lemma mirror_close:
  assumes "mp_sel p = None" "mp_prev_sel p \<noteq> None"
  shows "mp_url (mirror_url u p) = (if u \<noteq> None then None else mp_url p)" "mp_back (mirror_url u p) = mp_back p"
    "mp_store (mirror_url u p) = forgetOpenEmail (mp_store p)"
  using assms by (auto simp: mirror_url_def forget_mail_def replace_url_def Let_def)

lemma keep_store:
  "mp_store (keep_mail p) =
     (if mp_kept p = Some (keep_deps p) then mp_store p
      else case (mp_sel p, mp_user p) of
        (Some i, Some u) \<Rightarrow> rememberOpenEmail \<lparr>om_user = u, om_email = id_text i,
            om_account = map_option id_text (mp_account p), om_folder = mp_folder p\<rparr> (mp_store p)
      | _ \<Rightarrow> mp_store p)"
  by (auto simp: keep_mail_def Let_def split: option.split)

section \<open>Properties\<close>

text \<open>
  Beside each other stand list and pane exactly in the wide split view, and in the files view
  when a mail was left selected: there an empty file pane takes its half. Neither is shown
  exactly while a mail is on its way back to a page that shows one at a time.
\<close>

theorem panes_on_screen:
  "(showList p \<and> showDetail p \<longleftrightarrow> (split_layout p \<and> \<not> pn_narrow p) \<or> (pn_files p \<and> \<not> pn_file p \<and> pn_mail p))
   \<and> (\<not> showList p \<and> \<not> showDetail p \<longleftrightarrow> \<not> pn_files p \<and> waitingToReopen p \<and> \<not> (split_layout p \<and> \<not> pn_narrow p))"
  by (auto simp: showList_def showDetail_def waitingToReopen_def)

text \<open>No drag and no stored text takes the widths out of their bounds; a dragged list leaves the pane its room.\<close>

datatype drag = DragSidebar int | DragList int int

fun dragged :: "drag \<Rightarrow> widths \<Rightarrow> widths" where
  "dragged (DragSidebar x) w = drag_sidebar x w"
| "dragged (DragList page x) w = drag_list page x w"

definition widths_ok :: "widths \<Rightarrow> bool" where
  "widths_ok w \<longleftrightarrow> 180 \<le> w_sidebar w \<and> w_sidebar w \<le> 360 \<and> 220 \<le> w_list w \<and> w_list w \<le> 620"

lemma dragged_ok: "widths_ok w \<Longrightarrow> widths_ok (dragged d w)"
  by (cases d) (auto simp: widths_ok_def drag_sidebar_def drag_list_def clamp_def)

theorem widths_stay_in_bounds:
  assumes "w = fold dragged ds (initial_widths side list')"
  shows "180 \<le> w_sidebar w \<and> w_sidebar w \<le> 360 \<and> 220 \<le> w_list w \<and> w_list w \<le> 620
    \<and> (220 \<le> list_room page w \<longrightarrow> w_list (drag_list page x w) + w_sidebar w + 8 + 320 \<le> page)"
proof -
  have "widths_ok (initial_widths side list')"
    by (auto simp: widths_ok_def initial_widths_def stored_width_def clamp_def split: option.split)
  then have "widths_ok w" unfolding assms
    by (induction ds arbitrary: side list' rule: rev_induct) (auto intro: dragged_ok)
  then show ?thesis by (auto simp: widths_ok_def drag_list_def list_room_def clamp_def)
qed

text \<open>
  C29: The address follows the open mail: a mail that opens is pushed unless the address names it, a
  mail that closes is taken out without a new entry and forgotten, and a page in a pane of another
  route leaves the address alone.
\<close>

theorem address_follows_open_mail:
  assumes "mp_prev_sel p = mp_sel p" "q = page_step (Selected s) p" "s \<noteq> mp_sel p"
  shows "(\<forall>i. s = Some i \<and> mp_owns p \<longrightarrow> mp_url q = Some (id_text i)
        \<and> (mp_url p = Some (id_text i) \<longrightarrow> mp_back q = mp_back p)
        \<and> (mp_url p \<noteq> Some (id_text i) \<and> (\<forall>t. mp_url p = Some t \<longrightarrow> to_number t \<noteq> None) \<longrightarrow> mp_back q = mp_url p # mp_back p))
    \<and> (s = None \<longrightarrow> (mp_owns p \<longrightarrow> mp_url q = None) \<and> mp_back q = mp_back p \<and> mp_store q = forgetOpenEmail (mp_store p))
    \<and> (\<not> mp_owns p \<longrightarrow> mp_url q = mp_url p \<and> mp_back q = mp_back p)"
proof (cases s)
  case None
  then have "mp_sel p \<noteq> None" using assms(3) by simp
  then show ?thesis using assms(1) None
    by (simp add: assms(2) page_step_def render_eq mirror_close keep_store param_def)
next
  case (Some i)
  then show ?thesis using assms(1,3)
    by (auto simp: assms(2) page_step_def render_eq mirror_open param_def)
qed

lemma apply_plain:
  assumes "u = None" "mp_reopening p = None"
  shows "mp_applied (apply_url u p) = None" "mp_closing (apply_url u p) \<longleftrightarrow> mp_prev_param p \<noteq> None \<and> mp_sel p \<noteq> None"
    "mp_asked (apply_url u p) = mp_asked p" "mp_split (apply_url u p) = mp_split p"
  using assms by (simp_all add: apply_url_def Let_def)

lemma apply_current:
  assumes "mp_sel p = Some i" "u = Some (id_text i)"
  shows "mp_applied (apply_url u p) = Some i" "mp_closing (apply_url u p) = False"
    "mp_asked (apply_url u p) = mp_asked p" "mp_split (apply_url u p) = mp_split p"
  using assms by (simp_all add: apply_url_def Let_def)

lemma apply_other:
  assumes "mp_sel p \<noteq> Some i" "u = Some (id_text i)" "mp_list p \<noteq> None" "mp_applied p \<noteq> Some i"
  shows "mp_applied (apply_url u p) = Some i" "mp_closing (apply_url u p) = False"
    "mp_asked (apply_url u p) = mp_asked p @ [case row_of i (mp_rows p) of Some e \<Rightarrow> OpenRow e | None \<Rightarrow> FetchMail i]"
    "mp_split (apply_url u p) = (if mp_split p \<and> mp_restored p \<noteq> Some i then False else mp_split p)"
  using assms by (simp_all add: apply_url_def ask_mail_def Let_def)

lemma render_asked:
  "param p \<noteq> None \<or> mp_sel p \<noteq> None \<Longrightarrow> mp_asked (render p) = mp_asked (apply_url (param p) p)"
  by (simp add: render_eq)

lemma render_rest:
  "mp_applied (render p) = mp_applied (apply_url (param p) p)" "mp_closing (render p) = mp_closing (apply_url (param p) p)"
  "mp_split (render p) = mp_split (apply_url (param p) p)"
  by (simp_all add: render_eq)

lemma render_quiet:
  assumes "mp_prev_sel p = mp_sel p"
  shows "mp_back (render p) = mp_back p"
    "mp_url (render p) = (if mp_owns p \<and> mp_url p \<noteq> None \<and> mp_url p \<noteq> Some [] \<and> to_number (the (mp_url p)) = None
       then None else mp_url p)"
  using assms by (auto simp: render_eq mirror_same param_def)

text \<open>
  A mail opened from the list and left with the browser's Back ends where it began: no mail, the
  same address and history, nothing to come back to, and nothing asked for again.
\<close>

theorem open_then_back:
  assumes "mp_owns p" "mp_url p = None" "mp_sel p = None" "mp_prev_sel p = None" "mp_reopening p = None"
    and "q = fold page_step [Selected (Some i), Rerendered] p"
    and "r = fold page_step [WentBack, CloseTimer] q"
  shows "mp_sel q = Some i \<and> mp_url q = Some (id_text i) \<and> mp_back q = None # mp_back p
    \<and> mp_sel r = None \<and> mp_url r = None \<and> mp_back r = mp_back p \<and> mp_asked q = mp_asked p
    \<and> mp_split r = mp_split p \<and> mp_store r = forgetOpenEmail (mp_store q)"
proof -
  define q1 where "q1 = page_step (Selected (Some i)) p"
  have 1: "mp_sel q1 = Some i" "mp_url q1 = Some (id_text i)" "mp_back q1 = None # mp_back p" "mp_asked q1 = mp_asked p"
    "mp_owns q1" "mp_prev_sel q1 = Some i" "mp_reopening q1 = None" "mp_split q1 = mp_split p"
    using assms(1-5)
    by (simp_all add: q1_def page_step_def render_asked render_rest apply_plain param_def)
       (simp_all add: render_eq mirror_open param_def)
  have q: "q = render q1" by (simp add: assms(6) q1_def page_step_def)
  have par: "param q1 = Some (id_text i)" using 1 by (simp add: param_def)
  have 2: "mp_sel q = Some i" "mp_url q = Some (id_text i)" "mp_back q = None # mp_back p" "mp_asked q = mp_asked p"
    "mp_owns q" "mp_prev_sel q = Some i" "mp_reopening q = None" "mp_prev_param q = Some (id_text i)"
    "mp_split q = mp_split p" "mp_kept q = Some (keep_deps q)"
    using 1 par by (simp_all add: q render_quiet render_asked render_rest apply_current)
       (simp add: render_eq keep_deps_def)
  define b where "b = page_step WentBack q"
  define x where "x = q \<lparr>mp_url := None, mp_back := mp_back p\<rparr>"
  have b: "b = render x" using 2 by (simp add: b_def page_step_def x_def)
  have x: "param x = None" "mp_sel x = Some i" "mp_prev_sel x = Some i" "mp_prev_param x = Some (id_text i)" "mp_owns x"
    "mp_back x = mp_back p" "mp_url x = None" "mp_reopening x = None" "mp_split x = mp_split p" "mp_store x = mp_store q"
    "mp_kept x = Some (keep_deps x)"
    using 2 by (simp_all add: x_def param_def keep_deps_def)
  have 3: "mp_closing b" "mp_sel b = Some i" "mp_url b = None" "mp_back b = mp_back p" "mp_owns b" "mp_prev_sel b = Some i"
    "mp_reopening b = None" "mp_split b = mp_split p" "mp_prev_param b = None"
    using x by (simp_all add: b render_rest render_quiet apply_plain)
  have kept: "mp_store b = mp_store q"
    using x by (simp add: b render_eq mirror_same keep_store keep_deps_def)
  define y where "y = b \<lparr>mp_sel := None, mp_closing := False\<rparr>"
  have "r = page_step CloseTimer b" by (simp add: assms(7) b_def)
  then have r: "r = render y" using 3(1) by (simp add: page_step_def y_def)
  have y: "param y = None" "mp_sel y = None" "mp_prev_sel y = Some i" "mp_owns y" "mp_url y = None" "mp_back y = mp_back p"
    "mp_reopening y = None" "mp_split y = mp_split p" "mp_store y = mp_store q"
    using 3 kept by (simp_all add: y_def param_def)
  have "mp_sel r = None" "mp_url r = None" "mp_back r = mp_back p" "mp_split r = mp_split p"
    "mp_store r = forgetOpenEmail (mp_store q)"
    using y by (simp_all add: r render_rest apply_plain) (simp_all add: render_eq mirror_close keep_store)
  then show ?thesis using 2 by simp
qed

text \<open>
  A render between Back and the timer that closes the mail cancels the closing for good: the mail
  stays open under an address that names none.
\<close>

theorem render_cancels_back:
  assumes "mp_owns p" "mp_url p = Some t" "mp_back p = None # us" "mp_sel p = Some i" "mp_prev_sel p = Some i"
    "mp_reopening p = None" "q = page_step WentBack p"
    and "r = fold page_step (Rerendered # CloseTimer # replicate n Rerendered) q"
  shows "mp_url r = None \<and> mp_sel r = Some i \<and> \<not> mp_closing r"
proof -
  define stays where "stays = (\<lambda>x :: mail_page. mp_owns x \<and> mp_url x = None \<and> mp_sel x = Some i \<and> mp_prev_sel x = Some i
      \<and> mp_reopening x = None \<and> mp_prev_param x = None \<and> \<not> mp_closing x)"
  have step: "stays (render x)"
    if "mp_owns x" "mp_url x = None" "mp_sel x = Some i" "mp_prev_sel x = Some i" "mp_reopening x = None" "mp_prev_param x = None"
    for x
  proof -
    have "param x = None" using that by (simp add: param_def)
    then show ?thesis using that by (simp add: stays_def render_rest render_quiet apply_plain)
  qed
  have q: "mp_owns q" "mp_url q = None" "mp_sel q = Some i" "mp_prev_sel q = Some i" "mp_reopening q = None" "mp_prev_param q = None"
    using assms(1-6) by (simp_all add: assms(7) page_step_def render_quiet param_def)
  have 1: "stays (page_step Rerendered q)" using step [OF q] by (simp add: page_step_def)
  have 2: "stays (page_step CloseTimer x)" "stays (page_step Rerendered x)" if "stays x" for x
    using step [of x] that by (simp_all add: page_step_def stays_def)
  have "stays (fold page_step (replicate n Rerendered) x)" if "stays x" for x
    using that by (induction n arbitrary: x) (auto intro: 2)
  then have "stays r" using 2(1) [OF 1] by (simp add: assms(8))
  then show ?thesis by (simp add: stays_def)
qed

text \<open>
  Back from one mail to the one read before, in the split view, reopens it and turns the stored
  layout to the list.
\<close>

theorem back_between_mails_leaves_split:
  assumes "mp_owns p" "mp_sel p = Some j" "mp_prev_sel p = Some j" "mp_url p = Some (id_text j)" "mp_applied p = Some j"
    "mp_back p = Some (id_text i) # us" "i \<noteq> j" "mp_list p \<noteq> None" "mp_split p" "mp_restored p \<noteq> Some i"
    "q = page_step WentBack p"
  shows "\<not> mp_split q \<and> mp_url q = Some (id_text i) \<and> mp_back q = us
    \<and> mp_asked q = mp_asked p @ [case row_of i (mp_rows p) of Some e \<Rightarrow> OpenRow e | None \<Rightarrow> FetchMail i]"
proof -
  define x where "x = p \<lparr>mp_url := Some (id_text i), mp_back := us\<rparr>"
  have x: "param x = Some (id_text i)" "mp_sel x = Some j" "mp_prev_sel x = Some j" "mp_list x \<noteq> None" "mp_applied x = Some j"
    "mp_split x" "mp_restored x \<noteq> Some i" "mp_asked x = mp_asked p" "mp_rows x = mp_rows p" "mp_url x = Some (id_text i)"
    "mp_back x = us" "mp_owns x"
    using assms by (simp_all add: x_def param_def)
  have q: "q = render x" using assms by (simp add: page_step_def x_def)
  have "mp_sel x \<noteq> Some i" "mp_applied x \<noteq> Some i" using x assms(7) by auto
  note other = apply_other [OF this(1) _ x(4) this(2), of "param x"]
  have "\<not> mp_split q" "mp_asked q = mp_asked p @ [case row_of i (mp_rows p) of Some e \<Rightarrow> OpenRow e | None \<Rightarrow> FetchMail i]"
    using x other by (simp_all add: q render_rest render_asked)
  moreover have "mp_url q = Some (id_text i)" "mp_back q = us" using x by (simp_all add: q render_quiet)
  ultimately show ?thesis by simp
qed

text \<open>
  The mail an address names is asked for once, as the row of its conversation where the list has
  one; later renders, lists and layouts do not ask again.
\<close>

definition quiet_event :: "page_event \<Rightarrow> bool" where
  "quiet_event e \<longleftrightarrow> (case e of ListLoaded k rows \<Rightarrow> True | Settled \<Rightarrow> True | LayoutChosen a b \<Rightarrow> True
     | ViewChosen a f \<Rightarrow> True | Rerendered \<Rightarrow> True | CloseTimer \<Rightarrow> True | _ \<Rightarrow> False)"

theorem named_mail_asked_once:
  assumes "mp_owns p" "mp_url p = Some (id_text i)" "mp_sel p \<noteq> Some i" "mp_prev_sel p = mp_sel p" "mp_applied p \<noteq> Some i"
    "q = page_step (ListLoaded k rows) p" "list_all quiet_event es"
  shows "mp_asked q = mp_asked p @ [case row_of i rows of Some e \<Rightarrow> OpenRow e | None \<Rightarrow> FetchMail i]
    \<and> mp_asked (fold page_step es q) = mp_asked q \<and> mp_url (fold page_step es q) = Some (id_text i)"
proof -
  define x where "x = p \<lparr>mp_list := Some k, mp_rows := rows\<rparr>"
  have x: "param x = Some (id_text i)" "mp_sel x \<noteq> Some i" "mp_prev_sel x = mp_sel x" "mp_list x \<noteq> None"
    "mp_applied x \<noteq> Some i" "mp_asked x = mp_asked p" "mp_rows x = rows" "mp_url x = Some (id_text i)" "mp_owns x"
    using assms by (simp_all add: x_def param_def)
  define holds where "holds = (\<lambda>y :: mail_page. mp_owns y \<and> mp_url y = Some (id_text i) \<and> mp_sel y \<noteq> Some i \<and> mp_prev_sel y = mp_sel y
      \<and> mp_applied y = Some i \<and> \<not> mp_closing y \<and> mp_asked y = mp_asked q)"
  have q: "q = render x" by (simp add: assms(6) page_step_def x_def)
  then have hq: "holds q" using x
    by (simp add: holds_def render_rest render_quiet apply_other)
  have step: "holds (render y)" if "holds y" for y
  proof -
    have "param y = Some (id_text i)" using that by (simp add: holds_def param_def)
    moreover from this have "mp_applied (apply_url (param y) y) = Some i" "mp_asked (apply_url (param y) y) = mp_asked y"
      "\<not> mp_closing (apply_url (param y) y)"
      using that by (simp_all add: apply_url_def holds_def Let_def)
    ultimately show ?thesis using that by (simp add: holds_def render_rest render_asked render_quiet)
  qed
  have "holds (page_update e y)" if "holds y" "quiet_event e" for e y
    using that by (cases e) (simp_all add: quiet_event_def holds_def)
  then have "holds (page_step e y)" if "holds y" "quiet_event e" for e y
    using that step by (simp add: page_step_def)
  then have "holds (fold page_step es y)" if "holds y" for y
    using assms(7) that by (induction es arbitrary: y) auto
  then have "holds (fold page_step es q)" using hq by simp
  moreover have "mp_asked q = mp_asked p @ [case row_of i rows of Some e \<Rightarrow> OpenRow e | None \<Rightarrow> FetchMail i]"
    using x by (simp add: q render_asked apply_other)
  ultimately show ?thesis by (simp add: holds_def)
qed

text \<open>A mail that cannot be fetched is given up: no wait, no address, nothing to come back to.\<close>

theorem missing_mail_given_up:
  assumes "mp_owns p" "mp_sel p = None" "mp_prev_sel p = None" "mp_user p = Some u" "q = page_step (Fetched i (Throw e)) p"
    "usable (mp_store p)" "\<not> mp_side p"
  shows "mp_reopening q = None \<and> mp_url q = None \<and> readOpenEmail (Some v) (mp_store q) = None \<and> mp_asked q = mp_asked p
    \<and> \<not> waitingToReopen \<lparr>pn_files = False, pn_split = s, pn_in_pane = c, pn_narrow = n, pn_mail = (mp_sel q \<noteq> None), pn_file = False,
        pn_reopening = (mp_reopening q \<noteq> None)\<rparr>"
proof -
  define x where "x = p \<lparr>mp_store := forgetOpenEmail (mp_store p), mp_reopening := None, mp_url := None\<rparr>"
  have x: "param x = None" "mp_sel x = None" "mp_prev_sel x = None" "mp_reopening x = None" "mp_url x = None" "mp_owns x"
    "mp_store x = forgetOpenEmail (mp_store p)" "mp_asked x = mp_asked p" "\<not> mp_side x"
    using assms by (simp_all add: x_def param_def)
  have q: "q = render x"
    using assms by (simp add: page_step_def fetched_mail_def forget_mail_def replace_url_def x_def Let_def)
  have "mp_reopening q = None" "mp_url q = None" "mp_sel q = None" using x by (simp_all add: q render_quiet)
  moreover have "mp_store q = forgetOpenEmail (mp_store p)"
    using x by (simp add: q render_eq mirror_same keep_store)
  moreover have "mp_asked q = mp_asked p" using x by (simp add: q render_eq mirror_same apply_plain auto_open_def)
  moreover have "readOpenEmail (Some v) (forgetOpenEmail (mp_store p)) = None"
    using mail_place.forgotten [OF assms(6)] by (simp add: readOpenEmail_def forgetOpenEmail_def)
  ultimately show ?thesis by (simp add: waitingToReopen_def)
qed

text \<open>Undo is offered for eight seconds, in the view the mail left, and can be taken once.\<close>

theorem undo_offered_once:
  assumes "tb_ids b \<noteq> []"
  shows "((\<exists>x. notice_shown v (notice_expires s (offerUndo t view b n)) = Some x \<and> nt_undo x = Some b) \<longleftrightarrow> v = view \<and> s < t + 8000)
    \<and> (\<exists>x. begin_undo (offerUndo t view b n) = (None, Some (b, x)) \<and> fst (begin_undo (finish_undo s v x failed None)) = finish_undo s v x failed None
      \<and> snd (begin_undo (finish_undo s v x failed None)) = None)"
  using assms by (auto simp: offerUndo_def notice_shown_def notice_expires_def begin_undo_def finish_undo_def Let_def)

lemma poll_runs:
  "po_timer (fold visibility_changed hs (mount_poll h)) = (\<not> last (h # hs))
   \<and> po_wakes (fold visibility_changed hs (mount_poll h)) = length (filter (\<lambda>x. \<not> x) (h # hs))"
proof (induction hs rule: rev_induct)
  case Nil
  then show ?case by (simp add: mount_poll_def start_poll_def Let_def)
next
  case (snoc x xs)
  then show ?case by (cases x) (simp_all add: visibility_changed_def start_poll_def stop_poll_def)
qed

text \<open>
  A mailbox is dropped from the view only once the accounts are known not to hold it; a new name
  shows at once whatever the server says; the poll has one timer, none while hidden, and wakes
  the sync whenever the page is seen.
\<close>

theorem account_and_poll_rules:
  "(visible_account loaded as (Some a) = None \<longleftrightarrow> loaded \<and> a \<notin> sa_id ` set as)
   \<and> map sa_id (displayedAccounts names as) = map sa_id as
   \<and> map sa_name (filter (\<lambda>x. sa_id x = i) (displayedAccounts (renameAccount i (Some (c # n)) names) as))
       = map (\<lambda>x. Some (c # n)) (filter (\<lambda>x. sa_id x = i) as)
   \<and> (po_timer (fold visibility_changed hs (mount_poll h)) \<longleftrightarrow> \<not> last (h # hs))
   \<and> po_wakes (fold visibility_changed hs (mount_poll h)) = length (filter (\<lambda>x. \<not> x) (h # hs))"
proof (intro conjI)
  show "visible_account loaded as (Some a) = None \<longleftrightarrow> loaded \<and> a \<notin> sa_id ` set as" by (simp add: visible_account_def)
  show "map sa_id (displayedAccounts names as) = map sa_id as" by (simp add: displayedAccounts_def comp_def)
  show "map sa_name (filter (\<lambda>x. sa_id x = i) (displayedAccounts (renameAccount i (Some (c # n)) names) as))
       = map (\<lambda>x. Some (c # n)) (filter (\<lambda>x. sa_id x = i) as)"
    by (induction as) (simp_all add: displayedAccounts_def renameAccount_def)
  show "po_timer (fold visibility_changed hs (mount_poll h)) \<longleftrightarrow> \<not> last (h # hs)"
    "po_wakes (fold visibility_changed hs (mount_poll h)) = length (filter (\<lambda>x. \<not> x) (h # hs))"
    using poll_runs [of hs h] by simp_all
qed


text \<open>
  The mail on the screen is the one a later visit comes back to, from its account and folder,
  as long as no address named a mail that could not be fetched.
\<close>

definition left_mail :: "mail_page \<Rightarrow> nat \<Rightarrow> int \<Rightarrow> open_mail" where
  "left_mail p u i = \<lparr>om_user = u, om_email = id_text i, om_account = map_option id_text (mp_account p), om_folder = mp_folder p\<rparr>"

definition kept_ok :: "mail_page \<Rightarrow> bool" where
  "kept_ok p \<longleftrightarrow> usable (mp_store p) \<and> mp_kept p = Some (keep_deps p)
     \<and> (\<forall>i u. mp_sel p = Some i \<and> mp_user p = Some u
          \<longrightarrow> (\<exists>st. usable st \<and> mp_store p = rememberOpenEmail (left_mail p u i) st))"

definition no_failure :: "page_event \<Rightarrow> bool" where
  "no_failure e \<longleftrightarrow> (\<forall>i x. e \<noteq> Fetched i (Throw x))"

lemma session_usable [simp]: "usable (rememberOpenEmail q st) = usable st" "usable (forgetOpenEmail st) = usable st"
  by (simp_all add: rememberOpenEmail_def forgetOpenEmail_def put_json_def set_item_def remove_item_def)

lemma change_store: "no_failure e \<Longrightarrow> mp_store (page_update e p) = mp_store p \<and> mp_kept (page_update e p) = mp_kept p"
proof (cases e)
  case (Fetched i r)
  moreover assume "no_failure e"
  ultimately obtain m where "r = Ok m" by (cases r) (auto simp: no_failure_def)
  then show ?thesis using Fetched by (simp add: fetched_mail_def)
next
  case WentBack
  then show ?thesis by (cases "mp_back p") simp_all
qed (simp_all add: push_url_def)

lemma mirror_store: "mp_sel p \<noteq> None \<Longrightarrow> mp_store (mirror_url u p) = mp_store p"
  by (auto simp: mirror_url_def push_url_def Let_def)

lemma mirror_usable: "usable (mp_store (mirror_url u p)) = usable (mp_store p)"
  by (simp add: mirror_url_def push_url_def replace_url_def forget_mail_def Let_def split: option.split)

lemma render_kept_ok:
  assumes "usable (mp_store p)"
    and "mp_kept p = Some (keep_deps p) \<Longrightarrow> mp_sel p = Some i \<Longrightarrow> mp_user p = Some u
      \<Longrightarrow> \<exists>st. usable st \<and> mp_store p = rememberOpenEmail (left_mail p u i) st"
    and "mp_sel p = Some i" "mp_user p = Some u"
  shows "\<exists>st. usable st \<and> mp_store (render p) = rememberOpenEmail (left_mail (render p) u i) st"
proof -
  define q where "q = mirror_url (param p) (apply_url (param p) p)"
  have q: "mp_sel q = Some i" "mp_user q = Some u" "mp_store q = mp_store p" "mp_kept q = mp_kept p" "keep_deps q = keep_deps p"
    "left_mail q u i = left_mail p u i"
    using assms(3,4) by (simp_all add: q_def mirror_store keep_deps_def left_mail_def)
  have "left_mail (render p) u i = left_mail p u i" by (simp add: left_mail_def)
  moreover have "mp_store (render p) = mp_store (keep_mail q)" by (simp add: render_eq q_def)
  moreover have "\<exists>st. usable st \<and> mp_store (keep_mail q) = rememberOpenEmail (left_mail p u i) st"
    using assms q by (cases "mp_kept p = Some (keep_deps p)") (auto simp: keep_store left_mail_def)
  ultimately show ?thesis by simp
qed

lemma keep_deps_render [simp]: "keep_deps (render p) = keep_deps p" "mp_kept (render p) = Some (keep_deps p)"
  by (simp_all add: keep_deps_def) (simp add: render_eq keep_deps_def)

lemma render_usable: "usable (mp_store (render p)) = usable (mp_store p)"
  by (simp add: render_eq keep_store mirror_usable split: option.split)

lemma page_step_kept:
  assumes "kept_ok p" "no_failure e"
  shows "kept_ok (page_step e p)"
proof -
  define x where "x = page_update e p"
  have x: "mp_store x = mp_store p" "mp_kept x = mp_kept p" using change_store [OF assms(2)] by (simp_all add: x_def)
  have "\<exists>st. usable st \<and> mp_store x = rememberOpenEmail (left_mail x u i) st"
    if "mp_kept x = Some (keep_deps x)" "mp_sel x = Some i" "mp_user x = Some u" for i u
  proof -
    have "keep_deps p = keep_deps x" using that(1) x assms(1) by (simp add: kept_ok_def)
    then have "mp_sel p = Some i" "mp_user p = Some u" "left_mail x u i = left_mail p u i"
      using that by (simp_all add: keep_deps_def left_mail_def)
    then show ?thesis using assms(1) x by (simp add: kept_ok_def)
  qed
  then have "\<exists>st. usable st \<and> mp_store (render x) = rememberOpenEmail (left_mail (render x) u i) st"
    if "mp_sel x = Some i" "mp_user x = Some u" for i u
    using render_kept_ok [of x i u] that assms(1) x by (simp add: kept_ok_def)
  moreover have "usable (mp_store (render x))" using assms(1) x by (simp add: render_usable kept_ok_def)
  ultimately show ?thesis by (simp add: kept_ok_def page_step_def x_def [symmetric])
qed

lemma mount_kept:
  "usable st \<Longrightarrow> kept_ok (mount_mail_page user owns par back' saved connecting split' st)"
proof -
  assume u: "usable st"
  define p where "p = restore_url (open_mail_page user owns par back' saved connecting split' st)"
  have p: "mp_sel p = None" "mp_prev_sel p = None" "mp_store p = st"
    by (simp_all add: p_def restore_url_def open_mail_page_def replace_url_def Let_def split: option.split)
  have "kept_ok (auto_open w (keep_mail (mirror_url w (apply_url w p))))" for w
    using p u by (simp add: kept_ok_def mirror_same keep_store) (simp add: keep_deps_def)
  then show ?thesis by (simp add: mount_mail_page_def p_def [symmetric] Let_def)
qed

lemma number_text_id: "0 \<le> i \<Longrightarrow> number_text (id_text i)"
  using json_ok_nat [of "nat i"] by (simp add: json_of_nat_def number_text_def id_text_def)



section \<open>Examples\<close>

definition demo_page :: mail_page where
  "demo_page = \<lparr>mp_user = Some 3, mp_owns = True, mp_url = None, mp_back = [None], mp_restored = None, mp_reopening = None,
     mp_sel = None, mp_account = None, mp_folder = ''inbox'', mp_list = Some ''k'', mp_rows = [], mp_split = True, mp_side = False,
     mp_applied = None, mp_prev_param = None, mp_prev_sel = None, mp_kept = None, mp_auto = None, mp_closing = False,
     mp_asked = [], mp_store = empty_tab\<rparr>"

lemma demo_page_sel:
  "mp_owns demo_page" "mp_url demo_page = None" "mp_sel demo_page = None" "mp_prev_sel demo_page = None"
  "mp_reopening demo_page = None" "mp_asked demo_page = []" "mp_split demo_page" "mp_back demo_page = [None]"
  "mp_user demo_page = Some 3" "mp_store demo_page = empty_tab" "\<not> mp_side demo_page"
  by (simp_all add: demo_page_def)

theorem widths_stay_in_bounds_witness:
  "w_list (fold dragged [DragSidebar 900, DragList 1000 900] (initial_widths (Some ''12'') None)) \<le> 620"
  by (rule widths_stay_in_bounds [OF refl, THEN conjunct2, THEN conjunct2, THEN conjunct2, THEN conjunct1])

theorem address_follows_open_mail_witness:
  "mp_url (page_step (Selected (Some 7)) demo_page) = Some (id_text 7)"
  using address_follows_open_mail [OF _ refl, of demo_page "Some 7"] by (simp add: demo_page_sel)

theorem open_then_back_witness:
  "mp_sel (fold page_step [WentBack, CloseTimer] (fold page_step [Selected (Some 7), Rerendered] demo_page)) = None"
  using open_then_back [OF demo_page_sel(1-5) refl refl, where i = 7] by simp

theorem render_cancels_back_witness:
  "\<exists>p. mp_url (page_step WentBack p) = None
     \<and> mp_sel (fold page_step [Rerendered, CloseTimer, Rerendered] (page_step WentBack p)) = Some 7"
proof -
  define p where "p = demo_page \<lparr>mp_url := Some (id_text 7), mp_sel := Some 7, mp_prev_sel := Some 7\<rparr>"
  have p: "mp_owns p" "mp_url p = Some (id_text 7)" "mp_back p = None # []" "mp_sel p = Some 7" "mp_prev_sel p = Some 7"
    "mp_reopening p = None" by (simp_all add: p_def demo_page_sel)
  have "mp_url (page_step WentBack p) = None" using p by (simp add: page_step_def render_quiet)
  moreover have "mp_sel (fold page_step (Rerendered # CloseTimer # replicate 1 Rerendered) (page_step WentBack p)) = Some 7"
    using render_cancels_back [OF p refl refl] by blast
  ultimately show ?thesis by (intro exI [of _ p]) simp
qed

theorem back_between_mails_leaves_split_witness:
  "\<exists>p. mp_split p \<and> \<not> mp_split (page_step WentBack p) \<and> mp_asked (page_step WentBack p) = [FetchMail 5]"
proof -
  define p where "p = demo_page \<lparr>mp_url := Some (id_text 7), mp_sel := Some 7, mp_prev_sel := Some 7, mp_applied := Some 7,
     mp_back := [Some (id_text 5), None]\<rparr>"
  have p: "mp_owns p" "mp_sel p = Some 7" "mp_prev_sel p = Some 7" "mp_url p = Some (id_text 7)" "mp_applied p = Some 7"
    "mp_back p = Some (id_text 5) # [None]" "(5 :: int) \<noteq> 7" "mp_list p \<noteq> None" "mp_split p" "mp_restored p \<noteq> Some 5"
    "mp_asked p = []" "mp_rows p = []"
    by (simp_all add: p_def demo_page_def)
  show ?thesis using back_between_mails_leaves_split [OF p(1-10) refl] p by (intro exI [of _ p]) (simp add: row_of_def)
qed

theorem named_mail_asked_once_witness:
  "mp_asked (fold page_step [Rerendered, ListLoaded ''l'' []]
     (page_step (ListLoaded ''k'' []) (demo_page \<lparr>mp_url := Some (id_text 7)\<rparr>))) = [FetchMail 7]"
proof -
  let ?p = "demo_page \<lparr>mp_url := Some (id_text 7)\<rparr>"
  have p: "mp_owns ?p" "mp_url ?p = Some (id_text 7)" "mp_sel ?p \<noteq> Some 7" "mp_prev_sel ?p = mp_sel ?p" "mp_applied ?p \<noteq> Some 7"
    "mp_asked ?p = []"
    by (simp_all add: demo_page_def)
  have "list_all quiet_event [Rerendered, ListLoaded ''l'' []]" by (simp add: quiet_event_def)
  from named_mail_asked_once [OF p(1-5) refl this, where k = "''k''" and rows = "[]"] show ?thesis
    by (simp only: p(6)) (simp add: row_of_def)
qed

theorem missing_mail_given_up_witness:
  "mp_reopening (page_step (Fetched 7 (Throw TypeError)) demo_page) = None"
  using missing_mail_given_up [OF demo_page_sel(1,3,4,9) refl _ demo_page_sel(11), where i = 7 and e = TypeError]
  by (simp add: demo_page_sel(10) empty_tab_def)

theorem undo_offered_once_witness:
  "\<exists>x. begin_undo (offerUndo 0 (None, ''inbox'') \<lparr>tb_rows = [], tb_ids = [4]\<rparr> None) = (None, Some (\<lparr>tb_rows = [], tb_ids = [4]\<rparr>, x))"
proof -
  have "tb_ids \<lparr>tb_rows = [], tb_ids = [4]\<rparr> \<noteq> []" by simp
  from conjunct2 [OF undo_offered_once [OF this, where t = 0 and view = "(None, ''inbox'')" and n = None]]
  show ?thesis by blast
qed


end
