(* ===== verification/Meeting_Form.thy ===== *)
theory Meeting_Form
  imports Time_Input Event_Layout Api_Client
begin

text \<open>
  Scheduling a meeting: the form, its time pickers and the calendars of \<open>scheduler/Scheduler.tsx\<close>
  and \<open>scheduler/TimeSelect.tsx\<close>. The clock, the printed times, the answers to the dialogs and the
  server's answers are arguments. A time the code reads as \<open>NaN\<close> is \<open>None\<close>: every comparison
  with it is false.
\<close>

section \<open>Meetings and calendars\<close>

record calendar_meeting =
  mt_id :: int
  mt_title :: string
  mt_date :: string
  mt_start :: "nat option"
  mt_end :: "nat option"
  mt_people :: "string list"
  mt_link :: "string option"
  mt_source :: string

record api_meeting =
  am_id :: int
  am_title :: string
  am_date :: string
  am_start :: string
  am_end :: string
  am_people :: "string list option"
  am_link :: "string option"
  am_source :: "string option"

record calendar_item =
  ci_id :: string
  ci_name :: string
  ci_color :: string
  ci_visible :: bool

definition DEFAULT_CALENDARS :: "calendar_item list" where
  "DEFAULT_CALENDARS =
     [\<lparr>ci_id = ''office'', ci_name = ''Office Calendar'', ci_color = ''#1a73e8'', ci_visible = True\<rparr>,
      \<lparr>ci_id = ''personal'', ci_name = ''Personal Calendar'', ci_color = ''#34a853'', ci_visible = True\<rparr>,
      \<lparr>ci_id = ''holiday'', ci_name = ''Holiday Calendar'', ci_color = ''#fbbc04'', ci_visible = True\<rparr>]"

definition CALENDAR_COLORS :: "string list" where
  "CALENDAR_COLORS = [''#1a73e8'', ''#34a853'', ''#fbbc04'', ''#a142f4'', ''#fa7b17'', ''#24c1e0'', ''#e8710a'']"

text \<open>The fields \<open>JSON.stringify\<close> compares.\<close>

record meeting_draft =
  dr_title :: string
  dr_date :: string
  dr_start :: string
  dr_end :: string
  dr_calendar :: string
  dr_people :: "string list"

record meeting_payload =
  py_title :: string
  py_date :: string
  py_start :: "nat option"
  py_end :: "nat option"
  py_people :: "string list"

datatype meeting_request = CreateMeeting meeting_payload | UpdateMeeting int meeting_payload | DeleteMeeting int

record scheduler =
  sc_events :: "calendar_meeting list"
  sc_calendars :: "calendar_item list"
  sc_assigned :: "int \<rightharpoonup> string"
  sc_modal :: bool
  sc_editing :: "calendar_meeting option"
  sc_pristine :: "meeting_draft option"
  sc_draft :: meeting_draft
  sc_email :: string
  sc_new_calendar :: string
  sc_alerts :: "string list"
  sc_requests :: "meeting_request list"

definition meeting_of :: "api_meeting \<Rightarrow> calendar_meeting" where
  "meeting_of m = \<lparr>mt_id = am_id m, mt_title = am_title m, mt_date = am_date m, mt_start = fromTime (am_start m),
     mt_end = fromTime (am_end m), mt_people = nullish (am_people m) [], mt_link = am_link m,
     mt_source = nullish (am_source m) ''wayve''\<rparr>"

definition meetings_answered :: "api_meeting list \<Rightarrow> scheduler \<Rightarrow> scheduler" where
  "meetings_answered ms s = s \<lparr>sc_events := map meeting_of ms\<rparr>"

definition getCalendarIdForEvent :: "scheduler \<Rightarrow> calendar_meeting \<Rightarrow> string" where
  "getCalendarIdForEvent s e = (if mt_source e = ''google'' then ''holiday'' else nullish (sc_assigned s (mt_id e)) ''office'')"

definition getCalendarForEvent :: "scheduler \<Rightarrow> calendar_meeting \<Rightarrow> calendar_item option" where
  "getCalendarForEvent s e =
     (case find (\<lambda>c. ci_id c = getCalendarIdForEvent s e) (sc_calendars s) of
        Some c \<Rightarrow> Some c
      | None \<Rightarrow> (case sc_calendars s of [] \<Rightarrow> None | c # cs \<Rightarrow> Some c))"

definition event_visible :: "scheduler \<Rightarrow> calendar_meeting \<Rightarrow> bool" where
  "event_visible s e = (case getCalendarForEvent s e of None \<Rightarrow> True | Some c \<Rightarrow> ci_visible c)"

definition event_text :: "calendar_meeting \<Rightarrow> string" where
  "event_text e = toLowerCase (join '' '' ([mt_title e, mt_date e, mt_source e, nullish (mt_link e) []] @ mt_people e))"

definition calendarVisibleEvents :: "string \<Rightarrow> scheduler \<Rightarrow> calendar_meeting list" where
  "calendarVisibleEvents query s =
     filter (event_visible s)
       (if query = [] then sc_events s else filter (\<lambda>e. includes_text (event_text e) query) (sc_events s))"

text \<open>\<open>name.toLowerCase().replace(/[^a-z0-9]+/g, "-")\<close>\<close>

definition calendar_slug_char :: "char \<Rightarrow> bool" where
  "calendar_slug_char c \<longleftrightarrow> is_digit c \<or> (97 \<le> code c \<and> code c \<le> 122)"

fun slug :: "bool \<Rightarrow> string \<Rightarrow> string" where
  "slug b [] = []"
| "slug b (c # s) =
     (if calendar_slug_char c then c # slug False s else if b then slug True s else CHR ''-'' # slug True s)"

definition createCalendar :: "string \<Rightarrow> scheduler \<Rightarrow> scheduler" where
  "createCalendar now s =
     (let name = trim (sc_new_calendar s);
          i = slug False (toLowerCase name) @ ''-'' @ now;
          color = CALENDAR_COLORS ! (length (sc_calendars s) mod length CALENDAR_COLORS)
      in if name = [] then s
         else s \<lparr>sc_calendars := sc_calendars s @ [\<lparr>ci_id = i, ci_name = name, ci_color = color, ci_visible = True\<rparr>],
                 sc_draft := (sc_draft s) \<lparr>dr_calendar := i\<rparr>, sc_new_calendar := []\<rparr>)"

definition toggleCalendar :: "string \<Rightarrow> scheduler \<Rightarrow> scheduler" where
  "toggleCalendar i s = s \<lparr>sc_calendars :=
     map (\<lambda>c. if ci_id c = i then c \<lparr>ci_visible := \<not> ci_visible c\<rparr> else c) (sc_calendars s)\<rparr>"

section \<open>Participants\<close>

definition valid_email :: "string \<Rightarrow> bool" where
  "valid_email e \<longleftrightarrow> CHR ''@'' \<in> set e \<and> CHR ''.'' \<in> set e"

definition alert :: "string \<Rightarrow> scheduler \<Rightarrow> scheduler" where
  "alert m s = s \<lparr>sc_alerts := sc_alerts s @ [m]\<rparr>"

definition with_person :: "string \<Rightarrow> string list \<Rightarrow> string list" where
  "with_person e ps = (if e \<in> set ps then ps else ps @ [e])"

definition addParticipant :: "string option \<Rightarrow> scheduler \<Rightarrow> scheduler" where
  "addParticipant explicit s =
     (let email = toLowerCase (trim (nullish explicit (sc_email s))) in
      if email = [] then s
      else if \<not> valid_email email then alert ''Enter a valid email'' s
      else s \<lparr>sc_draft := (sc_draft s) \<lparr>dr_people := with_person email (dr_people (sc_draft s))\<rparr>, sc_email := []\<rparr>)"

definition removeParticipant :: "string \<Rightarrow> scheduler \<Rightarrow> scheduler" where
  "removeParticipant e s =
     s \<lparr>sc_draft := (sc_draft s) \<lparr>dr_people := filter (\<lambda>p. p \<noteq> e) (dr_people (sc_draft s))\<rparr>\<rparr>"

definition participantSuggestions :: "string list \<Rightarrow> scheduler \<Rightarrow> string list" where
  "participantSuggestions directory s =
     (let query = toLowerCase (trim (sc_email s));
          chosen = toLowerCase ` set (dr_people (sc_draft s));
          pool = filter (\<lambda>u. toLowerCase u \<notin> chosen) directory;
          matched = (if query = [] then pool else filter (\<lambda>u. includes_text (toLowerCase u) query) pool)
      in take 8 matched)"

section \<open>The form\<close>

definition snap15 :: "nat \<Rightarrow> string" where
  "snap15 mins = toTime (min ((mins + 7) div 15 * 15) (23 * 60 + 45))"

definition empty_draft :: meeting_draft where
  "empty_draft = \<lparr>dr_title = [], dr_date = [], dr_start = ''09:00'', dr_end = ''10:00'', dr_calendar = ''office'', dr_people = []\<rparr>"

definition resetModal :: "scheduler \<Rightarrow> scheduler" where
  "resetModal s = s \<lparr>sc_modal := False, sc_editing := None, sc_pristine := None,
     sc_draft := (sc_draft s) \<lparr>dr_title := [], dr_people := [], dr_calendar := ''office''\<rparr>\<rparr>"

text \<open>\<open>toTime(NaN)\<close> prints both parts as \<open>NaN\<close>.\<close>

definition time_text :: "nat option \<Rightarrow> string" where
  "time_text t = (case t of Some n \<Rightarrow> toTime n | None \<Rightarrow> ''NaN:NaN'')"

definition seeded :: "scheduler \<Rightarrow> calendar_meeting \<Rightarrow> meeting_draft" where
  "seeded s e = \<lparr>dr_title = mt_title e, dr_date = mt_date e, dr_start = time_text (mt_start e), dr_end = time_text (mt_end e),
     dr_calendar = getCalendarIdForEvent s e, dr_people = mt_people e\<rparr>"

definition openEdit :: "calendar_meeting \<Rightarrow> scheduler \<Rightarrow> scheduler" where
  "openEdit e s =
     s \<lparr>sc_editing := Some e, sc_pristine := Some (seeded s e), sc_draft := seeded s e, sc_email := [], sc_modal := True\<rparr>"

definition eventDirty :: "scheduler \<Rightarrow> bool" where
  "eventDirty s \<longleftrightarrow> sc_pristine s = None \<or> sc_pristine s \<noteq> Some (sc_draft s)"

text \<open>\<open>now\<close> is minutes of the day, \<open>today\<close> the date.\<close>

definition openCreate_meeting :: "string option \<Rightarrow> nat option \<Rightarrow> string \<Rightarrow> nat \<Rightarrow> scheduler \<Rightarrow> scheduler" where
  "openCreate_meeting date startTime today now s =
     (let base = snap15 (nullish startTime now)
      in s \<lparr>sc_editing := None, sc_pristine := None, sc_email := [], sc_modal := True,
            sc_draft := \<lparr>dr_title = [], dr_date = nullish date today, dr_start = base,
              dr_end = nullish (addMinutesToTime base (if startTime = None then 60 else 30)) [],
              dr_calendar = (case find ci_visible (sc_calendars s) of Some c \<Rightarrow> ci_id c | None \<Rightarrow> ''office''),
              dr_people = []\<rparr>\<rparr>)"

definition less_nan :: "nat option \<Rightarrow> nat option \<Rightarrow> bool" where
  "less_nan a b = (case (a, b) of (Some x, Some y) \<Rightarrow> x < y | _ \<Rightarrow> False)"

definition le_nan :: "nat option \<Rightarrow> nat option \<Rightarrow> bool" where
  "le_nan a b = (case (a, b) of (Some x, Some y) \<Rightarrow> x \<le> y | _ \<Rightarrow> False)"

text \<open>\<open>a < b\<close> on strings\<close>

fun text_less :: "string \<Rightarrow> string \<Rightarrow> bool" where
  "text_less [] [] \<longleftrightarrow> False"
| "text_less [] (d # t) \<longleftrightarrow> True"
| "text_less (c # s) [] \<longleftrightarrow> False"
| "text_less (c # s) (d # t) \<longleftrightarrow> code c < code d \<or> (c = d \<and> text_less s t)"

definition pick_date :: "string \<Rightarrow> string \<Rightarrow> scheduler \<Rightarrow> scheduler" where
  "pick_date today v s =
     s \<lparr>sc_draft := (sc_draft s) \<lparr>dr_date :=
        (if sc_editing s = None \<and> v \<noteq> [] \<and> text_less v today then today else v)\<rparr>\<rparr>"

definition pick_start :: "string \<Rightarrow> scheduler \<Rightarrow> scheduler" where
  "pick_start v s =
     s \<lparr>sc_draft := (sc_draft s) \<lparr>dr_start := v,
        dr_end := (if le_nan (toMinutes (dr_end (sc_draft s))) (toMinutes v) then nullish (addMinutesToTime v 30) []
                   else dr_end (sc_draft s))\<rparr>\<rparr>"

definition pick_end :: "string \<Rightarrow> scheduler \<Rightarrow> scheduler" where
  "pick_end v s = s \<lparr>sc_draft := (sc_draft s) \<lparr>dr_end := v\<rparr>\<rparr>"

section \<open>Saving\<close>

definition save_refused :: "string \<Rightarrow> nat \<Rightarrow> scheduler \<Rightarrow> string option" where
  "save_refused today now s =
     (let a = toMinutes (dr_start (sc_draft s)); b = toMinutes (dr_end (sc_draft s)); d = dr_date (sc_draft s) in
      if sc_editing s = None \<and> (text_less d today \<or> (d = today \<and> le_nan a (Some now)))
      then Some ''Cannot create a meeting in the past''
      else if le_nan b a then Some ''End time must be after start time''
      else None)"

definition conflicts :: "scheduler \<Rightarrow> calendar_meeting list" where
  "conflicts s =
     (let a = toMinutes (dr_start (sc_draft s)); b = toMinutes (dr_end (sc_draft s))
      in filter (\<lambda>e. \<not> (case sc_editing s of Some x \<Rightarrow> mt_id e = mt_id x | None \<Rightarrow> False) \<and> mt_date e = dr_date (sc_draft s)
                  \<and> less_nan a (mt_end e) \<and> less_nan (mt_start e) b) (sc_events s))"

definition finalParticipants :: "scheduler \<Rightarrow> string list" where
  "finalParticipants s =
     (let email = toLowerCase (trim (sc_email s))
      in if email \<noteq> [] \<and> valid_email email then with_person email (dr_people (sc_draft s)) else dr_people (sc_draft s))"

definition save_payload :: "scheduler \<Rightarrow> meeting_payload" where
  "save_payload s = \<lparr>py_title = dr_title (sc_draft s), py_date = dr_date (sc_draft s),
     py_start = toMinutes (dr_start (sc_draft s)), py_end = toMinutes (dr_end (sc_draft s)), py_people = finalParticipants s\<rparr>"

definition save_meeting_request :: "scheduler \<Rightarrow> meeting_request" where
  "save_meeting_request s = (case sc_editing s of Some e \<Rightarrow> UpdateMeeting (mt_id e) (save_payload s) | None \<Rightarrow> CreateMeeting (save_payload s))"

text \<open>\<open>proceed\<close> answers the question about conflicts.\<close>

definition begin_save_meeting :: "string \<Rightarrow> nat \<Rightarrow> bool \<Rightarrow> scheduler \<Rightarrow> scheduler" where
  "begin_save_meeting today now proceed s =
     (case save_refused today now s of
        Some m \<Rightarrow> alert m s
      | None \<Rightarrow> if conflicts s \<noteq> [] \<and> \<not> proceed then s else s \<lparr>sc_requests := sc_requests s @ [save_meeting_request s]\<rparr>)"

text \<open>The answer: the id of a created meeting, and whether its invitations went out.\<close>

record save_answer =
  sv_id :: "int option"
  sv_invited :: "bool option"

definition warnIfInvitesFailed :: "save_answer \<Rightarrow> scheduler \<Rightarrow> scheduler" where
  "warnIfInvitesFailed r s =
     (if sv_invited r = Some False
      then alert ''Meeting saved, but the invite emails could not be sent. Participants have not been notified.'' s else s)"

definition save_meeting_answered :: "calendar_meeting option \<Rightarrow> string \<Rightarrow> save_answer result \<Rightarrow> scheduler \<Rightarrow> scheduler" where
  "save_meeting_answered edited calendar r s =
     (case r of
        Throw e \<Rightarrow> s
      | Ok a \<Rightarrow>
          (let i = (case edited of Some e \<Rightarrow> Some (mt_id e) | None \<Rightarrow> (case sv_id a of Some n \<Rightarrow> if n = 0 then None else Some n | None \<Rightarrow> None))
           in resetModal (warnIfInvitesFailed a
                (case i of Some n \<Rightarrow> s \<lparr>sc_assigned := (sc_assigned s)(n \<mapsto> calendar)\<rparr> | None \<Rightarrow> s))))"

definition begin_delete_meeting :: "bool \<Rightarrow> scheduler \<Rightarrow> scheduler" where
  "begin_delete_meeting confirmed s =
     (case sc_editing s of
        Some e \<Rightarrow> if confirmed then s \<lparr>sc_requests := sc_requests s @ [DeleteMeeting (mt_id e)]\<rparr> else s
      | None \<Rightarrow> s)"

definition delete_meeting_answered :: "unit result \<Rightarrow> scheduler \<Rightarrow> scheduler" where
  "delete_meeting_answered r s = (case r of Ok u \<Rightarrow> s \<lparr>sc_modal := False, sc_editing := None\<rparr> | Throw e \<Rightarrow> s)"

section \<open>The time picker\<close>

record time_option =
  to_value :: string
  to_label :: string

definition timeSlots :: "(nat \<Rightarrow> string) \<Rightarrow> time_option list" where
  "timeSlots formatHour = map (\<lambda>k. \<lparr>to_value = toTime (15 * k), to_label = formatHour (15 * k)\<rparr>) [0..<96]"

text \<open>\<open>least\<close> is \<open>startMinMins\<close>, with \<open>None\<close> for minus one.\<close>

definition startOptions :: "(nat \<Rightarrow> string) \<Rightarrow> nat option \<Rightarrow> string \<Rightarrow> time_option list" where
  "startOptions formatHour least start =
     filter (\<lambda>o'. (case least of None \<Rightarrow> True | Some n \<Rightarrow> less_nan (Some n) (toMinutes (to_value o')))
       \<or> toMinutes (to_value o') = toMinutes start) (timeSlots formatHour)"

definition startMinMins :: "string \<Rightarrow> nat \<Rightarrow> scheduler \<Rightarrow> nat option" where
  "startMinMins today now s = (if sc_editing s = None \<and> dr_date (sc_draft s) = today then Some now else None)"

definition endOptions :: "(nat \<Rightarrow> string) \<Rightarrow> string \<Rightarrow> string \<Rightarrow> time_option list" where
  "endOptions formatHour start end' =
     filter (\<lambda>o'. less_nan (toMinutes start) (toMinutes (to_value o')) \<or> toMinutes (to_value o') = toMinutes end')
       (timeSlots formatHour)"

record time_select =
  tsel_open :: bool
  tsel_draft :: string
  tsel_active :: "nat option"

text \<open>\<open>opts\<close>, \<open>value\<close> and \<open>least\<close> are the component's properties.\<close>

definition currentLabel :: "(nat \<Rightarrow> string) \<Rightarrow> time_option list \<Rightarrow> string \<Rightarrow> string" where
  "currentLabel formatHour opts value =
     (case find (\<lambda>o'. to_value o' = value) opts of
        Some o' \<Rightarrow> to_label o'
      | None \<Rightarrow> (case toMinutes value of Some n \<Rightarrow> formatHour n | None \<Rightarrow> ''Invalid Date''))"

definition isAllowed :: "nat option \<Rightarrow> string \<Rightarrow> bool" where
  "isAllowed least time =
     (case toMinutes time of
        None \<Rightarrow> False
      | Some n \<Rightarrow> (case least of None \<Rightarrow> True | Some l \<Rightarrow> l < n) \<and> n \<le> 23 * 60 + 59)"

definition typed_query :: "(nat \<Rightarrow> string) \<Rightarrow> time_option list \<Rightarrow> string \<Rightarrow> time_select \<Rightarrow> string option" where
  "typed_query formatHour opts value t =
     (let q = toLowerCase (trim (tsel_draft t))
      in if q = [] \<or> q = toLowerCase (currentLabel formatHour opts value) then None else Some q)"

definition no_spaces :: "string \<Rightarrow> string" where
  "no_spaces s = filter (\<lambda>c. \<not> js_space c) s"

definition filtered_options :: "(nat \<Rightarrow> string) \<Rightarrow> time_option list \<Rightarrow> string \<Rightarrow> time_select \<Rightarrow> time_option list" where
  "filtered_options formatHour opts value t =
     (case typed_query formatHour opts value t of
        None \<Rightarrow> opts
      | Some q \<Rightarrow> filter (\<lambda>o'. includes_text (no_spaces (toLowerCase (to_label o'))) (no_spaces q)) opts)"

definition picker_rows :: "(nat \<Rightarrow> string) \<Rightarrow> time_option list \<Rightarrow> string \<Rightarrow> nat option \<Rightarrow> time_select \<Rightarrow> time_option list" where
  "picker_rows formatHour opts value least t =
     (let filtered = filtered_options formatHour opts value t;
          parsed = (case typed_query formatHour opts value t of None \<Rightarrow> None | Some q \<Rightarrow> parseTimeInput (tsel_draft t))
      in case parsed of
           Some p \<Rightarrow>
             if isAllowed least p \<and> p \<notin> to_value ` set filtered
             then \<lparr>to_value = p, to_label = formatHour (nullish (toMinutes p) 0)\<rparr> # filtered else filtered
         | None \<Rightarrow> filtered)"

fun find_index :: "('a \<Rightarrow> bool) \<Rightarrow> 'a list \<Rightarrow> nat option" where
  "find_index P [] = None"
| "find_index P (x # xs) = (if P x then Some 0 else map_option Suc (find_index P xs))"

definition activeIndex :: "time_option list \<Rightarrow> string \<Rightarrow> time_select \<Rightarrow> nat" where
  "activeIndex rows value t =
     (let selected = (case find_index (\<lambda>o'. to_value o' = value) rows of
            Some i \<Rightarrow> i
          | None \<Rightarrow> nullish (find_index (\<lambda>o'. le_nan (toMinutes value) (toMinutes (to_value o'))) rows) 0)
      in case tsel_active t of Some i \<Rightarrow> if i < length rows then i else selected | None \<Rightarrow> selected)"

definition open_list :: "string \<Rightarrow> time_select \<Rightarrow> time_select" where
  "open_list label t = (if tsel_open t then t else t \<lparr>tsel_draft := label, tsel_active := None, tsel_open := True\<rparr>)"

definition close_list :: "time_select \<Rightarrow> time_select" where
  "close_list t = t \<lparr>tsel_open := False, tsel_draft := [], tsel_active := None\<rparr>"

datatype picker_event =
    ArrowDown | ArrowUp | EnterKey | EscapeKey | Blurred | FocusedField | CaretPressed
  | TypedText string | Hovered nat | RowPressed nat

text \<open>What an event does, and the time it commits.\<close>

definition picker_step ::
  "(nat \<Rightarrow> string) \<Rightarrow> time_option list \<Rightarrow> string \<Rightarrow> nat option \<Rightarrow> picker_event \<Rightarrow> time_select \<Rightarrow> time_select \<times> string option" where
  "picker_step formatHour opts value least e t =
     (let rows = picker_rows formatHour opts value least t;
          active = activeIndex rows value t;
          label = currentLabel formatHour opts value;
          n = length rows;
          typed = (case parseTimeInput (tsel_draft t) of Some p \<Rightarrow> if isAllowed least p then Some p else None | None \<Rightarrow> None)
      in case e of
           ArrowDown \<Rightarrow>
             (if \<not> tsel_open t then (open_list label t, None)
              else if n = 0 then (t, None) else (t \<lparr>tsel_active := Some ((active + 1 + n) mod n)\<rparr>, None))
         | ArrowUp \<Rightarrow>
             (if \<not> tsel_open t then (open_list label t, None)
              else if n = 0 then (t, None) else (t \<lparr>tsel_active := Some ((active + n - 1) mod n)\<rparr>, None))
         | EnterKey \<Rightarrow>
             (if active < n then (close_list t, Some (to_value (rows ! active)))
              else (case typed of Some p \<Rightarrow> (close_list t, Some p) | None \<Rightarrow> (t, None)))
         | EscapeKey \<Rightarrow> (if tsel_open t then close_list t else t, None)
         | Blurred \<Rightarrow>
             (if \<not> tsel_open t then (t, None)
              else (case typed of Some p \<Rightarrow> if p \<noteq> value then (close_list t, Some p) else (close_list t, None)
                    | None \<Rightarrow> (close_list t, None)))
         | FocusedField \<Rightarrow> (open_list label t, None)
         | CaretPressed \<Rightarrow> (if tsel_open t then close_list t else open_list label t, None)
         | TypedText s \<Rightarrow> (t \<lparr>tsel_draft := s, tsel_active := None, tsel_open := True\<rparr>, None)
         | Hovered i \<Rightarrow> (t \<lparr>tsel_active := Some i\<rparr>, None)
         | RowPressed i \<Rightarrow> (if tsel_open t \<and> i < n then (close_list t, Some (to_value (rows ! i))) else (t, None)))"

section \<open>Times of the form\<close>

lemma parsed_is_time:
  assumes "parseTimeInput raw = Some v"
  obtains u where "u < 1440" "v = toTime u"
proof -
  have "\<exists>mer hours minutes h. clock_hour mer hours = Some h \<and> \<not> minutes > 59 \<and> v = toTime (h * 60 + minutes)"
    using assms unfolding parseTimeInput_def Let_def
    by (simp split: if_split_asm option.split_asm prod.split_asm) blast+
  then obtain mer hours m h where "clock_hour mer hours = Some h" "\<not> m > 59" "v = toTime (h * 60 + m)" by blast
  then have "h < 24" "m < 60" "v = toTime (h * 60 + m)" by (auto dest: clock_hour_bound)
  then show thesis by (intro that [of "h * 60 + m"]) auto
qed

lemma slot_is_time: "o' \<in> set (timeSlots f) \<Longrightarrow> \<exists>u < 1440. to_value o' = toTime u"
proof -
  assume "o' \<in> set (timeSlots f)"
  then obtain k where "k < 96" "to_value o' = toTime (15 * k)" by (auto simp: timeSlots_def)
  then show ?thesis by (intro exI [of _ "15 * k"]) simp
qed

lemma toTime_inj: "a < 1440 \<Longrightarrow> b < 1440 \<Longrightarrow> toTime a = toTime b \<longleftrightarrow> a = b"
  using toMinutes_toTime by (metis option.inject)

lemma rows_values:
  "o' \<in> set (picker_rows f opts value least t) \<Longrightarrow>
     to_value o' \<in> to_value ` set opts \<or> (\<exists>raw. parseTimeInput raw = Some (to_value o') \<and> isAllowed least (to_value o'))"
  by (auto simp: picker_rows_def filtered_options_def Let_def split: option.splits if_splits)

text \<open>What a picker commits is one of its options or a typed time it allows.\<close>

lemma picker_commits:
  assumes "picker_step f opts value least e t = (t1, Some v)"
  shows "v \<in> to_value ` set opts \<or> (\<exists>raw. parseTimeInput raw = Some v \<and> isAllowed least v)"
proof -
  define choice where "choice = (\<lambda>w. w \<in> to_value ` set opts \<or> (\<exists>raw. parseTimeInput raw = Some w \<and> isAllowed least w))"
  have typed: "choice p" if "parseTimeInput (tsel_draft t) = Some p" "isAllowed least p" for p
    using that by (auto simp: choice_def)
  have row: "choice (to_value (picker_rows f opts value least t ! i))" if "i < length (picker_rows f opts value least t)" for i
    using rows_values [OF nth_mem [OF that]] by (simp add: choice_def)
  have "choice v" using assms
    by (cases e) (auto simp: picker_step_def Let_def intro: row typed split: if_splits option.splits)
  then show ?thesis by (simp add: choice_def)
qed

lemma allowed_time: "isAllowed least (toTime u) \<Longrightarrow> u < 1440 \<Longrightarrow> (case least of None \<Rightarrow> True | Some l \<Rightarrow> l < u)"
  by (simp add: isAllowed_def toMinutes_toTime)

lemma start_commit:
  assumes "picker_step f (startOptions f' least start) value least' e t = (t1, Some v)"
  obtains u where "u < 1440" "v = toTime u"
  using picker_commits [OF assms] slot_is_time parsed_is_time by (auto simp: startOptions_def) blast+

lemma end_commit:
  assumes "picker_step f (endOptions f' (toTime a) (toTime b)) value (Some a) e t = (t1, Some v)" "a < 1440" "b < 1440"
  obtains u where "u < 1440" "v = toTime u" "a < u \<or> u = b"
proof -
  from picker_commits [OF assms(1)] consider
      (row) o' where "o' \<in> set (endOptions f' (toTime a) (toTime b))" "v = to_value o'"
    | (typed) raw where "parseTimeInput raw = Some v" "isAllowed (Some a) v" by auto
  then show thesis
  proof cases
    case row
    then obtain u where u: "u < 1440" "v = toTime u" using slot_is_time by (auto simp: endOptions_def)
    then have "a < u \<or> u = b" using row assms(2,3) by (auto simp: endOptions_def toMinutes_toTime less_nan_def)
    with u that show ?thesis by blast
  next
    case typed
    then obtain u where u: "u < 1440" "v = toTime u" using parsed_is_time by blast
    then have "a < u" using typed allowed_time [of "Some a" u] by simp
    with u that show ?thesis by blast
  qed
qed

text \<open>
  \<open>times_ok\<close>: clock times; \<open>range_ok\<close>: start before end, but for a start at the last minute of the day.
\<close>

definition times_ok :: "meeting_draft \<Rightarrow> bool" where
  "times_ok d \<longleftrightarrow> (\<exists>a b. dr_start d = toTime a \<and> dr_end d = toTime b \<and> a < 1440 \<and> b < 1440)"

definition range_ok :: "meeting_draft \<Rightarrow> bool" where
  "range_ok d \<longleftrightarrow> (\<exists>a b. dr_start d = toTime a \<and> dr_end d = toTime b \<and> b < 1440 \<and> (a < b \<or> a = 1439 \<and> b = 1439))"

definition clock_time :: "nat option \<Rightarrow> bool" where
  "clock_time t \<longleftrightarrow> (\<exists>u < 1440. t = Some u)"

definition meeting_times :: "calendar_meeting \<Rightarrow> bool" where
  "meeting_times e \<longleftrightarrow> clock_time (mt_start e) \<and> clock_time (mt_end e)"

lemma range_times: "range_ok d \<Longrightarrow> times_ok d"
  unfolding range_ok_def times_ok_def by fastforce

lemma openEdit_times: "meeting_times e \<Longrightarrow> times_ok (sc_draft (openEdit e s))"
proof -
  assume "meeting_times e"
  then obtain a b where "mt_start e = Some a" "mt_end e = Some b" "a < 1440" "b < 1440"
    by (auto simp: meeting_times_def clock_time_def)
  then show ?thesis unfolding times_ok_def
    by (intro exI [of _ a] exI [of _ b]) (simp add: openEdit_def seeded_def time_text_def)
qed

lemma addMinutes_toTime: "t < 1440 \<Longrightarrow> addMinutesToTime (toTime t) n = Some (toTime (min (t + n) 1439))"
  by (simp add: addMinutesToTime_def toMinutes_toTime)

lemma openCreate_meeting_times: "range_ok (sc_draft (openCreate_meeting date startTime today now s))"
proof -
  define u where "u = min ((nullish startTime now + 7) div 15 * 15) (23 * 60 + 45)"
  have u: "u < 1440" "u \<le> 1425" by (simp_all add: u_def)
  have "dr_start (sc_draft (openCreate_meeting date startTime today now s)) = toTime u"
    by (simp add: openCreate_meeting_def snap15_def u_def Let_def)
  moreover have "dr_end (sc_draft (openCreate_meeting date startTime today now s))
      = toTime (min (u + (if startTime = None then 60 else 30)) 1439)"
  proof -
    have "snap15 (nullish startTime now) = toTime u" by (simp add: snap15_def u_def)
    then show ?thesis using addMinutes_toTime [OF u(1)] by (simp add: openCreate_meeting_def Let_def)
  qed
  ultimately show ?thesis using u(2) unfolding range_ok_def
    by (intro exI [of _ u] exI [of _ "min (u + (if startTime = None then 60 else 30)) 1439"]) auto
qed

lemma pick_start_times:
  assumes "times_ok (sc_draft s)" "u < 1440"
  shows "range_ok (sc_draft (pick_start (toTime u) s))"
proof -
  obtain a b where d: "dr_start (sc_draft s) = toTime a" "dr_end (sc_draft s) = toTime b" "b < 1440"
    using assms(1) by (auto simp: times_ok_def)
  show ?thesis
  proof (cases "b \<le> u")
    case True
    then have "dr_end (sc_draft (pick_start (toTime u) s)) = toTime (min (u + 30) 1439)"
      using d assms(2) by (simp add: pick_start_def le_nan_def toMinutes_toTime addMinutes_toTime)
    then show ?thesis using assms(2) unfolding range_ok_def
      by (intro exI [of _ u] exI [of _ "min (u + 30) 1439"]) (auto simp: pick_start_def)
  next
    case False
    then have "dr_end (sc_draft (pick_start (toTime u) s)) = toTime b"
      using d assms(2) by (simp add: pick_start_def le_nan_def toMinutes_toTime)
    then show ?thesis using False d(3) unfolding range_ok_def
      by (intro exI [of _ u] exI [of _ b]) (auto simp: pick_start_def)
  qed
qed

lemma pick_end_times:
  assumes "times_ok (sc_draft s)"
    and "picker_step f (endOptions f' (dr_start (sc_draft s)) (dr_end (sc_draft s))) value
          (toMinutes (dr_start (sc_draft s))) e t = (t1, Some v)"
  shows "times_ok (sc_draft (pick_end v s))" "range_ok (sc_draft s) \<Longrightarrow> range_ok (sc_draft (pick_end v s))"
proof -
  obtain a b where d: "dr_start (sc_draft s) = toTime a" "dr_end (sc_draft s) = toTime b" "a < 1440" "b < 1440"
    using assms(1) by (auto simp: times_ok_def)
  obtain u where u: "u < 1440" "v = toTime u" "a < u \<or> u = b"
    using end_commit [OF assms(2) [unfolded d(1,2) toMinutes_toTime [OF d(3)]] d(3,4)] by blast
  show "times_ok (sc_draft (pick_end v s))"
    using d u unfolding times_ok_def by (intro exI [of _ a] exI [of _ u]) (auto simp: pick_end_def)
  assume "range_ok (sc_draft s)"
  then obtain a' b' where r: "dr_start (sc_draft s) = toTime a'" "dr_end (sc_draft s) = toTime b'" "b' < 1440"
      "a' < b' \<or> a' = 1439 \<and> b' = 1439"
    by (auto simp: range_ok_def)
  then have "a' = a" "b' = b" using d toTime_inj [of a' a] toTime_inj [of b' b] by auto
  then show "range_ok (sc_draft (pick_end v s))"
    using r u d unfolding range_ok_def by (intro exI [of _ a] exI [of _ u]) (auto simp: pick_end_def)
qed

section \<open>People of the form\<close>

definition guest_ok :: "string \<Rightarrow> bool" where
  "guest_ok e \<longleftrightarrow> valid_email e \<and> toLowerCase e = e"

definition people_ok :: "string list \<Rightarrow> bool" where
  "people_ok ps \<longleftrightarrow> distinct ps \<and> (\<forall>e \<in> set ps. guest_ok e)"

text \<open>Made from the people \<open>qs\<close> of a meeting: no address is put in twice, and only addresses are put in.\<close>

definition people_from :: "string list \<Rightarrow> string list \<Rightarrow> bool" where
  "people_from qs ps \<longleftrightarrow> (\<forall>e. count_list ps e \<le> max 1 (count_list qs e)) \<and> (\<forall>e \<in> set ps - set qs. guest_ok e)"

lemma distinct_count_le: "(\<And>e. count_list ps e \<le> 1) \<Longrightarrow> distinct ps"
proof (induction ps)
  case (Cons a ps)
  have "count_list ps e \<le> 1" for e using Cons.prems [of e] by (simp split: if_splits)
  moreover have "a \<notin> set ps" using Cons.prems [of a] by (simp add: count_list_0_iff)
  ultimately show ?case using Cons.IH by simp
qed simp

lemma people_from_none: "people_from [] ps \<Longrightarrow> people_ok ps"
  by (auto simp: people_ok_def people_from_def intro: distinct_count_le)

lemma people_from_refl: "people_from ps ps"
  by (simp add: people_from_def)

lemma with_person_from: "people_from qs ps \<Longrightarrow> guest_ok e \<Longrightarrow> people_from qs (with_person e ps)"
  by (auto simp: people_from_def with_person_def count_list_0_iff)

lemma count_filter_le: "count_list (filter P ps) e \<le> count_list ps e"
  by (induction ps) auto

lemma without_person_from: "people_from qs ps \<Longrightarrow> people_from qs (filter P ps)"
  unfolding people_from_def using count_filter_le le_trans by (metis DiffD1 DiffD2 DiffI filter_is_subset in_mono)

lemma finalParticipants_from: "people_from qs (dr_people (sc_draft s)) \<Longrightarrow> people_from qs (finalParticipants s)"
  by (auto simp: finalParticipants_def Let_def guest_ok_def intro!: with_person_from)

section \<open>Runs of the form\<close>

datatype form_event =
    CreateOpened "string option" "nat option"
  | EditOpened calendar_meeting
  | FormClosed
  | TitleTyped string
  | EmailTyped string
  | GuestAdded "string option"
  | GuestRemoved string
  | CalendarPicked string
  | DatePicked string
  | StartPicker picker_event time_select
  | EndPicker picker_event time_select
  | SavePressed bool
  | SaveAnswered "calendar_meeting option" string "save_answer result"
  | DeletePressed bool
  | DeleteAnswered "unit result"
  | MeetingsCame "api_meeting list"
  | CalendarMade string
  | CalendarToggled string

definition edit_draft :: "(meeting_draft \<Rightarrow> meeting_draft) \<Rightarrow> scheduler \<Rightarrow> scheduler" where
  "edit_draft g s = s \<lparr>sc_draft := g (sc_draft s)\<rparr>"

definition commit_to :: "(string \<Rightarrow> scheduler \<Rightarrow> scheduler) \<Rightarrow> time_select \<times> string option \<Rightarrow> scheduler \<Rightarrow> scheduler" where
  "commit_to pick r s = (case snd r of None \<Rightarrow> s | Some v \<Rightarrow> pick v s)"

text \<open>Clock and date are those of the moment of the event.\<close>

fun form_step :: "(nat \<Rightarrow> string) \<Rightarrow> string \<Rightarrow> nat \<Rightarrow> form_event \<Rightarrow> scheduler \<Rightarrow> scheduler" where
  "form_step f today now (CreateOpened d t) s = openCreate_meeting d t today now s"
| "form_step f today now (EditOpened e) s = openEdit e s"
| "form_step f today now FormClosed s = resetModal s"
| "form_step f today now (TitleTyped t) s = edit_draft (\<lambda>d. d \<lparr>dr_title := t\<rparr>) s"
| "form_step f today now (EmailTyped t) s = s \<lparr>sc_email := t\<rparr>"
| "form_step f today now (GuestAdded g) s = addParticipant g s"
| "form_step f today now (GuestRemoved g) s = removeParticipant g s"
| "form_step f today now (CalendarPicked c) s = edit_draft (\<lambda>d. d \<lparr>dr_calendar := c\<rparr>) s"
| "form_step f today now (DatePicked v) s = pick_date today v s"
| "form_step f today now (StartPicker e t) s =
     commit_to pick_start (picker_step f (startOptions f (startMinMins today now s) (dr_start (sc_draft s)))
       (dr_start (sc_draft s)) (startMinMins today now s) e t) s"
| "form_step f today now (EndPicker e t) s =
     commit_to pick_end (picker_step f (endOptions f (dr_start (sc_draft s)) (dr_end (sc_draft s)))
       (dr_end (sc_draft s)) (toMinutes (dr_start (sc_draft s))) e t) s"
| "form_step f today now (SavePressed proceed) s = (if eventDirty s then begin_save_meeting today now proceed s else s)"
| "form_step f today now (SaveAnswered e c r) s = save_meeting_answered e c r s"
| "form_step f today now (DeletePressed b) s = begin_delete_meeting b s"
| "form_step f today now (DeleteAnswered r) s = delete_meeting_answered r s"
| "form_step f today now (MeetingsCame ms) s = meetings_answered ms s"
| "form_step f today now (CalendarMade t) s = createCalendar t s"
| "form_step f today now (CalendarToggled i) s = toggleCalendar i s"

definition fresh_scheduler :: scheduler where
  "fresh_scheduler = \<lparr>sc_events = [], sc_calendars = DEFAULT_CALENDARS, sc_assigned = Map.empty, sc_modal = False,
     sc_editing = None, sc_pristine = None, sc_draft = empty_draft, sc_email = [], sc_new_calendar = [], sc_alerts = [],
     sc_requests = []\<rparr>"

text \<open>
  A run, with the meetings it opened. A listed meeting can be opened and the button of the open form
  pressed; the times the server lists are clock times.
\<close>

definition form_event_ok :: "scheduler \<Rightarrow> form_event \<Rightarrow> bool" where
  "form_event_ok s e \<longleftrightarrow>
     (case e of
        EditOpened m \<Rightarrow> m \<in> set (sc_events s)
      | SavePressed proceed \<Rightarrow> sc_modal s
      | MeetingsCame ms \<Rightarrow> \<forall>m \<in> set ms. clock_time (fromTime (am_start m)) \<and> clock_time (fromTime (am_end m))
      | _ \<Rightarrow> True)"

definition opens :: "form_event \<Rightarrow> calendar_meeting list" where
  "opens e = (case e of EditOpened m \<Rightarrow> [m] | _ \<Rightarrow> [])"

inductive form_run :: "(nat \<Rightarrow> string) \<Rightarrow> calendar_meeting list \<Rightarrow> scheduler \<Rightarrow> bool" for f where
  form_fresh: "form_run f [] fresh_scheduler"
| form_more: "form_run f ms s \<Longrightarrow> form_event_ok s e \<Longrightarrow> form_run f (opens e @ ms) (form_step f today now e s)"

definition posted_times :: "meeting_payload \<Rightarrow> bool" where
  "posted_times p \<longleftrightarrow> (\<exists>a b. py_start p = Some a \<and> py_end p = Some b \<and> a < b \<and> b < 1440)"

fun request_ok :: "calendar_meeting list \<Rightarrow> meeting_request \<Rightarrow> bool" where
  "request_ok ms (CreateMeeting p) \<longleftrightarrow> posted_times p \<and> people_ok (py_people p)"
| "request_ok ms (UpdateMeeting i p) \<longleftrightarrow>
     posted_times p \<and> (\<exists>m \<in> set ms. mt_id m = i \<and> people_from (mt_people m) (py_people p))"
| "request_ok ms (DeleteMeeting i) \<longleftrightarrow> (\<exists>m \<in> set ms. mt_id m = i)"

lemma request_ok_more: "request_ok ms r \<Longrightarrow> request_ok (ns @ ms) r"
  by (cases r) auto

lemma requests_ok_more: "list_all (request_ok ms) rs \<Longrightarrow> list_all (request_ok (ns @ ms)) rs"
  by (auto simp: list_all_iff request_ok_more)

text \<open>What is true of the draft of an open form.\<close>

definition open_form_ok :: "calendar_meeting list \<Rightarrow> calendar_meeting option \<Rightarrow> bool \<Rightarrow> meeting_draft \<Rightarrow> bool" where
  "open_form_ok ms editing shown d \<longleftrightarrow>
     times_ok d \<and>
     (case editing of
        Some m \<Rightarrow> m \<in> set ms \<and> people_from (mt_people m) (dr_people d)
      | None \<Rightarrow> shown \<longrightarrow> range_ok d \<and> people_from [] (dr_people d))"

definition form_ok :: "calendar_meeting list \<Rightarrow> scheduler \<Rightarrow> bool" where
  "form_ok ms s \<longleftrightarrow>
     open_form_ok ms (sc_editing s) (sc_modal s) (sc_draft s)
     \<and> list_all (request_ok ms) (sc_requests s) \<and> (\<forall>m \<in> set (sc_events s). meeting_times m)"

lemma times_ok_cong: "dr_start d = dr_start d' \<Longrightarrow> dr_end d = dr_end d' \<Longrightarrow> times_ok d = times_ok d'"
  "dr_start d = dr_start d' \<Longrightarrow> dr_end d = dr_end d' \<Longrightarrow> range_ok d = range_ok d'"
  by (simp_all add: times_ok_def range_ok_def)

lemma open_form_people:
  assumes "open_form_ok ms ed sh d" "dr_start d' = dr_start d" "dr_end d' = dr_end d"
    "\<And>qs. people_from qs (dr_people d) \<Longrightarrow> people_from qs (dr_people d')"
  shows "open_form_ok ms ed sh d'"
  using assms times_ok_cong [OF assms(2,3)] by (auto simp: open_form_ok_def split: option.splits)

lemma form_ok_draft:
  assumes "form_ok ms s" "sc_editing s' = sc_editing s" "sc_modal s' = sc_modal s" "sc_requests s' = sc_requests s"
    "sc_events s' = sc_events s" "dr_start (sc_draft s') = dr_start (sc_draft s)" "dr_end (sc_draft s') = dr_end (sc_draft s)"
    "\<And>qs. people_from qs (dr_people (sc_draft s)) \<Longrightarrow> people_from qs (dr_people (sc_draft s'))"
  shows "form_ok ms s'"
  using assms open_form_people [OF _ assms(6,7,8)] by (simp add: form_ok_def)

lemma save_payload_ok:
  assumes "times_ok (sc_draft s)" "save_refused today now s = None"
  shows "posted_times (save_payload s)"
proof -
  obtain a b where d: "dr_start (sc_draft s) = toTime a" "dr_end (sc_draft s) = toTime b" "a < 1440" "b < 1440"
    using assms(1) by (auto simp: times_ok_def)
  then have m: "toMinutes (dr_start (sc_draft s)) = Some a" "toMinutes (dr_end (sc_draft s)) = Some b"
    by (auto simp: toMinutes_toTime)
  then have "\<not> b \<le> a" using assms(2) by (auto simp: save_refused_def le_nan_def Let_def split: if_splits)
  then show ?thesis using m d(4) by (simp add: posted_times_def save_payload_def)
qed

lemma begin_save_meeting_ok:
  assumes "form_ok ms s" "sc_modal s"
  shows "form_ok ms (begin_save_meeting today now proceed s)"
proof (cases "save_refused today now s")
  case (Some m)
  then show ?thesis using assms by (simp add: begin_save_meeting_def form_ok_def alert_def)
next
  case None
  have people: "py_people (save_payload s) = finalParticipants s" by (simp add: save_payload_def)
  have "times_ok (sc_draft s)" using assms(1) by (simp add: form_ok_def open_form_ok_def)
  then have "request_ok ms (save_meeting_request s)"
    using assms save_payload_ok [OF _ None] people finalParticipants_from [THEN people_from_none] finalParticipants_from
    by (auto simp: save_meeting_request_def form_ok_def open_form_ok_def split: option.splits)
  then show ?thesis using assms None by (simp add: begin_save_meeting_def form_ok_def)
qed

lemma resetModal_ok: "form_ok ms s \<Longrightarrow> form_ok ms (resetModal s)"
  using times_ok_cong [of "sc_draft (resetModal s)" "sc_draft s"]
  by (simp add: form_ok_def open_form_ok_def resetModal_def)

lemma addParticipant_ok: "form_ok ms s \<Longrightarrow> form_ok ms (addParticipant g s)"
  by (rule form_ok_draft [of ms s]) (auto simp: addParticipant_def alert_def Let_def guest_ok_def intro!: with_person_from)

lemma openCreate_ok: "form_ok ms s \<Longrightarrow> form_ok ms (openCreate_meeting d t today now s)"
  using openCreate_meeting_times [of d t today now s] range_times
  by (auto simp: form_ok_def open_form_ok_def openCreate_meeting_def people_from_def Let_def)

lemma openEdit_ok:
  assumes "form_ok ms s" "m \<in> set (sc_events s)"
  shows "form_ok (m # ms) (openEdit m s)"
  using assms openEdit_times [of m s] requests_ok_more [of ms _ "[m]"]
  by (auto simp: form_ok_def open_form_ok_def openEdit_def seeded_def people_from_refl)

lemma pick_start_ok: "form_ok ms s \<Longrightarrow> u < 1440 \<Longrightarrow> form_ok ms (pick_start (toTime u) s)"
  using pick_start_times [of s u] range_times
  by (auto simp: form_ok_def open_form_ok_def) (auto simp: pick_start_def split: option.splits)

lemma pick_end_ok:
  assumes "form_ok ms s" "picker_step f (endOptions f' (dr_start (sc_draft s)) (dr_end (sc_draft s))) value
      (toMinutes (dr_start (sc_draft s))) e t = (t1, Some v)"
  shows "form_ok ms (pick_end v s)"
proof -
  have "times_ok (sc_draft s)" using assms(1) by (simp add: form_ok_def open_form_ok_def)
  from pick_end_times [OF this assms(2)] show ?thesis
    using assms(1) by (auto simp: form_ok_def open_form_ok_def) (auto simp: pick_end_def split: option.splits)
qed

lemma form_step_ok:
  assumes "form_ok ms s" "form_event_ok s e"
  shows "form_ok (opens e @ ms) (form_step f today now e s)"
proof (cases e)
  case (EditOpened m)
  then show ?thesis using assms openEdit_ok by (simp add: opens_def form_event_ok_def)
next
  case (StartPicker pe t)
  show ?thesis
  proof (cases "snd (picker_step f (startOptions f (startMinMins today now s) (dr_start (sc_draft s)))
       (dr_start (sc_draft s)) (startMinMins today now s) pe t)")
    case (Some v)
    then obtain u where "u < 1440" "v = toTime u" using start_commit by (metis prod.collapse)
    then show ?thesis using assms(1) StartPicker Some by (simp add: opens_def commit_to_def pick_start_ok)
  qed (use assms StartPicker in \<open>simp add: opens_def commit_to_def\<close>)
next
  case (EndPicker pe t)
  show ?thesis
  proof (cases "snd (picker_step f (endOptions f (dr_start (sc_draft s)) (dr_end (sc_draft s)))
       (dr_end (sc_draft s)) (toMinutes (dr_start (sc_draft s))) pe t)")
    case (Some v)
    then have "form_ok ms (pick_end v s)" using pick_end_ok [OF assms(1)] by (metis prod.collapse)
    then show ?thesis using EndPicker Some by (simp add: opens_def commit_to_def)
  qed (use assms EndPicker in \<open>simp add: opens_def commit_to_def\<close>)
next
  case (SaveAnswered x c r)
  have "form_ok ms (s \<lparr>sc_assigned := q\<rparr>)" "form_ok ms (warnIfInvitesFailed a s)"
      "form_ok ms (warnIfInvitesFailed a (s \<lparr>sc_assigned := q\<rparr>))"
    for q a using assms(1) by (simp_all add: form_ok_def warnIfInvitesFailed_def alert_def)
  then show ?thesis using assms(1) SaveAnswered
    by (auto simp: opens_def save_meeting_answered_def Let_def intro!: resetModal_ok split: sum.split option.split)
next
  case (SavePressed b)
  then show ?thesis using assms begin_save_meeting_ok by (simp add: opens_def form_event_ok_def)
next
  case (CreateOpened d t)
  then show ?thesis using assms openCreate_ok by (simp add: opens_def)
next
  case (CalendarMade t)
  then show ?thesis using assms(1) by (auto simp: opens_def createCalendar_def Let_def elim!: form_ok_draft)
next
  case (DatePicked v)
  then show ?thesis using assms(1) by (auto simp: opens_def pick_date_def elim!: form_ok_draft)
next
  case (GuestRemoved g)
  then show ?thesis using assms(1) by (auto simp: opens_def removeParticipant_def without_person_from elim!: form_ok_draft)
next
  case (DeletePressed b)
  then show ?thesis using assms(1)
    by (auto simp: opens_def form_ok_def open_form_ok_def begin_delete_meeting_def split: option.split)
next
  case (DeleteAnswered r)
  then show ?thesis using assms(1)
    by (cases r) (auto simp: opens_def form_ok_def open_form_ok_def delete_meeting_answered_def)
next
  case (MeetingsCame bs)
  then show ?thesis using assms
    by (auto simp: opens_def form_ok_def meetings_answered_def meeting_times_def meeting_of_def form_event_ok_def)
next
  case FormClosed
  then show ?thesis using assms resetModal_ok by (simp add: opens_def)
next
  case (GuestAdded g)
  then show ?thesis using assms addParticipant_ok by (simp add: opens_def)
qed (use assms in \<open>auto simp: opens_def edit_draft_def toggleCalendar_def elim!: form_ok_draft\<close>)

lemma form_run_ok: "form_run f ms s \<Longrightarrow> form_ok ms s"
proof (induction rule: form_run.induct)
  case form_fresh
  have "''09:00'' = toTime 540" "''10:00'' = toTime 600" by code_simp+
  then have "times_ok empty_draft" unfolding times_ok_def
    by (intro exI [of _ 540] exI [of _ 600]) (simp add: empty_draft_def)
  then show ?case by (simp add: fresh_scheduler_def form_ok_def open_form_ok_def)
qed (rule form_step_ok)

section \<open>Properties\<close>

text \<open>
  C36: Whatever is opened, typed and picked, in whatever order the server answers with clock times:
  what is posted ends after it starts, within the day. A new meeting is posted for distinct valid
  addresses in lower case; the post of a meeting that was opened has an address once, or as often at
  most as the server listed it, and every address it adds is valid and in lower case; only an
  opened meeting is updated or deleted. A new meeting is refused for the
  order of its times only at a start in the day's last minute, where no end is left.
\<close>

theorem posted_meetings_are_sound:
  assumes "form_run f ms s"
  shows "list_all (request_ok ms) (sc_requests s)
    \<and> (sc_modal s \<and> sc_editing s = None \<and> save_refused today now s = Some ''End time must be after start time''
        \<longrightarrow> dr_start (sc_draft s) = toTime 1439)"
proof -
  have ok: "form_ok ms s" using form_run_ok [OF assms] .
  have "dr_start (sc_draft s) = toTime 1439"
    if new: "sc_modal s" "sc_editing s = None" and refused: "save_refused today now s = Some ''End time must be after start time''"
  proof -
    obtain a b where d: "dr_start (sc_draft s) = toTime a" "dr_end (sc_draft s) = toTime b" "b < 1440" "a < b \<or> a = 1439 \<and> b = 1439"
      using ok new by (auto simp: form_ok_def open_form_ok_def range_ok_def)
    then have "toMinutes (dr_start (sc_draft s)) = Some a" "toMinutes (dr_end (sc_draft s)) = Some b" by (auto simp: toMinutes_toTime)
    then show ?thesis using refused d by (auto simp: save_refused_def le_nan_def Let_def split: if_splits)
  qed
  then show ?thesis using ok by (auto simp: form_ok_def)
qed

text \<open>
  A new meeting is posted only for a day to come, or later today; saving asks first exactly when
  another meeting of that day overlaps, and never because of the meeting being edited.
\<close>

definition lane_event :: "calendar_meeting \<Rightarrow> event" where
  "lane_event e = \<lparr>ev_id = mt_id e, ev_start = int (nullish (mt_start e) 0), ev_end = int (nullish (mt_end e) 0)\<rparr>"

theorem save_asks_on_overlap:
  assumes "toMinutes (dr_start (sc_draft s)) = Some a" "toMinutes (dr_end (sc_draft s)) = Some b"
    and "\<forall>e \<in> set (sc_events s). mt_start e \<noteq> None \<and> mt_end e \<noteq> None"
  shows "(begin_save_meeting today now False s \<noteq> begin_save_meeting today now True s \<longleftrightarrow>
      save_refused today now s = None
      \<and> (\<exists>e \<in> set (sc_events s). mt_date e = dr_date (sc_draft s) \<and> map_option mt_id (sc_editing s) \<noteq> Some (mt_id e)
           \<and> overlap (lane_event e) \<lparr>ev_id = mt_id e, ev_start = int a, ev_end = int b\<rparr>))
    \<and> (sc_editing s = None \<and> sc_requests (begin_save_meeting today now p s) \<noteq> sc_requests s \<longrightarrow>
        \<not> text_less (dr_date (sc_draft s)) today \<and> (dr_date (sc_draft s) = today \<longrightarrow> now < a) \<and> a < b)"
proof -
  have "conflicts s \<noteq> [] \<longleftrightarrow> (\<exists>e \<in> set (sc_events s). mt_date e = dr_date (sc_draft s) \<and> map_option mt_id (sc_editing s) \<noteq> Some (mt_id e)
           \<and> overlap (lane_event e) \<lparr>ev_id = mt_id e, ev_start = int a, ev_end = int b\<rparr>)"
    using assms by (cases "sc_editing s") (fastforce simp: conflicts_def filter_empty_conv less_nan_def overlap_def lane_event_def Let_def)+
  moreover have "begin_save_meeting today now False s \<noteq> begin_save_meeting today now True s \<longleftrightarrow> save_refused today now s = None \<and> conflicts s \<noteq> []"
  proof -
    have "sc_requests (s \<lparr>sc_requests := sc_requests s @ [r]\<rparr>) \<noteq> sc_requests s" for r by simp
    then have "s \<noteq> s \<lparr>sc_requests := sc_requests s @ [r]\<rparr>" for r by metis
    then show ?thesis by (auto simp: begin_save_meeting_def split: option.split)
  qed
  moreover have "\<not> text_less (dr_date (sc_draft s)) today \<and> (dr_date (sc_draft s) = today \<longrightarrow> now < a) \<and> a < b"
    if "sc_editing s = None" "sc_requests (begin_save_meeting today now p s) \<noteq> sc_requests s"
  proof -
    have "save_refused today now s = None"
      using that(2) by (auto simp: begin_save_meeting_def alert_def split: option.splits)
    then show ?thesis using that(1) assms(1,2) by (auto simp: save_refused_def le_nan_def Let_def split: if_splits)
  qed
  ultimately show ?thesis by blast
qed

text \<open>
  An opened meeting can be saved exactly when a field differs from what was opened. An address
  typed but not confirmed is no such field: the button stays off, though saving would invite it.
\<close>

theorem update_enabled_iff_changed:
  "\<not> eventDirty (openEdit e s)
   \<and> (eventDirty (edit_draft g (openEdit e s)) \<longleftrightarrow> g (seeded s e) \<noteq> seeded s e)
   \<and> (\<not> eventDirty ((openEdit e s) \<lparr>sc_email := t\<rparr>)
      \<and> finalParticipants ((openEdit e s) \<lparr>sc_email := ''new@x.y''\<rparr>) = with_person ''new@x.y'' (mt_people e))"
proof -
  have "toLowerCase (trim ''new@x.y'') = ''new@x.y''" "valid_email ''new@x.y''" by code_simp+
  then show ?thesis by (auto simp: openEdit_def eventDirty_def edit_draft_def finalParticipants_def seeded_def Let_def)
qed

lemma rounded_up_iff: "min ((n + 7) div 15 * 15) 1425 \<le> n \<longleftrightarrow> n mod 15 \<le> 7 \<or> 1425 \<le> (n :: nat)"
proof -
  define q r where "q = n div 15" and "r = n mod 15"
  have n: "n = 15 * q + r" "r < 15" by (simp_all add: q_def r_def)
  have "(n + 7) div 15 = q + (r + 7) div 15" by (simp add: n(1))
  moreover have "(r + 7) div 15 = (if r \<le> 7 then 0 else 1)" using n(2) by auto
  ultimately have "(n + 7) div 15 * 15 \<le> n \<longleftrightarrow> r \<le> 7" using n by (cases "r \<le> 7") auto
  then show ?thesis by (simp add: r_def min_le_iff_disj)
qed

text \<open>
  The start a new meeting is given is rounded to the nearest quarter of an hour: in the first half
  of a quarter it is not after the clock, and saving it as it stands is refused.
\<close>

theorem default_start_may_be_past:
  assumes "now < 1440" "s1 = openCreate_meeting None None today now s"
  shows "save_refused today now s1 = Some ''Cannot create a meeting in the past'' \<longleftrightarrow> now mod 15 \<le> 7 \<or> 1425 \<le> now"
proof -
  define u where "u = min ((now + 7) div 15 * 15) 1425"
  have u: "u < 1440" by (simp add: u_def)
  have "dr_start (sc_draft s1) = toTime u" "dr_date (sc_draft s1) = today" "sc_editing s1 = None"
    by (simp_all add: assms(2) openCreate_meeting_def snap15_def u_def Let_def)
  then have "save_refused today now s1 = Some ''Cannot create a meeting in the past'' \<longleftrightarrow> u \<le> now \<or> text_less today today"
    using toMinutes_toTime [OF u] by (auto simp: save_refused_def le_nan_def Let_def)
  moreover have "\<not> text_less t t" for t by (induction t) auto
  moreover have "u \<le> now \<longleftrightarrow> now mod 15 \<le> 7 \<or> 1425 \<le> now" unfolding u_def by (rule rounded_up_iff)
  ultimately show ?thesis by blast
qed

text \<open>Nothing keeps a second press of Save from posting the meeting again.\<close>

theorem second_press_posts_again:
  assumes "save_refused today now s = None" "conflicts s = []" "eventDirty s"
  shows "sc_requests (form_step f today now (SavePressed p) (form_step f today now (SavePressed p) s))
    = sc_requests s @ [save_meeting_request s, save_meeting_request s]"
proof -
  define q where "q = s \<lparr>sc_requests := sc_requests s @ [save_meeting_request s]\<rparr>"
  have 1: "form_step f today now (SavePressed p) s = q" using assms by (simp add: begin_save_meeting_def q_def)
  have same: "save_payload q = save_payload s" "sc_editing q = sc_editing s"
    by (simp_all add: q_def save_payload_def finalParticipants_def Let_def)
  have "save_refused today now q = None" "conflicts q = []" "eventDirty q"
    using assms by (simp_all add: q_def save_refused_def conflicts_def eventDirty_def Let_def)
  moreover have "save_meeting_request q = save_meeting_request s" by (cases "sc_editing s") (simp_all add: save_meeting_request_def same)
  ultimately have "form_step f today now (SavePressed p) q = q \<lparr>sc_requests := sc_requests q @ [save_meeting_request s]\<rparr>"
    by (simp add: begin_save_meeting_def)
  then show ?thesis unfolding 1 by (simp add: q_def)
qed

text \<open>
  A picker commits one of its options or a typed time within its bound. With a value between two
  options, Enter on the closed field commits the next option instead: a time typed and confirmed
  with Enter moves when Enter is pressed again.
\<close>

lemma find_index_Some: "find_index P xs = Some i \<Longrightarrow> i < length xs \<and> P (xs ! i)"
  by (induction xs arbitrary: i) (auto split: if_splits)

lemma find_index_None: "find_index P xs = None \<longleftrightarrow> (\<forall>x \<in> set xs. \<not> P x)"
  by (induction xs) auto

theorem enter_moves_typed_time:
  assumes "u < 1440" "value = toTime u" "value \<notin> to_value ` set opts" "o' \<in> set opts" "toMinutes (to_value o') = Some n" "u < n"
    and slots: "\<forall>x \<in> set opts. \<exists>k < 1440. to_value x = toTime k" and "t = \<lparr>tsel_open = False, tsel_draft = [], tsel_active = None\<rparr>"
  shows "\<exists>v m. snd (picker_step f opts value least EnterKey t) = Some v \<and> v \<in> to_value ` set opts
    \<and> toMinutes v = Some m \<and> u < m \<and> v \<noteq> value"
proof -
  have rows: "picker_rows f opts value least t = opts"
    by (simp add: picker_rows_def filtered_options_def typed_query_def assms(8) trim_def Let_def)
  let ?P = "\<lambda>o'. le_nan (toMinutes value) (toMinutes (to_value o'))"
  have "\<exists>x \<in> set opts. ?P x" using assms(1,2,4-6) by (auto simp: le_nan_def toMinutes_toTime intro!: bexI [of _ o'])
  then obtain i where i: "find_index ?P opts = Some i" using find_index_None [of ?P opts] by fastforce
  have "find_index (\<lambda>o'. to_value o' = value) opts = None" using assms(3) find_index_None by fastforce
  then have active: "activeIndex opts value t = i" by (simp add: activeIndex_def i assms(8) Let_def)
  have il: "i < length opts" and P: "?P (opts ! i)" using find_index_Some [OF i] by auto
  from il slots obtain k where k: "k < 1440" "to_value (opts ! i) = toTime k" by (meson nth_mem)
  have step: "snd (picker_step f opts value least EnterKey t) = Some (to_value (opts ! i))"
    using il by (simp add: picker_step_def rows active Let_def)
  have mem: "to_value (opts ! i) \<in> to_value ` set opts" using il by simp
  have ne: "to_value (opts ! i) \<noteq> value" using mem assms(3) by auto
  have "u \<le> k" using P assms(1,2) k by (simp add: le_nan_def toMinutes_toTime)
  moreover have "u \<noteq> k" using ne k(2) assms(2) by auto
  ultimately have "toMinutes (to_value (opts ! i)) = Some k \<and> u < k" using k by (simp add: toMinutes_toTime)
  then show ?thesis using step mem ne by blast
qed

theorem picker_commits_within_bounds:
  assumes "picker_step f opts value least e t = (t1, Some v)"
  shows "(v \<in> to_value ` set opts \<or> isAllowed least v) \<and> (e = Blurred \<longrightarrow> v \<noteq> value \<and> isAllowed least v)
    \<and> \<not> tsel_open t1 \<and> tsel_draft t1 = []"
proof -
  have "\<not> tsel_open t1 \<and> tsel_draft t1 = []" "e = Blurred \<longrightarrow> v \<noteq> value \<and> isAllowed least v"
    using assms by (cases e; auto simp: picker_step_def close_list_def Let_def split: if_splits option.splits)+
  then show ?thesis using picker_commits [OF assms] by blast
qed

text \<open>
  Suggestions are at most eight addresses of the directory that are not chosen yet; a new calendar
  is visible and selected; pressing a calendar's box twice changes nothing.
\<close>

theorem form_helpers:
  "length (participantSuggestions ds s) \<le> 8
   \<and> set (participantSuggestions ds s) \<subseteq> {u \<in> set ds. toLowerCase u \<notin> toLowerCase ` set (dr_people (sc_draft s))}
   \<and> toggleCalendar i (toggleCalendar i s) = s
   \<and> (trim (sc_new_calendar s) = [] \<or>
      (\<exists>c. sc_calendars (createCalendar t s) = sc_calendars s @ [c] \<and> ci_visible c \<and> ci_color c \<in> set CALENDAR_COLORS
        \<and> dr_calendar (sc_draft (createCalendar t s)) = ci_id c \<and> sc_new_calendar (createCalendar t s) = []))"
proof (intro conjI)
  show "length (participantSuggestions ds s) \<le> 8" by (simp add: participantSuggestions_def Let_def)
  show "set (participantSuggestions ds s) \<subseteq> {u \<in> set ds. toLowerCase u \<notin> toLowerCase ` set (dr_people (sc_draft s))}"
    by (auto simp: participantSuggestions_def Let_def dest!: in_set_takeD split: if_splits)
  have "map (\<lambda>c. if ci_id c = i then c \<lparr>ci_visible := \<not> ci_visible c\<rparr> else c)
      (map (\<lambda>c. if ci_id c = i then c \<lparr>ci_visible := \<not> ci_visible c\<rparr> else c) cs) = cs" for cs :: "calendar_item list"
    by (induction cs) auto
  then show "toggleCalendar i (toggleCalendar i s) = s" by (simp add: toggleCalendar_def)
  have "CALENDAR_COLORS ! (n mod length CALENDAR_COLORS) \<in> set CALENDAR_COLORS" for n
    by (rule nth_mem) (simp add: CALENDAR_COLORS_def)
  then show "trim (sc_new_calendar s) = [] \<or>
      (\<exists>c. sc_calendars (createCalendar t s) = sc_calendars s @ [c] \<and> ci_visible c \<and> ci_color c \<in> set CALENDAR_COLORS
        \<and> dr_calendar (sc_draft (createCalendar t s)) = ci_id c \<and> sc_new_calendar (createCalendar t s) = [])"
    by (simp add: createCalendar_def Let_def)
qed

section \<open>Examples\<close>

definition demo_scheduler :: scheduler where
  "demo_scheduler = openCreate_meeting (Some ''2030-01-02'') (Some 600) ''2030-01-01'' 540 fresh_scheduler"

lemma demo_meeting_form: "dr_start (sc_draft demo_scheduler) = toTime 600" "dr_end (sc_draft demo_scheduler) = toTime 630"
  "sc_editing demo_scheduler = None" "sc_events demo_scheduler = []" "dr_date (sc_draft demo_scheduler) = ''2030-01-02''"
  "sc_pristine demo_scheduler = None"
  by (simp_all add: demo_scheduler_def openCreate_meeting_def snap15_def addMinutes_toTime fresh_scheduler_def Let_def)

lemma demo_saves: "save_refused ''2030-01-01'' 540 demo_scheduler = None" "conflicts demo_scheduler = []" "eventDirty demo_scheduler"
proof -
  have "\<not> text_less ''2030-01-02'' ''2030-01-01''" by code_simp
  then show "save_refused ''2030-01-01'' 540 demo_scheduler = None"
    by (simp add: save_refused_def demo_meeting_form toMinutes_toTime le_nan_def Let_def)
  show "conflicts demo_scheduler = []" "eventDirty demo_scheduler"
    by (simp_all add: conflicts_def demo_meeting_form eventDirty_def Let_def)
qed

text \<open>
  A new meeting is posted with a guest; then a meeting the server lists with a doubled guest is
  opened, renamed and posted.
\<close>

definition listed_meeting :: api_meeting where
  "listed_meeting = \<lparr>am_id = 7, am_title = ''Plan'', am_date = ''2030-01-03'', am_start = ''10:00:00'', am_end = ''11:00:00'',
     am_people = Some [''Bo@x.y'', ''Bo@x.y''], am_link = None, am_source = None\<rparr>"

definition posted_once :: scheduler where
  "posted_once = form_step (\<lambda>n. []) ''2030-01-01'' 540 (SavePressed False)
     (form_step (\<lambda>n. []) ''2030-01-01'' 540 (GuestAdded (Some '' An@x.y'')) demo_scheduler)"

definition posted_twice :: scheduler where
  "posted_twice = form_step (\<lambda>n. []) ''2030-01-01'' 540 (SavePressed False)
     (form_step (\<lambda>n. []) ''2030-01-01'' 540 (TitleTyped ''Review'')
        (form_step (\<lambda>n. []) ''2030-01-01'' 540 (EditOpened (meeting_of listed_meeting))
           (form_step (\<lambda>n. []) ''2030-01-01'' 540 (MeetingsCame [listed_meeting]) posted_once)))"

lemma posted_twice_reached: "form_run (\<lambda>n. []) [meeting_of listed_meeting] posted_twice"
proof -
  let ?step = "\<lambda>e. form_step (\<lambda>n. []) ''2030-01-01'' 540 e"
  have "form_run (\<lambda>n. []) [] demo_scheduler"
    using form_more [OF form_fresh, where e = "CreateOpened (Some ''2030-01-02'') (Some 600)" and f = "\<lambda>n. []"
        and today = "''2030-01-01''" and now = 540]
    by (simp add: demo_scheduler_def opens_def form_event_ok_def)
  from form_more [OF this, where e = "GuestAdded (Some '' An@x.y'')" and today = "''2030-01-01''" and now = 540]
  have "form_run (\<lambda>n. []) [] (?step (GuestAdded (Some '' An@x.y'')) demo_scheduler)"
    by (simp add: opens_def form_event_ok_def)
  from form_more [OF this, where e = "SavePressed False" and today = "''2030-01-01''" and now = 540]
  have "form_run (\<lambda>n. []) [] posted_once"
    by (simp add: opens_def form_event_ok_def posted_once_def addParticipant_def alert_def Let_def demo_scheduler_def
        openCreate_meeting_def)
  moreover have "clock_time (fromTime ''10:00:00'')" "clock_time (fromTime ''11:00:00'')"
  proof -
    have "fromTime ''10:00:00'' = Some 600" "fromTime ''11:00:00'' = Some 660" by code_simp+
    then show "clock_time (fromTime ''10:00:00'')" "clock_time (fromTime ''11:00:00'')" by (simp_all add: clock_time_def)
  qed
  ultimately have "form_run (\<lambda>n. []) [] (?step (MeetingsCame [listed_meeting]) posted_once)"
    using form_more [where e = "MeetingsCame [listed_meeting]" and today = "''2030-01-01''" and now = 540]
    by (fastforce simp: opens_def form_event_ok_def listed_meeting_def)
  from form_more [OF this, where e = "EditOpened (meeting_of listed_meeting)" and today = "''2030-01-01''" and now = 540]
  have "form_run (\<lambda>n. []) [meeting_of listed_meeting]
      (?step (EditOpened (meeting_of listed_meeting)) (?step (MeetingsCame [listed_meeting]) posted_once))"
    by (simp add: opens_def form_event_ok_def meetings_answered_def)
  from form_more [OF this, where e = "TitleTyped ''Review''" and today = "''2030-01-01''" and now = 540]
  have "form_run (\<lambda>n. []) [meeting_of listed_meeting] (?step (TitleTyped ''Review'')
      (?step (EditOpened (meeting_of listed_meeting)) (?step (MeetingsCame [listed_meeting]) posted_once)))"
    by (simp add: opens_def form_event_ok_def)
  from form_more [OF this, where e = "SavePressed False" and today = "''2030-01-01''" and now = 540]
  show ?thesis by (simp add: opens_def form_event_ok_def posted_twice_def edit_draft_def openEdit_def)
qed

theorem posted_meetings_are_sound_witness:
  "list_all (request_ok [meeting_of listed_meeting]) (sc_requests posted_twice) \<and>
   map (\<lambda>r. case r of CreateMeeting p \<Rightarrow> (None, py_people p) | UpdateMeeting i p \<Rightarrow> (Some i, py_people p)
        | DeleteMeeting i \<Rightarrow> (None, [])) (sc_requests posted_twice) =
     [(None, [''an@x.y'']), (Some 7, [''Bo@x.y'', ''Bo@x.y''])]"
proof -
  have "map (\<lambda>r. case r of CreateMeeting p \<Rightarrow> (None, py_people p) | UpdateMeeting i p \<Rightarrow> (Some i, py_people p)
        | DeleteMeeting i \<Rightarrow> (None, [])) (sc_requests posted_twice) =
     [(None, [''an@x.y'']), (Some 7, [''Bo@x.y'', ''Bo@x.y''])]"
    by code_simp
  then show ?thesis using posted_meetings_are_sound [OF posted_twice_reached] by blast
qed

theorem save_asks_on_overlap_witness:
  "\<exists>s. sc_events s \<noteq> [] \<and> begin_save_meeting ''2030-01-01'' 540 False s \<noteq> begin_save_meeting ''2030-01-01'' 540 True s"
proof -
  define e where "e = \<lparr>mt_id = 4, mt_title = [], mt_date = ''2030-01-02'', mt_start = Some 620, mt_end = Some 700,
    mt_people = [], mt_link = None, mt_source = ''wayve''\<rparr>"
  define s where "s = demo_scheduler \<lparr>sc_events := [e]\<rparr>"
  have s: "toMinutes (dr_start (sc_draft s)) = Some 600" "toMinutes (dr_end (sc_draft s)) = Some 630"
    "\<forall>e \<in> set (sc_events s). mt_start e \<noteq> None \<and> mt_end e \<noteq> None"
    by (simp_all add: s_def demo_meeting_form toMinutes_toTime e_def)
  have "save_refused ''2030-01-01'' 540 s = None" using demo_saves(1) by (simp add: s_def save_refused_def Let_def)
  then have "begin_save_meeting ''2030-01-01'' 540 False s \<noteq> begin_save_meeting ''2030-01-01'' 540 True s"
    using conjunct1 [OF save_asks_on_overlap [OF s]]
    by (simp add: s_def demo_meeting_form) (simp add: e_def overlap_def lane_event_def)
  then show ?thesis by (intro exI [of _ s]) (simp add: s_def)
qed

theorem default_start_may_be_past_witness:
  "save_refused ''d'' 607 (openCreate_meeting None None ''d'' 607 fresh_scheduler) = Some ''Cannot create a meeting in the past''"
  using default_start_may_be_past [of 607 _ "''d''" fresh_scheduler, OF _ refl] by simp

theorem second_press_posts_again_witness:
  "length (sc_requests (form_step (\<lambda>n. []) ''2030-01-01'' 540 (SavePressed True)
     (form_step (\<lambda>n. []) ''2030-01-01'' 540 (SavePressed True) demo_scheduler))) = length (sc_requests demo_scheduler) + 2"
  unfolding second_press_posts_again [OF demo_saves] by simp

theorem enter_moves_typed_time_witness:
  "snd (picker_step (\<lambda>n. []) [\<lparr>to_value = toTime 660, to_label = ''11 AM''\<rparr>] (toTime 647) None EnterKey
     \<lparr>tsel_open = False, tsel_draft = [], tsel_active = None\<rparr>) = Some (toTime 660)"
proof -
  have u: "(647 :: nat) < 1440" by simp
  have "toTime 647 \<noteq> toTime 660" by (simp add: toTime_inj)
  then have new: "toTime 647 \<notin> to_value ` set [\<lparr>to_value = toTime 660, to_label = ''11 AM''\<rparr>]" by simp
  have slots: "\<forall>x \<in> set [\<lparr>to_value = toTime 660, to_label = ''11 AM''\<rparr>]. \<exists>k < 1440. to_value x = toTime k"
    by (simp add: exI [of _ 660])
  from enter_moves_typed_time [OF u refl new, of _ 660, OF _ _ _ slots refl, where f = "\<lambda>n. []" and least = None]
  show ?thesis by (auto simp: toMinutes_toTime)
qed

theorem picker_commits_within_bounds_witness:
  "\<exists>t1 v. picker_step (\<lambda>n. []) [\<lparr>to_value = toTime 660, to_label = ''11 AM''\<rparr>] (toTime 660) None (RowPressed 0)
     \<lparr>tsel_open = True, tsel_draft = [], tsel_active = None\<rparr> = (t1, Some v) \<and> \<not> tsel_open t1"
proof -
  have "picker_step (\<lambda>n. []) [\<lparr>to_value = toTime 660, to_label = ''11 AM''\<rparr>] (toTime 660) None (RowPressed 0)
     \<lparr>tsel_open = True, tsel_draft = [], tsel_active = None\<rparr>
    = (close_list \<lparr>tsel_open = True, tsel_draft = [], tsel_active = None\<rparr>, Some (toTime 660))"
    by (simp add: picker_step_def picker_rows_def filtered_options_def typed_query_def trim_def Let_def)
  from picker_commits_within_bounds [OF this] this show ?thesis by blast
qed

end
