(* ===== verification/Spec2Isabelle.thy ===== *)
theory Spec2Isabelle
  imports Layout_Shell Access_Control Inbox_Invariants Email_Conversation Reply_Recipients Event_Layout Time_Input Note_Encryption Mail_Encryption Org_Keys Secure_Send Diff_Tokens Diff_State Syntax_Language Login_Guard Api_Client Auth_Session Idle_Logout Call_Session Chat_Messages Open_Places Task_Board Compose_Mail Notes_Page Reminder_Popups Reply_Composer Mail_Reader Mail_Page Meeting_Form
begin

text \<open>
  A model of the core logic of the Wayve web client (the TypeScript under \<open>src/frontend/src\<close>).

  \<^bold>\<open>The program.\<close> Wayve is a workspace of mail, chat, calendar, notes, files, tasks and code
  repositories. The browser holds the keys: mail, chat, notes and files are encrypted before they
  reach the server, which stores envelopes. The client is a React application. Its pages call
  pure helper modules, hooks that keep a page's state, crypto modules over WebCrypto and
  IndexedDB, and one request layer. The model covers helpers, hooks, crypto and the request
  layer; the paths below are relative to \<open>src/frontend/src\<close>.

  \<^bold>\<open>The parts and their theories.\<close>

  \<^item> Shared: Prelude (errors and results of fallible and asynchronous code), Js_String (the string
    operations of the language), Json (\<open>JSON.stringify\<close> and \<open>JSON.parse\<close>), Bit_Strings,
    Web_Crypto (what the browser's cryptography provides, as a record of functions with its laws
    \<open>webcrypto_ok\<close>, and an instance that satisfies them).
  \<^item> The shell: Pane_Layout is \<open>components/paneLayout.ts\<close> and \<open>paneDnd.ts\<close> (up to three
    columns, each possibly split, and drag and drop); Layout_Shell is the part of
    \<open>components/Layout.tsx\<close> that owns the arrangement. Proved: a drag keeps every app, a drop keeps
    the arrangement well formed, the bounded duplicate removal is enough (six passes), and
    every state the gestures reach is well formed.
  \<^item> Access: Access_Control is \<open>auth/permissions.ts\<close> and the page gates. Proved: the role matrix
    is the documented hierarchy and an assigner cannot hand out more than intended.
  \<^item> Mail: Email_Conversation (\<open>emails/types.ts\<close>, \<open>conversation.ts\<close>), Email_Inbox
    (\<open>emails/useEmailInbox.ts\<close>), Inbox_Invariants and Reply_Recipients
    (\<open>emails/replyRecipients.ts\<close>). Proved: in any order of operations and answers a conversation
    comes to be listed twice exactly when one of the four operations that do not look puts it
    back beside itself, undo restores the list, badges stay exact, a
    reply is not sent to oneself; where the code falls short, the shortfall.
  \<^item> Reading mail: Mail_Reader is the half of \<open>emails/useEmailInbox.ts\<close> that opens a message,
    with the earlier messages of \<open>emails/ConversationView.tsx\<close>; Mail_Page the state of
    \<open>emails/Emails.tsx\<close> (panes and widths, the address, the tab's session, the notice with Undo).
    Proved: the pane shows the text of the mail wanted, whatever the order of the answers; the
    address names the open mail and a later visit comes back to it; and which renders and
    buttons undo a step back.
  \<^item> Calendar: Event_Layout (\<open>scheduler/eventLayout.ts\<close>), Time_Input (\<open>scheduler/dateUtils.ts\<close>),
    and Meeting_Form, the form of \<open>scheduler/Scheduler.tsx\<close> with \<open>scheduler/TimeSelect.tsx\<close>.
    Proved: lanes never overlap, what is posted ends after it starts within its day, saving asks
    exactly when a meeting overlaps; and the presses that post twice or move a time.
  \<^item> Keys and encryption: Key_Store (\<open>crypto/keyStore.ts\<close>), Message_Crypto (\<open>crypto/crypto.ts\<close>
    and the envelope chat and mail share), Chat_Encryption (\<open>chat/e2ee.ts\<close>), Mail_Encryption
    (\<open>emails/internalEnvelope.ts\<close>, \<open>emails/bodyUtils.ts\<close>), Note_Encryption
    (\<open>crypto/selfEncrypt.ts\<close>), File_Envelope (\<open>crypto/fileEnvelope.ts\<close>), Wordlist and Mnemonic
    (\<open>crypto/wordlist.ts\<close>, \<open>crypto/mnemonic.ts\<close>), Recovery (\<open>crypto/recovery.ts\<close>), Secure_Send
    (\<open>emails/secureSend.ts\<close>), Org_Keys (\<open>orgKeys/\<close>). Proved: every recipient reads what was
    sent and others are refused with the code's messages, what opens is authentic, phrases and
    envelopes round-trip, recovery gives back the device's keys, and waiting for a key ends.
  \<^item> Code repositories: Diff_Patch, Diff_Gaps, Diff_Rows and Diff_Tokens are
    \<open>github/commitDiff.tsx\<close> with \<open>github/syntaxHighlight.ts\<close>: parsing a patch, hiding whitespace,
    revealing what the patch left out, both layouts with their comments, colours and search
    marks. Syntax_Language chooses the grammar, and Diff_State is the hook
    \<open>github/commitDiffData.ts\<close>. Proved: a printed patch is read back, numbering stays consecutive,
    finitely many clicks show the file, the layouts agree, a comment has one place, and the
    hook refines the small machine of panels a commit shows, late second answers apart.
  \<^item> Signing in and requests: Login_Guard (\<open>auth/authKey.ts\<close>, \<open>api/Auth.ts\<close>), Api_Client
    (\<open>auth/token.ts\<close>, \<open>api/client.ts\<close>, \<open>api/cache.ts\<close>) and Chat_Socket
    (\<open>chat/hooks/useChatSocket.ts\<close>). Proved: the password is not sent once the browser has used
    the derived key, an expiry is announced once, what is shared and cached, that the chat
    connection is never abandoned, and when a read receipt is sent.
  \<^item> The session: Auth_Session is \<open>auth/AuthContext.tsx\<close> with \<open>auth/bootToken.ts\<close> (booting from a
    token, signing in, the set-up of the keys, the confirmed phrase, expiry, sign-out), and
    Idle_Logout is \<open>auth/useIdleLogout.ts\<close> in every tab. Proved: the phrase of a registration
    gives its keys back, keys on the device or in an envelope are not replaced, a tab signs out only when it was idle
    for half an hour itself, and when the storage works no tab was used, and it does so within fifteen seconds; and what an interrupted registration, a failed request, a late profile or
    a phrase left on the screen does.
  \<^item> Open places: Open_Places is \<open>chat/openChatSession.ts\<close>, \<open>emails/openEmailSession.ts\<close>,
    \<open>notes/openNoteSession.ts\<close> and \<open>github/openRepoSession.ts\<close>. Proved: a place or draft comes
    back to the user who left it, within the bounds on what is kept.
  \<^item> Chat and calls: Chat_Messages is the message window of \<open>chat/Chat.tsx\<close> on top of Chat_Socket,
    Call_Session the calling hook \<open>call/useCallSession.ts\<close> with the browser's streams and
    connections numbered. Proved: which steps of overlapping handlers leave the window with
    messages of one conversation, each once, and which do not; a refused send is given back;
    while nothing interrupts an answer, a call follows the machine of a phone and no microphone
    runs without a call; and what happens when an answer is late.
  \<^item> Tasks: Task_Board is \<open>tasks/Tasks.tsx\<close> with \<open>api/taskStatuses.ts\<close>. Proved: the list stays
    sorted, and free of doubles but where a created task is listed before its answer, saving is enabled exactly when something changed, an inline
    change loses no other field, a column sort is stable; and where failures leave the board.
  \<^item> Writing mail: Compose_Mail is \<open>emails/SendEmail.tsx\<close> (the form, the contact menu, and a send
    over three channels as a list of requests), Reply_Composer the composers of
    \<open>emails/EmailDetail.tsx\<close> on top of Recipient_Chips (\<open>emails/RecipientChips.tsx\<close>). Proved: with Fluxze-only on no plain mail goes elsewhere, each
    recipient gets the mail over one channel and can read it, what is posted is addressed; and
    what a partial failure, a late answer or another message on the screen does.
  \<^item> Notes and alerts: Notes_Page is \<open>notes/Notes.tsx\<close> on top of Open_Places and Note_Encryption,
    Reminder_Popups is \<open>components/ReminderPopups.tsx\<close>. Proved: the editor comes back after
    leaving the page, an alert is shown, announced once for each snooze, and stays away when
    dismissed; and which texts an unfinished save or load loses.

  \<^bold>\<open>How the code is modelled.\<close>

  \<^item> A function that throws, or an \<open>async\<close> function, is a function to \<open>'a result\<close>, an error or
    the resolved value. Where two calls can interleave at an \<open>await\<close>, the code before and after it
    are two definitions (\<open>begin_\<close> and \<open>finish_\<close>) with the answer as an argument, and step relations
    run them in any order.
  \<^item> State that a hook or module keeps is a record, passed and returned. A JavaScript \<open>Set\<close> is a
    list without repetitions, a map or object used as one is a function to options or an
    association list where its order matters.
  \<^item> Strings are lists of Latin-1 characters; a dash or ellipsis outside it is a named
    placeholder. Numbers are integers, exact as the code's doubles are below \<open>2 ^ 53\<close>; bytes
    are 8-bit words and the file header's fields are computed in 32-bit words.
  \<^item> Random draws, the clock and server answers are arguments. The browser's cryptography, the
    key derivation of sign-in, the syntax highlighter and the tree it returns are parameters;
    their named hypotheses (\<open>webcrypto_ok\<close>, \<open>keeps_code\<close>) state what their documentation says, and
    witnesses instantiate them.
  \<^item> Loops are structural recursions, except where a measure is given. The JSON parser takes
    fuel, twice the length of its input plus two, which is proved enough for printed values; the
    duplicate removal of the panes has the six passes of the source; the wait for an
    organisation key is a loop with a measure.
  \<^item> A contract several functions share is a locale, interpreted on the model's definitions.

  \<^bold>\<open>Not modelled.\<close> The server (\<open>src/backend\<close>, in Rust) is a separate program whose answers are
  arguments. The React components' markup, styles and event wiring, the marketing and
  documentation pages, the wrappers of single HTTP requests, logging, audio, notifications and
  window integration are I/O without a decision of their own. Desktop and mobile shells, tests, generated data and the vendored
  API browser are outside the client's own logic.
\<close>

end
